(* ===== verification/Wf_Prelude.thy ===== *)
theory Wf_Prelude
  imports Main "HOL-Library.Word" "HOL-Library.Multiset" "HOL-Library.Monad_Syntax"
begin

text \<open>
  Shared vocabulary of the development: the driver's machine integers
  (\<open>src/trunk_driver/os/wf_typedef.h\<close>), its return codes, bounded access to byte
  buffers, and the conversions between bytes and wider words that the macros of
  \<open>wf_mix.h\<close> and \<open>wf_typedef.h\<close> perform.

  A C expression that reads or writes outside the object a pointer points to has no
  defined result. The buffer operations below therefore return an option: \<open>None\<close> is
  an access outside the buffer, \<open>Some\<close> is the value the code computes. A theorem
  that states \<open>f x = Some y\<close> so also states that the code stays inside the buffer.
\<close>

unbundle bit_operations_syntax

section \<open>Types and return codes\<close>

type_synonym u8 = "8 word"
type_synonym u16 = "16 word"
type_synonym u32 = "32 word"
type_synonym u64 = "64 word"

type_synonym bytes = "u8 list"

text \<open>\<open>WF_RETURN_OK\<close> and \<open>WF_RETURN_FAIL\<close> of \<open>wf_typedef.h\<close>.\<close>

abbreviation (input) WF_RETURN_OK :: int where
  "WF_RETURN_OK \<equiv> 0"

abbreviation (input) WF_RETURN_FAIL :: int where
  "WF_RETURN_FAIL \<equiv> -1"

named_theorems buf_simps \<open>reading and writing byte buffers\<close>
named_theorems word_fold \<open>constants and layouts unfolded in evaluation\<close>

section \<open>Bounded access to byte buffers\<close>

definition rd8 :: "bytes \<Rightarrow> nat \<Rightarrow> u8 option" where
  "rd8 buf i = (if i < length buf then Some (buf ! i) else None)"

definition rdn :: "bytes \<Rightarrow> nat \<Rightarrow> nat \<Rightarrow> bytes option" where
  "rdn buf i n = (if i + n \<le> length buf then Some (take n (drop i buf)) else None)"

definition wrn :: "bytes \<Rightarrow> nat \<Rightarrow> bytes \<Rightarrow> bytes option" where
  "wrn buf i bs =
     (if i + length bs \<le> length buf
      then Some (take i buf @ bs @ drop (i + length bs) buf) else None)"

lemma rd8_Some_iff [buf_simps]: "rd8 buf i = Some v \<longleftrightarrow> i < length buf \<and> buf ! i = v"
  by (simp add: rd8_def)

lemma rd8_None_iff [buf_simps]: "rd8 buf i = None \<longleftrightarrow> length buf \<le> i"
  by (simp add: rd8_def not_less)

lemma rdn_Some_iff [buf_simps]:
  "rdn buf i n = Some bs \<longleftrightarrow> i + n \<le> length buf \<and> bs = take n (drop i buf)"
  by (auto simp: rdn_def)

lemma rdn_None_iff [buf_simps]: "rdn buf i n = None \<longleftrightarrow> length buf < i + n"
  by (simp add: rdn_def not_le)

lemma wrn_Some_iff [buf_simps]:
  "wrn buf i bs = Some buf' \<longleftrightarrow>
     i + length bs \<le> length buf \<and> buf' = take i buf @ bs @ drop (i + length bs) buf"
  by (auto simp: wrn_def)

lemma wrn_length: "wrn buf i bs = Some buf' \<Longrightarrow> length buf' = length buf"
  by (auto simp: wrn_def split: if_splits)

lemma rdn_wrn_same: "wrn buf i bs = Some buf' \<Longrightarrow> rdn buf' i (length bs) = Some bs"
  by (auto simp: wrn_def rdn_def split: if_splits)

lemma rdn_length: "rdn buf i n = Some bs \<Longrightarrow> length bs = n"
  by (auto simp: rdn_def split: if_splits)

lemma rdn_append_mid: "rdn (pre @ mid @ post) (length pre) (length mid) = Some mid"
  by (simp add: rdn_def)

lemma wrn_append_mid:
  "length bs = length mid \<Longrightarrow>
     wrn (pre @ mid @ post) (length pre) bs = Some (pre @ bs @ post)"
  by (simp add: wrn_def)

section \<open>Bytes and wider words\<close>

text \<open>Little-endian split and join of a 32-bit word: the layout of a \<open>wf_u32\<close> on the
  little-endian targets the driver is built for (\<open>CONFIG_LITTLE_ENDIAN\<close>).\<close>

definition le32_bytes :: "u32 \<Rightarrow> bytes" where
  "le32_bytes w = [ucast w, ucast (drop_bit 8 w), ucast (drop_bit 16 w), ucast (drop_bit 24 w)]"

definition le32_of :: "u8 \<Rightarrow> u8 \<Rightarrow> u8 \<Rightarrow> u8 \<Rightarrow> u32" where
  "le32_of a b c d =
     ucast a OR push_bit 8 (ucast b) OR push_bit 16 (ucast c) OR push_bit 24 (ucast d)"

definition le16_of :: "u8 \<Rightarrow> u8 \<Rightarrow> u16" where
  "le16_of a b = ucast a OR push_bit 8 (ucast b)"

definition le16_bytes :: "u16 \<Rightarrow> bytes" where
  "le16_bytes w = [ucast w, ucast (drop_bit 8 w)]"

definition be16_of :: "u8 \<Rightarrow> u8 \<Rightarrow> u16" where
  "be16_of a b = push_bit 8 (ucast a) OR ucast b"

definition be32_of :: "u8 \<Rightarrow> u8 \<Rightarrow> u8 \<Rightarrow> u8 \<Rightarrow> u32" where
  "be32_of a b c d =
     push_bit 24 (ucast a) OR push_bit 16 (ucast b) OR push_bit 8 (ucast c) OR ucast d"

text \<open>Reading little-endian numbers of a buffer.\<close>

definition rd_le16 :: "bytes \<Rightarrow> nat \<Rightarrow> u16 option" where
  "rd_le16 buf i = do { a \<leftarrow> rd8 buf i; b \<leftarrow> rd8 buf (i + 1); Some (le16_of a b) }"

definition rd_le32 :: "bytes \<Rightarrow> nat \<Rightarrow> u32 option" where
  "rd_le32 buf i = do {
     a \<leftarrow> rd8 buf i; b \<leftarrow> rd8 buf (i + 1); c \<leftarrow> rd8 buf (i + 2); d \<leftarrow> rd8 buf (i + 3);
     Some (le32_of a b c d)
   }"

lemma length_le32_bytes [simp]: "length (le32_bytes w) = 4"
  by (simp add: le32_bytes_def)

lemma le32_of_bytes:
  "le32_of (ucast w) (ucast (drop_bit 8 w)) (ucast (drop_bit 16 w)) (ucast (drop_bit 24 w)) = w"
  unfolding le32_of_def
proof (rule bit_word_eqI)
  fix n :: nat
  assume "n < LENGTH(32)"
  then consider "n < 8" | "8 \<le> n \<and> n < 16" | "16 \<le> n \<and> n < 24" | "24 \<le> n \<and> n < 32"
    by (simp only: len_num1 len_num0 len_bit0 len_bit1) linarith
  then show "bit ((ucast (ucast w :: u8) :: u32) OR push_bit 8 (ucast (ucast (drop_bit 8 w) :: u8)) OR
      push_bit 16 (ucast (ucast (drop_bit 16 w) :: u8)) OR
      push_bit 24 (ucast (ucast (drop_bit 24 w) :: u8))) n = bit w n"
    by cases (auto simp: bit_simps)
qed

lemma le32_bytes_of: "le32_bytes (le32_of a b c d) = [a, b, c, d]"
proof -
  have "ucast (le32_of a b c d) = a"
    unfolding le32_of_def by (rule bit_word_eqI) (auto simp: bit_simps)
  moreover have "ucast (drop_bit 8 (le32_of a b c d)) = b"
    unfolding le32_of_def by (rule bit_word_eqI) (auto simp: bit_simps dest: bit_imp_le_length)
  moreover have "ucast (drop_bit 16 (le32_of a b c d)) = c"
    unfolding le32_of_def by (rule bit_word_eqI) (auto simp: bit_simps dest: bit_imp_le_length)
  moreover have "ucast (drop_bit 24 (le32_of a b c d)) = d"
    unfolding le32_of_def by (rule bit_word_eqI) (auto simp: bit_simps dest: bit_imp_le_length)
  ultimately show ?thesis by (simp add: le32_bytes_def)
qed

lemma le32_bytes_inj: "le32_bytes v = le32_bytes w \<longleftrightarrow> v = w"
proof
  assume "le32_bytes v = le32_bytes w"
  then have "le32_of (ucast v) (ucast (drop_bit 8 v)) (ucast (drop_bit 16 v)) (ucast (drop_bit 24 v)) =
             le32_of (ucast w) (ucast (drop_bit 8 w)) (ucast (drop_bit 16 w)) (ucast (drop_bit 24 w))"
    by (simp add: le32_bytes_def)
  then show "v = w" by (simp only: le32_of_bytes)
qed simp

lemma ucast_u8_u32_u8 [simp]: "ucast (ucast (b :: u8) :: u32) = b"
  by (rule bit_word_eqI) (simp add: bit_simps)

lemma ucast_u8_u16_u8 [simp]: "ucast (ucast (b :: u8) :: u16) = b"
  by (rule bit_word_eqI) (simp add: bit_simps)

lemma xor_cancel_right [simp]: "((a :: 'a :: len word) XOR b) XOR b = a"
  by (simp add: xor.assoc)

lemma unat_u8_less: "unat (w :: u8) < 256"
proof -
  have "unat w < 2 ^ LENGTH(8)" by (rule unsigned_less)
  then show ?thesis by simp
qed

lemma unat_u16_less: "unat (w :: u16) < 65536"
proof -
  have "unat w < 2 ^ LENGTH(16)" by (rule unsigned_less)
  then show ?thesis by simp
qed

lemma unat_drop_bit: "unat (drop_bit n (w :: 'a :: len word)) = unat w div 2 ^ n"
proof -
  have "unat (drop_bit n w) = drop_bit n (take_bit LENGTH('a) (unat w))"
    by (rule unsigned_drop_bit_eq)
  also have "take_bit LENGTH('a) (unat w) = unat w"
    by (rule take_bit_nat_eq_self) (rule unsigned_less)
  finally show ?thesis by (simp only: drop_bit_eq_div)
qed

lemma unat_of_nat_u32: "k < 2 ^ 32 \<Longrightarrow> unat (of_nat k :: u32) = k"
  by (simp add: unsigned_of_nat take_bit_nat_eq_self)

lemma unat_of_nat_u16: "k < 2 ^ 16 \<Longrightarrow> unat (of_nat k :: u16) = k"
  by (simp add: unsigned_of_nat take_bit_nat_eq_self)

lemma sint_of_nat_u32: "k < 2 ^ 31 \<Longrightarrow> sint (of_nat k :: u32) = int k"
  by (simp add: signed_of_nat signed_take_bit_int_eq_self)

lemma ucast_of_nat_unat: "ucast w = (of_nat (unat w) :: 'b :: len word)"
  by simp

lemma length_le16_bytes [simp]: "length (le16_bytes w) = 2"
  by (simp add: le16_bytes_def)

lemma le16_of_bytes: "le16_of (ucast w) (ucast (drop_bit 8 w)) = w"
  unfolding le16_of_def by (rule bit_word_eqI) (auto simp: bit_simps)

lemma rd_le16_put: "i = length x \<Longrightarrow> rd_le16 (x @ le16_bytes w @ r) i = Some w"
  by (simp add: rd_le16_def rd8_def le16_bytes_def le16_of_bytes nth_append)

lemma rd_right:
  "length h \<le> i \<Longrightarrow> rd8 (h @ b) i = rd8 b (i - length h)"
  "length h \<le> i \<Longrightarrow> rd_le16 (h @ b) i = rd_le16 b (i - length h)"
  by (auto simp: rd_le16_def rd8_def nth_append Suc_diff_le)

section \<open>Generic list lemmas\<close>

lemma list_update_swap_mset:
  "i < length xs \<Longrightarrow> j < length xs \<Longrightarrow> mset (xs[i := xs ! j, j := xs ! i]) = mset xs"
  by (simp add: mset_swap)

lemma find_Some_split:
  "List.find P xs = Some x \<Longrightarrow> \<exists>ys zs. xs = ys @ x # zs \<and> P x \<and> (\<forall>y\<in>set ys. \<not> P y)"
proof (induction xs)
  case (Cons a xs)
  show ?case
  proof (cases "P a")
    case True
    with Cons.prems have "a # xs = [] @ x # xs \<and> P x" by auto
    then show ?thesis by (metis empty_iff list.set(1))
  next
    case False
    with Cons.prems obtain ys zs where "xs = ys @ x # zs" "P x" "\<forall>y\<in>set ys. \<not> P y"
      using Cons.IH by auto
    with False have "a # xs = (a # ys) @ x # zs \<and> P x \<and> (\<forall>y\<in>set (a # ys). \<not> P y)" by auto
    then show ?thesis by blast
  qed
qed simp

lemma find_SomeD: "List.find P xs = Some x \<Longrightarrow> x \<in> set xs \<and> P x"
  by (induction xs) (auto split: if_splits)

lemma find_None_all: "List.find P xs = None \<longleftrightarrow> (\<forall>x\<in>set xs. \<not> P x)"
  by (induction xs) auto

lemma find_append:
  "List.find P (xs @ ys) = (case List.find P xs of None \<Rightarrow> List.find P ys | Some x \<Rightarrow> Some x)"
  by (induction xs) auto

lemma u32_to_u16: "(ucast (of_nat n :: u32) :: u16) = of_nat n"
  by (rule bit_word_eqI) (simp add: bit_simps)

end
