(* ===== verification/Wf_List.thy ===== *)
theory Wf_List
  imports Wf_Prelude
begin

text \<open>
  The intrusive doubly linked list of \<open>src/trunk_driver/nic/utility/wf_list.h\<close>. A
  \<open>wf_list_t\<close> is a pair of pointers, so the memory is two functions from the address
  of a list node to the addresses in its \<open>pnext\<close> and \<open>prev\<close> fields; every
  operation is the sequence of assignments of its body. The predicate \<open>dll\<close> says
  that a head and its nodes form a circular list; the lemmas say what each operation
  does to the sequence of nodes and that it leaves disjoint lists alone.
\<close>

section \<open>Memory and operations\<close>

type_synonym ptr = nat

record wf_mem =
  pnext :: "ptr \<Rightarrow> ptr"
  prev :: "ptr \<Rightarrow> ptr"

abbreviation set_pnext :: "ptr \<Rightarrow> ptr \<Rightarrow> 'a wf_mem_scheme \<Rightarrow> 'a wf_mem_scheme" where
  "set_pnext p v m \<equiv> m\<lparr>pnext := (pnext m)(p := v)\<rparr>"

abbreviation set_prev :: "ptr \<Rightarrow> ptr \<Rightarrow> 'a wf_mem_scheme \<Rightarrow> 'a wf_mem_scheme" where
  "set_prev p v m \<equiv> m\<lparr>prev := (prev m)(p := v)\<rparr>"

definition wf_list_next :: "ptr \<Rightarrow> 'a wf_mem_scheme \<Rightarrow> ptr" where
  "wf_list_next pos m = pnext m pos"

definition wf_list_prev :: "ptr \<Rightarrow> 'a wf_mem_scheme \<Rightarrow> ptr" where
  "wf_list_prev pos m = prev m pos"

definition wf_list_is_empty :: "ptr \<Rightarrow> 'a wf_mem_scheme \<Rightarrow> bool" where
  "wf_list_is_empty phead m \<longleftrightarrow> wf_list_next phead m = phead"

definition wf_list_insert :: "ptr \<Rightarrow> ptr \<Rightarrow> ptr \<Rightarrow> 'a wf_mem_scheme \<Rightarrow> 'a wf_mem_scheme" where
  "wf_list_insert pnew prv nxt m =
     (let m1 = set_prev nxt pnew m;
          m2 = set_pnext pnew nxt m1;
          m3 = set_prev pnew prv m2
      in set_pnext prv pnew m3)"

definition wf_list_insert_next :: "ptr \<Rightarrow> ptr \<Rightarrow> 'a wf_mem_scheme \<Rightarrow> 'a wf_mem_scheme" where
  "wf_list_insert_next pnew pos m = wf_list_insert pnew pos (wf_list_next pos m) m"

definition wf_list_insert_prev :: "ptr \<Rightarrow> ptr \<Rightarrow> 'a wf_mem_scheme \<Rightarrow> 'a wf_mem_scheme" where
  "wf_list_insert_prev pnew pos m = wf_list_insert pnew (wf_list_prev pos m) pos m"

definition wf_list_insert_head :: "ptr \<Rightarrow> ptr \<Rightarrow> 'a wf_mem_scheme \<Rightarrow> 'a wf_mem_scheme" where
  "wf_list_insert_head pnew phead m = wf_list_insert_next pnew phead m"

definition wf_list_insert_tail :: "ptr \<Rightarrow> ptr \<Rightarrow> 'a wf_mem_scheme \<Rightarrow> 'a wf_mem_scheme" where
  "wf_list_insert_tail pnew phead m = wf_list_insert_prev pnew phead m"

definition wf_list_del :: "ptr \<Rightarrow> ptr \<Rightarrow> 'a wf_mem_scheme \<Rightarrow> 'a wf_mem_scheme" where
  "wf_list_del prv nxt m = set_pnext prv nxt (set_prev nxt prv m)"

definition wf_list_init :: "ptr \<Rightarrow> 'a wf_mem_scheme \<Rightarrow> 'a wf_mem_scheme" where
  "wf_list_init plist m = set_pnext plist plist (set_prev plist plist m)"

definition wf_list_delete :: "ptr \<Rightarrow> 'a wf_mem_scheme \<Rightarrow> 'a wf_mem_scheme" where
  "wf_list_delete pos m =
     wf_list_init pos (wf_list_del (wf_list_prev pos m) (wf_list_next pos m) m)"

text \<open>
  The macros \<open>wf_list_for_each\<close> and \<open>wf_list_for_each_prev\<close>, as the loops that
  use them: walk from \<open>pos\<close> until the head comes round or the body breaks at a node
  that satisfies \<open>P\<close>; the result is the final value of \<open>pos\<close>. A walk that never
  meets the head does not return, hence the option.
\<close>

partial_function (option) wf_list_for_each ::
  "'a wf_mem_scheme \<Rightarrow> ptr \<Rightarrow> (ptr \<Rightarrow> bool) \<Rightarrow> ptr \<Rightarrow> ptr option" where
  "wf_list_for_each m head P pos =
     (if pos = head then Some head
      else if P pos then Some pos
      else wf_list_for_each m head P (pnext m pos))"

partial_function (option) wf_list_for_each_prev ::
  "'a wf_mem_scheme \<Rightarrow> ptr \<Rightarrow> (ptr \<Rightarrow> bool) \<Rightarrow> ptr \<Rightarrow> ptr option" where
  "wf_list_for_each_prev m head P pos =
     (if pos = head then Some head
      else if P pos then Some pos
      else wf_list_for_each_prev m head P (prev m pos))"

lemmas wf_list_defs =
  wf_list_next_def wf_list_prev_def wf_list_is_empty_def wf_list_insert_def
  wf_list_insert_next_def wf_list_insert_prev_def wf_list_insert_head_def
  wf_list_insert_tail_def wf_list_del_def wf_list_init_def wf_list_delete_def

section \<open>Circular lists\<close>

text \<open>\<open>lseg m a xs b\<close>: from \<open>a\<close>, the \<open>pnext\<close> links run through \<open>xs\<close> to \<open>b\<close>
  and the \<open>prev\<close> links run back.\<close>

primrec lseg :: "'a wf_mem_scheme \<Rightarrow> ptr \<Rightarrow> ptr list \<Rightarrow> ptr \<Rightarrow> bool" where
  "lseg m a [] b \<longleftrightarrow> pnext m a = b \<and> prev m b = a"
| "lseg m a (x # xs) b \<longleftrightarrow> pnext m a = x \<and> prev m x = a \<and> lseg m x xs b"

definition dll :: "'a wf_mem_scheme \<Rightarrow> ptr \<Rightarrow> ptr list \<Rightarrow> bool" where
  "dll m head xs \<longleftrightarrow> distinct (head # xs) \<and> lseg m head xs head"

lemma lseg_append:
  "lseg m a (xs @ y # ys) b \<longleftrightarrow> lseg m a xs y \<and> lseg m y ys b"
  by (induction xs arbitrary: a) auto

lemma lseg_cong:
  "(\<forall>p \<in> insert a (set xs). pnext m' p = pnext m p) \<Longrightarrow>
   (\<forall>p \<in> insert b (set xs). prev m' p = prev m p) \<Longrightarrow> lseg m' a xs b = lseg m a xs b"
  by (induction xs arbitrary: a) auto

lemma lseg_next: "lseg m a xs b \<Longrightarrow> pnext m a = hd (xs @ [b])"
  by (cases xs) auto

lemma lseg_prev: "lseg m a xs b \<Longrightarrow> prev m b = last (a # xs)"
  by (induction xs arbitrary: a) auto

lemma dll_empty [simp]: "dll m head [] \<longleftrightarrow> pnext m head = head \<and> prev m head = head"
  by (simp add: dll_def)

lemma dll_next: "dll m head xs \<Longrightarrow> pnext m head = hd (xs @ [head])"
  by (auto simp: dll_def dest: lseg_next)

lemma dll_prev: "dll m head xs \<Longrightarrow> prev m head = last (head # xs)"
  unfolding dll_def by (blast dest: lseg_prev)

lemma dll_prev_node: "dll m head (xs @ y # ys) \<Longrightarrow> prev m y = last (head # xs)"
  unfolding dll_def lseg_append by (blast dest: lseg_prev)

lemma dll_next_node: "dll m head (xs @ y # ys) \<Longrightarrow> pnext m y = hd (ys @ [head])"
  unfolding dll_def lseg_append by (blast dest: lseg_next)

lemma dll_is_empty_iff: "dll m head xs \<Longrightarrow> wf_list_is_empty head m \<longleftrightarrow> xs = []"
  by (cases xs) (auto simp: wf_list_defs dll_def)

lemma dll_frame:
  assumes "dll m head xs"
    and "\<And>p. p \<in> insert head (set xs) \<Longrightarrow> pnext m' p = pnext m p \<and> prev m' p = prev m p"
  shows "dll m' head xs"
  using assms unfolding dll_def
  by (metis insertI1 insert_iff lseg_cong)

text \<open>The list a node belongs to determines the sequence of its nodes.\<close>

lemma lseg_unique:
  "lseg m a xs b \<Longrightarrow> lseg m a ys b \<Longrightarrow> b \<notin> set xs \<Longrightarrow> b \<notin> set ys \<Longrightarrow> xs = ys"
proof (induction xs arbitrary: a ys)
  case Nil
  then show ?case by (cases ys) auto
next
  case (Cons x xs)
  then show ?case by (cases ys) auto
qed

lemma dll_unique: "dll m head xs \<Longrightarrow> dll m head ys \<Longrightarrow> xs = ys"
  unfolding dll_def by (auto intro: lseg_unique)

section \<open>Effect of the operations\<close>

lemma wf_list_init_dll: "dll (wf_list_init head m) head []"
  by (simp add: wf_list_init_def)

lemma lseg_insert:
  assumes "lseg m a (us @ vs) b" "distinct (a # us @ vs)" "b \<notin> set (us @ vs)"
    "pnew \<notin> set (a # b # us @ vs)"
  shows "lseg (wf_list_insert pnew (last (a # us)) (hd (vs @ [b])) m) a (us @ pnew # vs) b"
  using assms
proof (induction us arbitrary: a)
  case Nil
  show ?case
  proof (cases vs)
    case (Cons v ws)
    let ?m = "wf_list_insert pnew a v m"
    have "lseg ?m v ws b = lseg m v ws b"
      using Nil Cons by (intro lseg_cong) (auto simp: wf_list_insert_def Let_def)
    with Nil Cons show ?thesis by (auto simp: wf_list_insert_def Let_def)
  qed (use Nil in \<open>auto simp: wf_list_insert_def Let_def\<close>)
next
  case (Cons u us)
  let ?m = "wf_list_insert pnew (last (u # us)) (hd (vs @ [b])) m"
  have "lseg ?m u (us @ pnew # vs) b"
    using Cons by (intro Cons.IH) auto
  moreover have "pnext ?m a = u"
    using Cons.prems last_in_set [of "u # us"] by (auto simp: wf_list_insert_def Let_def)
  moreover have "prev ?m u = a"
    using Cons.prems by (cases vs) (auto simp: wf_list_insert_def Let_def)
  ultimately show ?case by simp
qed

lemma lseg_del:
  assumes "lseg m a (us @ p # vs) b" "distinct (a # us @ p # vs)" "b \<notin> set (us @ p # vs)"
  shows "lseg (wf_list_del (last (a # us)) (hd (vs @ [b])) m) a (us @ vs) b"
  using assms
proof (induction us arbitrary: a)
  case Nil
  show ?case
  proof (cases vs)
    case (Cons v ws)
    let ?m = "wf_list_del a v m"
    have "lseg ?m v ws b = lseg m v ws b"
      using Nil Cons by (intro lseg_cong) (auto simp: wf_list_del_def)
    with Nil Cons show ?thesis by (auto simp: wf_list_del_def)
  qed (use Nil in \<open>auto simp: wf_list_del_def\<close>)
next
  case (Cons u us)
  let ?m = "wf_list_del (last (u # us)) (hd (vs @ [b])) m"
  have "lseg ?m u (us @ vs) b"
    using Cons by (intro Cons.IH) auto
  moreover have "pnext ?m a = u"
    using Cons.prems last_in_set [of "u # us"] by (auto simp: wf_list_del_def)
  moreover have "prev ?m u = a"
    using Cons.prems by (cases vs) (auto simp: wf_list_del_def)
  ultimately show ?case by simp
qed

text \<open>Insertion after the node that ends the prefix \<open>us\<close> (the head when \<open>us\<close> is empty).\<close>

lemma dll_insert_next:
  assumes "dll m head (us @ vs)" "pnew \<notin> set (head # us @ vs)"
  shows "dll (wf_list_insert_next pnew (last (head # us)) m) head (us @ pnew # vs)"
proof -
  have "pnext m (last (head # us)) = hd (vs @ [head])"
  proof (cases us rule: rev_cases)
    case Nil
    with assms(1) show ?thesis by (simp add: dll_next)
  next
    case (snoc ws w)
    with assms(1) show ?thesis by (simp add: dll_next_node [of m head ws w vs])
  qed
  moreover have "lseg (wf_list_insert pnew (last (head # us)) (hd (vs @ [head])) m)
      head (us @ pnew # vs) head"
    using assms unfolding dll_def by (intro lseg_insert) auto
  ultimately show ?thesis
    using assms by (auto simp: dll_def wf_list_insert_next_def wf_list_next_def)
qed

lemma dll_insert_prev:
  assumes "dll m head (us @ vs)" "pnew \<notin> set (head # us @ vs)"
  shows "dll (wf_list_insert_prev pnew (hd (vs @ [head])) m) head (us @ pnew # vs)"
proof -
  have "prev m (hd (vs @ [head])) = last (head # us)"
  proof (cases vs)
    case Nil
    with assms(1) show ?thesis using dll_prev [of m head us] by simp
  next
    case (Cons w ws)
    with assms(1) show ?thesis using dll_prev_node [of m head us w ws] by simp
  qed
  moreover have "lseg (wf_list_insert pnew (last (head # us)) (hd (vs @ [head])) m)
      head (us @ pnew # vs) head"
    using assms unfolding dll_def by (intro lseg_insert) auto
  ultimately show ?thesis
    using assms by (auto simp: dll_def wf_list_insert_prev_def wf_list_prev_def)
qed

lemma dll_delete:
  assumes "dll m head (us @ p # vs)"
  shows "dll (wf_list_delete p m) head (us @ vs)"
proof -
  let ?m = "wf_list_del (last (head # us)) (hd (vs @ [head])) m"
  have links: "prev m p = last (head # us)" "pnext m p = hd (vs @ [head])"
    using dll_prev_node [OF assms] dll_next_node [OF assms] by auto
  have "lseg ?m head (us @ vs) head"
    using assms unfolding dll_def by (intro lseg_del) auto
  then have "dll ?m head (us @ vs)"
    using assms by (simp add: dll_def)
  then have "dll (wf_list_init p ?m) head (us @ vs)"
    by (rule dll_frame) (use assms in \<open>auto simp: wf_list_init_def dll_def\<close>)
  then show ?thesis
    by (simp add: wf_list_delete_def wf_list_prev_def wf_list_next_def links)
qed

lemma wf_list_delete_self: "dll (wf_list_delete p m) p []"
  unfolding wf_list_delete_def by (rule wf_list_init_dll)

section \<open>Frame conditions\<close>

text \<open>An operation on one list leaves every list whose nodes are disjoint from it as it was.\<close>

lemma dll_mem_next: "dll m head xs \<Longrightarrow> p \<in> insert head (set xs) \<Longrightarrow> pnext m p \<in> insert head (set xs)"
proof -
  assume d: "dll m head xs" and "p \<in> insert head (set xs)"
  then consider "p = head" | us vs where "xs = us @ p # vs" by (auto dest: split_list)
  then show ?thesis
  proof cases
    case 1
    with d show ?thesis by (cases xs) (auto simp: dll_next)
  next
    case 2
    with d show ?thesis by (cases vs) (auto simp: dll_next_node)
  qed
qed

lemma dll_mem_prev: "dll m head xs \<Longrightarrow> p \<in> insert head (set xs) \<Longrightarrow> prev m p \<in> insert head (set xs)"
proof -
  assume d: "dll m head xs" and "p \<in> insert head (set xs)"
  then consider "p = head" | us vs where "xs = us @ p # vs" by (auto dest: split_list)
  then show ?thesis
  proof cases
    case 1
    with dll_prev [OF d] show ?thesis by (cases xs) auto
  next
    case 2
    with d dll_prev_node [of m head us p vs] show ?thesis by (cases us) auto
  qed
qed

lemma dll_insert_next_frame:
  assumes "dll m h1 xs" "pos \<in> insert h1 (set xs)"
    "dll m h2 ys" "insert h1 (set xs) \<inter> insert h2 (set ys) = {}" "pnew \<notin> insert h2 (set ys)"
  shows "dll (wf_list_insert_next pnew pos m) h2 ys"
  using assms(3)
proof (rule dll_frame)
  fix p
  assume "p \<in> insert h2 (set ys)"
  moreover have "pnext m pos \<in> insert h1 (set xs)" using assms(1,2) by (rule dll_mem_next)
  ultimately show "pnext (wf_list_insert_next pnew pos m) p = pnext m p \<and>
      prev (wf_list_insert_next pnew pos m) p = prev m p"
    using assms(2,4,5) by (auto simp: wf_list_insert_next_def wf_list_insert_def wf_list_next_def Let_def)
qed

lemma dll_insert_prev_frame:
  assumes "dll m h1 xs" "pos \<in> insert h1 (set xs)"
    "dll m h2 ys" "insert h1 (set xs) \<inter> insert h2 (set ys) = {}" "pnew \<notin> insert h2 (set ys)"
  shows "dll (wf_list_insert_prev pnew pos m) h2 ys"
  using assms(3)
proof (rule dll_frame)
  fix p
  assume "p \<in> insert h2 (set ys)"
  moreover have "prev m pos \<in> insert h1 (set xs)" using assms(1,2) by (rule dll_mem_prev)
  ultimately show "pnext (wf_list_insert_prev pnew pos m) p = pnext m p \<and>
      prev (wf_list_insert_prev pnew pos m) p = prev m p"
    using assms(2,4,5) by (auto simp: wf_list_insert_prev_def wf_list_insert_def wf_list_prev_def Let_def)
qed

lemma dll_delete_frame:
  assumes "dll m h1 xs" "pos \<in> set xs"
    "dll m h2 ys" "insert h1 (set xs) \<inter> insert h2 (set ys) = {}"
  shows "dll (wf_list_delete pos m) h2 ys"
  using assms(3)
proof (rule dll_frame)
  fix p
  assume p: "p \<in> insert h2 (set ys)"
  have "prev m pos \<in> insert h1 (set xs)" "pnext m pos \<in> insert h1 (set xs)"
    using assms(1,2) by (auto dest: dll_mem_next dll_mem_prev)
  with p assms(2,4) show "pnext (wf_list_delete pos m) p = pnext m p \<and>
      prev (wf_list_delete pos m) p = prev m p"
    by (auto simp: wf_list_delete_def wf_list_del_def wf_list_init_def wf_list_prev_def wf_list_next_def)
qed

section \<open>Traversal terminates and visits the nodes in order\<close>

lemma wf_list_for_each_seg:
  "lseg m a xs head \<Longrightarrow> head \<notin> set xs \<Longrightarrow>
   wf_list_for_each m head P (pnext m a) =
     Some (case List.find P xs of None \<Rightarrow> head | Some p \<Rightarrow> p)"
proof (induction xs arbitrary: a)
  case Nil
  then show ?case by (simp add: wf_list_for_each.simps)
next
  case (Cons x xs)
  then have "wf_list_for_each m head P (pnext m x) =
     Some (case List.find P xs of None \<Rightarrow> head | Some p \<Rightarrow> p)"
    by simp
  with Cons.prems show ?case
    by (subst wf_list_for_each.simps) auto
qed

lemma wf_list_for_each_dll:
  "dll m head xs \<Longrightarrow>
   wf_list_for_each m head P (pnext m head) =
     Some (case List.find P xs of None \<Rightarrow> head | Some p \<Rightarrow> p)"
  by (rule wf_list_for_each_seg) (auto simp: dll_def)

lemma wf_list_for_each_prev_seg:
  "lseg m head xs b \<Longrightarrow> head \<notin> set xs \<Longrightarrow>
   wf_list_for_each_prev m head P (prev m b) =
     Some (case List.find P (rev xs) of None \<Rightarrow> head | Some p \<Rightarrow> p)"
proof (induction xs arbitrary: b rule: rev_induct)
  case Nil
  then show ?case by (simp add: wf_list_for_each_prev.simps)
next
  case (snoc x xs)
  then have "lseg m head xs x" "prev m b = x" by (auto simp: lseg_append)
  moreover from snoc have "wf_list_for_each_prev m head P (prev m x) =
     Some (case List.find P (rev xs) of None \<Rightarrow> head | Some p \<Rightarrow> p)"
    by (auto simp: lseg_append)
  ultimately show ?case using snoc.prems
    by (subst wf_list_for_each_prev.simps) auto
qed

lemma wf_list_for_each_prev_dll:
  "dll m head xs \<Longrightarrow>
   wf_list_for_each_prev m head P (prev m head) =
     Some (case List.find P (rev xs) of None \<Rightarrow> head | Some p \<Rightarrow> p)"
  by (rule wf_list_for_each_prev_seg) (auto simp: dll_def)

end
