(* ===== verification/Wf_Que.thy ===== *)
theory Wf_Que
  imports Wf_List
begin

text \<open>
  The counted queue of \<open>src/trunk_driver/nic/utility/wf_que.c\<close> and \<open>wf_que.h\<close>. A
  \<open>wf_que_t\<close> starts with its list head, so a queue is named by the address of that
  head; the memory gains the \<open>cnt\<close> field of each queue. Every function of the source
  takes the queue's lock around its whole body, so each operation here is one atomic
  step on the memory.

  The locale \<open>intrusive_queue\<close> states what a client of the queue relies on (where a
  node goes, what leaves the queue, which queues are left alone); it is interpreted on
  the operations of the source at the end, and the message queue uses its facts.
\<close>

section \<open>Operations\<close>

record wf_que_mem = wf_mem +
  cnt :: "ptr \<Rightarrow> u32"

abbreviation add_cnt :: "ptr \<Rightarrow> u32 \<Rightarrow> 'a wf_que_mem_scheme \<Rightarrow> 'a wf_que_mem_scheme" where
  "add_cnt q d m \<equiv> m\<lparr>cnt := (cnt m)(q := cnt m q + d)\<rparr>"

definition wf_que_list_head :: "ptr \<Rightarrow> ptr" where
  "wf_que_list_head pque = pque"

definition wf_que_count :: "ptr \<Rightarrow> 'a wf_que_mem_scheme \<Rightarrow> u32" where
  "wf_que_count q m = cnt m q"

definition wf_que_is_empty :: "ptr \<Rightarrow> 'a wf_que_mem_scheme \<Rightarrow> bool" where
  "wf_que_is_empty q m = wf_list_is_empty (wf_que_list_head q) m"

definition wf_que_head :: "ptr \<Rightarrow> 'a wf_que_mem_scheme \<Rightarrow> ptr option" where
  "wf_que_head q m =
     (if wf_list_is_empty (wf_que_list_head q) m then None
      else Some (wf_list_next (wf_que_list_head q) m))"

definition wf_que_tail :: "ptr \<Rightarrow> 'a wf_que_mem_scheme \<Rightarrow> ptr option" where
  "wf_que_tail q m =
     (if wf_list_is_empty (wf_que_list_head q) m then None
      else Some (wf_list_prev (wf_que_list_head q) m))"

definition wf_enque :: "ptr \<Rightarrow> ptr \<Rightarrow> ptr \<Rightarrow> 'a wf_que_mem_scheme \<Rightarrow> 'a wf_que_mem_scheme" where
  "wf_enque pnew pos q m = add_cnt q 1 (wf_list_insert_next pnew pos m)"

definition wf_enque_next :: "ptr \<Rightarrow> ptr \<Rightarrow> ptr \<Rightarrow> 'a wf_que_mem_scheme \<Rightarrow> 'a wf_que_mem_scheme" where
  "wf_enque_next pnew pos q m = wf_enque pnew pos q m"

definition wf_enque_prev :: "ptr \<Rightarrow> ptr \<Rightarrow> ptr \<Rightarrow> 'a wf_que_mem_scheme \<Rightarrow> 'a wf_que_mem_scheme" where
  "wf_enque_prev pnew pos q m =
     add_cnt q 1 (wf_list_insert_next pnew (wf_list_prev pos m) m)"

definition wf_enque_head :: "ptr \<Rightarrow> ptr \<Rightarrow> 'a wf_que_mem_scheme \<Rightarrow> 'a wf_que_mem_scheme" where
  "wf_enque_head pnew q m = wf_enque_next pnew (wf_que_list_head q) q m"

definition wf_enque_tail :: "ptr \<Rightarrow> ptr \<Rightarrow> 'a wf_que_mem_scheme \<Rightarrow> 'a wf_que_mem_scheme" where
  "wf_enque_tail pnew q m = wf_enque_prev pnew (wf_que_list_head q) q m"

definition wf_deque ::
  "ptr \<Rightarrow> ptr \<Rightarrow> 'a wf_que_mem_scheme \<Rightarrow> 'a wf_que_mem_scheme \<times> ptr option" where
  "wf_deque pos q m =
     (if wf_list_is_empty (wf_que_list_head q) m then (m, None)
      else (add_cnt q (-1) (wf_list_delete pos m), Some pos))"

definition wf_deque_head ::
  "ptr \<Rightarrow> 'a wf_que_mem_scheme \<Rightarrow> 'a wf_que_mem_scheme \<times> ptr option" where
  "wf_deque_head q m =
     (if wf_list_is_empty (wf_que_list_head q) m then (m, None)
      else let plist = wf_list_next (wf_que_list_head q) m
           in (add_cnt q (-1) (wf_list_delete plist m), Some plist))"

definition wf_deque_tail ::
  "ptr \<Rightarrow> 'a wf_que_mem_scheme \<Rightarrow> 'a wf_que_mem_scheme \<times> ptr option" where
  "wf_deque_tail q m =
     (if wf_list_is_empty (wf_que_list_head q) m then (m, None)
      else let plist = wf_list_prev (wf_que_list_head q) m
           in (add_cnt q (-1) (wf_list_delete plist m), Some plist))"

definition wf_que_init :: "ptr \<Rightarrow> 'a wf_que_mem_scheme \<Rightarrow> 'a wf_que_mem_scheme" where
  "wf_que_init q m = (let m1 = wf_list_init q m in m1\<lparr>cnt := (cnt m1)(q := 0)\<rparr>)"

section \<open>Abstraction to a list of nodes\<close>

definition wf_que_rep :: "'a wf_que_mem_scheme \<Rightarrow> ptr \<Rightarrow> ptr list \<Rightarrow> bool" where
  "wf_que_rep m q xs \<longleftrightarrow> dll m q xs \<and> cnt m q = of_nat (length xs)"

lemma lseg_cnt [simp]: "lseg (m\<lparr>cnt := c\<rparr>) a xs b = lseg m a xs b"
  by (induction xs arbitrary: a) auto

lemma dll_cnt [simp]: "dll (m\<lparr>cnt := c\<rparr>) h xs = dll m h xs"
  by (simp add: dll_def)

lemma cnt_wf_list [simp]:
  "cnt (wf_list_insert_next pnew pos m) = cnt m"
  "cnt (wf_list_delete pos m) = cnt m"
  "cnt (wf_list_init pos m) = cnt m"
  by (simp_all add: wf_list_defs Let_def)

lemma wf_que_rep_is_empty: "wf_que_rep m q xs \<Longrightarrow> wf_que_is_empty q m \<longleftrightarrow> xs = []"
  by (simp add: wf_que_rep_def wf_que_is_empty_def wf_que_list_head_def dll_is_empty_iff)

lemma wf_que_rep_list_is_empty: "wf_que_rep m q xs \<Longrightarrow> wf_list_is_empty q m \<longleftrightarrow> xs = []"
  by (simp add: wf_que_rep_def dll_is_empty_iff del: dll_empty)

lemma wf_que_rep_head: "wf_que_rep m q xs \<Longrightarrow> wf_que_head q m = (case xs of [] \<Rightarrow> None | x # _ \<Rightarrow> Some x)"
  using dll_next [of m q xs]
  by (simp add: wf_que_head_def wf_que_list_head_def wf_que_rep_list_is_empty wf_list_next_def)
    (auto simp: wf_que_rep_def split: list.splits)

lemma wf_que_rep_tail:
  "wf_que_rep m q xs \<Longrightarrow> wf_que_tail q m = (if xs = [] then None else Some (last xs))"
  using dll_prev [of m q xs]
  by (simp add: wf_que_tail_def wf_que_list_head_def wf_que_rep_list_is_empty wf_list_prev_def)
    (auto simp: wf_que_rep_def)

lemma wf_que_rep_count: "wf_que_rep m q xs \<Longrightarrow> wf_que_count q m = of_nat (length xs)"
  by (simp add: wf_que_rep_def wf_que_count_def)

lemma wf_que_rep_init: "wf_que_rep (wf_que_init q m) q []"
  using wf_list_init_dll [of q m] by (simp add: wf_que_rep_def wf_que_init_def Let_def)

lemma wf_que_rep_enque:
  "wf_que_rep m q (us @ vs) \<Longrightarrow> pnew \<notin> set (q # us @ vs) \<Longrightarrow>
   wf_que_rep (wf_enque pnew (last (q # us)) q m) q (us @ pnew # vs)"
  using dll_insert_next [of m q us vs pnew] by (simp add: wf_que_rep_def wf_enque_def)

lemma wf_enque_prev_eq:
  "wf_que_rep m q (us @ vs) \<Longrightarrow>
   wf_enque_prev pnew (hd (vs @ [q])) q m = wf_enque pnew (last (q # us)) q m"
  using dll_prev [of m q us] dll_prev_node [of m q us "hd vs" "tl vs"]
  by (cases vs) (auto simp: wf_que_rep_def wf_enque_prev_def wf_enque_def wf_list_prev_def)

lemma wf_que_rep_enque_head:
  "wf_que_rep m q xs \<Longrightarrow> pnew \<notin> set (q # xs) \<Longrightarrow> wf_que_rep (wf_enque_head pnew q m) q (pnew # xs)"
  using wf_que_rep_enque [of m q "[]" xs pnew]
  by (simp add: wf_enque_head_def wf_enque_next_def wf_que_list_head_def)

lemma wf_que_rep_enque_tail:
  "wf_que_rep m q xs \<Longrightarrow> pnew \<notin> set (q # xs) \<Longrightarrow> wf_que_rep (wf_enque_tail pnew q m) q (xs @ [pnew])"
  using wf_que_rep_enque [of m q xs "[]" pnew] wf_enque_prev_eq [of m q xs "[]" pnew]
  by (simp add: wf_enque_tail_def wf_que_list_head_def)

lemma wf_que_rep_deque:
  assumes "wf_que_rep m q (us @ p # vs)"
  obtains m' where "wf_deque p q m = (m', Some p)" "wf_que_rep m' q (us @ vs)"
proof
  show "wf_deque p q m = (add_cnt q (-1) (wf_list_delete p m), Some p)"
    using assms
    by (auto simp: wf_deque_def wf_que_rep_def wf_que_list_head_def dll_is_empty_iff)
  show "wf_que_rep (add_cnt q (-1) (wf_list_delete p m)) q (us @ vs)"
    using assms dll_delete [of m q us p vs] by (simp add: wf_que_rep_def)
qed

lemma wf_que_rep_deque_empty: "wf_que_rep m q [] \<Longrightarrow> wf_deque p q m = (m, None)"
  by (simp add: wf_que_rep_def wf_deque_def wf_que_list_head_def wf_list_defs)

lemma wf_deque_head_eq:
  "wf_que_rep m q (x # xs) \<Longrightarrow> wf_deque_head q m = wf_deque x q m"
  using dll_next [of m q "x # xs"]
  by (simp add: wf_que_rep_def wf_deque_head_def wf_deque_def wf_list_next_def
      wf_que_list_head_def Let_def)

lemma wf_deque_tail_eq:
  "wf_que_rep m q (xs @ [x]) \<Longrightarrow> wf_deque_tail q m = wf_deque x q m"
  using dll_prev [of m q "xs @ [x]"]
  by (simp add: wf_que_rep_def wf_deque_tail_def wf_deque_def wf_list_prev_def
      wf_que_list_head_def Let_def)

lemma wf_enque_frame:
  assumes "wf_que_rep m q1 (us @ vs)" "wf_que_rep m q2 ys"
    "insert q1 (set (us @ vs)) \<inter> insert q2 (set ys) = {}" "pnew \<notin> insert q2 (set ys)"
  shows "wf_que_rep (wf_enque pnew (last (q1 # us)) q1 m) q2 ys"
proof -
  have "last (q1 # us) \<in> insert q1 (set (us @ vs))"
    using last_in_set [of "q1 # us"] by auto
  then have "dll (wf_list_insert_next pnew (last (q1 # us)) m) q2 ys"
    using assms by (intro dll_insert_next_frame [of m q1 "us @ vs"]) (auto simp: wf_que_rep_def)
  moreover have "q1 \<noteq> q2" using assms(3) by auto
  ultimately show ?thesis using assms(2) by (simp add: wf_que_rep_def wf_enque_def)
qed

lemma wf_deque_frame:
  assumes "wf_que_rep m q1 xs" "p \<in> set xs" "wf_que_rep m q2 ys"
    "insert q1 (set xs) \<inter> insert q2 (set ys) = {}"
  shows "wf_que_rep (fst (wf_deque p q1 m)) q2 ys"
proof -
  have "dll (wf_list_delete p m) q2 ys"
    using assms by (intro dll_delete_frame [of m q1 xs]) (auto simp: wf_que_rep_def)
  moreover have "q1 \<noteq> q2" using assms(4) by auto
  ultimately show ?thesis using assms(3) by (simp add: wf_que_rep_def wf_deque_def)
qed

section \<open>The queue's contract\<close>

locale intrusive_queue =
  fixes rep :: "'m \<Rightarrow> ptr \<Rightarrow> ptr list \<Rightarrow> bool"
    and enq :: "ptr \<Rightarrow> ptr \<Rightarrow> ptr \<Rightarrow> 'm \<Rightarrow> 'm"
    and deq :: "ptr \<Rightarrow> ptr \<Rightarrow> 'm \<Rightarrow> 'm \<times> ptr option"
  assumes rep_distinct: "rep m q xs \<Longrightarrow> distinct (q # xs)"
    and enq_rep: "rep m q (us @ vs) \<Longrightarrow> pnew \<notin> set (q # us @ vs) \<Longrightarrow>
      rep (enq pnew (last (q # us)) q m) q (us @ pnew # vs)"
    and enq_frame: "rep m q1 (us @ vs) \<Longrightarrow> rep m q2 ys \<Longrightarrow>
      insert q1 (set (us @ vs)) \<inter> insert q2 (set ys) = {} \<Longrightarrow> pnew \<notin> insert q2 (set ys) \<Longrightarrow>
      rep (enq pnew (last (q1 # us)) q1 m) q2 ys"
    and deq_rep: "rep m q (us @ p # vs) \<Longrightarrow> rep (fst (deq p q m)) q (us @ vs)"
    and deq_result: "rep m q (us @ p # vs) \<Longrightarrow> snd (deq p q m) = Some p"
    and deq_frame: "rep m q1 xs \<Longrightarrow> p \<in> set xs \<Longrightarrow> rep m q2 ys \<Longrightarrow>
      insert q1 (set xs) \<inter> insert q2 (set ys) = {} \<Longrightarrow> rep (fst (deq p q1 m)) q2 ys"
begin

text \<open>Taking a node out of one queue and putting it into another, as the message queue does
  with its free and pending queues: both queues are well formed afterwards, the node is in
  the second one at the place asked for, and no node is lost or duplicated.\<close>

lemma move_rep:
  assumes "rep m q1 (us @ p # vs)" "rep m q2 (xs @ ys)"
    "insert q1 (set (us @ p # vs)) \<inter> insert q2 (set (xs @ ys)) = {}"
  defines "m' \<equiv> enq p (last (q2 # xs)) q2 (fst (deq p q1 m))"
  shows "rep m' q1 (us @ vs)" "rep m' q2 (xs @ p # ys)"
proof -
  let ?m = "fst (deq p q1 m)"
  have r1: "rep ?m q1 (us @ vs)" using assms(1) by (rule deq_rep)
  have r2: "rep ?m q2 (xs @ ys)" using assms(1) _ assms(2,3) by (rule deq_frame) simp
  have p: "p \<notin> insert q1 (set (us @ vs))" using rep_distinct [OF assms(1)] by auto
  show "rep m' q2 (xs @ p # ys)"
    unfolding m'_def using r2 assms(3) by (intro enq_rep) auto
  show "rep m' q1 (us @ vs)"
    unfolding m'_def using r2 r1 assms(3) p by (intro enq_frame) auto
qed

end

interpretation que: intrusive_queue wf_que_rep wf_enque wf_deque
proof unfold_locales
  fix m :: "'a wf_que_mem_scheme" and q us vs pnew p
  show "wf_que_rep m q xs \<Longrightarrow> distinct (q # xs)" for xs
    by (simp add: wf_que_rep_def dll_def)
  show "wf_que_rep m q (us @ vs) \<Longrightarrow> pnew \<notin> set (q # us @ vs) \<Longrightarrow>
      wf_que_rep (wf_enque pnew (last (q # us)) q m) q (us @ pnew # vs)"
    by (rule wf_que_rep_enque)
  show "wf_que_rep m q (us @ p # vs) \<Longrightarrow> wf_que_rep (fst (wf_deque p q m)) q (us @ vs)"
    by (metis fst_conv wf_que_rep_deque)
  show "wf_que_rep m q (us @ p # vs) \<Longrightarrow> snd (wf_deque p q m) = Some p"
    by (metis snd_conv wf_que_rep_deque)
qed (rule wf_enque_frame wf_deque_frame; assumption)+

text \<open>A FIFO run: what goes in at the tail comes out at the head, in order.\<close>

fun enque_all :: "ptr list \<Rightarrow> ptr \<Rightarrow> 'a wf_que_mem_scheme \<Rightarrow> 'a wf_que_mem_scheme" where
  "enque_all [] q m = m"
| "enque_all (p # ps) q m = enque_all ps q (wf_enque_tail p q m)"

fun deque_n :: "nat \<Rightarrow> ptr \<Rightarrow> 'a wf_que_mem_scheme \<Rightarrow> 'a wf_que_mem_scheme \<times> ptr option list" where
  "deque_n 0 q m = (m, [])"
| "deque_n (Suc n) q m =
     (let (m1, p) = wf_deque_head q m; (m2, ps) = deque_n n q m1 in (m2, p # ps))"

lemma enque_all_rep:
  "wf_que_rep m q xs \<Longrightarrow> distinct (q # xs @ ps) \<Longrightarrow> wf_que_rep (enque_all ps q m) q (xs @ ps)"
proof (induction ps arbitrary: xs m)
  case (Cons p ps)
  have "wf_que_rep (wf_enque_tail p q m) q (xs @ [p])"
    using Cons.prems by (intro wf_que_rep_enque_tail) auto
  then have "wf_que_rep (enque_all ps q (wf_enque_tail p q m)) q ((xs @ [p]) @ ps)"
    using Cons.prems by (intro Cons.IH) auto
  then show ?case by simp
qed simp

lemma deque_n_rep:
  "wf_que_rep m q (ps @ xs) \<Longrightarrow>
   snd (deque_n (length ps) q m) = map Some ps \<and> wf_que_rep (fst (deque_n (length ps) q m)) q xs"
proof (induction ps arbitrary: m)
  case (Cons p ps)
  have "wf_deque_head q m = wf_deque p q m"
    using Cons.prems wf_deque_head_eq [of m q p "ps @ xs"] by simp
  moreover obtain m' where m': "wf_deque p q m = (m', Some p)" "wf_que_rep m' q (ps @ xs)"
    using wf_que_rep_deque [of m q "[]" p "ps @ xs"] Cons.prems by auto
  ultimately show ?case
    using Cons.IH [of m'] by (simp add: case_prod_beta)
qed simp

text \<open>Nodes put at the tail of a fresh queue come out at the head in the same order, one
  call each; the counter is their number and the queue is empty afterwards.\<close>

theorem wf_que_fifo:
  assumes "distinct (q # ps)"
  shows "snd (deque_n (length ps) q (enque_all ps q (wf_que_init q m))) = map Some ps \<and>
    wf_que_is_empty q (fst (deque_n (length ps) q (enque_all ps q (wf_que_init q m)))) \<and>
    wf_que_count q (enque_all ps q (wf_que_init q m)) = of_nat (length ps)"
proof -
  have "wf_que_rep (enque_all ps q (wf_que_init q m)) q ([] @ ps)"
    using assms by (intro enque_all_rep wf_que_rep_init) simp
  then show ?thesis
    using deque_n_rep [of "enque_all ps q (wf_que_init q m)" q ps "[]"]
    by (auto simp: wf_que_rep_count dest: wf_que_rep_is_empty)
qed

lemma wf_que_fifo_witness:
  "snd (deque_n 3 1 (enque_all [2, 3, 4] 1 (wf_que_init 1
      (\<lparr>pnext = id, prev = id, cnt = \<lambda>_. 0\<rparr> :: wf_que_mem)))) = [Some 2, Some 3, Some 4]"
  using wf_que_fifo [of 1 "[2, 3, 4]" "\<lparr>pnext = id, prev = id, cnt = \<lambda>_. 0\<rparr> :: wf_que_mem"] by (simp add: numeral_3_eq_3)

end
