(* ===== verification/Wf_Msg.thy ===== *)
theory Wf_Msg
  imports Wf_Que
begin

text \<open>
  The message queue of \<open>src/trunk_driver/nic/utility/wf_msg.c\<close> and \<open>wf_msg.h\<close>,
  through which the driver's threads exchange requests and frames. A \<open>wf_msg_que_t\<close>
  owns two queues: \<open>free\<close> holds the messages of the pool, \<open>pend\<close> the messages
  waiting to be handled, ordered by domain and priority. A message is named by the
  address of its list node, its first field; \<open>pque\<close> points to the queue that holds it,
  \<open>None\<close> standing for NULL (the message is in a caller's hands).

  The loops walk linked lists, so the operations return an option: \<open>None\<close> would be a
  walk that never ends. Under the invariant \<open>msg_inv\<close> every operation returns.
\<close>

section \<open>Tags\<close>

text \<open>\<open>|b15 domain b12|b11 priority b7|b6 id b0|\<close>\<close>

definition WF_MSG_TAG_ID_MSK :: u16 where
  "WF_MSG_TAG_ID_MSK = 0x7F"

definition WF_MSG_TAG_SET :: "u16 \<Rightarrow> u16 \<Rightarrow> u16 \<Rightarrow> u16" where
  "WF_MSG_TAG_SET dm pri i =
     push_bit 12 (dm AND 0xF) OR push_bit 7 (pri AND 0x1F) OR (i AND 0x7F)"

definition WF_MSG_TAG_DOM :: "u16 \<Rightarrow> u8" where
  "WF_MSG_TAG_DOM tg = ucast (drop_bit 12 tg AND 0xF)"

definition WF_MSG_TAG_PRI :: "u16 \<Rightarrow> u8" where
  "WF_MSG_TAG_PRI tg = ucast (drop_bit 7 tg AND 0x1F)"

definition WF_MSG_TAG_ID :: "u16 \<Rightarrow> u8" where
  "WF_MSG_TAG_ID tg = ucast (tg AND 0x7F)"

section \<open>State and operations\<close>

record wf_msg_mem = wf_que_mem +
  pque :: "ptr \<Rightarrow> ptr option"
  alloc_value_size :: "ptr \<Rightarrow> u32"
  tag :: "ptr \<Rightarrow> u16"
  msg_len :: "ptr \<Rightarrow> u32"

record wf_msg_que =
  pend :: ptr
  free :: ptr

definition msg_pop :: "ptr \<Rightarrow> 'a wf_msg_mem_scheme \<Rightarrow> 'a wf_msg_mem_scheme \<times> int" where
  "msg_pop pmsg m =
     (case pque m pmsg of
        None \<Rightarrow> (m, 0)
      | Some q \<Rightarrow>
          (case wf_deque pmsg q m of
             (m', None) \<Rightarrow> (m', -1)
           | (m', Some _) \<Rightarrow> (m'\<lparr>pque := (pque m')(pmsg := None)\<rparr>, 0)))"

definition msg_push :: "ptr \<Rightarrow> ptr \<Rightarrow> ptr \<Rightarrow> 'a wf_msg_mem_scheme \<Rightarrow> 'a wf_msg_mem_scheme \<times> int" where
  "msg_push q pos pmsg m =
     (let m1 = fst (msg_pop pmsg m);
          m2 = m1\<lparr>pque := (pque m1)(pmsg := Some q)\<rparr>
      in (wf_enque pmsg pos q m2, 0))"

definition wf_msg_init :: "wf_msg_que \<Rightarrow> 'a wf_msg_mem_scheme \<Rightarrow> 'a wf_msg_mem_scheme" where
  "wf_msg_init mq m = wf_que_init (free mq) (wf_que_init (pend mq) m)"

definition wf_msg_count :: "wf_msg_que \<Rightarrow> 'a wf_msg_mem_scheme \<Rightarrow> u32" where
  "wf_msg_count mq m = cnt m (pend mq)"

definition wf_msg_is_empty :: "wf_msg_que \<Rightarrow> 'a wf_msg_mem_scheme \<Rightarrow> bool" where
  "wf_msg_is_empty mq m = wf_que_is_empty (pend mq) m"

text \<open>\<open>wf_msg_new\<close>: the first argument is the queue (\<open>None\<close> for a NULL pointer), the
  third says whether the output pointer is non-NULL. The result holds the memory, the
  return code and the value stored through the output pointer.\<close>

definition wf_msg_new ::
  "wf_msg_que option \<Rightarrow> u16 \<Rightarrow> bool \<Rightarrow> 'a wf_msg_mem_scheme \<Rightarrow>
   ('a wf_msg_mem_scheme \<times> int \<times> ptr option) option" where
  "wf_msg_new pmsg_que tg out m =
     (case pmsg_que of
        None \<Rightarrow> Some (m, -1, None)
      | Some mq \<Rightarrow>
          if \<not> out then Some (m, -1, None)
          else if wf_que_is_empty (free mq) m then Some (m, -2, None)
          else do {
            pos \<leftarrow> wf_list_for_each m (free mq) (\<lambda>p. tag m p = tg) (pnext m (free mq));
            if pos = free mq then Some (m, -3, None)
            else (let (m', rst) = msg_pop pos m
                  in Some (m', rst, if rst \<noteq> 0 then None else Some pos))
          })"

definition wf_msg_push ::
  "wf_msg_que option \<Rightarrow> ptr option \<Rightarrow> 'a wf_msg_mem_scheme \<Rightarrow> ('a wf_msg_mem_scheme \<times> int) option" where
  "wf_msg_push pmsg_que pmsg m =
     (case (pmsg_que, pmsg) of
        (Some mq, Some p) \<Rightarrow> do {
          pos \<leftarrow> wf_list_for_each_prev m (pend mq)
                   (\<lambda>t. (tag m p OR WF_MSG_TAG_ID_MSK) \<ge> (tag m t OR WF_MSG_TAG_ID_MSK))
                   (prev m (pend mq));
          Some (msg_push (pend mq) pos p m)
        }
      | _ \<Rightarrow> Some (m, -1))"

definition wf_msg_push_head ::
  "wf_msg_que option \<Rightarrow> ptr option \<Rightarrow> 'a wf_msg_mem_scheme \<Rightarrow> ('a wf_msg_mem_scheme \<times> int) option" where
  "wf_msg_push_head pmsg_que pmsg m =
     (case (pmsg_que, pmsg) of
        (Some mq, Some p) \<Rightarrow> do {
          pos \<leftarrow> wf_list_for_each m (pend mq)
                   (\<lambda>t. WF_MSG_TAG_DOM (tag m t) \<ge> WF_MSG_TAG_DOM (tag m p))
                   (pnext m (pend mq));
          Some (msg_push (pend mq) (wf_list_prev pos m) p m)
        }
      | _ \<Rightarrow> Some (m, -1))"

definition msg_get ::
  "wf_msg_que option \<Rightarrow> bool \<Rightarrow> bool \<Rightarrow> bool \<Rightarrow> 'a wf_msg_mem_scheme \<Rightarrow>
   'a wf_msg_mem_scheme \<times> int \<times> ptr option" where
  "msg_get pmsg_que out bpop btail m =
     (case pmsg_que of
        None \<Rightarrow> (m, -1, None)
      | Some mq \<Rightarrow>
          if \<not> out then (m, -1, None)
          else if wf_que_is_empty (pend mq) m then (m, -2, None)
          else case (if btail then wf_que_tail (pend mq) m else wf_que_head (pend mq) m) of
                 None \<Rightarrow> (m, -2, None)
               | Some p \<Rightarrow>
                   (let (m', rst) = (if bpop then msg_pop p m else (m, 0))
                    in (m', rst, if rst \<noteq> 0 then None else Some p)))"

definition msg_get_dom ::
  "wf_msg_que \<Rightarrow> u8 \<Rightarrow> bool \<Rightarrow> bool \<Rightarrow> 'a wf_msg_mem_scheme \<Rightarrow>
   ('a wf_msg_mem_scheme \<times> int \<times> ptr option) option" where
  "msg_get_dom mq dm bpop btail m = do {
     pos \<leftarrow> (if btail
             then wf_list_for_each_prev m (pend mq) (\<lambda>t. WF_MSG_TAG_DOM (tag m t) = dm) (prev m (pend mq))
             else wf_list_for_each m (pend mq) (\<lambda>t. WF_MSG_TAG_DOM (tag m t) = dm) (pnext m (pend mq)));
     if pos = pend mq then Some (m, -1, None)
     else (let (m', rst) = (if bpop then msg_pop pos m else (m, 0))
           in Some (m', rst, if rst \<noteq> 0 then None else Some pos))
   }"

definition wf_msg_get :: "wf_msg_que option \<Rightarrow> bool \<Rightarrow> 'a wf_msg_mem_scheme \<Rightarrow> 'a wf_msg_mem_scheme \<times> int \<times> ptr option" where
  "wf_msg_get mq out m = msg_get mq out False False m"

definition wf_msg_get_tail :: "wf_msg_que option \<Rightarrow> bool \<Rightarrow> 'a wf_msg_mem_scheme \<Rightarrow> 'a wf_msg_mem_scheme \<times> int \<times> ptr option" where
  "wf_msg_get_tail mq out m = msg_get mq out False True m"

definition wf_msg_pop :: "wf_msg_que option \<Rightarrow> bool \<Rightarrow> 'a wf_msg_mem_scheme \<Rightarrow> 'a wf_msg_mem_scheme \<times> int \<times> ptr option" where
  "wf_msg_pop mq out m = msg_get mq out True False m"

definition wf_msg_pop_tail :: "wf_msg_que option \<Rightarrow> bool \<Rightarrow> 'a wf_msg_mem_scheme \<Rightarrow> 'a wf_msg_mem_scheme \<times> int \<times> ptr option" where
  "wf_msg_pop_tail mq out m = msg_get mq out True True m"

definition wf_msg_del ::
  "wf_msg_que option \<Rightarrow> ptr option \<Rightarrow> 'a wf_msg_mem_scheme \<Rightarrow> 'a wf_msg_mem_scheme \<times> int" where
  "wf_msg_del pmsg_que pmsg m =
     (case (pmsg_que, pmsg) of
        (Some mq, Some p) \<Rightarrow> msg_push (free mq) (wf_list_prev (free mq) m) p m
      | _ \<Rightarrow> (m, -1))"

text \<open>\<open>wf_msg_alloc\<close> asks the allocator once per message; the list argument gives the
  allocator's answers in order (\<open>None\<close> is a NULL result, as is an exhausted list).\<close>

fun wf_msg_alloc ::
  "wf_msg_que \<Rightarrow> u16 \<Rightarrow> u32 \<Rightarrow> nat \<Rightarrow> ptr option list \<Rightarrow> 'a wf_msg_mem_scheme \<Rightarrow>
   'a wf_msg_mem_scheme \<times> int" where
  "wf_msg_alloc mq tg sz 0 allocs m = (m, 0)"
| "wf_msg_alloc mq tg sz (Suc n) (Some p # allocs) m =
     (let m1 = m\<lparr>pque := (pque m)(p := None),
                 alloc_value_size := (alloc_value_size m)(p := sz),
                 tag := (tag m)(p := tg),
                 msg_len := (msg_len m)(p := 0)\<rparr>;
          m2 = fst (wf_msg_del (Some mq) (Some p) m1)
      in wf_msg_alloc mq tg sz n allocs m2)"
| "wf_msg_alloc mq tg sz (Suc n) _ m = (m, -1)"

text \<open>\<open>wf_msg_free\<close> hands every message of both queues to the deallocator; the result is
  the sequence of addresses freed.\<close>

partial_function (option) wf_list_for_each_safe ::
  "'a wf_mem_scheme \<Rightarrow> ptr \<Rightarrow> ptr \<Rightarrow> ptr list option" where
  "wf_list_for_each_safe m head pos =
     (if pos = head then Some []
      else Option.bind (wf_list_for_each_safe m head (pnext m pos)) (\<lambda>ps. Some (pos # ps)))"

definition wf_msg_free :: "wf_msg_que \<Rightarrow> 'a wf_msg_mem_scheme \<Rightarrow> (ptr list \<times> int) option" where
  "wf_msg_free mq m = do {
     ps \<leftarrow> wf_list_for_each_safe m (pend mq) (pnext m (pend mq));
     fs \<leftarrow> wf_list_for_each_safe m (free mq) (pnext m (free mq));
     Some (ps @ fs, 0)
   }"

section \<open>Order of tags\<close>

definition msg_key :: "'a wf_msg_mem_scheme \<Rightarrow> ptr \<Rightarrow> u16" where
  "msg_key m p = (tag m p OR WF_MSG_TAG_ID_MSK)"

definition msg_dom :: "'a wf_msg_mem_scheme \<Rightarrow> ptr \<Rightarrow> u8" where
  "msg_dom m p = WF_MSG_TAG_DOM (tag m p)"

lemma unat_TAG_DOM: "unat (WF_MSG_TAG_DOM t) = unat t div 4096"
proof -
  have lt: "unat t div 4096 < 16" using unat_u16_less [of t] by simp
  have "drop_bit 12 t AND 0xF = take_bit 4 (drop_bit 12 t)"
    by (simp add: take_bit_eq_mask mask_numeral)
  then have "unat (drop_bit 12 t AND 0xF) = take_bit 4 (unat t div 2 ^ 12)"
    by (simp only: unsigned_take_bit_eq unat_drop_bit)
  also have "\<dots> = unat t div 4096" using lt by (simp add: take_bit_nat_eq_self)
  finally have "unat (drop_bit 12 t AND 0xF) = unat t div 4096" .
  then show ?thesis using lt
    by (simp add: WF_MSG_TAG_DOM_def unsigned_ucast_eq take_bit_nat_eq_self)
qed

lemma unat_or_id_mask: "unat (t OR WF_MSG_TAG_ID_MSK) div 128 = unat t div 128"
proof -
  have "drop_bit 7 (t OR 0x7F) = drop_bit 7 t OR drop_bit 7 (0x7F :: u16)"
    by (simp only: drop_bit_or)
  moreover have "drop_bit 7 (0x7F :: u16) = 0"
    by code_simp
  ultimately have "unat (drop_bit 7 (t OR 0x7F)) = unat (drop_bit 7 t)" by simp
  then have "unat (t OR 0x7F) div 2 ^ 7 = unat t div 2 ^ 7"
    by (simp only: unat_drop_bit)
  then show ?thesis by (simp add: WF_MSG_TAG_ID_MSK_def)
qed

lemma msg_key_dom_mono: "msg_key m p \<le> msg_key m q \<Longrightarrow> msg_dom m p \<le> msg_dom m q"
proof -
  have dom_key: "unat (msg_dom m r) = unat (msg_key m r) div 4096" for r
  proof -
    have "unat (msg_dom m r) = unat (tag m r) div 128 div 32"
      by (simp add: msg_dom_def unat_TAG_DOM div_mult2_eq [symmetric])
    also have "\<dots> = unat (msg_key m r) div 128 div 32"
      by (simp add: msg_key_def unat_or_id_mask)
    finally show ?thesis by (simp add: div_mult2_eq [symmetric])
  qed
  assume "msg_key m p \<le> msg_key m q"
  then have "unat (msg_key m p) div 4096 \<le> unat (msg_key m q) div 4096"
    by (simp add: word_le_nat_alt div_le_mono)
  then show ?thesis by (simp add: word_le_nat_alt dom_key)
qed

section \<open>Invariant\<close>

text \<open>Both queues are well formed and disjoint, and the back pointer of every queued message
  names the queue that holds it.\<close>

definition msg_inv :: "wf_msg_que \<Rightarrow> 'a wf_msg_mem_scheme \<Rightarrow> ptr list \<Rightarrow> ptr list \<Rightarrow> bool" where
  "msg_inv mq m ps fs \<longleftrightarrow>
     wf_que_rep m (pend mq) ps \<and> wf_que_rep m (free mq) fs \<and>
     insert (pend mq) (set ps) \<inter> insert (free mq) (set fs) = {} \<and>
     (\<forall>p\<in>set ps. pque m p = Some (pend mq)) \<and> (\<forall>p\<in>set fs. pque m p = Some (free mq))"

text \<open>A message in a caller's hands.\<close>

definition msg_held :: "wf_msg_que \<Rightarrow> 'a wf_msg_mem_scheme \<Rightarrow> ptr list \<Rightarrow> ptr list \<Rightarrow> ptr \<Rightarrow> bool" where
  "msg_held mq m ps fs p \<longleftrightarrow>
     p \<notin> insert (pend mq) (insert (free mq) (set ps \<union> set fs)) \<and> pque m p = None"

text \<open>An operation on message \<open>p\<close> keeps every tag and every other back pointer.\<close>

definition msg_frame :: "ptr \<Rightarrow> 'a wf_msg_mem_scheme \<Rightarrow> 'a wf_msg_mem_scheme \<Rightarrow> bool" where
  "msg_frame p m m' \<longleftrightarrow> tag m' = tag m \<and> (\<forall>q. q \<noteq> p \<longrightarrow> pque m' q = pque m q)"

lemma lseg_pque [simp]: "lseg (m\<lparr>pque := f\<rparr>) a xs b = lseg m a xs b"
  by (induction xs arbitrary: a) auto

lemma wf_que_rep_pque [simp]: "wf_que_rep (m\<lparr>pque := f\<rparr>) q xs = wf_que_rep m q xs"
  by (simp add: wf_que_rep_def dll_def)

lemma pque_que_ops [simp]:
  "pque (wf_enque pnew pos q m) = pque m" "tag (wf_enque pnew pos q m) = tag m"
  "pque (fst (wf_deque pos q m)) = pque m" "tag (fst (wf_deque pos q m)) = tag m"
  by (simp_all add: wf_enque_def wf_deque_def wf_list_defs Let_def)

lemma msg_pop_queued:
  assumes "wf_que_rep m q (us @ p # vs)" "pque m p = Some q"
  shows "msg_pop p m =
     ((fst (wf_deque p q m))\<lparr>pque := (pque m)(p := None)\<rparr>, 0)"
proof -
  obtain m' where "wf_deque p q m = (m', Some p)"
    using wf_que_rep_deque [OF assms(1)] by metis
  moreover have "pque m' = pque m" using pque_que_ops(3) [of p q m] calculation by simp
  ultimately show ?thesis using assms(2) by (simp add: msg_pop_def)
qed

lemma msg_pop_pend:
  assumes "msg_inv mq m (us @ p # vs) fs"
  obtains m' where "msg_pop p m = (m', 0)" "msg_inv mq m' (us @ vs) fs"
    "msg_held mq m' (us @ vs) fs p" "msg_frame p m m'"
proof
  let ?m = "fst (wf_deque p (pend mq) m)"
  have r: "wf_que_rep m (pend mq) (us @ p # vs)" "wf_que_rep m (free mq) fs"
    and d: "insert (pend mq) (set (us @ p # vs)) \<inter> insert (free mq) (set fs) = {}"
    and q: "pque m p = Some (pend mq)"
    using assms by (auto simp: msg_inv_def)
  show "msg_pop p m = (?m\<lparr>pque := (pque m)(p := None)\<rparr>, 0)"
    using r(1) q by (rule msg_pop_queued)
  have "wf_que_rep ?m (pend mq) (us @ vs)" using r(1) by (rule que.deq_rep)
  moreover have "wf_que_rep ?m (free mq) fs"
    using r d by (intro que.deq_frame [OF r(1)]) auto
  moreover have "p \<notin> set (us @ vs)" "p \<noteq> pend mq"
    using que.rep_distinct [OF r(1)] by auto
  ultimately show "msg_inv mq (?m\<lparr>pque := (pque m)(p := None)\<rparr>) (us @ vs) fs"
    "msg_held mq (?m\<lparr>pque := (pque m)(p := None)\<rparr>) (us @ vs) fs p"
    using assms d by (auto simp: msg_inv_def msg_held_def)
qed (simp add: msg_frame_def)

lemma msg_pop_free:
  assumes "msg_inv mq m ps (us @ p # vs)"
  obtains m' where "msg_pop p m = (m', 0)" "msg_inv mq m' ps (us @ vs)"
    "msg_held mq m' ps (us @ vs) p" "msg_frame p m m'"
proof
  let ?m = "fst (wf_deque p (free mq) m)"
  have r: "wf_que_rep m (free mq) (us @ p # vs)" "wf_que_rep m (pend mq) ps"
    and d: "insert (free mq) (set (us @ p # vs)) \<inter> insert (pend mq) (set ps) = {}"
    and q: "pque m p = Some (free mq)"
    using assms by (auto simp: msg_inv_def)
  show "msg_pop p m = (?m\<lparr>pque := (pque m)(p := None)\<rparr>, 0)"
    using r(1) q by (rule msg_pop_queued)
  have "wf_que_rep ?m (free mq) (us @ vs)" using r(1) by (rule que.deq_rep)
  moreover have "wf_que_rep ?m (pend mq) ps"
    using r d by (intro que.deq_frame [OF r(1)]) auto
  moreover have "p \<notin> set (us @ vs)" "p \<noteq> free mq"
    using que.rep_distinct [OF r(1)] by auto
  ultimately show "msg_inv mq (?m\<lparr>pque := (pque m)(p := None)\<rparr>) ps (us @ vs)"
    "msg_held mq (?m\<lparr>pque := (pque m)(p := None)\<rparr>) ps (us @ vs) p"
    using assms d by (auto simp: msg_inv_def msg_held_def)
qed (simp add: msg_frame_def)

lemma msg_push_pend:
  assumes "msg_inv mq m (us @ vs) fs" "msg_held mq m (us @ vs) fs p"
  obtains m' where "msg_push (pend mq) (last (pend mq # us)) p m = (m', 0)"
    "msg_inv mq m' (us @ p # vs) fs" "msg_frame p m m'"
proof
  let ?m1 = "m\<lparr>pque := (pque m)(p := Some (pend mq))\<rparr>"
  let ?m = "wf_enque p (last (pend mq # us)) (pend mq) ?m1"
  show "msg_push (pend mq) (last (pend mq # us)) p m = (?m, 0)"
    using assms(2) by (simp add: msg_push_def msg_pop_def msg_held_def Let_def)
  have "wf_que_rep ?m (pend mq) (us @ p # vs)"
    using assms by (intro que.enq_rep) (auto simp: msg_inv_def msg_held_def)
  moreover have "wf_que_rep ?m (free mq) fs"
    using assms by (intro que.enq_frame [of _ _ us vs]) (auto simp: msg_inv_def msg_held_def)
  ultimately show "msg_inv mq ?m (us @ p # vs) fs"
    using assms by (auto simp: msg_inv_def msg_held_def)
qed (simp add: msg_frame_def)

lemma msg_push_free:
  assumes "msg_inv mq m ps fs" "msg_held mq m ps fs p"
  obtains m' where "msg_push (free mq) (last (free mq # fs)) p m = (m', 0)"
    "msg_inv mq m' ps (fs @ [p])" "msg_frame p m m'"
proof
  let ?m1 = "m\<lparr>pque := (pque m)(p := Some (free mq))\<rparr>"
  let ?m = "wf_enque p (last (free mq # fs)) (free mq) ?m1"
  show "msg_push (free mq) (last (free mq # fs)) p m = (?m, 0)"
    using assms(2) by (simp add: msg_push_def msg_pop_def msg_held_def Let_def)
  have "wf_que_rep ?m (free mq) (fs @ [p])"
    using assms by (intro que.enq_rep [of _ _ fs "[]"]) (auto simp: msg_inv_def msg_held_def)
  moreover have "wf_que_rep ?m (pend mq) ps"
    using assms by (intro que.enq_frame [of _ _ fs "[]"]) (auto simp: msg_inv_def msg_held_def)
  ultimately show "msg_inv mq ?m ps (fs @ [p])"
    using assms by (auto simp: msg_inv_def msg_held_def)
qed (simp add: msg_frame_def)

section \<open>Effect of the operations under the invariant\<close>

lemma find_rev_split:
  assumes "List.find P (rev ps) = r"
  obtains us vs where "ps = us @ vs" "\<forall>t\<in>set vs. \<not> P t"
    "(case r of None \<Rightarrow> h | Some t \<Rightarrow> t) = last (h # us)" "us = [] \<or> P (last us)"
proof (cases r)
  case None
  with assms have "\<forall>t\<in>set ps. \<not> P t" by (simp add: find_None_all)
  with None that [of "[]" ps] show thesis by simp
next
  case (Some t)
  then obtain ys zs where "rev ps = ys @ t # zs" "P t" "\<forall>y\<in>set ys. \<not> P y"
    using assms find_Some_split by metis
  moreover from this have "ps = (rev zs @ [t]) @ rev ys"
    by (metis append.assoc append_Cons append_Nil rev.simps(2) rev_append rev_rev_ident)
  ultimately show thesis using Some that [of "rev zs @ [t]" "rev ys"] by auto
qed

lemma wf_msg_push_split:
  assumes "msg_inv mq m ps fs" "msg_held mq m ps fs p"
  obtains us vs m' where "ps = us @ vs" "\<forall>t\<in>set vs. msg_key m p < msg_key m t"
    "us = [] \<or> msg_key m (last us) \<le> msg_key m p"
    "wf_msg_push (Some mq) (Some p) m = Some (m', 0)" "msg_inv mq m' (us @ p # vs) fs"
    "msg_frame p m m'"
proof -
  let ?P = "\<lambda>t. (tag m p OR WF_MSG_TAG_ID_MSK) \<ge> (tag m t OR WF_MSG_TAG_ID_MSK)"
  have d: "dll m (pend mq) ps" using assms(1) by (simp add: msg_inv_def wf_que_rep_def)
  obtain us vs where uv: "ps = us @ vs" "\<forall>t\<in>set vs. \<not> ?P t"
    "(case List.find ?P (rev ps) of None \<Rightarrow> pend mq | Some t \<Rightarrow> t) = last (pend mq # us)"
    "us = [] \<or> ?P (last us)"
    by (rule find_rev_split [OF refl, where h = "pend mq"])
  have "wf_list_for_each_prev m (pend mq) ?P (prev m (pend mq)) = Some (last (pend mq # us))"
    using wf_list_for_each_prev_dll [OF d, of ?P] uv(3) by simp
  moreover obtain m' where m': "msg_push (pend mq) (last (pend mq # us)) p m = (m', 0)"
    "msg_inv mq m' (us @ p # vs) fs" "msg_frame p m m'"
    using assms uv(1) msg_push_pend by blast
  ultimately have "wf_msg_push (Some mq) (Some p) m = Some (m', 0)"
    by (simp add: wf_msg_push_def)
  with uv m' that show thesis by (auto simp: msg_key_def not_le)
qed

lemma sorted_split_filter:
  fixes key :: "'k \<Rightarrow> 'c :: linorder"
  assumes "sorted (map key (us @ vs))" "\<forall>t\<in>set vs. k < key t" "us = [] \<or> key (last us) \<le> k"
  shows "filter (\<lambda>t. key t \<le> k) (us @ vs) = us" "filter (\<lambda>t. k < key t) (us @ vs) = vs"
proof -
  have us: "\<forall>t\<in>set us. key t \<le> k"
  proof (cases us rule: rev_cases)
    case (snoc ws w)
    with assms have "\<forall>t\<in>set ws. key t \<le> key w" "key w \<le> k"
      by (auto simp: sorted_append)
    with snoc show ?thesis by auto
  qed simp
  then show "filter (\<lambda>t. key t \<le> k) (us @ vs) = us"
    using assms(2) by (auto simp: filter_id_conv not_le filter_empty_conv)
  show "filter (\<lambda>t. k < key t) (us @ vs) = vs"
    using us assms(2) by (auto simp: filter_id_conv filter_empty_conv)
qed

lemma wf_msg_push_sorted:
  assumes "msg_inv mq m ps fs" "msg_held mq m ps fs p" "sorted (map (msg_key m) ps)"
  obtains m' where "wf_msg_push (Some mq) (Some p) m = Some (m', 0)" "msg_frame p m m'"
    "msg_inv mq m' (filter (\<lambda>t. msg_key m t \<le> msg_key m p) ps @ p #
       filter (\<lambda>t. msg_key m p < msg_key m t) ps) fs"
proof -
  obtain us vs m' where uv: "ps = us @ vs" "\<forall>t\<in>set vs. msg_key m p < msg_key m t"
    "us = [] \<or> msg_key m (last us) \<le> msg_key m p"
    "wf_msg_push (Some mq) (Some p) m = Some (m', 0)" "msg_inv mq m' (us @ p # vs) fs"
    "msg_frame p m m'"
    using wf_msg_push_split [OF assms(1,2)] by metis
  from sorted_split_filter [OF assms(3) [unfolded uv(1)] uv(2,3)]
  have "filter (\<lambda>t. msg_key m t \<le> msg_key m p) ps = us"
    "filter (\<lambda>t. msg_key m p < msg_key m t) ps = vs"
    by (simp_all only: uv(1))
  with uv that show thesis by metis
qed

lemma wf_msg_push_head_split:
  assumes "msg_inv mq m ps fs" "msg_held mq m ps fs p"
  obtains us vs m' where "ps = us @ vs" "\<forall>t\<in>set us. msg_dom m t < msg_dom m p"
    "vs = [] \<or> msg_dom m p \<le> msg_dom m (hd vs)"
    "wf_msg_push_head (Some mq) (Some p) m = Some (m', 0)" "msg_inv mq m' (us @ p # vs) fs"
    "msg_frame p m m'"
proof -
  let ?P = "\<lambda>t. WF_MSG_TAG_DOM (tag m t) \<ge> WF_MSG_TAG_DOM (tag m p)"
  have d: "dll m (pend mq) ps" using assms(1) by (simp add: msg_inv_def wf_que_rep_def)
  obtain us vs where uv: "ps = us @ vs" "\<forall>t\<in>set us. \<not> ?P t" "vs = [] \<or> ?P (hd vs)"
    "(case List.find ?P ps of None \<Rightarrow> pend mq | Some t \<Rightarrow> t) = hd (vs @ [pend mq])"
  proof (cases "List.find ?P ps")
    case None
    with that [of ps "[]"] show thesis by (simp add: find_None_all)
  next
    case (Some t)
    then obtain ys zs where "ps = ys @ t # zs" "?P t" "\<forall>y\<in>set ys. \<not> ?P y"
      using find_Some_split by metis
    with Some that [of ys "t # zs"] show thesis by simp
  qed
  have "wf_list_for_each m (pend mq) ?P (pnext m (pend mq)) = Some (hd (vs @ [pend mq]))"
    using wf_list_for_each_dll [OF d, of ?P] uv(4) by simp
  moreover have "wf_list_prev (hd (vs @ [pend mq])) m = last (pend mq # us)"
    using d uv(1) dll_prev [of m "pend mq" us] dll_prev_node [of m "pend mq" us "hd vs" "tl vs"]
    by (cases vs) (auto simp: wf_list_prev_def)
  moreover obtain m' where m': "msg_push (pend mq) (last (pend mq # us)) p m = (m', 0)"
    "msg_inv mq m' (us @ p # vs) fs" "msg_frame p m m'"
    using assms uv(1) msg_push_pend by blast
  ultimately have "wf_msg_push_head (Some mq) (Some p) m = Some (m', 0)"
    by (simp add: wf_msg_push_head_def)
  with uv m' that show thesis by (auto simp: msg_dom_def not_le)
qed

lemma wf_msg_new_effect:
  assumes "msg_inv mq m ps fs"
  shows "wf_msg_new (Some mq) tg True m =
           Some (m, if fs = [] then -2 else -3, None) \<and> (\<forall>p\<in>set fs. tag m p \<noteq> tg) \<or>
         (\<exists>us p vs m'. fs = us @ p # vs \<and> tag m p = tg \<and> (\<forall>t\<in>set us. tag m t \<noteq> tg) \<and>
            wf_msg_new (Some mq) tg True m = Some (m', 0, Some p) \<and>
            msg_inv mq m' ps (us @ vs) \<and> msg_held mq m' ps (us @ vs) p \<and> msg_frame p m m')"
proof -
  have rep: "wf_que_rep m (free mq) fs" and d: "dll m (free mq) fs"
    using assms by (auto simp: msg_inv_def wf_que_rep_def)
  note loop = wf_list_for_each_dll [OF d, of "\<lambda>p. tag m p = tg"]
  have hd_notin: "free mq \<notin> set fs" using d by (simp add: dll_def)
  show ?thesis
  proof (cases "List.find (\<lambda>p. tag m p = tg) fs")
    case None
    then have "\<forall>p\<in>set fs. tag m p \<noteq> tg" by (simp add: find_None_all)
    with None loop rep show ?thesis
      by (simp add: wf_msg_new_def wf_que_rep_is_empty)
  next
    case (Some p)
    then obtain us vs where fs: "fs = us @ p # vs" "tag m p = tg" "\<forall>t\<in>set us. tag m t \<noteq> tg"
      using find_Some_split [OF Some] by blast
    obtain m' where m': "msg_pop p m = (m', 0)" "msg_inv mq m' ps (us @ vs)"
      "msg_held mq m' ps (us @ vs) p" "msg_frame p m m'"
      using msg_pop_free assms fs(1) by metis
    have "wf_msg_new (Some mq) tg True m = Some (m', 0, Some p)"
      using Some loop rep m'(1) fs(1) hd_notin
      by (simp add: wf_msg_new_def wf_que_rep_is_empty)
    with fs m' show ?thesis by blast
  qed
qed

lemma msg_get_pop_effect:
  assumes "msg_inv mq m (us @ p # vs) fs" "if btail then vs = [] else us = []"
  obtains m' where "msg_get (Some mq) True True btail m = (m', 0, Some p)"
    "msg_inv mq m' (us @ vs) fs" "msg_held mq m' (us @ vs) fs p" "msg_frame p m m'"
proof -
  obtain m' where m': "msg_pop p m = (m', 0)" "msg_inv mq m' (us @ vs) fs"
    "msg_held mq m' (us @ vs) fs p" "msg_frame p m m'"
    using msg_pop_pend assms(1) by metis
  have r: "wf_que_rep m (pend mq) (us @ p # vs)" using assms(1) by (simp add: msg_inv_def)
  have "\<not> wf_que_is_empty (pend mq) m" using wf_que_rep_is_empty [OF r] by simp
  moreover have "(if btail then wf_que_tail (pend mq) m else wf_que_head (pend mq) m) = Some p"
    using assms(2) wf_que_rep_head [OF r] wf_que_rep_tail [OF r] by (cases btail) auto
  ultimately have "msg_get (Some mq) True True btail m = (m', 0, Some p)"
    using m'(1) by (simp add: msg_get_def)
  with m' that show thesis by blast
qed

lemma msg_get_empty:
  "msg_inv mq m [] fs \<Longrightarrow> msg_get (Some mq) True bpop btail m = (m, -2, None)"
  using wf_que_rep_is_empty [of m "pend mq" "[]"] by (simp add: msg_get_def msg_inv_def)

lemma msg_get_dom_pop_effect:
  assumes "msg_inv mq m ps fs" "msg_get_dom mq dm True btail m = Some (m', r, Some p)"
  shows "\<exists>us vs. ps = us @ p # vs \<and> msg_dom m p = dm \<and> msg_inv mq m' (us @ vs) fs \<and> msg_held mq m' (us @ vs) fs p \<and> msg_frame p m m'"
proof -
  let ?P = "\<lambda>t. WF_MSG_TAG_DOM (tag m t) = dm" and ?xs = "if btail then rev ps else ps"
  have d: "dll m (pend mq) ps" using assms(1) by (auto simp: msg_inv_def wf_que_rep_def)
  have loop: "(if btail then wf_list_for_each_prev m (pend mq) ?P (prev m (pend mq)) else wf_list_for_each m (pend mq) ?P (pnext m (pend mq))) =
      Some (case List.find ?P ?xs of None \<Rightarrow> pend mq | Some q \<Rightarrow> q)"
    using wf_list_for_each_dll [OF d, of ?P] wf_list_for_each_prev_dll [OF d, of ?P] by simp
  obtain q where q: "List.find ?P ?xs = Some q" using assms(2) loop by (cases "List.find ?P ?xs") (simp_all add: msg_get_dom_def)
  then have in_q: "q \<in> set ps" "?P q" by (auto simp: find_Some_iff split: if_splits) (metis length_rev nth_mem set_rev)+
  then obtain us vs where ps: "ps = us @ q # vs" by (meson split_list)
  obtain m1 where m1: "msg_pop q m = (m1, 0)" "msg_inv mq m1 (us @ vs) fs" "msg_held mq m1 (us @ vs) fs q" "msg_frame q m m1"
    using msg_pop_pend [OF assms(1) [unfolded ps]] by blast
  have "q \<noteq> pend mq" using d in_q(1) by (auto simp: dll_def)
  then have "m' = m1" "p = q" using assms(2) loop q m1(1) by (simp_all add: msg_get_dom_def)
  then show ?thesis using ps in_q(2) m1 by (auto simp: msg_dom_def)
qed

lemma wf_msg_del_effect:
  assumes "msg_inv mq m ps fs" "msg_held mq m ps fs p"
  obtains m' where "wf_msg_del (Some mq) (Some p) m = (m', 0)"
    "msg_inv mq m' ps (fs @ [p])" "msg_frame p m m'"
proof -
  have "wf_list_prev (free mq) m = last (free mq # fs)"
    using assms(1) dll_prev [of m "free mq" fs]
    by (simp add: msg_inv_def wf_que_rep_def wf_list_prev_def)
  moreover obtain m' where "msg_push (free mq) (last (free mq # fs)) p m = (m', 0)"
    "msg_inv mq m' ps (fs @ [p])" "msg_frame p m m'"
    using assms msg_push_free by blast
  ultimately show thesis using that by (simp add: wf_msg_del_def)
qed

text \<open>Deleting a message that is still pending takes it off the pending queue first.\<close>

lemma wf_msg_del_pending:
  assumes "msg_inv mq m (us @ p # vs) fs"
  obtains m' where "wf_msg_del (Some mq) (Some p) m = (m', 0)" "msg_inv mq m' (us @ vs) (fs @ [p])" "msg_frame p m m'"
proof -
  obtain m1 where m1: "msg_pop p m = (m1, 0)" "msg_inv mq m1 (us @ vs) fs" "msg_held mq m1 (us @ vs) fs p" "msg_frame p m m1"
    using msg_pop_pend [OF assms] by blast
  have "wf_list_prev (free mq) m = wf_list_prev (free mq) m1"
    using assms m1(2) dll_prev [of m "free mq" fs] dll_prev [of m1 "free mq" fs]
    by (simp add: msg_inv_def wf_que_rep_def wf_list_prev_def)
  moreover have "msg_pop p m1 = (m1, 0)" using m1(3) by (simp add: msg_pop_def msg_held_def)
  ultimately have "wf_msg_del (Some mq) (Some p) m = wf_msg_del (Some mq) (Some p) m1"
    using m1(1) by (simp add: wf_msg_del_def msg_push_def)
  moreover obtain m' where "wf_msg_del (Some mq) (Some p) m1 = (m', 0)" "msg_inv mq m' (us @ vs) (fs @ [p])" "msg_frame p m1 m'"
    using wf_msg_del_effect [OF m1(2,3)] by blast
  ultimately show thesis using that m1(4) by (simp add: msg_frame_def)
qed

lemma msg_inv_upd_fresh:
  fixes f g h
  assumes "msg_inv mq m ps fs" "p \<notin> insert (pend mq) (insert (free mq) (set ps \<union> set fs))"
  defines "m1 \<equiv> m\<lparr>pque := (pque m)(p := None), alloc_value_size := f, tag := g, msg_len := h\<rparr>"
  shows "msg_inv mq m1 ps fs" "msg_held mq m1 ps fs p"
proof -
  have seg: "lseg m1 a xs b = lseg m a xs b" for a xs b
    unfolding m1_def by (induction xs arbitrary: a) auto
  have "wf_que_rep m1 q xs = wf_que_rep m q xs" for q xs
    unfolding wf_que_rep_def dll_def seg by (simp add: m1_def)
  moreover have "pque m1 = (pque m)(p := None)" by (simp add: m1_def)
  ultimately show "msg_inv mq m1 ps fs" "msg_held mq m1 ps fs p"
    using assms(1,2) by (auto simp: msg_inv_def msg_held_def)
qed

lemma wf_msg_alloc_effect:
  assumes "msg_inv mq m ps fs" "distinct as"
    "set as \<inter> insert (pend mq) (insert (free mq) (set ps \<union> set fs)) = {}"
  shows "\<exists>m'. wf_msg_alloc mq tg sz (length as) (map Some as) m = (m', 0) \<and>
     msg_inv mq m' ps (fs @ as) \<and> (\<forall>q. q \<notin> set as \<longrightarrow> tag m' q = tag m q \<and> pque m' q = pque m q) \<and>
     (\<forall>q\<in>set as. tag m' q = tg)"
  using assms
proof (induction as arbitrary: m fs)
  case (Cons a as)
  define m1 where "m1 = m\<lparr>pque := (pque m)(a := None),
    alloc_value_size := (alloc_value_size m)(a := sz), tag := (tag m)(a := tg),
    msg_len := (msg_len m)(a := 0)\<rparr>"
  have "msg_inv mq m1 ps fs" "msg_held mq m1 ps fs a"
    unfolding m1_def using Cons.prems by (auto intro!: msg_inv_upd_fresh)
  then obtain m2 where m2: "wf_msg_del (Some mq) (Some a) m1 = (m2, 0)"
    "msg_inv mq m2 ps (fs @ [a])" "msg_frame a m1 m2"
    by (rule wf_msg_del_effect)
  have "set as \<inter> insert (pend mq) (insert (free mq) (set ps \<union> set (fs @ [a]))) = {}"
    using Cons.prems by auto
  then obtain m' where m': "wf_msg_alloc mq tg sz (length as) (map Some as) m2 = (m', 0)"
    "msg_inv mq m' ps ((fs @ [a]) @ as)"
    "\<forall>q. q \<notin> set as \<longrightarrow> tag m' q = tag m2 q \<and> pque m' q = pque m2 q"
    "\<forall>q\<in>set as. tag m' q = tg"
    using Cons.IH [OF m2(2)] Cons.prems(2) by auto
  have run: "wf_msg_alloc mq tg sz (length (a # as)) (map Some (a # as)) m = (m', 0)"
    using m'(1) m2(1) by (simp add: m1_def Let_def)
  have "tag m' q = tag m q \<and> pque m' q = pque m q" if "q \<notin> set (a # as)" for q
    using that m'(3) m2(3) by (simp add: msg_frame_def m1_def)
  moreover have "tag m' q = tg" if "q \<in> set (a # as)" for q
    using that m'(3,4) m2(3) Cons.prems(2) by (auto simp: msg_frame_def m1_def)
  ultimately show ?case using run m'(2) by auto
qed simp

lemma wf_msg_init_inv: "pend mq \<noteq> free mq \<Longrightarrow> msg_inv mq (wf_msg_init mq m) [] []"
proof -
  assume ne: "pend mq \<noteq> free mq"
  have "wf_que_rep (wf_msg_init mq m) (free mq) []"
    by (simp add: wf_msg_init_def wf_que_rep_init)
  moreover have "wf_que_rep (wf_msg_init mq m) (pend mq) []"
    using ne by (simp add: wf_msg_init_def wf_que_rep_def wf_que_init_def wf_list_init_def Let_def)
  ultimately show ?thesis using ne by (simp add: msg_inv_def)
qed

section \<open>Runs of the message queue\<close>

text \<open>
  The state of a run: the memory, the set of messages in callers' hands, and the set of all
  messages allocated so far. A step is one call of the interface by any thread; the lock
  of the queue makes the calls atomic. A caller pushes only a message it holds; it deletes a
  message that it holds, or one that it has seen with \<open>wf_msg_get\<close> and that is still pending
  (\<open>mlme.c\<close> lines 187, 595, 672 and 1732). The calls that only look at the queue change nothing.
\<close>

type_synonym 'a msg_state = "'a wf_msg_mem_scheme \<times> ptr set \<times> ptr set"

inductive msg_step :: "wf_msg_que \<Rightarrow> 'a msg_state \<Rightarrow> 'a msg_state \<Rightarrow> bool" for mq where
  alloc: "wf_msg_alloc mq tg sz (length as) (map Some as) m = (m', r) \<Longrightarrow> distinct as \<Longrightarrow>
    set as \<inter> insert (pend mq) (insert (free mq) Pool) = {} \<Longrightarrow>
    msg_step mq (m, H, Pool) (m', H, Pool \<union> set as)"
| new: "wf_msg_new (Some mq) tg True m = Some (m', 0, Some p) \<Longrightarrow>
    msg_step mq (m, H, Pool) (m', insert p H, Pool)"
| push: "p \<in> H \<Longrightarrow> wf_msg_push (Some mq) (Some p) m = Some (m', r) \<Longrightarrow>
    msg_step mq (m, H, Pool) (m', H - {p}, Pool)"
| push_head: "p \<in> H \<Longrightarrow> wf_msg_push_head (Some mq) (Some p) m = Some (m', r) \<Longrightarrow>
    msg_step mq (m, H, Pool) (m', H - {p}, Pool)"
| pop: "msg_get (Some mq) True True btail m = (m', 0, Some p) \<Longrightarrow>
    msg_step mq (m, H, Pool) (m', insert p H, Pool)"
| pop_dom: "msg_get_dom mq dm True btail m = Some (m', 0, Some p) \<Longrightarrow>
    msg_step mq (m, H, Pool) (m', insert p H, Pool)"
| del: "p \<in> H \<Longrightarrow> wf_msg_del (Some mq) (Some p) m = (m', r) \<Longrightarrow>
    msg_step mq (m, H, Pool) (m', H - {p}, Pool)"
| del_pend: "p \<in> Pool \<Longrightarrow> pque m p = Some (pend mq) \<Longrightarrow> wf_msg_del (Some mq) (Some p) m = (m', r) \<Longrightarrow>
    msg_step mq (m, H, Pool) (m', H, Pool)"

inductive msg_reachable :: "wf_msg_que \<Rightarrow> 'a msg_state \<Rightarrow> bool" for mq where
  start: "msg_reachable mq (wf_msg_init mq m, {}, {})"
| step: "msg_reachable mq s \<Longrightarrow> msg_step mq s s' \<Longrightarrow> msg_reachable mq s'"

text \<open>What holds between calls: every allocated message is in exactly one of the pending
  queue, the free queue and the callers' hands, and the pending queue is ordered by domain.\<close>

definition msg_run_inv :: "wf_msg_que \<Rightarrow> 'a msg_state \<Rightarrow> ptr list \<Rightarrow> ptr list \<Rightarrow> bool" where
  "msg_run_inv mq s ps fs \<longleftrightarrow>
     (case s of (m, H, Pool) \<Rightarrow>
        msg_inv mq m ps fs \<and> (\<forall>p\<in>H. msg_held mq m ps fs p) \<and>
        set ps \<union> set fs \<union> H = Pool \<and> sorted (map (msg_dom m) ps))"

lemma msg_held_frame:
  assumes "msg_held mq m ps fs q" "msg_frame p m m'" "q \<noteq> p"
    "set ps' \<union> set fs' \<subseteq> insert p (set ps \<union> set fs)"
  shows "msg_held mq m' ps' fs' q"
  using assms by (auto simp: msg_held_def msg_frame_def)

lemma msg_dom_frame: "msg_frame p m m' \<Longrightarrow> msg_dom m' = msg_dom m"
  by (auto simp: msg_frame_def msg_dom_def)

lemma msg_run_inv_take_pend:
  assumes "msg_run_inv mq (m, H, Pool) (us @ p # vs) fs" "msg_inv mq m' (us @ vs) fs"
    "msg_held mq m' (us @ vs) fs p" "msg_frame p m m'"
  shows "msg_run_inv mq (m', insert p H, Pool) (us @ vs) fs"
proof -
  have "msg_held mq m' (us @ vs) fs q" if "q \<in> H" for q
  proof (cases "q = p")
    case False
    have "msg_held mq m (us @ p # vs) fs q" using assms(1) that by (simp add: msg_run_inv_def)
    then show ?thesis using assms(4) False by (rule msg_held_frame) auto
  qed (use assms(3) in simp)
  then show ?thesis
    using assms msg_dom_frame [OF assms(4)] by (auto simp: msg_run_inv_def sorted_append)
qed

lemma msg_run_inv_take_free:
  assumes "msg_run_inv mq (m, H, Pool) ps (us @ p # vs)" "msg_inv mq m' ps (us @ vs)"
    "msg_held mq m' ps (us @ vs) p" "msg_frame p m m'"
  shows "msg_run_inv mq (m', insert p H, Pool) ps (us @ vs)"
proof -
  have "msg_held mq m' ps (us @ vs) q" if "q \<in> H" for q
  proof (cases "q = p")
    case False
    have "msg_held mq m ps (us @ p # vs) q" using assms(1) that by (simp add: msg_run_inv_def)
    then show ?thesis using assms(4) False by (rule msg_held_frame) auto
  qed (use assms(3) in simp)
  then show ?thesis
    using assms msg_dom_frame [OF assms(4)] by (auto simp: msg_run_inv_def)
qed

lemma msg_run_inv_give:
  assumes "msg_run_inv mq (m, H, Pool) ps fs" "p \<in> H" "msg_inv mq m' ps' fs'"
    "set ps' \<union> set fs' = insert p (set ps \<union> set fs)" "msg_frame p m m'"
    "sorted (map (msg_dom m) ps')"
  shows "msg_run_inv mq (m', H - {p}, Pool) ps' fs'"
proof -
  have "msg_held mq m' ps' fs' q" if "q \<in> H - {p}" for q
  proof (rule msg_held_frame)
    show "msg_held mq m ps fs q" using assms(1) that by (simp add: msg_run_inv_def)
  qed (use assms that in auto)
  then show ?thesis
    using assms msg_dom_frame [OF assms(5)] by (auto simp: msg_run_inv_def)
qed

lemma msg_run_inv_move:
  assumes "msg_run_inv mq (m, H, Pool) (us @ p # vs) fs" "msg_inv mq m' (us @ vs) (fs @ [p])" "msg_frame p m m'"
  shows "msg_run_inv mq (m', H, Pool) (us @ vs) (fs @ [p])"
proof -
  have "msg_held mq m' (us @ vs) (fs @ [p]) q" if "q \<in> H" for q
  proof -
    have h: "msg_held mq m (us @ p # vs) fs q" using assms(1) that by (simp add: msg_run_inv_def)
    then show ?thesis using assms(3) by (rule msg_held_frame) (use h in \<open>auto simp: msg_held_def\<close>)
  qed
  then show ?thesis using assms msg_dom_frame [OF assms(3)] by (auto simp: msg_run_inv_def sorted_append)
qed

lemma sorted_insert_between:
  fixes key :: "'k \<Rightarrow> 'c :: linorder"
  assumes "sorted (map key (us @ vs))" "us = [] \<or> key (last us) \<le> key p" "vs = [] \<or> key p \<le> key (hd vs)"
  shows "sorted (map key (us @ p # vs))"
proof -
  have "\<forall>t\<in>set us. key t \<le> key p"
    using assms(1,2) by (cases us rule: rev_cases) (fastforce simp: sorted_append)+
  moreover have "\<forall>t\<in>set vs. key p \<le> key t"
    using assms(1,3) by (cases vs) (fastforce simp: sorted_append)+
  ultimately show ?thesis using assms(1) by (fastforce simp: sorted_append)
qed

lemma msg_step_inv:
  assumes "msg_step mq s s'" "msg_run_inv mq s ps fs"
  shows "\<exists>ps' fs'. msg_run_inv mq s' ps' fs'"
  using assms
proof (induction rule: msg_step.induct)
  case (alloc tg sz as m m' r Pool H)
  from alloc have inv: "msg_inv mq m ps fs" and Pool: "set ps \<union> set fs \<union> H = Pool"
    by (auto simp: msg_run_inv_def)
  have "set as \<inter> insert (pend mq) (insert (free mq) (set ps \<union> set fs)) = {}"
    using alloc.hyps(3) Pool by auto
  then have m': "msg_inv mq m' ps (fs @ as)"
    "\<forall>q. q \<notin> set as \<longrightarrow> tag m' q = tag m q \<and> pque m' q = pque m q"
    using wf_msg_alloc_effect [OF inv alloc.hyps(2), of tg sz] alloc.hyps(1) by auto
  moreover have "msg_dom m' p = msg_dom m p" if "p \<in> set ps" for p
    using that m'(2) alloc.hyps(3) Pool by (auto simp: msg_dom_def)
  then have eq: "map (msg_dom m') ps = map (msg_dom m) ps" by simp
  have "sorted (map (msg_dom m') ps)"
    unfolding eq using alloc.prems by (simp add: msg_run_inv_def)
  moreover have "msg_held mq m' ps (fs @ as) p" if "p \<in> H" for p
    using that m'(2) alloc.hyps(3) alloc.prems Pool by (auto simp: msg_run_inv_def msg_held_def)
  ultimately have "msg_run_inv mq (m', H, Pool \<union> set as) ps (fs @ as)"
    using alloc.prems by (auto simp: msg_run_inv_def)
  then show ?case by blast
next
  case (new tg m m' p H Pool)
  then have "msg_inv mq m ps fs" by (simp add: msg_run_inv_def)
  from wf_msg_new_effect [OF this, of tg] new.hyps
  obtain us vs where fs: "fs = us @ p # vs" "msg_inv mq m' ps (us @ vs)"
    "msg_held mq m' ps (us @ vs) p" "msg_frame p m m'"
    by (auto split: if_splits)
  then show ?case using new.prems msg_run_inv_take_free by blast
next
  case (push p H m m' r Pool)
  then have inv: "msg_inv mq m ps fs" "msg_held mq m ps fs p" and srt: "sorted (map (msg_dom m) ps)"
    by (auto simp: msg_run_inv_def)
  obtain us vs where uv: "ps = us @ vs" "\<forall>t\<in>set vs. msg_key m p < msg_key m t"
    "us = [] \<or> msg_key m (last us) \<le> msg_key m p" "msg_inv mq m' (us @ p # vs) fs" "msg_frame p m m'"
    using wf_msg_push_split [OF inv] push.hyps(2) by (metis fst_conv option.inject)
  have "sorted (map (msg_dom m) (us @ p # vs))"
  proof (rule sorted_insert_between)
    show "vs = [] \<or> msg_dom m p \<le> msg_dom m (hd vs)"
      using uv(2) hd_in_set [of vs] by (metis less_imp_le msg_key_dom_mono)
  qed (use srt uv(1,3) msg_key_dom_mono in auto)
  then show ?case
    using msg_run_inv_give [OF push.prems push.hyps(1) uv(4) _ uv(5)] uv(1) by auto
next
  case (push_head p H m m' r Pool)
  then have inv: "msg_inv mq m ps fs" "msg_held mq m ps fs p" and srt: "sorted (map (msg_dom m) ps)"
    by (auto simp: msg_run_inv_def)
  obtain us vs where uv: "ps = us @ vs" "\<forall>t\<in>set us. msg_dom m t < msg_dom m p"
    "vs = [] \<or> msg_dom m p \<le> msg_dom m (hd vs)" "msg_inv mq m' (us @ p # vs) fs" "msg_frame p m m'"
    using wf_msg_push_head_split [OF inv] push_head.hyps(2) by (metis fst_conv option.inject)
  have "sorted (map (msg_dom m) (us @ p # vs))"
  proof (rule sorted_insert_between)
    show "us = [] \<or> msg_dom m (last us) \<le> msg_dom m p"
      using uv(2) last_in_set [of us] by (metis less_imp_le)
  qed (use srt uv(1,3) in auto)
  then show ?case
    using msg_run_inv_give [OF push_head.prems push_head.hyps(1) uv(4) _ uv(5)] uv(1) by auto
next
  case (pop btail m m' p H Pool)
  then have inv: "msg_inv mq m ps fs" by (simp add: msg_run_inv_def)
  have "ps \<noteq> []" using pop.hyps msg_get_empty [of mq m fs True btail] inv by auto
  then obtain us q vs where uv: "ps = us @ q # vs" "if btail then vs = [] else us = []"
    by (metis append_Nil append_butlast_last_id list.collapse)
  obtain m2 where m2: "msg_get (Some mq) True True btail m = (m2, 0, Some q)"
    "msg_inv mq m2 (us @ vs) fs" "msg_held mq m2 (us @ vs) fs q" "msg_frame q m m2"
    using msg_get_pop_effect [of mq m us q vs fs btail] inv uv by metis
  with pop.hyps have "m' = m2" "p = q" by auto
  with m2 pop.prems uv(1) show ?case using msg_run_inv_take_pend by blast
next
  case (pop_dom dm btail m m' p H Pool)
  then have "msg_inv mq m ps fs" by (simp add: msg_run_inv_def)
  from msg_get_dom_pop_effect [OF this pop_dom.hyps]
  obtain us vs where "ps = us @ p # vs" "msg_inv mq m' (us @ vs) fs"
    "msg_held mq m' (us @ vs) fs p" "msg_frame p m m'"
    by auto
  then show ?case using pop_dom.prems msg_run_inv_take_pend by blast
next
  case (del p H m m' r Pool)
  then have inv: "msg_inv mq m ps fs" "msg_held mq m ps fs p" "sorted (map (msg_dom m) ps)"
    by (auto simp: msg_run_inv_def)
  obtain "msg_inv mq m' ps (fs @ [p])" "msg_frame p m m'"
    using wf_msg_del_effect [OF inv(1,2)] del.hyps(2) by (metis fst_conv)
  then show ?case using msg_run_inv_give [OF del.prems del.hyps(1)] inv(3) by fastforce
next
  case (del_pend p Pool m m' r H)
  then have "p \<in> set ps" by (auto simp: msg_run_inv_def msg_inv_def msg_held_def)
  then obtain us vs where ps: "ps = us @ p # vs" by (meson split_list)
  then have "msg_inv mq m (us @ p # vs) fs" using del_pend.prems by (simp add: msg_run_inv_def)
  from wf_msg_del_pending [OF this] del_pend.hyps(3) have "msg_inv mq m' (us @ vs) (fs @ [p])" "msg_frame p m m'" by (metis fst_conv)+
  then show ?case using msg_run_inv_move [OF del_pend.prems [unfolded ps]] by blast
qed

lemma msg_reachable_run_inv:
  assumes "msg_reachable mq s" "pend mq \<noteq> free mq"
  shows "\<exists>ps fs. msg_run_inv mq s ps fs"
  using assms(1)
proof (induction rule: msg_reachable.induct)
  case (start m)
  have "msg_run_inv mq (wf_msg_init mq m, {}, {}) [] []"
    using wf_msg_init_inv [OF assms(2)] by (simp add: msg_run_inv_def)
  then show ?case by blast
next
  case (step s s')
  then show ?case using msg_step_inv by blast
qed

lemma wf_list_for_each_safe_seg:
  "lseg m a xs head \<Longrightarrow> head \<notin> set xs \<Longrightarrow> wf_list_for_each_safe m head (pnext m a) = Some xs"
proof (induction xs arbitrary: a)
  case Nil
  then show ?case by (simp add: wf_list_for_each_safe.simps)
next
  case (Cons x xs)
  then have "wf_list_for_each_safe m head (pnext m x) = Some xs" by simp
  with Cons.prems show ?case by (subst wf_list_for_each_safe.simps) auto
qed

lemma wf_deque_self:
  "wf_que_rep m q (us @ p # vs) \<Longrightarrow>
   pnext (fst (wf_deque p q m)) p = p \<and> prev (fst (wf_deque p q m)) p = p"
  using wf_list_delete_self [of p m] wf_que_rep_list_is_empty [of m q "us @ p # vs"]
  by (simp add: wf_deque_def wf_que_list_head_def)

lemma wf_enque_self:
  assumes "pnext m p = p" "prev m p = p"
  shows "wf_enque p p q m = add_cnt q 1 m"
proof -
  have "(pnext m)(p := p) = pnext m" "(prev m)(p := p) = prev m"
    using assms by auto
  then show ?thesis
    using assms by (simp add: wf_enque_def wf_list_insert_next_def wf_list_insert_def
        wf_list_next_def Let_def)
qed

section \<open>Properties\<close>

text \<open>(C13) In every state reachable from initialisation by calls of the interface (allocation, \<open>wf_msg_new\<close>, \<open>wf_msg_push\<close> and
  \<open>wf_msg_push_head\<close> of a message in the caller's hands, the popping forms of \<open>msg_get\<close> and \<open>msg_get_dom\<close>, \<open>wf_msg_del\<close> of a
  message in the caller's hands or of one that is still pending) both queues are well-formed circular lists, every allocated message is in exactly one
  of the pending queue, the free queue and the callers' hands, the pending queue is ordered by domain, and \<open>wf_msg_count\<close> is its length.\<close>

theorem msg_reachable_conserves:
  assumes "msg_reachable mq (m, H, Pool)" "pend mq \<noteq> free mq"
  shows "\<exists>ps fs. dll m (pend mq) ps \<and> dll m (free mq) fs \<and> distinct (ps @ fs) \<and>
     H \<inter> (set ps \<union> set fs) = {} \<and> set ps \<union> set fs \<union> H = Pool \<and>
     sorted (map (\<lambda>p. WF_MSG_TAG_DOM (tag m p)) ps) \<and> wf_msg_count mq m = of_nat (length ps)"
proof -
  obtain ps fs where "msg_run_inv mq (m, H, Pool) ps fs"
    using msg_reachable_run_inv [OF assms] by blast
  then have "msg_inv mq m ps fs" "\<forall>p\<in>H. msg_held mq m ps fs p" "set ps \<union> set fs \<union> H = Pool"
    "sorted (map (msg_dom m) ps)"
    by (simp_all add: msg_run_inv_def)
  moreover from this have "dll m (pend mq) ps" "dll m (free mq) fs" "set ps \<inter> set fs = {}"
    "cnt m (pend mq) = of_nat (length ps)" "H \<inter> (set ps \<union> set fs) = {}"
    by (auto simp: msg_inv_def wf_que_rep_def msg_held_def)
  moreover from this have "distinct (ps @ fs)" by (simp add: dll_def)
  ultimately show ?thesis unfolding wf_msg_count_def msg_dom_def by blast
qed

definition msg_que_ex :: wf_msg_que where
  "msg_que_ex = \<lparr>pend = 1, free = 2\<rparr>"

definition msg_mem_ex :: wf_msg_mem where
  "msg_mem_ex = \<lparr>pnext = (\<lambda>_. 0)(1 := 10, 10 := 1, 2 := 2), prev = (\<lambda>_. 0)(1 := 10, 10 := 1, 2 := 2),
     cnt = (\<lambda>_. 0)(1 := 1), pque = (\<lambda>_. None)(10 := Some 1), alloc_value_size = (\<lambda>_. 0),
     tag = (\<lambda>_. 0)(10 := 0x2080, 11 := 0x1080), msg_len = (\<lambda>_. 0)\<rparr>"

lemma msg_reachable_conserves_witness:
  "\<exists>(m :: wf_msg_mem) ps fs. msg_reachable msg_que_ex (m, {}, {10, 11}) \<and>
     dll m 1 ps \<and> dll m 2 fs \<and> set ps \<union> set fs = {10, 11} \<and> distinct (ps @ fs)"
proof -
  let ?m0 = "wf_msg_init msg_que_ex msg_mem_ex"
  obtain m r where m: "wf_msg_alloc msg_que_ex 0x1080 4 (length [10, 11 :: nat]) (map Some [10, 11]) ?m0 = (m, r)"
    by (metis surj_pair)
  have "msg_step msg_que_ex (?m0, {}, {}) (m, {}, {} \<union> set [10, 11])"
    using m by (rule msg_step.alloc) (auto simp: msg_que_ex_def)
  then have reach: "msg_reachable msg_que_ex (m, {}, {10, 11})"
    using msg_reachable.step [OF msg_reachable.start] by fastforce
  have ids: "pend msg_que_ex = 1" "free msg_que_ex = 2" by (simp_all add: msg_que_ex_def)
  from msg_reachable_conserves [OF reach] obtain ps fs where
    "dll m 1 ps" "dll m 2 fs" "distinct (ps @ fs)" "set ps \<union> set fs = {10, 11}"
    unfolding ids by auto
  with reach show ?thesis by blast
qed

text \<open>\<open>wf_msg_push\<close> is a stable priority insertion: on a pending queue ordered by domain
  and priority (the tag with its id bits masked) it returns 0 and places the message after
  every message whose domain and priority are not above its own and before every other one,
  so messages of equal rank leave in the order they were pushed; the queue stays ordered.\<close>

theorem wf_msg_push_stable:
  assumes "msg_inv mq m ps fs" "msg_held mq m ps fs p" "sorted (map (msg_key m) ps)"
  shows "\<exists>m'. wf_msg_push (Some mq) (Some p) m = Some (m', 0) \<and>
     wf_que_rep m' (pend mq)
       (filter (\<lambda>t. msg_key m t \<le> msg_key m p) ps @ p # filter (\<lambda>t. msg_key m p < msg_key m t) ps) \<and>
     wf_que_rep m' (free mq) fs \<and>
     sorted (map (msg_key m') (filter (\<lambda>t. msg_key m t \<le> msg_key m p) ps @ p #
       filter (\<lambda>t. msg_key m p < msg_key m t) ps))"
proof -
  let ?ps = "filter (\<lambda>t. msg_key m t \<le> msg_key m p) ps @ p # filter (\<lambda>t. msg_key m p < msg_key m t) ps"
  obtain m' where m': "wf_msg_push (Some mq) (Some p) m = Some (m', 0)" "msg_frame p m m'"
    "msg_inv mq m' ?ps fs"
    using wf_msg_push_sorted [OF assms] by metis
  have "msg_key m' = msg_key m" using m'(2) by (auto simp: msg_frame_def msg_key_def)
  moreover have "sorted (map (msg_key m) ?ps)"
    using assms(3) by (auto simp: sorted_append sorted_filter)
  ultimately show ?thesis using m' by (auto simp: msg_inv_def)
qed

lemma wf_msg_push_stable_witness:
  "\<exists>m'. wf_msg_push (Some msg_que_ex) (Some 11) msg_mem_ex = Some (m', 0) \<and>
     wf_que_rep m' 1 [11, 10]"
proof -
  have k: "msg_key msg_mem_ex 11 = 0x10FF" "msg_key msg_mem_ex 10 = 0x20FF"
    by (simp_all add: msg_key_def msg_mem_ex_def WF_MSG_TAG_ID_MSK_def)
  have "msg_inv msg_que_ex msg_mem_ex [10] []"
    by (simp add: msg_inv_def msg_que_ex_def msg_mem_ex_def wf_que_rep_def dll_def)
  moreover have "msg_held msg_que_ex msg_mem_ex [10] [] 11"
    by (simp add: msg_held_def msg_que_ex_def msg_mem_ex_def)
  ultimately show ?thesis
    using wf_msg_push_stable [of msg_que_ex msg_mem_ex "[10]" "[]" 11] k
    by (auto simp: msg_que_ex_def)
qed

text \<open>\<open>wf_msg_new\<close> returns on every well-formed queue: it fails with -2 on an empty free
  queue and with -3 when no free message carries the tag, changing nothing; otherwise it
  unlinks the first free message with the tag, whose back pointer becomes NULL.\<close>

theorem wf_msg_new_result:
  assumes "msg_inv mq m ps fs"
  shows "wf_msg_new (Some mq) tg True m =
           Some (m, if fs = [] then -2 else -3, None) \<and> (\<forall>p\<in>set fs. tag m p \<noteq> tg) \<or>
         (\<exists>us p vs m'. fs = us @ p # vs \<and> tag m p = tg \<and> (\<forall>t\<in>set us. tag m t \<noteq> tg) \<and>
            wf_msg_new (Some mq) tg True m = Some (m', 0, Some p) \<and>
            msg_inv mq m' ps (us @ vs) \<and> pque m' p = None)"
  using wf_msg_new_effect [OF assms, of tg] unfolding msg_held_def by blast

lemma wf_msg_new_result_witness:
  "wf_msg_new (Some msg_que_ex) 0x1080 True msg_mem_ex = Some (msg_mem_ex, -2, None)"
proof -
  have "msg_inv msg_que_ex msg_mem_ex [10] []"
    by (simp add: msg_inv_def msg_que_ex_def msg_mem_ex_def wf_que_rep_def dll_def)
  from wf_msg_new_result [OF this, of "0x1080"] show ?thesis by auto
qed

text \<open>Pushing a message that is already pending, with no later message of equal or lower
  rank, loses it: the scan stops at the message itself, \<open>msg_push\<close> unlinks it and then
  inserts it after itself. The call reports success, the message is on no queue, and the
  counter of the pending queue is one too high.\<close>

theorem wf_msg_push_pending_lost:
  assumes "msg_inv mq m (us @ p # vs) fs" "\<forall>t\<in>set vs. msg_key m p < msg_key m t"
  shows "\<exists>m'. wf_msg_push (Some mq) (Some p) m = Some (m', 0) \<and>
     dll m' (pend mq) (us @ vs) \<and> pque m' p = Some (pend mq) \<and>
     wf_msg_count mq m' = of_nat (length (us @ vs)) + 1"
proof -
  let ?P = "\<lambda>t. (tag m p OR WF_MSG_TAG_ID_MSK) \<ge> (tag m t OR WF_MSG_TAG_ID_MSK)"
  have r: "wf_que_rep m (pend mq) (us @ p # vs)" and q: "pque m p = Some (pend mq)"
    using assms(1) by (auto simp: msg_inv_def)
  have "List.find ?P (rev vs) = None"
    using assms(2) by (auto simp: find_None_all msg_key_def not_le)
  then have "List.find ?P (rev (us @ p # vs)) = Some p"
    by (simp add: find_append)
  then have scan: "wf_list_for_each_prev m (pend mq) ?P (prev m (pend mq)) = Some p"
    using wf_list_for_each_prev_dll [of m "pend mq" "us @ p # vs" ?P] r by (simp add: wf_que_rep_def)
  let ?d = "fst (wf_deque p (pend mq) m)"
  have pop: "msg_pop p m = (?d\<lparr>pque := (pque m)(p := None)\<rparr>, 0)"
    using r q by (rule msg_pop_queued)
  let ?m' = "add_cnt (pend mq) 1 (?d\<lparr>pque := (pque m)(p := Some (pend mq))\<rparr>)"
  have "msg_push (pend mq) p p m = (?m', 0)"
    using wf_deque_self [OF r] pop by (simp add: msg_push_def wf_enque_self)
  moreover have "dll ?d (pend mq) (us @ vs)" "cnt ?d (pend mq) = of_nat (length (us @ vs))"
    using que.deq_rep [OF r] by (auto simp: wf_que_rep_def)
  ultimately show ?thesis
    using scan by (simp add: wf_msg_push_def wf_msg_count_def dll_def)
qed

lemma wf_msg_push_pending_lost_witness:
  "\<exists>m'. wf_msg_push (Some msg_que_ex) (Some 10) msg_mem_ex = Some (m', 0) \<and>
     dll m' 1 [] \<and> wf_msg_count msg_que_ex m' = 1"
proof -
  have "msg_inv msg_que_ex msg_mem_ex ([] @ 10 # []) []"
    by (simp add: msg_inv_def msg_que_ex_def msg_mem_ex_def wf_que_rep_def dll_def)
  from wf_msg_push_pending_lost [OF this] show ?thesis by (auto simp: msg_que_ex_def)
qed

text \<open>\<open>wf_msg_free\<close> terminates on well-formed queues and frees every queued message
  exactly once, pending messages first.\<close>

theorem wf_msg_free_all:
  assumes "msg_inv mq m ps fs"
  shows "wf_msg_free mq m = Some (ps @ fs, 0) \<and> distinct (ps @ fs)"
proof -
  have "wf_list_for_each_safe m (pend mq) (pnext m (pend mq)) = Some ps"
    "wf_list_for_each_safe m (free mq) (pnext m (free mq)) = Some fs"
    using assms by (auto intro!: wf_list_for_each_safe_seg simp: msg_inv_def wf_que_rep_def dll_def)
  then show ?thesis
    using assms by (auto simp: wf_msg_free_def msg_inv_def wf_que_rep_def dll_def)
qed

lemma wf_msg_free_all_witness: "wf_msg_free msg_que_ex msg_mem_ex = Some ([10], 0)"
proof -
  have "msg_inv msg_que_ex msg_mem_ex [10] []"
    by (simp add: msg_inv_def msg_que_ex_def msg_mem_ex_def wf_que_rep_def dll_def)
  from wf_msg_free_all [OF this] show ?thesis by simp
qed

text \<open>The three fields of a tag are read back as they were set, each cut to its width.\<close>

theorem wf_msg_tag_roundtrip:
  "WF_MSG_TAG_DOM (WF_MSG_TAG_SET dm pri i) = ucast (dm AND 0xF) \<and>
   WF_MSG_TAG_PRI (WF_MSG_TAG_SET dm pri i) = ucast (pri AND 0x1F) \<and>
   WF_MSG_TAG_ID (WF_MSG_TAG_SET dm pri i) = ucast (i AND 0x7F)"
proof -
  have m: "(0xF :: u16) = mask 4" "(0x1F :: u16) = mask 5" "(0x7F :: u16) = mask 7"
    by (simp_all add: mask_numeral)
  show ?thesis
    unfolding WF_MSG_TAG_DOM_def WF_MSG_TAG_PRI_def WF_MSG_TAG_ID_def WF_MSG_TAG_SET_def m
    by (intro conjI bit_word_eqI) (auto simp: bit_simps)
qed

end
