(* ===== verification/Sec_Arc4.thy ===== *)
theory Sec_Arc4
  imports Wf_Prelude
begin

text \<open>
  The ARC4 stream cipher of \<open>src/trunk_driver/nic/sec_arc4.c\<close>: key schedule, one
  keystream byte, encryption of a buffer. The context keeps the 256-byte table and the
  two indices of \<open>struct arc4context\<close> (\<open>sec.h\<close>).

  The locale \<open>stream_cipher\<close> is what WEP and TKIP rely on: encryption in pieces is
  encryption of the whole, and encrypting twice from the same context gives the plain
  text back. It is interpreted on \<open>arc4_encrypt\<close>.
\<close>

section \<open>Operations\<close>

record arc4context =
  arc4_x :: u32
  arc4_y :: u32
  arc4_state :: bytes

text \<open>The second loop of \<open>arc4_init\<close>, with \<open>n\<close> iterations left. The key is a buffer of
  its own length, \<open>key_len\<close> the length the caller passes; a read of the key past its
  buffer gives \<open>None\<close>.\<close>

fun arc4_init_loop ::
  "bytes \<Rightarrow> nat \<Rightarrow> nat \<Rightarrow> nat \<Rightarrow> nat \<Rightarrow> u32 \<Rightarrow> bytes \<Rightarrow> bytes option" where
  "arc4_init_loop key key_len 0 counter keyindex stateindex st = Some st"
| "arc4_init_loop key key_len (Suc n) counter keyindex stateindex st = do {
     k \<leftarrow> rd8 key keyindex;
     let t = st ! counter;
     let stateindex' = (stateindex + ucast k + ucast t) AND 0xff;
     let u = st ! unat stateindex';
     let st' = (st[unat stateindex' := t])[counter := u];
     let keyindex' = (if keyindex + 1 \<ge> key_len then 0 else keyindex + 1);
     arc4_init_loop key key_len n (counter + 1) keyindex' stateindex' st'
   }"

definition arc4_init :: "bytes \<Rightarrow> nat \<Rightarrow> arc4context option" where
  "arc4_init key key_len = do {
     st \<leftarrow> arc4_init_loop key key_len 256 0 0 0 (map of_nat [0..<256]);
     Some \<lparr>arc4_x = 0, arc4_y = 0, arc4_state = st\<rparr>
   }"

definition arc4_byte :: "arc4context \<Rightarrow> arc4context \<times> u32" where
  "arc4_byte ctx =
     (let st = arc4_state ctx;
          x = (arc4_x ctx + 1) AND 0xff;
          sx = ucast (st ! unat x) :: u32;
          y = (sx + arc4_y ctx) AND 0xff;
          sy = ucast (st ! unat y) :: u32;
          st' = (st[unat y := ucast sx])[unat x := ucast sy]
      in (\<lparr>arc4_x = x, arc4_y = y, arc4_state = st'\<rparr>,
          ucast (st' ! unat ((sx + sy) AND 0xff))))"

fun arc4_encrypt :: "arc4context \<Rightarrow> bytes \<Rightarrow> arc4context \<times> bytes" where
  "arc4_encrypt ctx [] = (ctx, [])"
| "arc4_encrypt ctx (b # bs) =
     (let (ctx1, k) = arc4_byte ctx; (ctx2, out) = arc4_encrypt ctx1 bs
      in (ctx2, (b XOR ucast k) # out))"

text \<open>The call as it acts on memory: \<open>n\<close> bytes of \<open>src\<close> from \<open>sofs\<close> on are encrypted into
  \<open>dst\<close> from \<open>dofs\<close> on. In place (\<open>dst = src\<close>, \<open>dofs = sofs\<close>) every byte is read before it
  is overwritten.\<close>

definition arc4_encrypt_buf ::
  "arc4context \<Rightarrow> bytes \<Rightarrow> nat \<Rightarrow> bytes \<Rightarrow> nat \<Rightarrow> nat \<Rightarrow> (arc4context \<times> bytes) option" where
  "arc4_encrypt_buf ctx dst dofs src sofs n = do {
     bs \<leftarrow> rdn src sofs n;
     let (ctx', out) = arc4_encrypt ctx bs;
     dst' \<leftarrow> wrn dst dofs out;
     Some (ctx', dst')
   }"

section \<open>The table stays a permutation of all bytes\<close>

definition arc4_perm :: "bytes \<Rightarrow> bool" where
  "arc4_perm st \<longleftrightarrow> mset st = mset (map of_nat [0..<256])"

lemma arc4_perm_length: "arc4_perm st \<Longrightarrow> length st = 256"
  unfolding arc4_perm_def by (metis diff_zero length_map length_upt size_mset)

lemma arc4_perm_distinct: "arc4_perm st \<Longrightarrow> distinct st"
proof -
  assume "arc4_perm st"
  moreover have "distinct (map of_nat [0..<256] :: bytes)"
  proof (subst distinct_map, intro conjI inj_onI)
    fix i j :: nat
    assume "i \<in> set [0..<256]" "j \<in> set [0..<256]" "(of_nat i :: u8) = of_nat j"
    then show "i = j"
      by (simp add: of_nat_inverse word_of_nat_eq_iff take_bit_nat_eq_self)
  qed simp
  ultimately show ?thesis
    unfolding arc4_perm_def by (metis distinct_count_atmost_1 set_mset_mset)
qed

lemma arc4_perm_all: "arc4_perm st \<Longrightarrow> set st = UNIV"
proof -
  assume p: "arc4_perm st"
  have "card (set st) = 256"
    using arc4_perm_distinct [OF p] arc4_perm_length [OF p] by (simp add: distinct_card)
  moreover have "card (UNIV :: u8 set) = 256" by (simp add: card_word)
  ultimately show ?thesis by (metis card_subset_eq finite top_greatest)
qed

lemma arc4_perm_start: "arc4_perm (map of_nat [0..<256])"
  by (simp add: arc4_perm_def)

lemma and_ff_less: "unat ((w :: u32) AND 0xff) < 256"
proof -
  have "w AND 0xff = take_bit 8 w" by (simp add: take_bit_eq_mask mask_numeral)
  then have "unat (w AND 0xff) = take_bit 8 (unat w)" by (simp only: unsigned_take_bit_eq)
  then show ?thesis using take_bit_nat_less_exp [of 8 "unat w"] by simp
qed

lemma arc4_perm_swap:
  "arc4_perm st \<Longrightarrow> i < 256 \<Longrightarrow> j < 256 \<Longrightarrow> arc4_perm ((st[i := st ! j])[j := st ! i])"
  using arc4_perm_length [of st]
  by (simp add: arc4_perm_def mset_swap)

lemma arc4_init_loop_perm:
  "arc4_init_loop key key_len n counter keyindex stateindex st = Some st' \<Longrightarrow>
   counter + n \<le> 256 \<Longrightarrow> arc4_perm st \<Longrightarrow> arc4_perm st'"
proof (induction n arbitrary: counter keyindex stateindex st)
  case (Suc n)
  obtain k where k: "rd8 key keyindex = Some k"
    using Suc.prems(1) by (cases "rd8 key keyindex") auto
  let ?si = "(stateindex + ucast k + ucast (st ! counter)) AND 0xff"
  have "arc4_perm ((st[unat ?si := st ! counter])[counter := st ! unat ?si])"
    using Suc.prems by (intro arc4_perm_swap) (auto simp: and_ff_less)
  with Suc show ?case by (simp add: k Let_def)
qed simp

lemma arc4_init_perm: "arc4_init key key_len = Some ctx \<Longrightarrow> arc4_perm (arc4_state ctx)"
  unfolding arc4_init_def
  by (auto simp: bind_eq_Some_conv intro: arc4_init_loop_perm [OF _ _ arc4_perm_start])

lemma arc4_byte_perm:
  "arc4_perm (arc4_state ctx) \<Longrightarrow> arc4_perm (arc4_state (fst (arc4_byte ctx)))"
  by (simp add: arc4_byte_def Let_def arc4_perm_swap and_ff_less)

lemma arc4_encrypt_perm:
  "arc4_perm (arc4_state ctx) \<Longrightarrow> arc4_perm (arc4_state (fst (arc4_encrypt ctx bs)))"
proof (induction bs arbitrary: ctx)
  case (Cons b bs)
  then show ?case
    using arc4_byte_perm [OF Cons.prems] by (simp add: case_prod_beta)
qed simp

text \<open>The key schedule reads only inside a key buffer of at least \<open>key_len\<close> bytes (and of at
  least one byte), so it returns.\<close>

lemma arc4_init_loop_total:
  "keyindex < length key \<Longrightarrow> key_len \<le> length key \<Longrightarrow>
   \<exists>st'. arc4_init_loop key key_len n counter keyindex stateindex st = Some st'"
proof (induction n arbitrary: counter keyindex stateindex st)
  case (Suc n)
  have "(if keyindex + 1 \<ge> key_len then 0 else keyindex + 1) < length key"
    using Suc.prems by auto
  then show ?case using Suc by (simp add: rd8_def Let_def)
qed simp

lemma arc4_init_total:
  "key \<noteq> [] \<Longrightarrow> key_len \<le> length key \<Longrightarrow> \<exists>ctx. arc4_init key key_len = Some ctx"
  using arc4_init_loop_total [of 0 key key_len 256 0 0 "map of_nat [0..<256]"]
  by (auto simp: arc4_init_def)

section \<open>Stream ciphers\<close>

locale stream_cipher =
  fixes enc :: "'s \<Rightarrow> bytes \<Rightarrow> 's \<times> bytes"
  assumes enc_length: "length (snd (enc s bs)) = length bs"
    and enc_append: "enc s (as @ bs) =
      (fst (enc (fst (enc s as)) bs), snd (enc s as) @ snd (enc (fst (enc s as)) bs))"
    and enc_twice: "snd (enc s (snd (enc s bs))) = bs"
begin

text \<open>Encrypting a body and then a trailer with the running context, and decrypting both in
  one pass from the start context, as sender and receiver do with payload and check value.\<close>

lemma open_sealed:
  "snd (enc s (snd (enc s body) @ snd (enc (fst (enc s body)) trailer))) = body @ trailer"
proof -
  have "snd (enc s body) @ snd (enc (fst (enc s body)) trailer) = snd (enc s (body @ trailer))"
    by (simp add: enc_append)
  then show ?thesis by (simp add: enc_twice)
qed

lemma enc_inj: "snd (enc s as) = snd (enc s bs) \<Longrightarrow> as = bs"
  by (metis enc_twice)

end

lemma arc4_encrypt_length: "length (snd (arc4_encrypt ctx bs)) = length bs"
  by (induction bs arbitrary: ctx) (auto simp: case_prod_beta)

lemma arc4_encrypt_append:
  "arc4_encrypt ctx (as @ bs) =
     (fst (arc4_encrypt (fst (arc4_encrypt ctx as)) bs),
      snd (arc4_encrypt ctx as) @ snd (arc4_encrypt (fst (arc4_encrypt ctx as)) bs))"
  by (induction as arbitrary: ctx) (auto simp: case_prod_beta)

lemma arc4_encrypt_twice: "snd (arc4_encrypt ctx (snd (arc4_encrypt ctx bs))) = bs"
  by (induction bs arbitrary: ctx) (auto simp: case_prod_beta)

interpretation arc4: stream_cipher arc4_encrypt
  by unfold_locales (rule arc4_encrypt_length arc4_encrypt_append arc4_encrypt_twice)+

lemma arc4_encrypt_buf_self:
  "arc4_encrypt_buf ctx (pre @ body @ post) (length pre) (pre @ body @ post) (length pre) (length body) =
     Some (fst (arc4_encrypt ctx body), pre @ snd (arc4_encrypt ctx body) @ post)"
  by (simp add: arc4_encrypt_buf_def rdn_append_mid case_prod_beta wrn_append_mid arc4_encrypt_length)

lemma arc4_encrypt_buf_to:
  "length old = length src \<Longrightarrow>
   arc4_encrypt_buf ctx (pre @ old @ post) (length pre) src 0 (length src) =
     Some (fst (arc4_encrypt ctx src), pre @ snd (arc4_encrypt ctx src) @ post)"
  by (simp add: arc4_encrypt_buf_def rdn_def case_prod_beta wrn_append_mid arc4_encrypt_length)

section \<open>Properties\<close>

text \<open>After the key schedule and after any amount of encrypted data the ARC4 table is a
  permutation of the 256 byte values: it has 256 distinct entries and every byte occurs.\<close>

theorem arc4_table_permutation:
  assumes "arc4_init key key_len = Some ctx"
  shows "length (arc4_state (fst (arc4_encrypt ctx bs))) = 256 \<and>
     distinct (arc4_state (fst (arc4_encrypt ctx bs))) \<and>
     set (arc4_state (fst (arc4_encrypt ctx bs))) = UNIV"
proof -
  have "arc4_perm (arc4_state (fst (arc4_encrypt ctx bs)))"
    using arc4_init_perm [OF assms] by (rule arc4_encrypt_perm)
  then show ?thesis by (simp add: arc4_perm_length arc4_perm_distinct arc4_perm_all)
qed

lemma arc4_table_permutation_witness:
  "\<exists>ctx. arc4_init [1, 2, 3] 3 = Some ctx \<and> set (arc4_state (fst (arc4_encrypt ctx [7, 7]))) = UNIV"
proof -
  obtain ctx where "arc4_init [1, 2, 3] 3 = Some ctx"
    using arc4_init_total [of "[1, 2, 3]" 3] by auto
  with arc4_table_permutation [OF this, of "[7, 7]"] show ?thesis by blast
qed

end
