(* ===== verification/Sec_Types.thy ===== *)
theory Sec_Types
  imports Wf_Prelude
begin

text \<open>
  The structures the security code shares with transmit and receive path: the parts of
  \<open>sec_info_st\<close> (\<open>sec.h\<close>), \<open>struct xmit_frame\<close> (\<open>tx.h\<close>) and \<open>rx_pkt_t\<close> (\<open>rx.h\<close>) that the
  functions of \<open>sec*.c\<close> and \<open>rx.c\<close> read and write, the cipher numbers, the IV and ICV lengths
  per cipher, and the packet number macros that fill and read an IV.
\<close>

section \<open>Cipher numbers\<close>

abbreviation (input) NO_PRIVACY :: u8 where "NO_PRIVACY \<equiv> 0"
abbreviation (input) WEP40 :: u8 where "WEP40 \<equiv> 1"
abbreviation (input) TKIP :: u8 where "TKIP \<equiv> 2"
abbreviation (input) AES :: u8 where "AES \<equiv> 4"
abbreviation (input) WEP104 :: u8 where "WEP104 \<equiv> 5"
abbreviation (input) SMS4 :: u8 where "SMS4 \<equiv> 6"

text \<open>The transmit descriptor in front of every outgoing frame: 20 bytes in a build with
  \<open>CONFIG_RICHV200\<close>, 40 otherwise (\<open>PACKET_OFFSET_SZ\<close> is 0 in both).\<close>

definition TXDESC_SIZE :: "bool \<Rightarrow> u32" where
  "TXDESC_SIZE richv200 = (if richv200 then 20 else 40)"

section \<open>Structures\<close>

text \<open>A \<open>union Keytype\<close> is its 16 bytes \<open>skey\<close>.\<close>

record sec_info =
  dot11AuthAlgrthm :: u32
  dot11PrivacyAlgrthm :: u32
  dot11PrivacyKeyIndex :: u32
  dot11DefKey :: "bytes list"
  dot11DefKeylen :: "u32 list"
  dot118021XGrpPrivacy :: u32
  dot118021XGrpKeyid :: u32
  dot118021XGrpKey :: "bytes list"
  binstallGrpkey :: u8

definition sec_info_wf :: "sec_info \<Rightarrow> bool" where
  "sec_info_wf s \<longleftrightarrow> length (dot11DefKey s) = 4 \<and> (\<forall>k\<in>set (dot11DefKey s). length k = 16) \<and>
     length (dot11DefKeylen s) = 4 \<and>
     length (dot118021XGrpKey s) = 4 \<and> (\<forall>k\<in>set (dot118021XGrpKey s). length k = 16)"

record xmit_frame =
  xf_bmcast :: bool
  xf_hdrlen :: u16
  xf_encrypt_algo :: u8
  xf_iv_len :: u8
  xf_icv_len :: u8
  xf_UncstKey :: bytes
  xf_addr2 :: bytes

record rx_pkt_info =
  ri_pkt_type :: u8
  ri_seq_num :: u16
  ri_pkt_len :: u16
  ri_hif_hdr_len :: u8
  ri_wlan_hdr_len :: u8
  ri_qos_flag :: u8
  ri_qos_pri :: u8
  ri_rx_rate :: u16
  ri_amsdu :: u8
  ri_more_data :: u8
  ri_more_frag :: u8
  ri_frag_num :: u8
  ri_bdecrypted :: u8
  ri_encrypt_algo :: u8
  ri_iv_len :: u8
  ri_icv_len :: u8
  ri_phy_status :: u8
  ri_usb_agg_pktnum :: u8
  ri_dst_addr :: bytes
  ri_src_addr :: bytes
  ri_tx_addr :: bytes
  ri_rx_addr :: bytes
  ri_bssid :: bytes
  ri_ack_policy :: u8

text \<open>\<open>rp_pdata\<close> is the memory from the pointer \<open>pdata\<close> on, \<open>rp_len\<close> the separate length field,
  \<open>rp_wdn_info\<close> the node of the sending peer or NULL.\<close>

record rx_pkt =
  pkt_info :: rx_pkt_info
  signal_strength :: u8
  signal_qual :: u8
  rxd_raw_buf :: bytes
  rp_len :: u32
  rp_pdata :: bytes
  rp_wdn_info :: "nat option"

section \<open>IV and ICV lengths\<close>

definition SET_ICE_IV_LEN :: "u8 \<Rightarrow> u8 \<times> u8" where
  "SET_ICE_IV_LEN encrypt_algo =
     (if encrypt_algo = WEP40 \<or> encrypt_algo = WEP104 then (4, 4)
      else if encrypt_algo = TKIP then (8, 4)
      else if encrypt_algo = AES then (8, 8)
      else if encrypt_algo = SMS4 then (18, 16)
      else (0, 0))"

section \<open>Packet numbers\<close>

text \<open>\<open>union pn48\<close> on a little-endian target: byte \<open>n\<close> of the 64-bit value.\<close>

definition TSC :: "nat \<Rightarrow> u64 \<Rightarrow> u8" where
  "TSC n pn = ucast (drop_bit (8 * n) pn)"

definition WEP_IV :: "u64 \<Rightarrow> u8 \<Rightarrow> bytes \<times> u64" where
  "WEP_IV pn keyidx =
     ([TSC 0 pn, TSC 1 pn, TSC 2 pn, push_bit 6 (keyidx AND 3)],
      if pn = 0xffffff then 0 else pn + 1)"

definition TKIP_IV :: "u64 \<Rightarrow> u8 \<Rightarrow> bytes \<times> u64" where
  "TKIP_IV pn keyidx =
     ([TSC 1 pn, (TSC 1 pn OR 0x20) AND 0x7f, TSC 0 pn, 0x20 OR push_bit 6 (keyidx AND 3),
       TSC 2 pn, TSC 3 pn, TSC 4 pn, TSC 5 pn],
      if pn = 0xffffffffffff then 0 else pn + 1)"

definition AES_IV :: "u64 \<Rightarrow> u8 \<Rightarrow> bytes \<times> u64" where
  "AES_IV pn keyidx =
     ([TSC 0 pn, TSC 1 pn, 0, 0x20 OR push_bit 6 (keyidx AND 3),
       TSC 2 pn, TSC 3 pn, TSC 4 pn, TSC 5 pn],
      if pn = 0xffffffffffff then 0 else pn + 1)"

text \<open>\<open>GET_TKIP_PN\<close> followed by the two reads \<open>(wf_u16) val\<close> and \<open>(wf_u32)(val >> 16)\<close> of its
  callers: bytes 6 and 7 of the union, which the macro does not set, are shifted out by the
  second conversion.\<close>

definition GET_TKIP_PN :: "bytes \<Rightarrow> u16 \<times> u32" where
  "GET_TKIP_PN iv =
     (le16_of (iv ! 2) (iv ! 0), le32_of (iv ! 4) (iv ! 5) (iv ! 6) (iv ! 7))"

lemma iv_lengths [simp]:
  "length (fst (WEP_IV pn k)) = 4" "length (fst (TKIP_IV pn k)) = 8" "length (fst (AES_IV pn k)) = 8"
  by (simp_all add: WEP_IV_def TKIP_IV_def AES_IV_def)

lemma key_id_of_iv: "drop_bit 6 (push_bit 6 ((k :: u8) AND 3)) AND 3 = k AND 3"
proof (rule bit_word_eqI)
  fix n assume "n < LENGTH(8)"
  have three: "(3 :: u8) = mask 2" by (simp add: mask_numeral)
  show "bit (drop_bit 6 (push_bit 6 (k AND 3)) AND 3) n = bit (k AND 3) n"
    unfolding three by (auto simp: bit_simps)
qed

end
