(* ===== verification/Sec_Wep.thy ===== *)
theory Sec_Wep
  imports Sec_Arc4 Sec_Types
begin

text \<open>
  \<open>src/trunk_driver/nic/sec_wep.c\<close>: the CRC-32 with its lazily built table, and the
  encryption and decryption of WEP data frames and of the third authentication frame.
  The CRC is proved equal to the bit-serial reflected CRC-32; the frame operations are
  proved to invert each other and to stay inside the frame.
\<close>

section \<open>CRC-32\<close>

text \<open>The file's two static variables.\<close>

record crc_global =
  bcrc32initialized :: int
  crc32_table :: "u32 list"

definition crc32_reverseBit :: "u8 \<Rightarrow> u8" where
  "crc32_reverseBit data =
     (push_bit 7 data AND 0x80) OR (push_bit 5 data AND 0x40) OR
     (push_bit 3 data AND 0x20) OR (push_bit 1 data AND 0x10) OR (drop_bit 1 data AND 0x08) OR
     (drop_bit 3 data AND 0x04) OR (drop_bit 5 data AND 0x02) OR (drop_bit 7 data AND 0x01)"

definition crc32_step :: "u32 \<Rightarrow> u32" where
  "crc32_step c = (if c AND 0x80000000 \<noteq> 0 then push_bit 1 c XOR 0x04c11db7 else push_bit 1 c)"

definition crc32_entry :: "u8 \<Rightarrow> u32" where
  "crc32_entry i =
     (let k = crc32_reverseBit i;
          c = (crc32_step ^^ 8) (push_bit 24 (ucast k))
      in le32_of (crc32_reverseBit (ucast (drop_bit 24 c))) (crc32_reverseBit (ucast (drop_bit 16 c)))
           (crc32_reverseBit (ucast (drop_bit 8 c))) (crc32_reverseBit (ucast c)))"

definition init_crc32 :: "crc_global \<Rightarrow> crc_global" where
  "init_crc32 g =
     (if bcrc32initialized g = 1 then g
      else g\<lparr>crc32_table := map (\<lambda>i. crc32_entry (of_nat i)) [0..<256], bcrc32initialized := 1\<rparr>)"

fun crc32_loop :: "u32 list \<Rightarrow> bytes \<Rightarrow> u32 \<Rightarrow> u32" where
  "crc32_loop tbl [] crc = crc"
| "crc32_loop tbl (b # bs) crc =
     crc32_loop tbl bs (tbl ! unat ((crc XOR ucast b) AND 0xff) XOR drop_bit 8 crc)"

definition get_crc32 :: "crc_global \<Rightarrow> bytes \<Rightarrow> crc_global \<times> u32" where
  "get_crc32 g buf =
     (let g' = (if bcrc32initialized g = 0 then init_crc32 g else g)
      in (g', NOT (crc32_loop (crc32_table g') buf 0xffffffff)))"

subsection \<open>Reference: the reflected CRC-32, bit by bit\<close>

definition crc32_ref_step :: "u32 \<Rightarrow> u32" where
  "crc32_ref_step c = (if bit c 0 then drop_bit 1 c XOR 0xEDB88320 else drop_bit 1 c)"

definition crc32_ref :: "bytes \<Rightarrow> u32" where
  "crc32_ref buf = NOT (fold (\<lambda>b crc. (crc32_ref_step ^^ 8) (crc XOR ucast b)) buf 0xffffffff)"

text \<open>The state of the static variables between calls.\<close>

definition crc_ok :: "crc_global \<Rightarrow> bool" where
  "crc_ok g \<longleftrightarrow> bcrc32initialized g = 0 \<or>
     bcrc32initialized g = 1 \<and> crc32_table g = map (\<lambda>i. crc32_entry (of_nat i)) [0..<256]"

definition rev32 :: "u32 \<Rightarrow> u32" where
  "rev32 c = le32_of (crc32_reverseBit (ucast (drop_bit 24 c))) (crc32_reverseBit (ucast (drop_bit 16 c)))
     (crc32_reverseBit (ucast (drop_bit 8 c))) (crc32_reverseBit (ucast c))"

lemma bit_reverseBit: "n < 8 \<Longrightarrow> bit (crc32_reverseBit d) n \<longleftrightarrow> bit d (7 - n)"
proof -
  assume "n < 8"
  then consider "n = 0" | "n = 1" | "n = 2" | "n = 3" | "n = 4" | "n = 5" | "n = 6" | "n = 7"
    by linarith
  then show ?thesis
    by cases (simp_all add: crc32_reverseBit_def bit_simps mult.commute [of d 2] bit_double_iff bit_numeral_rec)
qed

lemma bit_le32_of:
  "n < 32 \<Longrightarrow> bit (le32_of a b c d) n \<longleftrightarrow>
     (if n < 8 then bit a n else if n < 16 then bit b (n - 8)
      else if n < 24 then bit c (n - 16) else bit d (n - 24))"
  unfolding le32_of_def by (auto simp: bit_simps dest: bit_imp_le_length)

lemma bit_rev32: "n < 32 \<Longrightarrow> bit (rev32 c) n \<longleftrightarrow> bit c (31 - n)"
  unfolding rev32_def
  by (auto simp: bit_le32_of bit_reverseBit bit_simps intro!: arg_cong [of _ _ "bit c"])

lemma rev32_xor: "rev32 (a XOR b) = rev32 a XOR rev32 b"
  by (rule bit_word_eqI) (simp add: bit_rev32 bit_xor_iff)

lemma bit_push1: "n < 32 \<Longrightarrow> bit (push_bit 1 (c :: u32)) n \<longleftrightarrow> 0 < n \<and> bit c (n - 1)"
  by (simp only: bit_push_bit_iff) (auto simp: bit_simps)

lemma rev32_push1: "rev32 (push_bit 1 c) = drop_bit 1 (rev32 c)"
proof (rule bit_word_eqI)
  fix n assume n: "n < LENGTH(32)"
  have over: "\<not> bit (rev32 c) 32" using bit_imp_le_length [of "rev32 c" 32] by auto
  have "bit (rev32 (push_bit 1 c)) n \<longleftrightarrow> 0 < 31 - n \<and> bit c (31 - n - 1)"
    using n bit_rev32 [of n "push_bit 1 c"] bit_push1 [of "31 - n" c] by simp
  also have "\<dots> \<longleftrightarrow> bit (rev32 c) (1 + n)"
  proof (cases "n = 31")
    case True then show ?thesis using over by simp
  next
    case False
    then show ?thesis using n bit_rev32 [of "1 + n" c] by simp
  qed
  also have "\<dots> \<longleftrightarrow> bit (drop_bit 1 (rev32 c)) n" by (simp only: bit_drop_bit_eq comp_apply)
  finally show "bit (rev32 (push_bit 1 c)) n = bit (drop_bit 1 (rev32 c)) n" .
qed

lemma top_bit: "(c :: u32) AND 0x80000000 \<noteq> 0 \<longleftrightarrow> bit c 31"
proof -
  have "(0x80000000 :: u32) = push_bit 31 1" by (simp add: push_bit_of_1)
  then show ?thesis using bit_iff_and_push_bit_not_eq_0 [of c 31] by simp
qed

lemma rev32_step: "rev32 (crc32_step c) = crc32_ref_step (rev32 c)"
proof -
  have poly: "rev32 0x04c11db7 = 0xEDB88320" by code_simp
  have low: "bit (rev32 c) 0 = bit c 31" by (simp add: bit_rev32)
  show ?thesis
    by (simp only: crc32_step_def crc32_ref_step_def top_bit low if_distrib [of rev32]
        rev32_xor rev32_push1 poly)
qed

lemma rev32_steps: "rev32 ((crc32_step ^^ n) c) = (crc32_ref_step ^^ n) (rev32 c)"
  by (induction n) (simp_all add: rev32_step)

lemma rev32_start: "rev32 (push_bit 24 (ucast (crc32_reverseBit i))) = ucast i"
proof (rule bit_word_eqI)
  fix n assume n: "n < LENGTH(32)"
  show "bit (rev32 (push_bit 24 (ucast (crc32_reverseBit i)))) n = bit (ucast i :: u32) n"
  proof (cases "n < 8")
    case True
    then have "31 - n - 24 = 7 - n" by simp
    with True show ?thesis by (auto simp: bit_rev32 bit_simps bit_reverseBit)
  next
    case False
    then show ?thesis using n by (auto simp: bit_rev32 bit_simps dest: bit_imp_le_length)
  qed
qed

lemma crc32_entry_ref: "crc32_entry i = (crc32_ref_step ^^ 8) (ucast i)"
proof -
  have "crc32_entry i = rev32 ((crc32_step ^^ 8) (push_bit 24 (ucast (crc32_reverseBit i))))"
    by (simp add: crc32_entry_def rev32_def Let_def)
  then show ?thesis by (simp only: rev32_steps rev32_start)
qed

lemma crc32_ref_step_xor: "crc32_ref_step (a XOR b) = crc32_ref_step a XOR crc32_ref_step b"
  by (simp add: crc32_ref_step_def bit_xor_iff drop_bit_xor xor.assoc xor.left_commute xor.commute)

lemma crc32_ref_steps_xor:
  "(crc32_ref_step ^^ n) (a XOR b) = (crc32_ref_step ^^ n) a XOR (crc32_ref_step ^^ n) b"
  by (induction n) (simp_all add: crc32_ref_step_xor)

lemma crc32_ref_steps_high:
  "m + n \<le> 32 \<Longrightarrow> (crc32_ref_step ^^ n) (push_bit n (take_bit m w)) = take_bit m w"
proof (induction n)
  case (Suc n)
  have "\<not> bit (push_bit (Suc n) (take_bit m w)) 0" by (simp only: bit_push_bit_iff) simp
  moreover have "drop_bit 1 (push_bit (Suc n) (take_bit m w)) = push_bit n (take_bit m w)"
  proof (rule bit_word_eqI)
    fix i assume "i < LENGTH(32)"
    then show "bit (drop_bit 1 (push_bit (Suc n) (take_bit m w))) i = bit (push_bit n (take_bit m w)) i"
      using Suc.prems
      by (simp only: bit_drop_bit_eq comp_apply bit_push_bit_iff bit_take_bit_iff) auto
  qed
  ultimately have "crc32_ref_step (push_bit (Suc n) (take_bit m w)) = push_bit n (take_bit m w)"
    by (simp only: crc32_ref_step_def if_False)
  then show ?case using Suc by (simp only: funpow_Suc_right comp_apply)
qed simp

lemma crc32_ref_byte:
  "(crc32_ref_step ^^ 8) x = crc32_entry (ucast x) XOR drop_bit 8 x"
proof -
  have split: "x = ucast (ucast x :: u8) XOR push_bit 8 (take_bit 24 (drop_bit 8 x))"
    by (rule bit_word_eqI) (auto simp: bit_simps)
  have high: "take_bit 24 (drop_bit 8 x) = drop_bit 8 x"
    by (rule bit_word_eqI) (auto simp: bit_simps dest: bit_imp_le_length)
  have "(crc32_ref_step ^^ 8) x =
    (crc32_ref_step ^^ 8) (ucast (ucast x :: u8)) XOR
    (crc32_ref_step ^^ 8) (push_bit 8 (take_bit 24 (drop_bit 8 x)))"
    by (subst split) (rule crc32_ref_steps_xor)
  then show ?thesis
    using crc32_ref_steps_high [of 24 8 "drop_bit 8 x"] by (simp only: crc32_entry_ref high)
qed

lemma low_byte: "unat ((w :: u32) AND 0xff) = unat (ucast w :: u8)"
proof -
  have "w AND 0xff = take_bit 8 w" by (simp add: take_bit_eq_mask mask_numeral)
  then show ?thesis by (simp add: unsigned_take_bit_eq unsigned_ucast_eq)
qed

lemma crc32_loop_ref:
  "crc32_loop (map (\<lambda>i. crc32_entry (of_nat i)) [0..<256]) bs crc =
     fold (\<lambda>b crc. (crc32_ref_step ^^ 8) (crc XOR ucast b)) bs crc"
proof (induction bs arbitrary: crc)
  case (Cons b bs)
  let ?x = "crc XOR ucast b :: u32"
  have "map (\<lambda>i. crc32_entry (of_nat i)) [0..<256] ! unat (?x AND 0xff) = crc32_entry (ucast ?x)"
    using unat_u8_less [of "ucast ?x"] by (simp add: low_byte)
  moreover have "drop_bit 8 ?x = drop_bit 8 crc"
    by (rule bit_word_eqI) (auto simp: bit_simps dest: bit_imp_le_length)
  ultimately show ?case by (simp add: Cons.IH crc32_ref_byte)
qed simp

lemma get_crc32_ref: "crc_ok g \<Longrightarrow> snd (get_crc32 g buf) = crc32_ref buf"
  by (auto simp: get_crc32_def crc_ok_def init_crc32_def crc32_ref_def crc32_loop_ref)

lemma get_crc32_ok: "crc_ok g \<Longrightarrow> crc_ok (fst (get_crc32 g buf))"
  by (auto simp: get_crc32_def crc_ok_def init_crc32_def)

section \<open>Frames\<close>

text \<open>The call of \<open>get_crc32\<close> on memory. Its length parameter is an \<open>int\<close>: an unsigned length
  above \<open>2 ^ 31\<close> arrives negative and the loop reads nothing.\<close>

definition get_crc32_buf :: "crc_global \<Rightarrow> bytes \<Rightarrow> nat \<Rightarrow> u32 \<Rightarrow> (crc_global \<times> u32) option" where
  "get_crc32_buf g buf ofs n =
     (if sint n \<le> 0 then Some (get_crc32 g [])
      else do { bs \<leftarrow> rdn buf ofs (unat n); Some (get_crc32 g bs) })"

text \<open>The key every function builds in \<open>wepkey[16]\<close>: IV bytes 0 to 2, then the default key the
  key id in IV byte 3 selects.\<close>

definition wep_wepkey :: "sec_info \<Rightarrow> bytes \<Rightarrow> nat \<Rightarrow> (bytes \<times> nat) option" where
  "wep_wepkey sec buf iv_at = do {
     iv3 \<leftarrow> rd8 buf (iv_at + 3);
     let key_index = unat (drop_bit 6 iv3 AND 3);
     let keylength = unat (dot11DefKeylen sec ! key_index);
     iv \<leftarrow> rdn buf iv_at 3;
     skey \<leftarrow> rdn (dot11DefKey sec ! key_index) 0 keylength;
     if 3 + keylength \<le> 16 then Some (iv @ skey, 3 + keylength) else None
   }"

definition wf_wep_encrypt_auth ::
  "crc_global \<Rightarrow> sec_info \<Rightarrow> bytes \<Rightarrow> u16 \<Rightarrow> (crc_global \<times> bytes \<times> int) option" where
  "wf_wep_encrypt_auth g sec pframe mgmt_len = do {
     let iv_ofs = (24 :: u32);
     let payload_ofs = (28 :: u32);
     let icv_len = (4 :: u32);
     let payload_len = ucast mgmt_len - payload_ofs - icv_len;
     let icv_ofs = payload_ofs + payload_len;
     (wepkey, klen) \<leftarrow> wep_wepkey sec pframe (unat iv_ofs);
     (g', crc) \<leftarrow> get_crc32_buf g pframe (unat payload_ofs) payload_len;
     pframe1 \<leftarrow> wrn pframe (unat icv_ofs) (le32_bytes crc);
     ctx \<leftarrow> arc4_init wepkey klen;
     (ctx', pframe2) \<leftarrow> arc4_encrypt_buf ctx pframe1 (unat payload_ofs) pframe1 (unat payload_ofs)
                          (unat (payload_len + icv_len));
     Some (g', pframe2, 0)
   }"

definition wf_wep_decrypt_auth ::
  "crc_global \<Rightarrow> sec_info \<Rightarrow> bytes \<Rightarrow> u16 \<Rightarrow> (crc_global \<times> bytes \<times> int) option" where
  "wf_wep_decrypt_auth g sec pframe mgmt_len = do {
     let iv_ofs = (24 :: u32);
     let payload_ofs = (28 :: u32);
     let icv_len = (4 :: u32);
     let payload_len = ucast mgmt_len - payload_ofs - icv_len;
     let icv_ofs = payload_ofs + payload_len;
     (wepkey, klen) \<leftarrow> wep_wepkey sec pframe (unat iv_ofs);
     ctx \<leftarrow> arc4_init wepkey klen;
     (ctx', pframe1) \<leftarrow> arc4_encrypt_buf ctx pframe (unat payload_ofs) pframe (unat payload_ofs)
                          (unat (payload_len + icv_len));
     (g', crc) \<leftarrow> get_crc32_buf g pframe1 (unat payload_ofs) payload_len;
     icv \<leftarrow> rdn pframe1 (unat icv_ofs) (unat icv_len);
     Some (g', pframe1, if icv = le32_bytes crc then 0 else -1)
   }"

definition wep_encrypt ::
  "bool \<Rightarrow> crc_global \<Rightarrow> sec_info \<Rightarrow> xmit_frame \<Rightarrow> bytes \<Rightarrow> u32 \<Rightarrow> (crc_global \<times> bytes \<times> int) option" where
  "wep_encrypt richv200 g sec pxmitframe pdata n =
     (if xf_encrypt_algo pxmitframe \<noteq> WEP40 \<and> xf_encrypt_algo pxmitframe \<noteq> WEP104
      then Some (g, pdata, -1)
      else do {
        let pframe = unat (TXDESC_SIZE richv200);
        let frame_len = n - TXDESC_SIZE richv200;
        let iv_ofs = (ucast (xf_hdrlen pxmitframe) :: u32);
        let payload_ofs = iv_ofs + ucast (xf_iv_len pxmitframe);
        let payload_len = frame_len - (payload_ofs + ucast (xf_icv_len pxmitframe));
        let icv_ofs = payload_ofs + payload_len;
        (wepkey, klen) \<leftarrow> wep_wepkey sec pdata (pframe + unat iv_ofs);
        (g', crc) \<leftarrow> get_crc32_buf g pdata (pframe + unat payload_ofs) payload_len;
        ctx \<leftarrow> arc4_init wepkey klen;
        (ctx1, pdata1) \<leftarrow> arc4_encrypt_buf ctx pdata (pframe + unat payload_ofs)
                           pdata (pframe + unat payload_ofs) (unat payload_len);
        (ctx2, pdata2) \<leftarrow> arc4_encrypt_buf ctx1 pdata1 (pframe + unat icv_ofs)
                           (le32_bytes crc) 0 (unat (xf_icv_len pxmitframe));
        Some (g', pdata2, 0)
      })"

definition wep_decrypt :: "crc_global \<Rightarrow> sec_info \<Rightarrow> rx_pkt \<Rightarrow> (crc_global \<times> rx_pkt \<times> int) option" where
  "wep_decrypt g sec prx_pkt = do {
     let info = pkt_info prx_pkt;
     let pframe = rp_pdata prx_pkt;
     let iv_ofs = (ucast (ri_wlan_hdr_len info) :: u32);
     let payload_ofs = iv_ofs + ucast (ri_iv_len info);
     let payload_len = rp_len prx_pkt - (payload_ofs + ucast (ri_icv_len info));
     let icv_ofs = payload_ofs + payload_len;
     (wepkey, klen) \<leftarrow> wep_wepkey sec pframe (unat iv_ofs);
     ctx \<leftarrow> arc4_init wepkey klen;
     (ctx', pframe1) \<leftarrow> arc4_encrypt_buf ctx pframe (unat payload_ofs) pframe (unat payload_ofs)
                          (unat (payload_len + ucast (ri_icv_len info)));
     (g', crc) \<leftarrow> get_crc32_buf g pframe1 (unat payload_ofs) payload_len;
     c \<leftarrow> rdn (le32_bytes crc) 0 (unat (ri_icv_len info));
     icv \<leftarrow> rdn pframe1 (unat icv_ofs) (unat (ri_icv_len info));
     Some (g', prx_pkt\<lparr>rp_pdata := pframe1\<rparr>, if c = icv then 0 else -1)
   }"

subsection \<open>Where the fields of a frame are\<close>

lemma payload_len_eq:
  "(of_nat (h + i + b + c) :: u32) - (of_nat h + of_nat i + of_nat c) = of_nat b"
  by (simp add: algebra_simps)

lemma get_crc32_buf_mid:
  assumes "crc_ok g" "length body < 2 ^ 31"
  shows "get_crc32_buf g (pre @ body @ post) (length pre) (of_nat (length body)) =
     Some (fst (get_crc32 g body), crc32_ref body)"
proof (cases "body = []")
  case True
  then show ?thesis using get_crc32_ref [OF assms(1), of "[]"]
    by (simp add: get_crc32_buf_def prod_eq_iff)
next
  case False
  then show ?thesis using assms get_crc32_ref [OF assms(1), of body]
    by (simp add: get_crc32_buf_def sint_of_nat_u32 unat_of_nat_u32 rdn_append_mid prod_eq_iff)
qed

text \<open>The default keys fit behind the three IV bytes in \<open>wepkey[16]\<close>.\<close>

definition wep_keys_ok :: "sec_info \<Rightarrow> bool" where
  "wep_keys_ok sec \<longleftrightarrow> sec_info_wf sec \<and> (\<forall>n\<in>set (dot11DefKeylen sec). unat n \<le> 13)"

lemma unat_and_3_less: "unat ((w :: u8) AND 3) < 4"
proof -
  have "w AND 3 = take_bit 2 w" by (simp add: take_bit_eq_mask mask_numeral)
  then have "unat (w AND 3) = take_bit 2 (unat w)" by (simp only: unsigned_take_bit_eq)
  then show ?thesis using take_bit_nat_less_exp [of 2 "unat w"] by simp
qed

definition wep_key_of :: "sec_info \<Rightarrow> bytes \<Rightarrow> bytes" where
  "wep_key_of sec iv =
     (let k = unat (drop_bit 6 (iv ! 3) AND 3)
      in take 3 iv @ take (unat (dot11DefKeylen sec ! k)) (dot11DefKey sec ! k))"

lemma wep_wepkey_at:
  assumes ok: "wep_keys_ok sec" and iv: "length iv = 4"
  shows "wep_wepkey sec (pre @ iv @ post) (length pre) =
     Some (wep_key_of sec iv, length (wep_key_of sec iv))"
proof -
  let ?k = "unat (drop_bit 6 (iv ! 3) AND 3)"
  have k: "?k < 4" by (rule unat_and_3_less)
  then have l: "unat (dot11DefKeylen sec ! ?k) \<le> 13" "length (dot11DefKey sec ! ?k) = 16"
    using ok by (auto simp: wep_keys_ok_def sec_info_wf_def)
  have "rd8 (pre @ iv @ post) (length pre + 3) = Some (iv ! 3)"
    using iv by (simp add: rd8_def nth_append)
  moreover have "rdn (pre @ iv @ post) (length pre) 3 = Some (take 3 iv)"
    using iv by (simp add: rdn_def)
  moreover have "rdn (dot11DefKey sec ! ?k) 0 (unat (dot11DefKeylen sec ! ?k)) =
      Some (take (unat (dot11DefKeylen sec ! ?k)) (dot11DefKey sec ! ?k))"
    using l by (simp add: rdn_def)
  ultimately show ?thesis using l iv by (simp add: wep_wepkey_def wep_key_of_def Let_def)
qed

lemma wep_key_arc4:
  assumes "wep_keys_ok sec" "length iv = 4"
  obtains ctx where "arc4_init (wep_key_of sec iv) (length (wep_key_of sec iv)) = Some ctx"
proof -
  have "wep_key_of sec iv \<noteq> []" using assms by (auto simp: wep_key_of_def Let_def)
  then show ?thesis using arc4_init_total [of "wep_key_of sec iv" "length (wep_key_of sec iv)"] that by auto
qed

subsection \<open>What the frame functions compute\<close>

lemma wep_encrypt_layout:
  assumes g: "crc_ok g" and sec: "wep_keys_ok sec"
    and algo: "xf_encrypt_algo xf = WEP40 \<or> xf_encrypt_algo xf = WEP104"
    and lens: "length txd = unat (TXDESC_SIZE r)" "length hdr = unat (xf_hdrlen xf)"
      "xf_iv_len xf = 4" "length iv = 4" "xf_icv_len xf = 4" "length icv = 4"
    and small: "length (txd @ hdr @ iv @ body @ icv) < 2 ^ 31"
    and ctx: "arc4_init (wep_key_of sec iv) (length (wep_key_of sec iv)) = Some ctx"
  shows "wep_encrypt r g sec xf (txd @ hdr @ iv @ body @ icv)
       (of_nat (length (txd @ hdr @ iv @ body @ icv))) =
     Some (fst (get_crc32 g body),
       txd @ hdr @ iv @ snd (arc4_encrypt ctx (body @ le32_bytes (crc32_ref body))), 0)"
proof -
  have td: "TXDESC_SIZE r = of_nat (length txd)" using lens(1) by simp
  have hl: "(ucast (xf_hdrlen xf) :: u32) = of_nat (length hdr)" using lens(2) by simp
  have il: "(ucast (xf_iv_len xf) :: u32) = of_nat (length iv)" using lens by simp
  have cl: "(ucast (xf_icv_len xf) :: u32) = of_nat (length icv)" using lens by simp
  have pl: "of_nat (length (txd @ hdr @ iv @ body @ icv)) - TXDESC_SIZE r -
      (ucast (xf_hdrlen xf) + ucast (xf_iv_len xf) + ucast (xf_icv_len xf)) = (of_nat (length body) :: u32)"
    unfolding hl il cl td by (simp add: algebra_simps)
  have at: "unat (ucast (xf_hdrlen xf) :: u32) = length hdr"
      "unat (ucast (xf_hdrlen xf) + ucast (xf_iv_len xf) :: u32) = length (hdr @ iv)"
      "unat (ucast (xf_hdrlen xf) + ucast (xf_iv_len xf) + of_nat (length body) :: u32) = length (hdr @ iv @ body)"
      "unat (of_nat (length body) :: u32) = length body"
    unfolding hl il using small
    by (simp_all flip: of_nat_add add: unat_of_nat_u32 del: of_nat_add)
  let ?P = "length txd" and ?F = "txd @ hdr @ iv @ body @ icv"
  let ?E = "snd (arc4_encrypt ctx body)" and ?C = "fst (arc4_encrypt ctx body)"
  have key: "wep_wepkey sec ?F (?P + length hdr) =
      Some (wep_key_of sec iv, length (wep_key_of sec iv))"
    using wep_wepkey_at [OF sec lens(4), of "txd @ hdr" "body @ icv"] by simp
  have crc: "get_crc32_buf g ?F (?P + length (hdr @ iv)) (of_nat (length body)) =
      Some (fst (get_crc32 g body), crc32_ref body)"
    using get_crc32_buf_mid [OF g, of body "txd @ hdr @ iv" icv] small by simp
  have enc1: "arc4_encrypt_buf ctx ?F (?P + length (hdr @ iv)) ?F (?P + length (hdr @ iv)) (length body) =
      Some (?C, txd @ hdr @ iv @ ?E @ icv)"
    using arc4_encrypt_buf_self [of ctx "txd @ hdr @ iv" body icv] by simp
  have enc2: "arc4_encrypt_buf ?C (txd @ hdr @ iv @ ?E @ icv) (?P + length (hdr @ iv @ body))
        (le32_bytes (crc32_ref body)) 0 (unat (xf_icv_len xf)) =
      Some (fst (arc4_encrypt ?C (le32_bytes (crc32_ref body))),
        txd @ hdr @ iv @ snd (arc4_encrypt ctx (body @ le32_bytes (crc32_ref body))))"
    using arc4_encrypt_buf_to [of icv "le32_bytes (crc32_ref body)" ?C "txd @ hdr @ iv @ ?E" "[]"] lens(5,6)
    by (simp add: arc4_encrypt_length arc4_encrypt_append add.assoc)
  show ?thesis
    unfolding wep_encrypt_def Let_def pl at lens(1) [symmetric] key crc enc1
      bind.bind_lunit split_conv ctx enc2 using algo by auto
qed

lemma wep_decrypt_layout:
  assumes g: "crc_ok g" and sec: "wep_keys_ok sec"
    and lens: "length hdr = unat (ri_wlan_hdr_len (pkt_info pkt))"
      "ri_iv_len (pkt_info pkt) = 4" "length iv = 4" "ri_icv_len (pkt_info pkt) = 4" "length icv = 4"
    and pkt: "rp_pdata pkt = hdr @ iv @ enc" "rp_len pkt = of_nat (length (hdr @ iv @ enc))"
    and small: "length (hdr @ iv @ enc) < 2 ^ 31"
    and ctx: "arc4_init (wep_key_of sec iv) (length (wep_key_of sec iv)) = Some ctx"
    and dec: "snd (arc4_encrypt ctx enc) = body @ icv"
  shows "wep_decrypt g sec pkt =
     Some (fst (get_crc32 g body), pkt\<lparr>rp_pdata := hdr @ iv @ body @ icv\<rparr>,
       if le32_bytes (crc32_ref body) = icv then 0 else -1)"
proof -
  let ?i = "pkt_info pkt"
  have el: "length enc = length body + length icv"
    using arg_cong [OF dec, of length] by (simp add: arc4_encrypt_length)
  have hl: "(ucast (ri_wlan_hdr_len ?i) :: u32) = of_nat (length hdr)" using lens(1) by simp
  have il: "(ucast (ri_iv_len ?i) :: u32) = of_nat (length iv)" using lens by simp
  have cl: "(ucast (ri_icv_len ?i) :: u32) = of_nat (length icv)" using lens by simp
  have pl: "rp_len pkt - (ucast (ri_wlan_hdr_len ?i) + ucast (ri_iv_len ?i) + ucast (ri_icv_len ?i)) =
      (of_nat (length body) :: u32)"
    unfolding hl il cl pkt by (simp add: algebra_simps el)
  have at: "unat (ucast (ri_wlan_hdr_len ?i) :: u32) = length hdr"
      "unat (ucast (ri_wlan_hdr_len ?i) + ucast (ri_iv_len ?i) :: u32) = length (hdr @ iv)"
      "unat (ucast (ri_wlan_hdr_len ?i) + ucast (ri_iv_len ?i) + of_nat (length body) :: u32) =
         length (hdr @ iv @ body)"
      "unat (of_nat (length body) + ucast (ri_icv_len ?i) :: u32) = length enc"
    unfolding hl il cl using small el
    by (simp_all flip: of_nat_add add: unat_of_nat_u32 del: of_nat_add)
  have key: "wep_wepkey sec (hdr @ iv @ enc) (length hdr) =
      Some (wep_key_of sec iv, length (wep_key_of sec iv))"
    using wep_wepkey_at [OF sec lens(3), of hdr enc] by simp
  have dec': "arc4_encrypt_buf ctx (hdr @ iv @ enc) (length (hdr @ iv)) (hdr @ iv @ enc)
        (length (hdr @ iv)) (length enc) = Some (fst (arc4_encrypt ctx enc), hdr @ iv @ body @ icv)"
    using arc4_encrypt_buf_self [of ctx "hdr @ iv" enc "[]"] by (simp add: dec)
  have crc: "get_crc32_buf g (hdr @ iv @ body @ icv) (length (hdr @ iv)) (of_nat (length body)) =
      Some (fst (get_crc32 g body), crc32_ref body)"
    using get_crc32_buf_mid [OF g, of body "hdr @ iv" icv] small el by simp
  have tail: "rdn (le32_bytes (crc32_ref body)) 0 (unat (ri_icv_len ?i)) = Some (le32_bytes (crc32_ref body))"
      "rdn (hdr @ iv @ body @ icv) (length (hdr @ iv @ body)) (unat (ri_icv_len ?i)) = Some icv"
    using lens by (simp_all add: rdn_def)
  show ?thesis
    unfolding wep_decrypt_def Let_def pl at pkt(1) key bind.bind_lunit split_conv ctx dec' crc tail
    by (rule refl)
qed

lemma wf_wep_encrypt_auth_layout:
  assumes g: "crc_ok g" and sec: "wep_keys_ok sec"
    and lens: "length hdr = 24" "length iv = 4" "length icv = 4"
    and small: "length (hdr @ iv @ body @ icv) < 2 ^ 16"
    and ctx: "arc4_init (wep_key_of sec iv) (length (wep_key_of sec iv)) = Some ctx"
  shows "wf_wep_encrypt_auth g sec (hdr @ iv @ body @ icv) (of_nat (length (hdr @ iv @ body @ icv))) =
     Some (fst (get_crc32 g body),
       hdr @ iv @ snd (arc4_encrypt ctx (body @ le32_bytes (crc32_ref body))), 0)"
proof -
  let ?n = "length (hdr @ iv @ body @ icv)" and ?icv = "le32_bytes (crc32_ref body)"
  have nl: "(ucast (of_nat ?n :: u16) :: u32) = of_nat ?n"
    using small by (simp only: ucast_of_nat_unat unat_of_nat_u16)
  have pl: "ucast (of_nat ?n :: u16) - 28 - 4 = (of_nat (length body) :: u32)"
    unfolding nl using lens by simp
  have at: "unat (24 :: u32) = length hdr" "unat (28 :: u32) = length (hdr @ iv)"
      "unat (28 + of_nat (length body) :: u32) = length (hdr @ iv @ body)"
      "unat (of_nat (length body) + 4 :: u32) = length (body @ ?icv)"
    using lens small unat_of_nat_u32 [of "28 + length body"] unat_of_nat_u32 [of "length body + 4"]
    by simp_all
  have key: "wep_wepkey sec (hdr @ iv @ body @ icv) (length hdr) =
      Some (wep_key_of sec iv, length (wep_key_of sec iv))"
    using wep_wepkey_at [OF sec lens(2), of hdr "body @ icv"] by simp
  have crc: "get_crc32_buf g (hdr @ iv @ body @ icv) (length (hdr @ iv)) (of_nat (length body)) =
      Some (fst (get_crc32 g body), crc32_ref body)"
    using get_crc32_buf_mid [OF g, of body "hdr @ iv" icv] small by simp
  have wr: "wrn (hdr @ iv @ body @ icv) (length (hdr @ iv @ body)) ?icv = Some (hdr @ iv @ body @ ?icv)"
    using wrn_append_mid [of ?icv icv "hdr @ iv @ body" "[]"] lens by simp
  have enc: "arc4_encrypt_buf ctx (hdr @ iv @ body @ ?icv) (length (hdr @ iv)) (hdr @ iv @ body @ ?icv)
        (length (hdr @ iv)) (length (body @ ?icv)) =
      Some (fst (arc4_encrypt ctx (body @ ?icv)), hdr @ iv @ snd (arc4_encrypt ctx (body @ ?icv)))"
    using arc4_encrypt_buf_self [of ctx "hdr @ iv" "body @ ?icv" "[]"] by simp
  show ?thesis
    unfolding wf_wep_encrypt_auth_def Let_def pl at key bind.bind_lunit split_conv crc wr ctx enc
    by (rule refl)
qed

text \<open>The receiver of the third authentication frame is the data path with the fixed layout
  of the authentication frame.\<close>

definition auth_pkt :: "bytes \<Rightarrow> u16 \<Rightarrow> rx_pkt \<Rightarrow> rx_pkt" where
  "auth_pkt pframe mgmt_len pkt =
     pkt\<lparr>pkt_info := (pkt_info pkt)\<lparr>ri_wlan_hdr_len := 24, ri_iv_len := 4, ri_icv_len := 4\<rparr>,
         rp_len := ucast mgmt_len, rp_pdata := pframe\<rparr>"

lemma auth_pkt_len: "rp_len (auth_pkt f n pkt) = ucast n"
  by (simp add: auth_pkt_def)

lemma wf_wep_decrypt_auth_eq:
  "wf_wep_decrypt_auth g sec pframe n =
     map_option (\<lambda>(g', p, r). (g', rp_pdata p, r)) (wep_decrypt g sec (auth_pkt pframe n pkt))"
proof -
  have eq: "(ucast n :: u32) - 28 - 4 = ucast n - (24 + 4 + 4)" by simp
  have icv: "rdn (le32_bytes c) 0 4 = Some (le32_bytes c)" for c by (simp add: rdn_def)
  show ?thesis
    by (auto simp: wf_wep_decrypt_auth_def wep_decrypt_def Let_def auth_pkt_def icv
        split: Option.bind_splits)
qed

section \<open>Properties\<close>

text \<open>(C22) The table-driven CRC, with the table built on the first call, is the reflected CRC-32
  (polynomial 0xEDB88320, start and final complement) of the buffer, bit by bit; and the
  static variables stay good for the next call.\<close>

theorem get_crc32_correct:
  assumes "crc_ok g"
  shows "snd (get_crc32 g buf) = crc32_ref buf \<and> crc_ok (fst (get_crc32 g buf))"
  using assms by (simp add: get_crc32_ref get_crc32_ok)

lemma get_crc32_correct_witness:
  "crc_ok \<lparr>bcrc32initialized = 0, crc32_table = []\<rparr> \<and>
   snd (get_crc32 \<lparr>bcrc32initialized = 0, crc32_table = []\<rparr> [0x31, 0x32, 0x33]) =
     crc32_ref [0x31, 0x32, 0x33]"
proof -
  have ok: "crc_ok \<lparr>bcrc32initialized = 0, crc32_table = []\<rparr>" by (simp add: crc_ok_def)
  then show ?thesis using get_crc32_correct [OF ok] by simp
qed

text \<open>(C21) A data frame encrypted with WEP keeps descriptor, header and IV, and decrypting the
  frame that is sent with the same default keys accepts it and restores the payload, followed
  by its CRC-32 in the ICV field. Both functions stay inside the frame.\<close>

theorem wep_roundtrip:
  assumes g: "crc_ok g" and sec: "wep_keys_ok sec"
    and algo: "xf_encrypt_algo xf = WEP40 \<or> xf_encrypt_algo xf = WEP104"
    and tx: "length txd = unat (TXDESC_SIZE r)" "length hdr = unat (xf_hdrlen xf)"
      "xf_iv_len xf = 4" "length iv = 4" "xf_icv_len xf = 4" "length icv = 4"
    and rx: "length hdr = unat (ri_wlan_hdr_len (pkt_info pkt))" "ri_iv_len (pkt_info pkt) = 4"
      "ri_icv_len (pkt_info pkt) = 4"
    and small: "length (txd @ hdr @ iv @ body @ icv) < 2 ^ 31"
  shows "\<exists>g' enc. wep_encrypt r g sec xf (txd @ hdr @ iv @ body @ icv)
        (of_nat (length (txd @ hdr @ iv @ body @ icv))) = Some (g', txd @ hdr @ iv @ enc, 0) \<and>
      length enc = length body + 4 \<and>
      (\<exists>g''. wep_decrypt g' sec (pkt\<lparr>rp_pdata := hdr @ iv @ enc, rp_len := of_nat (length (hdr @ iv @ enc))\<rparr>) =
          Some (g'', pkt\<lparr>rp_pdata := hdr @ iv @ body @ le32_bytes (crc32_ref body),
                        rp_len := of_nat (length (hdr @ iv @ enc))\<rparr>, 0))"
proof -
  obtain ctx where ctx: "arc4_init (wep_key_of sec iv) (length (wep_key_of sec iv)) = Some ctx"
    using wep_key_arc4 [OF sec tx(4)] .
  let ?enc = "snd (arc4_encrypt ctx (body @ le32_bytes (crc32_ref body)))"
  have len: "length ?enc = length body + 4" by (simp add: arc4_encrypt_length)
  note e = wep_encrypt_layout [OF g sec algo tx small ctx]
  have s: "length (hdr @ iv @ ?enc) < 2 ^ 31" using small tx by (simp add: len)
  note d = wep_decrypt_layout [OF get_crc32_ok [OF g] sec _ _ tx(4) _ length_le32_bytes
      _ _ s ctx arc4.enc_twice, of "pkt\<lparr>rp_pdata := hdr @ iv @ ?enc, rp_len := of_nat (length (hdr @ iv @ ?enc))\<rparr>" body]
  show ?thesis
    using e len d rx by (intro exI [of _ "fst (get_crc32 g body)"] exI [of _ ?enc]) auto
qed

definition wep_sample_sec :: sec_info where
  "wep_sample_sec =
     \<lparr>dot11AuthAlgrthm = 1, dot11PrivacyAlgrthm = 1, dot11PrivacyKeyIndex = 0,
      dot11DefKey = replicate 4 (replicate 16 7), dot11DefKeylen = replicate 4 5,
      dot118021XGrpPrivacy = 0, dot118021XGrpKeyid = 0,
      dot118021XGrpKey = replicate 4 (replicate 16 0), binstallGrpkey = 0\<rparr>"

lemma wep_sample_sec_ok: "wep_keys_ok wep_sample_sec"
  by (simp add: wep_keys_ok_def sec_info_wf_def wep_sample_sec_def)

lemma wep_roundtrip_witness:
  "\<exists>g' enc. wep_encrypt True \<lparr>bcrc32initialized = 0, crc32_table = []\<rparr> wep_sample_sec
      \<lparr>xf_bmcast = False, xf_hdrlen = 24, xf_encrypt_algo = WEP40, xf_iv_len = 4, xf_icv_len = 4,
       xf_UncstKey = [], xf_addr2 = []\<rparr>
      (replicate 20 0 @ replicate 24 8 @ [1, 2, 3, 0x40] @ [0xaa, 0xbb, 0xcc] @ replicate 4 0) 55 =
    Some (g', replicate 20 0 @ replicate 24 8 @ [1, 2, 3, 0x40] @ enc, 0) \<and> length enc = 7 \<and>
    (\<exists>g'' p. wep_decrypt g' wep_sample_sec
        ((auth_pkt [] 0 undefined)\<lparr>rp_pdata := replicate 24 8 @ [1, 2, 3, 0x40] @ enc, rp_len := 35\<rparr>) = Some (g'', p, 0))"
proof -
  let ?xf = "\<lparr>xf_bmcast = False, xf_hdrlen = 24, xf_encrypt_algo = WEP40, xf_iv_len = 4, xf_icv_len = 4,
       xf_UncstKey = [], xf_addr2 = []\<rparr> :: xmit_frame"
  have ok: "crc_ok \<lparr>bcrc32initialized = 0, crc32_table = []\<rparr>" by (simp add: crc_ok_def)
  show ?thesis
    using wep_roundtrip [OF ok wep_sample_sec_ok, of ?xf "replicate 20 0" True "replicate 24 8"
        "[1, 2, 3, 0x40]" "replicate 4 0" "auth_pkt [] 0 undefined" "[0xaa, 0xbb, 0xcc]"]
    by (fastforce simp: TXDESC_SIZE_def auth_pkt_def)
qed

text \<open>The third frame of shared key authentication: the encrypted challenge response is
  accepted by the receiving side with the same keys and yields the plain body with its CRC.\<close>

theorem wep_auth_roundtrip:
  assumes g: "crc_ok g" and sec: "wep_keys_ok sec"
    and lens: "length hdr = 24" "length iv = 4" "length icv = 4"
    and small: "length (hdr @ iv @ body @ icv) < 2 ^ 16"
  shows "\<exists>g' g'' enc. wf_wep_encrypt_auth g sec (hdr @ iv @ body @ icv)
        (of_nat (length (hdr @ iv @ body @ icv))) = Some (g', hdr @ iv @ enc, 0) \<and>
      wf_wep_decrypt_auth g' sec (hdr @ iv @ enc) (of_nat (length (hdr @ iv @ enc))) =
        Some (g'', hdr @ iv @ body @ le32_bytes (crc32_ref body), 0)"
proof -
  obtain ctx where ctx: "arc4_init (wep_key_of sec iv) (length (wep_key_of sec iv)) = Some ctx"
    using wep_key_arc4 [OF sec lens(2)] .
  let ?enc = "snd (arc4_encrypt ctx (body @ le32_bytes (crc32_ref body)))"
  let ?pkt = "auth_pkt (hdr @ iv @ ?enc) (of_nat (length (hdr @ iv @ ?enc))) undefined"
  have s: "length (hdr @ iv @ ?enc) < 2 ^ 16" using small lens by (simp add: arc4_encrypt_length)
  have "rp_len ?pkt = of_nat (length (hdr @ iv @ ?enc))"
    using s by (simp only: auth_pkt_len ucast_of_nat_unat unat_of_nat_u16)
  then have "wep_decrypt (fst (get_crc32 g body)) sec ?pkt =
      Some (fst (get_crc32 (fst (get_crc32 g body)) body),
        ?pkt\<lparr>rp_pdata := hdr @ iv @ body @ le32_bytes (crc32_ref body)\<rparr>, 0)"
    using wep_decrypt_layout [OF get_crc32_ok [OF g] sec _ _ lens(2) _ length_le32_bytes _ _ _ ctx
      arc4.enc_twice, of hdr ?pkt body] lens s by (simp add: auth_pkt_def)
  then have "wf_wep_decrypt_auth (fst (get_crc32 g body)) sec (hdr @ iv @ ?enc)
        (of_nat (length (hdr @ iv @ ?enc))) =
      Some (fst (get_crc32 (fst (get_crc32 g body)) body), hdr @ iv @ body @ le32_bytes (crc32_ref body), 0)"
    by (simp add: wf_wep_decrypt_auth_eq [where pkt = undefined])
  with wf_wep_encrypt_auth_layout [OF g sec lens small ctx] show ?thesis by blast
qed

lemma wep_auth_roundtrip_witness:
  "\<exists>g' g'' enc. wf_wep_encrypt_auth \<lparr>bcrc32initialized = 0, crc32_table = []\<rparr> wep_sample_sec
        (replicate 24 8 @ [1, 2, 3, 0x40] @ [1, 0, 3, 0] @ replicate 4 0) 36 =
      Some (g', replicate 24 8 @ [1, 2, 3, 0x40] @ enc, 0) \<and>
      wf_wep_decrypt_auth g' wep_sample_sec (replicate 24 8 @ [1, 2, 3, 0x40] @ enc)
        (of_nat (length (replicate 24 (8 :: u8) @ [1, 2, 3, 0x40] @ enc))) =
        Some (g'', replicate 24 8 @ [1, 2, 3, 0x40] @ [1, 0, 3, 0] @ le32_bytes (crc32_ref [1, 0, 3, 0]), 0)"
proof -
  have ok: "crc_ok \<lparr>bcrc32initialized = 0, crc32_table = []\<rparr>" by (simp add: crc_ok_def)
  show ?thesis
    using wep_auth_roundtrip [OF ok wep_sample_sec_ok, of "replicate 24 8" "[1, 2, 3, 0x40]"
        "replicate 4 0" "[1, 0, 3, 0]"] by simp
qed

end
