(* ===== verification/Nic_Queue.thy ===== *)
theory Nic_Queue
  imports Wf_Prelude
begin

text \<open>
  The singly linked queue of \<open>queue.h\<close>, the macros the receive path uses. An entry is an
  address; \<open>links\<close> holds the \<open>pnext\<close> member of every entry (\<open>None\<close> is NULL; \<open>pprev\<close> is not
  used). A queue is its \<open>phead\<close>, \<open>ptail\<close> and \<open>num_elem\<close>. \<open>queue_rep\<close> says which sequence of
  entries a queue holds.
\<close>

section \<open>Operations\<close>

type_synonym entry = nat
type_synonym links = "entry \<Rightarrow> entry option"

record que =
  q_phead :: "entry option"
  q_ptail :: "entry option"
  q_num_elem :: u32

definition queue_initialize :: que where
  "queue_initialize = \<lparr>q_phead = None, q_ptail = None, q_num_elem = 0\<rparr>"

definition queue_is_empty :: "que \<Rightarrow> bool" where
  "queue_is_empty q \<longleftrightarrow> q_phead q = None"

definition queue_is_not_empty :: "que \<Rightarrow> bool" where
  "queue_is_not_empty q \<longleftrightarrow> 0 < q_num_elem q"

definition queue_insert_head :: "entry \<Rightarrow> links \<times> que \<Rightarrow> links \<times> que" where
  "queue_insert_head e = (\<lambda>(nx, q).
     (nx(e := q_phead q),
      q\<lparr>q_phead := Some e, q_ptail := (if q_ptail q = None then Some e else q_ptail q),
        q_num_elem := q_num_elem q + 1\<rparr>))"

definition queue_insert_tail :: "entry \<Rightarrow> links \<times> que \<Rightarrow> links \<times> que" where
  "queue_insert_tail e = (\<lambda>(nx, q).
     (let nx1 = nx(e := None) in
      case q_ptail q of
        Some t \<Rightarrow> (nx1(t := Some e), q\<lparr>q_ptail := Some e, q_num_elem := q_num_elem q + 1\<rparr>)
      | None \<Rightarrow> (nx1, q\<lparr>q_phead := Some e, q_ptail := Some e, q_num_elem := q_num_elem q + 1\<rparr>)))"

definition queue_remove_head :: "links \<times> que \<Rightarrow> (links \<times> que) \<times> entry option" where
  "queue_remove_head = (\<lambda>(nx, q).
     case q_phead q of
       None \<Rightarrow> ((nx, q), None)
     | Some e \<Rightarrow>
         ((nx(e := None),
           q\<lparr>q_phead := nx e, q_ptail := (if nx e = None then None else q_ptail q),
             q_num_elem := q_num_elem q - 1\<rparr>), Some e))"

text \<open>The macros on two queues return the destination and the source.\<close>

definition queue_move_all :: "que \<Rightarrow> que \<Rightarrow> que \<times> que" where
  "queue_move_all dst src = (src, queue_initialize)"

definition queue_concatenate_queues :: "links \<Rightarrow> que \<Rightarrow> que \<Rightarrow> links \<times> que \<times> que" where
  "queue_concatenate_queues nx dst src =
     (if 0 < q_num_elem src then
        (let (nx', h) = (case q_ptail dst of
                Some t \<Rightarrow> (nx(t := q_phead src), q_phead dst)
              | None \<Rightarrow> (nx, q_phead src))
         in (nx', \<lparr>q_phead = h, q_ptail = q_ptail src, q_num_elem = q_num_elem dst + q_num_elem src\<rparr>,
             queue_initialize))
      else (nx, dst, src))"

text \<open>\<open>None\<close> is the write through a NULL tail of a source that counts entries but has none.\<close>

definition queue_concatenate_queues_head :: "links \<Rightarrow> que \<Rightarrow> que \<Rightarrow> (links \<times> que \<times> que) option" where
  "queue_concatenate_queues_head nx dst src =
     (if 0 < q_num_elem src then
        (case q_ptail src of
           None \<Rightarrow> None
         | Some t \<Rightarrow> Some (nx(t := q_phead dst),
             \<lparr>q_phead = q_phead src, q_ptail = (if q_ptail dst = None then Some t else q_ptail dst),
              q_num_elem = q_num_elem dst + q_num_elem src\<rparr>, queue_initialize))
      else Some (nx, dst, src))"

section \<open>The entries of a queue\<close>

fun chain :: "links \<Rightarrow> entry option \<Rightarrow> entry list \<Rightarrow> bool" where
  "chain nx p [] \<longleftrightarrow> p = None"
| "chain nx p (x # xs) \<longleftrightarrow> p = Some x \<and> chain nx (nx x) xs"

definition queue_rep :: "links \<Rightarrow> que \<Rightarrow> entry list \<Rightarrow> bool" where
  "queue_rep nx q xs \<longleftrightarrow> chain nx (q_phead q) xs \<and> distinct xs \<and> length xs < 2 ^ 32 \<and>
     q_ptail q = (if xs = [] then None else Some (last xs)) \<and> q_num_elem q = of_nat (length xs)"

lemma chain_frame: "e \<notin> set xs \<Longrightarrow> chain (nx(e := v)) p xs = chain nx p xs"
  by (induction xs arbitrary: p) auto

lemma chain_snoc:
  "distinct (xs @ [e]) \<Longrightarrow> chain nx p xs \<Longrightarrow> xs \<noteq> [] \<Longrightarrow> chain (nx(e := None, last xs := Some e)) p (xs @ [e])"
proof (induction xs arbitrary: p)
  case (Cons x xs)
  show ?case
  proof (cases "xs = []")
    case True
    with Cons.prems show ?thesis by auto
  next
    case False
    then have "chain (nx(e := None, last xs := Some e)) (nx x) (xs @ [e])"
      by (intro Cons.IH) (use Cons.prems False in auto)
    moreover have "last xs \<noteq> x" using False Cons.prems(1) by (metis distinct.simps(2) distinct_append last_in_set append_Cons Un_iff set_append)
    ultimately show ?thesis using Cons.prems False by (simp add: fun_upd_def)
  qed
qed simp

lemma queue_rep_initialize: "queue_rep nx queue_initialize []"
  by (simp add: queue_rep_def queue_initialize_def)

lemma queue_rep_empty: "queue_rep nx q xs \<Longrightarrow> queue_is_empty q \<longleftrightarrow> xs = []"
  by (cases xs) (auto simp: queue_rep_def queue_is_empty_def)

lemma queue_rep_not_empty: "queue_rep nx q xs \<Longrightarrow> queue_is_not_empty q \<longleftrightarrow> xs \<noteq> []"
  by (auto simp: queue_rep_def queue_is_not_empty_def word_less_nat_alt unat_of_nat_u32)

lemma queue_rep_frame: "e \<notin> set xs \<Longrightarrow> queue_rep (nx(e := v)) q xs = queue_rep nx q xs"
  by (simp add: queue_rep_def chain_frame)

lemma queue_rep_insert_tail:
  assumes "queue_rep nx q xs" "e \<notin> set xs" "length xs + 1 < 2 ^ 32"
  shows "case queue_insert_tail e (nx, q) of (nx', q') \<Rightarrow> queue_rep nx' q' (xs @ [e])"
proof (cases "xs = []")
  case True
  then show ?thesis using assms by (simp add: queue_rep_def queue_insert_tail_def Let_def)
next
  case False
  then have "chain (nx(e := None, last xs := Some e)) (q_phead q) (xs @ [e])"
    using assms chain_snoc [of xs e nx "q_phead q"] by (auto simp: queue_rep_def)
  then show ?thesis using assms False by (simp add: queue_rep_def queue_insert_tail_def Let_def add.commute)
qed

lemma queue_rep_insert_head:
  assumes "queue_rep nx q xs" "e \<notin> set xs" "length xs + 1 < 2 ^ 32"
  shows "case queue_insert_head e (nx, q) of (nx', q') \<Rightarrow> queue_rep nx' q' (e # xs)"
  using assms by (auto simp: queue_rep_def queue_insert_head_def chain_frame add.commute)

lemma queue_rep_remove_head:
  "queue_rep nx q (x # xs) \<Longrightarrow>
     \<exists>q'. queue_remove_head (nx, q) = ((nx(x := None), q'), Some x) \<and> queue_rep (nx(x := None)) q' xs"
  "queue_rep nx q [] \<Longrightarrow> queue_remove_head (nx, q) = ((nx, q), None)"
  by (cases xs; auto simp: queue_rep_def queue_remove_head_def chain_frame)+

lemma queue_insert_tail_frame:
  assumes "queue_rep nx q xs" "queue_rep nx q2 ys" "set xs \<inter> set ys = {}" "e \<notin> set ys"
  shows "queue_rep (fst (queue_insert_tail e (nx, q))) q2 ys"
proof -
  have "last xs \<notin> set ys" if "xs \<noteq> []" using that assms(3) by (metis disjoint_iff last_in_set)
  then show ?thesis
    using assms by (auto simp: queue_insert_tail_def Let_def queue_rep_frame queue_rep_def [of nx q] split: if_splits)
qed

end
