(* ===== verification/Wdn_Info.thy ===== *)
theory Wdn_Info
  imports Nic_Queue
begin

text \<open>
  The structures of a peer (a wireless device node, \<open>wdn.h\<close>) and of the hardware description
  (\<open>hw_info.h\<close>), restricted to the members the modelled functions read or write, and the
  numbers of \<open>wf_80211.h\<close> that appear in them. A \<open>wf_bool\<close> or a flag of type \<open>wf_u8\<close> that only
  ever holds \<open>wf_true\<close> or \<open>wf_false\<close> is a \<open>bool\<close>.
\<close>

section \<open>Numbers\<close>

abbreviation (input) WIRELESS_11B :: u32 where "WIRELESS_11B \<equiv> 1"
abbreviation (input) WIRELESS_11G :: u32 where "WIRELESS_11G \<equiv> 2"
abbreviation (input) WIRELESS_11_24N :: u32 where "WIRELESS_11_24N \<equiv> 8"
abbreviation (input) WIRELESS_11BG :: u32 where "WIRELESS_11BG \<equiv> 3"
abbreviation (input) WIRELESS_11G_24N :: u32 where "WIRELESS_11G_24N \<equiv> 10"
abbreviation (input) WIRELESS_11B_24N :: u32 where "WIRELESS_11B_24N \<equiv> 9"
abbreviation (input) WIRELESS_11BG_24N :: u32 where "WIRELESS_11BG_24N \<equiv> 11"

abbreviation (input) CHANNEL_WIDTH_20 :: u8 where "CHANNEL_WIDTH_20 \<equiv> 0"
abbreviation (input) CHANNEL_WIDTH_40 :: u8 where "CHANNEL_WIDTH_40 \<equiv> 1"

abbreviation (input) dot11AuthAlgrthm_Open :: u32 where "dot11AuthAlgrthm_Open \<equiv> 0"
abbreviation (input) dot11AuthAlgrthm_Shared :: u32 where "dot11AuthAlgrthm_Shared \<equiv> 1"
abbreviation (input) dot11AuthAlgrthm_8021X :: u32 where "dot11AuthAlgrthm_8021X \<equiv> 2"

section \<open>Structures\<close>

text \<open>\<open>wf_80211_mgmt_ht_cap_t\<close>, a packed structure of 26 bytes.\<close>

record ht_cap =
  hc_cap_info :: u16
  hc_ampdu_params_info :: u8
  hc_supp_mcs_set :: bytes
  hc_extended_ht_cap_info :: u16
  hc_tx_BF_cap_info :: u32
  hc_antenna_selection_info :: u8

text \<open>\<open>struct wf_ht_priv\<close>.\<close>

record ht_priv =
  hp_ht_option :: bool
  hp_ampdu_enable :: bool
  hp_rx_ampdu_maxlen :: u32
  hp_rx_ampdu_min_spacing :: u8
  hp_ldpc :: bool
  hp_both_20m_40m :: bool
  hp_sgi_20m :: bool
  hp_sgi_40m :: bool
  hp_dssck_40m :: bool
  hp_smps :: bool
  hp_sm_ps_mode :: u8
  hp_rx_stbc :: bool
  hp_tx_stbc :: bool

text \<open>The receive counters of \<open>struct wdninfo_stats\<close> and the copies taken at the last check.\<close>

record rx_counts =
  rx_mgnt_pkts :: u64
  rx_beacon_pkts :: u64
  rx_probereq_pkts :: u64
  rx_probersp_pkts :: u64
  rx_probersp_bm_pkts :: u64
  rx_probersp_uo_pkts :: u64
  rx_ctrl_pkts :: u64
  rx_data_pkts :: u64

record wdninfo_stats =
  st_now :: rx_counts
  st_last :: rx_counts

record wdn_net_info =
  wdn_mac :: bytes
  wdn_id :: u8
  wdn_mode :: u8
  wdn_bssid :: bytes
  wdn_ssid :: bytes
  wdn_ssid_len :: u8
  wdn_tsf :: u64
  wdn_cap_info :: u16
  ess_net :: bool
  ibss_net :: bool
  privacy :: bool
  short_preamble :: bool
  short_slot :: bool
  radio_measure :: bool
  wdn_bcn_interval :: u16
  listen_interval :: u16
  datarate :: bytes
  datarate_len :: u8
  ext_datarate :: bytes
  ext_datarate_len :: u8
  ht_enable :: bool
  wdn_ht_cap :: ht_cap
  htpriv :: ht_priv
  HT_protection :: u8
  wdn_channel :: u8
  bw_mode :: u8
  channle_offset :: u8
  wmm_enable :: bool
  wmm_info :: bytes
  wpa_enable :: bool
  rsn_enable :: bool
  erp_enable :: bool
  erp_flag :: u8
  auth_algo :: u32
  qos_option :: bool
  ieee8021x_blocked :: bool
  dot118021XPrivacy :: u16
  dot118021x_UncstKey :: bytes
  network_type :: u32
  raid :: u8
  tx_rate :: u8
  defrag_q :: que
  defrag_flag :: u8
  cts2self :: u8
  rtsen :: u8
  wdn_ldpc :: u8
  wdn_stbc :: u8
  wdn_rx_pkt_stat :: u32
  wdn_stats :: wdninfo_stats
  seq_ctrl_recorder :: "u16 list"

text \<open>What \<open>wf_memset(pwdn_info, 0, sizeof(wdn_net_info_st))\<close> leaves.\<close>

definition wdn_zero :: wdn_net_info where
  "wdn_zero =
    (let z = \<lparr>rx_mgnt_pkts = 0, rx_beacon_pkts = 0, rx_probereq_pkts = 0, rx_probersp_pkts = 0,
              rx_probersp_bm_pkts = 0, rx_probersp_uo_pkts = 0, rx_ctrl_pkts = 0, rx_data_pkts = 0\<rparr> in
     \<lparr>wdn_mac = replicate 6 0, wdn_id = 0, wdn_mode = 0, wdn_bssid = replicate 6 0, wdn_ssid = replicate 32 0,
      wdn_ssid_len = 0, wdn_tsf = 0, wdn_cap_info = 0, ess_net = False, ibss_net = False,
      privacy = False, short_preamble = False, short_slot = False, radio_measure = False,
      wdn_bcn_interval = 0, listen_interval = 0, datarate = replicate 8 0, datarate_len = 0,
      ext_datarate = replicate 4 0, ext_datarate_len = 0, ht_enable = False,
      wdn_ht_cap = \<lparr>hc_cap_info = 0, hc_ampdu_params_info = 0, hc_supp_mcs_set = replicate 16 0,
        hc_extended_ht_cap_info = 0, hc_tx_BF_cap_info = 0, hc_antenna_selection_info = 0\<rparr>,
      htpriv = \<lparr>hp_ht_option = False, hp_ampdu_enable = False, hp_rx_ampdu_maxlen = 0,
        hp_rx_ampdu_min_spacing = 0, hp_ldpc = False, hp_both_20m_40m = False, hp_sgi_20m = False,
        hp_sgi_40m = False, hp_dssck_40m = False, hp_smps = False, hp_sm_ps_mode = 0,
        hp_rx_stbc = False, hp_tx_stbc = False\<rparr>,
      HT_protection = 0, wdn_channel = 0, bw_mode = 0, channle_offset = 0, wmm_enable = False,
      wmm_info = replicate 24 0, wpa_enable = False, rsn_enable = False, erp_enable = False,
      erp_flag = 0, auth_algo = 0, qos_option = False, ieee8021x_blocked = False,
      dot118021XPrivacy = 0, dot118021x_UncstKey = replicate 16 0, network_type = 0, raid = 0,
      tx_rate = 0, defrag_q = queue_initialize, defrag_flag = 0, cts2self = 0, rtsen = 0, wdn_ldpc = 0, wdn_stbc = 0,
      wdn_rx_pkt_stat = 0, wdn_stats = \<lparr>st_now = z, st_last = z\<rparr>, seq_ctrl_recorder = replicate 16 0\<rparr>)"

text \<open>The arrays of a peer have the sizes of their declarations. (\<open>wf_wmm_para_st\<close> takes 24
  bytes: 7 bytes of members, one of padding before the 2-aligned \<open>ac[4]\<close>, 16 bytes.)\<close>

definition wdn_wf :: "wdn_net_info \<Rightarrow> bool" where
  "wdn_wf w \<longleftrightarrow> length (wdn_mac w) = 6 \<and> length (wdn_bssid w) = 6 \<and> length (wdn_ssid w) = 32 \<and>
     length (datarate w) = 8 \<and> length (ext_datarate w) = 4 \<and> length (wmm_info w) = 24 \<and>
     length (hc_supp_mcs_set (wdn_ht_cap w)) = 16 \<and> length (dot118021x_UncstKey w) = 16 \<and> length (seq_ctrl_recorder w) = 16"

lemma wdn_zero_wf: "wdn_wf wdn_zero"
  by (simp add: wdn_wf_def wdn_zero_def Let_def)

text \<open>The members of \<open>hw_info_st\<close> the IE handling reads.\<close>

record hw_info =
  dot80211n_support :: bool
  cbw40_support :: u8
  sm_ps_support :: u8
  ldpc_support :: bool
  tx_stbc_support :: bool
  rx_stbc_support :: bool
  rx_stbc_num :: u8
  rx_packet_offset :: u32
  max_recvbuf_sz :: u32
  max_rx_ampdu_factor :: u8
  best_ampdu_density :: u8
  hw_datarate :: bytes
  default_supported_mcs_set :: bytes

definition hw_wf :: "hw_info \<Rightarrow> bool" where
  "hw_wf hw \<longleftrightarrow> length (hw_datarate hw) = 13 \<and> length (default_supported_mcs_set hw) = 16"

end
