(* ===== verification/Wdn.thy ===== *)
theory Wdn
  imports Wf_List Wdn_Info
begin

text \<open>
  The table of peers, \<open>src/trunk_driver/nic/wdn.c\<close>: allocation of peer ids from the bitmap,
  lookup by address and by id, adding and removing a peer, setting up and tearing down the
  table, and the small functions on one peer (basic rates, rate id, liveness). The nodes are
  linked on the two lists \<open>head\<close> and \<open>free\<close> of \<open>wdn_list\<close> with the intrusive lists of
  \<open>Wf_List\<close>. \<open>wf_wdn_data_update\<close> is in \<open>Wdn_Update\<close>.

  The locale \<open>peer_table\<close> states what the rest of the driver relies on: a peer that was added
  is found until it is removed, whatever happens to other peers.
\<close>

section \<open>State\<close>

text \<open>\<open>wdn_list\<close>: the addresses of its two list heads. Its counter, the links and the contents
  of the nodes and the id bitmap the network devices share are in the memory.\<close>

record wdn_list =
  wl_head :: ptr
  wl_free :: ptr

record wdn_mem = wf_mem +
  node_info :: "ptr \<Rightarrow> wdn_net_info"
  wl_cnt :: u8
  wdn_id_bitmap :: u32

abbreviation (input) WDN_NUM_MAX :: nat where "WDN_NUM_MAX \<equiv> 5"

section \<open>Operations\<close>

definition new_wdn_id :: "wdn_mem \<Rightarrow> wdn_mem \<times> int \<times> u8 option" where
  "new_wdn_id m =
     (case List.find (\<lambda>i. wdn_id_bitmap m AND push_bit i 1 = 0) [0..<32] of
        Some i \<Rightarrow> (m\<lparr>wdn_id_bitmap := wdn_id_bitmap m OR push_bit i 1\<rparr>, 0, Some (of_nat i))
      | None \<Rightarrow> (m, -1, None))"

definition free_wdn_id :: "u16 \<Rightarrow> wdn_mem \<Rightarrow> wdn_mem \<times> int" where
  "free_wdn_id i m =
     (if i \<ge> 32 then (m, -1)
      else (m\<lparr>wdn_id_bitmap := wdn_id_bitmap m AND NOT (push_bit (unat i) 1)\<rparr>, 0))"

definition brate_bit :: "u8 \<Rightarrow> nat option" where
  "brate_bit brate =
     (if brate = 0x02 then Some 0 else if brate = 0x04 then Some 1
      else if brate = 0x0B then Some 2 else if brate = 0x16 then Some 3
      else if brate = 0x0C then Some 4 else if brate = 0x12 then Some 5
      else if brate = 0x18 then Some 6 else if brate = 0x24 then Some 7
      else if brate = 0x30 then Some 8 else if brate = 0x48 then Some 9
      else if brate = 0x60 then Some 10 else if brate = 0x6C then Some 11 else None)"

fun get_bratecfg_by_support_dates :: "bytes \<Rightarrow> u16 \<Rightarrow> u16" where
  "get_bratecfg_by_support_dates [] brate_cfg = brate_cfg"
| "get_bratecfg_by_support_dates (d # ds) brate_cfg =
     get_bratecfg_by_support_dates ds
       (if d AND 0x80 \<noteq> 0
        then (case brate_bit (d AND 0x7f) of Some n \<Rightarrow> brate_cfg OR push_bit n 1 | None \<Rightarrow> brate_cfg)
        else brate_cfg)"

text \<open>The rate id and the update of \<open>tx_rate\<close>; an unknown network type keeps \<open>tx_rate\<close>.\<close>

definition wf_wdn_get_raid_by_network_type :: "wdn_net_info \<Rightarrow> wdn_net_info \<times> u8" where
  "wf_wdn_get_raid_by_network_type w =
     (let t = network_type w; MGN_1M = 2; MGN_MCS0 = 0x80 in
      if t = WIRELESS_11B then (w\<lparr>tx_rate := MGN_1M\<rparr>, 8)
      else if t = WIRELESS_11G then (w\<lparr>tx_rate := MGN_1M\<rparr>, 7)
      else if t = WIRELESS_11BG then (w\<lparr>tx_rate := MGN_1M\<rparr>, 6)
      else if t = WIRELESS_11_24N then (w\<lparr>tx_rate := MGN_MCS0\<rparr>, 5)
      else if t = WIRELESS_11G_24N then (w\<lparr>tx_rate := MGN_1M\<rparr>, 5)
      else if t = WIRELESS_11B_24N then (w\<lparr>tx_rate := MGN_1M\<rparr>, 5)
      else if t = WIRELESS_11BG_24N
      then (w\<lparr>tx_rate := MGN_1M\<rparr>, if bw_mode w = CHANNEL_WIDTH_20 then 3 else 1)
      else (w, 1))"

text \<open>The lookups return the node whose \<open>info\<close> member the code returns, or NULL (the inner
  \<open>None\<close>). A NULL address gives NULL.\<close>

definition wf_wdn_find_info :: "wdn_list \<Rightarrow> bytes option \<Rightarrow> wdn_mem \<Rightarrow> ptr option option" where
  "wf_wdn_find_info wl pmac m =
     (case pmac of
        None \<Rightarrow> Some None
      | Some mac \<Rightarrow> do {
          pos \<leftarrow> wf_list_for_each m (wl_head wl) (\<lambda>p. wdn_mac (node_info m p) = mac)
                  (pnext m (wl_head wl));
          Some (if pos = wl_head wl then None else Some pos)
        })"

definition wf_wdn_find_info_by_id :: "wdn_list \<Rightarrow> u8 \<Rightarrow> wdn_mem \<Rightarrow> ptr option option" where
  "wf_wdn_find_info_by_id wl i m = do {
     pos \<leftarrow> wf_list_for_each m (wl_head wl) (\<lambda>p. wdn_id (node_info m p) = i) (pnext m (wl_head wl));
     Some (if pos = wl_head wl then None else Some pos)
   }"

definition wf_wdn_add :: "wdn_list \<Rightarrow> bytes option \<Rightarrow> wdn_mem \<Rightarrow> (wdn_mem \<times> ptr option) option" where
  "wf_wdn_add wl pmac m = do {
     found \<leftarrow> wf_wdn_find_info wl pmac m;
     case found of
       Some p \<Rightarrow> Some (m, Some p)
     | None \<Rightarrow>
         if wf_list_is_empty (wl_free wl) m then Some (m, None)
         else (case new_wdn_id m of
             (m1, _, None) \<Rightarrow> Some (m1, None)
           | (m1, _, Some i) \<Rightarrow> do {
               let p = pnext m1 (wl_free wl);
               let m2 = wf_list_delete p m1;
               mac \<leftarrow> pmac;
               let m3 = m2\<lparr>node_info := (node_info m2)(p := wdn_zero\<lparr>wdn_mac := mac, wdn_id := i\<rparr>)\<rparr>;
               let m4 = wf_list_insert_tail p (wl_head wl) m3;
               Some (m4\<lparr>wl_cnt := wl_cnt m4 + 1\<rparr>, Some p)
             })
   }"

definition wf_wdn_remove :: "wdn_list \<Rightarrow> bytes option \<Rightarrow> wdn_mem \<Rightarrow> (wdn_mem \<times> int) option" where
  "wf_wdn_remove wl pmac m = do {
     found \<leftarrow> wf_wdn_find_info wl pmac m;
     case found of
       None \<Rightarrow> Some (m, -1)
     | Some p \<Rightarrow> do {
         let m1 = wf_list_delete p m;
         let m2 = wf_list_insert_tail p (wl_free wl) m1;
         let m3 = fst (free_wdn_id (ucast (wdn_id (node_info m2 p))) m2);
         Some (m3\<lparr>wl_cnt := wl_cnt m3 - 1\<rparr>, 0)
       }
   }"

text \<open>Memory for the table and its nodes comes from the allocator; \<open>None\<close> is a failed
  allocation. The code sets \<open>pwdn->id_bitmap\<close>, a member nothing reads; the bitmap the ids are
  taken from belongs to the device list and is left alone.\<close>

fun wdn_init_nodes :: "wdn_list \<Rightarrow> nat \<Rightarrow> ptr option list \<Rightarrow> wdn_mem \<Rightarrow> wdn_mem \<times> int" where
  "wdn_init_nodes wl 0 allocs m = (m, 0)"
| "wdn_init_nodes wl (Suc n) (Some p # allocs) m =
     wdn_init_nodes wl n allocs
       (wf_list_insert_tail p (wl_free wl) (m\<lparr>node_info := (node_info m)(p := wdn_zero)\<rparr>))"
| "wdn_init_nodes wl (Suc n) _ m = (m, -2)"

definition wf_wdn_init :: "wdn_list option \<Rightarrow> ptr option list \<Rightarrow> wdn_mem \<Rightarrow> wdn_mem \<times> int" where
  "wf_wdn_init pwdn allocs m =
     (case pwdn of
        None \<Rightarrow> (m, -1)
      | Some wl \<Rightarrow>
          wdn_init_nodes wl WDN_NUM_MAX allocs
            ((wf_list_init (wl_free wl) (wf_list_init (wl_head wl) m))\<lparr>wl_cnt := 0\<rparr>))"

text \<open>One of the two loops of \<open>wf_wdn_term\<close>: the successor is read before the node is unlinked
  and freed. The result is the memory and the nodes freed.\<close>

partial_function (option) wdn_term_loop ::
  "ptr \<Rightarrow> ptr \<Rightarrow> wdn_mem \<Rightarrow> (wdn_mem \<times> ptr list) option" where
  "wdn_term_loop head pos m =
     (if pos = head then Some (m, [])
      else Option.bind (wdn_term_loop head (pnext m pos) (wf_list_delete pos m))
             (\<lambda>(m', ps). Some (m', pos # ps)))"

definition wf_wdn_term :: "wdn_list option \<Rightarrow> wdn_mem \<Rightarrow> (wdn_mem \<times> ptr list \<times> int) option" where
  "wf_wdn_term pwdn m =
     (case pwdn of
        None \<Rightarrow> Some (m, [], -1)
      | Some wl \<Rightarrow> do {
          (m1, hs) \<leftarrow> wdn_term_loop (wl_head wl) (pnext m (wl_head wl)) m;
          (m2, fs) \<leftarrow> wdn_term_loop (wl_free wl) (pnext m1 (wl_free wl)) m1;
          Some (m2, hs @ fs, 0)
        })"

definition wf_wdn_is_alive :: "wdn_net_info \<Rightarrow> bool \<Rightarrow> wdn_net_info \<times> bool" where
  "wf_wdn_is_alive w update_tag =
     (let s = wdn_stats w in
      if rx_data_pkts (st_last s) + rx_ctrl_pkts (st_last s) = rx_data_pkts (st_now s) + rx_ctrl_pkts (st_now s)
      then (w, False)
      else (if update_tag then w\<lparr>wdn_stats := s\<lparr>st_last := st_now s\<rparr>\<rparr> else w, True))"

definition wf_wdn_get_cnt :: "wdn_list option \<Rightarrow> wdn_mem \<Rightarrow> u8" where
  "wf_wdn_get_cnt pwdn m = (case pwdn of None \<Rightarrow> 0 | Some wl \<Rightarrow> wl_cnt m)"

section \<open>The invariant\<close>

definition wdn_inv :: "wdn_list \<Rightarrow> wdn_mem \<Rightarrow> ptr list \<Rightarrow> ptr list \<Rightarrow> bool" where
  "wdn_inv wl m hs fs \<longleftrightarrow>
     dll m (wl_head wl) hs \<and> dll m (wl_free wl) fs \<and>
     insert (wl_head wl) (set hs) \<inter> insert (wl_free wl) (set fs) = {} \<and>
     length hs + length fs = WDN_NUM_MAX \<and> wl_cnt m = of_nat (length hs) \<and>
     distinct (map (\<lambda>p. wdn_mac (node_info m p)) hs) \<and>
     distinct (map (\<lambda>p. wdn_id (node_info m p)) hs) \<and>
     (\<forall>p\<in>set hs. wdn_id (node_info m p) < 32 \<and> bit (wdn_id_bitmap m) (unat (wdn_id (node_info m p))))"

lemma lseg_more [simp]:
  "lseg (m\<lparr>node_info := f\<rparr>) a xs b = lseg m a xs b" "lseg (m\<lparr>wl_cnt := c\<rparr>) a xs b = lseg m a xs b"
  "lseg (m\<lparr>wdn_id_bitmap := w\<rparr>) a xs b = lseg m a xs b"
  by (induction xs arbitrary: a) auto

lemma dll_more [simp]:
  "dll (m\<lparr>node_info := f\<rparr>) h xs = dll m h xs" "dll (m\<lparr>wl_cnt := c\<rparr>) h xs = dll m h xs"
  "dll (m\<lparr>wdn_id_bitmap := w\<rparr>) h xs = dll m h xs"
  by (simp_all add: dll_def)

lemma wdn_list_ops [simp]:
  "wf_list_insert_tail p h (m\<lparr>node_info := f\<rparr>) = (wf_list_insert_tail p h m)\<lparr>node_info := f\<rparr>"
  "wf_list_delete p (m\<lparr>wdn_id_bitmap := w\<rparr>) = (wf_list_delete p m)\<lparr>wdn_id_bitmap := w\<rparr>"
  "wf_list_insert_tail p h (m\<lparr>wdn_id_bitmap := w\<rparr>) = (wf_list_insert_tail p h m)\<lparr>wdn_id_bitmap := w\<rparr>"
  "node_info (wf_list_delete p m) = node_info m" "node_info (wf_list_insert_tail p h m) = node_info m"
  "wl_cnt (wf_list_delete p m) = wl_cnt m" "wl_cnt (wf_list_insert_tail p h m) = wl_cnt m"
  "wdn_id_bitmap (wf_list_delete p m) = wdn_id_bitmap m"
  "wdn_id_bitmap (wf_list_insert_tail p h m) = wdn_id_bitmap m"
  by (simp_all add: wf_list_defs Let_def)

lemma dll_move_tail:
  assumes "dll m a (us @ p # vs)" "dll m b ys"
    "insert a (set (us @ p # vs)) \<inter> insert b (set ys) = {}"
  shows "dll (wf_list_insert_tail p b (wf_list_delete p m)) a (us @ vs) \<and>
    dll (wf_list_insert_tail p b (wf_list_delete p m)) b (ys @ [p])"
proof -
  let ?m = "wf_list_delete p m"
  have a: "dll ?m a (us @ vs)" by (rule dll_delete [OF assms(1)])
  have b: "dll ?m b ys" using dll_delete_frame [OF assms(1) _ assms(2,3)] by simp
  have p: "p \<notin> insert b (set ys)" "p \<notin> insert a (set (us @ vs))"
    using assms by (auto simp: dll_def)
  have "dll (wf_list_insert_prev p b ?m) b (ys @ [p])"
    using dll_insert_prev [of ?m b ys "[]" p] b p by simp
  moreover have "dll (wf_list_insert_prev p b ?m) a (us @ vs)"
    using dll_insert_prev_frame [OF b _ a, of b p] assms(3) p by auto
  ultimately show ?thesis by (simp add: wf_list_insert_tail_def)
qed

section \<open>What the operations do\<close>

lemma for_each_find:
  assumes d: "dll m head hs"
  shows "Option.bind (wf_list_for_each m head P (pnext m head))
      (\<lambda>pos. Some (if pos = head then None else Some pos)) = Some (List.find P hs)"
proof -
  have "head \<notin> set hs" using d by (simp add: dll_def)
  then show ?thesis
    using wf_list_for_each_dll [OF d, of P] by (auto split: option.splits dest: find_SomeD)
qed

lemma wdn_find_hs:
  "wdn_inv wl m hs fs \<Longrightarrow>
   wf_wdn_find_info wl (Some mac) m = Some (List.find (\<lambda>p. wdn_mac (node_info m p) = mac) hs)"
  by (simp add: wf_wdn_find_info_def wdn_inv_def for_each_find)

lemma wdn_find_id_hs:
  "wdn_inv wl m hs fs \<Longrightarrow>
   wf_wdn_find_info_by_id wl i m = Some (List.find (\<lambda>p. wdn_id (node_info m p) = i) hs)"
  by (simp add: wf_wdn_find_info_by_id_def wdn_inv_def for_each_find)

lemma bit_or_exp: "bit ((w :: u32) OR 2 ^ i) n \<longleftrightarrow> bit w n \<or> n = i \<and> i < 32"
  by (auto simp: bit_simps)

lemma bit_and_not_exp: "bit ((w :: u32) AND NOT (2 ^ i)) n \<longleftrightarrow> bit w n \<and> n \<noteq> i"
  by (auto simp: bit_simps dest: bit_imp_le_length)

lemma new_wdn_id_Some:
  assumes "new_wdn_id m = (m', r, Some i)"
  shows "r = 0 \<and> i < 32 \<and> \<not> bit (wdn_id_bitmap m) (unat i) \<and>
    m' = m\<lparr>wdn_id_bitmap := wdn_id_bitmap m OR push_bit (unat i) 1\<rparr>"
proof -
  obtain n where n: "List.find (\<lambda>i. wdn_id_bitmap m AND push_bit i 1 = 0) [0..<32] = Some n"
    using assms by (auto simp: new_wdn_id_def split: option.splits)
  then have lt: "n < 32" "\<not> bit (wdn_id_bitmap m) n"
    by (auto simp: find_Some_iff and_exp_eq_0_iff_not_bit)
  moreover have i: "i = of_nat n" using assms n by (auto simp: new_wdn_id_def)
  moreover from lt(1) have u: "unat (of_nat n :: u8) = n"
    by (simp add: unsigned_of_nat take_bit_nat_eq_self)
  moreover have "(of_nat n :: u8) < 32" using lt(1) u by (simp add: word_less_nat_alt)
  ultimately show ?thesis using assms n by (auto simp: new_wdn_id_def)
qed

lemma new_wdn_id_None: "new_wdn_id m = (m', r, None) \<Longrightarrow> m' = m \<and> r = -1 \<and> (\<forall>i<32. bit (wdn_id_bitmap m) i)"
  by (auto simp: new_wdn_id_def find_None_iff and_exp_eq_0_iff_not_bit split: option.splits)

text \<open>A new peer: the first free node moves to the end of the table.\<close>

definition wdn_new :: "wdn_list \<Rightarrow> ptr \<Rightarrow> bytes \<Rightarrow> u8 \<Rightarrow> wdn_mem \<Rightarrow> wdn_mem" where
  "wdn_new wl p mac i m =
     (wf_list_insert_tail p (wl_head wl) (wf_list_delete p m))\<lparr>
        node_info := (node_info m)(p := wdn_zero\<lparr>wdn_mac := mac, wdn_id := i\<rparr>),
        wl_cnt := wl_cnt m + 1,
        wdn_id_bitmap := wdn_id_bitmap m OR push_bit (unat i) 1\<rparr>"

lemma wdn_add_cases:
  assumes inv: "wdn_inv wl m hs fs"
  shows "wf_wdn_add wl (Some mac) m =
    (case List.find (\<lambda>p. wdn_mac (node_info m p) = mac) hs of
       Some p \<Rightarrow> Some (m, Some p)
     | None \<Rightarrow> (case fs of
          [] \<Rightarrow> Some (m, None)
        | f # _ \<Rightarrow> (case new_wdn_id m of
            (_, _, None) \<Rightarrow> Some (m, None)
          | (_, _, Some i) \<Rightarrow> Some (wdn_new wl f mac i m, Some f))))"
proof -
  have d: "dll m (wl_free wl) fs" using inv by (simp add: wdn_inv_def)
  show ?thesis
  proof (cases fs)
    case Nil
    then show ?thesis
      using dll_is_empty_iff [OF d] wdn_find_hs [OF inv]
      by (simp add: wf_wdn_add_def split: option.splits)
  next
    case (Cons f fs')
    then have "\<not> wf_list_is_empty (wl_free wl) m" "pnext m (wl_free wl) = f"
      using dll_is_empty_iff [OF d] dll_next [OF d] by simp_all
    then show ?thesis
      using Cons wdn_find_hs [OF inv]
      by (auto simp: wf_wdn_add_def wdn_new_def Let_def split: option.splits prod.splits
          dest!: new_wdn_id_Some new_wdn_id_None)
  qed
qed

lemma wdn_new_sel:
  "node_info (wdn_new wl p mac i m) = (node_info m)(p := wdn_zero\<lparr>wdn_mac := mac, wdn_id := i\<rparr>)"
  "wl_cnt (wdn_new wl p mac i m) = wl_cnt m + 1"
  "wdn_id_bitmap (wdn_new wl p mac i m) = wdn_id_bitmap m OR 2 ^ unat i"
  "dll (wdn_new wl p mac i m) h xs = dll (wf_list_insert_tail p (wl_head wl) (wf_list_delete p m)) h xs"
  by (simp_all add: wdn_new_def)

lemma wdn_new_inv:
  assumes inv: "wdn_inv wl m hs (f # fs)" and new: "\<forall>p\<in>set hs. wdn_mac (node_info m p) \<noteq> mac"
    and i: "i < 32" "\<not> bit (wdn_id_bitmap m) (unat i)"
  shows "wdn_inv wl (wdn_new wl f mac i m) (hs @ [f]) fs"
proof -
  have d: "dll m (wl_free wl) ([] @ f # fs)" "dll m (wl_head wl) hs"
      "insert (wl_free wl) (set ([] @ f # fs)) \<inter> insert (wl_head wl) (set hs) = {}"
    using inv by (auto simp: wdn_inv_def)
  have f: "f \<notin> set hs" "f \<notin> set fs" "f \<noteq> wl_head wl" "f \<noteq> wl_free wl"
    using d by (auto simp: dll_def)
  have keep: "p \<in> set hs \<Longrightarrow> node_info (wdn_new wl f mac i m) p = node_info m p" for p
    using f by (auto simp: wdn_new_sel)
  have ids: "p \<in> set hs \<Longrightarrow> wdn_id (node_info m p) \<noteq> i" for p
    using inv i by (auto simp: wdn_inv_def)
  have lt: "unat i < 32" using i(1) by (simp add: word_less_nat_alt)
  have map_eq: "map (\<lambda>p. wdn_mac (if p = f then w else node_info m p)) hs = map (\<lambda>p. wdn_mac (node_info m p)) hs"
      "map (\<lambda>p. wdn_id (if p = f then w else node_info m p)) hs = map (\<lambda>p. wdn_id (node_info m p)) hs" for w
    using f by auto
  show ?thesis
    using dll_move_tail [OF d] inv f new ids lt i(1)
    unfolding wdn_inv_def by (auto simp: wdn_new_sel map_eq bit_or_exp image_iff)
qed

text \<open>A peer leaves: its node moves to the end of the free list and its id bit is cleared.\<close>

definition wdn_gone :: "wdn_list \<Rightarrow> ptr \<Rightarrow> wdn_mem \<Rightarrow> wdn_mem" where
  "wdn_gone wl p m =
     (wf_list_insert_tail p (wl_free wl) (wf_list_delete p m))\<lparr>
        wl_cnt := wl_cnt m - 1,
        wdn_id_bitmap := wdn_id_bitmap m AND NOT (push_bit (unat (wdn_id (node_info m p))) 1)\<rparr>"

lemma wdn_gone_sel:
  "node_info (wdn_gone wl p m) = node_info m"
  "wl_cnt (wdn_gone wl p m) = wl_cnt m - 1"
  "wdn_id_bitmap (wdn_gone wl p m) = wdn_id_bitmap m AND NOT (2 ^ unat (wdn_id (node_info m p)))"
  "dll (wdn_gone wl p m) h xs = dll (wf_list_insert_tail p (wl_free wl) (wf_list_delete p m)) h xs"
  by (simp_all add: wdn_gone_def)

lemma id_u16: "unat (ucast (i :: u8) :: u16) = unat i" "(ucast (i :: u8) :: u16) \<ge> 32 \<longleftrightarrow> \<not> i < 32"
  by (simp_all add: word_less_nat_alt word_le_nat_alt not_less unsigned_ucast_eq take_bit_nat_eq_self
      less_trans [OF unat_u8_less])

lemma wdn_remove_cases:
  assumes inv: "wdn_inv wl m hs fs"
  shows "wf_wdn_remove wl (Some mac) m =
    (case List.find (\<lambda>p. wdn_mac (node_info m p) = mac) hs of
       None \<Rightarrow> Some (m, -1) | Some p \<Rightarrow> Some (wdn_gone wl p m, 0))"
proof (cases "List.find (\<lambda>p. wdn_mac (node_info m p) = mac) hs")
  case None
  then show ?thesis using wdn_find_hs [OF inv] by (simp add: wf_wdn_remove_def)
next
  case (Some p)
  then have "wdn_id (node_info m p) < 32" using inv find_SomeD [OF Some] by (auto simp: wdn_inv_def)
  then show ?thesis
    using Some wdn_find_hs [OF inv]
    by (simp add: wf_wdn_remove_def Let_def free_wdn_id_def id_u16 wdn_gone_def)
qed

lemma wdn_gone_inv:
  assumes inv: "wdn_inv wl m (us @ p # vs) fs"
  shows "wdn_inv wl (wdn_gone wl p m) (us @ vs) (fs @ [p])"
proof -
  have d: "dll m (wl_head wl) (us @ p # vs)" "dll m (wl_free wl) fs"
      "insert (wl_head wl) (set (us @ p # vs)) \<inter> insert (wl_free wl) (set fs) = {}"
    using inv by (auto simp: wdn_inv_def)
  have p: "p \<notin> set us" "p \<notin> set vs" "p \<noteq> wl_head wl"
    using d(1) by (auto simp: dll_def)
  have "distinct (map (\<lambda>p. wdn_id (node_info m p)) (us @ p # vs))" using inv by (simp only: wdn_inv_def)
  then have "q \<in> set us \<union> set vs \<Longrightarrow> wdn_id (node_info m q) \<noteq> wdn_id (node_info m p)" for q
    by (auto simp: rev_image_eqI)
  then have ids: "q \<in> set us \<union> set vs \<Longrightarrow> unat (wdn_id (node_info m q)) \<noteq> unat (wdn_id (node_info m p))" for q
    by (metis word_unat_eq_iff)
  show ?thesis
    using dll_move_tail [OF d] inv p ids
    unfolding wdn_inv_def by (auto simp: wdn_gone_sel bit_and_not_exp)
qed

section \<open>The interface to the rest of the driver\<close>

locale peer_table =
  fixes ok :: "'s \<Rightarrow> bool"
    and lookup :: "bytes \<Rightarrow> 's \<Rightarrow> 'p option"
    and add :: "bytes \<Rightarrow> 's \<Rightarrow> 's \<times> 'p option"
    and remove :: "bytes \<Rightarrow> 's \<Rightarrow> 's"
  assumes add_ok: "ok s \<Longrightarrow> ok (fst (add k s))"
    and add_same: "ok s \<Longrightarrow> lookup k (fst (add k s)) = snd (add k s)"
    and add_known: "ok s \<Longrightarrow> lookup k s = Some p \<Longrightarrow> add k s = (s, Some p)"
    and add_other: "ok s \<Longrightarrow> k \<noteq> l \<Longrightarrow> lookup l (fst (add k s)) = lookup l s"
    and remove_ok: "ok s \<Longrightarrow> ok (remove k s)"
    and remove_same: "ok s \<Longrightarrow> lookup k (remove k s) = None"
    and remove_other: "ok s \<Longrightarrow> k \<noteq> l \<Longrightarrow> lookup l (remove k s) = lookup l s"
begin

text \<open>A run of additions (\<open>Inl\<close>) and removals (\<open>Inr\<close>).\<close>

abbreviation run :: "(bytes + bytes) list \<Rightarrow> 's \<Rightarrow> 's" where
  "run ops s \<equiv> fold (\<lambda>oper s. case oper of Inl k \<Rightarrow> fst (add k s) | Inr k \<Rightarrow> remove k s) ops s"

lemma run_ok: "ok s \<Longrightarrow> ok (run ops s)"
  by (induction ops arbitrary: s) (auto simp: add_ok remove_ok split: sum.splits)

lemma stays_found:
  "ok s \<Longrightarrow> lookup k s = Some p \<Longrightarrow> Inr k \<notin> set ops \<Longrightarrow> lookup k (run ops s) = Some p"
proof (induction ops arbitrary: s)
  case (Cons oper ops)
  show ?case
  proof (cases oper)
    case (Inl l)
    have "lookup k (fst (add l s)) = Some p"
      using Cons.prems by (cases "l = k") (simp_all add: add_known add_other)
    then show ?thesis using Cons Inl by (simp add: add_ok)
  next
    case (Inr l)
    then have "lookup k (remove l s) = Some p" using Cons.prems remove_other [of s l k] by auto
    then show ?thesis using Cons Inr by (simp add: remove_ok)
  qed
qed simp

lemma stays_absent:
  "ok s \<Longrightarrow> Inl k \<notin> set ops \<Longrightarrow> lookup k (run ops (remove k s)) = None"
proof -
  assume s: "ok s" and k: "Inl k \<notin> set ops"
  have "ok t \<Longrightarrow> lookup k t = None \<Longrightarrow> lookup k (run ops t) = None" for t
    using k
  proof (induction ops arbitrary: t)
    case (Cons oper ops)
    show ?case
    proof (cases oper)
      case (Inl l)
      then show ?thesis using Cons add_other [of t l k] by (auto simp: add_ok)
    next
      case (Inr l)
      have "lookup k (remove l t) = None"
        using Cons.prems by (cases "l = k") (simp_all add: remove_same remove_other)
      then show ?thesis using Cons Inr by (simp add: remove_ok)
    qed
  qed simp
  then show ?thesis using s by (simp add: remove_ok remove_same)
qed

end

definition wdn_ok :: "wdn_list \<Rightarrow> wdn_mem \<Rightarrow> bool" where
  "wdn_ok wl m \<longleftrightarrow> (\<exists>hs fs. wdn_inv wl m hs fs)"

definition wdn_lookup :: "wdn_list \<Rightarrow> bytes \<Rightarrow> wdn_mem \<Rightarrow> ptr option" where
  "wdn_lookup wl mac m = the (wf_wdn_find_info wl (Some mac) m)"

definition wdn_add :: "wdn_list \<Rightarrow> bytes \<Rightarrow> wdn_mem \<Rightarrow> wdn_mem \<times> ptr option" where
  "wdn_add wl mac m = the (wf_wdn_add wl (Some mac) m)"

definition wdn_remove :: "wdn_list \<Rightarrow> bytes \<Rightarrow> wdn_mem \<Rightarrow> wdn_mem" where
  "wdn_remove wl mac m = fst (the (wf_wdn_remove wl (Some mac) m))"

lemma wdn_lookup_hs:
  "wdn_inv wl m hs fs \<Longrightarrow> wdn_lookup wl mac m = List.find (\<lambda>p. wdn_mac (node_info m p) = mac) hs"
  by (simp add: wdn_lookup_def wdn_find_hs)

lemma find_cong_set: "(\<And>x. x \<in> set xs \<Longrightarrow> P x = Q x) \<Longrightarrow> List.find P xs = List.find Q xs"
  by (induction xs) auto

text \<open>The outcome of adding an address: it is known already, the table is full, the ids are
  used up, or a new node appears at the end of the table.\<close>

lemma wdn_add_effect:
  assumes inv: "wdn_inv wl m hs fs"
  obtains (known) p where "wf_wdn_add wl (Some mac) m = Some (m, Some p)" "wdn_lookup wl mac m = Some p"
  | (full) "wf_wdn_add wl (Some mac) m = Some (m, None)" "wdn_lookup wl mac m = None"
      "fs = [] \<or> (\<forall>i<32. bit (wdn_id_bitmap m) i)"
  | (new) f fs' i where "fs = f # fs'" "wdn_lookup wl mac m = None"
      "wf_wdn_add wl (Some mac) m = Some (wdn_new wl f mac i m, Some f)"
      "wdn_inv wl (wdn_new wl f mac i m) (hs @ [f]) fs'" "\<not> bit (wdn_id_bitmap m) (unat i)"
proof (cases "List.find (\<lambda>p. wdn_mac (node_info m p) = mac) hs")
  case (Some p)
  then show ?thesis using known wdn_add_cases [OF inv] wdn_lookup_hs [OF inv] by simp
next
  case None
  then have n: "wdn_lookup wl mac m = None" "\<forall>p\<in>set hs. wdn_mac (node_info m p) \<noteq> mac"
    using wdn_lookup_hs [OF inv] by (auto simp: find_None_all)
  show ?thesis
  proof (cases fs)
    case Nil
    then show ?thesis using full wdn_add_cases [OF inv] None n by simp
  next
    case (Cons f fs')
    obtain m' r io where id: "new_wdn_id m = (m', r, io)" by (cases "new_wdn_id m")
    show ?thesis
    proof (cases io)
      case None
      then show ?thesis
        using full wdn_add_cases [OF inv, of mac] Cons n id \<open>List.find _ hs = None\<close>
          new_wdn_id_None [of m m' r] by simp
    next
      case (Some i)
      then have "i < 32" "\<not> bit (wdn_id_bitmap m) (unat i)" using new_wdn_id_Some [of m m' r i] id by auto
      then show ?thesis
        using new wdn_add_cases [OF inv, of mac] Cons n id Some \<open>List.find _ hs = None\<close>
          wdn_new_inv [of wl m hs f fs' mac i] inv by simp
    qed
  qed
qed

lemma wdn_lookup_new:
  assumes inv: "wdn_inv wl m hs (f # fs)" and inv': "wdn_inv wl (wdn_new wl f mac i m) (hs @ [f]) fs"
    and none: "wdn_lookup wl mac m = None"
  shows "wdn_lookup wl mac (wdn_new wl f mac i m) = Some f"
    and "l \<noteq> mac \<Longrightarrow> wdn_lookup wl l (wdn_new wl f mac i m) = wdn_lookup wl l m"
proof -
  have f: "f \<notin> set hs" using inv by (auto simp: wdn_inv_def)
  have same: "List.find (\<lambda>p. wdn_mac (node_info (wdn_new wl f mac i m) p) = l) hs =
      List.find (\<lambda>p. wdn_mac (node_info m p) = l) hs" for l
    using f by (intro find_cong_set) (auto simp: wdn_new_sel)
  have "wdn_lookup wl l (wdn_new wl f mac i m) =
      (case wdn_lookup wl l m of None \<Rightarrow> if l = mac then Some f else None | Some q \<Rightarrow> Some q)" for l
    by (simp only: wdn_lookup_hs [OF inv] wdn_lookup_hs [OF inv'] find_append same)
      (auto simp: wdn_new_sel(1) split: option.splits)
  then show "wdn_lookup wl mac (wdn_new wl f mac i m) = Some f"
    "l \<noteq> mac \<Longrightarrow> wdn_lookup wl l (wdn_new wl f mac i m) = wdn_lookup wl l m"
    using none by (auto split: option.splits)
qed

lemma wdn_remove_effect:
  assumes inv: "wdn_inv wl m hs fs"
  obtains (absent) "wf_wdn_remove wl (Some mac) m = Some (m, -1)" "wdn_lookup wl mac m = None"
  | (gone) us p vs where "hs = us @ p # vs" "wdn_lookup wl mac m = Some p" "wdn_mac (node_info m p) = mac"
      "wf_wdn_remove wl (Some mac) m = Some (wdn_gone wl p m, 0)"
      "wdn_inv wl (wdn_gone wl p m) (us @ vs) (fs @ [p])"
proof (cases "List.find (\<lambda>p. wdn_mac (node_info m p) = mac) hs")
  case None
  then show ?thesis using absent wdn_remove_cases [OF inv] wdn_lookup_hs [OF inv] by simp
next
  case (Some p)
  then obtain us vs where hs: "hs = us @ p # vs" "wdn_mac (node_info m p) = mac"
    using find_Some_split [OF Some] by blast
  then show ?thesis
    using gone [OF hs(1)] wdn_remove_cases [OF inv, of mac] wdn_lookup_hs [OF inv, of mac] Some
      wdn_gone_inv [of wl m us p vs fs] inv by simp
qed

lemma wdn_lookup_gone:
  assumes inv: "wdn_inv wl m (us @ p # vs) fs" and inv': "wdn_inv wl (wdn_gone wl p m) (us @ vs) (fs @ [p])"
  shows "wdn_lookup wl (wdn_mac (node_info m p)) (wdn_gone wl p m) = None"
    and "l \<noteq> wdn_mac (node_info m p) \<Longrightarrow> wdn_lookup wl l (wdn_gone wl p m) = wdn_lookup wl l m"
proof -
  have "distinct (map (\<lambda>p. wdn_mac (node_info m p)) (us @ p # vs))" using inv by (simp only: wdn_inv_def)
  then have other: "\<forall>q\<in>set us \<union> set vs. wdn_mac (node_info m q) \<noteq> wdn_mac (node_info m p)"
    by (auto simp: rev_image_eqI)
  then show "wdn_lookup wl (wdn_mac (node_info m p)) (wdn_gone wl p m) = None"
    by (simp add: wdn_lookup_hs [OF inv'] wdn_gone_sel(1) find_None_all)
  show "l \<noteq> wdn_mac (node_info m p) \<Longrightarrow> wdn_lookup wl l (wdn_gone wl p m) = wdn_lookup wl l m"
    by (simp add: wdn_lookup_hs [OF inv] wdn_lookup_hs [OF inv'] wdn_gone_sel(1) find_append
        split: option.splits)
qed

lemma wdn_add_laws:
  assumes "wdn_ok wl m"
  shows "wdn_ok wl (fst (wdn_add wl k m))"
    and "wdn_lookup wl k (fst (wdn_add wl k m)) = snd (wdn_add wl k m)"
    and "k \<noteq> l \<Longrightarrow> wdn_lookup wl l (fst (wdn_add wl k m)) = wdn_lookup wl l m"
proof -
  obtain hs fs where inv: "wdn_inv wl m hs fs" using assms by (auto simp: wdn_ok_def)
  have "wdn_ok wl (fst (wdn_add wl k m)) \<and>
    wdn_lookup wl k (fst (wdn_add wl k m)) = snd (wdn_add wl k m) \<and>
    (k \<noteq> l \<longrightarrow> wdn_lookup wl l (fst (wdn_add wl k m)) = wdn_lookup wl l m)"
    using inv
  proof (cases rule: wdn_add_effect [where mac = k])
    case (new f fs' i)
    then show ?thesis
      using inv wdn_lookup_new [of wl m hs f fs' k i] by (auto simp: wdn_add_def wdn_ok_def)
  qed (use assms in \<open>auto simp: wdn_add_def\<close>)
  then show "wdn_ok wl (fst (wdn_add wl k m))"
    "wdn_lookup wl k (fst (wdn_add wl k m)) = snd (wdn_add wl k m)"
    "k \<noteq> l \<Longrightarrow> wdn_lookup wl l (fst (wdn_add wl k m)) = wdn_lookup wl l m" by blast+
qed

lemma wdn_add_known_law:
  assumes "wdn_ok wl m" "wdn_lookup wl k m = Some p"
  shows "wdn_add wl k m = (m, Some p)"
proof -
  obtain hs fs where inv: "wdn_inv wl m hs fs" using assms by (auto simp: wdn_ok_def)
  then show ?thesis
    using assms by (cases rule: wdn_add_effect [where mac = k]) (auto simp: wdn_add_def)
qed

lemma wdn_remove_laws:
  assumes "wdn_ok wl m"
  shows "wdn_ok wl (wdn_remove wl k m)"
    and "wdn_lookup wl k (wdn_remove wl k m) = None"
    and "k \<noteq> l \<Longrightarrow> wdn_lookup wl l (wdn_remove wl k m) = wdn_lookup wl l m"
proof -
  obtain hs fs where inv: "wdn_inv wl m hs fs" using assms by (auto simp: wdn_ok_def)
  have "wdn_ok wl (wdn_remove wl k m) \<and> wdn_lookup wl k (wdn_remove wl k m) = None \<and>
    (k \<noteq> l \<longrightarrow> wdn_lookup wl l (wdn_remove wl k m) = wdn_lookup wl l m)"
    using inv
  proof (cases rule: wdn_remove_effect [where mac = k])
    case (gone us p vs)
    then show ?thesis
      using inv wdn_lookup_gone [of wl m us p vs fs] by (auto simp: wdn_remove_def wdn_ok_def)
  qed (use assms in \<open>auto simp: wdn_remove_def\<close>)
  then show "wdn_ok wl (wdn_remove wl k m)" "wdn_lookup wl k (wdn_remove wl k m) = None"
    "k \<noteq> l \<Longrightarrow> wdn_lookup wl l (wdn_remove wl k m) = wdn_lookup wl l m" by blast+
qed

interpretation wdn: peer_table "wdn_ok wl" "wdn_lookup wl" "wdn_add wl" "wdn_remove wl" for wl
  by unfold_locales (simp_all add: wdn_add_laws wdn_add_known_law wdn_remove_laws)

section \<open>Setting up and tearing down\<close>

lemma wdn_init_nodes_inv:
  "dll m (wl_head wl) [] \<Longrightarrow> dll m (wl_free wl) fs \<Longrightarrow> distinct (wl_head wl # wl_free wl # fs @ ps) \<Longrightarrow>
   snd (wdn_init_nodes wl (length ps) (map Some ps) m) = 0 \<and>
   dll (fst (wdn_init_nodes wl (length ps) (map Some ps) m)) (wl_head wl) [] \<and>
   dll (fst (wdn_init_nodes wl (length ps) (map Some ps) m)) (wl_free wl) (fs @ ps) \<and>
   wl_cnt (fst (wdn_init_nodes wl (length ps) (map Some ps) m)) = wl_cnt m"
proof (induction ps arbitrary: m fs)
  case (Cons p ps)
  let ?m = "wf_list_insert_tail p (wl_free wl) (m\<lparr>node_info := (node_info m)(p := wdn_zero)\<rparr>)"
  have f: "dll (wf_list_insert_prev p (wl_free wl) m) (wl_free wl) (fs @ [p])"
    using dll_insert_prev [of m "wl_free wl" fs "[]" p] Cons.prems by simp
  have h: "dll (wf_list_insert_prev p (wl_free wl) m) (wl_head wl) []"
    using dll_insert_prev_frame [OF Cons.prems(2) _ Cons.prems(1), of "wl_free wl" p] Cons.prems(3) by auto
  have "dll ?m (wl_free wl) (fs @ [p])" "dll ?m (wl_head wl) []"
    using f h unfolding wf_list_insert_tail_def [symmetric] by (simp_all only: wdn_list_ops dll_more)
  moreover have "wl_cnt ?m = wl_cnt m" by simp
  ultimately show ?case using Cons.IH [of ?m "fs @ [p]"] Cons.prems(3) by simp
qed simp

lemma wf_wdn_init_inv:
  assumes "distinct (wl_head wl # wl_free wl # ps)" "length ps = WDN_NUM_MAX"
  shows "snd (wf_wdn_init (Some wl) (map Some ps) m) = 0 \<and>
    wdn_inv wl (fst (wf_wdn_init (Some wl) (map Some ps) m)) [] ps"
proof -
  let ?m = "(wf_list_init (wl_free wl) (wf_list_init (wl_head wl) m))\<lparr>wl_cnt := 0\<rparr>"
  have "dll ?m (wl_head wl) []" "dll ?m (wl_free wl) []"
    using assms(1) by (simp_all add: wf_list_init_def)
  from wdn_init_nodes_inv [OF this, of ps] show ?thesis
    using assms by (auto simp: wf_wdn_init_def wdn_inv_def)
qed

lemma wdn_term_loop_all:
  "dll m head hs \<Longrightarrow>
   \<exists>m'. wdn_term_loop head (pnext m head) m = Some (m', hs) \<and>
     (\<forall>h2 ys. dll m h2 ys \<longrightarrow> insert head (set hs) \<inter> insert h2 (set ys) = {} \<longrightarrow> dll m' h2 ys)"
proof (induction hs arbitrary: m)
  case Nil
  then show ?case by (simp add: wdn_term_loop.simps)
next
  case (Cons x xs)
  let ?m = "wf_list_delete x m"
  have d: "dll ?m head xs" using dll_delete [of m head "[]" x xs] Cons.prems by simp
  have d2: "dll ?m h2 ys" if "dll m h2 ys" "insert head (set (x # xs)) \<inter> insert h2 (set ys) = {}" for h2 ys
    using dll_delete_frame [OF Cons.prems _ that] by simp
  have "pnext m head = x" "x \<noteq> head" "pnext m x = pnext ?m head"
    using dll_next [OF Cons.prems] dll_next_node [of m head "[]" x xs] dll_next [OF d] Cons.prems
    by (auto simp: dll_def)
  moreover obtain m' where m': "wdn_term_loop head (pnext ?m head) ?m = Some (m', xs)"
      "\<forall>h2 ys. dll ?m h2 ys \<longrightarrow> insert head (set xs) \<inter> insert h2 (set ys) = {} \<longrightarrow> dll m' h2 ys"
    using Cons.IH [OF d] by auto
  ultimately have "wdn_term_loop head (pnext m head) m = Some (m', x # xs)"
    by (subst wdn_term_loop.simps) simp
  moreover have "dll m' h2 ys" if "dll m h2 ys" "insert head (set (x # xs)) \<inter> insert h2 (set ys) = {}" for h2 ys
    using m'(2) d2 [OF that] that(2) by auto
  ultimately show ?case by blast
qed

section \<open>Properties\<close>

text \<open>One call of the interface that changes the table: \<open>Inl mac\<close> adds, \<open>Inr mac\<close> removes.\<close>

definition wdn_step :: "wdn_list \<Rightarrow> bytes + bytes \<Rightarrow> wdn_mem \<Rightarrow> wdn_mem" where
  "wdn_step wl oper m =
     (case oper of Inl mac \<Rightarrow> fst (the (wf_wdn_add wl (Some mac) m))
      | Inr mac \<Rightarrow> fst (the (wf_wdn_remove wl (Some mac) m)))"

lemma wdn_step_run:
  "fold (wdn_step wl) ops m =
     fold (\<lambda>oper m. case oper of Inl k \<Rightarrow> fst (wdn_add wl k m) | Inr k \<Rightarrow> wdn_remove wl k m) ops m"
proof -
  have "wdn_step wl = (\<lambda>oper m. case oper of Inl k \<Rightarrow> fst (wdn_add wl k m) | Inr k \<Rightarrow> wdn_remove wl k m)"
    by (auto simp: fun_eq_iff wdn_step_def wdn_add_def wdn_remove_def split: sum.splits)
  then show ?thesis by simp
qed

text \<open>A table with five free nodes, for the witnesses.\<close>

definition wl_ex :: wdn_list where "wl_ex = \<lparr>wl_head = 1, wl_free = 2\<rparr>"

definition wdn_mem_ex :: wdn_mem where
  "wdn_mem_ex = fst (wf_wdn_init (Some wl_ex) (map Some [3, 4, 5, 6, 7])
     \<lparr>pnext = id, prev = id, node_info = \<lambda>_. wdn_zero, wl_cnt = 0, wdn_id_bitmap = 0\<rparr>)"

lemma wdn_ex_inv: "wdn_inv wl_ex wdn_mem_ex [] [3, 4, 5, 6, 7]"
  unfolding wdn_mem_ex_def using wf_wdn_init_inv [of wl_ex "[3, 4, 5, 6, 7]"] by (simp add: wl_ex_def)

lemma wdn_init_nodes_bitmap:
  "wdn_id_bitmap (fst (wdn_init_nodes wl n allocs m)) = wdn_id_bitmap m"
  by (induction wl n allocs m rule: wdn_init_nodes.induct) simp_all

lemma wdn_ex_add:
  "\<exists>m i. wf_wdn_add wl_ex (Some mac) wdn_mem_ex = Some (m, Some 3) \<and> wdn_inv wl_ex m [3] [4, 5, 6, 7] \<and>
     node_info m 3 = wdn_zero\<lparr>wdn_mac := mac, wdn_id := i\<rparr>"
proof -
  have b: "\<not> bit (wdn_id_bitmap wdn_mem_ex) 0"
    by (simp add: wdn_mem_ex_def wf_wdn_init_def wdn_init_nodes_bitmap wf_list_init_def)
  show ?thesis
    using wdn_ex_inv
  proof (cases rule: wdn_add_effect [where mac = mac])
    case (known p)
    then show ?thesis using wdn_lookup_hs [OF wdn_ex_inv, of mac] by simp
  next
    case full
    then show ?thesis using b by auto
  next
    case (new f fs' i)
    then show ?thesis by (auto simp: wdn_new_sel(1))
  qed
qed

text \<open>(C15) After \<open>wf_wdn_init\<close> and any sequence of \<open>wf_wdn_add\<close> and \<open>wf_wdn_remove\<close> the table
  and the free list are disjoint well-formed lists of the five nodes, no two peers share an
  address or an id, every id in use is marked in the bitmap, and \<open>wf_wdn_get_cnt\<close> is the number
  of peers.\<close>

theorem wdn_reachable_inv:
  assumes "distinct (wl_head wl # wl_free wl # ps)" "length ps = WDN_NUM_MAX"
  shows "\<exists>hs fs. wdn_inv wl (fold (wdn_step wl) ops (fst (wf_wdn_init (Some wl) (map Some ps) m))) hs fs \<and>
    wf_wdn_get_cnt (Some wl) (fold (wdn_step wl) ops (fst (wf_wdn_init (Some wl) (map Some ps) m))) =
      of_nat (length hs)"
proof -
  have "wdn_ok wl (fst (wf_wdn_init (Some wl) (map Some ps) m))"
    using wf_wdn_init_inv [OF assms] by (auto simp: wdn_ok_def)
  then have "wdn_ok wl (fold (wdn_step wl) ops (fst (wf_wdn_init (Some wl) (map Some ps) m)))"
    unfolding wdn_step_run by (rule wdn.run_ok)
  then show ?thesis by (auto simp: wdn_ok_def wf_wdn_get_cnt_def wdn_inv_def)
qed

lemma wdn_reachable_inv_witness:
  "\<exists>hs fs. wdn_inv wl_ex (fold (wdn_step wl_ex) [Inl [1, 2, 3, 4, 5, 6], Inr [1, 2, 3, 4, 5, 6]] wdn_mem_ex) hs fs"
proof -
  have "distinct (wl_head wl_ex # wl_free wl_ex # [3, 4, 5, 6, 7])" "length [3, 4, 5, 6, 7 :: ptr] = WDN_NUM_MAX"
    by (simp_all add: wl_ex_def)
  from wdn_reachable_inv [OF this] show ?thesis unfolding wdn_mem_ex_def by blast
qed

text \<open>(C24) A peer for which \<open>wf_wdn_add\<close> returned a node is found under its address, at that
  node, after any further calls that do not remove it.\<close>

theorem wdn_peer_stays:
  assumes "wdn_inv wl m hs fs" "wf_wdn_add wl (Some mac) m = Some (m1, Some p)" "Inr mac \<notin> set ops"
  shows "wf_wdn_find_info wl (Some mac) (fold (wdn_step wl) ops m1) = Some (Some p)"
proof -
  have ok: "wdn_ok wl m" using assms(1) by (auto simp: wdn_ok_def)
  have m1: "wdn_add wl mac m = (m1, Some p)" using assms(2) by (simp add: wdn_add_def)
  have "wdn_ok wl m1" "wdn_lookup wl mac m1 = Some p"
    using wdn.add_ok [OF ok, of mac] wdn.add_same [OF ok, of mac] m1 by simp_all
  then have "wdn_lookup wl mac (fold (wdn_step wl) ops m1) = Some p" "wdn_ok wl (fold (wdn_step wl) ops m1)"
    unfolding wdn_step_run using wdn.stays_found wdn.run_ok assms(3) by blast+
  then show ?thesis
    using wdn_find_hs wdn_lookup_hs by (metis wdn_ok_def)
qed

lemma wdn_peer_stays_witness:
  "\<exists>m1. wf_wdn_add wl_ex (Some [1, 2, 3, 4, 5, 6]) wdn_mem_ex = Some (m1, Some 3) \<and>
     wf_wdn_find_info wl_ex (Some [1, 2, 3, 4, 5, 6])
       (fold (wdn_step wl_ex) [Inl [9, 9, 9, 9, 9, 9], Inr [8, 8, 8, 8, 8, 8]] m1) = Some (Some 3)"
proof -
  obtain m1 where m1: "wf_wdn_add wl_ex (Some [1, 2, 3, 4, 5, 6]) wdn_mem_ex = Some (m1, Some 3)"
    using wdn_ex_add by blast
  then show ?thesis
    using wdn_peer_stays [OF wdn_ex_inv m1, of "[Inl [9, 9, 9, 9, 9, 9], Inr [8, 8, 8, 8, 8, 8]]"] by simp
qed

text \<open>\<open>wf_wdn_add\<close> returns on every well-formed table. A known address gives its node and
  changes nothing. Otherwise NULL is returned and nothing changes exactly when no node is free
  or all 32 ids are taken; else the first free node becomes the last peer, zeroed but for the
  address and an id that was not in use.\<close>

theorem wf_wdn_add_result:
  assumes "wdn_inv wl m hs fs"
  shows "(\<exists>p\<in>set hs. wdn_mac (node_info m p) = mac \<and> wf_wdn_add wl (Some mac) m = Some (m, Some p)) \<or>
    (\<forall>p\<in>set hs. wdn_mac (node_info m p) \<noteq> mac) \<and>
      ((fs = [] \<or> (\<forall>i<32. bit (wdn_id_bitmap m) i)) \<and> wf_wdn_add wl (Some mac) m = Some (m, None) \<or>
       (\<exists>f fs' i m'. fs = f # fs' \<and> wf_wdn_add wl (Some mac) m = Some (m', Some f) \<and>
          wdn_inv wl m' (hs @ [f]) fs' \<and> node_info m' f = wdn_zero\<lparr>wdn_mac := mac, wdn_id := i\<rparr> \<and>
          \<not> bit (wdn_id_bitmap m) (unat i) \<and> (\<forall>p\<in>set hs. node_info m' p = node_info m p)))"
  using assms
proof (cases rule: wdn_add_effect [where mac = mac])
  case (known p)
  then show ?thesis using wdn_lookup_hs [OF assms] by (auto dest!: find_SomeD)
next
  case full
  then show ?thesis using wdn_lookup_hs [OF assms] by (auto simp: find_None_all)
next
  case (new f fs' i)
  have "f \<notin> set hs" using assms new(1) by (auto simp: wdn_inv_def)
  then have keep: "\<forall>p\<in>set hs. node_info (wdn_new wl f mac i m) p = node_info m p"
    by (auto simp: wdn_new_sel)
  show ?thesis
    using new keep wdn_lookup_hs [OF assms, of mac] by (auto simp: find_None_all wdn_new_sel(1))
qed

lemma wf_wdn_add_result_witness:
  "\<exists>m'. wf_wdn_add wl_ex (Some [1, 2, 3, 4, 5, 6]) wdn_mem_ex = Some (m', Some 3) \<and>
     wdn_inv wl_ex m' [3] [4, 5, 6, 7]"
proof -
  have "wf_wdn_add wl_ex (Some [1, 2, 3, 4, 5, 6]) wdn_mem_ex \<noteq> Some (wdn_mem_ex, None)"
    using wdn_ex_add [of "[1, 2, 3, 4, 5, 6]"] by auto
  then show ?thesis
    using wf_wdn_add_result [OF wdn_ex_inv, of "[1, 2, 3, 4, 5, 6]"] by auto
qed

text \<open>Removing a known address returns 0, unlinks the peer and clears its id bit; the address
  is not found afterwards, and every other lookup is unchanged. An unknown address gives -1
  and changes nothing.\<close>

theorem wf_wdn_remove_result:
  assumes "wdn_inv wl m hs fs"
  shows "(case wf_wdn_find_info wl (Some mac) m of
      Some (Some p) \<Rightarrow> (\<exists>m'. wf_wdn_remove wl (Some mac) m = Some (m', 0) \<and>
        wf_wdn_find_info wl (Some mac) m' = Some None \<and>
        \<not> bit (wdn_id_bitmap m') (unat (wdn_id (node_info m p))) \<and>
        wf_wdn_get_cnt (Some wl) m' = wf_wdn_get_cnt (Some wl) m - 1 \<and>
        (l \<noteq> mac \<longrightarrow> wf_wdn_find_info wl (Some l) m' = wf_wdn_find_info wl (Some l) m))
    | r \<Rightarrow> r = Some None \<and> wf_wdn_remove wl (Some mac) m = Some (m, -1))"
  using assms
proof (cases rule: wdn_remove_effect [where mac = mac])
  case absent
  then show ?thesis using wdn_find_hs [OF assms, of mac] by (simp add: wdn_lookup_def)
next
  case (gone us p vs)
  note look = wdn_lookup_gone [OF assms [unfolded gone(1)] gone(5)]
  have "wf_wdn_find_info wl (Some mac) m = Some (Some p)"
    using gone wdn_find_hs [OF assms, of mac] by (simp add: wdn_lookup_def)
  moreover have "wf_wdn_find_info wl (Some mac) (wdn_gone wl p m) = Some None"
    using look(1) gone(3) wdn_find_hs [OF gone(5), of mac] by (simp add: wdn_lookup_def)
  moreover have "l \<noteq> mac \<longrightarrow> wf_wdn_find_info wl (Some l) (wdn_gone wl p m) = wf_wdn_find_info wl (Some l) m"
    using look(2) [of l] gone(3) wdn_find_hs [OF gone(5), of l] wdn_find_hs [OF assms, of l]
    by (simp add: wdn_lookup_def)
  ultimately show ?thesis
    using gone(4) by (simp add: wdn_gone_sel wf_wdn_get_cnt_def bit_and_not_exp)
qed

lemma wf_wdn_remove_result_witness:
  "\<exists>m m'. wf_wdn_find_info wl_ex (Some [1, 2, 3, 4, 5, 6]) m = Some (Some 3) \<and>
     wf_wdn_remove wl_ex (Some [1, 2, 3, 4, 5, 6]) m = Some (m', 0) \<and>
     wf_wdn_find_info wl_ex (Some [1, 2, 3, 4, 5, 6]) m' = Some None"
proof -
  obtain m i where m: "wdn_inv wl_ex m [3] [4, 5, 6, 7]"
      "node_info m 3 = wdn_zero\<lparr>wdn_mac := [1, 2, 3, 4, 5, 6], wdn_id := i\<rparr>"
    using wdn_ex_add by blast
  then have "wf_wdn_find_info wl_ex (Some [1, 2, 3, 4, 5, 6]) m = Some (Some 3)"
    by (simp add: wdn_find_hs)
  then show ?thesis
    using wf_wdn_remove_result [OF m(1), of "[1, 2, 3, 4, 5, 6]" "[]"] by - (rule exI [of _ m], auto)
qed

text \<open>\<open>wf_wdn_term\<close> terminates on a well-formed table and frees every node exactly once.\<close>

theorem wf_wdn_term_frees_all:
  assumes "wdn_inv wl m hs fs"
  shows "\<exists>m'. wf_wdn_term (Some wl) m = Some (m', hs @ fs, 0) \<and> distinct (hs @ fs)"
proof -
  have d: "dll m (wl_head wl) hs" "dll m (wl_free wl) fs"
      "insert (wl_head wl) (set hs) \<inter> insert (wl_free wl) (set fs) = {}"
    using assms by (simp_all add: wdn_inv_def)
  obtain m1 where m1: "wdn_term_loop (wl_head wl) (pnext m (wl_head wl)) m = Some (m1, hs)"
      "dll m1 (wl_free wl) fs"
    using wdn_term_loop_all [OF d(1)] d(2,3) by blast
  obtain m2 where "wdn_term_loop (wl_free wl) (pnext m1 (wl_free wl)) m1 = Some (m2, fs)"
    using wdn_term_loop_all [OF m1(2)] by blast
  with m1 d show ?thesis by (auto simp: wf_wdn_term_def dll_def)
qed

lemma wf_wdn_term_frees_all_witness:
  "\<exists>m'. wf_wdn_term (Some wl_ex) wdn_mem_ex = Some (m', [3, 4, 5, 6, 7], 0)"
  using wf_wdn_term_frees_all [OF wdn_ex_inv] by auto

text \<open>The basic rate configuration computed from a rate set: bit \<open>n\<close> is set exactly when it
  was set before or some rate of the set is marked basic and is the rate of bit \<open>n\<close>.\<close>

theorem get_bratecfg_bits:
  "bit (get_bratecfg_by_support_dates ds cfg) n \<longleftrightarrow>
     bit cfg n \<or> (\<exists>d\<in>set ds. d AND 0x80 \<noteq> 0 \<and> brate_bit (d AND 0x7f) = Some n)"
proof (induction ds arbitrary: cfg)
  case (Cons d ds)
  have lt: "brate_bit r = Some n \<Longrightarrow> n < 16" for r n
    by (auto simp: brate_bit_def split: if_splits)
  show ?case
  proof (cases "brate_bit (d AND 0x7f)")
    case None
    then show ?thesis using Cons.IH by simp
  next
    case (Some k)
    then have "bit (cfg OR 2 ^ k) n \<longleftrightarrow> bit cfg n \<or> n = k"
      using lt [OF Some] by (auto simp: bit_simps)
    then show ?thesis using Cons.IH Some by auto
  qed
qed simp

end
