(* ===== verification/Sec_Tkip.thy ===== *)
theory Sec_Tkip
  imports Sec_Wep Wdn
begin

text \<open>
  \<open>src/trunk_driver/nic/sec_tkip.c\<close>: the two phases of TKIP key mixing and the encryption and
  decryption of TKIP data frames. The key mixing is proved to be what its comments claim: for
  one temporal key, no two triples of transmitter address, upper and lower packet number give
  the same RC4 key. The frame functions are proved to invert each other.
\<close>

section \<open>Key mixing\<close>

definition Sbox1_0 :: "u16 list" where
  "Sbox1_0 = [
    0xC6A5, 0xF884, 0xEE99, 0xF68D, 0xFF0D, 0xD6BD, 0xDEB1, 0x9154,
    0x6050, 0x0203, 0xCEA9, 0x567D, 0xE719, 0xB562, 0x4DE6, 0xEC9A,
    0x8F45, 0x1F9D, 0x8940, 0xFA87, 0xEF15, 0xB2EB, 0x8EC9, 0xFB0B,
    0x41EC, 0xB367, 0x5FFD, 0x45EA, 0x23BF, 0x53F7, 0xE496, 0x9B5B,
    0x75C2, 0xE11C, 0x3DAE, 0x4C6A, 0x6C5A, 0x7E41, 0xF502, 0x834F,
    0x685C, 0x51F4, 0xD134, 0xF908, 0xE293, 0xAB73, 0x6253, 0x2A3F,
    0x080C, 0x9552, 0x4665, 0x9D5E, 0x3028, 0x37A1, 0x0A0F, 0x2FB5,
    0x0E09, 0x2436, 0x1B9B, 0xDF3D, 0xCD26, 0x4E69, 0x7FCD, 0xEA9F,
    0x121B, 0x1D9E, 0x5874, 0x342E, 0x362D, 0xDCB2, 0xB4EE, 0x5BFB,
    0xA4F6, 0x764D, 0xB761, 0x7DCE, 0x527B, 0xDD3E, 0x5E71, 0x1397,
    0xA6F5, 0xB968, 0x0000, 0xC12C, 0x4060, 0xE31F, 0x79C8, 0xB6ED,
    0xD4BE, 0x8D46, 0x67D9, 0x724B, 0x94DE, 0x98D4, 0xB0E8, 0x854A,
    0xBB6B, 0xC52A, 0x4FE5, 0xED16, 0x86C5, 0x9AD7, 0x6655, 0x1194,
    0x8ACF, 0xE910, 0x0406, 0xFE81, 0xA0F0, 0x7844, 0x25BA, 0x4BE3,
    0xA2F3, 0x5DFE, 0x80C0, 0x058A, 0x3FAD, 0x21BC, 0x7048, 0xF104,
    0x63DF, 0x77C1, 0xAF75, 0x4263, 0x2030, 0xE51A, 0xFD0E, 0xBF6D,
    0x814C, 0x1814, 0x2635, 0xC32F, 0xBEE1, 0x35A2, 0x88CC, 0x2E39,
    0x9357, 0x55F2, 0xFC82, 0x7A47, 0xC8AC, 0xBAE7, 0x322B, 0xE695,
    0xC0A0, 0x1998, 0x9ED1, 0xA37F, 0x4466, 0x547E, 0x3BAB, 0x0B83,
    0x8CCA, 0xC729, 0x6BD3, 0x283C, 0xA779, 0xBCE2, 0x161D, 0xAD76,
    0xDB3B, 0x6456, 0x744E, 0x141E, 0x92DB, 0x0C0A, 0x486C, 0xB8E4,
    0x9F5D, 0xBD6E, 0x43EF, 0xC4A6, 0x39A8, 0x31A4, 0xD337, 0xF28B,
    0xD532, 0x8B43, 0x6E59, 0xDAB7, 0x018C, 0xB164, 0x9CD2, 0x49E0,
    0xD8B4, 0xACFA, 0xF307, 0xCF25, 0xCAAF, 0xF48E, 0x47E9, 0x1018,
    0x6FD5, 0xF088, 0x4A6F, 0x5C72, 0x3824, 0x57F1, 0x73C7, 0x9751,
    0xCB23, 0xA17C, 0xE89C, 0x3E21, 0x96DD, 0x61DC, 0x0D86, 0x0F85,
    0xE090, 0x7C42, 0x71C4, 0xCCAA, 0x90D8, 0x0605, 0xF701, 0x1C12,
    0xC2A3, 0x6A5F, 0xAEF9, 0x69D0, 0x1791, 0x9958, 0x3A27, 0x27B9,
    0xD938, 0xEB13, 0x2BB3, 0x2233, 0xD2BB, 0xA970, 0x0789, 0x33A7,
    0x2DB6, 0x3C22, 0x1592, 0xC920, 0x8749, 0xAAFF, 0x5078, 0xA57A,
    0x038F, 0x59F8, 0x0980, 0x1A17, 0x65DA, 0xD731, 0x84C6, 0xD0B8,
    0x82C3, 0x29B0, 0x5A77, 0x1E11, 0x7BCB, 0xA8FC, 0x6DD6, 0x2C3A]"

definition Sbox1_1 :: "u16 list" where
  "Sbox1_1 = [
    0xA5C6, 0x84F8, 0x99EE, 0x8DF6, 0x0DFF, 0xBDD6, 0xB1DE, 0x5491,
    0x5060, 0x0302, 0xA9CE, 0x7D56, 0x19E7, 0x62B5, 0xE64D, 0x9AEC,
    0x458F, 0x9D1F, 0x4089, 0x87FA, 0x15EF, 0xEBB2, 0xC98E, 0x0BFB,
    0xEC41, 0x67B3, 0xFD5F, 0xEA45, 0xBF23, 0xF753, 0x96E4, 0x5B9B,
    0xC275, 0x1CE1, 0xAE3D, 0x6A4C, 0x5A6C, 0x417E, 0x02F5, 0x4F83,
    0x5C68, 0xF451, 0x34D1, 0x08F9, 0x93E2, 0x73AB, 0x5362, 0x3F2A,
    0x0C08, 0x5295, 0x6546, 0x5E9D, 0x2830, 0xA137, 0x0F0A, 0xB52F,
    0x090E, 0x3624, 0x9B1B, 0x3DDF, 0x26CD, 0x694E, 0xCD7F, 0x9FEA,
    0x1B12, 0x9E1D, 0x7458, 0x2E34, 0x2D36, 0xB2DC, 0xEEB4, 0xFB5B,
    0xF6A4, 0x4D76, 0x61B7, 0xCE7D, 0x7B52, 0x3EDD, 0x715E, 0x9713,
    0xF5A6, 0x68B9, 0x0000, 0x2CC1, 0x6040, 0x1FE3, 0xC879, 0xEDB6,
    0xBED4, 0x468D, 0xD967, 0x4B72, 0xDE94, 0xD498, 0xE8B0, 0x4A85,
    0x6BBB, 0x2AC5, 0xE54F, 0x16ED, 0xC586, 0xD79A, 0x5566, 0x9411,
    0xCF8A, 0x10E9, 0x0604, 0x81FE, 0xF0A0, 0x4478, 0xBA25, 0xE34B,
    0xF3A2, 0xFE5D, 0xC080, 0x8A05, 0xAD3F, 0xBC21, 0x4870, 0x04F1,
    0xDF63, 0xC177, 0x75AF, 0x6342, 0x3020, 0x1AE5, 0x0EFD, 0x6DBF,
    0x4C81, 0x1418, 0x3526, 0x2FC3, 0xE1BE, 0xA235, 0xCC88, 0x392E,
    0x5793, 0xF255, 0x82FC, 0x477A, 0xACC8, 0xE7BA, 0x2B32, 0x95E6,
    0xA0C0, 0x9819, 0xD19E, 0x7FA3, 0x6644, 0x7E54, 0xAB3B, 0x830B,
    0xCA8C, 0x29C7, 0xD36B, 0x3C28, 0x79A7, 0xE2BC, 0x1D16, 0x76AD,
    0x3BDB, 0x5664, 0x4E74, 0x1E14, 0xDB92, 0x0A0C, 0x6C48, 0xE4B8,
    0x5D9F, 0x6EBD, 0xEF43, 0xA6C4, 0xA839, 0xA431, 0x37D3, 0x8BF2,
    0x32D5, 0x438B, 0x596E, 0xB7DA, 0x8C01, 0x64B1, 0xD29C, 0xE049,
    0xB4D8, 0xFAAC, 0x07F3, 0x25CF, 0xAFCA, 0x8EF4, 0xE947, 0x1810,
    0xD56F, 0x88F0, 0x6F4A, 0x725C, 0x2438, 0xF157, 0xC773, 0x5197,
    0x23CB, 0x7CA1, 0x9CE8, 0x213E, 0xDD96, 0xDC61, 0x860D, 0x850F,
    0x90E0, 0x427C, 0xC471, 0xAACC, 0xD890, 0x0506, 0x01F7, 0x121C,
    0xA3C2, 0x5F6A, 0xF9AE, 0xD069, 0x9117, 0x5899, 0x273A, 0xB927,
    0x38D9, 0x13EB, 0xB32B, 0x3322, 0xBBD2, 0x70A9, 0x8907, 0xA733,
    0xB62D, 0x223C, 0x9215, 0x20C9, 0x4987, 0xFFAA, 0x7850, 0x7AA5,
    0x8F03, 0xF859, 0x8009, 0x171A, 0xDA65, 0x31D7, 0xC684, 0xB8D0,
    0xC382, 0xB029, 0x775A, 0x111E, 0xCB7B, 0xFCA8, 0xD66D, 0x3A2C]"

definition RotR1 :: "u16 \<Rightarrow> u16" where
  "RotR1 v = (drop_bit 1 v AND 0x7FFF) XOR push_bit 15 (v AND 1)"

definition Lo8 :: "u16 \<Rightarrow> u8" where
  "Lo8 v = ucast (v AND 0x00FF)"

definition Hi8 :: "u16 \<Rightarrow> u8" where
  "Hi8 v = ucast (drop_bit 8 v AND 0x00FF)"

definition Lo16 :: "u32 \<Rightarrow> u16" where
  "Lo16 v = ucast (v AND 0xFFFF)"

definition Hi16 :: "u32 \<Rightarrow> u16" where
  "Hi16 v = ucast (drop_bit 16 v AND 0xFFFF)"

definition Mk16 :: "u8 \<Rightarrow> u8 \<Rightarrow> u16" where
  "Mk16 hi lo = ucast lo XOR push_bit 8 (ucast hi)"

definition TK16 :: "bytes \<Rightarrow> nat \<Rightarrow> u16" where
  "TK16 tk n = Mk16 (tk ! (2 * n + 1)) (tk ! (2 * n))"

text \<open>The macro \<open>_S_\<close>.\<close>

definition S_box :: "u16 \<Rightarrow> u16" where
  "S_box v = Sbox1_0 ! unat (Lo8 v) XOR Sbox1_1 ! unat (Hi8 v)"

text \<open>The statement \<open>p[i] += f (p[j])\<close>.\<close>

definition mix :: "nat \<Rightarrow> nat \<Rightarrow> (u16 \<Rightarrow> u16) \<Rightarrow> u16 list \<Rightarrow> u16 list" where
  "mix i j f p = p[i := p ! i + f (p ! j)]"

definition phase1_round :: "bytes \<Rightarrow> nat \<Rightarrow> u16 list \<Rightarrow> u16 list" where
  "phase1_round tk i p =
     (let p = mix 0 4 (\<lambda>v. S_box (v XOR TK16 tk (i mod 2 + 0))) p;
          p = mix 1 0 (\<lambda>v. S_box (v XOR TK16 tk (i mod 2 + 2))) p;
          p = mix 2 1 (\<lambda>v. S_box (v XOR TK16 tk (i mod 2 + 4))) p;
          p = mix 3 2 (\<lambda>v. S_box (v XOR TK16 tk (i mod 2 + 6))) p;
          p = mix 4 3 (\<lambda>v. S_box (v XOR TK16 tk (i mod 2 + 0))) p
      in mix 4 3 (\<lambda>_. of_nat i) p)"

definition phase1 :: "bytes \<Rightarrow> bytes \<Rightarrow> u32 \<Rightarrow> u16 list" where
  "phase1 tk ta iv32 =
     fold (phase1_round tk) [0..<8]
       [Lo16 iv32, Hi16 iv32, Mk16 (ta ! 1) (ta ! 0), Mk16 (ta ! 3) (ta ! 2), Mk16 (ta ! 5) (ta ! 4)]"

definition phase2_ppk :: "bytes \<Rightarrow> u16 list \<Rightarrow> u16 \<Rightarrow> u16 list" where
  "phase2_ppk tk p1k iv16 =
     (let p = [p1k ! 0, p1k ! 1, p1k ! 2, p1k ! 3, p1k ! 4, p1k ! 4 + iv16];
          p = mix 0 5 (\<lambda>v. S_box (v XOR TK16 tk 0)) p;
          p = mix 1 0 (\<lambda>v. S_box (v XOR TK16 tk 1)) p;
          p = mix 2 1 (\<lambda>v. S_box (v XOR TK16 tk 2)) p;
          p = mix 3 2 (\<lambda>v. S_box (v XOR TK16 tk 3)) p;
          p = mix 4 3 (\<lambda>v. S_box (v XOR TK16 tk 4)) p;
          p = mix 5 4 (\<lambda>v. S_box (v XOR TK16 tk 5)) p;
          p = mix 0 5 (\<lambda>v. RotR1 (v XOR TK16 tk 6)) p;
          p = mix 1 0 (\<lambda>v. RotR1 (v XOR TK16 tk 7)) p;
          p = mix 2 1 RotR1 p;
          p = mix 3 2 RotR1 p;
          p = mix 4 3 RotR1 p
      in mix 5 4 RotR1 p)"

definition phase2 :: "bytes \<Rightarrow> u16 list \<Rightarrow> u16 \<Rightarrow> bytes" where
  "phase2 tk p1k iv16 =
     (let ppk = phase2_ppk tk p1k iv16 in
      [Hi8 iv16, (Hi8 iv16 OR 0x20) AND 0x7F, Lo8 iv16, Lo8 (drop_bit 1 (ppk ! 5 XOR TK16 tk 0))] @
      concat (map (\<lambda>i. [Lo8 (ppk ! i), Hi8 (ppk ! i)]) [0..<6]))"

section \<open>The key mixing is injective\<close>

lemma mix_length [simp]: "length (mix i j f p) = length p"
  by (simp add: mix_def)

lemma mix_inj:
  assumes "mix i j f p = mix i j f q" "length p = length q" "i < length p" "j < length p" "i \<noteq> j"
  shows "p = q"
proof (rule nth_equalityI)
  fix n assume n: "n < length p"
  have eq: "mix i j f p ! k = mix i j f q ! k" for k using assms(1) by simp
  have other: "k < length p \<Longrightarrow> k \<noteq> i \<Longrightarrow> p ! k = q ! k" for k
    using eq [of k] assms(2) by (simp add: mix_def)
  show "p ! n = q ! n"
  proof (cases "n = i")
    case True
    then show ?thesis using eq [of i] other [of j] assms by (simp add: mix_def)
  next
    case False
    then show ?thesis using other n by simp
  qed
qed (use assms in simp)

lemma mix_eq_iff:
  "length p = n \<Longrightarrow> length q = n \<Longrightarrow> i < n \<Longrightarrow> j < n \<Longrightarrow> i \<noteq> j \<Longrightarrow>
   mix i j f p = mix i j f q \<longleftrightarrow> p = q"
  using mix_inj [of i j f p q] by auto

lemma phase1_round_length [simp]: "length (phase1_round tk i p) = length p"
  by (simp add: phase1_round_def Let_def)

lemma phase1_round_inj:
  assumes "phase1_round tk i p = phase1_round tk i q" "length p = 5" "length q = 5"
  shows "p = q"
  using assms unfolding phase1_round_def Let_def
  by (simp add: mix_eq_iff [where n = 5])

lemma phase1_rounds_length [simp]: "length (fold (phase1_round tk) is p) = length p"
  by (induction "is" arbitrary: p) simp_all

lemma phase1_rounds_inj:
  "fold (phase1_round tk) is p = fold (phase1_round tk) is q \<Longrightarrow> length p = 5 \<Longrightarrow> length q = 5 \<Longrightarrow> p = q"
proof (induction "is" arbitrary: p q)
  case (Cons i "is")
  have "phase1_round tk i p = phase1_round tk i q"
    using Cons.prems Cons.IH [of "phase1_round tk i p" "phase1_round tk i q"] by simp
  then show ?case using Cons.prems(2,3) by (rule phase1_round_inj)
qed simp

lemma Lo8_Hi8_inj: "Lo8 v = Lo8 w \<Longrightarrow> Hi8 v = Hi8 w \<Longrightarrow> v = w"
proof (rule bit_word_eqI)
  fix n assume lo: "Lo8 v = Lo8 w" and hi: "Hi8 v = Hi8 w" and n: "n < LENGTH(16)"
  have m: "(0xFF :: u16) = mask 8" by (simp add: mask_numeral)
  have "bit (Lo8 v) n = bit (Lo8 w) n" "bit (Hi8 v) (n - 8) = bit (Hi8 w) (n - 8)"
    using lo hi by simp_all
  then show "bit v n = bit w n"
    using n unfolding Lo8_def Hi8_def m by (cases "n < 8") (auto simp: bit_simps)
qed

lemma Lo16_Hi16_inj: "Lo16 v = Lo16 w \<Longrightarrow> Hi16 v = Hi16 w \<Longrightarrow> v = w"
proof (rule bit_word_eqI)
  fix n assume lo: "Lo16 v = Lo16 w" and hi: "Hi16 v = Hi16 w" and n: "n < LENGTH(32)"
  have m: "(0xFFFF :: u32) = mask 16" by (simp add: mask_numeral)
  have "bit (Lo16 v) n = bit (Lo16 w) n" "bit (Hi16 v) (n - 16) = bit (Hi16 w) (n - 16)"
    using lo hi by simp_all
  then show "bit v n = bit w n"
    using n unfolding Lo16_def Hi16_def m by (cases "n < 16") (auto simp: bit_simps)
qed

lemma Mk16_parts: "Lo8 (Mk16 hi lo) = lo" "Hi8 (Mk16 hi lo) = hi"
proof -
  have m: "(0xFF :: u16) = mask 8" by (simp add: mask_numeral)
  show "Lo8 (Mk16 hi lo) = lo" "Hi8 (Mk16 hi lo) = hi"
    unfolding Lo8_def Hi8_def Mk16_def m
    by (rule bit_word_eqI; auto simp: bit_simps dest: bit_imp_le_length)+
qed

lemma Mk16_inj: "Mk16 a b = Mk16 c d \<longleftrightarrow> a = c \<and> b = d"
  using Mk16_parts by metis

lemma phase1_inj:
  assumes "phase1 tk ta iv32 = phase1 tk ta' iv32'" "length ta = 6" "length ta' = 6"
  shows "ta = ta' \<and> iv32 = iv32'"
proof -
  have eq: "[Lo16 iv32, Hi16 iv32, Mk16 (ta ! 1) (ta ! 0), Mk16 (ta ! 3) (ta ! 2), Mk16 (ta ! 5) (ta ! 4)] =
    [Lo16 iv32', Hi16 iv32', Mk16 (ta' ! 1) (ta' ! 0), Mk16 (ta' ! 3) (ta' ! 2), Mk16 (ta' ! 5) (ta' ! 4)]"
    using assms(1) unfolding phase1_def by (rule phase1_rounds_inj) simp_all
  have "ta ! n = ta' ! n" if "n < 6" for n
  proof -
    have "n = 0 \<or> n = 1 \<or> n = 2 \<or> n = 3 \<or> n = 4 \<or> n = 5" using that by linarith
    then show ?thesis using eq by (auto simp: Mk16_inj)
  qed
  then have "ta = ta'" using assms by (intro nth_equalityI) auto
  then show ?thesis using eq Lo16_Hi16_inj by auto
qed

lemma phase2_ppk_length [simp]: "length (phase2_ppk tk p1k iv16) = 6"
  by (simp add: phase2_ppk_def Let_def)

lemma phase2_ppk_inj:
  assumes "phase2_ppk tk p iv = phase2_ppk tk q iv'" "length p = 5" "length q = 5"
  shows "p = q \<and> iv = iv'"
proof -
  have "[p ! 0, p ! 1, p ! 2, p ! 3, p ! 4, p ! 4 + iv] = [q ! 0, q ! 1, q ! 2, q ! 3, q ! 4, q ! 4 + iv']"
    using assms(1) unfolding phase2_ppk_def Let_def by (simp only: mix_eq_iff [where n = 6] mix_length
        list.size)
  then have eq: "p ! 0 = q ! 0" "p ! 1 = q ! 1" "p ! 2 = q ! 2" "p ! 3 = q ! 3" "p ! 4 = q ! 4" "iv = iv'"
    by auto
  have "p = q"
  proof (rule nth_equalityI)
    fix n assume "n < length p"
    then have "n = 0 \<or> n = 1 \<or> n = 2 \<or> n = 3 \<or> n = 4" using assms(2) by linarith
    then show "p ! n = q ! n" using eq by blast
  qed (use assms in simp)
  then show ?thesis using eq by simp
qed

lemma phase2_ppk_of_key:
  assumes "phase2 tk p iv = phase2 tk q iv'"
  shows "phase2_ppk tk p iv = phase2_ppk tk q iv'"
proof (rule nth_equalityI)
  fix n assume "n < length (phase2_ppk tk p iv)"
  then have "n = 0 \<or> n = 1 \<or> n = 2 \<or> n = 3 \<or> n = 4 \<or> n = 5" by simp linarith
  moreover have "[0..<6] = [0, 1, 2, 3, 4, 5]" by (simp add: upt_rec)
  ultimately show "phase2_ppk tk p iv ! n = phase2_ppk tk q iv' ! n"
    using assms by (auto simp: phase2_def Let_def intro: Lo8_Hi8_inj)
qed simp

section \<open>Frames\<close>

text \<open>The RC4 key of a frame: packet number from the eight IV bytes, then both phases.\<close>

definition tkip_rc4key :: "bytes \<Rightarrow> bytes \<Rightarrow> bytes \<Rightarrow> bytes" where
  "tkip_rc4key prwskey ta iv =
     (let (pnl, pnh) = GET_TKIP_PN iv in phase2 prwskey (phase1 prwskey ta pnh) pnl)"

definition tkip_encrypt ::
  "bool \<Rightarrow> crc_global \<Rightarrow> sec_info \<Rightarrow> xmit_frame \<Rightarrow> bytes \<Rightarrow> u32 \<Rightarrow> (crc_global \<times> bytes \<times> int) option" where
  "tkip_encrypt richv200 g sec pxmitframe pdata n = do {
     let pframe = unat (TXDESC_SIZE richv200);
     let frame_len = n - TXDESC_SIZE richv200;
     let iv_ofs = (ucast (xf_hdrlen pxmitframe) :: u32);
     let payload_ofs = iv_ofs + ucast (xf_iv_len pxmitframe);
     let payload_len = frame_len - (payload_ofs + ucast (xf_icv_len pxmitframe));
     let icv_ofs = payload_ofs + payload_len;
     prwskey \<leftarrow> (if xf_bmcast pxmitframe
       then (if unat (dot118021XGrpKeyid sec) < length (dot118021XGrpKey sec)
             then Some (dot118021XGrpKey sec ! unat (dot118021XGrpKeyid sec)) else None)
       else Some (xf_UncstKey pxmitframe));
     iv \<leftarrow> rdn pdata (pframe + unat iv_ofs) 8;
     let rc4key = tkip_rc4key prwskey (xf_addr2 pxmitframe) iv;
     (g', crc) \<leftarrow> get_crc32_buf g pdata (pframe + unat payload_ofs) payload_len;
     ctx \<leftarrow> arc4_init rc4key 16;
     (ctx1, pdata1) \<leftarrow> arc4_encrypt_buf ctx pdata (pframe + unat payload_ofs)
                        pdata (pframe + unat payload_ofs) (unat payload_len);
     (ctx2, pdata2) \<leftarrow> arc4_encrypt_buf ctx1 pdata1 (pframe + unat icv_ofs)
                        (le32_bytes crc) 0 (unat (xf_icv_len pxmitframe));
     Some (g', pdata2, 0)
   }"

definition IS_MCAST :: "bytes \<Rightarrow> bool" where
  "IS_MCAST da \<longleftrightarrow> da ! 0 AND 1 \<noteq> 0"

text \<open>The choice of the key in \<open>tkip_decrypt\<close>: the group key the IV names, or the key of the
  sending peer. \<open>Inl\<close> is the return code of an early exit.\<close>

definition tkip_rx_key ::
  "sec_info \<Rightarrow> wdn_list \<Rightarrow> wdn_mem \<Rightarrow> rx_pkt \<Rightarrow> (int + bytes) option" where
  "tkip_rx_key sec wl m ppkt =
     (if IS_MCAST (ri_rx_addr (pkt_info ppkt))
      then if binstallGrpkey sec = 0 then Some (Inl (-1))
           else do {
             iv3 \<leftarrow> rd8 (rp_pdata ppkt) (unat (ucast (ri_wlan_hdr_len (pkt_info ppkt)) :: u32) + 3);
             Some (Inr (dot118021XGrpKey sec ! unat (drop_bit 6 iv3 AND 3)))
           }
      else do {
        pwdn \<leftarrow> wf_wdn_find_info wl (Some (ri_tx_addr (pkt_info ppkt))) m;
        Some (case pwdn of None \<Rightarrow> Inl (-2) | Some p \<Rightarrow> Inr (dot118021x_UncstKey (node_info m p)))
      })"

definition tkip_decrypt ::
  "crc_global \<Rightarrow> sec_info \<Rightarrow> wdn_list \<Rightarrow> wdn_mem \<Rightarrow> rx_pkt \<Rightarrow> (crc_global \<times> rx_pkt \<times> int) option" where
  "tkip_decrypt g sec wl m ppkt = do {
     let info = pkt_info ppkt;
     let pframe = rp_pdata ppkt;
     let iv_ofs = (ucast (ri_wlan_hdr_len info) :: u32);
     let payload_ofs = iv_ofs + ucast (ri_iv_len info);
     let payload_len = rp_len ppkt - (payload_ofs + ucast (ri_icv_len info));
     let icv_ofs = payload_ofs + payload_len;
     key \<leftarrow> tkip_rx_key sec wl m ppkt;
     case key of
       Inl res \<Rightarrow> Some (g, ppkt, res)
     | Inr prwskey \<Rightarrow> do {
         iv \<leftarrow> rdn pframe (unat iv_ofs) 8;
         let rc4key = tkip_rc4key prwskey (ri_tx_addr info) iv;
         ctx \<leftarrow> arc4_init rc4key 16;
         (ctx', pframe1) \<leftarrow> arc4_encrypt_buf ctx pframe (unat payload_ofs) pframe (unat payload_ofs)
                              (unat (payload_len + ucast (ri_icv_len info)));
         (g', crc) \<leftarrow> get_crc32_buf g pframe1 (unat payload_ofs) payload_len;
         c \<leftarrow> rdn (le32_bytes crc) 0 (unat (ri_icv_len info));
         icv \<leftarrow> rdn pframe1 (unat icv_ofs) (unat (ri_icv_len info));
         Some (g', ppkt\<lparr>rp_pdata := pframe1\<rparr>, if c = icv then 0 else -3)
       }
   }"

lemma tkip_rc4key_length: "length (tkip_rc4key k ta iv) = 16"
proof -
  have "[0..<6] = [0, 1, 2, 3, 4, 5]" by (simp add: upt_rec)
  then show ?thesis by (simp add: tkip_rc4key_def phase2_def Let_def case_prod_beta)
qed

lemma tkip_key_arc4:
  obtains ctx where "arc4_init (tkip_rc4key k ta iv) 16 = Some ctx"
proof -
  have "tkip_rc4key k ta iv \<noteq> []" using tkip_rc4key_length [of k ta iv] by auto
  then show ?thesis using arc4_init_total [of "tkip_rc4key k ta iv" 16] tkip_rc4key_length that by auto
qed

text \<open>The temporal key the sender uses.\<close>

definition tkip_tx_key :: "sec_info \<Rightarrow> xmit_frame \<Rightarrow> bytes" where
  "tkip_tx_key sec xf =
     (if xf_bmcast xf then dot118021XGrpKey sec ! unat (dot118021XGrpKeyid sec) else xf_UncstKey xf)"

lemma tkip_encrypt_layout:
  assumes g: "crc_ok g" and sec: "sec_info_wf sec" "dot118021XGrpKeyid sec < 4"
    and lens: "length txd = unat (TXDESC_SIZE r)" "length hdr = unat (xf_hdrlen xf)"
      "xf_iv_len xf = 8" "length iv = 8" "xf_icv_len xf = 4" "length icv = 4"
    and small: "length (txd @ hdr @ iv @ body @ icv) < 2 ^ 31"
    and ctx: "arc4_init (tkip_rc4key (tkip_tx_key sec xf) (xf_addr2 xf) iv) 16 = Some ctx"
  shows "tkip_encrypt r g sec xf (txd @ hdr @ iv @ body @ icv)
       (of_nat (length (txd @ hdr @ iv @ body @ icv))) =
     Some (fst (get_crc32 g body),
       txd @ hdr @ iv @ snd (arc4_encrypt ctx (body @ le32_bytes (crc32_ref body))), 0)"
proof -
  have td: "TXDESC_SIZE r = of_nat (length txd)" using lens(1) by simp
  have hl: "(ucast (xf_hdrlen xf) :: u32) = of_nat (length hdr)" using lens(2) by simp
  have il: "(ucast (xf_iv_len xf) :: u32) = of_nat (length iv)" using lens by simp
  have cl: "(ucast (xf_icv_len xf) :: u32) = of_nat (length icv)" using lens by simp
  have pl: "of_nat (length (txd @ hdr @ iv @ body @ icv)) - TXDESC_SIZE r -
      (ucast (xf_hdrlen xf) + ucast (xf_iv_len xf) + ucast (xf_icv_len xf)) = (of_nat (length body) :: u32)"
    unfolding hl il cl td by (simp add: algebra_simps)
  have at: "unat (ucast (xf_hdrlen xf) :: u32) = length hdr"
      "unat (ucast (xf_hdrlen xf) + ucast (xf_iv_len xf) :: u32) = length (hdr @ iv)"
      "unat (ucast (xf_hdrlen xf) + ucast (xf_iv_len xf) + of_nat (length body) :: u32) = length (hdr @ iv @ body)"
      "unat (of_nat (length body) :: u32) = length body"
    unfolding hl il using small
    by (simp_all flip: of_nat_add add: unat_of_nat_u32 del: of_nat_add)
  let ?P = "length txd" and ?F = "txd @ hdr @ iv @ body @ icv"
  let ?E = "snd (arc4_encrypt ctx body)" and ?C = "fst (arc4_encrypt ctx body)"
  have kid: "unat (dot118021XGrpKeyid sec) < length (dot118021XGrpKey sec)"
    using sec by (simp add: sec_info_wf_def word_less_nat_alt)
  have key: "(if xf_bmcast xf then if unat (dot118021XGrpKeyid sec) < length (dot118021XGrpKey sec)
        then Some (dot118021XGrpKey sec ! unat (dot118021XGrpKeyid sec)) else None
      else Some (xf_UncstKey xf)) = Some (tkip_tx_key sec xf)"
    using kid by (simp add: tkip_tx_key_def)
  have iv: "rdn ?F (?P + length hdr) 8 = Some iv"
    using rdn_append_mid [of "txd @ hdr" iv "body @ icv"] lens(4) by simp
  have crc: "get_crc32_buf g ?F (?P + length (hdr @ iv)) (of_nat (length body)) =
      Some (fst (get_crc32 g body), crc32_ref body)"
    using get_crc32_buf_mid [OF g, of body "txd @ hdr @ iv" icv] small by simp
  have enc1: "arc4_encrypt_buf ctx ?F (?P + length (hdr @ iv)) ?F (?P + length (hdr @ iv)) (length body) =
      Some (?C, txd @ hdr @ iv @ ?E @ icv)"
    using arc4_encrypt_buf_self [of ctx "txd @ hdr @ iv" body icv] by simp
  have enc2: "arc4_encrypt_buf ?C (txd @ hdr @ iv @ ?E @ icv) (?P + length (hdr @ iv @ body))
        (le32_bytes (crc32_ref body)) 0 (unat (xf_icv_len xf)) =
      Some (fst (arc4_encrypt ?C (le32_bytes (crc32_ref body))),
        txd @ hdr @ iv @ snd (arc4_encrypt ctx (body @ le32_bytes (crc32_ref body))))"
    using arc4_encrypt_buf_to [of icv "le32_bytes (crc32_ref body)" ?C "txd @ hdr @ iv @ ?E" "[]"] lens(5,6)
    by (simp add: arc4_encrypt_length arc4_encrypt_append add.assoc)
  show ?thesis
    unfolding tkip_encrypt_def Let_def pl at lens(1) [symmetric] key iv crc enc1
      bind.bind_lunit split_conv ctx enc2 by (rule refl)
qed

lemma tkip_decrypt_layout:
  assumes g: "crc_ok g" and key: "tkip_rx_key sec wl m pkt = Some (Inr k)"
    and lens: "length hdr = unat (ri_wlan_hdr_len (pkt_info pkt))"
      "ri_iv_len (pkt_info pkt) = 8" "length iv = 8" "ri_icv_len (pkt_info pkt) = 4" "length icv = 4"
    and pkt: "rp_pdata pkt = hdr @ iv @ enc" "rp_len pkt = of_nat (length (hdr @ iv @ enc))"
    and small: "length (hdr @ iv @ enc) < 2 ^ 31"
    and ctx: "arc4_init (tkip_rc4key k (ri_tx_addr (pkt_info pkt)) iv) 16 = Some ctx"
    and dec: "snd (arc4_encrypt ctx enc) = body @ icv"
  shows "tkip_decrypt g sec wl m pkt =
     Some (fst (get_crc32 g body), pkt\<lparr>rp_pdata := hdr @ iv @ body @ icv\<rparr>,
       if le32_bytes (crc32_ref body) = icv then 0 else -3)"
proof -
  let ?i = "pkt_info pkt"
  have el: "length enc = length body + length icv"
    using arg_cong [OF dec, of length] by (simp add: arc4_encrypt_length)
  have hl: "(ucast (ri_wlan_hdr_len ?i) :: u32) = of_nat (length hdr)" using lens(1) by simp
  have il: "(ucast (ri_iv_len ?i) :: u32) = of_nat (length iv)" using lens by simp
  have cl: "(ucast (ri_icv_len ?i) :: u32) = of_nat (length icv)" using lens by simp
  have pl: "rp_len pkt - (ucast (ri_wlan_hdr_len ?i) + ucast (ri_iv_len ?i) + ucast (ri_icv_len ?i)) =
      (of_nat (length body) :: u32)"
    unfolding hl il cl pkt by (simp add: algebra_simps el)
  have at: "unat (ucast (ri_wlan_hdr_len ?i) :: u32) = length hdr"
      "unat (ucast (ri_wlan_hdr_len ?i) + ucast (ri_iv_len ?i) :: u32) = length (hdr @ iv)"
      "unat (ucast (ri_wlan_hdr_len ?i) + ucast (ri_iv_len ?i) + of_nat (length body) :: u32) =
         length (hdr @ iv @ body)"
      "unat (of_nat (length body) + ucast (ri_icv_len ?i) :: u32) = length enc"
    unfolding hl il cl using small el
    by (simp_all flip: of_nat_add add: unat_of_nat_u32 del: of_nat_add)
  have iv: "rdn (hdr @ iv @ enc) (length hdr) 8 = Some iv"
    using rdn_append_mid [of hdr iv enc] lens(3) by simp
  have dec': "arc4_encrypt_buf ctx (hdr @ iv @ enc) (length (hdr @ iv)) (hdr @ iv @ enc)
        (length (hdr @ iv)) (length enc) = Some (fst (arc4_encrypt ctx enc), hdr @ iv @ body @ icv)"
    using arc4_encrypt_buf_self [of ctx "hdr @ iv" enc "[]"] by (simp add: dec)
  have crc: "get_crc32_buf g (hdr @ iv @ body @ icv) (length (hdr @ iv)) (of_nat (length body)) =
      Some (fst (get_crc32 g body), crc32_ref body)"
    using get_crc32_buf_mid [OF g, of body "hdr @ iv" icv] small el by simp
  have tail: "rdn (le32_bytes (crc32_ref body)) 0 (unat (ri_icv_len ?i)) = Some (le32_bytes (crc32_ref body))"
      "rdn (hdr @ iv @ body @ icv) (length (hdr @ iv @ body)) (unat (ri_icv_len ?i)) = Some icv"
    using lens by (simp_all add: rdn_def)
  show ?thesis
    unfolding tkip_decrypt_def Let_def pl at pkt(1) key bind.bind_lunit sum.case split_conv iv ctx dec' crc tail
    by (rule refl)
qed

section \<open>Packet numbers\<close>

lemma TKIP_IV_pn:
  "GET_TKIP_PN (fst (TKIP_IV pn k)) = (ucast pn, ucast (drop_bit 16 pn))"
proof -
  have "le16_of (TSC 0 pn) (TSC 1 pn) = ucast pn"
    unfolding le16_of_def TSC_def by (rule bit_word_eqI) (auto simp: bit_simps)
  moreover have "le32_of (TSC 2 pn) (TSC 3 pn) (TSC 4 pn) (TSC 5 pn) = ucast (drop_bit 16 pn)"
  proof (rule bit_word_eqI)
    fix n assume "n < LENGTH(32)"
    then consider "n < 8" | "8 \<le> n \<and> n < 16" | "16 \<le> n \<and> n < 24" | "24 \<le> n \<and> n < 32"
      by (simp only: len_num1 len_num0 len_bit0 len_bit1) linarith
    then show "bit (le32_of (TSC 2 pn) (TSC 3 pn) (TSC 4 pn) (TSC 5 pn)) n = bit (ucast (drop_bit 16 pn) :: u32) n"
      by cases (auto simp: bit_le32_of TSC_def bit_simps)
  qed
  ultimately show ?thesis
    by (simp add: GET_TKIP_PN_def TKIP_IV_def)
qed

lemma pn48_inj:
  assumes "(ucast pn :: u16) = ucast pn'" "(ucast (drop_bit 16 pn) :: u32) = ucast (drop_bit 16 pn')"
    "pn < 2 ^ 48" "pn' < 2 ^ 48"
  shows "pn = (pn' :: u64)"
proof (rule bit_word_eqI)
  fix n assume "n < LENGTH(64)"
  have high: "\<not> bit w n" if "48 \<le> n" "w < 2 ^ 48" for w :: u64
  proof -
    have "unat w < 2 ^ 48" using that(2) by (simp add: word_less_nat_alt)
    then have "take_bit 48 w = w"
      by (simp add: word_unat_eq_iff unsigned_take_bit_eq take_bit_nat_eq_self)
    then show ?thesis using that(1) bit_take_bit_iff [of 48 w n] by simp
  qed
  have "bit (ucast pn :: u16) n = bit (ucast pn' :: u16) n"
    "bit (ucast (drop_bit 16 pn) :: u32) (n - 16) = bit (ucast (drop_bit 16 pn') :: u32) (n - 16)"
    using assms by simp_all
  then show "bit pn n = bit pn' n"
    using high assms(3,4) by (cases "n < 16"; cases "n < 48") (auto simp: bit_simps)
qed

lemma tkip_mix_inj:
  assumes "phase2 tk (phase1 tk ta iv32) iv16 = phase2 tk (phase1 tk ta' iv32') iv16'"
    "length ta = 6" "length ta' = 6"
  shows "ta = ta' \<and> iv32 = iv32' \<and> iv16 = iv16'"
proof -
  have "phase1 tk ta iv32 = phase1 tk ta' iv32' \<and> iv16 = iv16'"
    by (rule phase2_ppk_inj [OF phase2_ppk_of_key [OF assms(1)]]) (simp_all add: phase1_def)
  with phase1_inj [OF _ assms(2,3)] show ?thesis by blast
qed

section \<open>Properties\<close>

text \<open>The claim of the comments in \<open>phase2\<close>: for one temporal key the RC4 key is unique as
  a function of transmitter address, IV32 and IV16.\<close>

theorem tkip_key_unique:
  assumes "phase2 tk (phase1 tk ta iv32) iv16 = phase2 tk (phase1 tk ta' iv32') iv16'"
    "length ta = 6" "length ta' = 6"
  shows "ta = ta' \<and> iv32 = iv32' \<and> iv16 = iv16'"
  using assms by (rule tkip_mix_inj)

lemma tkip_key_unique_witness:
  "phase2 (replicate 16 1) (phase1 (replicate 16 1) [1, 2, 3, 4, 5, 6] 0) 7 \<noteq>
   phase2 (replicate 16 1) (phase1 (replicate 16 1) [1, 2, 3, 4, 5, 6] 0) 8"
  using tkip_key_unique [of "replicate 16 1" "[1, 2, 3, 4, 5, 6]" 0 7 "[1, 2, 3, 4, 5, 6]" 0 8] by auto

text \<open>(C34) A sender that takes its IVs from \<open>TKIP_IV\<close> encrypts no two frames with the same RC4
  key as long as the 48-bit packet number differs, whatever key ids the IVs name; and the
  packet number runs through all 48-bit values before it returns to 0.\<close>

theorem tkip_keys_differ:
  assumes "pn < 2 ^ 48" "pn' < 2 ^ 48" "pn \<noteq> pn'" "length ta = 6"
  shows "tkip_rc4key k ta (fst (TKIP_IV pn i)) \<noteq> tkip_rc4key k ta (fst (TKIP_IV pn' j)) \<and>
    snd (TKIP_IV pn i) = (if pn = 2 ^ 48 - 1 then 0 else pn + 1) \<and> snd (TKIP_IV pn i) < 2 ^ 48"
proof -
  have "tkip_rc4key k ta (fst (TKIP_IV pn i)) \<noteq> tkip_rc4key k ta (fst (TKIP_IV pn' j))"
    using tkip_mix_inj [of k ta "ucast (drop_bit 16 pn)" "ucast pn" ta "ucast (drop_bit 16 pn')" "ucast pn'"]
      pn48_inj [of pn pn'] assms by (auto simp: tkip_rc4key_def TKIP_IV_pn)
  moreover have "snd (TKIP_IV pn i) = (if pn = 2 ^ 48 - 1 then 0 else pn + 1)"
    by (simp add: TKIP_IV_def)
  moreover have "snd (TKIP_IV pn i) < 2 ^ 48"
  proof (cases "pn = 2 ^ 48 - 1")
    case False
    have "unat pn < 2 ^ 48" "unat pn \<noteq> 2 ^ 48 - 1"
      using assms(1) False by (simp_all add: word_less_nat_alt word_unat_eq_iff)
    then have "unat (pn + 1) < 2 ^ 48" using unat_add_lem [of pn 1] by simp
    then show ?thesis using False by (simp add: TKIP_IV_def word_less_nat_alt)
  qed (simp add: TKIP_IV_def)
  ultimately show ?thesis by blast
qed

lemma tkip_keys_differ_witness:
  "tkip_rc4key (replicate 16 1) [1, 2, 3, 4, 5, 6] (fst (TKIP_IV 5 0)) \<noteq>
   tkip_rc4key (replicate 16 1) [1, 2, 3, 4, 5, 6] (fst (TKIP_IV 6 0))"
  using tkip_keys_differ [of 5 6 "[1, 2, 3, 4, 5, 6]" "replicate 16 1" 0 0] by simp

text \<open>(C14) A TKIP frame keeps descriptor, header and IV, and a receiver that selects the same
  temporal key (the group key or the key of the peer found under the transmitter address)
  accepts it and restores the payload followed by its CRC-32.\<close>

theorem tkip_roundtrip:
  assumes g: "crc_ok g" and sec: "sec_info_wf sec" "dot118021XGrpKeyid sec < 4"
    and tx: "length txd = unat (TXDESC_SIZE r)" "length hdr = unat (xf_hdrlen xf)"
      "xf_iv_len xf = 8" "length iv = 8" "xf_icv_len xf = 4" "length icv = 4"
    and rx: "length hdr = unat (ri_wlan_hdr_len (pkt_info pkt))" "ri_iv_len (pkt_info pkt) = 8"
      "ri_icv_len (pkt_info pkt) = 4" "ri_tx_addr (pkt_info pkt) = xf_addr2 xf"
    and key: "\<And>enc. tkip_rx_key sec' wl m (pkt\<lparr>rp_pdata := hdr @ iv @ enc, rp_len := of_nat (length (hdr @ iv @ enc))\<rparr>) =
        Some (Inr (tkip_tx_key sec xf))"
    and small: "length (txd @ hdr @ iv @ body @ icv) < 2 ^ 31"
  shows "\<exists>g' enc. tkip_encrypt r g sec xf (txd @ hdr @ iv @ body @ icv)
        (of_nat (length (txd @ hdr @ iv @ body @ icv))) = Some (g', txd @ hdr @ iv @ enc, 0) \<and>
      length enc = length body + 4 \<and>
      (\<exists>g''. tkip_decrypt g' sec' wl m (pkt\<lparr>rp_pdata := hdr @ iv @ enc, rp_len := of_nat (length (hdr @ iv @ enc))\<rparr>) =
          Some (g'', pkt\<lparr>rp_pdata := hdr @ iv @ body @ le32_bytes (crc32_ref body),
                        rp_len := of_nat (length (hdr @ iv @ enc))\<rparr>, 0))"
proof -
  obtain ctx where ctx: "arc4_init (tkip_rc4key (tkip_tx_key sec xf) (xf_addr2 xf) iv) 16 = Some ctx"
    by (rule tkip_key_arc4)
  let ?enc = "snd (arc4_encrypt ctx (body @ le32_bytes (crc32_ref body)))"
  let ?pkt = "pkt\<lparr>rp_pdata := hdr @ iv @ ?enc, rp_len := of_nat (length (hdr @ iv @ ?enc))\<rparr>"
  have len: "length ?enc = length body + 4" by (simp add: arc4_encrypt_length)
  note e = tkip_encrypt_layout [OF g sec tx small ctx]
  have s: "length (hdr @ iv @ ?enc) < 2 ^ 31" using small tx by (simp add: len)
  have c: "arc4_init (tkip_rc4key (tkip_tx_key sec xf) (ri_tx_addr (pkt_info ?pkt)) iv) 16 = Some ctx"
    using ctx rx(4) by simp
  note d = tkip_decrypt_layout [OF get_crc32_ok [OF g] key _ _ tx(4) _ length_le32_bytes
      _ _ s c arc4.enc_twice, of body]
  show ?thesis
    using e len d rx by (intro exI [of _ "fst (get_crc32 g body)"] exI [of _ ?enc]) auto
qed

definition tkip_sample_pkt :: rx_pkt where
  "tkip_sample_pkt =
     \<lparr>pkt_info = \<lparr>ri_pkt_type = 0, ri_seq_num = 0, ri_pkt_len = 0, ri_hif_hdr_len = 56,
        ri_wlan_hdr_len = 24, ri_qos_flag = 0, ri_qos_pri = 0, ri_rx_rate = 0,
        ri_amsdu = 0, ri_more_data = 0, ri_more_frag = 0, ri_frag_num = 0, ri_bdecrypted = 0,
        ri_encrypt_algo = 2, ri_iv_len = 8, ri_icv_len = 4, ri_phy_status = 0, ri_usb_agg_pktnum = 0, ri_dst_addr = [1, 0, 0, 0, 0, 0],
        ri_src_addr = [2, 0, 0, 0, 0, 0], ri_tx_addr = [2, 0, 0, 0, 0, 0],
        ri_rx_addr = [1, 0, 0, 0, 0, 0], ri_bssid = [2, 0, 0, 0, 0, 0], ri_ack_policy = 0\<rparr>,
      signal_strength = 0, signal_qual = 0, rxd_raw_buf = replicate 24 0, rp_len = 0, rp_pdata = [],
      rp_wdn_info = None\<rparr>"

lemma tkip_roundtrip_witness:
  "\<exists>g' enc. tkip_encrypt False \<lparr>bcrc32initialized = 0, crc32_table = []\<rparr> wep_sample_sec
      \<lparr>xf_bmcast = True, xf_hdrlen = 24, xf_encrypt_algo = TKIP, xf_iv_len = 8, xf_icv_len = 4,
       xf_UncstKey = [], xf_addr2 = [2, 0, 0, 0, 0, 0]\<rparr>
      (replicate 40 0 @ replicate 24 8 @ [0, 0x20, 1, 0x20, 0, 0, 0, 0] @ [0xaa, 0xbb] @ replicate 4 0) 78 =
    Some (g', replicate 40 0 @ replicate 24 8 @ [0, 0x20, 1, 0x20, 0, 0, 0, 0] @ enc, 0) \<and>
    (\<exists>g'' p. tkip_decrypt g' (wep_sample_sec\<lparr>binstallGrpkey := 1\<rparr>) wl_ex wdn_mem_ex
        (tkip_sample_pkt\<lparr>rp_pdata := replicate 24 8 @ [0, 0x20, 1, 0x20, 0, 0, 0, 0] @ enc,
           rp_len := of_nat (32 + length enc)\<rparr>) = Some (g'', p, 0))"
proof -
  let ?xf = "\<lparr>xf_bmcast = True, xf_hdrlen = 24, xf_encrypt_algo = TKIP, xf_iv_len = 8, xf_icv_len = 4,
       xf_UncstKey = [], xf_addr2 = [2, 0, 0, 0, 0, 0]\<rparr> :: xmit_frame"
  let ?iv = "[0, 0x20, 1, 0x20, 0, 0, 0, 0] :: bytes"
  have ok: "crc_ok \<lparr>bcrc32initialized = 0, crc32_table = []\<rparr>" by (simp add: crc_ok_def)
  have sec: "sec_info_wf wep_sample_sec" "dot118021XGrpKeyid wep_sample_sec < 4"
    by (simp_all add: sec_info_wf_def wep_sample_sec_def)
  have key: "tkip_rx_key (wep_sample_sec\<lparr>binstallGrpkey := 1\<rparr>) wl_ex wdn_mem_ex
      (tkip_sample_pkt\<lparr>rp_pdata := replicate 24 8 @ ?iv @ enc, rp_len := n\<rparr>) =
      Some (Inr (tkip_tx_key wep_sample_sec ?xf))" for enc n
    by (simp add: tkip_rx_key_def IS_MCAST_def tkip_sample_pkt_def rd8_def nth_append tkip_tx_key_def
        wep_sample_sec_def)
  have "\<exists>g' enc. tkip_encrypt False \<lparr>bcrc32initialized = 0, crc32_table = []\<rparr> wep_sample_sec ?xf
        (replicate 40 0 @ replicate 24 8 @ ?iv @ [0xaa, 0xbb] @ replicate 4 0)
        (of_nat (length (replicate 40 (0 :: u8) @ replicate 24 8 @ ?iv @ [0xaa, 0xbb] @ replicate 4 0))) =
      Some (g', replicate 40 0 @ replicate 24 8 @ ?iv @ enc, 0) \<and> length enc = length [0xaa, 0xbb :: u8] + 4 \<and>
      (\<exists>g''. tkip_decrypt g' (wep_sample_sec\<lparr>binstallGrpkey := 1\<rparr>) wl_ex wdn_mem_ex
        (tkip_sample_pkt\<lparr>rp_pdata := replicate 24 8 @ ?iv @ enc,
           rp_len := of_nat (length (replicate 24 8 @ ?iv @ enc))\<rparr>) =
        Some (g'', tkip_sample_pkt\<lparr>rp_pdata := replicate 24 8 @ ?iv @ [0xaa, 0xbb] @ le32_bytes (crc32_ref [0xaa, 0xbb]),
           rp_len := of_nat (length (replicate 24 8 @ ?iv @ enc))\<rparr>, 0))"
    by (rule tkip_roundtrip [OF ok sec _ _ _ _ _ _ _ _ _ _ key])
      (simp_all add: TXDESC_SIZE_def tkip_sample_pkt_def)
  then show ?thesis by auto
qed

text \<open>The comment on the S-box: the second table is the first with the bytes of every entry
  swapped, so the S-box is symmetric in the two bytes of its argument up to a byte swap.\<close>

theorem Sbox1_swapped:
  "map (\<lambda>v. Mk16 (Lo8 v) (Hi8 v)) Sbox1_0 = Sbox1_1 \<and> length Sbox1_0 = 256"
  by code_simp

end
