(* ===== verification/Sec.thy ===== *)
theory Sec
  imports Sec_Tkip
begin

text \<open>
  \<open>src/trunk_driver/nic/sec.c\<close>: the Michael message integrity code, the dispatch of encryption
  and decryption to the cipher of a frame, and the life of \<open>sec_info\<close>. The incremental MIC is
  proved equal to a reference definition of Michael on the whole padded message.
\<close>

section \<open>Michael\<close>

record mic_data =
  mic_K0 :: u32
  mic_K1 :: u32
  mic_L :: u32
  mic_R :: u32
  mic_M :: u32
  nBytesInM :: u32

definition ROL32 :: "u32 \<Rightarrow> nat \<Rightarrow> u32" where
  "ROL32 a n = push_bit n a OR (drop_bit (32 - n) a AND (push_bit n 1 - 1))"

definition ROR32 :: "u32 \<Rightarrow> nat \<Rightarrow> u32" where
  "ROR32 a n = ROL32 a (32 - n)"

definition get_usecmic :: "bytes \<Rightarrow> u32" where
  "get_usecmic p = fold (\<lambda>i res. res OR push_bit (8 * i) (ucast (p ! i))) [0..<4] 0"

definition put_usecmic :: "u32 \<Rightarrow> bytes" where
  "put_usecmic v = map (\<lambda>i. ucast (((\<lambda>v. drop_bit 8 v) ^^ i) v AND 0xff)) [0..<4]"

definition clr_secmic :: "mic_data \<Rightarrow> mic_data" where
  "clr_secmic d = d\<lparr>mic_M := 0, nBytesInM := 0, mic_L := mic_K0 d, mic_R := mic_K1 d\<rparr>"

definition wf_sec_mic_set_key :: "mic_data \<Rightarrow> bytes \<Rightarrow> mic_data" where
  "wf_sec_mic_set_key d key =
     clr_secmic (d\<lparr>mic_K0 := get_usecmic key, mic_K1 := get_usecmic (drop 4 key)\<rparr>)"

definition mic_append_byte :: "mic_data \<Rightarrow> u8 \<Rightarrow> mic_data" where
  "mic_append_byte d b =
     (let m = mic_M d OR push_bit (8 * unat (nBytesInM d)) (ucast b);
          n = nBytesInM d + 1 in
      if n \<ge> 4 then
        let l = mic_L d XOR m;
            r = mic_R d XOR ROL32 l 17;
            l = l + r;
            r = r XOR (drop_bit 8 (l AND 0xff00ff00) OR push_bit 8 (l AND 0x00ff00ff));
            l = l + r;
            r = r XOR ROL32 l 3;
            l = l + r;
            r = r XOR ROR32 l 2;
            l = l + r
        in d\<lparr>mic_L := l, mic_R := r, mic_M := 0, nBytesInM := 0\<rparr>
      else d\<lparr>mic_M := m, nBytesInM := n\<rparr>)"

fun wf_sec_mic_append :: "mic_data \<Rightarrow> bytes \<Rightarrow> mic_data" where
  "wf_sec_mic_append d [] = d"
| "wf_sec_mic_append d (b # bs) = wf_sec_mic_append (mic_append_byte d b) bs"

partial_function (option) mic_pad_loop :: "mic_data \<Rightarrow> mic_data option" where
  "mic_pad_loop d = (if nBytesInM d \<noteq> 0 then mic_pad_loop (mic_append_byte d 0) else Some d)"

definition wf_sec_get_mic :: "mic_data \<Rightarrow> (mic_data \<times> bytes) option" where
  "wf_sec_get_mic d = do {
     let d = mic_append_byte d 0x5a;
     let d = mic_append_byte d 0;
     let d = mic_append_byte d 0;
     let d = mic_append_byte d 0;
     let d = mic_append_byte d 0;
     d \<leftarrow> mic_pad_loop d;
     Some (clr_secmic d, put_usecmic (mic_L d) @ put_usecmic (mic_R d))
   }"

subsection \<open>Reference\<close>

definition XSWAP :: "u32 \<Rightarrow> u32" where
  "XSWAP w = le32_of (ucast (drop_bit 8 w)) (ucast w) (ucast (drop_bit 24 w)) (ucast (drop_bit 16 w))"

definition michael_block :: "u32 \<Rightarrow> u32 \<times> u32 \<Rightarrow> u32 \<times> u32" where
  "michael_block w = (\<lambda>(l0, r0).
     let l1 = l0 XOR w; r1 = r0 XOR word_rotl 17 l1;
         l2 = l1 + r1; r2 = r1 XOR XSWAP l2;
         l3 = l2 + r2; r3 = r2 XOR word_rotl 3 l3;
         l4 = l3 + r3; r4 = r3 XOR word_rotr 2 l4
     in (l4 + r4, r4))"

fun words4 :: "bytes \<Rightarrow> u32 list" where
  "words4 (a # b # c # d # bs) = le32_of a b c d # words4 bs"
| "words4 _ = []"

definition michael_pad :: "bytes \<Rightarrow> bytes" where
  "michael_pad msg = msg @ [0x5a, 0, 0, 0, 0] @ replicate ((3 - length msg mod 4) mod 4) 0"

definition michael_ref :: "bytes \<Rightarrow> bytes \<Rightarrow> bytes" where
  "michael_ref key msg =
     (let (l, r) = fold michael_block (words4 (michael_pad msg))
        (le32_of (key ! 0) (key ! 1) (key ! 2) (key ! 3), le32_of (key ! 4) (key ! 5) (key ! 6) (key ! 7))
      in le32_bytes l @ le32_bytes r)"

subsection \<open>The words agree\<close>

lemma upt4: "[0..<4] = [0, 1, 2, 3]"
  by (simp add: upt_rec)

lemma get_usecmic_le32: "get_usecmic p = le32_of (p ! 0) (p ! 1) (p ! 2) (p ! 3)"
  by (simp add: get_usecmic_def upt4 le32_of_def or.assoc)

lemma put_usecmic_le32: "put_usecmic v = le32_bytes v"
proof -
  have m: "(0xff :: u32) = mask 8" by (simp add: mask_numeral)
  have c: "(ucast ((w :: u32) AND 0xff) :: u8) = ucast w" for w
    unfolding m by (rule bit_word_eqI) (auto simp: bit_simps)
  show ?thesis
    by (simp add: put_usecmic_def upt4 le32_bytes_def numeral_2_eq_2 numeral_3_eq_3 c drop_bit_drop_bit)
qed

lemma ROL32_rotl: "0 < n \<Longrightarrow> n < 32 \<Longrightarrow> ROL32 a n = word_rotl n a"
proof (rule bit_word_eqI)
  fix i assume n: "0 < n" "n < 32" and i: "i < LENGTH(32)"
  have m: "push_bit n 1 - 1 = (mask n :: u32)" by (simp add: mask_eq_decr_exp push_bit_of_1)
  show "bit (ROL32 a n) i = bit (word_rotl n a) i"
    using n i unfolding ROL32_def m
    by (cases "i < n") (auto simp: bit_simps mod_if add.commute [of i 32])
qed

lemma ROR32_rotr: "0 < n \<Longrightarrow> n < 32 \<Longrightarrow> ROR32 a n = word_rotr n a"
proof (rule bit_word_eqI)
  fix i assume n: "0 < n" "n < 32" and i: "i < LENGTH(32)"
  have "ROR32 a n = word_rotl (32 - n) a" unfolding ROR32_def using n by (intro ROL32_rotl) auto
  then show "bit (ROR32 a n) i = bit (word_rotr n a) i"
    using n i by (auto simp: bit_simps mod_if add.commute [of i n])
qed

lemma XSWAP_masks:
  "drop_bit 8 (w AND 0xff00ff00) OR push_bit 8 (w AND 0x00ff00ff) = XSWAP w"
proof (rule bit_word_eqI)
  fix i assume "i < LENGTH(32)"
  have lo: "bit (0x00ff00ff :: u32) k \<longleftrightarrow> k < 8 \<or> 16 \<le> k \<and> k < 24" for k
  proof -
    have eq: "(0x00ff00ff :: u32) = mask 8 OR push_bit 16 (mask 8)" by (simp add: mask_numeral)
    show ?thesis unfolding eq by (auto simp: bit_simps)
  qed
  have hi: "bit (0xff00ff00 :: u32) k \<longleftrightarrow> 8 \<le> k \<and> k < 16 \<or> 24 \<le> k \<and> k < 32" for k
  proof -
    have eq: "(0xff00ff00 :: u32) = push_bit 8 (mask 8) OR push_bit 24 (mask 8)" by (simp add: mask_numeral)
    show ?thesis unfolding eq by (auto simp: bit_simps)
  qed
  have "i < 8 \<or> 8 \<le> i \<and> i < 16 \<or> 16 \<le> i \<and> i < 24 \<or> 24 \<le> i \<and> i < 32"
    using \<open>i < LENGTH(32)\<close> by (simp only: len_num1 len_num0 len_bit0 len_bit1) linarith
  then show "bit (drop_bit 8 (w AND 0xff00ff00) OR push_bit 8 (w AND 0x00ff00ff)) i = bit (XSWAP w) i"
    by (simp only: XSWAP_def bit_or_iff bit_drop_bit_eq bit_push_bit_iff bit_and_iff lo hi comp_apply)
      (auto simp: bit_le32_of bit_simps add.commute)
qed

subsection \<open>The running state\<close>

text \<open>\<open>mic_rep d l r ps\<close>: the words \<open>l\<close> and \<open>r\<close> are up to date and the bytes \<open>ps\<close> wait in \<open>M\<close>.\<close>

definition mic_rep :: "mic_data \<Rightarrow> u32 \<times> u32 \<Rightarrow> bytes \<Rightarrow> bool" where
  "mic_rep d lr ps \<longleftrightarrow> length ps < 4 \<and> lr = (mic_L d, mic_R d) \<and> nBytesInM d = of_nat (length ps) \<and>
     mic_M d = (let q = ps @ [0, 0, 0, 0] in le32_of (q ! 0) (q ! 1) (q ! 2) (q ! 3))"

lemma length_less_4_cases:
  assumes "length (ps :: bytes) < 4"
  obtains "ps = []" | a where "ps = [a]" | a b where "ps = [a, b]" | a b c where "ps = [a, b, c]"
  using assms by (cases ps rule: words4.cases) auto

lemma mic_append_byte_block:
  "mic_append_byte d b =
     (let w = mic_M d OR push_bit (8 * unat (nBytesInM d)) (ucast b) in
      if nBytesInM d + 1 \<ge> 4
      then d\<lparr>mic_L := fst (michael_block w (mic_L d, mic_R d)), mic_R := snd (michael_block w (mic_L d, mic_R d)),
             mic_M := 0, nBytesInM := 0\<rparr>
      else d\<lparr>mic_M := w, nBytesInM := nBytesInM d + 1\<rparr>)"
proof -
  have rot: "ROL32 w 17 = word_rotl 17 w" "ROL32 w 3 = word_rotl 3 w" "ROR32 w 2 = word_rotr 2 w" for w
    by (simp_all add: ROL32_rotl ROR32_rotr)
  show ?thesis
    unfolding mic_append_byte_def michael_block_def XSWAP_masks rot Let_def split_conv fst_conv snd_conv
    by (rule refl)
qed

lemma mic_append_byte_keys [simp]:
  "mic_K0 (mic_append_byte d b) = mic_K0 d" "mic_K1 (mic_append_byte d b) = mic_K1 d"
  by (simp_all add: mic_append_byte_block Let_def)

lemma mic_append_byte_rep:
  assumes "mic_rep d lr ps"
  shows "if length ps = 3
    then mic_rep (mic_append_byte d b) (michael_block (le32_of (ps ! 0) (ps ! 1) (ps ! 2) b) lr) []
    else mic_rep (mic_append_byte d b) lr (ps @ [b])"
proof -
  have len: "length ps < 4" using assms by (simp add: mic_rep_def)
  have z: "le32_of 0 0 0 0 = 0" "\<not> (4 :: u32) \<le> 1" by (simp_all add: le32_of_def word_le_nat_alt)
  show ?thesis
    using len assms
    by (cases rule: length_less_4_cases)
      (auto simp: mic_rep_def mic_append_byte_block Let_def le32_of_def or.assoc z)
qed

lemma mic_append_rep:
  "mic_rep d lr ps \<Longrightarrow>
   mic_rep (wf_sec_mic_append d bs) (fold michael_block (words4 (ps @ bs)) lr)
     (drop (4 * (length (ps @ bs) div 4)) (ps @ bs))"
proof (induction bs arbitrary: d lr ps)
  case Nil
  then have "length ps < 4" by (simp add: mic_rep_def)
  then show ?case using Nil by (cases rule: length_less_4_cases) auto
next
  case (Cons b bs)
  show ?case
  proof (cases "length ps = 3")
    case True
    then obtain x y z where ps: "ps = [x, y, z]"
      by (metis (no_types) length_0_conv length_Suc_conv numeral_3_eq_3)
    have "mic_rep (mic_append_byte d b) (michael_block (le32_of x y z b) lr) []"
      using mic_append_byte_rep [OF Cons.prems, of b] ps by simp
    moreover have "4 * ((4 + length bs) div 4) = Suc (Suc (Suc (Suc (4 * (length bs div 4)))))" by presburger
    ultimately show ?thesis using Cons.IH [of "mic_append_byte d b" "michael_block (le32_of x y z b) lr" "[]"]
      by (simp add: ps)
  next
    case False
    then have "mic_rep (mic_append_byte d b) lr (ps @ [b])"
      using mic_append_byte_rep [OF Cons.prems, of b] by simp
    from Cons.IH [OF this] show ?thesis by simp
  qed
qed

lemma mic_append_append: "wf_sec_mic_append d (as @ bs) = wf_sec_mic_append (wf_sec_mic_append d as) bs"
  by (induction as arbitrary: d) simp_all

lemma mic_append_keys [simp]:
  "mic_K0 (wf_sec_mic_append d bs) = mic_K0 d" "mic_K1 (wf_sec_mic_append d bs) = mic_K1 d"
  by (induction bs arbitrary: d) simp_all

lemma mic_pad_loop_rep:
  "mic_rep d lr ps \<Longrightarrow> k = (4 - length ps) mod 4 \<Longrightarrow>
   mic_pad_loop d = Some (wf_sec_mic_append d (replicate k 0))"
proof (induction k arbitrary: d lr ps)
  case 0
  then have "length ps < 4" by (simp add: mic_rep_def)
  then have "length ps = 0" using 0(2) by (cases rule: length_less_4_cases) auto
  then have "nBytesInM d = 0" using 0 by (simp add: mic_rep_def)
  then show ?case by (subst mic_pad_loop.simps) simp
next
  case (Suc k)
  have len: "length ps < 4" "ps \<noteq> []" using Suc.prems by (auto simp: mic_rep_def)
  then have "nBytesInM d \<noteq> 0" using Suc.prems(1)
    by (cases rule: length_less_4_cases) (auto simp: mic_rep_def)
  then have step: "mic_pad_loop d = mic_pad_loop (mic_append_byte d 0)"
    by (subst mic_pad_loop.simps) simp
  have "\<exists>lr' ps'. mic_rep (mic_append_byte d 0) lr' ps' \<and> k = (4 - length ps') mod 4"
  proof (cases "length ps = 3")
    case True
    then show ?thesis
      using mic_append_byte_rep [OF Suc.prems(1), of 0] Suc.prems(2) by (intro exI [of _ "[]"] exI) auto
  next
    case False
    then have "mic_rep (mic_append_byte d 0) lr (ps @ [0])"
      using mic_append_byte_rep [OF Suc.prems(1), of 0] by simp
    moreover have "k = (4 - length (ps @ [0 :: u8])) mod 4"
      using len(1) False len(2) Suc.prems(2) by (cases rule: length_less_4_cases) auto
    ultimately show ?thesis by blast
  qed
  then show ?case using Suc.IH step by auto
qed

lemma mic_set_key_rep:
  "mic_rep (wf_sec_mic_set_key d key)
     (le32_of (key ! 0) (key ! 1) (key ! 2) (key ! 3),
      le32_of (drop 4 key ! 0) (drop 4 key ! 1) (drop 4 key ! 2) (drop 4 key ! 3)) []"
proof -
  have "le32_of 0 0 0 0 = 0" by (simp add: le32_of_def)
  then show ?thesis
    by (simp add: wf_sec_mic_set_key_def clr_secmic_def mic_rep_def get_usecmic_le32)
qed

lemma pad_count: "(4 - (L + 5) mod 4) mod 4 = (3 - L mod 4) mod (4 :: nat)"
proof -
  have "(L + 5) mod 4 = (L mod 4 + 1) mod 4" by presburger
  moreover have "L mod 4 = 0 \<or> L mod 4 = 1 \<or> L mod 4 = 2 \<or> L mod 4 = 3" by presburger
  ultimately show ?thesis by auto
qed

lemma wf_sec_get_mic_pad:
  assumes rep: "mic_rep d lr []"
  shows "wf_sec_get_mic (wf_sec_mic_append d msg) =
    Some (clr_secmic (wf_sec_mic_append d (michael_pad msg)),
      le32_bytes (mic_L (wf_sec_mic_append d (michael_pad msg))) @
      le32_bytes (mic_R (wf_sec_mic_append d (michael_pad msg))))"
proof -
  let ?m = "msg @ [0x5a, 0, 0, 0, 0]" and ?k = "(3 - length msg mod 4) mod 4"
  have "mic_rep (wf_sec_mic_append d ?m) (fold michael_block (words4 ?m) lr)
      (drop (4 * (length ?m div 4)) ?m)"
    using mic_append_rep [OF rep, of ?m] by simp
  moreover have "length (drop (4 * (length ?m div 4)) ?m) = (length msg + 5) mod 4"
  proof -
    have "length ?m = length msg + 5" by simp
    then show ?thesis by (simp only: length_drop minus_mult_div_eq_mod)
  qed
  ultimately have "mic_pad_loop (wf_sec_mic_append d ?m) =
      Some (wf_sec_mic_append (wf_sec_mic_append d ?m) (replicate ?k 0))"
    using mic_pad_loop_rep pad_count by metis
  moreover have "wf_sec_mic_append (wf_sec_mic_append d ?m) (replicate ?k 0) = wf_sec_mic_append d (michael_pad msg)"
    by (simp only: mic_append_append [symmetric] michael_pad_def append_assoc)
  moreover have "wf_sec_mic_append d ?m =
      mic_append_byte (mic_append_byte (mic_append_byte (mic_append_byte
        (mic_append_byte (wf_sec_mic_append d msg) 0x5a) 0) 0) 0) 0"
    by (simp add: mic_append_append)
  ultimately show ?thesis
    by (simp add: wf_sec_get_mic_def put_usecmic_le32)
qed

lemma mic_append_chunks:
  "fold (\<lambda>bs d. wf_sec_mic_append d bs) chunks d = wf_sec_mic_append d (concat chunks)"
  by (induction chunks arbitrary: d) (simp_all add: mic_append_append)

lemma michael_pad_length: "length (michael_pad msg) mod 4 = 0"
proof -
  let ?L = "length msg" and ?k = "(3 - length msg mod 4) mod 4"
  have "length (michael_pad msg) = ?L + (5 + ?k)" by (simp add: michael_pad_def)
  moreover have "(?L + (5 + ?k)) mod 4 = (?L mod 4 + (5 + ?k)) mod 4" by (simp only: mod_add_left_eq)
  moreover have "?L mod 4 = 0 \<or> ?L mod 4 = 1 \<or> ?L mod 4 = 2 \<or> ?L mod 4 = 3" by presburger
  ultimately show ?thesis by auto
qed

section \<open>Dispatch\<close>

definition wf_sec_encrypt ::
  "bool \<Rightarrow> crc_global \<Rightarrow> sec_info \<Rightarrow> xmit_frame option \<Rightarrow> bytes option \<Rightarrow> u32 \<Rightarrow>
     (crc_global \<times> bytes option \<times> int) option" where
  "wf_sec_encrypt richv200 g sec xmitframe pdata n =
     (case (xmitframe, pdata) of
        (Some xf, Some pd) \<Rightarrow>
          if n = 0 then Some (g, pdata, -1)
          else if xf_encrypt_algo xf = TKIP
          then map_option (\<lambda>(g', p, r). (g', Some p, r)) (tkip_encrypt richv200 g sec xf pd n)
          else if xf_encrypt_algo xf = WEP40 \<or> xf_encrypt_algo xf = WEP104
          then map_option (\<lambda>(g', p, r). (g', Some p, r)) (wep_encrypt richv200 g sec xf pd n)
          else Some (g, pdata, 0)
      | _ \<Rightarrow> Some (g, pdata, -1))"

definition GET_HDR_Protected :: "bytes \<Rightarrow> bool option" where
  "GET_HDR_Protected pbuf = do {
     b0 \<leftarrow> rd8 pbuf 0; b1 \<leftarrow> rd8 pbuf 1; Some (bit (le16_of b0 b1) 14)
   }"

definition wf_sec_decryptor ::
  "crc_global \<Rightarrow> sec_info \<Rightarrow> wdn_list \<Rightarrow> wdn_mem \<Rightarrow> rx_pkt \<Rightarrow> (crc_global \<times> rx_pkt \<times> int) option" where
  "wf_sec_decryptor g sec wl m prx_pkt = do {
     prot \<leftarrow> GET_HDR_Protected (rp_pdata prx_pkt);
     let algo = ri_encrypt_algo (pkt_info prx_pkt);
     (g', pkt, res) \<leftarrow>
       (if prot \<and> (algo = WEP40 \<or> algo = WEP104) then wep_decrypt g sec prx_pkt
        else if prot \<and> algo = TKIP then tkip_decrypt g sec wl m prx_pkt
        else Some (g, prx_pkt, 0));
     Some (g', pkt\<lparr>pkt_info := (pkt_info pkt)\<lparr>ri_bdecrypted := 1\<rparr>\<rparr>, res)
   }"

text \<open>\<open>nic_info->sec_info\<close> through \<open>wf_sec_info_init\<close> (with or without memory) and
  \<open>wf_sec_info_term\<close>.\<close>

definition sec_info_zero :: sec_info where
  "sec_info_zero =
     \<lparr>dot11AuthAlgrthm = 0, dot11PrivacyAlgrthm = 0, dot11PrivacyKeyIndex = 0,
      dot11DefKey = replicate 4 (replicate 16 0), dot11DefKeylen = replicate 4 0,
      dot118021XGrpPrivacy = 0, dot118021XGrpKeyid = 0,
      dot118021XGrpKey = replicate 4 (replicate 16 0), binstallGrpkey = 0\<rparr>"

definition wf_sec_info_init :: "bool \<Rightarrow> sec_info option \<times> int" where
  "wf_sec_info_init memory = (if memory then (Some sec_info_zero, 0) else (None, -1))"

definition wf_sec_info_term :: "sec_info option \<Rightarrow> sec_info option \<times> int" where
  "wf_sec_info_term sec = (case sec of None \<Rightarrow> (None, 0) | Some _ \<Rightarrow> (None, 0))"

subsection \<open>Decryption only touches the payload\<close>

lemma wrn_take: "wrn buf i bs = Some buf' \<Longrightarrow> take i buf' = take i buf \<and> length buf' = length buf"
  by (auto simp: wrn_def split: if_splits)

lemma arc4_buf_frame:
  assumes "arc4_encrypt_buf ctx dst d src so n = Some (ctx', dst')"
  shows "take d dst' = take d dst \<and> length dst' = length dst"
  using assms by (auto simp: arc4_encrypt_buf_def bind_eq_Some_conv case_prod_beta dest: wrn_take)

definition payload_at :: "rx_pkt \<Rightarrow> nat" where
  "payload_at pkt = unat (ucast (ri_wlan_hdr_len (pkt_info pkt)) + ucast (ri_iv_len (pkt_info pkt)) :: u32)"

definition payload_only :: "rx_pkt \<Rightarrow> rx_pkt \<Rightarrow> bool" where
  "payload_only pkt pkt' \<longleftrightarrow> rp_len pkt' = rp_len pkt \<and> length (rp_pdata pkt') = length (rp_pdata pkt) \<and>
     take (payload_at pkt) (rp_pdata pkt') = take (payload_at pkt) (rp_pdata pkt)"

lemma wep_decrypt_payload_only:
  assumes "wep_decrypt g sec pkt = Some (g', pkt', r)"
  shows "payload_only pkt pkt' \<and> pkt_info pkt' = pkt_info pkt"
  using assms
  by (auto simp: wep_decrypt_def Let_def bind_eq_Some_conv payload_only_def payload_at_def dest!: arc4_buf_frame)

lemma tkip_decrypt_payload_only:
  assumes "tkip_decrypt g sec wl m pkt = Some (g', pkt', r)"
  shows "payload_only pkt pkt' \<and> pkt_info pkt' = pkt_info pkt"
proof -
  obtain key where key: "tkip_rx_key sec wl m pkt = Some key"
    using assms by (cases "tkip_rx_key sec wl m pkt") (auto simp: tkip_decrypt_def Let_def)
  show ?thesis
  proof (cases key)
    case (Inl res)
    then show ?thesis using assms key by (auto simp: tkip_decrypt_def Let_def payload_only_def)
  next
    case (Inr k)
    then show ?thesis
      using assms key
      by (auto simp: tkip_decrypt_def Let_def bind_eq_Some_conv payload_only_def payload_at_def
          dest!: arc4_buf_frame)
  qed
qed

section \<open>Properties\<close>

text \<open>(C20) The MIC computed with a key and the message appended in any pieces is Michael of the
  whole message; computing it terminates and leaves the context as \<open>wf_sec_mic_set_key\<close> set it.\<close>

theorem michael_correct:
  assumes "8 \<le> length key"
  shows "wf_sec_get_mic (fold (\<lambda>bs d. wf_sec_mic_append d bs) chunks (wf_sec_mic_set_key d key)) =
    Some (wf_sec_mic_set_key d key, michael_ref key (concat chunks))"
proof -
  let ?d = "wf_sec_mic_set_key d key" and ?p = "michael_pad (concat chunks)"
  have k: "drop 4 key ! 0 = key ! 4" "drop 4 key ! 1 = key ! 5" "drop 4 key ! 2 = key ! 6" "drop 4 key ! 3 = key ! 7"
    using assms by simp_all
  note rep = mic_set_key_rep [of d key, unfolded k]
  have "mic_rep (wf_sec_mic_append ?d ?p) (fold michael_block (words4 ?p)
      (le32_of (key ! 0) (key ! 1) (key ! 2) (key ! 3), le32_of (key ! 4) (key ! 5) (key ! 6) (key ! 7))) []"
    using mic_append_rep [OF rep, of ?p] michael_pad_length [of "concat chunks"]
    by (simp add: mod_0_imp_dvd)
  then have "michael_ref key (concat chunks) =
      le32_bytes (mic_L (wf_sec_mic_append ?d ?p)) @ le32_bytes (mic_R (wf_sec_mic_append ?d ?p))"
    by (simp add: michael_ref_def mic_rep_def case_prod_beta)
  moreover have "clr_secmic (wf_sec_mic_append ?d ?p) = ?d"
    by (simp add: clr_secmic_def wf_sec_mic_set_key_def)
  ultimately show ?thesis
    using wf_sec_get_mic_pad [OF rep, of "concat chunks"] by (simp add: mic_append_chunks)
qed

lemma michael_correct_witness:
  "wf_sec_get_mic (wf_sec_mic_append (wf_sec_mic_append
      (wf_sec_mic_set_key \<lparr>mic_K0 = 0, mic_K1 = 0, mic_L = 0, mic_R = 0, mic_M = 0, nBytesInM = 0\<rparr>
        [0, 0, 0, 0, 0, 0, 0, 0]) [0x4d]) [0x69]) =
    Some (wf_sec_mic_set_key \<lparr>mic_K0 = 0, mic_K1 = 0, mic_L = 0, mic_R = 0, mic_M = 0, nBytesInM = 0\<rparr>
        [0, 0, 0, 0, 0, 0, 0, 0], michael_ref [0, 0, 0, 0, 0, 0, 0, 0] [0x4d, 0x69])"
  using michael_correct [of "[0, 0, 0, 0, 0, 0, 0, 0]" "[[0x4d], [0x69]]"] by simp

text \<open>\<open>wf_sec_decryptor\<close> marks every packet it handles as decrypted and changes no byte before
  the payload and no length; a frame without the Protected bit, or one whose cipher the
  hardware handles, is left alone with result 0.\<close>

theorem wf_sec_decryptor_frame:
  assumes "wf_sec_decryptor g sec wl m pkt = Some (g', pkt', r)"
  shows "payload_only pkt pkt' \<and> ri_bdecrypted (pkt_info pkt') = 1 \<and>
    (GET_HDR_Protected (rp_pdata pkt) = Some False \<or>
       ri_encrypt_algo (pkt_info pkt) \<notin> {WEP40, WEP104, TKIP} \<longrightarrow>
     rp_pdata pkt' = rp_pdata pkt \<and> r = 0 \<and> g' = g)"
proof -
  have self: "payload_only pkt pkt" by (simp add: payload_only_def)
  have upd: "payload_only pkt (p\<lparr>pkt_info := i\<rparr>) = payload_only pkt p" for p i
    by (simp add: payload_only_def)
  show ?thesis
    using assms self
    by (auto simp: wf_sec_decryptor_def Let_def bind_eq_Some_conv upd split: if_splits
        dest: wep_decrypt_payload_only tkip_decrypt_payload_only)
qed

lemma wf_sec_decryptor_frame_witness:
  "\<exists>g' p r. wf_sec_decryptor \<lparr>bcrc32initialized = 0, crc32_table = []\<rparr> wep_sample_sec wl_ex wdn_mem_ex
      (tkip_sample_pkt\<lparr>rp_pdata := [8, 0, 0], rp_len := 3\<rparr>) = Some (g', p, r) \<and>
    rp_pdata p = [8, 0, 0] \<and> ri_bdecrypted (pkt_info p) = 1"
proof -
  let ?pkt = "tkip_sample_pkt\<lparr>rp_pdata := [8, 0, 0], rp_len := 3\<rparr>"
  have prot: "GET_HDR_Protected (rp_pdata ?pkt) = Some False"
    by (simp add: GET_HDR_Protected_def rd8_def le16_of_def bit_simps)
  then obtain g' p r where e: "wf_sec_decryptor \<lparr>bcrc32initialized = 0, crc32_table = []\<rparr> wep_sample_sec wl_ex
      wdn_mem_ex ?pkt = Some (g', p, r)"
    by (simp add: wf_sec_decryptor_def Let_def)
  from wf_sec_decryptor_frame [OF e] prot e show ?thesis by auto
qed

end
