(* ===== verification/Wf_80211.thy ===== *)
theory Wf_80211
  imports Wf_Prelude "HOL-Library.Signed_Division"
begin

text \<open>
  \<open>src/trunk_driver/nic/wf_80211.c\<close>: searching the information elements of a management frame,
  recognising SNAP headers and the BSSID, parsing the RSN, WPA, WMM and WPS elements, and the
  channel numbers. Elements are found by walking a buffer; a pointer to an element is its offset
  in the buffer, a NULL pointer is \<open>None\<close>. Reads outside the buffer and walks that do not end
  give the outer \<open>None\<close>.

  The searches are proved against a list of elements: on the encoding of a list they return the
  offset of the first element that matches. Several functions do not do what they are for, and
  the theorems at the end say exactly what they do instead.
\<close>

section \<open>Searching elements\<close>

partial_function (option) ies_search_loop ::
  "(nat \<Rightarrow> bool option) \<Rightarrow> bytes \<Rightarrow> u16 \<Rightarrow> u16 \<Rightarrow> nat option option" where
  "ies_search_loop hit pstart var_len offset =
     Option.bind (hit (unat offset)) (\<lambda>h.
       if h then Some (Some (unat offset))
       else Option.bind (rd8 pstart (unat offset + 1)) (\<lambda>l.
         if offset + (2 + ucast l) \<ge> var_len then Some None
         else ies_search_loop hit pstart var_len (offset + (2 + ucast l))))"

text \<open>\<open>pout\<close> says whether the result pointer is given. The result is the return code and the
  element found.\<close>

definition wf_80211_mgmt_ies_search ::
  "bytes option \<Rightarrow> u16 \<Rightarrow> u8 \<Rightarrow> bool \<Rightarrow> (int \<times> nat option) option" where
  "wf_80211_mgmt_ies_search pvar var_len cmp_id pout =
     (case pvar of
        None \<Rightarrow> Some (WF_RETURN_FAIL, None)
      | Some buf \<Rightarrow>
          if \<not> pout then Some (WF_RETURN_FAIL, None)
          else do {
            r \<leftarrow> ies_search_loop (\<lambda>ofs. do { e \<leftarrow> rd8 buf ofs; Some (e = cmp_id) }) buf var_len 0;
            Some (case r of None \<Rightarrow> (WF_RETURN_FAIL, None) | Some pie \<Rightarrow> (WF_RETURN_OK, Some pie))
          })"

definition wf_80211_mgmt_ies_search_with_oui ::
  "bytes option \<Rightarrow> u16 \<Rightarrow> u8 \<Rightarrow> bytes \<Rightarrow> bool \<Rightarrow> (int \<times> nat option) option" where
  "wf_80211_mgmt_ies_search_with_oui pies ies_len cmp_id oui ppie =
     (case pies of
        None \<Rightarrow> Some (WF_RETURN_FAIL, None)
      | Some buf \<Rightarrow>
          if \<not> ppie then Some (WF_RETURN_FAIL, None)
          else do {
            r \<leftarrow> ies_search_loop
                   (\<lambda>ofs. do {
                      e \<leftarrow> rd8 buf ofs;
                      if e = cmp_id then do { d \<leftarrow> rdn buf (ofs + 2) 4; Some (d = oui) } else Some False
                    }) buf ies_len 0;
            Some (case r of None \<Rightarrow> (WF_RETURN_FAIL, None) | Some pie \<Rightarrow> (WF_RETURN_OK, Some pie))
          })"

text \<open>The new write position and \<open>*frlen\<close>.\<close>

definition wf_80211_set_fixed_ie :: "bytes \<Rightarrow> nat \<Rightarrow> bytes \<Rightarrow> u16 \<Rightarrow> (bytes \<times> nat \<times> u16) option" where
  "wf_80211_set_fixed_ie buf pbuf source frlen = do {
     buf' \<leftarrow> wrn buf pbuf source;
     Some (buf', pbuf + length source, frlen + of_nat (length source))
   }"

section \<open>Headers\<close>

definition is_snap_hdr :: "bytes \<Rightarrow> bool option" where
  "is_snap_hdr phdr = do {
     psnap \<leftarrow> rdn phdr 0 6;
     rfc1042 \<leftarrow> (if psnap = [0xaa, 0xaa, 0x03, 0x00, 0x00, 0x00] then do {
                  t \<leftarrow> rdn phdr 6 2;
                  Some (t \<noteq> [0x81, 0x37] \<and> t \<noteq> [0x80, 0xf3])
                } else Some False);
     Some (rfc1042 \<or> psnap = [0xaa, 0xaa, 0x03, 0x00, 0x00, 0xf8])
   }"

text \<open>\<open>GET_HDR_To_From_DS(pbuf) >> 8\<close> is the pair of bits 8 (to DS) and 9 (from DS).\<close>

definition get_bssid :: "bytes \<Rightarrow> nat option option" where
  "get_bssid pbuf = do {
     b0 \<leftarrow> rd8 pbuf 0; b1 \<leftarrow> rd8 pbuf 1;
     let ds = drop_bit 8 (le16_of b0 b1 AND 0x0300);
     Some (if ds = 0 then Some 16 else if ds = 1 then Some 4 else if ds = 2 then Some 10 else None)
   }"

section \<open>RSN and WPA elements\<close>

abbreviation (input) CIPHER_SUITE_NONE :: u32 where "CIPHER_SUITE_NONE \<equiv> 1"
abbreviation (input) CIPHER_SUITE_WEP40 :: u32 where "CIPHER_SUITE_WEP40 \<equiv> 2"
abbreviation (input) CIPHER_SUITE_WEP104 :: u32 where "CIPHER_SUITE_WEP104 \<equiv> 4"
abbreviation (input) CIPHER_SUITE_TKIP :: u32 where "CIPHER_SUITE_TKIP \<equiv> 8"
abbreviation (input) CIPHER_SUITE_CCMP :: u32 where "CIPHER_SUITE_CCMP \<equiv> 16"

definition rsne_cipher_suite_parse :: "u32 \<Rightarrow> u32" where
  "rsne_cipher_suite_parse cipher_suite =
     (if cipher_suite = 0x000FAC00 then CIPHER_SUITE_NONE
      else if cipher_suite = 0x000FAC01 then CIPHER_SUITE_WEP40
      else if cipher_suite = 0x000FAC05 then CIPHER_SUITE_WEP104
      else if cipher_suite = 0x000FAC02 then CIPHER_SUITE_TKIP
      else if cipher_suite = 0x000FAC04 then CIPHER_SUITE_CCMP
      else 0)"

definition get_wpa_cipher_suite :: "u32 \<Rightarrow> u32" where
  "get_wpa_cipher_suite cipher_suite =
     (if drop_bit 8 cipher_suite \<noteq> 0x0050f2 then 0
      else let type = (ucast cipher_suite :: u8) in
        if type = 0 then CIPHER_SUITE_NONE
        else if type = 1 then CIPHER_SUITE_WEP40
        else if type = 2 then CIPHER_SUITE_TKIP
        else if type = 4 then CIPHER_SUITE_CCMP
        else if type = 5 then CIPHER_SUITE_WEP104
        else 0)"

definition rd_be32 :: "bytes \<Rightarrow> nat \<Rightarrow> u32 option" where
  "rd_be32 buf pos = do {
     a \<leftarrow> rd8 buf pos; b \<leftarrow> rd8 buf (pos + 1); c \<leftarrow> rd8 buf (pos + 2); d \<leftarrow> rd8 buf (pos + 3);
     Some (be32_of a b c d)
   }"

text \<open>The loop over \<open>n\<close> cipher suites at \<open>pos\<close>, shared by both parsers.\<close>

fun cipher_list_loop :: "(u32 \<Rightarrow> u32) \<Rightarrow> bytes \<Rightarrow> nat \<Rightarrow> nat \<Rightarrow> u32 \<Rightarrow> u32 option" where
  "cipher_list_loop suite buf pos 0 acc = Some acc"
| "cipher_list_loop suite buf pos (Suc n) acc = do {
     c \<leftarrow> rd_be32 buf pos;
     cipher_list_loop suite buf (pos + 4) n (acc OR suite c)
   }"

text \<open>What both parsers do from the version field at \<open>pos\<close> on, with \<open>left\<close> bytes left:
  the return code and the values stored through the two result pointers (\<open>None\<close>: not stored).
  \<open>pg\<close> and \<open>pp\<close> say whether the pointers are given. The error codes are the same in both
  functions.\<close>

definition cipher_fields ::
  "(u32 \<Rightarrow> u32) \<Rightarrow> bytes \<Rightarrow> nat \<Rightarrow> u8 \<Rightarrow> bool \<Rightarrow> bool \<Rightarrow> (int \<times> u32 option \<times> u32 option) option" where
  "cipher_fields suite buf pos left pg pp =
     (if left < 2 then Some (-3, None, None)
      else do {
        version \<leftarrow> rd_le16 buf pos;
        if version \<noteq> 1 then Some (-4, None, None)
        else let left = left - 2; pos = pos + 2 in
          if left = 0 then Some (0, None, None)
          else if left < 4 then Some (-5, None, None)
          else do {
            grp \<leftarrow> (if pg then map_option (\<lambda>c. Some (suite c)) (rd_be32 buf pos) else Some None);
            let left = left - 4; pos = pos + 4 in
            if left = 0 then Some (0, grp, None)
            else if left < 2 then Some (-6, grp, None)
            else do {
              cnt \<leftarrow> rd_le16 buf pos;
              let left = left - 2; pos = pos + 2 in
              if cnt = 0 \<or> unat left < unat cnt * 4 then Some (-7, grp, None)
              else if pp then map_option (\<lambda>ciphers. (0, grp, Some ciphers))
                                (cipher_list_loop suite buf pos (unat cnt) 0)
              else Some (0, grp, None)
            }
          }
      })"

text \<open>The element at offset \<open>pie\<close>; \<open>left\<close> is an 8-bit variable.\<close>

definition wf_80211_mgmt_rsn_parse ::
  "bytes option \<Rightarrow> nat \<Rightarrow> u16 \<Rightarrow> bool \<Rightarrow> bool \<Rightarrow> (int \<times> u32 option \<times> u32 option) option" where
  "wf_80211_mgmt_rsn_parse prsn pie n pg pp =
     (case prsn of
        None \<Rightarrow> Some (-1, None, None)
      | Some buf \<Rightarrow>
          if n = 0 then Some (-1, None, None)
          else do {
            e \<leftarrow> rd8 buf pie;
            good \<leftarrow> (if e = 48 then do { l \<leftarrow> rd8 buf (pie + 1); Some (2 + unat l \<le> unat n) } else Some False);
            if \<not> good then Some (-2, None, None)
            else cipher_fields rsne_cipher_suite_parse buf (pie + 2) (ucast (n - 2)) pg pp
          })"

definition wf_80211_mgmt_wpa_parse ::
  "bytes option \<Rightarrow> nat \<Rightarrow> u16 \<Rightarrow> bool \<Rightarrow> bool \<Rightarrow> (int \<times> u32 option \<times> u32 option) option" where
  "wf_80211_mgmt_wpa_parse pwpa pie n pg pp =
     (case pwpa of
        None \<Rightarrow> Some (-1, None, None)
      | Some buf \<Rightarrow>
          if n = 0 then Some (-1, None, None)
          else do {
            e \<leftarrow> rd8 buf pie;
            good \<leftarrow> (if e = 221 then do { l \<leftarrow> rd8 buf (pie + 1); Some (2 + unat l \<le> unat n) } else Some False);
            if \<not> good then Some (-2, None, None)
            else let left = (ucast (n - 2) :: u8) in
              if left < 4 then Some (-3, None, None)
              else do {
                oui_type \<leftarrow> rd_be32 buf (pie + 2);
                if oui_type \<noteq> 0x0050f201 then Some (-4, None, None)
                else cipher_fields get_wpa_cipher_suite buf (pie + 6) (left - 4) pg pp
              }
          })"

text \<open>The surveys walk the elements with the parser until one is accepted; the remaining length
  is a 16-bit variable. The result adds the accepted element and its remaining length. The
  stored ciphers are those of the last parse that stored any.\<close>

type_synonym survey = "int \<times> (nat \<times> u16) option \<times> u32 option \<times> u32 option"

partial_function (option) survey_loop ::
  "(nat \<Rightarrow> u16 \<Rightarrow> (int \<times> u32 option \<times> u32 option) option) \<Rightarrow> bytes \<Rightarrow> nat \<Rightarrow> u16 \<Rightarrow>
     u32 option \<Rightarrow> u32 option \<Rightarrow> survey option" where
  "survey_loop parse buf pie ie_len g p =
     Option.bind (parse pie ie_len) (\<lambda>(ret, g', p').
       let g = (if g' = None then g else g'); p = (if p' = None then p else p') in
       if ret = 0 then Some (ret, Some (pie, ie_len), g, p)
       else Option.bind (rd8 buf (pie + 1)) (\<lambda>l.
         if ie_len - (2 + ucast l) \<le> 2 then Some (ret, None, g, p)
         else survey_loop parse buf (pie + 2 + unat l) (ie_len - (2 + ucast l)) g p))"

definition wf_80211_mgmt_rsn_survey :: "bytes \<Rightarrow> u16 \<Rightarrow> bool \<Rightarrow> bool \<Rightarrow> survey option" where
  "wf_80211_mgmt_rsn_survey buf n pg pp =
     survey_loop (\<lambda>pie len. wf_80211_mgmt_rsn_parse (Some buf) pie len pg pp) buf 0 n None None"

definition wf_80211_mgmt_wpa_survey :: "bytes \<Rightarrow> u16 \<Rightarrow> bool \<Rightarrow> bool \<Rightarrow> survey option" where
  "wf_80211_mgmt_wpa_survey buf n pg pp =
     survey_loop (\<lambda>pie len. wf_80211_mgmt_wpa_parse (Some buf) pie len pg pp) buf 0 n None None"

definition wf_80211_mgmt_wmm_parse :: "bytes option \<Rightarrow> u16 \<Rightarrow> int option" where
  "wf_80211_mgmt_wmm_parse pwmm n =
     (case pwmm of
        None \<Rightarrow> Some (-1)
      | Some buf \<Rightarrow>
          if n = 0 then Some (-1)
          else do {
            e \<leftarrow> rd8 buf 0;
            good \<leftarrow> (if e = 221 then do { l \<leftarrow> rd8 buf 1; Some (2 + unat l \<le> unat n) } else Some False);
            if \<not> good then Some (-2)
            else do {
              oui \<leftarrow> rdn buf 2 3;
              type \<leftarrow> (if oui = [0x00, 0x50, 0xf2] then map_option (\<lambda>t. t = 2) (rd8 buf 5) else Some False);
              if \<not> type then Some (-3)
              else do {
                subtype \<leftarrow> rd8 buf 6;
                version \<leftarrow> (if subtype = 0 then map_option (\<lambda>v. v = 1) (rd8 buf 7) else Some False);
                Some (if version then 0 else -4)
              }
            }
          })"

section \<open>Security and WPS elements\<close>

text \<open>The empty loop \<open>for (i = 0; i < n; i = i + 8)\<close> of \<open>wf_wlan_get_sec_ie\<close>, with an 8-bit
  counter.\<close>

partial_function (option) sec_ie_spin :: "nat \<Rightarrow> u8 \<Rightarrow> unit option" where
  "sec_ie_spin n i = (if unat i < n then sec_ie_spin n (i + 8) else Some ())"

record sec_ie_out =
  so_in :: bytes
  so_rsn :: "bytes option"
  so_rsn_len :: u16
  so_wpa_len :: u16

text \<open>The walk of \<open>wf_wlan_get_sec_ie\<close>. The test for a WPA element calls \<open>wf_memcpy\<close> on the
  element: it overwrites the four bytes after its header, and the pointer it returns is never
  NULL, so the branch that would copy the element is not taken. \<open>rsn\<close> says whether the caller
  passes a buffer for the RSN element.\<close>

partial_function (option) sec_ie_loop :: "u32 \<Rightarrow> bool \<Rightarrow> u32 \<Rightarrow> sec_ie_out \<Rightarrow> sec_ie_out option" where
  "sec_ie_loop in_len rsn cnt st =
     (if \<not> cnt < in_len then Some st
      else Option.bind (rd8 (so_in st) (unat cnt)) (\<lambda>authmode.
        Option.bind (if authmode = 0xdd then wrn (so_in st) (unat (cnt + 2)) [0x0, 0x50, 0xf2, 0x01]
                     else Some (so_in st)) (\<lambda>ie.
        Option.bind (rd8 ie (unat (cnt + 1))) (\<lambda>l.
        if authmode = 0x30 then
          Option.bind (if rsn then Option.bind (rdn ie (unat cnt) (unat l + 2)) (\<lambda>bs.
                         Option.bind (sec_ie_spin (unat l + 2) 0) (\<lambda>_. Some (Some bs)))
                       else Some (so_rsn st)) (\<lambda>out.
            sec_ie_loop in_len rsn (cnt + (ucast l + 2))
              (st\<lparr>so_in := ie, so_rsn := out, so_rsn_len := ucast l + 2\<rparr>))
        else sec_ie_loop in_len rsn (cnt + (ucast l + 2)) (st\<lparr>so_in := ie\<rparr>)))))"

definition wf_wlan_get_sec_ie ::
  "bytes \<Rightarrow> u32 \<Rightarrow> bool \<Rightarrow> u16 \<Rightarrow> u16 \<Rightarrow> bool \<Rightarrow> (sec_ie_out \<times> int) option" where
  "wf_wlan_get_sec_ie in_ie in_len rsn rsn_len wpa_len flag = do {
     let st = \<lparr>so_in = in_ie, so_rsn = None, so_rsn_len = rsn_len, so_wpa_len = wpa_len\<rparr>;
     st' \<leftarrow> (if flag then sec_ie_loop in_len rsn 12 st else Some st);
     Some (st', uint (so_rsn_len st') + uint (so_wpa_len st'))
   }"

definition wf_wlan_check_is_wps_ie :: "bytes option \<Rightarrow> (bool \<times> u32 option) option" where
  "wf_wlan_check_is_wps_ie ie_ptr =
     (case ie_ptr of
        None \<Rightarrow> Some (False, None)
      | Some ie \<Rightarrow> do {
          eid \<leftarrow> rd8 ie 0;
          oui \<leftarrow> (if eid = 0xdd then map_option (\<lambda>d. d = [0x0, 0x50, 0xf2, 0x04]) (rdn ie 2 4) else Some False);
          if oui then do { l \<leftarrow> rd8 ie 1; Some (True, Some (ucast l + 2)) } else Some (False, None)
        })"

text \<open>\<open>wf_wlan_get_ie\<close>: the element found and \<open>*len\<close>, which is 0 when nothing is found and not
  written when the limit is below 1.\<close>

partial_function (option) get_ie_loop :: "bytes \<Rightarrow> int \<Rightarrow> int \<Rightarrow> nat \<Rightarrow> int \<Rightarrow> (nat \<times> u8) option option" where
  "get_ie_loop pbuf index limit p i =
     Option.bind (rd8 pbuf p) (\<lambda>e.
     Option.bind (rd8 pbuf (p + 1)) (\<lambda>l.
       if uint e = index then Some (Some (p, l))
       else if i + (uint l + 2) \<ge> limit then Some None
       else get_ie_loop pbuf index limit (p + (unat l + 2)) (i + (uint l + 2))))"

definition wf_wlan_get_ie :: "bytes \<Rightarrow> int \<Rightarrow> int \<Rightarrow> (nat option \<times> int option) option" where
  "wf_wlan_get_ie pbuf index limit =
     (if limit < 1 then Some (None, None)
      else do {
        r \<leftarrow> get_ie_loop pbuf index limit 0 0;
        Some (case r of None \<Rightarrow> (None, Some 0) | Some (p, l) \<Rightarrow> (Some p, Some (uint l)))
      })"

text \<open>\<open>wf_wlan_get_wps_ie\<close>: the element found, the bytes copied to \<open>wps_ie\<close> and \<open>*ie_len\<close>. The
  number of bytes copied is read from \<open>temp_ie[count + 1 + 2]\<close>.\<close>

partial_function (option) get_wps_ie_loop ::
  "bytes \<Rightarrow> u32 \<Rightarrow> bool \<Rightarrow> u32 \<Rightarrow> (nat \<times> bytes option \<times> u32) option option" where
  "get_wps_ie_loop temp_ie temp_len wps_ie cnt =
     (if \<not> cnt + 1 + 4 < temp_len then Some None
      else Option.bind (rd8 temp_ie (unat cnt)) (\<lambda>eid.
        Option.bind (if eid = 221 then map_option (\<lambda>d. d = [0x00, 0x50, 0xf2, 0x04]) (rdn temp_ie (unat (cnt + 2)) 4)
                     else Some False) (\<lambda>hit.
        Option.bind (rd8 temp_ie (unat (cnt + 1))) (\<lambda>l.
          if hit then
            Option.bind (if wps_ie
                then Option.bind (rd8 temp_ie (unat (cnt + 1 + 2))) (\<lambda>n.
                       map_option Some (rdn temp_ie (unat cnt) (unat n)))
                else Some None) (\<lambda>copy.
              Some (Some (unat cnt, copy, ucast l + 2)))
          else get_wps_ie_loop temp_ie temp_len wps_ie (cnt + (ucast l + 2))))))"

definition wf_wlan_get_wps_ie ::
  "bytes option \<Rightarrow> u32 \<Rightarrow> bool \<Rightarrow> bool \<Rightarrow> (nat option \<times> bytes option \<times> u32 option) option" where
  "wf_wlan_get_wps_ie temp_ie temp_len wps_ie ie_len =
     (case temp_ie of
        None \<Rightarrow> if ie_len then Some (None, None, Some 0) else None
      | Some buf \<Rightarrow>
          if temp_len = 0 then (if ie_len then Some (None, None, Some 0) else None)
          else do {
            r \<leftarrow> get_wps_ie_loop buf temp_len wps_ie 0;
            Some (case r of
                None \<Rightarrow> (None, None, if ie_len then Some 0 else None)
              | Some (p, copy, n) \<Rightarrow> (Some p, copy, if ie_len then Some n else None))
          })"

text \<open>The walk over WPS attributes. \<open>mc\<close> is \<open>memcmp\<close>, of which only the sign of the result is
  specified; \<open>wf_true\<close> is 1.\<close>

partial_function (option) wps_attr_loop :: "bytes \<Rightarrow> nat \<Rightarrow> u16 \<Rightarrow> nat \<Rightarrow> (nat \<times> u16) option option" where
  "wps_attr_loop wps_ie wps_ielen target attr_ptr =
     (if \<not> attr_ptr < wps_ielen then Some None
      else Option.bind (rdn wps_ie attr_ptr 4) (\<lambda>h.
        if be16_of (h ! 0) (h ! 1) = target then Some (Some (attr_ptr, be16_of (h ! 2) (h ! 3) + 4))
        else wps_attr_loop wps_ie wps_ielen target (attr_ptr + unat (be16_of (h ! 2) (h ! 3) + 4))))"

definition wf_wlan_get_wps_attr ::
  "(bytes \<Rightarrow> bytes \<Rightarrow> int) \<Rightarrow> bytes \<Rightarrow> u32 \<Rightarrow> u16 \<Rightarrow> bool \<Rightarrow> (nat option \<times> bytes option \<times> u32) option" where
  "wf_wlan_get_wps_attr mc wps_ie wps_ielen target buf_attr = do {
     e \<leftarrow> rd8 wps_ie 0;
     bad \<leftarrow> (if e \<noteq> 221 then Some True
             else map_option (\<lambda>d. mc d [0x00, 0x50, 0xF2, 0x04] \<noteq> 1) (rdn wps_ie 2 4));
     if bad then Some (None, None, 0)
     else do {
       r \<leftarrow> wps_attr_loop wps_ie (unat wps_ielen) target 6;
       case r of
         None \<Rightarrow> Some (None, None, 0)
       | Some (p, n) \<Rightarrow> do {
           copy \<leftarrow> (if buf_attr then map_option Some (rdn wps_ie p (unat n)) else Some None);
           Some (Some p, copy, ucast n)
         }
     }
   }"

definition wf_wlan_get_wps_attr_content ::
  "(bytes \<Rightarrow> bytes \<Rightarrow> int) \<Rightarrow> bytes \<Rightarrow> u32 \<Rightarrow> u16 \<Rightarrow> bool \<Rightarrow> (nat option \<times> bytes option \<times> u32) option" where
  "wf_wlan_get_wps_attr_content mc wps_ie wps_ielen target buf_content = do {
     (attr_ptr, _, attr_len) \<leftarrow> wf_wlan_get_wps_attr mc wps_ie wps_ielen target False;
     case attr_ptr of
       None \<Rightarrow> Some (None, None, 0)
     | Some p \<Rightarrow>
         if attr_len = 0 then Some (None, None, 0)
         else do {
           copy \<leftarrow> (if buf_content then map_option Some (rdn wps_ie (p + 4) (unat (attr_len - 4))) else Some None);
           Some (Some (p + 4), copy, attr_len - 4)
         }
   }"

section \<open>Channels\<close>

definition wf_ch_2_freq :: "int \<Rightarrow> int" where
  "wf_ch_2_freq ch =
     (if ch \<ge> 1 \<and> ch \<le> 13 then 2407 + ch * 5
      else if ch = 14 then 2484
      else if ch \<ge> 36 \<and> ch \<le> 177 then 5000 + ch * 5
      else 0)"

definition freq_2_ch :: "int \<Rightarrow> int" where
  "freq_2_ch freq =
     (if freq < 2484 then (freq - 2407) sdiv 5
      else if freq = 2484 then 14
      else if freq \<ge> 4910 \<and> freq \<le> 4980 then (freq - 4000) sdiv 5
      else if freq \<le> 45000 then (freq - 5000) sdiv 5
      else if freq \<ge> 58320 \<and> freq \<le> 64800 then (freq - 56160) sdiv 2160
      else 0)"

section \<open>Elements as lists\<close>

text \<open>An element is its id and its data; a list of elements is encoded one after the other.\<close>

type_synonym elem = "u8 \<times> bytes"

definition ie_enc :: "elem \<Rightarrow> bytes" where
  "ie_enc e = fst e # of_nat (length (snd e)) # snd e"

definition ies_enc :: "elem list \<Rightarrow> bytes" where
  "ies_enc es = concat (map ie_enc es)"

definition ies_ok :: "elem list \<Rightarrow> bool" where
  "ies_ok es \<longleftrightarrow> (\<forall>e\<in>set es. length (snd e) < 256) \<and> length (ies_enc es) < 2 ^ 16"

fun ie_offset :: "(elem \<Rightarrow> bool) \<Rightarrow> elem list \<Rightarrow> nat option" where
  "ie_offset P [] = None"
| "ie_offset P (e # es) = (if P e then Some 0 else map_option ((+) (length (ie_enc e))) (ie_offset P es))"

lemma length_ie_enc [simp]: "length (ie_enc e) = 2 + length (snd e)"
  by (simp add: ie_enc_def)

lemma ies_enc_simps [simp]:
  "ies_enc [] = []" "ies_enc (e # es) = ie_enc e @ ies_enc es" "ies_enc (es @ fs) = ies_enc es @ ies_enc fs"
  by (simp_all add: ies_enc_def)

lemma unat_len_byte: "n < 256 \<Longrightarrow> unat (of_nat n :: u8) = n"
  by (simp add: unsigned_of_nat take_bit_nat_eq_self)

lemma rd8_enc:
  "rd8 (ies_enc pre @ ie_enc e @ post) (length (ies_enc pre)) = Some (fst e)"
  "length (snd e) < 256 \<Longrightarrow>
   rd8 (ies_enc pre @ ie_enc e @ post) (Suc (length (ies_enc pre))) = Some (of_nat (length (snd e)))"
  by (simp_all add: rd8_def ie_enc_def nth_append)

lemma rdn_enc:
  "n \<le> length (snd e) \<Longrightarrow>
   rdn (ies_enc pre @ ie_enc e @ post) (length (ies_enc pre) + 2) n = Some (take n (snd e))"
  by (simp add: rdn_def ie_enc_def)

lemma ies_search_loop_enc:
  assumes hit: "\<And>pre e post. es = pre @ e # post \<Longrightarrow> hit (length (ies_enc pre)) = Some (P e)"
    and ok: "ies_ok es"
  shows "es = pre @ post \<Longrightarrow> post \<noteq> [] \<Longrightarrow>
    ies_search_loop hit (ies_enc es @ rest) (of_nat (length (ies_enc es))) (of_nat (length (ies_enc pre))) =
      Some (map_option ((+) (length (ies_enc pre))) (ie_offset P post))"
proof (induction post arbitrary: pre)
  case (Cons e post)
  let ?o = "length (ies_enc pre)" and ?n = "length (ies_enc es)"
  have lens: "?o + (2 + length (snd e)) + length (ies_enc post) = ?n" using Cons.prems by simp
  have n16: "?n < 2 ^ 16" "length (snd e) < 256" using ok Cons.prems by (auto simp: ies_ok_def)
  have uo: "unat (of_nat ?o :: u16) = ?o" using lens n16 by (intro unat_of_nat_u16) simp
  have l: "rd8 (ies_enc es @ rest) (?o + 1) = Some (of_nat (length (snd e)))"
    using rd8_enc(2) [of e pre "ies_enc post @ rest"] n16 Cons.prems by simp
  have next16: "(of_nat ?o :: u16) + (2 + ucast (of_nat (length (snd e)) :: u8)) = of_nat (length (ies_enc (pre @ [e])))"
    using n16(2) by (simp only: ucast_of_nat_unat unat_len_byte) simp
  have cmp: "(of_nat (length (ies_enc (pre @ [e]))) :: u16) \<ge> of_nat ?n \<longleftrightarrow> post = []"
  proof -
    have "unat (of_nat (length (ies_enc (pre @ [e]))) :: u16) = length (ies_enc (pre @ [e]))"
      using lens n16 by (intro unat_of_nat_u16) simp
    moreover have "unat (of_nat ?n :: u16) = ?n" using n16 by (intro unat_of_nat_u16)
    moreover have "length (ies_enc (pre @ [e])) \<ge> ?n \<longleftrightarrow> post = []" using lens by (cases post) simp_all
    ultimately show ?thesis by (simp add: word_le_nat_alt)
  qed
  note step = ies_search_loop.simps [of hit "ies_enc es @ rest" "of_nat ?n" "of_nat ?o"]
  show ?case
  proof (cases "P e")
    case True
    then show ?thesis using hit [OF Cons.prems(1)] by (subst step) (simp add: uo)
  next
    case False
    show ?thesis
    proof (cases "post = []")
      case True
      then show ?thesis
        using hit [OF Cons.prems(1)] False cmp by (subst step) (simp add: uo l [simplified] next16)
    next
      case nonempty: False
      have "ies_search_loop hit (ies_enc es @ rest) (of_nat ?n) (of_nat (length (ies_enc (pre @ [e])))) =
          Some (map_option ((+) (length (ies_enc (pre @ [e])))) (ie_offset P post))"
        using Cons.prems nonempty by (intro Cons.IH) simp_all
      moreover have "map_option ((+) (length (ies_enc (pre @ [e])))) q =
          map_option ((+) ?o) (map_option ((+) (length (ie_enc e))) q)" for q
        by (cases q) simp_all
      ultimately show ?thesis
        using hit [OF Cons.prems(1)] False cmp nonempty
        by (subst step) (simp add: uo l [simplified] next16 del: ies_enc_simps length_ie_enc)
    qed
  qed
qed simp

text \<open>The element found by the specification.\<close>

lemma ie_offset_Some:
  "ie_offset P es = Some n \<longleftrightarrow>
     (\<exists>pre e post. es = pre @ e # post \<and> P e \<and> (\<forall>x\<in>set pre. \<not> P x) \<and> n = length (ies_enc pre))"
proof (induction es arbitrary: n)
  case (Cons e es)
  show ?case
  proof (cases "P e")
    case True
    show ?thesis
    proof
      assume "ie_offset P (e # es) = Some n"
      with True show "\<exists>pre f post. e # es = pre @ f # post \<and> P f \<and> (\<forall>x\<in>set pre. \<not> P x) \<and> n = length (ies_enc pre)"
        by (intro exI [of _ "[]"] exI [of _ e] exI [of _ es]) auto
    next
      assume "\<exists>pre f post. e # es = pre @ f # post \<and> P f \<and> (\<forall>x\<in>set pre. \<not> P x) \<and> n = length (ies_enc pre)"
      then obtain pre f post where r: "e # es = pre @ f # post" "\<forall>x\<in>set pre. \<not> P x" "n = length (ies_enc pre)"
        by blast
      then have "pre = []" using True by (cases pre) auto
      with r True show "ie_offset P (e # es) = Some n" by simp
    qed
  next
    case False
    then have "ie_offset P (e # es) = Some n \<longleftrightarrow> (\<exists>k. ie_offset P es = Some k \<and> n = length (ie_enc e) + k)"
      by auto
    also have "\<dots> \<longleftrightarrow> (\<exists>pre f post. e # es = pre @ f # post \<and> P f \<and> (\<forall>x\<in>set pre. \<not> P x) \<and> n = length (ies_enc pre))"
      (is "_ \<longleftrightarrow> ?R")
    proof
      assume "\<exists>k. ie_offset P es = Some k \<and> n = length (ie_enc e) + k"
      then obtain pre f post where "es = pre @ f # post" "P f" "\<forall>x\<in>set pre. \<not> P x"
          "n = length (ies_enc (e # pre))"
        using Cons.IH by auto
      with False show ?R by (intro exI [of _ "e # pre"] exI [of _ f] exI [of _ post]) auto
    next
      assume ?R
      then obtain pre f post where r: "e # es = pre @ f # post" "P f" "\<forall>x\<in>set pre. \<not> P x" "n = length (ies_enc pre)"
        by blast
      then obtain pre' where pre: "pre = e # pre'" "es = pre' @ f # post"
        using False by (cases pre) auto
      have "ie_offset P es = Some (length (ies_enc pre'))"
        unfolding Cons.IH using r pre by (intro exI [of _ pre'] exI [of _ f] exI [of _ post]) auto
      with r(4) pre show "\<exists>k. ie_offset P es = Some k \<and> n = length (ie_enc e) + k" by simp
    qed
    finally show ?thesis .
  qed
qed simp

lemma ie_offset_None: "ie_offset P es = None \<longleftrightarrow> (\<forall>e\<in>set es. \<not> P e)"
  by (induction es) auto

lemma ies_search_enc:
  assumes "ies_ok es" "es \<noteq> []"
  shows "wf_80211_mgmt_ies_search (Some (ies_enc es @ rest)) (of_nat (length (ies_enc es))) cmp_id True =
    Some (case ie_offset (\<lambda>e. fst e = cmp_id) es of
        None \<Rightarrow> (WF_RETURN_FAIL, None) | Some n \<Rightarrow> (WF_RETURN_OK, Some n))"
proof -
  have "ies_search_loop (\<lambda>ofs. do { e \<leftarrow> rd8 (ies_enc es @ rest) ofs; Some (e = cmp_id) })
      (ies_enc es @ rest) (of_nat (length (ies_enc es))) (of_nat (length (ies_enc []))) =
    Some (map_option ((+) (length (ies_enc []))) (ie_offset (\<lambda>e. fst e = cmp_id) es))"
  proof (rule ies_search_loop_enc [OF _ assms(1) _ assms(2)])
    fix pre e post
    assume "es = pre @ e # post"
    then show "(do { e \<leftarrow> rd8 (ies_enc es @ rest) (length (ies_enc pre)); Some (e = cmp_id) }) = Some (fst e = cmp_id)"
      using rd8_enc(1) [of pre e "ies_enc post @ rest"] by simp
  qed simp
  then show ?thesis
    by (cases "ie_offset (\<lambda>e. fst e = cmp_id) es") (simp_all add: wf_80211_mgmt_ies_search_def)
qed

lemma ies_search_with_oui_enc:
  assumes "ies_ok es" "es \<noteq> []" and four: "\<forall>e\<in>set es. fst e = cmp_id \<longrightarrow> 4 \<le> length (snd e)"
  shows "wf_80211_mgmt_ies_search_with_oui (Some (ies_enc es @ rest)) (of_nat (length (ies_enc es))) cmp_id oui True =
    Some (case ie_offset (\<lambda>e. fst e = cmp_id \<and> take 4 (snd e) = oui) es of
        None \<Rightarrow> (WF_RETURN_FAIL, None) | Some n \<Rightarrow> (WF_RETURN_OK, Some n))"
proof -
  let ?hit = "\<lambda>ofs. do { e \<leftarrow> rd8 (ies_enc es @ rest) ofs;
      if e = cmp_id then do { d \<leftarrow> rdn (ies_enc es @ rest) (ofs + 2) 4; Some (d = oui) } else Some False }"
  have "ies_search_loop ?hit (ies_enc es @ rest) (of_nat (length (ies_enc es))) (of_nat (length (ies_enc []))) =
    Some (map_option ((+) (length (ies_enc []))) (ie_offset (\<lambda>e. fst e = cmp_id \<and> take 4 (snd e) = oui) es))"
  proof (rule ies_search_loop_enc [OF _ assms(1) _ assms(2)])
    fix pre e post
    assume es: "es = pre @ e # post"
    then have "fst e = cmp_id \<longrightarrow> 4 \<le> length (snd e)" using four by simp
    with es show "?hit (length (ies_enc pre)) = Some (fst e = cmp_id \<and> take 4 (snd e) = oui)"
      using rd8_enc(1) [of pre e "ies_enc post @ rest"] rdn_enc [of 4 e pre "ies_enc post @ rest"] by simp
  qed simp
  then show ?thesis
    by (cases "ie_offset (\<lambda>e. fst e = cmp_id \<and> take 4 (snd e) = oui) es")
      (simp_all add: wf_80211_mgmt_ies_search_with_oui_def)
qed

section \<open>Cipher suite fields\<close>

definition be32_bytes :: "u32 \<Rightarrow> bytes" where
  "be32_bytes w = rev (le32_bytes w)"

lemma length_be32_bytes [simp]: "length (be32_bytes w) = 4"
  by (simp add: be32_bytes_def)

lemma rd_be32_at: "rd_be32 (pre @ be32_bytes w @ post) (length pre) = Some w"
proof -
  have "be32_of (ucast (drop_bit 24 w)) (ucast (drop_bit 16 w)) (ucast (drop_bit 8 w)) (ucast w) = w"
    using le32_of_bytes [of w] by (simp add: be32_of_def le32_of_def or.commute or.left_commute)
  then show ?thesis
    by (simp add: rd_be32_def be32_bytes_def le32_bytes_def rd8_def nth_append numeral_2_eq_2 numeral_3_eq_3)
qed

lemma rd_le16_at: "rd_le16 (pre @ [ucast w, ucast (drop_bit 8 w)] @ post) (length pre) = Some w"
proof -
  have "le16_of (ucast w) (ucast (drop_bit 8 w)) = w"
    unfolding le16_of_def by (rule bit_word_eqI) (auto simp: bit_simps)
  then show ?thesis by (simp add: rd_le16_def rd8_def nth_append)
qed

lemma cipher_list_loop_at:
  "cipher_list_loop suite (pre @ concat (map be32_bytes cs) @ post) (length pre) (length cs) acc =
     Some (fold (\<lambda>c a. a OR suite c) cs acc)"
proof (induction cs arbitrary: pre acc)
  case (Cons c cs)
  have "rd_be32 (pre @ concat (map be32_bytes (c # cs)) @ post) (length pre) = Some c"
    using rd_be32_at [of pre c "concat (map be32_bytes cs) @ post"] by simp
  then show ?case
    using Cons.IH [of "pre @ be32_bytes c" "acc OR suite c"] by simp
qed simp

text \<open>Version 1, a group cipher, a count and that many pairwise ciphers.\<close>

definition cipher_body :: "u32 \<Rightarrow> u32 list \<Rightarrow> bytes" where
  "cipher_body grp cs =
     [1, 0] @ be32_bytes grp @ [ucast (of_nat (length cs) :: u16), ucast (drop_bit 8 (of_nat (length cs) :: u16))] @
     concat (map be32_bytes cs)"

lemma length_cipher_list: "length (concat (map be32_bytes cs)) = 4 * length cs"
  by (induction cs) simp_all

lemma length_cipher_body: "length (cipher_body grp cs) = 8 + 4 * length cs"
  by (simp add: cipher_body_def length_cipher_list)

text \<open>What is made of them when \<open>k\<close> bytes are left.\<close>

definition cipher_result :: "(u32 \<Rightarrow> u32) \<Rightarrow> u32 \<Rightarrow> u32 list \<Rightarrow> nat \<Rightarrow> int \<times> u32 option \<times> u32 option" where
  "cipher_result suite grp cs k =
     (if k < 2 then (-3, None, None) else if k = 2 then (0, None, None) else if k < 6 then (-5, None, None)
      else if k = 6 then (0, Some (suite grp), None) else if k < 8 then (-6, Some (suite grp), None)
      else if k < 8 + 4 * length cs then (-7, Some (suite grp), None)
      else (0, Some (suite grp), Some (fold (\<lambda>c a. a OR suite c) cs 0)))"

lemma u8_left:
  assumes "k < 256"
  shows "(of_nat k :: u8) < 2 \<longleftrightarrow> k < 2" "(of_nat k :: u8) < 4 \<longleftrightarrow> k < 4" "(of_nat k :: u8) = 0 \<longleftrightarrow> k = 0"
    "2 \<le> k \<Longrightarrow> (of_nat k :: u8) - 2 = of_nat (k - 2)" "4 \<le> k \<Longrightarrow> (of_nat k :: u8) - 4 = of_nat (k - 4)"
proof -
  have u: "unat (of_nat k :: u8) = k" using assms by (simp add: unat_len_byte)
  then show "(of_nat k :: u8) < 2 \<longleftrightarrow> k < 2" "(of_nat k :: u8) < 4 \<longleftrightarrow> k < 4" by (simp_all add: word_less_nat_alt)
  show "(of_nat k :: u8) = 0 \<longleftrightarrow> k = 0" using u by (simp only: word_unat_eq_iff unat_0)
qed (simp_all add: of_nat_diff)

lemma cipher_fields_any:
  assumes cs: "cs \<noteq> []" "length cs < 65536" and left: "k < 256"
  shows "cipher_fields suite (pre @ cipher_body grp cs @ post) (length pre) (of_nat k) True True = Some (cipher_result suite grp cs k)"
proof -
  let ?n = "of_nat (length cs) :: u16"
  let ?cnt = "[ucast ?n, ucast (drop_bit 8 ?n)] :: bytes" and ?l = "concat (map be32_bytes cs)"
  let ?b = "pre @ cipher_body grp cs @ post"
  have n: "unat ?n = length cs" using cs(2) by (intro unat_of_nat_u16) simp
  have v: "rd_le16 ?b (length pre) = Some 1"
    using rd_le16_at [of pre 1 "be32_bytes grp @ ?cnt @ ?l @ post"] by (simp add: cipher_body_def)
  have g: "rd_be32 ?b (length pre + 2) = Some grp"
    using rd_be32_at [of "pre @ [1, 0]" grp "?cnt @ ?l @ post"] by (simp add: cipher_body_def)
  have c: "rd_le16 ?b (length pre + 2 + 4) = Some ?n"
    using rd_le16_at [of "pre @ [1, 0] @ be32_bytes grp" ?n "?l @ post"]
    by (simp add: cipher_body_def add.commute)
  have l: "cipher_list_loop suite ?b (length pre + 2 + 4 + 2) (length cs) 0 = Some (fold (\<lambda>c a. a OR suite c) cs 0)"
    using cipher_list_loop_at [of suite "pre @ [1, 0] @ be32_bytes grp @ ?cnt" cs post 0]
    by (simp add: cipher_body_def add.commute)
  have nz: "?n \<noteq> 0" using n cs(1) by auto
  have k2: "k - 2 < 256" "k - 2 - 4 < 256" "k - 2 - 4 - 2 < 256" using left by simp_all
  note 0 = u8_left [OF left]
  consider "k < 2" | "k = 2" | "2 < k" "k < 6" | "k = 6" | "k = 7" | "8 \<le> k" by linarith
  then show ?thesis
  proof cases
    case 1
    then show ?thesis using 0(1) by (simp add: cipher_fields_def cipher_result_def)
  next
    case 2
    then show ?thesis using 0 v by (simp add: cipher_fields_def cipher_result_def)
  next
    case 3
    then have "k - 2 < 4" by linarith
    with 3 show ?thesis using 0 u8_left [OF k2(1)] v by (simp add: cipher_fields_def cipher_result_def)
  next
    case 4
    then show ?thesis using v g by (simp add: cipher_fields_def cipher_result_def)
  next
    case 5
    then show ?thesis using v g by (simp add: cipher_fields_def cipher_result_def)
  next
    case 6
    let ?m = "k - 2 - 4 - 2"
    have z: "\<not> (of_nat k :: u8) < 2" "(of_nat k :: u8) - 2 = of_nat (k - 2)" "(of_nat (k - 2) :: u8) \<noteq> 0" "\<not> (of_nat (k - 2) :: u8) < 4"
      "(of_nat (k - 2) :: u8) - 4 = of_nat (k - 2 - 4)" "(of_nat (k - 2 - 4) :: u8) \<noteq> 0" "\<not> (of_nat (k - 2 - 4) :: u8) < 2"
      "(of_nat (k - 2 - 4) :: u8) - 2 = of_nat ?m" "unat (of_nat ?m :: u8) = ?m"
      using 6 0 u8_left [OF k2(1)] u8_left [OF k2(2)] unat_len_byte [OF k2(3)] by simp_all
    have f: "cipher_fields suite ?b (length pre) (of_nat k) True True =
        Some (if ?m < length cs * 4 then (-7, Some (suite grp), None) else (0, Some (suite grp), Some (fold (\<lambda>c a. a OR suite c) cs 0)))"
      unfolding cipher_fields_def Let_def z(2,5,8)
      by (cases "?m < length cs * 4") (simp_all only: v g c l n nz z if_False if_True bind.bind_lunit option.map simp_thms)
    have "?m < length cs * 4 \<longleftrightarrow> k < 8 + 4 * length cs" using 6 by linarith
    then show ?thesis unfolding f using 6 by (simp add: cipher_result_def)
  qed
qed

section \<open>Loops that go wrong\<close>

lemma sec_ie_spin_result:
  assumes "sec_ie_spin n i = Some y"
  shows "\<not> (248 < n \<and> 8 dvd unat i)"
proof (rule sec_ie_spin.raw_induct [OF _ assms, where P = "\<lambda>n i _. \<not> (248 < n \<and> 8 dvd unat i)"], rule notI)
  fix spin n j z
  assume IH: "\<And>n j y. spin n j = Some y \<Longrightarrow> \<not> (248 < n \<and> 8 dvd unat j)"
    and step: "(if unat j < n then spin n (j + 8) else Some ()) = Some z"
    and a: "248 < n \<and> 8 dvd unat (j :: u8)"
  obtain q where q: "unat j = 8 * q" using a by blast
  then have "q < 32" using unat_u8_less [of j] by simp
  then have "spin n (j + 8) = Some z" using step a q by simp
  moreover have "unat (j + 8) = (unat j + 8) mod 2 ^ 8" by (simp add: unat_word_ariths)
  then have "8 dvd unat (j + 8)" using a by (simp add: dvd_mod)
  ultimately show False using IH a by blast
qed

lemma sec_ie_spin_diverges: "248 < n \<Longrightarrow> sec_ie_spin n 0 = None"
  using sec_ie_spin_result [of n 0] by (cases "sec_ie_spin n 0") auto

lemma sec_ie_loop_wpa_len:
  assumes "sec_ie_loop in_len rsn cnt st = Some st'"
  shows "so_wpa_len st' = so_wpa_len st"
proof (rule sec_ie_loop.raw_induct [OF _ assms, where P = "\<lambda>_ _ _ st st'. so_wpa_len st' = so_wpa_len st"])
  fix loop in_len rsn cnt st st'
  assume IH: "\<And>in_len rsn cnt st st'. loop in_len rsn cnt st = Some st' \<Longrightarrow> so_wpa_len st' = so_wpa_len st"
    and step: "(if \<not> cnt < in_len then Some st
      else Option.bind (rd8 (so_in st) (unat cnt)) (\<lambda>authmode.
        Option.bind (if authmode = 0xdd then wrn (so_in st) (unat (cnt + 2)) [0x0, 0x50, 0xf2, 0x01]
                     else Some (so_in st)) (\<lambda>ie.
        Option.bind (rd8 ie (unat (cnt + 1))) (\<lambda>l.
        if authmode = 0x30 then
          Option.bind (if rsn then Option.bind (rdn ie (unat cnt) (unat l + 2)) (\<lambda>bs.
                         Option.bind (sec_ie_spin (unat l + 2) 0) (\<lambda>_. Some (Some bs)))
                       else Some (so_rsn st)) (\<lambda>out.
            loop in_len rsn (cnt + (ucast l + 2))
              (st\<lparr>so_in := ie, so_rsn := out, so_rsn_len := ucast l + 2\<rparr>))
        else loop in_len rsn (cnt + (ucast l + 2)) (st\<lparr>so_in := ie\<rparr>))))) = Some st'"
  show "so_wpa_len st' = so_wpa_len st"
    using step by (auto simp: bind_eq_Some_conv split: if_splits dest: IH)
qed

lemma oui_second_byte:
  assumes "rdn buf (unat (cnt + 2)) 4 = Some [0x00, 0x50, 0xf2, 0x04]" "length buf < 2 ^ 32"
    "rd8 buf (unat (cnt + 3 :: u32)) = Some n"
  shows "n = 0x50"
proof -
  let ?k = "unat (cnt + 2)"
  have k: "?k + 4 \<le> length buf" "take 4 (drop ?k buf) = [0x00, 0x50, 0xf2, 0x04]"
    using assms(1) by (auto simp: rdn_def split: if_splits)
  have "unat (cnt + 2 + 1) = ?k + 1"
    using k(1) assms(2) unat_add_lem [of "cnt + 2" 1] by simp
  moreover have "cnt + 2 + 1 = cnt + 3" by simp
  ultimately have "n = buf ! (?k + 1)" using assms(3) by (auto simp: rd8_def split: if_splits)
  moreover have "take 4 (drop ?k buf) ! 1 = buf ! (?k + 1)" using k(1) by simp
  ultimately show ?thesis using k(2) by simp
qed

lemma get_wps_ie_loop_copy:
  assumes "get_wps_ie_loop buf n w cnt = Some r"
  shows "length buf < 2 ^ 32 \<longrightarrow> (\<forall>p bs l. r = Some (p, Some bs, l) \<longrightarrow> length bs = 0x50)"
proof (rule get_wps_ie_loop.raw_induct [OF _ assms,
    where P = "\<lambda>buf _ _ _ r. length buf < 2 ^ 32 \<longrightarrow> (\<forall>p bs l. r = Some (p, Some bs, l) \<longrightarrow> length bs = 0x50)"],
    intro impI allI)
  fix loop buf w and n cnt :: u32 and r :: "(nat \<times> bytes option \<times> u32) option" and p bs l
  assume IH: "\<And>buf n w cnt r. loop buf n w cnt = Some r \<Longrightarrow>
        length buf < 2 ^ 32 \<longrightarrow> (\<forall>p bs l. r = Some (p, Some bs, l) \<longrightarrow> length bs = 0x50)"
    and step: "(if \<not> cnt + 1 + 4 < n then Some None
      else Option.bind (rd8 buf (unat cnt)) (\<lambda>eid.
        Option.bind (if eid = 221 then map_option (\<lambda>d. d = [0x00, 0x50, 0xf2, 0x04]) (rdn buf (unat (cnt + 2)) 4)
                     else Some False) (\<lambda>hit.
        Option.bind (rd8 buf (unat (cnt + 1))) (\<lambda>l.
          if hit then
            Option.bind (if w
                then Option.bind (rd8 buf (unat (cnt + 1 + 2))) (\<lambda>n.
                       map_option Some (rdn buf (unat cnt) (unat n)))
                else Some None) (\<lambda>copy.
              Some (Some (unat cnt, copy, ucast l + 2)))
          else loop buf n w (cnt + (ucast l + 2)))))) = Some r"
    and small: "length buf < 2 ^ 32" and r: "r = Some (p, Some bs, l)"
  have c: "cnt + 1 + 4 < n"
    using step r by (cases "cnt + 1 + 4 < n") (simp_all only: simp_thms if_True option.inject option.distinct)
  note s1 = step [unfolded c [THEN eqTrueI] not_True_eq_False if_False]
  obtain eid where e1: "rd8 buf (unat cnt) = Some eid"
    using s1 by (cases "rd8 buf (unat cnt)") (simp_all only: bind.bind_lzero option.distinct simp_thms)
  note s2 = s1 [unfolded e1 bind.bind_lunit]
  let ?hit = "if eid = 221 then map_option (\<lambda>d. d = [0x00, 0x50, 0xf2, 0x04]) (rdn buf (unat (cnt + 2)) 4)
      else Some False"
  obtain hit where e2: "?hit = Some hit"
    using s2 by (cases ?hit) (simp_all only: bind.bind_lzero option.distinct simp_thms)
  note s3 = s2 [unfolded e2 bind.bind_lunit]
  obtain k where e3: "rd8 buf (unat (cnt + 1)) = Some k"
    using s3 by (cases "rd8 buf (unat (cnt + 1))") (simp_all only: bind.bind_lzero option.distinct simp_thms)
  note s4 = s3 [unfolded e3 bind.bind_lunit]
  show "length bs = 0x50"
  proof (cases hit)
    case False
    then have "loop buf n w (cnt + (ucast k + 2)) = Some r" using s4 by simp
    then show ?thesis using IH small r by blast
  next
    case True
    then have oui: "rdn buf (unat (cnt + 2)) 4 = Some [0x00, 0x50, 0xf2, 0x04]" using e2 by (auto split: if_splits)
    have three: "cnt + 1 + 2 = cnt + 3" by simp
    obtain m where m: "rd8 buf (unat (cnt + 3)) = Some m" "rdn buf (unat cnt) (unat m) = Some bs"
      using s4 r True unfolding three by (auto simp: bind_eq_Some_conv split: if_splits)
    then show ?thesis using oui_second_byte [OF oui small m(1)] rdn_length [OF m(2)] by simp
  qed
qed

section \<open>Properties\<close>

lemma rdn_elem:
  "rdn (ies_enc (pre @ e # post) @ rest) (length (ies_enc pre)) (2 + length (snd e)) = Some (ie_enc e)"
  using rdn_append_mid [of "ies_enc pre" "ie_enc e" "ies_enc post @ rest"] by simp

text \<open>On the encoding of a non-empty list of elements \<open>wf_80211_mgmt_ies_search\<close> returns,
  inside the buffer: the first element with the id, or failure when there is none.\<close>

theorem ies_search_first:
  assumes "ies_ok es" "es \<noteq> []"
  shows "(\<exists>pre d post. es = pre @ (cmp_id, d) # post \<and> (\<forall>e\<in>set pre. fst e \<noteq> cmp_id) \<and>
      wf_80211_mgmt_ies_search (Some (ies_enc es @ rest)) (of_nat (length (ies_enc es))) cmp_id True =
        Some (WF_RETURN_OK, Some (length (ies_enc pre))) \<and>
      rdn (ies_enc es @ rest) (length (ies_enc pre)) (2 + length d) = Some (ie_enc (cmp_id, d))) \<or>
    (\<forall>e\<in>set es. fst e \<noteq> cmp_id) \<and>
      wf_80211_mgmt_ies_search (Some (ies_enc es @ rest)) (of_nat (length (ies_enc es))) cmp_id True =
        Some (WF_RETURN_FAIL, None)"
proof (cases "ie_offset (\<lambda>e. fst e = cmp_id) es")
  case None
  then have "\<forall>e\<in>set es. fst e \<noteq> cmp_id" by (simp add: ie_offset_None)
  with None show ?thesis using ies_search_enc [OF assms, of rest cmp_id] by simp
next
  case (Some n)
  then obtain pre e post where e: "es = pre @ e # post" "fst e = cmp_id" "\<forall>x\<in>set pre. fst x \<noteq> cmp_id"
      "n = length (ies_enc pre)"
    unfolding ie_offset_Some by blast
  then have "e = (cmp_id, snd e)" by (metis prod.collapse)
  moreover have "wf_80211_mgmt_ies_search (Some (ies_enc es @ rest)) (of_nat (length (ies_enc es))) cmp_id True =
      Some (WF_RETURN_OK, Some (length (ies_enc pre)))"
    using ies_search_enc [OF assms, of rest cmp_id] Some e(4) by simp
  ultimately show ?thesis using e rdn_elem [of pre e post rest] by metis
qed

lemma ies_search_first_witness:
  "wf_80211_mgmt_ies_search (Some [0, 1, 65, 48, 2, 1, 0]) 7 48 True = Some (WF_RETURN_OK, Some 3)"
proof -
  have ok: "ies_ok [(0, [65]), (48, [1, 0])]" "[(0 :: u8, [65 :: u8]), (48, [1, 0])] \<noteq> []"
    by (simp_all add: ies_ok_def)
  have enc: "ies_enc [(0, [65]), (48, [1, 0])] @ [] = [0, 1, 65, 48, 2, 1, 0]" by (simp add: ie_enc_def)
  have pre: "length (ies_enc pre) = 3" if "[(0, [65]), (48, [1, 0])] = pre @ (48, d) # post" for pre d post
    using that by (cases pre; cases "tl pre") auto
  from ies_search_first [OF ok, of 48 "[]", unfolded enc] show ?thesis
    using pre by (auto simp: ie_enc_def)
qed

text \<open>The search for a vendor element: when every element with the id carries at least the
  four bytes that are compared, the first element with the id and these bytes is returned.\<close>

theorem ies_search_with_oui_first:
  assumes "ies_ok es" "es \<noteq> []" "\<forall>e\<in>set es. fst e = cmp_id \<longrightarrow> 4 \<le> length (snd e)"
  shows "wf_80211_mgmt_ies_search_with_oui (Some (ies_enc es @ rest)) (of_nat (length (ies_enc es))) cmp_id oui True =
    Some (case ie_offset (\<lambda>e. fst e = cmp_id \<and> take 4 (snd e) = oui) es of
        None \<Rightarrow> (WF_RETURN_FAIL, None) | Some n \<Rightarrow> (WF_RETURN_OK, Some n))"
  using assms by (rule ies_search_with_oui_enc)

lemma ies_search_with_oui_first_witness:
  "wf_80211_mgmt_ies_search_with_oui (Some [0, 1, 65, 221, 4, 0, 0x50, 0xf2, 2]) 9 221 [0, 0x50, 0xf2, 2] True =
     Some (WF_RETURN_OK, Some 3)"
  using ies_search_with_oui_first [of "[(0, [65]), (221, [0, 0x50, 0xf2, 2])]" 221 "[]" "[0, 0x50, 0xf2, 2]"]
  by (simp add: ies_ok_def ie_enc_def)

text \<open>A search reads the length byte of an element before it looks at the end of the buffer:
  an id alone at the end makes it read outside the elements.\<close>

theorem ies_search_reads_past:
  assumes "b \<noteq> cmp_id"
  shows "wf_80211_mgmt_ies_search (Some [b]) 1 cmp_id True = None"
  using assms by (simp add: wf_80211_mgmt_ies_search_def ies_search_loop.simps rd8_def)

lemma ies_search_reads_past_witness: "wf_80211_mgmt_ies_search (Some [7]) 1 48 True = None"
  using ies_search_reads_past [of 7 48] by simp

lemma rsn_parse_any:
  assumes "cs \<noteq> []" "length cs < 65536" "2 + unat l \<le> n" "n < 65536"
  shows "wf_80211_mgmt_rsn_parse (Some (pre @ [48, l] @ cipher_body grp cs @ post)) (length pre) (of_nat n) True True =
    Some (cipher_result rsne_cipher_suite_parse grp cs ((n - 2) mod 256))"
proof -
  have n: "unat (of_nat n :: u16) = n" using assms by (intro unat_of_nat_u16) simp
  then have nz: "(of_nat n :: u16) \<noteq> 0" using assms by (auto simp: word_unat_eq_iff)
  have left: "(ucast ((of_nat n :: u16) - 2) :: u8) = of_nat ((n - 2) mod 256)"
  proof -
    have "(of_nat n :: u16) - 2 = of_nat (n - 2)" using assms by (simp add: of_nat_diff)
    moreover have "unat (of_nat (n - 2) :: u16) = n - 2" using assms by (intro unat_of_nat_u16) simp
    moreover have "(of_nat ((n - 2) mod 256) :: u8) = of_nat (n - 2)" by (simp add: word_unat_eq_iff unsigned_of_nat take_bit_nat_def)
    ultimately show ?thesis by (simp only: ucast_of_nat_unat)
  qed
  have "rd8 (pre @ [48, l] @ cipher_body grp cs @ post) (length pre) = Some 48"
    "rd8 (pre @ [48, l] @ cipher_body grp cs @ post) (length pre + 1) = Some l"
    by (simp_all add: rd8_def nth_append)
  moreover have "cipher_fields rsne_cipher_suite_parse ((pre @ [48, l]) @ cipher_body grp cs @ post)
      (length (pre @ [48, l])) (of_nat ((n - 2) mod 256)) True True = Some (cipher_result rsne_cipher_suite_parse grp cs ((n - 2) mod 256))"
    using assms by (intro cipher_fields_any) auto
  ultimately show ?thesis
    using assms nz by (simp add: wf_80211_mgmt_rsn_parse_def n left)
qed

lemma rsn_parse_at:
  assumes "cs \<noteq> []" "10 + 4 * length cs \<le> n" "n < 258" "2 + unat l \<le> n"
  shows "wf_80211_mgmt_rsn_parse (Some (pre @ [48, l] @ cipher_body grp cs @ post)) (length pre) (of_nat n) True True =
    Some (0, Some (rsne_cipher_suite_parse grp), Some (fold (\<lambda>c a. a OR rsne_cipher_suite_parse c) cs 0))"
proof -
  have "(n - 2) mod 256 = n - 2" using assms(3) by simp
  then show ?thesis using rsn_parse_any [OF assms(1) _ assms(4), of pre grp post] assms by (simp add: cipher_result_def)
qed

text \<open>(C28) What comes out of an RSN element with version 1, a group cipher and pairwise ciphers when \<open>n\<close> bytes remain from the element
  on. The code keeps \<open>n - 2\<close> in 8 bits, and \<open>k = (n - 2) mod 256\<close> decides: with \<open>k\<close> at least the length of the fields the result is the flag of the group
  cipher and the union of the flags of the pairwise ciphers, read inside the buffer; with a smaller \<open>k\<close> the code of the field that does not
  fit any more is returned, and 0 without ciphers for \<open>k = 2\<close> and without pairwise ciphers for \<open>k = 6\<close>. So every element is read
  correctly when at most 257 bytes remain, and with more bytes not every one is.\<close>

theorem rsn_parse_correct:
  assumes "cs \<noteq> []" "length cs < 65536" "2 + unat l \<le> n" "n < 65536"
  shows "wf_80211_mgmt_rsn_parse (Some (pre @ [48, l] @ cipher_body grp cs @ post)) (length pre) (of_nat n) True True =
    (let k = (n - 2) mod 256; g = Some (rsne_cipher_suite_parse grp) in
     Some (if k < 2 then (-3, None, None) else if k = 2 then (0, None, None) else if k < 6 then (-5, None, None)
       else if k = 6 then (0, g, None) else if k < 8 then (-6, g, None) else if k < 8 + 4 * length cs then (-7, g, None)
       else (0, g, Some (fold (\<lambda>c a. a OR rsne_cipher_suite_parse c) cs 0))))"
  unfolding rsn_parse_any [OF assms] cipher_result_def Let_def by (rule refl)

lemma rsn_parse_correct_witness:
  "wf_80211_mgmt_rsn_parse (Some [48, 12, 1, 0, 0, 0x0f, 0xac, 2, 1, 0, 0, 0x0f, 0xac, 4]) 0 14 True True =
     Some (0, Some CIPHER_SUITE_TKIP, Some CIPHER_SUITE_CCMP)"
proof -
  have "[] @ [48, 12] @ cipher_body 0x000FAC02 [0x000FAC04] @ [] = [48, 12, 1, 0, 0, 0x0f, 0xac, 2, 1, 0, 0, 0x0f, 0xac, 4]"
    by code_simp
  then show ?thesis
    using rsn_parse_correct [of "[0x000FAC04]" 12 14 "[]" "0x000FAC02" "[]"]
    by (simp add: rsne_cipher_suite_parse_def)
qed

text \<open>\<open>left\<close> is 8 bits wide: with 258 bytes from the element to the end of the elements, any
  RSN element is rejected as having no version field, whatever it contains.\<close>

theorem rsn_parse_truncated:
  assumes "rd8 buf pie = Some 48" "rd8 buf (pie + 1) = Some l"
  shows "wf_80211_mgmt_rsn_parse (Some buf) pie 258 pg pp = Some (-3, None, None)"
proof -
  have "2 + unat l \<le> unat (258 :: u16)" using unat_u8_less [of l] by simp
  moreover have "(ucast ((258 :: u16) - 2) :: u8) = 0" by simp
  ultimately show ?thesis
    using assms by (simp add: wf_80211_mgmt_rsn_parse_def cipher_fields_def)
qed

lemma rsn_parse_truncated_witness:
  "wf_80211_mgmt_rsn_parse (Some (48 # 12 # replicate 256 0)) 0 258 True True = Some (-3, None, None)"
  using rsn_parse_truncated [of "48 # 12 # replicate 256 0" 0 12 True True] by (simp add: rd8_def)

text \<open>\<open>wf_wlan_get_wps_attr\<close> rejects every WPS element: the comparison of the OUI gives 0 on
  equality, which is not \<open>wf_true\<close>. No attribute is ever found in a WPS element, for any
  \<open>memcmp\<close> that returns 0 exactly on equal bytes.\<close>

theorem get_wps_attr_never_found:
  assumes "\<And>a b. mc a b = 0 \<longleftrightarrow> a = b"
  shows "wf_wlan_get_wps_attr mc ([221, l, 0x00, 0x50, 0xF2, 0x04] @ attrs) n target buf_attr = Some (None, None, 0) \<and>
    wf_wlan_get_wps_attr_content mc ([221, l, 0x00, 0x50, 0xF2, 0x04] @ attrs) n target buf_attr = Some (None, None, 0)"
proof -
  have "mc [0x00, 0x50, 0xF2, 0x04] [0x00, 0x50, 0xF2, 0x04] = 0" using assms by simp
  then show ?thesis
    by (simp add: wf_wlan_get_wps_attr_def wf_wlan_get_wps_attr_content_def rd8_def rdn_def)
qed

lemma get_wps_attr_never_found_witness:
  "wf_wlan_get_wps_attr (\<lambda>a b. if a = b then 0 else 1) [221, 9, 0x00, 0x50, 0xF2, 0x04, 0x10, 0x41, 0, 1, 1] 11 0x1041 True =
     Some (None, None, 0)"
proof -
  have mc: "(if a = b then 0 else 1 :: int) = 0 \<longleftrightarrow> a = b" for a b :: bytes by simp
  from get_wps_attr_never_found [of "\<lambda>a b. if a = b then 0 else 1", OF mc] show ?thesis by simp
qed

text \<open>Whenever \<open>wf_wlan_get_wps_ie\<close> copies the element it found, it copies 80 bytes: the count
  is taken from the second byte of the OUI and not from the length of the element.\<close>

theorem get_wps_ie_copies_80:
  assumes "length buf < 2 ^ 32" "wf_wlan_get_wps_ie (Some buf) n True b = Some (p, Some bs, l)"
  shows "length bs = 80"
proof -
  obtain r where "get_wps_ie_loop buf n True 0 = Some r" "\<exists>p l. r = Some (p, Some bs, l)"
    using assms(2) by (auto simp: wf_wlan_get_wps_ie_def bind_eq_Some_conv split: if_splits option.splits)
  then show ?thesis using get_wps_ie_loop_copy assms(1) by fastforce
qed

lemma get_wps_ie_copies_80_witness:
  "\<exists>p bs l. wf_wlan_get_wps_ie (Some ([221, 4, 0x00, 0x50, 0xf2, 0x04] @ replicate 80 9)) 6 True True = Some (p, Some bs, l) \<and>
     length bs = 80"
proof -
  let ?b = "[221, 4, 0x00, 0x50, 0xf2, 0x04] @ replicate 80 9 :: bytes"
  have rd: "rd8 ?b 0 = Some 221" "rd8 ?b 1 = Some 4" "rd8 ?b 3 = Some 0x50"
    "rdn ?b 2 4 = Some [0x00, 0x50, 0xf2, 0x04]" "\<exists>bs. rdn ?b 0 80 = Some bs"
    by (simp_all add: rd8_def rdn_def)
  have u: "unat (0 + 1 :: u32) = 1" "unat (0 + 2 :: u32) = 2" "unat (0 + 1 + 2 :: u32) = 3" "unat (0x50 :: u8) = 80"
    "(0 :: u32) + 1 + 4 < 6" "unat (0 :: u32) = 0"
    by simp_all
  obtain bs where bs: "rdn ?b 0 80 = Some bs" using rd by blast
  have loop: "get_wps_ie_loop ?b 6 True 0 = Some (Some (0, Some bs, ucast (4 :: u8) + 2))"
    by (subst get_wps_ie_loop.simps)
      (simp only: u rd bs bind.bind_lunit option.map if_True if_False simp_thms not_True_eq_False)
  have "wf_wlan_get_wps_ie (Some ?b) 6 True True = Some (Some 0, Some bs, Some (ucast (4 :: u8) + 2))"
    unfolding wf_wlan_get_wps_ie_def option.case loop bind.bind_lunit prod.case by (simp del: replicate.simps)
  with get_wps_ie_copies_80 [OF _ this] show ?thesis by simp
qed

text \<open>\<open>wf_wlan_get_sec_ie\<close> never reports a WPA element: \<open>*wpa_len\<close> keeps the caller's value.\<close>

theorem get_sec_ie_wpa_untouched:
  assumes "wf_wlan_get_sec_ie ie n rsn rl wl flag = Some (st, r)"
  shows "so_wpa_len st = wl \<and> r = uint (so_rsn_len st) + uint wl"
  using assms
  by (auto simp: wf_wlan_get_sec_ie_def Let_def bind_eq_Some_conv split: if_splits dest!: sec_ie_loop_wpa_len)

lemma get_sec_ie_wpa_untouched_witness:
  "\<exists>st r. wf_wlan_get_sec_ie [1, 2, 3] 3 True 0 7 True = Some (st, r) \<and> so_wpa_len st = 7 \<and> r = 7"
proof -
  have "wf_wlan_get_sec_ie [1, 2, 3] 3 True 0 7 True =
      Some (\<lparr>so_in = [1, 2, 3], so_rsn = None, so_rsn_len = 0, so_wpa_len = 7\<rparr>, 7)"
    by (simp add: wf_wlan_get_sec_ie_def Let_def sec_ie_loop.simps [of 3 True 12])
  with get_sec_ie_wpa_untouched [OF this] show ?thesis by simp
qed

text \<open>A vendor element is overwritten with the WPA OUI by the test for WPA: here a WMM element
  becomes a WPA element in the caller's buffer.\<close>

theorem get_sec_ie_overwrites:
  "wf_wlan_get_sec_ie (replicate 12 0 @ [0xdd, 4, 0x00, 0x50, 0xf2, 0x02]) 18 True 0 0 True =
     Some (\<lparr>so_in = replicate 12 0 @ [0xdd, 4, 0x00, 0x50, 0xf2, 0x01], so_rsn = None, so_rsn_len = 0, so_wpa_len = 0\<rparr>, 0)"
proof -
  let ?a = "replicate 12 0 @ [0xdd, 4, 0x00, 0x50, 0xf2, 0x02] :: bytes"
  let ?b = "replicate 12 0 @ [0xdd, 4, 0x00, 0x50, 0xf2, 0x01] :: bytes"
  let ?st = "\<lparr>so_in = ?b, so_rsn = None, so_rsn_len = 0, so_wpa_len = 0\<rparr>"
  have rd: "rd8 ?a 12 = Some 0xdd" "wrn ?a 14 [0x0, 0x50, 0xf2, 0x01] = Some ?b" "rd8 ?b 13 = Some 4"
    by code_simp+
  have "sec_ie_loop 18 True 18 ?st = Some ?st" by (subst sec_ie_loop.simps) simp
  then have "sec_ie_loop 18 True 12 \<lparr>so_in = ?a, so_rsn = None, so_rsn_len = 0, so_wpa_len = 0\<rparr> = Some ?st"
    by (subst sec_ie_loop.simps) (simp add: rd)
  then show ?thesis
    by (simp add: wf_wlan_get_sec_ie_def Let_def)
qed

text \<open>Asked for the RSN element, \<open>wf_wlan_get_sec_ie\<close> never returns when the first element is
  an RSN element of 247 bytes or more: the 8-bit counter of the empty loop wraps.\<close>

theorem get_sec_ie_hangs:
  assumes "247 \<le> unat l" "12 < n" "length fixed = 12"
  shows "wf_wlan_get_sec_ie (fixed @ [0x30, l] @ rest) n True rl wl True = None"
proof -
  let ?b = "fixed @ [0x30, l] @ rest"
  have "rd8 ?b 12 = Some 0x30" "rd8 ?b 13 = Some l"
    using assms(3) by (simp_all add: rd8_def nth_append)
  moreover have "sec_ie_spin (unat l + 2) 0 = None" using assms(1) by (intro sec_ie_spin_diverges) simp
  ultimately show ?thesis
    using assms(2)
    by (simp add: wf_wlan_get_sec_ie_def sec_ie_loop.simps [of n True 12] split: Option.bind_splits)
qed

lemma get_sec_ie_hangs_witness:
  "wf_wlan_get_sec_ie (replicate 12 0 @ [0x30, 250] @ replicate 250 0) 264 True 0 0 True = None"
  using get_sec_ie_hangs [of 250 264 "replicate 12 0" "replicate 250 0" 0 0] by simp

text \<open>Channel number and frequency are converted into each other for every supported channel.\<close>

theorem ch_freq_roundtrip:
  assumes "1 \<le> ch \<and> ch \<le> 14 \<or> 36 \<le> ch \<and> ch \<le> 177"
  shows "freq_2_ch (wf_ch_2_freq ch) = ch"
proof -
  have "(ch * 5) sdiv 5 = ch" using sgn_mult_abs [of ch] by (simp add: signed_divide_int_def sgn_mult abs_mult)
  then show ?thesis using assms by (auto simp: wf_ch_2_freq_def freq_2_ch_def)
qed

lemma ch_freq_roundtrip_witness: "freq_2_ch (wf_ch_2_freq 149) = 149"
  using ch_freq_roundtrip [of 149] by simp

end
