(* ===== verification/Ie.thy ===== *)
theory Ie
  imports Wdn_Info
begin

text \<open>
  The handlers of single information elements (\<open>ie.c\<close>): each reads the data of one element of
  a beacon or an association frame and updates the peer. The data of an element is the memory
  from \<open>pie_data\<close> on, so that a read behind it is visible; \<open>len\<close> is the length byte of the
  element, which the sender chooses. \<open>None\<close> is a write outside a member of the peer or outside
  a local structure, or a read outside the memory of the element.
\<close>

section \<open>Numbers\<close>

abbreviation (input) CAPAB_ESS :: u16 where "CAPAB_ESS \<equiv> 0x0001"
abbreviation (input) CAPAB_IBSS :: u16 where "CAPAB_IBSS \<equiv> 0x0002"
abbreviation (input) CAPAB_PRIVACY :: u16 where "CAPAB_PRIVACY \<equiv> 0x0010"
abbreviation (input) CAPAB_SHORT_PREAMBLE :: u16 where "CAPAB_SHORT_PREAMBLE \<equiv> 0x0020"
abbreviation (input) CAPAB_SHORT_SLOT_TIME :: u16 where "CAPAB_SHORT_SLOT_TIME \<equiv> 0x0400"
abbreviation (input) CAPAB_RADIO_MEASURE :: u16 where "CAPAB_RADIO_MEASURE \<equiv> 0x1000"

abbreviation (input) HT_CAP_LDPC_CODING :: u16 where "HT_CAP_LDPC_CODING \<equiv> 0x0001"
abbreviation (input) HT_CAP_SUP_WIDTH_20_40 :: u16 where "HT_CAP_SUP_WIDTH_20_40 \<equiv> 0x0002"
abbreviation (input) HT_CAP_SM_PS :: u16 where "HT_CAP_SM_PS \<equiv> 0x000C"
abbreviation (input) HT_CAP_SGI_20 :: u16 where "HT_CAP_SGI_20 \<equiv> 0x0020"
abbreviation (input) HT_CAP_SGI_40 :: u16 where "HT_CAP_SGI_40 \<equiv> 0x0040"
abbreviation (input) HT_CAP_TX_STBC :: u16 where "HT_CAP_TX_STBC \<equiv> 0x0080"
abbreviation (input) HT_CAP_RX_STBC :: u16 where "HT_CAP_RX_STBC \<equiv> 0x0300"
abbreviation (input) HT_CAP_MAX_AMSDU :: u16 where "HT_CAP_MAX_AMSDU \<equiv> 0x0800"
abbreviation (input) HT_CAP_DSSSCCK40 :: u16 where "HT_CAP_DSSSCCK40 \<equiv> 0x1000"
abbreviation (input) AMPDU_PARM_FACTOR :: u8 where "AMPDU_PARM_FACTOR \<equiv> 0x03"
abbreviation (input) AMPDU_PARM_DENSITY :: u8 where "AMPDU_PARM_DENSITY \<equiv> 0x1C"
abbreviation (input) MCS_RATE_1R :: u32 where "MCS_RATE_1R \<equiv> 0x000000ff"

abbreviation (input) CHNL_OFFSET_DONT_CARE :: u8 where "CHNL_OFFSET_DONT_CARE \<equiv> 0"
abbreviation (input) CHNL_OFFSET_LOWER :: u8 where "CHNL_OFFSET_LOWER \<equiv> 1"
abbreviation (input) CHNL_OFFSET_UPPER :: u8 where "CHNL_OFFSET_UPPER \<equiv> 2"

section \<open>Writing elements\<close>

text \<open>\<open>set_ie\<close> writes at the position \<open>pbuf\<close> of the buffer and returns the buffer, the new
  position and the new frame length. \<open>set_fixed_ie\<close> writes plain data; its frame length is 16
  bits wide.\<close>

definition set_ie :: "bytes \<Rightarrow> nat \<Rightarrow> u8 \<Rightarrow> u8 \<Rightarrow> bytes \<Rightarrow> u32 \<Rightarrow> (bytes \<times> nat \<times> u32) option" where
  "set_ie buf pbuf index len source frlen = do {
     buf1 \<leftarrow> wrn buf pbuf [index];
     buf2 \<leftarrow> wrn buf1 (pbuf + 1) [len];
     buf3 \<leftarrow> (if 0 < len then do { d \<leftarrow> rdn source 0 (unat len); wrn buf2 (pbuf + 2) d } else Some buf2);
     Some (buf3, pbuf + unat len + 2, frlen + (ucast len + 2))
   }"

definition set_fixed_ie :: "bytes \<Rightarrow> nat \<Rightarrow> u32 \<Rightarrow> bytes \<Rightarrow> u16 \<Rightarrow> (bytes \<times> nat \<times> u16) option" where
  "set_fixed_ie buf pbuf len source frlen = do {
     d \<leftarrow> rdn source 0 (unat len);
     buf' \<leftarrow> wrn buf pbuf d;
     Some (buf', pbuf + unat len, ucast (ucast frlen + len))
   }"

section \<open>Rates\<close>

definition cck_rate :: "u8 \<Rightarrow> bool" where
  "cck_rate r \<longleftrightarrow> r AND 0x7f = 2 \<or> r AND 0x7f = 4 \<or> r AND 0x7f = 11 \<or> r AND 0x7f = 22"

fun have_cckrates_loop :: "bytes \<Rightarrow> nat \<Rightarrow> nat \<Rightarrow> int option" where
  "have_cckrates_loop rate i 0 = Some (-1)"
| "have_cckrates_loop rate i (Suc n) = do {
     r \<leftarrow> rd8 rate i;
     if cck_rate r then Some 1 else have_cckrates_loop rate (i + 1) n
   }"

definition have_cckrates :: "bytes \<Rightarrow> nat \<Rightarrow> int option" where
  "have_cckrates rate ratelen = have_cckrates_loop rate 0 ratelen"

fun only_cckrates_loop :: "bytes \<Rightarrow> nat \<Rightarrow> nat \<Rightarrow> int option" where
  "only_cckrates_loop rate i 0 = Some 1"
| "only_cckrates_loop rate i (Suc n) = do {
     r \<leftarrow> rd8 rate i;
     if \<not> cck_rate r then Some (-1) else only_cckrates_loop rate (i + 1) n
   }"

definition only_cckrates :: "bytes \<Rightarrow> nat \<Rightarrow> int option" where
  "only_cckrates rate ratelen = only_cckrates_loop rate 0 ratelen"

definition do_set_mcs_by_flag :: "bytes \<Rightarrow> u32 \<Rightarrow> bytes option" where
  "do_set_mcs_by_flag mcs_set flags = do {
     let mcs_rate_1r = ucast (flags AND 0xff);
     let mcs_rate_2r = ucast (drop_bit 8 flags AND 0xff);
     let mcs_rate_3r = ucast (drop_bit 16 flags AND 0xff);
     let mcs_rate_4r = ucast (drop_bit 24 flags AND 0xff);
     old \<leftarrow> rdn mcs_set 0 4;
     wrn mcs_set 0 [old ! 0 AND mcs_rate_1r, old ! 1 AND mcs_rate_2r, old ! 2 AND mcs_rate_3r, old ! 3 AND mcs_rate_4r]
   }"

section \<open>Capability information\<close>

definition wf_ie_cap_info_update :: "wdn_net_info \<Rightarrow> u16 \<Rightarrow> wdn_net_info \<times> int" where
  "wf_ie_cap_info_update w cap =
     (let w1 = w\<lparr>ess_net := cap AND CAPAB_ESS \<noteq> 0, ibss_net := cap AND CAPAB_IBSS \<noteq> 0,
                 privacy := cap AND CAPAB_PRIVACY \<noteq> 0, short_preamble := cap AND CAPAB_SHORT_PREAMBLE \<noteq> 0,
                 short_slot := cap AND CAPAB_SHORT_SLOT_TIME \<noteq> 0,
                 radio_measure := cap AND CAPAB_RADIO_MEASURE \<noteq> 0\<rparr>;
          c0 = 0;
          c1 = (if ess_net w1 then c0 OR CAPAB_ESS else c0);
          c2 = (if ibss_net w1 then c1 OR CAPAB_IBSS else c1);
          (c3, auth) = (if privacy w1 then (c2 OR CAPAB_PRIVACY, dot11AuthAlgrthm_Shared)
                        else (c2, dot11AuthAlgrthm_Open));
          c4 = (if short_preamble w1 then c3 OR CAPAB_SHORT_PREAMBLE else c3);
          c5 = (if short_slot w1 then c4 OR CAPAB_SHORT_SLOT_TIME else c4)
      in (w1\<lparr>wdn_cap_info := c5, auth_algo := auth\<rparr>, WF_RETURN_OK))"

section \<open>SSID, rates, security and QoS elements\<close>

definition wf_ie_ssid_update :: "wdn_net_info \<Rightarrow> bytes \<Rightarrow> u8 \<Rightarrow> (wdn_net_info \<times> int) option" where
  "wf_ie_ssid_update w pie_data len =
     (if 32 \<le> len \<or> len = 0 then Some (w, WF_RETURN_FAIL)
      else do {
        s1 \<leftarrow> wrn (wdn_ssid w) 0 (replicate (unat len + 1) 0);
        d \<leftarrow> rdn pie_data 0 (unat len);
        s2 \<leftarrow> wrn s1 0 d;
        Some (w\<lparr>wdn_ssid := s2, wdn_ssid_len := len\<rparr>, WF_RETURN_OK)
      })"

text \<open>\<open>rate_match\<close> is the inner loop over the \<open>WF_RATES_NUM\<close> rates of the hardware, up to its
  \<open>break\<close>: the rate of the table that equals the rate without the basic-rate bit.\<close>

definition rate_match :: "hw_info \<Rightarrow> u8 \<Rightarrow> u8 option" where
  "rate_match hw r = List.find (\<lambda>h. r AND NOT 0x80 = h AND NOT 0x80) (hw_datarate hw)"

text \<open>The loop over the element: \<open>arr\<close> and \<open>n\<close> are the array of the peer and its length member,
  \<open>pick\<close> the value stored for a match.\<close>

fun rates_loop :: "(u8 \<Rightarrow> u8 option) \<Rightarrow> bytes \<Rightarrow> nat \<Rightarrow> nat \<Rightarrow> bytes \<Rightarrow> u8 \<Rightarrow> (bytes \<times> u8) option" where
  "rates_loop pick pie_data i 0 arr n = Some (arr, n)"
| "rates_loop pick pie_data i (Suc k) arr n = do {
     r \<leftarrow> rd8 pie_data i;
     if r = 0 then rates_loop pick pie_data (i + 1) k arr n
     else (case pick r of
         None \<Rightarrow> rates_loop pick pie_data (i + 1) k arr n
       | Some v \<Rightarrow> do {
           arr' \<leftarrow> wrn arr (unat n) [v];
           rates_loop pick pie_data (i + 1) k arr' (n + 1)
         })
   }"

definition rates_network_type :: "wdn_net_info \<Rightarrow> wdn_net_info option" where
  "rates_network_type w = do {
     only \<leftarrow> only_cckrates (datarate w) (unat (datarate_len w));
     have_cck \<leftarrow> (if only = 1 then Some 0 else have_cckrates (datarate w) (unat (datarate_len w)));
     Some (w\<lparr>network_type := network_type w OR
       (if only = 1 then WIRELESS_11B else if have_cck = 1 then WIRELESS_11BG else WIRELESS_11G)\<rparr>)
   }"

definition wf_ie_supported_rates_update ::
  "hw_info \<Rightarrow> wdn_net_info \<Rightarrow> bytes \<Rightarrow> u8 \<Rightarrow> (wdn_net_info \<times> int) option" where
  "wf_ie_supported_rates_update hw w pie_data len =
     (if len = 0 \<or> 8 < len then Some (w, WF_RETURN_FAIL)
      else do {
        (arr, n) \<leftarrow> rates_loop (\<lambda>r. map_option (\<lambda>_. r) (rate_match hw r)) pie_data 0 (unat len) (datarate w) 0;
        w' \<leftarrow> rates_network_type (w\<lparr>datarate := arr, datarate_len := n\<rparr>);
        Some (w', WF_RETURN_OK)
      })"

definition wf_ie_extend_supported_rates_update ::
  "hw_info \<Rightarrow> wdn_net_info \<Rightarrow> bytes \<Rightarrow> u8 \<Rightarrow> (wdn_net_info \<times> int) option" where
  "wf_ie_extend_supported_rates_update hw w pie_data len =
     (if len = 0 then Some (w, WF_RETURN_FAIL)
      else do {
        (arr, n) \<leftarrow> rates_loop (rate_match hw) pie_data 0 (unat len) (ext_datarate w) 0;
        w' \<leftarrow> rates_network_type (w\<lparr>ext_datarate := arr, ext_datarate_len := n\<rparr>);
        Some (w', WF_RETURN_OK)
      })"

definition wf_ie_wmm_update :: "wdn_net_info \<Rightarrow> bytes \<Rightarrow> u8 \<Rightarrow> (wdn_net_info \<times> int) option" where
  "wf_ie_wmm_update w pie_data len =
     (if len = 0 then Some (w, WF_RETURN_FAIL)
      else do {
        d \<leftarrow> rdn pie_data 0 (unat len);
        info \<leftarrow> wrn (wmm_info w) 0 d;
        Some (w\<lparr>wmm_enable := True, wmm_info := info\<rparr>, WF_RETURN_OK)
      })"

definition wf_ie_wpa_update :: "wdn_net_info \<Rightarrow> u8 \<Rightarrow> wdn_net_info \<times> int" where
  "wf_ie_wpa_update w len =
     (if len = 0 then (w, WF_RETURN_FAIL)
      else (w\<lparr>wpa_enable := True, auth_algo := dot11AuthAlgrthm_Open\<rparr>, WF_RETURN_OK))"

definition wf_ie_rsn_update :: "wdn_net_info \<Rightarrow> u8 \<Rightarrow> wdn_net_info \<times> int" where
  "wf_ie_rsn_update w len =
     (if len = 0 then (w, WF_RETURN_FAIL)
      else (w\<lparr>rsn_enable := True, auth_algo := dot11AuthAlgrthm_Open\<rparr>, WF_RETURN_OK))"

section \<open>HT elements\<close>

text \<open>The local \<open>ht_cap_temp\<close> is 26 bytes that the code does not initialise: \<open>stack\<close> is what they
  hold before the copy. The capability field is a little-endian half word at offset 0, the A-MPDU
  parameters are the byte at offset 2.\<close>

definition ht_parse_cap :: "u16 \<Rightarrow> ht_priv \<Rightarrow> ht_priv" where
  "ht_parse_cap cap hp =
     (let mode = ucast (drop_bit 2 (cap AND HT_CAP_SM_PS)) :: u8 in
      hp\<lparr>hp_ldpc := cap AND HT_CAP_LDPC_CODING \<noteq> 0, hp_both_20m_40m := cap AND HT_CAP_SUP_WIDTH_20_40 \<noteq> 0,
         hp_sm_ps_mode := mode, hp_smps := mode \<noteq> 3,
         hp_sgi_20m := cap AND HT_CAP_SGI_20 \<noteq> 0, hp_sgi_40m := cap AND HT_CAP_SGI_40 \<noteq> 0,
         hp_dssck_40m := cap AND HT_CAP_DSSSCCK40 \<noteq> 0, hp_rx_stbc := cap AND HT_CAP_RX_STBC \<noteq> 0,
         hp_tx_stbc := cap AND HT_CAP_TX_STBC \<noteq> 0\<rparr>)"

definition ht_parse_ampdu :: "u8 \<Rightarrow> ht_priv \<Rightarrow> ht_priv" where
  "ht_parse_ampdu params hp =
     hp\<lparr>hp_ampdu_enable := True,
        hp_rx_ampdu_maxlen := push_bit (unat (params AND AMPDU_PARM_FACTOR) + 3) 1,
        hp_rx_ampdu_min_spacing := drop_bit 2 (params AND AMPDU_PARM_DENSITY)\<rparr>"

text \<open>The capability field that is built for the peer, from the bits just parsed and the
  hardware: the value of \<open>ht_cap.cap_info\<close>, and the members \<open>ldpc\<close> and \<open>stbc\<close>.\<close>

definition ht_build_cap :: "hw_info \<Rightarrow> wdn_net_info \<Rightarrow> wdn_net_info" where
  "ht_build_cap hw w =
     (let hp = htpriv w;
          c0 = 0;
          c1 = (if hp_sgi_20m hp then c0 OR HT_CAP_SGI_20 else c0);
          c2 = (if hp_sgi_40m hp then c1 OR HT_CAP_SGI_40 else c1);
          c3 = (if hp_dssck_40m hp then c2 OR HT_CAP_DSSSCCK40 else c2);
          c4 = (if hp_ampdu_enable hp then c3 OR HT_CAP_MAX_AMSDU else c3);
          (c5, l) = (if hp_ldpc hp \<and> ldpc_support hw then (c4 OR HT_CAP_LDPC_CODING, 1) else (c4, 0));
          c6 = (if tx_stbc_support hw then c5 OR HT_CAP_TX_STBC else c5);
          (c7, s) = (if rx_stbc_support hw \<and> rx_stbc_num hw = 1
                     then (c6 OR (HT_CAP_RX_STBC AND 0x100), rx_stbc_num hw) else (c6, wdn_stbc w));
          c8 = (if 8191 - 256 \<le> max_recvbuf_sz hw - rx_packet_offset hw then c7 OR HT_CAP_MAX_AMSDU else c7);
          c9 = (if \<not> hp_smps hp then c8 OR HT_CAP_SM_PS
                else if sm_ps_support hw = 1 then c8 OR push_bit 2 (ucast (hp_sm_ps_mode hp))
                else c8 OR HT_CAP_SM_PS);
          c10 = (if hp_both_20m_40m hp \<and> cbw40_support hw = 1 \<and> bw_mode w = CHANNEL_WIDTH_40
                 then c9 OR HT_CAP_SUP_WIDTH_20_40 else c9)
      in w\<lparr>wdn_ht_cap := (wdn_ht_cap w)\<lparr>hc_cap_info := c10\<rparr>, wdn_ldpc := l, wdn_stbc := s\<rparr>)"

definition ht_build_params :: "hw_info \<Rightarrow> wdn_net_info \<Rightarrow> wdn_net_info option" where
  "ht_build_params hw w = do {
     let p = (max_rx_ampdu_factor hw AND 0x03) OR
             (if wpa_enable w then AMPDU_PARM_DENSITY AND push_bit 2 (best_ampdu_density hw)
              else AMPDU_PARM_DENSITY AND 0x00);
     mcs \<leftarrow> rdn (default_supported_mcs_set hw) 0 16;
     set1 \<leftarrow> wrn (hc_supp_mcs_set (wdn_ht_cap w)) 0 mcs;
     set2 \<leftarrow> do_set_mcs_by_flag set1 MCS_RATE_1R;
     Some (w\<lparr>wdn_ht_cap := (wdn_ht_cap w)\<lparr>hc_ampdu_params_info := p, hc_supp_mcs_set := set2\<rparr>\<rparr>)
   }"

definition wf_ie_ht_capability_update ::
  "hw_info \<Rightarrow> bytes \<Rightarrow> wdn_net_info \<Rightarrow> bytes \<Rightarrow> u8 \<Rightarrow> (wdn_net_info \<times> int) option" where
  "wf_ie_ht_capability_update hw stack w pie_data len =
     (if len = 0 then Some (w, WF_RETURN_FAIL)
      else do {
        d \<leftarrow> rdn pie_data 0 (unat len);
        tmp \<leftarrow> wrn stack 0 d;
        b0 \<leftarrow> rd8 tmp 0;
        b1 \<leftarrow> rd8 tmp 1;
        b2 \<leftarrow> rd8 tmp 2;
        let w1 = w\<lparr>ht_enable := True, network_type := network_type w OR WIRELESS_11_24N,
                   htpriv := ht_parse_ampdu b2 (ht_parse_cap (le16_of b0 b1) (htpriv w)), qos_option := True\<rparr>;
        w2 \<leftarrow> ht_build_params hw (ht_build_cap hw w1);
        Some (w2, WF_RETURN_OK)
      })"

text \<open>The local \<open>ht_oper_temp\<close> has 22 bytes: \<open>ht_param\<close> at offset 1, \<open>operation_mode\<close> at offset 2.\<close>

definition wf_ie_ht_operation_info_update ::
  "hw_info \<Rightarrow> bytes \<Rightarrow> wdn_net_info \<Rightarrow> bytes \<Rightarrow> u8 \<Rightarrow> (wdn_net_info \<times> int) option" where
  "wf_ie_ht_operation_info_update hw stack w pie_data len =
     (if len = 0 then Some (w, WF_RETURN_FAIL)
      else do {
        d \<leftarrow> rdn pie_data 0 (unat len);
        tmp \<leftarrow> wrn stack 0 d;
        ht_param \<leftarrow> rd8 tmp 1;
        m0 \<leftarrow> rd8 tmp 2;
        m1 \<leftarrow> rd8 tmp 3;
        let (bw, ofs) =
          (if cbw40_support hw = 1 then
             (if ht_param AND 4 \<noteq> 0 then
                (CHANNEL_WIDTH_40,
                 if ht_param AND 0x3 = 3 then CHNL_OFFSET_UPPER
                 else if ht_param AND 0x3 = 1 then CHNL_OFFSET_LOWER else CHNL_OFFSET_DONT_CARE)
              else (CHANNEL_WIDTH_20, CHNL_OFFSET_DONT_CARE))
           else (CHANNEL_WIDTH_20, CHNL_OFFSET_DONT_CARE));
        Some (w\<lparr>htpriv := (htpriv w)\<lparr>hp_ht_option := True\<rparr>, bw_mode := bw, channle_offset := ofs,
                HT_protection := ucast (le16_of m0 m1 AND 0x3)\<rparr>, WF_RETURN_OK)
      })"

definition wf_ie_erp_update :: "wdn_net_info \<Rightarrow> bytes \<Rightarrow> u8 \<Rightarrow> (wdn_net_info \<times> int) option" where
  "wf_ie_erp_update w pie_data len =
     (if len = 0 then Some (w, WF_RETURN_FAIL)
      else do {
        f \<leftarrow> rd8 pie_data 0;
        Some (w\<lparr>erp_enable := True, erp_flag := f, cts2self := 0,
                rtsen := if f AND 2 \<noteq> 0 then 1 else 0\<rparr>, WF_RETURN_OK)
      })"

section \<open>Rates: the loops against lists\<close>

lemma only_cckrates_loop_all:
  "i + n \<le> length rate \<Longrightarrow>
   only_cckrates_loop rate i n = Some (if \<forall>r\<in>set (take n (drop i rate)). cck_rate r then 1 else -1)"
proof (induction n arbitrary: i)
  case (Suc n)
  then have "take (Suc n) (drop i rate) = rate ! i # take n (drop (Suc i) rate)"
    by (simp add: Cons_nth_drop_Suc [symmetric])
  then show ?case using Suc by (simp add: rd8_def)
qed simp

lemma have_cckrates_loop_any:
  "i + n \<le> length rate \<Longrightarrow>
   have_cckrates_loop rate i n = Some (if \<exists>r\<in>set (take n (drop i rate)). cck_rate r then 1 else -1)"
proof (induction n arbitrary: i)
  case (Suc n)
  then have "take (Suc n) (drop i rate) = rate ! i # take n (drop (Suc i) rate)"
    by (simp add: Cons_nth_drop_Suc [symmetric])
  then show ?case using Suc by (simp add: rd8_def)
qed simp

text \<open>The type of a network with the rates \<open>rs\<close>.\<close>

definition type_of_rates :: "bytes \<Rightarrow> u32" where
  "type_of_rates rs =
     (if \<forall>r\<in>set rs. cck_rate r then WIRELESS_11B
      else if \<exists>r\<in>set rs. cck_rate r then WIRELESS_11BG else WIRELESS_11G)"

lemma rates_network_type_result:
  assumes "unat (datarate_len w) \<le> length (datarate w)"
  shows "rates_network_type w =
    Some (w\<lparr>network_type := network_type w OR type_of_rates (take (unat (datarate_len w)) (datarate w))\<rparr>)"
proof -
  let ?n = "unat (datarate_len w)" and ?r = "datarate w"
  have n: "0 + ?n \<le> length ?r" using assms by simp
  show ?thesis
    unfolding rates_network_type_def only_cckrates_def have_cckrates_def only_cckrates_loop_all [OF n]
      have_cckrates_loop_any [OF n] drop_0 bind.bind_lunit type_of_rates_def
    by (cases "\<forall>r\<in>set (take ?n ?r). cck_rate r"; cases "\<exists>r\<in>set (take ?n ?r). cck_rate r")
      (simp_all only: simp_thms if_True if_False bind.bind_lunit option.inject, simp_all)
qed

text \<open>The values the loop stores, in order.\<close>

fun kept_rates :: "(u8 \<Rightarrow> u8 option) \<Rightarrow> bytes \<Rightarrow> bytes" where
  "kept_rates pick [] = []"
| "kept_rates pick (r # rs) =
     (case (if r = 0 then None else pick r) of None \<Rightarrow> kept_rates pick rs | Some v \<Rightarrow> v # kept_rates pick rs)"

lemma length_kept_rates: "length (kept_rates pick rs) \<le> length rs"
  by (induction rs) (auto split: option.split)

lemma kept_rates_filter:
  "kept_rates (\<lambda>r. map_option (\<lambda>_. r) (rate_match hw r)) rs = filter (\<lambda>r. r \<noteq> 0 \<and> rate_match hw r \<noteq> None) rs"
  by (induction rs) auto

lemma rates_loop_result:
  assumes "i + k \<le> length data" "unat n \<le> length arr" "length arr < 256"
  shows "rates_loop pick data i k arr n =
    (let vs = kept_rates pick (take k (drop i data)) in
     if unat n + length vs \<le> length arr
     then Some (take (unat n) arr @ vs @ drop (unat n + length vs) arr, n + of_nat (length vs)) else None)"
  using assms
proof (induction k arbitrary: i arr n)
  case (Suc k)
  have split: "take (Suc k) (drop i data) = data ! i # take k (drop (Suc i) data)"
    using Suc.prems(1) by (simp add: Cons_nth_drop_Suc [symmetric])
  have rd: "rd8 data i = Some (data ! i)" using Suc.prems(1) by (simp add: rd8_def)
  show ?case
  proof (cases "if data ! i = 0 then None else pick (data ! i)")
    case None
    have "rates_loop pick data i (Suc k) arr n = rates_loop pick data (i + 1) k arr n"
      using None by (simp add: rd split: if_splits)
    then show ?thesis using Suc.IH [of "i + 1" n arr] Suc.prems by (simp add: split None [simplified])
  next
    case (Some v)
    let ?vs = "kept_rates pick (take k (drop (Suc i) data))"
    have some: "data ! i \<noteq> 0" "pick (data ! i) = Some v" using Some by (simp_all split: if_splits)
    show ?thesis
    proof (cases "unat n < length arr")
      case False
      then show ?thesis using Suc.prems some by (simp add: split rd wrn_def Let_def)
    next
      case True
      let ?arr = "take (unat n) arr @ [v] @ drop (unat n + 1) arr"
      have n1: "unat (n + 1) = unat n + 1"
        using True Suc.prems unat_add_lem [of n 1] by simp
      have arr: "length ?arr = length arr" "unat (n + 1) \<le> length ?arr" "length ?arr < 256"
        "take (unat n + 1) ?arr = take (unat n) arr @ [v]"
        using True Suc.prems by (simp_all add: n1)
      have tail: "drop (unat n + 1 + length ?vs) ?arr = drop (unat n + 1 + length ?vs) arr"
        using True by (simp add: add.commute)
      have i: "i + 1 + k \<le> length data" "Suc i = i + 1" using Suc.prems by simp_all
      have "rates_loop pick data i (Suc k) arr n = rates_loop pick data (i + 1) k ?arr (n + 1)"
        using some True by (simp add: rd wrn_def)
      also have "\<dots> = (if unat n + 1 + length ?vs \<le> length arr
          then Some (take (unat n) arr @ [v] @ ?vs @ drop (unat n + 1 + length ?vs) arr, n + 1 + of_nat (length ?vs))
          else None)"
        unfolding Suc.IH [OF i(1) arr(2,3)] Let_def arr(1) n1 i(2) arr(4) tail [unfolded i(2)]
        by (simp only: append_assoc)
      finally show ?thesis using some by (simp add: split Let_def add.assoc)
    qed
  qed
qed (simp add: Let_def)

section \<open>Single bits\<close>

lemma cap_bit_u16:
  fixes c :: u16
  shows "c AND 1 \<noteq> 0 \<longleftrightarrow> bit c 0" "c AND 2 \<noteq> 0 \<longleftrightarrow> bit c 1" "c AND 0x10 \<noteq> 0 \<longleftrightarrow> bit c 4"
    "c AND 0x20 \<noteq> 0 \<longleftrightarrow> bit c 5" "c AND 0x40 \<noteq> 0 \<longleftrightarrow> bit c 6" "c AND 0x80 \<noteq> 0 \<longleftrightarrow> bit c 7"
    "c AND 0x400 \<noteq> 0 \<longleftrightarrow> bit c 10" "c AND 0x1000 \<noteq> 0 \<longleftrightarrow> bit c 12"
  using and_exp_eq_0_iff_not_bit [of c 0] and_exp_eq_0_iff_not_bit [of c 1] and_exp_eq_0_iff_not_bit [of c 4]
    and_exp_eq_0_iff_not_bit [of c 5] and_exp_eq_0_iff_not_bit [of c 6] and_exp_eq_0_iff_not_bit [of c 7]
    and_exp_eq_0_iff_not_bit [of c 10] and_exp_eq_0_iff_not_bit [of c 12]
  by simp_all

lemma if_or: "(if P then c OR m else c) = c OR (if P then m else (0 :: u16))"
  by simp

lemma if_or_pair:
  "(case (if P then (c OR m, x) else (c, y)) of (c', z) \<Rightarrow> f c' z) = f (c OR (if P then m else (0 :: u16))) (if P then x else y)"
  by simp

text \<open>The capability field as a union of single flags.\<close>

definition ht_flags :: "hw_info \<Rightarrow> wdn_net_info \<Rightarrow> u16" where
  "ht_flags hw w =
     (let hp = htpriv w in
      0 OR (if hp_sgi_20m hp then HT_CAP_SGI_20 else 0) OR (if hp_sgi_40m hp then HT_CAP_SGI_40 else 0) OR
      (if hp_dssck_40m hp then HT_CAP_DSSSCCK40 else 0) OR
      (if hp_ampdu_enable hp then HT_CAP_MAX_AMSDU else 0) OR
      (if hp_ldpc hp \<and> ldpc_support hw then HT_CAP_LDPC_CODING else 0) OR
      (if tx_stbc_support hw then HT_CAP_TX_STBC else 0) OR
      (if rx_stbc_support hw \<and> rx_stbc_num hw = 1 then HT_CAP_RX_STBC AND 0x100 else 0) OR
      (if 8191 - 256 \<le> max_recvbuf_sz hw - rx_packet_offset hw then HT_CAP_MAX_AMSDU else 0) OR
      (if hp_smps hp \<and> sm_ps_support hw = 1 then push_bit 2 (ucast (hp_sm_ps_mode hp)) else HT_CAP_SM_PS) OR
      (if hp_both_20m_40m hp \<and> cbw40_support hw = 1 \<and> bw_mode w = CHANNEL_WIDTH_40
       then HT_CAP_SUP_WIDTH_20_40 else 0))"

lemma sm_ps_or:
  "(if \<not> p then c OR m else if q then c OR k else c OR m) = c OR (if p \<and> q then k else (m :: u16))"
  by simp

lemma ht_build_cap_result:
  "ht_build_cap hw w = w\<lparr>wdn_ht_cap := (wdn_ht_cap w)\<lparr>hc_cap_info := ht_flags hw w\<rparr>,
     wdn_ldpc := if hp_ldpc (htpriv w) \<and> ldpc_support hw then 1 else 0,
     wdn_stbc := if rx_stbc_support hw \<and> rx_stbc_num hw = 1 then rx_stbc_num hw else wdn_stbc w\<rparr>"
  unfolding ht_build_cap_def ht_flags_def Let_def if_or_pair if_or sm_ps_or or.assoc by (rule refl)

text \<open>A hardware description for the examples: the twelve rates of 802.11b and g, 40 MHz, LDPC.\<close>

definition hw_sample :: hw_info where
  "hw_sample = \<lparr>dot80211n_support = True, cbw40_support = 1, sm_ps_support = 1, ldpc_support = True,
     tx_stbc_support = True, rx_stbc_support = True, rx_stbc_num = 1, rx_packet_offset = 0, max_recvbuf_sz = 0,
     max_rx_ampdu_factor = 3, best_ampdu_density = 0,
     hw_datarate = [2, 4, 11, 22, 12, 18, 24, 36, 48, 72, 96, 108, 0],
     default_supported_mcs_set = replicate 16 0xff\<rparr>"

lemma hw_sample_wf: "hw_wf hw_sample"
  by (simp add: hw_wf_def hw_sample_def)

lemma bit_if_0: "bit (if P then m else 0) n \<longleftrightarrow> P \<and> bit (m :: u16) n"
  by simp

text \<open>The bits of the flags that are built from the parsed capabilities.\<close>

definition parsed :: "u16 \<Rightarrow> wdn_net_info \<Rightarrow> bool" where
  "parsed cap w \<longleftrightarrow> (\<exists>params hp. htpriv w = ht_parse_ampdu params (ht_parse_cap cap hp))"

lemma parsed_htpriv:
  assumes "parsed cap w"
  shows "hp_sgi_20m (htpriv w) \<longleftrightarrow> bit cap 5" "hp_sgi_40m (htpriv w) \<longleftrightarrow> bit cap 6" "hp_dssck_40m (htpriv w) \<longleftrightarrow> bit cap 12"
    "hp_ampdu_enable (htpriv w)" "hp_ldpc (htpriv w) \<longleftrightarrow> bit cap 0" "hp_both_20m_40m (htpriv w) \<longleftrightarrow> bit cap 1"
    "hp_smps (htpriv w) \<longleftrightarrow> \<not> (bit cap 2 \<and> bit cap 3)"
    "push_bit 2 (ucast (hp_sm_ps_mode (htpriv w))) = cap AND HT_CAP_SM_PS"
proof -
  obtain params hp where h: "htpriv w = ht_parse_ampdu params (ht_parse_cap cap hp)"
    using assms by (auto simp: parsed_def)
  let ?m = "ucast (drop_bit 2 (cap AND HT_CAP_SM_PS)) :: u8"
  have c: "bit HT_CAP_SM_PS n \<longleftrightarrow> n = 2 \<or> n = 3" for n
  proof -
    have "HT_CAP_SM_PS = 2 ^ 2 OR 2 ^ 3" by simp
    then show ?thesis by (simp only: bit_or_iff bit_exp_iff) auto
  qed
  have m: "bit ?m n \<longleftrightarrow> n < 2 \<and> bit cap (n + 2)" for n
    by (auto simp only: bit_ucast_iff bit_drop_bit_eq bit_and_iff c comp_def) (auto simp: less_Suc_eq numeral_2_eq_2 numeral_3_eq_3)
  have "?m = 3 \<longleftrightarrow> bit cap 2 \<and> bit cap 3"
  proof -
    have three: "bit (3 :: u8) n \<longleftrightarrow> n = 0 \<or> n = 1" for n
    proof -
      have "(3 :: u8) = 2 ^ 0 OR 2 ^ 1" by simp
      then show ?thesis by (simp only: bit_or_iff bit_exp_iff) auto
    qed
    have "?m = 3 \<longleftrightarrow> (\<forall>n. bit ?m n = bit (3 :: u8) n)" by (metis bit_word_eqI)
    also have "\<dots> \<longleftrightarrow> (\<forall>n. (n < 2 \<and> bit cap (n + 2)) = (n = 0 \<or> n = 1))"
      by (simp only: m three)
    also have "\<dots> \<longleftrightarrow> bit cap (0 + 2) \<and> bit cap (1 + 2)"
    proof
      assume "\<forall>n. (n < 2 \<and> bit cap (n + 2)) = (n = 0 \<or> n = 1)"
      from this [rule_format, of 0] this [rule_format, of 1] show "bit cap (0 + 2) \<and> bit cap (1 + 2)" by simp
    next
      assume "bit cap (0 + 2) \<and> bit cap (1 + 2)"
      then show "\<forall>n. (n < 2 \<and> bit cap (n + 2)) = (n = 0 \<or> n = 1)" by (simp only: less_2_cases_iff One_nat_def) blast
    qed
    finally show ?thesis by (simp add: numeral_eq_Suc)
  qed
  then show "hp_smps (htpriv w) \<longleftrightarrow> \<not> (bit cap 2 \<and> bit cap 3)"
    by (simp add: h ht_parse_ampdu_def ht_parse_cap_def Let_def)
  have "push_bit 2 (ucast ?m) = cap AND HT_CAP_SM_PS"
  proof (rule bit_word_eqI)
    fix n :: nat
    assume n: "n < LENGTH(16)"
    have "bit (push_bit 2 (ucast ?m) :: u16) n \<longleftrightarrow> 2 \<le> n \<and> bit ?m (n - 2)"
      using n by (auto simp only: bit_push_bit_iff bit_ucast_iff possible_bit_word)
    also have "\<dots> \<longleftrightarrow> (n = 2 \<or> n = 3) \<and> bit cap n"
    proof (cases "2 \<le> n")
      case True
      then have "n - 2 + 2 = n" by simp
      then show ?thesis using True by (simp only: m) auto
    qed auto
    finally show "bit (push_bit 2 (ucast ?m) :: u16) n \<longleftrightarrow> bit (cap AND HT_CAP_SM_PS) n"
      by (simp only: bit_and_iff c) blast
  qed
  then show "push_bit 2 (ucast (hp_sm_ps_mode (htpriv w))) = cap AND HT_CAP_SM_PS"
    by (simp add: h ht_parse_ampdu_def ht_parse_cap_def Let_def)
qed (use assms in \<open>auto simp: parsed_def ht_parse_ampdu_def ht_parse_cap_def Let_def cap_bit_u16\<close>)

lemma ht_flags_bits:
  assumes "parsed cap w"
  shows "bit (ht_flags hw w) 0 \<longleftrightarrow> bit cap 0 \<and> ldpc_support hw"
    "bit (ht_flags hw w) 1 \<longleftrightarrow> bit cap 1 \<and> cbw40_support hw = 1 \<and> bw_mode w = CHANNEL_WIDTH_40"
    "n \<in> {2, 3} \<Longrightarrow> bit (ht_flags hw w) n \<longleftrightarrow> bit cap n \<or> sm_ps_support hw \<noteq> 1"
    "n \<in> {5, 6, 12} \<Longrightarrow> bit (ht_flags hw w) n \<longleftrightarrow> bit cap n"
    "bit (ht_flags hw w) 7 \<longleftrightarrow> tx_stbc_support hw"
    "bit (ht_flags hw w) 8 \<longleftrightarrow> rx_stbc_support hw \<and> rx_stbc_num hw = 1"
    "bit (ht_flags hw w) 11"
    "n \<in> {4, 9, 10, 13, 14, 15} \<Longrightarrow> \<not> bit (ht_flags hw w) n"
proof -
  have s: "bit (if p then m else m') n \<longleftrightarrow> (if p then bit m n else bit m' n)" for p n and m m' :: u16
    by simp
  note b = ht_flags_def Let_def parsed_htpriv [OF assms] bit_or_iff bit_and_iff s
  show "bit (ht_flags hw w) 0 \<longleftrightarrow> bit cap 0 \<and> ldpc_support hw" by (simp add: b)
  show "bit (ht_flags hw w) 1 \<longleftrightarrow> bit cap 1 \<and> cbw40_support hw = 1 \<and> bw_mode w = CHANNEL_WIDTH_40" by (simp add: b)
  show "bit (ht_flags hw w) n \<longleftrightarrow> bit cap n \<or> sm_ps_support hw \<noteq> 1" if "n \<in> {2, 3}"
  proof -
    have "bit (ht_flags hw w) 2 \<longleftrightarrow> bit cap 2 \<or> sm_ps_support hw \<noteq> 1" "bit (ht_flags hw w) 3 \<longleftrightarrow> bit cap 3 \<or> sm_ps_support hw \<noteq> 1"
      by (cases "bit cap 2"; cases "bit cap 3"; cases "sm_ps_support hw = 1"; simp add: b)+
    with that show ?thesis by (elim insertE) simp_all
  qed
  show "bit (ht_flags hw w) n \<longleftrightarrow> bit cap n" if "n \<in> {5, 6, 12}"
    using that by (elim insertE) (simp_all add: b)
  show "bit (ht_flags hw w) 7 \<longleftrightarrow> tx_stbc_support hw" by (simp add: b)
  show "bit (ht_flags hw w) 8 \<longleftrightarrow> rx_stbc_support hw \<and> rx_stbc_num hw = 1" by (simp add: b)
  show "bit (ht_flags hw w) 11" by (simp add: b)
  show "\<not> bit (ht_flags hw w) n" if "n \<in> {4, 9, 10, 13, 14, 15}"
    using that by (elim insertE) (simp_all add: b)
qed

lemma ht_build_params_result:
  assumes "length (hc_supp_mcs_set (wdn_ht_cap w)) = 16" "hw_wf hw"
  shows "\<exists>p ms. ht_build_params hw w = Some (w\<lparr>wdn_ht_cap := (wdn_ht_cap w)\<lparr>hc_ampdu_params_info := p,
      hc_supp_mcs_set := default_supported_mcs_set hw ! 0 # 0 # 0 # 0 # ms\<rparr>\<rparr>) \<and> length ms = 12"
proof -
  obtain m0 m1 m2 m3 ms where "default_supported_mcs_set hw = m0 # m1 # m2 # m3 # ms" "length ms = 12"
    using assms(2) by (auto simp: hw_wf_def numeral_eq_Suc length_Suc_conv)
  moreover have "m AND 0xff = m" for m :: u8
  proof -
    have "(0xff :: u8) = -1" by simp
    then show ?thesis by (simp only: and.right_neutral)
  qed
  ultimately have "ht_build_params hw w = Some (w\<lparr>wdn_ht_cap := (wdn_ht_cap w)\<lparr>
      hc_ampdu_params_info := (max_rx_ampdu_factor hw AND 0x03) OR
        (if wpa_enable w then AMPDU_PARM_DENSITY AND push_bit 2 (best_ampdu_density hw) else AMPDU_PARM_DENSITY AND 0x00),
      hc_supp_mcs_set := default_supported_mcs_set hw ! 0 # 0 # 0 # 0 # ms\<rparr>\<rparr>)"
    using assms(1) by (simp add: ht_build_params_def do_set_mcs_by_flag_def rdn_def wrn_def Let_def)
  then show ?thesis using \<open>length ms = 12\<close> by blast
qed

section \<open>Properties\<close>

text \<open>The capability field of a peer is the received one restricted to the five flags the
  driver supports, and the authentication algorithm is shared key exactly for a network with
  privacy.\<close>

theorem cap_info_update_result:
  "\<exists>w'. wf_ie_cap_info_update w cap = (w', WF_RETURN_OK) \<and> wdn_cap_info w' = cap AND 0x0433 \<and>
     auth_algo w' = (if bit cap 4 then dot11AuthAlgrthm_Shared else dot11AuthAlgrthm_Open) \<and>
     (ess_net w' \<longleftrightarrow> bit cap 0) \<and> (ibss_net w' \<longleftrightarrow> bit cap 1) \<and> (privacy w' \<longleftrightarrow> bit cap 4) \<and>
     (short_preamble w' \<longleftrightarrow> bit cap 5) \<and> (short_slot w' \<longleftrightarrow> bit cap 10) \<and> (radio_measure w' \<longleftrightarrow> bit cap 12)"
proof -
  have m: "cap AND 2 ^ k = (if bit cap k then 2 ^ k else 0)" for k
    by (rule bit_word_eqI) (auto simp: bit_simps bit_exp_iff)
  have "cap AND 0x0433 = cap AND (0 OR 1 OR 2 OR 0x10 OR 0x20 OR 0x400)" by simp
  also have "\<dots> = 0 OR (cap AND 1) OR (cap AND 2) OR (cap AND 0x10) OR (cap AND 0x20) OR (cap AND 0x400)"
    by (simp only: bit.conj_disj_distrib and_zero_eq or.assoc)
  also have "\<dots> = 0 OR (if bit cap 0 then 1 else 0) OR (if bit cap 1 then 2 else 0) OR
      (if bit cap 4 then 0x10 else 0) OR (if bit cap 5 then 0x20 else 0) OR (if bit cap 10 then 0x400 else 0)"
    using m [of 0] m [of 1] m [of 4] m [of 5] m [of 10] by simp
  finally show ?thesis
    by (simp only: wf_ie_cap_info_update_def Let_def cap_bit_u16) (simp split: if_split)
qed

text \<open>From a Supported Rates element of one to eight bytes the peer keeps, in order, exactly
  the rates that the hardware supports, inside the member \<open>datarate\<close>, and its network type is
  extended by the type that these rates imply.\<close>

theorem supported_rates_result:
  assumes "wdn_wf w" "0 < len" "len \<le> 8" "unat len \<le> length data"
  shows "\<exists>w'. wf_ie_supported_rates_update hw w data len = Some (w', WF_RETURN_OK) \<and> wdn_wf w' \<and>
    (let rs = filter (\<lambda>r. r \<noteq> 0 \<and> rate_match hw r \<noteq> None) (take (unat len) data) in
     unat (datarate_len w') = length rs \<and> take (length rs) (datarate w') = rs \<and>
     network_type w' = network_type w OR type_of_rates rs)"
proof -
  define rs where "rs = filter (\<lambda>r. r \<noteq> 0 \<and> rate_match hw r \<noteq> None) (take (unat len) data)"
  have l8: "unat len \<le> 8" using assms(3) by (simp add: word_le_nat_alt)
  have k: "length rs \<le> 8" unfolding rs_def using l8 le_trans [OF length_filter_le, of "take (unat len) data" 8] by simp
  have len: "length (datarate w) = 8" using assms(1) by (simp add: wdn_wf_def)
  have u: "unat (of_nat (length rs) :: u8) = length rs" using k by (simp add: unsigned_of_nat take_bit_nat_eq_self)
  have loop: "rates_loop (\<lambda>r. map_option (\<lambda>_. r) (rate_match hw r)) data 0 (unat len) (datarate w) 0 =
      Some (rs @ drop (length rs) (datarate w), of_nat (length rs))"
    using rates_loop_result [of 0 "unat len" data 0 "datarate w" "\<lambda>r. map_option (\<lambda>_. r) (rate_match hw r)"]
      assms(4) len k by (simp only: kept_rates_filter Let_def rs_def [symmetric] drop_0) simp
  have guard: "\<not> (len = 0 \<or> 8 < len)" using assms(2,3) by auto
  let ?w = "w\<lparr>datarate := rs @ drop (length rs) (datarate w), datarate_len := of_nat (length rs)\<rparr>"
  have "rates_network_type ?w = Some (?w\<lparr>network_type := network_type w OR type_of_rates rs\<rparr>)"
    by (subst rates_network_type_result) (simp_all add: u)
  then have "wf_ie_supported_rates_update hw w data len = Some (?w\<lparr>network_type := network_type w OR type_of_rates rs\<rparr>, WF_RETURN_OK)"
    unfolding wf_ie_supported_rates_update_def loop using guard by simp
  then show ?thesis unfolding rs_def [symmetric] using assms(1) k len u by (simp add: wdn_wf_def Let_def)
qed

lemma supported_rates_result_witness:
  "\<exists>w'. wf_ie_supported_rates_update hw_sample wdn_zero [0x82, 0x84, 0x0c, 0x13] 4 = Some (w', WF_RETURN_OK) \<and>
     unat (datarate_len w') = 3 \<and> take 3 (datarate w') = [0x82, 0x84, 0x0c] \<and> network_type w' = WIRELESS_11BG"
proof -
  let ?d = "[0x82, 0x84, 0x0c, 0x13] :: bytes"
  have f: "filter (\<lambda>r. r \<noteq> 0 \<and> rate_match hw_sample r \<noteq> None) (take (unat (4 :: u8)) ?d) = [0x82, 0x84, 0x0c]"
    by (simp add: rate_match_def hw_sample_def)
  have t: "network_type wdn_zero OR type_of_rates [0x82, 0x84, 0x0c] = WIRELESS_11BG"
    by (simp add: type_of_rates_def cck_rate_def wdn_zero_def Let_def)
  have n: "length [0x82 :: u8, 0x84, 0x0c] = 3" by simp
  show ?thesis
    using supported_rates_result [OF wdn_zero_wf, of 4 ?d hw_sample, unfolded f Let_def n t] by auto
qed

text \<open>The handler of Extended Supported Rates writes outside the four bytes of
  \<open>ext_datarate\<close> exactly when more than four rates of the element match; otherwise it stores the
  matching hardware rates. The network type it adds is computed from \<open>datarate\<close>: the rates of
  this element have no influence on it.\<close>

theorem ext_rates_result:
  assumes "wdn_wf w" "len \<noteq> 0" "unat len \<le> length data" "unat (datarate_len w) \<le> 8"
  shows "let vs = kept_rates (rate_match hw) (take (unat len) data) in
    if 4 < length vs then wf_ie_extend_supported_rates_update hw w data len = None
    else wf_ie_extend_supported_rates_update hw w data len =
      Some (w\<lparr>ext_datarate := vs @ drop (length vs) (ext_datarate w), ext_datarate_len := of_nat (length vs),
              network_type := network_type w OR type_of_rates (take (unat (datarate_len w)) (datarate w))\<rparr>, WF_RETURN_OK)"
proof -
  let ?vs = "kept_rates (rate_match hw) (take (unat len) data)"
  have len: "length (ext_datarate w) = 4" "length (datarate w) = 8" using assms(1) by (simp_all add: wdn_wf_def)
  have loop: "rates_loop (rate_match hw) data 0 (unat len) (ext_datarate w) 0 =
      (if length ?vs \<le> 4 then Some (?vs @ drop (length ?vs) (ext_datarate w), of_nat (length ?vs)) else None)"
    using rates_loop_result [of 0 "unat len" data 0 "ext_datarate w" "rate_match hw"] assms(3) len
    by (simp add: Let_def)
  let ?w = "w\<lparr>ext_datarate := ?vs @ drop (length ?vs) (ext_datarate w), ext_datarate_len := of_nat (length ?vs)\<rparr>"
  have "rates_network_type ?w = Some (?w\<lparr>network_type := network_type w OR type_of_rates (take (unat (datarate_len w)) (datarate w))\<rparr>)"
    by (subst rates_network_type_result) (simp_all add: len assms(4))
  then show ?thesis
    unfolding wf_ie_extend_supported_rates_update_def loop using assms(2) by (simp add: Let_def)
qed

lemma ext_rates_result_witness:
  "wf_ie_extend_supported_rates_update hw_sample wdn_zero [12, 18, 24, 36, 48] 5 = None"
proof -
  have d: "unat (datarate_len wdn_zero) \<le> 8" by (simp add: wdn_zero_def Let_def)
  have k: "kept_rates (rate_match hw_sample) (take (unat (5 :: u8)) [12, 18, 24, 36, 48]) = [12, 18, 24, 36, 48]"
    by (simp add: rate_match_def hw_sample_def)
  show ?thesis
    using ext_rates_result [OF wdn_zero_wf _ _ d, of 5 "[12, 18, 24, 36, 48]" hw_sample, unfolded k Let_def] by simp
qed

text \<open>(C29) The HT capabilities negotiated with a peer: for an element whose copy fits the local
  structure, each flag that the driver announces is given by the received flag and the hardware,
  the reserved flags are clear, one spatial stream of rates is announced, and the peer's arrays
  keep their sizes. The A-MSDU flag is always set.\<close>

theorem ht_capability_result:
  assumes "wdn_wf w" "hw_wf hw" "length stack = 26" "3 \<le> unat len" "unat len \<le> 26" "unat len \<le> length data"
  shows "\<exists>w'. wf_ie_ht_capability_update hw stack w data len = Some (w', WF_RETURN_OK) \<and> wdn_wf w' \<and>
    (let cap = le16_of (data ! 0) (data ! 1); c = hc_cap_info (wdn_ht_cap w') in
     (bit c 0 \<longleftrightarrow> bit cap 0 \<and> ldpc_support hw) \<and>
     (bit c 1 \<longleftrightarrow> bit cap 1 \<and> cbw40_support hw = 1 \<and> bw_mode w = CHANNEL_WIDTH_40) \<and>
     (\<forall>n\<in>{2, 3}. bit c n \<longleftrightarrow> bit cap n \<or> sm_ps_support hw \<noteq> 1) \<and>
     (\<forall>n\<in>{5, 6, 12}. bit c n \<longleftrightarrow> bit cap n) \<and>
     (bit c 7 \<longleftrightarrow> tx_stbc_support hw) \<and> (bit c 8 \<longleftrightarrow> rx_stbc_support hw \<and> rx_stbc_num hw = 1) \<and> bit c 11 \<and>
     (\<forall>n\<in>{4, 9, 10, 13, 14, 15}. \<not> bit c n)) \<and>
    hp_rx_ampdu_maxlen (htpriv w') = 2 ^ (unat (data ! 2 AND 3) + 3) \<and>
    take 4 (hc_supp_mcs_set (wdn_ht_cap w')) = [default_supported_mcs_set hw ! 0, 0, 0, 0]"
proof -
  let ?cap = "le16_of (data ! 0) (data ! 1)"
  let ?w1 = "w\<lparr>ht_enable := True, network_type := network_type w OR WIRELESS_11_24N,
      htpriv := ht_parse_ampdu (data ! 2) (ht_parse_cap ?cap (htpriv w)), qos_option := True\<rparr>"
  let ?tmp = "take (unat len) data @ drop (unat len) stack"
  have d: "rdn data 0 (unat len) = Some (take (unat len) data)" "wrn stack 0 (take (unat len) data) = Some ?tmp"
    using assms by (simp_all add: rdn_def wrn_def)
  have b: "rd8 ?tmp 0 = Some (data ! 0)" "rd8 ?tmp 1 = Some (data ! 1)" "rd8 ?tmp 2 = Some (data ! 2)"
    using assms by (simp_all add: rd8_def nth_append)
  have nz: "len \<noteq> 0" using assms(4) by auto
  let ?w2 = "ht_build_cap hw ?w1"
  have "length (hc_supp_mcs_set (wdn_ht_cap ?w2)) = 16" using assms(1) by (simp add: ht_build_cap_result wdn_wf_def)
  then obtain p ms where w': "ht_build_params hw ?w2 = Some (?w2\<lparr>wdn_ht_cap := (wdn_ht_cap ?w2)\<lparr>hc_ampdu_params_info := p,
      hc_supp_mcs_set := default_supported_mcs_set hw ! 0 # 0 # 0 # 0 # ms\<rparr>\<rparr>)" "length ms = 12"
    using ht_build_params_result assms(2) by blast
  define w' where "w' = ?w2\<lparr>wdn_ht_cap := (wdn_ht_cap ?w2)\<lparr>hc_ampdu_params_info := p,
      hc_supp_mcs_set := default_supported_mcs_set hw ! 0 # 0 # 0 # 0 # ms\<rparr>\<rparr>"
  have res: "wf_ie_ht_capability_update hw stack w data len = Some (w', WF_RETURN_OK)"
    unfolding wf_ie_ht_capability_update_def w'_def using nz d b w'(1) by simp
  have wf: "wdn_wf w'" using assms(1) w'(2) by (simp add: w'_def wdn_wf_def ht_build_cap_result)
  have c: "hc_cap_info (wdn_ht_cap w') = ht_flags hw ?w1" by (simp add: w'_def ht_build_cap_result)
  have "parsed ?cap ?w1" by (auto simp: parsed_def)
  note bits = ht_flags_bits [OF this]
  have other: "hp_rx_ampdu_maxlen (htpriv w') = 2 ^ (unat (data ! 2 AND 3) + 3)"
    "take 4 (hc_supp_mcs_set (wdn_ht_cap w')) = [default_supported_mcs_set hw ! 0, 0, 0, 0]"
    "bw_mode ?w1 = bw_mode w"
    by (simp_all add: w'_def ht_build_cap_result ht_parse_ampdu_def)
  show ?thesis
    unfolding Let_def by (intro exI [of _ w'] conjI ballI; (simp only: res wf c bits other not_False_eq_True)?)
qed

lemma ht_capability_result_witness:
  "\<exists>w'. wf_ie_ht_capability_update hw_sample (replicate 26 0) wdn_zero ([0x6f, 0x00, 0x17] @ replicate 23 0) 26 =
      Some (w', WF_RETURN_OK) \<and> bit (hc_cap_info (wdn_ht_cap w')) 0 \<and> bit (hc_cap_info (wdn_ht_cap w')) 5"
proof -
  let ?d = "[0x6f, 0x00, 0x17] @ replicate 23 0 :: bytes"
  have cap: "bit (le16_of (?d ! 0) (?d ! 1)) 0" "bit (le16_of (?d ! 0) (?d ! 1)) 5" "ldpc_support hw_sample"
    by code_simp+
  obtain w' where w': "wf_ie_ht_capability_update hw_sample (replicate 26 0) wdn_zero ?d 26 = Some (w', WF_RETURN_OK)"
      "bit (hc_cap_info (wdn_ht_cap w')) 0 \<longleftrightarrow> bit (le16_of (?d ! 0) (?d ! 1)) 0 \<and> ldpc_support hw_sample"
      "bit (hc_cap_info (wdn_ht_cap w')) 5 \<longleftrightarrow> bit (le16_of (?d ! 0) (?d ! 1)) 5"
    using ht_capability_result [OF wdn_zero_wf hw_sample_wf, of "replicate 26 0" 26 ?d, unfolded Let_def] by fastforce
  then show ?thesis using cap by blast
qed

end
