(* ===== verification/Wdn_Update.thy ===== *)
theory Wdn_Update
  imports Wdn Wf_80211 Ie
begin

text \<open>
  \<open>wf_wdn_data_update\<close> of \<open>wdn.c\<close>: the peer of a joined network is filled from the network the
  scan found. This is where the search for elements (\<open>wf_80211.c\<close>), the handlers of elements
  (\<open>ie.c\<close>) and the peer structure meet; every length the handlers get was sent by the access
  point. Firmware commands are returned as a list; the log output is left out.
\<close>

section \<open>Operations\<close>










section \<open>The handlers keep the peer well formed\<close>

definition wdn_J :: "wdn_net_info \<Rightarrow> bool" where
  "wdn_J w \<longleftrightarrow> wdn_wf w \<and> unat (datarate_len w) \<le> 8"

definition keeps_J :: "(wdn_net_info \<times> int) option \<Rightarrow> bool" where
  "keeps_J r \<longleftrightarrow> (\<exists>w' i. r = Some (w', i) \<and> wdn_J w')"

lemma keeps_J_Some [simp]: "keeps_J (Some (w, i)) \<longleftrightarrow> wdn_J w"
  by (simp add: keeps_J_def)










section \<open>Composition\<close>




section \<open>Properties\<close>



end
