(* ===== verification/Rx_Frame.thy ===== *)
theory Rx_Frame
  imports Sec
begin

text \<open>
  The receive path of \<open>rx.c\<close> from the receive descriptor to the checks of a data or management
  frame, as built with \<open>CONFIG_RICHV200\<close>: the descriptor \<open>struct rxd_detail_new\<close>, length and
  checksum checks, signal strength and quality, parsing of the frame header, the address checks of
  the three work modes and the filter for duplicates. Defragmentation, and the processing of a
  frame as a whole, are in \<open>Rx_Process\<close>.

  \<open>nic_info\<close>, \<open>rx_info\<close> and the buffers are not NULL; the tests for it are left out. \<open>None\<close> is
  an access outside a buffer.
\<close>

section \<open>The receive descriptor\<close>

text \<open>The members of \<open>struct rxd_detail_new\<close> that the code reads, with word, first bit and width.\<close>

datatype rxd_field = data_type | cmd_index | drvinfo_size | phy_status | crc32 | pkt_len | encrypt_algo | qos | tid |
  rx_rate | notice | amsdu | more_data | more_frag | frag | usb_agg_pktnum | seq

fun rxd_detail_new :: "rxd_field \<Rightarrow> nat \<times> nat \<times> nat" where
  "rxd_detail_new data_type = (0, 0, 2)"
| "rxd_detail_new cmd_index = (0, 2, 8)"
| "rxd_detail_new drvinfo_size = (0, 14, 4)"
| "rxd_detail_new phy_status = (0, 18, 1)"
| "rxd_detail_new crc32 = (0, 19, 1)"
| "rxd_detail_new pkt_len = (1, 0, 14)"
| "rxd_detail_new encrypt_algo = (1, 24, 3)"
| "rxd_detail_new qos = (1, 27, 1)"
| "rxd_detail_new tid = (1, 28, 4)"
| "rxd_detail_new rx_rate = (2, 0, 7)"
| "rxd_detail_new notice = (2, 15, 1)"
| "rxd_detail_new amsdu = (2, 17, 1)"
| "rxd_detail_new more_data = (2, 18, 1)"
| "rxd_detail_new more_frag = (2, 19, 1)"
| "rxd_detail_new frag = (2, 20, 4)"
| "rxd_detail_new usb_agg_pktnum = (2, 24, 8)"
| "rxd_detail_new seq = (4, 0, 12)"

definition prxd :: "bytes \<Rightarrow> rxd_field \<Rightarrow> u32 option" where
  "prxd buf f = (case rxd_detail_new f of (dw, ofs, width) \<Rightarrow>
     do { w \<leftarrow> rd_le32 buf (4 * dw); Some (take_bit width (drop_bit ofs w)) })"

abbreviation (input) RXDESC_SIZE :: nat where "RXDESC_SIZE \<equiv> 24"
abbreviation (input) WF_PKT_TYPE_FRAME :: u8 where "WF_PKT_TYPE_FRAME \<equiv> 3"

definition wf_rx_data_type :: "bytes \<Rightarrow> u8 option" where
  "wf_rx_data_type buf = do { v \<leftarrow> rd8 buf 0; Some (v AND 0x03) }"

definition calc_rx_rate :: "u8 \<Rightarrow> u8" where
  "calc_rx_rate r =
     (if r < 0x14 then r
      else if 0x14 \<le> r \<and> r \<le> 0x1B then r - 0x08
      else if 0x1C \<le> r \<and> r \<le> 0x23 then r - 0x10
      else if 0x24 \<le> r \<and> r \<le> 0x2B then r - 0x18
      else 0)"

definition wf_rx_cmd_check :: "bytes \<Rightarrow> u16 \<Rightarrow> int option" where
  "wf_rx_cmd_check buf skb_len = do {
     drv \<leftarrow> prxd buf drvinfo_size;
     plen \<leftarrow> prxd buf pkt_len;
     let len = (ucast (24 + drv * 8 + plen - 8) :: u16);
     Some (if len \<noteq> skb_len then -1 else 0)
   }"

text \<open>The message of the firmware behind a descriptor with the \<open>notice\<close> bit: the code decodes it and
  prints it. The result holds the return code and, when it is 0, id, number and payload.\<close>

definition c2h_mask :: bytes where
  "c2h_mask = [0xe6, 0xb4, 0x04, 0x0b, 0x13, 0x08, 0xdf, 0x3e]"

definition rx_c2h_pkt_hdr_parse :: "bytes \<Rightarrow> int \<times> (u8 \<times> u8 \<times> u8 \<times> bytes) option" where
  "rx_c2h_pkt_hdr_parse buf =
     (if 256 < length buf \<or> length buf < 3 then (-1, None)
      else (0, Some (buf ! 0, buf ! 1, of_nat (length buf - 2), drop 2 buf)))"

definition wf_rx_notice_process :: "bytes \<Rightarrow> u16 \<Rightarrow> (int \<times> (u8 \<times> u8 \<times> u8 \<times> bytes) option) option" where
  "wf_rx_notice_process buf skb_len =
     (let c2h_len = uint skb_len - 24 in
      if c2h_len > 256 \<or> c2h_len < 3 then Some (-1, None)
      else do {
        bs \<leftarrow> rdn buf RXDESC_SIZE (nat c2h_len);
        let changeBuf = map (\<lambda>i. (bs ! i) XOR (c2h_mask ! (i mod 8))) [0..<nat c2h_len];
        Some (0, snd (rx_c2h_pkt_hdr_parse changeBuf))
      })"

text \<open>The counter of \<open>rx_info\<close> and the length of the packet or -1. The code reads the firmware
  message only for its log. (\<open>CONFIG_MP_MODE\<close>, a test build, is not defined.)\<close>

definition wf_rx_data_len_check :: "bytes \<Rightarrow> u16 \<Rightarrow> u64 \<Rightarrow> (u64 \<times> int) option" where
  "wf_rx_data_len_check buf skb_len rx_crcerr_pkt = do {
     crc \<leftarrow> prxd buf crc32;
     if crc = 1 then Some (rx_crcerr_pkt + 1, -1)
     else do {
       nt \<leftarrow> prxd buf notice;
       plen \<leftarrow> prxd buf pkt_len;
       if nt = 1 then
         (if (ucast (24 + plen) :: u16) = skb_len
          then do { _ \<leftarrow> wf_rx_notice_process buf skb_len; Some (rx_crcerr_pkt, -1) }
          else Some (rx_crcerr_pkt, -1))
       else do {
         drv \<leftarrow> prxd buf drvinfo_size;
         ty \<leftarrow> wf_rx_data_type buf;
         let len0 = (ucast (24 + drv * 8 + plen) :: u16);
         let len = (if ty \<noteq> WF_PKT_TYPE_FRAME then len0 - 8 else len0);
         Some (rx_crcerr_pkt, if skb_len < len then -1 else uint len)
       }
     }
   }"

text \<open>The exclusive or of the first eleven 16-bit words is the twelfth; only built with
  \<open>CONFIG_RICHV300\<close>.\<close>

fun rxdesc_xor :: "bytes \<Rightarrow> nat list \<Rightarrow> u16 \<Rightarrow> u16 option" where
  "rxdesc_xor buf [] acc = Some acc"
| "rxdesc_xor buf (i # is) acc = do { w \<leftarrow> rd_le16 buf (2 * i); rxdesc_xor buf is (acc XOR w) }"

definition wf_rxdesc_chksum :: "bytes \<Rightarrow> bool option" where
  "wf_rxdesc_chksum buf = do {
     calc \<leftarrow> rxdesc_xor buf [0..<11] 0;
     w \<leftarrow> rd_le32 buf 20;
     Some ((ucast (drop_bit 16 w) :: u16) = calc)
   }"

text \<open>The length of the first packet of an aggregate, and whether it is valid. The last component is
  what is stored in \<open>*notice\<close>; \<open>None\<close> there means that the caller's value is kept.\<close>

definition wf_rx_get_pkt_len_and_check_valid :: "bool \<Rightarrow> bytes \<Rightarrow> u16 \<Rightarrow> (u16 \<times> bool \<times> bool option) option" where
  "wf_rx_get_pkt_len_and_check_valid richv300 buf remain = do {
     ok \<leftarrow> (if richv300 then wf_rxdesc_chksum buf else Some True);
     if \<not> ok then Some (0, False, None)
     else do {
       drv \<leftarrow> prxd buf drvinfo_size;
       plen \<leftarrow> prxd buf pkt_len;
       cmd \<leftarrow> prxd buf cmd_index;
       crc \<leftarrow> prxd buf crc32;
       let len = (ucast (24 + drv * 8 + plen) :: u16);
       if plen = 0 \<or> drv \<noteq> 4 \<or> cmd \<noteq> 0 \<or> crc = 1 \<or> remain < len then Some (len, False, None)
       else do { nt \<leftarrow> prxd buf notice; Some (len, nt \<noteq> 1, Some True) }
     }
   }"

definition wf_rx_rxd_prase :: "bytes \<Rightarrow> rx_pkt \<Rightarrow> rx_pkt option" where
  "wf_rx_rxd_prase buf pkt = do {
     raw \<leftarrow> rdn buf 0 RXDESC_SIZE;
     sq \<leftarrow> prxd buf seq; pl \<leftarrow> prxd buf pkt_len; am \<leftarrow> prxd buf amsdu; qf \<leftarrow> prxd buf qos; md \<leftarrow> prxd buf more_data;
     fr \<leftarrow> prxd buf frag; mf \<leftarrow> prxd buf more_frag; ea \<leftarrow> prxd buf encrypt_algo; agg \<leftarrow> prxd buf usb_agg_pktnum;
     ps \<leftarrow> prxd buf phy_status; drv \<leftarrow> prxd buf drvinfo_size; ti \<leftarrow> prxd buf tid; rate \<leftarrow> prxd buf rx_rate;
     Some (pkt\<lparr>rxd_raw_buf := raw,
       pkt_info := (pkt_info pkt)\<lparr>ri_seq_num := ucast sq, ri_pkt_len := ucast pl, ri_amsdu := ucast am, ri_qos_flag := ucast qf,
         ri_more_data := ucast md, ri_frag_num := ucast fr, ri_more_frag := ucast mf, ri_encrypt_algo := ucast ea,
         ri_usb_agg_pktnum := ucast agg, ri_phy_status := ucast ps, ri_hif_hdr_len := ucast (24 + drv * 8),
         ri_qos_pri := ucast ti, ri_rx_rate := ucast (calc_rx_rate (ucast rate))\<rparr>\<rparr>)
   }"

section \<open>Signal strength and quality\<close>

type_synonym s8 = "8 word"

text \<open>The value of a \<open>wf_s8\<close> is read with \<open>sint\<close>; a conversion to it wraps.\<close>

definition cal_ant_cck_rssi_pwr :: "u8 \<Rightarrow> u8 \<Rightarrow> s8" where
  "cal_ant_cck_rssi_pwr lna_idx vga_idx =
     (let vga = uint vga_idx in
      if lna_idx = 7 then word_of_int (if vga \<le> 27 then -100 + 2 * (27 - vga) else -100)
      else if lna_idx = 5 then word_of_int (-74 + 2 * (21 - vga))
      else if lna_idx = 3 then word_of_int (-60 + 2 * (20 - vga))
      else if lna_idx = 1 then word_of_int (-44 + 2 * (19 - vga))
      else 0)"

definition query_rxpwr_percentage :: "s8 \<Rightarrow> u8" where
  "query_rxpwr_percentage AntPower =
     (if sint AntPower \<le> -100 \<or> 20 \<le> sint AntPower then 0
      else if 0 \<le> sint AntPower then 100
      else word_of_int (100 + sint AntPower))"

text \<open>Division rounds towards 0. (\<open>MSG_EVM_ENHANCE_ANTDIV\<close> is not defined.)\<close>

definition cal_evm2percentage :: "s8 \<Rightarrow> u8" where
  "cal_evm2percentage v =
     (let r0 = (if sint v < 0 then - ((- sint v) div 2) else sint v div 2);
          r1 = (if r0 \<ge> 0 then 0 else r0);
          r2 = (if r1 \<le> -33 then -33 else r1);
          r3 = (0 - r2) * 3
      in if r3 = 99 then 100 else word_of_int r3)"

text \<open>The members of \<open>recv_phy_status_st\<close> the code reads.\<close>

record recv_phy_status =
  path_agc0_gain :: u8
  cck_sig_qual_ofdm_pwdb_all :: u8
  cck_agc_rpt_ofdm_cfosho_a :: u8
  stream_rxevm0 :: s8

abbreviation (input) DESC_RATE11M :: u16 where "DESC_RATE11M \<equiv> 3"

definition wf_rx_calc_str_and_qual :: "recv_phy_status \<Rightarrow> rx_pkt \<Rightarrow> rx_pkt \<times> int" where
  "wf_rx_calc_str_and_qual rps ppt =
     (let rate_cacl = (ucast (ri_rx_rate (pkt_info ppt)) :: u8);
          sq = cck_sig_qual_ofdm_pwdb_all rps
      in if rate_cacl \<le> 3 then
        (let lna_index = drop_bit 5 (cck_agc_rpt_ofdm_cfosho_a rps AND 0xE0);
             vga_index = cck_agc_rpt_ofdm_cfosho_a rps AND 0x1F;
             pwdb_all = query_rxpwr_percentage (cal_ant_cck_rssi_pwr lna_index vga_index);
             qual = (if 40 < pwdb_all then 100
                     else if 64 < sq then 0
                     else if sq < 20 then 100
                     else word_of_int ((64 - uint sq) * 100 div 44))
         in (ppt\<lparr>signal_qual := qual, signal_strength := pwdb_all\<rparr>, WF_RETURN_OK))
      else
        (let tmp_rx_pwr = (word_of_int (uint (path_agc0_gain rps AND 0x3F) * 2 - 110) :: s8);
             rssi = query_rxpwr_percentage tmp_rx_pwr;
             evm = cal_evm2percentage (stream_rxevm0 rps)
         in (ppt\<lparr>signal_qual := evm AND 0xFF, signal_strength := rssi\<rparr>, WF_RETURN_OK)))"

lemma percent_word: "0 \<le> k \<Longrightarrow> k \<le> 100 \<Longrightarrow> (word_of_int k :: u8) \<le> 100"
proof -
  assume k: "0 \<le> k" "k \<le> 100"
  then have "uint (word_of_int k :: u8) = k" by (simp add: uint_word_of_int)
  then show ?thesis using k by (simp add: word_le_def)
qed

lemma query_rxpwr_percentage_le: "query_rxpwr_percentage v \<le> 100"
proof (cases "sint v \<le> -100 \<or> 20 \<le> sint v")
  case False
  then have "(word_of_int (100 + sint v) :: u8) \<le> 100" if "\<not> 0 \<le> sint v" using that by (intro percent_word) auto
  then show ?thesis by (cases "0 \<le> sint v") (simp_all only: query_rxpwr_percentage_def if_not_P [OF False] if_True if_False order_refl simp_thms)
qed (simp add: query_rxpwr_percentage_def)

lemma cal_evm2percentage_le: "cal_evm2percentage v \<le> 100"
proof -
  define r where "r = (if sint v < 0 then - ((- sint v) div 2) else sint v div 2)"
  define k where "k = (if (if r \<ge> 0 then 0 else r) \<le> -33 then -33 else (if r \<ge> 0 then 0 else r))"
  have "-33 \<le> k" "k \<le> 0" by (auto simp: k_def)
  then have "(word_of_int ((0 - k) * 3) :: u8) \<le> 100" by (intro percent_word) auto
  moreover have "cal_evm2percentage v = (if (0 - k) * 3 = 99 then 100 else word_of_int ((0 - k) * 3))"
    unfolding cal_evm2percentage_def Let_def r_def k_def by (rule refl)
  ultimately show ?thesis by (simp only: split: if_split) simp
qed

section \<open>The frame header\<close>

definition GET_HDR_Type :: "bytes \<Rightarrow> u16 option" where
  "GET_HDR_Type buf = do { w \<leftarrow> rd_le16 buf 0; Some (w AND 0x000C) }"

definition GET_HDR_SubTpye :: "bytes \<Rightarrow> u16 option" where
  "GET_HDR_SubTpye buf = do { w \<leftarrow> rd_le16 buf 0; Some (w AND 0x00F0) }"

definition GET_HDR_To_From_DS :: "bytes \<Rightarrow> u16 option" where
  "GET_HDR_To_From_DS buf = do { w \<leftarrow> rd_le16 buf 0; Some (w AND 0x0300) }"

definition GET_HDR_Retry :: "bytes \<Rightarrow> bool option" where
  "GET_HDR_Retry buf = do { w \<leftarrow> rd_le16 buf 0; Some (w AND 0x0800 \<noteq> 0) }"

definition GET_HDR_Order :: "bytes \<Rightarrow> bool option" where
  "GET_HDR_Order buf = do { w \<leftarrow> rd_le16 buf 0; Some (w AND 0x8000 \<noteq> 0) }"

definition GET_ADDR1 :: "bytes \<Rightarrow> bytes option" where "GET_ADDR1 buf = rdn buf 4 6"
definition GET_ADDR2 :: "bytes \<Rightarrow> bytes option" where "GET_ADDR2 buf = rdn buf 10 6"
definition GET_ADDR3 :: "bytes \<Rightarrow> bytes option" where "GET_ADDR3 buf = rdn buf 16 6"

definition is_bcast_addr :: "bytes \<Rightarrow> bool" where
  "is_bcast_addr addr \<longleftrightarrow>
     addr ! 0 AND addr ! 1 AND addr ! 2 AND addr ! 3 AND addr ! 4 AND addr ! 5 = 0xff"

abbreviation (input) TO_DS :: u16 where "TO_DS \<equiv> 0x0100"
abbreviation (input) FROM_DS :: u16 where "FROM_DS \<equiv> 0x0200"
abbreviation (input) MAC_FRAME_TYPE_QOS_DATA :: u16 where "MAC_FRAME_TYPE_QOS_DATA \<equiv> 0x0088"

definition rx_parse_qos_ctrl_field :: "rx_pkt \<Rightarrow> rx_pkt option" where
  "rx_parse_qos_ctrl_field prx_pkt = do {
     let pdata = rp_pdata prx_pkt;
     ds \<leftarrow> GET_HDR_To_From_DS pdata;
     let to_from_ds_n8 = (ucast (drop_bit 8 ds) :: u8);
     subtype \<leftarrow> GET_HDR_SubTpye pdata;
     let i1 = (if subtype AND MAC_FRAME_TYPE_QOS_DATA = MAC_FRAME_TYPE_QOS_DATA
               then (pkt_info prx_pkt)\<lparr>ri_qos_flag := 1\<rparr> else pkt_info prx_pkt);
     let hdr_len = (if to_from_ds_n8 = 3 then 24 + 6 else 24 :: u8);
     let i2 = i1\<lparr>ri_wlan_hdr_len := hdr_len\<rparr>;
     i3 \<leftarrow> (if ri_qos_flag i2 \<noteq> 0 then do {
              w \<leftarrow> rd_le16 pdata (unat hdr_len);
              Some (i2\<lparr>ri_qos_pri := ucast (w AND 0x0F), ri_ack_policy := ucast (drop_bit 5 w AND 0x03),
                       ri_amsdu := ucast (drop_bit 7 w AND 0x01), ri_wlan_hdr_len := hdr_len + 2\<rparr>)
            } else Some (i2\<lparr>ri_qos_pri := 0, ri_ack_policy := 0, ri_amsdu := 0\<rparr>));
     Some (prx_pkt\<lparr>pkt_info := i3\<rparr>)
   }"

definition rx_parse_ht_ctrl_field :: "rx_pkt \<Rightarrow> rx_pkt option" where
  "rx_parse_ht_ctrl_field ppkt = do {
     order \<leftarrow> GET_HDR_Order (rp_pdata ppkt);
     Some (if order then ppkt\<lparr>pkt_info := (pkt_info ppkt)\<lparr>ri_wlan_hdr_len := ri_wlan_hdr_len (pkt_info ppkt) + 4\<rparr>\<rparr> else ppkt)
   }"

text \<open>The cipher of a frame: from the security configuration, or the key of the peer, which is only
  read for a unicast frame with 802.1X.\<close>

definition set_encrypt_algo_num :: "sec_info \<Rightarrow> wdn_mem \<Rightarrow> rx_pkt \<Rightarrow> rx_pkt option" where
  "set_encrypt_algo_num sec m ppkt = do {
     let bmcast = IS_MCAST (ri_rx_addr (pkt_info ppkt));
     priv \<leftarrow> GET_HDR_Protected (rp_pdata ppkt);
     algo \<leftarrow> (if \<not> priv then Some NO_PRIVACY
              else if dot11AuthAlgrthm sec = dot11AuthAlgrthm_8021X
              then (if bmcast then Some (ucast (dot118021XGrpPrivacy sec))
                    else do { p \<leftarrow> rp_wdn_info ppkt; Some (ucast (dot118021XPrivacy (node_info m p))) })
              else Some (ucast (dot11PrivacyAlgrthm sec)));
     Some (ppkt\<lparr>pkt_info := (pkt_info ppkt)\<lparr>ri_encrypt_algo := algo\<rparr>\<rparr>)
   }"

definition set_iv_icv_len :: "rx_pkt \<Rightarrow> rx_pkt" where
  "set_iv_icv_len ppkt =
     (let algo = ri_encrypt_algo (pkt_info ppkt);
          (iv, icv) = (if algo = NO_PRIVACY then (0, 0)
                       else if algo = WEP40 \<or> algo = WEP104 then (4, 4)
                       else if algo = TKIP then (8, 4)
                       else if algo = AES then (8, 0)
                       else if algo = SMS4 then (18, 16)
                       else (0, 0))
      in ppkt\<lparr>pkt_info := (pkt_info ppkt)\<lparr>ri_iv_len := iv, ri_icv_len := icv\<rparr>\<rparr>)"

section \<open>Address checks\<close>

datatype sys_work_mode = WF_AUTO_MODE | WF_ADHOC_MODE | WF_INFRA_MODE | WF_MASTER_MODE | WF_REPEAT_MODE |
  WF_SECOND_MODES | WF_MONITOR_MODE | WF_MESH_MODE

text \<open>What the checks read of \<open>nic_info\<close>, and whether the build has the ad-hoc and the access point
  mode. \<open>set_addrs\<close> is the copy of the five addresses into \<open>pkt_info\<close>.\<close>

record rx_cfg =
  work_mode :: sys_work_mode
  local_addr :: bytes
  cfg_adhoc :: bool
  cfg_ap :: bool

definition set_addrs :: "bytes \<Rightarrow> bytes \<Rightarrow> bytes \<Rightarrow> bytes \<Rightarrow> bytes \<Rightarrow> rx_pkt \<Rightarrow> rx_pkt" where
  "set_addrs da sa bssid ra ta pkt =
     pkt\<lparr>pkt_info := (pkt_info pkt)\<lparr>ri_dst_addr := da, ri_src_addr := sa, ri_bssid := bssid, ri_rx_addr := ra, ri_tx_addr := ta\<rparr>\<rparr>"

text \<open>The tests of a frame for this station, by ad-hoc and infrastructure mode alike.\<close>

definition for_station :: "rx_cfg \<Rightarrow> wdn_mem \<Rightarrow> rx_pkt \<Rightarrow> bytes \<Rightarrow> bytes \<Rightarrow> bool option" where
  "for_station cfg m pkt da bssid =
     (if is_bcast_addr da then Some True
      else do {
        p \<leftarrow> rp_wdn_info pkt;
        Some (bssid = wdn_bssid (node_info m p) \<and> da = local_addr cfg)
      })"

definition rx_data_pkt_sta2sta :: "rx_cfg \<Rightarrow> wdn_mem \<Rightarrow> rx_pkt \<Rightarrow> (rx_pkt \<times> int) option" where
  "rx_data_pkt_sta2sta cfg m pkt =
     (if \<not> cfg_adhoc cfg then Some (pkt, 0)
      else if work_mode cfg \<noteq> WF_ADHOC_MODE then Some (pkt, -1)
      else do {
        a1 \<leftarrow> GET_ADDR1 (rp_pdata pkt); a2 \<leftarrow> GET_ADDR2 (rp_pdata pkt); a3 \<leftarrow> GET_ADDR3 (rp_pdata pkt);
        mine \<leftarrow> for_station cfg m pkt a1 a3;
        Some (if mine then (set_addrs a1 a2 a3 a1 a2 pkt, 0) else (pkt, -1))
      })"

definition rx_data_pkt_ap2sta :: "rx_cfg \<Rightarrow> wdn_mem \<Rightarrow> rx_pkt \<Rightarrow> (rx_pkt \<times> int) option" where
  "rx_data_pkt_ap2sta cfg m pkt =
     (if work_mode cfg \<noteq> WF_INFRA_MODE then Some (pkt, -1)
      else do {
        a1 \<leftarrow> GET_ADDR1 (rp_pdata pkt); a2 \<leftarrow> GET_ADDR2 (rp_pdata pkt); a3 \<leftarrow> GET_ADDR3 (rp_pdata pkt);
        mine \<leftarrow> for_station cfg m pkt a1 a2;
        Some (if mine then (set_addrs a1 a3 a2 a1 a2 pkt, 0) else (pkt, -1))
      })"

definition rx_data_pkt_sta2ap :: "rx_cfg \<Rightarrow> rx_pkt \<Rightarrow> (rx_pkt \<times> int) option" where
  "rx_data_pkt_sta2ap cfg pkt =
     (if \<not> cfg_ap cfg then Some (pkt, 0)
      else if work_mode cfg \<noteq> WF_MASTER_MODE then Some (pkt, -1)
      else do {
        a1 \<leftarrow> GET_ADDR1 (rp_pdata pkt); a2 \<leftarrow> GET_ADDR2 (rp_pdata pkt); a3 \<leftarrow> GET_ADDR3 (rp_pdata pkt);
        Some (if a1 = local_addr cfg then (set_addrs a3 a2 a1 a1 a2 pkt, 0) else (pkt, -1))
      })"

text \<open>The filter for duplicates: a retry of the frame that was last recorded for the traffic id.\<close>

definition seq_ctrl_of :: "rx_pkt_info \<Rightarrow> u16" where
  "seq_ctrl_of i = (ucast (ri_frag_num i) AND 0xf) OR push_bit 4 (ri_seq_num i AND 0xffff)"

definition rx_check_seq_ctrl :: "wdn_mem \<Rightarrow> rx_pkt \<Rightarrow> (wdn_mem \<times> int) option" where
  "rx_check_seq_ctrl m pkt =
     (let i = pkt_info pkt; tid = ri_qos_pri i in
      if 15 < tid then Some (m, -1)
      else do {
        p \<leftarrow> rp_wdn_info pkt;
        let w = node_info m p;
        dup \<leftarrow> (if \<not> unat tid < length (seq_ctrl_recorder w) then None
               else if seq_ctrl_recorder w ! unat tid = seq_ctrl_of i then GET_HDR_Retry (rp_pdata pkt)
               else Some False);
        if dup then Some (m, -1)
        else Some (m\<lparr>node_info := (node_info m)(p := w\<lparr>seq_ctrl_recorder := (seq_ctrl_recorder w)[unat tid := seq_ctrl_of i]\<rparr>)\<rparr>, 0)
      })"

definition rx_check_data_frame_valid :: "rx_cfg \<Rightarrow> wdn_mem \<Rightarrow> rx_pkt \<Rightarrow> (wdn_mem \<times> rx_pkt \<times> int) option" where
  "rx_check_data_frame_valid cfg m pkt =
     (if rp_wdn_info pkt = None then Some (m, pkt, -1)
      else do {
        (pkt1, ret) \<leftarrow>
          (case work_mode cfg of
             WF_INFRA_MODE \<Rightarrow> do {
               ds \<leftarrow> GET_HDR_To_From_DS (rp_pdata pkt);
               if ds \<noteq> FROM_DS then Some (pkt, -1) else rx_data_pkt_ap2sta cfg m pkt
             }
           | WF_MASTER_MODE \<Rightarrow> do {
               ds \<leftarrow> GET_HDR_To_From_DS (rp_pdata pkt);
               if ds \<noteq> TO_DS then Some (pkt, -1) else rx_data_pkt_sta2ap cfg pkt
             }
           | WF_ADHOC_MODE \<Rightarrow> rx_data_pkt_sta2sta cfg m pkt
           | _ \<Rightarrow> Some (pkt, 0));
        if ret \<noteq> 0 then Some (m, pkt1, -1)
        else do { (m', r) \<leftarrow> rx_check_seq_ctrl m pkt1; Some (m', pkt1, r) }
      })"

definition rx_check_mngt_frame_valid :: "rx_cfg \<Rightarrow> rx_pkt \<Rightarrow> (rx_pkt \<times> int) option" where
  "rx_check_mngt_frame_valid cfg pkt =
     (if work_mode cfg = WF_INFRA_MODE \<or> work_mode cfg = WF_ADHOC_MODE then
        (if ri_pkt_len (pkt_info pkt) > 2304 + 28 then Some (pkt, -1)
         else do {
           ra \<leftarrow> GET_ADDR1 (rp_pdata pkt);
           if \<not> is_bcast_addr ra \<and> ra \<noteq> local_addr cfg then Some (pkt, -1)
           else do { ta \<leftarrow> GET_ADDR2 (rp_pdata pkt); Some (pkt\<lparr>pkt_info := (pkt_info pkt)\<lparr>ri_src_addr := ta\<rparr>\<rparr>, 0) }
         })
      else Some (pkt, 0))"

section \<open>What the checks decide\<close>

lemma rd_le16_Some: "i + 1 < length buf \<Longrightarrow> rd_le16 buf i = Some (le16_of (buf ! i) (buf ! (i + 1)))"
  by (simp add: rd_le16_def rd8_def)

lemma addr_reads:
  assumes "22 \<le> length buf"
  shows "GET_ADDR1 buf = Some (take 6 (drop 4 buf))" "GET_ADDR2 buf = Some (take 6 (drop 10 buf))"
    "GET_ADDR3 buf = Some (take 6 (drop 16 buf))"
  using assms by (simp_all add: GET_ADDR1_def GET_ADDR2_def GET_ADDR3_def rdn_def)

text \<open>The test of the filter as one condition.\<close>

definition is_dup :: "wdn_net_info \<Rightarrow> rx_pkt \<Rightarrow> bool" where
  "is_dup w pkt \<longleftrightarrow> seq_ctrl_recorder w ! unat (ri_qos_pri (pkt_info pkt)) = seq_ctrl_of (pkt_info pkt) \<and>
     bit (le16_of (rp_pdata pkt ! 0) (rp_pdata pkt ! 1)) 11"

lemma retry_bit: "2 \<le> length buf \<Longrightarrow> GET_HDR_Retry buf = Some (bit (le16_of (buf ! 0) (buf ! 1)) 11)"
proof -
  have "w AND 0x0800 \<noteq> 0 \<longleftrightarrow> bit w 11" for w :: u16
  proof -
    have e: "(0x0800 :: u16) = 2 ^ 11" by simp
    show ?thesis unfolding e using and_exp_eq_0_iff_not_bit [of w 11] by auto
  qed
  then show "2 \<le> length buf \<Longrightarrow> ?thesis" by (simp add: GET_HDR_Retry_def rd_le16_Some)
qed

definition record_seq :: "nat \<Rightarrow> rx_pkt \<Rightarrow> wdn_mem \<Rightarrow> wdn_mem" where
  "record_seq p pkt m = m\<lparr>node_info := (node_info m)(p := (node_info m p)\<lparr>seq_ctrl_recorder :=
     (seq_ctrl_recorder (node_info m p))[unat (ri_qos_pri (pkt_info pkt)) := seq_ctrl_of (pkt_info pkt)]\<rparr>)\<rparr>"

lemma rx_check_seq_ctrl_result:
  assumes "rp_wdn_info pkt = Some p" "length (seq_ctrl_recorder (node_info m p)) = 16" "2 \<le> length (rp_pdata pkt)"
  shows "rx_check_seq_ctrl m pkt =
    (if 15 < ri_qos_pri (pkt_info pkt) \<or> is_dup (node_info m p) pkt then Some (m, -1) else Some (record_seq p pkt m, 0))"
proof -
  have "unat (ri_qos_pri (pkt_info pkt)) < 16" if "\<not> 15 < ri_qos_pri (pkt_info pkt)"
    using that by (simp add: word_less_nat_alt)
  then show ?thesis
    using assms by (simp add: rx_check_seq_ctrl_def Let_def retry_bit is_dup_def record_seq_def)
qed

lemma set_addrs_keeps [simp]:
  "rp_wdn_info (set_addrs da sa b ra ta pkt) = rp_wdn_info pkt" "rp_pdata (set_addrs da sa b ra ta pkt) = rp_pdata pkt"
  "ri_qos_pri (pkt_info (set_addrs da sa b ra ta pkt)) = ri_qos_pri (pkt_info pkt)"
  "seq_ctrl_of (pkt_info (set_addrs da sa b ra ta pkt)) = seq_ctrl_of (pkt_info pkt)"
  "is_dup w (set_addrs da sa b ra ta pkt) = is_dup w pkt"
  "record_seq p (set_addrs da sa b ra ta pkt) m = record_seq p pkt m"
  by (simp_all add: set_addrs_def seq_ctrl_of_def is_dup_def record_seq_def)

text \<open>A run of the filter over packets.\<close>

fun seq_run :: "rx_pkt list \<Rightarrow> wdn_mem \<Rightarrow> (wdn_mem \<times> int list) option" where
  "seq_run [] m = Some (m, [])"
| "seq_run (pkt # pkts) m = do {
     (m1, r) \<leftarrow> rx_check_seq_ctrl m pkt;
     (m2, rs) \<leftarrow> seq_run pkts m1;
     Some (m2, r # rs)
   }"

text \<open>Packets of known peers, and peers whose table has its 16 entries.\<close>

definition seq_pkt_ok :: "rx_pkt \<Rightarrow> bool" where
  "seq_pkt_ok pkt \<longleftrightarrow> rp_wdn_info pkt \<noteq> None \<and> 2 \<le> length (rp_pdata pkt)"

definition recorders_ok :: "wdn_mem \<Rightarrow> bool" where
  "recorders_ok m \<longleftrightarrow> (\<forall>p. length (seq_ctrl_recorder (node_info m p)) = 16)"

lemma record_seq_ok: "recorders_ok m \<Longrightarrow> recorders_ok (record_seq p pkt m)"
  by (simp add: recorders_ok_def record_seq_def)

lemma record_seq_entry:
  assumes "p' \<noteq> p \<or> ri_qos_pri (pkt_info pkt) \<noteq> t"
  shows "seq_ctrl_recorder (node_info (record_seq p' pkt m) p) ! unat t = seq_ctrl_recorder (node_info m p) ! unat t"
  using assms by (auto simp: record_seq_def word_unat_eq_iff)

lemma seq_check_step:
  assumes "seq_pkt_ok pkt" "recorders_ok m"
  shows "\<exists>m' r. rx_check_seq_ctrl m pkt = Some (m', r) \<and> recorders_ok m' \<and>
    (\<forall>p t. rp_wdn_info pkt \<noteq> Some p \<or> ri_qos_pri (pkt_info pkt) \<noteq> t \<longrightarrow>
       seq_ctrl_recorder (node_info m' p) ! unat t = seq_ctrl_recorder (node_info m p) ! unat t)"
proof -
  obtain p where p: "rp_wdn_info pkt = Some p" using assms(1) by (auto simp: seq_pkt_ok_def)
  have "rx_check_seq_ctrl m pkt \<in> {Some (m, -1), Some (record_seq p pkt m, 0)}"
    using rx_check_seq_ctrl_result [OF p] assms by (auto simp: seq_pkt_ok_def recorders_ok_def)
  then show ?thesis using p assms(2) record_seq_ok record_seq_entry by auto
qed

lemma seq_run_keeps:
  assumes "recorders_ok m" "\<forall>q\<in>set pkts. seq_pkt_ok q \<and> (rp_wdn_info q \<noteq> Some p \<or> ri_qos_pri (pkt_info q) \<noteq> t)"
  shows "\<exists>m' rs. seq_run pkts m = Some (m', rs) \<and> recorders_ok m' \<and>
    seq_ctrl_recorder (node_info m' p) ! unat t = seq_ctrl_recorder (node_info m p) ! unat t"
  using assms
proof (induction pkts arbitrary: m)
  case (Cons q pkts)
  obtain m1 r where 1: "rx_check_seq_ctrl m q = Some (m1, r)" "recorders_ok m1"
      "seq_ctrl_recorder (node_info m1 p) ! unat t = seq_ctrl_recorder (node_info m p) ! unat t"
    using seq_check_step [of q m] Cons.prems by fastforce
  obtain m' rs where "seq_run pkts m1 = Some (m', rs)" "recorders_ok m'"
      "seq_ctrl_recorder (node_info m' p) ! unat t = seq_ctrl_recorder (node_info m1 p) ! unat t"
    using Cons.IH [OF 1(2)] Cons.prems(2) by auto
  then show ?case using 1 by simp
qed simp

text \<open>The mask of the subtype does not contain the type bits that \<open>MAC_FRAME_TYPE_QOS_DATA\<close> has.\<close>

lemma subtype_never_qos: "((w :: u16) AND 0x00F0) AND MAC_FRAME_TYPE_QOS_DATA \<noteq> MAC_FRAME_TYPE_QOS_DATA"
proof
  assume "(w AND 0x00F0) AND MAC_FRAME_TYPE_QOS_DATA = MAC_FRAME_TYPE_QOS_DATA"
  then have "bit ((w AND 0x00F0) AND 0x0088) 3 = bit (0x0088 :: u16) 3" by simp
  then show False by (simp add: bit_simps)
qed

lemma qos_parse_keeps: "rx_parse_qos_ctrl_field r = Some r1 \<Longrightarrow> \<exists>i. r1 = r\<lparr>pkt_info := i\<rparr>"
  unfolding rx_parse_qos_ctrl_field_def Let_def bind_eq_Some_conv by blast

lemma qos_parse_result:
  assumes "rd_le16 (rp_pdata r) 0 = Some fc" "32 \<le> length (rp_pdata r)"
  shows "\<exists>pri ack ams. rx_parse_qos_ctrl_field r = Some (r\<lparr>pkt_info := (pkt_info r)\<lparr>
      ri_wlan_hdr_len := 24 + (if fc AND 0x0300 = 0x0300 then 6 else 0) + (if ri_qos_flag (pkt_info r) \<noteq> 0 then 2 else 0),
      ri_qos_pri := pri, ri_amsdu := ams, ri_ack_policy := ack\<rparr>\<rparr>)"
proof -
  have ds: "(ucast (drop_bit 8 (fc AND 0x0300)) :: u8) = 3 \<longleftrightarrow> fc AND 0x0300 = 0x0300"
  proof -
    have m: "(0x0300 :: u16) = push_bit 8 (mask 2)" by (simp add: mask_numeral push_bit_numeral)
    have e: "fc AND 0x0300 = push_bit 8 (take_bit 2 (drop_bit 8 fc))"
      unfolding m by (rule bit_word_eqI) (auto simp: bit_simps)
    have u: "(ucast (drop_bit 8 (push_bit 8 (take_bit 2 (drop_bit 8 fc)))) :: u8) = ucast (take_bit 2 (drop_bit 8 fc) :: u16)"
      by (rule bit_word_eqI) (auto simp: bit_simps)
    have "fc AND 0x0300 = 0x0300" if "(ucast (take_bit 2 (drop_bit 8 fc) :: u16) :: u8) = 3"
    proof -
      have "bit (ucast (take_bit 2 (drop_bit 8 fc) :: u16) :: u8) i = bit (3 :: u8) i" for i using that by simp
      from this [of 0] this [of 1] have "bit fc 8" "bit fc 9" by (simp_all add: bit_simps numeral_2_eq_2)
      moreover have "i = 8 \<or> i = 9" if "8 \<le> i" "i - 8 < 2" for i :: nat using that by arith
      ultimately have "bit fc i" if "8 \<le> i" "i - 8 < 2" for i using that by blast
      then have "bit (fc AND push_bit 8 (mask 2)) i = bit (push_bit 8 (mask 2) :: u16) i" for i by (auto simp: bit_simps)
      then show ?thesis unfolding m by (rule bit_eqI)
    qed
    then show ?thesis using e u by auto
  qed
  have d: "drop_bit 8 (fc AND 0x0300) = drop_bit 8 fc AND 3" by simp
  note ds' = ds [unfolded d]
  obtain w where w: "rd_le16 (rp_pdata r) (unat (if fc AND 0x0300 = 0x0300 then 24 + 6 else 24 :: u8)) = Some w"
    using assms(2) rd_le16_Some [of 30 "rp_pdata r"] rd_le16_Some [of 24 "rp_pdata r"] by (cases "fc AND 0x0300 = 0x0300") auto
  note facts = w ds' subtype_never_qos [of fc] assms(1)
  note defs = rx_parse_qos_ctrl_field_def GET_HDR_To_From_DS_def GET_HDR_SubTpye_def Let_def
  let ?h = "24 + (if fc AND 0x0300 = 0x0300 then 6 else 0) + (if ri_qos_flag (pkt_info r) \<noteq> 0 then 2 else 0) :: u8"
  show ?thesis
  proof (cases "ri_qos_flag (pkt_info r) = 0")
    case True
    then have "rx_parse_qos_ctrl_field r = Some (r\<lparr>pkt_info := (pkt_info r)\<lparr>ri_wlan_hdr_len := ?h, ri_qos_pri := 0, ri_amsdu := 0, ri_ack_policy := 0\<rparr>\<rparr>)"
      using facts by (cases "fc AND 0x0300 = 0x0300") (simp_all add: defs)
    then show ?thesis by blast
  next
    case False
    then have "rx_parse_qos_ctrl_field r = Some (r\<lparr>pkt_info := (pkt_info r)\<lparr>ri_wlan_hdr_len := ?h, ri_qos_pri := ucast (w AND 0x0F),
        ri_amsdu := ucast (drop_bit 7 w AND 0x01), ri_ack_policy := ucast (drop_bit 5 w AND 0x03)\<rparr>\<rparr>)"
      using facts by (cases "fc AND 0x0300 = 0x0300") (simp_all add: defs)
    then show ?thesis by blast
  qed
qed

lemma infra_check:
  assumes "work_mode cfg = WF_INFRA_MODE" "rp_wdn_info pkt = Some p" "wdn_wf (node_info m p)" "24 \<le> length (rp_pdata pkt)"
    "GET_HDR_To_From_DS (rp_pdata pkt) = Some ds" "GET_ADDR1 (rp_pdata pkt) = Some a1" "GET_ADDR2 (rp_pdata pkt) = Some a2"
    "GET_ADDR3 (rp_pdata pkt) = Some a3"
  shows "\<exists>m' pkt' ret. rx_check_data_frame_valid cfg m pkt = Some (m', pkt', ret) \<and>
    (ret = 0 \<longleftrightarrow> ds = FROM_DS \<and> (is_bcast_addr a1 \<or> a2 = wdn_bssid (node_info m p) \<and> a1 = local_addr cfg) \<and>
       ri_qos_pri (pkt_info pkt) \<le> 15 \<and> \<not> is_dup (node_info m p) pkt) \<and>
    (ret = 0 \<longrightarrow> pkt' = set_addrs a1 a3 a2 a1 a2 pkt \<and> m' = record_seq p pkt m) \<and>
    (ret \<noteq> 0 \<longrightarrow> m' = m)"
proof -
  have len: "length (seq_ctrl_recorder (node_info m p)) = 16" using assms(3) by (simp add: wdn_wf_def)
  have sq: "rx_check_seq_ctrl m (set_addrs a1 a3 a2 a1 a2 pkt) =
      (if 15 < ri_qos_pri (pkt_info pkt) \<or> is_dup (node_info m p) pkt then Some (m, -1) else Some (record_seq p pkt m, 0))"
    using rx_check_seq_ctrl_result [of "set_addrs a1 a3 a2 a1 a2 pkt" p m] assms(2,4) len by simp
  show ?thesis
    using assms sq
    by (auto simp: rx_check_data_frame_valid_def rx_data_pkt_ap2sta_def for_station_def not_less linorder_not_le)
qed

section \<open>Properties\<close>

text \<open>What a station accepts. For a frame with a whole header from a known peer the check always has a
  result; it is 0 exactly for a frame from the distribution system that is broadcast, or that is
  addressed to this station by the network of the peer, whose traffic id is at most 15 and which
  is not a retry of the last frame of this id. An accepted frame gets its addresses by the rules
  of the From DS direction and is recorded; a rejected one leaves the peers alone. A multicast frame,
  not being broadcast and not being addressed to the station, is rejected.\<close>

theorem station_accepts:
  assumes "work_mode cfg = WF_INFRA_MODE" "rp_wdn_info pkt = Some p" "wdn_wf (node_info m p)" "24 \<le> length (rp_pdata pkt)"
    "GET_HDR_To_From_DS (rp_pdata pkt) = Some ds" "GET_ADDR1 (rp_pdata pkt) = Some a1" "GET_ADDR2 (rp_pdata pkt) = Some a2"
    "GET_ADDR3 (rp_pdata pkt) = Some a3"
  shows "\<exists>m' pkt' ret. rx_check_data_frame_valid cfg m pkt = Some (m', pkt', ret) \<and>
    (ret = 0 \<longleftrightarrow> ds = FROM_DS \<and> (is_bcast_addr a1 \<or> a2 = wdn_bssid (node_info m p) \<and> a1 = local_addr cfg) \<and>
       ri_qos_pri (pkt_info pkt) \<le> 15 \<and> \<not> is_dup (node_info m p) pkt) \<and>
    (ret = 0 \<longrightarrow> pkt' = set_addrs a1 a3 a2 a1 a2 pkt \<and> m' = record_seq p pkt m) \<and>
    (ret \<noteq> 0 \<longrightarrow> m' = m)"
  using infra_check [OF assms] .

definition cfg_ex :: rx_cfg where
  "cfg_ex = \<lparr>work_mode = WF_INFRA_MODE, local_addr = [4, 0, 0, 0, 0, 1], cfg_adhoc = False, cfg_ap = False\<rparr>"

definition peers_ex :: wdn_mem where
  "peers_ex = wdn_mem_ex\<lparr>node_info := \<lambda>_. wdn_zero\<lparr>wdn_bssid := [4, 0, 0, 0, 0, 2]\<rparr>\<rparr>"

definition frame_ex :: bytes where
  "frame_ex = [8, 2, 0, 0] @ [4, 0, 0, 0, 0, 1] @ [4, 0, 0, 0, 0, 2] @ [4, 0, 0, 0, 0, 9] @ [0, 0]"

lemma frame_ex_fields:
  "GET_HDR_To_From_DS frame_ex = Some FROM_DS" "GET_ADDR1 frame_ex = Some [4, 0, 0, 0, 0, 1]"
  "GET_ADDR2 frame_ex = Some [4, 0, 0, 0, 0, 2]" "GET_ADDR3 frame_ex = Some [4, 0, 0, 0, 0, 9]" "length frame_ex = 24"
  by (simp_all add: frame_ex_def GET_HDR_To_From_DS_def rd_le16_def rd8_def le16_of_def GET_ADDR1_def GET_ADDR2_def GET_ADDR3_def rdn_def)

lemma station_accepts_witness:
  "\<exists>m' pkt'. rx_check_data_frame_valid cfg_ex peers_ex (tkip_sample_pkt\<lparr>rp_wdn_info := Some 3, rp_pdata := frame_ex\<rparr>) = Some (m', pkt', 0) \<and>
     ri_src_addr (pkt_info pkt') = [4, 0, 0, 0, 0, 9]"
proof -
  let ?pkt = "tkip_sample_pkt\<lparr>rp_wdn_info := Some 3, rp_pdata := frame_ex\<rparr>"
  have wf: "wdn_wf (node_info peers_ex 3)" "wdn_bssid (node_info peers_ex 3) = [4, 0, 0, 0, 0, 2]"
    using wdn_zero_wf by (simp_all add: peers_ex_def wdn_wf_def)
  have "\<not> is_dup (node_info peers_ex 3) ?pkt" by (simp add: is_dup_def frame_ex_def le16_of_def bit_simps)
  moreover have "ri_qos_pri (pkt_info ?pkt) \<le> 15" by (simp add: tkip_sample_pkt_def)
  ultimately show ?thesis
    using station_accepts [of cfg_ex ?pkt 3 peers_ex FROM_DS] wf frame_ex_fields
    by (auto simp: cfg_ex_def set_addrs_def)
qed

text \<open>(C25) The filter for duplicates: once a packet was accepted, a retry of it (the same peer, traffic id,
  sequence and fragment number, with the Retry bit) is rejected, whatever packets of other peers or
  other traffic ids arrive in between.\<close>

theorem duplicates_rejected:
  assumes "recorders_ok m" "seq_pkt_ok pkt" "rx_check_seq_ctrl m pkt = Some (m1, 0)"
    "\<forall>q\<in>set pkts. seq_pkt_ok q \<and> (rp_wdn_info q \<noteq> rp_wdn_info pkt \<or> ri_qos_pri (pkt_info q) \<noteq> ri_qos_pri (pkt_info pkt))"
    "rp_wdn_info pkt' = rp_wdn_info pkt" "ri_qos_pri (pkt_info pkt') = ri_qos_pri (pkt_info pkt)"
    "seq_ctrl_of (pkt_info pkt') = seq_ctrl_of (pkt_info pkt)" "GET_HDR_Retry (rp_pdata pkt') = Some True"
  shows "\<exists>m2 rs. seq_run pkts m1 = Some (m2, rs) \<and> rx_check_seq_ctrl m2 pkt' = Some (m2, -1)"
proof -
  obtain p where p: "rp_wdn_info pkt = Some p" using assms(2) by (auto simp: seq_pkt_ok_def)
  let ?t = "ri_qos_pri (pkt_info pkt)"
  have r: "\<not> 15 < ?t" "m1 = record_seq p pkt m"
    using assms(3) rx_check_seq_ctrl_result [OF p, of m] assms(1,2) by (auto simp: seq_pkt_ok_def recorders_ok_def split: if_splits)
  then have t: "unat ?t < 16" by (simp add: word_less_nat_alt)
  have entry: "seq_ctrl_recorder (node_info m1 p) ! unat ?t = seq_ctrl_of (pkt_info pkt)"
    using t assms(1) by (simp add: r(2) record_seq_def recorders_ok_def)
  obtain m2 rs where run: "seq_run pkts m1 = Some (m2, rs)" "recorders_ok m2"
      "seq_ctrl_recorder (node_info m2 p) ! unat ?t = seq_ctrl_of (pkt_info pkt)"
    using seq_run_keeps [of m1 pkts p ?t] assms(4) p entry record_seq_ok [OF assms(1)] r(2) by auto
  have "rx_check_seq_ctrl m2 pkt' = Some (m2, -1)"
    using r(1) run(2,3) t p assms(5-8) by (simp add: rx_check_seq_ctrl_def Let_def recorders_ok_def)
  then show ?thesis using run(1) by blast
qed

lemma duplicates_rejected_witness:
  "\<exists>m1 m2 rs. rx_check_seq_ctrl (wdn_mem_ex\<lparr>node_info := \<lambda>_. wdn_zero\<rparr>) (tkip_sample_pkt\<lparr>rp_wdn_info := Some 3, rp_pdata := [8, 2]\<rparr>) = Some (m1, 0) \<and>
     seq_run [tkip_sample_pkt\<lparr>rp_wdn_info := Some 4, rp_pdata := [8, 2]\<rparr>] m1 = Some (m2, rs) \<and>
     rx_check_seq_ctrl m2 (tkip_sample_pkt\<lparr>rp_wdn_info := Some 3, rp_pdata := [8, 10]\<rparr>) = Some (m2, -1)"
proof -
  let ?m = "wdn_mem_ex\<lparr>node_info := \<lambda>_. wdn_zero\<rparr>" and ?pkt = "tkip_sample_pkt\<lparr>rp_wdn_info := Some 3, rp_pdata := [8, 2]\<rparr>"
  have "rx_check_seq_ctrl ?m ?pkt = Some (record_seq 3 ?pkt ?m, 0)"
    using rx_check_seq_ctrl_result [of ?pkt 3 ?m]
    by (simp add: tkip_sample_pkt_def wdn_zero_def Let_def is_dup_def le16_of_def bit_simps)
  then show ?thesis
    using duplicates_rejected [of ?m ?pkt "record_seq 3 ?pkt ?m" "[tkip_sample_pkt\<lparr>rp_wdn_info := Some 4, rp_pdata := [8, 2]\<rparr>]"
        "tkip_sample_pkt\<lparr>rp_wdn_info := Some 3, rp_pdata := [8, 10]\<rparr>"]
    by (auto simp: recorders_ok_def seq_pkt_ok_def wdn_zero_def Let_def GET_HDR_Retry_def rd_le16_def rd8_def le16_of_def tkip_sample_pkt_def)
qed

text \<open>The length of the frame header follows the QoS bit of the receive descriptor, never the frame: the
  test of the subtype cannot succeed. With a descriptor without the bit the QoS Control field of
  a QoS data frame is taken for payload.\<close>

theorem hdr_len_from_descriptor:
  assumes "rd_le16 (rp_pdata r) 0 = Some fc" "32 \<le> length (rp_pdata r)"
  shows "\<exists>r1. rx_parse_qos_ctrl_field r = Some r1 \<and> ri_qos_flag (pkt_info r1) = ri_qos_flag (pkt_info r) \<and>
    ri_wlan_hdr_len (pkt_info r1) =
      24 + (if fc AND 0x0300 = 0x0300 then 6 else 0) + (if ri_qos_flag (pkt_info r) \<noteq> 0 then 2 else 0)"
  using qos_parse_result [OF assms] by auto

lemma hdr_len_from_descriptor_witness:
  "\<exists>r1. rx_parse_qos_ctrl_field (tkip_sample_pkt\<lparr>rp_pdata := [0x88, 2] @ replicate 40 0\<rparr>) = Some r1 \<and> ri_wlan_hdr_len (pkt_info r1) = 24"
  using hdr_len_from_descriptor [of "tkip_sample_pkt\<lparr>rp_pdata := [0x88, 2] @ replicate 40 0\<rparr>" "0x0288"]
  by (auto simp: rd_le16_def rd8_def le16_of_def tkip_sample_pkt_def)

text \<open>Signal strength and quality are percentages: whatever the receiver reports, both are at most 100.\<close>

theorem signal_percentages:
  "signal_strength (fst (wf_rx_calc_str_and_qual rps pkt)) \<le> 100 \<and> signal_qual (fst (wf_rx_calc_str_and_qual rps pkt)) \<le> 100"
proof -
  have "(word_of_int ((64 - uint q) * 100 div 44) :: u8) \<le> 100" if "\<not> 64 < q" "\<not> q < 20" for q :: u8
  proof (rule percent_word)
    have q: "20 \<le> uint q" "uint q \<le> 64" using that by (simp_all add: word_less_def not_less)
    then show "0 \<le> (64 - uint q) * 100 div 44" by simp
    show "(64 - uint q) * 100 div 44 \<le> 100" using zdiv_mono1 [of "(64 - uint q) * 100" 4400 44] q by simp
  qed
  moreover have "cal_evm2percentage v AND 0xFF \<le> 100" for v
    using cal_evm2percentage_le [of v] word_and_le1 [of "0xFF" "cal_evm2percentage v"] by (meson order_trans word_and_le2)
  ultimately show ?thesis
    by (auto simp: wf_rx_calc_str_and_qual_def Let_def query_rxpwr_percentage_le)
qed

end
