(* ===== verification/Rx_Process.thy ===== *)
theory Rx_Process
  imports Rx_Frame
begin

text \<open>
  The processing of a received frame (\<open>rx.c\<close>): the helpers on packets, defragmentation,
  decryption, \<open>rx_process_data_frame\<close> and \<open>wf_rx_common_process\<close>.

  A packet \<open>rx_pkt_t\<close> points into the memory of an skb. A \<open>slot\<close> is such a packet: the members of
  \<open>rx_pkt\<close> with the number of the skb and the offsets of \<open>phead\<close>, \<open>pdata\<close>, \<open>ptail\<close> and \<open>pend\<close> in
  it. The bytes of the skbs are in \<open>rx_skbs\<close>; \<open>None\<close> there is an skb that was freed, and an access
  to it has no result. The packets of \<open>prx_pkt_buf_alloc\<close>, which hold fragments, are \<open>rx_slots\<close>,
  linked on \<open>free_rx_pkt_list\<close> or on the \<open>defrag_q\<close> of a peer.
\<close>

section \<open>State\<close>

record slot =
  sl_pkt :: rx_pkt
  sl_skb :: nat
  sl_phead :: nat
  sl_pdata :: nat
  sl_ptail :: nat
  sl_pend :: nat

record rx_mem =
  rx_links :: links
  free_rx_pkt_list :: que
  rx_slots :: "entry \<Rightarrow> slot"
  rx_skbs :: "nat \<Rightarrow> bytes option"

section \<open>Packets\<close>

definition pkt_push :: "slot \<Rightarrow> nat \<Rightarrow> slot \<times> nat option" where
  "pkt_push p n =
     (if sl_pdata p < sl_phead p + n then (p, None)
      else (p\<lparr>sl_pdata := sl_pdata p - n, sl_pkt := (sl_pkt p)\<lparr>rp_len := rp_len (sl_pkt p) + of_nat n\<rparr>\<rparr>, Some (sl_pdata p - n)))"

definition pkt_put :: "slot \<Rightarrow> nat \<Rightarrow> slot \<times> nat option" where
  "pkt_put p n =
     (if sl_pend p < sl_ptail p + n then (p, None)
      else (p\<lparr>sl_ptail := sl_ptail p + n, sl_pkt := (sl_pkt p)\<lparr>rp_len := rp_len (sl_pkt p) + of_nat n\<rparr>\<rparr>, Some (sl_ptail p)))"

definition pkt_reserve :: "slot \<Rightarrow> nat \<Rightarrow> slot" where
  "pkt_reserve p n = p\<lparr>sl_pdata := sl_pdata p + n, sl_ptail := sl_ptail p + n\<rparr>"

definition free_rx_pkt :: "entry \<Rightarrow> rx_mem \<Rightarrow> rx_mem" where
  "free_rx_pkt e s = (case queue_insert_tail e (rx_links s, free_rx_pkt_list s) of
     (nx, q) \<Rightarrow> s\<lparr>rx_links := nx, free_rx_pkt_list := q\<rparr>)"

text \<open>Taking the head of a queue of packets, on the links of the state.\<close>

definition remove_entry :: "que \<Rightarrow> rx_mem \<Rightarrow> que \<times> rx_mem \<times> entry option" where
  "remove_entry q s = (case queue_remove_head (rx_links s, q) of ((nx, q'), e) \<Rightarrow> (q', s\<lparr>rx_links := nx\<rparr>, e))"

partial_function (option) free_rx_queue :: "que \<Rightarrow> rx_mem \<Rightarrow> (que \<times> rx_mem) option" where
  "free_rx_queue q s =
     (if queue_is_not_empty q
      then (case remove_entry q s of
              (q', s', None) \<Rightarrow> Some (q', s')
            | (q', s', Some e) \<Rightarrow> free_rx_queue q' (free_rx_pkt e s'))
      else Some (q, s))"

section \<open>Defragmentation\<close>

text \<open>The copy of the fragment goes to the new end of the first packet, as the code writes it.\<close>

definition append_fragment :: "entry \<Rightarrow> slot \<Rightarrow> slot \<Rightarrow> rx_mem \<Rightarrow> rx_mem option" where
  "append_fragment first fst_slot ppkt s = do {
     src \<leftarrow> rx_skbs s (sl_skb ppkt);
     bs \<leftarrow> rdn src (sl_pdata ppkt) (unat (rp_len (sl_pkt ppkt)));
     dst \<leftarrow> rx_skbs s (sl_skb fst_slot);
     dst' \<leftarrow> wrn dst (sl_ptail fst_slot) bs;
     let info = (pkt_info (sl_pkt fst_slot))\<lparr>ri_icv_len := ri_icv_len (pkt_info (sl_pkt ppkt))\<rparr>;
     Some (s\<lparr>rx_skbs := (rx_skbs s)(sl_skb fst_slot \<mapsto> dst'),
             rx_slots := (rx_slots s)(first := fst_slot\<lparr>sl_pkt := (sl_pkt fst_slot)\<lparr>pkt_info := info\<rparr>\<rparr>)\<rparr>)
   }"

partial_function (option) recombination_loop ::
  "entry \<Rightarrow> u8 \<Rightarrow> que \<Rightarrow> rx_mem \<Rightarrow> (que \<times> rx_mem \<times> entry option) option" where
  "recombination_loop first order_num q s =
     (if \<not> queue_is_not_empty q then do { (q', s') \<leftarrow> free_rx_queue q s; Some (q', s', Some first) }
      else (case remove_entry q s of
          (q1, s1, None) \<Rightarrow> None
        | (q1, s1, Some e) \<Rightarrow>
            if ri_frag_num (pkt_info (sl_pkt (rx_slots s1 e))) \<noteq> order_num + 1
            then Some (q1, free_rx_pkt e s1, None)
            else (case pkt_put (rx_slots s1 first) (unat (rp_len (sl_pkt (rx_slots s1 e)))) of
                (_, None) \<Rightarrow> Some (q1, free_rx_pkt e s1, None)
              | (fst_slot, Some pbuff) \<Rightarrow>
                  Option.bind (append_fragment first fst_slot (rx_slots s1 e) s1)
                    (\<lambda>s2. recombination_loop first (order_num + 1) q1 (free_rx_pkt e s2)))))"

definition rx_recombination :: "que \<Rightarrow> rx_mem \<Rightarrow> (que \<times> rx_mem \<times> entry option) option" where
  "rx_recombination q s =
     (case remove_entry q s of
        (q1, s1, None) \<Rightarrow> Some (q1, s1, None)
      | (q1, s1, Some first) \<Rightarrow>
          if ri_frag_num (pkt_info (sl_pkt (rx_slots s1 first))) \<noteq> 0 then Some (q1, free_rx_pkt first s1, None)
          else recombination_loop first 0 q1 s1)"

text \<open>The queue and the flag of the peer are passed in and out. The last component is the packet the
  code returns: the one it got, one of the list, or NULL.\<close>

datatype defrag_result = Unchanged | Assembled entry | Nothing

definition insert_fragment :: "entry \<Rightarrow> que \<Rightarrow> rx_mem \<Rightarrow> que \<times> rx_mem" where
  "insert_fragment e q s = (case queue_insert_tail e (rx_links s, q) of (nx, q') \<Rightarrow> (q', s\<lparr>rx_links := nx\<rparr>))"

definition rx_defrag :: "slot \<Rightarrow> que \<Rightarrow> u8 \<Rightarrow> rx_mem \<Rightarrow> (que \<times> u8 \<times> rx_mem \<times> defrag_result) option" where
  "rx_defrag ppkt q flag s = do {
     let mfrag = ri_more_frag (pkt_info (sl_pkt ppkt));
     let frag_num = ri_frag_num (pkt_info (sl_pkt ppkt));
     case remove_entry (free_rx_pkt_list s) s of
       (fq, s0, None) \<Rightarrow> do { (q', s') \<leftarrow> free_rx_queue q (s0\<lparr>free_rx_pkt_list := fq\<rparr>); Some (q', flag, s', Nothing) }
     | (fq, s0, Some e) \<Rightarrow> do {
         let s1 = s0\<lparr>free_rx_pkt_list := fq, rx_slots := (rx_slots s0)(e := ppkt)\<rparr>;
         if mfrag = 0 then
           (if frag_num = 0 then Some (q, flag, s1, Unchanged)
            else if flag = 1 then do {
              let (q1, s2) = insert_fragment e q s1;
              (q2, s3, r) \<leftarrow> rx_recombination q1 s2;
              Some (q2, 0, s3, case r of None \<Rightarrow> Nothing | Some first \<Rightarrow> Assembled first)
            }
            else Some (q, flag, s1, Nothing))
         else if mfrag = 1 then
           (if frag_num = 0 then do {
              (q1, s2) \<leftarrow> (if queue_is_not_empty q then free_rx_queue q s1 else Some (q, s1));
              let (q2, s3) = insert_fragment e q1 s2;
              Some (q2, 1, s3, Nothing)
            }
            else if flag = 1 then (let (q1, s2) = insert_fragment e q s1 in Some (q1, flag, s2, Nothing))
            else Some (q, flag, s1, Nothing))
         else Some (q, flag, s1, Nothing)
       }
   }"

section \<open>A data frame\<close>

text \<open>The state of a network device that the receive path works on: the CRC table, the peers, the
  packets, and the counters of \<open>rx_info\<close> and \<open>mlme_info->link_info\<close>.\<close>

record nic_rx =
  nx_crc :: crc_global
  nx_wdn :: wdn_mem
  nx_mem :: rx_mem
  rx_total_pkts :: u64
  rx_bytes :: u64
  rx_data_pkt :: u64
  rx_drop :: u64
  rx_pkts :: u64
  rx_mgnt_pkt :: u64
  num_rx_ok_in_period :: u32

text \<open>The bytes from \<open>pdata\<close> on, and their change by a function that works on them.\<close>

definition load_slot :: "rx_mem \<Rightarrow> slot \<Rightarrow> rx_pkt option" where
  "load_slot s f = do { buf \<leftarrow> rx_skbs s (sl_skb f); Some ((sl_pkt f)\<lparr>rp_pdata := drop (sl_pdata f) buf\<rparr>) }"

definition store_slot :: "slot \<Rightarrow> rx_pkt \<Rightarrow> rx_mem \<Rightarrow> slot \<times> rx_mem" where
  "store_slot f r s =
     (f\<lparr>sl_pkt := r\<rparr>,
      s\<lparr>rx_skbs := (rx_skbs s)(sl_skb f := map_option (\<lambda>buf. take (sl_pdata f) buf @ rp_pdata r) (rx_skbs s (sl_skb f)))\<rparr>)"

definition rx_process_data_frame :: "sec_info \<Rightarrow> wdn_list \<Rightarrow> slot \<Rightarrow> nic_rx \<Rightarrow> (slot \<times> nic_rx \<times> int) option" where
  "rx_process_data_frame sec wl f n = do {
     r0 \<leftarrow> load_slot (nx_mem n) f;
     r1 \<leftarrow> rx_parse_qos_ctrl_field r0;
     r2 \<leftarrow> rx_parse_ht_ctrl_field r1;
     r3 \<leftarrow> set_encrypt_algo_num sec (nx_wdn n) r2;
     let r4 = set_iv_icv_len r3;
     prot \<leftarrow> GET_HDR_Protected (rp_pdata r4);
     (g, r5, ret) \<leftarrow> (if prot then wf_sec_decryptor (nx_crc n) sec wl (nx_wdn n) r4 else Some (nx_crc n, r4, 0));
     let (f', mem) = store_slot f r5 (nx_mem n);
     let n1 = n\<lparr>nx_crc := g, nx_mem := mem\<rparr>;
     if ret < 0 then Some (f', n1, -1)
     else if ri_more_frag (pkt_info r5) = 0 \<and> ri_frag_num (pkt_info r5) = 0 then Some (f', n1, ret)
     else do {
       p \<leftarrow> rp_wdn_info r5;
       let w = node_info (nx_wdn n1) p;
       (q, flag, mem', _) \<leftarrow> rx_defrag f' (defrag_q w) (defrag_flag w) mem;
       let w' = w\<lparr>defrag_q := q, defrag_flag := flag\<rparr>;
       Some (f', n1\<lparr>nx_mem := mem', nx_wdn := (nx_wdn n1)\<lparr>node_info := (node_info (nx_wdn n1))(p := w')\<rparr>\<rparr>, -1)
     }
   }"

section \<open>Any frame\<close>

text \<open>The handler of management frames is an argument. (Built without \<open>CONFIG_LPS\<close> and without
  monitor mode.)\<close>

abbreviation (input) MAC_FRAME_TYPE_MGT :: u16 where "MAC_FRAME_TYPE_MGT \<equiv> 0x0000"
abbreviation (input) MAC_FRAME_TYPE_DATA :: u16 where "MAC_FRAME_TYPE_DATA \<equiv> 0x0008"

definition wf_rx_common_process ::
  "(slot \<Rightarrow> nic_rx \<Rightarrow> nic_rx \<times> int) \<Rightarrow> rx_cfg \<Rightarrow> sec_info \<Rightarrow> wdn_list \<Rightarrow> slot \<Rightarrow> nic_rx \<Rightarrow> (slot \<times> nic_rx \<times> int) option" where
  "wf_rx_common_process wf_wlan_mgmt_rx_frame cfg sec wl f n = do {
     r \<leftarrow> load_slot (nx_mem n) f;
     ta \<leftarrow> GET_ADDR2 (rp_pdata r);
     pwdn \<leftarrow> wf_wdn_find_info wl (Some ta) (nx_wdn n);
     let r0 = r\<lparr>rp_wdn_info := pwdn\<rparr>;
     let m0 = (case pwdn of
                 None \<Rightarrow> nx_wdn n
               | Some p \<Rightarrow> (nx_wdn n)\<lparr>node_info := (node_info (nx_wdn n))
                   (p := (node_info (nx_wdn n) p)\<lparr>wdn_rx_pkt_stat := wdn_rx_pkt_stat (node_info (nx_wdn n) p) + 1\<rparr>)\<rparr>);
     let n0 = n\<lparr>nx_wdn := m0\<rparr>;
     frame_type \<leftarrow> GET_HDR_Type (rp_pdata r0);
     if frame_type = MAC_FRAME_TYPE_DATA then do {
       (m1, r1, ret) \<leftarrow> rx_check_data_frame_valid cfg m0 r0;
       let n1 = n0\<lparr>nx_wdn := m1\<rparr>;
       if ret < 0 then Some (f\<lparr>sl_pkt := r1\<rparr>, n1, ret)
       else do {
         (f2, n2, ret2) \<leftarrow> rx_process_data_frame sec wl (f\<lparr>sl_pkt := r1\<rparr>) (n1\<lparr>rx_data_pkt := rx_data_pkt n1 + 1\<rparr>);
         Some (if ret2 < 0 then (f2, n2\<lparr>rx_drop := rx_drop n2 + 1\<rparr>, ret2)
               else (f2, n2\<lparr>num_rx_ok_in_period := num_rx_ok_in_period n2 + 1, rx_pkts := rx_pkts n2 + 1\<rparr>, ret2))
       }
     }
     else if frame_type = MAC_FRAME_TYPE_MGT then do {
       (r1, ret) \<leftarrow> rx_check_mngt_frame_valid cfg r0;
       if ret < 0 then Some (f\<lparr>sl_pkt := r1\<rparr>, n0, ret)
       else (let (n1, ret1) = wf_wlan_mgmt_rx_frame (f\<lparr>sl_pkt := r1\<rparr>) n0
             in Some (f\<lparr>sl_pkt := r1\<rparr>, if ret1 > 0 then n1\<lparr>rx_mgnt_pkt := rx_mgnt_pkt n1 + 1\<rparr> else n1, ret1))
     }
     else Some (f\<lparr>sl_pkt := r0\<rparr>, n0, 0)
   }"

section \<open>Fragments\<close>

text \<open>\<open>frags_rep s q fs qs\<close>: the free packets are \<open>fs\<close>, the packets of the queue \<open>q\<close> of a peer \<open>qs\<close>, and no
  packet is on both.\<close>

definition frags_rep :: "rx_mem \<Rightarrow> que \<Rightarrow> entry list \<Rightarrow> entry list \<Rightarrow> bool" where
  "frags_rep s q fs qs \<longleftrightarrow> queue_rep (rx_links s) (free_rx_pkt_list s) fs \<and> queue_rep (rx_links s) q qs \<and>
     set fs \<inter> set qs = {} \<and> length fs + length qs + 1 < 2 ^ 32"

lemma frags_rep_slots [simp]:
  "frags_rep (s\<lparr>rx_slots := v\<rparr>) q fs qs = frags_rep s q fs qs" "frags_rep (s\<lparr>rx_skbs := w\<rparr>) q fs qs = frags_rep s q fs qs"
  by (simp_all add: frags_rep_def)

lemma take_free:
  assumes "frags_rep s q (e # fs) qs"
  shows "\<exists>fq nx. remove_entry (free_rx_pkt_list s) s = (fq, s\<lparr>rx_links := nx\<rparr>, Some e) \<and>
    frags_rep (s\<lparr>rx_links := nx, free_rx_pkt_list := fq\<rparr>) q fs qs \<and> e \<notin> set fs \<union> set qs"
proof -
  have r: "queue_rep (rx_links s) (free_rx_pkt_list s) (e # fs)" "queue_rep (rx_links s) q qs" "e \<notin> set qs" "e \<notin> set fs"
    using assms by (auto simp: frags_rep_def queue_rep_def)
  obtain q' where q': "queue_remove_head (rx_links s, free_rx_pkt_list s) = (((rx_links s)(e := None), q'), Some e)"
      "queue_rep ((rx_links s)(e := None)) q' fs"
    using queue_rep_remove_head(1) [OF r(1)] by blast
  then show ?thesis
    using assms r by (intro exI [of _ q'] exI [of _ "(rx_links s)(e := None)"]) (auto simp: remove_entry_def frags_rep_def queue_rep_frame)
qed

lemma take_pending:
  assumes "frags_rep s q fs (e # qs)"
  shows "\<exists>q' nx. remove_entry q s = (q', s\<lparr>rx_links := nx\<rparr>, Some e) \<and> frags_rep (s\<lparr>rx_links := nx\<rparr>) q' fs qs \<and> e \<notin> set fs \<union> set qs"
proof -
  have r: "queue_rep (rx_links s) q (e # qs)" "queue_rep (rx_links s) (free_rx_pkt_list s) fs" "e \<notin> set qs" "e \<notin> set fs"
    using assms by (auto simp: frags_rep_def queue_rep_def)
  obtain q' where q': "queue_remove_head (rx_links s, q) = (((rx_links s)(e := None), q'), Some e)"
      "queue_rep ((rx_links s)(e := None)) q' qs"
    using queue_rep_remove_head(1) [OF r(1)] by blast
  then show ?thesis
    using assms r by (intro exI [of _ q'] exI [of _ "(rx_links s)(e := None)"]) (auto simp: remove_entry_def frags_rep_def queue_rep_frame)
qed

lemma frags_not_empty: "frags_rep s q fs qs \<Longrightarrow> queue_is_not_empty q \<longleftrightarrow> qs \<noteq> []"
  using queue_rep_not_empty by (auto simp: frags_rep_def)

lemma free_rx_pkt_rep:
  assumes "frags_rep s q fs qs" "e \<notin> set fs \<union> set qs" "length fs + length qs + 2 < 2 ^ 32"
  shows "frags_rep (free_rx_pkt e s) q (fs @ [e]) qs \<and> rx_slots (free_rx_pkt e s) = rx_slots s \<and> rx_skbs (free_rx_pkt e s) = rx_skbs s"
proof -
  have r: "queue_rep (rx_links s) (free_rx_pkt_list s) fs" "queue_rep (rx_links s) q qs" using assms(1) by (auto simp: frags_rep_def)
  have "case queue_insert_tail e (rx_links s, free_rx_pkt_list s) of (nx', q') \<Rightarrow> queue_rep nx' q' (fs @ [e])"
    using queue_rep_insert_tail [OF r(1)] assms by (auto simp: frags_rep_def)
  moreover have "queue_rep (fst (queue_insert_tail e (rx_links s, free_rx_pkt_list s))) q qs"
    using queue_insert_tail_frame [OF r] assms by (auto simp: frags_rep_def)
  ultimately show ?thesis using assms by (auto simp: free_rx_pkt_def frags_rep_def split: prod.splits)
qed

lemma insert_fragment_rep:
  assumes "frags_rep s q fs qs" "e \<notin> set fs \<union> set qs" "length fs + length qs + 2 < 2 ^ 32"
  shows "\<exists>q' nx. insert_fragment e q s = (q', s\<lparr>rx_links := nx\<rparr>) \<and> frags_rep (s\<lparr>rx_links := nx\<rparr>) q' fs (qs @ [e])"
proof -
  have r: "queue_rep (rx_links s) (free_rx_pkt_list s) fs" "queue_rep (rx_links s) q qs" using assms(1) by (auto simp: frags_rep_def)
  obtain nx q' where i: "queue_insert_tail e (rx_links s, q) = (nx, q')" by fastforce
  have "queue_rep nx q' (qs @ [e])" using queue_rep_insert_tail [OF r(2), of e] i assms by (auto simp: frags_rep_def)
  moreover have "queue_rep nx (free_rx_pkt_list s) fs"
    using queue_insert_tail_frame [OF r(2,1), of e] i assms by (auto simp: frags_rep_def)
  ultimately show ?thesis using i assms by (intro exI [of _ q'] exI [of _ nx]) (auto simp: insert_fragment_def frags_rep_def)
qed

section \<open>Lengths\<close>

text \<open>The difference of a length and a larger one wraps to at least half of the range.\<close>

lemma short_len_wraps:
  assumes "uint (len :: u32) < uint (h :: u8) + 4"
  shows "(2 :: nat) ^ 31 \<le> unat (len - (ucast h + 4))"
proof -
  let ?b = "ucast h + 4 :: u32"
  have h: "uint h < 256" using uint_lt2p [of h] by simp
  have "uint (ucast h :: u32) = uint h" using h by (simp add: unsigned_ucast_eq take_bit_int_eq_self_iff)
  then have b: "uint ?b = uint h + 4" using h by (simp add: uint_word_ariths)
  define x where "x = uint len - uint ?b"
  have x: "-260 \<le> x" "x < 0" using assms b h uint_ge_0 [of len] unfolding x_def by linarith+
  have "uint (len - ?b) = x mod 2 ^ 32" by (simp add: uint_word_ariths x_def)
  also have "\<dots> = (x + 2 ^ 32) mod 2 ^ 32" by (rule mod_add_self2 [symmetric])
  also have "\<dots> = x + 2 ^ 32" using x by (intro mod_pos_pos_trivial) simp_all
  finally have "uint (len - ?b) \<ge> 2 ^ 31" using x by simp
  then have "int (2 ^ 31) \<le> int (unat (len - ?b))" by (simp only: uint_nat of_nat_power of_nat_numeral)
  then show ?thesis by (simp only: of_nat_le_iff)
qed

lemma arc4_too_long: "length buf < n \<Longrightarrow> arc4_encrypt_buf ctx buf k buf k n = None"
  by (simp add: arc4_encrypt_buf_def rdn_def)

section \<open>A plain frame\<close>

lemma load_store: "load_slot s f = Some r \<Longrightarrow> rp_pdata r' = rp_pdata r \<Longrightarrow> snd (store_slot f r' s) = s"
proof -
  assume a: "load_slot s f = Some r" "rp_pdata r' = rp_pdata r"
  then obtain y where y: "rx_skbs s (sl_skb f) = Some y" "rp_pdata r' = drop (sl_pdata f) y"
    by (auto simp: load_slot_def bind_eq_Some_conv)
  then have "(rx_skbs s)(sl_skb f \<mapsto> y) = rx_skbs s" by (intro fun_upd_idem)
  then show ?thesis using y by (simp add: store_slot_def)
qed

lemma order_read: "rd_le16 buf 0 = Some fc \<Longrightarrow> GET_HDR_Order buf = Some (fc AND 0x8000 \<noteq> 0)"
  by (simp add: GET_HDR_Order_def)

definition hdr_len :: "u16 \<Rightarrow> u8 \<Rightarrow> u8" where
  "hdr_len fc qos_flag = 24 + (if fc AND 0x0300 = 0x0300 then 6 else 0) + (if qos_flag \<noteq> 0 then 2 else 0) +
     (if fc AND 0x8000 \<noteq> 0 then 4 else 0)"

text \<open>A frame that is neither protected nor a fragment keeps the device as it is and gets the length of
  its header and no IV.\<close>

lemma plain_process:
  assumes "load_slot (nx_mem n) f = Some r" "rd_le16 (rp_pdata r) 0 = Some fc" "32 \<le> length (rp_pdata r)"
    "GET_HDR_Protected (rp_pdata r) = Some False" "ri_more_frag (pkt_info r) = 0" "ri_frag_num (pkt_info r) = 0"
  shows "\<exists>f'. rx_process_data_frame sec wl f n = Some (f', n, 0) \<and> sl_skb f' = sl_skb f \<and> sl_pdata f' = sl_pdata f \<and>
    rp_len (sl_pkt f') = rp_len r \<and> ri_wlan_hdr_len (pkt_info (sl_pkt f')) = hdr_len fc (ri_qos_flag (pkt_info r)) \<and>
    ri_iv_len (pkt_info (sl_pkt f')) = 0 \<and> ri_dst_addr (pkt_info (sl_pkt f')) = ri_dst_addr (pkt_info r) \<and>
    ri_src_addr (pkt_info (sl_pkt f')) = ri_src_addr (pkt_info r) \<and> ri_seq_num (pkt_info (sl_pkt f')) = ri_seq_num (pkt_info r)"
proof -
  define h where "h = (24 :: u8) + (if fc AND 0x0300 = 0x0300 then 6 else 0) + (if ri_qos_flag (pkt_info r) \<noteq> 0 then 2 else 0)"
  obtain pri ack ams where r1: "rx_parse_qos_ctrl_field r =
      Some (r\<lparr>pkt_info := (pkt_info r)\<lparr>ri_wlan_hdr_len := h, ri_qos_pri := pri, ri_amsdu := ams, ri_ack_policy := ack\<rparr>\<rparr>)"
    using qos_parse_result [OF assms(2,3)] unfolding h_def by blast
  define i1 where "i1 = (pkt_info r)\<lparr>ri_qos_pri := pri, ri_amsdu := ams, ri_ack_policy := ack\<rparr>"
  define h1 where "h1 = hdr_len fc (ri_qos_flag (pkt_info r))"
  have h1: "h1 = h + (if fc AND 0x8000 \<noteq> 0 then 4 else 0)" by (simp add: h1_def hdr_len_def h_def)
  have r1': "rx_parse_qos_ctrl_field r = Some (r\<lparr>pkt_info := i1\<lparr>ri_wlan_hdr_len := h\<rparr>\<rparr>)" using r1 by (simp add: i1_def)
  have r2: "rx_parse_ht_ctrl_field (r\<lparr>pkt_info := i1\<lparr>ri_wlan_hdr_len := h\<rparr>\<rparr>) = Some (r\<lparr>pkt_info := i1\<lparr>ri_wlan_hdr_len := h1\<rparr>\<rparr>)"
    by (cases "fc AND 0x8000 = 0") (simp_all add: rx_parse_ht_ctrl_field_def order_read [OF assms(2)] h1)
  define i3 where "i3 = i1\<lparr>ri_wlan_hdr_len := h1, ri_encrypt_algo := NO_PRIVACY, ri_iv_len := 0, ri_icv_len := 0\<rparr>"
  have r3: "set_encrypt_algo_num sec (nx_wdn n) (r\<lparr>pkt_info := i1\<lparr>ri_wlan_hdr_len := h1\<rparr>\<rparr>) =
      Some (r\<lparr>pkt_info := i1\<lparr>ri_wlan_hdr_len := h1, ri_encrypt_algo := NO_PRIVACY\<rparr>\<rparr>)"
    using assms(4) by (simp add: set_encrypt_algo_num_def)
  have r4: "set_iv_icv_len (r\<lparr>pkt_info := i1\<lparr>ri_wlan_hdr_len := h1, ri_encrypt_algo := NO_PRIVACY\<rparr>\<rparr>) = r\<lparr>pkt_info := i3\<rparr>"
    by (simp add: set_iv_icv_len_def Let_def i3_def)
  have st: "store_slot f (r\<lparr>pkt_info := i3\<rparr>) (nx_mem n) = (f\<lparr>sl_pkt := r\<lparr>pkt_info := i3\<rparr>\<rparr>, nx_mem n)"
    using load_store [OF assms(1), of "r\<lparr>pkt_info := i3\<rparr>"] by (simp add: store_slot_def)
  have i3: "ri_more_frag i3 = 0" "ri_frag_num i3 = 0" "ri_dst_addr i3 = ri_dst_addr (pkt_info r)" "ri_src_addr i3 = ri_src_addr (pkt_info r)"
      "ri_seq_num i3 = ri_seq_num (pkt_info r)" "ri_wlan_hdr_len i3 = h1" "ri_iv_len i3 = 0"
    using assms(5,6) by (simp_all add: i3_def i1_def)
  have "rx_process_data_frame sec wl f n = Some (f\<lparr>sl_pkt := r\<lparr>pkt_info := i3\<rparr>\<rparr>, n, 0)"
    using assms(1,4) i3(1,2) by (simp add: rx_process_data_frame_def r1' r2 r3 r4 st)
  then show ?thesis using i3 by (simp add: h1_def)
qed

section \<open>Properties\<close>

text \<open>(C36) No frame is reassembled, and every attempt loses a packet of the pool. When the last fragment of a
  frame arrives, the first one is at the head of the queue, and \<open>pend\<close> of that packet is 0, as the
  code that makes packets leaves it, then the result is NULL, the second packet of the queue goes
  back to the free packets, and the first one is on neither list any more.\<close>

theorem reassembly_loses_packet:
  assumes "frags_rep s q (e # fs) (a # qs)" "length fs + length qs + 4 < 2 ^ 32"
    "ri_more_frag (pkt_info (sl_pkt f)) = 0" "ri_frag_num (pkt_info (sl_pkt f)) \<noteq> 0"
    "ri_frag_num (pkt_info (sl_pkt (rx_slots s a))) = 0" "sl_pend (rx_slots s a) = 0" "0 < sl_ptail (rx_slots s a)"
  shows "\<exists>q' s'. rx_defrag f q 1 s = Some (q', 0, s', Nothing) \<and>
    frags_rep s' q' (fs @ [hd (qs @ [e])]) (tl (qs @ [e])) \<and> a \<notin> set (fs @ qs @ [e])"
proof -
  obtain fq nx where 1: "remove_entry (free_rx_pkt_list s) s = (fq, s\<lparr>rx_links := nx\<rparr>, Some e)"
      "frags_rep (s\<lparr>rx_links := nx, free_rx_pkt_list := fq\<rparr>) q fs (a # qs)" "e \<notin> set fs \<union> set (a # qs)"
    using take_free [OF assms(1)] by blast
  let ?s1 = "s\<lparr>rx_links := nx, free_rx_pkt_list := fq, rx_slots := (rx_slots s)(e := f)\<rparr>"
  have rep1: "frags_rep ?s1 q fs (a # qs)" using 1(2) frags_rep_slots(1) [where s = "s\<lparr>rx_links := nx, free_rx_pkt_list := fq\<rparr>"] by simp
  obtain q2 nx2 where 2: "insert_fragment e q ?s1 = (q2, ?s1\<lparr>rx_links := nx2\<rparr>)" "frags_rep (?s1\<lparr>rx_links := nx2\<rparr>) q2 fs (a # (qs @ [e]))"
    using insert_fragment_rep [OF rep1 1(3)] assms(2) by auto
  obtain q3 nx3 where 3: "remove_entry q2 (?s1\<lparr>rx_links := nx2\<rparr>) = (q3, ?s1\<lparr>rx_links := nx3\<rparr>, Some a)"
      "frags_rep (?s1\<lparr>rx_links := nx3\<rparr>) q3 fs (qs @ [e])" "a \<notin> set fs \<union> set (qs @ [e])"
    using take_pending [OF 2(2)] by auto
  obtain b bs where b: "qs @ [e] = b # bs" by (cases "qs @ [e]") auto
  obtain q4 nx4 where 4: "remove_entry q3 (?s1\<lparr>rx_links := nx3\<rparr>) = (q4, ?s1\<lparr>rx_links := nx4\<rparr>, Some b)"
      "frags_rep (?s1\<lparr>rx_links := nx4\<rparr>) q4 fs bs" "b \<notin> set fs \<union> set bs"
    using take_pending [of "?s1\<lparr>rx_links := nx3\<rparr>" q3 fs b bs] 3(2) unfolding b by auto
  have ne: "queue_is_not_empty q3" using 3(2) frags_not_empty unfolding b by blast
  let ?s4 = "free_rx_pkt b (?s1\<lparr>rx_links := nx4\<rparr>)"
  have ae: "a \<noteq> e" using 1(3) by auto
  have "recombination_loop a 0 q3 (?s1\<lparr>rx_links := nx3\<rparr>) = Some (q4, ?s4, None)"
    using ne 4(1) ae assms(6,7) by (subst recombination_loop.simps) (simp add: pkt_put_def)
  then have "rx_recombination q2 (?s1\<lparr>rx_links := nx2\<rparr>) = Some (q4, ?s4, None)"
    using 3(1) ae assms(5) by (simp add: rx_recombination_def)
  then have "rx_defrag f q 1 s = Some (q4, 0, ?s4, Nothing)"
    using 1(1) 2(1) assms(3,4) by (simp add: rx_defrag_def)
  moreover have "length fs + length bs + 2 < 2 ^ 32" using assms(2) arg_cong [OF b, of length] by simp
  then have "frags_rep ?s4 q4 (fs @ [b]) bs" using free_rx_pkt_rep [OF 4(2,3)] by simp
  ultimately show ?thesis using b 3(3) by (intro exI [of _ q4] exI [of _ ?s4]) simp
qed

definition slot_ex :: "u8 \<Rightarrow> slot" where
  "slot_ex k = \<lparr>sl_pkt = tkip_sample_pkt\<lparr>pkt_info := (pkt_info tkip_sample_pkt)\<lparr>ri_frag_num := k\<rparr>, rp_len := 30\<rparr>,
     sl_skb = 0, sl_phead = 0, sl_pdata = 56, sl_ptail = 86, sl_pend = 0\<rparr>"

lemma reassembly_loses_packet_witness:
  "\<exists>s q q' s'. frags_rep s q [1, 3] [2] \<and> rx_defrag (slot_ex 1) q 1 s = Some (q', 0, s', Nothing) \<and> frags_rep s' q' [3, 1] []"
proof -
  define q where "q = \<lparr>q_phead = Some 2, q_ptail = Some 2, q_num_elem = 1\<rparr>"
  define s where "s = \<lparr>rx_links = (\<lambda>_. None)(1 \<mapsto> 3), free_rx_pkt_list = \<lparr>q_phead = Some 1, q_ptail = Some 3, q_num_elem = 2\<rparr>,
     rx_slots = \<lambda>_. slot_ex 0, rx_skbs = \<lambda>_. Some []\<rparr>"
  have "frags_rep s q [1, 3] [2]" by (simp add: frags_rep_def queue_rep_def s_def q_def)
  then show ?thesis
    using reassembly_loses_packet [of s q 1 "[3]" 2 "[]" "slot_ex 1"] by (auto simp: s_def slot_ex_def tkip_sample_pkt_def)
qed

text \<open>A protected frame that ends before its IV makes decryption leave the packet: with WEP and less than
  header and IV received, the length of the payload wraps around, and the cipher runs over more than
  the memory of any packet.\<close>

theorem short_wep_frame_overruns:
  assumes "load_slot (nx_mem n) f = Some r" "GET_HDR_Protected (rp_pdata r) = Some True"
    "dot11AuthAlgrthm sec \<noteq> dot11AuthAlgrthm_8021X" "dot11PrivacyAlgrthm sec = 1 \<or> dot11PrivacyAlgrthm sec = 5"
    "rx_parse_qos_ctrl_field r = Some r1" "rx_parse_ht_ctrl_field r1 = Some r2"
    "uint (rp_len r) < uint (ri_wlan_hdr_len (pkt_info r2)) + 4" "length (rp_pdata r) < 2 ^ 31"
  shows "rx_process_data_frame sec wl f n = None"
proof -
  define i where "i = (pkt_info r2)\<lparr>ri_encrypt_algo := ucast (dot11PrivacyAlgrthm sec)\<rparr>"
  have r1: "rp_len r1 = rp_len r" "rp_pdata r1 = rp_pdata r" using qos_parse_keeps [OF assms(5)] by auto
  have r2: "rp_len r2 = rp_len r" "rp_pdata r2 = rp_pdata r"
    using assms(6) r1 by (auto simp: rx_parse_ht_ctrl_field_def bind_eq_Some_conv split: if_splits)
  have r3: "set_encrypt_algo_num sec (nx_wdn n) r2 = Some (r2\<lparr>pkt_info := i\<rparr>)"
    using assms(2,3) r2 by (simp add: set_encrypt_algo_num_def i_def)
  define r4 where "r4 = set_iv_icv_len (r2\<lparr>pkt_info := i\<rparr>)"
  have algo: "ri_encrypt_algo i = WEP40 \<or> ri_encrypt_algo i = WEP104" using assms(4) by (auto simp: i_def)
  have r4: "rp_pdata r4 = rp_pdata r" "rp_len r4 = rp_len r" "ri_iv_len (pkt_info r4) = 4" "ri_icv_len (pkt_info r4) = 4"
      "ri_wlan_hdr_len (pkt_info r4) = ri_wlan_hdr_len (pkt_info r2)" "ri_encrypt_algo (pkt_info r4) = ri_encrypt_algo i"
    using algo r2 by (auto simp: r4_def set_iv_icv_len_def Let_def i_def split: if_splits)
  have over: "arc4_encrypt_buf ctx (rp_pdata r4) k (rp_pdata r4) k
      (unat (rp_len r4 - (ucast (ri_wlan_hdr_len (pkt_info r4)) + ucast (ri_iv_len (pkt_info r4))))) = None" for ctx k
  proof -
    have "length (rp_pdata r) < unat (rp_len r - (ucast (ri_wlan_hdr_len (pkt_info r2)) + 4))"
      using short_len_wraps [OF assms(7)] assms(8) by linarith
    then show ?thesis using r4 by (simp add: arc4_too_long)
  qed
  have "wep_decrypt g sec r4 = None" for g
    by (auto simp: wep_decrypt_def Let_def over case_prod_beta split: option.splits bind_splits)
  then have "wf_sec_decryptor (nx_crc n) sec wl (nx_wdn n) r4 = None"
    using algo r4 assms(2) by (auto simp: wf_sec_decryptor_def)
  then show ?thesis using assms(1,2,5,6) r3 r4(1) by (simp add: rx_process_data_frame_def r4_def [symmetric])
qed

definition nic_ex :: nic_rx where
  "nic_ex = \<lparr>nx_crc = \<lparr>bcrc32initialized = 0, crc32_table = []\<rparr>, nx_wdn = peers_ex,
     nx_mem = \<lparr>rx_links = \<lambda>_. None, free_rx_pkt_list = queue_initialize, rx_slots = \<lambda>_. slot_ex 0,
       rx_skbs = \<lambda>_. Some (replicate 56 0 @ [8, 0x42] @ replicate 38 0)\<rparr>,
     rx_total_pkts = 0, rx_bytes = 0, rx_data_pkt = 0, rx_drop = 0, rx_pkts = 0, rx_mgnt_pkt = 0, num_rx_ok_in_period = 0\<rparr>"

lemma short_wep_frame_overruns_witness:
  "rx_process_data_frame (wep_sample_sec\<lparr>dot11AuthAlgrthm := 0, dot11PrivacyAlgrthm := 1\<rparr>) wl_ex
     ((slot_ex 0)\<lparr>sl_pkt := tkip_sample_pkt\<lparr>rp_len := 26\<rparr>\<rparr>) nic_ex = None"
proof -
  let ?r = "tkip_sample_pkt\<lparr>rp_len := 26, rp_pdata := [8, 0x42] @ replicate 38 0\<rparr>"
  let ?i = "(pkt_info tkip_sample_pkt)\<lparr>ri_wlan_hdr_len := 24, ri_qos_pri := 0, ri_ack_policy := 0, ri_amsdu := 0\<rparr>"
  have load: "load_slot (nx_mem nic_ex) ((slot_ex 0)\<lparr>sl_pkt := tkip_sample_pkt\<lparr>rp_len := 26\<rparr>\<rparr>) = Some ?r"
    by (simp add: load_slot_def nic_ex_def slot_ex_def)
  have q: "rx_parse_qos_ctrl_field ?r = Some (?r\<lparr>pkt_info := ?i\<rparr>)"
    by (simp add: rx_parse_qos_ctrl_field_def GET_HDR_To_From_DS_def GET_HDR_SubTpye_def rd_le16_def rd8_def le16_of_def tkip_sample_pkt_def)
  have h: "rx_parse_ht_ctrl_field (?r\<lparr>pkt_info := ?i\<rparr>) = Some (?r\<lparr>pkt_info := ?i\<rparr>)"
    by (simp add: rx_parse_ht_ctrl_field_def GET_HDR_Order_def rd_le16_def rd8_def le16_of_def)
  have p: "GET_HDR_Protected (rp_pdata ?r) = Some True"
    by (simp add: GET_HDR_Protected_def rd8_def le16_of_def bit_simps)
  show ?thesis by (rule short_wep_frame_overruns [OF load p _ _ q h]) (simp_all add: tkip_sample_pkt_def)
qed

text \<open>(C19) The way of a plain frame: an unprotected, unfragmented data frame that the access point of the
  network sends to this station, and that is not a duplicate, passes the receive path with result
  0. The packet keeps its bytes, gets destination and source of the From DS direction and the
  length of its header; one data packet and one good packet are counted, the peer counts the
  packet and records its sequence number, and no other peer changes.\<close>

theorem plain_frame_passes:
  assumes "work_mode cfg = WF_INFRA_MODE" "load_slot (nx_mem n) f = Some r" "32 \<le> length (rp_pdata r)"
    "rd_le16 (rp_pdata r) 0 = Some fc" "fc AND 0x000C = MAC_FRAME_TYPE_DATA" "fc AND 0x0300 = FROM_DS"
    "GET_HDR_Protected (rp_pdata r) = Some False" "GET_ADDR1 (rp_pdata r) = Some (local_addr cfg)"
    "GET_ADDR2 (rp_pdata r) = Some bssid" "GET_ADDR3 (rp_pdata r) = Some sa"
    "wf_wdn_find_info wl (Some bssid) (nx_wdn n) = Some (Some p)" "wdn_wf (node_info (nx_wdn n) p)"
    "wdn_bssid (node_info (nx_wdn n) p) = bssid" "ri_qos_pri (pkt_info r) \<le> 15" "\<not> is_dup (node_info (nx_wdn n) p) r"
    "ri_more_frag (pkt_info r) = 0" "ri_frag_num (pkt_info r) = 0"
  shows "\<exists>f' n'. wf_rx_common_process mgmt cfg sec wl f n = Some (f', n', 0) \<and> nx_mem n' = nx_mem n \<and>
    sl_skb f' = sl_skb f \<and> sl_pdata f' = sl_pdata f \<and> rp_len (sl_pkt f') = rp_len r \<and>
    ri_dst_addr (pkt_info (sl_pkt f')) = local_addr cfg \<and> ri_src_addr (pkt_info (sl_pkt f')) = sa \<and>
    ri_wlan_hdr_len (pkt_info (sl_pkt f')) = hdr_len fc (ri_qos_flag (pkt_info r)) \<and>
    rx_data_pkt n' = rx_data_pkt n + 1 \<and> rx_pkts n' = rx_pkts n + 1 \<and> rx_drop n' = rx_drop n \<and>
    wdn_rx_pkt_stat (node_info (nx_wdn n') p) = wdn_rx_pkt_stat (node_info (nx_wdn n) p) + 1 \<and>
    seq_ctrl_recorder (node_info (nx_wdn n') p) ! unat (ri_qos_pri (pkt_info r)) = seq_ctrl_of (pkt_info r) \<and>
    (\<forall>p'. p' \<noteq> p \<longrightarrow> node_info (nx_wdn n') p' = node_info (nx_wdn n) p')"
proof -
  define w0 where "w0 = (node_info (nx_wdn n) p)\<lparr>wdn_rx_pkt_stat := wdn_rx_pkt_stat (node_info (nx_wdn n) p) + 1\<rparr>"
  define m0 where "m0 = (nx_wdn n)\<lparr>node_info := (node_info (nx_wdn n))(p := w0)\<rparr>"
  define r0 where "r0 = r\<lparr>rp_wdn_info := Some p\<rparr>"
  define r1 where "r1 = set_addrs (local_addr cfg) sa bssid (local_addr cfg) bssid r0"
  define m1 where "m1 = record_seq p r0 m0"
  have w0: "wdn_wf w0" "wdn_bssid w0 = bssid" "\<not> is_dup w0 r0"
    using assms(12,13,15) by (simp_all add: w0_def wdn_wf_def is_dup_def r0_def)
  have ds: "GET_HDR_To_From_DS (rp_pdata r) = Some FROM_DS" using assms(4,6) by (simp add: GET_HDR_To_From_DS_def)
  have "rx_check_data_frame_valid cfg m0 r0 = Some (m1, r1, 0)"
    using infra_check [of cfg r0 p m0 FROM_DS "local_addr cfg" bssid sa] assms(1,3,8,9,10,14) w0 ds
    by (auto simp: r0_def m0_def r1_def m1_def)
  moreover have "GET_HDR_Type (rp_pdata r) = Some MAC_FRAME_TYPE_DATA" using assms(4,5) by (simp add: GET_HDR_Type_def)
  moreover define n1 where "n1 = n\<lparr>nx_wdn := m1, rx_data_pkt := rx_data_pkt n + 1\<rparr>"
  moreover have r1: "rp_pdata r1 = rp_pdata r" "rp_len r1 = rp_len r" "ri_more_frag (pkt_info r1) = 0" "ri_frag_num (pkt_info r1) = 0"
      "ri_qos_flag (pkt_info r1) = ri_qos_flag (pkt_info r)" "ri_dst_addr (pkt_info r1) = local_addr cfg" "ri_src_addr (pkt_info r1) = sa"
    using assms(16,17) by (simp_all add: r1_def r0_def set_addrs_def)
  have "load_slot (nx_mem n1) (f\<lparr>sl_pkt := r1\<rparr>) = Some r1"
    using assms(2) r1(1) by (auto simp: load_slot_def bind_eq_Some_conv n1_def)
  then obtain f' where f': "rx_process_data_frame sec wl (f\<lparr>sl_pkt := r1\<rparr>) n1 = Some (f', n1, 0)" "sl_skb f' = sl_skb f" "sl_pdata f' = sl_pdata f"
      "rp_len (sl_pkt f') = rp_len r" "ri_wlan_hdr_len (pkt_info (sl_pkt f')) = hdr_len fc (ri_qos_flag (pkt_info r))"
      "ri_dst_addr (pkt_info (sl_pkt f')) = local_addr cfg" "ri_src_addr (pkt_info (sl_pkt f')) = sa"
    using plain_process [of n1 "f\<lparr>sl_pkt := r1\<rparr>" r1 fc sec wl] assms(3,4,7) r1 by auto
  ultimately have res: "wf_rx_common_process mgmt cfg sec wl f n =
      Some (f', n1\<lparr>num_rx_ok_in_period := num_rx_ok_in_period n1 + 1, rx_pkts := rx_pkts n1 + 1\<rparr>, 0)"
    using assms(2,9,11) by (simp add: wf_rx_common_process_def r0_def m0_def w0_def)
  have "unat (ri_qos_pri (pkt_info r)) < 16" using assms(14) by (simp add: word_le_nat_alt)
  moreover have "length (seq_ctrl_recorder (node_info (nx_wdn n) p)) = 16" using assms(12) by (simp add: wdn_wf_def)
  ultimately show ?thesis
    using res f' by (intro exI [of _ f'] exI) (auto simp: n1_def m1_def record_seq_def m0_def w0_def r0_def)
qed

definition nic_ap_ex :: nic_rx where
  "nic_ap_ex = nic_ex\<lparr>nx_wdn := peers_ex\<lparr>pnext := \<lambda>p. if p = 1 then 3 else 1,
       node_info := \<lambda>_. wdn_zero\<lparr>wdn_mac := [4, 0, 0, 0, 0, 2], wdn_bssid := [4, 0, 0, 0, 0, 2]\<rparr>\<rparr>,
     nx_mem := (nx_mem nic_ex)\<lparr>rx_skbs := \<lambda>_. Some (replicate 56 0 @ frame_ex @ replicate 20 0)\<rparr>\<rparr>"

lemma plain_frame_passes_witness:
  "\<exists>f' n'. wf_rx_common_process (\<lambda>f n. (n, 0)) cfg_ex wep_sample_sec wl_ex (slot_ex 0) nic_ap_ex = Some (f', n', 0) \<and>
     rx_pkts n' = 1 \<and> ri_src_addr (pkt_info (sl_pkt f')) = [4, 0, 0, 0, 0, 9] \<and> ri_wlan_hdr_len (pkt_info (sl_pkt f')) = 24"
proof -
  let ?r = "(sl_pkt (slot_ex 0))\<lparr>rp_pdata := frame_ex @ replicate 20 0\<rparr>" and ?n = nic_ap_ex
  have load: "load_slot (nx_mem ?n) (slot_ex 0) = Some ?r" by (simp add: load_slot_def nic_ap_ex_def nic_ex_def slot_ex_def)
  have fc: "rd_le16 (rp_pdata ?r) 0 = Some 0x0208" by (simp add: rd_le16_def rd8_def le16_of_def frame_ex_def)
  have prot: "GET_HDR_Protected (rp_pdata ?r) = Some False"
    by (simp add: GET_HDR_Protected_def rd8_def le16_of_def frame_ex_def bit_simps)
  have addrs: "GET_ADDR1 (rp_pdata ?r) = Some (local_addr cfg_ex)" "GET_ADDR2 (rp_pdata ?r) = Some [4, 0, 0, 0, 0, 2]"
      "GET_ADDR3 (rp_pdata ?r) = Some [4, 0, 0, 0, 0, 9]"
    by (simp_all add: cfg_ex_def GET_ADDR1_def GET_ADDR2_def GET_ADDR3_def rdn_def frame_ex_def)
  have find: "wf_wdn_find_info wl_ex (Some [4, 0, 0, 0, 0, 2]) (nx_wdn ?n) = Some (Some 3)"
    by (simp add: wf_wdn_find_info_def wl_ex_def nic_ap_ex_def wf_list_for_each.simps)
  have wf: "wdn_wf (node_info (nx_wdn ?n) 3)" "wdn_bssid (node_info (nx_wdn ?n) 3) = [4, 0, 0, 0, 0, 2]"
    using wdn_zero_wf by (simp_all add: nic_ap_ex_def wdn_wf_def)
  have dup: "\<not> is_dup (node_info (nx_wdn ?n) 3) ?r" by (simp add: is_dup_def frame_ex_def le16_of_def bit_simps)
  have "32 \<le> length (rp_pdata ?r)" by (simp add: frame_ex_def)
  moreover have "ri_qos_pri (pkt_info ?r) \<le> 15" "ri_more_frag (pkt_info ?r) = 0" "ri_frag_num (pkt_info ?r) = 0" "ri_qos_flag (pkt_info ?r) = 0"
    by (simp_all add: slot_ex_def tkip_sample_pkt_def)
  moreover have "rx_pkts ?n = 0" by (simp add: nic_ap_ex_def nic_ex_def)
  moreover have "work_mode cfg_ex = WF_INFRA_MODE" by (simp add: cfg_ex_def)
  ultimately show ?thesis
    using plain_frame_passes [OF _ load _ fc _ _ prot addrs find wf _ dup, of "\<lambda>f n. (n, 0)" wep_sample_sec]
    by (auto simp: hdr_len_def)
qed

end
