(* ===== verification/Rx_Work.thy ===== *)
theory Rx_Work
  imports Rx_Process
begin

text \<open>
  The way of a buffer of the bus into the receive path, \<open>rx_work\<close> and \<open>mpdu_process\<close> of
  \<open>src/trunk_driver/os/linux/rx_linux.c\<close>: a buffer holds several packets, each with its
  descriptor, padded to a multiple of 8 bytes.
\<close>

section \<open>One packet of the bus\<close>

text \<open>\<open>create_skb\<close> and \<open>pkt_pull\<close> of \<open>rx_linux.c\<close>. The new skb has 14 bytes more than the packet;
  \<open>phead\<close> and \<open>pend\<close> of the packet are not set and keep the 0 of \<open>wf_memset\<close>. \<open>skb\<close> is the result of
  the allocation and \<open>rest\<close> the contents of the 14 bytes.\<close>

definition rx_pkt_zero :: rx_pkt where
  "rx_pkt_zero =
     \<lparr>pkt_info = \<lparr>ri_pkt_type = 0, ri_seq_num = 0, ri_pkt_len = 0, ri_hif_hdr_len = 0, ri_wlan_hdr_len = 0, ri_qos_flag = 0,
        ri_qos_pri = 0, ri_rx_rate = 0, ri_amsdu = 0, ri_more_data = 0, ri_more_frag = 0, ri_frag_num = 0, ri_bdecrypted = 0,
        ri_encrypt_algo = 0, ri_iv_len = 0, ri_icv_len = 0, ri_phy_status = 0, ri_usb_agg_pktnum = 0,
        ri_dst_addr = replicate 6 0, ri_src_addr = replicate 6 0, ri_tx_addr = replicate 6 0, ri_rx_addr = replicate 6 0,
        ri_bssid = replicate 6 0, ri_ack_policy = 0\<rparr>,
      signal_strength = 0, signal_qual = 0, rxd_raw_buf = replicate 24 0, rp_len = 0, rp_pdata = [], rp_wdn_info = None\<rparr>"

definition create_skb :: "nat option \<Rightarrow> bytes \<Rightarrow> bytes \<Rightarrow> rx_mem \<Rightarrow> (slot \<times> rx_mem) option" where
  "create_skb skb rest buf s = do {
     k \<leftarrow> skb;
     Some (\<lparr>sl_pkt = rx_pkt_zero\<lparr>rp_len := of_nat (length buf), rp_pdata := buf @ rest\<rparr>,
            sl_skb = k, sl_phead = 0, sl_pdata = 0, sl_ptail = length buf, sl_pend = 0\<rparr>,
           s\<lparr>rx_skbs := (rx_skbs s)(k \<mapsto> buf @ rest)\<rparr>)
   }"

definition pkt_pull :: "slot \<Rightarrow> u8 \<Rightarrow> slot option" where
  "pkt_pull f n =
     (if ucast n > rp_len (sl_pkt f) then None
      else Some (f\<lparr>sl_pdata := sl_pdata f + unat n, sl_pkt := (sl_pkt f)\<lparr>rp_len := rp_len (sl_pkt f) - ucast n\<rparr>\<rparr>))"

text \<open>The layout of \<open>recv_phy_status_st\<close> (\<open>mcu_cmd.h\<close>), 28 bytes.\<close>

definition phy_status_of :: "bytes \<Rightarrow> recv_phy_status" where
  "phy_status_of b =
     \<lparr>path_agc0_gain = b ! 0 AND 0x7F, cck_sig_qual_ofdm_pwdb_all = b ! 4, cck_agc_rpt_ofdm_cfosho_a = b ! 5, stream_rxevm0 = b ! 13\<rparr>"

datatype mpdu_action = Dropped | To_reorder slot | To_upload slot

definition free_skb :: "nat \<Rightarrow> nic_rx \<Rightarrow> nic_rx" where
  "free_skb k n = n\<lparr>nx_mem := (nx_mem n)\<lparr>rx_skbs := (rx_skbs (nx_mem n))(k := None)\<rparr>\<rparr>"

text \<open>\<open>mpdu_process\<close> up to the point where the frame is passed on (to the reorder buffer when the
  hardware has block-ack, otherwise to the network stack) or its skb is freed.\<close>

definition mpdu_process ::
  "(slot \<Rightarrow> nic_rx \<Rightarrow> nic_rx \<times> int) \<Rightarrow> rx_cfg \<Rightarrow> sec_info \<Rightarrow> wdn_list \<Rightarrow> bool \<Rightarrow> nat option \<Rightarrow> bytes \<Rightarrow> bytes \<Rightarrow> nic_rx \<Rightarrow>
     (nic_rx \<times> mpdu_action) option" where
  "mpdu_process mgmt cfg sec wl ba_enable skb rest buf n = do {
     ty \<leftarrow> wf_rx_data_type buf;
     if ty \<noteq> WF_PKT_TYPE_FRAME then Some (n, Dropped)
     else do {
       let n0 = n\<lparr>rx_total_pkts := rx_total_pkts n + 1, rx_bytes := rx_bytes n + of_nat (length buf)\<rparr>;
       case create_skb skb rest buf (nx_mem n0) of
         None \<Rightarrow> Some (n0, Dropped)
       | Some (f0, mem) \<Rightarrow> do {
           let n1 = n0\<lparr>nx_mem := mem\<rparr>;
           r1 \<leftarrow> wf_rx_rxd_prase (buf @ rest) (sl_pkt f0);
           let hif = ri_hif_hdr_len (pkt_info r1);
           if ucast hif > rp_len r1 then Some (free_skb (sl_skb f0) n1, Dropped)
           else do {
             f2 \<leftarrow> pkt_pull (f0\<lparr>sl_pkt := r1\<rparr>) hif;
             f3 \<leftarrow> (if ri_phy_status (pkt_info r1) \<noteq> 0 then do {
                      phyStatus \<leftarrow> rdn (buf @ rest) 24 28;
                      Some (f2\<lparr>sl_pkt := fst (wf_rx_calc_str_and_qual (phy_status_of phyStatus) (sl_pkt f2))\<rparr>)
                    } else Some f2);
             (f4, n4, ret) \<leftarrow> wf_rx_common_process mgmt cfg sec wl f3 n1;
             if ret \<noteq> 0 then Some (free_skb (sl_skb f4) n4, Dropped)
             else do {
               r \<leftarrow> load_slot (nx_mem n4) f4;
               ft \<leftarrow> GET_HDR_Type (rp_pdata r);
               Some (if ft = MAC_FRAME_TYPE_DATA then (n4, if ba_enable then To_reorder f4 else To_upload f4)
                     else (free_skb (sl_skb f4) n4, Dropped))
             }
           }
         }
     }
   }"

section \<open>An aggregate of the bus\<close>

definition WF_RND8 :: "u16 \<Rightarrow> u16" where
  "WF_RND8 x = word_of_int ((uint x div 8 + (if uint x mod 8 \<noteq> 0 then 1 else 0)) * 8)"

text \<open>\<open>rx_work\<close> of \<open>rx_linux.c\<close>: the loop over the packets of a buffer, \<open>mpdu\<close> is \<open>mpdu_process\<close>. \<open>pos\<close>
  is \<open>pbuf\<close> as an offset; \<open>remain_len\<close> is passed as a 16-bit number.\<close>

partial_function (option) rx_work_loop ::
  "bool \<Rightarrow> (bytes \<Rightarrow> 's \<Rightarrow> 's option) \<Rightarrow> bytes \<Rightarrow> nat \<Rightarrow> int \<Rightarrow> 's \<Rightarrow> 's option" where
  "rx_work_loop richv300 mpdu buf pos remain_len n =
     Option.bind (wf_rx_get_pkt_len_and_check_valid richv300 (drop pos buf) (word_of_int remain_len)) (\<lambda>(plen, valid, _).
       if \<not> valid then Some n
       else Option.bind (rdn buf pos (unat plen)) (\<lambda>pkt.
         Option.bind (mpdu pkt n) (\<lambda>n'.
           (let once_len = WF_RND8 plen; remain' = remain_len - uint once_len
            in if 0 < remain' then rx_work_loop richv300 mpdu buf (pos + unat once_len) remain' n' else Some n'))))"

text \<open>What \<open>rx_work\<close> looks at before: whether the interface is up and which pointers of \<open>nic_info\<close> are not NULL.\<close>

record nic_ptrs =
  np_is_up :: bool
  np_rx_info :: bool
  np_mlme_info :: bool
  np_hw_info :: bool

definition rx_work :: "nic_ptrs option \<Rightarrow> bool \<Rightarrow> (bytes \<Rightarrow> 's \<Rightarrow> 's option) \<Rightarrow> bytes \<Rightarrow> 's \<Rightarrow> ('s \<times> int) option" where
  "rx_work nic_info richv300 mpdu buf n =
     (case nic_info of
        None \<Rightarrow> Some (n, WF_RETURN_FAIL)
      | Some i \<Rightarrow>
          if \<not> np_is_up i then Some (n, WF_RETURN_FAIL)
          else if \<not> np_rx_info i then Some (n, WF_RETURN_FAIL)
          else if \<not> np_mlme_info i then Some (n, WF_RETURN_FAIL)
          else if \<not> np_hw_info i then Some (n, WF_RETURN_FAIL)
          else Option.bind (rx_work_loop richv300 mpdu buf 0 (int (length buf)) n) (\<lambda>n'. Some (n', 0)))"

abbreviation nic_runs :: "nic_ptrs \<Rightarrow> bool" where
  "nic_runs i \<equiv> np_is_up i \<and> np_rx_info i \<and> np_mlme_info i \<and> np_hw_info i"

section \<open>Splitting an aggregate\<close>

text \<open>A packet that is valid on its own, and the buffer that holds packets with their padding.\<close>

definition mpdu_ok :: "bool \<Rightarrow> bytes \<Rightarrow> bool" where
  "mpdu_ok richv300 pkt \<longleftrightarrow> 24 \<le> length pkt \<and>
     wf_rx_get_pkt_len_and_check_valid richv300 pkt (of_nat (length pkt)) = Some (of_nat (length pkt), True, Some True)"

definition pad8 :: "bytes \<Rightarrow> bytes" where
  "pad8 pkt = pkt @ replicate ((8 - length pkt mod 8) mod 8) 0"

definition aggregate :: "bytes list \<Rightarrow> bytes" where
  "aggregate pkts = concat (map pad8 pkts)"

fun mpdu_all :: "(bytes \<Rightarrow> 's \<Rightarrow> 's option) \<Rightarrow> bytes list \<Rightarrow> 's \<Rightarrow> 's option" where
  "mpdu_all mpdu [] n = Some n"
| "mpdu_all mpdu (pkt # pkts) n = Option.bind (mpdu pkt n) (mpdu_all mpdu pkts)"

lemma mpdu_all_Nil: "mpdu_all mpdu [] = Some"
  by (rule ext) simp

lemma rd8_prefix: "i < length buf \<Longrightarrow> rd8 (buf @ rest) i = rd8 buf i"
  by (simp add: rd8_def nth_append)

lemma rd_prefix:
  "i + 1 < length buf \<Longrightarrow> rd_le16 (buf @ rest) i = rd_le16 buf i"
  "i + 3 < length buf \<Longrightarrow> rd_le32 (buf @ rest) i = rd_le32 buf i"
  by (simp_all add: rd_le16_def rd_le32_def rd8_prefix)

lemma prxd_prefix: "20 \<le> length buf \<Longrightarrow> prxd (buf @ rest) f = prxd buf f"
  by (cases f) (simp_all add: prxd_def rd_prefix)

lemma rxdesc_xor_prefix: "\<forall>i\<in>set is. 2 * i + 1 < length buf \<Longrightarrow> rxdesc_xor (buf @ rest) is acc = rxdesc_xor buf is acc"
proof (induction "is" arbitrary: acc)
  case (Cons i "is")
  then show ?case by (cases "rd_le16 buf (2 * i)") (simp_all add: rd_prefix)
qed simp

lemma chksum_prefix: "24 \<le> length buf \<Longrightarrow> wf_rxdesc_chksum (buf @ rest) = wf_rxdesc_chksum buf"
  by (simp add: wf_rxdesc_chksum_def rxdesc_xor_prefix rd_prefix)

text \<open>The check of a packet does not depend on what follows it, as long as all of it is there.\<close>

lemma check_valid_iff:
  "wf_rx_get_pkt_len_and_check_valid richv300 buf r = Some (len, True, nt) \<longleftrightarrow>
     (if richv300 then wf_rxdesc_chksum buf else Some True) = Some True \<and>
     (\<exists>drv pl cmd crc n. prxd buf drvinfo_size = Some drv \<and> prxd buf pkt_len = Some pl \<and> prxd buf cmd_index = Some cmd \<and>
        prxd buf crc32 = Some crc \<and> prxd buf notice = Some n \<and> len = ucast (24 + drv * 8 + pl) \<and>
        \<not> (pl = 0 \<or> drv \<noteq> 4 \<or> cmd \<noteq> 0 \<or> crc = 1 \<or> r < len) \<and> n \<noteq> 1 \<and> nt = Some True)"
  (is "?l = ?r")
proof (cases "(if richv300 then wf_rxdesc_chksum buf else Some True) = Some True")
  case False
  then show ?thesis
    by (cases "if richv300 then wf_rxdesc_chksum buf else Some True") (simp_all add: wf_rx_get_pkt_len_and_check_valid_def)
next
  case ok: True
  consider (none) "prxd buf drvinfo_size = None \<or> prxd buf pkt_len = None \<or> prxd buf cmd_index = None \<or> prxd buf crc32 = None"
    | (some) drv pl cmd crc where "prxd buf drvinfo_size = Some drv" "prxd buf pkt_len = Some pl" "prxd buf cmd_index = Some cmd" "prxd buf crc32 = Some crc"
    by (metis option.exhaust)
  then show ?thesis
  proof cases
    case none
    then show ?thesis by (elim disjE) (simp_all add: wf_rx_get_pkt_len_and_check_valid_def ok)
  next
    case some
    show ?thesis
    proof (cases "pl = 0 \<or> drv \<noteq> 4 \<or> cmd \<noteq> 0 \<or> crc = 1 \<or> r < ucast (24 + drv * 8 + pl)")
      case True
      have "wf_rx_get_pkt_len_and_check_valid richv300 buf r = Some (ucast (24 + drv * 8 + pl), False, None)"
        unfolding wf_rx_get_pkt_len_and_check_valid_def ok some Let_def by (simp only: bind.bind_lunit if_P True not_True_eq_False if_False)
      then show ?thesis using True some by force
    next
      case False
      have "wf_rx_get_pkt_len_and_check_valid richv300 buf r =
          Option.bind (prxd buf notice) (\<lambda>n. Some (ucast (24 + drv * 8 + pl), n \<noteq> 1, Some True))"
        unfolding wf_rx_get_pkt_len_and_check_valid_def ok some Let_def by (simp only: bind.bind_lunit if_not_P False not_True_eq_False if_False)
      then show ?thesis using False some ok by (cases "prxd buf notice") auto
    qed
  qed
qed

lemma check_valid_prefix:
  assumes "24 \<le> length buf" "wf_rx_get_pkt_len_and_check_valid richv300 buf r = Some (len, True, nt)" "r \<le> r'"
  shows "wf_rx_get_pkt_len_and_check_valid richv300 (buf @ rest) r' = Some (len, True, nt)"
proof -
  have e: "prxd (buf @ rest) f = prxd buf f" for f using assms(1) by (intro prxd_prefix) simp
  show ?thesis
    using assms(2) le_less_trans [OF assms(3)] unfolding check_valid_iff e chksum_prefix [OF assms(1)] by blast
qed

lemma mpdu_ok_length:
  assumes "mpdu_ok richv300 pkt" "length pkt < 65536"
  shows "length pkt \<le> 16527"
proof -
  obtain pl where pl: "prxd pkt pkt_len = Some pl" "(ucast (24 + 4 * 8 + pl) :: u16) = of_nat (length pkt)"
    using assms(1) unfolding mpdu_ok_def check_valid_iff by metis
  obtain w where "pl = take_bit 14 w" using pl(1) by (auto simp: prxd_def bind_eq_Some_conv)
  then have "unat pl = take_bit 14 (unat w)" by (simp add: unsigned_take_bit_eq)
  then have small: "unat pl < 16384" using take_bit_nat_less_exp [of 14 "unat w"] by simp
  then have "unat (56 :: u32) + unat pl < 2 ^ LENGTH(32)" by simp
  then have "unat (56 + pl) = 56 + unat pl" by (simp only: unat_add_lem) simp
  then have "unat (ucast (56 + pl) :: u16) = 56 + unat pl" using small by (simp add: unsigned_ucast_eq take_bit_nat_eq_self_iff)
  moreover have "unat (of_nat (length pkt) :: u16) = length pkt" using assms(2) by (simp add: take_bit_nat_eq_self unsigned_of_nat)
  ultimately show ?thesis using pl(2) small by simp
qed

lemma length_pad8: "length (pad8 pkt) = (length pkt div 8 + (if length pkt mod 8 \<noteq> 0 then 1 else 0)) * 8"
proof -
  let ?k = "length pkt"
  have k: "?k = ?k div 8 * 8 + ?k mod 8" "?k mod 8 < 8" by simp_all
  have "?k + (8 - ?k mod 8) mod 8 = (?k div 8 + (if ?k mod 8 \<noteq> 0 then 1 else 0)) * 8"
  proof (cases "?k mod 8 = 0")
    case False
    then have "(8 - ?k mod 8) mod 8 = 8 - ?k mod 8" using k(2) by simp
    moreover have "a = q * 8 + r \<Longrightarrow> r < 8 \<Longrightarrow> a + (8 - r) = (q + 1) * 8" for a q r :: nat by simp
    then have "?k + (8 - ?k mod 8) = (?k div 8 + 1) * 8" using k by blast
    ultimately show ?thesis using False by (simp only: if_True not_False_eq_True simp_thms)
  next
    case True
    moreover have "?k = ?k div 8 * 8" using k(1) True by linarith
    ultimately show ?thesis by simp
  qed
  then show ?thesis by (simp add: pad8_def)
qed

lemma WF_RND8_pad8:
  assumes "length pkt \<le> 16527"
  shows "unat (WF_RND8 (of_nat (length pkt))) = length (pad8 pkt)"
proof -
  have u: "uint (of_nat (length pkt) :: u16) = int (length pkt)" using assms by (simp add: unsigned_of_nat take_bit_nat_eq_self_iff uint_nat)
  have m: "int (length pkt) mod 8 = int (length pkt mod 8)" by (simp add: zmod_int)
  have "(uint (of_nat (length pkt) :: u16) div 8 + (if uint (of_nat (length pkt) :: u16) mod 8 \<noteq> 0 then 1 else 0)) * 8 = int (length (pad8 pkt))"
    unfolding u length_pad8 using m by (simp add: zdiv_int)
  then have "WF_RND8 (of_nat (length pkt)) = of_nat (length (pad8 pkt))" by (simp add: WF_RND8_def)
  moreover have "length (pad8 pkt) < 65536" using div_le_mono [OF assms, of 8] by (simp add: length_pad8)
  ultimately show ?thesis by (simp add: unsigned_of_nat take_bit_nat_eq_self_iff)
qed

lemma work_step:
  assumes "mpdu_ok richv300 pkt" "length (pad8 pkt @ rest) < 65536" "length pkt \<le> L" "L < 65536"
  shows "rx_work_loop richv300 mpdu (pre @ pad8 pkt @ rest) (length pre) (int L) n =
    Option.bind (mpdu pkt n) (\<lambda>n'. if length (pad8 pkt) < L
      then rx_work_loop richv300 mpdu (pre @ pad8 pkt @ rest) (length pre + length (pad8 pkt)) (int L - int (length (pad8 pkt))) n' else Some n')"
proof -
  let ?w = "of_nat (length pkt) :: u16"
  have len: "length pkt < 65536" using assms(2) by (simp add: pad8_def)
  have le: "?w \<le> word_of_int (int L)"
    using assms(3,4) len by (simp add: word_le_nat_alt unat_of_nat_u16)
  have ok: "24 \<le> length pkt" "wf_rx_get_pkt_len_and_check_valid richv300 pkt ?w = Some (?w, True, Some True)"
    using assms(1) by (simp_all add: mpdu_ok_def)
  obtain tl where tl: "pad8 pkt @ rest = pkt @ tl" by (simp add: pad8_def)
  have chk: "wf_rx_get_pkt_len_and_check_valid richv300 (drop (length pre) (pre @ pad8 pkt @ rest)) (word_of_int (int L)) = Some (?w, True, Some True)"
    using check_valid_prefix [OF ok le, of tl] by (simp add: tl)
  have unat: "unat ?w = length pkt" using len by (simp add: unsigned_of_nat take_bit_nat_eq_self_iff)
  have rd: "rdn (pre @ pad8 pkt @ rest) (length pre) (unat ?w) = Some pkt" unfolding unat tl by (rule rdn_append_mid)
  have rnd: "unat (WF_RND8 ?w) = length (pad8 pkt)" by (rule WF_RND8_pad8 [OF mpdu_ok_length [OF assms(1) len]])
  then have rndi: "uint (WF_RND8 ?w) = int (length (pad8 pkt))" by (simp add: uint_nat)
  show ?thesis
    by (subst rx_work_loop.simps) (simp only: chk rd rnd rndi bind.bind_lunit prod.case Let_def not_True_eq_False if_False of_nat_less_iff diff_gt_0_iff_gt)
qed

lemma aggregate_simps [simp]: "aggregate [] = []" "aggregate (pkt # pkts) = pad8 pkt @ aggregate pkts"
  by (simp_all add: aggregate_def)

lemma aggregate_nonempty: "pkts \<noteq> [] \<Longrightarrow> \<forall>pkt\<in>set pkts. mpdu_ok richv300 pkt \<Longrightarrow> aggregate pkts \<noteq> []"
  by (cases pkts) (auto simp: pad8_def mpdu_ok_def)

lemma work_loop_aggregate:
  assumes "pkts \<noteq> []" "\<forall>pkt\<in>set pkts. mpdu_ok richv300 pkt" "length (aggregate pkts @ t) < 65536"
  shows "rx_work_loop richv300 mpdu (pre @ aggregate pkts @ t) (length pre) (int (length (aggregate pkts @ t))) n =
    Option.bind (mpdu_all mpdu pkts n) (\<lambda>n'. if t = [] then Some n'
      else rx_work_loop richv300 mpdu (pre @ aggregate pkts @ t) (length (pre @ aggregate pkts)) (int (length t)) n')"
  using assms
proof (induction pkts arbitrary: pre n)
  case (Cons pkt pkts)
  let ?rest = "aggregate pkts @ t" and ?pad = "pad8 pkt"
  have step: "rx_work_loop richv300 mpdu (pre @ ?pad @ ?rest) (length pre) (int (length (?pad @ ?rest))) n =
      Option.bind (mpdu pkt n) (\<lambda>n'. if length ?pad < length (?pad @ ?rest)
        then rx_work_loop richv300 mpdu (pre @ ?pad @ ?rest) (length pre + length ?pad) (int (length (?pad @ ?rest)) - int (length ?pad)) n' else Some n')"
    using Cons.prems by (intro work_step) (auto simp: pad8_def)
  show ?case
  proof (cases "pkts = []")
    case True
    then show ?thesis using step by (cases "t = []") (simp_all add: mpdu_all_Nil)
  next
    case False
    then have "?rest \<noteq> []" using aggregate_nonempty [of pkts richv300] Cons.prems by auto
    moreover have "rx_work_loop richv300 mpdu ((pre @ ?pad) @ ?rest) (length (pre @ ?pad)) (int (length ?rest)) n' =
        Option.bind (mpdu_all mpdu pkts n') (\<lambda>n''. if t = [] then Some n''
          else rx_work_loop richv300 mpdu ((pre @ ?pad) @ ?rest) (length ((pre @ ?pad) @ aggregate pkts)) (int (length t)) n'')" for n'
      using Cons.IH [OF False, of "pre @ ?pad" n'] Cons.prems by simp
    ultimately show ?thesis using step by (simp add: add.assoc cong: if_cong)
  qed
qed simp

section \<open>Properties\<close>

text \<open>(C23) An aggregate is taken apart into exactly the packets it was made of: for any packets that are valid
  on their own, padded and put into one buffer of less than 64 KiB, \<open>rx_work\<close> calls \<open>mpdu_process\<close> once
  for each, in order, with exactly its bytes, and returns 0; when the interface is down or not set up it returns the
  error code and handles nothing.\<close>

theorem rx_work_splits:
  assumes "pkts \<noteq> []" "\<forall>pkt\<in>set pkts. mpdu_ok richv300 pkt" "length (aggregate pkts) < 65536"
  shows "rx_work nic_info richv300 mpdu (aggregate pkts) n =
    (case nic_info of
       Some i \<Rightarrow> if nic_runs i then Option.bind (mpdu_all mpdu pkts n) (\<lambda>n'. Some (n', 0)) else Some (n, WF_RETURN_FAIL)
     | None \<Rightarrow> Some (n, WF_RETURN_FAIL))"
proof -
  have "rx_work_loop richv300 mpdu (aggregate pkts) 0 (int (length (aggregate pkts))) n = Option.bind (mpdu_all mpdu pkts n) Some"
    using work_loop_aggregate [of pkts richv300 "[]" mpdu "[]" n] assms by simp
  then show ?thesis by (cases nic_info) (simp_all add: rx_work_def)
qed

definition mpdu_ex :: bytes where
  "mpdu_ex = [3, 0, 1, 0, 7, 0, 0, 0] @ replicate 55 0"

lemma mpdu_ex_ok: "mpdu_ok False mpdu_ex"
proof -
  have "prxd mpdu_ex drvinfo_size = Some 4" "prxd mpdu_ex pkt_len = Some 7" "prxd mpdu_ex cmd_index = Some 0"
      "prxd mpdu_ex crc32 = Some 0" "prxd mpdu_ex notice = Some 0"
    by (simp_all add: prxd_def rd_le32_def rd8_def mpdu_ex_def le32_of_def nth_Cons')
  then show ?thesis unfolding mpdu_ok_def check_valid_iff by (simp add: mpdu_ex_def)
qed

lemma rx_work_splits_witness:
  "rx_work (Some \<lparr>np_is_up = True, np_rx_info = True, np_mlme_info = True, np_hw_info = True\<rparr>) False (\<lambda>pkt ls. Some (ls @ [length pkt]))
     (aggregate [mpdu_ex, mpdu_ex]) [] = Some ([63, 63], 0)"
  using rx_work_splits [of "[mpdu_ex, mpdu_ex]" False "Some \<lparr>np_is_up = True, np_rx_info = True, np_mlme_info = True, np_hw_info = True\<rparr>"
      "\<lambda>pkt ls. Some (ls @ [length pkt])" "[]"] mpdu_ex_ok
  by (simp add: pad8_def mpdu_ex_def)

text \<open>Bytes behind the last packet are taken for a descriptor without a look at how many there are: up
  to 7 of them make \<open>rx_work\<close> read behind the buffer, after it has handled the packets.\<close>

theorem rx_work_reads_past:
  assumes "pkts \<noteq> []" "\<forall>pkt\<in>set pkts. mpdu_ok False pkt" "length (aggregate pkts @ t) < 65536" "0 < length t" "length t < 8" "nic_runs i"
  shows "rx_work (Some i) False mpdu (aggregate pkts @ t) n = None"
proof -
  have chk: "wf_rx_get_pkt_len_and_check_valid False t r = None" for r
  proof -
    have "prxd t drvinfo_size = None \<or> prxd t pkt_len = None"
      using assms(5) by (cases "prxd t drvinfo_size") (auto simp: prxd_def rd_le32_def rd8_def)
    then show ?thesis by (auto simp: wf_rx_get_pkt_len_and_check_valid_def)
  qed
  have "rx_work_loop False mpdu (aggregate pkts @ t) (length (aggregate pkts)) (int (length t)) n' = None" for n'
    by (subst rx_work_loop.simps) (simp add: chk)
  then have "rx_work_loop False mpdu (aggregate pkts @ t) 0 (int (length (aggregate pkts @ t))) n = Option.bind (mpdu_all mpdu pkts n) (\<lambda>_. None)"
    using work_loop_aggregate [of pkts False t mpdu "[]" n] assms(1-5) by simp
  then show ?thesis using assms(6) by (simp add: rx_work_def)
qed

lemma rx_work_reads_past_witness:
  "rx_work (Some \<lparr>np_is_up = True, np_rx_info = True, np_mlme_info = True, np_hw_info = True\<rparr>) False (\<lambda>pkt n. Some (n :: nat))
     (aggregate [mpdu_ex] @ [0, 0, 0]) 0 = None"
  using rx_work_reads_past [of "[mpdu_ex]" "[0, 0, 0]" "\<lparr>np_is_up = True, np_rx_info = True, np_mlme_info = True, np_hw_info = True\<rparr>" "\<lambda>pkt n. Some n" "0 :: nat"]
    mpdu_ex_ok
  by (simp add: pad8_def mpdu_ex_def)

end
