(* ===== verification/Rx_Reorder.thy ===== *)
theory Rx_Reorder
  imports Wf_Que
begin

text \<open>
  The reorder buffer of a block-ack session (\<open>rx.c\<close>, \<open>struct recv_ba_ctrl_\<close> of \<open>wdn.h\<close>). A
  state holds one \<open>recv_ba_ctrl_st\<close> together with the memory of the nodes it owns: the links of
  its two queues, and the sequence number and the packet of each node. What the code passes to
  \<open>upload_func\<close>, \<open>free_skb\<close>, \<open>wf_kfree\<close> and \<open>wf_os_api_timer_set\<close> is recorded. The whole of
  each handler runs under \<open>pending_get_de_queue_lock\<close>, so a handler is one step. Packets are
  numbers; \<open>None\<close> is NULL. The member \<open>expect_time_start\<close> is set by the code and never read, and
  is left out.

  A result \<open>None\<close> means that the code does not return: \<open>rx_pending_reorder_enqueue\<close> waits in a
  loop for a free node while it holds the lock that everybody who could free one needs.
\<close>

section \<open>State\<close>

record reorder = wf_que_mem +
  ro_seq :: "ptr \<Rightarrow> u16"
  ro_skb :: "ptr \<Rightarrow> nat option"
  pending_q :: ptr
  free_q :: ptr
  ba_enable :: bool
  indicate_seq :: u16
  wend_b :: u16
  wsize_b :: u8
  ampdu_size :: u8
  wait_timeout :: u8
  timer_start :: bool
  drop_pkts :: u64
  ba_uploads :: "nat list"
  ba_free_skbs :: "nat option list"
  ba_kfreed :: "ptr list"
  ba_timer :: "u8 option"

text \<open>\<open>SN_LESS\<close> and \<open>SN_EQUAL\<close> of \<open>tx.h\<close>: comparison of 12-bit sequence numbers.\<close>

definition SN_LESS :: "u16 \<Rightarrow> u16 \<Rightarrow> bool" where
  "SN_LESS a b \<longleftrightarrow> (a - b) AND 0x800 \<noteq> 0"

definition SN_EQUAL :: "u16 \<Rightarrow> u16 \<Rightarrow> bool" where
  "SN_EQUAL a b \<longleftrightarrow> a = b"

abbreviation (input) REORDER_DROP :: int where "REORDER_DROP \<equiv> -1"
abbreviation (input) REORDER_ENQUE :: int where "REORDER_ENQUE \<equiv> 1"

section \<open>The free nodes\<close>

definition rx_free_reorder_empty :: "reorder \<Rightarrow> bool" where
  "rx_free_reorder_empty s = wf_que_is_empty (free_q s) s"

definition rx_free_reorder_dequeue :: "reorder \<Rightarrow> reorder \<times> ptr option" where
  "rx_free_reorder_dequeue s =
     (if rx_free_reorder_empty s then (s, None)
      else let plist = wf_list_next (wf_que_list_head (free_q s)) s
           in (wf_list_delete plist (add_cnt (free_q s) (-1) s), Some plist))"

text \<open>The node goes before the first free node; the count is decremented here too.\<close>

definition rx_free_reorder_enqueue :: "ptr \<Rightarrow> reorder \<Rightarrow> reorder \<times> int" where
  "rx_free_reorder_enqueue node s =
     (let plist = wf_list_next (wf_que_list_head (free_q s)) s
      in (wf_list_insert_tail node plist (add_cnt (free_q s) (-1) s), 0))"

partial_function (option) free_reorder_wait :: "reorder \<Rightarrow> (reorder \<times> ptr) option" where
  "free_reorder_wait s =
     (case rx_free_reorder_dequeue s of
        (s', Some p) \<Rightarrow> Some (s', p)
      | (s', None) \<Rightarrow> free_reorder_wait s')"

section \<open>The pending nodes\<close>

definition rx_do_update_expect_seq :: "u16 \<Rightarrow> reorder \<Rightarrow> reorder" where
  "rx_do_update_expect_seq seq s = s\<lparr>indicate_seq := (seq + 1) AND 0xFFF\<rparr>"

definition rx_pending_reorder_is_empty :: "reorder \<Rightarrow> bool" where
  "rx_pending_reorder_is_empty s = wf_list_is_empty (wf_que_list_head (pending_q s)) s"

definition rx_pending_reorder_enqueue :: "u16 \<Rightarrow> nat option \<Rightarrow> reorder \<Rightarrow> (reorder \<times> int) option" where
  "rx_pending_reorder_enqueue current_seq pskb s =
     (if pskb = None then Some (s, REORDER_DROP)
      else do {
        let phead = wf_que_list_head (pending_q s);
        pos \<leftarrow> wf_list_for_each_prev s phead
                (\<lambda>p. SN_EQUAL (ro_seq s p) current_seq \<or> \<not> SN_LESS current_seq (ro_seq s p)) (prev s phead);
        if pos \<noteq> phead \<and> SN_EQUAL (ro_seq s pos) current_seq
        then Some (s\<lparr>drop_pkts := drop_pkts s + 1\<rparr>, -1)
        else do {
          (s1, new_pkt) \<leftarrow> free_reorder_wait s;
          let s2 = s1\<lparr>ro_seq := (ro_seq s1)(new_pkt := current_seq), ro_skb := (ro_skb s1)(new_pkt := pskb)\<rparr>;
          let s3 = add_cnt phead 1 s2;
          Some (wf_list_insert_head new_pkt pos s3, 0)
        }
      })"

definition rx_pending_reorder_dequeue :: "reorder \<Rightarrow> reorder \<times> ptr option" where
  "rx_pending_reorder_dequeue s =
     (if rx_pending_reorder_is_empty s then (s, None)
      else let plist = wf_list_next (wf_que_list_head (pending_q s)) s
           in (wf_list_delete plist (add_cnt (pending_q s) (-1) s), Some plist))"

definition rx_pending_reorder_getqueue :: "reorder \<Rightarrow> ptr option" where
  "rx_pending_reorder_getqueue s =
     (if rx_pending_reorder_is_empty s then None
      else Some (wf_list_next (wf_que_list_head (pending_q s)) s))"

definition rx_pending_reorder_get_cnt :: "reorder \<Rightarrow> int" where
  "rx_pending_reorder_get_cnt s = sint (cnt s (pending_q s))"

section \<open>Handlers\<close>

definition rx_do_chk_expect_seq :: "u16 \<Rightarrow> reorder \<Rightarrow> reorder \<times> int" where
  "rx_do_chk_expect_seq seq s =
     (let s1 = (if indicate_seq s = 0xFFFF then s\<lparr>indicate_seq := seq\<rparr> else s);
          s2 = s1\<lparr>wend_b := (indicate_seq s1 + ucast (wsize_b s1) - 1) AND 0xFFF\<rparr>
      in if SN_EQUAL seq (indicate_seq s2)
         then (s2\<lparr>indicate_seq := (indicate_seq s2 + 1) AND 0xFFF\<rparr>, REORDER_ENQUE)
         else if SN_LESS seq (indicate_seq s2)
         then (s2\<lparr>drop_pkts := drop_pkts s2 + 1\<rparr>, REORDER_DROP)
         else if SN_LESS (wend_b s2) seq
         then (if uint seq \<ge> uint (wsize_b s2) - 1
               then (s2\<lparr>indicate_seq := seq + 1 - ucast (wsize_b s2)\<rparr>, REORDER_ENQUE)
               else (s2\<lparr>indicate_seq := 0xFFF - (ucast (wsize_b s2) - (seq + 1)) + 1\<rparr>, REORDER_ENQUE))
         else (s2, REORDER_ENQUE))"

partial_function (option) reorder_upload_loop :: "reorder \<Rightarrow> (reorder \<times> int) option" where
  "reorder_upload_loop s =
     (case rx_pending_reorder_getqueue s of
        None \<Rightarrow> Some (s, 0)
      | Some get_reorder \<Rightarrow>
          if \<not> SN_LESS (indicate_seq s) (ro_seq s get_reorder) then
            (case rx_pending_reorder_dequeue s of
               (s1, None) \<Rightarrow> None
             | (s1, Some de_reorder) \<Rightarrow>
                 if de_reorder \<noteq> get_reorder then
                   Option.bind (rx_pending_reorder_enqueue (ro_seq s1 de_reorder) (ro_skb s1 de_reorder) s1)
                     (\<lambda>(s2, _). Some (s2, 0))
                 else
                   (let s2 = (if SN_EQUAL (indicate_seq s1) (ro_seq s1 de_reorder)
                              then s1\<lparr>indicate_seq := (indicate_seq s1 + 1) AND 0xFFF\<rparr> else s1);
                        s3 = (case ro_skb s2 de_reorder of
                                Some skb \<Rightarrow> s2\<lparr>ba_uploads := ba_uploads s2 @ [skb]\<rparr>
                              | None \<Rightarrow> s2)
                    in reorder_upload_loop (fst (rx_free_reorder_enqueue de_reorder s3))))
          else Some (s, rx_pending_reorder_get_cnt s))"

definition rx_reorder_upload :: "reorder \<Rightarrow> (reorder \<times> int) option" where
  "rx_reorder_upload s = reorder_upload_loop s"

text \<open>The common end of the timer handler and of the receive path: the number of packets that
  stay pending is truncated to 8 bits, and the timer is set when it is not 0.\<close>

definition upload_and_arm :: "reorder \<Rightarrow> reorder option" where
  "upload_and_arm s = do {
     (s1, n) \<leftarrow> rx_reorder_upload s;
     let pktCnt_inQueue = (word_of_int n :: u8);
     Some (if pktCnt_inQueue \<noteq> 0 then s1\<lparr>ba_timer := Some (wait_timeout s1)\<rparr> else s1)
   }"

definition rx_reorder_timeout_handle :: "reorder \<Rightarrow> reorder option" where
  "rx_reorder_timeout_handle s =
     (case rx_pending_reorder_getqueue s of
        None \<Rightarrow> Some s
      | Some get_reorder \<Rightarrow> upload_and_arm (s\<lparr>indicate_seq := ro_seq s get_reorder\<rparr>))"

definition reorder_core :: "u16 \<Rightarrow> nat option \<Rightarrow> reorder \<Rightarrow> reorder option" where
  "reorder_core seq pskb s =
     (if pskb = None then Some s
      else do {
        let (s1, ret) = rx_do_chk_expect_seq seq s;
        (s2, ret2) \<leftarrow> (if ret = REORDER_ENQUE then rx_pending_reorder_enqueue seq pskb s1 else Some (s1, ret));
        if ret2 < 0 then Some (s2\<lparr>ba_free_skbs := ba_free_skbs s2 @ [pskb]\<rparr>)
        else upload_and_arm s2
      })"

section \<open>Start, restart and end of a session\<close>

text \<open>The allocation of \<open>BA_REORDER_QUEUE_NUM\<close> nodes: \<open>nodes\<close> are the results of \<open>wf_kzalloc\<close>; the
  loop ends at the first NULL.\<close>

fun ba_alloc_nodes :: "ptr option list \<Rightarrow> reorder \<Rightarrow> reorder" where
  "ba_alloc_nodes [] s = s"
| "ba_alloc_nodes (None # ns) s = s"
| "ba_alloc_nodes (Some p # ns) s =
     ba_alloc_nodes ns (wf_enque_tail p (free_q s) (s\<lparr>ro_seq := (ro_seq s)(p := 0), ro_skb := (ro_skb s)(p := None)\<rparr>))"

definition ba_ctl_init :: "ptr option list \<Rightarrow> reorder \<Rightarrow> reorder" where
  "ba_ctl_init nodes s =
     (let s1 = s\<lparr>ba_enable := False, indicate_seq := 0xffff, wend_b := 0xffff, wsize_b := 64, ampdu_size := 0xff,
                 timer_start := False, drop_pkts := 0\<rparr>
      in ba_alloc_nodes (take 64 nodes) (wf_que_init (free_q s1) (wf_que_init (pending_q s1) s1)))"

text \<open>The nodes that are still pending are freed; \<open>free_skb\<close> is called when a node has no packet.\<close>

partial_function (option) ba_drain :: "reorder \<Rightarrow> reorder option" where
  "ba_drain s =
     (case rx_pending_reorder_dequeue s of
        (s1, None) \<Rightarrow> Some s1
      | (s1, Some node) \<Rightarrow>
          (let s2 = (if ro_skb s1 node = None
                     then s1\<lparr>ba_free_skbs := ba_free_skbs s1 @ [None], ro_skb := (ro_skb s1)(node := None)\<rparr> else s1)
           in ba_drain (s2\<lparr>ba_kfreed := ba_kfreed s2 @ [node]\<rparr>)))"

definition ba_reinit :: "reorder \<Rightarrow> reorder option" where
  "ba_reinit s =
     (let s1 = s\<lparr>ba_enable := False, indicate_seq := 0xffff, wend_b := 0xffff\<rparr>
      in if \<not> rx_pending_reorder_is_empty s1 then ba_drain s1 else Some s1)"

text \<open>The walk that frees the free nodes keeps the next node before it frees the current one and
  does not unlink; the links are never used again.\<close>

partial_function (option) ba_free_nodes :: "reorder \<Rightarrow> ptr \<Rightarrow> reorder option" where
  "ba_free_nodes s pos =
     (if pos = wf_que_list_head (free_q s) then Some s
      else ba_free_nodes (s\<lparr>ba_kfreed := ba_kfreed s @ [pos]\<rparr>) (pnext s pos))"

definition ba_ctl_deinit :: "reorder \<Rightarrow> reorder option" where
  "ba_ctl_deinit s = do {
     s1 \<leftarrow> (if \<not> rx_pending_reorder_is_empty s then ba_drain s else Some s);
     if rx_free_reorder_empty s1 then Some s1
     else ba_free_nodes s1 (wf_list_next (wf_que_list_head (free_q s1)) s1)
   }"

section \<open>The control blocks of all traffic ids\<close>

text \<open>\<open>rx_info->ba_ctl\<close> is an array of \<open>TID_NUM\<close> blocks. The functions of the source that take a
  traffic id work on one element of it.\<close>

abbreviation (input) TID_NUM :: nat where "TID_NUM \<equiv> 16"

definition wf_rx_data_reorder_core :: "u8 \<Rightarrow> u16 \<Rightarrow> nat option \<Rightarrow> reorder list \<Rightarrow> reorder list option" where
  "wf_rx_data_reorder_core prio seq pskb bas =
     (if pskb = None then Some bas
      else if \<not> unat prio < length bas then None
      else do { s \<leftarrow> reorder_core seq pskb (bas ! unat prio); Some (bas[unat prio := s]) })"

definition wf_rx_ba_reinit :: "u8 \<Rightarrow> reorder list \<Rightarrow> (reorder list \<times> int) option" where
  "wf_rx_ba_reinit tid bas =
     (if TID_NUM \<le> unat tid then Some (bas, -2)
      else if \<not> unat tid < length bas then None
      else do { s \<leftarrow> ba_reinit (bas ! unat tid); Some (bas[unat tid := s], 0) })"

fun ba_all_reinit_loop :: "u8 list \<Rightarrow> reorder list \<Rightarrow> reorder list option" where
  "ba_all_reinit_loop [] bas = Some bas"
| "ba_all_reinit_loop (tid # tids) bas = do { (bas', _) \<leftarrow> wf_rx_ba_reinit tid bas; ba_all_reinit_loop tids bas' }"

definition wf_rx_ba_all_reinit :: "reorder list \<Rightarrow> reorder list option" where
  "wf_rx_ba_all_reinit bas = ba_all_reinit_loop (map of_nat [0..<TID_NUM]) bas"

definition wf_rx_action_ba_ctl_init :: "ptr option list list \<Rightarrow> reorder list \<Rightarrow> reorder list \<times> int" where
  "wf_rx_action_ba_ctl_init nodess bas = (map2 ba_ctl_init nodess bas, WF_RETURN_OK)"

fun wf_rx_action_ba_ctl_deinit :: "reorder list \<Rightarrow> reorder list option" where
  "wf_rx_action_ba_ctl_deinit [] = Some []"
| "wf_rx_action_ba_ctl_deinit (s # bas) = do {
     s' \<leftarrow> ba_ctl_deinit s;
     bas' \<leftarrow> wf_rx_action_ba_ctl_deinit bas;
     Some (s' # bas')
   }"

section \<open>The nodes of the two queues\<close>

text \<open>\<open>ro_rep s ps fs\<close>: the pending nodes are \<open>ps\<close>, the free nodes \<open>fs\<close>. The count of the free
  queue is not part of it: the code lets it run down.\<close>

definition ro_rep :: "reorder \<Rightarrow> ptr list \<Rightarrow> ptr list \<Rightarrow> bool" where
  "ro_rep s ps fs \<longleftrightarrow> wf_que_rep s (pending_q s) ps \<and> dll s (free_q s) fs \<and>
     insert (pending_q s) (set ps) \<inter> insert (free_q s) (set fs) = {}"

definition node_of :: "reorder \<Rightarrow> ptr \<Rightarrow> u16 \<times> nat option" where
  "node_of s p = (ro_seq s p, ro_skb s p)"

lemma list_more [simp]:
  "lseg (s\<lparr>ro_seq := a\<rparr>) p xs q = lseg s p xs q" "lseg (s\<lparr>ro_skb := b\<rparr>) p xs q = lseg s p xs q"
  "lseg (s\<lparr>indicate_seq := c\<rparr>) p xs q = lseg s p xs q" "lseg (s\<lparr>wend_b := c\<rparr>) p xs q = lseg s p xs q"
  "lseg (s\<lparr>drop_pkts := d\<rparr>) p xs q = lseg s p xs q" "lseg (s\<lparr>ba_uploads := e\<rparr>) p xs q = lseg s p xs q"
  "lseg (s\<lparr>ba_free_skbs := f\<rparr>) p xs q = lseg s p xs q" "lseg (s\<lparr>ba_timer := g\<rparr>) p xs q = lseg s p xs q"
  "lseg (s\<lparr>ba_kfreed := h\<rparr>) p xs q = lseg s p xs q" "lseg (s\<lparr>ba_enable := i\<rparr>) p xs q = lseg s p xs q"
  by (induction xs arbitrary: p) auto

lemma ro_dll_more [simp]:
  "dll (s\<lparr>ro_seq := a\<rparr>) p xs = dll s p xs" "dll (s\<lparr>ro_skb := b\<rparr>) p xs = dll s p xs"
  "dll (s\<lparr>indicate_seq := c\<rparr>) p xs = dll s p xs" "dll (s\<lparr>wend_b := c\<rparr>) p xs = dll s p xs"
  "dll (s\<lparr>drop_pkts := d\<rparr>) p xs = dll s p xs" "dll (s\<lparr>ba_uploads := e\<rparr>) p xs = dll s p xs"
  "dll (s\<lparr>ba_free_skbs := f\<rparr>) p xs = dll s p xs" "dll (s\<lparr>ba_timer := g\<rparr>) p xs = dll s p xs"
  "dll (s\<lparr>ba_kfreed := h\<rparr>) p xs = dll s p xs" "dll (s\<lparr>ba_enable := i\<rparr>) p xs = dll s p xs"
  by (simp_all add: dll_def)

lemma ro_rep_more [simp]:
  "ro_rep (s\<lparr>ro_seq := a\<rparr>) ps fs = ro_rep s ps fs" "ro_rep (s\<lparr>ro_skb := b\<rparr>) ps fs = ro_rep s ps fs"
  "ro_rep (s\<lparr>indicate_seq := c\<rparr>) ps fs = ro_rep s ps fs" "ro_rep (s\<lparr>wend_b := c\<rparr>) ps fs = ro_rep s ps fs"
  "ro_rep (s\<lparr>drop_pkts := d\<rparr>) ps fs = ro_rep s ps fs" "ro_rep (s\<lparr>ba_uploads := e\<rparr>) ps fs = ro_rep s ps fs"
  "ro_rep (s\<lparr>ba_free_skbs := f\<rparr>) ps fs = ro_rep s ps fs" "ro_rep (s\<lparr>ba_timer := g\<rparr>) ps fs = ro_rep s ps fs"
  "ro_rep (s\<lparr>ba_kfreed := h\<rparr>) ps fs = ro_rep s ps fs" "ro_rep (s\<lparr>ba_enable := i\<rparr>) ps fs = ro_rep s ps fs"
  by (simp_all add: ro_rep_def wf_que_rep_def)

text \<open>The list operations change the links and nothing else.\<close>

definition links_only :: "reorder \<Rightarrow> reorder \<Rightarrow> bool" where
  "links_only s s' \<longleftrightarrow> (\<exists>a b c. s' = s\<lparr>pnext := a, prev := b, cnt := c\<rparr>)"

lemma links_only_ops:
  "links_only s (wf_list_delete p (add_cnt q d s))" "links_only s (wf_list_insert_next p r (add_cnt q d s))"
  "links_only s (wf_list_insert_prev p r (add_cnt q d s))"
proof -
  have I: "s' = s\<lparr>pnext := pnext s', prev := prev s', cnt := cnt s'\<rparr> \<Longrightarrow> links_only s s'" for s'
    by (auto simp: links_only_def)
  show "links_only s (wf_list_delete p (add_cnt q d s))" "links_only s (wf_list_insert_next p r (add_cnt q d s))"
    "links_only s (wf_list_insert_prev p r (add_cnt q d s))"
    by (rule I, simp add: wf_list_defs Let_def)+
qed

lemma links_only_sel:
  assumes "links_only s s'"
  shows "ro_seq s' = ro_seq s" "ro_skb s' = ro_skb s" "pending_q s' = pending_q s" "free_q s' = free_q s"
    "indicate_seq s' = indicate_seq s" "wsize_b s' = wsize_b s" "ba_uploads s' = ba_uploads s"
    "ba_free_skbs s' = ba_free_skbs s" "ba_kfreed s' = ba_kfreed s" "node_of s' = node_of s"
    "drop_pkts s' = drop_pkts s" "wait_timeout s' = wait_timeout s"
  using assms by (auto simp: links_only_def node_of_def fun_eq_iff)

lemma cnt_insert_prev [simp]: "cnt (wf_list_insert_prev p r m) = cnt m"
  by (simp add: wf_list_defs Let_def)

lemma ro_repD:
  assumes "ro_rep s ps fs"
  shows "dll s (pending_q s) ps" "dll s (free_q s) fs" "cnt s (pending_q s) = of_nat (length ps)"
    "distinct ps" "distinct fs" "pending_q s \<notin> set ps" "free_q s \<notin> set fs"
    "insert (pending_q s) (set ps) \<inter> insert (free_q s) (set fs) = {}" "pending_q s \<noteq> free_q s"
  using assms by (auto simp: ro_rep_def wf_que_rep_def dll_def)

lemma free_dequeue_rep:
  assumes "ro_rep s ps (f # fs)"
  obtains s' where "rx_free_reorder_dequeue s = (s', Some f)" "ro_rep s' ps fs" "links_only s s'"
proof -
  note r = ro_repD [OF assms]
  let ?s = "wf_list_delete f (add_cnt (free_q s) (-1) s)"
  have l: "links_only s ?s" by (rule links_only_ops)
  have "\<not> rx_free_reorder_empty s"
    using r(2) by (simp add: rx_free_reorder_empty_def wf_que_is_empty_def wf_que_list_head_def dll_is_empty_iff)
  moreover have "wf_list_next (wf_que_list_head (free_q s)) s = f"
    using dll_next [OF r(2)] by (simp add: wf_list_next_def wf_que_list_head_def)
  ultimately have "rx_free_reorder_dequeue s = (?s, Some f)" by (simp add: rx_free_reorder_dequeue_def)
  moreover have "ro_rep ?s ps fs"
  proof -
    have "dll ?s (free_q s) fs" using dll_delete [of "add_cnt (free_q s) (-1) s" "free_q s" "[]" f fs] r(2) by simp
    moreover have "dll ?s (pending_q s) ps"
      using r(1,2,8) by (intro dll_delete_frame [of _ "free_q s" "f # fs"]) auto
    ultimately show ?thesis
      using r links_only_sel [OF l] by (auto simp: ro_rep_def wf_que_rep_def)
  qed
  ultimately show ?thesis using that l by blast
qed

lemma free_empty_waits: "ro_rep s ps [] \<Longrightarrow> free_reorder_wait s = None"
proof -
  assume "ro_rep s ps []"
  then have stuck: "rx_free_reorder_dequeue s = (s, None)"
    using ro_repD(2) [of s ps "[]"]
    by (simp add: rx_free_reorder_dequeue_def rx_free_reorder_empty_def wf_que_is_empty_def wf_que_list_head_def
        dll_is_empty_iff del: dll_empty)
  have "\<not> (rx_free_reorder_dequeue t = (t, None))" if "free_reorder_wait t = Some r" for t r
    by (rule free_reorder_wait.raw_induct [OF _ that, where P = "\<lambda>t _. rx_free_reorder_dequeue t \<noteq> (t, None)"])
      (auto split: prod.splits option.splits)
  with stuck show ?thesis by (cases "free_reorder_wait s") auto
qed

lemma free_wait_rep:
  assumes "ro_rep s ps (f # fs)"
  obtains s' where "free_reorder_wait s = Some (s', f)" "ro_rep s' ps fs" "links_only s s'"
  using assms by (rule free_dequeue_rep) (use that in \<open>subst (asm) free_reorder_wait.simps, auto\<close>)

lemma free_enqueue_rep:
  assumes "ro_rep s ps fs" "p \<notin> insert (pending_q s) (set ps)" "p \<notin> insert (free_q s) (set fs)"
  obtains s' where "rx_free_reorder_enqueue p s = (s', 0)" "ro_rep s' ps (p # fs)" "links_only s s'"
proof -
  note r = ro_repD [OF assms(1)]
  let ?s = "wf_list_insert_prev p (hd (fs @ [free_q s])) (add_cnt (free_q s) (-1) s)"
  have l: "links_only s ?s" by (rule links_only_ops)
  have "wf_list_next (wf_que_list_head (free_q s)) s = hd (fs @ [free_q s])"
    using dll_next [OF r(2)] by (simp add: wf_list_next_def wf_que_list_head_def)
  then have "rx_free_reorder_enqueue p s = (?s, 0)" by (simp add: rx_free_reorder_enqueue_def wf_list_insert_tail_def)
  moreover have "ro_rep ?s ps (p # fs)"
  proof -
    have "dll ?s (free_q s) (p # fs)"
      using dll_insert_prev [of "add_cnt (free_q s) (-1) s" "free_q s" "[]" fs p] r(2) assms(3) by simp
    moreover have "dll ?s (pending_q s) ps"
      using r assms(2) by (intro dll_insert_prev_frame [of _ "free_q s" fs]) (auto simp: hd_append)
    ultimately show ?thesis
      using r links_only_sel [OF l] assms(2,3) by (auto simp: ro_rep_def wf_que_rep_def)
  qed
  ultimately show ?thesis using that l by blast
qed

lemma pending_empty_rep: "ro_rep s ps fs \<Longrightarrow> rx_pending_reorder_is_empty s \<longleftrightarrow> ps = []"
  using ro_repD(1) [of s ps fs] by (simp add: rx_pending_reorder_is_empty_def wf_que_list_head_def dll_is_empty_iff)

lemma pending_getqueue_rep:
  "ro_rep s ps fs \<Longrightarrow> rx_pending_reorder_getqueue s = (case ps of [] \<Rightarrow> None | p # _ \<Rightarrow> Some p)"
  using dll_next [OF ro_repD(1)]
  by (auto simp: rx_pending_reorder_getqueue_def pending_empty_rep wf_list_next_def wf_que_list_head_def split: list.splits)

lemma pending_dequeue_rep:
  assumes "ro_rep s (p # ps) fs"
  obtains s' where "rx_pending_reorder_dequeue s = (s', Some p)" "ro_rep s' ps fs" "links_only s s'"
proof -
  note r = ro_repD [OF assms]
  let ?s = "wf_list_delete p (add_cnt (pending_q s) (-1) s)"
  have l: "links_only s ?s" by (rule links_only_ops)
  have "wf_list_next (wf_que_list_head (pending_q s)) s = p"
    using dll_next [OF r(1)] by (simp add: wf_list_next_def wf_que_list_head_def)
  then have "rx_pending_reorder_dequeue s = (?s, Some p)"
    using pending_empty_rep [OF assms] by (simp add: rx_pending_reorder_dequeue_def)
  moreover have "ro_rep ?s ps fs"
  proof -
    have "dll ?s (pending_q s) ps" using dll_delete [of "add_cnt (pending_q s) (-1) s" "pending_q s" "[]" p ps] r(1) by simp
    moreover have "dll ?s (free_q s) fs"
      using r by (intro dll_delete_frame [of _ "pending_q s" "p # ps"]) auto
    ultimately show ?thesis using r links_only_sel [OF l] by (auto simp: ro_rep_def wf_que_rep_def)
  qed
  ultimately show ?thesis using that l by blast
qed

lemma pending_dequeue_empty: "ro_rep s [] fs \<Longrightarrow> rx_pending_reorder_dequeue s = (s, None)"
  using pending_empty_rep [of s "[]" fs] by (simp add: rx_pending_reorder_dequeue_def)

text \<open>The scan for the place of a new packet ends at the last node that is not ahead of it.\<close>

lemma pending_scan:
  assumes r: "ro_rep s (us @ vs) fs" and vs: "\<forall>v\<in>set vs. SN_LESS cur (ro_seq s v)"
    and us: "us \<noteq> [] \<Longrightarrow> \<not> SN_LESS cur (ro_seq s (last us))"
  shows "wf_list_for_each_prev s (pending_q s)
      (\<lambda>p. SN_EQUAL (ro_seq s p) cur \<or> \<not> SN_LESS cur (ro_seq s p)) (prev s (pending_q s)) =
    Some (last (pending_q s # us))"
proof -
  let ?P = "\<lambda>p. SN_EQUAL (ro_seq s p) cur \<or> \<not> SN_LESS cur (ro_seq s p)"
  have self: "\<not> SN_LESS a a" for a by (simp add: SN_LESS_def)
  have "List.find ?P (rev vs) = None" using vs self by (auto simp: find_None_all SN_EQUAL_def)
  moreover have "List.find ?P (rev us) = (if us = [] then None else Some (last us))"
    using us by (cases us rule: rev_cases) auto
  ultimately have "List.find ?P (rev (us @ vs)) = (if us = [] then None else Some (last us))"
    by (simp add: find_append)
  then show ?thesis using wf_list_for_each_prev_dll [OF ro_repD(1) [OF r], of ?P] by simp
qed

lemma pending_enqueue_rep:
  assumes r: "ro_rep s (us @ vs) (f # fs)" and vs: "\<forall>v\<in>set vs. SN_LESS cur (ro_seq s v)"
    and us: "us \<noteq> [] \<Longrightarrow> \<not> SN_LESS cur (ro_seq s (last us)) \<and> ro_seq s (last us) \<noteq> cur"
  obtains s' where "rx_pending_reorder_enqueue cur (Some skb) s = Some (s', 0)" "ro_rep s' (us @ f # vs) fs"
    "links_only (s\<lparr>ro_seq := (ro_seq s)(f := cur), ro_skb := (ro_skb s)(f := Some skb)\<rparr>) s'"
proof -
  let ?h = "pending_q s" and ?pos = "last (pending_q s # us)"
  have scan: "wf_list_for_each_prev s ?h
      (\<lambda>p. SN_EQUAL (ro_seq s p) cur \<or> \<not> SN_LESS cur (ro_seq s p)) (prev s ?h) = Some ?pos"
    using pending_scan [OF r vs] us by blast
  have nodup: "\<not> (?pos \<noteq> ?h \<and> SN_EQUAL (ro_seq s ?pos) cur)"
    using us by (auto simp: SN_EQUAL_def)
  obtain s1 where s1: "free_reorder_wait s = Some (s1, f)" "ro_rep s1 (us @ vs) fs" "links_only s s1"
    using r by (rule free_wait_rep)
  note sel = links_only_sel [OF s1(3)]
  let ?s2 = "s1\<lparr>ro_seq := (ro_seq s1)(f := cur), ro_skb := (ro_skb s1)(f := Some skb)\<rparr>"
  let ?s3 = "add_cnt ?h 1 ?s2"
  let ?s4 = "wf_list_insert_next f ?pos ?s3"
  have f: "f \<notin> insert ?h (set (us @ vs))" "f \<notin> insert (free_q s) (set fs)"
    using ro_repD [OF r] by auto
  have d2: "dll ?s3 ?h (us @ vs)" "dll ?s3 (free_q s) fs" "cnt s1 ?h = of_nat (length (us @ vs))"
      "insert ?h (set (us @ vs)) \<inter> insert (free_q s) (set fs) = {}" "?h \<noteq> free_q s"
    using ro_repD [OF s1(2)] by (simp_all only: sel(3,4) ro_dll_more dll_cnt not_False_eq_True)
  have l: "links_only ?s2 ?s4" by (rule links_only_ops)
  have "dll ?s4 ?h (us @ f # vs)" using d2(1) f(1) by (intro dll_insert_next) auto
  moreover have "dll ?s4 (free_q s) fs"
  proof (rule dll_insert_next_frame [OF d2(1) _ d2(2,4) f(2)])
    show "?pos \<in> insert ?h (set (us @ vs))" using last_in_set [of "?h # us"] by auto
  qed
  moreover have "cnt ?s4 ?h = of_nat (length (us @ f # vs))" using d2(3) by simp
  ultimately have "ro_rep ?s4 (us @ f # vs) fs"
    using f d2(4,5) links_only_sel(3,4) [OF l] sel(3,4) by (auto simp: ro_rep_def wf_que_rep_def)
  moreover have "rx_pending_reorder_enqueue cur (Some skb) s = Some (?s4, 0)"
    unfolding rx_pending_reorder_enqueue_def wf_que_list_head_def Let_def scan bind.bind_lunit s1(1) prod.case
    using nodup by (simp add: wf_list_insert_head_def)
  moreover have "links_only (s\<lparr>ro_seq := (ro_seq s)(f := cur), ro_skb := (ro_skb s)(f := Some skb)\<rparr>) ?s4"
  proof -
    obtain a b c where 1: "s1 = s\<lparr>pnext := a, prev := b, cnt := c\<rparr>" using s1(3) by (auto simp: links_only_def)
    obtain a' b' c' where "?s4 = ?s2\<lparr>pnext := a', prev := b', cnt := c'\<rparr>" using l by (auto simp: links_only_def)
    then have "?s4 = s\<lparr>ro_seq := (ro_seq s)(f := cur), ro_skb := (ro_skb s)(f := Some skb), pnext := a', prev := b', cnt := c'\<rparr>"
      by (simp add: 1)
    then show ?thesis unfolding links_only_def by blast
  qed
  ultimately show ?thesis using that by blast
qed

lemma pending_enqueue_dup:
  assumes r: "ro_rep s (us @ vs) fs" and vs: "\<forall>v\<in>set vs. SN_LESS cur (ro_seq s v)"
    and us: "us \<noteq> []" "ro_seq s (last us) = cur"
  shows "rx_pending_reorder_enqueue cur (Some skb) s = Some (s\<lparr>drop_pkts := drop_pkts s + 1\<rparr>, -1)"
proof -
  have self: "\<not> SN_LESS a a" for a by (simp add: SN_LESS_def)
  have "wf_list_for_each_prev s (pending_q s)
      (\<lambda>p. SN_EQUAL (ro_seq s p) cur \<or> \<not> SN_LESS cur (ro_seq s p)) (prev s (pending_q s)) = Some (last (pending_q s # us))"
    using pending_scan [OF r vs] us self by auto
  moreover have "last us \<noteq> pending_q s" using us(1) ro_repD(6) [OF r] by (metis UnI1 last_in_set set_append)
  ultimately show ?thesis
    using us by (simp add: rx_pending_reorder_enqueue_def wf_que_list_head_def Let_def SN_EQUAL_def)
qed

end
