(* ===== verification/Rx_Order.thy ===== *)
theory Rx_Order
  imports Rx_Reorder
begin

text \<open>
  What the reorder buffer promises: packets are delivered in the order of their sequence
  numbers. The specification counts without bound: a packet whose 12-bit number is \<open>d\<close> ahead of
  the expected one, \<open>d < 2048\<close>, has the number \<open>n + d\<close>. The code of \<open>rx.c\<close> with its modular
  comparisons, its window of 64 numbers and its pool of 64 nodes refines it.
\<close>

section \<open>Sequence numbers\<close>

definition sn :: "nat \<Rightarrow> u16" where
  "sn k = of_nat (k mod 4096)"

lemma unat_sn: "unat (sn k) = k mod 4096"
  unfolding sn_def by (rule unat_of_nat_u16) (simp add: less_trans [OF mod_less_divisor])

lemma sn_eq_iff: "sn a = sn b \<longleftrightarrow> a mod 4096 = b mod 4096"
  by (metis unat_sn word_unat_eq_iff)

lemma sn_unat: "unat w < 4096 \<Longrightarrow> sn (unat w) = w"
  by (simp add: word_unat_eq_iff unat_sn)

lemma sn_near: "a \<le> b \<Longrightarrow> b < a + 4096 \<Longrightarrow> sn a = sn b \<longleftrightarrow> a = b"
proof
  assume le: "a \<le> b" "b < a + 4096" and "sn a = sn b"
  then have "4096 dvd b - a" by (simp add: sn_eq_iff mod_eq_dvd_iff_nat [of a b, symmetric] eq_commute)
  then show "a = b" using le nat_dvd_not_less [of "b - a" 4096] by fastforce
qed simp

lemma sn_Suc: "(sn k + 1) AND 0xFFF = sn (k + 1)"
proof -
  have "(sn k + 1) AND 0xFFF = take_bit 12 (sn k + 1)"
    by (simp add: take_bit_eq_mask mask_eq_exp_minus_1)
  moreover have "unat (take_bit 12 (sn k + 1)) = (k mod 4096 + 1) mod 4096"
  proof -
    have "unat (sn k + 1) = k mod 4096 + 1"
      using unat_add_lem [of "sn k" 1] by (simp add: unat_sn less_le_trans [OF mod_less_divisor])
    then show ?thesis by (simp add: unsigned_take_bit_eq take_bit_nat_def)
  qed
  ultimately show ?thesis by (simp add: word_unat_eq_iff unat_sn mod_Suc_eq)
qed

lemma bit_11_iff: "odd (y div 2048) \<longleftrightarrow> 2048 \<le> y mod 4096" for y :: int
proof -
  have "y div 2048 = 2 * (y div 4096) + y mod 4096 div 2048"
  proof -
    have "y = y mod 4096 + (2 * (y div 4096)) * 2048" by simp
    then have "y div 2048 = (y mod 4096 + (2 * (y div 4096)) * 2048) div 2048" by simp
    then show ?thesis by (simp only: div_mult_self1)
  qed
  moreover have "y mod 4096 div 2048 = (if 2048 \<le> y mod 4096 then 1 else 0)"
    using div_pos_geq [of 2048 "y mod 4096"] div_pos_pos_trivial [of "y mod 4096 - 2048" 2048] pos_mod_bound [of 4096 y]
    by simp
  ultimately show ?thesis by simp
qed

lemma SN_LESS_uint: "SN_LESS a b \<longleftrightarrow> 2048 \<le> (uint a - uint b) mod 4096"
proof -
  have "SN_LESS a b \<longleftrightarrow> bit (a - b) 11"
    using and_exp_eq_0_iff_not_bit [of "a - b" 11] by (simp add: SN_LESS_def)
  also have "\<dots> \<longleftrightarrow> bit (uint (a - b)) 11" by (simp add: bit_uint_iff)
  also have "\<dots> \<longleftrightarrow> odd (((uint a - uint b) mod 65536) div 2048)"
    by (simp add: bit_iff_odd uint_word_ariths)
  also have "\<dots> \<longleftrightarrow> 2048 \<le> ((uint a - uint b) mod 65536) mod 4096"
    by (rule bit_11_iff)
  also have "((uint a - uint b) mod 65536) mod 4096 = (uint a - uint b) mod 4096"
    by (simp add: mod_mod_cancel)
  finally show ?thesis .
qed

lemma SN_LESS_sn:
  "a < b \<Longrightarrow> b \<le> a + 2048 \<Longrightarrow> SN_LESS (sn a) (sn b)"
  "b \<le> a \<Longrightarrow> a < b + 2048 \<Longrightarrow> \<not> SN_LESS (sn a) (sn b)"
proof -
  have u: "uint (sn k) = int k mod 4096" for k
    using arg_cong [OF unat_sn [of k], of int] by (simp add: zmod_int)
  have "(uint (sn a) - uint (sn b)) mod 4096 = (int a - int b) mod 4096" by (simp add: u mod_diff_eq)
  then have l: "SN_LESS (sn a) (sn b) \<longleftrightarrow> 2048 \<le> (int a - int b) mod 4096" by (simp add: SN_LESS_uint)
  show "SN_LESS (sn a) (sn b)" if "a < b" "b \<le> a + 2048"
  proof -
    have "(int a - int b) mod 4096 = int a - int b + 4096"
      using that mod_pos_pos_trivial [of "int a - int b + 4096" 4096] by (simp add: mod_add_self2 [of "int a - int b" 4096, symmetric] del: mod_add_self2)
    then show ?thesis using that l by simp
  qed
  show "\<not> SN_LESS (sn a) (sn b)" if "b \<le> a" "a < b + 2048"
    using that l mod_pos_pos_trivial [of "int a - int b" 4096] by simp
qed

section \<open>The specification\<close>

text \<open>\<open>flush n xs\<close>: the packets delivered from the pending packets \<open>xs\<close> when \<open>n\<close> is expected, the
  next expected number and the packets that stay.\<close>

fun flush :: "nat \<Rightarrow> (nat \<times> nat) list \<Rightarrow> (nat \<times> nat) list \<times> nat \<times> (nat \<times> nat) list" where
  "flush n [] = ([], n, [])"
| "flush n ((k, skb) # xs) =
     (if k \<le> n then
        (let (ds, n', ys) = flush (if k = n then n + 1 else n) xs in ((k, skb) # ds, n', ys))
      else ([], n, (k, skb) # xs))"

lemma flush_split: "flush n xs = (ds, n', ys) \<Longrightarrow> xs = ds @ ys"
  by (induction n xs arbitrary: ds n' ys rule: flush.induct) (auto split: if_splits prod.splits)

lemma flush_next: "flush n xs = (ds, n', ys) \<Longrightarrow> n \<le> n'"
  by (induction n xs arbitrary: ds n' ys rule: flush.induct) (fastforce split: if_splits prod.splits)+

lemma flush_bounds:
  assumes "flush n xs = (ds, n', ys)" "sorted_wrt (<) (map fst xs)"
  shows "(\<forall>d\<in>set ds. fst d < n') \<and> (\<forall>y\<in>set ys. n' < fst y) \<and> (n < n' \<longrightarrow> ds \<noteq> [])"
  using assms
proof (induction n xs arbitrary: ds n' ys rule: flush.induct)
  case (2 n k skb xs)
  show ?case
  proof (cases "k \<le> n")
    case True
    then obtain es where es: "flush (if k = n then n + 1 else n) xs = (es, n', ys)" "ds = (k, skb) # es"
      using 2(2) by (auto split: prod.splits if_splits)
    have "(\<forall>d\<in>set es. fst d < n') \<and> (\<forall>y\<in>set ys. n' < fst y)"
      using 2(1) [OF True es(1)] 2(3) by simp
    moreover have "k < n'" using flush_next [OF es(1)] True by (cases "k = n") auto
    ultimately show ?thesis using es(2) by simp
  next
    case False
    then show ?thesis using 2(2,3) by (fastforce simp: not_le)
  qed
qed auto

section \<open>The relation between code and specification\<close>

text \<open>The pending nodes carry the packets \<open>xs\<close>, in order; no node of the pool is lost.\<close>

definition holds :: "reorder \<Rightarrow> nat \<Rightarrow> (nat \<times> nat) list \<Rightarrow> bool" where
  "holds s n xs \<longleftrightarrow> (\<exists>ps fs. ro_rep s ps fs \<and> map (node_of s) ps = map (\<lambda>(k, skb). (sn k, Some skb)) xs \<and>
     length ps + length fs = 64) \<and> wsize_b s = 64 \<and> indicate_seq s = sn n \<and> sorted_wrt (<) (map fst xs)"

text \<open>The parts of the state that the delivery of packets leaves alone.\<close>

definition same_rest :: "reorder \<Rightarrow> reorder \<Rightarrow> bool" where
  "same_rest s s' \<longleftrightarrow> ba_free_skbs s' = ba_free_skbs s \<and> ba_kfreed s' = ba_kfreed s \<and> wait_timeout s' = wait_timeout s"

lemma upload_loop_step:
  assumes h: "holds s n ((k, skb) # xs)" and near: "k \<le> n" "n < k + 2048"
  obtains s' where "holds s' (if k = n then n + 1 else n) xs" "reorder_upload_loop s = reorder_upload_loop s'"
    "ba_uploads s' = ba_uploads s @ [skb]" "same_rest s s'"
proof -
  obtain p ps fs where r: "ro_rep s (p # ps) fs" "node_of s p = (sn k, Some skb)"
      "map (node_of s) ps = map (\<lambda>(k, skb). (sn k, Some skb)) xs" "length (p # ps) + length fs = 64"
    using h by (auto simp: holds_def map_eq_Cons_conv)
  have ind: "indicate_seq s = sn n" "wsize_b s = 64" "sorted_wrt (<) (map fst xs)" using h by (auto simp: holds_def)
  have node: "ro_seq s p = sn k" "ro_skb s p = Some skb" using r(2) by (simp_all add: node_of_def)
  obtain s1 where s1: "rx_pending_reorder_dequeue s = (s1, Some p)" "ro_rep s1 ps fs" "links_only s s1"
    using r(1) by (rule pending_dequeue_rep)
  note sel = links_only_sel [OF s1(3)]
  let ?s2 = "if SN_EQUAL (indicate_seq s1) (ro_seq s1 p) then s1\<lparr>indicate_seq := (indicate_seq s1 + 1) AND 0xFFF\<rparr> else s1"
  let ?s3 = "?s2\<lparr>ba_uploads := ba_uploads ?s2 @ [skb]\<rparr>"
  have eq: "SN_EQUAL (sn n) (ro_seq s p) \<longleftrightarrow> k = n"
    using near sn_near [of k n] by (auto simp: SN_EQUAL_def node)
  have s3: "ro_rep ?s3 ps fs" "node_of ?s3 = node_of s" "indicate_seq ?s3 = sn (if k = n then n + 1 else n)"
      "wsize_b ?s3 = 64" "ba_uploads ?s3 = ba_uploads s @ [skb]" "same_rest s ?s3"
    using s1(2) by (simp_all add: eq sel ind sn_Suc node_of_def fun_eq_iff same_rest_def)
  have p: "p \<notin> insert (pending_q ?s3) (set ps)" "p \<notin> insert (free_q ?s3) (set fs)"
    using ro_repD [OF r(1)] sel(3,4) by auto
  obtain s4 where s4: "rx_free_reorder_enqueue p ?s3 = (s4, 0)" "ro_rep s4 ps (p # fs)" "links_only ?s3 s4"
    using s3(1) p by (rule free_enqueue_rep)
  note sel4 = links_only_sel [OF s4(3)]
  have "rx_pending_reorder_getqueue s = Some p" using pending_getqueue_rep [OF r(1)] by simp
  moreover have "\<not> SN_LESS (indicate_seq s) (ro_seq s p)" using SN_LESS_sn(2) [OF near] by (simp add: ind node)
  ultimately have "reorder_upload_loop s = reorder_upload_loop s4"
    using s4(1) by (subst reorder_upload_loop.simps, cases "SN_EQUAL (indicate_seq s) (sn k)")
      (simp_all add: s1(1) Let_def sel node)
  moreover have "holds s4 (if k = n then n + 1 else n) xs"
    unfolding holds_def
    using s4(2) r(3,4) ind(3) s3(2,3,4) sel4 by (intro conjI exI [of _ ps] exI [of _ "p # fs"]) simp_all
  moreover have "ba_uploads s4 = ba_uploads s @ [skb]" "same_rest s s4"
    using s3(5,6) sel4 by (simp_all add: same_rest_def)
  ultimately show ?thesis using that by blast
qed

lemma upload_loop_flush:
  assumes "holds s n xs" "\<forall>x\<in>set xs. n < fst x + 2048 \<and> fst x \<le> n + 63" "flush n xs = (ds, n', ys)"
  shows "\<exists>s'. reorder_upload_loop s = Some (s', int (length ys)) \<and> holds s' n' ys \<and>
    ba_uploads s' = ba_uploads s @ map snd ds \<and> same_rest s s'"
  using assms
proof (induction n xs arbitrary: s ds n' ys rule: flush.induct)
  case (1 n)
  then obtain fs where "ro_rep s [] fs" by (auto simp: holds_def)
  then show ?case using 1 pending_getqueue_rep [of s "[]" fs]
    by (subst reorder_upload_loop.simps) (auto simp: same_rest_def)
next
  case (2 n k skb xs)
  show ?case
  proof (cases "k \<le> n")
    case True
    let ?n = "if k = n then n + 1 else n"
    obtain es where es: "flush ?n xs = (es, n', ys)" "ds = (k, skb) # es"
      using True 2(4) by (auto split: prod.splits)
    have near: "n < k + 2048" using 2(3) by auto
    obtain s1 where s1: "holds s1 ?n xs" "reorder_upload_loop s = reorder_upload_loop s1"
        "ba_uploads s1 = ba_uploads s @ [skb]" "same_rest s s1"
      using 2(2) True near by (rule upload_loop_step)
    have "\<forall>x\<in>set xs. ?n < fst x + 2048 \<and> fst x \<le> ?n + 63"
      using 2(2,3) by (fastforce simp: holds_def)
    from 2(1) [OF True s1(1) this es(1)] s1 es(2) show ?thesis by (auto simp: same_rest_def)
  next
    case False
    then have r: "ds = []" "n' = n" "ys = (k, skb) # xs" using 2(4) by auto
    obtain p ps fs where h: "ro_rep s (p # ps) fs" "ro_seq s p = sn k" "length ps = length xs" "length ps < 64"
      using 2(2) by (auto simp: holds_def map_eq_Cons_conv node_of_def dest: map_eq_imp_length_eq)
    have "SN_LESS (indicate_seq s) (ro_seq s p)"
      using SN_LESS_sn(1) [of n k] 2(2,3) False h(2) by (simp add: holds_def)
    moreover have "rx_pending_reorder_get_cnt s = int (length ys)"
      using ro_repD(3) [OF h(1)] h(3,4) r(3) sint_of_nat_u32 [of "Suc (length xs)"]
      by (simp add: rx_pending_reorder_get_cnt_def)
    ultimately have "reorder_upload_loop s = Some (s, int (length ys))"
      using pending_getqueue_rep [OF h(1)] by (subst reorder_upload_loop.simps) simp
    then show ?thesis using r 2(2) by (simp add: same_rest_def)
  qed
qed

section \<open>The window\<close>

definition dist :: "nat \<Rightarrow> u16 \<Rightarrow> nat" where
  "dist n seq = (unat seq + 4096 - n mod 4096) mod 4096"

lemma dist_less: "dist n seq < 4096"
  by (simp add: dist_def)

lemma sn_dist:
  assumes "unat seq < 4096"
  shows "seq = sn (n + dist n seq)"
proof -
  have "n mod 4096 < 4096" by simp
  then have "(n mod 4096 + (unat seq + 4096 - n mod 4096)) mod 4096 = unat seq"
    using assms by simp
  moreover have "(n + dist n seq) mod 4096 = (n mod 4096 + (unat seq + 4096 - n mod 4096)) mod 4096"
    unfolding dist_def by (simp only: mod_add_eq mod_add_left_eq mod_add_right_eq)
  ultimately show ?thesis by (simp add: word_unat_eq_iff unat_sn)
qed

lemma SN_LESS_dist: "d < 4096 \<Longrightarrow> SN_LESS (sn (n + d)) (sn n) \<longleftrightarrow> 2048 \<le> d"
proof -
  assume d: "d < 4096"
  have u: "uint (sn k) = int k mod 4096" for k
    using arg_cong [OF unat_sn [of k], of int] by (simp add: zmod_int)
  have "(uint (sn (n + d)) - uint (sn n)) mod 4096 = (int (n + d) - int n) mod 4096"
    unfolding u by (rule mod_diff_eq)
  also have "\<dots> = int d" using d by simp
  finally show ?thesis by (simp add: SN_LESS_uint)
qed

lemma sn_add: "j < 32768 \<Longrightarrow> (sn k + of_nat j) AND 0xFFF = sn (k + j)"
proof -
  assume j: "j < 32768"
  have k: "k mod 4096 < 4096" by simp
  have uj: "unat (of_nat j :: u16) = j" using j by (intro unat_of_nat_u16) simp
  have "unat (sn k + of_nat j) = k mod 4096 + j"
  proof -
    have "k mod 4096 + j < 65536" using j k by linarith
    then show ?thesis using unat_add_lem [of "sn k" "of_nat j"] by (simp only: uj unat_sn) simp
  qed
  then have "unat (take_bit 12 (sn k + of_nat j)) = (k + j) mod 4096"
    by (simp add: unsigned_take_bit_eq take_bit_nat_def mod_add_left_eq)
  moreover have "(sn k + of_nat j) AND 0xFFF = take_bit 12 (sn k + of_nat j)"
    by (simp add: take_bit_eq_mask mask_eq_exp_minus_1)
  ultimately show ?thesis by (simp only: word_unat_eq_iff unat_sn)
qed

lemma sn_window_start:
  assumes "63 \<le> k"
  shows "(if 63 \<le> uint (sn k) then sn k + 1 - 64 else 0xFFF - (64 - (sn k + 1)) + 1) = sn (k - 63)"
proof -
  let ?r = "k mod 4096"
  have r: "?r < 4096" "uint (sn k) = int ?r"
    using arg_cong [OF unat_sn [of k], of int] by simp_all
  have k: "k = 4096 * (k div 4096) + ?r" by simp
  show ?thesis
  proof (cases "63 \<le> ?r")
    case True
    then have "k - 63 = 4096 * (k div 4096) + (?r - 63)" using k by linarith
    then have "(k - 63) mod 4096 = ?r - 63" using r(1) by (simp add: mod_mult_self4 less_imp_diff_less)
    then have "sn (k - 63) = of_nat (?r - 63)" by (simp add: sn_def)
    also have "\<dots> = sn k + 1 - 64" using True by (simp add: sn_def of_nat_diff)
    finally show ?thesis using True r(2) by simp
  next
    case False
    then have "k div 4096 \<noteq> 0" using assms k by (metis add_0 mult_0_right not_le)
    then obtain q where q: "k div 4096 = Suc q" using not0_implies_Suc by blast
    then have "k - 63 = 4096 * q + (4096 + ?r - 63)" using k by (simp add: algebra_simps)
    then have "(k - 63) mod 4096 = 4096 + ?r - 63" using False by (simp add: mod_mult_self4)
    then have "sn (k - 63) = of_nat (4096 + ?r - 63)" by (simp add: sn_def)
    also have "\<dots> = 0xFFF - (64 - (sn k + 1)) + 1" by (simp add: sn_def of_nat_diff)
    finally show ?thesis using False r(2) by simp
  qed
qed

text \<open>The number expected after a packet \<open>d\<close> ahead of the expected one has been accepted.\<close>

definition new_next :: "nat \<Rightarrow> nat \<Rightarrow> nat" where
  "new_next n d = (if d = 0 then n + 1 else if 63 < d then n + d - 63 else n)"

lemma chk_expect_seq_result:
  assumes "indicate_seq s = sn n" "wsize_b s = 64" "d < 4096"
  shows "rx_do_chk_expect_seq (sn (n + d)) s =
    (if d < 2048 then (s\<lparr>wend_b := sn (n + 63), indicate_seq := sn (new_next n d)\<rparr>, REORDER_ENQUE)
     else (s\<lparr>wend_b := sn (n + 63), drop_pkts := drop_pkts s + 1\<rparr>, REORDER_DROP))"
proof -
  have "unat (sn n) < 4096" by (simp add: unat_sn)
  then have nf: "sn n \<noteq> 0xFFFF" by (auto simp: word_unat_eq_iff)
  have we: "(sn n + ucast (64 :: u8) - 1) AND 0xFFF = sn (n + 63)"
  proof -
    have "sn n + ucast (64 :: u8) - 1 = sn n + of_nat 63" by simp
    moreover have "(sn n + of_nat 63) AND 0xFFF = sn (n + 63)" by (rule sn_add) simp
    ultimately show ?thesis by (simp only:)
  qed
  have eq: "sn (n + d) = sn n \<longleftrightarrow> d = 0" using sn_near [of n "n + d"] assms(3) by auto
  note defs = rx_do_chk_expect_seq_def Let_def SN_EQUAL_def assms(1,2) nf we we [simplified] eq SN_LESS_dist [OF assms(3)]
  consider "d = 0" | "2048 \<le> d" | "1 \<le> d \<and> d \<le> 63" | "63 < d \<and> d < 2048" by linarith
  then show ?thesis
  proof cases
    case 1
    then show ?thesis using sn_Suc [of n] by (simp add: defs new_next_def)
  next
    case 2
    then show ?thesis by (simp add: defs)
  next
    case 3
    then have "\<not> SN_LESS (sn (n + 63)) (sn (n + d))" by (intro SN_LESS_sn(2)) auto
    moreover have "s\<lparr>indicate_seq := sn n\<rparr> = s" by (simp add: assms(1) [symmetric])
    ultimately show ?thesis using 3 by (simp add: defs new_next_def)
  next
    case 4
    then have "SN_LESS (sn (n + 63)) (sn (n + d))" by (intro SN_LESS_sn(1)) auto
    then show ?thesis
      using 4 sn_window_start [of "n + d"] by (cases "63 \<le> uint (sn (n + d))") (simp_all add: defs new_next_def)
  qed
qed

section \<open>Refinement\<close>

text \<open>An arriving packet in the specification: it is dropped when its number is behind the
  expected one or already pending; otherwise it is put in its place, the window is moved, and
  what is due is delivered.\<close>

definition put :: "nat \<Rightarrow> nat \<Rightarrow> (nat \<times> nat) list \<Rightarrow> (nat \<times> nat) list" where
  "put k skb xs = takeWhile (\<lambda>x. fst x < k) xs @ (k, skb) # dropWhile (\<lambda>x. fst x < k) xs"

definition spec_arrive :: "nat \<Rightarrow> nat \<Rightarrow> nat \<Rightarrow> (nat \<times> nat) list \<Rightarrow> (nat \<times> nat) list \<times> nat \<times> (nat \<times> nat) list" where
  "spec_arrive d skb n xs =
     (if d < 2048 \<and> n + d \<notin> fst ` set xs then flush (new_next n d) (put (n + d) skb xs) else ([], n, xs))"

definition spec_timeout :: "nat \<Rightarrow> (nat \<times> nat) list \<Rightarrow> (nat \<times> nat) list \<times> nat \<times> (nat \<times> nat) list" where
  "spec_timeout n xs = (case xs of [] \<Rightarrow> ([], n, []) | x # _ \<Rightarrow> flush (fst x) xs)"

definition window :: "nat \<Rightarrow> (nat \<times> nat) list \<Rightarrow> bool" where
  "window n xs \<longleftrightarrow> sorted_wrt (<) (map fst xs) \<and> (\<forall>x\<in>set xs. n < fst x \<and> fst x \<le> n + 63)"

lemma set_put: "set (put k skb xs) = insert (k, skb) (set xs)"
proof -
  have "set (takeWhile (\<lambda>x. fst x < k) xs) \<union> set (dropWhile (\<lambda>x. fst x < k) xs) = set xs"
    by (metis set_append takeWhile_dropWhile_id)
  then show ?thesis by (auto simp: put_def)
qed

lemma sorted_put:
  "sorted_wrt (<) (map fst xs) \<Longrightarrow> k \<notin> fst ` set xs \<Longrightarrow> sorted_wrt (<) (map fst (put k skb xs))"
proof (induction xs)
  case (Cons x xs)
  show ?case
  proof (cases "fst x < k")
    case True
    have "sorted_wrt (<) (map fst (put k skb xs))" using Cons by simp
    moreover have "put k skb (x # xs) = x # put k skb xs" using True by (simp add: put_def)
    moreover have "\<forall>y\<in>set (put k skb xs). fst x < fst y" using Cons.prems(1) True by (simp add: set_put)
    ultimately show ?thesis by simp
  next
    case False
    then have "k < fst x" using Cons.prems(2) by (auto simp: not_less le_less)
    with False Cons.prems(1) show ?thesis by (auto simp: put_def intro: less_trans)
  qed
qed (simp add: put_def)

lemma window_length: "window n xs \<Longrightarrow> length xs \<le> 63"
proof -
  assume w: "window n xs"
  then have "distinct (map fst xs)" by (auto simp: window_def strict_sorted_iff)
  then have "length xs = card (fst ` set xs)" by (metis distinct_card length_map set_map)
  also have "\<dots> \<le> card {n<..n + 63}" using w by (intro card_mono) (auto simp: window_def)
  finally show ?thesis by simp
qed

lemma window_flush:
  assumes "flush n xs = (ds, n', ys)" "sorted_wrt (<) (map fst xs)" "\<forall>x\<in>set xs. fst x \<le> n + 63"
  shows "window n' ys"
proof -
  have "xs = ds @ ys" using assms(1) by (rule flush_split)
  then have "sorted_wrt (<) (map fst ys)" "\<forall>x\<in>set ys. fst x \<le> n + 63"
    using assms(2,3) by (simp_all add: sorted_wrt_append)
  moreover have "n + 63 \<le> n' + 63" using flush_next [OF assms(1)] by simp
  ultimately have "sorted_wrt (<) (map fst ys)" "\<forall>x\<in>set ys. fst x \<le> n' + 63" using le_trans by blast+
  then show ?thesis using flush_bounds [OF assms(1,2)] by (auto simp: window_def)
qed

lemma put_split:
  assumes "sorted_wrt (<) (map fst xs)" "k \<notin> fst ` set xs"
  obtains us vs where "xs = us @ vs" "put k skb xs = us @ (k, skb) # vs" "\<forall>u\<in>set us. fst u < k" "\<forall>v\<in>set vs. k < fst v"
proof -
  let ?us = "takeWhile (\<lambda>x. fst x < k) xs" and ?vs = "dropWhile (\<lambda>x. fst x < k) xs"
  have "sorted_wrt (<) (map fst (?us @ (k, skb) # ?vs))" using sorted_put [OF assms, of skb] by (simp add: put_def)
  then have "\<forall>v\<in>set ?vs. k < fst v" by (simp add: sorted_wrt_append)
  moreover have "\<forall>u\<in>set ?us. fst u < k" by (auto dest: set_takeWhileD)
  ultimately show ?thesis using that [of ?us ?vs] by (simp add: put_def)
qed

lemma map_split:
  assumes "map f ps = map g (us @ vs)"
  obtains pu pv where "ps = pu @ pv" "map f pu = map g us" "map f pv = map g vs"
proof
  show "ps = take (length us) ps @ drop (length us) ps" by simp
  show "map f (take (length us) ps) = map g us" "map f (drop (length us) ps) = map g vs"
    using arg_cong [OF assms, of "take (length us)"] arg_cong [OF assms, of "drop (length us)"]
    by (simp_all add: take_map drop_map)
qed

text \<open>Where the code puts a packet that is not behind: the node of the pool is inserted at the
  place the specification says.\<close>

lemma core_enqueue:
  assumes h: "holds s n xs" "window n xs" "d < 2048" "n + d \<notin> fst ` set xs"
  obtains s' where
    "rx_pending_reorder_enqueue (sn (n + d)) (Some skb) (s\<lparr>wend_b := e, indicate_seq := sn (new_next n d)\<rparr>) = Some (s', 0)"
    "holds s' (new_next n d) (put (n + d) skb xs)" "ba_uploads s' = ba_uploads s" "same_rest s s'"
proof -
  let ?k = "n + d" and ?s = "s\<lparr>wend_b := e, indicate_seq := sn (new_next n d)\<rparr>"
  let ?f = "\<lambda>(k, skb). (sn k, Some skb)"
  have sorted: "sorted_wrt (<) (map fst xs)" using h(2) by (simp add: window_def)
  obtain us vs where xs: "xs = us @ vs" "put ?k skb xs = us @ (?k, skb) # vs" "\<forall>u\<in>set us. fst u < ?k" "\<forall>v\<in>set vs. ?k < fst v"
    using put_split [OF sorted h(4)] by blast
  obtain ps fs where r: "ro_rep s ps fs" "map (node_of s) ps = map ?f xs" "length ps + length fs = 64"
    using h(1) by (auto simp: holds_def)
  obtain pu pv where ps: "ps = pu @ pv" "map (node_of s) pu = map ?f us" "map (node_of s) pv = map ?f vs"
    using r(2) [unfolded xs(1)] by (rule map_split)
  have "length ps = length xs" using r(2) by (metis length_map)
  then obtain f fs' where fs: "fs = f # fs'" using r(3) window_length [OF h(2)] by (cases fs) auto
  have rep: "ro_rep ?s (pu @ pv) (f # fs')" using r(1) fs ps(1) by simp
  have bounds: "\<And>x. x \<in> set xs \<Longrightarrow> n < fst x \<and> fst x \<le> n + 63" using h(2) by (auto simp: window_def)
  have ahead: "\<forall>v\<in>set pv. SN_LESS (sn ?k) (ro_seq ?s v)"
  proof
    fix v
    assume "v \<in> set pv"
    then have "node_of s v \<in> ?f ` set vs" using ps(3) by (metis image_eqI list.set_map)
    then obtain k' b where k': "(k', b) \<in> set vs" "ro_seq s v = sn k'" by (auto simp: node_of_def)
    then have "?k < k' \<and> k' \<le> n + 63" using bounds [of "(k', b)"] xs(1,4) by auto
    with k' show "SN_LESS (sn ?k) (ro_seq ?s v)" using SN_LESS_sn(1) [of ?k k'] by simp
  qed
  have behind: "\<not> SN_LESS (sn ?k) (ro_seq ?s (last pu)) \<and> ro_seq ?s (last pu) \<noteq> sn ?k" if "pu \<noteq> []"
  proof -
    have "node_of s (last pu) \<in> ?f ` set us" using that ps(2) by (metis image_eqI last_in_set list.set_map)
    then obtain k' b where k': "(k', b) \<in> set us" "ro_seq s (last pu) = sn k'" by (auto simp: node_of_def)
    have "k' < ?k \<and> n < k'" using k'(1) bounds [of "(k', b)"] xs(1,3) by auto
    then show ?thesis using k'(2) SN_LESS_sn(2) [of k' ?k] sn_near [of k' ?k] h(3) by simp
  qed
  obtain s' where s': "rx_pending_reorder_enqueue (sn ?k) (Some skb) ?s = Some (s', 0)" "ro_rep s' (pu @ f # pv) fs'"
      "links_only (?s\<lparr>ro_seq := (ro_seq ?s)(f := sn ?k), ro_skb := (ro_skb ?s)(f := Some skb)\<rparr>) s'"
    using pending_enqueue_rep [OF rep ahead behind] by blast
  note sel = links_only_sel [OF s'(3)]
  have "f \<notin> set ps" using ro_repD(8) [OF r(1)] fs by auto
  then have "map (node_of s') pu = map (node_of s) pu" "map (node_of s') pv = map (node_of s) pv"
    using sel(1,2) ps(1) by (auto simp: node_of_def)
  then have "map (node_of s') (pu @ f # pv) = map ?f (put ?k skb xs)"
    using ps xs(2) sel(1,2) by (simp add: node_of_def [of s' f])
  moreover have "length (pu @ f # pv) + length fs' = 64" using r(3) fs ps(1) by simp
  moreover have "wsize_b s' = 64" "indicate_seq s' = sn (new_next n d)" using sel h(1) by (simp_all add: holds_def)
  ultimately have "holds s' (new_next n d) (put ?k skb xs)"
    using s'(2) sorted_put [OF sorted h(4)] unfolding holds_def by blast
  moreover have "ba_uploads s' = ba_uploads s" "same_rest s s'" using sel by (simp_all add: same_rest_def)
  ultimately show ?thesis using that s'(1) by blast
qed

lemma core_dup:
  assumes h: "holds s n xs" "window n xs" "n + d \<in> fst ` set xs"
  shows "rx_pending_reorder_enqueue (sn (n + d)) (Some skb) (s\<lparr>wend_b := e, indicate_seq := sn (new_next n d)\<rparr>) =
    Some (s\<lparr>wend_b := e, indicate_seq := sn n, drop_pkts := drop_pkts s + 1\<rparr>, -1)"
proof -
  let ?k = "n + d" and ?s = "s\<lparr>wend_b := e, indicate_seq := sn (new_next n d)\<rparr>"
  let ?f = "\<lambda>(k, skb). (sn k, Some skb)"
  obtain us b vs where xs: "xs = us @ (?k, b) # vs" using h(3) by (auto dest: split_list)
  have d: "1 \<le> d \<and> d \<le> 63" "\<forall>v\<in>set vs. ?k < fst v \<and> fst v \<le> n + 63"
    using h(2) by (auto simp: window_def xs sorted_wrt_append)
  obtain ps fs where r: "ro_rep s ps fs" "map (node_of s) ps = map ?f ((us @ [(?k, b)]) @ vs)"
    using h(1) by (auto simp: holds_def xs)
  obtain pu pv where ps: "ps = pu @ pv" "map (node_of s) pu = map ?f (us @ [(?k, b)])" "map (node_of s) pv = map ?f vs"
    using r(2) by (rule map_split)
  have "pu \<noteq> []" using ps(2) by auto
  then have "node_of s (last pu) = (sn ?k, Some b)" using arg_cong [OF ps(2), of last] by (simp add: last_map)
  then have last: "ro_seq ?s (last pu) = sn ?k" by (simp add: node_of_def)
  have ahead: "\<forall>v\<in>set pv. SN_LESS (sn ?k) (ro_seq ?s v)"
  proof
    fix v
    assume "v \<in> set pv"
    then have "node_of s v \<in> ?f ` set vs" using ps(3) by (metis image_eqI list.set_map)
    then obtain k' b' where k': "(k', b') \<in> set vs" "ro_seq s v = sn k'" by (auto simp: node_of_def)
    with d show "SN_LESS (sn ?k) (ro_seq ?s v)" using SN_LESS_sn(1) [of ?k k'] by fastforce
  qed
  have "ro_rep ?s (pu @ pv) fs" using r(1) ps(1) by simp
  from pending_enqueue_dup [OF this ahead \<open>pu \<noteq> []\<close> last] d(1) show ?thesis by (simp add: new_next_def)
qed

lemma new_next_bounds:
  assumes "window n xs" "d < 2048"
  shows "\<forall>x\<in>set (put (n + d) skb xs). new_next n d < fst x + 2048 \<and> fst x \<le> new_next n d + 63"
  using assms by (auto simp: set_put window_def new_next_def)

lemma upload_and_arm_result:
  assumes "reorder_upload_loop s = Some (s1, int (length ys))"
  shows "\<exists>s'. upload_and_arm s = Some s' \<and> (\<exists>t. s' = s1\<lparr>ba_timer := t\<rparr>)"
proof (cases "(word_of_int (int (length ys)) :: u8) = 0")
  case True
  then have "upload_and_arm s = Some s1" using assms by (simp add: upload_and_arm_def rx_reorder_upload_def)
  moreover have "s1 = s1\<lparr>ba_timer := ba_timer s1\<rparr>" by simp
  ultimately show ?thesis by metis
next
  case False
  then have "upload_and_arm s = Some (s1\<lparr>ba_timer := Some (wait_timeout s1)\<rparr>)"
    using assms by (simp add: upload_and_arm_def rx_reorder_upload_def)
  then show ?thesis by blast
qed

lemma holds_more [simp]:
  "holds (s\<lparr>ba_timer := t\<rparr>) n xs = holds s n xs" "holds (s\<lparr>ba_free_skbs := f\<rparr>) n xs = holds s n xs"
  "holds (s\<lparr>wend_b := e\<rparr>) n xs = holds s n xs" "holds (s\<lparr>drop_pkts := c\<rparr>) n xs = holds s n xs"
  by (simp_all add: holds_def node_of_def cong: map_cong)

lemma flush_upload:
  assumes "holds s n xs" "\<forall>x\<in>set xs. n < fst x + 2048 \<and> fst x \<le> n + 63" "flush n xs = (ds, n', ys)"
  shows "\<exists>s'. upload_and_arm s = Some s' \<and> holds s' n' ys \<and> window n' ys \<and> ba_uploads s' = ba_uploads s @ map snd ds \<and>
    ba_free_skbs s' = ba_free_skbs s"
proof -
  obtain s1 where s1: "reorder_upload_loop s = Some (s1, int (length ys))" "holds s1 n' ys" "ba_uploads s1 = ba_uploads s @ map snd ds"
      "same_rest s s1"
    using upload_loop_flush [OF assms] by blast
  have "window n' ys" using assms by (intro window_flush [OF assms(3)]) (auto simp: holds_def)
  then show ?thesis using upload_and_arm_result [OF s1(1)] s1(2-4) by (auto simp: same_rest_def)
qed

text \<open>The code follows the specification, for a packet and for the timer.\<close>

lemma core_refines:
  assumes h: "holds s n xs" "window n xs" "d < 4096" "spec_arrive d skb n xs = (ds, n', ys)"
  shows "\<exists>s'. reorder_core (sn (n + d)) (Some skb) s = Some s' \<and> holds s' n' ys \<and> window n' ys \<and>
    ba_uploads s' = ba_uploads s @ map snd ds \<and> (ba_free_skbs s' \<noteq> ba_free_skbs s \<longrightarrow> ys = xs)"
proof -
  have ind: "indicate_seq s = sn n" "wsize_b s = 64" using h(1) by (simp_all add: holds_def)
  note chk = chk_expect_seq_result [OF ind h(3)]
  let ?s = "s\<lparr>wend_b := sn (n + 63), indicate_seq := sn (new_next n d)\<rparr>"
  consider "2048 \<le> d" | "d < 2048" "n + d \<in> fst ` set xs" | "d < 2048" "n + d \<notin> fst ` set xs" by linarith
  then show ?thesis
  proof cases
    case 1
    then have "reorder_core (sn (n + d)) (Some skb) s = Some (s\<lparr>wend_b := sn (n + 63), drop_pkts := drop_pkts s + 1,
        ba_free_skbs := ba_free_skbs s @ [Some skb]\<rparr>)"
      by (simp add: reorder_core_def chk)
    moreover have "ds = []" "n' = n" "ys = xs" using 1 h(4) by (simp_all add: spec_arrive_def)
    ultimately show ?thesis using h(1,2) by simp
  next
    case 2
    have "s\<lparr>wend_b := e, indicate_seq := sn n, drop_pkts := c, ba_free_skbs := f\<rparr> = s\<lparr>wend_b := e, drop_pkts := c, ba_free_skbs := f\<rparr>" for e c f
      by (simp add: ind(1) [symmetric])
    then have "reorder_core (sn (n + d)) (Some skb) s = Some (s\<lparr>wend_b := sn (n + 63), drop_pkts := drop_pkts s + 1,
        ba_free_skbs := ba_free_skbs s @ [Some skb]\<rparr>)"
      using 2(1) core_dup [OF h(1,2) 2(2), of skb "sn (n + 63)"] by (simp add: reorder_core_def chk)
    moreover have "ds = []" "n' = n" "ys = xs" using 2 h(4) by (simp_all add: spec_arrive_def)
    ultimately show ?thesis using h(1,2) by simp
  next
    case 3
    obtain s1 where s1: "rx_pending_reorder_enqueue (sn (n + d)) (Some skb) ?s = Some (s1, 0)"
        "holds s1 (new_next n d) (put (n + d) skb xs)" "ba_uploads s1 = ba_uploads s" "same_rest s s1"
      using core_enqueue [OF h(1,2) 3] by blast
    have "flush (new_next n d) (put (n + d) skb xs) = (ds, n', ys)" using 3 h(4) by (simp add: spec_arrive_def)
    from flush_upload [OF s1(2) new_next_bounds [OF h(2) 3(1)] this] show ?thesis
      using 3(1) s1(1,3,4) by (auto simp: reorder_core_def chk same_rest_def)
  qed
qed

lemma timeout_refines:
  assumes h: "holds s n xs" "window n xs" "spec_timeout n xs = (ds, n', ys)"
  shows "\<exists>s'. rx_reorder_timeout_handle s = Some s' \<and> holds s' n' ys \<and> window n' ys \<and> ba_uploads s' = ba_uploads s @ map snd ds"
proof (cases xs)
  case Nil
  then obtain fs where "ro_rep s [] fs" using h(1) by (auto simp: holds_def)
  then show ?thesis
    using h Nil pending_getqueue_rep [of s "[]" fs] by (simp add: rx_reorder_timeout_handle_def spec_timeout_def)
next
  case (Cons x xs')
  obtain k b where x: "x = (k, b)" by (cases x)
  obtain p ps fs where r: "ro_rep s (p # ps) fs" "ro_seq s p = sn k"
    using h(1) by (auto simp: holds_def Cons x map_eq_Cons_conv node_of_def)
  have "holds (s\<lparr>indicate_seq := sn k\<rparr>) k xs" using h(1) by (auto simp: holds_def node_of_def cong: map_cong)
  moreover have "\<forall>x\<in>set xs. k < fst x + 2048 \<and> fst x \<le> k + 63" using h(2) by (auto simp: window_def Cons x)
  moreover have "flush k xs = (ds, n', ys)" using h(3) by (simp add: spec_timeout_def Cons x)
  ultimately show ?thesis
    using flush_upload [of "s\<lparr>indicate_seq := sn k\<rparr>" k xs] pending_getqueue_rep [OF r(1)] r(2)
    by (auto simp: rx_reorder_timeout_handle_def)
qed

section \<open>Runs\<close>

text \<open>A component that may be stuck (\<open>None\<close>) simulates a specification that computes outputs:
  then every run of it returns and shows the outputs of the specification's run.\<close>

locale simulates =
  fixes rel :: "'s \<Rightarrow> 'a \<Rightarrow> bool"
    and step :: "'e \<Rightarrow> 's \<Rightarrow> 's option"
    and spec :: "'e \<Rightarrow> 'a \<Rightarrow> 'o list \<times> 'a"
    and out :: "'s \<Rightarrow> 'v list"
    and view :: "'o \<Rightarrow> 'v"
    and good :: "'e \<Rightarrow> bool"
  assumes sim: "rel s a \<Longrightarrow> good e \<Longrightarrow> spec e a = (os, a') \<Longrightarrow>
    \<exists>s'. step e s = Some s' \<and> rel s' a' \<and> out s' = out s @ map view os"
begin

fun run :: "'e list \<Rightarrow> 's \<Rightarrow> 's option" where
  "run [] s = Some s"
| "run (e # es) s = Option.bind (step e s) (run es)"

fun spec_run :: "'e list \<Rightarrow> 'a \<Rightarrow> 'o list \<times> 'a" where
  "spec_run [] a = ([], a)"
| "spec_run (e # es) a = (let (os, a1) = spec e a; (os', a2) = spec_run es a1 in (os @ os', a2))"

lemma run_sim:
  assumes "rel s a" "\<forall>e\<in>set es. good e" "spec_run es a = (os, a')"
  shows "\<exists>s'. run es s = Some s' \<and> rel s' a' \<and> out s' = out s @ map view os"
  using assms
proof (induction es arbitrary: s a os)
  case (Cons e es)
  obtain os1 a1 os2 where sp: "spec e a = (os1, a1)" "spec_run es a1 = (os2, a')" "os = os1 @ os2"
    using Cons.prems(3) by (auto simp: Let_def split: prod.splits)
  obtain s1 where s1: "step e s = Some s1" "rel s1 a1" "out s1 = out s @ map view os1"
    using sim [OF Cons.prems(1) _ sp(1)] Cons.prems(2) by auto
  from Cons.IH [OF s1(2) _ sp(2)] Cons.prems(2) s1 sp(3) show ?case by auto
qed simp

end

datatype ro_event = Arrive u16 nat | Timeout

definition ro_step :: "ro_event \<Rightarrow> reorder \<Rightarrow> reorder option" where
  "ro_step e s = (case e of Arrive seq skb \<Rightarrow> reorder_core seq (Some skb) s | Timeout \<Rightarrow> rx_reorder_timeout_handle s)"

text \<open>A run of the handlers.\<close>

fun ro_run :: "ro_event list \<Rightarrow> reorder \<Rightarrow> reorder option" where
  "ro_run [] s = Some s"
| "ro_run (e # es) s = Option.bind (ro_step e s) (ro_run es)"

text \<open>The specification starts with the number of the first packet; \<open>w\<close> says how often the 12-bit numbers have
  wrapped around before.\<close>

definition ro_spec :: "nat \<Rightarrow> ro_event \<Rightarrow> nat option \<times> (nat \<times> nat) list \<Rightarrow> (nat \<times> nat) list \<times> nat option \<times> (nat \<times> nat) list" where
  "ro_spec w e a =
     (case e of
        Arrive seq skb \<Rightarrow>
          (let (n, d) = (case fst a of None \<Rightarrow> (4096 * w + unat seq, 0) | Some n \<Rightarrow> (n, dist n seq));
               (ds, n', ys) = spec_arrive d skb n (snd a) in (ds, Some n', ys))
      | Timeout \<Rightarrow>
          (case fst a of None \<Rightarrow> ([], a)
           | Some n \<Rightarrow> let (ds, n', ys) = spec_timeout n (snd a) in (ds, Some n', ys)))"

definition ro_good :: "ro_event \<Rightarrow> bool" where
  "ro_good e \<longleftrightarrow> (case e of Arrive seq skb \<Rightarrow> unat seq < 4096 | Timeout \<Rightarrow> True)"

text \<open>A session that has not seen a packet yet.\<close>

definition fresh :: "reorder \<Rightarrow> bool" where
  "fresh s \<longleftrightarrow> (\<exists>fs. ro_rep s [] fs \<and> length fs = 64) \<and> wsize_b s = 64 \<and> indicate_seq s = 0xFFFF"

definition ro_rel :: "reorder \<Rightarrow> nat option \<times> (nat \<times> nat) list \<Rightarrow> bool" where
  "ro_rel s a \<longleftrightarrow> (case fst a of None \<Rightarrow> snd a = [] \<and> fresh s | Some n \<Rightarrow> holds s n (snd a) \<and> window n (snd a))"

lemma sn_wrap: "unat q < 4096 \<Longrightarrow> sn (4096 * w + unat q) = q"
  by (simp add: word_unat_eq_iff unat_sn)

lemma fresh_core:
  assumes "fresh s" "unat seq < 4096"
  shows "holds (s\<lparr>indicate_seq := seq\<rparr>) (4096 * w + unat seq) []" "reorder_core seq (Some skb) s = reorder_core seq (Some skb) (s\<lparr>indicate_seq := seq\<rparr>)"
proof -
  show "holds (s\<lparr>indicate_seq := seq\<rparr>) (4096 * w + unat seq) []" using assms by (auto simp: holds_def fresh_def sn_wrap)
  have "seq \<noteq> 0xFFFF" using assms(2) by auto
  then show "reorder_core seq (Some skb) s = reorder_core seq (Some skb) (s\<lparr>indicate_seq := seq\<rparr>)"
    using assms(1) by (simp add: reorder_core_def rx_do_chk_expect_seq_def fresh_def)
qed

interpretation ro: simulates ro_rel ro_step "ro_spec w" ba_uploads snd ro_good for w
proof
  fix s a e os a'
  assume r: "ro_rel s a" and g: "ro_good e" and sp: "ro_spec w e a = (os, a')"
  obtain m xs where a: "a = (m, xs)" by (cases a)
  show "\<exists>s'. ro_step e s = Some s' \<and> ro_rel s' a' \<and> ba_uploads s' = ba_uploads s @ map snd os"
  proof (cases e)
    case (Arrive seq skb)
    then have seq: "unat seq < 4096" using g by (simp add: ro_good_def)
    show ?thesis
    proof (cases m)
      case None
      then have f: "fresh s" "xs = []" using r a by (simp_all add: ro_rel_def)
      let ?s = "s\<lparr>indicate_seq := seq\<rparr>"
      obtain ds n' ys where arr: "spec_arrive 0 skb (4096 * w + unat seq) [] = (ds, n', ys)" using prod_cases3 by blast
      have "os = ds" "a' = (Some n', ys)" using sp Arrive a None f(2) arr by (simp_all add: ro_spec_def)
      with core_refines [OF fresh_core(1) [OF f(1) seq] _ _ arr] fresh_core(2) [OF f(1) seq, of skb] Arrive sn_wrap [OF seq, of w]
      show ?thesis by (auto simp: ro_step_def ro_rel_def window_def)
    next
      case (Some n)
      then have h: "holds s n xs" "window n xs" using r a by (simp_all add: ro_rel_def)
      obtain ds n' ys where arr: "spec_arrive (dist n seq) skb n xs = (ds, n', ys)" using prod_cases3 by blast
      have "os = ds" "a' = (Some n', ys)" using sp Arrive a Some arr by (simp_all add: ro_spec_def)
      with core_refines [OF h dist_less arr] Arrive sn_dist [OF seq, of n] show ?thesis
        by (auto simp: ro_step_def ro_rel_def)
    qed
  next
    case Timeout
    show ?thesis
    proof (cases m)
      case None
      then obtain fs where "ro_rep s [] fs" "xs = []" using r a by (auto simp: ro_rel_def fresh_def)
      then show ?thesis
        using Timeout sp a None r pending_getqueue_rep [of s "[]" fs]
        by (auto simp: ro_step_def ro_spec_def rx_reorder_timeout_handle_def)
    next
      case (Some n)
      then have h: "holds s n xs" "window n xs" using r a by (simp_all add: ro_rel_def)
      obtain ds n' ys where t: "spec_timeout n xs = (ds, n', ys)" using prod_cases3 by blast
      have "os = ds" "a' = (Some n', ys)" using sp Timeout a Some t by (simp_all add: ro_spec_def)
      with timeout_refines [OF h t] Timeout show ?thesis by (simp add: ro_step_def ro_rel_def)
    qed
  qed
qed

lemma ro_run_eq: "ro.run es s = ro_run es s"
proof (induction es arbitrary: s)
  case (Cons e es)
  then show ?case by (cases "ro_step e s") simp_all
qed simp

section \<open>The order of delivery in the specification\<close>

definition next_of :: "nat option \<times> (nat \<times> nat) list \<Rightarrow> nat" where
  "next_of a = (case fst a of None \<Rightarrow> 0 | Some n \<Rightarrow> n)"

definition spec_ok :: "nat option \<times> (nat \<times> nat) list \<Rightarrow> bool" where
  "spec_ok a \<longleftrightarrow> (case fst a of None \<Rightarrow> snd a = [] | Some n \<Rightarrow> window n (snd a))"

lemma flush_from:
  assumes "flush m zs = (ds, n', ys)" "sorted_wrt (<) (map fst zs)" "\<forall>z\<in>set zs. n \<le> fst z \<and> fst z \<le> m + 63" "n \<le> m"
  shows "window n' ys" "sorted_wrt (<) (map fst ds)" "\<forall>d\<in>set ds. n \<le> fst d \<and> fst d < n'" "n \<le> n'" "set ds \<union> set ys = set zs"
proof -
  have z: "zs = ds @ ys" using assms(1) by (rule flush_split)
  show "window n' ys" using assms by (intro window_flush [OF assms(1)]) auto
  show "sorted_wrt (<) (map fst ds)" "set ds \<union> set ys = set zs" using assms(2) z by (auto simp: sorted_wrt_append)
  show "\<forall>d\<in>set ds. n \<le> fst d \<and> fst d < n'" using flush_bounds [OF assms(1,2)] assms(3) z by auto
  show "n \<le> n'" using flush_next [OF assms(1)] assms(4) by simp
qed

lemma spec_arrive_ok:
  assumes "spec_arrive d skb n xs = (ds, n', ys)" "window n xs"
  shows "window n' ys" "sorted_wrt (<) (map fst ds)" "\<forall>d\<in>set ds. n \<le> fst d \<and> fst d < n'" "n \<le> n'"
    "set ds \<union> set ys \<subseteq> insert (n + d, skb) (set xs)"
proof -
  have all: "window n' ys \<and> sorted_wrt (<) (map fst ds) \<and> (\<forall>d\<in>set ds. n \<le> fst d \<and> fst d < n') \<and> n \<le> n' \<and>
      set ds \<union> set ys \<subseteq> insert (n + d, skb) (set xs)"
  proof (cases "d < 2048 \<and> n + d \<notin> fst ` set xs")
    case True
    let ?zs = "put (n + d) skb xs"
    have f: "flush (new_next n d) ?zs = (ds, n', ys)" using True assms(1) by (simp add: spec_arrive_def)
    have "sorted_wrt (<) (map fst ?zs)" using sorted_put assms(2) True by (auto simp: window_def)
    moreover have "\<forall>z\<in>set ?zs. n \<le> fst z \<and> fst z \<le> new_next n d + 63"
      using new_next_bounds [OF assms(2), of d skb] True assms(2) by (auto simp: set_put window_def)
    moreover have "n \<le> new_next n d" by (auto simp: new_next_def)
    ultimately show ?thesis using flush_from [OF f] set_put [of "n + d" skb xs] by blast
  next
    case False
    then show ?thesis using assms by (auto simp: spec_arrive_def split: if_splits)
  qed
  then show "window n' ys" "sorted_wrt (<) (map fst ds)" "\<forall>d\<in>set ds. n \<le> fst d \<and> fst d < n'" "n \<le> n'"
    "set ds \<union> set ys \<subseteq> insert (n + d, skb) (set xs)" by blast+
qed

lemma spec_timeout_ok:
  assumes "spec_timeout n xs = (ds, n', ys)" "window n xs"
  shows "window n' ys \<and> sorted_wrt (<) (map fst ds) \<and> (\<forall>d\<in>set ds. n \<le> fst d \<and> fst d < n') \<and> n \<le> n' \<and>
    set ds \<union> set ys \<subseteq> set xs"
proof (cases xs)
  case Nil
  then show ?thesis using assms by (simp add: spec_timeout_def window_def)
next
  case (Cons x xs')
  have f: "flush (fst x) xs = (ds, n', ys)" using assms(1) by (simp add: spec_timeout_def Cons)
  have s: "sorted_wrt (<) (map fst xs)" "n \<le> fst x" using assms(2) by (auto simp: window_def Cons)
  have "\<forall>z\<in>set xs. fst x \<le> fst z \<and> fst z \<le> fst x + 63" using assms(2) by (auto simp: window_def Cons)
  from flush_from [OF f s(1) this] s(2) show ?thesis by (auto dest: le_trans)
qed

lemma ro_spec_ok:
  assumes "ro_spec w e a = (ds, a')" "spec_ok a" "ro_good e"
  shows "spec_ok a' \<and> sorted_wrt (<) (map fst ds) \<and> (\<forall>d\<in>set ds. next_of a \<le> fst d \<and> fst d < next_of a') \<and> next_of a \<le> next_of a' \<and>
    (\<forall>x\<in>set ds \<union> set (snd a'). x \<in> set (snd a) \<or> e = Arrive (sn (fst x)) (snd x))"
proof (cases e)
  case (Arrive seq skb)
  then have seq: "unat seq < 4096" using assms(3) by (simp add: ro_good_def)
  let ?nd = "case fst a of None \<Rightarrow> (4096 * w + unat seq, 0) | Some n \<Rightarrow> (n, dist n seq)"
  obtain n d where nd: "?nd = (n, d)" by (cases ?nd)
  obtain n' ys where arr: "spec_arrive d skb n (snd a) = (ds, n', ys)" "a' = (Some n', ys)"
    using assms(1) Arrive nd by (auto simp: ro_spec_def Let_def split: prod.splits)
  have w: "window n (snd a)" "seq = sn (n + d)" "next_of a \<le> n"
    using assms(2) nd sn_wrap [OF seq, of w] sn_dist [OF seq]
    by (auto simp: spec_ok_def window_def next_of_def split: option.splits)
  note ok = spec_arrive_ok [OF arr(1) w(1)]
  have "\<forall>x\<in>set ds \<union> set (snd a'). x \<in> set (snd a) \<or> e = Arrive (sn (fst x)) (snd x)"
    using ok(5) arr(2) Arrive w(2) by auto
  moreover have "next_of a \<le> next_of a'" "\<forall>d\<in>set ds. next_of a \<le> fst d \<and> fst d < next_of a'"
    using ok(3,4) w(3) arr(2) by (auto simp: next_of_def intro: le_trans)
  ultimately show ?thesis using ok(1,2) arr(2) by (simp add: spec_ok_def)
next
  case Timeout
  show ?thesis
  proof (cases "fst a")
    case None
    then show ?thesis using assms Timeout by (auto simp: ro_spec_def)
  next
    case (Some n)
    then obtain n' ys where t: "spec_timeout n (snd a) = (ds, n', ys)" "a' = (Some n', ys)"
      using assms(1) Timeout by (auto simp: ro_spec_def Let_def split: prod.splits)
    have "window n (snd a)" using assms(2) Some by (simp add: spec_ok_def)
    from spec_timeout_ok [OF t(1) this] t(2) Some show ?thesis by (auto simp: spec_ok_def next_of_def)
  qed
qed

lemma spec_run_ordered:
  assumes "ro.spec_run w es a = (ds, a')" "spec_ok a" "\<forall>e\<in>set es. ro_good e"
  shows "sorted_wrt (<) (map fst ds) \<and> (\<forall>d\<in>set ds. next_of a \<le> fst d) \<and>
    (\<forall>x\<in>set ds. x \<in> set (snd a) \<or> Arrive (sn (fst x)) (snd x) \<in> set es)"
  using assms
proof (induction es arbitrary: a ds)
  case (Cons e es)
  obtain ds1 a1 ds2 where sp: "ro_spec w e a = (ds1, a1)" "ro.spec_run w es a1 = (ds2, a')" "ds = ds1 @ ds2"
    using Cons.prems(1) by (auto simp: Let_def split: prod.splits)
  have g: "ro_good e" "\<forall>e\<in>set es. ro_good e" using Cons.prems(3) by simp_all
  note 1 = ro_spec_ok [OF sp(1) Cons.prems(2) g(1)]
  note 2 = Cons.IH [OF sp(2) _ g(2)]
  have lt: "fst x < fst y" if "x \<in> set ds1" "y \<in> set ds2" for x y
    using 1 2 that by (meson less_le_trans)
  have "sorted_wrt (<) (map fst ds)" using 1 2 lt by (auto simp: sp(3) sorted_wrt_append)
  moreover have "\<forall>d\<in>set ds. next_of a \<le> fst d" using 1 2 by (auto simp: sp(3) intro: le_trans)
  moreover have "\<forall>x\<in>set ds. x \<in> set (snd a) \<or> Arrive (sn (fst x)) (snd x) \<in> set (e # es)"
    using 1 2 by (auto simp: sp(3))
  ultimately show ?case by blast
qed simp

section \<open>A window without losses\<close>

lemma flush_consecutive: "flush n xs = (ds, n', ys) \<Longrightarrow> {n..<n'} \<subseteq> fst ` set ds"
proof (induction n xs arbitrary: ds n' ys rule: flush.induct)
  case (2 n k skb xs)
  show ?case
  proof (cases "k \<le> n")
    case True
    then obtain es where es: "flush (if k = n then n + 1 else n) xs = (es, n', ys)" "ds = (k, skb) # es"
      using 2(2) by (auto split: prod.splits if_splits)
    have "{(if k = n then n + 1 else n)..<n'} \<subseteq> fst ` set es" using 2(1) [OF True es(1)] .
    moreover have "{n..<n'} \<subseteq> insert n {n + 1..<n'}" by auto
    ultimately show ?thesis using es(2) by (cases "k = n") auto
  next
    case False
    then show ?thesis using 2(2) by simp
  qed
qed simp

text \<open>The packets with the numbers \<open>K\<close> have arrived, starting with \<open>b\<close>: those below the first
  missing number are delivered, the others are pending.\<close>

definition seen :: "(nat \<Rightarrow> nat) \<Rightarrow> nat \<Rightarrow> nat set \<Rightarrow> (nat \<times> nat) list \<Rightarrow> nat \<Rightarrow> (nat \<times> nat) list \<Rightarrow> bool" where
  "seen f b K D n ys \<longleftrightarrow> window n ys \<and> fst ` set D = {b..<n} \<and> fst ` set D \<union> fst ` set ys = K \<and> b < n \<and>
     (\<forall>x\<in>set D \<union> set ys. snd x = f (fst x))"

lemma seen_step:
  assumes s: "seen f b K D n ys" "K \<subseteq> {b..b + 63}" "k \<in> {b..b + 63}" "k \<notin> K"
    and arr: "spec_arrive (k - n) (f k) n ys = (ds, n', zs)"
  shows "seen f b (insert k K) (D @ ds) n' zs" "n \<le> k"
proof -
  have D: "fst ` set D = {b..<n}" "b < n" "fst ` set D \<union> fst ` set ys = K" "window n ys"
    "\<forall>x\<in>set D \<union> set ys. snd x = f (fst x)" using s(1) unfolding seen_def by blast+
  show k: "n \<le> k" using D(1,3) s(3,4) by (metis UnI1 atLeastAtMost_iff atLeastLessThan_iff not_le)
  let ?d = "k - n"
  have kd: "n + ?d = k" using k by simp
  have d: "?d \<le> 63" using s(3) D(2) k by auto
  have new: "k \<notin> fst ` set ys" using s(4) D(3) by auto
  let ?zs = "put k (f k) ys"
  have f: "flush (new_next n ?d) ?zs = (ds, n', zs)" using arr d new by (simp add: spec_arrive_def kd)
  have sorted: "sorted_wrt (<) (map fst ?zs)" using sorted_put new D(4) by (auto simp: window_def)
  have z: "?zs = ds @ zs" using f by (rule flush_split)
  note ok = spec_arrive_ok [OF arr D(4)]
  have bounds: "\<forall>x\<in>set ds. fst x < n'" "\<forall>x\<in>set zs. n' < fst x" using flush_bounds [OF f sorted] by auto
  have "{n..<n'} \<subseteq> fst ` set ds"
  proof (cases "?d = 0")
    case True
    then have "k = n" "new_next n ?d = n + 1" using k by (simp_all add: new_next_def)
    then have "k < n'" using flush_next [OF f] by simp
    then have "(k, f k) \<notin> set zs" using bounds(2) by auto
    moreover have "(k, f k) \<in> set ds \<union> set zs" using arg_cong [OF z, of set] set_put [of k "f k" ys] by auto
    ultimately have "k \<in> fst ` set ds" by (metis UnE fst_conv image_eqI)
    moreover have "{n + 1..<n'} \<subseteq> fst ` set ds" using flush_consecutive [OF f] \<open>new_next n ?d = n + 1\<close> by simp
    moreover have "{n..<n'} \<subseteq> insert n {n + 1..<n'}" by auto
    ultimately show ?thesis using \<open>k = n\<close> by blast
  next
    case False
    then show ?thesis using flush_consecutive [OF f] d by (simp add: new_next_def)
  qed
  moreover have "fst ` set ds \<subseteq> {n..<n'}" using ok(3) by auto
  ultimately have ds: "fst ` set ds = {n..<n'}" by blast
  have le: "n \<le> n'" by (rule ok(4))
  have "fst ` set (D @ ds) = {b..<n'}" using D(1,2) ds le by (auto simp: image_Un ivl_disj_un_two(3))
  moreover have "fst ` set (D @ ds) \<union> fst ` set zs = insert k K"
  proof -
    have "set ds \<union> set zs = insert (k, f k) (set ys)" using arg_cong [OF z, of set] set_put [of k "f k" ys] by simp
    then have "fst ` set ds \<union> fst ` set zs = insert k (fst ` set ys)" by (metis fst_conv image_Un image_insert)
    then show ?thesis using D(3) by (auto simp: image_Un)
  qed
  moreover have "\<forall>x\<in>set (D @ ds) \<union> set zs. snd x = f (fst x)"
    using D(5) ok(5) kd by auto
  ultimately show "seen f b (insert k K) (D @ ds) n' zs" using ok(1) D(2) le by (simp add: seen_def)
qed

text \<open>How the specification sees a packet with the number \<open>k\<close>: ahead of the window or in it, behind it, or the first one.\<close>

lemma dist_unique:
  assumes "sn (n + d) = sn k" "d < 4096"
  shows "dist n (sn k) = d"
proof -
  have "sn (n + dist n (sn k)) = sn (n + d)" using sn_dist [of "sn k" n] assms(1) by (simp add: unat_sn)
  then show ?thesis
    using dist_less [of n "sn k"] assms(2) sn_near [of "n + dist n (sn k)" "n + d"] sn_near [of "n + d" "n + dist n (sn k)"]
    by (cases "dist n (sn k) \<le> d") (simp_all only: add_left_cancel nat_add_left_cancel_le, auto)
qed

lemma ro_spec_ahead:
  assumes "n \<le> k" "k < n + 4096" "spec_arrive (k - n) x n ys = (ds, n', zs)"
  shows "ro_spec w (Arrive (sn k) x) (Some n, ys) = (ds, Some n', zs)"
proof -
  have "dist n (sn k) = k - n" using assms(1,2) by (intro dist_unique) simp_all
  then show ?thesis using assms(3) by (simp add: ro_spec_def)
qed

lemma ro_spec_behind:
  assumes "k < n" "n \<le> k + 2048"
  shows "ro_spec w (Arrive (sn k) x) (Some n, ys) = ([], Some n, ys)"
proof -
  have "n + (4096 - (n - k)) = k + 4096" using assms by simp
  then have "dist n (sn k) = 4096 - (n - k)" using assms by (intro dist_unique) (simp_all add: sn_eq_iff)
  moreover from assms have "2048 \<le> 4096 - (n - k)" by linarith
  ultimately show ?thesis by (simp add: ro_spec_def spec_arrive_def)
qed

lemma ro_spec_first: "ro_spec (k div 4096) (Arrive (sn k) x) (None, []) = ([(k, x)], Some (k + 1), [])"
  by (simp add: ro_spec_def spec_arrive_def new_next_def put_def unat_sn)

text \<open>All numbers are in a window that starts at \<open>c\<close>, the first one was \<open>b\<close>: what is behind \<open>b\<close> is dropped.\<close>

lemma seen_run:
  assumes "seen f b K D n ys" "c \<le> b" "K \<subseteq> {b..c + 63}" "set ks \<subseteq> {c..c + 63}" "distinct ks" "set ks \<inter> K = {}"
  shows "\<exists>ds n' zs. ro.spec_run w (map (\<lambda>k. Arrive (sn k) (f k)) ks) (Some n, ys) = (ds, Some n', zs) \<and>
    seen f b (K \<union> {k\<in>set ks. b \<le> k}) (D @ ds) n' zs"
  using assms
proof (induction ks arbitrary: K D n ys)
  case (Cons k ks)
  have n: "b < n" "{b..<n} \<subseteq> K" using Cons.prems(1) by (auto simp: seen_def)
  have "n - 1 \<in> K" using n by (intro subsetD [OF n(2)]) auto
  then have "n - 1 \<in> {b..c + 63}" using Cons.prems(3) by blast
  then have le: "n \<le> c + 64" by simp arith
  have k: "c \<le> k" "k \<le> c + 63" using Cons.prems(4) by auto
  show ?case
  proof (cases "b \<le> k")
    case True
    obtain ds n' zs where arr: "spec_arrive (k - n) (f k) n ys = (ds, n', zs)" using prod_cases3 by blast
    have sub: "K \<subseteq> {b..b + 63}" "k \<in> {b..b + 63}" "k \<notin> K" using Cons.prems(2,3,6) k True by auto
    have step: "seen f b (insert k K) (D @ ds) n' zs" "n \<le> k" using seen_step [OF Cons.prems(1) sub arr] by auto
    have r: "ro_spec w (Arrive (sn k) (f k)) (Some n, ys) = (ds, Some n', zs)"
      using step(2) k n(1) Cons.prems(2) arr by (intro ro_spec_ahead) auto
    have "insert k K \<subseteq> {b..c + 63}" using Cons.prems(3) True k by auto
    then obtain ds2 n2 z2 where "ro.spec_run w (map (\<lambda>k. Arrive (sn k) (f k)) ks) (Some n', zs) = (ds2, Some n2, z2)"
        "seen f b (insert k K \<union> {k\<in>set ks. b \<le> k}) ((D @ ds) @ ds2) n2 z2"
      using Cons.IH [OF step(1) Cons.prems(2)] Cons.prems(4-6) by auto
    moreover have "insert k K \<union> {k\<in>set ks. b \<le> k} = K \<union> {j\<in>set (k # ks). b \<le> j}" using True by auto
    ultimately show ?thesis using r by auto
  next
    case False
    then have "ro_spec w (Arrive (sn k) (f k)) (Some n, ys) = ([], Some n, ys)" using k n(1) le by (intro ro_spec_behind) auto
    moreover have "{j\<in>set (k # ks). b \<le> j} = {j\<in>set ks. b \<le> j}" using False by auto
    ultimately show ?thesis using Cons.IH [OF Cons.prems(1-3)] Cons.prems(4-6) by auto
  qed
qed auto

section \<open>A buffer that sees the full numbers\<close>

text \<open>The specification for a sender whose numbers are not cut to 12 bits: \<open>Some k\<close> is the arrival of the packet
  \<open>f k\<close> with the number \<open>k\<close>, \<open>None\<close> a timeout. A number below the next one or one that is pending is dropped;
  anything else is inserted and what has become consecutive is delivered.\<close>

definition ideal_step ::
  "(nat \<Rightarrow> nat) \<Rightarrow> nat option \<Rightarrow> nat option \<times> (nat \<times> nat) list \<Rightarrow> (nat \<times> nat) list \<times> nat option \<times> (nat \<times> nat) list" where
  "ideal_step f x a =
     (case fst a of
        None \<Rightarrow> (case x of None \<Rightarrow> ([], a) | Some k \<Rightarrow> ([(k, f k)], Some (k + 1), []))
      | Some n \<Rightarrow>
          (case x of
             None \<Rightarrow> let (ds, n', ys) = spec_timeout n (snd a) in (ds, Some n', ys)
           | Some k \<Rightarrow>
               if k < n \<or> k \<in> fst ` set (snd a) then ([], a)
               else let (ds, n', ys) = flush (new_next n (k - n)) (put k (f k) (snd a)) in (ds, Some n', ys)))"

fun ideal_run ::
  "(nat \<Rightarrow> nat) \<Rightarrow> nat option list \<Rightarrow> nat option \<times> (nat \<times> nat) list \<Rightarrow> (nat \<times> nat) list \<times> nat option \<times> (nat \<times> nat) list" where
  "ideal_run f [] a = ([], a)"
| "ideal_run f (x # xs) a = (let (ds, a1) = ideal_step f x a; (ds', a2) = ideal_run f xs a1 in (ds @ ds', a2))"

text \<open>What the code gets to see.\<close>

definition ro_cut :: "(nat \<Rightarrow> nat) \<Rightarrow> nat option \<Rightarrow> ro_event" where
  "ro_cut f x = (case x of None \<Rightarrow> Timeout | Some k \<Rightarrow> Arrive (sn k) (f k))"

text \<open>No number is further from the highest one before it (\<open>h\<close>) than 12 bits can tell: at most 2047 below it and at most 1984
  above it.\<close>

fun in_reach :: "nat option \<Rightarrow> nat option list \<Rightarrow> bool" where
  "in_reach h [] = True"
| "in_reach h (None # xs) = in_reach h xs"
| "in_reach None (Some k # xs) = in_reach (Some k) xs"
| "in_reach (Some h) (Some k # xs) = (h \<le> k + 2047 \<and> k \<le> h + 1984 \<and> in_reach (Some (max h k)) xs)"

definition reach_inv :: "nat \<Rightarrow> nat option \<times> (nat \<times> nat) list \<Rightarrow> bool" where
  "reach_inv h a \<longleftrightarrow> (\<exists>n. fst a = Some n \<and> window n (snd a) \<and> n \<le> h + 1 \<and> h \<le> n + 63 \<and> (\<forall>y\<in>set (snd a). fst y \<le> h))"

lemma flush_next_le: "flush n xs = (ds, n', ys) \<Longrightarrow> \<forall>x\<in>set xs. fst x \<le> h \<Longrightarrow> n \<le> h + 1 \<Longrightarrow> n' \<le> h + 1"
  by (induction n xs arbitrary: ds n' ys rule: flush.induct) (fastforce split: if_splits prod.splits)+

lemma ideal_step_reach:
  assumes "reach_inv h a" "in_reach (Some h) (x # xs)" "ideal_step f x a = (ds, a')"
  shows "ro_spec w (ro_cut f x) a = (ds, a') \<and> reach_inv (case x of None \<Rightarrow> h | Some k \<Rightarrow> max h k) a'"
proof -
  obtain n ys where a: "a = (Some n, ys)" and w: "window n ys" and n: "n \<le> h + 1" "h \<le> n + 63" "\<forall>y\<in>set ys. fst y \<le> h"
    using assms(1) by (cases a) (auto simp: reach_inv_def)
  show ?thesis
  proof (cases x)
    case None
    obtain n' zs where t: "spec_timeout n ys = (ds, n', zs)" "a' = (Some n', zs)"
      using assms(3) a None by (auto simp: ideal_step_def split: prod.splits)
    have ok: "window n' zs" "n \<le> n'" "set zs \<subseteq> set ys" using spec_timeout_ok [OF t(1) w] by auto
    have "n' \<le> h + 1"
    proof (cases ys)
      case Nil
      then show ?thesis using t(1) n by (simp add: spec_timeout_def)
    next
      case (Cons y ys')
      then show ?thesis using t(1) n(3) flush_next_le [of "fst y" ys ds n' zs h] by (auto simp: spec_timeout_def)
    qed
    then have "reach_inv h a'" using ok n t(2) by (auto simp: reach_inv_def)
    then show ?thesis using None a t by (simp add: ro_spec_def ro_cut_def)
  next
    case (Some k)
    then have k: "h \<le> k + 2047" "k \<le> h + 1984" using assms(2) by simp_all
    consider "k < n" | "n \<le> k" by linarith
    then show ?thesis
    proof cases
      case 1
      then have "ds = []" "a' = a" using assms(3) a Some by (simp_all add: ideal_step_def)
      moreover have "ro_spec w (Arrive (sn k) (f k)) a = ([], a)" using 1 n k unfolding a by (intro ro_spec_behind) auto
      moreover have "max h k = h" using 1 n by auto
      ultimately show ?thesis using Some assms(1) by (simp add: ro_cut_def)
    next
      case 2
      have d: "k - n < 2048" "n + (k - n) = k" using 2 n k by auto
      obtain n' zs where arr: "spec_arrive (k - n) (f k) n ys = (ds, n', zs)" "a' = (Some n', zs)"
        using assms(3) a Some 2 d by (auto simp: ideal_step_def spec_arrive_def split: prod.splits if_splits)
      have r: "ro_spec w (Arrive (sn k) (f k)) a = (ds, a')" using 2 d arr unfolding a by (simp only: arr(2)) (rule ro_spec_ahead, auto)
      note ok = spec_arrive_ok [OF arr(1) w]
      have b: "n' \<le> max h k + 1 \<and> k \<le> n' + 63"
      proof (cases "k \<in> fst ` set ys")
        case True
        then have "n' = n" using arr(1) d by (simp add: spec_arrive_def)
        then show ?thesis using n True w by (auto simp: window_def)
      next
        case False
        then have f: "flush (new_next n (k - n)) (put k (f k) ys) = (ds, n', zs)" using arr(1) d by (simp add: spec_arrive_def)
        have "n' \<le> max h k + 1"
          by (rule flush_next_le [OF f]) (use n 2 in \<open>auto simp: set_put new_next_def le_max_iff_disj\<close>)
        moreover have "k \<le> new_next n (k - n) + 63" using 2 by (auto simp: new_next_def)
        ultimately show ?thesis using flush_next [OF f] by auto
      qed
      have "\<forall>z\<in>set zs. fst z \<le> max h k" using ok(5) n(3) d(2) by (force simp: le_max_iff_disj)
      then have "reach_inv (max h k) a'" using ok(1,4) b n arr(2) by (auto simp: reach_inv_def)
      then show ?thesis using r Some by (simp add: ro_cut_def)
    qed
  qed
qed

lemma ideal_run_reach:
  assumes "reach_inv h a" "in_reach (Some h) xs"
  shows "ro.spec_run w (map (ro_cut f) xs) a = ideal_run f xs a"
  using assms
proof (induction xs arbitrary: h a)
  case (Cons x xs)
  obtain ds a' where s: "ideal_step f x a = (ds, a')" by (cases "ideal_step f x a")
  note r = ideal_step_reach [OF Cons.prems s, of w]
  have "in_reach (Some (case x of None \<Rightarrow> h | Some k \<Rightarrow> max h k)) xs" using Cons.prems(2) by (cases x) simp_all
  then show ?case using Cons.IH [OF conjunct2 [OF r]] r s by simp
qed simp

lemma ideal_run_start:
  assumes "in_reach None xs"
  shows "\<exists>w. ro.spec_run w (map (ro_cut f) xs) (None, []) = ideal_run f xs (None, [])"
  using assms
proof (induction xs)
  case (Cons x xs)
  show ?case
  proof (cases x)
    case None
    have "ro_spec w (ro_cut f None) (None, []) = ([], None, [])" "ideal_step f None (None, []) = ([], None, [])" for w
      by (simp_all add: ro_cut_def ro_spec_def ideal_step_def)
    then show ?thesis using Cons None by auto
  next
    case (Some k)
    have "reach_inv k (Some (k + 1), [])" by (simp add: reach_inv_def window_def)
    moreover have "ro_spec (k div 4096) (ro_cut f (Some k)) (None, []) = ([(k, f k)], Some (k + 1), [])"
        "ideal_step f (Some k) (None, []) = ([(k, f k)], Some (k + 1), [])"
      using ro_spec_first [of k "f k"] by (simp_all add: ro_cut_def ideal_step_def)
    ultimately show ?thesis
      using ideal_run_reach [of k "(Some (k + 1), [])" xs "k div 4096" f] Cons.prems Some by (intro exI [of _ "k div 4096"]) simp
  qed
qed simp

lemma ideal_step_from:
  assumes "ideal_step f x a = (ds, a')"
  shows "set ds \<union> set (snd a') \<subseteq> set (snd a) \<union> {(k, f k) |k. x = Some k}"
proof -
  have "set ds \<union> set ys \<subseteq> insert (k, f k) (set (snd a))" if "flush m (put k (f k) (snd a)) = (ds, n, ys)" for k m n ys
    using flush_split [OF that] set_put [of k "f k" "snd a"] by (metis equalityD1 set_append)
  moreover have "set ds \<union> set ys \<subseteq> set (snd a)" if "spec_timeout m (snd a) = (ds, n, ys)" for m n ys
  proof (cases "snd a")
    case (Cons y zs)
    then show ?thesis using that flush_split [of "fst y" "snd a" ds n ys] by (simp add: spec_timeout_def)
  qed (use that in \<open>simp add: spec_timeout_def\<close>)
  ultimately show ?thesis
    using assms by (auto simp: ideal_step_def Let_def split: option.splits prod.splits if_splits) blast+
qed

lemma ideal_run_from:
  "ideal_run f xs a = (ds, a') \<Longrightarrow> d \<in> set ds \<union> set (snd a') \<Longrightarrow> d \<in> set (snd a) \<or> snd d = f (fst d) \<and> Some (fst d) \<in> set xs"
proof (induction xs arbitrary: a ds)
  case (Cons x xs)
  obtain ds1 a1 ds2 where s: "ideal_step f x a = (ds1, a1)" "ideal_run f xs a1 = (ds2, a')" "ds = ds1 @ ds2"
    using Cons.prems by (auto split: prod.splits)
  have 1: "d \<in> set (snd a) \<or> snd d = f (fst d) \<and> Some (fst d) = x" if "d \<in> set ds1 \<union> set (snd a1)"
    using subsetD [OF ideal_step_from [OF s(1)] that] by auto
  show ?case using 1 Cons.IH [OF s(2)] Cons.prems(2) s(3) by auto
qed auto

section \<open>Start and restart\<close>

lemma links_only_tail: "links_only s (wf_enque_tail p q s)"
  unfolding links_only_def
  by (intro exI [of _ "pnext (wf_enque_tail p q s)"] exI [of _ "prev (wf_enque_tail p q s)"] exI [of _ "cnt (wf_enque_tail p q s)"])
    (simp add: wf_enque_tail_def wf_enque_prev_def wf_list_defs Let_def)

lemma que_rep_more [simp]:
  "wf_que_rep (s\<lparr>ro_seq := a\<rparr>) q xs = wf_que_rep s q xs" "wf_que_rep (s\<lparr>ro_skb := b\<rparr>) q xs = wf_que_rep s q xs"
  by (simp_all add: wf_que_rep_def)

lemma ba_alloc_nodes_rep:
  assumes "wf_que_rep s (pending_q s) []" "wf_que_rep s (free_q s) fs" "distinct (pending_q s # free_q s # fs @ ns)"
  shows "\<exists>s'. ba_alloc_nodes (map Some ns) s = s' \<and> ro_rep s' [] (fs @ ns) \<and> wsize_b s' = wsize_b s \<and>
    indicate_seq s' = indicate_seq s \<and> ba_uploads s' = ba_uploads s"
  using assms
proof (induction ns arbitrary: s fs)
  case Nil
  then show ?case by (auto simp: ro_rep_def wf_que_rep_def)
next
  case (Cons p ns)
  let ?s = "s\<lparr>ro_seq := (ro_seq s)(p := 0), ro_skb := (ro_skb s)(p := None)\<rparr>"
  let ?t = "wf_enque_tail p (free_q s) ?s"
  note sel = links_only_sel [OF links_only_tail, of p "free_q s" ?s]
  have f: "wf_que_rep ?t (free_q s) (fs @ [p])"
    using Cons.prems by (intro wf_que_rep_enque_tail) auto
  have "?t = wf_enque p (last (free_q s # fs)) (free_q s) ?s"
    using wf_enque_prev_eq [of ?s "free_q s" fs "[]" p] Cons.prems(2) by (simp add: wf_enque_tail_def wf_que_list_head_def)
  then have "wf_que_rep ?t (pending_q s) []"
    using wf_enque_frame [of ?s "free_q s" fs "[]" "pending_q s" "[]" p] Cons.prems by auto
  with Cons.IH [of ?t "fs @ [p]"] f Cons.prems(3) sel show ?case by auto
qed

lemma ba_ctl_init_fresh:
  assumes "length ns = 64" "distinct (pending_q s # free_q s # ns)"
  shows "fresh (ba_ctl_init (map Some ns) s) \<and> ba_uploads (ba_ctl_init (map Some ns) s) = ba_uploads s"
proof -
  let ?s1 = "s\<lparr>ba_enable := False, indicate_seq := 0xffff, wend_b := 0xffff, wsize_b := 64, ampdu_size := 0xff,
      timer_start := False, drop_pkts := 0\<rparr>"
  let ?s2 = "wf_que_init (free_q s) (wf_que_init (pending_q s) ?s1)"
  have "wf_que_rep ?s2 (free_q s) []" by (rule wf_que_rep_init)
  moreover have "wf_que_rep ?s2 (pending_q s) []"
    using assms(2) by (simp add: wf_que_rep_def wf_que_init_def wf_list_init_def Let_def)
  moreover have "pending_q ?s2 = pending_q s" "free_q ?s2 = free_q s" "wsize_b ?s2 = 64" "indicate_seq ?s2 = 0xFFFF" "ba_uploads ?s2 = ba_uploads s"
    by (simp_all add: wf_que_init_def wf_list_init_def Let_def)
  ultimately show ?thesis
    using ba_alloc_nodes_rep [of ?s2 "[]" ns] assms by (auto simp: ba_ctl_init_def fresh_def)
qed

lemma ba_drain_all:
  assumes "ro_rep s ps fs" "\<forall>p\<in>set ps. ro_skb s p \<noteq> None"
  shows "\<exists>s'. ba_drain s = Some s' \<and> ro_rep s' [] fs \<and> ba_kfreed s' = ba_kfreed s @ ps \<and> ba_free_skbs s' = ba_free_skbs s \<and>
    ba_enable s' = ba_enable s \<and> indicate_seq s' = indicate_seq s \<and> wsize_b s' = wsize_b s"
  using assms
proof (induction ps arbitrary: s)
  case Nil
  then show ?case by (subst ba_drain.simps) (simp add: pending_dequeue_empty)
next
  case (Cons p ps)
  obtain s1 where s1: "rx_pending_reorder_dequeue s = (s1, Some p)" "ro_rep s1 ps fs" "links_only s s1"
    using Cons.prems(1) by (rule pending_dequeue_rep)
  note sel = links_only_sel [OF s1(3)]
  have en: "ba_enable s1 = ba_enable s" using s1(3) by (auto simp: links_only_def)
  let ?s2 = "s1\<lparr>ba_kfreed := ba_kfreed s1 @ [p]\<rparr>"
  have "ba_drain s = ba_drain ?s2"
    using Cons.prems(2) by (subst ba_drain.simps) (auto simp: s1(1) sel)
  with Cons.IH [of ?s2] s1(2) Cons.prems(2) sel en show ?case by auto
qed

lemma core_without_nodes:
  assumes "ro_rep s [] []" "indicate_seq s = 0xFFFF"
  shows "reorder_core seq (Some skb) s = None"
proof -
  obtain e where chk: "rx_do_chk_expect_seq seq s = (s\<lparr>wend_b := e, indicate_seq := (seq + 1) AND 0xFFF\<rparr>, REORDER_ENQUE)"
    using assms(2) by (simp add: rx_do_chk_expect_seq_def SN_EQUAL_def)
  have r: "ro_rep (s\<lparr>wend_b := e, indicate_seq := (seq + 1) AND 0xFFF\<rparr>) ([] @ []) []" using assms(1) by simp
  have "rx_pending_reorder_enqueue seq (Some skb) (s\<lparr>wend_b := e, indicate_seq := (seq + 1) AND 0xFFF\<rparr>) = None"
    using pending_scan [OF r, of seq] free_empty_waits [of "s\<lparr>wend_b := e, indicate_seq := (seq + 1) AND 0xFFF\<rparr>" "[]"] assms(1)
    by (simp add: rx_pending_reorder_enqueue_def wf_que_list_head_def Let_def)
  then show ?thesis by (simp add: reorder_core_def chk)
qed

section \<open>Properties\<close>

text \<open>(C6) From a session with a full pool of 64 nodes on, every sequence of arriving packets and timeouts is handled without waiting
  for a node. When the sender's numbers, of which the code sees the last 12 bits, are never more than 2047 below or 1984 above the highest
  number that has arrived, then the code delivers exactly the packets that a buffer with the full numbers delivers (\<open>ideal_run\<close>), and it
  delivers them in the order of the sender's numbers, each at most once and none that did not arrive.\<close>

theorem reorder_in_order:
  assumes "length ns = 64" "distinct (pending_q s # free_q s # ns)"
  shows "(\<forall>es. (\<forall>e\<in>set es. ro_good e) \<longrightarrow> (\<exists>s'. ro_run es (ba_ctl_init (map Some ns) s) = Some s')) \<and>
    (in_reach None xs \<longrightarrow> (\<exists>s' D a. ro_run (map (ro_cut f) xs) (ba_ctl_init (map Some ns) s) = Some s' \<and>
       ideal_run f xs (None, []) = (D, a) \<and> ba_uploads s' = ba_uploads s @ map snd D \<and>
       sorted_wrt (<) (map fst D) \<and> (\<forall>(k, skb)\<in>set D. skb = f k \<and> Some k \<in> set xs)))"
proof (intro conjI allI impI)
  let ?s = "ba_ctl_init (map Some ns) s"
  have f: "fresh ?s" "ba_uploads ?s = ba_uploads s" using ba_ctl_init_fresh [OF assms] by simp_all
  have rel: "ro_rel ?s (None, [])" "spec_ok (None, [])" using f by (simp_all add: ro_rel_def spec_ok_def)
  have run: "\<exists>s'. ro_run es ?s = Some s' \<and> ba_uploads s' = ba_uploads s @ map snd D"
    if "\<forall>e\<in>set es. ro_good e" "ro.spec_run w es (None, []) = (D, a)" for es w D a
    using ro.run_sim [OF rel(1) that] f(2) by (auto simp: ro_run_eq)
  show "\<exists>s'. ro_run es ?s = Some s'" if "\<forall>e\<in>set es. ro_good e" for es
    using run [OF that, of 0] by (cases "ro.spec_run 0 es (None, [])") blast
  assume "in_reach None xs"
  then obtain w where w: "ro.spec_run w (map (ro_cut f) xs) (None, []) = ideal_run f xs (None, [])" using ideal_run_start by blast
  obtain D a where i: "ideal_run f xs (None, []) = (D, a)" by (cases "ideal_run f xs (None, [])")
  have good: "\<forall>e\<in>set (map (ro_cut f) xs). ro_good e" by (auto simp: ro_cut_def ro_good_def unat_sn split: option.splits)
  obtain s' where "ro_run (map (ro_cut f) xs) ?s = Some s'" "ba_uploads s' = ba_uploads s @ map snd D" using run [OF good] w i by metis
  moreover have "sorted_wrt (<) (map fst D)" using spec_run_ordered [OF _ rel(2) good] w i by metis
  moreover have "\<forall>(k, skb)\<in>set D. skb = f k \<and> Some k \<in> set xs" using ideal_run_from [OF i] by fastforce
  ultimately show "\<exists>s' D a. ro_run (map (ro_cut f) xs) ?s = Some s' \<and> ideal_run f xs (None, []) = (D, a) \<and>
      ba_uploads s' = ba_uploads s @ map snd D \<and> sorted_wrt (<) (map fst D) \<and> (\<forall>(k, skb)\<in>set D. skb = f k \<and> Some k \<in> set xs)"
    using i by blast
qed

definition reorder_blank :: reorder where
  "reorder_blank = \<lparr>pnext = \<lambda>p. p, prev = \<lambda>p. p, cnt = \<lambda>_. 0, ro_seq = \<lambda>_. 0, ro_skb = \<lambda>_. None, pending_q = 1, free_q = 2,
     ba_enable = False, indicate_seq = 0, wend_b = 0, wsize_b = 0, ampdu_size = 0, wait_timeout = 50, timer_start = False,
     drop_pkts = 0, ba_uploads = [], ba_free_skbs = [], ba_kfreed = [], ba_timer = None\<rparr>"

lemma reorder_in_order_witness:
  "\<exists>s'. ro_run (map (ro_cut (\<lambda>k. k + 1)) [Some 4095, Some 4097, Some 4094, Some 4096, Some 4099, None]) (ba_ctl_init (map Some [3..<67]) reorder_blank) = Some s' \<and>
     ba_uploads s' = [4096, 4097, 4098, 4100]"
proof -
  let ?xs = "[Some 4095, Some 4097, Some 4094, Some 4096, Some 4099, None] :: nat option list"
  have "in_reach None ?xs" by simp
  moreover have "fst (ideal_run (\<lambda>k. k + 1) ?xs (None, [])) = [(4095, 4096), (4096, 4097), (4097, 4098), (4099, 4100)]"
    by (simp add: ideal_step_def new_next_def put_def spec_timeout_def)
  ultimately show ?thesis
    using reorder_in_order [of "[3..<67]" reorder_blank ?xs "\<lambda>k. k + 1"] by (auto simp: reorder_blank_def)
qed

lemma spec_run_complete:
  assumes "m \<le> 63" "set (a # ks) = {b..b + m}" "distinct (a # ks)"
  shows "\<exists>n zs. ro.spec_run (a div 4096) (map (\<lambda>k. Arrive (sn k) (f k)) (a # ks)) (None, []) =
    (map (\<lambda>k. (k, f k)) [a..<b + m + 1], Some n, zs)"
proof -
  let ?es = "map (\<lambda>k. Arrive (sn k) (f k)) (a # ks)" and ?w = "a div 4096"
  have good: "\<forall>e\<in>set ?es. ro_good e" by (auto simp: ro_good_def unat_sn)
  have ks: "set ks = {b..b + m} - {a}" "b \<le> a" "a \<le> b + m" using assms(2,3) by auto
  have all: "{a} \<union> {k\<in>set ks. a \<le> k} = {a..b + m}" unfolding ks(1) using ks(2,3) by auto
  have "seen f a {a} [(a, f a)] (a + 1) []" by (auto simp: seen_def window_def)
  then obtain ds n zs where r: "ro.spec_run ?w (map (\<lambda>k. Arrive (sn k) (f k)) ks) (Some (a + 1), []) = (ds, Some n, zs)"
      "seen f a ({a} \<union> {k\<in>set ks. a \<le> k}) ([(a, f a)] @ ds) n zs"
    using seen_run [of f a "{a}" "[(a, f a)]" "a + 1" "[]" b ks ?w] assms(1,3) ks by fastforce
  let ?D = "(a, f a) # ds"
  have sp: "ro.spec_run ?w ?es (None, []) = (?D, Some n, zs)" using ro_spec_first r(1) by simp
  have s: "fst ` set ?D = {a..<n}" "fst ` set ?D \<union> fst ` set zs = {a..b + m}" "\<forall>x\<in>set ?D. snd x = f (fst x)" "\<forall>z\<in>set zs. n < fst z" "a < n"
    using r(2) unfolding seen_def all by (auto simp: window_def)
  have "n \<notin> {a..b + m}" using s(1,2,4) by (metis UnE atLeastLessThan_iff imageE less_irrefl)
  then have n: "b + m < n" using s(5) by simp
  have "{a..<n} \<subseteq> {a..b + m}" using s(1,2) by blast
  then have keys: "fst ` set ?D = {a..<b + m + 1}" using s(1) n by (auto simp del: list.set)
  have sorted: "sorted_wrt (<) (map fst ?D)" using spec_run_ordered [OF sp _ good] by (simp add: spec_ok_def)
  then have fsts: "map fst ?D = [a..<b + m + 1]"
    using keys by (intro strict_sorted_equal) (auto simp del: upt_Suc)
  have "?D = map (\<lambda>k. (k, f k)) (map fst ?D)"
    unfolding map_map by (rule map_idI [symmetric]) (use s(3) in \<open>auto simp: prod_eq_iff\<close>)
  then have "?D = map (\<lambda>k. (k, f k)) [a..<b + m + 1]" unfolding fsts .
  then show ?thesis using sp by metis
qed

text \<open>The switch and the timeout of a session have no influence on its queues.\<close>

lemma ro_rep_control [simp]: "ro_rep (b\<lparr>wait_timeout := t\<rparr>) ps fs = ro_rep b ps fs"
proof -
  have "lseg (b\<lparr>wait_timeout := t\<rparr>) p xs q = lseg b p xs q" for p xs q by (induction xs arbitrary: p) auto
  then show ?thesis by (simp add: ro_rep_def wf_que_rep_def dll_def)
qed

lemma ro_rel_control [simp]: "ro_rel (b\<lparr>wait_timeout := t\<rparr>) a = ro_rel b a" "ro_rel (b\<lparr>ba_enable := e\<rparr>) a = ro_rel b a"
  by (cases "fst a"; simp add: ro_rel_def fresh_def holds_def node_of_def cong: map_cong)+

section \<open>What the reorder buffer frees\<close>

text \<open>A packet that is not accepted is freed, and nothing else is; the session stays enabled.\<close>

lemma free_wait_keeps:
  assumes "free_reorder_wait s = Some r"
  shows "ba_free_skbs (fst r) = ba_free_skbs s \<and> ba_enable (fst r) = ba_enable s \<and> ba_uploads (fst r) = ba_uploads s"
proof (rule free_reorder_wait.raw_induct [where P = "\<lambda>s r. ba_free_skbs (fst r) = ba_free_skbs s \<and> ba_enable (fst r) = ba_enable s \<and>
      ba_uploads (fst r) = ba_uploads s", OF _ assms], goal_cases)
  case (1 wait s r)
  have keep: "ba_free_skbs s' = ba_free_skbs s" "ba_enable s' = ba_enable s" "ba_uploads s' = ba_uploads s"
    if "rx_free_reorder_dequeue s = (s', x)" for s' x
    using that by (auto simp: rx_free_reorder_dequeue_def wf_list_defs Let_def split: if_splits)
  obtain s' x where d: "rx_free_reorder_dequeue s = (s', x)" by fastforce
  show ?case using 1 d keep [OF d] by (cases x) auto
qed

lemma enqueue_keeps:
  assumes "rx_pending_reorder_enqueue q skb s = Some (s', ret)"
  shows "ba_free_skbs s' = ba_free_skbs s \<and> ba_enable s' = ba_enable s \<and> ba_uploads s' = ba_uploads s"
  using assms free_wait_keeps [of s]
  by (auto simp: rx_pending_reorder_enqueue_def wf_list_defs Let_def bind_eq_Some_conv split: if_splits)

lemma upload_loop_keeps:
  assumes "reorder_upload_loop s = Some r"
  shows "ba_free_skbs (fst r) = ba_free_skbs s \<and> ba_enable (fst r) = ba_enable s"
proof (rule reorder_upload_loop.raw_induct [where P = "\<lambda>s r. ba_free_skbs (fst r) = ba_free_skbs s \<and> ba_enable (fst r) = ba_enable s",
      OF _ assms], goal_cases)
  case (1 loop s r)
  have deq: "ba_free_skbs s' = ba_free_skbs s" "ba_enable s' = ba_enable s" if "rx_pending_reorder_dequeue s = (s', x)" for s' x
    using that by (auto simp: rx_pending_reorder_dequeue_def wf_list_defs Let_def split: if_splits)
  have enq: "ba_free_skbs (fst (rx_free_reorder_enqueue d t)) = ba_free_skbs t" "ba_enable (fst (rx_free_reorder_enqueue d t)) = ba_enable t" for d t
    by (simp_all add: rx_free_reorder_enqueue_def wf_list_defs Let_def)
  obtain s1 x where d: "rx_pending_reorder_dequeue s = (s1, x)" by fastforce
  note k = deq [OF d]
  show ?case
    using 1(2) d k
    by (auto split: option.splits if_splits simp: bind_eq_Some_conv Let_def enq dest!: enqueue_keeps 1(1))
qed

lemma core_frees:
  assumes "reorder_core q (Some skb) s = Some s'"
  shows "ba_enable s' = ba_enable s \<and> (ba_free_skbs s' = ba_free_skbs s \<or> ba_free_skbs s' = ba_free_skbs s @ [Some skb] \<and> ba_uploads s' = ba_uploads s)"
proof -
  obtain s1 ret where c: "rx_do_chk_expect_seq q s = (s1, ret)" by fastforce
  have k1: "ba_free_skbs s1 = ba_free_skbs s" "ba_enable s1 = ba_enable s" "ba_uploads s1 = ba_uploads s"
    using c by (auto simp: rx_do_chk_expect_seq_def Let_def split: if_splits)
  obtain s2 ret2 where e: "(if ret = REORDER_ENQUE then rx_pending_reorder_enqueue q (Some skb) s1 else Some (s1, ret)) = Some (s2, ret2)"
      and r: "(if ret2 < 0 then Some (s2\<lparr>ba_free_skbs := ba_free_skbs s2 @ [Some skb]\<rparr>) else upload_and_arm s2) = Some s'"
    using assms c by (auto simp: reorder_core_def bind_eq_Some_conv split: prod.splits)
  have k2: "ba_free_skbs s2 = ba_free_skbs s1" "ba_enable s2 = ba_enable s1" "ba_uploads s2 = ba_uploads s1"
    using e enqueue_keeps [of q "Some skb" s1 s2 ret2] by (auto split: if_splits)
  show ?thesis
  proof (cases "ret2 < 0")
    case True
    then show ?thesis using r k1 k2 by auto
  next
    case False
    then obtain s3 n where u: "reorder_upload_loop s2 = Some (s3, n)" and "\<exists>t. s' = s3\<lparr>ba_timer := t\<rparr> \<or> s' = s3"
      using r by (auto simp: upload_and_arm_def rx_reorder_upload_def bind_eq_Some_conv split: if_splits prod.splits)
    then show ?thesis using upload_loop_keeps [OF u] k1 k2 by auto
  qed
qed

text \<open>A packet that waits in the buffer was not freed.\<close>

lemma core_accepts:
  assumes "ro_rel b a" "unat q < 4096" "ro_spec w (Arrive q x) a = (os, a')" "reorder_core q (Some x) b = Some b'"
    "x \<notin> snd ` set (snd a)" "x \<in> snd ` set (snd a')"
  shows "ba_free_skbs b' = ba_free_skbs b"
proof (cases "fst a")
  case None
  then have f: "fresh b" "snd a = []" using assms(1) by (simp_all add: ro_rel_def)
  obtain ds n' ys where arr: "spec_arrive 0 x (4096 * w + unat q) [] = (ds, n', ys)" using prod_cases3 by blast
  have "snd a' = ys" using assms(3) None f(2) arr by (auto simp: ro_spec_def)
  with core_refines [OF fresh_core(1) [OF f(1) assms(2)] _ _ arr] fresh_core(2) [OF f(1) assms(2), of x] sn_wrap [OF assms(2), of w] assms(4,6)
  show ?thesis by (auto simp: window_def)
next
  case (Some n)
  then have h: "holds b n (snd a)" "window n (snd a)" using assms(1) by (simp_all add: ro_rel_def)
  obtain ds n' ys where arr: "spec_arrive (dist n q) x n (snd a) = (ds, n', ys)" using prod_cases3 by blast
  have "snd a' = ys" using assms(3) Some arr by (auto simp: ro_spec_def)
  with core_refines [OF h dist_less arr] sn_dist [OF assms(2), of n] assms(4-6) show ?thesis by auto
qed

text \<open>(C17) The packets of a window arrive in any order, \<open>a\<close> being the number of the first: all packets from \<open>a\<close> on are delivered, in the order
  of their numbers. What has a lower number than the first one is not delivered, since the session starts with the number that arrives first.\<close>

theorem reorder_complete:
  assumes "length ns = 64" "distinct (pending_q s # free_q s # ns)" "m \<le> 63" "set (a # ks) = {b..b + m}" "distinct (a # ks)"
  shows "\<exists>s'. ro_run (map (\<lambda>k. Arrive (sn k) (f k)) (a # ks)) (ba_ctl_init (map Some ns) s) = Some s' \<and>
    ba_uploads s' = ba_uploads s @ map f [a..<b + m + 1]"
proof -
  let ?s = "ba_ctl_init (map Some ns) s" and ?es = "map (\<lambda>k. Arrive (sn k) (f k)) (a # ks)"
  have fresh: "fresh ?s" "ba_uploads ?s = ba_uploads s" using ba_ctl_init_fresh [OF assms(1,2)] by simp_all
  have good: "\<forall>e\<in>set ?es. ro_good e" by (auto simp: ro_good_def unat_sn)
  obtain n zs where sp: "ro.spec_run (a div 4096) ?es (None, []) = (map (\<lambda>k. (k, f k)) [a..<b + m + 1], Some n, zs)"
    using spec_run_complete [OF assms(3-5), of f] by blast
  have "ro_rel ?s (None, [])" using fresh by (simp add: ro_rel_def)
  then show ?thesis using ro.run_sim [OF _ good sp, of ?s] fresh(2) by (auto simp: ro_run_eq comp_def)
qed

lemma reorder_complete_witness:
  "\<exists>s'. ro_run (map (\<lambda>k. Arrive (sn k) (k + 1)) (4095 # [4097, 4094, 4096])) (ba_ctl_init (map Some [3..<67]) reorder_blank) = Some s' \<and>
     ba_uploads s' = [4096, 4097, 4098]"
proof -
  have "set [4095, 4097, 4094, 4096] = {4094..4094 + 3 :: nat}" by auto
  moreover have "[4095..<4094 + 3 + 1] = [4095, 4096, 4097 :: nat]" by (simp add: upt_rec)
  ultimately show ?thesis
    using reorder_complete [of "[3..<67]" reorder_blank 3 4095 "[4097, 4094, 4096]" 4094 "\<lambda>k. k + 1"]
    by (simp add: reorder_blank_def)
qed

text \<open>(C35) Restarting a session frees the nodes of the pending packets instead of putting them back,
  and keeps their packets: \<open>free_skb\<close> is not called for any of them. When no free node is left the
  next packet makes the receive path wait forever.\<close>

theorem ba_reinit_loses_nodes:
  assumes "ro_rep s ps fs" "\<forall>p\<in>set ps. ro_skb s p \<noteq> None"
  shows "\<exists>s'. ba_reinit s = Some s' \<and> ro_rep s' [] fs \<and> ba_kfreed s' = ba_kfreed s @ ps \<and> ba_free_skbs s' = ba_free_skbs s \<and>
    (fs = [] \<longrightarrow> (\<forall>seq skb. reorder_core seq (Some skb) s' = None))"
proof -
  let ?s = "s\<lparr>ba_enable := False, indicate_seq := 0xffff, wend_b := 0xffff\<rparr>"
  have r: "ro_rep ?s ps fs" using assms(1) by simp
  obtain s' where s': "ba_drain ?s = Some s'" "ro_rep s' [] fs" "ba_kfreed s' = ba_kfreed s @ ps" "ba_free_skbs s' = ba_free_skbs s" "indicate_seq s' = 0xffff"
    using ba_drain_all [OF r] assms(2) by auto
  have "ba_reinit s = Some s'"
  proof (cases "ps = []")
    case True
    then have "ba_drain ?s = Some ?s" using r by (subst ba_drain.simps) (simp add: pending_dequeue_empty)
    then show ?thesis using True pending_empty_rep [OF r] s'(1) by (simp add: ba_reinit_def)
  next
    case False
    then show ?thesis using pending_empty_rep [OF r] s'(1) by (simp add: ba_reinit_def)
  qed
  then show ?thesis using s' core_without_nodes by blast
qed

lemma ba_reinit_loses_nodes_witness:
  "\<exists>s s'. ro_rep s [3] [] \<and> ba_reinit s = Some s' \<and> ba_kfreed s' = [3] \<and> ba_free_skbs s' = [] \<and> reorder_core 5 (Some 6) s' = None"
proof -
  define s where "s = reorder_blank\<lparr>pnext := id(1 := 3, 3 := 1), prev := id(1 := 3, 3 := 1), cnt := (\<lambda>_. 0)(1 := 1),
      ro_skb := (\<lambda>_. None)(3 := Some 7)\<rparr>"
  have r: "ro_rep s [3] []" by (simp add: s_def ro_rep_def wf_que_rep_def dll_def reorder_blank_def)
  moreover have "\<forall>p\<in>set [3]. ro_skb s p \<noteq> None" "ba_kfreed s = []" "ba_free_skbs s = []" by (simp_all add: s_def reorder_blank_def)
  ultimately show ?thesis using ba_reinit_loses_nodes [of s "[3]" "[]"] by auto
qed

end
