(* ===== verification/Rx_Eth.thy ===== *)
theory Rx_Eth
  imports Rx_Work Rx_Order Wf_80211
begin

text \<open>
  The end of the receive path in the Linux port (\<open>src/trunk_driver/os/linux/rx_linux.c\<close>): the 802.11
  header of a data frame is replaced by an Ethernet header (\<open>wlan_to_eth\<close>), an A-MSDU is split into
  its subframes (\<open>process_amsdu\<close>), the result is ordered by the block-ack window of the sender and
  given to the network stack, forwarded to another station, or freed (\<open>upload_skb\<close>).

  The state extends \<open>nic_rx\<close> by what the skbs themselves say about their data (offset and length,
  set when a packet is handed over; before that they are \<open>pdata\<close> and \<open>ptail\<close> of its slot), the
  block-ack windows of the peers and the events at the border to the kernel and to the transmit path.
  An skb that was given away has no contents any more.
\<close>

section \<open>State\<close>

datatype up_event = Netif_rx nat bytes | Freed nat | Tx_msdu nat bytes bool | Tx_work_wake

record rx_port =
  px_nic :: nic_rx
  px_skb :: "nat \<Rightarrow> nat \<times> nat"
  px_ba :: "nat \<Rightarrow> reorder list option"
  px_out :: "up_event list"

text \<open>What the port asks its surroundings: its mode and address, whether \<open>skb_clone\<close> gives a copy, and
  the result of \<open>wf_tx_msdu\<close> for a frame after the events so far.\<close>

record up_env =
  ue_mode :: sys_work_mode
  ue_dev_addr :: bytes
  ue_clone :: "nat \<Rightarrow> nat option"
  ue_tx :: "up_event list \<Rightarrow> bytes \<Rightarrow> int"

definition px_mem :: "rx_port \<Rightarrow> rx_mem" where
  "px_mem s = nx_mem (px_nic s)"

definition set_mem :: "rx_mem \<Rightarrow> rx_port \<Rightarrow> rx_port" where
  "set_mem m s = s\<lparr>px_nic := (px_nic s)\<lparr>nx_mem := m\<rparr>\<rparr>"

definition drop_skb :: "nat \<Rightarrow> rx_port \<Rightarrow> rx_port" where
  "drop_skb k s = set_mem ((px_mem s)\<lparr>rx_skbs := (rx_skbs (px_mem s))(k := None)\<rparr>) s"

definition emit :: "up_event \<Rightarrow> rx_port \<Rightarrow> rx_port" where
  "emit e s =
     (let s' = s\<lparr>px_out := px_out s @ [e]\<rparr>
      in case e of
           Netif_rx k _ \<Rightarrow> drop_skb k s'
         | Freed k \<Rightarrow> drop_skb k s'
         | Tx_msdu k _ ok \<Rightarrow> if ok then drop_skb k s' else s'
         | Tx_work_wake \<Rightarrow> s')"

section \<open>Packets and skbs\<close>

text \<open>\<open>skb->len\<close> of the skb of a packet, and \<open>pkt_trim\<close>.\<close>

definition skb_len :: "slot \<Rightarrow> nat" where
  "skb_len f = sl_ptail f - sl_pdata f"

definition pkt_trim :: "slot \<Rightarrow> nat \<Rightarrow> slot \<times> nat option" where
  "pkt_trim f n =
     (if skb_len f < n then (f, None)
      else if n = 0 then (f, Some (sl_pdata f))
      else let f' = f\<lparr>sl_ptail := sl_ptail f - n\<rparr>
           in (f'\<lparr>sl_pkt := (sl_pkt f')\<lparr>rp_len := of_nat (skb_len f')\<rparr>\<rparr>, Some (sl_ptail f')))"

definition be16_bytes :: "u16 \<Rightarrow> bytes" where
  "be16_bytes w = [ucast (drop_bit 8 w), ucast w]"

text \<open>\<open>forward\<close> is the part of \<open>upload_skb\<close> that passes a frame to the transmit path.\<close>

definition forward :: "up_env \<Rightarrow> nat \<Rightarrow> bytes \<Rightarrow> rx_port \<Rightarrow> rx_port" where
  "forward env k frame s =
     (if ue_tx env (px_out s) frame \<noteq> 0 then emit (Freed k) (emit (Tx_msdu k frame False) s)
      else emit Tx_work_wake (emit (Tx_msdu k frame True) s))"

definition upload_skb :: "up_env \<Rightarrow> nat option \<Rightarrow> rx_port \<Rightarrow> rx_port option" where
  "upload_skb env pskb s =
     (case pskb of
        None \<Rightarrow> Some s
      | Some k \<Rightarrow> do {
          buf \<leftarrow> rx_skbs (px_mem s) k;
          let (data, len) = px_skb s k;
          dest \<leftarrow> rdn buf data 6;
          frame \<leftarrow> rdn buf data len;
          if ue_mode env = WF_INFRA_MODE \<or> ue_mode env = WF_ADHOC_MODE then
            Some (if ue_dev_addr env = dest \<or> IS_MCAST dest then emit (Netif_rx k frame) s else emit (Freed k) s)
          else if ue_mode env = WF_MASTER_MODE then
            Some (if ue_dev_addr env = dest then emit (Netif_rx k frame) s
                  else if \<not> IS_MCAST dest then forward env k frame s
                  else (let psend_skb = ue_clone env k; s1 = emit (Netif_rx k frame) s
                        in case psend_skb of None \<Rightarrow> s1 | Some k' \<Rightarrow> forward env k' frame s1))
          else Some (emit (Freed k) s)
        })"

section \<open>The header of an MSDU\<close>

text \<open>\<open>skb\<close> is the result of the allocation; the inner \<open>None\<close> is the NULL the code returns. The skb is
  made with room for the MSDU and 14 bytes in front of it: the look at its first bytes has no result
  when they are not there.\<close>

definition alloc_msdu :: "nat option \<Rightarrow> bytes \<Rightarrow> bytes \<Rightarrow> bytes \<Rightarrow> (nat \<times> bytes) option option" where
  "alloc_msdu skb da sa msdu =
     (case skb of
        None \<Rightarrow> Some None
      | Some k \<Rightarrow> do {
          snap \<leftarrow> is_snap_hdr msdu;
          Some (Some (k, if snap then da @ sa @ drop 6 msdu
                         else da @ sa @ be16_bytes (of_nat (length msdu)) @ msdu))
        })"

text \<open>The position behind a subframe and the bytes left there; \<open>None\<close> is one of the two breaks in the
  second half of the loop of \<open>process_amsdu\<close>. \<open>MAX_SUBFRAME_COUNT\<close> is 64.\<close>

definition amsdu_next :: "nat \<Rightarrow> int \<Rightarrow> u8 \<Rightarrow> u16 \<Rightarrow> (nat \<times> int) option" where
  "amsdu_next pos pktlen nr_subframes subframeSize =
     (let pos1 = pos + 14; len1 = pktlen - 14
      in if 64 < nr_subframes then None
         else let pos2 = pos1 + unat subframeSize; len2 = len1 - uint subframeSize
              in if len2 \<noteq> 0 then
                   (let padding = 4 - (unat subframeSize + 14) mod 4; padding_len = (if padding = 4 then 0 else padding)
                    in if len2 < int padding_len then None else Some (pos2 + padding_len, len2 - int padding_len))
                 else Some (pos2, len2))"

lemma amsdu_next_less:
  assumes "amsdu_next pos pktlen nr sz = Some (pos', pktlen')" "uint sz + 14 \<le> pktlen"
  shows "nat pktlen' < nat pktlen"
proof -
  have z: "0 \<le> uint sz" by simp
  from assms(1) have "pktlen' \<le> pktlen - 14 - uint sz" by (auto simp: amsdu_next_def Let_def split: if_splits)
  then show ?thesis using assms(2) z by linarith
qed

text \<open>The loop over the subframes. \<open>alloc\<close> gives the result of each allocation.\<close>

function amsdu_loop :: "(nat \<Rightarrow> nat option) \<Rightarrow> bytes \<Rightarrow> nat \<Rightarrow> int \<Rightarrow> u8 \<Rightarrow> (nat \<times> bytes) list option" where
  "amsdu_loop alloc buf pos pktlen nr_subframes = do {
     sz \<leftarrow> rdn buf (pos + 12) 2;
     let subframeSize = be16_of (sz ! 0) (sz ! 1);
     if pktlen < uint subframeSize + 14 then Some []
     else do {
       da \<leftarrow> rdn buf pos 6;
       sa \<leftarrow> rdn buf (pos + 6) 6;
       msdu \<leftarrow> rdn buf (pos + 14) (unat subframeSize);
       pskb \<leftarrow> alloc_msdu (alloc (unat nr_subframes)) da sa msdu;
       case pskb of
         None \<Rightarrow> Some []
       | Some sub \<Rightarrow>
           (case amsdu_next pos pktlen (nr_subframes + 1) subframeSize of
              None \<Rightarrow> Some [sub]
            | Some (pos', pktlen') \<Rightarrow>
                if 14 < pktlen' then do { rest \<leftarrow> amsdu_loop alloc buf pos' pktlen' (nr_subframes + 1); Some (sub # rest) }
                else Some [sub])
     }
   }"
  by pat_completeness auto
termination
proof (relation "measure (\<lambda>(_, _, _, pktlen, _). nat pktlen)", goal_cases)
  case (2 alloc buf pos pktlen nr sz size da sa msdu pskb sub nx pos' pktlen')
  from amsdu_next_less [of pos pktlen "nr + 1" size pos' pktlen'] 2 show ?case
    by (simp only: in_measure prod.case not_less)
qed simp

declare amsdu_loop.simps [simp del]

text \<open>The subframes become skbs of their own.\<close>

definition new_skb :: "nat \<times> bytes \<Rightarrow> rx_port \<Rightarrow> rx_port" where
  "new_skb sub s = (set_mem ((px_mem s)\<lparr>rx_skbs := (rx_skbs (px_mem s))(fst sub \<mapsto> snd sub)\<rparr>) s)
     \<lparr>px_skb := (px_skb s)(fst sub := (0, length (snd sub)))\<rparr>"

fun upload_all :: "up_env \<Rightarrow> nat list \<Rightarrow> rx_port \<Rightarrow> rx_port option" where
  "upload_all env [] s = Some s"
| "upload_all env (k # ks) s = Option.bind (upload_skb env (Some k) s) (upload_all env ks)"

definition process_amsdu :: "up_env \<Rightarrow> (nat \<Rightarrow> nat option) \<Rightarrow> slot \<Rightarrow> rx_port \<Rightarrow> (rx_port \<times> int) option" where
  "process_amsdu env alloc f s = do {
     r \<leftarrow> load_slot (px_mem s) f;
     frame_type \<leftarrow> GET_HDR_Type (rp_pdata r);
     if frame_type \<noteq> MAC_FRAME_TYPE_DATA then Some (s, -1)
     else do {
       let info = pkt_info r;
       let pktlen = sint (rp_len r - ucast (ri_wlan_hdr_len info) - ucast (ri_iv_len info));
       subs \<leftarrow> amsdu_loop alloc (rp_pdata r) (unat (ri_wlan_hdr_len info) + unat (ri_iv_len info)) pktlen 0;
       s' \<leftarrow> upload_all env (map fst subs) (fold new_skb subs s);
       Some (s', 0)
     }
   }"

definition wlan_to_eth :: "slot \<Rightarrow> rx_mem \<Rightarrow> (slot \<times> rx_mem \<times> int) option" where
  "wlan_to_eth f0 s = do {
     let info = pkt_info (sl_pkt f0);
     let f = (if ri_bdecrypted info \<noteq> 0 then fst (pkt_trim f0 (unat (ri_icv_len info))) else f0);
     if rp_len (sl_pkt f) = ucast (ri_wlan_hdr_len info) then Some (f, s, -1)
     else do {
       buf \<leftarrow> rx_skbs s (sl_skb f);
       let snap_hdr_offset = ri_wlan_hdr_len info + ri_iv_len info;
       bsnap \<leftarrow> is_snap_hdr (drop (sl_pdata f + unat snap_hdr_offset) buf);
       let rmv_len = snap_hdr_offset + (if bsnap then 6 else 0);
       if rp_len (sl_pkt f) < ucast rmv_len then Some (f, s, -1)
       else do {
         let data_len = (ucast (rp_len (sl_pkt f) - ucast rmv_len) :: u16);
         _ \<leftarrow> rdn buf (sl_pdata f + unat rmv_len) 2;
         let pull = uint rmv_len - 14 + (if bsnap then 2 else 0);
         f' \<leftarrow> (if pull < 0 then None else pkt_pull f (word_of_int pull));
         b1 \<leftarrow> wrn buf (sl_pdata f') (ri_dst_addr info);
         b2 \<leftarrow> wrn b1 (sl_pdata f' + 6) (ri_src_addr info);
         b3 \<leftarrow> (if bsnap then Some b2 else wrn b2 (sl_pdata f' + 12) (be16_bytes data_len));
         Some (f', s\<lparr>rx_skbs := (rx_skbs s)(sl_skb f \<mapsto> b3)\<rparr>, 0)
       }
     }
   }"

section \<open>Data frames\<close>

definition publish :: "slot \<Rightarrow> rx_port \<Rightarrow> rx_port" where
  "publish f s = s\<lparr>px_skb := (px_skb s)(sl_skb f := (sl_pdata f, skb_len f))\<rparr>"

definition rx_data_upload_process :: "up_env \<Rightarrow> (nat \<Rightarrow> nat option) \<Rightarrow> slot \<Rightarrow> rx_port \<Rightarrow> rx_port option" where
  "rx_data_upload_process env alloc f s =
     (if ri_amsdu (pkt_info (sl_pkt f)) \<noteq> 0 then do {
        (s1, _) \<leftarrow> process_amsdu env alloc f s;
        Some (emit (Freed (sl_skb f)) s1)
      }
      else do {
        (f', m, ret) \<leftarrow> wlan_to_eth f (px_mem s);
        let s1 = publish f' (set_mem m s);
        if ret = 0 then upload_skb env (Some (sl_skb f)) s1 else Some (emit (Freed (sl_skb f)) s1)
      })"

text \<open>The reorder buffer calls \<open>upload_skb\<close> and \<open>free_skb_func\<close>, here for the skbs it has added to its two
  records.\<close>

fun free_all :: "nat option list \<Rightarrow> rx_port \<Rightarrow> rx_port" where
  "free_all [] s = s"
| "free_all (None # ks) s = free_all ks s"
| "free_all (Some k # ks) s = free_all ks (emit (Freed k) s)"

definition reorder_calls :: "up_env \<Rightarrow> reorder \<Rightarrow> reorder \<Rightarrow> rx_port \<Rightarrow> rx_port option" where
  "reorder_calls env b b' s = do {
     s1 \<leftarrow> upload_all env (drop (length (ba_uploads b)) (ba_uploads b')) s;
     Some (free_all (drop (length (ba_free_skbs b)) (ba_free_skbs b')) s1)
   }"

definition rx_data_reorder_process :: "up_env \<Rightarrow> slot \<Rightarrow> rx_port \<Rightarrow> rx_port option" where
  "rx_data_reorder_process env f s =
     (let info = pkt_info (sl_pkt f); prio = ri_qos_pri info
      in case rp_wdn_info (sl_pkt f) of
           None \<Rightarrow> Some (emit (Freed (sl_skb f)) s)
         | Some p \<Rightarrow>
             if 15 < prio then Some (emit (Freed (sl_skb f)) s)
             else do {
               (f', m, ret) \<leftarrow> wlan_to_eth f (px_mem s);
               let s1 = publish f' (set_mem m s);
               if ret < 0 then Some (emit (Freed (sl_skb f)) s1)
               else if ri_qos_flag info = 0 then upload_skb env (Some (sl_skb f)) s1
               else (case px_ba s1 p of
                   None \<Rightarrow> upload_skb env (Some (sl_skb f)) s1
                 | Some bas \<Rightarrow>
                     if \<not> unat prio < length bas then None
                     else if \<not> ba_enable (bas ! unat prio) then upload_skb env (Some (sl_skb f)) s1
                     else do {
                       let b0 = bas ! unat prio;
                       let b1 = (if wait_timeout b0 = 0 then b0\<lparr>wait_timeout := 50\<rparr> else b0);
                       bas' \<leftarrow> wf_rx_data_reorder_core prio (ri_seq_num info) (Some (sl_skb f)) (bas[unat prio := b1]);
                       reorder_calls env b1 (bas' ! unat prio) (s1\<lparr>px_ba := (px_ba s1)(p \<mapsto> bas')\<rparr>)
                     })
             })"

text \<open>All of \<open>mpdu_process\<close>: what the part in \<open>Rx_Work\<close> decides is done.\<close>

definition mpdu_receive ::
  "up_env \<Rightarrow> (nat \<Rightarrow> nat option) \<Rightarrow> (slot \<Rightarrow> nic_rx \<Rightarrow> nic_rx \<times> int) \<Rightarrow> rx_cfg \<Rightarrow> sec_info \<Rightarrow> wdn_list \<Rightarrow> bool \<Rightarrow> nat option \<Rightarrow>
     bytes \<Rightarrow> bytes \<Rightarrow> rx_port \<Rightarrow> rx_port option" where
  "mpdu_receive env alloc mgmt cfg sec wl hw_ba_enable skb rest buf s = do {
     (n, act) \<leftarrow> mpdu_process mgmt cfg sec wl hw_ba_enable skb rest buf (px_nic s);
     let s1 = s\<lparr>px_nic := n\<rparr>;
     case act of
       Dropped \<Rightarrow> Some s1
     | To_reorder f \<Rightarrow> rx_data_reorder_process env f s1
     | To_upload f \<Rightarrow> rx_data_upload_process env alloc f s1
   }"

section \<open>The frame an MSDU stands for\<close>

text \<open>The Ethernet frame of an MSDU: a SNAP header that encapsulates an EtherType is removed, any other
  payload gets a length field.\<close>

definition eth_frame :: "bytes \<Rightarrow> bytes \<Rightarrow> bytes \<Rightarrow> bytes" where
  "eth_frame da sa body =
     da @ sa @ (if is_snap_hdr body = Some True then drop 6 body else be16_bytes (of_nat (length body)) @ body)"

lemma length_be16_bytes [simp]: "length (be16_bytes w) = 2"
  by (simp add: be16_bytes_def)

lemma be16_of_bytes: "be16_of (be16_bytes w ! 0) (be16_bytes w ! Suc 0) = w"
  unfolding be16_bytes_def be16_of_def by (rule bit_word_eqI) (auto simp: bit_simps)

lemma is_snap_total: "8 \<le> length b \<Longrightarrow> \<exists>x. is_snap_hdr b = Some x"
  by (auto simp: is_snap_hdr_def rdn_def)

lemma is_snap_append: "8 \<le> length b \<Longrightarrow> is_snap_hdr (b @ c) = is_snap_hdr b"
  by (auto simp: is_snap_hdr_def rdn_def)

lemma length_eth_frame: "length da = 6 \<Longrightarrow> length sa = 6 \<Longrightarrow> 8 \<le> length body \<Longrightarrow> 14 \<le> length (eth_frame da sa body)"
  by (auto simp: eth_frame_def)

lemma alloc_msdu_frame: "8 \<le> length m \<Longrightarrow> alloc_msdu (Some k) da sa m = Some (Some (k, eth_frame da sa m))"
  using is_snap_total [of m] by (auto simp: alloc_msdu_def eth_frame_def)

section \<open>Aggregates of MSDUs\<close>

text \<open>The A-MSDU of a list of (destination, source, payload): every subframe but the last is padded to a
  multiple of 4.\<close>

type_synonym msdu = "bytes \<times> bytes \<times> bytes"

definition subframe :: "msdu \<Rightarrow> bytes" where
  "subframe x = (case x of (da, sa, m) \<Rightarrow> da @ sa @ be16_bytes (of_nat (length m)) @ m)"

definition pad4 :: "bytes \<Rightarrow> bytes" where
  "pad4 b = b @ replicate ((4 - length b mod 4) mod 4) 0"

fun amsdu_of :: "msdu list \<Rightarrow> bytes" where
  "amsdu_of [] = []"
| "amsdu_of [x] = subframe x"
| "amsdu_of (x # y # xs) = pad4 (subframe x) @ amsdu_of (y # xs)"

definition msdu_ok :: "msdu \<Rightarrow> bool" where
  "msdu_ok x \<longleftrightarrow> (case x of (da, sa, m) \<Rightarrow> length da = 6 \<and> length sa = 6 \<and> 8 \<le> length m \<and> length m \<le> 2304)"

definition eth_of :: "msdu \<Rightarrow> bytes" where
  "eth_of x = (case x of (da, sa, m) \<Rightarrow> eth_frame da sa m)"

lemma length_subframe: "msdu_ok (da, sa, m) \<Longrightarrow> length (subframe (da, sa, m)) = length m + 14"
  by (simp add: subframe_def msdu_ok_def)

lemma length_amsdu_of: "msdu_ok x \<Longrightarrow> 22 \<le> length (amsdu_of (x # xs))"
  by (cases xs; cases x) (auto simp: pad4_def subframe_def msdu_ok_def)

text \<open>One round of the loop on a subframe.\<close>

lemma subframe_reads:
  fixes pre post :: bytes
  assumes "msdu_ok (da, sa, m)"
  defines "buf \<equiv> pre @ subframe (da, sa, m) @ post"
  shows "rdn buf (length pre + 12) 2 = Some (be16_bytes (of_nat (length m)))" "rdn buf (length pre) 6 = Some da"
    "rdn buf (length pre + 6) 6 = Some sa" "rdn buf (length pre + 14) (length m) = Some m"
  using assms(1) unfolding buf_def by (simp_all add: rdn_def subframe_def msdu_ok_def)

lemma amsdu_loop_step:
  assumes "msdu_ok (da, sa, m)" "int (length m) + 14 \<le> pktlen" "alloc (unat nr) = Some k"
  shows "amsdu_loop alloc (pre @ subframe (da, sa, m) @ post) (length pre) pktlen nr =
    (case amsdu_next (length pre) pktlen (nr + 1) (of_nat (length m)) of
       None \<Rightarrow> Some [(k, eth_frame da sa m)]
     | Some (pos', pktlen') \<Rightarrow>
         if 14 < pktlen' then map_option ((#) (k, eth_frame da sa m)) (amsdu_loop alloc (pre @ subframe (da, sa, m) @ post) pos' pktlen' (nr + 1))
         else Some [(k, eth_frame da sa m)])"
proof -
  have len: "8 \<le> length m" "length m \<le> 2304" using assms(1) by (simp_all add: msdu_ok_def)
  have u: "unat (of_nat (length m) :: u16) = length m" "uint (of_nat (length m) :: u16) = int (length m)"
    using len by (simp_all add: unat_of_nat_u16 uint_nat)
  show ?thesis
    by (subst amsdu_loop.simps)
       (use assms len in \<open>simp add: subframe_reads be16_of_bytes u alloc_msdu_frame map_conv_bind_option comp_def Let_def split: option.splits\<close>)
qed

lemma amsdu_next_last:
  assumes "length m \<le> 2304" "0 \<le> t" "t \<le> 14" "amsdu_next pos (int (length m) + 14 + t) nr (of_nat (length m)) = Some (pos', pktlen')"
  shows "pktlen' \<le> 14"
proof -
  have u: "uint (of_nat (length m) :: u16) = int (length m)" using assms(1) by (simp add: unat_of_nat_u16 uint_nat)
  then show ?thesis using assms(2-4) by (auto simp: amsdu_next_def Let_def u split: if_splits)
qed

lemma amsdu_next_middle:
  assumes "msdu_ok (da, sa, m)" "0 < L" "nr \<le> 64"
  shows "amsdu_next pos (int (length (pad4 (subframe (da, sa, m)))) + L) nr (of_nat (length m)) =
    Some (pos + length (pad4 (subframe (da, sa, m))), L)"
proof -
  have len: "length m \<le> 2304" using assms(1) by (simp add: msdu_ok_def)
  have u: "unat (of_nat (length m) :: u16) = length m" "uint (of_nat (length m) :: u16) = int (length m)"
    using len by (simp_all add: unat_of_nat_u16 uint_nat)
  define r where "r = (length m + 14) mod 4"
  define pad where "pad = (if 4 - r = 4 then 0 else 4 - r)"
  have r: "r < 4" by (simp add: r_def)
  have pad: "(4 - r) mod 4 = pad" using r by (simp add: pad_def)
  have l: "length (pad4 (subframe (da, sa, m))) = length m + 14 + pad"
    using pad by (simp add: pad4_def length_subframe [OF assms(1)] r_def)
  have "amsdu_next pos (int (length m + 14 + pad) + L) nr (of_nat (length m)) = Some (pos + (length m + 14 + pad), L)"
    using assms(2,3) by (simp add: amsdu_next_def Let_def u r_def [symmetric] pad_def [symmetric] not_less [symmetric])
  then show ?thesis by (simp only: l)
qed

lemma amsdu_loop_all:
  assumes "xs \<noteq> []" "\<forall>x\<in>set xs. msdu_ok x" "n + length xs \<le> 64" "0 \<le> t" "t \<le> 14"
  shows "amsdu_loop (\<lambda>i. Some (ks i)) (pre @ amsdu_of xs @ post) (length pre) (int (length (amsdu_of xs)) + t) (of_nat n) =
    Some (map2 (\<lambda>i x. (ks i, eth_of x)) [n..<n + length xs] xs)"
  using assms(1-3)
proof (induction xs arbitrary: pre n rule: amsdu_of.induct)
  case (2 x)
  obtain da sa m where x: "x = (da, sa, m)" by (cases x)
  have ok: "msdu_ok (da, sa, m)" using 2 x by simp
  have n: "unat (of_nat n :: u8) = n" using 2 by (simp add: unsigned_of_nat take_bit_nat_eq_self)
  have "pktlen' \<le> 14" if "amsdu_next pos (int (length m) + 14 + t) nr (of_nat (length m)) = Some (pos', pktlen')" for pos nr pos' pktlen'
    using amsdu_next_last [OF _ assms(4,5) that] ok by (simp add: msdu_ok_def)
  then have "amsdu_loop (\<lambda>i. Some (ks i)) (pre @ subframe (da, sa, m) @ post) (length pre) (int (length m) + 14 + t) (of_nat n) =
      Some [(ks n, eth_frame da sa m)]"
    using amsdu_loop_step [OF ok, of "int (length m) + 14 + t" "\<lambda>i. Some (ks i)" "of_nat n" "ks n" pre post] assms(4) n
    by (cases "amsdu_next (length pre) (int (length m) + 14 + t) (of_nat n + 1) (of_nat (length m))") (fastforce simp: not_less [symmetric])+
  then show ?case by (simp add: x length_subframe [OF ok] eth_of_def)
next
  case (3 x y xs)
  obtain da sa m where x: "x = (da, sa, m)" by (cases x)
  have ok: "msdu_ok (da, sa, m)" "msdu_ok y" using 3 x by simp_all
  let ?p = "pad4 (subframe x)" and ?L = "int (length (amsdu_of (y # xs))) + t"
  have n: "unat (of_nat n :: u8) = n" using 3 by (simp add: unsigned_of_nat take_bit_nat_eq_self)
  have n1': "of_nat n + 1 = (of_nat (n + 1) :: u8)" by simp
  have "unat (of_nat (n + 1) :: u8) = n + 1" using 3(4) by (simp only: unsigned_of_nat) (simp add: take_bit_nat_eq_self)
  then have n1: "(of_nat n + 1 :: u8) \<le> 64" "of_nat n + 1 = (of_nat (n + 1) :: u8)"
    using 3(4) by (simp_all only: n1' word_le_nat_alt) simp
  have L: "14 < ?L" using length_amsdu_of [OF ok(2), of xs] assms(4) by linarith
  define post' where "post' = replicate ((4 - length (subframe x) mod 4) mod 4) 0 @ amsdu_of (y # xs) @ post"
  have split: "pre @ amsdu_of (x # y # xs) @ post = pre @ subframe (da, sa, m) @ post'" by (simp add: post'_def pad4_def x)
  have le: "int (length m) + 14 \<le> int (length ?p) + ?L" using length_subframe [OF ok(1)] L by (simp add: pad4_def x)
  have nx: "amsdu_next (length pre) (int (length ?p) + ?L) (of_nat n + 1) (of_nat (length m)) = Some (length pre + length ?p, ?L)"
    using amsdu_next_middle [OF ok(1) _ n1(1), of ?L "length pre"] L by (simp add: x)
  have IH: "amsdu_loop (\<lambda>i. Some (ks i)) (pre @ subframe (da, sa, m) @ post') (length pre + length ?p) ?L (of_nat n + 1) =
      Some (map2 (\<lambda>i x. (ks i, eth_of x)) [n + 1..<n + 1 + length (y # xs)] (y # xs))"
    using 3(1) [of "n + 1" "pre @ ?p"] 3(3,4) unfolding split [symmetric] n1(2) by simp
  have total: "int (length (amsdu_of (x # y # xs))) + t = int (length ?p) + ?L" by simp
  have "amsdu_loop (\<lambda>i. Some (ks i)) (pre @ amsdu_of (x # y # xs) @ post) (length pre) (int (length (amsdu_of (x # y # xs))) + t) (of_nat n) =
      Some ((ks n, eth_frame da sa m) # map2 (\<lambda>i x. (ks i, eth_of x)) [n + 1..<n + 1 + length (y # xs)] (y # xs))"
    using amsdu_loop_step [OF ok(1) le, of "\<lambda>i. Some (ks i)" "of_nat n" "ks n" pre post'] n nx IH L unfolding split total by simp
  moreover have "[n..<n + length (x # y # xs)] = n # [n + 1..<n + 1 + length (y # xs)]" by (subst upt_conv_Cons) simp_all
  ultimately show ?case by (simp add: x eth_of_def)
qed simp

section \<open>Handing over\<close>

text \<open>What a station does with a frame: it goes to the stack when it is for this station or for a group,
  otherwise it is freed.\<close>

definition station_event :: "up_env \<Rightarrow> nat \<times> bytes \<Rightarrow> up_event" where
  "station_event env sub =
     (if ue_dev_addr env = take 6 (snd sub) \<or> IS_MCAST (take 6 (snd sub)) then Netif_rx (fst sub) (snd sub) else Freed (fst sub))"

definition holds_skb :: "rx_port \<Rightarrow> nat \<times> bytes \<Rightarrow> bool" where
  "holds_skb s sub \<longleftrightarrow> (\<exists>buf d. rx_skbs (px_mem s) (fst sub) = Some buf \<and> px_skb s (fst sub) = (d, length (snd sub)) \<and>
     rdn buf d (length (snd sub)) = Some (snd sub)) \<and> 6 \<le> length (snd sub)"

lemma emit_station:
  "px_out (emit (station_event env sub) s) = px_out s @ [station_event env sub]"
  "fst sub' \<noteq> fst sub \<Longrightarrow> holds_skb (emit (station_event env sub) s) sub' = holds_skb s sub'"
  by (simp_all add: emit_def station_event_def drop_skb_def set_mem_def px_mem_def holds_skb_def)

lemma upload_station:
  assumes "ue_mode env = WF_INFRA_MODE \<or> ue_mode env = WF_ADHOC_MODE" "holds_skb s sub"
  shows "upload_skb env (Some (fst sub)) s = Some (emit (station_event env sub) s)"
proof -
  obtain buf d where b: "rx_skbs (px_mem s) (fst sub) = Some buf" "px_skb s (fst sub) = (d, length (snd sub))"
      "rdn buf d (length (snd sub)) = Some (snd sub)" "6 \<le> length (snd sub)"
    using assms(2) by (auto simp: holds_skb_def)
  have "take 6 (snd sub) = take 6 (drop d buf)" using b(3,4) by (auto simp: rdn_def min_absorb1 split: if_splits) (metis min.absorb1 take_take)
  then have "rdn buf d 6 = Some (take 6 (snd sub))" using b(3,4) by (auto simp: rdn_def split: if_splits)
  then show ?thesis using assms(1) b by (auto simp: upload_skb_def station_event_def)
qed

lemma upload_all_station:
  assumes "ue_mode env = WF_INFRA_MODE \<or> ue_mode env = WF_ADHOC_MODE" "\<forall>sub\<in>set subs. holds_skb s sub" "distinct (map fst subs)"
  shows "upload_all env (map fst subs) s = Some (fold (\<lambda>sub. emit (station_event env sub)) subs s)"
  using assms(2,3)
proof (induction subs arbitrary: s)
  case (Cons sub subs)
  let ?s = "emit (station_event env sub) s"
  have "\<forall>sub'\<in>set subs. holds_skb ?s sub'" using Cons.prems emit_station(2) [of _ sub env s] by (metis distinct.simps(2) image_eqI list.set_intros(2) list.set_map list.simps(9))
  then have "upload_all env (map fst subs) ?s = Some (fold (\<lambda>sub. emit (station_event env sub)) subs ?s)"
    using Cons.IH [of ?s] Cons.prems by auto
  then show ?case using upload_station [OF assms(1)] Cons.prems by auto
qed simp

lemma fold_emit_out: "px_out (fold (\<lambda>sub. emit (station_event env sub)) subs s) = px_out s @ map (station_event env) subs"
  by (induction subs arbitrary: s) (simp_all add: emit_station)

lemma new_skb_holds:
  "fst sub' \<noteq> fst sub \<Longrightarrow> holds_skb (new_skb sub s) sub' = holds_skb s sub'"
  "6 \<le> length (snd sub) \<Longrightarrow> holds_skb (new_skb sub s) sub" "px_out (new_skb sub s) = px_out s"
  by (simp_all add: new_skb_def holds_skb_def set_mem_def px_mem_def rdn_def)

lemma fold_new_skb_other: "fst sub' \<notin> fst ` set subs \<Longrightarrow> holds_skb (fold new_skb subs s) sub' = holds_skb s sub'"
  by (induction subs arbitrary: s) (auto simp: new_skb_holds)

lemma fold_new_skb:
  assumes "distinct (map fst subs)" "\<forall>sub\<in>set subs. 6 \<le> length (snd sub)"
  shows "px_out (fold new_skb subs s) = px_out s \<and> (\<forall>sub\<in>set subs. holds_skb (fold new_skb subs s) sub)"
  using assms
proof (induction subs arbitrary: s)
  case (Cons sub subs)
  then have "holds_skb (fold new_skb subs (new_skb sub s)) sub"
    by (subst fold_new_skb_other) (auto simp: new_skb_holds)
  then show ?case using Cons by (auto simp: new_skb_holds)
qed simp

section \<open>From 802.11 to Ethernet\<close>

lemma unat_ucast_u8_u32 [simp]: "unat (ucast (w :: u8) :: u32) = unat w"
  using unat_u8_less [of w] by (simp add: unsigned_ucast_eq take_bit_nat_eq_self)

lemma write_header:
  assumes "length da = 6" "length sa = 6" "length m = 12 + length x"
  shows "wrn (a @ m @ r) (length a) da = Some (a @ da @ drop 6 m @ r)"
    "wrn (a @ da @ drop 6 m @ r) (length a + 6) sa = Some (a @ da @ sa @ drop 12 m @ r)"
    "wrn (a @ da @ sa @ drop 12 m @ r) (length a + 12) x = Some (a @ da @ sa @ x @ r)"
  using assms by (simp_all add: wrn_def)

text \<open>Where a packet is in its skb: header, payload and ICV of the frame, with the memory around it.\<close>

definition mpdu_at :: "rx_mem \<Rightarrow> slot \<Rightarrow> bytes \<Rightarrow> bytes \<Rightarrow> bytes \<Rightarrow> bool" where
  "mpdu_at s f hdr body icv \<longleftrightarrow>
     (\<exists>pre post. rx_skbs s (sl_skb f) = Some (pre @ hdr @ body @ icv @ post) \<and> sl_pdata f = length pre) \<and>
     sl_ptail f = sl_pdata f + length (hdr @ body @ icv) \<and> rp_len (sl_pkt f) = of_nat (length (hdr @ body @ icv)) \<and>
     length (hdr @ body @ icv) < 65536"

definition hdrs_ok :: "slot \<Rightarrow> bytes \<Rightarrow> bytes \<Rightarrow> bool" where
  "hdrs_ok f hdr icv \<longleftrightarrow> (let info = pkt_info (sl_pkt f)
     in length hdr = unat (ri_wlan_hdr_len info) + unat (ri_iv_len info) \<and> 24 \<le> length hdr \<and> length hdr \<le> 200 \<and>
        length icv = (if ri_bdecrypted info \<noteq> 0 then unat (ri_icv_len info) else 0) \<and>
        length (ri_dst_addr info) = 6 \<and> length (ri_src_addr info) = 6)"

lemma trim_icv:
  assumes "mpdu_at s f hdr body icv" "hdrs_ok f hdr icv"
  defines "g \<equiv> if ri_bdecrypted (pkt_info (sl_pkt f)) \<noteq> 0 then fst (pkt_trim f (unat (ri_icv_len (pkt_info (sl_pkt f))))) else f"
  shows "sl_skb g = sl_skb f" "sl_pdata g = sl_pdata f" "sl_ptail g = sl_pdata f + length (hdr @ body)"
    "rp_len (sl_pkt g) = of_nat (length (hdr @ body))"
  using assms(1,2) unfolding g_def by (auto simp: mpdu_at_def hdrs_ok_def Let_def pkt_trim_def skb_len_def)

lemma wlan_to_eth_result:
  assumes "mpdu_at s f hdr body icv" "hdrs_ok f hdr icv" "8 \<le> length body"
  shows "\<exists>f' b3. wlan_to_eth f s = Some (f', s\<lparr>rx_skbs := (rx_skbs s)(sl_skb f \<mapsto> b3)\<rparr>, 0) \<and> sl_skb f' = sl_skb f \<and>
    rdn b3 (sl_pdata f') (skb_len f') =
      Some (eth_frame (ri_dst_addr (pkt_info (sl_pkt f))) (ri_src_addr (pkt_info (sl_pkt f))) body) \<and>
    skb_len f' = length (eth_frame (ri_dst_addr (pkt_info (sl_pkt f))) (ri_src_addr (pkt_info (sl_pkt f))) body)"
proof -
  define info where "info = pkt_info (sl_pkt f)"
  define da where "da = ri_dst_addr info"
  define sa where "sa = ri_src_addr info"
  define off where "off = ri_wlan_hdr_len info + ri_iv_len info"
  define g where "g = (if ri_bdecrypted info \<noteq> 0 then fst (pkt_trim f (unat (ri_icv_len info))) else f)"
  obtain pre post where buf: "rx_skbs s (sl_skb f) = Some (pre @ hdr @ body @ icv @ post)" "sl_pdata f = length pre"
    using assms(1) by (auto simp: mpdu_at_def)
  have g: "sl_skb g = sl_skb f" "sl_pdata g = length pre" "sl_ptail g = length pre + length (hdr @ body)"
      "rp_len (sl_pkt g) = of_nat (length (hdr @ body))"
    using trim_icv [OF assms(1,2)] buf(2) unfolding g_def info_def by simp_all
  have h: "length hdr = unat (ri_wlan_hdr_len info) + unat (ri_iv_len info)" "24 \<le> length hdr" "length hdr \<le> 200"
      "length da = 6" "length sa = 6"
    using assms(2) by (simp_all add: hdrs_ok_def Let_def info_def da_def sa_def)
  have small: "length (hdr @ body) < 65536" using assms(1) by (simp add: mpdu_at_def)
  have off: "unat off = length hdr" using h by (simp add: off_def unat_word_ariths)
  define B where "B = pre @ hdr @ body @ icv @ post"
  have len: "unat (rp_len (sl_pkt g)) = length (hdr @ body)" using small unfolding g(4) by (intro unat_of_nat_u32) simp
  have nonnull: "rp_len (sl_pkt g) \<noteq> ucast (ri_wlan_hdr_len info)"
  proof
    assume "rp_len (sl_pkt g) = ucast (ri_wlan_hdr_len info)"
    then have "length (hdr @ body) = unat (ri_wlan_hdr_len info)" using len by simp
    then show False using h(1) assms(3) by simp
  qed
  obtain bsnap where snap: "is_snap_hdr body = Some bsnap" using is_snap_total [OF assms(3)] by blast
  have snap': "is_snap_hdr (drop (sl_pdata g + unat off) B) = Some bsnap"
    using snap is_snap_append [OF assms(3), of "icv @ post"] by (simp add: g(2) off B_def)
  define k where "k = (if bsnap then 6 else 0 :: nat)"
  define rmv where "rmv = off + (if bsnap then 6 else 0)"
  have rmv: "unat rmv = length hdr + k"
    using h(3) off by (cases bsnap) (simp_all add: rmv_def k_def unat_word_ariths)
  define pull where "pull = uint rmv - 14 + (if bsnap then 2 else 0)"
  define p where "p = length hdr + k - 14 + (if bsnap then 2 else 0)"
  have pull: "pull = int p" using rmv h(2) unfolding pull_def p_def uint_nat by (cases bsnap) (simp_all add: k_def)
  have p: "p \<le> 200" "p + 12 + (if bsnap then 0 else 2) = length hdr + k" using h(2,3) unfolding p_def k_def by auto
  have ph: "p \<le> length hdr" using p(2) by (cases bsnap) (simp_all add: k_def)
  have wp: "(word_of_int pull :: u8) = of_nat p" "unat (of_nat p :: u8) = p"
    using p(1) by (simp_all add: pull unsigned_of_nat take_bit_nat_eq_self)
  have rdtype: "rdn B (sl_pdata g + unat rmv) 2 = Some (take 2 (drop (sl_pdata g + unat rmv) B))"
    using assms(3) unfolding rdn_def g(2) rmv B_def k_def by (cases bsnap) simp_all
  have nlt: "\<not> rp_len (sl_pkt g) < ucast rmv"
    using len rmv assms(3) unfolding word_less_nat_alt by (cases bsnap) (simp_all add: k_def)
  define g' where "g' = g\<lparr>sl_pdata := sl_pdata g + p, sl_pkt := (sl_pkt g)\<lparr>rp_len := rp_len (sl_pkt g) - ucast (of_nat p :: u8)\<rparr>\<rparr>"
  have pl: "pkt_pull g (word_of_int pull) = Some g'"
    using len ph wp by (simp add: pkt_pull_def word_less_nat_alt g'_def)
  define dl where "dl = (ucast (rp_len (sl_pkt g) - ucast rmv) :: u16)"
  have sub: "unat (rp_len (sl_pkt g) - ucast rmv) = length (hdr @ body) - unat rmv"
    using nlt len by (subst unat_sub) (simp_all add: word_le_nat_alt [symmetric])
  have dl: "dl = of_nat (length body - k)" 
    unfolding dl_def ucast_of_nat_unat [of "rp_len (sl_pkt g) - ucast rmv"] sub rmv by simp
  let ?X = "da @ sa @ (if bsnap then [] else be16_bytes dl)"
  define rest where "rest = drop k body @ icv @ post"
  have split: "B = (pre @ take p hdr) @ (drop p (hdr @ take k body)) @ rest"
  proof -
    have "drop p (hdr @ take k body) = drop p hdr @ take k body" using ph by simp
    moreover have "B = pre @ (take p hdr @ drop p hdr) @ (take k body @ drop k body) @ icv @ post" by (simp only: B_def append_take_drop_id)
    ultimately show ?thesis by (simp only: rest_def append_assoc)
  qed
  have lx: "length (drop p (hdr @ take k body)) = length ?X" using p(2) h(4,5) assms(3) by (cases bsnap) (auto simp: k_def)
  define A where "A = pre @ take p hdr"
  define M where "M = drop p (hdr @ take k body)"
  have lA: "length A = length pre + p" using ph by (simp add: A_def)
  have lM: "length M = 12 + length (if bsnap then [] else be16_bytes dl)" using lx h(4,5) by (simp add: M_def)
  have B: "B = A @ M @ rest" using split by (simp only: A_def M_def)
  note w = write_header [OF h(4,5) lM, of A rest, unfolded lA B [symmetric]]
  have "wlan_to_eth f s = Some (g', s\<lparr>rx_skbs := (rx_skbs s)(sl_skb f \<mapsto> A @ ?X @ rest)\<rparr>, 0)"
    unfolding wlan_to_eth_def info_def [symmetric] g_def [symmetric] Let_def off_def [symmetric] g(1) buf(1) B_def [symmetric]
      bind.bind_lunit snap' rmv_def [symmetric] rdtype pull_def [symmetric] dl_def [symmetric] da_def [symmetric] sa_def [symmetric]
    using nonnull nlt pull pl w lM g(2) by (cases bsnap) (simp_all add: g'_def)
  moreover have "skb_len g' = length (eth_frame da sa body)" "rdn (A @ ?X @ rest) (sl_pdata g') (skb_len g') = Some (eth_frame da sa body)"
  proof -
    have l: "sl_pdata g' = length A" "sl_ptail g' = length pre + length (hdr @ body)" using lA g by (simp_all add: g'_def)
    have e: "eth_frame da sa body = ?X @ drop k body" using snap by (auto simp: eth_frame_def k_def dl)
    have "skb_len g' = length ?X + length (drop k body)"
      using l lA lx ph p(2) assms(3) unfolding skb_len_def by (cases bsnap) (auto simp: k_def)
    then show "skb_len g' = length (eth_frame da sa body)" "rdn (A @ ?X @ rest) (sl_pdata g') (skb_len g') = Some (eth_frame da sa body)"
      unfolding e l(1) rdn_def rest_def by simp_all
  qed
  ultimately show ?thesis using g(1) unfolding info_def [symmetric] da_def [symmetric] sa_def [symmetric] by (auto simp: g'_def)
qed

section \<open>Properties\<close>

lemma hdr_type_append: "24 \<le> length h \<Longrightarrow> GET_HDR_Type (h @ b) = GET_HDR_Type h"
  by (simp add: GET_HDR_Type_def rd_prefix)

lemma sint_len_sub:
  assumes "length h = unat (a :: u8) + unat (b :: u8)" "length h + n < 65536"
  shows "sint ((of_nat (length h + n) :: u32) - ucast a - ucast b) = int n"
proof -
  have "(of_nat (length h + n) :: u32) - ucast a - ucast b = of_nat n"
    unfolding ucast_of_nat_unat [where 'b = 32] assms(1) by simp
  moreover have "n < 2 ^ 31" using assms(2) by simp
  ultimately show ?thesis by (simp only: sint_of_nat_u32)
qed

text \<open>(C12) The subframes of an A-MSDU reach the stack as they were put in: for every list of up to 64 MSDUs, each
  with 8 to 2304 bytes, \<open>process_amsdu\<close> on a data frame whose payload is the aggregate of the list makes of the
  \<open>i\<close>-th one the Ethernet frame with its addresses and payload, and hands these frames over in order
  (up to 14 bytes of an ICV may follow the aggregate).\<close>

theorem amsdu_roundtrip:
  assumes "ue_mode env = WF_INFRA_MODE \<or> ue_mode env = WF_ADHOC_MODE"
    "mpdu_at (px_mem s) f hdr (amsdu_of xs) icv" "24 \<le> length hdr" "GET_HDR_Type hdr = Some MAC_FRAME_TYPE_DATA"
    "length hdr = unat (ri_wlan_hdr_len (pkt_info (sl_pkt f))) + unat (ri_iv_len (pkt_info (sl_pkt f)))" "length icv \<le> 14"
    "xs \<noteq> []" "\<forall>x\<in>set xs. msdu_ok x" "length xs \<le> 64" "inj ks"
  shows "\<exists>s'. process_amsdu env (\<lambda>i. Some (ks i)) f s = Some (s', 0) \<and>
    px_out s' = px_out s @ map2 (\<lambda>i x. station_event env (ks i, eth_of x)) [0..<length xs] xs"
proof -
  obtain pre post where buf: "rx_skbs (px_mem s) (sl_skb f) = Some (pre @ hdr @ amsdu_of xs @ icv @ post)" "sl_pdata f = length pre"
      and len: "rp_len (sl_pkt f) = of_nat (length hdr + (length (amsdu_of xs) + length icv))"
      "length hdr + (length (amsdu_of xs) + length icv) < 65536"
    using assms(2) by (auto simp: mpdu_at_def)
  let ?subs = "map2 (\<lambda>i x. (ks i, eth_of x)) [0..<length xs] xs"
  have loop: "amsdu_loop (\<lambda>i. Some (ks i)) (hdr @ amsdu_of xs @ icv @ post) (length hdr) (int (length (amsdu_of xs) + length icv)) 0 = Some ?subs"
    using amsdu_loop_all [OF assms(7,8), of 0 "int (length icv)" ks hdr "icv @ post"] assms(6,9) by simp
  have fsts: "map fst ?subs = map ks [0..<length xs]" by (rule nth_equalityI) simp_all
  have dist: "distinct (map fst ?subs)" unfolding fsts using assms(10) by (simp add: distinct_map inj_on_subset [of ks UNIV])
  have long: "\<forall>sub\<in>set ?subs. 6 \<le> length (snd sub)"
    using assms(8) by (fastforce simp: eth_of_def eth_frame_def msdu_ok_def dest: set_zip_rightD)
  have "\<forall>sub\<in>set ?subs. holds_skb (fold new_skb ?subs s) sub" "px_out (fold new_skb ?subs s) = px_out s"
    using fold_new_skb [OF dist long, of s] by blast+
  then obtain s' where "upload_all env (map fst ?subs) (fold new_skb ?subs s) = Some s'"
      "px_out s' = px_out s @ map (station_event env) ?subs"
    using upload_all_station [OF assms(1) _ dist] fold_emit_out by metis
  moreover have "load_slot (px_mem s) f = Some ((sl_pkt f)\<lparr>rp_pdata := hdr @ amsdu_of xs @ icv @ post\<rparr>)"
    using buf by (simp add: load_slot_def)
  ultimately show ?thesis
    using loop sint_len_sub [OF assms(5) len(2)] assms(3-5) len(1)
    by (simp add: process_amsdu_def hdr_type_append comp_def case_prod_beta')
qed

text \<open>Sample data: two MSDUs for the station 02:00:00:00:00:01, with and without an EtherType.\<close>

definition eth_env_ex :: up_env where
  "eth_env_ex = \<lparr>ue_mode = WF_INFRA_MODE, ue_dev_addr = [2, 0, 0, 0, 0, 1], ue_clone = \<lambda>_. None, ue_tx = \<lambda>_ _. 0\<rparr>"

definition msdus_ex :: "msdu list" where
  "msdus_ex = [([2, 0, 0, 0, 0, 1], [2, 0, 0, 0, 0, 7], [0xaa, 0xaa, 3, 0, 0, 0, 8, 0, 0x45]),
               ([2, 0, 0, 0, 0, 9], [2, 0, 0, 0, 0, 7], [0x42, 0x42, 3, 0, 0, 0, 0, 0])]"

definition eth_slot_ex :: "bytes \<Rightarrow> slot" where
  "eth_slot_ex b = \<lparr>sl_pkt = rx_pkt_zero\<lparr>rp_len := of_nat (24 + length b),
       pkt_info := (pkt_info rx_pkt_zero)\<lparr>ri_wlan_hdr_len := 24, ri_dst_addr := [2, 0, 0, 0, 0, 1], ri_src_addr := [2, 0, 0, 0, 0, 7]\<rparr>,
       rp_wdn_info := Some 0\<rparr>,
     sl_skb = 0, sl_phead = 0, sl_pdata = 0, sl_ptail = 24 + length b, sl_pend = 0\<rparr>"

definition eth_port_ex :: "bytes \<Rightarrow> rx_port" where
  "eth_port_ex b = \<lparr>px_nic = nic_ex\<lparr>nx_mem := (nx_mem nic_ex)\<lparr>rx_skbs := [0 \<mapsto> ([8, 2] @ replicate 22 0) @ b]\<rparr>\<rparr>,
     px_skb = \<lambda>_. (0, 0), px_ba = \<lambda>_. None, px_out = []\<rparr>"

lemma mpdu_at_ex: "length b < 1000 \<Longrightarrow> mpdu_at (px_mem (eth_port_ex b)) (eth_slot_ex b) ([8, 2] @ replicate 22 0) b []"
  by (simp add: mpdu_at_def px_mem_def eth_port_ex_def eth_slot_ex_def)

lemma amsdu_roundtrip_witness:
  "\<exists>s'. process_amsdu eth_env_ex (\<lambda>i. Some (i + 1)) (eth_slot_ex (amsdu_of msdus_ex)) (eth_port_ex (amsdu_of msdus_ex)) = Some (s', 0) \<and>
     px_out s' = [Netif_rx 1 [2, 0, 0, 0, 0, 1, 2, 0, 0, 0, 0, 7, 8, 0, 0x45], Freed 2]"
proof -
  have ok: "\<forall>x\<in>set msdus_ex. msdu_ok x" by (simp add: msdus_ex_def msdu_ok_def)
  have at: "mpdu_at (px_mem (eth_port_ex (amsdu_of msdus_ex))) (eth_slot_ex (amsdu_of msdus_ex)) ([8, 2] @ replicate 22 0) (amsdu_of msdus_ex) []"
    by (rule mpdu_at_ex) (simp add: msdus_ex_def subframe_def pad4_def)
  have "\<exists>s'. process_amsdu eth_env_ex (\<lambda>i. Some (i + 1)) (eth_slot_ex (amsdu_of msdus_ex)) (eth_port_ex (amsdu_of msdus_ex)) = Some (s', 0) \<and>
      px_out s' = px_out (eth_port_ex (amsdu_of msdus_ex)) @
        map2 (\<lambda>i x. station_event eth_env_ex (i + 1, eth_of x)) [0..<length msdus_ex] msdus_ex"
    by (rule amsdu_roundtrip [OF _ at])
       (use ok in \<open>simp_all add: eth_env_ex_def eth_slot_ex_def rx_pkt_zero_def GET_HDR_Type_def rd_le16_def rd8_def le16_of_def inj_def msdus_ex_def\<close>)
  moreover have "map2 (\<lambda>i x. station_event eth_env_ex (i + 1, eth_of x)) [0..<length msdus_ex] msdus_ex =
      [Netif_rx 1 [2, 0, 0, 0, 0, 1, 2, 0, 0, 0, 0, 7, 8, 0, 0x45], Freed 2]"
    by (simp add: msdus_ex_def station_event_def eth_of_def eth_frame_def eth_env_ex_def is_snap_hdr_def rdn_def IS_MCAST_def be16_bytes_def upt_rec)
  ultimately show ?thesis by (simp add: eth_port_ex_def)
qed

text \<open>Every event that gives an skb away.\<close>

definition disposes :: "nat \<Rightarrow> up_event \<Rightarrow> bool" where
  "disposes k e \<longleftrightarrow> (case e of Netif_rx k' _ \<Rightarrow> k' = k | Freed k' \<Rightarrow> k' = k | Tx_msdu k' _ ok \<Rightarrow> k' = k \<and> ok | Tx_work_wake \<Rightarrow> False)"

lemma emit_out [simp]: "px_out (emit e s) = px_out s @ [e]"
  by (simp add: emit_def Let_def drop_skb_def set_mem_def split: up_event.splits)

lemma emit_skbs [simp]: "rx_skbs (px_mem (emit e s)) k = (if disposes k e then None else rx_skbs (px_mem s) k)"
  by (simp add: emit_def Let_def drop_skb_def set_mem_def px_mem_def disposes_def split: up_event.splits)

lemma forward_disposes:
  "\<exists>es. px_out (forward env k' frame s) = px_out s @ es \<and> length (filter (disposes k) es) = (if k' = k then 1 else 0) \<and>
     rx_skbs (px_mem (forward env k' frame s)) k = (if k' = k then None else rx_skbs (px_mem s) k)"
  by (simp add: forward_def disposes_def)

text \<open>(C26) \<open>upload_skb\<close> disposes of its skb exactly once: in every mode, one of its events gives the skb to the
  stack, to the transmit path, or back to the allocator, and the driver cannot reach its contents any
  more; also when a copy of it is forwarded, and when the transmit path refuses it.\<close>

theorem upload_disposes_once:
  assumes "upload_skb env (Some k) s = Some s'" "ue_clone env k \<noteq> Some k"
  shows "\<exists>es. px_out s' = px_out s @ es \<and> length (filter (disposes k) es) = 1 \<and> rx_skbs (px_mem s') k = None"
proof -
  obtain buf d len where 1: "rx_skbs (px_mem s) k = Some buf" "px_skb s k = (d, len)"
    using assms(1) by (cases "px_skb s k") (auto simp: upload_skb_def bind_eq_Some_conv)
  obtain dest frame where 2: "rdn buf d 6 = Some dest" "rdn buf d len = Some frame"
    using assms(1) by (cases "rdn buf d 6"; cases "rdn buf d len") (simp_all add: upload_skb_def 1)
  have cases: "s' = emit (Netif_rx k frame) s \<or> s' = emit (Freed k) s \<or> s' = forward env k frame s \<or>
      (\<exists>k'. k' \<noteq> k \<and> s' = forward env k' frame (emit (Netif_rx k frame) s))"
    using assms by (auto simp: upload_skb_def 1 2 Let_def split: if_splits option.splits)
  show ?thesis
    using cases forward_disposes [of env k frame s k] forward_disposes [of env _ frame "emit (Netif_rx k frame) s" k]
    by (fastforce simp: disposes_def)
qed

lemma upload_disposes_once_witness:
  "\<exists>s'. upload_skb eth_env_ex (Some 0) ((eth_port_ex [])\<lparr>px_skb := \<lambda>_. (0, 24)\<rparr>) = Some s' \<and> rx_skbs (px_mem s') 0 = None"
proof -
  let ?s = "(eth_port_ex [])\<lparr>px_skb := \<lambda>_. (0, 24)\<rparr>"
  obtain s' where s': "upload_skb eth_env_ex (Some 0) ?s = Some s'"
    by (simp add: upload_skb_def eth_env_ex_def eth_port_ex_def px_mem_def rdn_def)
  then show ?thesis using upload_disposes_once [OF s'] by (auto simp: eth_env_ex_def)
qed

end
