(* ===== verification/Rx_Flow.thy ===== *)
theory Rx_Flow
  imports Rx_Eth
begin

text \<open>
  Composition of the header conversion, the reorder buffer and the hand-over: what a sequence of data
  frames of one peer and one traffic id becomes at the network stack.
\<close>

section \<open>The handling of one frame\<close>

fun reorder_run :: "up_env \<Rightarrow> slot list \<Rightarrow> rx_port \<Rightarrow> rx_port option" where
  "reorder_run env [] s = Some s"
| "reorder_run env (f # fs) s = Option.bind (rx_data_reorder_process env f s) (reorder_run env fs)"

text \<open>The frames that the stack got, with their skbs.\<close>

fun delivered :: "up_event list \<Rightarrow> (nat \<times> bytes) list" where
  "delivered [] = []"
| "delivered (Netif_rx k b # es) = (k, b) # delivered es"
| "delivered (Freed k # es) = delivered es"
| "delivered (Tx_msdu k b ok # es) = delivered es"
| "delivered (Tx_work_wake # es) = delivered es"

lemma delivered_append: "delivered (xs @ ys) = delivered xs @ delivered ys"
  by (induction xs rule: delivered.induct) simp_all

text \<open>A frame with the sequence number \<open>k\<close> for this station, and the Ethernet frame in it.\<close>

definition eth_in :: "slot \<Rightarrow> bytes \<Rightarrow> bytes" where
  "eth_in f body = eth_frame (ri_dst_addr (pkt_info (sl_pkt f))) (ri_src_addr (pkt_info (sl_pkt f))) body"

definition flow_frame :: "up_env \<Rightarrow> rx_port \<Rightarrow> nat \<Rightarrow> u8 \<Rightarrow> nat \<Rightarrow> slot \<Rightarrow> bytes \<Rightarrow> bool" where
  "flow_frame env s p prio k f body \<longleftrightarrow>
     rp_wdn_info (sl_pkt f) = Some p \<and> ri_qos_flag (pkt_info (sl_pkt f)) \<noteq> 0 \<and> ri_qos_pri (pkt_info (sl_pkt f)) = prio \<and>
     ri_seq_num (pkt_info (sl_pkt f)) = sn k \<and> ri_dst_addr (pkt_info (sl_pkt f)) = ue_dev_addr env \<and> 8 \<le> length body \<and>
     (\<exists>hdr icv. mpdu_at (px_mem s) f hdr body icv \<and> hdrs_ok f hdr icv)"

text \<open>The state after the header of a frame is replaced holds the Ethernet frame, and nothing else has
  changed.\<close>

definition same_skb :: "rx_port \<Rightarrow> rx_port \<Rightarrow> nat \<Rightarrow> bool" where
  "same_skb s s' k \<longleftrightarrow> rx_skbs (px_mem s') k = rx_skbs (px_mem s) k \<and> px_skb s' k = px_skb s k"

lemma same_skb_holds: "same_skb s s' (fst sub) \<Longrightarrow> holds_skb s' sub = holds_skb s sub"
  by (simp add: same_skb_def holds_skb_def)

lemma same_skb_flow: "same_skb s s' (sl_skb f) \<Longrightarrow> flow_frame env s' p prio k f body = flow_frame env s p prio k f body"
  by (simp add: same_skb_def flow_frame_def mpdu_at_def)

lemma same_skb_trans: "same_skb s s' k \<Longrightarrow> same_skb s' s'' k \<Longrightarrow> same_skb s s'' k"
  by (simp add: same_skb_def)

lemma converted:
  assumes "flow_frame env s p prio k f body"
  shows "\<exists>f' m. wlan_to_eth f (px_mem s) = Some (f', m, 0) \<and>
    (let s1 = publish f' (set_mem m s)
     in holds_skb s1 (sl_skb f, eth_in f body) \<and> px_out s1 = px_out s \<and> px_ba s1 = px_ba s \<and> (\<forall>x. x \<noteq> sl_skb f \<longrightarrow> same_skb s s1 x))"
proof -
  obtain hdr icv where at: "mpdu_at (px_mem s) f hdr body icv" "hdrs_ok f hdr icv" and len: "8 \<le> length body"
    using assms by (auto simp: flow_frame_def)
  obtain f' b3 where e: "wlan_to_eth f (px_mem s) = Some (f', (px_mem s)\<lparr>rx_skbs := (rx_skbs (px_mem s))(sl_skb f \<mapsto> b3)\<rparr>, 0)"
      "sl_skb f' = sl_skb f" "rdn b3 (sl_pdata f') (skb_len f') = Some (eth_in f body)" "skb_len f' = length (eth_in f body)"
    using wlan_to_eth_result [OF at len] by (auto simp: eth_in_def)
  have "6 \<le> length (eth_in f body)" using at(2) by (simp add: eth_in_def eth_frame_def hdrs_ok_def Let_def)
  then show ?thesis
    using e by (auto simp: publish_def set_mem_def px_mem_def holds_skb_def same_skb_def Let_def)
qed

section \<open>A block-ack session\<close>

text \<open>The session of peer \<open>p\<close> for the traffic id is in the state \<open>a\<close> of the specification of the reorder
  buffer, and every packet that waits in it is an skb with the Ethernet frame \<open>fr\<close> says.\<close>

definition session :: "up_env \<Rightarrow> rx_port \<Rightarrow> nat \<Rightarrow> u8 \<Rightarrow> nat option \<times> (nat \<times> nat) list \<Rightarrow> (nat \<Rightarrow> bytes) \<Rightarrow> bool" where
  "session env s p prio a fr \<longleftrightarrow>
     (\<exists>bas. px_ba s p = Some bas \<and> unat prio < length bas \<and> ba_enable (bas ! unat prio) \<and> ro_rel (bas ! unat prio) a) \<and>
     prio \<le> 15 \<and> distinct (map snd (snd a)) \<and> (\<forall>x\<in>set (snd a). holds_skb s (snd x, fr (snd x)) \<and> take 6 (fr (snd x)) = ue_dev_addr env)"

lemma mset_put: "mset (put k skb xs) = add_mset (k, skb) (mset xs)"
proof -
  have "mset (takeWhile P xs) + mset (dropWhile P xs) = mset xs" for P
    by (metis mset_append takeWhile_dropWhile_id)
  then show ?thesis by (simp add: put_def)
qed

lemma ro_spec_items:
  assumes "ro_spec w (Arrive q x) a = (os, a')" "distinct (map snd (snd a))" "x \<notin> snd ` set (snd a)"
  shows "distinct (map snd (os @ snd a'))" "snd ` set (os @ snd a') \<subseteq> insert x (snd ` set (snd a))"
proof -
  obtain n d n' ys where arr: "spec_arrive d x n (snd a) = (os, n', ys)" "a' = (Some n', ys)"
    using assms(1) by (auto simp: ro_spec_def Let_def split: prod.splits option.splits)
  have "os = [] \<and> ys = snd a \<or> mset (os @ ys) = add_mset (n + d, x) (mset (snd a))"
    using arr(1) flush_split [of "new_next n d" "put (n + d) x (snd a)" os n' ys] mset_put [of "n + d" x "snd a"]
    by (auto simp: spec_arrive_def split: if_splits)
  then have "distinct (map snd (os @ ys)) \<and> snd ` set (os @ ys) \<subseteq> insert x (snd ` set (snd a))"
  proof
    assume m: "mset (os @ ys) = add_mset (n + d, x) (mset (snd a))"
    then have "mset (map snd (os @ ys)) = mset (x # map snd (snd a))" by (metis image_mset_add_mset mset.simps(2) mset_map snd_conv)
    moreover have "distinct (x # map snd (snd a))" using assms(2,3) by simp
    ultimately have "distinct (map snd (os @ ys))" "set (map snd (os @ ys)) = set (x # map snd (snd a))"
      using mset_eq_imp_distinct_iff mset_eq_setD by blast+
    then show ?thesis by (simp only: set_map [symmetric]) simp
  qed (use assms(2) in auto)
  then show "distinct (map snd (os @ snd a'))" "snd ` set (os @ snd a') \<subseteq> insert x (snd ` set (snd a))" by (simp_all add: arr(2))
qed

section \<open>Handing over what the session releases\<close>

lemma emit_same: "\<not> disposes k e \<Longrightarrow> same_skb s (emit e s) k" "px_ba (emit e s) = px_ba s"
  by (auto simp: same_skb_def emit_def drop_skb_def set_mem_def px_mem_def Let_def disposes_def split: up_event.splits)

lemma station_disposes: "disposes k (station_event env sub) \<longleftrightarrow> fst sub = k"
  by (simp add: station_event_def disposes_def)

lemma fold_emit_same:
  "px_ba (fold (\<lambda>sub. emit (station_event env sub)) subs s) = px_ba s"
  "k \<notin> fst ` set subs \<Longrightarrow> same_skb s (fold (\<lambda>sub. emit (station_event env sub)) subs s) k"
proof (induction subs arbitrary: s)
  case (Cons sub subs)
  { case 1 show ?case using Cons(1) by (simp add: emit_same) }
  { case 2
    then have "same_skb s (emit (station_event env sub) s) k" by (auto intro: emit_same(1) simp: station_disposes)
    then show ?case using Cons(2) [of "emit (station_event env sub) s"] 2 by (auto intro: same_skb_trans) }
qed (simp_all add: same_skb_def)

text \<open>What the calls of the reorder buffer do: the released packets go to the stack, a packet that was not
  accepted is freed.\<close>

lemma reorder_calls_station:
  assumes "ue_mode env = WF_INFRA_MODE \<or> ue_mode env = WF_ADHOC_MODE" "reorder_core q (Some x) b = Some b'"
    "ba_uploads b' = ba_uploads b @ map fst subs" "\<forall>sub\<in>set subs. holds_skb s sub" "distinct (map fst subs)"
  shows "\<exists>s' es. reorder_calls env b b' s = Some s' \<and> px_ba s' = px_ba s \<and>
    px_out s' = px_out s @ map (station_event env) subs @ es \<and> delivered es = [] \<and>
    (\<forall>k. k \<notin> insert x (fst ` set subs) \<longrightarrow> same_skb s s' k) \<and>
    (ba_free_skbs b' = ba_free_skbs b \<longrightarrow> (\<forall>k. k \<notin> fst ` set subs \<longrightarrow> same_skb s s' k))"
proof -
  let ?t = "fold (\<lambda>sub. emit (station_event env sub)) subs s"
  have up: "upload_all env (drop (length (ba_uploads b)) (ba_uploads b')) s = Some ?t"
    using upload_all_station [OF assms(1,4,5)] assms(3) by simp
  consider "ba_free_skbs b' = ba_free_skbs b" | "ba_free_skbs b' = ba_free_skbs b @ [Some x]" "subs = []" "ba_free_skbs b' \<noteq> ba_free_skbs b"
    using core_frees [OF assms(2)] assms(3) by auto
  then show ?thesis
  proof cases
    case 1
    then have "reorder_calls env b b' s = Some ?t" by (simp add: reorder_calls_def up)
    then show ?thesis using fold_emit_same fold_emit_out [of env subs s]
      by (intro exI [of _ ?t] exI [of _ "[]"]) auto
  next
    case 2
    then have "reorder_calls env b b' s = Some (emit (Freed x) s)" using up by (simp add: reorder_calls_def)
    then show ?thesis using 2(2,3) emit_same(1) [of _ "Freed x" s] emit_same(2) [of "Freed x" s]
      by (intro exI [of _ "emit (Freed x) s"] exI [of _ "[Freed x]"]) (auto simp: disposes_def)
  qed
qed

lemma delivered_station: "\<forall>sub\<in>set subs. take 6 (snd sub) = ue_dev_addr env \<Longrightarrow> delivered (map (station_event env) subs) = subs"
  by (induction subs) (auto simp: station_event_def)

lemma session_step:
  assumes "ue_mode env = WF_INFRA_MODE \<or> ue_mode env = WF_ADHOC_MODE" "session env s p prio a fr"
    "flow_frame env s p prio k f body" "sl_skb f \<notin> snd ` set (snd a)" "fr (sl_skb f) = eth_in f body"
    "ro_spec w (Arrive (sn k) (sl_skb f)) a = (os, a')"
  shows "\<exists>s'. rx_data_reorder_process env f s = Some s' \<and> session env s' p prio a' fr \<and>
    delivered (px_out s') = delivered (px_out s) @ map (\<lambda>x. (snd x, fr (snd x))) os \<and>
    (\<forall>y. y \<notin> insert (sl_skb f) (snd ` set (snd a)) \<longrightarrow> same_skb s s' y)"
proof -
  let ?x = "sl_skb f" and ?subs = "map (\<lambda>x. (snd x, fr (snd x))) os"
  obtain bas where bas: "px_ba s p = Some bas" "unat prio < length bas" "ba_enable (bas ! unat prio)" "ro_rel (bas ! unat prio) a"
    using assms(2) by (auto simp: session_def)
  have pend: "prio \<le> 15" "distinct (map snd (snd a))" "\<And>y. y \<in> snd ` set (snd a) \<Longrightarrow> holds_skb s (y, fr y) \<and> take 6 (fr y) = ue_dev_addr env"
    using assms(2) by (auto simp: session_def)
  have fl: "rp_wdn_info (sl_pkt f) = Some p" "ri_qos_flag (pkt_info (sl_pkt f)) \<noteq> 0" "ri_qos_pri (pkt_info (sl_pkt f)) = prio"
      "ri_seq_num (pkt_info (sl_pkt f)) = sn k" "take 6 (fr ?x) = ue_dev_addr env"
    using assms(3,5) by (auto simp: flow_frame_def eth_in_def eth_frame_def hdrs_ok_def Let_def)
  obtain f' m where conv: "wlan_to_eth f (px_mem s) = Some (f', m, 0)"
      and "let s1 = publish f' (set_mem m s) in holds_skb s1 (?x, eth_in f body) \<and> px_out s1 = px_out s \<and> px_ba s1 = px_ba s \<and>
        (\<forall>y. y \<noteq> ?x \<longrightarrow> same_skb s s1 y)"
    using converted [OF assms(3)] by blast
  moreover define s1 where "s1 = publish f' (set_mem m s)"
  ultimately have s1: "holds_skb s1 (?x, fr ?x)" "px_out s1 = px_out s" "px_ba s1 = px_ba s" "\<And>y. y \<noteq> ?x \<Longrightarrow> same_skb s s1 y"
    using assms(5) by (auto simp: Let_def)
  define b1 where "b1 = (let b0 = bas ! unat prio in if wait_timeout b0 = 0 then b0\<lparr>wait_timeout := 50\<rparr> else b0)"
  have b1: "ro_rel b1 a" "ba_enable b1" using bas(3,4) by (simp_all add: b1_def Let_def)
  have q: "unat (sn k) < 4096" by (simp add: unat_sn)
  obtain b2 where b2: "reorder_core (sn k) (Some ?x) b1 = Some b2" "ro_rel b2 a'" "ba_uploads b2 = ba_uploads b1 @ map fst ?subs"
    using ro.sim [OF b1(1) _ assms(6)] q by (auto simp: ro_good_def ro_step_def comp_def)
  have items: "distinct (map snd (os @ snd a'))" "snd ` set (os @ snd a') \<subseteq> insert ?x (snd ` set (snd a))"
    using ro_spec_items [OF assms(6) pend(2) assms(4)] by blast+
  have held: "holds_skb s1 (y, fr y) \<and> take 6 (fr y) = ue_dev_addr env" if "y \<in> snd ` set (os @ snd a')" for y
    using items(2) that pend(3) [of y] s1(1) s1(4) [of y] fl(5) assms(4) same_skb_holds [of s s1 "(y, fr y)"] by (cases "y = ?x") auto
  define s2 where "s2 = s1\<lparr>px_ba := (px_ba s)(p \<mapsto> bas[unat prio := b2])\<rparr>"
  have same2: "same_skb s1 s2 y" "holds_skb s2 z = holds_skb s1 z" for y z by (simp_all add: s2_def same_skb_def holds_skb_def px_mem_def)
  have "\<forall>sub\<in>set ?subs. holds_skb s2 sub" "distinct (map fst ?subs)" using held items(1) by (auto simp: same2 comp_def)
  from reorder_calls_station [OF assms(1) b2(1,3) this] obtain s' es where s': "reorder_calls env b1 b2 s2 = Some s'" "px_ba s' = px_ba s2"
      "px_out s' = px_out s2 @ map (station_event env) ?subs @ es" "delivered es = []"
      "\<And>y. y \<notin> insert ?x (fst ` set ?subs) \<Longrightarrow> same_skb s2 s' y"
      "\<And>y. ba_free_skbs b2 = ba_free_skbs b1 \<Longrightarrow> y \<notin> fst ` set ?subs \<Longrightarrow> same_skb s2 s' y"
    by blast
  have run: "rx_data_reorder_process env f s = Some s'"
    using fl(1-4) pend(1) conv bas(1-3) s1(3) b2(1) s'(1)
    by (simp add: rx_data_reorder_process_def Let_def s1_def [symmetric] wf_rx_data_reorder_core_def b1_def [symmetric, unfolded Let_def]
        s2_def [symmetric] not_less)
  have "holds_skb s' (y, fr y) \<and> take 6 (fr y) = ue_dev_addr env" if y: "y \<in> snd ` set (snd a')" for y
  proof -
    have "y \<notin> fst ` set ?subs" using items(1) y by (auto simp: image_image)
    moreover have "y = ?x \<Longrightarrow> ba_free_skbs b2 = ba_free_skbs b1" using core_accepts [OF b1(1) q assms(6) b2(1) assms(4)] y by blast
    ultimately have "same_skb s2 s' y" using s'(5,6) by blast
    then show ?thesis using held [of y] y same_skb_holds [of s2 s' "(y, fr y)"] by (auto simp: same2)
  qed
  moreover have "ba_enable b2" using core_frees [OF b2(1)] b1(2) by simp
  ultimately have "session env s' p prio a' fr"
    using s'(2) bas(2) pend(1) items(1) b2(2) by (auto simp: session_def s2_def)
  moreover have "delivered (map (station_event env) ?subs) = ?subs" using held by (intro delivered_station) auto
  then have "delivered (px_out s') = delivered (px_out s) @ ?subs" using s'(3,4) s1(2) by (simp add: delivered_append s2_def)
  moreover have "same_skb s s' y" if "y \<notin> insert ?x (snd ` set (snd a))" for y
  proof -
    have "y \<notin> insert ?x (fst ` set ?subs)" using that items(2) by (auto simp: image_image)
    then show ?thesis using s'(5) s1(4) [of y] same2(1) that by (blast intro: same_skb_trans)
  qed
  ultimately show ?thesis using run by blast
qed

lemma disjoint_insert_subset: "B \<subseteq> insert x P \<Longrightarrow> x \<notin> A \<Longrightarrow> A \<inter> P = {} \<Longrightarrow> A \<inter> B = {}"
  by blast

lemma session_run:
  assumes "ue_mode env = WF_INFRA_MODE \<or> ue_mode env = WF_ADHOC_MODE" "session env s p prio a fr"
    "\<forall>k\<in>set ks. flow_frame env s p prio k (f k) (body k) \<and> fr (sl_skb (f k)) = eth_in (f k) (body k)"
    "distinct (map (\<lambda>k. sl_skb (f k)) ks)" "(\<lambda>k. sl_skb (f k)) ` set ks \<inter> snd ` set (snd a) = {}"
    "ro.spec_run w (map (\<lambda>k. Arrive (sn k) (sl_skb (f k))) ks) a = (os, a')"
  shows "\<exists>s'. reorder_run env (map f ks) s = Some s' \<and>
    delivered (px_out s') = delivered (px_out s) @ map (\<lambda>x. (snd x, fr (snd x))) os"
  using assms(2-6)
proof (induction ks arbitrary: s a os)
  case (Cons k ks)
  obtain os1 a1 os2 where sp: "ro_spec w (Arrive (sn k) (sl_skb (f k))) a = (os1, a1)"
      "ro.spec_run w (map (\<lambda>k. Arrive (sn k) (sl_skb (f k))) ks) a1 = (os2, a')" "os = os1 @ os2"
    using Cons.prems(5) by (auto simp: Let_def split: prod.splits)
  obtain s1 where s1: "rx_data_reorder_process env (f k) s = Some s1" "session env s1 p prio a1 fr"
      "delivered (px_out s1) = delivered (px_out s) @ map (\<lambda>x. (snd x, fr (snd x))) os1"
      "\<And>y. y \<notin> insert (sl_skb (f k)) (snd ` set (snd a)) \<Longrightarrow> same_skb s s1 y"
    using session_step [OF assms(1) Cons.prems(1) _ _ _ sp(1), of "body k"] Cons.prems(2,4) by auto
  have "sl_skb (f j) \<notin> insert (sl_skb (f k)) (snd ` set (snd a))" if "j \<in> set ks" for j
  proof -
    have "sl_skb (f j) \<in> (\<lambda>k. sl_skb (f k)) ` set ks" using that by blast
    then show ?thesis using Cons.prems(3,4) by auto
  qed
  then have "same_skb s s1 (sl_skb (f j))" if "j \<in> set ks" for j using s1(4) that by blast
  then have fl: "\<forall>j\<in>set ks. flow_frame env s1 p prio j (f j) (body j) \<and> fr (sl_skb (f j)) = eth_in (f j) (body j)"
    using Cons.prems(2) same_skb_flow [of s s1] by simp
  have "snd ` set (os1 @ snd a1) \<subseteq> insert (sl_skb (f k)) (snd ` set (snd a))"
    using ro_spec_items(2) [OF sp(1)] Cons.prems(1,4) by (auto simp: session_def)
  then have "snd ` set (snd a1) \<subseteq> insert (sl_skb (f k)) (snd ` set (snd a))" by auto
  moreover have "sl_skb (f k) \<notin> (\<lambda>k. sl_skb (f k)) ` set ks" "(\<lambda>k. sl_skb (f k)) ` set ks \<inter> snd ` set (snd a) = {}"
    using Cons.prems(3,4) by simp_all
  ultimately have "(\<lambda>k. sl_skb (f k)) ` set ks \<inter> snd ` set (snd a1) = {}" by (rule disjoint_insert_subset)
  from Cons.IH [OF s1(2) fl _ this sp(2)] Cons.prems(3) s1(1,3) sp(3) show ?case by auto
qed simp

section \<open>Property\<close>

text \<open>(C1) A block-ack session delivers Ethernet frames in order: after a session was set up and enabled for a peer and a traffic id, frames
  with the numbers of one window, \<open>m + 1\<close> of them with \<open>m\<close> at most 63, pass the receive path of the port in any order, with or without an
  ICV. \<open>a\<close> is the number of the frame that comes first. For each frame from \<open>a\<close> on the network stack gets the Ethernet frame with
  its addresses and payload, in the order of the sequence numbers; frames with lower numbers than \<open>a\<close> are dropped.\<close>

theorem flow_in_order:
  assumes "ue_mode env = WF_INFRA_MODE \<or> ue_mode env = WF_ADHOC_MODE"
    "px_ba s p = Some bas" "unat prio < length bas" "prio \<le> 15"
    "bas ! unat prio = (ba_ctl_init (map Some ns) c)\<lparr>ba_enable := True\<rparr>" "length ns = 64" "distinct (pending_q c # free_q c # ns)"
    "m \<le> 63" "set (a # ks) = {b..b + m}" "distinct (a # ks)"
    "\<forall>k\<in>{b..b + m}. flow_frame env s p prio k (f k) (body k)" "inj_on (\<lambda>k. sl_skb (f k)) {b..b + m}"
  shows "\<exists>s'. reorder_run env (map f (a # ks)) s = Some s' \<and>
    delivered (px_out s') = delivered (px_out s) @ map (\<lambda>k. (sl_skb (f k), eth_in (f k) (body k))) [a..<b + m + 1]"
proof -
  define fr where "fr y = (let k = inv_into {b..b + m} (\<lambda>k. sl_skb (f k)) y in eth_in (f k) (body k))" for y
  have fr: "fr (sl_skb (f k)) = eth_in (f k) (body k)" if "k \<in> {b..b + m}" for k
    using inv_into_f_f [OF assms(12) that] by (simp add: fr_def)
  have "fresh (ba_ctl_init (map Some ns) c)" using ba_ctl_init_fresh [OF assms(6,7)] by simp
  then have ses: "session env s p prio (None, []) fr"
    using assms(2-5) by (simp add: session_def) (simp add: ro_rel_def)
  have dist: "distinct (map (\<lambda>k. sl_skb (f k)) (a # ks))" unfolding distinct_map using assms(9,10,12) by simp
  obtain n zs where sp: "ro.spec_run (a div 4096) (map (\<lambda>k. Arrive (sn k) (sl_skb (f k))) (a # ks)) (None, []) =
      (map (\<lambda>k. (k, sl_skb (f k))) [a..<b + m + 1], Some n, zs)"
    using spec_run_complete [OF assms(8-10), of "\<lambda>k. sl_skb (f k)"] by blast
  have fl: "\<forall>k\<in>set (a # ks). flow_frame env s p prio k (f k) (body k) \<and> fr (sl_skb (f k)) = eth_in (f k) (body k)"
    using assms(11) fr unfolding assms(9) by blast
  have "b \<le> a" using assms(9) by auto
  then have in_win: "k \<in> {b..b + m}" if "k \<in> set [a..<b + m + 1]" for k using that by auto
  have "map (\<lambda>x. (snd x, fr (snd x))) (map (\<lambda>k. (k, sl_skb (f k))) [a..<b + m + 1]) =
      map (\<lambda>k. (sl_skb (f k), eth_in (f k) (body k))) [a..<b + m + 1]"
    unfolding map_map by (rule map_cong [OF refl]) (use fr in_win in \<open>simp del: upt_Suc set_upt\<close>)
  then show ?thesis using session_run [OF assms(1) ses fl dist _ sp] by (simp del: upt_Suc map_map)
qed

definition flow_body_ex :: bytes where
  "flow_body_ex = [0xaa, 0xaa, 3, 0, 0, 0, 8, 0, 0x45]"

definition flow_slot_ex :: "nat \<Rightarrow> slot" where
  "flow_slot_ex k = (eth_slot_ex flow_body_ex)\<lparr>sl_skb := k,
     sl_pkt := (sl_pkt (eth_slot_ex flow_body_ex))\<lparr>pkt_info := (pkt_info (sl_pkt (eth_slot_ex flow_body_ex)))\<lparr>ri_qos_flag := 1, ri_seq_num := sn k\<rparr>\<rparr>\<rparr>"

definition flow_port_ex :: rx_port where
  "flow_port_ex = \<lparr>px_nic = nic_ex\<lparr>nx_mem := (nx_mem nic_ex)\<lparr>rx_skbs := \<lambda>_. Some (([8, 2] @ replicate 22 0) @ flow_body_ex)\<rparr>\<rparr>,
     px_skb = \<lambda>_. (0, 0), px_ba = [0 \<mapsto> [(ba_ctl_init (map Some [3..<67]) reorder_blank)\<lparr>ba_enable := True\<rparr>]], px_out = []\<rparr>"

lemma flow_in_order_witness:
  "\<exists>s'. reorder_run eth_env_ex (map flow_slot_ex [4095, 4097, 4094, 4096]) flow_port_ex = Some s' \<and>
     delivered (px_out s') = map (\<lambda>k. (k, [2, 0, 0, 0, 0, 1, 2, 0, 0, 0, 0, 7, 8, 0, 0x45])) [4095, 4096, 4097]"
proof -
  have fl: "flow_frame eth_env_ex flow_port_ex 0 0 k (flow_slot_ex k) flow_body_ex" for k
    unfolding flow_frame_def
    by (intro conjI exI [of _ "[8, 2] @ replicate 22 0"] exI [of _ "[]"])
       (simp_all add: mpdu_at_def hdrs_ok_def flow_slot_ex_def flow_port_ex_def eth_slot_ex_def eth_env_ex_def flow_body_ex_def px_mem_def rx_pkt_zero_def)
  have e: "eth_in (flow_slot_ex k) flow_body_ex = [2, 0, 0, 0, 0, 1, 2, 0, 0, 0, 0, 7, 8, 0, 0x45]" for k
    by (simp add: eth_in_def eth_frame_def flow_slot_ex_def eth_slot_ex_def flow_body_ex_def is_snap_hdr_def rdn_def)
  have "\<exists>s'. reorder_run eth_env_ex (map flow_slot_ex (4095 # [4097, 4094, 4096])) flow_port_ex = Some s' \<and>
      delivered (px_out s') = delivered (px_out flow_port_ex) @
        map (\<lambda>k. (sl_skb (flow_slot_ex k), eth_in (flow_slot_ex k) flow_body_ex)) [4095..<4094 + 3 + 1]"
    by (rule flow_in_order [where prio = 0 and p = 0 and ns = "[3..<67]" and c = reorder_blank])
       (use fl in \<open>auto simp: eth_env_ex_def flow_port_ex_def reorder_blank_def flow_slot_ex_def inj_on_def\<close>)
  then show ?thesis unfolding e by (simp add: flow_port_ex_def flow_slot_ex_def upt_rec)
qed

end
