(* ===== verification/Wf_Pt.thy ===== *)
theory Wf_Pt
  imports Wf_Prelude
begin

text \<open>
  Protothreads (\<open>src/trunk_driver/nic/utility/wf_pt.h\<close>, which includes the macros of pt-1.4). A protothread is
  a function that returns at a wait and goes on there when it is called again. Its model is a
  step function on the labels of the thread: the waits, and the heads of loops between them. \<open>pt_run\<close> runs the
  steps of one call. The locale \<open>protothread\<close> is the rule by which a call is shown to return: an
  invariant at the labels, and a number that gets smaller from label to label.
\<close>

datatype pt_ret = PT_WAITING | PT_YIELDED | PT_EXITED | PT_ENDED

definition PT_SCHEDULE :: "pt_ret \<Rightarrow> bool" where
  "PT_SCHEDULE r \<longleftrightarrow> r = PT_WAITING \<or> r = PT_YIELDED"

text \<open>How a step ends: at another label, at a wait where the call returns, or at the end of the thread
  with a result that is handed to the caller.\<close>

datatype 'pc pt_next = Goto 'pc | Back 'pc pt_ret | Fin pt_ret int

partial_function (option) pt_run ::
  "('pc \<Rightarrow> 's \<Rightarrow> ('s \<times> 'pc pt_next) option) \<Rightarrow> 'pc \<Rightarrow> 's \<Rightarrow> ('s \<times> 'pc pt_next) option" where
  "pt_run step pc s = Option.bind (step pc s) (\<lambda>(s', n). case n of Goto pc' \<Rightarrow> pt_run step pc' s' | _ \<Rightarrow> Some (s', n))"

lemma pt_run_Goto: "step pc s = Some (s', Goto pc') \<Longrightarrow> pt_run step pc s = pt_run step pc' s'"
  by (subst pt_run.simps) simp

lemma pt_run_Back: "step pc s = Some (s', Back pc' r) \<Longrightarrow> pt_run step pc s = Some (s', Back pc' r)"
  by (subst pt_run.simps) simp

lemma pt_run_Fin: "step pc s = Some (s', Fin r rsn) \<Longrightarrow> pt_run step pc s = Some (s', Fin r rsn)"
  by (subst pt_run.simps) simp

text \<open>\<open>x\<close> is what the invariant names of the state, such as the contents of a queue.\<close>

locale protothread =
  fixes step :: "'pc \<Rightarrow> 's \<Rightarrow> ('s \<times> 'pc pt_next) option"
    and inv :: "'pc \<Rightarrow> 's \<Rightarrow> 'x \<Rightarrow> bool"
    and rank :: "'pc \<Rightarrow> 's \<Rightarrow> 'x \<Rightarrow> nat"
    and post :: "'s \<Rightarrow> 'pc pt_next \<Rightarrow> bool"
  assumes step_law: "inv pc s x \<Longrightarrow> \<exists>s' n. step pc s = Some (s', n) \<and>
    (case n of Goto pc' \<Rightarrow> \<exists>x'. inv pc' s' x' \<and> rank pc' s' x' < rank pc s x | _ \<Rightarrow> post s' n)"
begin

lemma call_returns: "inv pc s x \<Longrightarrow> \<exists>s' n. pt_run step pc s = Some (s', n) \<and> post s' n \<and> (\<forall>pc'. n \<noteq> Goto pc')"
proof (induction "rank pc s x" arbitrary: pc s x rule: less_induct)
  case less
  obtain s' n where st: "step pc s = Some (s', n)"
    and n: "case n of Goto pc' \<Rightarrow> \<exists>x'. inv pc' s' x' \<and> rank pc' s' x' < rank pc s x | _ \<Rightarrow> post s' n"
    using step_law [OF less.prems] by blast
  show ?case
  proof (cases n)
    case (Goto pc')
    then obtain x' where "inv pc' s' x'" "rank pc' s' x' < rank pc s x" using n by auto
    then show ?thesis using less.hyps [of pc' s' x'] st Goto by (simp add: pt_run_Goto)
  qed (use n st in \<open>simp_all add: pt_run_Back pt_run_Fin\<close>)
qed

end

end
