(* ===== verification/Action.thy ===== *)
theory Action
  imports Rx_Frame Rx_Order Wf_Pt
begin

text \<open>
  Action frames and the negotiation of block-ack sessions: \<open>src/trunk_driver/nic/action.c\<close>, with the
  two threads of \<open>mlme.c\<close> that send the request and the response
  (\<open>core_conn_maintain_ba_req_thrd\<close>, \<open>core_conn_maintain_ba_rsp_thrd\<close>) and the calls that start them.

  A device has one peer, the access point, or NULL. \<open>peer_ba\<close> are the members of \<open>wdn_net_info_st\<close>
  the negotiation uses; the member \<open>addr\<close> of \<open>wf_add_ba_parm_st\<close> is never used and left out. Frames
  handed to \<open>wf_nic_mgmt_frame_xmit\<close>, messages for the mlme thread and calls of the code for Wi-Fi
  Direct and access point mode are recorded; their results are parameters.
\<close>

section \<open>State\<close>

record add_ba_parm =
  ap_tid :: u32
  ap_start_seq :: u32
  ap_param :: u16
  ap_timeout :: u16
  ap_policy :: u8
  ap_status :: u16
  ap_size :: u8
  ap_dialog :: u8

record peer_ba =
  pb_mac :: bytes
  pb_bssid :: bytes
  pb_ht_option :: bool
  pb_ampdu_enable :: bool
  tx_amsdu_enable :: bool
  agg_enable_bitmap :: u8
  candidate_tid_bitmap :: u8
  dialogToken :: "u8 list"
  ba_enable_flag :: "bool list"
  ba_started_flag :: "bool list"
  ba_starting_seqctrl :: "u16 list"
  txseq_tid :: "u16 list"
  pb_ba_ctl :: "reorder list option"

datatype act_event = Mlme_add_ba_rsp add_ba_parm | Mlme_add_ba_req | Mgmt_xmit bytes | Ap_ba_req_msg | P2p_public bytes | P2p_rx_action bytes

record act_nic =
  an_work_mode :: sys_work_mode
  an_mac :: bytes
  an_is_up :: bool
  an_ba_enable :: bool
  max_rx_ampdu_factor :: u8
  an_state :: u32
  an_connect :: bool
  an_p2p :: bool
  an_p2p_valid :: bool
  hw_access_lock :: bool
  barsp_parm :: add_ba_parm
  bareq_parm :: add_ba_parm
  baCreating :: u8
  an_peer :: "peer_ba option"
  an_events :: "act_event list"

text \<open>The results of what the code calls: a message queue that has room, a transmit buffer, the hand-over of
  a frame, and the handlers of Wi-Fi Direct.\<close>

record act_env =
  ae_msg :: "act_event list \<Rightarrow> int"
  ae_extbuf :: "act_event list \<Rightarrow> bool"
  ae_xmit :: "act_event list \<Rightarrow> int"
  ae_ap_msg :: "act_event list \<Rightarrow> int"
  ae_p2p :: "act_event list \<Rightarrow> int"

definition note_event :: "act_event \<Rightarrow> act_nic \<Rightarrow> act_nic" where
  "note_event e n = n\<lparr>an_events := an_events n @ [e]\<rparr>"

abbreviation (input) WF_WLAN_CATEGORY_BACK :: u8 where "WF_WLAN_CATEGORY_BACK \<equiv> 3"
abbreviation (input) WF_WLAN_CATEGORY_PUBLIC :: u8 where "WF_WLAN_CATEGORY_PUBLIC \<equiv> 4"
abbreviation (input) WF_WLAN_CATEGORY_P2P :: u8 where "WF_WLAN_CATEGORY_P2P \<equiv> 0x7f"
abbreviation (input) WF_WLAN_ACTION_ADDBA_REQ :: u8 where "WF_WLAN_ACTION_ADDBA_REQ \<equiv> 0"
abbreviation (input) WF_WLAN_ACTION_ADDBA_RESP :: u8 where "WF_WLAN_ACTION_ADDBA_RESP \<equiv> 1"
abbreviation (input) WF_WLAN_ACTION_DELBA :: u8 where "WF_WLAN_ACTION_DELBA \<equiv> 2"

section \<open>Messages for the mlme thread\<close>

definition wf_mlme_add_ba_rsp :: "act_env \<Rightarrow> add_ba_parm \<Rightarrow> act_nic \<Rightarrow> act_nic \<times> int" where
  "wf_mlme_add_ba_rsp env parm n =
     (if \<not> an_is_up n then (n, -2)
      else if ae_msg env (an_events n) \<noteq> 0 then (n, -3)
      else (note_event (Mlme_add_ba_rsp parm) n, 0))"

definition wf_mlme_add_ba_req :: "act_env \<Rightarrow> act_nic \<Rightarrow> act_nic \<times> int" where
  "wf_mlme_add_ba_req env n =
     (if \<not> an_is_up n then (n, -2)
      else if ae_msg env (an_events n) \<noteq> 0 then (n, -3)
      else (note_event Mlme_add_ba_req n, 0))"

section \<open>Received frames\<close>

definition get_rx_ampdu_size :: "act_nic \<Rightarrow> u8" where
  "get_rx_ampdu_size n =
     (if max_rx_ampdu_factor n = 3 then 64
      else if max_rx_ampdu_factor n = 2 then 32
      else if max_rx_ampdu_factor n = 1 then 16
      else if max_rx_ampdu_factor n = 0 then 8
      else 64)"

definition action_frame_add_ba_response :: "act_env \<Rightarrow> add_ba_parm \<Rightarrow> act_nic \<Rightarrow> act_nic \<times> int" where
  "action_frame_add_ba_response env parm n =
     (let (n', rst) = wf_mlme_add_ba_rsp env (parm\<lparr>ap_size := get_rx_ampdu_size n\<rparr>) n
      in if rst \<noteq> 0 then (n', -1) else (n', 0))"

definition action_ba_req_work_ap :: "act_env \<Rightarrow> act_nic \<Rightarrow> act_nic \<times> int" where
  "action_ba_req_work_ap env n =
     (if an_peer n = None then (n, -1)
      else if ae_ap_msg env (an_events n) \<noteq> 0 then (n, -3)
      else (note_event Ap_ba_req_msg n, 0))"

text \<open>\<open>pkt\<close> is the frame, its body starts at offset 26. The bitmaps have 8 bits: the shifted 1 is cut
  to them.\<close>

definition bitmap_set :: "u8 \<Rightarrow> nat \<Rightarrow> u8" where
  "bitmap_set m t = m OR push_bit t 1"

definition bitmap_clear :: "u8 \<Rightarrow> nat \<Rightarrow> u8" where
  "bitmap_clear m t = m AND NOT (push_bit t 1)"

definition addba_request_parm :: "u8 \<Rightarrow> u16 \<Rightarrow> u16 \<Rightarrow> u16 \<Rightarrow> add_ba_parm" where
  "addba_request_parm dialog_token param timeout start =
     \<lparr>ap_tid = ucast (drop_bit 2 (param AND 0x3c)), ap_start_seq = ucast (drop_bit 4 start), ap_param = param,
      ap_timeout = timeout, ap_policy = ucast (drop_bit 1 (param AND 2)), ap_status = 0,
      ap_size = drop_bit 6 (ucast (param AND NOT 0xe03f)), ap_dialog = dialog_token\<rparr>"

definition action_frame_block_ack :: "act_env \<Rightarrow> bytes \<Rightarrow> u16 \<Rightarrow> act_nic \<Rightarrow> (act_nic \<times> int) option" where
  "action_frame_block_ack env pkt plen n =
     (if plen = 0 then Some (n, -1)
      else do {
        action \<leftarrow> rd8 pkt 25;
        case an_peer n of
          None \<Rightarrow> Some (n, -1)
        | Some p \<Rightarrow>
            if action = WF_WLAN_ACTION_ADDBA_REQ then
              (if an_work_mode n = WF_INFRA_MODE then do {
                 dialog_token \<leftarrow> rd8 pkt 26;
                 param \<leftarrow> rd_le16 pkt 27;
                 timeout \<leftarrow> rd_le16 pkt 29;
                 start \<leftarrow> rd_le16 pkt 31;
                 Some (fst (action_frame_add_ba_response env (addba_request_parm dialog_token param timeout start) n), 0)
               }
               else if an_work_mode n = WF_MASTER_MODE then Some (fst (action_ba_req_work_ap env n), 0)
               else Some (n, 0))
            else if action = WF_WLAN_ACTION_ADDBA_RESP then do {
              status \<leftarrow> rd_le16 pkt 27;
              b3 \<leftarrow> rd8 pkt 29;
              let tid = unat (drop_bit 2 b3 AND 7);
              let p' = (if status = 0 then
                          p\<lparr>agg_enable_bitmap := bitmap_set (agg_enable_bitmap p) tid,
                            candidate_tid_bitmap := bitmap_clear (candidate_tid_bitmap p) tid,
                            tx_amsdu_enable := (b3 AND 1 \<noteq> 0 \<or> tx_amsdu_enable p)\<rparr>
                        else p\<lparr>agg_enable_bitmap := bitmap_clear (agg_enable_bitmap p) tid\<rparr>);
              Some (n\<lparr>an_peer := Some p', baCreating := 0\<rparr>, 0)
            }
            else if action = WF_WLAN_ACTION_DELBA then do {
              b0 \<leftarrow> rd8 pkt 26;
              if b0 AND 8 = 0 then do {
                let tid = unat (drop_bit 4 b0 AND 0x0F);
                _ \<leftarrow> rd_le16 pkt 28;
                Some (n\<lparr>an_peer := Some (p\<lparr>agg_enable_bitmap := bitmap_clear (agg_enable_bitmap p) tid,
                  candidate_tid_bitmap := bitmap_clear (candidate_tid_bitmap p) tid\<rparr>)\<rparr>, 0)
              }
              else Some (n, 0)
            }
            else Some (n, 0)
      })"

definition proc_on_action_public_vendor_func :: "act_env \<Rightarrow> bytes \<Rightarrow> u16 \<Rightarrow> act_nic \<Rightarrow> (act_nic \<times> int) option" where
  "proc_on_action_public_vendor_func env pkt plen n =
     (if plen = 0 then Some (n, -1)
      else do {
        oui \<leftarrow> rdn pkt 26 4;
        Some (if oui = [0x50, 0x6F, 0x9A, 0x09] \<and> an_p2p_valid n
              then (note_event (P2p_public pkt) n, ae_p2p env (an_events n)) else (n, 0))
      })"

definition wf_action_frame_public :: "act_env \<Rightarrow> bytes \<Rightarrow> u16 \<Rightarrow> act_nic \<Rightarrow> (act_nic \<times> int) option" where
  "wf_action_frame_public env pkt plen n = do {
     category \<leftarrow> rd8 pkt 24;
     action \<leftarrow> rd8 pkt 25;
     da \<leftarrow> rdn pkt 4 6;
     if da \<noteq> an_mac n then Some (n, 0)
     else if category \<noteq> WF_WLAN_CATEGORY_PUBLIC then Some (n, 0)
     else if action = 9 then proc_on_action_public_vendor_func env pkt plen n
     else Some (n, 0)
   }"

text \<open>\<open>a\<close> keeps the value \<open>WF_WLAN_ACTION_PUBLIC_MAX\<close> (16) for the Wi-Fi Direct category.\<close>

definition wf_action_frame_parse :: "bytes \<Rightarrow> ((u8 \<times> u8) option) option" where
  "wf_action_frame_parse frame = do {
     fc \<leftarrow> rd_le16 frame 0;
     if fc AND 0x00FC \<noteq> 0x00D0 then Some None
     else do {
       c \<leftarrow> rd8 frame 24;
       a \<leftarrow> (if c = 127 then Some 16 else rd8 frame 25);
       Some (Some (c, a))
     }
   }"

definition action_frame_p2p_proc :: "act_env \<Rightarrow> bytes \<Rightarrow> u32 \<Rightarrow> act_nic \<Rightarrow> (act_nic \<times> int) option" where
  "action_frame_p2p_proc env pkt flen n =
     (if flen = 0 then Some (n, -1)
      else if \<not> an_p2p_valid n then Some (n, WF_RETURN_OK)
      else do {
        da \<leftarrow> rdn pkt 4 6;
        if an_mac n \<noteq> da then Some (n, WF_RETURN_OK)
        else do {
          category \<leftarrow> rd8 pkt 24;
          if category \<noteq> WF_WLAN_CATEGORY_P2P then Some (n, WF_RETURN_OK)
          else do {
            oui \<leftarrow> rdn pkt 25 4;
            Some (if be32_of (oui ! 0) (oui ! 1) (oui ! 2) (oui ! 3) \<noteq> 0x506F9A09 then (n, WF_RETURN_OK)
                  else (note_event (P2p_rx_action pkt) n, ae_p2p env (an_events n)))
          }
        }
      })"

definition wf_action_frame_process :: "act_env \<Rightarrow> bytes \<Rightarrow> u16 \<Rightarrow> act_nic \<Rightarrow> (act_nic \<times> int) option" where
  "wf_action_frame_process env pkt mgmt_len n = do {
     category \<leftarrow> rd8 pkt 24;
     if an_state n AND 3 \<noteq> 3 \<and> \<not> an_connect n \<and> \<not> an_p2p n then Some (n, 0)
     else if category = WF_WLAN_CATEGORY_BACK then
       (if an_ba_enable n then do { (n', _) \<leftarrow> action_frame_block_ack env pkt mgmt_len n; Some (n', 0) } else Some (n, 0))
     else if category = WF_WLAN_CATEGORY_PUBLIC then do { (n', _) \<leftarrow> wf_action_frame_public env pkt mgmt_len n; Some (n', 0) }
     else if category = WF_WLAN_CATEGORY_P2P then do { (n', _) \<leftarrow> action_frame_p2p_proc env pkt (ucast mgmt_len) n; Some (n', 0) }
     else Some (n, 0)
   }"

section \<open>Sent frames\<close>

text \<open>The header: the buffer is zeroed first; type and subtype are set by \<open>action_frame_wlan_hdr\<close>.\<close>

definition action_frame_wlan_hdr :: "u16" where
  "action_frame_wlan_hdr =
     (let fc0 = 0; fc1 = (fc0 AND NOT 0x000C) OR 0 in (fc1 AND NOT 0x00FC) OR 0x00D0)"

definition mgmt_hdr :: "peer_ba \<Rightarrow> act_nic \<Rightarrow> bytes" where
  "mgmt_hdr p n = le16_bytes action_frame_wlan_hdr @ [0, 0] @ pb_mac p @ an_mac n @ pb_bssid p @ [0, 0]"

definition addba_resp_set :: "u16 \<Rightarrow> u32 \<Rightarrow> u8 \<Rightarrow> u16" where
  "addba_resp_set s0 t sz =
     (let s1 = s0 AND NOT 0x003C;
          s2 = s1 OR (push_bit 2 (ucast t) AND 0x003C);
          s3 = s2 AND NOT 0xFFC0;
          s4 = s3 OR (push_bit 6 (ucast sz) AND 0xFFC0)
      in s4 AND NOT 1)"

definition addba_resp_body :: "add_ba_parm \<Rightarrow> bytes" where
  "addba_resp_body r =
     [ap_dialog r] @ le16_bytes (ap_status r) @ le16_bytes (addba_resp_set (ap_param r) (ap_tid r) (ap_size r)) @ le16_bytes (ap_timeout r)"

definition addba_req_set :: "u32 \<Rightarrow> u16" where
  "addba_req_set t = 0x1002 OR push_bit 2 (ucast t AND 0xf)"

definition addba_req_body :: "u8 \<Rightarrow> u32 \<Rightarrow> u16 \<Rightarrow> bytes" where
  "addba_req_body dialog t start_seq =
     [dialog] @ le16_bytes (addba_req_set t) @ le16_bytes 5000 @ le16_bytes (push_bit 4 start_seq)"

definition delba_body :: "add_ba_parm \<Rightarrow> bytes" where
  "delba_body r =
     (let initiator = 0 :: u16;
          s1 = push_bit 12 (ucast (ap_tid r)) AND 0xF000;
          s2 = s1 OR (push_bit 11 initiator AND 0x0800)
      in le16_bytes s2 @ le16_bytes (ap_status r))"

definition next_dialog :: "u8 \<Rightarrow> u8" where
  "next_dialog d = (if d + 1 > 7 then 1 else d + 1)"

text \<open>The frame is handed over at the end; \<open>xmit\<close> is that step.\<close>

definition xmit :: "act_env \<Rightarrow> bytes \<Rightarrow> act_nic \<Rightarrow> act_nic \<times> int" where
  "xmit env frame n = (note_event (Mgmt_xmit frame) n, ae_xmit env (an_events n))"

definition wf_action_frame_ba_to_issue :: "act_env \<Rightarrow> u8 \<Rightarrow> act_nic \<Rightarrow> (act_nic \<times> int) option" where
  "wf_action_frame_ba_to_issue env action n =
     (case an_peer n of
        None \<Rightarrow> Some (n, -1)
      | Some p \<Rightarrow>
          if \<not> ae_extbuf env (an_events n) then Some (n, -1)
          else (let hdr = mgmt_hdr p n @ [WF_WLAN_CATEGORY_BACK, action]
                in if action = WF_WLAN_ACTION_ADDBA_RESP then Some (xmit env (hdr @ addba_resp_body (barsp_parm n)) n)
                   else if action = WF_WLAN_ACTION_ADDBA_REQ then
                     (let t = ap_tid (bareq_parm n)
                      in if \<not> unat t < length (dialogToken p) \<or> \<not> unat t < length (txseq_tid p) \<or> \<not> unat t < length (ba_starting_seqctrl p)
                         then None
                         else let dialog = next_dialog (dialogToken p ! unat t);
                                  start_seq = (txseq_tid p ! unat t AND 0xfff) + 1;
                                  p' = p\<lparr>dialogToken := (dialogToken p)[unat t := dialog],
                                         ba_starting_seqctrl := (ba_starting_seqctrl p)[unat t := start_seq]\<rparr>
                              in Some (xmit env (hdr @ addba_req_body dialog t start_seq) (n\<lparr>an_peer := Some p', baCreating := 1\<rparr>)))
                   else if action = WF_WLAN_ACTION_DELBA then Some (xmit env (hdr @ delba_body (barsp_parm n)) n)
                   else Some (xmit env hdr n)))"

text \<open>\<open>priority\<close>, \<open>frame_tag\<close> and the kind of packet of the transmitted frame: \<open>plain\<close> is a data frame that
  is neither ARP, EAPOL nor DHCP.\<close>

record ba_xmit_frame =
  bf_bmcast :: bool
  bf_priority :: u8
  bf_data_tag :: bool
  bf_ether_type :: u16
  bf_dhcp_pkt :: u8

definition wf_action_frame_add_ba_request :: "act_env \<Rightarrow> ba_xmit_frame \<Rightarrow> act_nic \<Rightarrow> (act_nic \<times> int) option" where
  "wf_action_frame_add_ba_request env x n =
     (if bf_bmcast x then Some (n, -1)
      else (case an_peer n of
          None \<Rightarrow> Some (n, -1)
        | Some p \<Rightarrow>
            let t = unat (bf_priority x)
            in if \<not> t < length (ba_enable_flag p) then None
               else if ba_enable_flag p ! t then Some (n, -1)
               else if pb_ht_option p \<and> pb_ampdu_enable p then
                 (let issued = (drop_bit t (agg_enable_bitmap p) AND 1) OR (drop_bit t (candidate_tid_bitmap p) AND 1)
                  in if issued = 0 \<and> bf_data_tag x \<and> bf_ether_type x \<noteq> 0x0806 \<and> bf_ether_type x \<noteq> 0x888e \<and> bf_dhcp_pkt x \<noteq> 1 then
                       (let p' = p\<lparr>candidate_tid_bitmap := bitmap_set (candidate_tid_bitmap p) t,
                                   ba_enable_flag := (ba_enable_flag p)[t := True]\<rparr>;
                            n1 = n\<lparr>an_peer := Some p', bareq_parm := (bareq_parm n)\<lparr>ap_tid := ucast (bf_priority x)\<rparr>\<rparr>
                        in Some (fst (wf_mlme_add_ba_req env n1), 0))
                     else Some (n, -1))
               else Some (n, -1)))"

text \<open>The loop of \<open>wf_action_frame_del_ba_request\<close> over the traffic ids; \<open>alive\<close> is the result of
  \<open>wf_wdn_is_alive\<close> for the peer.\<close>

fun del_ba_loop :: "act_env \<Rightarrow> nat list \<Rightarrow> act_nic \<Rightarrow> act_nic option" where
  "del_ba_loop env [] n = Some n"
| "del_ba_loop env (t # ts) n = do {
     p \<leftarrow> an_peer n;
     if \<not> t < length (ba_started_flag p) \<or> \<not> t < length (ba_enable_flag p) then None
     else if ba_started_flag p ! t then do {
       (n1, _) \<leftarrow> wf_action_frame_ba_to_issue env WF_WLAN_ACTION_DELBA (n\<lparr>barsp_parm := (barsp_parm n)\<lparr>ap_tid := of_nat t\<rparr>\<rparr>);
       p1 \<leftarrow> an_peer n1;
       del_ba_loop env ts (n1\<lparr>an_peer := Some (p1\<lparr>ba_started_flag := (ba_started_flag p1)[t := False], ba_enable_flag := (ba_enable_flag p1)[t := False]\<rparr>)\<rparr>)
     }
     else del_ba_loop env ts n
   }"

definition wf_action_frame_del_ba_request :: "act_env \<Rightarrow> bool \<Rightarrow> act_nic \<Rightarrow> (act_nic \<times> int) option" where
  "wf_action_frame_del_ba_request env alive n =
     (case an_peer n of
        None \<Rightarrow> Some (n, 0)
      | Some _ \<Rightarrow>
          if alive then Some (n, 0)
          else do {
            n1 \<leftarrow> del_ba_loop env [0..<16] n;
            p \<leftarrow> an_peer n1;
            Some (n1\<lparr>an_peer := Some (p\<lparr>agg_enable_bitmap := 0, candidate_tid_bitmap := 0\<rparr>)\<rparr>, 0)
          })"

section \<open>The threads that send request and response\<close>

text \<open>Each thread waits for the lock of the hardware and then runs to its end; the last component is how
  the protothread ends.\<close>

definition core_conn_maintain_ba_req_thrd :: "act_env \<Rightarrow> act_nic \<Rightarrow> (act_nic \<times> pt_ret) option" where
  "core_conn_maintain_ba_req_thrd env n =
     (if hw_access_lock n then Some (n, PT_WAITING)
      else let n1 = n\<lparr>hw_access_lock := True\<rparr>
           in if an_peer n1 = None then Some (n1, PT_EXITED)
              else if an_ba_enable n1 then do {
                (n2, _) \<leftarrow> wf_action_frame_ba_to_issue env WF_WLAN_ACTION_ADDBA_REQ n1;
                p \<leftarrow> an_peer n2;
                let t = unat (ap_tid (bareq_parm n2));
                if \<not> t < length (ba_started_flag p) then None
                else Some (n2\<lparr>an_peer := Some (p\<lparr>ba_started_flag := (ba_started_flag p)[t := True]\<rparr>), hw_access_lock := False\<rparr>, PT_ENDED)
              }
              else Some (n1\<lparr>hw_access_lock := False\<rparr>, PT_ENDED))"

definition core_conn_maintain_ba_rsp_thrd :: "act_env \<Rightarrow> add_ba_parm \<Rightarrow> act_nic \<Rightarrow> (act_nic \<times> pt_ret) option" where
  "core_conn_maintain_ba_rsp_thrd env parm n =
     (if hw_access_lock n then Some (n, PT_WAITING)
      else let n1 = n\<lparr>hw_access_lock := True\<rparr>
           in if an_peer n1 = None then Some (n1, PT_EXITED)
              else if an_ba_enable n1 then do {
                (n2, ret) \<leftarrow> wf_action_frame_ba_to_issue env WF_WLAN_ACTION_ADDBA_RESP (n1\<lparr>barsp_parm := parm\<rparr>);
                p \<leftarrow> an_peer n2;
                bas \<leftarrow> pb_ba_ctl p;
                let t = unat (ap_tid (barsp_parm n2));
                if \<not> t < length bas then None
                else let b = bas ! t;
                         b' = (if ret < 0 then b\<lparr>ba_enable := False\<rparr>
                               else b\<lparr>ba_enable := True, wait_timeout := ucast (ap_timeout (bareq_parm n2))\<rparr>)
                     in Some (n2\<lparr>an_peer := Some (p\<lparr>pb_ba_ctl := Some (bas[t := b'])\<rparr>), hw_access_lock := False\<rparr>, PT_ENDED)
              }
              else Some (n1\<lparr>hw_access_lock := False\<rparr>, PT_ENDED))"

section \<open>Reading back what was written\<close>

definition macs_ok :: "act_nic \<Rightarrow> bool" where
  "macs_ok n \<longleftrightarrow> length (an_mac n) = 6 \<and> (case an_peer n of None \<Rightarrow> True | Some p \<Rightarrow> length (pb_mac p) = 6 \<and> length (pb_bssid p) = 6)"

lemma length_mgmt_hdr: "macs_ok n \<Longrightarrow> an_peer n = Some p \<Longrightarrow> length (mgmt_hdr p n) = 24"
  by (simp add: mgmt_hdr_def le16_bytes_def macs_ok_def)

lemma bit_req_set: "bit (addba_req_set t) i \<longleftrightarrow> i = 1 \<or> i = 12 \<or> 2 \<le> i \<and> i < 6 \<and> bit t (i - 2)"
proof -
  have "(0x1002 :: u16) = 2 ^ 12 OR 2 ^ 1" by simp
  then have c: "bit (0x1002 :: u16) j \<longleftrightarrow> j = 12 \<or> j = 1" for j
    by (simp only: bit_or_iff bit_exp_iff) auto
  have m: "(0xf :: u16) = mask 4" by (simp add: mask_numeral)
  show ?thesis unfolding addba_req_set_def m bit_or_iff c by (auto simp: bit_simps)
qed

lemma req_set_fields:
  "t < 16 \<Longrightarrow> ucast (drop_bit 2 (addba_req_set (of_nat t) AND 0x3c)) = (of_nat t :: u32)"
  "ucast (drop_bit 1 (addba_req_set t' AND 2)) = (1 :: u8)"
proof -
  have m: "(0x3c :: u16) = push_bit 2 (mask 4)" "(2 :: u16) = push_bit 1 (mask 1)" "(1 :: u8) = mask 1" by (simp_all add: mask_numeral)
  assume "t < 16"
  then have "take_bit 4 t = t" by (simp add: take_bit_nat_eq_self)
  then have lt: "bit t i \<Longrightarrow> i < 4" for i by (metis bit_take_bit_iff)
  show "ucast (drop_bit 2 (addba_req_set (of_nat t) AND 0x3c)) = (of_nat t :: u32)"
    unfolding m by (intro bit_word_eqI) (auto simp: bit_simps bit_req_set dest: lt)
next
  have m: "(2 :: u16) = push_bit 1 (mask 1)" "(1 :: u8) = mask 1" by (simp_all add: mask_numeral)
  show "ucast (drop_bit 1 (addba_req_set t' AND 2)) = (1 :: u8)"
    unfolding m by (intro bit_word_eqI) (auto simp: bit_simps bit_req_set)
qed

text \<open>Where the fields of a block-ack frame are.\<close>

lemma back_frame_reads:
  assumes "length h = 24"
  shows "rd8 (h @ c # a # b) 24 = Some c" "rd8 (h @ c # a # b) 25 = Some a"
    "26 \<le> i \<Longrightarrow> rd8 (h @ c # a # b) i = rd8 b (i - 26)" "26 \<le> i \<Longrightarrow> rd_le16 (h @ c # a # b) i = rd_le16 b (i - 26)"
proof -
  have "rd8 ((h @ [c, a]) @ b) i = rd8 b (i - 26)" "rd_le16 ((h @ [c, a]) @ b) i = rd_le16 b (i - 26)" if "26 \<le> i" for i
    using that assms by (subst rd_right; simp)+
  then show "26 \<le> i \<Longrightarrow> rd8 (h @ c # a # b) i = rd8 b (i - 26)" "26 \<le> i \<Longrightarrow> rd_le16 (h @ c # a # b) i = rd_le16 b (i - 26)"
    by simp_all
qed (use assms in \<open>simp_all add: rd8_def nth_append\<close>)

lemma addba_req_body_reads:
  "rd8 (addba_req_body d t sq) 0 = Some d"
  "rd_le16 (addba_req_body d t sq) 1 = Some (addba_req_set t)"
  "rd_le16 (addba_req_body d t sq) 3 = Some 5000" "rd_le16 (addba_req_body d t sq) 5 = Some (push_bit 4 sq)"
  using rd_le16_put [of 1 "[d]" "addba_req_set t"] rd_le16_put [of 3 "[d] @ le16_bytes (addba_req_set t)" 5000]
    rd_le16_put [of 5 "[d] @ le16_bytes (addba_req_set t) @ le16_bytes 5000" "push_bit 4 sq" "[]"]
  by (simp_all add: addba_req_body_def rd8_def)

lemma process_addba_req:
  assumes "length h = 24" "len \<noteq> 0" "an_peer n = Some p" "an_work_mode n = WF_INFRA_MODE" "an_connect n" "an_ba_enable n" "an_is_up n"
    "ae_msg env (an_events n) = 0"
  shows "wf_action_frame_process env (h @ [WF_WLAN_CATEGORY_BACK, WF_WLAN_ACTION_ADDBA_REQ] @ addba_req_body d t sq) len n =
    Some (note_event (Mlme_add_ba_rsp ((addba_request_parm d (addba_req_set t) 5000 (push_bit 4 sq))
      \<lparr>ap_size := get_rx_ampdu_size n\<rparr>)) n, 0)"
  using assms
  by (simp add: wf_action_frame_process_def action_frame_block_ack_def back_frame_reads addba_req_body_reads [simplified]
      action_frame_add_ba_response_def wf_mlme_add_ba_rsp_def)

lemma addba_resp_body_reads:
  "rd_le16 (addba_resp_body r) 1 = Some (ap_status r)"
  "rd8 (addba_resp_body r) 3 = Some (ucast (addba_resp_set (ap_param r) (ap_tid r) (ap_size r)))"
  by (simp_all add: addba_resp_body_def rd_le16_def rd8_def le16_bytes_def le16_of_bytes)

text \<open>The byte of the response that the originator reads: the low bits of the traffic id, no A-MSDU.\<close>

lemma bit_resp_set:
  "bit (addba_resp_set q t z) i \<longleftrightarrow> i < 16 \<and> 0 < i \<and> (if i = 1 then bit q 1 else if i < 6 then bit t (i - 2) else bit z (i - 6))"
proof -
  have m: "(0x003C :: u16) = push_bit 2 (mask 4)" "(0xFFC0 :: u16) = push_bit 6 (mask 10)" "(1 :: u16) = mask 1"
    by (simp_all add: mask_numeral)
  show ?thesis
    unfolding addba_resp_set_def Let_def m by (auto simp: bit_simps dest: bit_imp_le_length)
qed

lemma resp_byte:
  "drop_bit 2 (ucast (addba_resp_set q (of_nat t) z) :: u8) AND 7 = of_nat (t mod 8)" "(ucast (addba_resp_set q t' z) :: u8) AND 1 = 0"
proof -
  have m: "(7 :: u8) = mask 3" "(1 :: u8) = mask 1" by (simp_all add: mask_numeral)
  have "(of_nat (t mod 8) :: u8) = take_bit 3 (of_nat t)" by (simp only: take_bit_of_nat) (simp add: take_bit_eq_mod)
  then show "drop_bit 2 (ucast (addba_resp_set q (of_nat t) z) :: u8) AND 7 = of_nat (t mod 8)"
    unfolding m by (intro bit_word_eqI) (auto simp: bit_simps bit_resp_set)
  show "(ucast (addba_resp_set q t' z) :: u8) AND 1 = 0"
    unfolding m by (intro bit_word_eqI) (auto simp: bit_simps bit_resp_set)
qed

text \<open>What the originator does with a response of status 0.\<close>

lemma process_addba_resp:
  assumes "length h = 24" "len \<noteq> 0" "an_peer n = Some p" "an_connect n" "an_ba_enable n" "ap_status r = 0" "ap_tid r = of_nat t"
  shows "wf_action_frame_process env (h @ [WF_WLAN_CATEGORY_BACK, WF_WLAN_ACTION_ADDBA_RESP] @ addba_resp_body r) len n =
    Some (n\<lparr>an_peer := Some (p\<lparr>agg_enable_bitmap := bitmap_set (agg_enable_bitmap p) (t mod 8),
      candidate_tid_bitmap := bitmap_clear (candidate_tid_bitmap p) (t mod 8)\<rparr>), baCreating := 0\<rparr>, 0)"
proof -
  have u: "unat (of_nat (t mod 8) :: u8) = t mod 8" by (simp only: unsigned_of_nat) (simp add: take_bit_nat_eq_self)
  have am: "tx_amsdu_enable_update (\<lambda>_. tx_amsdu_enable p) q = q" if "tx_amsdu_enable q = tx_amsdu_enable p" for q :: peer_ba
    using that by (cases q) simp
  show ?thesis
    using assms
    by (simp add: wf_action_frame_process_def action_frame_block_ack_def back_frame_reads addba_resp_body_reads [simplified] resp_byte u am Let_def)
qed

lemma push_start: "unat (drop_bit 4 (push_bit 4 (w :: u16))) = unat w mod 4096"
proof -
  have "drop_bit 4 (push_bit 4 w) = take_bit 12 w" by (rule bit_word_eqI) (auto simp: bit_simps)
  then have "unat (drop_bit 4 (push_bit 4 w)) = take_bit 12 (unat w)" by (simp only: unsigned_take_bit_eq)
  then show ?thesis by (simp only: take_bit_eq_mod) simp
qed

lemma start_seq_sent: "unat (ucast (drop_bit 4 (push_bit 4 ((x AND 0xfff) + 1 :: u16))) :: u32) = (unat (x AND 0xfff) + 1) mod 4096"
proof -
  have "(0xfff :: u16) = mask 12" by (simp add: mask_numeral)
  then have "x AND 0xfff = take_bit 12 x" by (simp only: take_bit_eq_mask [symmetric])
  then have "unat (x AND 0xfff) = unat x mod 4096" by (simp only: unsigned_take_bit_eq) (simp add: take_bit_eq_mod)
  then have "unat (x AND 0xfff) < 4096" by simp
  then have "unat ((x AND 0xfff) + 1) = unat (x AND 0xfff) + 1" by (simp add: unat_word_ariths)
  moreover have "unat (ucast w :: u32) = unat w" for w :: u16
    using unat_u16_less [of w] by (simp add: unsigned_ucast_eq take_bit_nat_eq_self)
  ultimately show ?thesis using push_start [of "(x AND 0xfff) + 1"] by (simp only:)
qed

text \<open>A station that can negotiate: it is up and connected, the hardware has block-ack, nothing it calls fails,
  and the arrays of its peer have an element for each traffic id.\<close>

definition ba_ready :: "act_env \<Rightarrow> act_nic \<Rightarrow> peer_ba \<Rightarrow> reorder list \<Rightarrow> bool" where
  "ba_ready env n p bas \<longleftrightarrow> an_peer n = Some p \<and> pb_ba_ctl p = Some bas \<and> an_work_mode n = WF_INFRA_MODE \<and> an_connect n \<and> an_is_up n \<and>
     an_ba_enable n \<and> \<not> hw_access_lock n \<and> macs_ok n \<and> (\<forall>es. ae_msg env es = 0 \<and> ae_extbuf env es \<and> ae_xmit env es = 0) \<and>
     length bas = 16 \<and> length (dialogToken p) = 16 \<and> length (ba_started_flag p) = 16 \<and> length (ba_starting_seqctrl p) = 16 \<and> length (txseq_tid p) = 16"

lemma req_thrd_result:
  assumes "ba_ready env n p bas" "ap_tid (bareq_parm n) = of_nat t" "t < 16"
  defines "dialog \<equiv> next_dialog (dialogToken p ! t)" and "sq \<equiv> (txseq_tid p ! t AND 0xfff) + 1"
  shows "core_conn_maintain_ba_req_thrd env n =
    Some (note_event (Mgmt_xmit (mgmt_hdr p n @ [WF_WLAN_CATEGORY_BACK, WF_WLAN_ACTION_ADDBA_REQ] @ addba_req_body dialog (of_nat t) sq))
      (n\<lparr>an_peer := Some (p\<lparr>dialogToken := (dialogToken p)[t := dialog], ba_starting_seqctrl := (ba_starting_seqctrl p)[t := sq],
          ba_started_flag := (ba_started_flag p)[t := True]\<rparr>), baCreating := 1\<rparr>), PT_ENDED)"
proof -
  have u: "unat (of_nat t :: u32) = t" using assms(3) by (intro unat_of_nat_u32) simp
  show ?thesis
    using assms(1-3)
    by (simp add: ba_ready_def core_conn_maintain_ba_req_thrd_def wf_action_frame_ba_to_issue_def u Let_def xmit_def note_event_def
        mgmt_hdr_def dialog_def sq_def)
qed

lemma rsp_thrd_result:
  assumes "ba_ready env n p bas" "ap_tid parm = of_nat t" "t < 16"
  shows "core_conn_maintain_ba_rsp_thrd env parm n =
    Some (note_event (Mgmt_xmit (mgmt_hdr p n @ [WF_WLAN_CATEGORY_BACK, WF_WLAN_ACTION_ADDBA_RESP] @ addba_resp_body parm))
      (n\<lparr>an_peer := Some (p\<lparr>pb_ba_ctl := Some (bas[t := (bas ! t)\<lparr>ba_enable := True, wait_timeout := ucast (ap_timeout (bareq_parm n))\<rparr>])\<rparr>),
         barsp_parm := parm\<rparr>), PT_ENDED)"
proof -
  have u: "unat (of_nat t :: u32) = t" using assms(3) by (intro unat_of_nat_u32) simp
  show ?thesis
    using assms
    by (simp add: ba_ready_def core_conn_maintain_ba_rsp_thrd_def wf_action_frame_ba_to_issue_def u Let_def xmit_def note_event_def mgmt_hdr_def)
qed

lemma bitmap_bits:
  "t < 8 \<Longrightarrow> bit (bitmap_set m t) i \<longleftrightarrow> bit m i \<or> i = t" "t < 8 \<Longrightarrow> bit (bitmap_clear m t) i \<longleftrightarrow> bit m i \<and> i \<noteq> t"
proof -
  assume t: "t < 8"
  have e: "push_bit t (1 :: u8) = 2 ^ t" by (simp add: push_bit_eq_mult)
  show "bit (bitmap_set m t) i \<longleftrightarrow> bit m i \<or> i = t" "bit (bitmap_clear m t) i \<longleftrightarrow> bit m i \<and> i \<noteq> t"
    unfolding bitmap_set_def bitmap_clear_def e using t by (auto simp: bit_or_iff bit_and_iff bit_not_iff bit_exp_iff dest: bit_imp_le_length)
qed

section \<open>Properties\<close>

text \<open>(C11) The negotiation of a block-ack session completes: between two stations of this driver that can
  negotiate, the request thread of the originator sends a frame from which the receiver gets the
  same traffic id and the number after the last one sent, modulo 4096; its response thread sends a frame
  and enables the reorder window of that traffic id, for all 16 traffic ids. The originator then marks the traffic id modulo 8, and
  no other, as aggregated and no more as candidate: that is the negotiated one for the ids 0 to 7. Both have released the lock of the hardware.\<close>

theorem ba_handshake:
  assumes "ba_ready envA a pA basA" "ba_ready envB b pB basB" "ap_tid (bareq_parm a) = of_nat t" "t < 16" "len1 \<noteq> 0" "len2 \<noteq> 0"
  shows "\<exists>a1 b1 b2 a2 req parm resp.
    core_conn_maintain_ba_req_thrd envA a = Some (a1, PT_ENDED) \<and> an_events a1 = an_events a @ [Mgmt_xmit req] \<and>
    wf_action_frame_process envB req len1 b = Some (b1, 0) \<and> an_events b1 = an_events b @ [Mlme_add_ba_rsp parm] \<and>
    ap_tid parm = of_nat t \<and> unat (ap_start_seq parm) = (unat (txseq_tid pA ! t AND 0xfff) + 1) mod 4096 \<and>
    core_conn_maintain_ba_rsp_thrd envB parm b1 = Some (b2, PT_ENDED) \<and> an_events b2 = an_events b1 @ [Mgmt_xmit resp] \<and>
    (\<exists>pB2 bas2. an_peer b2 = Some pB2 \<and> pb_ba_ctl pB2 = Some bas2 \<and> ba_enable (bas2 ! t)) \<and>
    wf_action_frame_process envA resp len2 a1 = Some (a2, 0) \<and>
    (\<exists>pA2. an_peer a2 = Some pA2 \<and> (\<forall>i. bit (agg_enable_bitmap pA2) i \<longleftrightarrow> bit (agg_enable_bitmap pA) i \<or> i = t mod 8) \<and>
       (\<forall>i. bit (candidate_tid_bitmap pA2) i \<longleftrightarrow> bit (candidate_tid_bitmap pA) i \<and> i \<noteq> t mod 8)) \<and>
    \<not> hw_access_lock a2 \<and> \<not> hw_access_lock b2 \<and> baCreating a2 = 0"
proof -
  note t16 = assms(4)
  define dialog where "dialog = next_dialog (dialogToken pA ! t)"
  define sq where "sq = (txseq_tid pA ! t AND 0xfff) + 1"
  define req where "req = mgmt_hdr pA a @ [WF_WLAN_CATEGORY_BACK, WF_WLAN_ACTION_ADDBA_REQ] @ addba_req_body dialog (of_nat t) sq"
  define pA1 where "pA1 = pA\<lparr>dialogToken := (dialogToken pA)[t := dialog], ba_starting_seqctrl := (ba_starting_seqctrl pA)[t := sq],
      ba_started_flag := (ba_started_flag pA)[t := True]\<rparr>"
  define a1 where "a1 = note_event (Mgmt_xmit req) (a\<lparr>an_peer := Some pA1, baCreating := 1\<rparr>)"
  have s1: "core_conn_maintain_ba_req_thrd envA a = Some (a1, PT_ENDED)"
    unfolding a1_def req_def pA1_def dialog_def sq_def by (rule req_thrd_result [OF assms(1,3) t16])
  define parm where "parm = (addba_request_parm dialog (addba_req_set (of_nat t)) 5000 (push_bit 4 sq))\<lparr>ap_size := get_rx_ampdu_size b\<rparr>"
  define b1 where "b1 = note_event (Mlme_add_ba_rsp parm) b"
  have macs: "length (mgmt_hdr pA a) = 24" "length (mgmt_hdr pB b) = 24"
    using assms(1,2) length_mgmt_hdr by (auto simp: ba_ready_def)
  have s2: "wf_action_frame_process envB req len1 b = Some (b1, 0)"
    unfolding req_def b1_def parm_def using assms(2,5) macs(1) by (intro process_addba_req) (auto simp: ba_ready_def)
  have parm: "ap_tid parm = of_nat t" "ap_status parm = 0" "ap_start_seq parm = ucast (drop_bit 4 (push_bit 4 sq))"
    using req_set_fields(1) [OF t16] by (simp_all add: parm_def addba_request_parm_def)
  have start: "unat (ap_start_seq parm) = (unat (txseq_tid pA ! t AND 0xfff) + 1) mod 4096"
    unfolding parm(3) sq_def by (rule start_seq_sent)
  have ready: "ba_ready envB b1 pB basB" using assms(2) by (auto simp: ba_ready_def b1_def note_event_def macs_ok_def)
  define resp where "resp = mgmt_hdr pB b1 @ [WF_WLAN_CATEGORY_BACK, WF_WLAN_ACTION_ADDBA_RESP] @ addba_resp_body parm"
  define pB2 where "pB2 = pB\<lparr>pb_ba_ctl := Some (basB[t := (basB ! t)\<lparr>ba_enable := True, wait_timeout := ucast (ap_timeout (bareq_parm b1))\<rparr>])\<rparr>"
  define b2 where "b2 = note_event (Mgmt_xmit resp) (b1\<lparr>an_peer := Some pB2, barsp_parm := parm\<rparr>)"
  have s3: "core_conn_maintain_ba_rsp_thrd envB parm b1 = Some (b2, PT_ENDED)"
    unfolding b2_def resp_def pB2_def by (rule rsp_thrd_result [OF ready parm(1) t16])
  define pA2 where "pA2 = pA1\<lparr>agg_enable_bitmap := bitmap_set (agg_enable_bitmap pA1) (t mod 8),
      candidate_tid_bitmap := bitmap_clear (candidate_tid_bitmap pA1) (t mod 8)\<rparr>"
  have s4: "wf_action_frame_process envA resp len2 a1 = Some (a1\<lparr>an_peer := Some pA2, baCreating := 0\<rparr>, 0)"
    unfolding resp_def pA2_def using assms(1,6) macs(2) parm
    by (intro process_addba_resp) (auto simp: ba_ready_def a1_def note_event_def b1_def mgmt_hdr_def)
  have ev: "an_events a1 = an_events a @ [Mgmt_xmit req]" "an_events b1 = an_events b @ [Mlme_add_ba_rsp parm]"
      "an_events b2 = an_events b1 @ [Mgmt_xmit resp]" "\<not> hw_access_lock a1" "\<not> hw_access_lock b2"
    using assms(1,2) by (simp_all add: a1_def b1_def b2_def note_event_def ba_ready_def)
  have en: "an_peer b2 = Some pB2" "ba_enable (the (pb_ba_ctl pB2) ! t)" "\<exists>bas2. pb_ba_ctl pB2 = Some bas2"
    using assms(2) t16 by (simp_all add: b2_def note_event_def pB2_def ba_ready_def)
  have bits: "bit (agg_enable_bitmap pA2) i \<longleftrightarrow> bit (agg_enable_bitmap pA) i \<or> i = t mod 8"
      "bit (candidate_tid_bitmap pA2) i \<longleftrightarrow> bit (candidate_tid_bitmap pA) i \<and> i \<noteq> t mod 8" for i
    by (simp_all add: pA2_def pA1_def bitmap_bits)
  show ?thesis
    using s1 s2 s3 s4 parm(1) start ev en bits
    by (intro exI [of _ a1] exI [of _ b1] exI [of _ b2] exI [of _ "a1\<lparr>an_peer := Some pA2, baCreating := 0\<rparr>"]
        exI [of _ req] exI [of _ parm] exI [of _ resp]) auto
qed

definition ba_parm_ex :: add_ba_parm where
  "ba_parm_ex = \<lparr>ap_tid = 5, ap_start_seq = 0, ap_param = 0, ap_timeout = 0, ap_policy = 0, ap_status = 0, ap_size = 0, ap_dialog = 0\<rparr>"

definition ba_peer_ex :: peer_ba where
  "ba_peer_ex = \<lparr>pb_mac = [2, 0, 0, 0, 0, 7], pb_bssid = [2, 0, 0, 0, 0, 7], pb_ht_option = True, pb_ampdu_enable = True, tx_amsdu_enable = False,
     agg_enable_bitmap = 1, candidate_tid_bitmap = 0x20, dialogToken = replicate 16 0, ba_enable_flag = replicate 16 False,
     ba_started_flag = replicate 16 False, ba_starting_seqctrl = replicate 16 0, txseq_tid = replicate 16 0xfff,
     pb_ba_ctl = Some (replicate 16 (ba_ctl_init (map Some [3..<67]) reorder_blank))\<rparr>"

definition ba_nic_ex :: act_nic where
  "ba_nic_ex = \<lparr>an_work_mode = WF_INFRA_MODE, an_mac = [2, 0, 0, 0, 0, 1], an_is_up = True, an_ba_enable = True, max_rx_ampdu_factor = 3,
     an_state = 0, an_connect = True, an_p2p = False, an_p2p_valid = False, hw_access_lock = False, barsp_parm = ba_parm_ex,
     bareq_parm = ba_parm_ex, baCreating = 0, an_peer = Some ba_peer_ex, an_events = []\<rparr>"

definition ba_env_ex :: act_env where
  "ba_env_ex = \<lparr>ae_msg = \<lambda>_. 0, ae_extbuf = \<lambda>_. True, ae_xmit = \<lambda>_. 0, ae_ap_msg = \<lambda>_. 0, ae_p2p = \<lambda>_. 0\<rparr>"

lemma ba_ready_ex: "ba_ready ba_env_ex ba_nic_ex ba_peer_ex (replicate 16 (ba_ctl_init (map Some [3..<67]) reorder_blank))"
  by (simp add: ba_ready_def ba_env_ex_def ba_nic_ex_def ba_peer_ex_def macs_ok_def)

lemma ba_handshake_witness:
  "\<exists>a1 req b1 parm. core_conn_maintain_ba_req_thrd ba_env_ex ba_nic_ex = Some (a1, PT_ENDED) \<and> an_events a1 = [Mgmt_xmit req] \<and>
     wf_action_frame_process ba_env_ex req 33 ba_nic_ex = Some (b1, 0) \<and> an_events b1 = [Mlme_add_ba_rsp parm] \<and>
     ap_tid parm = 5 \<and> unat (ap_start_seq parm) = 0"
proof -
  have e: "an_events ba_nic_ex = []" "txseq_tid ba_peer_ex ! 5 = 0xfff" by (simp_all add: ba_nic_ex_def ba_peer_ex_def)
  have "ap_tid (bareq_parm ba_nic_ex) = of_nat 5" by (simp add: ba_nic_ex_def ba_parm_ex_def)
  from ba_handshake [OF ba_ready_ex ba_ready_ex this, of 33 33] show ?thesis unfolding e by (auto simp del: of_nat_numeral) fastforce
qed

text \<open>A DELBA frame of this driver ends the wrong session: for every traffic id, the frame that
  \<open>wf_action_frame_ba_to_issue\<close> sends makes a receiver with this driver clear the marks of traffic id 0,
  and those of the traffic id that was meant stay as they were (the parameters are looked for in the
  first byte of the field, they are in the second).\<close>

theorem delba_ends_tid_0:
  assumes "an_peer a = Some pA" "macs_ok a" "\<forall>es. ae_extbuf envA es" "ap_tid (barsp_parm a) = of_nat t" "t < 16"
    "an_peer b = Some pB" "an_connect b" "an_ba_enable b" "len \<noteq> 0"
  shows "\<exists>a1 frame ret b1 pB1. wf_action_frame_ba_to_issue envA WF_WLAN_ACTION_DELBA a = Some (a1, ret) \<and>
    an_events a1 = an_events a @ [Mgmt_xmit frame] \<and> wf_action_frame_process envB frame len b = Some (b1, 0) \<and> an_peer b1 = Some pB1 \<and>
    (\<forall>i. bit (agg_enable_bitmap pB1) i \<longleftrightarrow> bit (agg_enable_bitmap pB) i \<and> i \<noteq> 0)"
proof -
  let ?f = "mgmt_hdr pA a @ [WF_WLAN_CATEGORY_BACK, WF_WLAN_ACTION_DELBA] @ delba_body (barsp_parm a)"
  have m: "(0xF000 :: u16) = push_bit 12 (mask 4)" by (simp add: mask_numeral)
  have z: "(ucast (push_bit 12 (ucast (ap_tid (barsp_parm a))) AND 0xF000 :: u16) :: u8) = 0"
    unfolding m by (intro bit_word_eqI) (auto simp: bit_simps)
  have reads: "rd8 (delba_body (barsp_parm a)) 0 = Some 0" "rd_le16 (delba_body (barsp_parm a)) 2 = Some (ap_status (barsp_parm a))"
    by (simp_all add: delba_body_def Let_def le16_bytes_def rd8_def rd_le16_def le16_of_bytes z)
  have "length (mgmt_hdr pA a) = 24" using assms(1,2) by (rule length_mgmt_hdr [rotated])
  note fr = back_frame_reads [OF this]
  have "wf_action_frame_process envB ?f len b = Some (b\<lparr>an_peer := Some (pB\<lparr>agg_enable_bitmap := bitmap_clear (agg_enable_bitmap pB) 0,
      candidate_tid_bitmap := bitmap_clear (candidate_tid_bitmap pB) 0\<rparr>)\<rparr>, 0)"
    using assms(6-9) by (simp add: wf_action_frame_process_def action_frame_block_ack_def fr reads)
  moreover have "wf_action_frame_ba_to_issue envA WF_WLAN_ACTION_DELBA a = Some (xmit envA ?f a)"
    using assms(1,3) by (simp add: wf_action_frame_ba_to_issue_def)
  ultimately show ?thesis
    by (intro exI [of _ "fst (xmit envA ?f a)"] exI [of _ ?f] exI [of _ "snd (xmit envA ?f a)"] exI)
       (auto simp: xmit_def note_event_def bitmap_bits)
qed

lemma delba_ends_tid_0_witness:
  "\<exists>a1 frame ret b1 pB1. wf_action_frame_ba_to_issue ba_env_ex WF_WLAN_ACTION_DELBA ba_nic_ex = Some (a1, ret) \<and>
     an_events a1 = [Mgmt_xmit frame] \<and> wf_action_frame_process ba_env_ex frame 30 ba_nic_ex = Some (b1, 0) \<and> an_peer b1 = Some pB1 \<and>
     \<not> bit (agg_enable_bitmap pB1) 0"
proof -
  have "ap_tid (barsp_parm ba_nic_ex) = of_nat 5" by (simp add: ba_nic_ex_def ba_parm_ex_def)
  from delba_ends_tid_0 [OF _ _ _ this, of ba_peer_ex ba_env_ex ba_nic_ex ba_peer_ex 30 ba_env_ex] show ?thesis
    by (force simp: ba_nic_ex_def ba_env_ex_def macs_ok_def ba_peer_ex_def)
qed

text \<open>The starting sequence number of a session is not used: when the receiver has answered a request with
  the number \<open>b\<close> and its window has not been used before, the first packet of the session, \<open>b\<close>, is
  lost if \<open>b + 1\<close> arrives before it, although both are inside the agreed window.\<close>

theorem start_seq_ignored:
  assumes "ba_ready env n p bas" "ap_tid parm = of_nat t" "t < 16" "unat (ap_start_seq parm) = b" "b < 4094" "fresh (bas ! t)"
  shows "\<exists>n' p' bas' w. core_conn_maintain_ba_rsp_thrd env parm n = Some (n', PT_ENDED) \<and> an_peer n' = Some p' \<and> pb_ba_ctl p' = Some bas' \<and>
    ba_enable (bas' ! t) \<and> ro_run [Arrive (sn (b + 1)) x, Arrive (sn b) y] (bas' ! t) = Some w \<and>
    ba_uploads w = ba_uploads (bas' ! t) @ [x]"
proof -
  let ?w = "(bas ! t)\<lparr>ba_enable := True, wait_timeout := ucast (ap_timeout (bareq_parm n))\<rparr>"
  have len: "length bas = 16" using assms(1) by (simp add: ba_ready_def)
  have "fresh ?w" using assms(6) by (simp add: fresh_def)
  then have rel: "ro_rel ?w (None, [])" by (simp add: ro_rel_def)
  have d: "dist (b + 2) (sn b) = 4094" using assms(5) by (simp add: dist_def unat_sn)
  have sp: "ro.spec_run 0 [Arrive (sn (b + 1)) x, Arrive (sn b) y] (None, []) = ([(b + 1, x)], Some (b + 2), [])"
    using assms(5) d by (simp add: ro_spec_def spec_arrive_def new_next_def put_def unat_sn)
  have "\<forall>e\<in>set [Arrive (sn (b + 1)) x, Arrive (sn b) y]. ro_good e" by (simp add: ro_good_def unat_sn)
  from ro.run_sim [OF rel this sp] show ?thesis
    unfolding rsp_thrd_result [OF assms(1-3)] using len assms(3) by (auto simp: ro_run_eq note_event_def)
qed

lemma start_seq_ignored_witness:
  "\<exists>n' p' bas' w. core_conn_maintain_ba_rsp_thrd ba_env_ex (ba_parm_ex\<lparr>ap_start_seq := 100\<rparr>) ba_nic_ex = Some (n', PT_ENDED) \<and>
     an_peer n' = Some p' \<and> pb_ba_ctl p' = Some bas' \<and> ro_run [Arrive (sn 101) 7, Arrive (sn 100) 8] (bas' ! 5) = Some w \<and>
     ba_uploads w = ba_uploads (bas' ! 5) @ [7]"
proof -
  have "fresh (ba_ctl_init (map Some [3..<67]) reorder_blank)" using ba_ctl_init_fresh [of "[3..<67]" reorder_blank] by (simp add: reorder_blank_def)
  then have "fresh (replicate 16 (ba_ctl_init (map Some [3..<67]) reorder_blank) ! 5)" by simp
  from start_seq_ignored [OF ba_ready_ex _ _ _ _ this, of "ba_parm_ex\<lparr>ap_start_seq := 100\<rparr>" 100 7 8] show ?thesis
    by (simp add: ba_parm_ex_def) blast
qed

text \<open>(C37) A thread that finds no peer keeps the lock of the hardware: both threads of the negotiation then end
  with the lock taken, and no thread that waits for the lock goes on any more.\<close>

theorem ba_threads_keep_lock:
  assumes "\<not> hw_access_lock n" "an_peer n = None"
  shows "\<exists>n'. core_conn_maintain_ba_req_thrd env n = Some (n', PT_EXITED) \<and> core_conn_maintain_ba_rsp_thrd env parm n = Some (n', PT_EXITED) \<and>
    hw_access_lock n' \<and> core_conn_maintain_ba_req_thrd env n' = Some (n', PT_WAITING) \<and>
    core_conn_maintain_ba_rsp_thrd env parm' n' = Some (n', PT_WAITING)"
  using assms by (simp add: core_conn_maintain_ba_req_thrd_def core_conn_maintain_ba_rsp_thrd_def)

lemma ba_threads_keep_lock_witness:
  "\<exists>n'. core_conn_maintain_ba_req_thrd ba_env_ex (ba_nic_ex\<lparr>an_peer := None\<rparr>) = Some (n', PT_EXITED) \<and> hw_access_lock n'"
  using ba_threads_keep_lock [of "ba_nic_ex\<lparr>an_peer := None\<rparr>" ba_env_ex ba_parm_ex ba_parm_ex] by (auto simp: ba_nic_ex_def)

text \<open>Any number of data frames on the way out, with the traffic ids of those that made a request.\<close>

fun request_run :: "act_env \<Rightarrow> ba_xmit_frame list \<Rightarrow> act_nic \<Rightarrow> (act_nic \<times> nat list) option" where
  "request_run env [] n = Some (n, [])"
| "request_run env (x # xs) n =
     Option.bind (wf_action_frame_add_ba_request env x n) (\<lambda>(n1, r).
       Option.bind (request_run env xs n1) (\<lambda>(n2, ts). Some (n2, if r = 0 then unat (bf_priority x) # ts else ts)))"

lemma request_step:
  assumes "an_peer n = Some p" "unat (bf_priority x) = t" "t < length (ba_enable_flag p)"
  shows "\<exists>n' r p'. wf_action_frame_add_ba_request env x n = Some (n', r) \<and> an_peer n' = Some p' \<and>
    (n' = n \<and> r \<noteq> 0 \<or> \<not> ba_enable_flag p ! t \<and> r = 0 \<and> ba_enable_flag p' = (ba_enable_flag p)[t := True] \<and>
      an_events n' \<in> {an_events n, an_events n @ [Mlme_add_ba_req]} \<and> ap_tid (bareq_parm n') = of_nat t)"
proof -
  have "(ucast (bf_priority x) :: u32) = of_nat t" unfolding assms(2) [symmetric] by (rule ucast_of_nat_unat)
  then show ?thesis using assms by (auto simp: wf_action_frame_add_ba_request_def wf_mlme_add_ba_req_def Let_def note_event_def)
qed

text \<open>(C27) A session is requested at most once per traffic id: whatever frames are sent to a peer, of whatever mix of traffic ids, the ids of the frames that
  make a request (\<open>ts\<close>) are distinct, none had its flag set before, and afterwards the flags are set of exactly these and those that were set before. At most one message
  to the mlme thread comes from each of them, and none from any other frame. The message does not carry the traffic id: the thread finds the id of the last
  request in \<open>bareq_parm\<close>.\<close>

theorem one_request_per_tid:
  assumes "an_peer n = Some p" "\<forall>x\<in>set xs. unat (bf_priority x) < length (ba_enable_flag p)"
  shows "\<exists>n' ts p' k. request_run env xs n = Some (n', ts) \<and> an_peer n' = Some p' \<and> distinct ts \<and> (\<forall>t\<in>set ts. \<not> ba_enable_flag p ! t) \<and>
    (\<forall>t<length (ba_enable_flag p). ba_enable_flag p' ! t \<longleftrightarrow> ba_enable_flag p ! t \<or> t \<in> set ts) \<and>
    an_events n' = an_events n @ replicate k Mlme_add_ba_req \<and> k \<le> length ts \<and> (if ts = [] then n' = n else ap_tid (bareq_parm n') = of_nat (last ts))"
  using assms
proof (induction xs arbitrary: n p)
  case (Cons x xs)
  let ?t = "unat (bf_priority x)"
  have tl: "?t < length (ba_enable_flag p)" using Cons.prems(2) by simp
  obtain n1 r p1 where 1: "wf_action_frame_add_ba_request env x n = Some (n1, r)" "an_peer n1 = Some p1"
      and 2: "n1 = n \<and> r \<noteq> 0 \<or> \<not> ba_enable_flag p ! ?t \<and> r = 0 \<and> ba_enable_flag p1 = (ba_enable_flag p)[?t := True] \<and>
        an_events n1 \<in> {an_events n, an_events n @ [Mlme_add_ba_req]} \<and> ap_tid (bareq_parm n1) = of_nat ?t"
    using request_step [OF Cons.prems(1) refl tl, of env] by blast
  show ?case
  proof (cases "r = 0")
    case False
    then have n1: "n1 = n" using 2 by blast
    from Cons.IH [OF Cons.prems(1)] Cons.prems(2) obtain n' ts p' k where ih: "request_run env xs n = Some (n', ts)" "an_peer n' = Some p'" "distinct ts"
      "\<forall>t\<in>set ts. \<not> ba_enable_flag p ! t" "\<forall>t<length (ba_enable_flag p). ba_enable_flag p' ! t \<longleftrightarrow> ba_enable_flag p ! t \<or> t \<in> set ts"
      "an_events n' = an_events n @ replicate k Mlme_add_ba_req" "k \<le> length ts" "if ts = [] then n' = n else ap_tid (bareq_parm n') = of_nat (last ts)"
      by auto
    then have "request_run env (x # xs) n = Some (n', ts)" using 1(1) n1 False by simp
    then show ?thesis using ih by blast
  next
    case True
    then have new: "\<not> ba_enable_flag p ! ?t" "ba_enable_flag p1 = (ba_enable_flag p)[?t := True]" "ap_tid (bareq_parm n1) = of_nat ?t"
      using 2 by auto
    obtain j where j: "an_events n1 = an_events n @ replicate j Mlme_add_ba_req" "j \<le> 1"
    proof -
      have "an_events n1 = an_events n @ replicate 0 Mlme_add_ba_req \<or> an_events n1 = an_events n @ replicate 1 Mlme_add_ba_req" using 2 True by auto
      then show thesis using that by (metis le_refl zero_le_one)
    qed
    from Cons.IH [OF 1(2)] Cons.prems(2) new(2) obtain n' ts p' k where ih: "request_run env xs n1 = Some (n', ts)" "an_peer n' = Some p'" "distinct ts"
      "\<forall>t\<in>set ts. \<not> ba_enable_flag p1 ! t" "\<forall>t<length (ba_enable_flag p1). ba_enable_flag p' ! t \<longleftrightarrow> ba_enable_flag p1 ! t \<or> t \<in> set ts"
      "an_events n' = an_events n1 @ replicate k Mlme_add_ba_req" "k \<le> length ts" "if ts = [] then n' = n1 else ap_tid (bareq_parm n') = of_nat (last ts)"
      by auto
    have run: "request_run env (x # xs) n = Some (n', ?t # ts)" using 1(1) ih(1) True by simp
    have "?t \<notin> set ts" using ih(4) new(2) tl by auto
    moreover have "\<forall>t\<in>set ts. \<not> ba_enable_flag p ! t" using ih(4) new(2) tl by (metis nth_list_update_neq nth_list_update_eq)
    moreover have "\<forall>t<length (ba_enable_flag p). ba_enable_flag p' ! t \<longleftrightarrow> ba_enable_flag p ! t \<or> t \<in> set (?t # ts)"
      using ih(5) new(2) tl by (auto simp: nth_list_update)
    moreover have "an_events n' = an_events n @ replicate (j + k) Mlme_add_ba_req" using ih(6) j(1) by (simp add: replicate_add)
    moreover have "j + k \<le> length (?t # ts)" using ih(7) j(2) by simp
    moreover have "ap_tid (bareq_parm n') = of_nat (last (?t # ts))" using ih(8) new(3) by (auto split: if_splits)
    ultimately show ?thesis using run ih(2,3) new(1) by (intro exI [of _ n'] exI [of _ "?t # ts"] exI [of _ p'] exI [of _ "j + k"]) auto
  qed
qed simp

definition tid_frame_ex :: "u8 \<Rightarrow> ba_xmit_frame" where
  "tid_frame_ex t = \<lparr>bf_bmcast = False, bf_priority = t, bf_data_tag = True, bf_ether_type = 0x0800, bf_dhcp_pkt = 0\<rparr>"

lemma one_request_per_tid_witness:
  "\<exists>n' ts k. request_run ba_env_ex (map tid_frame_ex [3, 6, 3, 6, 3]) ba_nic_ex = Some (n', ts) \<and> distinct ts \<and>
     an_events n' = replicate k Mlme_add_ba_req \<and> k \<le> length ts"
proof -
  have e: "an_events ba_nic_ex = []" "an_peer ba_nic_ex = Some ba_peer_ex" by (simp_all add: ba_nic_ex_def)
  have l: "\<forall>x\<in>set (map tid_frame_ex [3, 6, 3, 6, 3]). unat (bf_priority x) < length (ba_enable_flag ba_peer_ex)"
    by (simp add: tid_frame_ex_def ba_peer_ex_def)
  show ?thesis using one_request_per_tid [OF e(2) l, of ba_env_ex] unfolding e(1) by auto
qed

end
