(* ===== verification/Msg_Box.thy ===== *)
theory Msg_Box
  imports Wf_Msg
begin

text \<open>
  Messages with their contents, as the threads of the driver use the queue of \<open>Wf_Msg\<close>: the memory
  of \<open>wf_msg_t\<close> gains the bytes behind its header (\<open>value\<close>). \<open>mbox\<close> says which messages are pending, in
  the order they are taken out, which are free, and which are in callers' hands. The locale
  \<open>message_box\<close> is what a thread relies on; it is interpreted on the operations of \<open>wf_msg.c\<close>.
\<close>

record msg_mem = wf_msg_mem +
  msg_value :: "ptr \<Rightarrow> bytes"

text \<open>An operation on the queue keeps the contents of all messages.\<close>

definition same_msgs :: "msg_mem \<Rightarrow> msg_mem \<Rightarrow> bool" where
  "same_msgs m m' \<longleftrightarrow> tag m' = tag m \<and> msg_len m' = msg_len m \<and> msg_value m' = msg_value m"

definition mbox :: "wf_msg_que \<Rightarrow> msg_mem \<Rightarrow> ptr list \<Rightarrow> ptr list \<Rightarrow> ptr set \<Rightarrow> bool" where
  "mbox mq m ps fs H \<longleftrightarrow> msg_inv mq m ps fs \<and> (\<forall>p\<in>H. msg_held mq m ps fs p) \<and> sorted (map (msg_key m) ps)"

text \<open>The four calls as the threads make them, with a queue and an output pointer that are not NULL.\<close>

definition box_pop :: "wf_msg_que \<Rightarrow> msg_mem \<Rightarrow> msg_mem \<times> int \<times> ptr option" where
  "box_pop mq m = wf_msg_pop (Some mq) True m"

definition box_del :: "wf_msg_que \<Rightarrow> ptr \<Rightarrow> msg_mem \<Rightarrow> msg_mem" where
  "box_del mq p m = fst (wf_msg_del (Some mq) (Some p) m)"

definition box_new :: "wf_msg_que \<Rightarrow> u16 \<Rightarrow> msg_mem \<Rightarrow> (msg_mem \<times> int \<times> ptr option) option" where
  "box_new mq tg m = wf_msg_new (Some mq) tg True m"

definition box_push :: "wf_msg_que \<Rightarrow> ptr \<Rightarrow> msg_mem \<Rightarrow> (msg_mem \<times> int) option" where
  "box_push mq p m = wf_msg_push (Some mq) (Some p) m"

definition box_write :: "ptr \<Rightarrow> u32 \<Rightarrow> bytes \<Rightarrow> msg_mem \<Rightarrow> msg_mem" where
  "box_write p l bs m = m\<lparr>msg_len := (msg_len m)(p := l), msg_value := (msg_value m)(p := bs)\<rparr>"

section \<open>The operations on the queue keep the contents\<close>

lemma msg_ops_keep [simp]:
  "msg_len (fst (msg_pop p m)) = msg_len m" "msg_value (fst (msg_pop p m')) = msg_value m'"
  "msg_len (fst (msg_push q pos p m)) = msg_len m" "msg_value (fst (msg_push q pos p m')) = msg_value m'"
  by (auto simp: msg_push_def msg_pop_def Let_def wf_enque_def wf_deque_def wf_list_defs split: option.splits)

lemma msg_ops_keepD:
  "msg_pop p m = (m', r) \<Longrightarrow> msg_len m' = msg_len m \<and> msg_value m' = msg_value m"
  "msg_push q pos p m = (m', r) \<Longrightarrow> msg_len m' = msg_len m \<and> msg_value m' = msg_value m"
  using msg_ops_keep(1-2) [of p m] msg_ops_keep(3-4) [of q pos p m] by auto

lemma box_pop_keeps: "box_pop mq m = (m', r, x) \<Longrightarrow> msg_len m' = msg_len m \<and> msg_value m' = msg_value m"
  by (auto simp: box_pop_def wf_msg_pop_def msg_get_def split: if_splits option.splits prod.splits dest: msg_ops_keepD)

lemma box_del_keeps: "msg_len (box_del mq p m) = msg_len m \<and> msg_value (box_del mq p m) = msg_value m"
  by (simp add: box_del_def wf_msg_del_def)

lemma box_new_keeps: "box_new mq tg m = Some (m', r, x) \<Longrightarrow> msg_len m' = msg_len m \<and> msg_value m' = msg_value m"
  by (auto simp: box_new_def wf_msg_new_def split: if_splits Option.bind_splits prod.splits dest: msg_ops_keepD)

lemma box_push_keeps: "box_push mq p m = Some (m', r) \<Longrightarrow> msg_len m' = msg_len m \<and> msg_value m' = msg_value m"
  by (auto simp: box_push_def wf_msg_push_def split: Option.bind_splits dest: msg_ops_keepD)

section \<open>What a thread relies on\<close>

locale message_box =
  fixes box :: "'m \<Rightarrow> 'p list \<Rightarrow> 'p list \<Rightarrow> 'p set \<Rightarrow> bool"
    and same :: "'m \<Rightarrow> 'm \<Rightarrow> bool"
    and kind :: "'m \<Rightarrow> 'p \<Rightarrow> 't"
    and rank :: "'m \<Rightarrow> 'p \<Rightarrow> 'k :: linorder"
    and pop :: "'m \<Rightarrow> 'm \<times> int \<times> 'p option"
    and del :: "'p \<Rightarrow> 'm \<Rightarrow> 'm"
    and new :: "'t \<Rightarrow> 'm \<Rightarrow> ('m \<times> int \<times> 'p option) option"
    and push :: "'p \<Rightarrow> 'm \<Rightarrow> ('m \<times> int) option"
  assumes box_distinct: "box m ps fs H \<Longrightarrow> distinct (ps @ fs) \<and> H \<inter> (set ps \<union> set fs) = {}"
    and pop_empty: "box m [] fs H \<Longrightarrow> pop m = (m, -2, None)"
    and pop_first: "box m (p # ps) fs H \<Longrightarrow> \<exists>m'. pop m = (m', 0, Some p) \<and> box m' ps fs (insert p H) \<and> same m m'"
    and del_back: "box m ps fs H \<Longrightarrow> p \<in> H \<Longrightarrow> box (del p m) ps (fs @ [p]) (H - {p}) \<and> same m (del p m)"
    and new_none: "box m ps fs H \<Longrightarrow> \<forall>p\<in>set fs. kind m p \<noteq> t \<Longrightarrow> \<exists>r. r \<noteq> 0 \<and> new t m = Some (m, r, None)"
    and new_some: "box m ps (us @ p # vs) H \<Longrightarrow> kind m p = t \<Longrightarrow> \<forall>u\<in>set us. kind m u \<noteq> t \<Longrightarrow>
      \<exists>m'. new t m = Some (m', 0, Some p) \<and> box m' ps (us @ vs) (insert p H) \<and> same m m'"
    and push_in: "box m ps fs H \<Longrightarrow> p \<in> H \<Longrightarrow>
      \<exists>m'. push p m = Some (m', 0) \<and> same m m' \<and>
        box m' (filter (\<lambda>t. rank m t \<le> rank m p) ps @ p # filter (\<lambda>t. rank m p < rank m t) ps) fs (H - {p})"
    and same_trans: "same a b \<Longrightarrow> same b c \<Longrightarrow> same a c"
begin

text \<open>A message that is taken out and given back is free again, and nothing else has changed.\<close>

lemma take_give:
  assumes "box m (p # ps) fs H"
  obtains m' where "pop m = (m', 0, Some p)" "same m m'" "box (del p m') ps (fs @ [p]) H" "same m (del p m')"
proof -
  obtain m' where m': "pop m = (m', 0, Some p)" "box m' ps fs (insert p H)" "same m m'" using pop_first [OF assms] by blast
  have "p \<notin> H" using box_distinct [OF assms] by auto
  then show thesis using del_back [OF m'(2), of p] that m' same_trans by auto
qed

text \<open>A message that arrives when none is pending is the next one taken out.\<close>

lemma send_receive:
  assumes "box m [] (us @ p # vs) H" "kind m p = t" "\<forall>u\<in>set us. kind m u \<noteq> t"
  obtains m1 m2 where "new t m = Some (m1, 0, Some p)" "same m m1" "box m1 [] (us @ vs) (insert p H)"
    "push p m1 = Some (m2, 0)" "same m1 m2" "box m2 [p] (us @ vs) H"
proof -
  obtain m1 where m1: "new t m = Some (m1, 0, Some p)" "box m1 [] (us @ vs) (insert p H)" "same m m1"
    using new_some [OF assms] by blast
  have "p \<notin> H" using box_distinct [OF assms(1)] by auto
  then obtain m2 where "push p m1 = Some (m2, 0)" "same m1 m2" "box m2 [p] (us @ vs) H"
    using push_in [OF m1(2), of p] by auto
  with m1 that show thesis by blast
qed

end

lemma msg_frame_held: "msg_frame p m m' \<Longrightarrow> q \<noteq> p \<Longrightarrow> pque m' q = pque m q"
  by (simp add: msg_frame_def)

lemma msg_frame_key: "msg_frame p m m' \<Longrightarrow> msg_key m' = msg_key m"
  by (simp add: msg_frame_def msg_key_def fun_eq_iff)

lemma sorted_filter_split:
  fixes f :: "'a \<Rightarrow> 'k :: linorder"
  assumes "sorted (map f xs)"
  shows "sorted (map f (filter (\<lambda>t. f t \<le> f p) xs @ p # filter (\<lambda>t. f p < f t) xs))"
  using assms by (auto simp: sorted_append sorted_wrt_map intro: sorted_wrt_filter order_trans less_imp_le le_less_trans)

lemma first_split_unique:
  "us @ p # vs = us' @ p' # vs' \<Longrightarrow> P p \<Longrightarrow> P p' \<Longrightarrow> \<forall>u\<in>set us. \<not> P u \<Longrightarrow> \<forall>u\<in>set us'. \<not> P u \<Longrightarrow> us = us' \<and> p = p' \<and> vs = vs'"
proof (induction us arbitrary: us')
  case Nil
  then show ?case by (cases us') auto
next
  case (Cons u us)
  then show ?case by (cases us') auto
qed

interpretation mb: message_box "mbox mq" same_msgs tag msg_key "box_pop mq" "box_del mq" "box_new mq" "box_push mq" for mq
proof unfold_locales
  fix m :: msg_mem and ps fs us vs H p and t :: u16
  show "mbox mq m ps fs H \<Longrightarrow> distinct (ps @ fs) \<and> H \<inter> (set ps \<union> set fs) = {}"
    by (auto simp: mbox_def msg_inv_def msg_held_def dest!: que.rep_distinct)
  show "mbox mq m [] fs H \<Longrightarrow> box_pop mq m = (m, -2, None)"
    by (auto simp: mbox_def box_pop_def wf_msg_pop_def intro: msg_get_empty)
  show "\<exists>m'. box_pop mq m = (m', 0, Some p) \<and> mbox mq m' ps fs (insert p H) \<and> same_msgs m m'" if b: "mbox mq m (p # ps) fs H"
  proof -
    obtain m' where m': "msg_get (Some mq) True True False m = (m', 0, Some p)" "msg_inv mq m' ps fs" "msg_held mq m' ps fs p" "msg_frame p m m'"
      using msg_get_pop_effect [of mq m "[]" p ps fs False] b by (auto simp: mbox_def)
    have bp: "box_pop mq m = (m', 0, Some p)" using m'(1) by (simp add: box_pop_def wf_msg_pop_def)
    show ?thesis using b bp m' box_pop_keeps [OF bp]
      by (auto simp: mbox_def same_msgs_def msg_frame_key [OF m'(4)] msg_held_def msg_frame_def)
  qed
  show "mbox mq (box_del mq p m) ps (fs @ [p]) (H - {p}) \<and> same_msgs m (box_del mq p m)" if b: "mbox mq m ps fs H" "p \<in> H"
  proof -
    obtain m' where m': "wf_msg_del (Some mq) (Some p) m = (m', 0)" "msg_inv mq m' ps (fs @ [p])" "msg_frame p m m'"
      using wf_msg_del_effect [of mq m ps fs p] b by (auto simp: mbox_def)
    have d: "box_del mq p m = m'" using m'(1) by (simp add: box_del_def)
    show ?thesis using b m' box_del_keeps [of mq p m]
      by (auto simp: mbox_def d same_msgs_def msg_frame_key [OF m'(3)] msg_held_def msg_frame_def)
  qed
  show "\<exists>r. r \<noteq> 0 \<and> box_new mq t m = Some (m, r, None)" if b: "mbox mq m ps fs H" "\<forall>p\<in>set fs. tag m p \<noteq> t"
    using wf_msg_new_effect [of mq m ps fs t] b by (auto simp: mbox_def box_new_def)
  show "\<exists>m'. box_new mq t m = Some (m', 0, Some p) \<and> mbox mq m' ps (us @ vs) (insert p H) \<and> same_msgs m m'"
    if b: "mbox mq m ps (us @ p # vs) H" "tag m p = t" "\<forall>u\<in>set us. tag m u \<noteq> t"
  proof -
    obtain us' p' vs' m' where e: "us @ p # vs = us' @ p' # vs'" "tag m p' = t" "\<forall>u\<in>set us'. tag m u \<noteq> t" and m': "wf_msg_new (Some mq) t True m = Some (m', 0, Some p')"
       "msg_inv mq m' ps (us' @ vs')" "msg_held mq m' ps (us' @ vs') p'" "msg_frame p' m m'"
      using wf_msg_new_effect [of mq m ps "us @ p # vs" t] b by (auto simp: mbox_def)
    have i: "us' = us" "p' = p" "vs' = vs" using first_split_unique [OF e(1), of "\<lambda>u. tag m u = t"] e(2,3) b(2,3) by auto
    have bn: "box_new mq t m = Some (m', 0, Some p)" using m'(1) by (simp add: box_new_def i)
    show ?thesis using b bn m' box_new_keeps [OF bn] unfolding i
      by (auto simp: mbox_def same_msgs_def msg_frame_key [OF m'(4)] msg_held_def msg_frame_def)
  qed
  show "\<exists>m'. box_push mq p m = Some (m', 0) \<and> same_msgs m m' \<and>
        mbox mq m' (filter (\<lambda>t. msg_key m t \<le> msg_key m p) ps @ p # filter (\<lambda>t. msg_key m p < msg_key m t) ps) fs (H - {p})"
    if b: "mbox mq m ps fs H" "p \<in> H"
  proof -
    obtain m' where m': "wf_msg_push (Some mq) (Some p) m = Some (m', 0)" "msg_frame p m m'"
       "msg_inv mq m' (filter (\<lambda>t. msg_key m t \<le> msg_key m p) ps @ p # filter (\<lambda>t. msg_key m p < msg_key m t) ps) fs"
      using wf_msg_push_sorted [of mq m ps fs p] b by (auto simp: mbox_def)
    have bp: "box_push mq p m = Some (m', 0)" using m'(1) by (simp add: box_push_def)
    have "sorted (map (msg_key m) (filter (\<lambda>t. msg_key m t \<le> msg_key m p) ps @ p # filter (\<lambda>t. msg_key m p < msg_key m t) ps))"
      using b(1) by (intro sorted_filter_split) (simp add: mbox_def)
    then show ?thesis using b bp m' box_push_keeps [OF bp]
      by (auto simp: mbox_def same_msgs_def msg_frame_key [OF m'(2)] msg_held_def msg_frame_def)
  qed
  show "same_msgs a b \<Longrightarrow> same_msgs b c \<Longrightarrow> same_msgs a c" for a b c by (simp add: same_msgs_def)
qed

text \<open>Filling a message does not touch the queues.\<close>

lemma box_write_sel [simp]:
  "tag (box_write p l bs m) = tag m" "msg_len (box_write p l bs m) = (msg_len m)(p := l)" "msg_value (box_write p l bs m) = (msg_value m)(p := bs)"
  by (simp_all add: box_write_def)

lemma mbox_write [simp]: "mbox mq (box_write p l bs m) ps fs H = mbox mq m ps fs H"
proof -
  have "lseg (box_write p l bs m) a xs b = lseg m a xs b" for a xs b
    by (induction xs arbitrary: a) (simp_all add: box_write_def)
  then have r: "wf_que_rep (box_write p l bs m) q xs = wf_que_rep m q xs" for q xs
    by (simp add: wf_que_rep_def dll_def) (simp add: box_write_def)
  have k: "msg_key (box_write p l bs m) = msg_key m" by (simp add: msg_key_def fun_eq_iff)
  have "pque (box_write p l bs m) = pque m" by (simp add: box_write_def)
  then show ?thesis by (simp add: mbox_def msg_inv_def msg_held_def r k)
qed

end
