(* ===== verification/Wf_Timer.thy ===== *)
theory Wf_Timer
  imports Wf_Prelude
begin

text \<open>
  The timers of \<open>src/trunk_driver/nic/utility/wf_timer.h\<close>.

  A timer holds tick counts of the operating system, 32 bits wide, that wrap around. The clock
  \<open>wf_os_api_timestamp\<close> is the argument \<open>now\<close>, and \<open>wf_os_api_msecs_to_timestamp\<close> and
  \<open>wf_os_api_timestamp_to_msecs\<close> of the ports are functions.
\<close>

section \<open>Timers\<close>

record wf_timer =
  tm_start :: u32
  tm_expire :: u32
  tm_interval :: u32

definition wf_timer_set :: "(u32 \<Rightarrow> u32) \<Rightarrow> u32 \<Rightarrow> u32 \<Rightarrow> wf_timer" where
  "wf_timer_set msecs now intv_ms =
     \<lparr>tm_start = now, tm_expire = now + msecs intv_ms, tm_interval = msecs intv_ms\<rparr>"

definition wf_timer_reset :: "wf_timer \<Rightarrow> wf_timer" where
  "wf_timer_reset t = t\<lparr>tm_start := tm_expire t, tm_expire := tm_expire t + tm_interval t\<rparr>"

definition wf_timer_restart :: "u32 \<Rightarrow> wf_timer \<Rightarrow> wf_timer" where
  "wf_timer_restart now t = t\<lparr>tm_start := now, tm_expire := now + tm_interval t\<rparr>"

definition wf_timer_mod :: "(u32 \<Rightarrow> u32) \<Rightarrow> u32 \<Rightarrow> wf_timer \<Rightarrow> wf_timer" where
  "wf_timer_mod msecs intv_ms t = t\<lparr>tm_interval := msecs intv_ms, tm_expire := tm_start t + msecs intv_ms\<rparr>"

definition wf_timer_remaining :: "u32 \<Rightarrow> wf_timer \<Rightarrow> int" where
  "wf_timer_remaining now t = sint (tm_expire t - now)"

definition wf_timer_expired :: "u32 \<Rightarrow> wf_timer \<Rightarrow> bool" where
  "wf_timer_expired now t \<longleftrightarrow> sint (tm_expire t - now) < 0"

definition wf_timer_elapsed :: "(u32 \<Rightarrow> u32) \<Rightarrow> u32 \<Rightarrow> wf_timer \<Rightarrow> u32" where
  "wf_timer_elapsed to_msecs now t = to_msecs (now - tm_start t)"

section \<open>Wrap-around\<close>

lemma sint_sub_ticks:
  assumes "i < 2 ^ 31" "d < 2 ^ 31"
  shows "sint (of_nat i - of_nat d :: u32) = int i - int d"
proof -
  have "sint (word_of_int (int i - int d) :: u32) = int i - int d"
    using assms by (subst signed_of_int) (simp add: signed_take_bit_int_eq_self)
  then show ?thesis by simp
qed

lemma timer_set_expired:
  assumes "unat (msecs ms) < 2 ^ 31" "d < 2 ^ 31"
  shows "wf_timer_expired (now + of_nat d) (wf_timer_set msecs now ms) \<longleftrightarrow> unat (msecs ms) < d"
proof -
  have "now + msecs ms - (now + of_nat d) = (of_nat (unat (msecs ms)) - of_nat d :: u32)" by simp
  then show ?thesis
    using sint_sub_ticks [OF assms] by (simp add: wf_timer_expired_def wf_timer_set_def del: of_nat_unat)
qed

lemma timer_set_now: "unat (msecs ms) < 2 ^ 31 \<Longrightarrow> \<not> wf_timer_expired now (wf_timer_set msecs now ms)"
  using timer_set_expired [of msecs ms 0 now] by simp

text \<open>(C33) Timers survive the wrap-around of the tick counter. A timer that was set \<open>d\<close> ticks ago, less than half the range of the
  counter, has its interval minus \<open>d\<close> ticks left, and is expired exactly when more than its interval has passed; reset moves
  it on by its interval from the time it was due, so periods do not drift.\<close>

theorem timer_due:
  assumes "2 * unat (msecs ms) < 2 ^ 31" "d < 2 ^ 31"
    "t = wf_timer_set msecs now ms"
  shows "wf_timer_remaining (now + of_nat d) t = int (unat (msecs ms)) - int d \<and>
    (wf_timer_expired (now + of_nat d) t \<longleftrightarrow> unat (msecs ms) < d) \<and>
    (wf_timer_expired (now + of_nat d) (wf_timer_reset t) \<longleftrightarrow> 2 * unat (msecs ms) < d) \<and>
    (wf_timer_expired (now + of_nat d) (wf_timer_restart now (wf_timer_reset t)) \<longleftrightarrow> unat (msecs ms) < d)"
proof -
  let ?i = "unat (msecs ms)"
  have i: "?i < 2 ^ 31" using assms(1) by simp
  have e1: "sint (now + msecs ms - (now + of_nat d)) = int ?i - int d" using sint_sub_ticks [OF i assms(2)] by simp
  have e2: "sint (now + msecs ms + msecs ms - (now + of_nat d)) = int (2 * ?i) - int d" using sint_sub_ticks [OF assms(1,2)] by simp
  show ?thesis
    unfolding wf_timer_remaining_def wf_timer_expired_def wf_timer_reset_def wf_timer_restart_def wf_timer_set_def assms(3) wf_timer.simps e1 e2
    by (simp del: of_nat_unat) linarith
qed

lemma timer_due_witness:
  "\<not> wf_timer_expired 0x21 (wf_timer_set (\<lambda>ms. ms) (-16) 50) \<and> wf_timer_expired 0x23 (wf_timer_set (\<lambda>ms. ms) (-16) 50)"
  using timer_due [of "\<lambda>ms. ms" 50 49 _ "- 16"] timer_due [of "\<lambda>ms. ms" 50 51 _ "- 16"] by simp

end
