(* ===== verification/Auth.thy ===== *)
theory Auth
  imports Msg_Box Wf_Timer Wf_Pt Sec_Wep Wf_80211 Rx_Frame
begin

text \<open>
  Authentication of a station, \<open>src/trunk_driver/nic/auth.c\<close>: the frames that are sent (\<open>auth_send\<close>), the
  protothread \<open>wf_auth_sta_thrd\<close>, the calls that start and stop it, and the reception of frames. The side of
  the access point is in \<open>Auth_Ap\<close>.

  The thread takes its messages from the queue of \<open>Wf_Msg\<close>. \<open>sta_pc\<close> are the labels of the thread: the
  waits, where a call returns and the next one goes on (\<open>pt\<close>), and the heads of the two loops that send a
  frame. \<open>sta_step\<close> goes from one label to the next; \<open>wf_auth_sta_thrd\<close> runs the steps of one call, during
  which the clock stands still. The peer is the one with the current BSSID, which stays in the table while
  the thread runs. Sent frames and firmware commands are recorded; the results of the transmit path and
  what the local variable \<open>reason\<close> holds before it is set are parameters. Buffers for frames hold \<open>WF_80211_MGMT_AUTH_SIZE_MAX\<close>
  (180) bytes, of which the first \<open>len\<close> are the frame.
\<close>

section \<open>State\<close>

datatype auth_event = Frame_xmit bytes | Mcu_set_bssid bytes | Mcu_set_mlme_join u8 | Mcu_set_media_status u8 | Mlme_deauth u16 |
  Ap_ind_disassoc | Ap_odm_disconnect | Ap_ind_assoc | Ap_odm_connect | Mcu_rate_table_update u8 | Ba_to_issue u8

record auth_env =
  au_extbuf :: "auth_event list \<Rightarrow> bool"
  au_xmit :: "auth_event list \<Rightarrow> int"
  au_mlme_deauth :: "auth_event list \<Rightarrow> int"
  au_msecs :: "u32 \<Rightarrow> u32"
  au_rand :: "nat \<Rightarrow> u32"
  au_icv :: u32
  au_reason :: int

text \<open>Members of \<open>wdn_net_info_st\<close>, and of the device.\<close>

record auth_peer =
  aw_mac :: bytes
  aw_bssid :: bytes
  auth_seq :: u32
  aw_algo :: u32
  aw_iv :: u32
  aw_key_index :: u32
  chlg_txt :: bytes

record auth_dev =
  ad_mac :: bytes
  ad_bssid :: bytes
  ad_sec :: sec_info
  ad_crc :: crc_global
  ad_out :: "auth_event list"

abbreviation (input) WF_80211_AUTH_SEQ_1 :: u32 where "WF_80211_AUTH_SEQ_1 \<equiv> 1"
abbreviation (input) WF_80211_AUTH_SEQ_2 :: u32 where "WF_80211_AUTH_SEQ_2 \<equiv> 2"
abbreviation (input) WF_80211_AUTH_SEQ_3 :: u32 where "WF_80211_AUTH_SEQ_3 \<equiv> 3"
abbreviation (input) WF_80211_AUTH_SEQ_4 :: u32 where "WF_80211_AUTH_SEQ_4 \<equiv> 4"
abbreviation (input) dot11AuthAlgrthm_Open :: u32 where "dot11AuthAlgrthm_Open \<equiv> 0"
abbreviation (input) dot11AuthAlgrthm_Shared :: u32 where "dot11AuthAlgrthm_Shared \<equiv> 1"
abbreviation (input) dot11AuthAlgrthm_8021X :: u32 where "dot11AuthAlgrthm_8021X \<equiv> 2"
abbreviation (input) dot11AuthAlgrthm_Auto :: u32 where "dot11AuthAlgrthm_Auto \<equiv> 3"
abbreviation (input) WF_80211_STATUS_SUCCESS :: u16 where "WF_80211_STATUS_SUCCESS \<equiv> 0"
abbreviation (input) WF_80211_STATUS_NOT_SUPPORTED_AUTH_ALG :: u16 where "WF_80211_STATUS_NOT_SUPPORTED_AUTH_ALG \<equiv> 13"
abbreviation (input) WF_80211_STATUS_UNKNOWN_AUTH_TRANSACTION :: u16 where "WF_80211_STATUS_UNKNOWN_AUTH_TRANSACTION \<equiv> 14"
abbreviation (input) WF_80211_STATUS_CHALLENGE_FAIL :: u16 where "WF_80211_STATUS_CHALLENGE_FAIL \<equiv> 15"
abbreviation (input) WF_80211_STATUS_AUTH_TIMEOUT :: u16 where "WF_80211_STATUS_AUTH_TIMEOUT \<equiv> 16"
abbreviation (input) WF_80211_MGMT_EID_CHALLENGE :: u8 where "WF_80211_MGMT_EID_CHALLENGE \<equiv> 16"
abbreviation (input) WF_80211_FRM_AUTH :: u16 where "WF_80211_FRM_AUTH \<equiv> 0xB0"
abbreviation (input) WF_80211_FRM_DEAUTH :: u16 where "WF_80211_FRM_DEAUTH \<equiv> 0xC0"

definition WF_AUTH_TAG_RSP :: u16 where "WF_AUTH_TAG_RSP = WF_MSG_TAG_SET 0 0 0"
definition WF_AUTH_TAG_ABORT :: u16 where "WF_AUTH_TAG_ABORT = WF_MSG_TAG_SET 0 1 0"
definition WF_AUTH_TAG_START :: u16 where "WF_AUTH_TAG_START = WF_MSG_TAG_SET 0 2 0"
definition WF_AUTH_TAG_DONE :: u16 where "WF_AUTH_TAG_DONE = WF_AUTH_TAG_START + 1"

section \<open>Sent frames\<close>

definition auth_hdr :: "u16 \<Rightarrow> auth_peer \<Rightarrow> bytes \<Rightarrow> auth_dev \<Rightarrow> bytes" where
  "auth_hdr fc w bssid d = le16_bytes fc @ [0, 0] @ aw_mac w @ ad_mac d @ bssid @ [0, 0]"

definition auth_emit :: "auth_event \<Rightarrow> auth_dev \<Rightarrow> auth_dev" where
  "auth_emit e d = d\<lparr>ad_out := ad_out d @ [e]\<rparr>"

definition auth_send :: "auth_env \<Rightarrow> u16 \<Rightarrow> auth_peer \<Rightarrow> auth_dev \<Rightarrow> (auth_dev \<times> auth_peer \<times> int) option" where
  "auth_send env status w d =
     (if \<not> au_extbuf env (ad_out d) then Some (d, w, -1)
      else if auth_seq w = WF_80211_AUTH_SEQ_1 \<or> auth_seq w = WF_80211_AUTH_SEQ_4 then
        (let frame = auth_hdr WF_80211_FRM_AUTH w (aw_bssid w) d @ le16_bytes (ucast (aw_algo w)) @ le16_bytes (ucast (auth_seq w)) @ le16_bytes status
         in Some (auth_emit (Frame_xmit frame) d, w, au_xmit env (ad_out d)))
      else if auth_seq w = WF_80211_AUTH_SEQ_2 then do {
        chlg \<leftarrow> (if status = WF_80211_STATUS_SUCCESS \<and> aw_algo w = dot11AuthAlgrthm_Shared
                 then do { c \<leftarrow> rdn (chlg_txt w) 0 128; Some ([WF_80211_MGMT_EID_CHALLENGE, 128] @ c) } else Some []);
        let frame = auth_hdr WF_80211_FRM_AUTH w (aw_bssid w) d @ le16_bytes (ucast (aw_algo w)) @ le16_bytes 2 @ le16_bytes status @ chlg;
        Some (auth_emit (Frame_xmit frame) d, w, au_xmit env (ad_out d))
      }
      else if auth_seq w = WF_80211_AUTH_SEQ_3 then
        (if aw_algo w \<noteq> dot11AuthAlgrthm_Shared then Some (d, w, -3)
         else do {
           let w1 = w\<lparr>aw_key_index := dot11PrivacyKeyIndex (ad_sec d)\<rparr>;
           let tmp_32 = aw_iv w1 OR push_bit 30 (aw_key_index w1);
           let w2 = w1\<lparr>aw_iv := aw_iv w1 + 1\<rparr>;
           c \<leftarrow> rdn (chlg_txt w2) 0 128;
           let frame = auth_hdr (WF_80211_FRM_AUTH OR 0x4000) w2 (aw_bssid w2) d @ le32_bytes tmp_32 @ le16_bytes 1 @ le16_bytes 3 @ le16_bytes 0 @
             [WF_80211_MGMT_EID_CHALLENGE, 128] @ c @ le32_bytes (au_icv env);
           (g, frame', r) \<leftarrow> wf_wep_encrypt_auth (ad_crc d) (ad_sec d) frame 168;
           Some (auth_emit (Frame_xmit frame') (d\<lparr>ad_crc := g\<rparr>), w2, au_xmit env (ad_out d))
         })
      else Some (d, w, -4))"

text \<open>\<open>wf_deauth_xmit_frame\<close>; \<open>pw\<close> is the peer with the address, if the table has one.\<close>

definition wf_deauth_xmit_frame :: "auth_env \<Rightarrow> auth_peer option \<Rightarrow> u16 \<Rightarrow> auth_dev \<Rightarrow> auth_dev \<times> int" where
  "wf_deauth_xmit_frame env pw reason_code d =
     (case pw of
        None \<Rightarrow> (d, -1)
      | Some w \<Rightarrow>
          if \<not> au_extbuf env (ad_out d) then (d, -1)
          else (auth_emit (Frame_xmit (auth_hdr WF_80211_FRM_DEAUTH w (ad_bssid d) d @ le16_bytes reason_code)) d, 0))"

section \<open>The thread of the station\<close>

datatype sta_pc = Sta_begin | Sta_start | Sta_send2 | Sta_wait2 | Sta_send4 | Sta_wait4

record sta_auth =
  sa_dev :: auth_dev
  sa_peer :: "auth_peer option"
  sa_que :: wf_msg_que
  sa_mem :: msg_mem
  sa_pt :: sta_pc
  retry_cnt :: u8
  sa_timer :: wf_timer
  brun :: bool
  sa_lock :: bool

abbreviation (input) AUTH_REQ_RESEND_TIMES :: u8 where "AUTH_REQ_RESEND_TIMES \<equiv> 3"
abbreviation (input) AUTH_RSP_TIMEOUT :: u32 where "AUTH_RSP_TIMEOUT \<equiv> 50"

text \<open>The label \<open>exit\<close>.\<close>

definition sta_exit :: "int \<Rightarrow> sta_auth \<Rightarrow> sta_auth \<times> sta_pc pt_next" where
  "sta_exit reason s = (s\<lparr>brun := False, sa_lock := False\<rparr>, Fin (if reason \<noteq> 0 then PT_EXITED else PT_ENDED) reason)"

definition sta_del :: "ptr \<Rightarrow> msg_mem \<Rightarrow> sta_auth \<Rightarrow> sta_auth" where
  "sta_del p m s = s\<lparr>sa_mem := box_del (sa_que s) p m\<rparr>"

definition sta_again :: "sta_auth \<Rightarrow> sta_auth" where
  "sta_again s = s\<lparr>retry_cnt := retry_cnt s + 1\<rparr>"

text \<open>From the message that starts the thread to the first loop.\<close>

definition sta_started :: "sta_auth \<Rightarrow> sta_auth \<times> sta_pc pt_next" where
  "sta_started s =
     (let s1 = s\<lparr>brun := True,
                sa_dev := auth_emit (Mcu_set_media_status 2) (auth_emit (Mcu_set_mlme_join 0) (auth_emit (Mcu_set_bssid (ad_bssid (sa_dev s))) (sa_dev s)))\<rparr>
      in case sa_peer s1 of
           None \<Rightarrow> sta_exit (-2) s1
         | Some w \<Rightarrow>
             (s1\<lparr>sa_peer := Some (w\<lparr>auth_seq := WF_80211_AUTH_SEQ_1, aw_algo := dot11AuthAlgrthm_Open\<rparr>), retry_cnt := 0\<rparr>, Goto Sta_send2))"

definition sta_get_start :: "sta_auth \<Rightarrow> sta_auth \<times> sta_pc pt_next" where
  "sta_get_start s =
     (case box_pop (sa_que s) (sa_mem s) of
        (m, _, None) \<Rightarrow> (s\<lparr>sa_mem := m, sa_lock := False\<rparr>, Fin PT_EXITED (-1))
      | (m, _, Some pmsg) \<Rightarrow>
          if tag m pmsg \<noteq> WF_AUTH_TAG_START then (sta_del pmsg m s, Back Sta_start PT_YIELDED)
          else sta_started (sta_del pmsg m s))"

text \<open>The head of a loop: \<open>err\<close> is the reason when the frame cannot be sent, \<open>wt\<close> the wait that follows.\<close>

definition sta_send :: "auth_env \<Rightarrow> u32 \<Rightarrow> int \<Rightarrow> sta_pc \<Rightarrow> sta_auth \<Rightarrow> (sta_auth \<times> sta_pc pt_next) option" where
  "sta_send env now err wt s = do {
     w \<leftarrow> sa_peer s;
     (d, w', rst) \<leftarrow> auth_send env WF_80211_STATUS_SUCCESS w (sa_dev s);
     let s1 = s\<lparr>sa_dev := d, sa_peer := Some w'\<rparr>;
     Some (if rst \<noteq> 0 then sta_exit err s1
           else (s1\<lparr>sa_timer := wf_timer_set (au_msecs env) now AUTH_RSP_TIMEOUT\<rparr>, Goto wt))
   }"

text \<open>Transaction number and status of a frame, behind the HT control field if the order bit is set; the
  offset of that field is returned first.\<close>

definition auth_fields :: "bytes \<Rightarrow> (nat \<times> u16 \<times> u16) option" where
  "auth_fields mgmt = do {
     fc \<leftarrow> rd_le16 mgmt 0;
     let ofs = (if fc AND 0x8000 \<noteq> 0 then 4 else 0);
     sq \<leftarrow> rd_le16 mgmt (26 + ofs);
     status \<leftarrow> rd_le16 mgmt (28 + ofs);
     Some (ofs, sq, status)
   }"

text \<open>Between the loops: the challenge is copied and the message deleted. When there is no challenge, the
  message is not deleted.\<close>

definition sta_challenge :: "ptr \<Rightarrow> msg_mem \<Rightarrow> nat \<Rightarrow> auth_peer \<Rightarrow> sta_auth \<Rightarrow> (sta_auth \<times> sta_pc pt_next) option" where
  "sta_challenge pmsg m ofs w s = do {
     let var = drop (30 + ofs) (msg_value m pmsg);
     let var_len = (ucast (msg_len m pmsg) :: u16) - of_nat (30 + ofs);
     (rst, pie) \<leftarrow> wf_80211_mgmt_ies_search (Some var) var_len WF_80211_MGMT_EID_CHALLENGE True;
     (case pie of
        None \<Rightarrow> Some (sta_exit (-5) (s\<lparr>sa_mem := m\<rparr>))
      | Some e \<Rightarrow> do {
          l \<leftarrow> rd8 var (e + 1);
          if 128 < unat l then Some (sta_exit (-5) (s\<lparr>sa_mem := m\<rparr>))
          else do {
            bs \<leftarrow> rdn var (e + 2) (unat l);
            c \<leftarrow> wrn (chlg_txt w) 0 bs;
            Some ((sta_del pmsg m s)\<lparr>sa_peer := Some (w\<lparr>chlg_txt := c, auth_seq := WF_80211_AUTH_SEQ_3\<rparr>), retry_cnt := 0\<rparr>, Goto Sta_send4)
          }
        })
   }"

definition sta_wait_seq2 :: "auth_env \<Rightarrow> u32 \<Rightarrow> sta_auth \<Rightarrow> (sta_auth \<times> sta_pc pt_next) option" where
  "sta_wait_seq2 env now s =
     (case box_pop (sa_que s) (sa_mem s) of
        (m, _, None) \<Rightarrow>
          Some (if wf_timer_expired now (sa_timer s) then (sta_again (s\<lparr>sa_mem := m\<rparr>), Goto Sta_send2)
                else (s\<lparr>sa_mem := m\<rparr>, Back Sta_wait2 PT_WAITING))
      | (m, _, Some pmsg) \<Rightarrow>
          if tag m pmsg = WF_AUTH_TAG_ABORT then Some (sta_exit (uint WF_AUTH_TAG_ABORT) (sta_del pmsg m s))
          else if tag m pmsg = WF_AUTH_TAG_RSP then do {
            (ofs, sq, status) \<leftarrow> auth_fields (msg_value m pmsg);
            w \<leftarrow> sa_peer s;
            if sq = 2 \<and> status = WF_80211_STATUS_NOT_SUPPORTED_AUTH_ALG then
              (let algo = (if aw_algo w = dot11AuthAlgrthm_Shared then dot11AuthAlgrthm_Open else dot11AuthAlgrthm_Shared)
               in Some (sta_again ((sta_del pmsg m s)\<lparr>sa_peer := Some (w\<lparr>aw_algo := algo\<rparr>)\<rparr>), Goto Sta_send2))
            else if sq = 2 \<and> status = WF_80211_STATUS_SUCCESS then
              (if aw_algo w = dot11AuthAlgrthm_Open then Some (sta_exit (uint WF_AUTH_TAG_DONE) (sta_del pmsg m s))
               else sta_challenge pmsg m ofs w s)
            else Some (sta_again (sta_del pmsg m s), Goto Sta_send2)
          }
          else Some (sta_del pmsg m s, Goto Sta_wait2))"

definition sta_wait_seq4 :: "auth_env \<Rightarrow> u32 \<Rightarrow> sta_auth \<Rightarrow> (sta_auth \<times> sta_pc pt_next) option" where
  "sta_wait_seq4 env now s =
     (case box_pop (sa_que s) (sa_mem s) of
        (m, _, None) \<Rightarrow>
          Some (if wf_timer_expired now (sa_timer s) then (sta_again (s\<lparr>sa_mem := m\<rparr>), Goto Sta_send4)
                else (s\<lparr>sa_mem := m\<rparr>, Back Sta_wait4 PT_WAITING))
      | (m, _, Some pmsg) \<Rightarrow>
          if tag m pmsg = WF_AUTH_TAG_ABORT then Some (sta_exit (uint WF_AUTH_TAG_ABORT) (sta_del pmsg m s))
          else if tag m pmsg = WF_AUTH_TAG_RSP then do {
            (ofs, sq, status) \<leftarrow> auth_fields (msg_value m pmsg);
            if sq = 4 \<and> status = WF_80211_STATUS_SUCCESS then
              Some (sta_exit (if retry_cnt s = AUTH_REQ_RESEND_TIMES then -7 else uint WF_AUTH_TAG_DONE) (sta_del pmsg m s))
            else if sq = 4 then Some (sta_again ((sta_del pmsg m s)\<lparr>retry_cnt := AUTH_REQ_RESEND_TIMES\<rparr>), Goto Sta_send4)
            else Some (sta_again (sta_del pmsg m s), Goto Sta_send4)
          }
          else Some (sta_del pmsg m s, Goto Sta_wait4))"

text \<open>The first loop ends with the count 3, since it starts at 0 and a frame makes it grow by 1; after the
  second one the count can be 4, and then \<open>reason\<close> has not been set.\<close>

definition sta_step :: "auth_env \<Rightarrow> u32 \<Rightarrow> sta_pc \<Rightarrow> sta_auth \<Rightarrow> (sta_auth \<times> sta_pc pt_next) option" where
  "sta_step env now pc s =
     (case pc of
        Sta_begin \<Rightarrow> Some (if sa_lock s then (s, Back Sta_begin PT_WAITING) else (s\<lparr>sa_lock := True\<rparr>, Goto Sta_start))
      | Sta_start \<Rightarrow> Some (sta_get_start s)
      | Sta_send2 \<Rightarrow>
          if retry_cnt s < AUTH_REQ_RESEND_TIMES then sta_send env now (-3) Sta_wait2 s
          else if retry_cnt s = AUTH_REQ_RESEND_TIMES then Some (sta_exit (-4) s)
          else None
      | Sta_wait2 \<Rightarrow> sta_wait_seq2 env now s
      | Sta_send4 \<Rightarrow>
          if retry_cnt s < AUTH_REQ_RESEND_TIMES then sta_send env now (-6) Sta_wait4 s
          else Some (sta_exit (if retry_cnt s = AUTH_REQ_RESEND_TIMES then -7 else au_reason env) s)
      | Sta_wait4 \<Rightarrow> sta_wait_seq4 env now s)"

text \<open>One call of the thread; the last component is what is stored in \<open>*prsn\<close>, if anything.\<close>

definition sta_return :: "sta_auth \<times> sta_pc pt_next \<Rightarrow> sta_auth \<times> pt_ret \<times> int option" where
  "sta_return r =
     (case r of
        (s, Goto pc) \<Rightarrow> (s\<lparr>sa_pt := pc\<rparr>, PT_WAITING, None)
      | (s, Back pc r) \<Rightarrow> (s\<lparr>sa_pt := pc\<rparr>, r, None)
      | (s, Fin r rsn) \<Rightarrow> (s\<lparr>sa_pt := Sta_begin\<rparr>, r, Some rsn))"

definition wf_auth_sta_thrd :: "auth_env \<Rightarrow> u32 \<Rightarrow> sta_auth \<Rightarrow> (sta_auth \<times> pt_ret \<times> int option) option" where
  "wf_auth_sta_thrd env now s = map_option sta_return (pt_run (sta_step env now) (sa_pt s) s)"

section \<open>Starting, stopping and receiving\<close>

text \<open>The block \<open>send message\<close> of the three functions: a message with the tag is taken from the free ones, filled
  and made pending. \<open>err_new\<close> and \<open>err_push\<close> are the return codes when that fails.\<close>

definition auth_msg_send ::
  "u16 \<Rightarrow> int \<Rightarrow> int \<Rightarrow> (ptr \<Rightarrow> msg_mem \<Rightarrow> msg_mem option) \<Rightarrow> sta_auth \<Rightarrow> (sta_auth \<times> int) option" where
  "auth_msg_send tg err_new err_push fill s = do {
     (m1, rst, pmsg) \<leftarrow> box_new (sa_que s) tg (sa_mem s);
     (case pmsg of
        None \<Rightarrow> Some (s\<lparr>sa_mem := m1\<rparr>, err_new)
      | Some p \<Rightarrow> do {
          m2 \<leftarrow> fill p m1;
          (m3, rst) \<leftarrow> box_push (sa_que s) p m2;
          Some (if rst \<noteq> 0 then (s\<lparr>sa_mem := box_del (sa_que s) p m3\<rparr>, err_push) else (s\<lparr>sa_mem := m3\<rparr>, 0))
        })
   }"

text \<open>\<open>cannot_run\<close> is \<open>WF_CANNOT_RUN\<close>.\<close>

definition wf_auth_sta_start :: "bool \<Rightarrow> bool \<Rightarrow> sta_auth \<Rightarrow> (sta_auth \<times> int) option" where
  "wf_auth_sta_start cannot_run up s =
     (if cannot_run then Some (s, -1)
      else if \<not> up then Some (s, -2)
      else auth_msg_send WF_AUTH_TAG_START (-3) (-4) (\<lambda>p m. Some m) s)"

definition wf_auth_sta_stop :: "bool \<Rightarrow> sta_auth \<Rightarrow> (sta_auth \<times> int) option" where
  "wf_auth_sta_stop cannot_run s =
     (if cannot_run then Some (s, -1)
      else if \<not> brun s then Some (s, -2)
      else auth_msg_send WF_AUTH_TAG_ABORT (-3) (-4) (\<lambda>p m. Some m) s)"

text \<open>\<open>pw\<close> is the peer that sent the frame, \<open>mlme_auth\<close> says that the state of the connection is
  \<open>MLME_STATE_AUTH\<close>, and \<open>mgmt\<close> is the frame with the memory behind it.\<close>

definition auth_sta_recv :: "bool \<Rightarrow> auth_peer option \<Rightarrow> bytes option \<Rightarrow> u16 \<Rightarrow> sta_auth \<Rightarrow> (sta_auth \<times> int) option" where
  "auth_sta_recv mlme_auth pw pmgmt mgmt_len s =
     (case pmgmt of
        None \<Rightarrow> Some (s, -1)
      | Some mgmt \<Rightarrow>
          if mgmt_len = 0 then Some (s, -1)
          else (case pw of
            None \<Rightarrow> Some (s, -2)
          | Some w \<Rightarrow>
              if \<not> mlme_auth then Some (s, -3)
              else do {
                da \<leftarrow> rdn mgmt 4 6;
                if da \<noteq> ad_mac (sa_dev s) \<or> aw_bssid w \<noteq> ad_bssid (sa_dev s) then Some (s, -4)
                else if 180 < unat mgmt_len then Some (s, -5)
                else auth_msg_send WF_AUTH_TAG_RSP (-6) (-7)
                       (\<lambda>p m. do {
                          bs \<leftarrow> rdn mgmt 0 (unat mgmt_len);
                          v \<leftarrow> wrn (msg_value m p) 0 bs;
                          Some (box_write p (ucast mgmt_len) v m)
                        }) s
              }))"

section \<open>Initialisation and termination\<close>

text \<open>\<open>allocs\<close> are the results of the allocator for the messages.\<close>

definition auth_msg_init :: "wf_msg_que \<Rightarrow> ptr option list \<Rightarrow> msg_mem \<Rightarrow> msg_mem \<times> int" where
  "auth_msg_init mq allocs m =
     (case wf_msg_alloc mq WF_AUTH_TAG_RSP 180 2 allocs (wf_msg_init mq m) of
        (m1, r1) \<Rightarrow>
          if r1 \<noteq> 0 then (m1, -1)
          else (case wf_msg_alloc mq WF_AUTH_TAG_ABORT 0 1 (drop 2 allocs) m1 of
            (m2, r2) \<Rightarrow>
              if r2 \<noteq> 0 then (m2, -1)
              else (case wf_msg_alloc mq WF_AUTH_TAG_START 0 1 (drop 3 allocs) m2 of
                (m3, r3) \<Rightarrow> (m3, if r3 \<noteq> 0 then -1 else 0))))"

text \<open>\<open>wf_auth_init\<close>: \<open>kz\<close> says whether the structure can be allocated; it is cleared. The components that
  belong to the rest of the device are taken from \<open>s\<close>.\<close>

definition wf_auth_init :: "bool \<Rightarrow> ptr option list \<Rightarrow> sta_auth \<Rightarrow> sta_auth option \<times> int" where
  "wf_auth_init kz allocs s =
     (if \<not> kz then (None, -1)
      else let (m, r) = auth_msg_init (sa_que s) allocs (sa_mem s);
               s1 = s\<lparr>sa_mem := m, sa_pt := Sta_begin, retry_cnt := 0, sa_timer := \<lparr>tm_start = 0, tm_expire = 0, tm_interval = 0\<rparr>, brun := False\<rparr>
           in (Some s1, if r \<noteq> 0 then -2 else 0))"

text \<open>\<open>wf_auth_term\<close>: the addresses that are freed, in order.\<close>

definition wf_auth_term :: "sta_auth option \<Rightarrow> (ptr list \<times> int) option" where
  "wf_auth_term pauth_info =
     (case pauth_info of
        None \<Rightarrow> Some ([], 0)
      | Some s \<Rightarrow> do { (ps, r) \<leftarrow> wf_msg_free (sa_que s) (sa_mem s); Some (ps, 0) })"

section \<open>Frames\<close>

definition auth_ok :: "auth_dev \<Rightarrow> auth_peer \<Rightarrow> bool" where
  "auth_ok d w \<longleftrightarrow> length (ad_mac d) = 6 \<and> length (aw_mac w) = 6 \<and> length (aw_bssid w) = 6 \<and> length (chlg_txt w) = 128 \<and>
     wep_keys_ok (ad_sec d) \<and> crc_ok (ad_crc d)"

lemma length_auth_hdr: "auth_ok d w \<Longrightarrow> length (auth_hdr fc w (aw_bssid w) d) = 24"
  by (simp add: auth_ok_def auth_hdr_def)

lemma auth_emit_sel [simp]:
  "ad_mac (auth_emit e d) = ad_mac d" "ad_bssid (auth_emit e d) = ad_bssid d" "ad_sec (auth_emit e d) = ad_sec d"
  "ad_crc (auth_emit e d) = ad_crc d" "ad_out (auth_emit e d) = ad_out d @ [e]"
  by (simp_all add: auth_emit_def)

lemma auth_ok_emit [simp]: "auth_ok (auth_emit e d) w = auth_ok d w"
  by (simp add: auth_ok_def)

text \<open>The body of the third frame in the clear, and the frame as it is sent.\<close>

definition seq3_body :: "bytes \<Rightarrow> bytes" where
  "seq3_body c = le16_bytes 1 @ le16_bytes 3 @ le16_bytes 0 @ [WF_80211_MGMT_EID_CHALLENGE, 128] @ c"

definition seq3_iv :: "auth_peer \<Rightarrow> auth_dev \<Rightarrow> bytes" where
  "seq3_iv w d = le32_bytes (aw_iv w OR push_bit 30 (dot11PrivacyKeyIndex (ad_sec d)))"

lemma auth_send_seq3:
  assumes "auth_ok d w" "auth_seq w = 3" "aw_algo w = 1" "au_extbuf env (ad_out d)"
    "arc4_init (wep_key_of (ad_sec d) (seq3_iv w d)) (length (wep_key_of (ad_sec d) (seq3_iv w d))) = Some ctx"
  shows "auth_send env st w d =
    Some (auth_emit (Frame_xmit (auth_hdr 0x40B0 w (aw_bssid w) d @ seq3_iv w d @
              snd (arc4_encrypt ctx (seq3_body (chlg_txt w) @ le32_bytes (crc32_ref (seq3_body (chlg_txt w)))))))
            (d\<lparr>ad_crc := fst (get_crc32 (ad_crc d) (seq3_body (chlg_txt w)))\<rparr>),
          w\<lparr>aw_key_index := dot11PrivacyKeyIndex (ad_sec d), aw_iv := aw_iv w + 1\<rparr>, au_xmit env (ad_out d))"
proof -
  let ?h = "auth_hdr 0x40B0 w (aw_bssid w) d" and ?b = "seq3_body (chlg_txt w)"
  have c: "length (chlg_txt w) = 128" using assms(1) by (simp add: auth_ok_def)
  have r: "rdn (chlg_txt w) 0 128 = Some (chlg_txt w)" using c by (simp add: rdn_def)
  have lens: "length ?h = 24" "length (seq3_iv w d) = 4" "length (le32_bytes (au_icv env)) = 4"
    using length_auth_hdr [OF assms(1)] by (simp_all add: seq3_iv_def)
  have b: "length ?b = 136" using c by (simp add: seq3_body_def)
  have n: "of_nat (length (?h @ seq3_iv w d @ ?b @ le32_bytes (au_icv env))) = (168 :: u16)" using lens b by simp
  have e: "wf_wep_encrypt_auth (ad_crc d) (ad_sec d) (?h @ seq3_iv w d @ ?b @ le32_bytes (au_icv env)) 168 =
     Some (fst (get_crc32 (ad_crc d) ?b), ?h @ seq3_iv w d @ snd (arc4_encrypt ctx (?b @ le32_bytes (crc32_ref ?b))), 0)"
    using wf_wep_encrypt_auth_layout [OF _ _ lens _ assms(5), of "ad_crc d" ?b] assms(1) lens b unfolding n by (simp add: auth_ok_def)
  have h: "auth_hdr (WF_80211_FRM_AUTH OR 0x4000) w' bs d = auth_hdr 0x40B0 w' bs d" for w' bs by simp
  show ?thesis
    using assms(2-4) e r
    by (simp add: auth_send_def Let_def auth_hdr_def seq3_iv_def seq3_body_def)
qed

lemma auth_send_total:
  assumes "auth_ok d w"
  obtains d' w' r where "auth_send env st w d = Some (d', w', r)" "auth_ok d' w'" "auth_seq w' = auth_seq w" "aw_algo w' = aw_algo w"
proof -
  have c: "rdn (chlg_txt w) 0 128 = Some (chlg_txt w)" using assms by (simp add: auth_ok_def rdn_def)
  show thesis
  proof (cases "auth_seq w = 3 \<and> aw_algo w = 1 \<and> au_extbuf env (ad_out d)")
    case True
    have sec: "wep_keys_ok (ad_sec d)" "crc_ok (ad_crc d)" using assms by (simp_all add: auth_ok_def)
    obtain ctx where "arc4_init (wep_key_of (ad_sec d) (seq3_iv w d)) (length (wep_key_of (ad_sec d) (seq3_iv w d))) = Some ctx"
      by (rule wep_key_arc4 [OF sec(1), of "seq3_iv w d"]) (simp add: seq3_iv_def)
    from auth_send_seq3 [OF assms _ _ _ this] True show thesis
      using that assms get_crc32_ok [OF sec(2)] by (simp add: auth_ok_def)
  next
    case False
    then have "\<exists>d' w' r. auth_send env st w d = Some (d', w', r) \<and> auth_ok d' w' \<and> auth_seq w' = auth_seq w \<and> aw_algo w' = aw_algo w"
      using assms c by (auto simp: auth_send_def Let_def)
    then show thesis using that by blast
  qed
qed

text \<open>(C32) Sending an authentication frame keeps the types of the state, whatever the transaction number, the algorithm and the
  status: \<open>auth_send\<close> returns, inside memory; addresses, challenge, keys and the CRC table keep their sizes; at most one
  frame is handed to the transmit path, of 30, 160 (with challenge) or 168 bytes (encrypted), so it fits into the buffer of a message.\<close>

theorem auth_send_typed:
  assumes "auth_ok d w"
  shows "\<exists>d' w' r. auth_send env st w d = Some (d', w', r) \<and> auth_ok d' w' \<and> auth_seq w' = auth_seq w \<and> aw_algo w' = aw_algo w \<and>
    (d' = d \<and> r < 0 \<or> (\<exists>f. ad_out d' = ad_out d @ [Frame_xmit f] \<and> length f \<in> {30, 160, 168} \<and> r = au_xmit env (ad_out d)))"
proof (cases "auth_seq w = 3 \<and> aw_algo w = 1 \<and> au_extbuf env (ad_out d)")
  case True
  have sec: "wep_keys_ok (ad_sec d)" "crc_ok (ad_crc d)" using assms by (simp_all add: auth_ok_def)
  obtain ctx where "arc4_init (wep_key_of (ad_sec d) (seq3_iv w d)) (length (wep_key_of (ad_sec d) (seq3_iv w d))) = Some ctx"
    by (rule wep_key_arc4 [OF sec(1), of "seq3_iv w d"]) (simp add: seq3_iv_def)
  from auth_send_seq3 [OF assms _ _ _ this, of env st] show ?thesis
    using True assms get_crc32_ok [OF sec(2)] length_auth_hdr [OF assms, of "0x40B0"]
    by (simp add: auth_ok_def seq3_iv_def seq3_body_def arc4_encrypt_length)
next
  case False
  have c: "rdn (chlg_txt w) 0 128 = Some (chlg_txt w)" "length (chlg_txt w) = 128" using assms by (simp_all add: auth_ok_def rdn_def)
  show ?thesis using False assms c length_auth_hdr [OF assms, of "0xB0"] by (auto simp: auth_send_def Let_def)
qed

lemma auth_send_typed_witness:
  "\<exists>d' w' r. auth_send \<lparr>au_extbuf = \<lambda>_. True, au_xmit = \<lambda>_. 0, au_mlme_deauth = \<lambda>_. 0, au_msecs = \<lambda>ms. ms, au_rand = \<lambda>_. 0, au_icv = 0, au_reason = 0\<rparr> 0
     \<lparr>aw_mac = replicate 6 1, aw_bssid = replicate 6 1, auth_seq = 3, aw_algo = 1, aw_iv = 0, aw_key_index = 0, chlg_txt = replicate 128 0\<rparr>
     \<lparr>ad_mac = replicate 6 2, ad_bssid = replicate 6 1, ad_sec = wep_sample_sec, ad_crc = \<lparr>bcrc32initialized = 0, crc32_table = []\<rparr>, ad_out = []\<rparr> = Some (d', w', r)"
  by (rule exE [OF auth_send_typed]) (use wep_sample_sec_ok in \<open>auto simp: auth_ok_def crc_ok_def\<close>)

end
