(* ===== verification/Auth_Sta.thy ===== *)
theory Auth_Sta
  imports Auth
begin

text \<open>
  What the thread of the station does, call by call: every call returns, inside memory, whatever
  messages are pending, and gives back every message it takes, with one exception. The locale \<open>protothread\<close> is
  interpreted on its steps.
\<close>

section \<open>Messages\<close>

text \<open>The queue of the thread, with buffers of 180 bytes for frames.\<close>

definition sta_box :: "sta_auth \<Rightarrow> ptr list \<Rightarrow> ptr list \<Rightarrow> ptr set \<Rightarrow> bool" where
  "sta_box s ps fs H \<longleftrightarrow> mbox (sa_que s) (sa_mem s) ps fs H \<and>
     (\<forall>p. tag (sa_mem s) p = WF_AUTH_TAG_RSP \<longrightarrow> length (msg_value (sa_mem s) p) = 180)"

lemma sta_box_sel:
  "sta_box (s\<lparr>sa_dev := d\<rparr>) = sta_box s" "sta_box (s\<lparr>sa_peer := w\<rparr>) = sta_box s" "sta_box (s\<lparr>sa_pt := pc\<rparr>) = sta_box s"
  "sta_box (s\<lparr>retry_cnt := n\<rparr>) = sta_box s" "sta_box (s\<lparr>sa_timer := t\<rparr>) = sta_box s" "sta_box (s\<lparr>brun := b\<rparr>) = sta_box s"
  "sta_box (s\<lparr>sa_lock := l\<rparr>) = sta_box s"
  by (simp_all add: sta_box_def fun_eq_iff)

lemma sta_del_sel [simp]:
  "sa_dev (sta_del p m s) = sa_dev s" "sa_peer (sta_del p m s) = sa_peer s" "sa_que (sta_del p m s) = sa_que s"
  "retry_cnt (sta_del p m s) = retry_cnt s" "sa_timer (sta_del p m s) = sa_timer s" "sa_lock (sta_del p m s) = sa_lock s"
  "sa_pt (sta_del p m s) = sa_pt s" "brun (sta_del p m s) = brun s"
  by (simp_all add: sta_del_def)

lemma sta_again_sel [simp]:
  "sa_dev (sta_again s) = sa_dev s" "sa_peer (sta_again s) = sa_peer s" "sa_que (sta_again s) = sa_que s"
  "sa_mem (sta_again s) = sa_mem s" "retry_cnt (sta_again s) = retry_cnt s + 1" "sa_timer (sta_again s) = sa_timer s"
  "sa_lock (sta_again s) = sa_lock s" "sta_box (sta_again s) = sta_box s"
  by (simp_all add: sta_again_def sta_box_sel)

text \<open>The next message: \<open>m\<close> is the memory when it has been taken, and \<open>sta_del p m s\<close> the state when it has
  been given back.\<close>

lemma sta_pop:
  assumes "sta_box s (p # ps) fs H"
  obtains m where "box_pop (sa_que s) (sa_mem s) = (m, 0, Some p)" "same_msgs (sa_mem s) m"
    "sta_box (s\<lparr>sa_mem := m\<rparr>) ps fs (insert p H)" "sta_box (sta_del p m s) ps (fs @ [p]) H" "same_msgs (sa_mem s) (sa_mem (sta_del p m s))"
proof -
  have b: "mbox (sa_que s) (sa_mem s) (p # ps) fs H" using assms by (simp add: sta_box_def)
  obtain m where m: "box_pop (sa_que s) (sa_mem s) = (m, 0, Some p)" "mbox (sa_que s) m ps fs (insert p H)" "same_msgs (sa_mem s) m"
    using mb.pop_first [OF b] by blast
  have p: "p \<notin> H" using mb.box_distinct [OF b] by auto
  have d: "mbox (sa_que s) (box_del (sa_que s) p m) ps (fs @ [p]) H" "same_msgs m (box_del (sa_que s) p m)"
    using mb.del_back [OF m(2), of p] p by simp_all
  show thesis using that [OF m(1,3)] m d assms mb.same_trans [OF m(3) d(2)]
    by (simp add: sta_box_def sta_del_def same_msgs_def)
qed

lemma sta_pop_empty: "sta_box s [] fs H \<Longrightarrow> box_pop (sa_que s) (sa_mem s) = (sa_mem s, -2, None)"
  by (auto simp: sta_box_def intro: mb.pop_empty)

section \<open>Frames\<close>

text \<open>A frame with well formed elements.\<close>

definition rsp_wf :: "bytes \<Rightarrow> u32 \<Rightarrow> bool" where
  "rsp_wf v n \<longleftrightarrow> (\<exists>ofs sq st es rest. auth_fields v = Some (ofs, sq, st) \<and> ofs \<le> 4 \<and>
     drop (30 + ofs) v = ies_enc es @ rest \<and> ies_ok es \<and> (ucast n :: u16) = of_nat (30 + ofs + length (ies_enc es)))"

lemma auth_fields_ofs: "auth_fields v = Some (ofs, sq, st) \<Longrightarrow> ofs \<le> 4"
  by (auto simp: auth_fields_def Let_def split: Option.bind_splits if_splits)

lemma search_no_elements:
  assumes "2 \<le> length var"
  shows "wf_80211_mgmt_ies_search (Some var) 0 c True = Some (if var ! 0 = c then (WF_RETURN_OK, Some 0) else (WF_RETURN_FAIL, None))"
  using assms by (cases var) (auto simp: wf_80211_mgmt_ies_search_def ies_search_loop.simps rd8_def)

text \<open>The challenge that is found and copied: the first challenge element, of at most 128 bytes.\<close>

lemma sta_challenge_found:
  assumes "drop (30 + ofs) (msg_value m p) = ies_enc es @ rest" "ies_ok es" "(ucast (msg_len m p) :: u16) = of_nat (30 + ofs + length (ies_enc es))"
    "es = pre @ e # post" "fst e = 16" "\<forall>x\<in>set pre. fst x \<noteq> 16" "length (chlg_txt w) = 128"
  shows "sta_challenge p m ofs w s = Some (if length (snd e) \<le> 128
     then ((sta_del p m s)\<lparr>sa_peer := Some (w\<lparr>chlg_txt := snd e @ drop (length (snd e)) (chlg_txt w), auth_seq := 3\<rparr>), retry_cnt := 0\<rparr>, Goto Sta_send4)
     else sta_exit (-5) (s\<lparr>sa_mem := m\<rparr>))"
proof -
  have n: "(ucast (msg_len m p) :: u16) - of_nat (30 + ofs) = of_nat (length (ies_enc es))" using assms(3) by (simp add: algebra_simps)
  have off: "ie_offset (\<lambda>e. fst e = 16) es = Some (length (ies_enc pre))"
    unfolding ie_offset_Some using assms(4-6) by blast
  have search: "wf_80211_mgmt_ies_search (Some (ies_enc es @ rest)) (of_nat (length (ies_enc es))) 16 True = Some (WF_RETURN_OK, Some (length (ies_enc pre)))"
    using ies_search_enc [OF assms(2), of rest 16] assms(4) off by simp
  have small: "length (snd e) < 256" using assms(2,4) by (simp add: ies_ok_def)
  have len: "rd8 (ies_enc es @ rest) (Suc (length (ies_enc pre))) = Some (of_nat (length (snd e)))"
    using rd8_enc(2) [OF small, of pre "ies_enc post @ rest"] assms(4) by simp
  have text3: "rdn (ies_enc es @ rest) (Suc (Suc (length (ies_enc pre)))) (length (snd e)) = Some (snd e)"
    using rdn_enc [of "length (snd e)" e pre "ies_enc post @ rest"] assms(4) by simp
  show ?thesis
    unfolding sta_challenge_def Let_def n assms(1) search bind.bind_lunit prod.case option.case
    using assms(7) small by (simp add: len text3 unat_len_byte wrn_def)
qed

lemma sta_challenge_missing:
  assumes "drop (30 + ofs) (msg_value m p) = ies_enc es @ rest" "ies_ok es" "es \<noteq> []"
    "(ucast (msg_len m p) :: u16) = of_nat (30 + ofs + length (ies_enc es))" "\<forall>x\<in>set es. fst x \<noteq> 16"
  shows "sta_challenge p m ofs w s = Some (sta_exit (-5) (s\<lparr>sa_mem := m\<rparr>))"
proof -
  have n: "(ucast (msg_len m p) :: u16) - of_nat (30 + ofs) = of_nat (length (ies_enc es))" using assms(4) by (simp add: algebra_simps)
  have "ie_offset (\<lambda>e. fst e = 16) es = None" using assms(5) by (simp add: ie_offset_None)
  then have "wf_80211_mgmt_ies_search (Some (ies_enc es @ rest)) (of_nat (length (ies_enc es))) 16 True = Some (WF_RETURN_FAIL, None)"
    using ies_search_enc [OF assms(2,3), of rest 16] by simp
  then show ?thesis unfolding sta_challenge_def Let_def n assms(1) by simp
qed

lemma sta_challenge_empty:
  assumes "(ucast (msg_len m p) :: u16) = of_nat (30 + ofs)" "length (msg_value m p) = 180" "ofs \<le> 4" "length (chlg_txt w) = 128"
  shows "sta_challenge p m ofs w s = Some (sta_exit (-5) (s\<lparr>sa_mem := m\<rparr>)) \<or>
    (\<exists>c. length c = 128 \<and> sta_challenge p m ofs w s =
       Some ((sta_del p m s)\<lparr>sa_peer := Some (w\<lparr>chlg_txt := c, auth_seq := 3\<rparr>), retry_cnt := 0\<rparr>, Goto Sta_send4))"
proof -
  define v where "v = drop (30 + ofs) (msg_value m p)"
  have n: "(ucast (msg_len m p) :: u16) - of_nat (30 + ofs) = 0" using assms(1) by simp
  have l: "146 \<le> length v" using assms(2,3) by (simp add: v_def)
  have r: "wf_80211_mgmt_ies_search (Some v) 0 16 True = Some (if v ! 0 = 16 then (WF_RETURN_OK, Some 0) else (WF_RETURN_FAIL, None))"
    using search_no_elements [of v 16] l by simp
  have l1: "rd8 v (0 + 1) = Some (v ! 1)" using l by (simp add: rd8_def)
  note eq = sta_challenge_def [of p m ofs w s, unfolded Let_def n v_def [symmetric] r]
  show ?thesis
  proof (cases "v ! 0 = 16 \<and> \<not> 128 < unat (v ! 1)")
    case True
    let ?c = "take (unat (v ! 1)) (drop 2 v) @ drop (unat (v ! 1)) (chlg_txt w)"
    have "rdn v (0 + 2) (unat (v ! 1)) = Some (take (unat (v ! 1)) (drop 2 v))" using True l by (simp add: rdn_def numeral_2_eq_2)
    moreover have "length ?c = 128" using True l assms(4) by (auto simp: min_def)
    ultimately show ?thesis using True l assms(4) l1 unfolding eq by (intro disjI2 exI [of _ ?c]) (simp add: wrn_def)
  next
    case False
    then show ?thesis unfolding eq using l1 by auto
  qed
qed

section \<open>Every call returns\<close>

type_synonym sta_view = "ptr list \<times> ptr list"

text \<open>At the labels: the queue and the messages of others, well formed frames, a peer once the thread has
  started, the bounds of the counter, and the lock.\<close>

definition sta_inv :: "auth_env \<Rightarrow> ptr set \<Rightarrow> sta_pc \<Rightarrow> sta_auth \<Rightarrow> sta_view \<Rightarrow> bool" where
  "sta_inv env H pc s x \<longleftrightarrow> sta_box s (fst x) (snd x) H \<and> unat (au_msecs env 50) < 2 ^ 31 \<and>
     (\<forall>p\<in>set (fst x). tag (sa_mem s) p = WF_AUTH_TAG_RSP \<longrightarrow> rsp_wf (msg_value (sa_mem s) p) (msg_len (sa_mem s) p)) \<and>
     (case sa_peer s of None \<Rightarrow> pc = Sta_begin \<or> pc = Sta_start | Some w \<Rightarrow> auth_ok (sa_dev s) w) \<and>
     (case pc of Sta_begin \<Rightarrow> True | Sta_start \<Rightarrow> True | Sta_send2 \<Rightarrow> retry_cnt s \<le> 3 | Sta_send4 \<Rightarrow> True | _ \<Rightarrow> retry_cnt s < 3) \<and>
     (pc \<noteq> Sta_begin \<longrightarrow> sa_lock s)"

definition sta_rank :: "u32 \<Rightarrow> sta_pc \<Rightarrow> sta_auth \<Rightarrow> sta_view \<Rightarrow> nat" where
  "sta_rank now pc s x = 4 * length (fst x) +
     (case pc of Sta_begin \<Rightarrow> 4 | Sta_start \<Rightarrow> 3 | Sta_send2 \<Rightarrow> 1 | Sta_send4 \<Rightarrow> 1 | _ \<Rightarrow> if wf_timer_expired now (sa_timer s) then 2 else 0)"

text \<open>When a call returns: at a wait, with the invariant; or at the end, with the lock free and every message given
  back, but for one when the reason is -5.\<close>

definition sta_post :: "auth_env \<Rightarrow> ptr set \<Rightarrow> sta_auth \<Rightarrow> sta_pc pt_next \<Rightarrow> bool" where
  "sta_post env H s n \<longleftrightarrow>
     (case n of
        Goto pc \<Rightarrow> False
      | Back pc r \<Rightarrow> PT_SCHEDULE r \<and> (\<exists>x. sta_inv env H pc s x)
      | Fin r rsn \<Rightarrow> \<not> PT_SCHEDULE r \<and> \<not> sa_lock s \<and>
          (\<exists>ps fs. sta_box s ps fs H \<or> rsn = -5 \<and> (\<exists>p. p \<notin> H \<and> sta_box s ps fs (insert p H))))"

lemma peer_ok: "sta_inv env H pc s x \<Longrightarrow> pc \<noteq> Sta_begin \<Longrightarrow> pc \<noteq> Sta_start \<Longrightarrow> \<exists>w. sa_peer s = Some w \<and> auth_ok (sa_dev s) w"
  by (auto simp: sta_inv_def split: option.splits)

lemma sta_inv_pop:
  assumes "sta_inv env H pc s (p # ps, fs)" "same_msgs (sa_mem s) m'" "sta_box s' ps fs' H" "sa_mem s' = m'"
    "(case sa_peer s' of None \<Rightarrow> pc' = Sta_begin \<or> pc' = Sta_start | Some w \<Rightarrow> auth_ok (sa_dev s') w)"
    "(case pc' of Sta_begin \<Rightarrow> True | Sta_start \<Rightarrow> True | Sta_send2 \<Rightarrow> retry_cnt s' \<le> 3 | Sta_send4 \<Rightarrow> True | _ \<Rightarrow> retry_cnt s' < 3)"
    "pc' \<noteq> Sta_begin \<longrightarrow> sa_lock s'"
  shows "sta_inv env H pc' s' (ps, fs')"
  using assms by (auto simp: sta_inv_def same_msgs_def)

lemma retry_Suc: "n < (3 :: u8) \<Longrightarrow> n + 1 \<le> 3"
  by (metis inc_le word_less_iff_unsigned) 

text \<open>What \<open>protothread\<close> asks of a step, with \<open>k\<close> for the number at its start.\<close>

definition lawful :: "auth_env \<Rightarrow> ptr set \<Rightarrow> u32 \<Rightarrow> nat \<Rightarrow> (sta_auth \<times> sta_pc pt_next) option \<Rightarrow> bool" where
  "lawful env H now k r \<longleftrightarrow> (\<exists>s' n. r = Some (s', n) \<and>
     (case n of Goto pc' \<Rightarrow> \<exists>x'. sta_inv env H pc' s' x' \<and> sta_rank now pc' s' x' < k | _ \<Rightarrow> sta_post env H s' n))"

lemma lawful_Goto: "sta_inv env H pc s x \<Longrightarrow> sta_rank now pc s x < k \<Longrightarrow> lawful env H now k (Some (s, Goto pc))"
  unfolding lawful_def by (intro exI [of _ s] exI [of _ "Goto pc"]) (simp del: split_paired_Ex, blast)

lemma lawful_Back: "sta_inv env H pc s x \<Longrightarrow> PT_SCHEDULE r \<Longrightarrow> lawful env H now k (Some (s, Back pc r))"
  unfolding lawful_def sta_post_def by (intro exI [of _ s] exI [of _ "Back pc r"]) (simp del: split_paired_Ex, blast)

lemma lawful_exit: "sta_box s ps fs H \<Longrightarrow> lawful env H now k (Some (sta_exit rsn s))"
  by (auto simp: lawful_def sta_post_def sta_exit_def sta_box_sel PT_SCHEDULE_def)

lemma lawful_lost: "sta_box s ps fs (insert p H) \<Longrightarrow> p \<notin> H \<Longrightarrow> lawful env H now k (Some (sta_exit (-5) s))"
  by (auto simp: lawful_def sta_post_def sta_exit_def sta_box_sel PT_SCHEDULE_def)

lemma start_lawful:
  assumes "sta_inv env H Sta_start s (ps, fs)"
  shows "lawful env H now (sta_rank now Sta_start s (ps, fs)) (Some (sta_get_start s))"
proof (cases ps)
  case Nil
  then have b: "sta_box s [] fs H" using assms by (simp add: sta_inv_def)
  have "sta_box (s\<lparr>sa_mem := sa_mem s, sa_lock := False\<rparr>) [] fs H" using b by (simp add: sta_box_sel)
  then show ?thesis using sta_pop_empty [OF b] by (auto simp: sta_get_start_def lawful_def sta_post_def PT_SCHEDULE_def)
next
  case (Cons p qs)
  have b: "sta_box s (p # qs) fs H" using assms Cons by (simp add: sta_inv_def)
  obtain m where m: "box_pop (sa_que s) (sa_mem s) = (m, 0, Some p)" "same_msgs (sa_mem s) m" "sta_box (s\<lparr>sa_mem := m\<rparr>) qs fs (insert p H)"
    "sta_box (sta_del p m s) qs (fs @ [p]) H" "same_msgs (sa_mem s) (sa_mem (sta_del p m s))"
    by (rule sta_pop [OF b])
  note pop = sta_inv_pop [OF assms [unfolded Cons] m(5)]
  consider "tag m p \<noteq> WF_AUTH_TAG_START" | "tag m p = WF_AUTH_TAG_START" "sa_peer s = None" | w where "tag m p = WF_AUTH_TAG_START" "sa_peer s = Some w"
    by fastforce
  then show ?thesis
  proof cases
    case 1
    have "sta_inv env H Sta_start (sta_del p m s) (qs, fs @ [p])"
      using assms m(4) by (intro pop) (auto simp: sta_inv_def split: option.splits)
    then show ?thesis using 1 m(1) by (simp add: sta_get_start_def lawful_Back PT_SCHEDULE_def)
  next
    case 2
    then show ?thesis using m(1,4) by (simp add: sta_get_start_def sta_started_def Let_def lawful_exit sta_box_sel)
  next
    case (3 w)
    let ?s = "fst (sta_started (sta_del p m s))"
    have s': "sta_get_start s = (?s, Goto Sta_send2)" using 3 m(1) by (simp add: sta_get_start_def sta_started_def Let_def)
    have "sta_inv env H Sta_send2 ?s (qs, fs @ [p])"
      using assms m(4) 3 by (intro pop) (auto simp: sta_started_def Let_def sta_box_sel sta_inv_def auth_ok_def)
    then show ?thesis unfolding s' by (rule lawful_Goto) (simp add: Cons sta_rank_def)
  qed
qed

lemma send_lawful:
  assumes "sta_inv env H pc s x" "pc = Sta_send2 \<and> wt = Sta_wait2 \<or> pc = Sta_send4 \<and> wt = Sta_wait4" "retry_cnt s < 3"
  shows "lawful env H now (sta_rank now pc s x) (sta_send env now err wt s)"
proof -
  obtain w where w: "sa_peer s = Some w" "auth_ok (sa_dev s) w" using peer_ok [OF assms(1)] assms(2) by auto
  obtain d' w' r where d: "auth_send env 0 w (sa_dev s) = Some (d', w', r)" "auth_ok d' w'" by (rule auth_send_total [OF w(2)])
  let ?s = "s\<lparr>sa_dev := d', sa_peer := Some w'\<rparr>" and ?t = "wf_timer_set (au_msecs env) now 50"
  have "sta_box ?s (fst x) (snd x) H" using assms(1) by (simp add: sta_inv_def sta_box_sel)
  moreover have "sta_inv env H wt (?s\<lparr>sa_timer := ?t\<rparr>) x" using assms d(2) by (auto simp: sta_inv_def sta_box_sel)
  moreover have "\<not> wf_timer_expired now ?t" using assms(1) by (simp add: sta_inv_def timer_set_now)
  then have "sta_rank now wt (?s\<lparr>sa_timer := ?t\<rparr>) x < sta_rank now pc s x" using assms(2) by (auto simp: sta_rank_def)
  ultimately show ?thesis unfolding sta_send_def using w(1) d(1) by (auto simp: Let_def intro: lawful_exit lawful_Goto)
qed

lemma challenge_lawful:
  assumes "sta_inv env H Sta_wait2 s (p # qs, fs)" "sa_peer s = Some w" "tag (sa_mem s) p = WF_AUTH_TAG_RSP" "auth_fields (msg_value (sa_mem s) p) = Some (ofs, sq, st)"
    "same_msgs (sa_mem s) m" "sta_box (s\<lparr>sa_mem := m\<rparr>) qs fs (insert p H)"
    "sta_box (sta_del p m s) qs (fs @ [p]) H" "same_msgs (sa_mem s) (sa_mem (sta_del p m s))"
  shows "lawful env H now (sta_rank now Sta_wait2 s (p # qs, fs)) (sta_challenge p m ofs w s)"
proof -
  have w: "auth_ok (sa_dev s) w" "length (chlg_txt w) = 128" using assms(1,2) by (auto simp: sta_inv_def auth_ok_def)
  have p: "p \<notin> H" using assms(1) mb.box_distinct [of "sa_que s" "sa_mem s" "p # qs" fs H] by (auto simp: sta_inv_def sta_box_def)
  have lost: "lawful env H now k (Some (sta_exit (-5) (s\<lparr>sa_mem := m\<rparr>)))" for k by (rule lawful_lost [OF assms(6) p])
  have ok: "lawful env H now (sta_rank now Sta_wait2 s (p # qs, fs))
      (Some ((sta_del p m s)\<lparr>sa_peer := Some (w\<lparr>chlg_txt := c, auth_seq := 3\<rparr>), retry_cnt := 0\<rparr>, Goto Sta_send4))" if "length c = 128" for c
  proof (rule lawful_Goto)
    show "sta_inv env H Sta_send4 ((sta_del p m s)\<lparr>sa_peer := Some (w\<lparr>chlg_txt := c, auth_seq := 3\<rparr>), retry_cnt := 0\<rparr>) (qs, fs @ [p])"
      using assms(1,7) w that by (intro sta_inv_pop [OF assms(1,8)]) (auto simp: sta_inv_def sta_box_sel auth_ok_def)
  qed (simp add: sta_rank_def)
  have mv: "msg_value m = msg_value (sa_mem s)" "msg_len m = msg_len (sa_mem s)" using assms(5) by (simp_all add: same_msgs_def)
  obtain es rest where es: "ofs \<le> 4" "drop (30 + ofs) (msg_value m p) = ies_enc es @ rest" "ies_ok es"
      "(ucast (msg_len m p) :: u16) = of_nat (30 + ofs + length (ies_enc es))"
  proof -
    have "rsp_wf (msg_value m p) (msg_len m p)" using assms(1,3) mv by (simp add: sta_inv_def)
    then show thesis using that assms(4) mv unfolding rsp_wf_def by (metis option.inject prod.inject)
  qed
  have v: "length (msg_value m p) = 180" using assms(1,3) mv by (simp add: sta_inv_def sta_box_def)
  consider "es = []" | "es \<noteq> []" "\<forall>x\<in>set es. fst x \<noteq> 16" | pre e post where "es = pre @ e # post" "fst e = 16" "\<forall>x\<in>set pre. fst x \<noteq> 16"
    using split_list_first_prop [of es "\<lambda>x. fst x = 16"] by blast
  then show ?thesis
  proof cases
    case 1
    then show ?thesis using sta_challenge_empty [of m p ofs w s] es(1,4) v w(2) lost ok by auto
  next
    case 2
    then show ?thesis using sta_challenge_missing [OF es(2,3) 2(1) es(4) 2(2), of w s] lost by simp
  next
    case (3 pre e post)
    then show ?thesis using sta_challenge_found [OF es(2,3,4) 3 w(2), of s] lost ok w(2) by auto
  qed
qed

lemma wait2_lawful:
  assumes "sta_inv env H Sta_wait2 s (ps, fs)"
  shows "lawful env H now (sta_rank now Sta_wait2 s (ps, fs)) (sta_wait_seq2 env now s)"
proof -
  obtain w where w: "sa_peer s = Some w" "auth_ok (sa_dev s) w" using peer_ok [OF assms] by auto
  have lock: "sa_lock s" "retry_cnt s < 3" using assms by (auto simp: sta_inv_def)
  show ?thesis
  proof (cases ps)
    case Nil
    then have b: "sta_box s [] fs H" using assms by (simp add: sta_inv_def)
    have "sta_inv env H Sta_send2 (sta_again s) ([], fs)" using assms w lock Nil retry_Suc by (auto simp: sta_inv_def)
    then have "wf_timer_expired now (sa_timer s) \<Longrightarrow> lawful env H now (sta_rank now Sta_wait2 s (ps, fs)) (Some (sta_again s, Goto Sta_send2))"
      using Nil by (intro lawful_Goto [where x = "([], fs)"]) (simp_all add: sta_rank_def)
    then show ?thesis using sta_pop_empty [OF b] assms Nil by (auto simp: sta_wait_seq2_def PT_SCHEDULE_def intro: lawful_Back)
  next
    case (Cons p qs)
    have b: "sta_box s (p # qs) fs H" using assms Cons by (simp add: sta_inv_def)
    obtain m where m: "box_pop (sa_que s) (sa_mem s) = (m, 0, Some p)" "same_msgs (sa_mem s) m" "sta_box (s\<lparr>sa_mem := m\<rparr>) qs fs (insert p H)"
      "sta_box (sta_del p m s) qs (fs @ [p]) H" "same_msgs (sa_mem s) (sa_mem (sta_del p m s))"
      by (rule sta_pop [OF b])
    have tg: "tag m p = tag (sa_mem s) p" "msg_value m p = msg_value (sa_mem s) p" using m(2) by (simp_all add: same_msgs_def)
    note pop = sta_inv_pop [OF assms [unfolded Cons] m(5)]
    have exit: "lawful env H now k (Some (sta_exit rsn (sta_del p m s)))" for k rsn by (rule lawful_exit [OF m(4)])
    have again: "lawful env H now (sta_rank now Sta_wait2 s (ps, fs)) (Some (sta_again (sta_del p m s), Goto Sta_send2))"
      using w lock m(4) Cons retry_Suc by (intro lawful_Goto [where x = "(qs, fs @ [p])"] pop) (auto simp: sta_rank_def)
    have switch: "lawful env H now (sta_rank now Sta_wait2 s (ps, fs)) (Some (sta_again ((sta_del p m s)\<lparr>sa_peer := Some (w\<lparr>aw_algo := a\<rparr>)\<rparr>), Goto Sta_send2))" for a
      using w lock m(4) Cons retry_Suc by (intro lawful_Goto [where x = "(qs, fs @ [p])"] pop) (auto simp: sta_rank_def sta_box_sel auth_ok_def)
    have stay: "lawful env H now (sta_rank now Sta_wait2 s (ps, fs)) (Some (sta_del p m s, Goto Sta_wait2))"
      using w lock m(4) Cons by (intro lawful_Goto [where x = "(qs, fs @ [p])"] pop) (auto simp: sta_rank_def)
    show ?thesis
    proof (cases "tag (sa_mem s) p = WF_AUTH_TAG_RSP")
      case True
      then have "rsp_wf (msg_value (sa_mem s) p) (msg_len (sa_mem s) p)" using assms Cons by (auto simp: sta_inv_def)
      then obtain ofs sq st where f: "auth_fields (msg_value (sa_mem s) p) = Some (ofs, sq, st)" by (auto simp: rsp_wf_def)
      have ch: "lawful env H now (sta_rank now Sta_wait2 s (ps, fs)) (sta_challenge p m ofs w s)"
        using challenge_lawful [OF assms [unfolded Cons] w(1) True f m(2-5)] Cons by simp
      show ?thesis using m(1) tg True f w(1) exit again switch ch
        by (simp add: sta_wait_seq2_def Let_def WF_AUTH_TAG_RSP_def WF_AUTH_TAG_ABORT_def WF_MSG_TAG_SET_def)
    next
      case False
      then show ?thesis using m(1) tg exit stay by (simp add: sta_wait_seq2_def)
    qed
  qed
qed

lemma wait4_lawful:
  assumes "sta_inv env H Sta_wait4 s (ps, fs)"
  shows "lawful env H now (sta_rank now Sta_wait4 s (ps, fs)) (sta_wait_seq4 env now s)"
proof -
  obtain w where w: "sa_peer s = Some w" "auth_ok (sa_dev s) w" using peer_ok [OF assms] by auto
  have lock: "sa_lock s" "retry_cnt s < 3" using assms by (auto simp: sta_inv_def)
  show ?thesis
  proof (cases ps)
    case Nil
    then have b: "sta_box s [] fs H" using assms by (simp add: sta_inv_def)
    have "sta_inv env H Sta_send4 (sta_again s) ([], fs)" using assms w lock Nil by (auto simp: sta_inv_def)
    then have "wf_timer_expired now (sa_timer s) \<Longrightarrow> lawful env H now (sta_rank now Sta_wait4 s (ps, fs)) (Some (sta_again s, Goto Sta_send4))"
      using Nil by (intro lawful_Goto [where x = "([], fs)"]) (simp_all add: sta_rank_def)
    then show ?thesis using sta_pop_empty [OF b] assms Nil by (auto simp: sta_wait_seq4_def PT_SCHEDULE_def intro: lawful_Back)
  next
    case (Cons p qs)
    have b: "sta_box s (p # qs) fs H" using assms Cons by (simp add: sta_inv_def)
    obtain m where m: "box_pop (sa_que s) (sa_mem s) = (m, 0, Some p)" "same_msgs (sa_mem s) m" "sta_box (s\<lparr>sa_mem := m\<rparr>) qs fs (insert p H)"
      "sta_box (sta_del p m s) qs (fs @ [p]) H" "same_msgs (sa_mem s) (sa_mem (sta_del p m s))"
      by (rule sta_pop [OF b])
    have tg: "tag m p = tag (sa_mem s) p" "msg_value m p = msg_value (sa_mem s) p" using m(2) by (simp_all add: same_msgs_def)
    note pop = sta_inv_pop [OF assms [unfolded Cons] m(5)]
    have exit: "lawful env H now k (Some (sta_exit rsn (sta_del p m s)))" for k rsn by (rule lawful_exit [OF m(4)])
    have again: "lawful env H now (sta_rank now Sta_wait4 s (ps, fs)) (Some (sta_again ((sta_del p m s)\<lparr>retry_cnt := n\<rparr>), Goto Sta_send4))" for n
      using w lock m(4) Cons by (intro lawful_Goto [where x = "(qs, fs @ [p])"] pop) (auto simp: sta_rank_def sta_box_sel)
    have same: "lawful env H now (sta_rank now Sta_wait4 s (ps, fs)) (Some (sta_again (sta_del p m s), Goto Sta_send4))"
      using again [of "retry_cnt s"] by (simp add: sta_del_def)
    have stay: "lawful env H now (sta_rank now Sta_wait4 s (ps, fs)) (Some (sta_del p m s, Goto Sta_wait4))"
      using w lock m(4) Cons by (intro lawful_Goto [where x = "(qs, fs @ [p])"] pop) (auto simp: sta_rank_def)
    show ?thesis
    proof (cases "tag (sa_mem s) p = WF_AUTH_TAG_RSP")
      case True
      then have "rsp_wf (msg_value (sa_mem s) p) (msg_len (sa_mem s) p)" using assms Cons by (auto simp: sta_inv_def)
      then obtain ofs sq st where "auth_fields (msg_value (sa_mem s) p) = Some (ofs, sq, st)" by (auto simp: rsp_wf_def)
      then show ?thesis using m(1) tg True exit again same
        by (simp add: sta_wait_seq4_def WF_AUTH_TAG_RSP_def WF_AUTH_TAG_ABORT_def WF_MSG_TAG_SET_def)
    next
      case False
      then show ?thesis using m(1) tg exit stay by (simp add: sta_wait_seq4_def)
    qed
  qed
qed

interpretation sta: protothread "sta_step env now" "sta_inv env H" "sta_rank now" "sta_post env H" for env now H
proof
  fix pc s x
  assume i: "sta_inv env H pc s x"
  have "lawful env H now (sta_rank now pc s x) (sta_step env now pc s)"
  proof (cases pc)
    case Sta_begin
    have "sta_inv env H Sta_start (s\<lparr>sa_lock := True\<rparr>) x" using i Sta_begin by (auto simp: sta_inv_def sta_box_sel split: option.splits)
    then have "lawful env H now (sta_rank now pc s x) (Some (s\<lparr>sa_lock := True\<rparr>, Goto Sta_start))"
      by (rule lawful_Goto) (simp add: sta_rank_def Sta_begin)
    then show ?thesis using i Sta_begin by (auto simp: sta_step_def PT_SCHEDULE_def intro: lawful_Back)
  next
    case Sta_start
    then show ?thesis using start_lawful [of env H s "fst x" "snd x" now] i by (simp add: sta_step_def)
  next
    case Sta_send2
    then show ?thesis using send_lawful [OF i, of Sta_wait2 now "-3"] i by (auto simp: sta_step_def sta_inv_def intro: lawful_exit)
  next
    case Sta_wait2
    then show ?thesis using wait2_lawful [of env H s "fst x" "snd x" now] i by (simp add: sta_step_def)
  next
    case Sta_send4
    then show ?thesis using send_lawful [OF i, of Sta_wait4 now "-6"] i by (auto simp: sta_step_def sta_inv_def intro: lawful_exit)
  next
    case Sta_wait4
    then show ?thesis using wait4_lawful [of env H s "fst x" "snd x" now] i by (simp add: sta_step_def)
  qed
  then show "\<exists>s' n. sta_step env now pc s = Some (s', n) \<and>
    (case n of Goto pc' \<Rightarrow> \<exists>x'. sta_inv env H pc' s' x' \<and> sta_rank now pc' s' x' < sta_rank now pc s x | _ \<Rightarrow> sta_post env H s' n)"
    by (simp only: lawful_def)
qed

section \<open>Properties\<close>

text \<open>A state in which the thread has not started or waits.\<close>

definition sta_ready :: "auth_env \<Rightarrow> ptr set \<Rightarrow> sta_auth \<Rightarrow> bool" where
  "sta_ready env H s \<longleftrightarrow> (\<exists>x. sta_inv env H (sa_pt s) s x)"

lemma sta_inv_pt: "sta_inv env H pc (s\<lparr>sa_pt := pc'\<rparr>) x = sta_inv env H pc s x"
  by (simp add: sta_inv_def sta_box_sel split: option.split sta_pc.split)

text \<open>A station that has been told to start, with one free message for a frame.\<close>

definition auth_env_ex :: auth_env where
  "auth_env_ex = \<lparr>au_extbuf = \<lambda>_. True, au_xmit = \<lambda>_. 0, au_mlme_deauth = \<lambda>_. 0, au_msecs = \<lambda>ms. ms, au_rand = \<lambda>i. of_nat i, au_icv = 0, au_reason = 0\<rparr>"

definition auth_dev_ex :: "bytes \<Rightarrow> sec_info \<Rightarrow> auth_dev" where
  "auth_dev_ex mac sec = \<lparr>ad_mac = mac, ad_bssid = [2, 0, 0, 0, 0, 1], ad_sec = sec, ad_crc = \<lparr>bcrc32initialized = 0, crc32_table = []\<rparr>, ad_out = []\<rparr>"

definition auth_peer_ex :: auth_peer where
  "auth_peer_ex = \<lparr>aw_mac = [2, 0, 0, 0, 0, 1], aw_bssid = [2, 0, 0, 0, 0, 1], auth_seq = 0, aw_algo = 0, aw_iv = 0, aw_key_index = 0, chlg_txt = replicate 128 0\<rparr>"

definition sta_mem_ex :: msg_mem where
  "sta_mem_ex = \<lparr>pnext = (\<lambda>_. 0)(1 := 10, 10 := 1, 2 := 11, 11 := 2), prev = (\<lambda>_. 0)(1 := 10, 10 := 1, 2 := 11, 11 := 2),
     cnt = (\<lambda>_. 0)(1 := 1, 2 := 1), pque = (\<lambda>_. None)(10 := Some 1, 11 := Some 2), alloc_value_size = (\<lambda>_. 0),
     tag = (\<lambda>_. WF_AUTH_TAG_RSP)(10 := WF_AUTH_TAG_START), msg_len = (\<lambda>_. 0), msg_value = (\<lambda>_. replicate 180 0)\<rparr>"

definition sta_ex :: "sec_info \<Rightarrow> sta_auth" where
  "sta_ex sec = \<lparr>sa_dev = auth_dev_ex [2, 0, 0, 0, 0, 2] sec, sa_peer = Some auth_peer_ex, sa_que = \<lparr>pend = 1, free = 2\<rparr>, sa_mem = sta_mem_ex,
     sa_pt = Sta_begin, retry_cnt = 0, sa_timer = \<lparr>tm_start = 0, tm_expire = 0, tm_interval = 0\<rparr>, brun = False, sa_lock = False\<rparr>"

lemma sta_ex_box: "sta_box (sta_ex sec) [10] [11] {}"
  by (simp add: sta_box_def sta_ex_def sta_mem_ex_def mbox_def msg_inv_def wf_que_rep_def dll_def)

lemma sta_ex_ok: "wep_keys_ok sec \<Longrightarrow> auth_ok (sa_dev (sta_ex sec)) auth_peer_ex"
  by (simp add: auth_ok_def sta_ex_def auth_dev_ex_def auth_peer_ex_def crc_ok_def)

lemma sta_ex_tags: "tag (sa_mem (sta_ex sec)) 10 = WF_AUTH_TAG_START" "tag (sa_mem (sta_ex sec)) 11 = WF_AUTH_TAG_RSP"
  by (simp_all add: sta_ex_def sta_mem_ex_def)

text \<open>(C9) Every call of the authentication thread of a station returns, whatever messages are pending (frames
  that have all their fixed fields and well formed elements behind them (\<open>rsp_wf\<close>), aborts and starts, in any order and number) and whatever the transmit path answers: no
  access leaves a buffer and no pointer is NULL. If the thread waits, it can be called again; if it has ended, the lock of
  the hardware is free and every message it took is back, except that one message is lost when it ends with -5.\<close>

theorem sta_thread_returns:
  assumes "sta_ready env H s"
  shows "\<exists>s' r rsn. wf_auth_sta_thrd env now s = Some (s', r, rsn) \<and>
    (case rsn of
       None \<Rightarrow> PT_SCHEDULE r \<and> sta_ready env H s'
     | Some e \<Rightarrow> \<not> PT_SCHEDULE r \<and> sa_pt s' = Sta_begin \<and> \<not> sa_lock s' \<and>
         (\<exists>ps fs. sta_box s' ps fs H \<or> e = -5 \<and> (\<exists>p. p \<notin> H \<and> sta_box s' ps fs (insert p H))))"
proof -
  obtain x where "sta_inv env H (sa_pt s) s x" using assms by (auto simp: sta_ready_def)
  from sta.call_returns [OF this] obtain s' n where r: "pt_run (sta_step env now) (sa_pt s) s = Some (s', n)" "sta_post env H s' n" by blast
  show ?thesis
  proof (cases n)
    case (Goto pc)
    then show ?thesis using r(2) by (simp add: sta_post_def)
  next
    case (Back pc q)
    then show ?thesis using r by (simp add: wf_auth_sta_thrd_def sta_return_def sta_post_def sta_ready_def sta_inv_pt)
  next
    case (Fin q e)
    then show ?thesis using r by (simp add: wf_auth_sta_thrd_def sta_return_def sta_post_def sta_box_sel)
  qed
qed

lemma sta_thread_returns_witness:
  "\<exists>s' r rsn. wf_auth_sta_thrd auth_env_ex 0 (sta_ex wep_sample_sec) = Some (s', r, rsn) \<and> (rsn = None \<longrightarrow> sta_ready auth_env_ex {} s')"
proof -
  have t: "WF_AUTH_TAG_START \<noteq> WF_AUTH_TAG_RSP" by (simp add: WF_AUTH_TAG_RSP_def WF_AUTH_TAG_START_def WF_MSG_TAG_SET_def)
  have "sta_inv auth_env_ex {} Sta_begin (sta_ex wep_sample_sec) ([10], [11])"
    using sta_ex_box [of wep_sample_sec] sta_ex_ok [OF wep_sample_sec_ok] sta_ex_tags [of wep_sample_sec] t
    by (simp add: sta_inv_def auth_env_ex_def) (simp add: sta_ex_def)
  then have "sta_ready auth_env_ex {} (sta_ex wep_sample_sec)" by (auto simp: sta_ready_def sta_ex_def)
  from sta_thread_returns [OF this, of 0] show ?thesis by (force split: option.splits)
qed

end
