(* ===== verification/Ap_Msg.thy ===== *)
theory Ap_Msg
  imports Wf_Que
begin

text \<open>
  The messages of access point mode, \<open>src/trunk_driver/nic/ap.c\<close> lines 81 to 256: every kind of message
  has a queue of free messages, every peer a queue of frames that wait for its thread. A message is
  named by the address of its list node. \<open>ap_msg_free\<close> gives the address of the free queue of a
  kind. \<open>pool_ok\<close> says that a set of queues is well formed and shares no node.
\<close>

section \<open>State and operations\<close>

datatype wf_ap_msg_tag =
    WF_AP_MSG_TAG_AUTH_FRAME | WF_AP_MSG_TAG_DEAUTH_FRAME | WF_AP_MSG_TAG_ASSOC_REQ_FRAME
  | WF_AP_MSG_TAG_DISASSOC_FRAME | WF_AP_MSG_TAG_BA_REQ_FRAME | WF_AP_MSG_TAG_BEACON_FRAME

record ap_mem = wf_que_mem +
  am_tag :: "ptr \<Rightarrow> wf_ap_msg_tag"
  am_len :: "ptr \<Rightarrow> u16"
  am_mgmt :: "ptr \<Rightarrow> bytes"

text \<open>\<open>pdata\<close> is the frame with the memory behind it, \<open>None\<close> for NULL.\<close>

definition wf_ap_msg_load ::
  "(wf_ap_msg_tag \<Rightarrow> ptr) \<Rightarrow> ptr \<Rightarrow> wf_ap_msg_tag \<Rightarrow> bytes option \<Rightarrow> u16 \<Rightarrow> ap_mem \<Rightarrow> (ap_mem \<times> int) option" where
  "wf_ap_msg_load ap_msg_free pque_tar tg pdata len m =
     (case wf_deque_head (ap_msg_free tg) m of
        (m1, None) \<Rightarrow> Some (m1, -1)
      | (m1, Some pnode) \<Rightarrow> do {
          let m2 = m1\<lparr>am_tag := (am_tag m1)(pnode := tg), am_len := (am_len m1)(pnode := len)\<rparr>;
          m3 \<leftarrow> (case pdata of
                   Some d \<Rightarrow>
                     if len \<noteq> 0 then do {
                       bs \<leftarrow> rdn d 0 (unat len);
                       v \<leftarrow> wrn (am_mgmt m2 pnode) 0 bs;
                       Some (m2\<lparr>am_mgmt := (am_mgmt m2)(pnode := v)\<rparr>)
                     } else Some m2
                 | None \<Rightarrow> Some m2);
          Some (wf_enque_tail pnode pque_tar m3, 0)
        })"

definition wf_ap_msg_get :: "ptr \<Rightarrow> ap_mem \<Rightarrow> ptr option" where
  "wf_ap_msg_get pque m = (if wf_que_is_empty pque m then None else wf_que_head pque m)"

definition wf_ap_msg_free :: "(wf_ap_msg_tag \<Rightarrow> ptr) \<Rightarrow> ptr \<Rightarrow> ptr \<Rightarrow> ap_mem \<Rightarrow> ap_mem \<times> int" where
  "wf_ap_msg_free ap_msg_free pque pmsg m =
     (case wf_deque pmsg pque m of
        (m1, None) \<Rightarrow> (m1, -1)
      | (m1, Some _) \<Rightarrow> (wf_enque_head pmsg (ap_msg_free (am_tag m1 pmsg)) m1, 0))"

partial_function (option) ap_msg_que_clearup :: "(wf_ap_msg_tag \<Rightarrow> ptr) \<Rightarrow> ptr \<Rightarrow> ap_mem \<Rightarrow> ap_mem option" where
  "ap_msg_que_clearup ap_msg_free pque m =
     (case wf_ap_msg_get pque m of
        None \<Rightarrow> Some m
      | Some pmsg \<Rightarrow> ap_msg_que_clearup ap_msg_free pque (fst (wf_ap_msg_free ap_msg_free pque pmsg m)))"

text \<open>One of the five loops of \<open>ap_msg_que_init\<close>: \<open>n\<close> messages of \<open>size\<close> bytes behind the header, which
  \<open>wf_kzalloc\<close> clears. The list gives the results of the allocator; the rest of it is returned.\<close>

fun ap_que_fill :: "ptr \<Rightarrow> nat \<Rightarrow> nat \<Rightarrow> ptr option list \<Rightarrow> ap_mem \<Rightarrow> ap_mem \<times> ptr option list option" where
  "ap_que_fill q 0 sz allocs m = (m, Some allocs)"
| "ap_que_fill q (Suc n) sz (Some p # allocs) m =
     ap_que_fill q n sz allocs
       (wf_enque_head p q (m\<lparr>am_tag := (am_tag m)(p := WF_AP_MSG_TAG_AUTH_FRAME), am_len := (am_len m)(p := 0),
                            am_mgmt := (am_mgmt m)(p := replicate sz 0)\<rparr>))"
| "ap_que_fill q (Suc n) sz _ m = (m, None)"

text \<open>The queues with their depths (\<open>WDN_NUM_MAX\<close> is 5, \<open>TID_NUM\<close> 16), the sizes of their frames and the
  return code when memory runs out.\<close>

definition ap_msg_pools :: "(wf_ap_msg_tag \<times> nat \<times> nat \<times> int) list" where
  "ap_msg_pools =
     [(WF_AP_MSG_TAG_AUTH_FRAME, 15, 180, -1), (WF_AP_MSG_TAG_DEAUTH_FRAME, 5, 26, -1),
      (WF_AP_MSG_TAG_ASSOC_REQ_FRAME, 5, 796, -2), (WF_AP_MSG_TAG_DISASSOC_FRAME, 5, 26, -1),
      (WF_AP_MSG_TAG_BA_REQ_FRAME, 16, 0, -1)]"

fun ap_fill_all :: "(wf_ap_msg_tag \<Rightarrow> ptr) \<Rightarrow> (wf_ap_msg_tag \<times> nat \<times> nat \<times> int) list \<Rightarrow> ptr option list \<Rightarrow> ap_mem \<Rightarrow> ap_mem \<times> int" where
  "ap_fill_all ap_msg_free [] allocs m = (m, 0)"
| "ap_fill_all ap_msg_free ((tg, n, sz, err) # pools) allocs m =
     (case ap_que_fill (ap_msg_free tg) n sz allocs (wf_que_init (ap_msg_free tg) m) of
        (m1, None) \<Rightarrow> (m1, err)
      | (m1, Some allocs') \<Rightarrow> ap_fill_all ap_msg_free pools allocs' m1)"

definition ap_msg_que_init :: "(wf_ap_msg_tag \<Rightarrow> ptr) \<Rightarrow> ptr option list \<Rightarrow> ap_mem \<Rightarrow> ap_mem \<times> int" where
  "ap_msg_que_init ap_msg_free allocs m = ap_fill_all ap_msg_free ap_msg_pools allocs m"

section \<open>Queues that share no node\<close>

definition pool_ok :: "('m \<Rightarrow> ptr \<Rightarrow> ptr list \<Rightarrow> bool) \<Rightarrow> 'm \<Rightarrow> ptr set \<Rightarrow> (ptr \<Rightarrow> ptr list) \<Rightarrow> bool" where
  "pool_ok rep m D Q \<longleftrightarrow> (\<forall>q\<in>D. rep m q (Q q)) \<and>
     (\<forall>q\<in>D. \<forall>q'\<in>D. q \<noteq> q' \<longrightarrow> insert q (set (Q q)) \<inter> insert q' (set (Q q')) = {})"

context intrusive_queue
begin

lemma pool_move:
  assumes "pool_ok rep m D Q" "q1 \<in> D" "q2 \<in> D" "q1 \<noteq> q2" "Q q1 = us @ p # vs" "Q q2 = xs @ ys"
  shows "pool_ok rep (enq p (last (q2 # xs)) q2 (fst (deq p q1 m))) D (Q(q1 := us @ vs, q2 := xs @ p # ys))"
    (is "pool_ok rep ?m' D ?Q")
proof -
  let ?m = "fst (deq p q1 m)"
  have r: "rep m q (Q q)" if "q \<in> D" for q using assms(1) that by (simp add: pool_ok_def)
  have d: "insert q (set (Q q)) \<inter> insert q' (set (Q q')) = {}" if "q \<in> D" "q' \<in> D" "q \<noteq> q'" for q q'
    using assms(1) that by (simp add: pool_ok_def)
  have r1: "rep m q1 (us @ p # vs)" and r2: "rep m q2 (xs @ ys)" using r [of q1] r [of q2] assms by simp_all
  have d12: "insert q1 (set (us @ p # vs)) \<inter> insert q2 (set (xs @ ys)) = {}" using d [of q1 q2] assms by simp
  have rep: "rep ?m' q (?Q q)" if q: "q \<in> D" for q
  proof (cases "q = q1 \<or> q = q2")
    case True
    then show ?thesis using move_rep [OF r1 r2 d12] assms(4) by auto
  next
    case False
    have n: "insert q1 (set (us @ p # vs)) \<inter> insert q (set (Q q)) = {}" "insert q2 (set (xs @ ys)) \<inter> insert q (set (Q q)) = {}"
      using d [of q1 q] d [of q2 q] q assms False by auto
    have "rep ?m q (Q q)" using r1 _ r [OF q] n(1) by (rule deq_frame) simp
    moreover have "rep ?m q2 (xs @ ys)" using r1 _ r2 d12 by (rule deq_frame) simp
    ultimately have "rep ?m' q (Q q)" using n by (intro enq_frame) auto
    then show ?thesis using False by simp
  qed
  have "insert q (set (?Q q)) \<inter> insert q' (set (?Q q')) = {}" if "q \<in> D" "q' \<in> D" "q \<noteq> q'" for q q'
    using d [OF that] d [of q1 q] d [of q1 q'] d [of q2 q] d [of q2 q'] that assms(2-6) d12 rep_distinct [OF r1]
    by (auto split: if_splits)
  then show ?thesis using rep by (simp add: pool_ok_def)
qed

end

section \<open>What the operations do\<close>

lemma ap_rep_more [simp]:
  "wf_que_rep (m\<lparr>am_tag := f\<rparr>) = wf_que_rep (m :: ap_mem)" "wf_que_rep (m\<lparr>am_len := g\<rparr>) = wf_que_rep m"
  "wf_que_rep (m\<lparr>am_mgmt := h\<rparr>) = wf_que_rep m"
proof -
  have "lseg (m\<lparr>am_tag := f\<rparr>) a xs b = lseg m a xs b" "lseg (m\<lparr>am_len := g\<rparr>) a xs b = lseg m a xs b"
    "lseg (m\<lparr>am_mgmt := h\<rparr>) a xs b = lseg m a xs b" for a xs b
    by (induction xs arbitrary: a) auto
  then show "wf_que_rep (m\<lparr>am_tag := f\<rparr>) = wf_que_rep m" "wf_que_rep (m\<lparr>am_len := g\<rparr>) = wf_que_rep m"
    "wf_que_rep (m\<lparr>am_mgmt := h\<rparr>) = wf_que_rep m"
    by (simp_all add: wf_que_rep_def dll_def fun_eq_iff)
qed

lemma ap_que_ops_keep [simp]:
  "am_tag (wf_enque p pos q m) = am_tag m" "am_len (wf_enque p pos q m) = am_len m" "am_mgmt (wf_enque p pos q m) = am_mgmt m"
  "am_tag (fst (wf_deque p q m)) = am_tag m" "am_len (fst (wf_deque p q m)) = am_len m" "am_mgmt (fst (wf_deque p q m)) = am_mgmt m"
  by (simp_all add: wf_enque_def wf_deque_def wf_list_defs Let_def)

lemma ap_enque_more:
  "wf_enque p pos q (m\<lparr>am_tag := f\<rparr>) = (wf_enque p pos q m)\<lparr>am_tag := f\<rparr>"
  "wf_enque p pos q (m\<lparr>am_len := g\<rparr>) = (wf_enque p pos q m)\<lparr>am_len := g\<rparr>"
  "wf_enque p pos q (m\<lparr>am_mgmt := h\<rparr>) = (wf_enque p pos q m)\<lparr>am_mgmt := h\<rparr>"
  by (simp_all add: wf_enque_def wf_list_defs Let_def)

lemma pool_rep: "pool_ok rep m D Q \<Longrightarrow> q \<in> D \<Longrightarrow> rep m q (Q q)"
  by (simp add: pool_ok_def)

lemma pool_disjoint: "pool_ok rep m D Q \<Longrightarrow> q \<in> D \<Longrightarrow> q' \<in> D \<Longrightarrow> q' \<noteq> q \<Longrightarrow> insert q (set (Q q)) \<inter> insert q' (set (Q q')) = {}"
  unfolding pool_ok_def by metis

lemma am_mgmt_self: "h = am_mgmt m \<Longrightarrow> m\<lparr>am_mgmt := h\<rparr> = m"
  by simp

lemma ap_msg_get_result: "pool_ok wf_que_rep m D Q \<Longrightarrow> q \<in> D \<Longrightarrow> wf_ap_msg_get q m = (case Q q of [] \<Rightarrow> None | p # _ \<Rightarrow> Some p)"
  by (drule (1) pool_rep) (simp add: wf_ap_msg_get_def wf_que_rep_head wf_que_rep_is_empty split: list.split)

lemma pool_deque:
  assumes "pool_ok wf_que_rep m D Q" "q1 \<in> D" "Q q1 = us @ p # vs" "q \<in> D" "q \<noteq> q1"
  shows "wf_deque p q1 m = (fst (wf_deque p q1 m), Some p)" "wf_que_rep (fst (wf_deque p q1 m)) q (Q q)"
proof -
  have r: "wf_que_rep m q1 (us @ p # vs)" using pool_rep [OF assms(1,2)] assms(3) by simp
  show "wf_deque p q1 m = (fst (wf_deque p q1 m), Some p)" using que.deq_result [OF r] by (metis prod.collapse)
  show "wf_que_rep (fst (wf_deque p q1 m)) q (Q q)"
    using r _ pool_rep [OF assms(1,4)] by (rule que.deq_frame) (use pool_disjoint [OF assms(1,2,4)] assms(3,5) in auto)
qed

lemma ap_msg_load_result:
  assumes "pool_ok wf_que_rep m D Q" "ap_msg_free tg \<in> D" "q \<in> D" "q \<noteq> ap_msg_free tg" "Q (ap_msg_free tg) = p # fs"
    "unat len \<le> length d" "unat len \<le> length (am_mgmt m p)"
  obtains m' where "wf_ap_msg_load ap_msg_free q tg (Some d) len m = Some (m', 0)"
    "pool_ok wf_que_rep m' D (Q(ap_msg_free tg := fs, q := Q q @ [p]))" "am_tag m' = (am_tag m)(p := tg)"
    "am_len m' = (am_len m)(p := len)" "am_mgmt m' = (am_mgmt m)(p := take (unat len) d @ drop (unat len) (am_mgmt m p))"
proof -
  let ?m1 = "fst (wf_deque p (ap_msg_free tg) m)" and ?v = "take (unat len) d @ drop (unat len) (am_mgmt m p)"
  let ?m2 = "?m1\<lparr>am_tag := (am_tag m)(p := tg), am_len := (am_len m)(p := len), am_mgmt := (am_mgmt m)(p := ?v)\<rparr>"
  let ?m' = "wf_enque p (last (q # Q q)) q ?m2"
  have e: "Q (ap_msg_free tg) = [] @ p # fs" using assms(5) by simp
  have dq: "wf_deque_head (ap_msg_free tg) m = (?m1, Some p)"
    using wf_deque_head_eq [of m "ap_msg_free tg" p fs] pool_rep [OF assms(1,2)] pool_deque(1) [OF assms(1,2) e assms(3,4)] assms(5) by simp
  have r: "wf_que_rep ?m1 q (Q q @ [])" using pool_deque(2) [OF assms(1,2) e assms(3,4)] by simp
  have tl: "wf_enque_tail p q x = wf_enque p (last (q # Q q)) q x" if "wf_que_rep x q (Q q @ [])" for x :: ap_mem
    using wf_enque_prev_eq [OF that, of p] by (simp add: wf_enque_tail_def wf_que_list_head_def)
  have "wf_ap_msg_load ap_msg_free q tg (Some d) len m = Some (?m', 0)"
  proof (cases "len = 0")
    case True
    have m: "(am_mgmt m)(p := am_mgmt m p) = am_mgmt m" by simp
    have r0: "wf_que_rep (?m1\<lparr>am_tag := (am_tag m)(p := tg), am_len := (am_len m)(p := 0)\<rparr>) q (Q q @ [])" using r by simp
    have "?m2 = ?m1\<lparr>am_tag := (am_tag m)(p := tg), am_len := (am_len m)(p := 0)\<rparr>" (is "_ = ?m0")
      using True by (intro am_mgmt_self [THEN trans]) simp_all
    then have e': "?m' = wf_enque p (last (q # Q q)) q ?m0" by (rule arg_cong)
    have "wf_ap_msg_load ap_msg_free q tg (Some d) len m = Some (wf_enque_tail p q ?m0, 0)"
      unfolding wf_ap_msg_load_def dq True by (simp add: Let_def)
    then show ?thesis unfolding e' tl [OF r0] .
  next
    case False
    have r0: "wf_que_rep ?m2 q (Q q @ [])" using r by simp
    show ?thesis unfolding wf_ap_msg_load_def dq using False assms(6,7) tl [OF r0]
      by (simp add: Let_def rdn_def wrn_def)
  qed
  moreover have "pool_ok wf_que_rep (wf_enque p (last (q # Q q)) q ?m1) D (Q(ap_msg_free tg := fs, q := Q q @ [p]))"
    using que.pool_move [OF assms(1,2,3) _ e, of "Q q" "[]"] assms(4) by simp
  then have "pool_ok wf_que_rep ?m' D (Q(ap_msg_free tg := fs, q := Q q @ [p]))" by (simp add: ap_enque_more pool_ok_def)
  ultimately show thesis using that by simp
qed

lemma ap_msg_load_none:
  assumes "pool_ok wf_que_rep m D Q" "ap_msg_free tg \<in> D" "Q (ap_msg_free tg) = []"
  shows "wf_ap_msg_load ap_msg_free q tg d len m = Some (m, -1)"
  using wf_que_rep_list_is_empty [OF pool_rep [OF assms(1,2)]] assms(3)
  by (simp add: wf_ap_msg_load_def wf_deque_head_def wf_que_list_head_def)

lemma ap_msg_free_result:
  assumes "pool_ok wf_que_rep m D Q" "ap_msg_free (am_tag m p) \<in> D" "q \<in> D" "q \<noteq> ap_msg_free (am_tag m p)" "Q q = p # ps"
  obtains m' where "wf_ap_msg_free ap_msg_free q p m = (m', 0)" "am_tag m' = am_tag m" "am_len m' = am_len m" "am_mgmt m' = am_mgmt m"
    "pool_ok wf_que_rep m' D (Q(q := ps, ap_msg_free (am_tag m p) := p # Q (ap_msg_free (am_tag m p))))"
proof -
  let ?f = "ap_msg_free (am_tag m p)" and ?m1 = "fst (wf_deque p q m)"
  have e: "Q q = [] @ p # ps" using assms(5) by simp
  have dq: "wf_deque p q m = (?m1, Some p)" using pool_deque(1) [OF assms(1,3) e assms(2)] assms(4) by simp
  have "wf_ap_msg_free ap_msg_free q p m = (wf_enque p ?f ?f ?m1, 0)"
    unfolding wf_ap_msg_free_def by (subst dq) (simp add: wf_enque_head_def wf_enque_next_def wf_que_list_head_def)
  moreover have "pool_ok wf_que_rep (wf_enque p (last (?f # [])) ?f ?m1) D (Q(q := [] @ ps, ?f := [] @ p # Q ?f))"
    by (rule que.pool_move [OF assms(1,3,2,4) e]) simp
  ultimately show thesis using that by simp
qed

text \<open>Clearing the queue of a peer ends, and every message is free again in the queue of its kind.\<close>

lemma ap_msg_que_clearup_result:
  assumes "pool_ok wf_que_rep m D Q" "q \<in> D" "\<And>t. ap_msg_free t \<in> D" "\<And>t. q \<noteq> ap_msg_free t"
  shows "\<exists>m' Q'. ap_msg_que_clearup ap_msg_free q m = Some m' \<and> pool_ok wf_que_rep m' D Q' \<and> Q' q = [] \<and>
    (\<forall>p\<in>set (Q q). p \<in> set (Q' (ap_msg_free (am_tag m p)))) \<and> (\<forall>t. set (Q (ap_msg_free t)) \<subseteq> set (Q' (ap_msg_free t)))"
  using assms(1)
proof (induction "Q q" arbitrary: m Q)
  case Nil
  then show ?case using ap_msg_get_result [OF Nil(2) assms(2)] by (auto simp: ap_msg_que_clearup.simps)
next
  case (Cons p ps)
  let ?Q = "Q(q := ps, ap_msg_free (am_tag m p) := p # Q (ap_msg_free (am_tag m p)))"
  have e: "Q q = p # ps" using Cons.hyps(2) by simp
  obtain m1 where m1: "wf_ap_msg_free ap_msg_free q p m = (m1, 0)" "am_tag m1 = am_tag m" "am_len m1 = am_len m" "am_mgmt m1 = am_mgmt m"
    "pool_ok wf_que_rep m1 D ?Q"
    by (rule ap_msg_free_result [OF Cons.prems assms(3,2,4) e])
  have q: "ps = ?Q q" using assms(4) by simp
  obtain m' Q' where m': "ap_msg_que_clearup ap_msg_free q m1 = Some m'" "pool_ok wf_que_rep m' D Q'" "Q' q = []"
    "\<forall>x\<in>set (?Q q). x \<in> set (Q' (ap_msg_free (am_tag m1 x)))" "\<forall>t. set (?Q (ap_msg_free t)) \<subseteq> set (Q' (ap_msg_free t))"
    using Cons.hyps(1) [OF q m1(5)] by blast
  have "ap_msg_que_clearup ap_msg_free q m = Some m'"
    using ap_msg_get_result [OF Cons.prems assms(2)] m1(1) m'(1) by (subst ap_msg_que_clearup.simps) (simp add: e)
  moreover have "set (Q (ap_msg_free t)) \<subseteq> set (Q' (ap_msg_free t))" for t
    using m'(5) [rule_format, of t] assms(4) [of t] by (auto split: if_splits)
  moreover have "p \<in> set (Q' (ap_msg_free (am_tag m p)))" using m'(5) [rule_format, of "am_tag m p"] by auto
  moreover have "\<forall>x\<in>set ps. x \<in> set (Q' (ap_msg_free (am_tag m x)))" using m'(4) m1(2) q by metis
  ultimately show ?case using m'(2,3) by (intro exI [of _ m'] exI [of _ Q']) (simp add: e)
qed

end
