(* ===== verification/Auth_Ap.thy ===== *)
theory Auth_Ap
  imports Auth Ap_Msg
begin

text \<open>
  Authentication by an access point, \<open>src/trunk_driver/nic/auth.c\<close>: the protothread \<open>wf_auth_ap_thrd\<close> of a peer,
  the reception of authentication and deauthentication frames, and their dispatch by the mode of the device.

  \<open>ap_auth\<close> is what the thread of one peer sees: the device, the members of the peer, its queue of frames
  and the free queues of \<open>Ap_Msg\<close>. \<open>ap_pc\<close> are the labels of the thread. A message stays at the head of the queue until it
  is freed. The thread gives no value to its caller; \<open>Fin\<close> carries 0.
\<close>

section \<open>State\<close>

datatype ap_pc = Ap_begin | Ap_send2 | Ap_open | Ap_wait3 | Ap_send4 | Ap_wait4

datatype wdn_state = E_WDN_AP_STATE_AUTH | E_WDN_AP_STATE_ASSOC | E_WDN_AP_STATE_8021X_BLOCK | E_WDN_AP_STATE_8021X_UNBLOCK |
  E_WDN_AP_STATE_DAUTH | E_WDN_AP_STATE_DASSOC

record ap_auth =
  aa_dev :: auth_dev
  aa_peer :: auth_peer
  aa_wdn_id :: u8
  aa_state :: wdn_state
  aa_mode :: sys_work_mode
  aa_aid :: u32
  aa_rx_pkt_stat :: u32
  aa_blocked :: bool
  aa_que :: ptr
  aa_free :: "wf_ap_msg_tag \<Rightarrow> ptr"
  aa_mem :: ap_mem
  aa_pt :: ap_pc
  aa_timer :: wf_timer

section \<open>The thread\<close>

text \<open>The counter is increased by the loop and once more in its body.\<close>

function challenge_loop :: "(nat \<Rightarrow> u32) \<Rightarrow> nat \<Rightarrow> bytes \<Rightarrow> bytes option" where
  "challenge_loop rand32 i pchlg_txt =
     (if i < 32 then Option.bind (wrn pchlg_txt (4 * i) (le32_bytes (rand32 i))) (challenge_loop rand32 (i + 1 + 1)) else Some pchlg_txt)"
  by pat_completeness auto
termination by (relation "measure (\<lambda>(_, i, _). 32 - i)") auto

declare challenge_loop.simps [simp del]

definition generate_challenge_text :: "(nat \<Rightarrow> u32) \<Rightarrow> bytes \<Rightarrow> bytes option" where
  "generate_challenge_text rand32 pchlg_txt = challenge_loop rand32 0 pchlg_txt"

definition ap_send :: "auth_env \<Rightarrow> u32 \<Rightarrow> u16 \<Rightarrow> ap_auth \<Rightarrow> ap_auth option" where
  "ap_send env sq status a = do {
     (d, w, r) \<leftarrow> auth_send env status ((aa_peer a)\<lparr>auth_seq := sq\<rparr>) (aa_dev a);
     Some (a\<lparr>aa_dev := d, aa_peer := w\<rparr>)
   }"

definition ap_del :: "ptr \<Rightarrow> ap_auth \<Rightarrow> ap_auth" where
  "ap_del pmsg a = a\<lparr>aa_mem := fst (wf_ap_msg_free (aa_free a) (aa_que a) pmsg (aa_mem a))\<rparr>"

text \<open>\<open>status_error\<close>, and the exit of the thread that always follows it.\<close>

definition status_error :: "auth_env \<Rightarrow> ptr option \<Rightarrow> u16 \<Rightarrow> ap_auth \<Rightarrow> (ap_auth \<times> ap_pc pt_next) option" where
  "status_error env pmsg status_code a = do {
     let a1 = (case pmsg of None \<Rightarrow> a | Some p \<Rightarrow> ap_del p a);
     a2 \<leftarrow> ap_send env WF_80211_AUTH_SEQ_2 status_code a1;
     Some (a2, Fin PT_EXITED 0)
   }"

text \<open>The algorithm the access point accepts, given the one of the frame.\<close>

definition ap_algo :: "sec_info \<Rightarrow> u32 \<Rightarrow> u32" where
  "ap_algo sec frame_algo =
     (if dot11AuthAlgrthm sec = dot11AuthAlgrthm_Auto \<and> (dot11PrivacyAlgrthm sec = 1 \<or> dot11PrivacyAlgrthm sec = 5) then frame_algo
      else if dot11AuthAlgrthm sec = dot11AuthAlgrthm_8021X then dot11AuthAlgrthm_Open else dot11AuthAlgrthm sec)"

text \<open>With the first frame.\<close>

definition ap_first :: "auth_env \<Rightarrow> u32 \<Rightarrow> ptr \<Rightarrow> ap_auth \<Rightarrow> (ap_auth \<times> ap_pc pt_next) option" where
  "ap_first env now pmsg a = do {
     let a1 = a\<lparr>aa_state := E_WDN_AP_STATE_AUTH\<rparr>;
     frame_seq \<leftarrow> rd_le16 (am_mgmt (aa_mem a) pmsg) 26;
     frame_algo16 \<leftarrow> rd_le16 (am_mgmt (aa_mem a) pmsg) 24;
     let frame_algo = (ucast frame_algo16 :: u32);
     if frame_seq \<noteq> 1 then status_error env (Some pmsg) WF_80211_STATUS_UNKNOWN_AUTH_TRANSACTION a1
     else do {
       let algo = ap_algo (ad_sec (aa_dev a)) frame_algo;
       let a2 = a1\<lparr>aa_peer := (aa_peer a1)\<lparr>aw_algo := algo\<rparr>\<rparr>;
       if frame_algo > dot11AuthAlgrthm_Shared \<or> frame_algo \<noteq> algo
       then status_error env (Some pmsg) WF_80211_STATUS_NOT_SUPPORTED_AUTH_ALG a2
       else do {
         let a3 = ap_del pmsg a2;
         if algo = dot11AuthAlgrthm_Open then Some (a3\<lparr>aa_timer := wf_timer_set (au_msecs env) now 5000\<rparr>, Goto Ap_send2)
         else do {
           c \<leftarrow> generate_challenge_text (au_rand env) (chlg_txt (aa_peer a3));
           a4 \<leftarrow> ap_send env WF_80211_AUTH_SEQ_2 WF_80211_STATUS_SUCCESS (a3\<lparr>aa_peer := (aa_peer a3)\<lparr>chlg_txt := c\<rparr>\<rparr>);
           Some (a4\<lparr>aa_timer := wf_timer_set (au_msecs env) now 5000\<rparr>, Back Ap_wait3 PT_YIELDED)
         }
       }
     }
   }"

text \<open>With the third frame, which is decrypted in place.\<close>

definition ap_third :: "auth_env \<Rightarrow> u32 \<Rightarrow> ptr \<Rightarrow> ap_auth \<Rightarrow> (ap_auth \<times> ap_pc pt_next) option" where
  "ap_third env now pmsg a = do {
     let mgmt = am_mgmt (aa_mem a) pmsg;
     fc \<leftarrow> rd_le16 mgmt 0;
     if fc AND 0x4000 = 0 then status_error env (Some pmsg) WF_80211_STATUS_CHALLENGE_FAIL a
     else do {
       (g, mgmt', r) \<leftarrow> wf_wep_decrypt_auth (ad_crc (aa_dev a)) (ad_sec (aa_dev a)) mgmt (am_len (aa_mem a) pmsg);
       let a1 = a\<lparr>aa_dev := (aa_dev a)\<lparr>ad_crc := g\<rparr>, aa_mem := (aa_mem a)\<lparr>am_mgmt := (am_mgmt (aa_mem a))(pmsg := mgmt')\<rparr>\<rparr>;
       if r \<noteq> 0 then status_error env (Some pmsg) WF_80211_STATUS_CHALLENGE_FAIL a1
       else do {
         frame_seq \<leftarrow> rd_le16 mgmt' 30;
         if frame_seq \<noteq> 3 then status_error env (Some pmsg) WF_80211_STATUS_UNKNOWN_AUTH_TRANSACTION a1
         else do {
           frame_algo \<leftarrow> rd_le16 mgmt' 28;
           if ucast frame_algo \<noteq> aw_algo (aa_peer a1) then status_error env (Some pmsg) WF_80211_STATUS_NOT_SUPPORTED_AUTH_ALG a1
           else do {
             chlg \<leftarrow> rdn mgmt' 36 128;
             if chlg_txt (aa_peer a1) \<noteq> chlg then status_error env (Some pmsg) WF_80211_STATUS_CHALLENGE_FAIL a1
             else Some (a1\<lparr>aa_timer := wf_timer_set (au_msecs env) now 5000\<rparr>, Goto Ap_send4)
           }
         }
       }
     }
   }"

text \<open>The two loops that wait for the end of authentication: \<open>head\<close> is the head of the loop, \<open>wt\<close> the wait.\<close>

definition ap_wait_end :: "auth_env \<Rightarrow> u32 \<Rightarrow> ap_pc \<Rightarrow> ap_pc \<Rightarrow> ap_auth \<Rightarrow> (ap_auth \<times> ap_pc pt_next) option" where
  "ap_wait_end env now head wt a =
     (case wf_ap_msg_get (aa_que a) (aa_mem a) of
        None \<Rightarrow>
          if wf_timer_expired now (aa_timer a) then status_error env None WF_80211_STATUS_AUTH_TIMEOUT a
          else Some (a, Back wt PT_YIELDED)
      | Some pmsg \<Rightarrow>
          if am_tag (aa_mem a) pmsg = WF_AP_MSG_TAG_AUTH_FRAME then Some (ap_del pmsg a, Goto head)
          else Some (a, Fin PT_ENDED 0))"

definition ap_wait_seq3 :: "auth_env \<Rightarrow> u32 \<Rightarrow> ap_auth \<Rightarrow> (ap_auth \<times> ap_pc pt_next) option" where
  "ap_wait_seq3 env now a =
     (case wf_ap_msg_get (aa_que a) (aa_mem a) of
        None \<Rightarrow>
          if wf_timer_expired now (aa_timer a) then status_error env None WF_80211_STATUS_AUTH_TIMEOUT a
          else Some (a, Back Ap_wait3 PT_YIELDED)
      | Some pmsg \<Rightarrow>
          if am_tag (aa_mem a) pmsg \<noteq> WF_AP_MSG_TAG_AUTH_FRAME then status_error env (Some pmsg) WF_80211_STATUS_AUTH_TIMEOUT a
          else ap_third env now pmsg a)"

definition ap_wait_seq1 :: "auth_env \<Rightarrow> u32 \<Rightarrow> ap_auth \<Rightarrow> (ap_auth \<times> ap_pc pt_next) option" where
  "ap_wait_seq1 env now a =
     (case wf_ap_msg_get (aa_que a) (aa_mem a) of
        None \<Rightarrow> Some (a, Back Ap_begin PT_WAITING)
      | Some pmsg \<Rightarrow>
          if am_tag (aa_mem a) pmsg \<noteq> WF_AP_MSG_TAG_AUTH_FRAME
          then (let a1 = ap_del pmsg a
                in Some (a1\<lparr>aa_dev := fst (wf_deauth_xmit_frame env (Some (aa_peer a1)) 3 (aa_dev a1))\<rparr>, Fin PT_EXITED 0))
          else ap_first env now pmsg a)"

definition ap_step :: "auth_env \<Rightarrow> u32 \<Rightarrow> ap_pc \<Rightarrow> ap_auth \<Rightarrow> (ap_auth \<times> ap_pc pt_next) option" where
  "ap_step env now pc a =
     (case pc of
        Ap_begin \<Rightarrow> ap_wait_seq1 env now a
      | Ap_send2 \<Rightarrow> do { a1 \<leftarrow> ap_send env WF_80211_AUTH_SEQ_2 WF_80211_STATUS_SUCCESS a; Some (a1, Back Ap_open PT_YIELDED) }
      | Ap_open \<Rightarrow> ap_wait_end env now Ap_send2 Ap_open a
      | Ap_wait3 \<Rightarrow> ap_wait_seq3 env now a
      | Ap_send4 \<Rightarrow> do { a1 \<leftarrow> ap_send env WF_80211_AUTH_SEQ_4 WF_80211_STATUS_SUCCESS a; Some (a1, Back Ap_wait4 PT_YIELDED) }
      | Ap_wait4 \<Rightarrow> ap_wait_end env now Ap_send4 Ap_wait4 a)"

definition ap_return :: "ap_auth \<times> ap_pc pt_next \<Rightarrow> ap_auth \<times> pt_ret" where
  "ap_return r =
     (case r of
        (a, Goto pc) \<Rightarrow> (a\<lparr>aa_pt := pc\<rparr>, PT_WAITING)
      | (a, Back pc r) \<Rightarrow> (a\<lparr>aa_pt := pc\<rparr>, r)
      | (a, Fin r _) \<Rightarrow> (a\<lparr>aa_pt := Ap_begin\<rparr>, r))"

definition wf_auth_ap_thrd :: "auth_env \<Rightarrow> u32 \<Rightarrow> ap_auth \<Rightarrow> (ap_auth \<times> pt_ret) option" where
  "wf_auth_ap_thrd env now a = map_option ap_return (pt_run (ap_step env now) (aa_pt a) a)"

section \<open>Reception\<close>

text \<open>\<open>wdn_info_update\<close>; the thread of authentication starts at its beginning too, when the thread of the peer
  starts.\<close>

definition wdn_info_update :: "ap_auth \<Rightarrow> ap_auth" where
  "wdn_info_update a = a\<lparr>aa_mem := wf_que_init (aa_que a) (aa_mem a), aa_pt := Ap_begin, aa_aid := ucast (aa_wdn_id a) + 1,
     aa_peer := (aa_peer a)\<lparr>aw_bssid := ad_mac (aa_dev a)\<rparr>, aa_rx_pkt_stat := 0, aa_mode := WF_MASTER_MODE, aa_blocked := True\<rparr>"

text \<open>\<open>pw\<close> is the peer that sent the frame, if the table has it, \<open>new\<close> what \<open>wf_wdn_add\<close> gives otherwise. The result is
  the peer with the message, and the return code.\<close>

definition auth_ap_recv :: "ap_auth option \<Rightarrow> ap_auth option \<Rightarrow> bytes \<Rightarrow> u16 \<Rightarrow> (ap_auth option \<times> int) option" where
  "auth_ap_recv pw new mgmt mgmt_len =
     (if 180 < unat mgmt_len then Some (pw, -1)
      else do {
        fc \<leftarrow> rd_le16 mgmt 0;
        if fc AND 0xFC \<noteq> WF_80211_FRM_AUTH then Some (pw, -2)
        else
          (case (case pw of None \<Rightarrow> map_option wdn_info_update new | Some a \<Rightarrow> Some a) of
             None \<Rightarrow> Some (None, -3)
           | Some a \<Rightarrow>
               if aa_mode a \<noteq> WF_MASTER_MODE then Some (Some a, -4)
               else do {
                 (m, r) \<leftarrow> wf_ap_msg_load (aa_free a) (aa_que a) WF_AP_MSG_TAG_AUTH_FRAME (Some mgmt) mgmt_len (aa_mem a);
                 Some (Some (a\<lparr>aa_mem := m\<rparr>), if r \<noteq> 0 then -5 else 0)
               })
      })"

definition deauth_work_ap :: "ap_auth option \<Rightarrow> bytes \<Rightarrow> u16 \<Rightarrow> (ap_auth option \<times> int) option" where
  "deauth_work_ap pw mgmt mgmt_len =
     (case pw of
        None \<Rightarrow> Some (None, -1)
      | Some a \<Rightarrow>
          if aa_mode a \<noteq> WF_MASTER_MODE then Some (pw, -2)
          else if 26 < unat mgmt_len then Some (pw, -3)
          else do {
            fc \<leftarrow> rd_le16 mgmt 0;
            if fc AND 0xFC \<noteq> WF_80211_FRM_DEAUTH then Some (pw, -4)
            else do {
              (m, r) \<leftarrow> wf_ap_msg_load (aa_free a) (aa_que a) WF_AP_MSG_TAG_DEAUTH_FRAME (Some mgmt) mgmt_len (aa_mem a);
              Some (Some (a\<lparr>aa_mem := m\<rparr>), if r \<noteq> 0 then -5 else 0)
            }
          })"

text \<open>The dispatch by the mode of the device: what a station or an access point has received. \<open>st\<close> is the state of the
  station, \<open>pw\<close> and \<open>new\<close> that of the access point.\<close>

definition wf_auth_frame_parse ::
  "sys_work_mode \<Rightarrow> bool \<Rightarrow> auth_peer option \<Rightarrow> ap_auth option \<Rightarrow> ap_auth option \<Rightarrow> bytes \<Rightarrow> u16 \<Rightarrow> sta_auth \<Rightarrow>
     (sta_auth \<times> ap_auth option \<times> int) option" where
  "wf_auth_frame_parse wmode mlme_auth sw pw new mgmt mgmt_len st =
     (if wmode = WF_INFRA_MODE then do {
        (st', rst) \<leftarrow> auth_sta_recv mlme_auth sw (Some mgmt) mgmt_len st;
        Some (st', pw, if rst \<noteq> 0 then -1 else 0)
      }
      else if wmode = WF_MASTER_MODE then do {
        (pw', rst) \<leftarrow> auth_ap_recv pw new mgmt mgmt_len;
        Some (st, pw', if rst \<noteq> 0 then -2 else 0)
      }
      else Some (st, pw, -3))"

definition wf_deauth_frame_parse ::
  "auth_env \<Rightarrow> bool \<Rightarrow> sys_work_mode \<Rightarrow> auth_peer option \<Rightarrow> ap_auth option \<Rightarrow> bytes option \<Rightarrow> u16 \<Rightarrow> auth_dev \<Rightarrow>
     (auth_dev \<times> ap_auth option \<times> int) option" where
  "wf_deauth_frame_parse env cannot_run wmode sw pw pmgmt mgmt_len d =
     (case (sw, pmgmt) of
        (Some w, Some mgmt) \<Rightarrow>
          if mgmt_len = 0 then Some (d, pw, -1)
          else if cannot_run then Some (d, pw, -2)
          else if wmode = WF_INFRA_MODE then do {
            reason_code \<leftarrow> rd_le16 mgmt 24;
            Some (auth_emit (Mlme_deauth reason_code) d, pw, if au_mlme_deauth env (ad_out d) \<noteq> 0 then -3 else 0)
          }
          else if wmode = WF_MASTER_MODE then do {
            (pw', rst) \<leftarrow> deauth_work_ap pw mgmt mgmt_len;
            Some (d, pw', if rst \<noteq> 0 then -4 else 0)
          }
          else Some (d, pw, -5)
      | _ \<Rightarrow> Some (d, pw, -1))"

end
