(* ===== verification/Auth_Run.thy ===== *)
theory Auth_Run
  imports Auth_Sta Auth_Ap
begin

text \<open>
  Authentication from end to end: the thread of a station and the thread of an access point, each with its
  message queue, exchange frames until both are done. First what single calls of the two
  threads do, then whole exchanges.
\<close>

section \<open>Calls of the station\<close>

definition env_ok :: "auth_env \<Rightarrow> bool" where
  "env_ok env \<longleftrightarrow> (\<forall>es. au_extbuf env es \<and> au_xmit env es = 0) \<and> unat (au_msecs env 50) < 2 ^ 31 \<and> unat (au_msecs env 5000) < 2 ^ 31"

text \<open>The first and the fourth frame.\<close>

definition plain_frame :: "u32 \<Rightarrow> u32 \<Rightarrow> auth_peer \<Rightarrow> auth_dev \<Rightarrow> bytes" where
  "plain_frame algo sq w d = auth_hdr 0xB0 w (aw_bssid w) d @ le16_bytes (ucast algo) @ le16_bytes (ucast sq) @ le16_bytes 0"

lemma auth_send_plain:
  assumes "env_ok env" "auth_seq w = 1 \<or> auth_seq w = 4"
  shows "auth_send env 0 w d = Some (auth_emit (Frame_xmit (plain_frame (aw_algo w) (auth_seq w) w d)) d, w, 0)"
  using assms by (auto simp: auth_send_def env_ok_def plain_frame_def Let_def)

text \<open>A station that waits, with nothing pending.\<close>

definition sta_at :: "sta_auth \<Rightarrow> sta_pc \<Rightarrow> auth_peer \<Rightarrow> ptr list \<Rightarrow> ptr set \<Rightarrow> bool" where
  "sta_at s pc w fs H \<longleftrightarrow> sa_pt s = pc \<and> sa_peer s = Some w \<and> auth_ok (sa_dev s) w \<and> retry_cnt s < 3 \<and> sa_lock s \<and> sta_box s [] fs H"

definition sta_keeps :: "sta_auth \<Rightarrow> sta_auth \<Rightarrow> bool" where
  "sta_keeps s s' \<longleftrightarrow> sa_que s' = sa_que s \<and> tag (sa_mem s') = tag (sa_mem s) \<and>
     ad_mac (sa_dev s') = ad_mac (sa_dev s) \<and> ad_bssid (sa_dev s') = ad_bssid (sa_dev s) \<and> ad_sec (sa_dev s') = ad_sec (sa_dev s)"

lemma sta_wait_idle:
  assumes "sta_box s [] fs H" "\<not> wf_timer_expired now (sa_timer s)"
  shows "pt_run (sta_step env now) Sta_wait2 s = Some (s, Back Sta_wait2 PT_WAITING)"
    "pt_run (sta_step env now) Sta_wait4 s = Some (s, Back Sta_wait4 PT_WAITING)"
  using sta_pop_empty [OF assms(1)] assms(2)
  by (simp_all add: pt_run_Back sta_step_def sta_wait_seq2_def sta_wait_seq4_def)

lemma sta_run_send2:
  assumes "env_ok env" "sa_peer s = Some w" "auth_seq w = 1" "retry_cnt s < 3" "sta_box s [] fs H"
  shows "pt_run (sta_step env now) Sta_send2 s =
    Some (s\<lparr>sa_dev := auth_emit (Frame_xmit (plain_frame (aw_algo w) 1 w (sa_dev s))) (sa_dev s),
            sa_timer := wf_timer_set (au_msecs env) now 50\<rparr>, Back Sta_wait2 PT_WAITING)"
proof -
  let ?s = "s\<lparr>sa_dev := auth_emit (Frame_xmit (plain_frame (aw_algo w) 1 w (sa_dev s))) (sa_dev s), sa_timer := wf_timer_set (au_msecs env) now 50\<rparr>"
  have p: "s\<lparr>sa_peer := Some w\<rparr> = s" using assms(2) by simp
  have "sta_step env now Sta_send2 s = Some (?s, Goto Sta_wait2)"
    using assms auth_send_plain [OF assms(1), of w "sa_dev s"] by (simp add: sta_step_def sta_send_def Let_def)
  moreover have "\<not> wf_timer_expired now (sa_timer ?s)" using assms(1) by (simp add: timer_set_now env_ok_def)
  ultimately show ?thesis using sta_wait_idle(1) [of ?s fs H now env] assms(5) by (simp add: pt_run_Goto sta_box_sel)
qed

lemma sta_call_start:
  assumes "env_ok env" "sa_pt s = Sta_begin" "\<not> sa_lock s" "sa_peer s = Some w" "auth_ok (sa_dev s) w" "sta_box s [p] fs H" "tag (sa_mem s) p = WF_AUTH_TAG_START"
  defines "w1 \<equiv> w\<lparr>auth_seq := 1, aw_algo := 0\<rparr>"
  obtains s1 where "wf_auth_sta_thrd env now s = Some (s1, PT_WAITING, None)" "sta_at s1 Sta_wait2 w1 (fs @ [p]) H" "sta_keeps s s1" "retry_cnt s1 = 0"
    "sa_timer s1 = wf_timer_set (au_msecs env) now 50"
    "ad_out (sa_dev s1) = ad_out (sa_dev s) @ [Mcu_set_bssid (ad_bssid (sa_dev s)), Mcu_set_mlme_join 0, Mcu_set_media_status 2, Frame_xmit (plain_frame 0 1 w1 (sa_dev s))]"
proof -
  let ?s0 = "s\<lparr>sa_lock := True\<rparr>"
  have b: "sta_box ?s0 [p] fs H" using assms(6) by (simp add: sta_box_sel)
  obtain m where m: "box_pop (sa_que ?s0) (sa_mem ?s0) = (m, 0, Some p)" "same_msgs (sa_mem ?s0) m"
    "sta_box (?s0\<lparr>sa_mem := m\<rparr>) [] fs (insert p H)" "sta_box (sta_del p m ?s0) [] (fs @ [p]) H" "same_msgs (sa_mem ?s0) (sa_mem (sta_del p m ?s0))"
    by (rule sta_pop [OF b])
  let ?s1 = "fst (sta_started (sta_del p m ?s0))"
  have st: "sta_started (sta_del p m ?s0) = (?s1, Goto Sta_send2)" using assms(4) by (simp add: sta_started_def Let_def)
  have tg: "tag m p = WF_AUTH_TAG_START" using m(2) assms(7) by (simp add: same_msgs_def)
  have s1: "sa_peer ?s1 = Some w1" "retry_cnt ?s1 = 0" "sta_box ?s1 [] (fs @ [p]) H" "sa_lock ?s1" "same_msgs (sa_mem s) (sa_mem ?s1)"
    using assms(4) m(4,5) by (simp_all add: sta_started_def Let_def sta_box_sel w1_def)
  have run: "pt_run (sta_step env now) (sa_pt s) s = pt_run (sta_step env now) Sta_send2 ?s1"
    using assms(2,3) m(1) tg st by (simp add: sta_step_def sta_get_start_def pt_run_Goto [where step = "sta_step env now"])
  have w1: "auth_seq w1 = 1" "auth_ok (sa_dev ?s1) w1" using assms(4,5) by (simp_all add: w1_def sta_started_def Let_def auth_ok_def)
  let ?s2 = "?s1\<lparr>sa_dev := auth_emit (Frame_xmit (plain_frame (aw_algo w1) 1 w1 (sa_dev ?s1))) (sa_dev ?s1), sa_timer := wf_timer_set (au_msecs env) now 50, sa_pt := Sta_wait2\<rparr>"
  have "wf_auth_sta_thrd env now s = Some (?s2, PT_WAITING, None)"
    using sta_run_send2 [OF assms(1) s1(1) w1(1) _ s1(3), of now] s1(2) by (simp add: wf_auth_sta_thrd_def run sta_return_def)
  then show thesis
    by (rule that) (use s1 w1 assms(4) in \<open>simp_all add: sta_at_def sta_box_sel sta_keeps_def same_msgs_def plain_frame_def auth_hdr_def sta_started_def Let_def w1_def\<close>)
qed

text \<open>A frame that arrives at a station that waits becomes the only pending message.\<close>

lemma sta_recv:
  assumes "sta_at s pc w fs H" "q \<in> set fs" "tag (sa_mem s) q = WF_AUTH_TAG_RSP" "10 \<le> length f" "length f \<le> 180"
    "take 6 (drop 4 f) = ad_mac (sa_dev s)" "aw_bssid w = ad_bssid (sa_dev s)"
  obtains m p fs1 rest where "auth_sta_recv True (Some w) (Some f) (of_nat (length f)) s = Some (s\<lparr>sa_mem := m\<rparr>, 0)"
    "sta_box (s\<lparr>sa_mem := m\<rparr>) [p] fs1 H" "set fs = insert p (set fs1)" "tag m = tag (sa_mem s)" "tag m p = WF_AUTH_TAG_RSP"
    "msg_value m p = f @ rest" "msg_len m p = of_nat (length f)"
proof -
  have b: "mbox (sa_que s) (sa_mem s) [] fs H" and v: "\<And>p. tag (sa_mem s) p = WF_AUTH_TAG_RSP \<Longrightarrow> length (msg_value (sa_mem s) p) = 180"
    using assms(1) by (auto simp: sta_at_def sta_box_def)
  obtain us p vs where fs: "fs = us @ p # vs" "tag (sa_mem s) p = WF_AUTH_TAG_RSP" "\<forall>u\<in>set us. tag (sa_mem s) u \<noteq> WF_AUTH_TAG_RSP"
    using split_list_first_prop [of fs "\<lambda>x. tag (sa_mem s) x = WF_AUTH_TAG_RSP"] assms(2,3) by blast
  obtain m1 where m1: "box_new (sa_que s) WF_AUTH_TAG_RSP (sa_mem s) = Some (m1, 0, Some p)" "mbox (sa_que s) m1 [] (us @ vs) (insert p H)" "same_msgs (sa_mem s) m1"
    using mb.new_some [OF b [unfolded fs(1)] fs(2,3)] by blast
  let ?v = "f @ drop (length f) (msg_value m1 p)"
  let ?m2 = "box_write p (of_nat (length f)) ?v m1"
  have "p \<notin> H" using mb.box_distinct [OF b] fs(1) by auto
  then obtain m3 where m3: "box_push (sa_que s) p ?m2 = Some (m3, 0)" "same_msgs ?m2 m3" "mbox (sa_que s) m3 [p] (us @ vs) H"
    using mb.push_in [of "sa_que s" ?m2 "[]" "us @ vs" "insert p H" p] m1(2) by auto
  have len: "unat (of_nat (length f) :: u16) = length f" using assms(5) by (intro unat_of_nat_u16) simp
  have v1: "length (msg_value m1 p) = 180" using v [OF fs(2)] m1(3) by (simp add: same_msgs_def)
  have rd: "rdn f 4 6 = Some (ad_mac (sa_dev s))" using assms(4,6) by (simp add: rdn_def)
  have uc: "(ucast (of_nat (length f) :: u16) :: u32) = of_nat (length f)" by (simp only: ucast_of_nat_unat len)
  have fill: "rdn f 0 (length f) = Some f" "wrn (msg_value m1 p) 0 f = Some ?v" using v1 assms(5) by (simp_all add: rdn_def wrn_def)
  have nz: "of_nat (length f) \<noteq> (0 :: u16)" using len assms(4) by (metis unat_0 not_numeral_le_zero)
  have r: "auth_sta_recv True (Some w) (Some f) (of_nat (length f)) s = Some (s\<lparr>sa_mem := m3\<rparr>, 0)"
    unfolding auth_sta_recv_def auth_msg_send_def using rd m1(1) fill m3(1) nz len assms(5,7) by (simp add: uc)
  have "sta_box (s\<lparr>sa_mem := m3\<rparr>) [p] (us @ vs) H" using m3 m1(3) v v1 assms(5) by (auto simp: sta_box_def same_msgs_def)
  with r show thesis by (rule that) (use fs m1(3) m3(2) in \<open>auto simp: same_msgs_def\<close>)
qed

text \<open>The fields of a frame without HT control.\<close>

lemma auth_fields_frame:
  assumes "length (hdr :: bytes) = 22"
  shows "auth_fields (le16_bytes 0xB0 @ hdr @ le16_bytes algo @ le16_bytes sq @ le16_bytes st @ rest) = Some (0, sq, st)"
proof -
  let ?f = "le16_bytes 0xB0 @ hdr @ le16_bytes algo @ le16_bytes sq @ le16_bytes st @ rest"
  have "rd_le16 ?f 0 = Some 0xB0" using rd_le16_put [of 0 "[]" "0xB0"] by simp
  moreover have "rd_le16 ?f 26 = Some sq" using rd_le16_put [of 26 "le16_bytes 0xB0 @ hdr @ le16_bytes algo" sq] assms by simp
  moreover have "rd_le16 ?f 28 = Some st" using rd_le16_put [of 28 "le16_bytes 0xB0 @ hdr @ le16_bytes algo @ le16_bytes sq" st] assms by simp
  ultimately show ?thesis by (simp add: auth_fields_def)
qed

text \<open>The station takes the only pending message, an answer with transaction number \<open>sq\<close> and status \<open>st\<close>.\<close>

definition sta_rsp :: "sta_auth \<Rightarrow> sta_pc \<Rightarrow> auth_peer \<Rightarrow> ptr \<Rightarrow> ptr list \<Rightarrow> ptr set \<Rightarrow> u16 \<Rightarrow> u16 \<Rightarrow> bool" where
  "sta_rsp s pc w p fs H sq st \<longleftrightarrow> sa_pt s = pc \<and> sa_peer s = Some w \<and> auth_ok (sa_dev s) w \<and> retry_cnt s < 3 \<and> sa_lock s \<and> sta_box s [p] fs H \<and>
     tag (sa_mem s) p = WF_AUTH_TAG_RSP \<and> (\<exists>ofs. auth_fields (msg_value (sa_mem s) p) = Some (ofs, sq, st))"

lemma sta_rspE:
  assumes "sta_rsp s pc w p fs H sq st"
  obtains m ofs where "box_pop (sa_que s) (sa_mem s) = (m, 0, Some p)" "tag m p = WF_AUTH_TAG_RSP" "tag m p \<noteq> WF_AUTH_TAG_ABORT"
    "auth_fields (msg_value m p) = Some (ofs, sq, st)" "sta_box (sta_del p m s) [] (fs @ [p]) H" "sta_keeps s (sta_del p m s)" "same_msgs (sa_mem s) m"
proof -
  have b: "sta_box s [p] fs H" using assms by (simp add: sta_rsp_def)
  obtain m where m: "box_pop (sa_que s) (sa_mem s) = (m, 0, Some p)" "same_msgs (sa_mem s) m"
    "sta_box (s\<lparr>sa_mem := m\<rparr>) [] fs (insert p H)" "sta_box (sta_del p m s) [] (fs @ [p]) H" "same_msgs (sa_mem s) (sa_mem (sta_del p m s))"
    by (rule sta_pop [OF b])
  have t: "WF_AUTH_TAG_RSP \<noteq> WF_AUTH_TAG_ABORT" by (simp add: WF_AUTH_TAG_RSP_def WF_AUTH_TAG_ABORT_def WF_MSG_TAG_SET_def)
  show thesis using assms m t that by (auto simp: sta_rsp_def same_msgs_def sta_keeps_def)
qed

lemma sta_call_done:
  assumes "sta_rsp s pc w p fs H sq 0" "pc = Sta_wait2 \<and> sq = 2 \<and> aw_algo w = 0 \<or> pc = Sta_wait4 \<and> sq = 4"
  obtains s1 where "wf_auth_sta_thrd env now s = Some (s1, PT_EXITED, Some (uint WF_AUTH_TAG_DONE))" "\<not> sa_lock s1" "\<not> brun s1"
    "sta_box s1 [] (fs @ [p]) H" "ad_out (sa_dev s1) = ad_out (sa_dev s)"
proof -
  obtain m ofs where m: "box_pop (sa_que s) (sa_mem s) = (m, 0, Some p)" "tag m p = WF_AUTH_TAG_RSP" "tag m p \<noteq> WF_AUTH_TAG_ABORT"
    "auth_fields (msg_value m p) = Some (ofs, sq, 0)" "sta_box (sta_del p m s) [] (fs @ [p]) H" "sta_keeps s (sta_del p m s)" "same_msgs (sa_mem s) m"
    by (rule sta_rspE [OF assms(1)])
  have d: "uint WF_AUTH_TAG_DONE \<noteq> 0" by (simp add: WF_AUTH_TAG_DONE_def WF_AUTH_TAG_START_def WF_MSG_TAG_SET_def)
  have r: "retry_cnt s \<noteq> 3" "sa_peer s = Some w" "sa_pt s = pc" using assms(1) by (auto simp: sta_rsp_def)
  have "sta_step env now pc s = Some (sta_exit (uint WF_AUTH_TAG_DONE) (sta_del p m s))"
    using assms(2) m r by (auto simp: sta_step_def sta_wait_seq2_def sta_wait_seq4_def)
  then have "wf_auth_sta_thrd env now s = Some ((fst (sta_exit (uint WF_AUTH_TAG_DONE) (sta_del p m s)))\<lparr>sa_pt := Sta_begin\<rparr>, PT_EXITED, Some (uint WF_AUTH_TAG_DONE))"
    using d r(3) by (simp add: wf_auth_sta_thrd_def sta_exit_def pt_run_Fin sta_return_def)
  then show thesis by (rule that) (use m(5) in \<open>simp_all add: sta_exit_def sta_box_sel\<close>)
qed

text \<open>The access point does not support open authentication: the station asks again, for shared key.\<close>

lemma sta_call_switch:
  assumes "env_ok env" "sta_rsp s Sta_wait2 w p fs H 2 13" "aw_algo w = 0" "auth_seq w = 1" "retry_cnt s < 2"
  defines "w1 \<equiv> w\<lparr>aw_algo := 1\<rparr>"
  obtains s1 where "wf_auth_sta_thrd env now s = Some (s1, PT_WAITING, None)" "sta_at s1 Sta_wait2 w1 (fs @ [p]) H" "sta_keeps s s1"
    "ad_out (sa_dev s1) = ad_out (sa_dev s) @ [Frame_xmit (plain_frame 1 1 w1 (sa_dev s))]"
proof -
  obtain m ofs where m: "box_pop (sa_que s) (sa_mem s) = (m, 0, Some p)" "tag m p = WF_AUTH_TAG_RSP" "tag m p \<noteq> WF_AUTH_TAG_ABORT"
    "auth_fields (msg_value m p) = Some (ofs, 2, 13)" "sta_box (sta_del p m s) [] (fs @ [p]) H" "sta_keeps s (sta_del p m s)" "same_msgs (sa_mem s) m"
    by (rule sta_rspE [OF assms(2)])
  have r: "sa_peer s = Some w" "sa_pt s = Sta_wait2" "auth_ok (sa_dev s) w" "sa_lock s" using assms(2) by (auto simp: sta_rsp_def)
  let ?s = "sta_again ((sta_del p m s)\<lparr>sa_peer := Some w1\<rparr>)"
  have n: "retry_cnt s + 1 < 3" using assms(5) by unat_arith
  have st: "sta_step env now Sta_wait2 s = Some (?s, Goto Sta_send2)"
    using assms(3) m r(1) by (simp add: sta_step_def sta_wait_seq2_def w1_def)
  let ?s2 = "?s\<lparr>sa_dev := auth_emit (Frame_xmit (plain_frame (aw_algo w1) 1 w1 (sa_dev ?s))) (sa_dev ?s), sa_timer := wf_timer_set (au_msecs env) now 50, sa_pt := Sta_wait2\<rparr>"
  have "pt_run (sta_step env now) Sta_send2 ?s = Some (?s2\<lparr>sa_pt := sa_pt ?s\<rparr>, Back Sta_wait2 PT_WAITING)"
    using sta_run_send2 [OF assms(1), of ?s w1 "fs @ [p]" H now] m(5) n assms(4) by (simp add: sta_box_sel w1_def)
  then have "wf_auth_sta_thrd env now s = Some (?s2, PT_WAITING, None)"
    by (simp add: wf_auth_sta_thrd_def r(2) pt_run_Goto [where step = "sta_step env now", OF st] sta_return_def)
  then show thesis
    by (rule that) (use r m(5,6) n in \<open>simp_all add: sta_at_def sta_box_sel sta_keeps_def auth_ok_def plain_frame_def auth_hdr_def w1_def\<close>)
qed

text \<open>The third frame, with the key stream of \<open>ctx\<close>.\<close>

definition seq3_frame :: "arc4context \<Rightarrow> auth_peer \<Rightarrow> auth_dev \<Rightarrow> bytes" where
  "seq3_frame ctx w d = auth_hdr 0x40B0 w (aw_bssid w) d @ seq3_iv w d @
     snd (arc4_encrypt ctx (seq3_body (chlg_txt w) @ le32_bytes (crc32_ref (seq3_body (chlg_txt w)))))"

definition seq3_ctx :: "auth_peer \<Rightarrow> auth_dev \<Rightarrow> arc4context \<Rightarrow> bool" where
  "seq3_ctx w d ctx \<longleftrightarrow> arc4_init (wep_key_of (ad_sec d) (seq3_iv w d)) (length (wep_key_of (ad_sec d) (seq3_iv w d))) = Some ctx"

lemma sta_call_challenge:
  assumes "env_ok env" "sta_rsp s Sta_wait2 w p fs H 2 0" "aw_algo w = 1" "length c = 128"
    "msg_value (sa_mem s) p = le16_bytes 0xB0 @ hdr @ le16_bytes 1 @ le16_bytes 2 @ le16_bytes 0 @ [16, 128] @ c @ rest" "length hdr = 22"
    "msg_len (sa_mem s) p = 160"
  defines "w1 \<equiv> w\<lparr>chlg_txt := c, auth_seq := 3\<rparr>"
  obtains s1 w2 ctx where "wf_auth_sta_thrd env now s = Some (s1, PT_WAITING, None)" "sta_at s1 Sta_wait4 w2 (fs @ [p]) H" "sta_keeps s s1"
    "aw_bssid w2 = aw_bssid w" "seq3_ctx w1 (sa_dev s) ctx" "ad_out (sa_dev s1) = ad_out (sa_dev s) @ [Frame_xmit (seq3_frame ctx w1 (sa_dev s))]"
proof -
  obtain m ofs where m: "box_pop (sa_que s) (sa_mem s) = (m, 0, Some p)" "tag m p = WF_AUTH_TAG_RSP" "tag m p \<noteq> WF_AUTH_TAG_ABORT"
    "auth_fields (msg_value m p) = Some (ofs, 2, 0)" "sta_box (sta_del p m s) [] (fs @ [p]) H" "sta_keeps s (sta_del p m s)" "same_msgs (sa_mem s) m"
    by (rule sta_rspE [OF assms(2)])
  have mv: "msg_value m p = msg_value (sa_mem s) p" "msg_len m p = 160" using m(7) assms(7) by (simp_all add: same_msgs_def)
  have "auth_fields (msg_value m p) = Some (0, 2, 0)" unfolding mv assms(5) by (rule auth_fields_frame [OF assms(6)])
  then have ofs: "ofs = 0" using m(4) by simp
  have r: "sa_peer s = Some w" "sa_pt s = Sta_wait2" "auth_ok (sa_dev s) w" "sa_lock s" "length (chlg_txt w) = 128" using assms(2) by (auto simp: sta_rsp_def auth_ok_def)
  let ?es = "[(16, c)] :: elem list"
  have es: "drop (30 + 0) (msg_value m p) = ies_enc ?es @ rest" "ies_ok ?es" "(ucast (msg_len m p) :: u16) = of_nat (30 + 0 + length (ies_enc ?es))"
    using assms(4,6) by (simp_all add: mv assms(5) le16_bytes_def ie_enc_def ies_ok_def)
  let ?s = "(sta_del p m s)\<lparr>sa_peer := Some w1, retry_cnt := 0\<rparr>"
  have "sta_challenge p m 0 w s = Some (?s, Goto Sta_send4)"
    using sta_challenge_found [OF es, of "[]" "(16, c)" "[]" w s] assms(4) r(5) by (simp add: w1_def)
  then have st: "sta_step env now Sta_wait2 s = Some (?s, Goto Sta_send4)"
    using assms(3) m r(1) by (simp add: sta_step_def sta_wait_seq2_def ofs)
  have w1: "auth_ok (sa_dev s) w1" "auth_seq w1 = 3" "aw_algo w1 = 1" using r(3) assms(3,4) by (simp_all add: w1_def auth_ok_def)
  obtain ctx where ctx: "seq3_ctx w1 (sa_dev s) ctx"
    using wep_key_arc4 [of "ad_sec (sa_dev s)" "seq3_iv w1 (sa_dev s)"] w1(1) by (auto simp: seq3_ctx_def seq3_iv_def auth_ok_def)
  define d2 where "d2 = auth_emit (Frame_xmit (seq3_frame ctx w1 (sa_dev s))) ((sa_dev s)\<lparr>ad_crc := fst (get_crc32 (ad_crc (sa_dev s)) (seq3_body (chlg_txt w1)))\<rparr>)"
  define w2 where "w2 = w1\<lparr>aw_key_index := dot11PrivacyKeyIndex (ad_sec (sa_dev s)), aw_iv := aw_iv w1 + 1\<rparr>"
  have snd: "auth_send env 0 w1 (sa_dev s) = Some (d2, w2, 0)"
    using auth_send_seq3 [OF w1(1-3) _ ctx [unfolded seq3_ctx_def], of env 0] assms(1) by (simp add: env_ok_def d2_def w2_def seq3_frame_def)
  let ?s2 = "?s\<lparr>sa_dev := d2, sa_peer := Some w2, sa_timer := wf_timer_set (au_msecs env) now 50\<rparr>"
  have st2: "sta_step env now Sta_send4 ?s = Some (?s2, Goto Sta_wait4)" using snd by (simp add: sta_step_def sta_send_def Let_def)
  have "\<not> wf_timer_expired now (sa_timer ?s2)" using assms(1) by (simp add: timer_set_now env_ok_def)
  then have "pt_run (sta_step env now) Sta_wait4 ?s2 = Some (?s2, Back Sta_wait4 PT_WAITING)"
    using sta_wait_idle(2) [of ?s2 "fs @ [p]" H now env] m(5) by (simp add: sta_box_sel)
  then have "wf_auth_sta_thrd env now s = Some (?s2\<lparr>sa_pt := Sta_wait4\<rparr>, PT_WAITING, None)"
    by (simp add: wf_auth_sta_thrd_def r(2) pt_run_Goto [where step = "sta_step env now", OF st] pt_run_Goto [where step = "sta_step env now", OF st2] sta_return_def)
  moreover have "auth_ok d2 w2" using w1(1) get_crc32_ok [of "ad_crc (sa_dev s)"] by (simp add: auth_ok_def d2_def w2_def)
  moreover have "ad_mac d2 = ad_mac (sa_dev s)" "ad_bssid d2 = ad_bssid (sa_dev s)" "ad_sec d2 = ad_sec (sa_dev s)"
    "ad_out d2 = ad_out (sa_dev s) @ [Frame_xmit (seq3_frame ctx w1 (sa_dev s))]" "aw_bssid w2 = aw_bssid w"
    by (simp_all add: d2_def w2_def w1_def)
  ultimately show thesis
    using that [of "?s2\<lparr>sa_pt := Sta_wait4\<rparr>" w2 ctx] r m(5,6) ctx by (simp add: sta_at_def sta_box_sel sta_keeps_def)
qed

section \<open>Calls of the access point\<close>

text \<open>The queues of an access point: \<open>Q\<close> gives the messages of the queue of the peer and of the free queues.\<close>

definition ap_heads :: "ap_auth \<Rightarrow> ptr set" where
  "ap_heads a = insert (aa_que a) (range (aa_free a))"

definition ap_box :: "ap_auth \<Rightarrow> (ptr \<Rightarrow> ptr list) \<Rightarrow> bool" where
  "ap_box a Q \<longleftrightarrow> pool_ok wf_que_rep (aa_mem a) (ap_heads a) Q \<and> aa_que a \<notin> range (aa_free a) \<and>
     (\<forall>p\<in>set (Q (aa_free a WF_AP_MSG_TAG_AUTH_FRAME)). length (am_mgmt (aa_mem a) p) = 180)"

lemma ap_box_sel:
  "ap_box (a\<lparr>aa_dev := d\<rparr>) = ap_box a" "ap_box (a\<lparr>aa_peer := w\<rparr>) = ap_box a" "ap_box (a\<lparr>aa_state := x\<rparr>) = ap_box a"
  "ap_box (a\<lparr>aa_pt := pc\<rparr>) = ap_box a" "ap_box (a\<lparr>aa_timer := t\<rparr>) = ap_box a"
  by (simp_all add: ap_box_def ap_heads_def fun_eq_iff)

lemma ap_next: "ap_box a Q \<Longrightarrow> wf_ap_msg_get (aa_que a) (aa_mem a) = (case Q (aa_que a) of [] \<Rightarrow> None | p # _ \<Rightarrow> Some p)"
  by (rule ap_msg_get_result) (auto simp: ap_box_def ap_heads_def)

lemma ap_del_box:
  assumes "ap_box a Q" "Q (aa_que a) = p # ps" "am_tag (aa_mem a) p = WF_AP_MSG_TAG_AUTH_FRAME" "length (am_mgmt (aa_mem a) p) = 180"
  shows "ap_box (ap_del p a) (Q(aa_que a := ps, aa_free a WF_AP_MSG_TAG_AUTH_FRAME := p # Q (aa_free a WF_AP_MSG_TAG_AUTH_FRAME)))"
    "am_mgmt (aa_mem (ap_del p a)) = am_mgmt (aa_mem a)"
proof -
  have q: "aa_que a \<noteq> aa_free a (am_tag (aa_mem a) p)" using assms(1) by (auto simp: ap_box_def)
  obtain m' where m': "wf_ap_msg_free (aa_free a) (aa_que a) p (aa_mem a) = (m', 0)" "am_tag m' = am_tag (aa_mem a)" "am_len m' = am_len (aa_mem a)"
    "am_mgmt m' = am_mgmt (aa_mem a)"
    "pool_ok wf_que_rep m' (ap_heads a) (Q(aa_que a := ps, aa_free a (am_tag (aa_mem a) p) := p # Q (aa_free a (am_tag (aa_mem a) p))))"
    by (rule ap_msg_free_result [of "aa_mem a" "ap_heads a" Q "aa_free a" p "aa_que a" ps])
      (use assms(1,2) q in \<open>auto simp: ap_box_def ap_heads_def\<close>)
  show "ap_box (ap_del p a) (Q(aa_que a := ps, aa_free a WF_AP_MSG_TAG_AUTH_FRAME := p # Q (aa_free a WF_AP_MSG_TAG_AUTH_FRAME)))"
    using m' assms by (auto simp: ap_box_def ap_heads_def ap_del_def)
  show "am_mgmt (aa_mem (ap_del p a)) = am_mgmt (aa_mem a)" using m' by (simp add: ap_del_def)
qed

lemma ap_del_sel [simp]:
  "aa_dev (ap_del p a) = aa_dev a" "aa_peer (ap_del p a) = aa_peer a" "aa_que (ap_del p a) = aa_que a" "aa_free (ap_del p a) = aa_free a"
  "aa_mode (ap_del p a) = aa_mode a" "aa_pt (ap_del p a) = aa_pt a" "aa_timer (ap_del p a) = aa_timer a"
  by (simp_all add: ap_del_def)

text \<open>A frame that arrives goes to the end of the queue of its peer.\<close>

lemma ap_recv:
  assumes "ap_box a Q" "Q (aa_free a WF_AP_MSG_TAG_AUTH_FRAME) = p # fs" "length f \<le> 180" "aa_mode a = WF_MASTER_MODE"
    "rd_le16 f 0 = Some fc" "fc AND 0xFC = 0xB0"
  obtains m rest where "auth_ap_recv (Some a) new f (of_nat (length f)) = Some (Some (a\<lparr>aa_mem := m\<rparr>), 0)"
    "ap_box (a\<lparr>aa_mem := m\<rparr>) (Q(aa_free a WF_AP_MSG_TAG_AUTH_FRAME := fs, aa_que a := Q (aa_que a) @ [p]))"
    "am_tag m p = WF_AP_MSG_TAG_AUTH_FRAME" "am_len m p = of_nat (length f)" "am_mgmt m p = f @ rest" "length (f @ rest) = 180"
proof -
  let ?fq = "aa_free a WF_AP_MSG_TAG_AUTH_FRAME"
  have len: "unat (of_nat (length f) :: u16) = length f" using assms(3) by (intro unat_of_nat_u16) simp
  have v: "length (am_mgmt (aa_mem a) p) = 180" using assms(1,2) by (simp add: ap_box_def)
  have q: "aa_que a \<noteq> ?fq" using assms(1) by (auto simp: ap_box_def)
  obtain m where m: "wf_ap_msg_load (aa_free a) (aa_que a) WF_AP_MSG_TAG_AUTH_FRAME (Some f) (of_nat (length f)) (aa_mem a) = Some (m, 0)"
    "pool_ok wf_que_rep m (ap_heads a) (Q(?fq := fs, aa_que a := Q (aa_que a) @ [p]))" "am_tag m = (am_tag (aa_mem a))(p := WF_AP_MSG_TAG_AUTH_FRAME)"
    "am_len m = (am_len (aa_mem a))(p := of_nat (length f))"
    "am_mgmt m = (am_mgmt (aa_mem a))(p := take (unat (of_nat (length f) :: u16)) f @ drop (unat (of_nat (length f) :: u16)) (am_mgmt (aa_mem a) p))"
    by (rule ap_msg_load_result [of "aa_mem a" "ap_heads a" Q "aa_free a" WF_AP_MSG_TAG_AUTH_FRAME "aa_que a" p fs "of_nat (length f)" f])
      (use assms(1-3) q len v in \<open>auto simp: ap_box_def ap_heads_def\<close>)
  have "auth_ap_recv (Some a) new f (of_nat (length f)) = Some (Some (a\<lparr>aa_mem := m\<rparr>), 0)"
    using assms(3-6) len m(1) by (simp add: auth_ap_recv_def)
  moreover have "ap_box (a\<lparr>aa_mem := m\<rparr>) (Q(?fq := fs, aa_que a := Q (aa_que a) @ [p]))"
    using assms(1-3) m(2,5) q v len by (auto simp: ap_box_def ap_heads_def)
  ultimately show thesis
    by (rule that [where rest = "drop (length f) (am_mgmt (aa_mem a) p)"]) (use m(3-5) len v assms(3) in auto)
qed

lemma auth_hdr_sel [simp]:
  "auth_hdr fc (w\<lparr>auth_seq := x\<rparr>) b d = auth_hdr fc w b d" "auth_hdr fc (w\<lparr>aw_algo := y\<rparr>) b d = auth_hdr fc w b d"
  "auth_hdr fc (w\<lparr>chlg_txt := z\<rparr>) b d = auth_hdr fc w b d" "auth_hdr fc w b (auth_emit e d) = auth_hdr fc w b d"
  by (simp_all add: auth_hdr_def)

definition seq2_frame :: "u16 \<Rightarrow> auth_peer \<Rightarrow> auth_dev \<Rightarrow> bytes \<Rightarrow> bytes" where
  "seq2_frame st w d chlg = auth_hdr 0xB0 w (aw_bssid w) d @ le16_bytes (ucast (aw_algo w)) @ le16_bytes 2 @ le16_bytes st @ chlg"

lemma ap_send_plain:
  assumes "env_ok env"
  shows "\<not> (st = 0 \<and> aw_algo (aa_peer a) = 1) \<Longrightarrow> ap_send env 2 st a =
      Some (a\<lparr>aa_dev := auth_emit (Frame_xmit (seq2_frame st (aa_peer a) (aa_dev a) [])) (aa_dev a), aa_peer := (aa_peer a)\<lparr>auth_seq := 2\<rparr>\<rparr>)"
    "length (chlg_txt (aa_peer a)) = 128 \<Longrightarrow> aw_algo (aa_peer a) = 1 \<Longrightarrow> ap_send env 2 0 a =
      Some (a\<lparr>aa_dev := auth_emit (Frame_xmit (seq2_frame 0 (aa_peer a) (aa_dev a) ([16, 128] @ chlg_txt (aa_peer a)))) (aa_dev a), aa_peer := (aa_peer a)\<lparr>auth_seq := 2\<rparr>\<rparr>)"
    "ap_send env 4 0 a = Some (a\<lparr>aa_dev := auth_emit (Frame_xmit (plain_frame (aw_algo (aa_peer a)) 4 (aa_peer a) (aa_dev a))) (aa_dev a), aa_peer := (aa_peer a)\<lparr>auth_seq := 4\<rparr>\<rparr>)"
  using assms by (auto simp: ap_send_def auth_send_def env_ok_def seq2_frame_def plain_frame_def Let_def rdn_def)

text \<open>An access point at a wait, with one frame pending.\<close>

definition ap_at :: "ap_auth \<Rightarrow> ap_pc \<Rightarrow> ptr \<Rightarrow> (ptr \<Rightarrow> ptr list) \<Rightarrow> bool" where
  "ap_at a pc p Q \<longleftrightarrow> ap_box a Q \<and> Q (aa_que a) = [p] \<and> aa_pt a = pc \<and> auth_ok (aa_dev a) (aa_peer a) \<and> aa_mode a = WF_MASTER_MODE \<and>
     am_tag (aa_mem a) p = WF_AP_MSG_TAG_AUTH_FRAME \<and> length (am_mgmt (aa_mem a) p) = 180"

definition ap_freed :: "ap_auth \<Rightarrow> ptr \<Rightarrow> (ptr \<Rightarrow> ptr list) \<Rightarrow> ptr \<Rightarrow> ptr list" where
  "ap_freed a p Q = Q(aa_que a := [], aa_free a WF_AP_MSG_TAG_AUTH_FRAME := p # Q (aa_free a WF_AP_MSG_TAG_AUTH_FRAME))"

definition ap_keeps :: "ap_auth \<Rightarrow> ap_auth \<Rightarrow> bool" where
  "ap_keeps a a' \<longleftrightarrow> aa_que a' = aa_que a \<and> aa_free a' = aa_free a \<and> aa_mode a' = aa_mode a \<and>
     ad_mac (aa_dev a') = ad_mac (aa_dev a) \<and> ad_sec (aa_dev a') = ad_sec (aa_dev a) \<and> auth_ok (aa_dev a') (aa_peer a')"

lemma ap_at_del: "ap_at a pc p Q \<Longrightarrow> ap_box (ap_del p a) (ap_freed a p Q)"
  by (auto simp: ap_at_def ap_freed_def intro: ap_del_box(1))

lemma first_fields:
  assumes "length (hdr :: bytes) = 22"
  shows "rd_le16 (le16_bytes fc @ hdr @ le16_bytes fa @ le16_bytes sq @ rest) 24 = Some fa"
    "rd_le16 (le16_bytes fc @ hdr @ le16_bytes fa @ le16_bytes sq @ rest) 26 = Some sq"
  using rd_le16_put [of 24 "le16_bytes fc @ hdr" fa] rd_le16_put [of 26 "le16_bytes fc @ hdr @ le16_bytes fa" sq] assms by simp_all

text \<open>Open authentication is refused when shared key is configured.\<close>

lemma ap_call_reject:
  assumes "env_ok env" "ap_at a Ap_begin p Q" "am_mgmt (aa_mem a) p = le16_bytes 0xB0 @ hdr @ le16_bytes 0 @ le16_bytes 1 @ rest" "length hdr = 22"
    "dot11AuthAlgrthm (ad_sec (aa_dev a)) = 1"
  obtains a1 where "wf_auth_ap_thrd env now a = Some (a1, PT_EXITED)" "ap_box a1 (ap_freed a p Q)" "ap_keeps a a1" "aa_state a1 = E_WDN_AP_STATE_AUTH"
    "ad_out (aa_dev a1) = ad_out (aa_dev a) @ [Frame_xmit (seq2_frame 13 ((aa_peer a)\<lparr>aw_algo := 1\<rparr>) (aa_dev a) [])]"
proof -
  note at = assms(2) [unfolded ap_at_def]
  let ?a1 = "a\<lparr>aa_state := E_WDN_AP_STATE_AUTH, aa_peer := (aa_peer a)\<lparr>aw_algo := 1\<rparr>\<rparr>"
  have d: "ap_del p ?a1 = (ap_del p a)\<lparr>aa_state := E_WDN_AP_STATE_AUTH, aa_peer := (aa_peer a)\<lparr>aw_algo := 1\<rparr>\<rparr>" by (simp add: ap_del_def)
  let ?a2 = "(ap_del p ?a1)\<lparr>aa_dev := auth_emit (Frame_xmit (seq2_frame 13 ((aa_peer a)\<lparr>aw_algo := 1\<rparr>) (aa_dev a) [])) (aa_dev a),
     aa_peer := (aa_peer a)\<lparr>aw_algo := 1, auth_seq := 2\<rparr>\<rparr>"
  have g: "wf_ap_msg_get (aa_que a) (aa_mem a) = Some p" using ap_next [of a Q] at by simp
  have "ap_step env now Ap_begin a = Some (?a2, Fin PT_EXITED 0)"
    using at g assms(5) ap_send_plain(1) [OF assms(1), of 13 "ap_del p ?a1"]
    by (simp add: ap_step_def ap_wait_seq1_def ap_first_def assms(3) first_fields [OF assms(4)] ap_algo_def status_error_def Let_def)
  then have "wf_auth_ap_thrd env now a = Some (?a2\<lparr>aa_pt := Ap_begin\<rparr>, PT_EXITED)"
    using at by (simp add: wf_auth_ap_thrd_def pt_run_Fin ap_return_def)
  then show thesis by (rule that) (use ap_at_del [OF assms(2)] at in \<open>simp_all add: d ap_box_sel ap_keeps_def auth_ok_def\<close>)
qed

text \<open>Open authentication is answered with success when it is configured.\<close>

lemma ap_call_open:
  assumes "env_ok env" "ap_at a Ap_begin p Q" "am_mgmt (aa_mem a) p = le16_bytes 0xB0 @ hdr @ le16_bytes 0 @ le16_bytes 1 @ rest" "length hdr = 22"
    "dot11AuthAlgrthm (ad_sec (aa_dev a)) = 0 \<or> dot11AuthAlgrthm (ad_sec (aa_dev a)) = 2"
  obtains a1 where "wf_auth_ap_thrd env now a = Some (a1, PT_YIELDED)" "ap_box a1 (ap_freed a p Q)" "ap_keeps a a1" "aa_pt a1 = Ap_open"
    "ad_out (aa_dev a1) = ad_out (aa_dev a) @ [Frame_xmit (seq2_frame 0 ((aa_peer a)\<lparr>aw_algo := 0\<rparr>) (aa_dev a) [])]"
proof -
  note at = assms(2) [unfolded ap_at_def]
  let ?a1 = "a\<lparr>aa_state := E_WDN_AP_STATE_AUTH, aa_peer := (aa_peer a)\<lparr>aw_algo := 0\<rparr>\<rparr>"
  have d: "ap_del p ?a1 = (ap_del p a)\<lparr>aa_state := E_WDN_AP_STATE_AUTH, aa_peer := (aa_peer a)\<lparr>aw_algo := 0\<rparr>\<rparr>" by (simp add: ap_del_def)
  let ?t = "wf_timer_set (au_msecs env) now 5000"
  let ?a2 = "(ap_del p ?a1)\<lparr>aa_timer := ?t, aa_dev := auth_emit (Frame_xmit (seq2_frame 0 ((aa_peer a)\<lparr>aw_algo := 0\<rparr>) (aa_dev a) [])) (aa_dev a),
     aa_peer := (aa_peer a)\<lparr>aw_algo := 0, auth_seq := 2\<rparr>\<rparr>"
  have g: "wf_ap_msg_get (aa_que a) (aa_mem a) = Some p" using ap_next [of a Q] at by simp
  have 1: "ap_step env now Ap_begin a = Some ((ap_del p ?a1)\<lparr>aa_timer := ?t\<rparr>, Goto Ap_send2)"
    using at g assms(5)
    by (auto simp: ap_step_def ap_wait_seq1_def ap_first_def assms(3) first_fields [OF assms(4)] ap_algo_def Let_def)
  have 2: "ap_step env now Ap_send2 ((ap_del p ?a1)\<lparr>aa_timer := ?t\<rparr>) = Some (?a2, Back Ap_open PT_YIELDED)"
    using ap_send_plain(1) [OF assms(1), of 0 "(ap_del p ?a1)\<lparr>aa_timer := ?t\<rparr>"] by (simp add: ap_step_def)
  have "wf_auth_ap_thrd env now a = Some (?a2\<lparr>aa_pt := Ap_open\<rparr>, PT_YIELDED)"
    using at by (simp add: wf_auth_ap_thrd_def pt_run_Goto [where step = "ap_step env now", OF 1] pt_run_Back [where step = "ap_step env now", OF 2] ap_return_def)
  then show thesis by (rule that) (use ap_at_del [OF assms(2)] at in \<open>simp_all add: d ap_box_sel ap_keeps_def auth_ok_def\<close>)
qed

lemma challenge_loop_total: "length c = 128 \<Longrightarrow> \<exists>c'. challenge_loop rand32 i c = Some c' \<and> length c' = 128"
proof (induction rand32 i c rule: challenge_loop.induct)
  case (1 rand32 i c)
  show ?case
  proof (cases "i < 32")
    case True
    then obtain c1 where c1: "wrn c (4 * i) (le32_bytes (rand32 i)) = Some c1" "length c1 = 128"
      using 1(2) by (auto simp: wrn_def)
    then show ?thesis using 1(1) [OF True, of c1] True by (simp add: challenge_loop.simps [of _ i c])
  qed (use 1(2) in \<open>simp add: challenge_loop.simps\<close>)
qed

text \<open>A request for shared key authentication is answered with a challenge.\<close>

lemma ap_call_challenge:
  assumes "env_ok env" "ap_at a Ap_begin p Q" "am_mgmt (aa_mem a) p = le16_bytes 0xB0 @ hdr @ le16_bytes 1 @ le16_bytes 1 @ rest" "length hdr = 22"
    "dot11AuthAlgrthm (ad_sec (aa_dev a)) = 1"
  obtains a1 c where "wf_auth_ap_thrd env now a = Some (a1, PT_YIELDED)" "ap_box a1 (ap_freed a p Q)" "ap_keeps a a1" "aa_pt a1 = Ap_wait3" "length c = 128"
    "generate_challenge_text (au_rand env) (chlg_txt (aa_peer a)) = Some c" "aa_peer a1 = (aa_peer a)\<lparr>aw_algo := 1, chlg_txt := c, auth_seq := 2\<rparr>"
    "aa_dev a1 = auth_emit (Frame_xmit (seq2_frame 0 ((aa_peer a)\<lparr>aw_algo := 1\<rparr>) (aa_dev a) ([16, 128] @ c))) (aa_dev a)"
proof -
  note at = assms(2) [unfolded ap_at_def]
  have "length (chlg_txt (aa_peer a)) = 128" using at by (simp add: auth_ok_def)
  then obtain c where c: "generate_challenge_text (au_rand env) (chlg_txt (aa_peer a)) = Some c" "length c = 128"
    using challenge_loop_total unfolding generate_challenge_text_def by blast
  let ?w = "(aa_peer a)\<lparr>aw_algo := 1, chlg_txt := c\<rparr>"
  let ?a1 = "a\<lparr>aa_state := E_WDN_AP_STATE_AUTH, aa_peer := (aa_peer a)\<lparr>aw_algo := 1\<rparr>\<rparr>"
  have d: "ap_del p ?a1 = (ap_del p a)\<lparr>aa_state := E_WDN_AP_STATE_AUTH, aa_peer := (aa_peer a)\<lparr>aw_algo := 1\<rparr>\<rparr>" by (simp add: ap_del_def)
  let ?a2 = "(ap_del p ?a1)\<lparr>aa_peer := ?w\<rparr>"
  let ?f = "seq2_frame 0 ((aa_peer a)\<lparr>aw_algo := 1\<rparr>) (aa_dev a) ([16, 128] @ c)"
  let ?a3 = "?a2\<lparr>aa_dev := auth_emit (Frame_xmit ?f) (aa_dev a), aa_peer := ?w\<lparr>auth_seq := 2\<rparr>\<rparr>"
  have s: "ap_send env 2 0 ?a2 = Some ?a3"
    using ap_send_plain(2) [OF assms(1), of ?a2] c(2) by (simp add: seq2_frame_def)
  have g: "wf_ap_msg_get (aa_que a) (aa_mem a) = Some p" using ap_next [of a Q] at by simp
  have "ap_step env now Ap_begin a = Some (?a3\<lparr>aa_timer := wf_timer_set (au_msecs env) now 5000\<rparr>, Back Ap_wait3 PT_YIELDED)"
    using at g assms(5) s c(1)
    by (simp add: ap_step_def ap_wait_seq1_def ap_first_def assms(3) first_fields [OF assms(4)] ap_algo_def Let_def)
  then have "wf_auth_ap_thrd env now a = Some (?a3\<lparr>aa_timer := wf_timer_set (au_msecs env) now 5000, aa_pt := Ap_wait3\<rparr>, PT_YIELDED)"
    using at by (simp add: wf_auth_ap_thrd_def pt_run_Back ap_return_def)
  then show thesis by (rule that) (use ap_at_del [OF assms(2)] c at in \<open>simp_all add: d ap_box_sel ap_keeps_def auth_ok_def\<close>)
qed

text \<open>Decryption of a frame with memory behind it.\<close>

lemma decrypt_auth_at:
  assumes "crc_ok g" "wep_keys_ok sec" "length hdr = 24" "length iv = 4" "length enc = length body + 4" "length enc < 2 ^ 15"
    "arc4_init (wep_key_of sec iv) (length (wep_key_of sec iv)) = Some ctx" "snd (arc4_encrypt ctx enc) = body @ le32_bytes (crc32_ref body)"
  shows "\<exists>g'. wf_wep_decrypt_auth g sec (hdr @ iv @ enc @ rest) (of_nat (28 + length enc)) =
     Some (g', hdr @ iv @ body @ le32_bytes (crc32_ref body) @ rest, 0) \<and> crc_ok g'"
proof -
  let ?n = "of_nat (28 + length enc) :: u16"
  have "unat ?n = 28 + length enc" using assms(6) by (intro unat_of_nat_u16) simp
  then have "(ucast ?n :: u32) = of_nat (28 + length enc)" by (simp only: ucast_of_nat_unat)
  then have pl: "ucast ?n - 28 - 4 = (of_nat (length body) :: u32)" using assms(5) by simp
  have u: "unat (of_nat (length body) :: u32) = length body" "unat (of_nat (length body) + 4 :: u32) = length enc" "unat (28 + of_nat (length body) :: u32) = 28 + length body"
    using assms(5,6) unat_of_nat_u32 [of "length body"] unat_of_nat_u32 [of "length body + 4"] unat_of_nat_u32 [of "28 + length body"] by simp_all
  have key: "wep_wepkey sec (hdr @ iv @ enc @ rest) 24 = Some (wep_key_of sec iv, length (wep_key_of sec iv))"
    using wep_wepkey_at [OF assms(2,4), of hdr "enc @ rest"] assms(3) by simp
  have dec: "arc4_encrypt_buf ctx (hdr @ iv @ enc @ rest) 28 (hdr @ iv @ enc @ rest) 28 (length enc) =
      Some (fst (arc4_encrypt ctx enc), hdr @ iv @ body @ le32_bytes (crc32_ref body) @ rest)"
    using arc4_encrypt_buf_self [of ctx "hdr @ iv" enc rest] assms(3,4,8) by simp
  have crc: "get_crc32_buf g (hdr @ iv @ body @ le32_bytes (crc32_ref body) @ rest) 28 (of_nat (length body)) = Some (fst (get_crc32 g body), crc32_ref body)"
    using get_crc32_buf_mid [OF assms(1), of body "hdr @ iv" "le32_bytes (crc32_ref body) @ rest"] assms(3-6) by simp
  have icv: "rdn (hdr @ iv @ body @ le32_bytes (crc32_ref body) @ rest) (28 + length body) 4 = Some (le32_bytes (crc32_ref body))"
    using rdn_append_mid [of "hdr @ iv @ body" "le32_bytes (crc32_ref body)" rest] assms(3,4) by simp
  show ?thesis unfolding wf_wep_decrypt_auth_def Let_def pl
    using key assms(7) dec crc icv u get_crc32_ok [OF assms(1)] by simp
qed

lemma third_fields:
  assumes "length (hdr :: bytes) = 24" "length (iv :: bytes) = 4" "length c = 128"
  shows "rd_le16 (hdr @ iv @ seq3_body c @ rest) 28 = Some 1" "rd_le16 (hdr @ iv @ seq3_body c @ rest) 30 = Some 3"
    "rdn (hdr @ iv @ seq3_body c @ rest) 36 128 = Some c"
proof -
  let ?t = "le16_bytes 0 @ [16, 128] @ c @ rest"
  have e: "hdr @ iv @ seq3_body c @ rest = (hdr @ iv) @ le16_bytes 1 @ le16_bytes 3 @ ?t" by (simp add: seq3_body_def)
  show "rd_le16 (hdr @ iv @ seq3_body c @ rest) 28 = Some 1"
    unfolding e using rd_le16_put [of 28 "hdr @ iv" 1 "le16_bytes 3 @ ?t"] assms by simp
  show "rd_le16 (hdr @ iv @ seq3_body c @ rest) 30 = Some 3"
    unfolding e using rd_le16_put [of 30 "(hdr @ iv) @ le16_bytes 1" 3 ?t] assms by simp
  show "rdn (hdr @ iv @ seq3_body c @ rest) 36 128 = Some c"
    using rdn_append_mid [of "hdr @ iv @ le16_bytes 1 @ le16_bytes 3 @ le16_bytes 0 @ [16, 128]" c rest] assms by (simp add: seq3_body_def)
qed

lemma length_seq3_frame: "auth_ok d w \<Longrightarrow> length (seq3_frame ctx w d) = 168"
  using length_auth_hdr [of d w "0x40B0"] by (simp add: seq3_frame_def seq3_iv_def seq3_body_def arc4_encrypt_length auth_ok_def)

text \<open>The answer of a station with the same keys to the challenge is accepted; the message stays in the queue.\<close>

lemma ap_call_verify:
  assumes "env_ok env" "ap_at a Ap_wait3 p Q" "am_mgmt (aa_mem a) p = seq3_frame ctx w d @ rest" "am_len (aa_mem a) p = 168"
    "auth_ok d w" "seq3_ctx w d ctx" "\<And>iv. wep_key_of (ad_sec (aa_dev a)) iv = wep_key_of (ad_sec d) iv"
    "chlg_txt (aa_peer a) = chlg_txt w" "aw_algo (aa_peer a) = 1"
  obtains a1 where "wf_auth_ap_thrd env now a = Some (a1, PT_YIELDED)" "ap_at a1 Ap_wait4 p Q"
    "ad_out (aa_dev a1) = ad_out (aa_dev a) @ [Frame_xmit (plain_frame 1 4 (aa_peer a) (aa_dev a))]" "ap_keeps a a1"
    "aa_peer a1 = (aa_peer a)\<lparr>auth_seq := 4\<rparr>"
proof -
  note at = assms(2) [unfolded ap_at_def]
  let ?h = "auth_hdr 0x40B0 w (aw_bssid w) d" and ?iv = "seq3_iv w d" and ?b = "seq3_body (chlg_txt w)"
  define icv where "icv = le32_bytes (crc32_ref ?b)"
  define mg where "mg = ?h @ ?iv @ ?b @ icv @ rest"
  define enc where "enc = snd (arc4_encrypt ctx (?b @ icv))"
  have f: "am_mgmt (aa_mem a) p = ?h @ ?iv @ enc @ rest" using assms(3) by (simp add: seq3_frame_def enc_def icv_def)
  have lens: "length ?h = 24" "length ?iv = 4" "length (chlg_txt w) = 128" "length ?b = 136" "length enc = 140" "length icv = 4"
    using length_auth_hdr [OF assms(5)] assms(5) by (simp_all add: seq3_iv_def seq3_body_def auth_ok_def enc_def icv_def arc4_encrypt_length)
  have len: "am_len (aa_mem a) p = of_nat (28 + length enc)" using assms(4) lens(5) by simp
  obtain g' where g': "wf_wep_decrypt_auth (ad_crc (aa_dev a)) (ad_sec (aa_dev a)) (am_mgmt (aa_mem a) p) (am_len (aa_mem a) p) = Some (g', mg, 0)" "crc_ok g'"
    using decrypt_auth_at [of "ad_crc (aa_dev a)" "ad_sec (aa_dev a)" ?h ?iv enc ?b ctx rest] at lens assms(6,7) arc4.enc_twice [of ctx "?b @ icv"]
    unfolding f len mg_def by (auto simp: auth_ok_def seq3_ctx_def enc_def icv_def)
  have fc: "rd_le16 (am_mgmt (aa_mem a) p) 0 = Some 0x40B0"
    unfolding f using rd_le16_put [of 0 "[]" "0x40B0"] by (simp add: auth_hdr_def)
  let ?a1 = "a\<lparr>aa_dev := (aa_dev a)\<lparr>ad_crc := g'\<rparr>, aa_mem := (aa_mem a)\<lparr>am_mgmt := (am_mgmt (aa_mem a))(p := mg)\<rparr>\<rparr>"
  let ?a2 = "?a1\<lparr>aa_timer := wf_timer_set (au_msecs env) now 5000\<rparr>"
  let ?a3 = "?a2\<lparr>aa_dev := auth_emit (Frame_xmit (plain_frame 1 4 (aa_peer a) (aa_dev a))) ((aa_dev a)\<lparr>ad_crc := g'\<rparr>), aa_peer := (aa_peer a)\<lparr>auth_seq := 4\<rparr>\<rparr>"
  have g: "wf_ap_msg_get (aa_que a) (aa_mem a) = Some p" using ap_next [of a Q] at by simp
  have 1: "ap_step env now Ap_wait3 a = Some (?a2, Goto Ap_send4)"
    using at g fc g'(1) third_fields [OF lens(1-3), of "icv @ rest"] assms(8,9)
    by (simp add: ap_step_def ap_wait_seq3_def ap_third_def Let_def mg_def)
  have 2: "ap_step env now Ap_send4 ?a2 = Some (?a3, Back Ap_wait4 PT_YIELDED)"
    using ap_send_plain(3) [OF assms(1), of ?a2] assms(9) by (simp add: ap_step_def plain_frame_def auth_hdr_def)
  have run: "wf_auth_ap_thrd env now a = Some (?a3\<lparr>aa_pt := Ap_wait4\<rparr>, PT_YIELDED)"
    using at by (simp add: wf_auth_ap_thrd_def pt_run_Goto [where step = "ap_step env now", OF 1] pt_run_Back [where step = "ap_step env now", OF 2] ap_return_def)
  have l: "length mg = 180" using at lens f by (simp add: mg_def)
  have b: "pool_ok wf_que_rep (aa_mem ?a1) (ap_heads a) Q" using at by (simp add: ap_box_def pool_ok_def)
  show thesis
    by (rule that [OF run]) (use at g'(2) l b in \<open>auto simp: ap_at_def ap_box_def ap_heads_def auth_ok_def ap_keeps_def\<close>)
qed

text \<open>In the next call the same message is taken for a duplicate: it is freed and the last frame sent again.\<close>

lemma ap_call_again:
  assumes "env_ok env" "ap_at a Ap_wait4 p Q"
  obtains a1 where "wf_auth_ap_thrd env now a = Some (a1, PT_YIELDED)" "ap_box a1 (ap_freed a p Q)" "ap_keeps a a1" "aa_pt a1 = Ap_wait4"
    "ad_out (aa_dev a1) = ad_out (aa_dev a) @ [Frame_xmit (plain_frame (aw_algo (aa_peer a)) 4 (aa_peer a) (aa_dev a))]"
proof -
  note at = assms(2) [unfolded ap_at_def]
  let ?a1 = "(ap_del p a)\<lparr>aa_dev := auth_emit (Frame_xmit (plain_frame (aw_algo (aa_peer a)) 4 (aa_peer a) (aa_dev a))) (aa_dev a), aa_peer := (aa_peer a)\<lparr>auth_seq := 4\<rparr>\<rparr>"
  have g: "wf_ap_msg_get (aa_que a) (aa_mem a) = Some p" using ap_next [of a Q] at by simp
  have 1: "ap_step env now Ap_wait4 a = Some (ap_del p a, Goto Ap_send4)" using at g by (simp add: ap_step_def ap_wait_end_def)
  have 2: "ap_step env now Ap_send4 (ap_del p a) = Some (?a1, Back Ap_wait4 PT_YIELDED)"
    using ap_send_plain(3) [OF assms(1), of "ap_del p a"] by (simp add: ap_step_def)
  have "wf_auth_ap_thrd env now a = Some (?a1\<lparr>aa_pt := Ap_wait4\<rparr>, PT_YIELDED)"
    using at by (simp add: wf_auth_ap_thrd_def pt_run_Goto [where step = "ap_step env now", OF 1] pt_run_Back [where step = "ap_step env now", OF 2] ap_return_def)
  then show thesis by (rule that) (use ap_at_del [OF assms(2)] at in \<open>simp_all add: ap_box_sel ap_keeps_def auth_ok_def\<close>)
qed

end
