(* ===== verification/Auth_Air.thy ===== *)
theory Auth_Air
  imports Auth_Run
begin

text \<open>
  A station and an access point in radio contact. Every frame that one side sends is handed to the
  reception of the other; the threads of both sides are called in turns. The access point starts without a peer:
  the first frame makes it add one, and a thread that has exited is followed by the clean-up of \<open>ap_thrd\<close>
  (\<open>src/trunk_driver/nic/ap.c\<close>), which removes the peer.
\<close>

section \<open>The two sides\<close>

text \<open>The frames sent between two states of a device.\<close>

definition sent :: "auth_dev \<Rightarrow> auth_dev \<Rightarrow> bytes list" where
  "sent d d' = List.map_filter (\<lambda>e. case e of Frame_xmit f \<Rightarrow> Some f | _ \<Rightarrow> None) (drop (length (ad_out d)) (ad_out d'))"

text \<open>An access point with at most one peer; the flag says whether the table has it.\<close>

type_synonym ap_side = "ap_auth \<times> bool"

text \<open>The peer that \<open>wf_wdn_add\<close> gives: cleared, with its address.\<close>

definition wdn_added :: "bytes \<Rightarrow> ap_auth \<Rightarrow> ap_auth" where
  "wdn_added mac a = a\<lparr>aa_peer := \<lparr>aw_mac = mac, aw_bssid = replicate 6 0, auth_seq = 0, aw_algo = 0, aw_iv = 0, aw_key_index = 0,
       chlg_txt = replicate 128 0\<rparr>, aa_state := E_WDN_AP_STATE_AUTH, aa_aid := 0, aa_rx_pkt_stat := 0, aa_blocked := False\<rparr>"

definition ap_hear :: "bytes \<Rightarrow> ap_side \<Rightarrow> ap_side option" where
  "ap_hear f x = do {
     ta \<leftarrow> rdn f 10 6;
     (pw, r) \<leftarrow> auth_ap_recv (if snd x then Some (fst x) else None) (Some (wdn_added ta (fst x))) f (of_nat (length f));
     Some (case pw of None \<Rightarrow> x | Some a \<Rightarrow> (a, True))
   }"

definition sta_hear :: "bytes \<Rightarrow> sta_auth \<Rightarrow> sta_auth option" where
  "sta_hear f s = map_option fst (auth_sta_recv True (sa_peer s) (Some f) (of_nat (length f)) s)"

text \<open>\<open>clearup\<close> up to the removal of the peer: the indications for a peer that had got beyond association, and its messages. What follows, the
  status of the access point, is in \<open>Ap_Thrd\<close>.\<close>

definition clearup :: "ap_auth \<Rightarrow> ap_auth option" where
  "clearup a = do {
     let a1 = (if aa_state a = E_WDN_AP_STATE_AUTH \<or> aa_state a = E_WDN_AP_STATE_ASSOC then a
               else a\<lparr>aa_dev := auth_emit Ap_odm_disconnect (auth_emit Ap_ind_disassoc (aa_dev a))\<rparr>);
     m \<leftarrow> ap_msg_que_clearup (aa_free a1) (aa_que a1) (aa_mem a1);
     Some (a1\<lparr>aa_mem := m\<rparr>)
   }"

text \<open>A call of \<open>ap_thrd\<close> while its peer authenticates.\<close>

definition ap_serve :: "auth_env \<Rightarrow> u32 \<Rightarrow> ap_side \<Rightarrow> ap_side option" where
  "ap_serve env now x =
     (if \<not> snd x then Some x
      else do {
        (a, thrd_ret) \<leftarrow> wf_auth_ap_thrd env now (fst x);
        if thrd_ret = PT_EXITED then do {
          a' \<leftarrow> clearup a;
          Some (a', False)
        }
        else Some (a, True)
      })"

fun deliver :: "('f \<Rightarrow> 's \<Rightarrow> 's option) \<Rightarrow> 'f list \<Rightarrow> 's \<Rightarrow> 's option" where
  "deliver hear [] s = Some s"
| "deliver hear (f # fs) s = Option.bind (hear f s) (deliver hear fs)"

text \<open>Both sides take turns until the thread of the station ends with a reason.\<close>

fun air :: "auth_env \<Rightarrow> u32 list \<Rightarrow> sta_auth \<Rightarrow> ap_side \<Rightarrow> (sta_auth \<times> ap_side \<times> int option) option" where
  "air env [] s x = Some (s, x, None)"
| "air env (now # ticks) s x = do {
     (s1, r, rsn) \<leftarrow> wf_auth_sta_thrd env now s;
     x1 \<leftarrow> deliver ap_hear (sent (sa_dev s) (sa_dev s1)) x;
     (case rsn of
        Some e \<Rightarrow> Some (s1, x1, Some e)
      | None \<Rightarrow> do {
          x2 \<leftarrow> ap_serve env now x1;
          s2 \<leftarrow> deliver sta_hear (sent (aa_dev (fst x1)) (aa_dev (fst x2))) s1;
          air env ticks s2 x2
        })
   }"

lemma sent_one: "ad_out d' = ad_out d @ [Frame_xmit f] \<Longrightarrow> sent d d' = [f]"
  by (simp add: sent_def List.map_filter_def)

lemma sent_none: "ad_out d' = ad_out d \<Longrightarrow> sent d d' = []"
  by (simp add: sent_def List.map_filter_def)

section \<open>Reception\<close>

text \<open>An access point without pending frames, and with a free message for a frame.\<close>

definition ap_idle :: "ap_auth \<Rightarrow> bool" where
  "ap_idle a \<longleftrightarrow> (\<exists>Q. ap_box a Q \<and> Q (aa_que a) = [] \<and> Q (aa_free a WF_AP_MSG_TAG_AUTH_FRAME) \<noteq> [])"

lemma ap_idle_freed:
  assumes "ap_box a' (ap_freed a p Q)" "aa_que a' = aa_que a" "aa_free a' = aa_free a"
  shows "ap_idle a'"
proof -
  have "aa_que a \<noteq> aa_free a WF_AP_MSG_TAG_AUTH_FRAME" using assms by (auto simp: ap_box_def)
  then show ?thesis using assms by (auto simp: ap_idle_def ap_freed_def intro!: exI [of _ "ap_freed a p Q"])
qed

lemma ap_idle_clear:
  assumes "ap_idle a" "aa_state a = E_WDN_AP_STATE_AUTH"
  shows "clearup a = Some a"
proof -
  have "ap_msg_que_clearup (aa_free a) (aa_que a) (aa_mem a) = Some (aa_mem a)"
    using assms by (subst ap_msg_que_clearup.simps) (auto simp: ap_idle_def ap_next)
  then show ?thesis using assms(2) by (simp add: clearup_def)
qed

lemma que_init_empty: "wf_que_rep m q [] \<Longrightarrow> wf_que_init q m = m"
  by (simp add: wf_que_rep_def dll_def wf_que_init_def wf_list_init_def Let_def fun_upd_idem)

lemma ap_idle_new:
  assumes "ap_idle a"
  shows "ap_idle (wdn_info_update (wdn_added mac a))"
proof -
  obtain Q where Q: "ap_box a Q" "Q (aa_que a) = []" "Q (aa_free a WF_AP_MSG_TAG_AUTH_FRAME) \<noteq> []" using assms by (auto simp: ap_idle_def)
  have "wf_que_rep (aa_mem a) (aa_que a) []" using Q(1,2) pool_rep [of wf_que_rep "aa_mem a" "ap_heads a" Q "aa_que a"] by (auto simp: ap_box_def ap_heads_def)
  then have "ap_box (wdn_info_update (wdn_added mac a)) Q"
    using Q(1) by (simp add: wdn_info_update_def wdn_added_def que_init_empty ap_box_def ap_heads_def)
  then show ?thesis using Q(2,3) by (auto simp: ap_idle_def wdn_info_update_def wdn_added_def)
qed

lemma ap_hear_new:
  assumes "rdn f 10 6 = Some ta" "length f \<le> 180" "rd_le16 f 0 = Some fc" "fc AND 0xFC = 0xB0"
  shows "ap_hear f (a, False) = ap_hear f (wdn_info_update (wdn_added ta a), True)"
proof -
  have "unat (of_nat (length f) :: u16) = length f" using assms(2) by (intro unat_of_nat_u16) simp
  then show ?thesis using assms
    by (auto simp: ap_hear_def auth_ap_recv_def wdn_info_update_def wdn_added_def split: Option.bind_splits)
qed

lemma ap_hear_idle:
  assumes "ap_idle a" "aa_mode a = WF_MASTER_MODE" "auth_ok (aa_dev a) (aa_peer a)" "rdn f 10 6 = Some ta"
    "length f \<le> 180" "rd_le16 f 0 = Some fc" "fc AND 0xFC = 0xB0"
  obtains m p Q rest where "ap_hear f (a, True) = Some (a\<lparr>aa_mem := m\<rparr>, True)" "ap_at (a\<lparr>aa_mem := m\<rparr>) (aa_pt a) p Q"
    "am_len m p = of_nat (length f)" "am_mgmt m p = f @ rest"
proof -
  obtain Q p fs where Q: "ap_box a Q" "Q (aa_que a) = []" "Q (aa_free a WF_AP_MSG_TAG_AUTH_FRAME) = p # fs"
    using assms(1) by (auto simp: ap_idle_def neq_Nil_conv)
  obtain m rest where m: "auth_ap_recv (Some a) (Some (wdn_added ta a)) f (of_nat (length f)) = Some (Some (a\<lparr>aa_mem := m\<rparr>), 0)"
    "ap_box (a\<lparr>aa_mem := m\<rparr>) (Q(aa_free a WF_AP_MSG_TAG_AUTH_FRAME := fs, aa_que a := Q (aa_que a) @ [p]))"
    "am_tag m p = WF_AP_MSG_TAG_AUTH_FRAME" "am_len m p = of_nat (length f)" "am_mgmt m p = f @ rest" "length (f @ rest) = 180"
    by (rule ap_recv [OF Q(1,3) assms(5,2,6,7)])
  have "ap_hear f (a, True) = Some (a\<lparr>aa_mem := m\<rparr>, True)" using m(1) assms(4) by (simp add: ap_hear_def)
  moreover have "ap_at (a\<lparr>aa_mem := m\<rparr>) (aa_pt a) p (Q(aa_free a WF_AP_MSG_TAG_AUTH_FRAME := fs, aa_que a := Q (aa_que a) @ [p]))"
    using m(2,3,5,6) Q(2) assms(2,3) by (simp add: ap_at_def)
  ultimately show thesis by (rule that [OF _ _ m(4,5)])
qed

text \<open>A station that waits and has a message for the answer.\<close>

definition sta_waits :: "sta_auth \<Rightarrow> sta_pc \<Rightarrow> auth_peer \<Rightarrow> ptr set \<Rightarrow> bool" where
  "sta_waits s pc w H \<longleftrightarrow> (\<exists>fs. sta_at s pc w fs H \<and> (\<exists>q\<in>set fs. tag (sa_mem s) q = WF_AUTH_TAG_RSP))"

lemma sta_hear_waits:
  assumes "sta_waits s pc w H" "f = le16_bytes 0xB0 @ hdr @ le16_bytes algo @ le16_bytes sq @ le16_bytes st @ var" "length hdr = 22"
    "length f \<le> 180" "take 6 (drop 2 hdr) = ad_mac (sa_dev s)" "aw_bssid w = ad_bssid (sa_dev s)"
  obtains s' p fs rest where "sta_hear f s = Some s'" "sta_rsp s' pc w p fs H sq st" "sa_dev s' = sa_dev s" "retry_cnt s' = retry_cnt s"
    "tag (sa_mem s') = tag (sa_mem s)" "sa_que s' = sa_que s" "msg_value (sa_mem s') p = f @ rest" "msg_len (sa_mem s') p = of_nat (length f)"
proof -
  obtain fs q where fs: "sta_at s pc w fs H" "q \<in> set fs" "tag (sa_mem s) q = WF_AUTH_TAG_RSP" using assms(1) by (auto simp: sta_waits_def)
  have l: "10 \<le> length f" "take 6 (drop 4 f) = ad_mac (sa_dev s)" using assms(2,3,5) by (simp_all add: le16_bytes_def numeral_eq_Suc)
  obtain m p fs1 rest where m: "auth_sta_recv True (Some w) (Some f) (of_nat (length f)) s = Some (s\<lparr>sa_mem := m\<rparr>, 0)"
    "sta_box (s\<lparr>sa_mem := m\<rparr>) [p] fs1 H" "set fs = insert p (set fs1)" "tag m = tag (sa_mem s)" "tag m p = WF_AUTH_TAG_RSP"
    "msg_value m p = f @ rest" "msg_len m p = of_nat (length f)"
    by (rule sta_recv [OF fs l(1) assms(4) l(2) assms(6)])
  have "auth_fields (msg_value m p) = Some (0, sq, st)"
    unfolding m(6) assms(2) using auth_fields_frame [OF assms(3), of algo sq st "var @ rest"] by simp
  then have r: "sta_rsp (s\<lparr>sa_mem := m\<rparr>) pc w p fs1 H sq st" using fs(1) m(2,5) by (simp add: sta_rsp_def sta_at_def)
  have "sta_hear f s = Some (s\<lparr>sa_mem := m\<rparr>)" using m(1) fs(1) by (simp add: sta_hear_def sta_at_def)
  from that [OF this r] m(4,6,7) show thesis by simp
qed

lemma sta_waits_after:
  assumes "sta_rsp s pc w p fs H sq st" "sta_at s1 pc1 w1 (fs @ [p]) H" "sta_keeps s s1"
  shows "sta_waits s1 pc1 w1 H"
  using assms by (auto simp: sta_waits_def sta_rsp_def sta_keeps_def intro!: exI [of _ "fs @ [p]"])

section \<open>Rounds\<close>

definition ap_ready :: "ap_auth \<Rightarrow> bool" where
  "ap_ready a \<longleftrightarrow> ap_idle a \<and> length (ad_mac (aa_dev a)) = 6 \<and> wep_keys_ok (ad_sec (aa_dev a)) \<and> crc_ok (ad_crc (aa_dev a))"

definition sta_begins :: "sta_auth \<Rightarrow> auth_peer \<Rightarrow> ptr set \<Rightarrow> bool" where
  "sta_begins s w H \<longleftrightarrow> sa_pt s = Sta_begin \<and> \<not> sa_lock s \<and> sa_peer s = Some w \<and> auth_ok (sa_dev s) w \<and> aw_bssid w = ad_bssid (sa_dev s) \<and>
     (\<exists>p fs. sta_box s [p] fs H \<and> tag (sa_mem s) p = WF_AUTH_TAG_START \<and> (\<exists>q\<in>set fs. tag (sa_mem s) q = WF_AUTH_TAG_RSP))"

text \<open>The peer that the access point \<open>a\<close> adds for the station with address \<open>mac\<close>.\<close>

definition new_peer :: "bytes \<Rightarrow> ap_auth \<Rightarrow> auth_peer" where
  "new_peer mac a = aa_peer (wdn_info_update (wdn_added mac a))"

lemma new_peer_sel [simp]:
  "aw_mac (new_peer mac a) = mac" "aw_bssid (new_peer mac a) = ad_mac (aa_dev a)" "length (chlg_txt (new_peer mac a)) = 128"
  by (simp_all add: new_peer_def wdn_info_update_def wdn_added_def)

lemma ap_hear_request:
  assumes "ap_ready a" "auth_ok d w"
  obtains a' p Q hdr rest where "ap_hear (plain_frame algo 1 w d) (a, False) = Some (a', True)" "ap_at a' Ap_begin p Q" "length hdr = 22"
    "am_mgmt (aa_mem a') p = le16_bytes 0xB0 @ hdr @ le16_bytes (ucast algo) @ le16_bytes 1 @ rest" "aa_dev a' = aa_dev a" "aa_peer a' = new_peer (ad_mac d) a"
proof -
  let ?f = "plain_frame algo 1 w d" and ?a = "wdn_info_update (wdn_added (ad_mac d) a)" and ?h = "[0, 0] @ aw_mac w @ ad_mac d @ aw_bssid w @ [0, 0]"
  have lens: "length (aw_mac w) = 6" "length (ad_mac d) = 6" "length (aw_bssid w) = 6" using assms(2) by (simp_all add: auth_ok_def)
  have f: "?f = le16_bytes 0xB0 @ ?h @ le16_bytes (ucast algo) @ le16_bytes 1 @ le16_bytes 0" by (simp add: plain_frame_def auth_hdr_def)
  have ta: "rdn ?f 10 6 = Some (ad_mac d)"
    using rdn_append_mid [of "le16_bytes 0xB0 @ [0, 0] @ aw_mac w" "ad_mac d"] lens by (simp add: plain_frame_def auth_hdr_def)
  have fc: "rd_le16 ?f 0 = Some 0xB0" unfolding f using rd_le16_put [of 0 "[]" "0xB0"] by simp
  have fl: "length ?f \<le> 180" using lens by (simp add: f)
  have a: "ap_idle ?a" "aa_mode ?a = WF_MASTER_MODE" "auth_ok (aa_dev ?a) (aa_peer ?a)" "aa_dev ?a = aa_dev a" "aa_pt ?a = Ap_begin"
    using assms(1) lens ap_idle_new [of a "ad_mac d"] by (simp_all add: ap_ready_def wdn_info_update_def wdn_added_def auth_ok_def)
  obtain m p Q rest where m: "ap_hear ?f (?a, True) = Some (?a\<lparr>aa_mem := m\<rparr>, True)" "ap_at (?a\<lparr>aa_mem := m\<rparr>) (aa_pt ?a) p Q"
    "am_len m p = of_nat (length ?f)" "am_mgmt m p = ?f @ rest"
    by (rule ap_hear_idle [OF a(1-3) ta fl fc]) simp
  have "ap_hear ?f (a, False) = Some (?a\<lparr>aa_mem := m\<rparr>, True)" using ap_hear_new [OF ta fl fc] m(1) by simp
  then show thesis by (rule that [where hdr = ?h and rest = "le16_bytes 0 @ rest"]) (use m a f lens in \<open>simp_all add: new_peer_def\<close>)
qed

lemma sta_hear_answer:
  assumes "sta_waits s pc w H" "auth_ok d v" "aw_mac v = ad_mac (sa_dev s)" "aw_bssid w = ad_bssid (sa_dev s)" "length chlg \<le> 150"
    "f = auth_hdr 0xB0 v (aw_bssid v) d @ le16_bytes algo @ le16_bytes sq @ le16_bytes st @ chlg"
  obtains s' p fs rest where "sta_hear f s = Some s'" "sta_rsp s' pc w p fs H sq st" "sa_dev s' = sa_dev s" "retry_cnt s' = retry_cnt s"
    "tag (sa_mem s') = tag (sa_mem s)" "sa_que s' = sa_que s" "msg_value (sa_mem s') p = f @ rest" "msg_len (sa_mem s') p = of_nat (length f)"
proof -
  have lens: "length (aw_mac v) = 6" "length (ad_mac d) = 6" "length (aw_bssid v) = 6" using assms(2) by (simp_all add: auth_ok_def)
  show thesis
    by (rule sta_hear_waits [OF assms(1), of f "[0, 0] @ aw_mac v @ ad_mac d @ aw_bssid v @ [0, 0]" algo sq st chlg])
      (use that assms lens in \<open>simp_all add: auth_hdr_def\<close>)
qed

lemma begin_round:
  assumes "env_ok env" "sta_begins s w H" "ap_ready a"
  obtains s1 a1 p Q hdr rest where "wf_auth_sta_thrd env now s = Some (s1, PT_WAITING, None)"
    "sta_waits s1 Sta_wait2 (w\<lparr>auth_seq := 1, aw_algo := 0\<rparr>) H" "sta_keeps s s1" "retry_cnt s1 = 0"
    "sent (sa_dev s) (sa_dev s1) = [plain_frame 0 1 w (sa_dev s)]"
    "deliver ap_hear (sent (sa_dev s) (sa_dev s1)) (a, False) = Some (a1, True)" "ap_at a1 Ap_begin p Q" "length hdr = 22"
    "am_mgmt (aa_mem a1) p = le16_bytes 0xB0 @ hdr @ le16_bytes 0 @ le16_bytes 1 @ rest" "aa_dev a1 = aa_dev a" "aa_peer a1 = new_peer (ad_mac (sa_dev s)) a"
proof -
  obtain p fs q where b: "sta_box s [p] fs H" "tag (sa_mem s) p = WF_AUTH_TAG_START" "q \<in> set fs" "tag (sa_mem s) q = WF_AUTH_TAG_RSP"
    using assms(2) by (auto simp: sta_begins_def)
  have s: "sa_pt s = Sta_begin" "\<not> sa_lock s" "sa_peer s = Some w" "auth_ok (sa_dev s) w" using assms(2) by (simp_all add: sta_begins_def)
  let ?w = "w\<lparr>auth_seq := 1, aw_algo := 0\<rparr>"
  obtain s1 where s1: "wf_auth_sta_thrd env now s = Some (s1, PT_WAITING, None)" "sta_at s1 Sta_wait2 ?w (fs @ [p]) H" "sta_keeps s s1" "retry_cnt s1 = 0"
    "ad_out (sa_dev s1) = ad_out (sa_dev s) @ [Mcu_set_bssid (ad_bssid (sa_dev s)), Mcu_set_mlme_join 0, Mcu_set_media_status 2, Frame_xmit (plain_frame 0 1 ?w (sa_dev s))]"
    by (rule sta_call_start [OF assms(1) s b(1,2)])
  have snt: "sent (sa_dev s) (sa_dev s1) = [plain_frame 0 1 w (sa_dev s)]" by (simp add: sent_def List.map_filter_def s1(5) plain_frame_def)
  obtain a1 p' Q hdr rest where a1: "ap_hear (plain_frame 0 1 w (sa_dev s)) (a, False) = Some (a1, True)" "ap_at a1 Ap_begin p' Q" "length hdr = 22"
    "am_mgmt (aa_mem a1) p' = le16_bytes 0xB0 @ hdr @ le16_bytes (ucast (0 :: u32)) @ le16_bytes 1 @ rest" "aa_dev a1 = aa_dev a" "aa_peer a1 = new_peer (ad_mac (sa_dev s)) a"
    by (rule ap_hear_request [OF assms(3) s(4)])
  have "sta_waits s1 Sta_wait2 ?w H" using s1(2,3) b(3,4) by (auto simp: sta_waits_def sta_keeps_def intro!: exI [of _ "fs @ [p]"])
  then show thesis using that [OF s1(1) _ s1(3,4) snt _ a1(2,3)] a1 snt by simp
qed

text \<open>The thread of the access point exits: the peer is removed, and the access point is ready for another.\<close>

lemma serve_exit:
  assumes "ap_at a pc p Q" "wf_auth_ap_thrd env now a = Some (a1, PT_EXITED)" "ap_box a1 (ap_freed a p Q)" "ap_keeps a a1"
    "aa_state a1 = E_WDN_AP_STATE_AUTH"
  shows "ap_serve env now (a, True) = Some (a1, False)" "ap_ready a1"
proof -
  have "ap_idle a1" using assms(3,4) by (intro ap_idle_freed) (auto simp: ap_keeps_def)
  moreover have "auth_ok (aa_dev a1) (aa_peer a1)" using assms(4) by (simp add: ap_keeps_def)
  ultimately show "ap_serve env now (a, True) = Some (a1, False)" "ap_ready a1"
    using assms(2,5) ap_idle_clear [of a1] by (simp_all add: ap_serve_def ap_ready_def auth_ok_def)
qed

lemma serve_goes_on: "wf_auth_ap_thrd env now a = Some (a1, PT_YIELDED) \<Longrightarrow> ap_serve env now (a, True) = Some (a1, True)"
  by (simp add: ap_serve_def)

section \<open>A sample access point\<close>

definition ap_free_ex :: "wf_ap_msg_tag \<Rightarrow> ptr" where
  "ap_free_ex tg = (case tg of WF_AP_MSG_TAG_AUTH_FRAME \<Rightarrow> 2 | WF_AP_MSG_TAG_DEAUTH_FRAME \<Rightarrow> 3 | WF_AP_MSG_TAG_ASSOC_REQ_FRAME \<Rightarrow> 4 |
     WF_AP_MSG_TAG_DISASSOC_FRAME \<Rightarrow> 5 | WF_AP_MSG_TAG_BA_REQ_FRAME \<Rightarrow> 6 | WF_AP_MSG_TAG_BEACON_FRAME \<Rightarrow> 7)"

definition ap_mem_ex :: ap_mem where
  "ap_mem_ex = \<lparr>pnext = (\<lambda>q. q)(2 := 20, 20 := 2), prev = (\<lambda>q. q)(2 := 20, 20 := 2), cnt = (\<lambda>_. 0)(2 := 1),
     am_tag = (\<lambda>_. WF_AP_MSG_TAG_AUTH_FRAME), am_len = (\<lambda>_. 0), am_mgmt = (\<lambda>_. replicate 180 0)\<rparr>"

definition ap_ex :: "sec_info \<Rightarrow> ap_auth" where
  "ap_ex sec = \<lparr>aa_dev = auth_dev_ex [2, 0, 0, 0, 0, 1] sec, aa_peer = auth_peer_ex, aa_wdn_id = 0, aa_state = E_WDN_AP_STATE_AUTH, aa_mode = WF_MASTER_MODE,
     aa_aid = 0, aa_rx_pkt_stat = 0, aa_blocked = False, aa_que = 1, aa_free = ap_free_ex, aa_mem = ap_mem_ex, aa_pt = Ap_begin,
     aa_timer = \<lparr>tm_start = 0, tm_expire = 0, tm_interval = 0\<rparr>\<rparr>"

lemma ap_ex_ready: "wep_keys_ok sec \<Longrightarrow> ap_ready (ap_ex sec)"
proof -
  let ?Q = "(\<lambda>_. [])(2 := [20]) :: ptr \<Rightarrow> ptr list"
  have f: "range ap_free_ex \<subseteq> {2, 3, 4, 5, 6, 7}" by (auto simp: ap_free_ex_def split: wf_ap_msg_tag.splits)
  have r: "\<forall>q\<in>{1, 2, 3, 4, 5, 6, 7}. wf_que_rep ap_mem_ex q (?Q q)" by (simp add: wf_que_rep_def dll_def ap_mem_ex_def)
  have d: "\<forall>q\<in>{1, 2, 3, 4, 5, 6, 7}. \<forall>q'\<in>{1, 2, 3, 4, 5, 6, 7}. q \<noteq> q' \<longrightarrow> insert q (set (?Q q)) \<inter> insert q' (set (?Q q')) = {}" by simp
  have "insert 1 (range ap_free_ex) \<subseteq> {1, 2, 3, 4, 5, 6, 7}" using f by auto
  then have "pool_ok wf_que_rep ap_mem_ex (insert 1 (range ap_free_ex)) ?Q" unfolding pool_ok_def using r d by blast
  then have "ap_box (ap_ex sec) ?Q" using f by (auto simp: ap_box_def ap_heads_def ap_ex_def ap_mem_ex_def)
  then have "ap_idle (ap_ex sec)" unfolding ap_idle_def by (intro exI [of _ ?Q]) (simp add: ap_ex_def ap_free_ex_def)
  then show "wep_keys_ok sec \<Longrightarrow> ap_ready (ap_ex sec)" by (simp add: ap_ready_def ap_ex_def auth_dev_ex_def crc_ok_def)
qed

lemma sta_ex_begins: "wep_keys_ok sec \<Longrightarrow> sta_begins (sta_ex sec) auth_peer_ex {}"
  using sta_ex_box [of sec] sta_ex_ok [of sec] sta_ex_tags [of sec]
  unfolding sta_begins_def by (intro conjI exI [of _ 10] exI [of _ "[11]"]) (auto simp: sta_ex_def auth_peer_ex_def auth_dev_ex_def)

lemma env_ex_ok: "env_ok auth_env_ex"
  by (simp add: env_ok_def auth_env_ex_def)

section \<open>Open authentication\<close>

text \<open>Open authentication from end to end. A station that has been told to start and an access point that is
  configured for open authentication (or 802.1X) and does not know the station: after one exchange of frames, and in the second call of its thread, the
  station ends with success. Its lock is free and all its messages are back; the access point has added the
  station as a peer and waits for its association.\<close>

theorem open_handshake:
  assumes "env_ok env" "sta_begins s w H" "ap_ready a" "dot11AuthAlgrthm (ad_sec (aa_dev a)) = 0 \<or> dot11AuthAlgrthm (ad_sec (aa_dev a)) = 2"
  shows "\<exists>s' a'. air env [t1, t2] s (a, False) = Some (s', (a', True), Some (uint WF_AUTH_TAG_DONE)) \<and> \<not> sa_lock s' \<and> (\<exists>fs. sta_box s' [] fs H) \<and>
    aa_pt a' = Ap_open \<and> ap_idle a' \<and> sent (sa_dev s) (sa_dev s') = [plain_frame 0 1 w (sa_dev s)] \<and>
    sent (aa_dev a) (aa_dev a') = [seq2_frame 0 ((new_peer (ad_mac (sa_dev s)) a)\<lparr>aw_algo := 0\<rparr>) (aa_dev a) []]"
proof -
  let ?w = "w\<lparr>auth_seq := 1, aw_algo := 0\<rparr>" and ?v = "(new_peer (ad_mac (sa_dev s)) a)\<lparr>aw_algo := 0\<rparr>"
  obtain s1 a1 p Q hdr rest where r1: "wf_auth_sta_thrd env t1 s = Some (s1, PT_WAITING, None)"
    "sta_waits s1 Sta_wait2 ?w H" "sta_keeps s s1" "retry_cnt s1 = 0"
    "sent (sa_dev s) (sa_dev s1) = [plain_frame 0 1 w (sa_dev s)]"
    "deliver ap_hear (sent (sa_dev s) (sa_dev s1)) (a, False) = Some (a1, True)" "ap_at a1 Ap_begin p Q" "length hdr = 22"
    "am_mgmt (aa_mem a1) p = le16_bytes 0xB0 @ hdr @ le16_bytes 0 @ le16_bytes 1 @ rest" "aa_dev a1 = aa_dev a" "aa_peer a1 = new_peer (ad_mac (sa_dev s)) a"
    by (rule begin_round [OF assms(1-3)])
  obtain a2 where a2: "wf_auth_ap_thrd env t1 a1 = Some (a2, PT_YIELDED)" "ap_box a2 (ap_freed a1 p Q)" "ap_keeps a1 a2" "aa_pt a2 = Ap_open"
    "ad_out (aa_dev a2) = ad_out (aa_dev a1) @ [Frame_xmit (seq2_frame 0 ((aa_peer a1)\<lparr>aw_algo := 0\<rparr>) (aa_dev a1) [])]"
    by (rule ap_call_open [OF assms(1) r1(7,9,8)]) (use assms(4) r1(10) in simp_all)
  have snt: "sent (aa_dev a1) (aa_dev a2) = [seq2_frame 0 ?v (aa_dev a) []]" using a2(5) r1(10,11) by (simp add: sent_one)
  have v: "auth_ok (aa_dev a) ?v" using r1(7,10,11) by (simp add: ap_at_def auth_ok_def)
  have w: "aw_bssid ?w = ad_bssid (sa_dev s1)" "aw_mac ?v = ad_mac (sa_dev s1)" using assms(2) r1(3) by (simp_all add: sta_begins_def sta_keeps_def)
  obtain s2 p2 fs2 rest2 where s2: "sta_hear (seq2_frame 0 ?v (aa_dev a) []) s1 = Some s2" "sta_rsp s2 Sta_wait2 ?w p2 fs2 H 2 0" "sa_dev s2 = sa_dev s1"
    by (rule sta_hear_answer [OF r1(2) v w(2,1), of "[]" "seq2_frame 0 ?v (aa_dev a) []" 0 2 0]) (simp_all add: seq2_frame_def)
  obtain s3 where s3: "wf_auth_sta_thrd env t2 s2 = Some (s3, PT_EXITED, Some (uint WF_AUTH_TAG_DONE))" "\<not> sa_lock s3" "\<not> brun s3"
    "sta_box s3 [] (fs2 @ [p2]) H" "ad_out (sa_dev s3) = ad_out (sa_dev s2)"
    by (rule sta_call_done [OF s2(2)]) simp_all
  have "air env [t1, t2] s (a, False) = Some (s3, (a2, True), Some (uint WF_AUTH_TAG_DONE))"
    using r1(1,6) serve_goes_on [OF a2(1)] snt s2(1) s3(1) sent_none [OF s3(5)] by simp
  moreover have "ap_idle a2" using a2(2,3) by (intro ap_idle_freed) (auto simp: ap_keeps_def)
  moreover have "sent (sa_dev s) (sa_dev s3) = [plain_frame 0 1 w (sa_dev s)]" using r1(5) s3(5) s2(3) by (simp add: sent_def)
  moreover have "sent (aa_dev a) (aa_dev a2) = [seq2_frame 0 ?v (aa_dev a) []]" using snt r1(10) by simp
  ultimately show ?thesis using s3(2,4) a2(4) by blast
qed

lemma open_handshake_witness:
  "\<exists>s' x. air auth_env_ex [0, 1] (sta_ex wep_sample_sec) (ap_ex (wep_sample_sec\<lparr>dot11AuthAlgrthm := 0\<rparr>), False) = Some (s', x, Some (uint WF_AUTH_TAG_DONE))"
proof -
  have "wep_keys_ok (wep_sample_sec\<lparr>dot11AuthAlgrthm := 0\<rparr>)" by (simp add: wep_keys_ok_def sec_info_wf_def wep_sample_sec_def)
  note ready = ap_ex_ready [OF this]
  have "dot11AuthAlgrthm (ad_sec (aa_dev (ap_ex (wep_sample_sec\<lparr>dot11AuthAlgrthm := 0\<rparr>)))) = 0" by (simp add: ap_ex_def auth_dev_ex_def)
  then show ?thesis using open_handshake [OF env_ex_ok sta_ex_begins [OF wep_sample_sec_ok] ready, of 0 1] by blast
qed

section \<open>Shared key authentication\<close>

lemma refuse_round:
  assumes "env_ok env" "sta_begins s w H" "ap_ready a" "dot11AuthAlgrthm (ad_sec (aa_dev a)) = 1"
  obtains s2 a2 p fs where "\<forall>ts. air env (t1 # ts) s (a, False) = air env ts s2 (a2, False)" "sta_rsp s2 Sta_wait2 (w\<lparr>auth_seq := 1, aw_algo := 0\<rparr>) p fs H 2 13"
    "sta_keeps s s2" "retry_cnt s2 = 0" "ap_ready a2" "ad_mac (aa_dev a2) = ad_mac (aa_dev a)" "ad_sec (aa_dev a2) = ad_sec (aa_dev a)"
proof -
  let ?w = "w\<lparr>auth_seq := 1, aw_algo := 0\<rparr>" and ?v = "(new_peer (ad_mac (sa_dev s)) a)\<lparr>aw_algo := 1\<rparr>"
  obtain s1 a1 p Q hdr rest where r1: "wf_auth_sta_thrd env t1 s = Some (s1, PT_WAITING, None)"
    "sta_waits s1 Sta_wait2 ?w H" "sta_keeps s s1" "retry_cnt s1 = 0"
    "sent (sa_dev s) (sa_dev s1) = [plain_frame 0 1 w (sa_dev s)]"
    "deliver ap_hear (sent (sa_dev s) (sa_dev s1)) (a, False) = Some (a1, True)" "ap_at a1 Ap_begin p Q" "length hdr = 22"
    "am_mgmt (aa_mem a1) p = le16_bytes 0xB0 @ hdr @ le16_bytes 0 @ le16_bytes 1 @ rest" "aa_dev a1 = aa_dev a" "aa_peer a1 = new_peer (ad_mac (sa_dev s)) a"
    by (rule begin_round [OF assms(1-3)])
  obtain a2 where a2: "wf_auth_ap_thrd env t1 a1 = Some (a2, PT_EXITED)" "ap_box a2 (ap_freed a1 p Q)" "ap_keeps a1 a2" "aa_state a2 = E_WDN_AP_STATE_AUTH"
    "ad_out (aa_dev a2) = ad_out (aa_dev a1) @ [Frame_xmit (seq2_frame 13 ((aa_peer a1)\<lparr>aw_algo := 1\<rparr>) (aa_dev a1) [])]"
    by (rule ap_call_reject [OF assms(1) r1(7,9,8)]) (use assms(4) r1(10) in simp_all)
  have snt: "sent (aa_dev a1) (aa_dev a2) = [seq2_frame 13 ?v (aa_dev a) []]" using a2(5) r1(10,11) by (simp add: sent_one)
  have v: "auth_ok (aa_dev a) ?v" using r1(7,10,11) by (simp add: ap_at_def auth_ok_def)
  have w: "aw_bssid ?w = ad_bssid (sa_dev s1)" "aw_mac ?v = ad_mac (sa_dev s1)" using assms(2) r1(3) by (simp_all add: sta_begins_def sta_keeps_def)
  obtain s2 p2 fs2 rest2 where s2: "sta_hear (seq2_frame 13 ?v (aa_dev a) []) s1 = Some s2" "sta_rsp s2 Sta_wait2 ?w p2 fs2 H 2 13" "sa_dev s2 = sa_dev s1"
    "retry_cnt s2 = retry_cnt s1" "tag (sa_mem s2) = tag (sa_mem s1)" "sa_que s2 = sa_que s1"
    by (rule sta_hear_answer [OF r1(2) v w(2,1), of "[]" "seq2_frame 13 ?v (aa_dev a) []" 1 2 13]) (simp_all add: seq2_frame_def)
  have run: "\<forall>ts. air env (t1 # ts) s (a, False) = air env ts s2 (a2, False)"
    using r1(1,6) serve_exit(1) [OF r1(7) a2(1-4)] snt s2(1) by simp
  show thesis
    by (rule that [OF run s2(2)]) (use r1(3,4,10) s2(3-6) a2(3) serve_exit(2) [OF r1(7) a2(1-4)] in \<open>simp_all add: sta_keeps_def ap_keeps_def\<close>)
qed

lemma challenge_round:
  assumes "env_ok env" "sta_rsp s Sta_wait2 w p fs H 2 13" "aw_algo w = 0" "auth_seq w = 1" "retry_cnt s = 0" "aw_bssid w = ad_bssid (sa_dev s)"
    "ap_ready a" "dot11AuthAlgrthm (ad_sec (aa_dev a)) = 1"
  obtains s2 a2 p2 fs2 c hdr rest where "\<forall>ts. air env (t2 # ts) s (a, False) = air env ts s2 (a2, True)" "sta_rsp s2 Sta_wait2 (w\<lparr>aw_algo := 1\<rparr>) p2 fs2 H 2 0"
    "sta_keeps s s2" "msg_value (sa_mem s2) p2 = le16_bytes 0xB0 @ hdr @ le16_bytes 1 @ le16_bytes 2 @ le16_bytes 0 @ [16, 128] @ c @ rest" "length hdr = 22"
    "msg_len (sa_mem s2) p2 = 160" "length c = 128" "generate_challenge_text (au_rand env) (replicate 128 0) = Some c"
    "ap_idle a2" "aa_pt a2 = Ap_wait3" "aa_mode a2 = WF_MASTER_MODE" "aa_peer a2 = (new_peer (ad_mac (sa_dev s)) a)\<lparr>aw_algo := 1, chlg_txt := c, auth_seq := 2\<rparr>"
    "ad_mac (aa_dev a2) = ad_mac (aa_dev a)" "ad_sec (aa_dev a2) = ad_sec (aa_dev a)" "auth_ok (aa_dev a2) (aa_peer a2)"
proof -
  let ?w = "w\<lparr>aw_algo := 1\<rparr>" and ?v = "(new_peer (ad_mac (sa_dev s)) a)\<lparr>aw_algo := 1\<rparr>"
  obtain s1 where s1: "wf_auth_sta_thrd env t2 s = Some (s1, PT_WAITING, None)" "sta_at s1 Sta_wait2 ?w (fs @ [p]) H" "sta_keeps s s1"
    "ad_out (sa_dev s1) = ad_out (sa_dev s) @ [Frame_xmit (plain_frame 1 1 ?w (sa_dev s))]"
    by (rule sta_call_switch [OF assms(1-4)]) (use assms(5) in simp_all)
  have wt: "sta_waits s1 Sta_wait2 ?w H" by (rule sta_waits_after [OF assms(2) s1(2,3)])
  have ok: "auth_ok (sa_dev s) ?w" using assms(2) by (simp add: sta_rsp_def auth_ok_def)
  obtain a1 q Q hd1 r1 where a1: "ap_hear (plain_frame 1 1 ?w (sa_dev s)) (a, False) = Some (a1, True)" "ap_at a1 Ap_begin q Q" "length hd1 = 22"
    "am_mgmt (aa_mem a1) q = le16_bytes 0xB0 @ hd1 @ le16_bytes (ucast (1 :: u32)) @ le16_bytes 1 @ r1" "aa_dev a1 = aa_dev a" "aa_peer a1 = new_peer (ad_mac (sa_dev s)) a"
    by (rule ap_hear_request [OF assms(7) ok])
  have m: "am_mgmt (aa_mem a1) q = le16_bytes 0xB0 @ hd1 @ le16_bytes 1 @ le16_bytes 1 @ r1" using a1(4) by simp
  have alg: "dot11AuthAlgrthm (ad_sec (aa_dev a1)) = 1" using assms(8) a1(5) by simp
  obtain a2 c where a2: "wf_auth_ap_thrd env t2 a1 = Some (a2, PT_YIELDED)" "ap_box a2 (ap_freed a1 q Q)" "ap_keeps a1 a2" "aa_pt a2 = Ap_wait3" "length c = 128"
    "generate_challenge_text (au_rand env) (chlg_txt (aa_peer a1)) = Some c" "aa_peer a2 = (aa_peer a1)\<lparr>aw_algo := 1, chlg_txt := c, auth_seq := 2\<rparr>"
    "aa_dev a2 = auth_emit (Frame_xmit (seq2_frame 0 ((aa_peer a1)\<lparr>aw_algo := 1\<rparr>) (aa_dev a1) ([16, 128] @ c))) (aa_dev a1)"
    by (rule ap_call_challenge [OF assms(1) a1(2) m a1(3) alg])
  let ?f = "seq2_frame 0 ?v (aa_dev a) ([16, 128] @ c)"
  have snt: "sent (aa_dev a1) (aa_dev a2) = [?f]" "sent (sa_dev s) (sa_dev s1) = [plain_frame 1 1 ?w (sa_dev s)]"
    using a2(8) a1(5,6) s1(4) by (simp_all add: sent_one)
  have v: "auth_ok (aa_dev a) ?v" using a1(2,5,6) by (simp add: ap_at_def auth_ok_def)
  have w: "aw_bssid ?w = ad_bssid (sa_dev s1)" "aw_mac ?v = ad_mac (sa_dev s1)" using assms(6) s1(3) by (simp_all add: sta_keeps_def)
  obtain s2 p2 fs2 rest where s2: "sta_hear ?f s1 = Some s2" "sta_rsp s2 Sta_wait2 ?w p2 fs2 H 2 0" "sa_dev s2 = sa_dev s1"
    "retry_cnt s2 = retry_cnt s1" "tag (sa_mem s2) = tag (sa_mem s1)" "sa_que s2 = sa_que s1"
    "msg_value (sa_mem s2) p2 = ?f @ rest" "msg_len (sa_mem s2) p2 = of_nat (length ?f)"
    by (rule sta_hear_answer [OF wt v w(2,1), of "[16, 128] @ c" ?f 1 2 0]) (use a2(5) in \<open>simp_all add: seq2_frame_def\<close>)
  let ?h = "[0, 0] @ aw_mac ?v @ ad_mac (aa_dev a) @ aw_bssid ?v @ [0, 0]"
  have lens: "length ?h = 22" "length ?f = 160" using v a2(5) by (simp_all add: auth_ok_def seq2_frame_def auth_hdr_def)
  have run: "\<forall>ts. air env (t2 # ts) s (a, False) = air env ts s2 (a2, True)"
    using s1(1) snt a1(1) serve_goes_on [OF a2(1)] s2(1) by simp
  have len: "msg_len (sa_mem s2) p2 = 160" using s2(8) lens(2) by simp
  show thesis
    by (rule that [where hdr = ?h and rest = rest, OF run s2(2) _ _ lens(1) len])
      (use s1(3) s2(3-7) a2 a1(2,5,6) ap_idle_freed [OF a2(2)] in
        \<open>auto simp: sta_keeps_def ap_keeps_def ap_at_def seq2_frame_def auth_hdr_def new_peer_def wdn_info_update_def wdn_added_def\<close>)
qed

lemma answer_round:
  assumes "env_ok env" "sta_rsp s Sta_wait2 w p fs H 2 0" "aw_algo w = 1" "aw_bssid w = ad_bssid (sa_dev s)" "length c = 128"
    "msg_value (sa_mem s) p = le16_bytes 0xB0 @ hdr @ le16_bytes 1 @ le16_bytes 2 @ le16_bytes 0 @ [16, 128] @ c @ rest" "length hdr = 22"
    "msg_len (sa_mem s) p = 160" "ap_idle a" "aa_pt a = Ap_wait3" "aa_mode a = WF_MASTER_MODE" "auth_ok (aa_dev a) (aa_peer a)"
    "aw_mac (aa_peer a) = ad_mac (sa_dev s)" "aw_algo (aa_peer a) = 1" "chlg_txt (aa_peer a) = c"
    "\<And>iv. wep_key_of (ad_sec (aa_dev a)) iv = wep_key_of (ad_sec (sa_dev s)) iv"
  obtains s2 a2 w2 p2 fs2 q Q where "\<forall>ts. air env (t3 # ts) s (a, True) = air env ts s2 (a2, True)" "sta_rsp s2 Sta_wait4 w2 p2 fs2 H 4 0"
    "ap_at a2 Ap_wait4 q Q" "aa_peer a2 = (aa_peer a)\<lparr>auth_seq := 4\<rparr>" "ad_mac (aa_dev a2) = ad_mac (aa_dev a)"
proof -
  let ?w = "w\<lparr>chlg_txt := c, auth_seq := 3\<rparr>"
  obtain s1 w1 ctx where s1: "wf_auth_sta_thrd env t3 s = Some (s1, PT_WAITING, None)" "sta_at s1 Sta_wait4 w1 (fs @ [p]) H" "sta_keeps s s1"
    "aw_bssid w1 = aw_bssid w" "seq3_ctx ?w (sa_dev s) ctx" "ad_out (sa_dev s1) = ad_out (sa_dev s) @ [Frame_xmit (seq3_frame ctx ?w (sa_dev s))]"
    by (rule sta_call_challenge [OF assms(1-3,5-8)])
  have wt: "sta_waits s1 Sta_wait4 w1 H" by (rule sta_waits_after [OF assms(2) s1(2,3)])
  let ?f = "seq3_frame ctx ?w (sa_dev s)" and ?g = "plain_frame 1 4 (aa_peer a) (aa_dev a)"
  have ok: "auth_ok (sa_dev s) ?w" using assms(2,5) by (simp add: sta_rsp_def auth_ok_def)
  then have lens: "length (aw_mac w) = 6" "length (ad_mac (sa_dev s)) = 6" "length ?f = 168" by (simp_all add: auth_ok_def length_seq3_frame)
  have ta: "rdn ?f 10 6 = Some (ad_mac (sa_dev s))"
    using rdn_append_mid [of "le16_bytes 0x40B0 @ [0, 0] @ aw_mac w" "ad_mac (sa_dev s)"] lens by (simp add: seq3_frame_def auth_hdr_def)
  have fc: "rd_le16 ?f 0 = Some 0x40B0" using rd_le16_put [of 0 "[]" "0x40B0"] by (simp add: seq3_frame_def auth_hdr_def)
  obtain m q Q rest' where m: "ap_hear ?f (a, True) = Some (a\<lparr>aa_mem := m\<rparr>, True)" "ap_at (a\<lparr>aa_mem := m\<rparr>) (aa_pt a) q Q"
    "am_len m q = of_nat (length ?f)" "am_mgmt m q = ?f @ rest'"
    by (rule ap_hear_idle [OF assms(9,11,12) ta _ fc]) (use lens(3) in simp_all)
  obtain a2 where a2: "wf_auth_ap_thrd env t3 (a\<lparr>aa_mem := m\<rparr>) = Some (a2, PT_YIELDED)" "ap_at a2 Ap_wait4 q Q"
    "ad_out (aa_dev a2) = ad_out (aa_dev a) @ [Frame_xmit ?g]" "ap_keeps (a\<lparr>aa_mem := m\<rparr>) a2" "aa_peer a2 = (aa_peer a)\<lparr>auth_seq := 4\<rparr>"
    by (rule ap_call_verify [of env "a\<lparr>aa_mem := m\<rparr>" q Q ctx ?w "sa_dev s" rest' t3])
      (use assms(1,10,14-16) m(2-4) ok s1(5) lens(3) in simp_all)
  have w: "aw_bssid w1 = ad_bssid (sa_dev s1)" "aw_mac (aa_peer a) = ad_mac (sa_dev s1)" using assms(4,13) s1(3,4) by (simp_all add: sta_keeps_def)
  obtain s2 p2 fs2 rest2 where s2: "sta_hear ?g s1 = Some s2" "sta_rsp s2 Sta_wait4 w1 p2 fs2 H 4 0"
    by (rule sta_hear_answer [OF wt assms(12) w(2,1), of "[]" ?g 1 4 0]) (simp_all add: plain_frame_def)
  have run: "\<forall>ts. air env (t3 # ts) s (a, True) = air env ts s2 (a2, True)"
    using s1(1) sent_one [OF s1(6)] m(1) serve_goes_on [OF a2(1)] sent_one [OF a2(3)] s2(1) by simp
  show thesis by (rule that [OF run s2(2) a2(2,5)]) (use a2(4) in \<open>simp add: ap_keeps_def\<close>)
qed

text \<open>(C5) Shared key authentication from end to end, with the fallback to it. The access point is configured for shared key only, does
  not know the station and has the same WEP keys. The station asks for open authentication and is refused; it asks for shared key,
  gets a challenge, encrypts it, and the access point decrypts it and finds its challenge: in the fourth call of its thread the
  station ends with success, its lock free and its messages back. The access point has the station as a peer and, in the
  next call of its thread, sends the last frame again, because the message with the third frame is still in the queue.\<close>

theorem shared_handshake:
  assumes "env_ok env" "sta_begins s w H" "ap_ready a" "dot11AuthAlgrthm (ad_sec (aa_dev a)) = 1"
    "\<forall>iv. wep_key_of (ad_sec (aa_dev a)) iv = wep_key_of (ad_sec (sa_dev s)) iv"
  shows "\<exists>s' a' v. air env [t1, t2, t3, t4] s (a, False) = Some (s', (a', True), Some (uint WF_AUTH_TAG_DONE)) \<and>
    \<not> sa_lock s' \<and> (\<exists>fs. sta_box s' [] fs H) \<and> aa_pt a' = Ap_wait4 \<and> aw_mac v = ad_mac (sa_dev s) \<and>
    (\<exists>a''. ap_serve env t5 (a', True) = Some (a'', True) \<and> sent (aa_dev a') (aa_dev a'') = [plain_frame 1 4 v (aa_dev a)] \<and> ap_idle a'')"
proof -
  let ?w = "w\<lparr>auth_seq := 1, aw_algo := 0\<rparr>"
  obtain s1 a1 p1 fs1 where 1: "\<forall>ts. air env (t1 # ts) s (a, False) = air env ts s1 (a1, False)" "sta_rsp s1 Sta_wait2 ?w p1 fs1 H 2 13"
    "sta_keeps s s1" "retry_cnt s1 = 0" "ap_ready a1" "ad_mac (aa_dev a1) = ad_mac (aa_dev a)" "ad_sec (aa_dev a1) = ad_sec (aa_dev a)"
    by (rule refuse_round [where ?t1.0 = t1, OF assms(1-4)])
  have w1: "aw_algo ?w = 0" "auth_seq ?w = 1" "dot11AuthAlgrthm (ad_sec (aa_dev a1)) = 1" using assms(4) 1(7) by simp_all
  have b1: "aw_bssid ?w = ad_bssid (sa_dev s1)" using assms(2) 1(3) by (simp add: sta_begins_def sta_keeps_def)
  obtain s2 a2 p2 fs2 c hdr rest where 2: "\<forall>ts. air env (t2 # ts) s1 (a1, False) = air env ts s2 (a2, True)" "sta_rsp s2 Sta_wait2 (?w\<lparr>aw_algo := 1\<rparr>) p2 fs2 H 2 0"
    "sta_keeps s1 s2" "msg_value (sa_mem s2) p2 = le16_bytes 0xB0 @ hdr @ le16_bytes 1 @ le16_bytes 2 @ le16_bytes 0 @ [16, 128] @ c @ rest" "length hdr = 22"
    "msg_len (sa_mem s2) p2 = 160" "length c = 128" "generate_challenge_text (au_rand env) (replicate 128 0) = Some c"
    "ap_idle a2" "aa_pt a2 = Ap_wait3" "aa_mode a2 = WF_MASTER_MODE" "aa_peer a2 = (new_peer (ad_mac (sa_dev s1)) a1)\<lparr>aw_algo := 1, chlg_txt := c, auth_seq := 2\<rparr>"
    "ad_mac (aa_dev a2) = ad_mac (aa_dev a1)" "ad_sec (aa_dev a2) = ad_sec (aa_dev a1)" "auth_ok (aa_dev a2) (aa_peer a2)"
    by (rule challenge_round [where ?t2.0 = t2, OF assms(1) 1(2) w1(1,2) 1(4) b1 1(5) w1(3)])
  have k: "ad_mac (sa_dev s2) = ad_mac (sa_dev s)" "ad_sec (sa_dev s2) = ad_sec (sa_dev s)" "ad_bssid (sa_dev s2) = ad_bssid (sa_dev s)"
    using 1(3) 2(3) by (simp_all add: sta_keeps_def)
  have mac1: "ad_mac (sa_dev s1) = ad_mac (sa_dev s)" using 1(3) by (simp add: sta_keeps_def)
  have w2: "aw_algo (?w\<lparr>aw_algo := 1\<rparr>) = 1" "aw_bssid (?w\<lparr>aw_algo := 1\<rparr>) = ad_bssid (sa_dev s2)" "aw_mac (aa_peer a2) = ad_mac (sa_dev s2)"
    "aw_algo (aa_peer a2) = 1" "chlg_txt (aa_peer a2) = c" "wep_key_of (ad_sec (aa_dev a2)) iv = wep_key_of (ad_sec (sa_dev s2)) iv" for iv
    using assms(2,5) 1(7) 2(12,14) k mac1 by (simp_all add: sta_begins_def)
  obtain s3 a3 w3 p3 fs3 q Q where 3: "\<forall>ts. air env (t3 # ts) s2 (a2, True) = air env ts s3 (a3, True)" "sta_rsp s3 Sta_wait4 w3 p3 fs3 H 4 0"
    "ap_at a3 Ap_wait4 q Q" "aa_peer a3 = (aa_peer a2)\<lparr>auth_seq := 4\<rparr>" "ad_mac (aa_dev a3) = ad_mac (aa_dev a2)"
    by (rule answer_round [where ?t3.0 = t3, OF assms(1) 2(2) w2(1,2) 2(7,4,5,6,9,10,11,15) w2(3-5) w2(6)])
  obtain s4 where 4: "wf_auth_sta_thrd env t4 s3 = Some (s4, PT_EXITED, Some (uint WF_AUTH_TAG_DONE))" "\<not> sa_lock s4" "\<not> brun s4"
    "sta_box s4 [] (fs3 @ [p3]) H" "ad_out (sa_dev s4) = ad_out (sa_dev s3)"
    by (rule sta_call_done [OF 3(2)]) simp_all
  have run: "air env [t1, t2, t3, t4] s (a, False) = Some (s4, (a3, True), Some (uint WF_AUTH_TAG_DONE))"
    using 1(1) 2(1) 3(1) 4(1) sent_none [OF 4(5)] by simp
  obtain a4 where a4: "wf_auth_ap_thrd env t5 a3 = Some (a4, PT_YIELDED)" "ap_box a4 (ap_freed a3 q Q)" "ap_keeps a3 a4" "aa_pt a4 = Ap_wait4"
    "ad_out (aa_dev a4) = ad_out (aa_dev a3) @ [Frame_xmit (plain_frame (aw_algo (aa_peer a3)) 4 (aa_peer a3) (aa_dev a3))]"
    by (rule ap_call_again [OF assms(1) 3(3)])
  have "sent (aa_dev a3) (aa_dev a4) = [plain_frame 1 4 (aa_peer a3) (aa_dev a)]"
    using sent_one [OF a4(5)] 3(4,5) 2(12,13) 1(6) by (simp add: plain_frame_def auth_hdr_def)
  moreover have "ap_idle a4" using a4(2,3) by (intro ap_idle_freed) (auto simp: ap_keeps_def)
  moreover have "aa_pt a3 = Ap_wait4" "aw_mac (aa_peer a3) = ad_mac (sa_dev s)" using 3(3,4) 2(12) mac1 by (simp_all add: ap_at_def)
  ultimately show ?thesis
    using run 4(2,4) serve_goes_on [OF a4(1)] by (intro exI [of _ s4] exI [of _ a3] exI [of _ "aa_peer a3"]) blast
qed

lemma shared_handshake_witness:
  "\<exists>s' x. air auth_env_ex [0, 1, 2, 3] (sta_ex wep_sample_sec) (ap_ex wep_sample_sec, False) = Some (s', x, Some (uint WF_AUTH_TAG_DONE))"
proof -
  have a: "dot11AuthAlgrthm (ad_sec (aa_dev (ap_ex wep_sample_sec))) = 1" by (simp add: ap_ex_def auth_dev_ex_def wep_sample_sec_def)
  have "\<forall>iv. wep_key_of (ad_sec (aa_dev (ap_ex wep_sample_sec))) iv = wep_key_of (ad_sec (sa_dev (sta_ex wep_sample_sec))) iv"
    by (simp add: ap_ex_def sta_ex_def auth_dev_ex_def)
  from shared_handshake [OF env_ex_ok sta_ex_begins [OF wep_sample_sec_ok] ap_ex_ready [OF wep_sample_sec_ok] a this, of 0 1 2 3] show ?thesis by blast
qed

end
