(* ===== verification/Auth_Fail.thy ===== *)
theory Auth_Fail
  imports Auth_Air
begin

text \<open>
  How authentication of a station fails: without answers, with a refused answer to the challenge, and with an
  answer that carries no challenge.
\<close>

section \<open>No answer\<close>

text \<open>The calls of the thread, until it ends with a reason.\<close>

fun sta_calls :: "auth_env \<Rightarrow> u32 list \<Rightarrow> sta_auth \<Rightarrow> (sta_auth \<times> int option) option" where
  "sta_calls env [] s = Some (s, None)"
| "sta_calls env (now # ticks) s = do {
     (s', r, rsn) \<leftarrow> wf_auth_sta_thrd env now s;
     (case rsn of Some e \<Rightarrow> Some (s', Some e) | None \<Rightarrow> sta_calls env ticks s')
   }"

lemma sta_call_resend:
  assumes "env_ok env" "sta_at s Sta_wait2 w fs H" "auth_seq w = 1" "wf_timer_expired now (sa_timer s)" "retry_cnt s < 2"
  obtains s1 where "wf_auth_sta_thrd env now s = Some (s1, PT_WAITING, None)" "sta_at s1 Sta_wait2 w fs H" "retry_cnt s1 = retry_cnt s + 1"
    "sa_timer s1 = wf_timer_set (au_msecs env) now 50" "ad_mac (sa_dev s1) = ad_mac (sa_dev s)"
    "ad_out (sa_dev s1) = ad_out (sa_dev s) @ [Frame_xmit (plain_frame (aw_algo w) 1 w (sa_dev s))]"
proof -
  note at = assms(2) [unfolded sta_at_def]
  have pop: "box_pop (sa_que s) (sa_mem s) = (sa_mem s, -2, None)" using at by (auto intro: sta_pop_empty)
  have st: "sta_step env now Sta_wait2 s = Some (sta_again s, Goto Sta_send2)" using pop assms(4) by (simp add: sta_step_def sta_wait_seq2_def)
  have n: "retry_cnt s + 1 < 3" using assms(5) by unat_arith
  let ?s = "(sta_again s)\<lparr>sa_dev := auth_emit (Frame_xmit (plain_frame (aw_algo w) 1 w (sa_dev s))) (sa_dev s), sa_timer := wf_timer_set (au_msecs env) now 50\<rparr>"
  have "pt_run (sta_step env now) Sta_send2 (sta_again s) = Some (?s, Back Sta_wait2 PT_WAITING)"
    using sta_run_send2 [OF assms(1), of "sta_again s" w fs H now] at assms(3) n by simp
  then have "wf_auth_sta_thrd env now s = Some (?s\<lparr>sa_pt := Sta_wait2\<rparr>, PT_WAITING, None)"
    using at by (simp add: wf_auth_sta_thrd_def pt_run_Goto [where step = "sta_step env now", OF st] sta_return_def)
  then show thesis by (rule that) (use at n in \<open>simp_all add: sta_at_def sta_box_sel\<close>)
qed

lemma sta_call_give_up:
  assumes "sta_at s Sta_wait2 w fs H" "wf_timer_expired now (sa_timer s)" "retry_cnt s = 2"
  obtains s1 where "wf_auth_sta_thrd env now s = Some (s1, PT_EXITED, Some (-4))" "\<not> sa_lock s1" "sta_box s1 [] fs H" "ad_out (sa_dev s1) = ad_out (sa_dev s)"
proof -
  note at = assms(1) [unfolded sta_at_def]
  have pop: "box_pop (sa_que s) (sa_mem s) = (sa_mem s, -2, None)" using at by (auto intro: sta_pop_empty)
  have st: "sta_step env now Sta_wait2 s = Some (sta_again s, Goto Sta_send2)" using pop assms(2) by (simp add: sta_step_def sta_wait_seq2_def)
  have "sta_step env now Sta_send2 (sta_again s) = Some (sta_exit (-4) (sta_again s))" using assms(3) by (simp add: sta_step_def)
  then have "wf_auth_sta_thrd env now s = Some ((fst (sta_exit (-4) (sta_again s)))\<lparr>sa_pt := Sta_begin\<rparr>, PT_EXITED, Some (-4))"
    using at by (simp add: wf_auth_sta_thrd_def pt_run_Goto [where step = "sta_step env now", OF st] sta_exit_def pt_run_Fin sta_return_def)
  then show thesis by (rule that) (use at in \<open>simp_all add: sta_exit_def sta_box_sel\<close>)
qed

text \<open>(C31) A station whose requests are not answered gives up: it sends the request three times, each time when
  50 milliseconds have passed since the last (also when the tick counter wraps around), and ends with -4, its lock
  free and its messages back.\<close>

theorem sta_gives_up:
  assumes "env_ok env" "sta_begins s w H" "\<forall>d\<in>{d1, d2, d3}. unat (au_msecs env 50) < d \<and> d < 2 ^ 31"
    "t1 = t + of_nat d1" "t2 = t1 + of_nat d2" "t3 = t2 + of_nat d3"
  shows "\<exists>s' fs. sta_calls env [t, t1, t2, t3] s = Some (s', Some (-4)) \<and> \<not> sa_lock s' \<and> sta_box s' [] fs H \<and>
    sent (sa_dev s) (sa_dev s') = replicate 3 (plain_frame 0 1 w (sa_dev s))"
proof -
  let ?w = "w\<lparr>auth_seq := 1, aw_algo := 0\<rparr>"
  obtain p fs where b: "sta_box s [p] fs H" "tag (sa_mem s) p = WF_AUTH_TAG_START" using assms(2) by (auto simp: sta_begins_def)
  have s: "sa_pt s = Sta_begin" "\<not> sa_lock s" "sa_peer s = Some w" "auth_ok (sa_dev s) w" using assms(2) by (simp_all add: sta_begins_def)
  have late: "wf_timer_expired (u + of_nat d) (wf_timer_set (au_msecs env) u 50)" if "d \<in> {d1, d2, d3}" for u d
    using timer_set_expired [of "au_msecs env" 50 d u] assms(1,3) that by (auto simp: env_ok_def)
  obtain s1 where s1: "wf_auth_sta_thrd env t s = Some (s1, PT_WAITING, None)" "sta_at s1 Sta_wait2 ?w (fs @ [p]) H" "sta_keeps s s1" "retry_cnt s1 = 0"
    "sa_timer s1 = wf_timer_set (au_msecs env) t 50"
    "ad_out (sa_dev s1) = ad_out (sa_dev s) @ [Mcu_set_bssid (ad_bssid (sa_dev s)), Mcu_set_mlme_join 0, Mcu_set_media_status 2, Frame_xmit (plain_frame 0 1 ?w (sa_dev s))]"
    by (rule sta_call_start [OF assms(1) s b])
  have w: "auth_seq ?w = 1" "wf_timer_expired t1 (sa_timer s1)" "retry_cnt s1 < 2" using late [of d1 t] s1(4,5) by (simp_all add: assms(4))
  obtain s2 where s2: "wf_auth_sta_thrd env t1 s1 = Some (s2, PT_WAITING, None)" "sta_at s2 Sta_wait2 ?w (fs @ [p]) H" "retry_cnt s2 = retry_cnt s1 + 1"
    "sa_timer s2 = wf_timer_set (au_msecs env) t1 50" "ad_mac (sa_dev s2) = ad_mac (sa_dev s1)"
    "ad_out (sa_dev s2) = ad_out (sa_dev s1) @ [Frame_xmit (plain_frame (aw_algo ?w) 1 ?w (sa_dev s1))]"
    by (rule sta_call_resend [OF assms(1) s1(2) w])
  have e2: "wf_timer_expired t2 (sa_timer s2)" "retry_cnt s2 < 2" using late [of d2 t1] s1(4) s2(3,4) by (simp_all add: assms(5))
  obtain s3 where s3: "wf_auth_sta_thrd env t2 s2 = Some (s3, PT_WAITING, None)" "sta_at s3 Sta_wait2 ?w (fs @ [p]) H" "retry_cnt s3 = retry_cnt s2 + 1"
    "sa_timer s3 = wf_timer_set (au_msecs env) t2 50" "ad_mac (sa_dev s3) = ad_mac (sa_dev s2)"
    "ad_out (sa_dev s3) = ad_out (sa_dev s2) @ [Frame_xmit (plain_frame (aw_algo ?w) 1 ?w (sa_dev s2))]"
    by (rule sta_call_resend [OF assms(1) s2(2) w(1) e2])
  have e3: "wf_timer_expired t3 (sa_timer s3)" "retry_cnt s3 = 2" using late [of d3 t2] s1(4) s2(3) s3(3,4) by (simp_all add: assms(6))
  obtain s4 where s4: "wf_auth_sta_thrd env t3 s3 = Some (s4, PT_EXITED, Some (-4))" "\<not> sa_lock s4" "sta_box s4 [] (fs @ [p]) H" "ad_out (sa_dev s4) = ad_out (sa_dev s3)"
    by (rule sta_call_give_up [OF s3(2) e3])
  have "sta_calls env [t, t1, t2, t3] s = Some (s4, Some (-4))" using s1(1) s2(1) s3(1) s4(1) by simp
  moreover have "sent (sa_dev s) (sa_dev s4) = replicate 3 (plain_frame 0 1 w (sa_dev s))"
    using s1(3,6) s2(5,6) s3(6) s4(4) by (simp add: sent_def List.map_filter_def plain_frame_def auth_hdr_def sta_keeps_def numeral_3_eq_3)
  ultimately show ?thesis using s4(2,3) by blast
qed

lemma sta_gives_up_witness:
  "\<exists>s'. sta_calls auth_env_ex [0xFFFFFFF0, 0x23, 0x56, 0x89] (sta_ex wep_sample_sec) = Some (s', Some (-4))"
  using sta_gives_up [OF env_ex_ok sta_ex_begins [OF wep_sample_sec_ok], of 51 51 51 "0x23" "0xFFFFFFF0" "0x56" "0x89"] by (auto simp: auth_env_ex_def)

section \<open>Refused at the end\<close>

text \<open>A station with one pending frame.\<close>

definition rsp_ex :: "u32 \<Rightarrow> sta_pc \<Rightarrow> u16 \<Rightarrow> u16 \<Rightarrow> bytes \<Rightarrow> sta_auth" where
  "rsp_ex algo pc sq st var = (sta_ex wep_sample_sec)\<lparr>sa_peer := Some (auth_peer_ex\<lparr>aw_algo := algo\<rparr>), sa_pt := pc, sa_lock := True,
     sa_mem := sta_mem_ex\<lparr>tag := (\<lambda>_. WF_AUTH_TAG_RSP), msg_len := (\<lambda>_. of_nat (30 + length var)), msg_value := (\<lambda>_. le16_bytes 0xB0 @ replicate 22 0 @
       le16_bytes 1 @ le16_bytes sq @ le16_bytes st @ var @ replicate (150 - length var) 0)\<rparr>\<rparr>"

lemma rsp_ex_rsp: "length var \<le> 150 \<Longrightarrow> sta_rsp (rsp_ex algo pc sq st var) pc (auth_peer_ex\<lparr>aw_algo := algo\<rparr>) 10 [11] {} sq st"
  using sta_ex_ok [OF wep_sample_sec_ok] auth_fields_frame [of "replicate 22 0" 1 sq st]
  by (simp add: sta_rsp_def rsp_ex_def sta_ex_def sta_mem_ex_def sta_box_def mbox_def msg_inv_def wf_que_rep_def dll_def auth_ok_def)

text \<open>When the access point refuses the answer to the challenge, the thread stops, but its reason is not set: the
  count of the loop is 4 and the test for 3 fails, so \<open>reason\<close> is what the local variable held. If that is 0 the
  thread ends as if it had not failed, and if it is \<open>WF_AUTH_TAG_DONE\<close> the caller takes it for success.\<close>

theorem sta_refused_reason:
  assumes "sta_rsp s Sta_wait4 w p fs H 4 st" "st \<noteq> 0"
  shows "\<exists>s'. wf_auth_sta_thrd env now s = Some (s', if au_reason env = 0 then PT_ENDED else PT_EXITED, Some (au_reason env)) \<and>
    \<not> sa_lock s' \<and> sta_box s' [] (fs @ [p]) H"
proof -
  obtain m ofs where m: "box_pop (sa_que s) (sa_mem s) = (m, 0, Some p)" "tag m p = WF_AUTH_TAG_RSP" "tag m p \<noteq> WF_AUTH_TAG_ABORT"
    "auth_fields (msg_value m p) = Some (ofs, 4, st)" "sta_box (sta_del p m s) [] (fs @ [p]) H" "sta_keeps s (sta_del p m s)" "same_msgs (sa_mem s) m"
    by (rule sta_rspE [OF assms(1)])
  let ?s = "sta_again ((sta_del p m s)\<lparr>retry_cnt := 3\<rparr>)"
  have st: "sta_step env now Sta_wait4 s = Some (?s, Goto Sta_send4)" using m(1-4) assms(2) by (simp add: sta_step_def sta_wait_seq4_def)
  have e: "sta_step env now Sta_send4 ?s = Some (sta_exit (au_reason env) ?s)" by (simp add: sta_step_def)
  have pc: "sa_pt s = Sta_wait4" using assms(1) by (simp add: sta_rsp_def)
  have "wf_auth_sta_thrd env now s =
      Some ((fst (sta_exit (au_reason env) ?s))\<lparr>sa_pt := Sta_begin\<rparr>, if au_reason env = 0 then PT_ENDED else PT_EXITED, Some (au_reason env))"
    using e by (simp add: wf_auth_sta_thrd_def pc pt_run_Goto [where step = "sta_step env now", OF st] sta_exit_def pt_run_Fin sta_return_def)
  then show ?thesis using m(5) by (auto simp: sta_exit_def sta_box_sel)
qed

lemma sta_refused_reason_witness:
  "\<exists>s'. wf_auth_sta_thrd (auth_env_ex\<lparr>au_reason := 257\<rparr>) 0 (rsp_ex 1 Sta_wait4 4 15 []) = Some (s', PT_EXITED, Some (uint WF_AUTH_TAG_DONE))"
  using sta_refused_reason [OF rsp_ex_rsp [of "[]" 1 Sta_wait4 4 15], of "auth_env_ex\<lparr>au_reason := 257\<rparr>" 0]
  by (auto simp: WF_AUTH_TAG_DONE_def WF_AUTH_TAG_START_def WF_MSG_TAG_SET_def)

section \<open>No challenge\<close>

text \<open>A successful answer to the request for shared key authentication that carries elements, but no challenge, ends the
  thread with -5 and loses the message: it is neither pending nor free afterwards, and nobody holds its address.\<close>

theorem sta_no_challenge:
  assumes "sta_rsp s Sta_wait2 w p fs H 2 0" "aw_algo w = 1" "ies_ok es" "es \<noteq> []" "\<forall>e\<in>set es. fst e \<noteq> 16" "length hdr = 22"
    "msg_value (sa_mem s) p = le16_bytes 0xB0 @ hdr @ le16_bytes 1 @ le16_bytes 2 @ le16_bytes 0 @ ies_enc es @ rest"
    "msg_len (sa_mem s) p = of_nat (30 + length (ies_enc es))"
  shows "\<exists>s'. wf_auth_sta_thrd env now s = Some (s', PT_EXITED, Some (-5)) \<and> \<not> sa_lock s' \<and> p \<notin> H \<and> sta_box s' [] fs (insert p H)"
proof -
  have b: "sta_box s [p] fs H" "sa_pt s = Sta_wait2" "sa_peer s = Some w" "tag (sa_mem s) p = WF_AUTH_TAG_RSP" using assms(1) by (simp_all add: sta_rsp_def)
  obtain m where m: "box_pop (sa_que s) (sa_mem s) = (m, 0, Some p)" "same_msgs (sa_mem s) m"
    "sta_box (s\<lparr>sa_mem := m\<rparr>) [] fs (insert p H)" "sta_box (sta_del p m s) [] (fs @ [p]) H" "same_msgs (sa_mem s) (sa_mem (sta_del p m s))"
    by (rule sta_pop [OF b(1)])
  have mv: "msg_value m p = msg_value (sa_mem s) p" "msg_len m p = msg_len (sa_mem s) p" "tag m p = WF_AUTH_TAG_RSP" using m(2) b(4) by (simp_all add: same_msgs_def)
  have f: "auth_fields (msg_value m p) = Some (0, 2, 0)" unfolding mv assms(7) by (rule auth_fields_frame [OF assms(6)])
  have d: "drop (30 + 0) (msg_value m p) = ies_enc es @ rest" "(ucast (msg_len m p) :: u16) = of_nat (30 + 0 + length (ies_enc es))"
    using assms(6,8) by (simp_all add: mv assms(7) le16_bytes_def u32_to_u16 del: of_nat_add)
  have "WF_AUTH_TAG_RSP \<noteq> WF_AUTH_TAG_ABORT" by (simp add: WF_AUTH_TAG_RSP_def WF_AUTH_TAG_ABORT_def WF_MSG_TAG_SET_def)
  then have "sta_step env now Sta_wait2 s = Some (sta_exit (-5) (s\<lparr>sa_mem := m\<rparr>))"
    using m(1) mv(3) f b(3) assms(2) sta_challenge_missing [OF d(1) assms(3,4) d(2) assms(5), of w s] by (simp add: sta_step_def sta_wait_seq2_def)
  then have "wf_auth_sta_thrd env now s = Some ((fst (sta_exit (-5) (s\<lparr>sa_mem := m\<rparr>)))\<lparr>sa_pt := Sta_begin\<rparr>, PT_EXITED, Some (-5))"
    by (simp add: wf_auth_sta_thrd_def b(2) sta_exit_def pt_run_Fin sta_return_def)
  moreover have "p \<notin> H" using b(1) mb.box_distinct [of "sa_que s" "sa_mem s" "[p]" fs H] by (auto simp: sta_box_def)
  ultimately show ?thesis using m(3) by (auto simp: sta_exit_def sta_box_sel)
qed

lemma sta_no_challenge_witness:
  "\<exists>s'. wf_auth_sta_thrd auth_env_ex 0 (rsp_ex 1 Sta_wait2 2 0 [0, 1, 65]) = Some (s', PT_EXITED, Some (-5)) \<and> sta_box s' [] [11] {10}"
proof -
  have "\<exists>s'. wf_auth_sta_thrd auth_env_ex 0 (rsp_ex 1 Sta_wait2 2 0 [0, 1, 65]) = Some (s', PT_EXITED, Some (-5)) \<and> \<not> sa_lock s' \<and> 10 \<notin> ({} :: ptr set) \<and>
      sta_box s' [] [11] (insert 10 {})"
    by (rule sta_no_challenge [OF rsp_ex_rsp, where es = "[(0, [65])]" and hdr = "replicate 22 0" and rest = "replicate 147 0"])
      (simp_all add: rsp_ex_def ies_ok_def ie_enc_def)
  then show ?thesis by blast
qed

end
