(* ===== verification/Assoc.thy ===== *)
theory Assoc
  imports Auth Ie
begin

text \<open>
  Association of a station, \<open>src/trunk_driver/nic/assoc.c\<close>: the request that is built from the peer
  (\<open>associate_xmit_frame\<close>), the protothread \<open>wf_assoc_sta_thrd\<close>, reception, start and stop. The side of the access
  point is in \<open>Assoc_Ap\<close>.

  The thread has the structure of the first loop of authentication and uses the same queue, timer and labels (\<open>Auth\<close>). The peer
  is the one with the current BSSID. A frame is built in the buffer of the transmit path, whose contents are a
  parameter; the first 64 bytes behind the descriptor are cleared. Wi-Fi Direct is not in use (\<open>wf_p2p_is_valid\<close> is
  false). The buffers for responses hold \<open>WF_80211_MGMT_ASSOC_SIZE_MAX\<close> (796) bytes.
\<close>

section \<open>State\<close>

text \<open>The members of \<open>sec_info_st\<close> and of \<open>wf_wlan_network_t\<close> that association uses; \<open>assoc_req.ie\<close> has 794 and
  \<open>assoc_resp.ie\<close> 768 bytes.\<close>

record assoc_sec =
  as_wpa_enable :: bool
  as_rsn_enable :: bool
  supplicant_ie :: bytes

record assoc_net =
  an_bssid :: bytes
  an_aid :: int
  an_req_ie :: bytes
  an_req_len :: u32
  an_resp_ie :: bytes
  an_resp_len :: u32

record assoc_env = auth_env +
  ax_buf :: "auth_event list \<Rightarrow> bytes"

datatype asc_pc = As_begin | As_start | As_send | As_wait

record sta_assoc =
  sc_mac :: bytes
  sc_peer :: "wdn_net_info option"
  sc_hw_n :: bool
  sc_sec :: assoc_sec
  sc_net :: assoc_net
  sc_out :: "auth_event list"
  sc_que :: wf_msg_que
  sc_mem :: msg_mem
  sc_pt :: asc_pc
  sc_retry :: u8
  sc_timer :: wf_timer
  sc_run :: bool
  sc_lock :: bool

definition WF_ASSOC_TAG_RSP :: u16 where "WF_ASSOC_TAG_RSP = WF_MSG_TAG_SET 0 0 0"
definition WF_ASSOC_TAG_ABORT :: u16 where "WF_ASSOC_TAG_ABORT = WF_MSG_TAG_SET 0 1 0"
definition WF_ASSOC_TAG_START :: u16 where "WF_ASSOC_TAG_START = WF_MSG_TAG_SET 0 2 0"
definition WF_ASSOC_TAG_DONE :: u16 where "WF_ASSOC_TAG_DONE = WF_ASSOC_TAG_START + 1"

abbreviation (input) ASSOC_REQ_RESEND_TIMES :: u8 where "ASSOC_REQ_RESEND_TIMES \<equiv> 3"
abbreviation (input) ASSOC_RSP_TIMEOUT :: u32 where "ASSOC_RSP_TIMEOUT \<equiv> 50"

section \<open>The request\<close>

text \<open>\<open>wf_80211_mgmt_ht_cap_t\<close> as the bytes of the packed structure.\<close>

definition ht_cap_bytes :: "ht_cap \<Rightarrow> bytes" where
  "ht_cap_bytes h = le16_bytes (hc_cap_info h) @ [hc_ampdu_params_info h] @ hc_supp_mcs_set h @ le16_bytes (hc_extended_ht_cap_info h) @
     le32_bytes (hc_tx_BF_cap_info h) @ [hc_antenna_selection_info h]"

definition WMM_IE :: bytes where
  "WMM_IE = [0x00, 0x50, 0xf2, 0x02, 0x00, 0x01, 0x00]"

text \<open>The calls of \<open>set_ie\<close>, in order: id, length and source. The element of the supplicant is read from its second
  byte on.\<close>

definition assoc_ies :: "wdn_net_info \<Rightarrow> assoc_sec \<Rightarrow> bool \<Rightarrow> (u8 \<times> u8 \<times> bytes) list option" where
  "assoc_ies w sec n_support = do {
     sup \<leftarrow> (if as_wpa_enable sec \<or> as_rsn_enable sec
              then do { l \<leftarrow> rd8 (supplicant_ie sec) 1; Some [(if as_wpa_enable sec then 221 else 48, l, drop 2 (supplicant_ie sec))] }
              else Some []);
     Some ([(0, wdn_ssid_len w, wdn_ssid w), (1, datarate_len w, datarate w)] @
           (if 0 < ext_datarate_len w then [(50, ext_datarate_len w, ext_datarate w)] else []) @ sup @
           (if wmm_enable w then [(221, 7, WMM_IE)] else []) @
           (if ht_enable w \<and> n_support then [(45, 26, ht_cap_bytes (wdn_ht_cap w))] else []))
   }"

fun put_ies :: "(u8 \<times> u8 \<times> bytes) list \<Rightarrow> bytes \<Rightarrow> nat \<Rightarrow> u32 \<Rightarrow> (bytes \<times> u32) option" where
  "put_ies [] buf pframe frlen = Some (buf, frlen)"
| "put_ies ((i, l, src) # ies) buf pframe frlen = do {
     (buf', pframe', frlen') \<leftarrow> set_ie buf pframe i l src frlen;
     put_ies ies buf' pframe' frlen'
   }"

text \<open>\<open>buf\<close> is the transmit buffer behind the descriptor. The capability and the listen interval are copied as they
  are in memory. When the frame has been sent its fields from the listen interval on are kept.\<close>

definition associate_xmit_frame :: "assoc_env \<Rightarrow> sta_assoc \<Rightarrow> (sta_assoc \<times> int) option" where
  "associate_xmit_frame env s =
     (if \<not> au_extbuf env (sc_out s) then Some (s, -1)
      else (case sc_peer s of
        None \<Rightarrow> Some (s, -2)
      | Some w \<Rightarrow> do {
          b0 \<leftarrow> wrn (ax_buf env (sc_out s)) 0 (replicate 64 0);
          b1 \<leftarrow> wrn b0 4 (wdn_mac w);
          b2 \<leftarrow> wrn b1 10 (sc_mac s);
          b3 \<leftarrow> wrn b2 16 (wdn_bssid w);
          b4 \<leftarrow> wrn b3 24 (le16_bytes (wdn_cap_info w));
          b5 \<leftarrow> wrn b4 26 (le16_bytes (listen_interval w));
          ies \<leftarrow> assoc_ies w (sc_sec s) (sc_hw_n s);
          (b6, frlen) \<leftarrow> put_ies ies b5 28 28;
          frame \<leftarrow> rdn b6 0 (unat (ucast frlen :: u16));
          let ie_len = frlen - 26;
          ie \<leftarrow> rdn b6 26 (unat ie_len);
          ie' \<leftarrow> wrn (an_req_ie (sc_net s)) 0 ie;
          Some (s\<lparr>sc_out := sc_out s @ [Frame_xmit frame], sc_net := (sc_net s)\<lparr>an_req_len := ie_len, an_req_ie := ie'\<rparr>\<rparr>, 0)
        }))"

section \<open>The thread\<close>

definition asc_exit :: "int \<Rightarrow> sta_assoc \<Rightarrow> sta_assoc \<times> asc_pc pt_next" where
  "asc_exit reason s =
     (let r = (if sc_retry s = ASSOC_REQ_RESEND_TIMES then -3 else reason)
      in (s\<lparr>sc_run := False, sc_lock := False\<rparr>, Fin (if r \<noteq> 0 then PT_EXITED else PT_ENDED) r))"

definition asc_del :: "ptr \<Rightarrow> msg_mem \<Rightarrow> sta_assoc \<Rightarrow> sta_assoc" where
  "asc_del p m s = s\<lparr>sc_mem := box_del (sc_que s) p m\<rparr>"

definition asc_get_start :: "sta_assoc \<Rightarrow> sta_assoc \<times> asc_pc pt_next" where
  "asc_get_start s =
     (case box_pop (sc_que s) (sc_mem s) of
        (m, _, None) \<Rightarrow> (s\<lparr>sc_mem := m, sc_lock := False\<rparr>, Fin PT_EXITED (-1))
      | (m, _, Some pmsg) \<Rightarrow>
          if tag m pmsg \<noteq> WF_ASSOC_TAG_START then (asc_del pmsg m s, Back As_start PT_YIELDED)
          else ((asc_del pmsg m s)\<lparr>sc_run := True, sc_retry := 0\<rparr>, Goto As_send))"

text \<open>A response with status 0: AID and elements are kept. \<open>ie_len\<close> is computed in 32 bits.\<close>

definition asc_accept :: "ptr \<Rightarrow> msg_mem \<Rightarrow> sta_assoc \<Rightarrow> (sta_assoc \<times> asc_pc pt_next) option" where
  "asc_accept pmsg m s = do {
     let mgmt_len = (ucast (msg_len m pmsg) :: u16);
     aid \<leftarrow> rd_le16 (msg_value m pmsg) 28;
     let ie_len = (ucast mgmt_len - 30 :: u32);
     ie \<leftarrow> rdn (msg_value m pmsg) 30 (unat ie_len);
     ie' \<leftarrow> wrn (an_resp_ie (sc_net s)) 0 ie;
     Some (asc_exit (uint WF_ASSOC_TAG_DONE)
       ((asc_del pmsg m s)\<lparr>sc_net := (sc_net s)\<lparr>an_aid := uint aid, an_resp_len := ie_len, an_resp_ie := ie'\<rparr>\<rparr>))
   }"

definition asc_wait_rsp :: "u32 \<Rightarrow> sta_assoc \<Rightarrow> (sta_assoc \<times> asc_pc pt_next) option" where
  "asc_wait_rsp now s =
     (case box_pop (sc_que s) (sc_mem s) of
        (m, _, None) \<Rightarrow>
          Some (if wf_timer_expired now (sc_timer s) then (s\<lparr>sc_mem := m, sc_retry := sc_retry s + 1\<rparr>, Goto As_send)
                else (s\<lparr>sc_mem := m\<rparr>, Back As_wait PT_WAITING))
      | (m, _, Some pmsg) \<Rightarrow>
          if tag m pmsg = WF_ASSOC_TAG_ABORT then Some (asc_exit (uint WF_ASSOC_TAG_ABORT) (asc_del pmsg m s))
          else if tag m pmsg = WF_ASSOC_TAG_RSP then do {
            status_code \<leftarrow> rd_le16 (msg_value m pmsg) 26;
            if status_code = 0 then asc_accept pmsg m s
            else Some ((asc_del pmsg m s)\<lparr>sc_retry := sc_retry s + 1\<rparr>, Goto As_send)
          }
          else Some (asc_del pmsg m s, Goto As_wait))"

definition asc_step :: "assoc_env \<Rightarrow> u32 \<Rightarrow> asc_pc \<Rightarrow> sta_assoc \<Rightarrow> (sta_assoc \<times> asc_pc pt_next) option" where
  "asc_step env now pc s =
     (case pc of
        As_begin \<Rightarrow> Some (if sc_lock s then (s, Back As_begin PT_WAITING) else (s\<lparr>sc_lock := True\<rparr>, Goto As_start))
      | As_start \<Rightarrow> Some (asc_get_start s)
      | As_send \<Rightarrow>
          if sc_retry s < ASSOC_REQ_RESEND_TIMES then do {
            (s1, rst) \<leftarrow> associate_xmit_frame env s;
            Some (if rst \<noteq> 0 then asc_exit (-2) s1
                  else (s1\<lparr>sc_timer := wf_timer_set (au_msecs env) now ASSOC_RSP_TIMEOUT\<rparr>, Goto As_wait))
          }
          else Some (asc_exit (uint WF_ASSOC_TAG_DONE) s)
      | As_wait \<Rightarrow> asc_wait_rsp now s)"

definition asc_return :: "sta_assoc \<times> asc_pc pt_next \<Rightarrow> sta_assoc \<times> pt_ret \<times> int option" where
  "asc_return r =
     (case r of
        (s, Goto pc) \<Rightarrow> (s\<lparr>sc_pt := pc\<rparr>, PT_WAITING, None)
      | (s, Back pc r) \<Rightarrow> (s\<lparr>sc_pt := pc\<rparr>, r, None)
      | (s, Fin r rsn) \<Rightarrow> (s\<lparr>sc_pt := As_begin\<rparr>, r, Some rsn))"

definition wf_assoc_sta_thrd :: "assoc_env \<Rightarrow> u32 \<Rightarrow> sta_assoc \<Rightarrow> (sta_assoc \<times> pt_ret \<times> int option) option" where
  "wf_assoc_sta_thrd env now s = map_option asc_return (pt_run (asc_step env now) (sc_pt s) s)"

section \<open>Starting, stopping and receiving\<close>

text \<open>The message blocks of the three functions; only \<open>wf_assoc_start\<close> does not give the message back when it cannot be made pending
  (\<open>del\<close>).\<close>

definition asc_msg_send ::
  "u16 \<Rightarrow> bool \<Rightarrow> int \<Rightarrow> int \<Rightarrow> (ptr \<Rightarrow> msg_mem \<Rightarrow> msg_mem option) \<Rightarrow> sta_assoc \<Rightarrow> (sta_assoc \<times> int) option" where
  "asc_msg_send tg del err_new err_push fill s = do {
     (m1, rst, pmsg) \<leftarrow> box_new (sc_que s) tg (sc_mem s);
     (case pmsg of
        None \<Rightarrow> Some (s\<lparr>sc_mem := m1\<rparr>, err_new)
      | Some p \<Rightarrow> do {
          m2 \<leftarrow> fill p m1;
          (m3, rst) \<leftarrow> box_push (sc_que s) p m2;
          Some (if rst \<noteq> 0 then (s\<lparr>sc_mem := if del then box_del (sc_que s) p m3 else m3\<rparr>, err_push) else (s\<lparr>sc_mem := m3\<rparr>, 0))
        })
   }"

definition wf_assoc_start :: "bool \<Rightarrow> bool \<Rightarrow> sta_assoc \<Rightarrow> (sta_assoc \<times> int) option" where
  "wf_assoc_start cannot_run up s =
     (if cannot_run then Some (s, -1)
      else if \<not> up then Some (s, -2)
      else asc_msg_send WF_ASSOC_TAG_START False (-3) (-4) (\<lambda>p m. Some m) s)"

definition wf_assoc_stop :: "bool \<Rightarrow> bool \<Rightarrow> sta_assoc \<Rightarrow> (sta_assoc \<times> int) option" where
  "wf_assoc_stop cannot_run up s =
     (if cannot_run then Some (s, -1)
      else if \<not> up then Some (s, -2)
      else if \<not> sc_run s then Some (s, -3)
      else asc_msg_send WF_ASSOC_TAG_ABORT True (-4) (-5) (\<lambda>p m. Some m) s)"

text \<open>\<open>pw\<close> is the peer that sent the frame, \<open>mlme_assoc\<close> says that the state of the connection is \<open>MLME_STATE_ASSOC\<close>.\<close>

definition wf_assoc_frame_parse :: "bool \<Rightarrow> wdn_net_info option \<Rightarrow> bytes option \<Rightarrow> u16 \<Rightarrow> sta_assoc \<Rightarrow> (sta_assoc \<times> int) option" where
  "wf_assoc_frame_parse mlme_assoc pw pmgmt mgmt_len s =
     (case pmgmt of
        None \<Rightarrow> Some (s, -1)
      | Some mgmt \<Rightarrow>
          if mgmt_len = 0 then Some (s, -1)
          else if \<not> mlme_assoc then Some (s, -2)
          else (case pw of
            None \<Rightarrow> Some (s, -3)
          | Some w \<Rightarrow> do {
              da \<leftarrow> rdn mgmt 4 6;
              if da \<noteq> sc_mac s \<or> wdn_bssid w \<noteq> an_bssid (sc_net s) then Some (s, -4)
              else if 796 < unat mgmt_len then Some (s, -5)
              else asc_msg_send WF_ASSOC_TAG_RSP True (-6) (-7)
                     (\<lambda>p m. do {
                        bs \<leftarrow> rdn mgmt 0 (unat mgmt_len);
                        v \<leftarrow> wrn (msg_value m p) 0 bs;
                        Some (box_write p (ucast mgmt_len) v m)
                      }) s
            }))"

section \<open>Initialisation and termination\<close>

definition assoc_msg_init :: "wf_msg_que \<Rightarrow> ptr option list \<Rightarrow> msg_mem \<Rightarrow> msg_mem \<times> int" where
  "assoc_msg_init mq allocs m =
     (case wf_msg_alloc mq WF_ASSOC_TAG_RSP 796 2 allocs (wf_msg_init mq m) of
        (m1, r1) \<Rightarrow>
          if r1 \<noteq> 0 then (m1, -1)
          else (case wf_msg_alloc mq WF_ASSOC_TAG_ABORT 0 1 (drop 2 allocs) m1 of
            (m2, r2) \<Rightarrow>
              if r2 \<noteq> 0 then (m2, -1)
              else (case wf_msg_alloc mq WF_ASSOC_TAG_START 0 1 (drop 3 allocs) m2 of
                (m3, r3) \<Rightarrow> (m3, if r3 \<noteq> 0 then -1 else 0))))"

definition wf_assoc_init :: "bool \<Rightarrow> ptr option list \<Rightarrow> sta_assoc \<Rightarrow> sta_assoc option \<times> int" where
  "wf_assoc_init kz allocs s =
     (if \<not> kz then (None, -2)
      else let (m, r) = assoc_msg_init (sc_que s) allocs (sc_mem s);
               s1 = s\<lparr>sc_mem := m, sc_pt := As_begin, sc_retry := 0, sc_timer := \<lparr>tm_start = 0, tm_expire = 0, tm_interval = 0\<rparr>, sc_run := False\<rparr>
           in (Some s1, if r \<noteq> 0 then -3 else 0))"

definition wf_assoc_term :: "sta_assoc option \<Rightarrow> (ptr list \<times> int) option" where
  "wf_assoc_term passoc_info =
     (case passoc_info of
        None \<Rightarrow> Some ([], 0)
      | Some s \<Rightarrow> do { (ps, r) \<leftarrow> wf_msg_free (sc_que s) (sc_mem s); Some (ps, 0) })"

end
