(* ===== verification/Assoc_Ap.thy ===== *)
theory Assoc_Ap
  imports Assoc Auth_Ap Wdn
begin

text \<open>
  Association with an access point, \<open>src/trunk_driver/nic/assoc.c\<close> lines 33 to 791 and 1007 to 1046: the thread
  \<open>wf_assoc_ap_thrd\<close> that follows authentication, the response, disassociation and reception.

  \<open>ap_sta\<close> is a peer of the access point: the part that authentication uses (\<open>ap_auth\<close>, with the queue of
  frames) and the members that association fills in (\<open>ap_wdn\<close>). The thread never waits, so it is a function. Each element of the
  request has a handler that returns the peer and, if the request is refused, the status code. \<open>ciphers\<close> are the
  four local variables for parsed ciphers, which are not initialised: their first values are a parameter. The response is built in the
  transmit buffer, which is larger than any response. Wi-Fi Direct is not in use.
\<close>

section \<open>State\<close>

text \<open>The four cipher sets, of \<open>sec_info_st\<close> and of the local variables.\<close>

record ciphers =
  wpa_multicast_cipher :: u32
  wpa_unicast_cipher :: u32
  rsn_group_cipher :: u32
  rsn_pairwise_cipher :: u32

text \<open>The network of the access point. \<open>ssid.data\<close> has 33 bytes, \<open>rate\<close> 16, \<open>pht_cap\<close> 26 and \<open>pht_oper\<close> 22.\<close>

record ap_net =
  nt_mac :: bytes
  nt_ssid :: bytes
  nt_ssid_len :: u32
  nt_cap_info :: u16
  nt_rate :: bytes
  nt_rate_len :: u8
  nt_ht_enable :: bool
  nt_ht_cap :: bytes
  nt_ht_oper :: bytes
  nt_sec :: ciphers

text \<open>\<open>ai_ht_cap\<close> are the 26 bytes of \<open>ht_cap\<close>, \<open>ai_ht_info\<close> the 8 bytes of the pointer \<open>ht_info\<close>.\<close>

record ap_wdn =
  ai_cap_info :: u16
  ai_listen_interval :: u16
  ai_ssid :: bytes
  ai_ssid_len :: u8
  ai_datarate :: bytes
  ai_datarate_len :: u8
  ai_ext_datarate :: bytes
  ai_ext_datarate_len :: u8
  ai_network_type :: u32
  ai_ht_enable :: bool
  ai_ht_cap :: bytes
  ai_ht_info :: bytes
  ai_bw_mode :: u8
  ai_wmm_enable :: bool
  ai_wmm_info :: bytes
  ai_wpa_enable :: bool
  ai_rsn_enable :: bool
  ai_unicast :: u32
  ai_pairwise :: u32
  ai_wpa_ie :: bytes
  ai_wpa_ie_len :: u16
  ai_raid :: u8
  ai_tx_rate :: u8

record ap_sta =
  ps_auth :: ap_auth
  ps_assoc :: ap_wdn

abbreviation (input) WF_80211_STATUS_UNSPECIFIED_FAILURE :: u16 where "WF_80211_STATUS_UNSPECIFIED_FAILURE \<equiv> 1"
abbreviation (input) WF_80211_STATUS_ASSOC_DENIED_RATES :: u16 where "WF_80211_STATUS_ASSOC_DENIED_RATES \<equiv> 18"
abbreviation (input) WF_80211_STATUS_INVALID_IE :: u16 where "WF_80211_STATUS_INVALID_IE \<equiv> 40"
abbreviation (input) WF_80211_STATUS_INVALID_GROUP_CIPHER :: u16 where "WF_80211_STATUS_INVALID_GROUP_CIPHER \<equiv> 41"
abbreviation (input) WF_80211_STATUS_INVALID_PAIRWISE_CIPHER :: u16 where "WF_80211_STATUS_INVALID_PAIRWISE_CIPHER \<equiv> 42"
abbreviation (input) WF_80211_FRM_ASSOC_REQ :: u16 where "WF_80211_FRM_ASSOC_REQ \<equiv> 0"
abbreviation (input) WF_80211_FRM_ASSOC_RESP :: u16 where "WF_80211_FRM_ASSOC_RESP \<equiv> 0x10"
abbreviation (input) WF_80211_FRM_REASSOC_REQ :: u16 where "WF_80211_FRM_REASSOC_REQ \<equiv> 0x20"
abbreviation (input) WF_80211_FRM_REASSOC_RESP :: u16 where "WF_80211_FRM_REASSOC_RESP \<equiv> 0x30"
abbreviation (input) WF_80211_FRM_DISASSOC :: u16 where "WF_80211_FRM_DISASSOC \<equiv> 0xA0"

section \<open>Sent frames\<close>

text \<open>\<open>pw\<close> is the peer with the address, if the table has one.\<close>

definition disassoc_xmit_frame :: "auth_env \<Rightarrow> auth_peer option \<Rightarrow> u16 \<Rightarrow> auth_dev \<Rightarrow> auth_dev \<times> int" where
  "disassoc_xmit_frame env pw reason_code d =
     (case pw of
        None \<Rightarrow> (d, -1)
      | Some w \<Rightarrow>
          if \<not> au_extbuf env (ad_out d) then (d, -1)
          else (auth_emit (Frame_xmit (auth_hdr WF_80211_FRM_DISASSOC w (ad_bssid d) d @ le16_bytes reason_code)) d, 0))"

definition put_ie :: "u8 \<Rightarrow> u8 \<Rightarrow> bytes \<Rightarrow> bytes option" where
  "put_ie eid len src = map_option (\<lambda>d. [eid, len] @ d) (rdn src 0 (unat len))"

definition assoc_rsp_var :: "ap_net \<Rightarrow> ap_wdn \<Rightarrow> bytes option" where
  "assoc_rsp_var net w = do {
     rates \<leftarrow> put_ie 1 8 (ai_datarate w);
     ext \<leftarrow> (if 8 < nt_rate_len net then put_ie 50 (nt_rate_len net - 8) (ai_ext_datarate w) else Some []);
     ht \<leftarrow> (if ai_ht_enable w then do { c \<leftarrow> put_ie 45 26 (nt_ht_cap net); oper \<leftarrow> put_ie 61 22 (nt_ht_oper net); Some (c @ oper) } else Some []);
     wpa \<leftarrow> (if ai_wpa_enable w \<or> ai_rsn_enable w then rdn (ai_wpa_ie w) 0 (unat (ai_wpa_ie_len w)) else Some []);
     Some (rates @ ext @ ht @ wpa)
   }"

definition assoc_ap_xmit_frame :: "auth_env \<Rightarrow> ap_net \<Rightarrow> u16 \<Rightarrow> u16 \<Rightarrow> ap_sta \<Rightarrow> ap_sta option" where
  "assoc_ap_xmit_frame env net type status s =
     (let a = ps_auth s; d = aa_dev a in
      if \<not> au_extbuf env (ad_out d) then Some s
      else do {
        let rsp = (if type = WF_80211_FRM_ASSOC_REQ then WF_80211_FRM_ASSOC_RESP else if type = WF_80211_FRM_REASSOC_REQ then WF_80211_FRM_REASSOC_RESP else type);
        var \<leftarrow> assoc_rsp_var net (ps_assoc s);
        let frame = le16_bytes rsp @ [0, 0] @ aw_mac (aa_peer a) @ nt_mac net @ ad_bssid d @ [0, 0] @
          le16_bytes (nt_cap_info net) @ le16_bytes status @ le16_bytes (ucast (aa_aid a OR 0xC000)) @ var;
        Some (s\<lparr>ps_auth := a\<lparr>aa_dev := auth_emit (Frame_xmit frame) d\<rparr>\<rparr>)
      })"

section \<open>Elements of the request\<close>

definition ie_ssid :: "ap_net \<Rightarrow> bytes \<Rightarrow> nat \<Rightarrow> ap_wdn \<Rightarrow> (ap_wdn \<times> u16 option) option" where
  "ie_ssid net buf pie w = do {
     len \<leftarrow> rd8 buf (pie + 1);
     same \<leftarrow> (if ucast len = nt_ssid_len net
               then do { d \<leftarrow> rdn buf (pie + 2) (unat len); s \<leftarrow> rdn (nt_ssid net) 0 (unat len); Some (d = s) } else Some False);
     if same then do {
       d \<leftarrow> rdn (nt_ssid net) 0 (unat (nt_ssid_len net));
       s1 \<leftarrow> wrn (ai_ssid w) 0 d;
       s2 \<leftarrow> wrn s1 (unat (ucast (nt_ssid_len net) :: u8)) [0];
       Some (w\<lparr>ai_ssid_len := ucast (nt_ssid_len net), ai_ssid := s2\<rparr>, None)
     }
     else Some (w, Some WF_80211_STATUS_INVALID_IE)
   }"

text \<open>The inner loop over the rates of the network ends at the first 0.\<close>

definition net_has_rate :: "bytes \<Rightarrow> u8 \<Rightarrow> bool" where
  "net_has_rate rates r \<longleftrightarrow> list_ex (\<lambda>x. r AND NOT 0x80 = x AND NOT 0x80) (takeWhile (\<lambda>x. x \<noteq> 0) rates)"

text \<open>The array of the peer with its count, and whether all rates had room.\<close>

fun ap_rates_loop :: "bytes \<Rightarrow> nat \<Rightarrow> bytes \<Rightarrow> nat \<Rightarrow> nat \<Rightarrow> bytes \<Rightarrow> u8 \<Rightarrow> (bytes \<times> u8 \<times> bool) option" where
  "ap_rates_loop rates sz buf pos 0 arr n = Some (arr, n, True)"
| "ap_rates_loop rates sz buf pos (Suc k) arr n = do {
     r \<leftarrow> rd8 buf pos;
     if net_has_rate rates r
     then (if unat n < sz then do { arr' \<leftarrow> wrn arr (unat n) [r]; ap_rates_loop rates sz buf (pos + 1) k arr' (n + 1) }
           else Some (arr, n, False))
     else ap_rates_loop rates sz buf (pos + 1) k arr n
   }"

definition ap_network_type :: "bytes \<Rightarrow> u8 \<Rightarrow> u32 \<Rightarrow> u32 option" where
  "ap_network_type arr n t = do {
     only \<leftarrow> only_cckrates arr (unat n);
     if only = 1 then Some (t OR WIRELESS_11B)
     else do { have_cck \<leftarrow> have_cckrates arr (unat n); Some (t OR (if have_cck = 1 then WIRELESS_11BG else WIRELESS_11G)) }
   }"

text \<open>Both elements with rates: the array has \<open>sz\<close> bytes, \<open>over\<close> is the status for an element that is too long. The
  array is cleared, the count is not.\<close>

definition ie_rates ::
  "ap_net \<Rightarrow> nat \<Rightarrow> u16 \<Rightarrow> bytes \<Rightarrow> nat \<Rightarrow> bytes \<Rightarrow> u8 \<Rightarrow> u32 \<Rightarrow> (bytes \<times> u8 \<times> u32 \<times> u16 option) option" where
  "ie_rates net sz over buf pie arr n t = do {
     len \<leftarrow> rd8 buf (pie + 1);
     if sz < unat len then Some (arr, n, t, Some over)
     else do {
       (arr', n', fits) \<leftarrow> ap_rates_loop (nt_rate net) sz buf (pie + 2) (unat len) (replicate sz 0) n;
       if \<not> fits \<or> n' = 0 then Some (arr', n', t, Some WF_80211_STATUS_ASSOC_DENIED_RATES)
       else do { t' \<leftarrow> ap_network_type arr' n' t; Some (arr', n', t', None) }
     }
   }"

definition ie_supp_rates :: "ap_net \<Rightarrow> bytes \<Rightarrow> nat \<Rightarrow> ap_wdn \<Rightarrow> (ap_wdn \<times> u16 option) option" where
  "ie_supp_rates net buf pie w = do {
     (arr, n, t, st) \<leftarrow> ie_rates net 8 WF_80211_STATUS_INVALID_IE buf pie (ai_datarate w) (ai_datarate_len w) (ai_network_type w);
     Some (w\<lparr>ai_datarate := arr, ai_datarate_len := n, ai_network_type := t\<rparr>, st)
   }"

definition ie_ext_rates :: "ap_net \<Rightarrow> bytes \<Rightarrow> nat \<Rightarrow> ap_wdn \<Rightarrow> (ap_wdn \<times> u16 option) option" where
  "ie_ext_rates net buf pie w = do {
     (arr, n, t, st) \<leftarrow> ie_rates net 4 WF_80211_STATUS_ASSOC_DENIED_RATES buf pie (ai_ext_datarate w) (ai_ext_datarate_len w) (ai_network_type w);
     Some (w\<lparr>ai_ext_datarate := arr, ai_ext_datarate_len := n, ai_network_type := t\<rparr>, st)
   }"

text \<open>An accepted security element is kept, at most its first 32 bytes. Its length is an 8-bit variable.\<close>

definition keep_sec_ie :: "bytes \<Rightarrow> nat \<Rightarrow> u8 \<Rightarrow> ap_wdn \<Rightarrow> ap_wdn option" where
  "keep_sec_ie buf pie wpa_ie_len w = do {
     let n = min 32 (unat wpa_ie_len);
     d \<leftarrow> rdn buf pie n;
     ie \<leftarrow> wrn (ai_wpa_ie w) 0 d;
     Some (w\<lparr>ai_wpa_ie := ie, ai_wpa_ie_len := of_nat n\<rparr>)
   }"

definition stored :: "u32 option \<Rightarrow> u32 \<Rightarrow> u32" where
  "stored new old = (case new of None \<Rightarrow> old | Some v \<Rightarrow> v)"

definition ie_rsn :: "ap_net \<Rightarrow> bytes \<Rightarrow> nat \<Rightarrow> ap_wdn \<times> ciphers \<Rightarrow> ((ap_wdn \<times> ciphers) \<times> u16 option) option" where
  "ie_rsn net buf pie x = do {
     len \<leftarrow> rd8 buf (pie + 1);
     let wpa_ie_len = 2 + len;
     (ret, g, p) \<leftarrow> wf_80211_mgmt_rsn_parse (Some buf) pie (ucast wpa_ie_len) True True;
     let w = fst x;
     let c = (snd x)\<lparr>rsn_group_cipher := stored g (rsn_group_cipher (snd x)), rsn_pairwise_cipher := stored p (rsn_pairwise_cipher (snd x))\<rparr>;
     if ret \<noteq> 0 then Some ((w, c), Some WF_80211_STATUS_INVALID_IE)
     else if rsn_group_cipher c \<noteq> rsn_group_cipher (nt_sec net) then Some ((w, c), Some WF_80211_STATUS_INVALID_GROUP_CIPHER)
     else do {
       let w1 = w\<lparr>ai_pairwise := rsn_pairwise_cipher c AND rsn_pairwise_cipher (nt_sec net)\<rparr>;
       if ai_pairwise w1 = 0 then Some ((w1, c), Some WF_80211_STATUS_INVALID_PAIRWISE_CIPHER)
       else do { w2 \<leftarrow> keep_sec_ie buf pie wpa_ie_len w1; Some ((w2\<lparr>ai_rsn_enable := True\<rparr>, c), None) }
     }
   }"

definition ie_wpa :: "ap_net \<Rightarrow> bytes \<Rightarrow> nat \<Rightarrow> ap_wdn \<times> ciphers \<Rightarrow> ((ap_wdn \<times> ciphers) \<times> u16 option) option" where
  "ie_wpa net buf pie x = do {
     len \<leftarrow> rd8 buf (pie + 1);
     let wpa_ie_len = 2 + len;
     (ret, g, p) \<leftarrow> wf_80211_mgmt_wpa_parse (Some buf) pie (ucast wpa_ie_len) True True;
     let w = fst x;
     let c = (snd x)\<lparr>wpa_multicast_cipher := stored g (wpa_multicast_cipher (snd x)), wpa_unicast_cipher := stored p (wpa_unicast_cipher (snd x))\<rparr>;
     if ret < 0 \<and> -3 \<le> ret then Some ((w, c), Some WF_80211_STATUS_INVALID_IE)
     else if ret \<noteq> 0 then Some ((w, c), None)
     else if wpa_multicast_cipher c \<noteq> wpa_multicast_cipher (nt_sec net) then Some ((w, c), Some WF_80211_STATUS_INVALID_GROUP_CIPHER)
     else do {
       let w1 = w\<lparr>ai_unicast := wpa_unicast_cipher c AND wpa_unicast_cipher (nt_sec net)\<rparr>;
       if ai_unicast w1 = 0 then Some ((w1, c), Some WF_80211_STATUS_INVALID_PAIRWISE_CIPHER)
       else do { w2 \<leftarrow> keep_sec_ie buf pie wpa_ie_len w1; Some ((w2\<lparr>ai_wpa_enable := True\<rparr>, c), None) }
     }
   }"

definition ie_wmm :: "bytes \<Rightarrow> nat \<Rightarrow> ap_wdn \<Rightarrow> (ap_wdn \<times> u16 option) option" where
  "ie_wmm buf pie w = do {
     len \<leftarrow> rd8 buf (pie + 1);
     ret \<leftarrow> wf_80211_mgmt_wmm_parse (Some (drop pie buf)) (2 + ucast len);
     if ret < 0 \<and> -2 \<le> ret then Some (w, Some WF_80211_STATUS_INVALID_IE)
     else if ret \<noteq> 0 then Some (w, None)
     else do { d \<leftarrow> rdn buf pie (2 + unat len); i \<leftarrow> wrn (ai_wmm_info w) 0 d; Some (w\<lparr>ai_wmm_enable := True, ai_wmm_info := i\<rparr>, None) }
   }"

definition ie_ht_cap :: "ap_net \<Rightarrow> bytes \<Rightarrow> nat \<Rightarrow> ap_wdn \<Rightarrow> (ap_wdn \<times> u16 option) option" where
  "ie_ht_cap net buf pie w =
     (if \<not> nt_ht_enable net then Some (w, Some WF_80211_STATUS_UNSPECIFIED_FAILURE)
      else do {
        len \<leftarrow> rd8 buf (pie + 1);
        d \<leftarrow> rdn buf (pie + 2) (unat len);
        c \<leftarrow> wrn (ai_ht_cap w) 0 d;
        Some (w\<lparr>ai_ht_enable := True, ai_ht_cap := c, ai_network_type := ai_network_type w OR WIRELESS_11_24N\<rparr>, None)
      })"

definition ie_ht_oper :: "ap_net \<Rightarrow> bytes \<Rightarrow> nat \<Rightarrow> ap_wdn \<Rightarrow> (ap_wdn \<times> u16 option) option" where
  "ie_ht_oper net buf pie w =
     (if \<not> nt_ht_enable net then Some (w, Some WF_80211_STATUS_UNSPECIFIED_FAILURE)
      else do {
        len \<leftarrow> rd8 buf (pie + 1);
        d \<leftarrow> rdn buf (pie + 2) (unat len);
        i \<leftarrow> wrn (ai_ht_info w) 0 d;
        Some (w\<lparr>ai_ht_info := i\<rparr>, None)
      })"

definition on_peer :: "(ap_wdn \<Rightarrow> (ap_wdn \<times> u16 option) option) \<Rightarrow> ap_wdn \<times> ciphers \<Rightarrow> ((ap_wdn \<times> ciphers) \<times> u16 option) option" where
  "on_peer h x = map_option (\<lambda>(w, st). ((w, snd x), st)) (h (fst x))"

definition ap_ie :: "ap_net \<Rightarrow> bytes \<Rightarrow> nat \<Rightarrow> ap_wdn \<times> ciphers \<Rightarrow> ((ap_wdn \<times> ciphers) \<times> u16 option) option" where
  "ap_ie net buf pie x = do {
     element_id \<leftarrow> rd8 buf pie;
     if element_id = 0 then on_peer (ie_ssid net buf pie) x
     else if element_id = 1 then on_peer (ie_supp_rates net buf pie) x
     else if element_id = 50 then on_peer (ie_ext_rates net buf pie) x
     else if element_id = 48 then ie_rsn net buf pie x
     else if element_id = 221 then do {
       (x1, st) \<leftarrow> ie_wpa net buf pie x;
       (case st of Some e \<Rightarrow> Some (x1, Some e) | None \<Rightarrow> on_peer (ie_wmm buf pie) x1)
     }
     else if element_id = 45 then on_peer (ie_ht_cap net buf pie) x
     else if element_id = 61 then on_peer (ie_ht_oper net buf pie) x
     else Some (x, None)
   }"

text \<open>The loop: \<open>ofs\<close> and \<open>var_len\<close> have 16 bits, the elements start at \<open>base\<close>.\<close>

partial_function (option) ap_ies_loop ::
  "ap_net \<Rightarrow> bytes \<Rightarrow> nat \<Rightarrow> u16 \<Rightarrow> u16 \<Rightarrow> ap_wdn \<Rightarrow> ciphers \<Rightarrow> (ap_wdn \<times> u16 option) option" where
  "ap_ies_loop net buf base var_len ofs w c =
     (if ofs < var_len then do {
        ((w', c'), st) \<leftarrow> ap_ie net buf (base + unat ofs) (w, c);
        (case st of
           Some e \<Rightarrow> Some (w', Some e)
         | None \<Rightarrow> do {
             len \<leftarrow> rd8 buf (base + unat ofs + 1);
             ap_ies_loop net buf base var_len (ofs + (2 + ucast len)) w' c'
           })
      }
      else Some (w, None))"

section \<open>The thread\<close>

definition ap_wdn_reset :: "u16 \<Rightarrow> u16 \<Rightarrow> ap_wdn \<Rightarrow> ap_wdn" where
  "ap_wdn_reset cap li w = w\<lparr>ai_cap_info := cap, ai_listen_interval := li, ai_pairwise := 0, ai_wmm_enable := False, ai_wpa_enable := False,
     ai_rsn_enable := False, ai_datarate_len := 0, ai_ext_datarate_len := 0, ai_ssid_len := 0, ai_wpa_ie := replicate 32 0\<rparr>"

definition wf_ap_add_sta_ratid :: "ap_sta \<Rightarrow> ap_sta" where
  "wf_ap_add_sta_ratid s =
     (if aa_aid (ps_auth s) < 32 then
        (let w = ps_assoc s;
             (v, r) = wf_wdn_get_raid_by_network_type (wdn_zero\<lparr>network_type := ai_network_type w, bw_mode := ai_bw_mode w, tx_rate := ai_tx_rate w\<rparr>)
         in s\<lparr>ps_assoc := w\<lparr>ai_raid := r, ai_tx_rate := tx_rate v\<rparr>,
              ps_auth := (ps_auth s)\<lparr>aa_dev := auth_emit (Mcu_rate_table_update r) (aa_dev (ps_auth s))\<rparr>\<rparr>)
      else s)"

definition wf_assoc_ap_event_up :: "ap_sta \<Rightarrow> ap_sta" where
  "wf_assoc_ap_event_up s =
     (if 2007 < aa_aid (ps_auth s) then s
      else s\<lparr>ps_auth := (ps_auth s)\<lparr>aa_dev := auth_emit Ap_ind_assoc (aa_dev (ps_auth s))\<rparr>\<rparr>)"

definition wf_assoc_ap_thrd :: "auth_env \<Rightarrow> ap_net \<Rightarrow> ciphers \<Rightarrow> ap_sta \<Rightarrow> (ap_sta \<times> pt_ret) option" where
  "wf_assoc_ap_thrd env net loc s =
     (let a = ps_auth s in
      case wf_ap_msg_get (aa_que a) (aa_mem a) of
        None \<Rightarrow> Some (s, PT_EXITED)
      | Some pmsg \<Rightarrow>
          if am_tag (aa_mem a) pmsg \<noteq> WF_AP_MSG_TAG_ASSOC_REQ_FRAME
          then (let a1 = ap_del pmsg a
                in Some (s\<lparr>ps_auth := a1\<lparr>aa_dev := fst (disassoc_xmit_frame env (Some (aa_peer a1)) 4 (aa_dev a1))\<rparr>\<rparr>, PT_EXITED))
          else do {
            let mgmt = am_mgmt (aa_mem a) pmsg;
            fc \<leftarrow> rd_le16 mgmt 0;
            let frame_type = fc AND 0xFC;
            cap \<leftarrow> rd_le16 mgmt 24;
            li \<leftarrow> rd_le16 mgmt 26;
            let base = (if frame_type = WF_80211_FRM_ASSOC_REQ then 28 else 34);
            let var_len = am_len (aa_mem a) pmsg - of_nat base;
            (w, st) \<leftarrow> ap_ies_loop net mgmt base var_len 0 (ap_wdn_reset cap li (ps_assoc s)) loc;
            let s1 = s\<lparr>ps_auth := ap_del pmsg (a\<lparr>aa_state := E_WDN_AP_STATE_ASSOC\<rparr>), ps_assoc := w\<rparr>;
            (case st of
               Some status_code \<Rightarrow> do { s2 \<leftarrow> assoc_ap_xmit_frame env net frame_type status_code s1; Some (s2, PT_EXITED) }
             | None \<Rightarrow> do {
                 s2 \<leftarrow> assoc_ap_xmit_frame env net frame_type WF_80211_STATUS_SUCCESS s1;
                 let s3 = s2\<lparr>ps_auth := (ps_auth s2)\<lparr>aa_dev := auth_emit Ap_odm_connect (aa_dev (ps_auth s2))\<rparr>\<rparr>;
                 Some (wf_assoc_ap_event_up (wf_ap_add_sta_ratid s3), PT_ENDED)
               })
          })"

section \<open>Reception\<close>

definition wf_assoc_ap_work :: "ap_sta option \<Rightarrow> bytes \<Rightarrow> u16 \<Rightarrow> (ap_sta option \<times> int) option" where
  "wf_assoc_ap_work pw mgmt mgmt_len =
     (case pw of
        None \<Rightarrow> Some (None, -1)
      | Some s \<Rightarrow>
          if 796 < unat mgmt_len then Some (pw, -2)
          else do {
            fc \<leftarrow> rd_le16 mgmt 0;
            let a = ps_auth s;
            if fc AND 0xFC \<noteq> WF_80211_FRM_ASSOC_REQ \<and> fc AND 0xFC \<noteq> WF_80211_FRM_REASSOC_REQ then Some (pw, -3)
            else if aa_mode a \<noteq> WF_MASTER_MODE then Some (pw, -4)
            else do {
              (m, r) \<leftarrow> wf_ap_msg_load (aa_free a) (aa_que a) WF_AP_MSG_TAG_ASSOC_REQ_FRAME (Some mgmt) mgmt_len (aa_mem a);
              Some (Some (s\<lparr>ps_auth := a\<lparr>aa_mem := m\<rparr>\<rparr>), if r \<noteq> 0 then -5 else 0)
            }
          })"

definition disassoc_work_ap :: "ap_sta option \<Rightarrow> bytes \<Rightarrow> u16 \<Rightarrow> (ap_sta option \<times> int) option" where
  "disassoc_work_ap pw mgmt mgmt_len =
     (case pw of
        None \<Rightarrow> Some (None, -1)
      | Some s \<Rightarrow>
          if 26 < unat mgmt_len then Some (pw, -3)
          else do {
            fc \<leftarrow> rd_le16 mgmt 0;
            let a = ps_auth s;
            if fc AND 0xFC \<noteq> WF_80211_FRM_DISASSOC then Some (pw, -4)
            else do {
              (m, r) \<leftarrow> wf_ap_msg_load (aa_free a) (aa_que a) WF_AP_MSG_TAG_DISASSOC_FRAME (Some mgmt) mgmt_len (aa_mem a);
              Some (Some (s\<lparr>ps_auth := a\<lparr>aa_mem := m\<rparr>\<rparr>), if r \<noteq> 0 then -5 else 0)
            }
          })"

text \<open>The dispatch by the mode of the device. \<open>known\<close> says that the sender is a peer; a station leaves its network, with the
  reason code of the frame.\<close>

definition wf_disassoc_frame_parse ::
  "auth_env \<Rightarrow> sys_work_mode \<Rightarrow> bool \<Rightarrow> ap_sta option \<Rightarrow> bytes \<Rightarrow> u16 \<Rightarrow> auth_dev \<Rightarrow> (auth_dev \<times> ap_sta option \<times> int) option" where
  "wf_disassoc_frame_parse env wmode known pw mgmt mgmt_len d =
     (if wmode = WF_INFRA_MODE then
        (if known then do {
           reason_code \<leftarrow> rd_le16 mgmt 24;
           Some (auth_emit (Mlme_deauth reason_code) d, pw, if au_mlme_deauth env (ad_out d) \<noteq> 0 then -1 else 0)
         }
         else Some (d, pw, 0))
      else if wmode = WF_MASTER_MODE then do {
        (pw', rst) \<leftarrow> disassoc_work_ap pw mgmt mgmt_len;
        Some (d, pw', if rst \<noteq> 0 then -2 else 0)
      }
      else Some (d, pw, -3))"

end
