(* ===== verification/Assoc_Req.thy ===== *)
theory Assoc_Req
  imports Assoc_Ap
begin

text \<open>
  How the access point treats the elements of an association request. \<open>elem_good\<close> says that the network accepts an
  element, \<open>take_elem\<close> what the peer takes from it; \<open>ap_loop_accepts\<close> is the loop over any
  list of such elements. \<open>peer_within\<close> holds of the peer after any request, well formed or not.
\<close>

section \<open>One element\<close>

definition ap_wdn_wf :: "ap_wdn \<Rightarrow> bool" where
  "ap_wdn_wf w \<longleftrightarrow> length (ai_ssid w) = 32 \<and> length (ai_datarate w) = 8 \<and> length (ai_ext_datarate w) = 4 \<and> length (ai_ht_cap w) = 26 \<and>
     length (ai_ht_info w) = 8 \<and> length (ai_wmm_info w) = 24 \<and> length (ai_wpa_ie w) = 32 \<and> (ai_wpa_enable w \<or> ai_rsn_enable w \<longrightarrow> unat (ai_wpa_ie_len w) \<le> 32)"

definition ap_net_wf :: "ap_net \<Rightarrow> bool" where
  "ap_net_wf net \<longleftrightarrow> length (nt_mac net) = 6 \<and> length (nt_ssid net) = 33 \<and> nt_ssid_len net < 32 \<and> length (nt_rate net) = 16 \<and> nt_rate_len net \<le> 12 \<and>
     length (nt_ht_cap net) = 26 \<and> length (nt_ht_oper net) = 22"

definition net_ssid :: "ap_net \<Rightarrow> bytes" where
  "net_ssid net = take (unat (nt_ssid_len net)) (nt_ssid net)"

definition net_rates :: "ap_net \<Rightarrow> bytes \<Rightarrow> bytes" where
  "net_rates net rs = filter (net_has_rate (nt_rate net)) rs"

text \<open>The pairwise ciphers that an RSN element and the network have in common.\<close>

definition rsn_good :: "ap_net \<Rightarrow> bytes \<Rightarrow> bool" where
  "rsn_good net d \<longleftrightarrow> (\<exists>grp cs extra. d = cipher_body grp cs @ extra \<and> cs \<noteq> [] \<and> rsne_cipher_suite_parse grp = rsn_group_cipher (nt_sec net) \<and>
     fold (\<lambda>c a. a OR rsne_cipher_suite_parse c) cs 0 AND rsn_pairwise_cipher (nt_sec net) \<noteq> 0)"

definition elem_good :: "ap_net \<Rightarrow> elem \<Rightarrow> bool" where
  "elem_good net e \<longleftrightarrow> length (snd e) \<le> 253 \<and>
     (if fst e = 0 then snd e = net_ssid net
      else if fst e = 1 then length (snd e) \<le> 8 \<and> net_rates net (snd e) \<noteq> []
      else if fst e = 50 then length (snd e) \<le> 4 \<and> net_rates net (snd e) \<noteq> []
      else if fst e = 48 then rsn_good net (snd e)
      else if fst e = 221 then snd e = WMM_IE
      else if fst e = 45 then nt_ht_enable net \<and> length (snd e) = 26
      else fst e \<noteq> 61)"

definition pad_to :: "nat \<Rightarrow> bytes \<Rightarrow> bytes" where
  "pad_to n bs = bs @ replicate (n - length bs) 0"

definition over :: "bytes \<Rightarrow> bytes \<Rightarrow> bytes" where
  "over new old = new @ drop (length new) old"

lemma length_over [simp]: "length new \<le> length old \<Longrightarrow> length (over new old) = length old"
  by (simp add: over_def)

lemma length_pad_to [simp]: "length bs \<le> n \<Longrightarrow> length (pad_to n bs) = n"
  by (simp add: pad_to_def)

lemma wrn_over: "length new \<le> length old \<Longrightarrow> wrn old 0 new = Some (over new old)"
  by (simp add: wrn_def over_def)

text \<open>The pairwise ciphers of an RSN element, and the peer after an element.\<close>

definition elem_pairwise :: "elem \<Rightarrow> u32" where
  "elem_pairwise e = (case wf_80211_mgmt_rsn_parse (Some (ie_enc e)) 0 (of_nat (2 + length (snd e))) True True of Some (_, _, Some p) \<Rightarrow> p | _ \<Rightarrow> 0)"

definition take_elem :: "ap_net \<Rightarrow> elem \<Rightarrow> ap_wdn \<Rightarrow> ap_wdn" where
  "take_elem net e w =
     (let d = snd e; rs = net_rates net d in
      if fst e = 0 then w\<lparr>ai_ssid_len := of_nat (length d), ai_ssid := over (d @ [0]) (ai_ssid w)\<rparr>
      else if fst e = 1 then w\<lparr>ai_datarate := pad_to 8 rs, ai_datarate_len := of_nat (length rs), ai_network_type := ai_network_type w OR type_of_rates rs\<rparr>
      else if fst e = 50 then w\<lparr>ai_ext_datarate := pad_to 4 rs, ai_ext_datarate_len := of_nat (length rs), ai_network_type := ai_network_type w OR type_of_rates rs\<rparr>
      else if fst e = 48 then
        (let ie = take 32 (ie_enc e)
         in w\<lparr>ai_rsn_enable := True, ai_pairwise := elem_pairwise e AND rsn_pairwise_cipher (nt_sec net),
              ai_wpa_ie := over ie (ai_wpa_ie w), ai_wpa_ie_len := of_nat (length ie)\<rparr>)
      else if fst e = 221 then w\<lparr>ai_wmm_enable := True, ai_wmm_info := over (ie_enc e) (ai_wmm_info w)\<rparr>
      else if fst e = 45 then w\<lparr>ai_ht_enable := True, ai_ht_cap := d, ai_network_type := ai_network_type w OR WIRELESS_11_24N\<rparr>
      else w)"

lemma elem_at:
  assumes "length (snd e) \<le> 253" "buf = pre @ ie_enc e @ post" "pie = length pre"
  shows "rd8 buf pie = Some (fst e)" "rd8 buf (pie + 1) = Some (of_nat (length (snd e)))" "rd8 buf (Suc pie) = Some (of_nat (length (snd e)))"
    "rdn buf (pie + 2) (length (snd e)) = Some (snd e)" "n \<le> 2 + length (snd e) \<Longrightarrow> rdn buf pie n = Some (take n (ie_enc e))"
    "unat (of_nat (length (snd e)) :: u8) = length (snd e)"
proof -
  show "rd8 buf pie = Some (fst e)" "rd8 buf (pie + 1) = Some (of_nat (length (snd e)))" "rd8 buf (Suc pie) = Some (of_nat (length (snd e)))"
    using assms(2,3) by (simp_all add: rd8_def ie_enc_def nth_append)
  show "rdn buf (pie + 2) (length (snd e)) = Some (snd e)"
    using rdn_append_mid [of "pre @ [fst e, of_nat (length (snd e))]" "snd e" post] assms(2,3) by (simp add: ie_enc_def)
  show "n \<le> 2 + length (snd e) \<Longrightarrow> rdn buf pie n = Some (take n (ie_enc e))" using assms(2,3) by (simp add: rdn_def)
  show "unat (of_nat (length (snd e)) :: u8) = length (snd e)" using assms(1) by (intro unat_len_byte) simp
qed

lemma ssid_elem:
  assumes "elem_good net e" "fst e = 0" "ap_wdn_wf w" "ap_net_wf net" "buf = pre @ ie_enc e @ post" "pie = length pre"
  shows "ie_ssid net buf pie w = Some (take_elem net e w, None)"
proof -
  have e: "length (snd e) \<le> 253" "snd e = net_ssid net" using assms(1,2) by (auto simp: elem_good_def)
  note r = elem_at [OF e(1) assms(5,6)]
  let ?n = "unat (nt_ssid_len net)"
  have n: "?n < 32" "length (nt_ssid net) = 33" using assms(4) by (simp_all add: ap_net_wf_def word_less_nat_alt)
  then have l: "length (snd e) = ?n" using e(2) by (simp add: net_ssid_def)
  have u: "(ucast (of_nat (length (snd e)) :: u8) :: u32) = nt_ssid_len net"
    using ucast_of_nat_unat [of "of_nat (length (snd e)) :: u8", where 'b = 32, unfolded r(6)] unfolding l by simp
  have v: "(ucast (nt_ssid_len net) :: u8) = of_nat ?n" by (rule ucast_of_nat_unat)
  have rs: "rdn (nt_ssid net) 0 ?n = Some (snd e)" using n e(2) by (simp add: rdn_def net_ssid_def)
  have w: "length (ai_ssid w) = 32" using assms(3) by (simp add: ap_wdn_wf_def)
  have s1: "wrn (ai_ssid w) 0 (snd e) = Some (over (snd e) (ai_ssid w))" using l n w by (intro wrn_over) simp
  have s2: "wrn (over (snd e) (ai_ssid w)) ?n [0] = Some (over (snd e @ [0]) (ai_ssid w))"
    using l n w by (simp add: wrn_def over_def)
  have un: "unat (of_nat ?n :: u8) = ?n" using n by (intro unat_len_byte) simp
  show ?thesis unfolding ie_ssid_def v using r(2,3,4,6) rs s1 s2 u l un assms(2) by (simp add: take_elem_def Let_def del: of_nat_unat)
qed

lemma ap_rates_loop_result:
  assumes "pos = length pre" "unat n + length (filter (net_has_rate rates) rs) \<le> sz" "length arr = sz" "sz < 256"
  shows "ap_rates_loop rates sz (pre @ rs @ post) pos (length rs) arr n =
    (let vs = filter (net_has_rate rates) rs in Some (take (unat n) arr @ vs @ drop (unat n + length vs) arr, n + of_nat (length vs), True))"
  using assms
proof (induction rs arbitrary: pos pre arr n)
  case (Cons r rs)
  have rd: "rd8 (pre @ (r # rs) @ post) pos = Some r" using Cons.prems(1) by (simp add: rd8_def)
  show ?case
  proof (cases "net_has_rate rates r")
    case True
    let ?arr = "arr[unat n := r]"
    have n: "unat n < sz" "unat (n + 1) = unat n + 1" using True Cons.prems(2,4) by (simp_all add: unat_word_ariths)
    have w: "wrn arr (unat n) [r] = Some ?arr" using n Cons.prems(3) by (simp add: wrn_def upd_conv_take_nth_drop)
    have "ap_rates_loop rates sz ((pre @ [r]) @ rs @ post) (pos + 1) (length rs) ?arr (n + 1) =
        (let vs = filter (net_has_rate rates) rs in Some (take (unat (n + 1)) ?arr @ vs @ drop (unat (n + 1) + length vs) ?arr, n + 1 + of_nat (length vs), True))"
      by (rule Cons.IH) (use True Cons.prems n in simp_all)
    moreover have "take (Suc (unat n)) ?arr = take (unat n) arr @ [r]" using n Cons.prems(3) by (simp add: take_Suc_conv_app_nth)
    ultimately show ?thesis using True rd w n by (simp add: Let_def add.assoc)
  next
    case False
    have "ap_rates_loop rates sz ((pre @ [r]) @ rs @ post) (pos + 1) (length rs) arr n =
        (let vs = filter (net_has_rate rates) rs in Some (take (unat n) arr @ vs @ drop (unat n + length vs) arr, n + of_nat (length vs), True))"
      by (rule Cons.IH) (use False Cons.prems in simp_all)
    then show ?thesis using False rd by simp
  qed
qed simp

lemma ap_network_type_result:
  assumes "unat n \<le> length arr"
  shows "ap_network_type arr n t = Some (t OR type_of_rates (take (unat n) arr))"
proof -
  have n: "0 + unat n \<le> length arr" using assms by simp
  show ?thesis
    unfolding ap_network_type_def only_cckrates_def have_cckrates_def only_cckrates_loop_all [OF n] have_cckrates_loop_any [OF n] drop_0
      bind.bind_lunit type_of_rates_def
    by (cases "\<forall>r\<in>set (take (unat n) arr). cck_rate r"; cases "\<exists>r\<in>set (take (unat n) arr). cck_rate r")
      (simp_all only: simp_thms if_True if_False bind.bind_lunit option.inject, simp_all)
qed

lemma rates_elem:
  assumes "length (snd e) \<le> sz" "sz \<le> 8" "net_rates net (snd e) \<noteq> []" "buf = pre @ ie_enc e @ post" "pie = length pre"
  shows "ie_rates net sz st buf pie arr 0 t =
    (let rs = net_rates net (snd e) in Some (pad_to sz rs, of_nat (length rs), t OR type_of_rates rs, None))"
proof -
  have e: "length (snd e) \<le> 253" using assms(1,2) by simp
  note r = elem_at [OF e assms(4,5)]
  let ?rs = "net_rates net (snd e)"
  have l: "length ?rs \<le> length (snd e)" by (simp add: net_rates_def)
  have b: "buf = (pre @ [fst e, of_nat (length (snd e))]) @ snd e @ post" using assms(4) by (simp add: ie_enc_def)
  have u: "unat (of_nat (length ?rs) :: u8) = length ?rs" using l e by (intro unat_len_byte) simp
  have loop: "ap_rates_loop (nt_rate net) sz buf (pie + 2) (length (snd e)) (replicate sz 0) 0 = Some (pad_to sz ?rs, of_nat (length ?rs), True)"
    unfolding b using ap_rates_loop_result [of "pie + 2" "pre @ [fst e, of_nat (length (snd e))]" 0 "nt_rate net" "snd e" sz "replicate sz 0" post]
      le_trans [OF l assms(1)] assms(2,5) by (simp add: Let_def pad_to_def net_rates_def)
  have nz: "(of_nat (length ?rs) :: u8) \<noteq> 0" using u assms(3) by (auto simp: word_unat_eq_iff)
  have nt: "ap_network_type (pad_to sz ?rs) (of_nat (length ?rs)) t = Some (t OR type_of_rates ?rs)"
    using ap_network_type_result [of "of_nat (length ?rs)" "pad_to sz ?rs" t] l assms(1) u by (simp add: pad_to_def)
  show ?thesis unfolding ie_rates_def using r loop nz nt assms(1) by (simp add: Let_def)
qed

lemma rsn_elem:
  assumes "elem_good net e" "fst e = 48" "ap_wdn_wf w" "buf = pre @ ie_enc e @ post" "pie = length pre"
  shows "\<exists>c'. ie_rsn net buf pie (w, c) = Some ((take_elem net e w, c'), None)"
proof -
  have e: "length (snd e) \<le> 253" "rsn_good net (snd e)" using assms(1,2) by (auto simp: elem_good_def)
  note r = elem_at [OF e(1) assms(4,5)]
  obtain grp cs extra where d: "snd e = cipher_body grp cs @ extra" "cs \<noteq> []" "rsne_cipher_suite_parse grp = rsn_group_cipher (nt_sec net)"
    "fold (\<lambda>c a. a OR rsne_cipher_suite_parse c) cs 0 AND rsn_pairwise_cipher (nt_sec net) \<noteq> 0"
    using e(2) by (auto simp: rsn_good_def)
  let ?l = "length (snd e)" and ?p = "fold (\<lambda>c a. a OR rsne_cipher_suite_parse c) cs 0"
  let ?c = "c\<lparr>rsn_group_cipher := rsne_cipher_suite_parse grp, rsn_pairwise_cipher := ?p\<rparr>"
  have len: "?l = 8 + 4 * length cs + length extra" using d(1) by (simp add: length_cipher_body)
  have u: "2 + of_nat ?l = (of_nat (2 + ?l) :: u8)" by simp
  have un: "unat (of_nat (2 + ?l) :: u8) = 2 + ?l" using e(1) by (intro unat_len_byte) simp
  have uc: "(ucast (of_nat (2 + ?l) :: u8) :: u16) = of_nat (2 + ?l)" unfolding ucast_of_nat_unat un ..
  have b: "buf = pre @ [48, of_nat ?l] @ cipher_body grp cs @ extra @ post" using assms(2,4) by (simp add: ie_enc_def d(1))
  have parse: "wf_80211_mgmt_rsn_parse (Some buf) pie (of_nat (2 + ?l)) True True = Some (0, Some (rsne_cipher_suite_parse grp), Some ?p)"
    unfolding b assms(5) by (rule rsn_parse_at) (use d(2) e(1) len r(6) in simp_all)
  have pw: "elem_pairwise e = ?p"
  proof -
    have "ie_enc e = [] @ [48, of_nat ?l] @ cipher_body grp cs @ extra" using assms(2) d(1) by (simp add: ie_enc_def)
    moreover have "wf_80211_mgmt_rsn_parse (Some ([] @ [48, of_nat ?l] @ cipher_body grp cs @ extra)) (length ([] :: bytes)) (of_nat (2 + ?l)) True True =
        Some (0, Some (rsne_cipher_suite_parse grp), Some ?p)"
      by (rule rsn_parse_at) (use d(2) e(1) len r(6) in simp_all)
    ultimately show ?thesis by (simp add: elem_pairwise_def del: of_nat_add)
  qed
  let ?n = "min 32 (2 + ?l)" and ?w = "w\<lparr>ai_pairwise := ?p AND rsn_pairwise_cipher (nt_sec net)\<rparr>"
  have "length (take ?n (ie_enc e)) \<le> length (ai_wpa_ie w)" using assms(3) by (simp add: ap_wdn_wf_def)
  then have keep: "keep_sec_ie buf pie (of_nat (2 + ?l)) ?w = Some (?w\<lparr>ai_wpa_ie := over (take ?n (ie_enc e)) (ai_wpa_ie w), ai_wpa_ie_len := of_nat ?n\<rparr>)"
    unfolding keep_sec_ie_def un using r(5) [of ?n] wrn_over [of "take ?n (ie_enc e)" "ai_wpa_ie w"] by (simp add: Let_def)
  have t: "take ?n (ie_enc e) = take 32 (ie_enc e)" by (simp add: min_def)
  have "ie_rsn net buf pie (w, c) = Some ((take_elem net e w, ?c), None)"
    unfolding ie_rsn_def r(2) bind.bind_lunit Let_def u uc parse using d(3,4) keep t assms(2)
    by (simp add: stored_def take_elem_def pw Let_def min.commute del: of_nat_add)
  then show ?thesis by blast
qed

lemma wmm_elem:
  assumes "elem_good net e" "fst e = 221" "ap_wdn_wf w" "buf = pre @ ie_enc e @ post" "pie = length pre"
  shows "\<exists>c'. ie_wpa net buf pie (w, c) = Some ((w, c'), None)" "ie_wmm buf pie w = Some (take_elem net e w, None)"
proof -
  have d: "snd e = WMM_IE" "length (snd e) \<le> 253" using assms(1,2) by (auto simp: elem_good_def WMM_IE_def)
  note r = elem_at [OF d(2) assms(4,5)]
  have l: "length (snd e) = 7" using d(1) by (simp add: WMM_IE_def)
  have enc: "ie_enc e = [221, 7, 0x00, 0x50, 0xf2, 0x02, 0x00, 0x01, 0x00]" using d(1) assms(2) by (simp add: ie_enc_def WMM_IE_def)
  have b: "buf = (pre @ [221, 7]) @ be32_bytes 0x0050f202 @ [0x00, 0x01, 0x00] @ post" using assms(4) by (simp add: enc be32_bytes_def le32_bytes_def)
  have o: "rd_be32 buf (pie + 2) = Some 0x0050f202" unfolding b using rd_be32_at [of "pre @ [221, 7]" "0x0050f202" "[0x00, 0x01, 0x00] @ post"] assms(5) by simp
  have len: "rd8 buf pie = Some 221" "rd8 buf (pie + 1) = Some 7" "rd8 buf (Suc pie) = Some 7" using r(1-3) l assms(2) by simp_all
  have "wf_80211_mgmt_wpa_parse (Some buf) pie 9 True True = Some (-4, None, None)"
    using len o by (simp add: wf_80211_mgmt_wpa_parse_def Let_def)
  then show "\<exists>c'. ie_wpa net buf pie (w, c) = Some ((w, c'), None)" using len by (simp add: ie_wpa_def Let_def)
  have "drop pie buf = ie_enc e @ post" using assms(4,5) by simp
  then have p: "wf_80211_mgmt_wmm_parse (Some (drop pie buf)) 9 = Some 0" by (simp add: wf_80211_mgmt_wmm_parse_def enc rd8_def rdn_def)
  have f: "rdn buf pie 9 = Some (ie_enc e)" using r(5) [of 9] l by simp
  have "wrn (ai_wmm_info w) 0 (ie_enc e) = Some (over (ie_enc e) (ai_wmm_info w))" using assms(3) l by (intro wrn_over) (simp add: ap_wdn_wf_def)
  then show "ie_wmm buf pie w = Some (take_elem net e w, None)" using len p f assms(2) by (simp add: ie_wmm_def take_elem_def Let_def)
qed

lemma ht_cap_elem:
  assumes "elem_good net e" "fst e = 45" "ap_wdn_wf w" "buf = pre @ ie_enc e @ post" "pie = length pre"
  shows "ie_ht_cap net buf pie w = Some (take_elem net e w, None)"
proof -
  have d: "nt_ht_enable net" "length (snd e) = 26" "length (snd e) \<le> 253" using assms(1,2) by (auto simp: elem_good_def)
  note r = elem_at [OF d(3) assms(4,5)]
  have "wrn (ai_ht_cap w) 0 (snd e) = Some (over (snd e) (ai_ht_cap w))" "over (snd e) (ai_ht_cap w) = snd e"
    using assms(3) d(2) by (simp_all add: wrn_over ap_wdn_wf_def over_def)
  then show ?thesis unfolding ie_ht_cap_def using r(2-4,6) d(1,2) assms(2) by (simp add: take_elem_def Let_def)
qed

text \<open>Rates are taken into empty arrays.\<close>

definition rates_room :: "elem \<Rightarrow> ap_wdn \<Rightarrow> bool" where
  "rates_room e w \<longleftrightarrow> (fst e = 1 \<longrightarrow> ai_datarate_len w = 0) \<and> (fst e = 50 \<longrightarrow> ai_ext_datarate_len w = 0)"

lemma ap_ie_elem:
  assumes "elem_good net e" "ap_wdn_wf w" "ap_net_wf net" "rates_room e w" "buf = pre @ ie_enc e @ post" "pie = length pre"
  shows "\<exists>c'. ap_ie net buf pie (w, c) = Some ((take_elem net e w, c'), None)"
proof -
  have len: "length (snd e) \<le> 253" using assms(1) by (simp add: elem_good_def)
  have id: "rd8 buf pie = Some (fst e)" by (rule elem_at [OF len assms(5,6)])
  consider "fst e = 0" | "fst e = 1" | "fst e = 50" | "fst e = 48" | "fst e = 221" | "fst e = 45" | "fst e \<notin> {0, 1, 50, 48, 221, 45, 61}"
    using assms(1) by (auto simp: elem_good_def split: if_splits)
  then show ?thesis
  proof cases
    case 1
    then show ?thesis using id ssid_elem [OF assms(1) 1 assms(2,3,5,6)] by (simp add: ap_ie_def on_peer_def)
  next
    case 2
    have g: "length (snd e) \<le> 8" "net_rates net (snd e) \<noteq> []" using assms(1) 2 by (auto simp: elem_good_def)
    then show ?thesis using 2 id rates_elem [OF g(1) _ g(2) assms(5,6)] assms(4) by (simp add: ap_ie_def on_peer_def ie_supp_rates_def rates_room_def take_elem_def Let_def)
  next
    case 3
    have g: "length (snd e) \<le> 4" "net_rates net (snd e) \<noteq> []" using assms(1) 3 by (auto simp: elem_good_def)
    then show ?thesis using 3 id rates_elem [OF g(1) _ g(2) assms(5,6)] assms(4) by (simp add: ap_ie_def on_peer_def ie_ext_rates_def rates_room_def take_elem_def Let_def)
  next
    case 4
    then show ?thesis using id rsn_elem [OF assms(1) 4 assms(2,5,6)] by (simp add: ap_ie_def)
  next
    case 5
    obtain c' where "ie_wpa net buf pie (w, c) = Some ((w, c'), None)" using wmm_elem(1) [OF assms(1) 5 assms(2,5,6)] by blast
    then show ?thesis using 5 id wmm_elem(2) [OF assms(1) 5 assms(2,5,6)] by (simp add: ap_ie_def on_peer_def)
  next
    case 6
    then show ?thesis using id ht_cap_elem [OF assms(1) 6 assms(2,5,6)] by (simp add: ap_ie_def on_peer_def)
  next
    case 7
    then show ?thesis using id by (simp add: ap_ie_def take_elem_def Let_def)
  qed
qed

section \<open>All elements\<close>

lemma take_elem_wf:
  assumes "elem_good net e" "ap_wdn_wf w" "ap_net_wf net"
  shows "ap_wdn_wf (take_elem net e w)"
proof -
  have r: "length (net_rates net (snd e)) \<le> length (snd e)" by (simp add: net_rates_def)
  have l: "length (net_ssid net) < 32" using assms(3) by (simp add: ap_net_wf_def net_ssid_def word_less_nat_alt)
  have n: "unat (of_nat (length (take 32 (ie_enc e))) :: u16) \<le> 32" by (subst unat_of_nat_u16) simp_all
  consider "fst e = 0" | "fst e = 1" | "fst e = 50" | "fst e = 48" | "fst e = 221" | "fst e = 45" | "fst e \<notin> {0, 1, 50, 48, 221, 45}" by blast
  then show ?thesis
  proof cases
    case 1
    then show ?thesis using assms(1,2) l by (auto simp: ap_wdn_wf_def take_elem_def elem_good_def Let_def)
  next
    case 2
    then have "length (net_rates net (snd e)) \<le> 8" using assms(1) r by (auto simp: elem_good_def)
    then show ?thesis using 2 assms(2) by (simp add: ap_wdn_wf_def take_elem_def Let_def)
  next
    case 3
    then have "length (net_rates net (snd e)) \<le> 4" using assms(1) r by (auto simp: elem_good_def)
    then show ?thesis using 3 assms(2) by (simp add: ap_wdn_wf_def take_elem_def Let_def)
  next
    case 4
    have "length (over (take 32 (ie_enc e)) (ai_wpa_ie w)) = 32" using assms(2) by (simp add: ap_wdn_wf_def)
    then show ?thesis using 4 assms(2) n by (simp add: ap_wdn_wf_def take_elem_def Let_def del: length_take)
  next
    case 5
    then show ?thesis using assms(1,2) by (auto simp: ap_wdn_wf_def take_elem_def elem_good_def WMM_IE_def Let_def)
  next
    case 6
    then show ?thesis using assms(1,2) by (auto simp: ap_wdn_wf_def take_elem_def elem_good_def Let_def)
  next
    case 7
    then show ?thesis using assms(2) by (simp add: take_elem_def Let_def)
  qed
qed

lemma take_elem_room: "rates_room x w \<Longrightarrow> fst x = 1 \<or> fst x = 50 \<Longrightarrow> fst e \<noteq> fst x \<Longrightarrow> rates_room x (take_elem net e w)"
  by (auto simp: rates_room_def take_elem_def Let_def)

definition rates_once :: "elem list \<Rightarrow> bool" where
  "rates_once es \<longleftrightarrow> distinct (filter (\<lambda>i. i = 1 \<or> i = 50) (map fst es))"

lemma ap_loop_accepts:
  assumes "\<forall>e\<in>set es. elem_good net e \<and> rates_room e w" "rates_once es" "ap_wdn_wf w" "ap_net_wf net"
    "length pre = base + unat ofs" "unat var_len = unat ofs + length (ies_enc es)"
  shows "ap_ies_loop net (pre @ ies_enc es @ rest) base var_len ofs w c = Some (fold (take_elem net) es w, None)"
  using assms
proof (induction es arbitrary: pre ofs w c)
  case Nil
  then have "\<not> ofs < var_len" by (simp add: word_less_nat_alt)
  then show ?case by (simp add: ap_ies_loop.simps)
next
  case (Cons e es)
  let ?b = "pre @ ies_enc (e # es) @ rest" and ?p = "base + unat ofs" and ?o = "ofs + (2 + ucast (of_nat (length (snd e)) :: u8)) :: u16"
  have e: "elem_good net e" "rates_room e w" "length (snd e) \<le> 253" using Cons.prems(1) by (auto simp: elem_good_def)
  have b: "?b = pre @ ie_enc e @ ies_enc es @ rest" "?p = length pre" using Cons.prems(5) by simp_all
  obtain c1 where c1: "ap_ie net ?b ?p (w, c) = Some ((take_elem net e w, c1), None)"
    using ap_ie_elem [OF e(1) Cons.prems(3,4) e(2) b] by blast
  have rd: "rd8 ?b (?p + 1) = Some (of_nat (length (snd e)))" by (rule elem_at [OF e(3) b])
  have less: "ofs < var_len" using Cons.prems(6) by (simp add: word_less_nat_alt)
  have o: "unat ?o = unat ofs + length (ie_enc e)"
  proof -
    have "unat ofs + (2 + length (snd e)) < 2 ^ 16" using Cons.prems(6) unat_u16_less [of var_len] by simp
    moreover have "?o = of_nat (unat ofs + (2 + length (snd e)))" using elem_at(6) [OF e(3) b] by (simp add: ucast_of_nat_unat)
    ultimately show ?thesis by (simp only: unat_of_nat_u16) simp
  qed
  have room: "\<forall>x\<in>set es. elem_good net x \<and> rates_room x (take_elem net e w)"
  proof (intro ballI conjI)
    fix x assume x: "x \<in> set es"
    then show "elem_good net x" using Cons.prems(1) by simp
    show "rates_room x (take_elem net e w)"
    proof (cases "fst x = 1 \<or> fst x = 50")
      case True
      then have "fst e \<noteq> fst x" using Cons.prems(2) x by (auto simp: rates_once_def)
      then show ?thesis using True Cons.prems(1) x by (intro take_elem_room) auto
    next
      case False
      then show ?thesis by (simp add: rates_room_def)
    qed
  qed
  have once: "rates_once es" using Cons.prems(2) by (auto simp: rates_once_def split: if_splits)
  have "ap_ies_loop net ((pre @ ie_enc e) @ ies_enc es @ rest) base var_len ?o (take_elem net e w) c1 = Some (fold (take_elem net) es (take_elem net e w), None)"
    by (rule Cons.IH [OF room once take_elem_wf [OF e(1) Cons.prems(3,4)] Cons.prems(4)]) (use Cons.prems(5,6) o in simp_all)
  then show ?case using less c1 rd by (subst ap_ies_loop.simps) simp
qed

section \<open>What any request can do\<close>

text \<open>The peer stays within what the network allows. A second element with rates clears the array but not the count, so
  that zeros may be among the rates.\<close>

definition rates_within :: "ap_net \<Rightarrow> bytes \<Rightarrow> bool" where
  "rates_within net rs \<longleftrightarrow> list_all (\<lambda>r. r = 0 \<or> net_has_rate (nt_rate net) r) rs"

definition peer_within :: "ap_net \<Rightarrow> ap_wdn \<Rightarrow> bool" where
  "peer_within net w \<longleftrightarrow>
     rates_within net (take (unat (ai_datarate_len w)) (ai_datarate w)) \<and> rates_within net (take (unat (ai_ext_datarate_len w)) (ai_ext_datarate w)) \<and>
     unat (ai_datarate_len w) \<le> 8 \<and> unat (ai_ext_datarate_len w) \<le> 4 \<and>
     (ai_ssid_len w \<noteq> 0 \<longrightarrow> take (unat (ai_ssid_len w)) (ai_ssid w) = net_ssid net) \<and>
     (ai_rsn_enable w \<longrightarrow> ai_pairwise w \<noteq> 0 \<and> ai_pairwise w AND NOT (rsn_pairwise_cipher (nt_sec net)) = 0) \<and>
     (ai_wpa_enable w \<longrightarrow> ai_unicast w \<noteq> 0 \<and> ai_unicast w AND NOT (wpa_unicast_cipher (nt_sec net)) = 0)"

lemma and_within: "(a AND b) AND NOT b = (0 :: u32)"
  by (simp add: bit_eq_iff bit_simps)

lemma ap_rates_loop_within:
  assumes "ap_rates_loop (nt_rate net) sz buf pos k arr n = Some (arr', n', fits)" "rates_within net (take (unat n) arr)" "unat n \<le> sz" "sz \<le> 8"
  shows "rates_within net (take (unat n') arr') \<and> unat n' \<le> sz"
  using assms
proof (induction k arbitrary: pos arr n)
  case (Suc k)
  obtain r where r: "rd8 buf pos = Some r" using Suc.prems(1) by (auto simp: bind_eq_Some_conv)
  show ?case
  proof (cases "net_has_rate (nt_rate net) r \<and> unat n < sz")
    case True
    then obtain a where a: "wrn arr (unat n) [r] = Some a" "ap_rates_loop (nt_rate net) sz buf (pos + 1) k a (n + 1) = Some (arr', n', fits)"
      using Suc.prems(1) r by (auto simp: bind_eq_Some_conv)
    have n1: "unat (n + 1) = unat n + 1" using True Suc.prems(4) by (simp add: unat_word_ariths)
    have "a = take (unat n) arr @ [r] @ drop (unat n + 1) arr" "unat n < length arr" using a(1) by (auto simp: wrn_def split: if_splits)
    then have t: "take (unat (n + 1)) a = take (unat n) arr @ [r]" by (simp add: n1)
    show ?thesis by (rule Suc.IH [OF a(2)]) (use True Suc.prems n1 t in \<open>auto simp: rates_within_def\<close>)
  next
    case False
    then show ?thesis using Suc r by (auto split: if_splits)
  qed
qed auto

lemma ie_rates_within:
  assumes "ie_rates net sz st buf pie arr n t = Some (arr', n', t', None)" "unat n \<le> sz" "sz \<le> 8"
  shows "rates_within net (take (unat n') arr') \<and> unat n' \<le> sz"
proof -
  obtain k fits where "ap_rates_loop (nt_rate net) sz buf (pie + 2) k (replicate sz 0) n = Some (arr', n', fits)"
    using assms(1) by (auto simp: ie_rates_def bind_eq_Some_conv split: if_splits)
  then show ?thesis by (rule ap_rates_loop_within) (use assms in \<open>auto simp: rates_within_def list_all_iff\<close>)
qed

lemma ie_ssid_within:
  assumes "ie_ssid net buf pie w = Some (w', None)" "peer_within net w"
  shows "peer_within net w'"
proof -
  obtain len s s2 where l: "ucast (len :: u8) = nt_ssid_len net" "rdn (nt_ssid net) 0 (unat (nt_ssid_len net)) = Some (net_ssid net)" "wrn (ai_ssid w) 0 (net_ssid net) = Some s"
    "wrn s (unat (ucast (nt_ssid_len net) :: u8)) [0] = Some s2" "w' = w\<lparr>ai_ssid_len := ucast (nt_ssid_len net), ai_ssid := s2\<rparr>"
    using assms(1) by (auto simp: ie_ssid_def bind_eq_Some_conv rdn_def net_ssid_def split: if_splits)
  have "unat (nt_ssid_len net) = unat len" unfolding l(1) [symmetric] ucast_of_nat_unat using unat_u8_less [of len] by (intro unat_of_nat_u32) simp
  moreover have "(ucast (nt_ssid_len net) :: u8) = len" by (simp add: l(1) [symmetric])
  ultimately have n: "unat (ucast (nt_ssid_len net) :: u8) = length (net_ssid net)" using l(2) by (auto simp: rdn_def net_ssid_def split: if_splits)
  have "s = net_ssid net @ drop (length (net_ssid net)) (ai_ssid w)" using l(3) by (auto simp: wrn_def split: if_splits)
  then have "take (length (net_ssid net)) s2 = net_ssid net" using l(4) unfolding n by (auto simp: wrn_def split: if_splits)
  then show ?thesis using assms(2) n by (simp add: l(5) peer_within_def)
qed

lemma keep_sec_ie_within:
  assumes "keep_sec_ie buf pie n w = Some w'"
  shows "peer_within net w' = peer_within net w" "ai_pairwise w' = ai_pairwise w" "ai_unicast w' = ai_unicast w"
  using assms by (auto simp: keep_sec_ie_def bind_eq_Some_conv Let_def peer_within_def)

lemma ie_rsn_within:
  assumes "ie_rsn net buf pie (w, c) = Some ((w', c'), None)" "peer_within net w"
  shows "peer_within net w'"
proof -
  obtain p n w1 where w: "p AND rsn_pairwise_cipher (nt_sec net) \<noteq> 0"
    "keep_sec_ie buf pie n (w\<lparr>ai_pairwise := p AND rsn_pairwise_cipher (nt_sec net)\<rparr>) = Some w1" "w' = w1\<lparr>ai_rsn_enable := True\<rparr>"
    using assms(1) by (auto simp: ie_rsn_def bind_eq_Some_conv Let_def split: if_splits prod.splits)
  have "peer_within net (w\<lparr>ai_pairwise := p AND rsn_pairwise_cipher (nt_sec net)\<rparr>)" using assms(2) w(1) by (auto simp: peer_within_def and_within)
  then have "peer_within net w1" "ai_pairwise w1 = p AND rsn_pairwise_cipher (nt_sec net)" using keep_sec_ie_within [OF w(2)] by simp_all
  then show ?thesis using w(1,3) by (simp add: peer_within_def and_within)
qed

lemma ie_wpa_within:
  assumes "ie_wpa net buf pie (w, c) = Some ((w', c'), None)" "peer_within net w"
  shows "peer_within net w'"
proof (cases "w' = w")
  case False
  then obtain p n w1 where w: "p AND wpa_unicast_cipher (nt_sec net) \<noteq> 0"
    "keep_sec_ie buf pie n (w\<lparr>ai_unicast := p AND wpa_unicast_cipher (nt_sec net)\<rparr>) = Some w1" "w' = w1\<lparr>ai_wpa_enable := True\<rparr>"
    using assms(1) by (auto simp: ie_wpa_def bind_eq_Some_conv Let_def split: if_splits prod.splits)
  have "peer_within net (w\<lparr>ai_unicast := p AND wpa_unicast_cipher (nt_sec net)\<rparr>)" using assms(2) w(1) by (auto simp: peer_within_def and_within)
  then have "peer_within net w1" "ai_unicast w1 = p AND wpa_unicast_cipher (nt_sec net)" using keep_sec_ie_within [OF w(2)] by simp_all
  then show ?thesis using w(1,3) by (simp add: peer_within_def and_within)
qed (use assms(2) in simp)

lemma ap_ie_within:
  assumes "ap_ie net buf pie (w, c) = Some ((w', c'), None)" "peer_within net w"
  shows "peer_within net w'"
proof -
  note in_net = assms(2) [unfolded peer_within_def]
  obtain i where i: "rd8 buf pie = Some i" using assms(1) by (auto simp: ap_ie_def bind_eq_Some_conv)
  consider "i = 0" | "i = 1" | "i = 50" | "i = 48" | "i = 221" | "i = 45 \<or> i = 61" | "i \<notin> {0, 1, 50, 48, 221, 45, 61}" by blast
  then show ?thesis
  proof cases
    case 1
    then show ?thesis using assms i by (auto simp: ap_ie_def on_peer_def intro: ie_ssid_within)
  next
    case 2
    then have "ie_supp_rates net buf pie w = Some (w', None)" using assms(1) i by (auto simp: ap_ie_def on_peer_def)
    then obtain arr n t where r: "ie_rates net 8 40 buf pie (ai_datarate w) (ai_datarate_len w) (ai_network_type w) = Some (arr, n, t, None)"
      "w' = w\<lparr>ai_datarate := arr, ai_datarate_len := n, ai_network_type := t\<rparr>" by (auto simp: ie_supp_rates_def bind_eq_Some_conv)
    then show ?thesis using ie_rates_within [OF r(1)] in_net by (simp add: peer_within_def)
  next
    case 3
    then have "ie_ext_rates net buf pie w = Some (w', None)" using assms(1) i by (auto simp: ap_ie_def on_peer_def)
    then obtain arr n t where r: "ie_rates net 4 18 buf pie (ai_ext_datarate w) (ai_ext_datarate_len w) (ai_network_type w) = Some (arr, n, t, None)"
      "w' = w\<lparr>ai_ext_datarate := arr, ai_ext_datarate_len := n, ai_network_type := t\<rparr>" by (auto simp: ie_ext_rates_def bind_eq_Some_conv)
    then show ?thesis using ie_rates_within [OF r(1)] in_net by (simp add: peer_within_def)
  next
    case 4
    then show ?thesis using assms i by (auto simp: ap_ie_def intro: ie_rsn_within)
  next
    case 5
    then obtain w1 c1 where w1: "ie_wpa net buf pie (w, c) = Some ((w1, c1), None)" "ie_wmm buf pie w1 = Some (w', None)"
      using assms(1) i by (auto simp: ap_ie_def on_peer_def bind_eq_Some_conv split: option.splits)
    have "peer_within net w1" by (rule ie_wpa_within [OF w1(1) assms(2)])
    then show ?thesis using w1(2) by (auto simp: ie_wmm_def bind_eq_Some_conv peer_within_def split: if_splits)
  next
    case 6
    then show ?thesis using assms i by (auto simp: ap_ie_def on_peer_def ie_ht_cap_def ie_ht_oper_def bind_eq_Some_conv peer_within_def split: if_splits)
  next
    case 7
    then show ?thesis using assms i by (simp add: ap_ie_def)
  qed
qed

lemma ap_loop_within:
  assumes "ap_ies_loop net buf base var_len ofs w c = Some (w', None)" "peer_within net w"
  shows "peer_within net w'"
proof -
  have "peer_within net w \<longrightarrow> snd r = None \<longrightarrow> peer_within net (fst r)" if "ap_ies_loop net buf base var_len ofs w c = Some r" for r
  proof (rule ap_ies_loop.raw_induct [where P = "\<lambda>net buf base var_len ofs w c r. peer_within net w \<longrightarrow> snd r = None \<longrightarrow> peer_within net (fst r)",
        OF _ that], goal_cases)
    case (1 loop net buf base var_len ofs w c r)
    show ?case
    proof (cases "ofs < var_len")
      case True
      then obtain w' c' s where x': "ap_ie net buf (base + unat ofs) (w, c) = Some ((w', c'), s)" using 1(2) by (auto simp: bind_eq_Some_conv)
      show ?thesis
      proof (cases s)
        case None
        then obtain len where "loop net buf base var_len (ofs + (2 + ucast (len :: u8))) w' c' = Some r"
          using 1(2) True x' by (auto simp: bind_eq_Some_conv)
        moreover have "peer_within net w \<Longrightarrow> peer_within net w'" using ap_ie_within x' None by simp
        ultimately show ?thesis using 1(1) by blast
      next
        case (Some e)
        then show ?thesis using 1(2) True x' by auto
      qed
    next
      case False
      then show ?thesis using 1(2) by auto
    qed
  qed
  then show ?thesis using assms by fastforce
qed

end
