(* ===== verification/Assoc_Sta.thy ===== *)
theory Assoc_Sta
  imports Assoc
begin

text \<open>
  The association request as a frame with encoded elements, and what the thread of the station does call by
  call: every call returns, inside memory, and gives back every message it takes.
\<close>

section \<open>The request\<close>

definition ie_val :: "u8 \<times> u8 \<times> bytes \<Rightarrow> elem" where
  "ie_val x = (fst x, take (unat (fst (snd x))) (snd (snd x)))"

definition ie_fits :: "u8 \<times> u8 \<times> bytes \<Rightarrow> bool" where
  "ie_fits x \<longleftrightarrow> unat (fst (snd x)) \<le> length (snd (snd x))"

lemma set_ie_enc:
  assumes "unat l \<le> length src" "unat l + 2 \<le> length old"
  shows "set_ie (pre @ old) (length pre) i l src n =
    Some (pre @ ie_enc (i, take (unat l) src) @ drop (unat l + 2) old, length pre + unat l + 2, n + (ucast l + 2))"
proof -
  obtain a b old' where old: "old = a # b # old'" "unat l \<le> length old'" using assms(2) by (cases old; cases "tl old") auto
  have c: "length (take (unat l) src) = unat l" using assms(1) by simp
  have 1: "wrn (pre @ old) (length pre) [i] = Some (pre @ i # b # old')" by (simp add: wrn_def old)
  have 2: "wrn (pre @ i # b # old') (length pre + 1) [l] = Some (pre @ i # l # old')" by (simp add: wrn_def)
  have 3: "wrn (pre @ i # l # old') (length pre + 2) (take (unat l) src) = Some (pre @ i # l # take (unat l) src @ drop (unat l) old')"
    using old(2) c by (simp add: wrn_def)
  have 4: "rdn src 0 (unat l) = Some (take (unat l) src)" using assms(1) by (simp add: rdn_def)
  have e: "ie_enc (i, take (unat l) src) = i # l # take (unat l) src" using c by (simp add: ie_enc_def)
  show ?thesis
  proof (cases "l = 0")
    case True
    have "wrn (pre @ i # b # old') (Suc (length pre)) [0] = Some (pre @ i # 0 # old')" using 2 True by simp
    then show ?thesis unfolding set_ie_def 1 using e True by (simp add: old)
  next
    case False
    then have "0 < l" by (simp add: word_neq_0_conv)
    then show ?thesis unfolding set_ie_def 1 using 2 3 4 by (simp add: e old)
  qed
qed

lemma put_ies_enc:
  assumes "\<forall>x\<in>set ies. ie_fits x" "length (ies_enc (map ie_val ies)) \<le> length old"
  shows "put_ies ies (pre @ old) (length pre) n =
    Some (pre @ ies_enc (map ie_val ies) @ drop (length (ies_enc (map ie_val ies))) old, n + of_nat (length (ies_enc (map ie_val ies))))"
  using assms
proof (induction ies arbitrary: pre old n)
  case (Cons x ies)
  obtain i l src where x: "x = (i, l, src)" by (cases x)
  have f: "unat l \<le> length src" using Cons.prems(1) by (simp add: x ie_fits_def)
  have len: "length (ie_enc (ie_val x)) = unat l + 2" using f by (simp add: x ie_val_def)
  have room: "unat l + 2 \<le> length old" using Cons.prems(2) len by simp
  have s: "set_ie (pre @ old) (length pre) i l src n = Some (pre @ ie_enc (ie_val x) @ drop (unat l + 2) old, length (pre @ ie_enc (ie_val x)), n + (ucast l + 2))"
    using set_ie_enc [OF f room, of pre i n] len by (simp add: x ie_val_def)
  have r: "length (ies_enc (map ie_val ies)) \<le> length (drop (unat l + 2) old)" using Cons.prems(2) len by simp
  have u: "(of_nat (unat l) :: u32) = ucast l" by simp
  show ?case
    using Cons.IH [of "drop (unat l + 2) old" "pre @ ie_enc (ie_val x)" "n + (ucast l + 2)"] Cons.prems(1) r s len
    by (simp add: x u algebra_simps del: of_nat_unat)
qed simp

text \<open>The header of the request, and the elements it carries.\<close>

definition assoc_hdr :: "wdn_net_info \<Rightarrow> bytes \<Rightarrow> bytes" where
  "assoc_hdr w mac = [0, 0, 0, 0] @ wdn_mac w @ mac @ wdn_bssid w @ [0, 0] @ le16_bytes (wdn_cap_info w) @ le16_bytes (listen_interval w)"

definition assoc_elems :: "wdn_net_info \<Rightarrow> assoc_sec \<Rightarrow> bool \<Rightarrow> elem list" where
  "assoc_elems w sec n_support =
     [(0, take (unat (wdn_ssid_len w)) (wdn_ssid w)), (1, take (unat (datarate_len w)) (datarate w))] @
     (if 0 < ext_datarate_len w then [(50, take (unat (ext_datarate_len w)) (ext_datarate w))] else []) @
     (if as_wpa_enable sec \<or> as_rsn_enable sec
      then [(if as_wpa_enable sec then 221 else 48, take (unat (supplicant_ie sec ! 1)) (drop 2 (supplicant_ie sec)))] else []) @
     (if wmm_enable w then [(221, WMM_IE)] else []) @
     (if ht_enable w \<and> n_support then [(45, ht_cap_bytes (wdn_ht_cap w))] else [])"

definition assoc_ok :: "assoc_env \<Rightarrow> sta_assoc \<Rightarrow> wdn_net_info \<Rightarrow> bool" where
  "assoc_ok env s w \<longleftrightarrow> length (sc_mac s) = 6 \<and> wdn_wf w \<and> wdn_ssid_len w \<le> 32 \<and> datarate_len w \<le> 8 \<and> ext_datarate_len w \<le> 4 \<and>
     length (supplicant_ie (sc_sec s)) = 256 \<and> supplicant_ie (sc_sec s) ! 1 \<le> 254 \<and>
     length (an_req_ie (sc_net s)) = 794 \<and> length (an_resp_ie (sc_net s)) = 768 \<and> (\<forall>es. 1000 \<le> length (ax_buf env es))"

lemma length_ht_cap_bytes: "length (hc_supp_mcs_set h) = 16 \<Longrightarrow> length (ht_cap_bytes h) = 26"
  by (simp add: ht_cap_bytes_def)

lemma assoc_ies_elems:
  assumes "assoc_ok env s w"
  shows "\<exists>ies. assoc_ies w (sc_sec s) n = Some ies \<and> (\<forall>x\<in>set ies. ie_fits x) \<and> map ie_val ies = assoc_elems w (sc_sec s) n"
proof -
  note ok = assms [unfolded assoc_ok_def wdn_wf_def]
  have sup: "rd8 (supplicant_ie (sc_sec s)) 1 = Some (supplicant_ie (sc_sec s) ! 1)" using ok by (simp add: rd8_def)
  have u: "unat (wdn_ssid_len w) \<le> 32" "unat (datarate_len w) \<le> 8" "unat (ext_datarate_len w) \<le> 4" "unat (supplicant_ie (sc_sec s) ! 1) \<le> 254"
    using ok by (simp_all add: word_le_nat_alt)
  have h: "length (ht_cap_bytes (wdn_ht_cap w)) = 26" using ok by (simp add: length_ht_cap_bytes)
  define sp :: "(u8 \<times> u8 \<times> bytes) list" where "sp = (if as_wpa_enable (sc_sec s) \<or> as_rsn_enable (sc_sec s)
      then [(if as_wpa_enable (sc_sec s) then 221 else 48, supplicant_ie (sc_sec s) ! 1, drop 2 (supplicant_ie (sc_sec s)))] else [])"
  define ies :: "(u8 \<times> u8 \<times> bytes) list" where "ies = [(0, wdn_ssid_len w, wdn_ssid w), (1, datarate_len w, datarate w)] @
      (if 0 < ext_datarate_len w then [(50, ext_datarate_len w, ext_datarate w)] else []) @ sp @
      (if wmm_enable w then [(221, 7, WMM_IE)] else []) @ (if ht_enable w \<and> n then [(45, 26, ht_cap_bytes (wdn_ht_cap w))] else [])"
  have "assoc_ies w (sc_sec s) n = Some ies" using sup by (simp add: assoc_ies_def sp_def ies_def)
  moreover have "\<forall>x\<in>set ies. ie_fits x" using ok u h by (auto simp: ies_def sp_def ie_fits_def WMM_IE_def)
  moreover have "map ie_val ies = assoc_elems w (sc_sec s) n" using h by (simp add: ies_def sp_def assoc_elems_def ie_val_def WMM_IE_def)
  ultimately show ?thesis by blast
qed

lemma length_assoc_elems:
  assumes "assoc_ok env s w"
  shows "length (ies_enc (assoc_elems w (sc_sec s) n)) \<le> 400" "ies_ok (assoc_elems w (sc_sec s) n)"
proof -
  note ok = assms [unfolded assoc_ok_def wdn_wf_def]
  have u: "unat (wdn_ssid_len w) \<le> 32" "unat (datarate_len w) \<le> 8" "unat (ext_datarate_len w) \<le> 4" "unat (supplicant_ie (sc_sec s) ! 1) \<le> 254"
    using ok by (simp_all add: word_le_nat_alt)
  have h: "length (ht_cap_bytes (wdn_ht_cap w)) = 26" using ok by (simp add: length_ht_cap_bytes)
  show l: "length (ies_enc (assoc_elems w (sc_sec s) n)) \<le> 400" using ok u h by (simp add: assoc_elems_def WMM_IE_def)
  have "\<forall>e\<in>set (assoc_elems w (sc_sec s) n). length (snd e) < 256" using ok u h by (auto simp: assoc_elems_def WMM_IE_def)
  then show "ies_ok (assoc_elems w (sc_sec s) n)" using l by (simp add: ies_ok_def)
qed

lemma wrn_mid: "length p = n \<Longrightarrow> length bs = length m \<Longrightarrow> wrn (p @ m @ q) n bs = Some (p @ bs @ q)"
  by (simp add: wrn_def)

lemma assoc_xmit_result:
  assumes "assoc_ok env s w" "sc_peer s = Some w" "au_extbuf env (sc_out s)"
  defines "es \<equiv> assoc_elems w (sc_sec s) (sc_hw_n s)"
  obtains net where "associate_xmit_frame env s = Some (s\<lparr>sc_out := sc_out s @ [Frame_xmit (assoc_hdr w (sc_mac s) @ ies_enc es)], sc_net := net\<rparr>, 0)"
    "an_bssid net = an_bssid (sc_net s)" "length (an_req_ie net) = 794" "an_resp_ie net = an_resp_ie (sc_net s)"
    "take (unat (an_req_len net)) (an_req_ie net) = le16_bytes (listen_interval w) @ ies_enc es"
proof -
  note ok = assms(1) [unfolded assoc_ok_def wdn_wf_def]
  let ?h = "assoc_hdr w (sc_mac s)" and ?b = "ax_buf env (sc_out s)"
  have hl: "length ?h = 28" using ok by (simp add: assoc_hdr_def)
  define old where "old = drop 28 (replicate 64 0 @ drop 64 ?b)"
  have bl: "1000 \<le> length ?b" using ok by simp
  then have ol: "400 \<le> length old" by (simp add: old_def)
  have e: "length (ies_enc es) \<le> 400" "ies_ok es" using length_assoc_elems [OF assms(1)] by (simp_all add: es_def)
  obtain ies where ies: "assoc_ies w (sc_sec s) (sc_hw_n s) = Some ies" "\<forall>x\<in>set ies. ie_fits x" "map ie_val ies = es"
    using assoc_ies_elems [OF assms(1)] unfolding es_def by blast
  let ?z = "replicate 6 (0 :: u8)"
  have z: "replicate 28 (0 :: u8) = [0, 0, 0, 0] @ ?z @ ?z @ ?z @ [0, 0] @ [0, 0] @ [0, 0]" by (simp add: numeral_eq_Suc)
  have b0: "wrn ?b 0 (replicate 64 0) = Some (replicate 28 0 @ old)"
    using bl by (simp add: wrn_def old_def flip: append_assoc replicate_add)
  have b1: "wrn (replicate 28 0 @ old) 4 (wdn_mac w) = Some ([0, 0, 0, 0] @ wdn_mac w @ ?z @ ?z @ [0, 0] @ [0, 0] @ [0, 0] @ old)"
    unfolding z using wrn_mid [of "[0, 0, 0, 0]" 4 "wdn_mac w" ?z] ok by simp
  have b2: "wrn ([0, 0, 0, 0] @ wdn_mac w @ ?z @ ?z @ [0, 0] @ [0, 0] @ [0, 0] @ old) 10 (sc_mac s) =
      Some ([0, 0, 0, 0] @ wdn_mac w @ sc_mac s @ ?z @ [0, 0] @ [0, 0] @ [0, 0] @ old)"
    using wrn_mid [of "[0, 0, 0, 0] @ wdn_mac w" 10 "sc_mac s" ?z] ok by simp
  have b3: "wrn ([0, 0, 0, 0] @ wdn_mac w @ sc_mac s @ ?z @ [0, 0] @ [0, 0] @ [0, 0] @ old) 16 (wdn_bssid w) =
      Some ([0, 0, 0, 0] @ wdn_mac w @ sc_mac s @ wdn_bssid w @ [0, 0] @ [0, 0] @ [0, 0] @ old)"
    using wrn_mid [of "[0, 0, 0, 0] @ wdn_mac w @ sc_mac s" 16 "wdn_bssid w" ?z] ok by simp
  have b4: "wrn ([0, 0, 0, 0] @ wdn_mac w @ sc_mac s @ wdn_bssid w @ [0, 0] @ [0, 0] @ [0, 0] @ old) 24 (le16_bytes c) =
      Some ([0, 0, 0, 0] @ wdn_mac w @ sc_mac s @ wdn_bssid w @ [0, 0] @ le16_bytes c @ [0, 0] @ old)" for c
    using wrn_mid [of "[0, 0, 0, 0] @ wdn_mac w @ sc_mac s @ wdn_bssid w @ [0, 0]" 24 "le16_bytes c" "[0, 0]"] ok by simp
  have b5: "wrn ([0, 0, 0, 0] @ wdn_mac w @ sc_mac s @ wdn_bssid w @ [0, 0] @ le16_bytes (wdn_cap_info w) @ [0, 0] @ old) 26 (le16_bytes (listen_interval w)) =
      Some (?h @ old)"
    using wrn_mid [of "[0, 0, 0, 0] @ wdn_mac w @ sc_mac s @ wdn_bssid w @ [0, 0] @ le16_bytes (wdn_cap_info w)" 26 "le16_bytes (listen_interval w)" "[0, 0]" old] ok
    by (simp add: assoc_hdr_def)
  let ?l = "28 + of_nat (length (ies_enc es)) :: u32" and ?fr = "?h @ ies_enc es"
  have p: "put_ies ies (?h @ old) 28 28 = Some (?fr @ drop (length (ies_enc es)) old, ?l)"
    using put_ies_enc [OF ies(2), of old ?h 28] e(1) ol hl by (simp add: ies(3))
  have l: "?l = of_nat (28 + length (ies_enc es))" "?l - 26 = of_nat (2 + length (ies_enc es))" by simp_all
  have len1: "unat (ucast ?l :: u16) = length ?fr"
    unfolding l(1) using e(1) hl unat_of_nat_u16 [of "28 + length (ies_enc es)"] by (simp add: u32_to_u16 del: of_nat_add)
  have len2: "unat (?l - 26) = 2 + length (ies_enc es)"
    unfolding l(2) using e(1) unat_of_nat_u32 [of "2 + length (ies_enc es)"] by (simp del: of_nat_add)
  let ?ie = "le16_bytes (listen_interval w) @ ies_enc es"
  have r1: "rdn (?fr @ drop (length (ies_enc es)) old) 0 (length ?fr) = Some ?fr" by (simp add: rdn_def)
  have fr: "?fr = take 26 ?h @ ?ie" "length (take 26 ?h) = 26" using ok by (simp_all add: assoc_hdr_def le16_bytes_def)
  have r2: "rdn (?fr @ drop (length (ies_enc es)) old) 26 (2 + length (ies_enc es)) = Some ?ie"
    unfolding fr(1) using rdn_append_mid [of "take 26 ?h" ?ie "drop (length (ies_enc es)) old"] fr(2) by simp
  have r3: "wrn (an_req_ie (sc_net s)) 0 ?ie = Some (?ie @ drop (length ?ie) (an_req_ie (sc_net s)))" using ok e(1) by (simp add: wrn_def)
  let ?net = "(sc_net s)\<lparr>an_req_len := ?l - 26, an_req_ie := ?ie @ drop (length ?ie) (an_req_ie (sc_net s))\<rparr>"
  have "associate_xmit_frame env s = Some (s\<lparr>sc_out := sc_out s @ [Frame_xmit ?fr], sc_net := ?net\<rparr>, 0)"
    unfolding associate_xmit_frame_def using assms(2,3) b0 b1 b2 b3 b4 b5 ies(1) p len1 len2 r1 r2 r3 by (simp add: Let_def)
  then show thesis by (rule that) (use ok e(1) len2 in simp_all)
qed

section \<open>Messages\<close>

definition asc_box :: "sta_assoc \<Rightarrow> ptr list \<Rightarrow> ptr list \<Rightarrow> ptr set \<Rightarrow> bool" where
  "asc_box s ps fs H \<longleftrightarrow> mbox (sc_que s) (sc_mem s) ps fs H \<and>
     (\<forall>p. tag (sc_mem s) p = WF_ASSOC_TAG_RSP \<longrightarrow> length (msg_value (sc_mem s) p) = 796)"

lemma asc_box_sel [simp]:
  "asc_box (s\<lparr>sc_out := e\<rparr>) = asc_box s" "asc_box (s\<lparr>sc_net := w\<rparr>) = asc_box s" "asc_box (s\<lparr>sc_pt := pc\<rparr>) = asc_box s"
  "asc_box (s\<lparr>sc_retry := n\<rparr>) = asc_box s" "asc_box (s\<lparr>sc_timer := t\<rparr>) = asc_box s" "asc_box (s\<lparr>sc_run := b\<rparr>) = asc_box s"
  "asc_box (s\<lparr>sc_lock := l\<rparr>) = asc_box s"
  by (simp_all add: asc_box_def fun_eq_iff)

lemma asc_del_sel [simp]:
  "sc_mac (asc_del p m s) = sc_mac s" "sc_peer (asc_del p m s) = sc_peer s" "sc_hw_n (asc_del p m s) = sc_hw_n s" "sc_sec (asc_del p m s) = sc_sec s"
  "sc_net (asc_del p m s) = sc_net s" "sc_out (asc_del p m s) = sc_out s" "sc_que (asc_del p m s) = sc_que s" "sc_pt (asc_del p m s) = sc_pt s"
  "sc_retry (asc_del p m s) = sc_retry s" "sc_timer (asc_del p m s) = sc_timer s" "sc_lock (asc_del p m s) = sc_lock s"
  by (simp_all add: asc_del_def)

lemma asc_pop:
  assumes "asc_box s (p # ps) fs H"
  obtains m where "box_pop (sc_que s) (sc_mem s) = (m, 0, Some p)" "same_msgs (sc_mem s) m"
    "asc_box (asc_del p m s) ps (fs @ [p]) H" "same_msgs (sc_mem s) (sc_mem (asc_del p m s))"
proof -
  have b: "mbox (sc_que s) (sc_mem s) (p # ps) fs H" using assms by (simp add: asc_box_def)
  obtain m where m: "box_pop (sc_que s) (sc_mem s) = (m, 0, Some p)" "same_msgs (sc_mem s) m"
    "mbox (sc_que s) (box_del (sc_que s) p m) ps (fs @ [p]) H" "same_msgs (sc_mem s) (box_del (sc_que s) p m)"
    by (rule mb.take_give [OF b])
  show thesis using that [OF m(1,2)] m(3,4) assms by (simp add: asc_box_def asc_del_def same_msgs_def)
qed

lemma asc_pop_empty: "asc_box s [] fs H \<Longrightarrow> box_pop (sc_que s) (sc_mem s) = (sc_mem s, -2, None)"
  by (auto simp: asc_box_def intro: mb.pop_empty)

section \<open>Every call returns\<close>

text \<open>A response that is long enough for its fixed fields.\<close>

definition asc_rsp_wf :: "u32 \<Rightarrow> bool" where
  "asc_rsp_wf n \<longleftrightarrow> 30 \<le> unat (ucast n :: u16) \<and> unat (ucast n :: u16) \<le> 796"

definition asc_inv :: "assoc_env \<Rightarrow> ptr set \<Rightarrow> asc_pc \<Rightarrow> sta_assoc \<Rightarrow> ptr list \<times> ptr list \<Rightarrow> bool" where
  "asc_inv env H pc s x \<longleftrightarrow> asc_box s (fst x) (snd x) H \<and> unat (au_msecs env 50) < 2 ^ 31 \<and>
     (\<forall>p\<in>set (fst x). tag (sc_mem s) p = WF_ASSOC_TAG_RSP \<longrightarrow> asc_rsp_wf (msg_len (sc_mem s) p)) \<and>
     (\<forall>w. sc_peer s = Some w \<longrightarrow> assoc_ok env s w) \<and> length (an_resp_ie (sc_net s)) = 768 \<and>
     (case pc of As_send \<Rightarrow> sc_retry s \<le> 3 | As_wait \<Rightarrow> sc_retry s < 3 | _ \<Rightarrow> True) \<and> (pc \<noteq> As_begin \<longrightarrow> sc_lock s)"

definition asc_rank :: "u32 \<Rightarrow> asc_pc \<Rightarrow> sta_assoc \<Rightarrow> ptr list \<times> ptr list \<Rightarrow> nat" where
  "asc_rank now pc s x = 4 * length (fst x) +
     (case pc of As_begin \<Rightarrow> 4 | As_start \<Rightarrow> 3 | As_send \<Rightarrow> 1 | As_wait \<Rightarrow> if wf_timer_expired now (sc_timer s) then 2 else 0)"

definition asc_post :: "assoc_env \<Rightarrow> ptr set \<Rightarrow> sta_assoc \<Rightarrow> asc_pc pt_next \<Rightarrow> bool" where
  "asc_post env H s n \<longleftrightarrow>
     (case n of
        Goto pc \<Rightarrow> False
      | Back pc r \<Rightarrow> PT_SCHEDULE r \<and> (\<exists>x. asc_inv env H pc s x)
      | Fin r rsn \<Rightarrow> \<not> PT_SCHEDULE r \<and> \<not> sc_lock s \<and> (\<exists>ps fs. asc_box s ps fs H))"

definition asc_lawful :: "assoc_env \<Rightarrow> ptr set \<Rightarrow> u32 \<Rightarrow> nat \<Rightarrow> (sta_assoc \<times> asc_pc pt_next) option \<Rightarrow> bool" where
  "asc_lawful env H now k r \<longleftrightarrow> (\<exists>s' n. r = Some (s', n) \<and>
     (case n of Goto pc' \<Rightarrow> \<exists>x'. asc_inv env H pc' s' x' \<and> asc_rank now pc' s' x' < k | _ \<Rightarrow> asc_post env H s' n))"

lemma asc_lawful_Goto: "asc_inv env H pc s x \<Longrightarrow> asc_rank now pc s x < k \<Longrightarrow> asc_lawful env H now k (Some (s, Goto pc))"
  unfolding asc_lawful_def by (intro exI [of _ s] exI [of _ "Goto pc"]) (simp del: split_paired_Ex, blast)

lemma asc_lawful_Back: "asc_inv env H pc s x \<Longrightarrow> PT_SCHEDULE r \<Longrightarrow> asc_lawful env H now k (Some (s, Back pc r))"
  unfolding asc_lawful_def asc_post_def by (intro exI [of _ s] exI [of _ "Back pc r"]) (simp del: split_paired_Ex, blast)

lemma asc_lawful_exit: "asc_box s ps fs H \<Longrightarrow> asc_lawful env H now k (Some (asc_exit rsn s))"
  by (auto simp: asc_lawful_def asc_post_def asc_exit_def Let_def PT_SCHEDULE_def)

text \<open>The invariant when a message has been taken and given back.\<close>

lemma asc_inv_pop:
  assumes "asc_inv env H pc s (p # ps, fs)" "asc_box (asc_del p m s) ps (fs @ [p]) H" "same_msgs (sc_mem s) (sc_mem (asc_del p m s))"
    "(case pc' of As_send \<Rightarrow> n \<le> 3 | As_wait \<Rightarrow> n < 3 | _ \<Rightarrow> True)" "pc' \<noteq> As_begin \<longrightarrow> sc_lock s"
  shows "asc_inv env H pc' ((asc_del p m s)\<lparr>sc_run := b, sc_retry := n\<rparr>) (ps, fs @ [p])"
  using assms by (cases pc') (auto simp: asc_inv_def same_msgs_def assoc_ok_def)

lemma asc_start_lawful:
  assumes "asc_inv env H As_start s (ps, fs)"
  shows "asc_lawful env H now (asc_rank now As_start s (ps, fs)) (Some (asc_get_start s))"
proof (cases ps)
  case Nil
  then have b: "asc_box s [] fs H" using assms by (simp add: asc_inv_def)
  then show ?thesis using asc_pop_empty [OF b] by (auto simp: asc_get_start_def asc_lawful_def asc_post_def PT_SCHEDULE_def)
next
  case (Cons p qs)
  have b: "asc_box s (p # qs) fs H" using assms Cons by (simp add: asc_inv_def)
  obtain m where m: "box_pop (sc_que s) (sc_mem s) = (m, 0, Some p)" "same_msgs (sc_mem s) m"
    "asc_box (asc_del p m s) qs (fs @ [p]) H" "same_msgs (sc_mem s) (sc_mem (asc_del p m s))"
    by (rule asc_pop [OF b])
  have lock: "sc_lock s" using assms by (simp add: asc_inv_def)
  note pop = asc_inv_pop [OF assms [unfolded Cons] m(3,4)]
  have 1: "asc_inv env H As_start (asc_del p m s) (qs, fs @ [p])" using pop [where pc' = As_start and n = "sc_retry s" and b = "sc_run s"] lock by (simp add: asc_del_def)
  have 2: "asc_lawful env H now (asc_rank now As_start s (ps, fs)) (Some ((asc_del p m s)\<lparr>sc_run := True, sc_retry := 0\<rparr>, Goto As_send))"
    using lock by (intro asc_lawful_Goto [where x = "(qs, fs @ [p])"] pop) (simp_all add: Cons asc_rank_def)
  show ?thesis using m(1) 2 asc_lawful_Back [OF 1] by (simp add: asc_get_start_def PT_SCHEDULE_def)
qed

lemma asc_send_lawful:
  assumes "asc_inv env H As_send s x"
  shows "asc_lawful env H now (asc_rank now As_send s x) (asc_step env now As_send s)"
proof (cases "sc_retry s < 3 \<and> au_extbuf env (sc_out s) \<and> sc_peer s \<noteq> None")
  case True
  then obtain w where w: "sc_peer s = Some w" by auto
  have ok: "assoc_ok env s w" using assms w by (simp add: asc_inv_def)
  obtain net where net: "associate_xmit_frame env s =
      Some (s\<lparr>sc_out := sc_out s @ [Frame_xmit (assoc_hdr w (sc_mac s) @ ies_enc (assoc_elems w (sc_sec s) (sc_hw_n s)))], sc_net := net\<rparr>, 0)" (is "_ = Some (?s, 0)")
    "an_bssid net = an_bssid (sc_net s)" "length (an_req_ie net) = 794" "an_resp_ie net = an_resp_ie (sc_net s)"
    by (rule assoc_xmit_result [OF ok w]) (use True in simp_all)
  let ?t = "wf_timer_set (au_msecs env) now 50"
  have "asc_inv env H As_wait (?s\<lparr>sc_timer := ?t\<rparr>) x" using assms True net(3,4) by (auto simp: asc_inv_def assoc_ok_def)
  moreover have "\<not> wf_timer_expired now ?t" using assms by (simp add: asc_inv_def timer_set_now)
  ultimately have "asc_lawful env H now (asc_rank now As_send s x) (Some (?s\<lparr>sc_timer := ?t\<rparr>, Goto As_wait))"
    by (intro asc_lawful_Goto [where x = x]) (simp_all add: asc_rank_def)
  then show ?thesis using True net(1) by (simp add: asc_step_def)
next
  case False
  have "asc_box s (fst x) (snd x) H" using assms by (simp add: asc_inv_def)
  then show ?thesis using False by (auto simp: asc_step_def associate_xmit_frame_def intro: asc_lawful_exit split: option.splits)
qed

lemma asc_accept_lawful:
  assumes "asc_inv env H As_wait s (p # qs, fs)" "tag (sc_mem s) p = WF_ASSOC_TAG_RSP" "same_msgs (sc_mem s) m" "asc_box (asc_del p m s) qs (fs @ [p]) H"
  shows "asc_lawful env H now k (asc_accept p m s)"
proof -
  have v: "length (msg_value m p) = 796" "asc_rsp_wf (msg_len m p)" "length (an_resp_ie (sc_net s)) = 768"
    using assms(1-3) by (auto simp: asc_inv_def asc_box_def same_msgs_def)
  let ?n = "ucast (msg_len m p) :: u16"
  have "unat (ucast ?n :: u32) = unat ?n" using v(2) by (simp only: ucast_of_nat_unat) (rule unat_of_nat_u32, simp add: asc_rsp_wf_def)
  then have "unat (ucast ?n - 30 :: u32) = unat ?n - 30"
    using v(2) by (subst unat_sub) (auto simp: asc_rsp_wf_def word_le_nat_alt)
  moreover have "30 + (unat ?n - 30) \<le> 796" "unat ?n - 30 \<le> 768" using v(2) by (auto simp: asc_rsp_wf_def)
  ultimately have "\<exists>net. asc_accept p m s = Some (asc_exit (uint WF_ASSOC_TAG_DONE) ((asc_del p m s)\<lparr>sc_net := net\<rparr>))"
    using v by (auto simp: asc_accept_def Let_def rdn_def wrn_def rd_le16_def rd8_def)
  then show ?thesis using asc_lawful_exit [of "(asc_del p m s)\<lparr>sc_net := _\<rparr>"] assms(4) by auto
qed

lemma asc_wait_lawful:
  assumes "asc_inv env H As_wait s (ps, fs)"
  shows "asc_lawful env H now (asc_rank now As_wait s (ps, fs)) (asc_wait_rsp now s)"
proof -
  have lock: "sc_lock s" "sc_retry s < 3" "sc_retry s + 1 \<le> 3" using assms inc_le [of "sc_retry s" 3] by (auto simp: asc_inv_def)
  show ?thesis
  proof (cases ps)
    case Nil
    then have b: "asc_box s [] fs H" using assms by (simp add: asc_inv_def)
    have "asc_inv env H As_send (s\<lparr>sc_retry := sc_retry s + 1\<rparr>) ([], fs)" using assms lock Nil by (auto simp: asc_inv_def assoc_ok_def)
    then have "wf_timer_expired now (sc_timer s) \<Longrightarrow> asc_lawful env H now (asc_rank now As_wait s (ps, fs)) (Some (s\<lparr>sc_retry := sc_retry s + 1\<rparr>, Goto As_send))"
      using Nil by (intro asc_lawful_Goto [where x = "([], fs)"]) (simp_all add: asc_rank_def)
    then show ?thesis using asc_pop_empty [OF b] assms Nil by (auto simp: asc_wait_rsp_def PT_SCHEDULE_def intro: asc_lawful_Back)
  next
    case (Cons p qs)
    have b: "asc_box s (p # qs) fs H" using assms Cons by (simp add: asc_inv_def)
    obtain m where m: "box_pop (sc_que s) (sc_mem s) = (m, 0, Some p)" "same_msgs (sc_mem s) m"
      "asc_box (asc_del p m s) qs (fs @ [p]) H" "same_msgs (sc_mem s) (sc_mem (asc_del p m s))"
      by (rule asc_pop [OF b])
    note pop = asc_inv_pop [where b = "sc_run s", OF assms [unfolded Cons] m(3,4)]
    have s: "(asc_del p m s)\<lparr>sc_retry := sc_retry s\<rparr> = asc_del p m s" "(asc_del p m s)\<lparr>sc_run := sc_run s\<rparr> = asc_del p m s"
      by (simp_all add: asc_del_def)
    have again: "asc_lawful env H now (asc_rank now As_wait s (ps, fs)) (Some ((asc_del p m s)\<lparr>sc_retry := sc_retry s + 1\<rparr>, Goto As_send))"
      using lock pop [where pc' = As_send and n = "sc_retry s + 1"] by (intro asc_lawful_Goto [where x = "(qs, fs @ [p])"]) (simp_all add: s Cons asc_rank_def)
    have stay: "asc_lawful env H now (asc_rank now As_wait s (ps, fs)) (Some (asc_del p m s, Goto As_wait))"
      using lock pop [where pc' = As_wait and n = "sc_retry s"] by (intro asc_lawful_Goto [where x = "(qs, fs @ [p])"]) (simp_all add: s Cons asc_rank_def)
    have tg: "tag m p = tag (sc_mem s) p" "msg_value m p = msg_value (sc_mem s) p" using m(2) by (simp_all add: same_msgs_def)
    show ?thesis
    proof (cases "tag (sc_mem s) p = WF_ASSOC_TAG_RSP")
      case True
      then have "length (msg_value (sc_mem s) p) = 796" using b by (simp add: asc_box_def)
      then obtain st where "rd_le16 (msg_value m p) 26 = Some st" using tg by (auto simp: rd_le16_def rd8_def)
      then show ?thesis using m(1) tg True again asc_accept_lawful [OF assms [unfolded Cons] True m(2,3)] asc_lawful_exit [OF m(3)] by (simp add: asc_wait_rsp_def)
    next
      case False
      then show ?thesis using m(1) tg stay asc_lawful_exit [OF m(3)] by (simp add: asc_wait_rsp_def)
    qed
  qed
qed

interpretation asc: protothread "asc_step env now" "asc_inv env H" "asc_rank now" "asc_post env H" for env now H
proof
  fix pc s x
  assume i: "asc_inv env H pc s x"
  have "asc_lawful env H now (asc_rank now pc s x) (asc_step env now pc s)"
  proof (cases pc)
    case As_begin
    have "asc_inv env H As_start (s\<lparr>sc_lock := True\<rparr>) x" using i As_begin by (auto simp: asc_inv_def assoc_ok_def)
    then have "asc_lawful env H now (asc_rank now pc s x) (Some (s\<lparr>sc_lock := True\<rparr>, Goto As_start))"
      by (rule asc_lawful_Goto) (simp add: asc_rank_def As_begin)
    then show ?thesis using i As_begin by (auto simp: asc_step_def PT_SCHEDULE_def intro: asc_lawful_Back)
  next
    case As_start
    then show ?thesis using asc_start_lawful [of env H s "fst x" "snd x" now] i by (simp add: asc_step_def)
  next
    case As_send
    then show ?thesis using asc_send_lawful i by simp
  next
    case As_wait
    then show ?thesis using asc_wait_lawful [of env H s "fst x" "snd x" now] i by (simp add: asc_step_def)
  qed
  then show "\<exists>s' n. asc_step env now pc s = Some (s', n) \<and>
    (case n of Goto pc' \<Rightarrow> \<exists>x'. asc_inv env H pc' s' x' \<and> asc_rank now pc' s' x' < asc_rank now pc s x | _ \<Rightarrow> asc_post env H s' n)"
    by (simp only: asc_lawful_def)
qed

section \<open>Properties\<close>

definition asc_ready :: "assoc_env \<Rightarrow> ptr set \<Rightarrow> sta_assoc \<Rightarrow> bool" where
  "asc_ready env H s \<longleftrightarrow> (\<exists>x. asc_inv env H (sc_pt s) s x)"

lemma asc_inv_pt: "asc_inv env H pc (s\<lparr>sc_pt := pc'\<rparr>) x = asc_inv env H pc s x"
  by (simp add: asc_inv_def assoc_ok_def split: asc_pc.split)

text \<open>A station that has been told to start, with one free message for a response.\<close>

definition assoc_env_ex :: assoc_env where
  "assoc_env_ex = \<lparr>au_extbuf = \<lambda>_. True, au_xmit = \<lambda>_. 0, au_mlme_deauth = \<lambda>_. 0, au_msecs = \<lambda>ms. ms, au_rand = \<lambda>i. of_nat i, au_icv = 0,
     au_reason = 0, ax_buf = \<lambda>_. replicate 1000 0xFF\<rparr>"

definition assoc_peer_ex :: wdn_net_info where
  "assoc_peer_ex = wdn_zero\<lparr>wdn_mac := [2, 0, 0, 0, 0, 1], wdn_bssid := [2, 0, 0, 0, 0, 1], wdn_ssid := [104, 105] @ replicate 30 0, wdn_ssid_len := 2,
     wdn_cap_info := 0x21, listen_interval := 3, datarate := [0x82, 0x84, 0x8B, 0x96, 12, 24, 48, 108], datarate_len := 8\<rparr>"

definition assoc_mem_ex :: msg_mem where
  "assoc_mem_ex = \<lparr>pnext = (\<lambda>_. 0)(1 := 10, 10 := 1, 2 := 11, 11 := 2), prev = (\<lambda>_. 0)(1 := 10, 10 := 1, 2 := 11, 11 := 2),
     cnt = (\<lambda>_. 0)(1 := 1, 2 := 1), pque = (\<lambda>_. None)(10 := Some 1, 11 := Some 2), alloc_value_size = (\<lambda>_. 0),
     tag = (\<lambda>_. WF_ASSOC_TAG_RSP)(10 := WF_ASSOC_TAG_START), msg_len = (\<lambda>_. 0), msg_value = (\<lambda>_. replicate 796 0)\<rparr>"

definition assoc_ex :: sta_assoc where
  "assoc_ex = \<lparr>sc_mac = [2, 0, 0, 0, 0, 2], sc_peer = Some assoc_peer_ex, sc_hw_n = True,
     sc_sec = \<lparr>as_wpa_enable = False, as_rsn_enable = False, supplicant_ie = replicate 256 0\<rparr>,
     sc_net = \<lparr>an_bssid = [2, 0, 0, 0, 0, 1], an_aid = 0, an_req_ie = replicate 794 0, an_req_len = 0, an_resp_ie = replicate 768 0, an_resp_len = 0\<rparr>,
     sc_out = [], sc_que = \<lparr>pend = 1, free = 2\<rparr>, sc_mem = assoc_mem_ex, sc_pt = As_begin, sc_retry = 0,
     sc_timer = \<lparr>tm_start = 0, tm_expire = 0, tm_interval = 0\<rparr>, sc_run = False, sc_lock = False\<rparr>"

lemma assoc_ex_box: "asc_box assoc_ex [10] [11] {}"
  by (simp add: asc_box_def assoc_ex_def assoc_mem_ex_def mbox_def msg_inv_def wf_que_rep_def dll_def)

lemma assoc_ex_ok: "assoc_ok assoc_env_ex assoc_ex assoc_peer_ex"
  by (simp add: assoc_ok_def assoc_ex_def assoc_peer_ex_def assoc_env_ex_def wdn_wf_def wdn_zero_def Let_def)

lemma assoc_tags: "WF_ASSOC_TAG_RSP = 0" "WF_ASSOC_TAG_START \<noteq> 0" "WF_ASSOC_TAG_ABORT \<noteq> 0"
  by (simp_all add: WF_ASSOC_TAG_RSP_def WF_ASSOC_TAG_START_def WF_ASSOC_TAG_ABORT_def WF_MSG_TAG_SET_def)

text \<open>(C10) Every call of the association thread of a station returns, whatever responses of 30 to 796 bytes, aborts and
  starts are pending in any order and number and whatever the transmit path answers: no access leaves a
  buffer. If the thread waits, it can be called again; if it has ended, the lock of the hardware is free and every message it took is
  back.\<close>

theorem assoc_thread_returns:
  assumes "asc_ready env H s"
  shows "\<exists>s' r rsn. wf_assoc_sta_thrd env now s = Some (s', r, rsn) \<and>
    (case rsn of
       None \<Rightarrow> PT_SCHEDULE r \<and> asc_ready env H s'
     | Some e \<Rightarrow> \<not> PT_SCHEDULE r \<and> sc_pt s' = As_begin \<and> \<not> sc_lock s' \<and> (\<exists>ps fs. asc_box s' ps fs H))"
proof -
  obtain x where "asc_inv env H (sc_pt s) s x" using assms by (auto simp: asc_ready_def)
  from asc.call_returns [OF this] obtain s' n where r: "pt_run (asc_step env now) (sc_pt s) s = Some (s', n)" "asc_post env H s' n" by blast
  show ?thesis
  proof (cases n)
    case (Goto pc)
    then show ?thesis using r(2) by (simp add: asc_post_def)
  next
    case (Back pc q)
    then show ?thesis using r by (simp add: wf_assoc_sta_thrd_def asc_return_def asc_post_def asc_ready_def asc_inv_pt)
  next
    case (Fin q e)
    then show ?thesis using r by (simp add: wf_assoc_sta_thrd_def asc_return_def asc_post_def)
  qed
qed

lemma assoc_thread_returns_witness:
  "\<exists>s' r rsn. wf_assoc_sta_thrd assoc_env_ex 0 assoc_ex = Some (s', r, rsn) \<and> (rsn = None \<longrightarrow> asc_ready assoc_env_ex {} s')"
proof -
  have "asc_inv assoc_env_ex {} As_begin assoc_ex ([10], [11])"
    using assoc_ex_box assoc_ex_ok assoc_tags
    by (simp add: asc_inv_def assoc_env_ex_def) (simp add: assoc_ex_def assoc_mem_ex_def)
  then have "asc_ready assoc_env_ex {} assoc_ex" by (auto simp: asc_ready_def assoc_ex_def)
  from assoc_thread_returns [OF this, of 0] show ?thesis by (force split: option.splits)
qed

lemma sub_30_wraps: "unat (x :: u32) < 30 \<Longrightarrow> 796 < unat (x - 30)"
  by (auto simp: unat_sub_if_size word_size)

text \<open>A response that says success but is shorter than its fixed fields makes the thread copy outside of every
  buffer: the length of the elements is computed in 32 bits without a check and wraps around. Reception checks no lower
  bound.\<close>

theorem assoc_short_response:
  assumes "sc_pt s = As_wait" "asc_box s (p # ps) fs H" "tag (sc_mem s) p = WF_ASSOC_TAG_RSP" "rd_le16 (msg_value (sc_mem s) p) 26 = Some 0"
    "unat (ucast (msg_len (sc_mem s) p) :: u16) < 30"
  shows "wf_assoc_sta_thrd env now s = None"
proof -
  obtain m where m: "box_pop (sc_que s) (sc_mem s) = (m, 0, Some p)" "same_msgs (sc_mem s) m" by (rule asc_pop [OF assms(2)])
  have v: "tag m p = WF_ASSOC_TAG_RSP" "msg_value m p = msg_value (sc_mem s) p" "msg_len m p = msg_len (sc_mem s) p" "length (msg_value (sc_mem s) p) = 796"
    using m(2) assms(2,3) by (auto simp: same_msgs_def asc_box_def)
  let ?n = "ucast (msg_len (sc_mem s) p) :: u16"
  have "unat (ucast ?n :: u32) < 30" using assms(5) by (simp only: ucast_of_nat_unat) (subst unat_of_nat_u32, simp_all)
  then have "796 < unat (ucast ?n - 30 :: u32)" by (rule sub_30_wraps)
  then have "asc_accept p m s = None" using v by (simp add: asc_accept_def rdn_def Let_def split: Option.bind_splits)
  then have "asc_step env now As_wait s = None" using m(1) v assms(4) assoc_tags by (simp add: asc_step_def asc_wait_rsp_def)
  then show ?thesis using assms(1) by (simp add: wf_assoc_sta_thrd_def pt_run.simps)
qed

lemma assoc_short_response_witness:
  "wf_assoc_sta_thrd assoc_env_ex 5 (assoc_ex\<lparr>sc_pt := As_wait, sc_mem := assoc_mem_ex\<lparr>tag := \<lambda>_. WF_ASSOC_TAG_RSP, msg_len := \<lambda>_. 28\<rparr>\<rparr>) = None"
  by (rule assoc_short_response [where p = 10 and ps = "[]" and fs = "[11]" and H = "{}"])
    (simp_all add: asc_box_def assoc_ex_def assoc_mem_ex_def mbox_def msg_inv_def wf_que_rep_def dll_def rd_le16_def rd8_def le16_of_def)

end
