(* ===== verification/Assoc_Air.thy ===== *)
theory Assoc_Air
  imports Assoc_Req Assoc_Sta Auth_Air
begin

text \<open>
  Association from end to end: what the access point does with a request, what the station does with the response, and both
  together, each frame handed to the reception of the other side.
\<close>

section \<open>The access point\<close>

text \<open>A peer without pending frames and with a free message for a request; and one that holds the request \<open>f\<close>.\<close>

definition ap_listens :: "ap_sta \<Rightarrow> bool" where
  "ap_listens x \<longleftrightarrow> (let a = ps_auth x in aa_mode a = WF_MASTER_MODE \<and> aa_que a \<notin> range (aa_free a) \<and>
     (\<exists>Q. pool_ok wf_que_rep (aa_mem a) (ap_heads a) Q \<and> Q (aa_que a) = [] \<and> Q (aa_free a WF_AP_MSG_TAG_ASSOC_REQ_FRAME) \<noteq> [] \<and>
       (\<forall>p\<in>set (Q (aa_free a WF_AP_MSG_TAG_ASSOC_REQ_FRAME)). length (am_mgmt (aa_mem a) p) = 796)))"

definition ap_holds :: "ap_sta \<Rightarrow> ptr \<Rightarrow> bytes \<Rightarrow> bool" where
  "ap_holds x p f \<longleftrightarrow> (let a = ps_auth x in aa_que a \<notin> range (aa_free a) \<and> am_tag (aa_mem a) p = WF_AP_MSG_TAG_ASSOC_REQ_FRAME \<and>
     am_len (aa_mem a) p = of_nat (length f) \<and> length f \<le> 796 \<and> (\<exists>rest. am_mgmt (aa_mem a) p = f @ rest) \<and>
     (\<exists>Q. pool_ok wf_que_rep (aa_mem a) (ap_heads a) Q \<and> Q (aa_que a) = [p]))"

definition ap_empty :: "ap_auth \<Rightarrow> bool" where
  "ap_empty a \<longleftrightarrow> aa_que a \<notin> range (aa_free a) \<and> (\<exists>Q. pool_ok wf_que_rep (aa_mem a) (ap_heads a) Q \<and> Q (aa_que a) = [])"

lemma ap_listens_recv:
  assumes "ap_listens x" "length f \<le> 796" "rd_le16 f 0 = Some 0"
  obtains m p where "wf_assoc_ap_work (Some x) f (of_nat (length f)) = Some (Some (x\<lparr>ps_auth := (ps_auth x)\<lparr>aa_mem := m\<rparr>\<rparr>), 0)"
    "ap_holds (x\<lparr>ps_auth := (ps_auth x)\<lparr>aa_mem := m\<rparr>\<rparr>) p f"
proof -
  let ?a = "ps_auth x"
  let ?fq = "aa_free ?a WF_AP_MSG_TAG_ASSOC_REQ_FRAME"
  obtain Q p fs where Q: "pool_ok wf_que_rep (aa_mem ?a) (ap_heads ?a) Q" "Q (aa_que ?a) = []" "Q ?fq = p # fs" "length (am_mgmt (aa_mem ?a) p) = 796"
    "aa_que ?a \<notin> range (aa_free ?a)" "aa_mode ?a = WF_MASTER_MODE"
    using assms(1) by (auto simp: ap_listens_def Let_def neq_Nil_conv)
  have len: "unat (of_nat (length f) :: u16) = length f" using assms(2) by (intro unat_of_nat_u16) simp
  obtain m where m: "wf_ap_msg_load (aa_free ?a) (aa_que ?a) WF_AP_MSG_TAG_ASSOC_REQ_FRAME (Some f) (of_nat (length f)) (aa_mem ?a) = Some (m, 0)"
    "pool_ok wf_que_rep m (ap_heads ?a) (Q(?fq := fs, aa_que ?a := Q (aa_que ?a) @ [p]))" "am_tag m = (am_tag (aa_mem ?a))(p := WF_AP_MSG_TAG_ASSOC_REQ_FRAME)"
    "am_len m = (am_len (aa_mem ?a))(p := of_nat (length f))"
    "am_mgmt m = (am_mgmt (aa_mem ?a))(p := take (unat (of_nat (length f) :: u16)) f @ drop (unat (of_nat (length f) :: u16)) (am_mgmt (aa_mem ?a) p))"
    by (rule ap_msg_load_result [of "aa_mem ?a" "ap_heads ?a" Q "aa_free ?a" WF_AP_MSG_TAG_ASSOC_REQ_FRAME "aa_que ?a" p fs "of_nat (length f)" f])
      (use Q assms(2) len in \<open>auto simp: ap_heads_def\<close>)
  have "wf_assoc_ap_work (Some x) f (of_nat (length f)) = Some (Some (x\<lparr>ps_auth := ?a\<lparr>aa_mem := m\<rparr>\<rparr>), 0)"
    using assms(2,3) len m(1) Q(6) by (simp add: wf_assoc_ap_work_def Let_def)
  moreover have "ap_holds (x\<lparr>ps_auth := ?a\<lparr>aa_mem := m\<rparr>\<rparr>) p f"
    unfolding ap_holds_def Let_def using m(2-5) Q(2,5) assms(2) len
    by (auto simp: ap_heads_def intro!: exI [of _ "Q(?fq := fs, aa_que ?a := Q (aa_que ?a) @ [p])"])
  ultimately show thesis by (rule that)
qed

lemma ap_holds_del:
  assumes "ap_holds x p f"
  shows "wf_ap_msg_get (aa_que (ps_auth x)) (aa_mem (ps_auth x)) = Some p" "ap_empty (ap_del p ((ps_auth x)\<lparr>aa_state := st\<rparr>))"
proof -
  let ?a = "ps_auth x"
  obtain Q where Q: "pool_ok wf_que_rep (aa_mem ?a) (ap_heads ?a) Q" "Q (aa_que ?a) = [p]" "aa_que ?a \<notin> range (aa_free ?a)"
    using assms by (auto simp: ap_holds_def Let_def)
  show "wf_ap_msg_get (aa_que ?a) (aa_mem ?a) = Some p" using ap_msg_get_result [OF Q(1), of "aa_que ?a"] Q(2) by (simp add: ap_heads_def)
  obtain m' where "wf_ap_msg_free (aa_free ?a) (aa_que ?a) p (aa_mem ?a) = (m', 0)"
    "pool_ok wf_que_rep m' (ap_heads ?a) (Q(aa_que ?a := [], aa_free ?a (am_tag (aa_mem ?a) p) := p # Q (aa_free ?a (am_tag (aa_mem ?a) p))))"
    by (rule ap_msg_free_result [of "aa_mem ?a" "ap_heads ?a" Q "aa_free ?a" p "aa_que ?a" "[]"]) (use Q in \<open>auto simp: ap_heads_def\<close>)
  then show "ap_empty (ap_del p (?a\<lparr>aa_state := st\<rparr>))" unfolding ap_empty_def using Q(3)
    by (intro conjI exI [of _ "Q(aa_que ?a := [], aa_free ?a (am_tag (aa_mem ?a) p) := p # Q (aa_free ?a (am_tag (aa_mem ?a) p)))"]) (auto simp: ap_del_def ap_heads_def)
qed

text \<open>A request, and the response.\<close>

definition assoc_req :: "bytes \<Rightarrow> u16 \<Rightarrow> u16 \<Rightarrow> elem list \<Rightarrow> bytes" where
  "assoc_req hdr cap li es = le16_bytes 0 @ hdr @ le16_bytes cap @ le16_bytes li @ ies_enc es"

definition assoc_rsp :: "ap_net \<Rightarrow> ap_auth \<Rightarrow> u16 \<Rightarrow> bytes \<Rightarrow> bytes" where
  "assoc_rsp net a st var = le16_bytes 0x10 @ [0, 0] @ aw_mac (aa_peer a) @ nt_mac net @ ad_bssid (aa_dev a) @ [0, 0] @
     le16_bytes (nt_cap_info net) @ le16_bytes st @ le16_bytes (ucast (aa_aid a OR 0xC000)) @ var"

definition rsp_elems :: "ap_net \<Rightarrow> ap_wdn \<Rightarrow> elem list" where
  "rsp_elems net w = [(1, ai_datarate w)] @ (if 8 < nt_rate_len net then [(50, take (unat (nt_rate_len net) - 8) (ai_ext_datarate w))] else []) @
     (if ai_ht_enable w then [(45, nt_ht_cap net), (61, nt_ht_oper net)] else [])"

definition rsp_var :: "ap_net \<Rightarrow> ap_wdn \<Rightarrow> bytes" where
  "rsp_var net w = ies_enc (rsp_elems net w) @ (if ai_wpa_enable w \<or> ai_rsn_enable w then take (unat (ai_wpa_ie_len w)) (ai_wpa_ie w) else [])"

lemma put_ie_enc: "unat n \<le> length src \<Longrightarrow> put_ie i n src = Some (ie_enc (i, take (unat n) src))"
  by (simp add: put_ie_def rdn_def ie_enc_def)

lemma assoc_rsp_var_result:
  assumes "ap_net_wf net" "ap_wdn_wf w"
  shows "assoc_rsp_var net w = Some (rsp_var net w)" "length (rsp_var net w) \<le> 100"
proof -
  have l: "unat (nt_rate_len net) \<le> 12" using assms(1) by (simp add: ap_net_wf_def word_le_nat_alt)
  have e: "unat (nt_rate_len net - 8) = unat (nt_rate_len net) - 8" if "8 < nt_rate_len net" using that by (simp add: unat_sub word_less_nat_alt word_le_nat_alt)
  have p: "put_ie 1 8 (ai_datarate w) = Some (ie_enc (1, ai_datarate w))" "put_ie 45 26 (nt_ht_cap net) = Some (ie_enc (45, nt_ht_cap net))"
    "put_ie 61 22 (nt_ht_oper net) = Some (ie_enc (61, nt_ht_oper net))"
    "8 < nt_rate_len net \<Longrightarrow> put_ie 50 (nt_rate_len net - 8) (ai_ext_datarate w) = Some (ie_enc (50, take (unat (nt_rate_len net) - 8) (ai_ext_datarate w)))"
    using assms l e by (simp_all add: put_ie_enc ap_net_wf_def ap_wdn_wf_def)
  have s: "ai_wpa_enable w \<or> ai_rsn_enable w \<Longrightarrow> rdn (ai_wpa_ie w) 0 (unat (ai_wpa_ie_len w)) = Some (take (unat (ai_wpa_ie_len w)) (ai_wpa_ie w))"
    using assms(2) by (auto simp: ap_wdn_wf_def rdn_def)
  show "assoc_rsp_var net w = Some (rsp_var net w)" using p s by (auto simp: assoc_rsp_var_def rsp_var_def rsp_elems_def)
  show "length (rsp_var net w) \<le> 100" using assms l by (auto simp: rsp_var_def rsp_elems_def ap_net_wf_def ap_wdn_wf_def)
qed

lemma reset_wf: "ap_wdn_wf w \<Longrightarrow> ap_wdn_wf (ap_wdn_reset cap li w)"
  by (simp add: ap_wdn_wf_def ap_wdn_reset_def)

lemma fold_take_wf: "ap_wdn_wf w \<Longrightarrow> ap_net_wf net \<Longrightarrow> \<forall>e\<in>set es. elem_good net e \<Longrightarrow> ap_wdn_wf (fold (take_elem net) es w)"
  by (induction es arbitrary: w) (auto intro: take_elem_wf)

text \<open>The peer after an accepted request, apart from its rate id.\<close>

definition ap_peer_of :: "ap_net \<Rightarrow> u16 \<Rightarrow> u16 \<Rightarrow> elem list \<Rightarrow> ap_wdn \<Rightarrow> ap_wdn" where
  "ap_peer_of net cap li es w = fold (take_elem net) es (ap_wdn_reset cap li w)"

definition rate_table :: "ap_wdn \<Rightarrow> wdn_net_info \<times> u8" where
  "rate_table w = wf_wdn_get_raid_by_network_type (wdn_zero\<lparr>network_type := ai_network_type w, bw_mode := ai_bw_mode w, tx_rate := ai_tx_rate w\<rparr>)"

lemma ap_assoc_accepts:
  assumes "\<forall>es. au_extbuf env es" "ap_holds x p (assoc_req hdr cap li es)" "length hdr = 22" "\<forall>e\<in>set es. elem_good net e" "rates_once es"
    "ap_wdn_wf (ps_assoc x)" "ap_net_wf net" "0 < aa_aid (ps_auth x)" "aa_aid (ps_auth x) < 32"
  obtains x' where "wf_assoc_ap_thrd env net loc x = Some (x', PT_ENDED)" "ap_empty (ps_auth x')" "aa_state (ps_auth x') = E_WDN_AP_STATE_ASSOC"
    "ps_assoc x' = (ap_peer_of net cap li es (ps_assoc x))\<lparr>ai_raid := snd (rate_table (ap_peer_of net cap li es (ps_assoc x))),
       ai_tx_rate := tx_rate (fst (rate_table (ap_peer_of net cap li es (ps_assoc x))))\<rparr>"
    "ad_out (aa_dev (ps_auth x')) = ad_out (aa_dev (ps_auth x)) @ [Frame_xmit (assoc_rsp net (ps_auth x) 0 (rsp_var net (ap_peer_of net cap li es (ps_assoc x)))),
       Ap_odm_connect, Mcu_rate_table_update (snd (rate_table (ap_peer_of net cap li es (ps_assoc x)))), Ap_ind_assoc]"
    "ad_sec (aa_dev (ps_auth x')) = ad_sec (aa_dev (ps_auth x))"
proof -
  let ?a = "ps_auth x" and ?w = "ap_peer_of net cap li es (ps_assoc x)" and ?f = "assoc_req hdr cap li es"
  obtain rest where h: "am_tag (aa_mem ?a) p = WF_AP_MSG_TAG_ASSOC_REQ_FRAME" "am_len (aa_mem ?a) p = of_nat (length ?f)" "length ?f \<le> 796"
    "am_mgmt (aa_mem ?a) p = ?f @ rest"
    using assms(2) by (auto simp: ap_holds_def Let_def)
  note g = ap_holds_del [OF assms(2)]
  have m: "am_mgmt (aa_mem ?a) p = le16_bytes 0 @ hdr @ le16_bytes cap @ le16_bytes li @ ies_enc es @ rest" using h(4) by (simp add: assoc_req_def)
  have r: "rd_le16 (am_mgmt (aa_mem ?a) p) 0 = Some 0" "rd_le16 (am_mgmt (aa_mem ?a) p) 24 = Some cap" "rd_le16 (am_mgmt (aa_mem ?a) p) 26 = Some li"
    unfolding m using rd_le16_put [of 0 "[]" 0] rd_le16_put [of 24 "le16_bytes 0 @ hdr" cap] rd_le16_put [of 26 "le16_bytes 0 @ hdr @ le16_bytes cap" li] assms(3) by simp_all
  have fl: "length ?f = 28 + length (ies_enc es)" using assms(3) by (simp add: assoc_req_def)
  have v: "of_nat (length ?f) - 28 = (of_nat (length (ies_enc es)) :: u16)" using fl by simp
  have vu: "unat (of_nat (length (ies_enc es)) :: u16) = length (ies_enc es)" using h(3) fl by (intro unat_of_nat_u16) simp
  have wf: "ap_wdn_wf (ap_wdn_reset cap li (ps_assoc x))" "ap_wdn_wf ?w"
    using reset_wf [OF assms(6)] fold_take_wf [OF reset_wf [OF assms(6)] assms(7,4)] by (simp_all add: ap_peer_of_def)
  have loop: "ap_ies_loop net (am_mgmt (aa_mem ?a) p) 28 (of_nat (length (ies_enc es))) 0 (ap_wdn_reset cap li (ps_assoc x)) loc = Some (?w, None)"
    using ap_loop_accepts [of es net "ap_wdn_reset cap li (ps_assoc x)" "le16_bytes 0 @ hdr @ le16_bytes cap @ le16_bytes li" 28 0 "of_nat (length (ies_enc es))" rest loc]
      assms(3-5,7) wf(1) vu by (simp add: m ap_peer_of_def rates_room_def ap_wdn_reset_def)
  let ?a1 = "ap_del p (?a\<lparr>aa_state := E_WDN_AP_STATE_ASSOC\<rparr>)" and ?rsp = "assoc_rsp net ?a 0 (rsp_var net ?w)"
  let ?r = "rate_table ?w"
  let ?x = "\<lparr>ps_auth = ?a1\<lparr>aa_dev := (aa_dev ?a)\<lparr>ad_out := ad_out (aa_dev ?a) @ [Frame_xmit ?rsp, Ap_odm_connect, Mcu_rate_table_update (snd ?r), Ap_ind_assoc]\<rparr>\<rparr>,
     ps_assoc = ?w\<lparr>ai_raid := snd ?r, ai_tx_rate := tx_rate (fst ?r)\<rparr>\<rparr>"
  have sel: "aa_aid ?a1 = aa_aid ?a" "aa_dev ?a1 = aa_dev ?a" "aa_peer ?a1 = aa_peer ?a" by (simp_all add: ap_del_def)
  have aid: "\<not> 2007 < aa_aid ?a" using assms(9) by (simp add: word_less_nat_alt)
  have x: "x\<lparr>ps_auth := a', ps_assoc := w'\<rparr> = \<lparr>ps_auth = a', ps_assoc = w'\<rparr>" for a' w' by simp
  have tx: "assoc_ap_xmit_frame env net 0 0 \<lparr>ps_auth = ?a1, ps_assoc = ?w\<rparr> = Some \<lparr>ps_auth = ?a1\<lparr>aa_dev := auth_emit (Frame_xmit ?rsp) (aa_dev ?a)\<rparr>, ps_assoc = ?w\<rparr>"
    using assms(1) assoc_rsp_var_result(1) [OF assms(7) wf(2)] sel by (simp add: assoc_ap_xmit_frame_def assoc_rsp_def Let_def)
  have "wf_assoc_ap_thrd env net loc x = Some (?x, PT_ENDED)"
    unfolding wf_assoc_ap_thrd_def Let_def g(1) using h(1,2) r v loop tx aid assms(9) sel
    by (simp add: x wf_ap_add_sta_ratid_def wf_assoc_ap_event_up_def Let_def auth_emit_def rate_table_def case_prod_beta)
  moreover have "ap_empty (ps_auth ?x)" using g(2) [of E_WDN_AP_STATE_ASSOC] by (simp add: ap_empty_def ap_heads_def)
  ultimately show thesis by (rule that) (simp_all add: ap_del_def)
qed

section \<open>The station\<close>

definition asc_begins :: "assoc_env \<Rightarrow> sta_assoc \<Rightarrow> wdn_net_info \<Rightarrow> ptr set \<Rightarrow> bool" where
  "asc_begins env s w H \<longleftrightarrow> sc_pt s = As_begin \<and> \<not> sc_lock s \<and> sc_peer s = Some w \<and> assoc_ok env s w \<and> wdn_bssid w = an_bssid (sc_net s) \<and>
     (\<forall>es. au_extbuf env es) \<and> unat (au_msecs env 50) < 2 ^ 31 \<and>
     (\<exists>p fs. asc_box s [p] fs H \<and> tag (sc_mem s) p = WF_ASSOC_TAG_START \<and> (\<exists>q\<in>set fs. tag (sc_mem s) q = WF_ASSOC_TAG_RSP))"

definition asc_waits :: "sta_assoc \<Rightarrow> wdn_net_info \<Rightarrow> ptr set \<Rightarrow> bool" where
  "asc_waits s w H \<longleftrightarrow> sc_pt s = As_wait \<and> sc_lock s \<and> sc_retry s < 3 \<and> sc_peer s = Some w \<and> wdn_bssid w = an_bssid (sc_net s) \<and>
     length (an_resp_ie (sc_net s)) = 768 \<and> (\<exists>fs. asc_box s [] fs H \<and> (\<exists>q\<in>set fs. tag (sc_mem s) q = WF_ASSOC_TAG_RSP))"

lemma asc_call_start:
  assumes "asc_begins env s w H"
  obtains s1 where "wf_assoc_sta_thrd env now s = Some (s1, PT_WAITING, None)" "asc_waits s1 w H" "sc_mac s1 = sc_mac s"
    "sc_out s1 = sc_out s @ [Frame_xmit (assoc_hdr w (sc_mac s) @ ies_enc (assoc_elems w (sc_sec s) (sc_hw_n s)))]"
proof -
  note b = assms [unfolded asc_begins_def]
  obtain p fs q where box: "asc_box s [p] fs H" "tag (sc_mem s) p = WF_ASSOC_TAG_START" "q \<in> set fs" "tag (sc_mem s) q = WF_ASSOC_TAG_RSP" using b by blast
  let ?s0 = "s\<lparr>sc_lock := True\<rparr>"
  have b0: "asc_box ?s0 [p] fs H" using box(1) by simp
  obtain m where m: "box_pop (sc_que ?s0) (sc_mem ?s0) = (m, 0, Some p)" "same_msgs (sc_mem ?s0) m"
    "asc_box (asc_del p m ?s0) [] (fs @ [p]) H" "same_msgs (sc_mem ?s0) (sc_mem (asc_del p m ?s0))"
    by (rule asc_pop [OF b0])
  let ?s1 = "(asc_del p m ?s0)\<lparr>sc_run := True, sc_retry := 0\<rparr>"
  have st1: "asc_step env now As_begin s = Some (?s0, Goto As_start)" using b by (simp add: asc_step_def)
  have st2: "asc_step env now As_start ?s0 = Some (?s1, Goto As_send)" using m(1,2) box(2) by (simp add: asc_step_def asc_get_start_def same_msgs_def)
  have ok: "assoc_ok env ?s1 w" "sc_peer ?s1 = Some w" "au_extbuf env (sc_out ?s1)" using b by (simp_all add: assoc_ok_def)
  obtain net where net: "associate_xmit_frame env ?s1 =
      Some (?s1\<lparr>sc_out := sc_out ?s1 @ [Frame_xmit (assoc_hdr w (sc_mac ?s1) @ ies_enc (assoc_elems w (sc_sec ?s1) (sc_hw_n ?s1)))], sc_net := net\<rparr>, 0)"
    "an_bssid net = an_bssid (sc_net ?s1)" "an_resp_ie net = an_resp_ie (sc_net ?s1)"
    by (rule assoc_xmit_result [OF ok])
  let ?t = "wf_timer_set (au_msecs env) now 50"
  let ?s2 = "?s1\<lparr>sc_out := sc_out ?s1 @ [Frame_xmit (assoc_hdr w (sc_mac ?s1) @ ies_enc (assoc_elems w (sc_sec ?s1) (sc_hw_n ?s1)))], sc_net := net, sc_timer := ?t\<rparr>"
  have st3: "asc_step env now As_send ?s1 = Some (?s2, Goto As_wait)" using net(1) by (simp add: asc_step_def)
  have b2: "asc_box ?s2 [] (fs @ [p]) H" using m(3) by simp
  have t: "\<not> wf_timer_expired now (sc_timer ?s2)" using b by (simp add: timer_set_now)
  have st4: "asc_step env now As_wait ?s2 = Some (?s2, Back As_wait PT_WAITING)" using asc_pop_empty [OF b2] t by (simp add: asc_step_def asc_wait_rsp_def)
  have "pt_run (asc_step env now) As_begin s = Some (?s2, Back As_wait PT_WAITING)"
    by (simp only: pt_run_Goto [where step = "asc_step env now", OF st1] pt_run_Goto [where step = "asc_step env now", OF st2]
      pt_run_Goto [where step = "asc_step env now", OF st3] pt_run_Back [where step = "asc_step env now", OF st4])
  then have "wf_assoc_sta_thrd env now s = Some (?s2\<lparr>sc_pt := As_wait\<rparr>, PT_WAITING, None)" using b by (simp add: wf_assoc_sta_thrd_def asc_return_def)
  moreover have "asc_waits (?s2\<lparr>sc_pt := As_wait\<rparr>) w H"
    unfolding asc_waits_def using b b2 net(2,3) box(3,4) m(4) by (auto simp: assoc_ok_def same_msgs_def intro!: exI [of _ "fs @ [p]"])
  ultimately show thesis by (rule that) simp_all
qed

lemma asc_recv:
  assumes "asc_waits s w H" "10 \<le> length f" "length f \<le> 796" "take 6 (drop 4 f) = sc_mac s"
  obtains m p fs rest where "wf_assoc_frame_parse True (Some w) (Some f) (of_nat (length f)) s = Some (s\<lparr>sc_mem := m\<rparr>, 0)" "asc_box (s\<lparr>sc_mem := m\<rparr>) [p] fs H"
    "tag m p = WF_ASSOC_TAG_RSP" "msg_value m p = f @ rest" "length (f @ rest) = 796" "msg_len m p = of_nat (length f)"
proof -
  obtain fs where b: "mbox (sc_que s) (sc_mem s) [] fs H" "\<exists>q\<in>set fs. tag (sc_mem s) q = WF_ASSOC_TAG_RSP"
    and v: "\<And>p. tag (sc_mem s) p = WF_ASSOC_TAG_RSP \<Longrightarrow> length (msg_value (sc_mem s) p) = 796" using assms(1) by (auto simp: asc_waits_def asc_box_def)
  obtain us p vs where fs: "fs = us @ p # vs" "tag (sc_mem s) p = WF_ASSOC_TAG_RSP" "\<forall>u\<in>set us. tag (sc_mem s) u \<noteq> WF_ASSOC_TAG_RSP"
    using split_list_first_prop [OF b(2)] by blast
  obtain m1 where m1: "box_new (sc_que s) WF_ASSOC_TAG_RSP (sc_mem s) = Some (m1, 0, Some p)" "mbox (sc_que s) m1 [] (us @ vs) (insert p H)" "same_msgs (sc_mem s) m1"
    using mb.new_some [OF b(1) [unfolded fs(1)] fs(2,3)] by blast
  let ?v = "f @ drop (length f) (msg_value m1 p)"
  let ?m2 = "box_write p (of_nat (length f)) ?v m1"
  have "p \<notin> H" using mb.box_distinct [OF b(1)] fs(1) by auto
  then obtain m3 where m3: "box_push (sc_que s) p ?m2 = Some (m3, 0)" "same_msgs ?m2 m3" "mbox (sc_que s) m3 [p] (us @ vs) H"
    using mb.push_in [of "sc_que s" ?m2 "[]" "us @ vs" "insert p H" p] m1(2) by auto
  have len: "unat (of_nat (length f) :: u16) = length f" using assms(3) by (intro unat_of_nat_u16) simp
  have v1: "length (msg_value m1 p) = 796" using v [OF fs(2)] m1(3) by (simp add: same_msgs_def)
  have rd: "rdn f 4 6 = Some (sc_mac s)" using assms(2,4) by (simp add: rdn_def)
  have uc: "(ucast (of_nat (length f) :: u16) :: u32) = of_nat (length f)" by (simp only: ucast_of_nat_unat len)
  have fill: "rdn f 0 (length f) = Some f" "wrn (msg_value m1 p) 0 f = Some ?v" using v1 assms(3) by (simp_all add: rdn_def wrn_def)
  have nz: "of_nat (length f) \<noteq> (0 :: u16)" using len assms(2) by (metis unat_0 not_numeral_le_zero)
  have r: "wf_assoc_frame_parse True (Some w) (Some f) (of_nat (length f)) s = Some (s\<lparr>sc_mem := m3\<rparr>, 0)"
    unfolding wf_assoc_frame_parse_def asc_msg_send_def using assms(1) rd m1(1) fill m3(1) nz len assms(3) by (simp add: uc asc_waits_def)
  have "asc_box (s\<lparr>sc_mem := m3\<rparr>) [p] (us @ vs) H" using m3 m1(3) v v1 assms(3) by (auto simp: asc_box_def same_msgs_def)
  with r show thesis by (rule that) (use fs m1(3) m3(2) v1 assms(3) in \<open>auto simp: same_msgs_def\<close>)
qed

text \<open>A response with status 0 ends the thread.\<close>

lemma asc_call_done:
  assumes "sc_pt s = As_wait" "sc_retry s < 3" "asc_box s [p] fs H" "tag (sc_mem s) p = WF_ASSOC_TAG_RSP" "length (an_resp_ie (sc_net s)) = 768"
    "msg_value (sc_mem s) p = f @ rest" "length (f @ rest) = 796" "msg_len (sc_mem s) p = of_nat (length f)"
    "f = hdr @ le16_bytes 0 @ le16_bytes aid @ var" "length hdr = 26" "length var \<le> 766"
  obtains s' where "wf_assoc_sta_thrd env now s = Some (s', PT_EXITED, Some (uint WF_ASSOC_TAG_DONE))" "\<not> sc_lock s'" "asc_box s' [] (fs @ [p]) H"
    "an_aid (sc_net s') = uint aid" "take (unat (an_resp_len (sc_net s'))) (an_resp_ie (sc_net s')) = var"
proof -
  obtain m where m: "box_pop (sc_que s) (sc_mem s) = (m, 0, Some p)" "same_msgs (sc_mem s) m" "asc_box (asc_del p m s) [] (fs @ [p]) H" by (rule asc_pop [OF assms(3)])
  have tg: "tag m p = WF_ASSOC_TAG_RSP" "msg_value m p = f @ rest" "msg_len m p = of_nat (length f)" using m(2) assms(4,6,8) by (simp_all add: same_msgs_def)
  have fl: "length f = 30 + length var" using assms(9,10) by simp
  have r: "rd_le16 (f @ rest) 26 = Some 0" "rd_le16 (f @ rest) 28 = Some aid"
    using rd_le16_put [of 26 hdr 0] rd_le16_put [of 28 "hdr @ le16_bytes 0" aid] assms(9,10) by simp_all
  have l: "(ucast (of_nat (length f) :: u32) :: u16) = of_nat (length f)" by (simp add: u32_to_u16)
  have "(ucast (of_nat (length f) :: u16) :: u32) = of_nat (length f)"
    using unat_of_nat_u16 [of "length f"] fl assms(11) by (simp add: ucast_of_nat_unat del: of_nat_unat)
  then have n: "(ucast (of_nat (length f) :: u16) - 30 :: u32) = of_nat (length var)" by (simp add: fl)
  have nu: "unat (of_nat (length var) :: u32) = length var" using assms(11) by (intro unat_of_nat_u32) simp
  have rv: "rdn (f @ rest) 30 (length var) = Some var" using rdn_append_mid [of "hdr @ le16_bytes 0 @ le16_bytes aid" var rest] assms(9,10) by simp
  let ?ie = "var @ drop (length var) (an_resp_ie (sc_net s))"
  have wr: "wrn (an_resp_ie (sc_net s)) 0 var = Some ?ie" using assms(5,11) by (simp add: wrn_def)
  let ?s = "(asc_del p m s)\<lparr>sc_net := (sc_net s)\<lparr>an_aid := uint aid, an_resp_len := of_nat (length var), an_resp_ie := ?ie\<rparr>\<rparr>"
  have "asc_accept p m s = Some (asc_exit (uint WF_ASSOC_TAG_DONE) ?s)" using tg r(2) l n nu rv wr by (simp add: asc_accept_def Let_def)
  then have st: "asc_step env now As_wait s = Some (?s\<lparr>sc_run := False, sc_lock := False\<rparr>, Fin PT_EXITED (uint WF_ASSOC_TAG_DONE))"
    using m(1) tg r(1) assms(2) assoc_tags by (auto simp: asc_step_def asc_wait_rsp_def asc_exit_def WF_ASSOC_TAG_DONE_def WF_ASSOC_TAG_START_def WF_MSG_TAG_SET_def Let_def)
  have "wf_assoc_sta_thrd env now s = Some (?s\<lparr>sc_run := False, sc_lock := False, sc_pt := As_begin\<rparr>, PT_EXITED, Some (uint WF_ASSOC_TAG_DONE))"
    using assms(1) by (simp add: wf_assoc_sta_thrd_def pt_run_Fin [where step = "asc_step env now", OF st] asc_return_def)
  then show thesis by (rule that) (use m(3) nu in simp_all)
qed

section \<open>Both sides\<close>

definition new_frames :: "auth_event list \<Rightarrow> auth_event list \<Rightarrow> bytes list" where
  "new_frames out out' = List.map_filter (\<lambda>e. case e of Frame_xmit f \<Rightarrow> Some f | _ \<Rightarrow> None) (drop (length out) out')"

definition req_hear :: "bytes \<Rightarrow> ap_sta \<Rightarrow> ap_sta option" where
  "req_hear f x = do { (pw, r) \<leftarrow> wf_assoc_ap_work (Some x) f (of_nat (length f)); pw }"

definition rsp_hear :: "bytes \<Rightarrow> sta_assoc \<Rightarrow> sta_assoc option" where
  "rsp_hear f s = map_option fst (wf_assoc_frame_parse True (sc_peer s) (Some f) (of_nat (length f)) s)"

text \<open>A call of the station, one of the access point, and a second one of the station. The result has what the two
  threads returned.\<close>

definition assoc_round ::
  "assoc_env \<Rightarrow> auth_env \<Rightarrow> ap_net \<Rightarrow> ciphers \<Rightarrow> u32 \<Rightarrow> u32 \<Rightarrow> sta_assoc \<Rightarrow> ap_sta \<Rightarrow> (sta_assoc \<times> ap_sta \<times> pt_ret \<times> int option) option" where
  "assoc_round env env' net loc t1 t2 s x = do {
     (s1, r1, rsn1) \<leftarrow> wf_assoc_sta_thrd env t1 s;
     x1 \<leftarrow> deliver req_hear (new_frames (sc_out s) (sc_out s1)) x;
     (x2, r2) \<leftarrow> wf_assoc_ap_thrd env' net loc x1;
     s2 \<leftarrow> deliver rsp_hear (new_frames (ad_out (aa_dev (ps_auth x1))) (ad_out (aa_dev (ps_auth x2)))) s1;
     (s3, r3, rsn3) \<leftarrow> wf_assoc_sta_thrd env t2 s2;
     Some (s3, x2, r2, rsn3)
   }"

definition ap_known :: "ap_sta \<Rightarrow> bytes \<Rightarrow> bool" where
  "ap_known x mac \<longleftrightarrow> ap_listens x \<and> ap_wdn_wf (ps_assoc x) \<and> aw_mac (aa_peer (ps_auth x)) = mac \<and> length (ad_bssid (aa_dev (ps_auth x))) = 6 \<and>
     0 < aa_aid (ps_auth x) \<and> aa_aid (ps_auth x) < 32"

lemma assoc_elems_once: "rates_once (assoc_elems w sec n)"
  by (simp add: rates_once_def assoc_elems_def)

text \<open>The first half: the request arrives. The second: the response arrives and ends the thread.\<close>

lemma assoc_half1:
  assumes "asc_begins env s w H" "ap_known x (sc_mac s)"
  obtains s1 m p hdr where "wf_assoc_sta_thrd env t1 s = Some (s1, PT_WAITING, None)" "asc_waits s1 w H" "sc_mac s1 = sc_mac s" "length hdr = 22"
    "deliver req_hear (new_frames (sc_out s) (sc_out s1)) x = Some (x\<lparr>ps_auth := (ps_auth x)\<lparr>aa_mem := m\<rparr>\<rparr>)"
    "ap_holds (x\<lparr>ps_auth := (ps_auth x)\<lparr>aa_mem := m\<rparr>\<rparr>) p (assoc_req hdr (wdn_cap_info w) (listen_interval w) (assoc_elems w (sc_sec s) (sc_hw_n s)))"
proof -
  let ?es = "assoc_elems w (sc_sec s) (sc_hw_n s)"
  have ok: "assoc_ok env s w" using assms(1) by (simp add: asc_begins_def)
  obtain s1 where s1: "wf_assoc_sta_thrd env t1 s = Some (s1, PT_WAITING, None)" "asc_waits s1 w H" "sc_mac s1 = sc_mac s"
    "sc_out s1 = sc_out s @ [Frame_xmit (assoc_hdr w (sc_mac s) @ ies_enc ?es)]"
    by (rule asc_call_start [OF assms(1)])
  let ?hdr = "[0, 0] @ wdn_mac w @ sc_mac s @ wdn_bssid w @ [0, 0]" and ?cap = "wdn_cap_info w" and ?li = "listen_interval w"
  have f: "assoc_hdr w (sc_mac s) @ ies_enc ?es = assoc_req ?hdr ?cap ?li ?es" by (simp add: assoc_hdr_def assoc_req_def le16_bytes_def)
  have hl: "length ?hdr = 22" using ok by (simp add: assoc_ok_def wdn_wf_def)
  have fl: "length (assoc_req ?hdr ?cap ?li ?es) \<le> 796" using length_assoc_elems(1) [OF ok, of "sc_hw_n s"] hl by (simp add: assoc_req_def)
  have fc: "rd_le16 (assoc_req ?hdr ?cap ?li ?es) 0 = Some 0" using rd_le16_put [of 0 "[]" 0] by (simp add: assoc_req_def)
  have li: "ap_listens x" using assms(2) by (simp add: ap_known_def)
  obtain m p where m: "wf_assoc_ap_work (Some x) (assoc_req ?hdr ?cap ?li ?es) (of_nat (length (assoc_req ?hdr ?cap ?li ?es))) = Some (Some (x\<lparr>ps_auth := (ps_auth x)\<lparr>aa_mem := m\<rparr>\<rparr>), 0)"
    "ap_holds (x\<lparr>ps_auth := (ps_auth x)\<lparr>aa_mem := m\<rparr>\<rparr>) p (assoc_req ?hdr ?cap ?li ?es)"
    by (rule ap_listens_recv [OF li fl fc])
  have "deliver req_hear (new_frames (sc_out s) (sc_out s1)) x = Some (x\<lparr>ps_auth := (ps_auth x)\<lparr>aa_mem := m\<rparr>\<rparr>)"
    using s1(4) m(1) by (simp add: new_frames_def List.map_filter_def req_hear_def f)
  from that [OF s1(1-3) hl this m(2)] show thesis .
qed

lemma assoc_half2:
  assumes "asc_waits s w H" "length (sc_mac s) = 6" "f = [x1, x2, 0, 0] @ sc_mac s @ h @ le16_bytes 0 @ le16_bytes aid @ var" "length h = 16" "length var \<le> 766"
  obtains s2 s3 fs where "rsp_hear f s = Some s2" "wf_assoc_sta_thrd env now s2 = Some (s3, PT_EXITED, Some (uint WF_ASSOC_TAG_DONE))" "\<not> sc_lock s3" "asc_box s3 [] fs H"
    "an_aid (sc_net s3) = uint aid" "take (unat (an_resp_len (sc_net s3))) (an_resp_ie (sc_net s3)) = var"
proof -
  have l: "10 \<le> length f" "length f \<le> 796" "take 6 (drop 4 f) = sc_mac s" using assms(2-5) by simp_all
  obtain m q fs rest where m: "wf_assoc_frame_parse True (Some w) (Some f) (of_nat (length f)) s = Some (s\<lparr>sc_mem := m\<rparr>, 0)" "asc_box (s\<lparr>sc_mem := m\<rparr>) [q] fs H"
    "tag m q = WF_ASSOC_TAG_RSP" "msg_value m q = f @ rest" "length (f @ rest) = 796" "msg_len m q = of_nat (length f)"
    by (rule asc_recv [OF assms(1) l])
  have r: "rsp_hear f s = Some (s\<lparr>sc_mem := m\<rparr>)" using m(1) assms(1) by (simp add: rsp_hear_def asc_waits_def)
  have w: "sc_pt (s\<lparr>sc_mem := m\<rparr>) = As_wait" "sc_retry (s\<lparr>sc_mem := m\<rparr>) < 3" "length (an_resp_ie (sc_net (s\<lparr>sc_mem := m\<rparr>))) = 768"
    "tag (sc_mem (s\<lparr>sc_mem := m\<rparr>)) q = WF_ASSOC_TAG_RSP" "msg_value (sc_mem (s\<lparr>sc_mem := m\<rparr>)) q = f @ rest" "msg_len (sc_mem (s\<lparr>sc_mem := m\<rparr>)) q = of_nat (length f)"
    using assms(1) m(3,4,6) by (simp_all add: asc_waits_def)
  have f: "f = ([x1, x2, 0, 0] @ sc_mac s @ h) @ le16_bytes 0 @ le16_bytes aid @ var" "length ([x1, x2, 0, 0] @ sc_mac s @ h) = 26" using assms(2-4) by simp_all
  obtain s3 where s3: "wf_assoc_sta_thrd env now (s\<lparr>sc_mem := m\<rparr>) = Some (s3, PT_EXITED, Some (uint WF_ASSOC_TAG_DONE))" "\<not> sc_lock s3" "asc_box s3 [] (fs @ [q]) H"
    "an_aid (sc_net s3) = uint aid" "take (unat (an_resp_len (sc_net s3))) (an_resp_ie (sc_net s3)) = var"
    by (rule asc_call_done [OF w(1,2) m(2) w(4,3,5) m(5) w(6) f assms(5)])
  from that [OF r s3] show thesis .
qed

text \<open>(C2) Association from end to end. A station that has been told to start and an access point that knows the
  station from authentication: if the network accepts every element of the request (its SSID, at least one common rate, its ciphers,
  HT only if it is enabled), then after one exchange of frames, in the second call of its thread, the station has
  associated. It has the AID of its peer entry with the two high bits set and the elements of the response, its lock is free and all its messages
  are back; the access point has taken SSID, rates, ciphers and HT parameters from the request and has no message left.\<close>

theorem assoc_handshake:
  assumes "asc_begins env s w H" "\<forall>es. au_extbuf env' es" "ap_net_wf net" "ap_known x (sc_mac s)"
    "\<forall>e\<in>set (assoc_elems w (sc_sec s) (sc_hw_n s)). elem_good net e"
    "v = ap_peer_of net (wdn_cap_info w) (listen_interval w) (assoc_elems w (sc_sec s) (sc_hw_n s)) (ps_assoc x)"
  shows "\<exists>s' x'. assoc_round env env' net loc t1 t2 s x = Some (s', x', PT_ENDED, Some (uint WF_ASSOC_TAG_DONE)) \<and>
    \<not> sc_lock s' \<and> (\<exists>fs. asc_box s' [] fs H) \<and> an_aid (sc_net s') = uint (ucast (aa_aid (ps_auth x) OR 0xC000) :: u16) \<and>
    take (unat (an_resp_len (sc_net s'))) (an_resp_ie (sc_net s')) = rsp_var net v \<and>
    ps_assoc x' = v\<lparr>ai_raid := snd (rate_table v), ai_tx_rate := tx_rate (fst (rate_table v))\<rparr> \<and>
    ap_empty (ps_auth x') \<and> aa_state (ps_auth x') = E_WDN_AP_STATE_ASSOC"
proof -
  let ?es = "assoc_elems w (sc_sec s) (sc_hw_n s)" and ?a = "ps_auth x"
  note k = assms(4) [unfolded ap_known_def]
  obtain s1 m p hdr where s1: "wf_assoc_sta_thrd env t1 s = Some (s1, PT_WAITING, None)" "asc_waits s1 w H" "sc_mac s1 = sc_mac s" "length hdr = 22"
    "deliver req_hear (new_frames (sc_out s) (sc_out s1)) x = Some (x\<lparr>ps_auth := ?a\<lparr>aa_mem := m\<rparr>\<rparr>)"
    "ap_holds (x\<lparr>ps_auth := ?a\<lparr>aa_mem := m\<rparr>\<rparr>) p (assoc_req hdr (wdn_cap_info w) (listen_interval w) ?es)" (is "ap_holds ?x1 p _")
    by (rule assoc_half1 [OF assms(1,4)])
  have kx: "ap_wdn_wf (ps_assoc ?x1)" "0 < aa_aid (ps_auth ?x1)" "aa_aid (ps_auth ?x1) < 32" using k by simp_all
  have v: "ap_peer_of net (wdn_cap_info w) (listen_interval w) ?es (ps_assoc ?x1) = v" using assms(6) by simp
  let ?g = "assoc_rsp net (ps_auth ?x1) 0 (rsp_var net v)"
  obtain x2 where x2: "wf_assoc_ap_thrd env' net loc ?x1 = Some (x2, PT_ENDED)" "ap_empty (ps_auth x2)" "aa_state (ps_auth x2) = E_WDN_AP_STATE_ASSOC"
    "ps_assoc x2 = v\<lparr>ai_raid := snd (rate_table v), ai_tx_rate := tx_rate (fst (rate_table v))\<rparr>"
    "ad_out (aa_dev (ps_auth x2)) = ad_out (aa_dev (ps_auth ?x1)) @ [Frame_xmit ?g, Ap_odm_connect, Mcu_rate_table_update (snd (rate_table v)), Ap_ind_assoc]"
    by (rule ap_assoc_accepts [OF assms(2) s1(6,4) assms(5) assoc_elems_once kx(1) assms(3) kx(2,3), unfolded v])
  have mac: "length (sc_mac s1) = 6" using assms(1) s1(3) by (simp add: asc_begins_def assoc_ok_def)
  have "ap_wdn_wf v" unfolding assms(6) ap_peer_of_def using k assms(3,5) by (intro fold_take_wf reset_wf) simp_all
  then have vl: "length (rsp_var net v) \<le> 766" using assoc_rsp_var_result(2) [OF assms(3), of v] by simp
  have g: "?g = [0x10, 0, 0, 0] @ sc_mac s1 @ (nt_mac net @ ad_bssid (aa_dev ?a) @ [0, 0] @ le16_bytes (nt_cap_info net)) @
      le16_bytes 0 @ le16_bytes (ucast (aa_aid ?a OR 0xC000)) @ rsp_var net v" (is "_ = _ @ _ @ ?h @ _")
    using k s1(3) by (simp add: assoc_rsp_def le16_bytes_def)
  have hl: "length ?h = 16" using k assms(3) by (simp add: ap_net_wf_def)
  obtain s2 s3 fs where s3: "rsp_hear ?g s1 = Some s2" "wf_assoc_sta_thrd env t2 s2 = Some (s3, PT_EXITED, Some (uint WF_ASSOC_TAG_DONE))" "\<not> sc_lock s3" "asc_box s3 [] fs H"
    "an_aid (sc_net s3) = uint (ucast (aa_aid ?a OR 0xC000) :: u16)" "take (unat (an_resp_len (sc_net s3))) (an_resp_ie (sc_net s3)) = rsp_var net v"
    by (rule assoc_half2 [OF s1(2) mac g hl vl])
  have "deliver rsp_hear (new_frames (ad_out (aa_dev (ps_auth ?x1))) (ad_out (aa_dev (ps_auth x2)))) s1 = Some s2"
    using x2(5) s3(1) by (simp add: new_frames_def List.map_filter_def)
  then have "assoc_round env env' net loc t1 t2 s x = Some (s3, x2, PT_ENDED, Some (uint WF_ASSOC_TAG_DONE))"
    unfolding assoc_round_def using s1(1,5) x2(1) s3(2) by simp
  then show ?thesis using s3(3-6) x2(2-4) by blast
qed

text \<open>An access point that has authenticated the station of the example.\<close>

definition net_ex :: ap_net where
  "net_ex = \<lparr>nt_mac = [2, 0, 0, 0, 0, 1], nt_ssid = [104, 105] @ replicate 31 0, nt_ssid_len = 2, nt_cap_info = 0x21,
     nt_rate = [0x82, 0x84, 0x8B, 0x96, 12, 18, 24, 36, 48, 72, 96, 108] @ replicate 4 0, nt_rate_len = 12, nt_ht_enable = False,
     nt_ht_cap = replicate 26 0, nt_ht_oper = replicate 22 0,
     nt_sec = \<lparr>wpa_multicast_cipher = 0, wpa_unicast_cipher = 0, rsn_group_cipher = CIPHER_SUITE_CCMP, rsn_pairwise_cipher = CIPHER_SUITE_CCMP\<rparr>\<rparr>"

definition ap_wdn_ex :: ap_wdn where
  "ap_wdn_ex = \<lparr>ai_cap_info = 0, ai_listen_interval = 0, ai_ssid = replicate 32 0, ai_ssid_len = 0, ai_datarate = replicate 8 0, ai_datarate_len = 0,
     ai_ext_datarate = replicate 4 0, ai_ext_datarate_len = 0, ai_network_type = 0, ai_ht_enable = False, ai_ht_cap = replicate 26 0, ai_ht_info = replicate 8 0,
     ai_bw_mode = 0, ai_wmm_enable = False, ai_wmm_info = replicate 24 0, ai_wpa_enable = False, ai_rsn_enable = False, ai_unicast = 0, ai_pairwise = 0,
     ai_wpa_ie = replicate 32 0, ai_wpa_ie_len = 0, ai_raid = 0, ai_tx_rate = 0\<rparr>"

definition ap_assoc_mem_ex :: ap_mem where
  "ap_assoc_mem_ex = \<lparr>pnext = (\<lambda>q. q)(4 := 20, 20 := 4), prev = (\<lambda>q. q)(4 := 20, 20 := 4), cnt = (\<lambda>_. 0)(4 := 1),
     am_tag = (\<lambda>_. WF_AP_MSG_TAG_ASSOC_REQ_FRAME), am_len = (\<lambda>_. 0), am_mgmt = (\<lambda>_. replicate 796 0)\<rparr>"

definition ap_sta_ex :: ap_sta where
  "ap_sta_ex = \<lparr>ps_auth = (ap_ex wep_sample_sec)\<lparr>aa_mem := ap_assoc_mem_ex, aa_aid := 1, aa_peer := (aa_peer (ap_ex wep_sample_sec))\<lparr>aw_mac := [2, 0, 0, 0, 0, 2]\<rparr>\<rparr>,
     ps_assoc = ap_wdn_ex\<rparr>"

lemma pool_ex:
  assumes "\<forall>q\<in>{1, 2, 3, 4, 5, 6, 7}. wf_que_rep m q (Q q)"
    "\<forall>q\<in>{1, 2, 3, 4, 5, 6, 7}. \<forall>q'\<in>{1, 2, 3, 4, 5, 6, 7}. q \<noteq> q' \<longrightarrow> insert q (set (Q q)) \<inter> insert q' (set (Q q')) = {}"
  shows "pool_ok wf_que_rep m (insert 1 (range ap_free_ex)) Q"
proof -
  have "insert 1 (range ap_free_ex) \<subseteq> {1, 2, 3, 4, 5, 6, 7}" by (auto simp: ap_free_ex_def split: wf_ap_msg_tag.splits)
  then show ?thesis unfolding pool_ok_def using assms by blast
qed

lemma ap_sta_ex_known: "ap_known ap_sta_ex [2, 0, 0, 0, 0, 2]"
proof -
  let ?Q = "(\<lambda>_. [])(4 := [20]) :: ptr \<Rightarrow> ptr list"
  have "pool_ok wf_que_rep ap_assoc_mem_ex (insert 1 (range ap_free_ex)) ?Q"
    by (rule pool_ex) (simp_all add: wf_que_rep_def dll_def ap_assoc_mem_ex_def)
  moreover have "1 \<notin> range ap_free_ex" by (auto simp: ap_free_ex_def split: wf_ap_msg_tag.splits)
  ultimately have "ap_listens ap_sta_ex"
    unfolding ap_listens_def Let_def by (intro conjI exI [of _ ?Q]) (simp_all add: ap_sta_ex_def ap_ex_def ap_heads_def ap_free_ex_def ap_assoc_mem_ex_def)
  then show ?thesis by (simp add: ap_known_def ap_sta_ex_def ap_wdn_ex_def ap_wdn_wf_def ap_ex_def auth_dev_ex_def)
qed

lemma net_ex_wf: "ap_net_wf net_ex"
  by (simp add: ap_net_wf_def net_ex_def)

lemma assoc_ex_begins: "asc_begins assoc_env_ex assoc_ex assoc_peer_ex {}"
  unfolding asc_begins_def using assoc_ex_box assoc_ex_ok
  by (intro conjI exI [of _ 10] exI [of _ "[11]"]) (simp_all add: assoc_ex_def assoc_peer_ex_def assoc_env_ex_def assoc_mem_ex_def)

lemma assoc_ex_elems: "assoc_elems assoc_peer_ex (sc_sec assoc_ex) (sc_hw_n assoc_ex) = [(0, [104, 105]), (1, [0x82, 0x84, 0x8B, 0x96, 12, 24, 48, 108])]"
  by (simp add: assoc_elems_def assoc_peer_ex_def assoc_ex_def wdn_zero_def Let_def)

lemma assoc_ex_good: "\<forall>e\<in>set (assoc_elems assoc_peer_ex (sc_sec assoc_ex) (sc_hw_n assoc_ex)). elem_good net_ex e"
  unfolding assoc_ex_elems by (simp add: elem_good_def net_ssid_def net_rates_def net_has_rate_def net_ex_def)

lemma assoc_handshake_witness:
  "\<exists>s' x'. assoc_round assoc_env_ex auth_env_ex net_ex (nt_sec net_ex) 0 7 assoc_ex ap_sta_ex = Some (s', x', PT_ENDED, Some (uint WF_ASSOC_TAG_DONE)) \<and>
    an_aid (sc_net s') = 0xC001"
proof -
  have b: "\<forall>es. au_extbuf auth_env_ex es" by (simp add: auth_env_ex_def)
  have k: "ap_known ap_sta_ex (sc_mac assoc_ex)" using ap_sta_ex_known by (simp add: assoc_ex_def)
  have "uint (ucast (aa_aid (ps_auth ap_sta_ex) OR 0xC000) :: u16) = 0xC001" by (simp add: ap_sta_ex_def)
  then show ?thesis using assoc_handshake [OF assoc_ex_begins b net_ex_wf k assoc_ex_good refl, of "nt_sec net_ex" 0 7] by auto
qed

end
