(* ===== verification/Assoc_Fail.thy ===== *)
theory Assoc_Fail
  imports Assoc_Air
begin

text \<open>
  What an association request that is not made for the network can do: the peer stays within the rates and ciphers of the
  network, but elements that are missing are not noticed, and an HT element that is too long overruns the peer.
\<close>

section \<open>A peer that holds a request\<close>

definition req_mem_ex :: "bytes \<Rightarrow> ap_mem" where
  "req_mem_ex f = \<lparr>pnext = (\<lambda>q. q)(1 := 20, 20 := 1), prev = (\<lambda>q. q)(1 := 20, 20 := 1), cnt = (\<lambda>_. 0)(1 := 1),
     am_tag = (\<lambda>_. WF_AP_MSG_TAG_ASSOC_REQ_FRAME), am_len = (\<lambda>_. of_nat (length f)), am_mgmt = (\<lambda>_. f @ replicate (796 - length f) 0)\<rparr>"

definition req_ex :: "bytes \<Rightarrow> ap_sta" where
  "req_ex f = ap_sta_ex\<lparr>ps_auth := (ps_auth ap_sta_ex)\<lparr>aa_mem := req_mem_ex f\<rparr>\<rparr>"

lemma req_ex_holds:
  assumes "length f \<le> 796"
  shows "ap_holds (req_ex f) 20 f"
proof -
  let ?Q = "(\<lambda>_. [])(1 := [20]) :: ptr \<Rightarrow> ptr list"
  have "pool_ok wf_que_rep (req_mem_ex f) (insert 1 (range ap_free_ex)) ?Q" by (rule pool_ex) (simp_all add: wf_que_rep_def dll_def req_mem_ex_def)
  moreover have "1 \<notin> range ap_free_ex" by (auto simp: ap_free_ex_def split: wf_ap_msg_tag.splits)
  ultimately show ?thesis
    unfolding ap_holds_def Let_def using assms by (intro conjI exI [of _ ?Q]) (simp_all add: req_ex_def ap_sta_ex_def ap_ex_def ap_heads_def req_mem_ex_def)
qed

lemma req_ex_wf: "ap_wdn_wf (ps_assoc (req_ex f))" "0 < aa_aid (ps_auth (req_ex f))" "aa_aid (ps_auth (req_ex f)) < 32"
  by (simp_all add: req_ex_def ap_sta_ex_def ap_wdn_ex_def ap_wdn_wf_def)

definition rates_req_ex :: "elem list" where
  "rates_req_ex = [(0, [104, 105]), (1, [0x82, 0x84, 99]), (50, [12])]"

lemma rates_req_ex_good: "\<forall>e\<in>set rates_req_ex. elem_good net_ex e" "rates_once rates_req_ex"
  by (simp_all add: rates_req_ex_def elem_good_def net_ssid_def net_rates_def net_has_rate_def net_ex_def rates_once_def)

section \<open>The peer stays within the network\<close>

lemma reset_within: "peer_within net (ap_wdn_reset cap li w)"
  by (simp add: peer_within_def ap_wdn_reset_def rates_within_def)

lemma ap_ending_within:
  "peer_within net (ps_assoc (wf_assoc_ap_event_up (wf_ap_add_sta_ratid s))) = peer_within net (ps_assoc s)"
  by (simp add: wf_assoc_ap_event_up_def wf_ap_add_sta_ratid_def peer_within_def Let_def case_prod_beta)

lemma xmit_keeps: "assoc_ap_xmit_frame env net t st s = Some s' \<Longrightarrow> ps_assoc s' = ps_assoc s"
  by (auto simp: assoc_ap_xmit_frame_def bind_eq_Some_conv Let_def split: if_splits)

text \<open>(C8) Whatever bytes a request consists of: if the access point handles it without leaving its buffers and accepts it, then the
  recorded SSID, if there is one, is that of the network, every recorded rate is one of the network or 0, the counts fit the arrays, and a peer that is
  recorded with RSN or WPA has at least one pairwise cipher and only ciphers that the network allows. Nothing is required to be there: a request without
  SSID, rates or security element is accepted too.\<close>

theorem assoc_peer_within:
  assumes "wf_assoc_ap_thrd env net loc x = Some (x', PT_ENDED)"
  shows "peer_within net (ps_assoc x')"
  using assms [unfolded wf_assoc_ap_thrd_def Let_def]
  by (auto simp: bind_eq_Some_conv ap_ending_within split: option.splits if_splits dest!: xmit_keeps ap_loop_within [OF _ reset_within])

lemma assoc_peer_within_witness:
  "\<exists>x'. wf_assoc_ap_thrd auth_env_ex net_ex (nt_sec net_ex) (req_ex (assoc_req (replicate 22 0) 0x21 3 rates_req_ex)) = Some (x', PT_ENDED) \<and>
    peer_within net_ex (ps_assoc x')"
proof -
  let ?f = "assoc_req (replicate 22 0) 0x21 3 rates_req_ex"
  have h: "ap_holds (req_ex ?f) 20 ?f" by (rule req_ex_holds) (simp add: assoc_req_def rates_req_ex_def)
  have b: "\<forall>es. au_extbuf auth_env_ex es" by (simp add: auth_env_ex_def)
  obtain x' where "wf_assoc_ap_thrd auth_env_ex net_ex (nt_sec net_ex) (req_ex ?f) = Some (x', PT_ENDED)"
    by (rule ap_assoc_accepts [OF b h _ rates_req_ex_good req_ex_wf(1) net_ex_wf req_ex_wf(2,3)]) simp_all
  then show ?thesis using assoc_peer_within by blast
qed

section \<open>What is not checked\<close>

text \<open>A request without any element is accepted, whatever the network requires: without SSID, without a common rate and,
  in a network with RSN, without ciphers. The response says success and the peer is recorded as one without
  encryption.\<close>

theorem assoc_without_elements:
  assumes "\<forall>es. au_extbuf env es" "ap_holds x p (assoc_req hdr cap li [])" "length hdr = 22" "ap_wdn_wf (ps_assoc x)" "ap_net_wf net"
    "0 < aa_aid (ps_auth x)" "aa_aid (ps_auth x) < 32"
  shows "\<exists>x' var. wf_assoc_ap_thrd env net loc x = Some (x', PT_ENDED) \<and> Frame_xmit (assoc_rsp net (ps_auth x) 0 var) \<in> set (ad_out (aa_dev (ps_auth x'))) \<and>
    ai_ssid_len (ps_assoc x') = 0 \<and> ai_datarate_len (ps_assoc x') = 0 \<and> \<not> ai_rsn_enable (ps_assoc x') \<and> \<not> ai_wpa_enable (ps_assoc x')"
proof -
  let ?w = "ap_peer_of net cap li [] (ps_assoc x)"
  obtain x' where x': "wf_assoc_ap_thrd env net loc x = Some (x', PT_ENDED)" "ap_empty (ps_auth x')" "aa_state (ps_auth x') = E_WDN_AP_STATE_ASSOC"
    "ps_assoc x' = ?w\<lparr>ai_raid := snd (rate_table ?w), ai_tx_rate := tx_rate (fst (rate_table ?w))\<rparr>"
    "ad_out (aa_dev (ps_auth x')) = ad_out (aa_dev (ps_auth x)) @ [Frame_xmit (assoc_rsp net (ps_auth x) 0 (rsp_var net ?w)),
       Ap_odm_connect, Mcu_rate_table_update (snd (rate_table ?w)), Ap_ind_assoc]"
    by (rule ap_assoc_accepts [OF assms(1-3) _ _ assms(4-7)]) (simp_all add: rates_once_def)
  then show ?thesis by (intro exI [of _ x'] exI [of _ "rsp_var net ?w"]) (simp add: ap_peer_of_def ap_wdn_reset_def)
qed

lemma assoc_without_elements_witness:
  "\<exists>x'. wf_assoc_ap_thrd auth_env_ex net_ex (nt_sec net_ex) (req_ex (assoc_req (replicate 22 0) 0x21 3 [])) = Some (x', PT_ENDED) \<and>
    \<not> ai_rsn_enable (ps_assoc x')"
proof -
  let ?f = "assoc_req (replicate 22 0) 0x21 3 []"
  have h: "ap_holds (req_ex ?f) 20 ?f" by (rule req_ex_holds) (simp add: assoc_req_def)
  have b: "\<forall>es. au_extbuf auth_env_ex es" by (simp add: auth_env_ex_def)
  show ?thesis using assoc_without_elements [OF b h _ req_ex_wf(1) net_ex_wf req_ex_wf(2,3), of "nt_sec net_ex"] by auto
qed

text \<open>An HT capability element of more than 26 bytes overruns the peer: it is copied with the length that the station has
  put into the element.\<close>

theorem assoc_ht_overrun:
  assumes "ap_holds x p (assoc_req hdr cap li ((45, d) # es))" "length hdr = 22" "26 < length d" "length d \<le> 253" "nt_ht_enable net" "ap_wdn_wf (ps_assoc x)"
  shows "wf_assoc_ap_thrd env net loc x = None"
proof -
  let ?a = "ps_auth x" and ?f = "assoc_req hdr cap li ((45, d) # es)" and ?w = "ap_wdn_reset cap li (ps_assoc x)"
  obtain rest where h: "am_tag (aa_mem ?a) p = WF_AP_MSG_TAG_ASSOC_REQ_FRAME" "am_len (aa_mem ?a) p = of_nat (length ?f)" "length ?f \<le> 796"
    "am_mgmt (aa_mem ?a) p = ?f @ rest"
    using assms(1) by (auto simp: ap_holds_def Let_def)
  let ?b = "am_mgmt (aa_mem ?a) p" and ?pre = "le16_bytes 0 @ hdr @ le16_bytes cap @ le16_bytes li"
  have m: "?b = ?pre @ ie_enc (45, d) @ ies_enc es @ rest" using h(4) by (simp add: assoc_req_def)
  have m': "?b = le16_bytes 0 @ hdr @ le16_bytes cap @ le16_bytes li @ ie_enc (45, d) @ ies_enc es @ rest" using m by simp
  have r: "rd_le16 ?b 0 = Some 0" "rd_le16 ?b 24 = Some cap" "rd_le16 ?b 26 = Some li"
    unfolding m' using rd_le16_put [of 0 "[]" 0] rd_le16_put [of 24 "le16_bytes 0 @ hdr" cap] rd_le16_put [of 26 "le16_bytes 0 @ hdr @ le16_bytes cap" li] assms(2) by simp_all
  have len: "length (snd (45 :: u8, d)) \<le> 253" using assms(4) by simp
  have pl: "28 = length ?pre" using assms(2) by simp
  note e = elem_at [OF len m pl]
  have "wrn (ai_ht_cap ?w) 0 d = None" using assms(3,6) by (simp add: wrn_def ap_wdn_wf_def ap_wdn_reset_def)
  then have "ie_ht_cap net ?b 28 ?w = None" using e(2-4,6) assms(5) by (simp add: ie_ht_cap_def)
  then have ie: "ap_ie net ?b 28 (?w, loc) = None" using e(1) by (simp add: ap_ie_def on_peer_def)
  have fl: "length ?f = 28 + (2 + length d + length (ies_enc es))" using assms(2) by (simp add: assoc_req_def)
  have "unat (of_nat (2 + length d + length (ies_enc es)) :: u16) = 2 + length d + length (ies_enc es)" using h(3) fl by (intro unat_of_nat_u16) simp
  then have "0 < (of_nat (length ?f) - 28 :: u16)" unfolding fl by (simp add: word_less_nat_alt del: of_nat_add) simp
  then have "ap_ies_loop net ?b 28 (of_nat (length ?f) - 28) 0 ?w loc = None" using ie by (subst ap_ies_loop.simps) simp
  then show ?thesis unfolding wf_assoc_ap_thrd_def Let_def ap_holds_del(1) [OF assms(1)] using h(1,2) r by simp
qed

lemma assoc_ht_overrun_witness:
  "wf_assoc_ap_thrd auth_env_ex (net_ex\<lparr>nt_ht_enable := True\<rparr>) (nt_sec net_ex) (req_ex (assoc_req (replicate 22 0) 0x21 3 [(45, replicate 27 0)])) = None"
proof -
  let ?f = "assoc_req (replicate 22 0) 0x21 3 [(45, replicate 27 0)]"
  have h: "ap_holds (req_ex ?f) 20 ?f" by (rule req_ex_holds) (simp add: assoc_req_def)
  show ?thesis by (rule assoc_ht_overrun [OF h]) (simp_all add: req_ex_wf)
qed

end
