(* ===== verification/Ap_Thrd.thy ===== *)
theory Ap_Thrd
  imports Assoc_Fail
begin

text \<open>
  The thread of a peer of the access point, \<open>src/trunk_driver/nic/ap.c\<close> lines 310 to 490: \<open>ap_thrd\<close> runs
  authentication, association and \<open>maintain_thrd\<close> one after the other and cleans up at the end. \<open>maintain_thrd\<close>
  serves a peer that is associated: it counts seconds without received packets and handles the frames of the peer.

  \<open>ap_conn\<close> adds to the peer the labels of the two threads, the members that count packets, the status of the access
  point and the number of entries in its table of peers (\<open>pwdn->cnt\<close>). When \<open>ap_thrd\<close> has ended the peer is removed from the table (\<open>Wdn\<close>).
\<close>

section \<open>State\<close>

datatype wf_ap_status = WF_AP_STATUS_UNINITILIZED | WF_AP_STATUS_STANBY | WF_AP_STATUS_ESTABLISHED

datatype mt_pc = Mt_begin | Mt_wait | Mt_disassoc

datatype ap_thrd_pc = At_auth | At_assoc | At_maintain | At_clear

record ap_conn =
  cn_sta :: ap_sta
  cn_pt :: ap_thrd_pc
  cn_mt :: mt_pc
  cn_rx_last :: u32
  cn_idle :: u32
  cn_status :: wf_ap_status
  cn_wdn_cnt :: u8

abbreviation (input) RX_IDLE_TIMEOUT_SECONDS :: u32 where "RX_IDLE_TIMEOUT_SECONDS \<equiv> 1200"
abbreviation (input) WF_80211_REASON_DEAUTH_LEAVING :: u16 where "WF_80211_REASON_DEAUTH_LEAVING \<equiv> 3"
abbreviation (input) WF_80211_REASON_QSTA_TIMEOUT :: u16 where "WF_80211_REASON_QSTA_TIMEOUT \<equiv> 39"
abbreviation (input) WF_WLAN_ACTION_ADDBA_RESP :: u8 where "WF_WLAN_ACTION_ADDBA_RESP \<equiv> 1"

abbreviation cn_auth :: "ap_conn \<Rightarrow> ap_auth" where
  "cn_auth s \<equiv> ps_auth (cn_sta s)"

definition on_auth :: "(ap_auth \<Rightarrow> ap_auth) \<Rightarrow> ap_conn \<Rightarrow> ap_conn" where
  "on_auth f s = s\<lparr>cn_sta := (cn_sta s)\<lparr>ps_auth := f (cn_auth s)\<rparr>\<rparr>"

section \<open>Serving a peer\<close>

definition mt_emit :: "auth_event \<Rightarrow> ap_conn \<Rightarrow> ap_conn" where
  "mt_emit e = on_auth (\<lambda>a. a\<lparr>aa_dev := auth_emit e (aa_dev a)\<rparr>)"

definition mt_deauth :: "auth_env \<Rightarrow> u16 \<Rightarrow> ap_conn \<Rightarrow> ap_conn" where
  "mt_deauth env reason = on_auth (\<lambda>a. a\<lparr>aa_dev := fst (wf_deauth_xmit_frame env (Some (aa_peer a)) reason (aa_dev a))\<rparr>)"

definition mt_begin :: "auth_env \<Rightarrow> u32 \<Rightarrow> ap_conn \<Rightarrow> ap_conn" where
  "mt_begin env now s =
     (let st = (if dot11AuthAlgrthm (ad_sec (aa_dev (cn_auth s))) = dot11AuthAlgrthm_8021X then E_WDN_AP_STATE_8021X_BLOCK else E_WDN_AP_STATE_8021X_UNBLOCK)
      in (on_auth (\<lambda>a. a\<lparr>aa_state := st, aa_timer := wf_timer_set (au_msecs env) now 1000\<rparr>) s)
           \<lparr>cn_status := WF_AP_STATUS_ESTABLISHED, cn_rx_last := aa_rx_pkt_stat (cn_auth s), cn_idle := 0\<rparr>)"

text \<open>One second is over.\<close>

definition mt_second :: "auth_env \<Rightarrow> ap_conn \<Rightarrow> ap_conn \<times> mt_pc pt_next" where
  "mt_second env s =
     (let s1 = on_auth (\<lambda>a. a\<lparr>aa_timer := wf_timer_reset (aa_timer a)\<rparr>) s in
      if aa_rx_pkt_stat (cn_auth s1) \<noteq> cn_rx_last s1 then (s1\<lparr>cn_rx_last := aa_rx_pkt_stat (cn_auth s1)\<rparr>, Goto Mt_wait)
      else (let s2 = s1\<lparr>cn_idle := cn_idle s1 + 1\<rparr> in
            if RX_IDLE_TIMEOUT_SECONDS \<le> cn_idle s1 then (mt_deauth env WF_80211_REASON_QSTA_TIMEOUT s2, Fin PT_ENDED 0)
            else (s2, Goto Mt_wait)))"

definition mt_message :: "auth_env \<Rightarrow> u32 \<Rightarrow> ptr \<Rightarrow> ap_conn \<Rightarrow> ap_conn \<times> mt_pc pt_next" where
  "mt_message env now pmsg s =
     (case am_tag (aa_mem (cn_auth s)) pmsg of
        WF_AP_MSG_TAG_AUTH_FRAME \<Rightarrow> (s, Fin PT_ENDED 0)
      | WF_AP_MSG_TAG_DEAUTH_FRAME \<Rightarrow>
          (mt_deauth env WF_80211_REASON_DEAUTH_LEAVING (on_auth (\<lambda>a. a\<lparr>aa_state := E_WDN_AP_STATE_DAUTH\<rparr>) s), Fin PT_ENDED 0)
      | WF_AP_MSG_TAG_DISASSOC_FRAME \<Rightarrow>
          (on_auth (\<lambda>a. (ap_del pmsg a)\<lparr>aa_timer := wf_timer_set (au_msecs env) now 5000\<rparr>) s, Back Mt_disassoc PT_YIELDED)
      | WF_AP_MSG_TAG_BA_REQ_FRAME \<Rightarrow> (mt_emit (Ba_to_issue WF_WLAN_ACTION_ADDBA_RESP) (on_auth (ap_del pmsg) s), Goto Mt_wait)
      | _ \<Rightarrow> (on_auth (ap_del pmsg) s, Goto Mt_wait))"

definition mt_step :: "auth_env \<Rightarrow> u32 \<Rightarrow> mt_pc \<Rightarrow> ap_conn \<Rightarrow> ap_conn \<times> mt_pc pt_next" where
  "mt_step env now pc s =
     (let a = cn_auth s; pmsg = wf_ap_msg_get (aa_que a) (aa_mem a) in
      case pc of
        Mt_begin \<Rightarrow> (mt_begin env now s, Goto Mt_wait)
      | Mt_wait \<Rightarrow>
          (case pmsg of
             None \<Rightarrow> if wf_timer_expired now (aa_timer a) then mt_second env s else (s, Back Mt_wait PT_WAITING)
           | Some p \<Rightarrow> mt_message env now p s)
      | Mt_disassoc \<Rightarrow>
          (case pmsg of
             None \<Rightarrow> if wf_timer_expired now (aa_timer a) then (s, Fin PT_ENDED 0) else (s, Back Mt_disassoc PT_YIELDED)
           | Some p \<Rightarrow>
               if am_tag (aa_mem a) p = WF_AP_MSG_TAG_ASSOC_REQ_FRAME
               then (mt_emit Ap_odm_disconnect (mt_emit Ap_ind_disassoc (on_auth (\<lambda>a. a\<lparr>aa_state := E_WDN_AP_STATE_ASSOC\<rparr>) s)), Fin PT_ENDED 0)
               else (s, Fin PT_ENDED 0)))"

definition mt_return :: "ap_conn \<times> mt_pc pt_next \<Rightarrow> ap_conn \<times> pt_ret" where
  "mt_return r =
     (case r of
        (s, Goto pc) \<Rightarrow> (s\<lparr>cn_mt := pc\<rparr>, PT_WAITING)
      | (s, Back pc r) \<Rightarrow> (s\<lparr>cn_mt := pc\<rparr>, r)
      | (s, Fin r _) \<Rightarrow> (s\<lparr>cn_mt := Mt_begin\<rparr>, r))"

definition maintain_thrd :: "auth_env \<Rightarrow> u32 \<Rightarrow> ap_conn \<Rightarrow> (ap_conn \<times> pt_ret) option" where
  "maintain_thrd env now s = map_option mt_return (pt_run (\<lambda>pc s. Some (mt_step env now pc s)) (cn_mt s) s)"

section \<open>The thread of the peer\<close>

text \<open>\<open>clearup\<close> ends with the removal of the peer from the table and, when the table is empty then, with the status \<open>WF_AP_STATUS_STANBY\<close>.\<close>

definition ap_thrd_step :: "auth_env \<Rightarrow> ap_net \<Rightarrow> ciphers \<Rightarrow> u32 \<Rightarrow> ap_thrd_pc \<Rightarrow> ap_conn \<Rightarrow> (ap_conn \<times> ap_thrd_pc pt_next) option" where
  "ap_thrd_step env net loc now pc s =
     (case pc of
        At_auth \<Rightarrow> do {
          (a, thrd_ret) \<leftarrow> wf_auth_ap_thrd env now (cn_auth s);
          let s1 = on_auth (\<lambda>_. a) s;
          Some (s1, if PT_SCHEDULE thrd_ret then Back At_auth PT_WAITING else if thrd_ret = PT_EXITED then Goto At_clear else Goto At_assoc)
        }
      | At_assoc \<Rightarrow> do {
          (x, thrd_ret) \<leftarrow> wf_assoc_ap_thrd env net loc (cn_sta s);
          let s1 = s\<lparr>cn_sta := x\<rparr>;
          Some (if thrd_ret = PT_EXITED then (s1, Goto At_clear) else (s1\<lparr>cn_mt := Mt_begin\<rparr>, Goto At_maintain))
        }
      | At_maintain \<Rightarrow> do {
          (s1, thrd_ret) \<leftarrow> maintain_thrd env now s;
          Some (s1, if PT_SCHEDULE thrd_ret then Back At_maintain PT_WAITING
                    else if aa_state (cn_auth s1) = E_WDN_AP_STATE_ASSOC then Goto At_assoc else Goto At_clear)
        }
      | At_clear \<Rightarrow> do {
          a \<leftarrow> clearup (cn_auth s);
          let cnt = cn_wdn_cnt s - 1;
          Some ((on_auth (\<lambda>_. a) s)\<lparr>cn_wdn_cnt := cnt, cn_status := if cnt = 0 then WF_AP_STATUS_STANBY else cn_status s\<rparr>, Fin PT_ENDED 0)
        })"

definition ap_thrd :: "auth_env \<Rightarrow> ap_net \<Rightarrow> ciphers \<Rightarrow> u32 \<Rightarrow> ap_conn \<Rightarrow> (ap_conn \<times> pt_ret) option" where
  "ap_thrd env net loc now s =
     map_option (\<lambda>r. case r of (s, Goto pc) \<Rightarrow> (s\<lparr>cn_pt := pc\<rparr>, PT_WAITING) | (s, Back pc r) \<Rightarrow> (s\<lparr>cn_pt := pc\<rparr>, r) | (s, Fin r _) \<Rightarrow> (s\<lparr>cn_pt := At_auth\<rparr>, r))
       (pt_run (ap_thrd_step env net loc now) (cn_pt s) s)"

section \<open>Every call of \<open>maintain_thrd\<close> returns\<close>

text \<open>The queues of the peer: pending frames \<open>ps\<close>, and no more than 1200 idle seconds.\<close>

definition mt_inv :: "mt_pc \<Rightarrow> ap_conn \<Rightarrow> ptr list \<Rightarrow> bool" where
  "mt_inv pc s ps \<longleftrightarrow> (let a = cn_auth s in aa_que a \<notin> range (aa_free a) \<and>
     (\<exists>Q. pool_ok wf_que_rep (aa_mem a) (ap_heads a) Q \<and> Q (aa_que a) = ps)) \<and> (pc \<noteq> Mt_begin \<longrightarrow> cn_idle s \<le> 1200)"

definition mt_rank :: "mt_pc \<Rightarrow> ap_conn \<Rightarrow> ptr list \<Rightarrow> nat" where
  "mt_rank pc s ps = length ps +
     (if pc = Mt_begin then 2404 else 2 * (1201 - unat (cn_idle s)) + (if aa_rx_pkt_stat (cn_auth s) = cn_rx_last s then 0 else 1))"

definition mt_post :: "ap_conn \<Rightarrow> mt_pc pt_next \<Rightarrow> bool" where
  "mt_post s n \<longleftrightarrow>
     (case n of
        Goto pc \<Rightarrow> False
      | Back pc r \<Rightarrow> PT_SCHEDULE r \<and> (\<exists>ps. mt_inv pc s ps)
      | Fin r rsn \<Rightarrow> r = PT_ENDED \<and> (\<exists>ps. mt_inv Mt_begin s ps))"

lemma on_auth_sel [simp]:
  "cn_auth (on_auth f s) = f (cn_auth s)" "cn_idle (on_auth f s) = cn_idle s" "cn_rx_last (on_auth f s) = cn_rx_last s" "cn_pt (on_auth f s) = cn_pt s"
  "cn_mt (on_auth f s) = cn_mt s" "ps_assoc (cn_sta (on_auth f s)) = ps_assoc (cn_sta s)" "cn_status (on_auth f s) = cn_status s"
  by (simp_all add: on_auth_def)

lemma mt_events_sel [simp]:
  "cn_idle (mt_emit e s) = cn_idle s" "cn_rx_last (mt_emit e s) = cn_rx_last s" "cn_idle (mt_deauth env r s) = cn_idle s"
  "aa_rx_pkt_stat (cn_auth (mt_emit e s)) = aa_rx_pkt_stat (cn_auth s)" "aa_rx_pkt_stat (ap_del p a) = aa_rx_pkt_stat a"
  by (simp_all add: mt_emit_def mt_deauth_def ap_del_def)

lemma mt_inv_auth:
  assumes "aa_que (cn_auth s') = aa_que (cn_auth s)" "aa_free (cn_auth s') = aa_free (cn_auth s)" "aa_mem (cn_auth s') = aa_mem (cn_auth s)"
    "pc' \<noteq> Mt_begin \<longrightarrow> cn_idle s' \<le> 1200" "mt_inv pc s ps"
  shows "mt_inv pc' s' ps"
  using assms by (simp add: mt_inv_def Let_def ap_heads_def)

text \<open>A message that is given back, with other changes that leave the queues alone.\<close>

lemma mt_inv_del:
  assumes "mt_inv pc s (p # ps)" "aa_que (cn_auth s') = aa_que (cn_auth s)" "aa_free (cn_auth s') = aa_free (cn_auth s)"
    "aa_mem (cn_auth s') = aa_mem (ap_del p (cn_auth s))" "pc' \<noteq> Mt_begin \<longrightarrow> cn_idle s' \<le> 1200"
  shows "mt_inv pc' s' ps"
proof -
  let ?a = "cn_auth s"
  obtain Q where Q: "pool_ok wf_que_rep (aa_mem ?a) (ap_heads ?a) Q" "Q (aa_que ?a) = p # ps" "aa_que ?a \<notin> range (aa_free ?a)"
    using assms(1) by (auto simp: mt_inv_def Let_def)
  let ?Q = "Q(aa_que ?a := ps, aa_free ?a (am_tag (aa_mem ?a) p) := p # Q (aa_free ?a (am_tag (aa_mem ?a) p)))"
  obtain m' where m': "wf_ap_msg_free (aa_free ?a) (aa_que ?a) p (aa_mem ?a) = (m', 0)" "pool_ok wf_que_rep m' (ap_heads ?a) ?Q"
    by (rule ap_msg_free_result [of "aa_mem ?a" "ap_heads ?a" Q "aa_free ?a" p "aa_que ?a" ps]) (use Q in \<open>auto simp: ap_heads_def\<close>)
  have "?Q (aa_que ?a) = ps" using Q(3) by (metis fun_upd_apply rangeI)
  then show ?thesis unfolding mt_inv_def Let_def using Q(3) m' assms(2-5) by (auto simp: ap_del_def ap_heads_def intro!: exI [of _ ?Q])
qed

lemma mt_get: "mt_inv pc s ps \<Longrightarrow> wf_ap_msg_get (aa_que (cn_auth s)) (aa_mem (cn_auth s)) = (case ps of [] \<Rightarrow> None | p # _ \<Rightarrow> Some p)"
  by (auto simp: mt_inv_def Let_def ap_heads_def dest!: ap_msg_get_result [where q = "aa_que (cn_auth s)"])

definition mt_lawful :: "nat \<Rightarrow> ap_conn \<times> mt_pc pt_next \<Rightarrow> bool" where
  "mt_lawful k r \<longleftrightarrow> (case snd r of Goto pc \<Rightarrow> \<exists>ps. mt_inv pc (fst r) ps \<and> mt_rank pc (fst r) ps < k | n \<Rightarrow> mt_post (fst r) n)"

lemma mt_second_lawful:
  assumes "mt_inv Mt_wait s ps"
  shows "mt_lawful (mt_rank Mt_wait s ps) (mt_second env s)"
proof -
  let ?s = "on_auth (\<lambda>a. a\<lparr>aa_timer := wf_timer_reset (aa_timer a)\<rparr>) s"
  have idle: "cn_idle s \<le> 1200" using assms by (simp add: mt_inv_def)
  consider "aa_rx_pkt_stat (cn_auth s) \<noteq> cn_rx_last s" | "aa_rx_pkt_stat (cn_auth s) = cn_rx_last s" "1200 \<le> cn_idle s" |
    "aa_rx_pkt_stat (cn_auth s) = cn_rx_last s" "cn_idle s < 1200" by fastforce
  then show ?thesis
  proof cases
    case 1
    have "mt_inv Mt_wait (?s\<lparr>cn_rx_last := aa_rx_pkt_stat (cn_auth s)\<rparr>) ps" by (rule mt_inv_auth [OF _ _ _ _ assms]) (use idle in simp_all)
    then show ?thesis using 1 by (auto simp: mt_second_def mt_lawful_def mt_rank_def Let_def)
  next
    case 2
    have "mt_inv Mt_begin (mt_deauth env 39 (?s\<lparr>cn_idle := cn_idle s + 1\<rparr>)) ps" by (rule mt_inv_auth [OF _ _ _ _ assms]) (simp_all add: mt_deauth_def)
    then show ?thesis using 2 by (auto simp: mt_second_def mt_lawful_def mt_post_def Let_def)
  next
    case 3
    have n: "cn_idle s + 1 \<le> 1200" "unat (cn_idle s + 1) = unat (cn_idle s) + 1" "unat (cn_idle s) < 1200"
      using 3(2) by (simp_all add: word_le_nat_alt word_less_nat_alt unat_word_ariths)
    have "mt_inv Mt_wait (?s\<lparr>cn_idle := cn_idle s + 1\<rparr>) ps" by (rule mt_inv_auth [OF _ _ _ _ assms]) (use n in simp_all)
    then show ?thesis using 3 n by (auto simp: mt_second_def mt_lawful_def mt_rank_def Let_def intro!: exI [of _ ps])
  qed
qed

lemma mt_message_lawful:
  assumes "mt_inv Mt_wait s (p # ps)"
  shows "mt_lawful (mt_rank Mt_wait s (p # ps)) (mt_message env now p s)"
proof -
  have idle: "cn_idle s \<le> 1200" using assms by (simp add: mt_inv_def)
  have del: "mt_inv pc (on_auth (ap_del p) s) ps" "mt_inv pc (mt_emit e (on_auth (ap_del p) s)) ps"
    "mt_inv pc (on_auth (\<lambda>a. (ap_del p a)\<lparr>aa_timer := t\<rparr>) s) ps" for pc e t
    by (rule mt_inv_del [OF assms], use idle in \<open>simp_all add: mt_emit_def\<close>)+
  have keep: "mt_inv Mt_begin s (p # ps)" "mt_inv Mt_begin (mt_deauth env 3 (on_auth (\<lambda>a. a\<lparr>aa_state := x\<rparr>) s)) (p # ps)" for x
    by (rule mt_inv_auth [OF _ _ _ _ assms], simp_all add: mt_deauth_def)+
  have bk: "\<exists>qs. mt_inv Mt_begin s qs" "\<exists>qs. mt_inv Mt_begin (mt_deauth env 3 (on_auth (\<lambda>a. a\<lparr>aa_state := x\<rparr>) s)) qs" for x using keep by blast+
  show ?thesis using del bk
    by (cases "am_tag (aa_mem (cn_auth s)) p") (auto simp: mt_message_def mt_lawful_def mt_post_def mt_rank_def PT_SCHEDULE_def intro: exI [of _ ps])
qed

interpretation mt: protothread "\<lambda>pc s. Some (mt_step env now pc s)" mt_inv mt_rank mt_post for env now
proof
  fix pc s ps
  assume i: "mt_inv pc s ps"
  have keep: "mt_inv pc s ps \<Longrightarrow> mt_inv Mt_begin s ps" for pc by (simp add: mt_inv_def)
  have dis: "mt_inv Mt_begin (mt_emit Ap_odm_disconnect (mt_emit Ap_ind_disassoc (on_auth (\<lambda>a. a\<lparr>aa_state := x\<rparr>) s))) ps" for x
    by (rule mt_inv_auth [OF _ _ _ _ i]) (simp_all add: mt_emit_def)
  have "mt_lawful (mt_rank pc s ps) (mt_step env now pc s)"
  proof (cases pc)
    case Mt_begin
    have "mt_inv Mt_wait (mt_begin env now s) ps" by (rule mt_inv_auth [OF _ _ _ _ i]) (simp_all add: mt_begin_def Let_def)
    then show ?thesis using Mt_begin by (auto simp: mt_step_def mt_lawful_def mt_rank_def mt_begin_def Let_def intro!: exI [of _ ps])
  next
    case Mt_wait
    then show ?thesis using i mt_get [OF i] mt_second_lawful [of s ps env] mt_message_lawful [of s _ _ env now]
      by (cases ps) (auto simp: mt_step_def mt_lawful_def mt_post_def PT_SCHEDULE_def Let_def)
  next
    case Mt_disassoc
    then show ?thesis using i keep dis mt_get [OF i]
      by (cases ps) (auto simp: mt_step_def mt_lawful_def mt_post_def PT_SCHEDULE_def Let_def)
  qed
  then show "\<exists>s' n. Some (mt_step env now pc s) = Some (s', n) \<and>
      (case n of Goto pc' \<Rightarrow> \<exists>x'. mt_inv pc' s' x' \<and> mt_rank pc' s' x' < mt_rank pc s ps | _ \<Rightarrow> mt_post s' n)"
    unfolding mt_lawful_def by (cases "mt_step env now pc s") (auto split: pt_next.splits)
qed

section \<open>Properties\<close>

definition mt_ready :: "ap_conn \<Rightarrow> bool" where
  "mt_ready s \<longleftrightarrow> (\<exists>ps. mt_inv (cn_mt s) s ps)"

lemma mt_inv_pt: "mt_inv pc (s\<lparr>cn_mt := pc'\<rparr>) ps = mt_inv pc s ps"
  by (simp add: mt_inv_def)

definition conn_ex :: "mt_pc \<Rightarrow> ap_conn" where
  "conn_ex pc = \<lparr>cn_sta = ap_sta_ex, cn_pt = At_maintain, cn_mt = pc, cn_rx_last = 0, cn_idle = 0, cn_status = WF_AP_STATUS_STANBY, cn_wdn_cnt = 2\<rparr>"

lemma conn_ex_inv: "mt_inv pc (conn_ex pc') []"
proof -
  obtain Q where "pool_ok wf_que_rep (aa_mem (ps_auth ap_sta_ex)) (ap_heads (ps_auth ap_sta_ex)) Q" "Q (aa_que (ps_auth ap_sta_ex)) = []"
    "aa_que (ps_auth ap_sta_ex) \<notin> range (aa_free (ps_auth ap_sta_ex))"
    using ap_sta_ex_known by (auto simp: ap_known_def ap_listens_def Let_def)
  then show ?thesis by (auto simp: mt_inv_def conn_ex_def Let_def)
qed

text \<open>(C30) Every call of the thread that serves an associated peer returns, whatever frames are pending and however late it is
  called: at most 1201 idle seconds are made up for. If it waits, it can be called again; when it ends its
  queues are well formed.\<close>

theorem maintain_returns:
  assumes "mt_ready s"
  shows "\<exists>s' r. maintain_thrd env now s = Some (s', r) \<and> mt_ready s' \<and> (PT_SCHEDULE r \<or> r = PT_ENDED \<and> cn_mt s' = Mt_begin)"
proof -
  obtain ps where "mt_inv (cn_mt s) s ps" using assms by (auto simp: mt_ready_def)
  from mt.call_returns [OF this] obtain s' n where r: "pt_run (\<lambda>pc s. Some (mt_step env now pc s)) (cn_mt s) s = Some (s', n)" "mt_post s' n" by blast
  then show ?thesis by (cases n) (auto simp: maintain_thrd_def mt_return_def mt_post_def mt_ready_def mt_inv_pt)
qed

lemma maintain_returns_witness:
  "\<exists>s' r. maintain_thrd auth_env_ex 5 (conn_ex Mt_begin) = Some (s', r) \<and> mt_ready s'"
  using maintain_returns [of "conn_ex Mt_begin" auth_env_ex 5] conn_ex_inv [of Mt_begin Mt_begin] by (auto simp: mt_ready_def conn_ex_def)

section \<open>Idle seconds\<close>

text \<open>One call every second: \<open>e\<close> is when the timer expires, \<open>i\<close> its interval, and the numbers are the packets that the peer
  sends in each second.\<close>

fun mt_seconds :: "auth_env \<Rightarrow> u32 \<Rightarrow> u32 \<Rightarrow> u32 list \<Rightarrow> ap_conn \<Rightarrow> (ap_conn \<times> pt_ret) option" where
  "mt_seconds env e i [] s = Some (s, PT_WAITING)"
| "mt_seconds env e i (n # ns) s = do {
     (s', r) \<leftarrow> maintain_thrd env (e + 1) (on_auth (\<lambda>a. a\<lparr>aa_rx_pkt_stat := aa_rx_pkt_stat a + n\<rparr>) s);
     if PT_SCHEDULE r then mt_seconds env (e + i) i ns s' else Some (s', r)
   }"

text \<open>A peer without pending frames between two seconds.\<close>

definition mt_quiet :: "u32 \<Rightarrow> u32 \<Rightarrow> ap_conn \<Rightarrow> bool" where
  "mt_quiet e i s \<longleftrightarrow> mt_inv Mt_wait s [] \<and> cn_mt s = Mt_wait \<and> cn_rx_last s = aa_rx_pkt_stat (cn_auth s) \<and>
     tm_expire (aa_timer (cn_auth s)) = e \<and> tm_interval (aa_timer (cn_auth s)) = i"

definition mt_same :: "ap_conn \<Rightarrow> ap_conn \<Rightarrow> bool" where
  "mt_same s s' \<longleftrightarrow> aa_dev (cn_auth s') = aa_dev (cn_auth s) \<and> aa_peer (cn_auth s') = aa_peer (cn_auth s)"

lemma timer_one_second:
  assumes "0 < unat i" "unat i < 2 ^ 31" "tm_expire t = e" "tm_interval t = i"
  shows "wf_timer_expired (e + 1) t" "\<not> wf_timer_expired (e + 1) (wf_timer_reset t)"
proof -
  have "sint (e - (e + 1)) = -1" by simp
  then show "wf_timer_expired (e + 1) t" using assms(3) by (simp add: wf_timer_expired_def wf_timer_remaining_def)
  have "sint (e + i - (e + 1)) = int (unat i) - 1" using sint_sub_ticks [of "unat i" 1] assms(2) by (simp add: algebra_simps)
  moreover have "1 \<le> uint i" unfolding uint_nat using assms(1) by linarith
  ultimately show "\<not> wf_timer_expired (e + 1) (wf_timer_reset t)" using assms by (simp add: wf_timer_expired_def wf_timer_remaining_def wf_timer_reset_def)
qed

lemma mt_one_second:
  assumes "mt_quiet e i s" "0 < unat i" "unat i < 2 ^ 31" "n = 0 \<longrightarrow> cn_idle s < 1200"
  obtains s' where "maintain_thrd env (e + 1) (on_auth (\<lambda>a. a\<lparr>aa_rx_pkt_stat := aa_rx_pkt_stat a + n\<rparr>) s) = Some (s', PT_WAITING)" "mt_quiet (e + i) i s'"
    "cn_idle s' = (if n = 0 then cn_idle s + 1 else cn_idle s)" "mt_same s s'"
proof -
  let ?s = "on_auth (\<lambda>a. a\<lparr>aa_rx_pkt_stat := aa_rx_pkt_stat a + n\<rparr>) s"
  note q = assms(1) [unfolded mt_quiet_def]
  have t: "wf_timer_expired (e + 1) (aa_timer (cn_auth s))" "\<not> wf_timer_expired (e + 1) (wf_timer_reset (aa_timer (cn_auth s)))"
    using timer_one_second [OF assms(2,3)] q by auto
  have i: "mt_inv Mt_wait ?s []" by (rule mt_inv_auth [of _ s]) (use q in \<open>auto simp: mt_inv_def\<close>)
  let ?s1 = "fst (mt_second env ?s)"
  have sec: "mt_second env ?s = (?s1, Goto Mt_wait)" "cn_idle ?s1 = (if n = 0 then cn_idle s + 1 else cn_idle s)" "aa_timer (cn_auth ?s1) = wf_timer_reset (aa_timer (cn_auth s))"
    "cn_rx_last ?s1 = aa_rx_pkt_stat (cn_auth ?s1)" "mt_same s ?s1"
    using q assms(4) by (auto simp: mt_second_def mt_same_def Let_def)
  have "cn_idle ?s1 \<le> 1200" using q assms(4) sec(2) by (auto simp: mt_inv_def inc_le)
  then have i1: "mt_inv Mt_wait ?s1 []" by (intro mt_inv_auth [OF _ _ _ _ i]) (auto simp: mt_second_def Let_def mt_deauth_def)
  have st1: "Some (mt_step env (e + 1) Mt_wait ?s) = Some (?s1, Goto Mt_wait)" using mt_get [OF i] t(1) sec(1) by (simp add: mt_step_def Let_def)
  have st2: "Some (mt_step env (e + 1) Mt_wait ?s1) = Some (?s1, Back Mt_wait PT_WAITING)" using mt_get [OF i1] t(2) sec(3) by (simp add: mt_step_def Let_def)
  have "pt_run (\<lambda>pc s. Some (mt_step env (e + 1) pc s)) Mt_wait ?s = Some (?s1, Back Mt_wait PT_WAITING)"
    by (simp only: pt_run_Goto [where step = "\<lambda>pc s. Some (mt_step env (e + 1) pc s)", OF st1] pt_run_Back [where step = "\<lambda>pc s. Some (mt_step env (e + 1) pc s)", OF st2])
  then have "maintain_thrd env (e + 1) ?s = Some (?s1\<lparr>cn_mt := Mt_wait\<rparr>, PT_WAITING)" using q by (simp add: maintain_thrd_def mt_return_def)
  then show thesis by (rule that) (use i1 sec q in \<open>auto simp: mt_quiet_def mt_same_def mt_inv_pt wf_timer_reset_def\<close>)
qed

text \<open>The last idle second.\<close>

lemma mt_last_second:
  assumes "mt_quiet e i s" "0 < unat i" "unat i < 2 ^ 31" "cn_idle s = 1200"
  obtains s' where "maintain_thrd env (e + 1) s = Some (s', PT_ENDED)" "aa_dev (cn_auth s') = fst (wf_deauth_xmit_frame env (Some (aa_peer (cn_auth s))) 39 (aa_dev (cn_auth s)))"
proof -
  note q = assms(1) [unfolded mt_quiet_def]
  have i: "mt_inv Mt_wait s []" using q by simp
  have t: "wf_timer_expired (e + 1) (aa_timer (cn_auth s))" using timer_one_second(1) [OF assms(2,3)] q by auto
  let ?s = "fst (mt_second env s)"
  have "mt_second env s = (?s, Fin PT_ENDED 0)" using q assms(4) by (simp add: mt_second_def Let_def)
  then have st: "Some (mt_step env (e + 1) Mt_wait s) = Some (?s, Fin PT_ENDED 0)" using mt_get [OF i] t by (simp add: mt_step_def Let_def)
  have "maintain_thrd env (e + 1) s = Some (?s\<lparr>cn_mt := Mt_begin\<rparr>, PT_ENDED)"
    using q by (simp add: maintain_thrd_def pt_run_Fin [where step = "\<lambda>pc s. Some (mt_step env (e + 1) pc s)", OF st] mt_return_def)
  then show thesis by (rule that) (use q assms(4) in \<open>simp add: mt_second_def mt_deauth_def Let_def\<close>)
qed

definition idle_seconds :: "u32 list \<Rightarrow> nat" where
  "idle_seconds ns = length (filter (\<lambda>n. n = 0) ns)"

lemma mt_many_seconds:
  assumes "mt_quiet e i s" "0 < unat i" "unat i < 2 ^ 31" "unat (cn_idle s) + idle_seconds ns \<le> 1200"
  shows "\<exists>s' e'. mt_seconds env e i (ns @ ms) s = mt_seconds env e' i ms s' \<and> mt_quiet e' i s' \<and> unat (cn_idle s') = unat (cn_idle s) + idle_seconds ns \<and> mt_same s s'"
  using assms(1,4)
proof (induction ns arbitrary: e s)
  case Nil
  then show ?case by (auto simp: idle_seconds_def mt_same_def)
next
  case (Cons n ns)
  have less: "n = 0 \<longrightarrow> cn_idle s < 1200" using Cons.prems(2) by (auto simp: idle_seconds_def word_less_nat_alt)
  obtain s1 where s1: "maintain_thrd env (e + 1) (on_auth (\<lambda>a. a\<lparr>aa_rx_pkt_stat := aa_rx_pkt_stat a + n\<rparr>) s) = Some (s1, PT_WAITING)" "mt_quiet (e + i) i s1"
    "cn_idle s1 = (if n = 0 then cn_idle s + 1 else cn_idle s)" "mt_same s s1"
    by (rule mt_one_second [OF Cons.prems(1) assms(2,3) less])
  have u: "unat (cn_idle s1) + idle_seconds ns = unat (cn_idle s) + idle_seconds (n # ns)"
    using s1(3) less by (auto simp: idle_seconds_def unat_word_ariths word_less_nat_alt)
  then have "unat (cn_idle s1) + idle_seconds ns \<le> 1200" using Cons.prems(2) by simp
  from Cons.IH [OF s1(2) this] show ?case using s1(1,4) u by (auto simp: PT_SCHEDULE_def mt_same_def)
qed

text \<open>(C38) The seconds without packets are added up over the whole connection; a second with packets does not set the count
  back. When 1201 seconds of a connection have been idle, however many busy seconds lie between them, the peer is sent
  away with reason 39, although the limit is meant for 20 minutes without a packet.\<close>

theorem idle_seconds_add_up:
  assumes "mt_quiet e i s" "cn_idle s = 0" "0 < unat i" "unat i < 2 ^ 31" "idle_seconds ns = 1200" "d = aa_dev (cn_auth s)" "au_extbuf env (ad_out d)"
  shows "\<exists>s'. mt_seconds env e i (ns @ [0]) s = Some (s', PT_ENDED) \<and>
    ad_out (aa_dev (cn_auth s')) = ad_out d @ [Frame_xmit (auth_hdr WF_80211_FRM_DEAUTH (aa_peer (cn_auth s)) (ad_bssid d) d @ le16_bytes 39)]"
proof -
  obtain s1 e1 where s1: "mt_seconds env e i (ns @ [0]) s = mt_seconds env e1 i [0] s1" "mt_quiet e1 i s1" "unat (cn_idle s1) = 1200" "mt_same s s1"
    using mt_many_seconds [OF assms(1,3,4), of ns env "[0]"] assms(2,5) by auto
  have "cn_idle s1 = 1200" using s1(3) by (simp add: word_unat_eq_iff)
  then obtain s2 where s2: "maintain_thrd env (e1 + 1) s1 = Some (s2, PT_ENDED)"
    "aa_dev (cn_auth s2) = fst (wf_deauth_xmit_frame env (Some (aa_peer (cn_auth s1))) 39 (aa_dev (cn_auth s1)))"
    using mt_last_second [OF s1(2) assms(3,4)] by blast
  have "on_auth (\<lambda>a. a\<lparr>aa_rx_pkt_stat := aa_rx_pkt_stat a + 0\<rparr>) s1 = s1" by (simp add: on_auth_def)
  then have "mt_seconds env e i (ns @ [0]) s = Some (s2, PT_ENDED)" unfolding s1(1) mt_seconds.simps using s2(1) by (simp only:) (simp add: PT_SCHEDULE_def)
  then show ?thesis using s1(4) s2(2) assms(6,7) by (simp add: mt_same_def wf_deauth_xmit_frame_def auth_emit_def)
qed

text \<open>Every other second is busy.\<close>

lemma idle_seconds_every_other: "idle_seconds (concat (replicate n [0, 7])) = n"
  by (induction n) (simp_all add: idle_seconds_def)

lemma idle_seconds_add_up_witness:
  "\<exists>s'. mt_seconds auth_env_ex 1000 1000 (concat (replicate 1200 [0, 7]) @ [0])
      ((conn_ex Mt_wait)\<lparr>cn_sta := ap_sta_ex\<lparr>ps_auth := (ps_auth ap_sta_ex)\<lparr>aa_timer := \<lparr>tm_start = 0, tm_expire = 1000, tm_interval = 1000\<rparr>\<rparr>\<rparr>\<rparr>) = Some (s', PT_ENDED)"
    (is "\<exists>s'. mt_seconds _ _ _ _ ?s = _")
proof -
  have "mt_inv Mt_wait ?s []" by (rule mt_inv_auth [OF _ _ _ _ conn_ex_inv [of Mt_wait Mt_wait]]) (simp_all add: conn_ex_def)
  then have q: "mt_quiet 1000 1000 ?s" by (simp add: mt_quiet_def conn_ex_def ap_sta_ex_def ap_ex_def)
  have c: "cn_idle ?s = 0" by (simp add: conn_ex_def)
  show ?thesis using idle_seconds_add_up [OF q c _ _ idle_seconds_every_other refl, of auth_env_ex] by (auto simp: auth_env_ex_def)
qed

section \<open>From authentication to service\<close>

lemma holds_pt: "ap_holds (x\<lparr>ps_auth := (ps_auth x)\<lparr>aa_pt := pc\<rparr>\<rparr>) p f = ap_holds x p f"
  by (simp add: ap_holds_def ap_heads_def Let_def)

lemma ap_thrd_auth_done:
  assumes "aa_pt (cn_auth s) = Ap_open \<or> aa_pt (cn_auth s) = Ap_wait4" "ap_holds (cn_sta s) p f"
  shows "ap_thrd_step env net loc now At_auth s = Some (on_auth (\<lambda>a. a\<lparr>aa_pt := Ap_begin\<rparr>) s, Goto At_assoc)"
proof -
  let ?a = "cn_auth s"
  have g: "wf_ap_msg_get (aa_que ?a) (aa_mem ?a) = Some p" "am_tag (aa_mem ?a) p = WF_AP_MSG_TAG_ASSOC_REQ_FRAME"
    using ap_holds_del(1) [OF assms(2)] assms(2) by (simp_all add: ap_holds_def Let_def)
  then have st: "ap_step env now (aa_pt ?a) ?a = Some (?a, Fin PT_ENDED 0)" using assms(1) by (auto simp: ap_step_def ap_wait_end_def)
  then have "wf_auth_ap_thrd env now ?a = Some (?a\<lparr>aa_pt := Ap_begin\<rparr>, PT_ENDED)"
    by (simp add: wf_auth_ap_thrd_def pt_run_Fin [where step = "ap_step env now", OF st] ap_return_def)
  then show ?thesis by (simp add: ap_thrd_step_def PT_SCHEDULE_def on_auth_def)
qed

lemma maintain_starts:
  assumes "cn_mt s = Mt_begin" "ap_empty (cn_auth s)" "unat (au_msecs env 1000) < 2 ^ 31"
  shows "maintain_thrd env now s = Some ((mt_begin env now s)\<lparr>cn_mt := Mt_wait\<rparr>, PT_WAITING)"
proof -
  let ?s = "mt_begin env now s"
  have i: "mt_inv Mt_wait ?s []" using assms(2) by (auto simp: mt_inv_def ap_empty_def ap_heads_def mt_begin_def Let_def)
  have t: "\<not> wf_timer_expired now (aa_timer (cn_auth ?s))" using assms(3) by (simp add: mt_begin_def timer_set_now Let_def)
  have st1: "Some (mt_step env now Mt_begin s) = Some (?s, Goto Mt_wait)" by (simp add: mt_step_def Let_def)
  have st2: "Some (mt_step env now Mt_wait ?s) = Some (?s, Back Mt_wait PT_WAITING)" using mt_get [OF i] t by (simp add: mt_step_def Let_def)
  have "pt_run (\<lambda>pc s. Some (mt_step env now pc s)) Mt_begin s = Some (?s, Back Mt_wait PT_WAITING)"
    by (simp only: pt_run_Goto [where step = "\<lambda>pc s. Some (mt_step env now pc s)", OF st1] pt_run_Back [where step = "\<lambda>pc s. Some (mt_step env now pc s)", OF st2])
  then show ?thesis using assms(1) by (simp add: maintain_thrd_def mt_return_def)
qed

text \<open>(C7) From authentication to service in one call: when the association request of an authenticated peer is pending, the call of
  the thread of the peer ends authentication, accepts the request, tells the firmware and the host, and starts to serve the peer, which
  is then established: blocked until the keys are set in a network with 802.1X, and not blocked otherwise.\<close>

theorem ap_thrd_connects:
  assumes "\<forall>es. au_extbuf env es" "unat (au_msecs env 1000) < 2 ^ 31" "cn_pt s = At_auth" "aa_pt (cn_auth s) = Ap_open \<or> aa_pt (cn_auth s) = Ap_wait4"
    "ap_holds (cn_sta s) p (assoc_req hdr cap li es)" "length hdr = 22" "\<forall>e\<in>set es. elem_good net e" "rates_once es"
    "ap_wdn_wf (ps_assoc (cn_sta s))" "ap_net_wf net" "0 < aa_aid (cn_auth s)" "aa_aid (cn_auth s) < 32"
    "v = ap_peer_of net cap li es (ps_assoc (cn_sta s))" "r = rate_table v"
  shows "\<exists>s'. ap_thrd env net loc now s = Some (s', PT_WAITING) \<and> cn_pt s' = At_maintain \<and> cn_mt s' = Mt_wait \<and> cn_status s' = WF_AP_STATUS_ESTABLISHED \<and>
    aa_state (cn_auth s') = (if dot11AuthAlgrthm (ad_sec (aa_dev (cn_auth s))) = 2 then E_WDN_AP_STATE_8021X_BLOCK else E_WDN_AP_STATE_8021X_UNBLOCK) \<and>
    ps_assoc (cn_sta s') = v\<lparr>ai_raid := snd r, ai_tx_rate := tx_rate (fst r)\<rparr> \<and> mt_ready s' \<and>
    ad_out (aa_dev (cn_auth s')) = ad_out (aa_dev (cn_auth s)) @ [Frame_xmit (assoc_rsp net (cn_auth s) 0 (rsp_var net v)), Ap_odm_connect,
      Mcu_rate_table_update (snd r), Ap_ind_assoc]"
proof -
  let ?s1 = "on_auth (\<lambda>a. a\<lparr>aa_pt := Ap_begin\<rparr>) s"
  have h: "ap_holds (cn_sta ?s1) p (assoc_req hdr cap li es)" using assms(5) holds_pt by (simp add: on_auth_def)
  have k: "ap_wdn_wf (ps_assoc (cn_sta ?s1))" "0 < aa_aid (cn_auth ?s1)" "aa_aid (cn_auth ?s1) < 32" using assms(9,11,12) by simp_all
  have v: "ap_peer_of net cap li es (ps_assoc (cn_sta ?s1)) = v" using assms(13) by simp
  obtain x where x: "wf_assoc_ap_thrd env net loc (cn_sta ?s1) = Some (x, PT_ENDED)" "ap_empty (ps_auth x)" "aa_state (ps_auth x) = E_WDN_AP_STATE_ASSOC"
    "ps_assoc x = v\<lparr>ai_raid := snd r, ai_tx_rate := tx_rate (fst r)\<rparr>"
    "ad_out (aa_dev (ps_auth x)) = ad_out (aa_dev (cn_auth ?s1)) @ [Frame_xmit (assoc_rsp net (cn_auth ?s1) 0 (rsp_var net v)), Ap_odm_connect, Mcu_rate_table_update (snd r), Ap_ind_assoc]"
    "ad_sec (aa_dev (ps_auth x)) = ad_sec (aa_dev (cn_auth ?s1))"
    by (rule ap_assoc_accepts [OF assms(1) h assms(6-8) k(1) assms(10) k(2,3), unfolded v, folded assms(14)])
  let ?s2 = "?s1\<lparr>cn_sta := x, cn_mt := Mt_begin\<rparr>"
  let ?s3 = "(mt_begin env now ?s2)\<lparr>cn_mt := Mt_wait\<rparr>"
  have m: "maintain_thrd env now ?s2 = Some (?s3, PT_WAITING)" by (rule maintain_starts) (use x(2) assms(2) in simp_all)
  note st1 = ap_thrd_auth_done [OF assms(4,5), of env net loc now]
  have st2: "ap_thrd_step env net loc now At_assoc ?s1 = Some (?s2, Goto At_maintain)" using x(1) by (simp add: ap_thrd_step_def)
  have st3: "ap_thrd_step env net loc now At_maintain ?s2 = Some (?s3, Back At_maintain PT_WAITING)" using m by (simp add: ap_thrd_step_def PT_SCHEDULE_def)
  have "pt_run (ap_thrd_step env net loc now) At_auth s = Some (?s3, Back At_maintain PT_WAITING)"
    by (simp only: pt_run_Goto [where step = "ap_thrd_step env net loc now", OF st1] pt_run_Goto [where step = "ap_thrd_step env net loc now", OF st2]
      pt_run_Back [where step = "ap_thrd_step env net loc now", OF st3])
  then have run: "ap_thrd env net loc now s = Some (?s3\<lparr>cn_pt := At_maintain\<rparr>, PT_WAITING)" using assms(3) by (simp add: ap_thrd_def)
  have "mt_inv Mt_wait (?s3\<lparr>cn_pt := At_maintain\<rparr>) []" using x(2) by (auto simp: mt_inv_def ap_empty_def ap_heads_def mt_begin_def Let_def)
  then have "mt_ready (?s3\<lparr>cn_pt := At_maintain\<rparr>)" by (auto simp: mt_ready_def)
  moreover have "assoc_rsp net (cn_auth ?s1) 0 (rsp_var net v) = assoc_rsp net (cn_auth s) 0 (rsp_var net v)" by (simp add: assoc_rsp_def)
  ultimately show ?thesis using run x(4-6) by (intro exI [of _ "?s3\<lparr>cn_pt := At_maintain\<rparr>"]) (simp add: mt_begin_def Let_def)
qed

lemma ap_thrd_connects_witness:
  "\<exists>s'. ap_thrd auth_env_ex net_ex (nt_sec net_ex) 3
      ((conn_ex Mt_begin)\<lparr>cn_pt := At_auth, cn_sta := (req_ex (assoc_req (replicate 22 0) 0x21 3 rates_req_ex))\<lparr>ps_auth :=
         (ps_auth (req_ex (assoc_req (replicate 22 0) 0x21 3 rates_req_ex)))\<lparr>aa_pt := Ap_open\<rparr>\<rparr>\<rparr>) = Some (s', PT_WAITING) \<and>
    cn_status s' = WF_AP_STATUS_ESTABLISHED" (is "\<exists>s'. ap_thrd _ _ _ _ ?s = _ \<and> _")
proof -
  let ?f = "assoc_req (replicate 22 0) 0x21 3 rates_req_ex"
  have "ap_holds (req_ex ?f) 20 ?f" by (rule req_ex_holds) (simp add: assoc_req_def rates_req_ex_def)
  then have h: "ap_holds (cn_sta ?s) 20 ?f" using holds_pt by simp
  have b: "\<forall>es. au_extbuf auth_env_ex es" "unat (au_msecs auth_env_ex 1000) < 2 ^ 31" by (simp_all add: auth_env_ex_def)
  have s: "cn_pt ?s = At_auth" "aa_pt (cn_auth ?s) = Ap_open \<or> aa_pt (cn_auth ?s) = Ap_wait4" "ap_wdn_wf (ps_assoc (cn_sta ?s))"
    "0 < aa_aid (cn_auth ?s)" "aa_aid (cn_auth ?s) < 32" "length (replicate 22 (0 :: u8)) = 22" using req_ex_wf by simp_all
  show ?thesis using ap_thrd_connects [OF b s(1,2) h s(6) rates_req_ex_good s(3) net_ex_wf s(4,5) refl refl, of "nt_sec net_ex" 3] by blast
qed

end
