(* ===== verification/Scan_Node.thy ===== *)
theory Scan_Node
  imports Wf_80211
begin

text \<open>
  Networks found by a scan, \<open>src/trunk_driver/nic/wlan_mgmt.c\<close>: the entry of the scan queue (\<open>wf_wlan_mgmt_scan_que_node_t\<close> of
  \<open>wlan_mgmt.h\<close>) and how it is filled from a beacon or a probe response (\<open>wlan_mgmt_scan_node_info\<close>).

  The frame is in the buffer of a message, whose size is that of the pool (\<open>fm_mgmt\<close>); its length is that of the message. The loop
  over the elements ends at the end of the frame, but reads each element as far as its handler does. Wi-Fi Direct only matters by being in
  use or not.
\<close>

section \<open>Data\<close>

text \<open>\<open>ssid.data\<close> has 33 bytes, \<open>spot_rate\<close> 16, the three security elements 64 each and \<open>ies\<close> 768. Enumerations are numbers.\<close>

record scan_node =
  sn_ttl :: u32
  sn_timestamp :: u64
  sn_strength :: u8
  sn_scale :: u8
  sn_qual :: u8
  sn_bssid :: bytes
  sn_ssid :: bytes
  sn_ssid_len :: u32
  sn_ssid_type :: nat
  sn_channel :: u8
  sn_spot_rate :: bytes
  sn_opr_mode :: nat
  sn_privacy :: bool
  sn_name :: nat
  sn_ht_spot :: bool
  sn_bw_40mhz :: bool
  sn_short_gi :: bool
  sn_mcs :: u16
  sn_wpa_ie :: bytes
  sn_wps_ie :: bytes
  sn_rsn_ie :: bytes
  sn_frame_type :: u16
  sn_ie_len :: u16
  sn_ies :: bytes

definition scan_node_zero :: scan_node where
  "scan_node_zero = \<lparr>sn_ttl = 0, sn_timestamp = 0, sn_strength = 0, sn_scale = 0, sn_qual = 0, sn_bssid = replicate 6 0, sn_ssid = replicate 33 0,
     sn_ssid_len = 0, sn_ssid_type = 0, sn_channel = 0, sn_spot_rate = replicate 16 0, sn_opr_mode = 0, sn_privacy = False, sn_name = 0,
     sn_ht_spot = False, sn_bw_40mhz = False, sn_short_gi = False, sn_mcs = 0, sn_wpa_ie = replicate 64 0, sn_wps_ie = replicate 64 0,
     sn_rsn_ie = replicate 64 0, sn_frame_type = 0, sn_ie_len = 0, sn_ies = replicate 768 0\<rparr>"

text \<open>\<open>rx_frm_msg_t\<close>: the physical status with whether it is valid, and the frame.\<close>

record rx_frm_msg =
  fm_strength :: u8
  fm_qual :: u8
  fm_phy_valid :: bool
  fm_mgmt :: bytes

abbreviation (input) WF_80211_HIDDEN_SSID_NOT_IN_USE :: nat where "WF_80211_HIDDEN_SSID_NOT_IN_USE \<equiv> 0"
abbreviation (input) WF_80211_HIDDEN_SSID_ZERO_LEN :: nat where "WF_80211_HIDDEN_SSID_ZERO_LEN \<equiv> 1"
abbreviation (input) WF_80211_HIDDEN_SSID_ZERO_CONTENTS :: nat where "WF_80211_HIDDEN_SSID_ZERO_CONTENTS \<equiv> 2"
abbreviation (input) WF_WLAN_OPR_MODE_ADHOC :: nat where "WF_WLAN_OPR_MODE_ADHOC \<equiv> 1"
abbreviation (input) WF_WLAN_OPR_MODE_MASTER :: nat where "WF_WLAN_OPR_MODE_MASTER \<equiv> 3"
abbreviation (input) WF_80211_FRM_PROBE_RESP :: u16 where "WF_80211_FRM_PROBE_RESP \<equiv> 0x50"
abbreviation (input) WF_80211_FRM_BEACON :: u16 where "WF_80211_FRM_BEACON \<equiv> 0x80"

definition wf_80211_get_frame_type :: "u16 \<Rightarrow> u16" where
  "wf_80211_get_frame_type fc = fc AND (0x0C OR 0xF0)"

definition signal_scale_mapping :: "int \<Rightarrow> int" where
  "signal_scale_mapping s =
     (if 51 \<le> s \<and> s \<le> 100 then 100
      else if 41 \<le> s \<and> s \<le> 50 then 80 + (s - 40) * 2
      else if 31 \<le> s \<and> s \<le> 40 then 66 + (s - 30)
      else if 21 \<le> s \<and> s \<le> 30 then 54 + (s - 20)
      else if 10 \<le> s \<and> s \<le> 20 then 42 + (s - 10) * 2 div 3
      else if 5 \<le> s \<and> s \<le> 9 then 22 + (s - 5) * 3 div 2
      else if 1 \<le> s \<and> s \<le> 4 then 6 + (s - 1) * 3 div 2
      else s)"

section \<open>Elements\<close>

text \<open>Each handler returns the entry and, when the frame is refused, the error code.\<close>

definition set_ssid :: "bytes \<Rightarrow> nat \<Rightarrow> u8 \<Rightarrow> scan_node \<Rightarrow> scan_node option" where
  "set_ssid buf pie len n = do {
     d \<leftarrow> rdn buf (pie + 2) (unat len);
     s1 \<leftarrow> wrn (sn_ssid n) 0 d;
     s2 \<leftarrow> wrn s1 (unat len) [0];
     Some (n\<lparr>sn_ssid_len := ucast len, sn_ssid := s2\<rparr>)
   }"

definition scan_ie_ssid :: "u16 \<Rightarrow> bytes \<Rightarrow> nat \<Rightarrow> scan_node \<Rightarrow> (scan_node \<times> int option) option" where
  "scan_ie_ssid frame_type buf pie n = do {
     len \<leftarrow> rd8 buf (pie + 1);
     if 33 \<le> unat len then Some (n, Some (-3))
     else if frame_type = WF_80211_FRM_PROBE_RESP then
       (if len = 0 then Some (n, Some (-4))
        else do { n' \<leftarrow> set_ssid buf pie len (n\<lparr>sn_ssid_type := WF_80211_HIDDEN_SSID_NOT_IN_USE\<rparr>); Some (n', None) })
     else if len = 0 then Some (n\<lparr>sn_ssid_type := WF_80211_HIDDEN_SSID_ZERO_LEN\<rparr>, None)
     else do {
       c \<leftarrow> rd8 buf (pie + 2);
       if c = 0 then Some (n\<lparr>sn_ssid_type := WF_80211_HIDDEN_SSID_ZERO_CONTENTS\<rparr>, None)
       else do { n' \<leftarrow> set_ssid buf pie len (n\<lparr>sn_ssid_type := WF_80211_HIDDEN_SSID_NOT_IN_USE\<rparr>); Some (n', None) }
     }
   }"

definition scan_ie_rates :: "bytes \<Rightarrow> nat \<Rightarrow> scan_node \<times> u8 \<Rightarrow> ((scan_node \<times> u8) \<times> int option) option" where
  "scan_ie_rates buf pie x = do {
     len \<leftarrow> rd8 buf (pie + 1);
     let cnt = snd x;
     let n = (if cnt = 0 then (fst x)\<lparr>sn_spot_rate := replicate 16 0\<rparr> else fst x);
     if len = 0 \<or> 16 < unat len + unat cnt then Some ((n, cnt), Some (-4))
     else do {
       d \<leftarrow> rdn buf (pie + 2) (unat len);
       r \<leftarrow> wrn (sn_spot_rate n) (unat cnt) d;
       Some ((n\<lparr>sn_spot_rate := r\<rparr>, cnt + len), None)
     }
   }"

definition scan_ie_ht_cap :: "bytes \<Rightarrow> nat \<Rightarrow> scan_node \<Rightarrow> scan_node option" where
  "scan_ie_ht_cap buf pie n = do {
     mcs \<leftarrow> rd_le16 buf (pie + 5);
     cap_info \<leftarrow> rd_le16 buf (pie + 2);
     Some (n\<lparr>sn_ht_spot := True, sn_mcs := mcs, sn_bw_40mhz := cap_info AND 0x0002 \<noteq> 0, sn_short_gi := cap_info AND (0x0020 OR 0x0040) \<noteq> 0\<rparr>)
   }"

text \<open>A security element with its header into its array of 64 bytes; the check is on the length without header.\<close>

definition scan_keep_ie :: "bytes \<Rightarrow> nat \<Rightarrow> bytes \<Rightarrow> bytes option" where
  "scan_keep_ie buf pie arr = do {
     len \<leftarrow> rd8 buf (pie + 1);
     if unat len \<le> 64 then do { d \<leftarrow> rdn buf pie (2 + unat len); wrn arr 0 d } else Some arr
   }"

definition scan_ie_vendor :: "bytes \<Rightarrow> nat \<Rightarrow> scan_node \<Rightarrow> scan_node option" where
  "scan_ie_vendor buf pie n = do {
     oui \<leftarrow> rdn buf (pie + 2) 4;
     if oui = [0x00, 0x50, 0xf2, 0x01] then map_option (\<lambda>a. n\<lparr>sn_wpa_ie := a\<rparr>) (scan_keep_ie buf pie (sn_wpa_ie n))
     else if oui = [0x00, 0x50, 0xf2, 0x04] then map_option (\<lambda>a. n\<lparr>sn_wps_ie := a\<rparr>) (scan_keep_ie buf pie (sn_wps_ie n))
     else Some n
   }"

definition scan_on_node :: "(scan_node \<Rightarrow> scan_node option) \<Rightarrow> scan_node \<times> u8 \<Rightarrow> ((scan_node \<times> u8) \<times> int option) option" where
  "scan_on_node h x = map_option (\<lambda>n. ((n, snd x), None)) (h (fst x))"

definition scan_ie :: "u16 \<Rightarrow> bytes \<Rightarrow> nat \<Rightarrow> scan_node \<times> u8 \<Rightarrow> ((scan_node \<times> u8) \<times> int option) option" where
  "scan_ie frame_type buf pie x = do {
     element_id \<leftarrow> rd8 buf pie;
     if element_id = 0 then map_option (\<lambda>(n, r). ((n, snd x), r)) (scan_ie_ssid frame_type buf pie (fst x))
     else if element_id = 1 \<or> element_id = 50 then scan_ie_rates buf pie x
     else if element_id = 3 then scan_on_node (\<lambda>n. map_option (\<lambda>c. n\<lparr>sn_channel := c\<rparr>) (rd8 buf (pie + 2))) x
     else if element_id = 61 then scan_on_node (\<lambda>n. map_option (\<lambda>c. n\<lparr>sn_channel := c\<rparr>) (rd8 buf (pie + 2))) x
     else if element_id = 45 then scan_on_node (scan_ie_ht_cap buf pie) x
     else if element_id = 221 then scan_on_node (scan_ie_vendor buf pie) x
     else if element_id = 48 then scan_on_node (\<lambda>n. map_option (\<lambda>a. n\<lparr>sn_rsn_ie := a\<rparr>) (scan_keep_ie buf pie (sn_rsn_ie n))) x
     else Some (x, None)
   }"

function scan_ies_loop :: "u16 \<Rightarrow> bytes \<Rightarrow> nat \<Rightarrow> nat \<Rightarrow> scan_node \<times> u8 \<Rightarrow> ((scan_node \<times> u8) \<times> int) option" where
  "scan_ies_loop frame_type buf pele_end pele_start x = do {
     (x', r) \<leftarrow> scan_ie frame_type buf pele_start x;
     (case r of
        Some e \<Rightarrow> Some (x', e)
      | None \<Rightarrow> do {
          len \<leftarrow> rd8 buf (pele_start + 1);
          let next = pele_start + 2 + unat len;
          if next < pele_end then scan_ies_loop frame_type buf pele_end next x' else Some (x', 0)
        })
   }"
  by pat_completeness auto
termination by (relation "measure (\<lambda>(_, _, pele_end, pele_start, _). pele_end - pele_start)") auto

declare scan_ies_loop.simps [simp del]

section \<open>The entry\<close>

definition is_cck_rate :: "u8 \<Rightarrow> bool" where
  "is_cck_rate r \<longleftrightarrow> r AND 0x7F \<in> {2, 4, 11, 22}"

text \<open>\<open>WF_WLAN_BSS_NAME_IEEE80211_*\<close>: B 1, G 2, BG 3, BN 5, GN 6, BGN 7. \<open>rates\<close> are the first \<open>support_rate_cnt\<close> ones.\<close>

definition bss_name :: "bytes \<Rightarrow> bool \<Rightarrow> nat" where
  "bss_name rates ht_spot =
     (let cck_spot = list_ex is_cck_rate rates; ofdm_spot = list_ex (\<lambda>r. \<not> is_cck_rate r) rates in
      if cck_spot \<and> ofdm_spot then (if ht_spot then 7 else 3)
      else if cck_spot then (if ht_spot then 5 else 1)
      else (if ht_spot then 6 else 2))"

definition scan_opr_mode :: "bool \<Rightarrow> u16 \<Rightarrow> scan_node \<Rightarrow> scan_node option" where
  "scan_opr_mode p2p capab n =
     (if capab AND (1 OR 2) \<noteq> 0 then Some (n\<lparr>sn_opr_mode := if capab AND 1 \<noteq> 0 then WF_WLAN_OPR_MODE_MASTER else WF_WLAN_OPR_MODE_ADHOC\<rparr>)
      else if p2p then Some n else None)"

text \<open>\<open>p2p\<close> is \<open>wf_p2p_is_valid\<close>, \<open>now\<close> the time. The fields of the frame are at 0 (frame control), 16 (BSSID), 34 (capability) and 36
  (elements); what is kept as \<open>ies\<close> starts at 24.\<close>

definition wlan_mgmt_scan_node_info :: "bool \<Rightarrow> u64 \<Rightarrow> rx_frm_msg \<Rightarrow> u16 \<Rightarrow> scan_node \<Rightarrow> (scan_node \<times> int) option" where
  "wlan_mgmt_scan_node_info p2p now pfrm_msg frm_msg_len n0 = do {
     let mgmt_len = frm_msg_len - 8;
     let buf = fm_mgmt pfrm_msg;
     fc \<leftarrow> rd_le16 buf 0;
     let frame_type = wf_80211_get_frame_type fc;
     bssid \<leftarrow> rdn buf 16 6;
     capab \<leftarrow> rd_le16 buf 34;
     let n1 = n0\<lparr>sn_frame_type := frame_type, sn_timestamp := now\<rparr>;
     let n2 = (if fm_phy_valid pfrm_msg
               then n1\<lparr>sn_strength := fm_strength pfrm_msg, sn_scale := of_int (signal_scale_mapping (uint (fm_strength pfrm_msg))),
                       sn_qual := fm_qual pfrm_msg\<rparr>
               else n1);
     let n3 = n2\<lparr>sn_bssid := bssid\<rparr>;
     (case scan_opr_mode p2p capab n3 of
        None \<Rightarrow> Some (n3, -1)
      | Some n4 \<Rightarrow> do {
          let ie_len = mgmt_len - 24;
          let n5 = n4\<lparr>sn_privacy := capab AND 0x10 \<noteq> 0, sn_ie_len := ie_len\<rparr>;
          if 768 \<le> unat ie_len then Some (n5, -2)
          else do {
            d \<leftarrow> rdn buf 24 (unat ie_len);
            i1 \<leftarrow> wrn (sn_ies n5) 0 d;
            i2 \<leftarrow> wrn i1 (unat ie_len) [0];
            ((n6, cnt), r) \<leftarrow> scan_ies_loop frame_type buf (unat mgmt_len) 36 (n5\<lparr>sn_ies := i2\<rparr>, 0);
            Some (if r \<noteq> 0 then (n6, r) else (n6\<lparr>sn_name := bss_name (take (unat cnt) (sn_spot_rate n6)) (sn_ht_spot n6)\<rparr>, 0))
          }
        })
   }"

end
