(* ===== verification/Scan_Info.thy ===== *)
theory Scan_Info
  imports Scan_Node
begin

text \<open>
  What \<open>wlan_mgmt_scan_node_info\<close> (\<open>Scan_Node\<close>) makes of a frame with well-formed elements, and of one with a long security element.
\<close>

section \<open>Single elements\<close>

definition scan_node_wf :: "scan_node \<Rightarrow> bool" where
  "scan_node_wf n \<longleftrightarrow> length (sn_ssid n) = 33 \<and> length (sn_spot_rate n) = 16 \<and> length (sn_wpa_ie n) = 64 \<and> length (sn_wps_ie n) = 64 \<and>
     length (sn_rsn_ie n) = 64 \<and> length (sn_ies n) = 768"

text \<open>A security element fits with its header, or is too long to be taken.\<close>

definition ie_fits :: "elem \<Rightarrow> bool" where
  "ie_fits e \<longleftrightarrow> length (snd e) \<le> 62 \<or> 64 < length (snd e)"

definition scan_elem_good :: "u16 \<Rightarrow> elem \<Rightarrow> bool" where
  "scan_elem_good ft e \<longleftrightarrow> length (snd e) < 256 \<and>
     (fst e = 0 \<longrightarrow> length (snd e) \<le> 32 \<and> (ft = WF_80211_FRM_PROBE_RESP \<longrightarrow> snd e \<noteq> [])) \<and>
     (fst e \<in> {1, 50, 3, 61} \<longrightarrow> snd e \<noteq> []) \<and> (fst e = 45 \<longrightarrow> 5 \<le> length (snd e)) \<and>
     (fst e = 221 \<longrightarrow> 4 \<le> length (snd e) \<and> ie_fits e) \<and> (fst e = 48 \<longrightarrow> ie_fits e)"

definition wr_over :: "bytes \<Rightarrow> bytes \<Rightarrow> bytes" where
  "wr_over new old = new @ drop (length new) old"

lemma length_wr_over [simp]: "length new \<le> length old \<Longrightarrow> length (wr_over new old) = length old"
  by (simp add: wr_over_def)

lemma wrn_wr_over: "length new \<le> length old \<Longrightarrow> wrn old 0 new = Some (wr_over new old)"
  by (simp add: wrn_def wr_over_def)

lemma take_wr_over [simp]: "take (length new) (wr_over new old) = new"
  by (simp add: wr_over_def)

definition ssid_shown :: "u16 \<Rightarrow> bytes \<Rightarrow> bool" where
  "ssid_shown ft d \<longleftrightarrow> ft = WF_80211_FRM_PROBE_RESP \<or> d \<noteq> [] \<and> hd d \<noteq> 0"

definition kept_ie :: "elem \<Rightarrow> bytes \<Rightarrow> bytes" where
  "kept_ie e arr = (if length (snd e) \<le> 64 then wr_over (ie_enc e) arr else arr)"

text \<open>The entry with the number of rates after an element.\<close>

definition scan_take :: "u16 \<Rightarrow> elem \<Rightarrow> scan_node \<times> u8 \<Rightarrow> scan_node \<times> u8" where
  "scan_take ft e x =
     (let n = fst x; cnt = snd x; d = snd e in
      if fst e = 0 then
        (if ssid_shown ft d then (n\<lparr>sn_ssid_type := 0, sn_ssid_len := of_nat (length d), sn_ssid := wr_over (d @ [0]) (sn_ssid n)\<rparr>, cnt)
         else (n\<lparr>sn_ssid_type := if d = [] then 1 else 2\<rparr>, cnt))
      else if fst e = 1 \<or> fst e = 50 then
        (let r = (if cnt = 0 then replicate 16 0 else sn_spot_rate n)
         in (n\<lparr>sn_spot_rate := take (unat cnt) r @ d @ drop (unat cnt + length d) r\<rparr>, cnt + of_nat (length d)))
      else if fst e = 3 \<or> fst e = 61 then (n\<lparr>sn_channel := hd d\<rparr>, cnt)
      else if fst e = 45 then
        (let cap = le16_of (d ! 0) (d ! 1)
         in (n\<lparr>sn_ht_spot := True, sn_mcs := le16_of (d ! 3) (d ! 4), sn_bw_40mhz := cap AND 2 \<noteq> 0, sn_short_gi := cap AND 0x60 \<noteq> 0\<rparr>, cnt))
      else if fst e = 221 then
        (if take 4 d = [0x00, 0x50, 0xf2, 0x01] then (n\<lparr>sn_wpa_ie := kept_ie e (sn_wpa_ie n)\<rparr>, cnt)
         else if take 4 d = [0x00, 0x50, 0xf2, 0x04] then (n\<lparr>sn_wps_ie := kept_ie e (sn_wps_ie n)\<rparr>, cnt) else x)
      else if fst e = 48 then (n\<lparr>sn_rsn_ie := kept_ie e (sn_rsn_ie n)\<rparr>, cnt)
      else x)"

definition rates_fit :: "elem \<Rightarrow> u8 \<Rightarrow> bool" where
  "rates_fit e cnt \<longleftrightarrow> fst e \<in> {1, 50} \<longrightarrow> unat cnt + length (snd e) \<le> 16"

lemma elem_bytes:
  assumes "length (snd e) < 256" "buf = pre @ ie_enc e @ post" "pie = length pre"
  shows "rd8 buf pie = Some (fst e)" "rd8 buf (Suc pie) = Some (of_nat (length (snd e)))"
    "i < length (snd e) \<Longrightarrow> rd8 buf (pie + (2 + i)) = Some (snd e ! i)"
    "k \<le> length (snd e) \<Longrightarrow> rdn buf (pie + 2) k = Some (take k (snd e))" "rdn buf pie (2 + length (snd e)) = Some (ie_enc e)"
    "unat (of_nat (length (snd e)) :: u8) = length (snd e)"
proof -
  show "rd8 buf pie = Some (fst e)" "rd8 buf (Suc pie) = Some (of_nat (length (snd e)))" "i < length (snd e) \<Longrightarrow> rd8 buf (pie + (2 + i)) = Some (snd e ! i)"
    using assms(2,3) by (simp_all add: rd8_def ie_enc_def nth_append)
  show "k \<le> length (snd e) \<Longrightarrow> rdn buf (pie + 2) k = Some (take k (snd e))" "rdn buf pie (2 + length (snd e)) = Some (ie_enc e)"
    using assms(2,3) by (simp_all add: rdn_def ie_enc_def)
  show "unat (of_nat (length (snd e)) :: u8) = length (snd e)" using assms(1) by (rule unat_len_byte)
qed

lemma scan_ssid_elem:
  assumes "scan_elem_good ft e" "fst e = 0" "scan_node_wf (fst x)" "buf = pre @ ie_enc e @ post" "pie = length pre"
  shows "scan_ie ft buf pie x = Some (scan_take ft e x, None)"
proof -
  have g: "length (snd e) < 256" "length (snd e) \<le> 32" "ft = WF_80211_FRM_PROBE_RESP \<longrightarrow> snd e \<noteq> []" using assms(1,2) by (auto simp: scan_elem_good_def)
  note r = elem_bytes [OF g(1) assms(4,5)]
  let ?n = "(fst x)\<lparr>sn_ssid_type := 0\<rparr>" and ?l = "of_nat (length (snd e)) :: u8"
  have w: "length (sn_ssid (fst x)) = 33" using assms(3) by (simp add: scan_node_wf_def)
  have s2: "wrn (wr_over (snd e) (sn_ssid (fst x))) (length (snd e)) [0] = Some (wr_over (snd e @ [0]) (sn_ssid (fst x)))"
    using w g(2) by (simp add: wrn_def wr_over_def)
  have u: "(ucast ?l :: u32) = of_nat (length (snd e))" unfolding ucast_of_nat_unat r(6) ..
  have set: "set_ssid buf pie ?l ?n = Some (?n\<lparr>sn_ssid_len := of_nat (length (snd e)), sn_ssid := wr_over (snd e @ [0]) (sn_ssid (fst x))\<rparr>)"
    unfolding set_ssid_def r(6) u using r(4) [of "length (snd e)"] wrn_wr_over [of "snd e" "sn_ssid (fst x)"] s2 w g(2) by simp
  have z: "?l = 0 \<longleftrightarrow> snd e = []" using r(6) by (auto simp: word_unat_eq_iff)
  have c: "snd e \<noteq> [] \<Longrightarrow> rd8 buf (pie + 2) = Some (hd (snd e))" using r(3) [of 0] by (simp add: hd_conv_nth)
  have "scan_ie_ssid ft buf pie (fst x) = Some (fst (scan_take ft e x), None)"
    using r(2,6) g(2,3) set z c assms(2) by (cases "snd e = []") (auto simp: scan_ie_ssid_def scan_take_def ssid_shown_def Let_def)
  moreover have "snd (scan_take ft e x) = snd x" using assms(2) by (simp add: scan_take_def Let_def)
  ultimately show ?thesis using r(1) assms(2) by (cases "scan_take ft e x") (simp add: scan_ie_def)
qed

lemma scan_rates_elem:
  assumes "scan_elem_good ft e" "fst e = 1 \<or> fst e = 50" "scan_node_wf (fst x)" "rates_fit e (snd x)" "buf = pre @ ie_enc e @ post" "pie = length pre"
  shows "scan_ie ft buf pie x = Some (scan_take ft e x, None)"
proof -
  have g: "length (snd e) < 256" "snd e \<noteq> []" using assms(1,2) by (auto simp: scan_elem_good_def)
  note r = elem_bytes [OF g(1) assms(5,6)]
  have f: "length (snd e) + unat (snd x) \<le> 16" using assms(2,4) by (auto simp: rates_fit_def)
  have z: "(of_nat (length (snd e)) :: u8) \<noteq> 0" using r(6) g(2) by (auto simp: word_unat_eq_iff)
  have w: "length (sn_spot_rate (fst x)) = 16" using assms(3) by (simp add: scan_node_wf_def)
  have i: "fst e \<noteq> 0" using assms(2) by auto
  have d: "rdn buf (pie + 2) (length (snd e)) = Some (snd e)" using r(4) [of "length (snd e)"] by simp
  have wr: "length a = 16 \<Longrightarrow> wrn a (unat (snd x)) (snd e) = Some (take (unat (snd x)) a @ snd e @ drop (unat (snd x) + length (snd e)) a)" for a
    using f by (simp add: wrn_def)
  have rep: "length (replicate 16 (0 :: u8)) = 16" by simp
  have "scan_ie_rates buf pie x = Some (scan_take ft e x, None)"
    using r(2,6) z f d assms(2) i wr [OF w] wr [OF rep]
    by (cases "snd x = 0") (auto simp: scan_ie_rates_def scan_take_def Let_def not_less[symmetric] simp del: drop_replicate take_replicate)
  then show ?thesis using r(1) i assms(2) by (auto simp: scan_ie_def)
qed

lemma keep_elem:
  assumes "ie_fits e" "length (snd e) < 256" "length arr = 64" "buf = pre @ ie_enc e @ post" "pie = length pre"
  shows "scan_keep_ie buf pie arr = Some (kept_ie e arr)"
proof -
  note r = elem_bytes [OF assms(2,4,5)]
  show ?thesis
    using r(2,5,6) assms(1,3) wrn_wr_over [of "ie_enc e" arr] by (auto simp: scan_keep_ie_def kept_ie_def ie_fits_def)
qed

text \<open>An element of 63 or 64 bytes does not fit with its header.\<close>

lemma keep_elem_overruns:
  assumes "length (snd e) \<in> {63, 64}" "length arr = 64" "buf = pre @ ie_enc e @ post" "pie = length pre"
  shows "scan_keep_ie buf pie arr = None"
proof -
  have l: "length (snd e) < 256" using assms(1) by auto
  note r = elem_bytes [OF l assms(3,4)]
  show ?thesis using r(2,5,6) assms(1,2) by (auto simp: scan_keep_ie_def wrn_def)
qed

lemma scan_ie_elem:
  assumes "scan_elem_good ft e" "scan_node_wf (fst x)" "rates_fit e (snd x)" "buf = pre @ ie_enc e @ post" "pie = length pre"
  shows "scan_ie ft buf pie x = Some (scan_take ft e x, None)"
proof -
  have len: "length (snd e) < 256" using assms(1) by (simp add: scan_elem_good_def)
  note r = elem_bytes [OF len assms(4,5)]
  have w: "length (sn_wpa_ie (fst x)) = 64" "length (sn_wps_ie (fst x)) = 64" "length (sn_rsn_ie (fst x)) = 64" using assms(2) by (simp_all add: scan_node_wf_def)
  consider "fst e = 0" | "fst e = 1 \<or> fst e = 50" | "fst e = 3 \<or> fst e = 61" | "fst e = 45" | "fst e = 221" | "fst e = 48"
    | "fst e \<notin> {0, 1, 50, 3, 61, 45, 221, 48}" by blast
  then show ?thesis
  proof cases
    case 1
    then show ?thesis using scan_ssid_elem assms by blast
  next
    case 2
    then show ?thesis using scan_rates_elem assms by blast
  next
    case 3
    then have "snd e \<noteq> []" using assms(1) by (auto simp: scan_elem_good_def)
    then have "rd8 buf (pie + 2) = Some (hd (snd e))" using r(3) [of 0] by (simp add: hd_conv_nth)
    then show ?thesis using 3 r(1) by (elim disjE) (simp_all add: scan_ie_def scan_on_node_def scan_take_def Let_def)
  next
    case 4
    then have l: "5 \<le> length (snd e)" using assms(1) by (simp add: scan_elem_good_def)
    have ne: "snd e \<noteq> []" using l by auto
    have b: "rd8 buf (pie + 2) = Some (snd e ! 0)" "rd8 buf (pie + 2 + 1) = Some (snd e ! 1)" "rd8 buf (pie + 5) = Some (snd e ! 3)"
      "rd8 buf (pie + 5 + 1) = Some (snd e ! 4)"
      using r(3) [of 0] r(3) [of 1] r(3) [of 3] r(3) [of 4] l ne by (simp_all only: add.assoc, simp_all)
    have "rd_le16 buf (pie + 2) = Some (le16_of (snd e ! 0) (snd e ! 1))" "rd_le16 buf (pie + 5) = Some (le16_of (snd e ! 3) (snd e ! 4))"
      unfolding rd_le16_def b by simp_all
    then show ?thesis using 4 r(1) by (simp add: scan_ie_def scan_on_node_def scan_ie_ht_cap_def scan_take_def Let_def)
  next
    case 5
    then have g: "4 \<le> length (snd e)" "ie_fits e" using assms(1) by (auto simp: scan_elem_good_def)
    show ?thesis using 5 r(1) r(4) [OF g(1)] keep_elem [OF g(2) len w(1) assms(4,5)] keep_elem [OF g(2) len w(2) assms(4,5)]
      by (cases x) (simp add: scan_ie_def scan_on_node_def scan_ie_vendor_def scan_take_def Let_def)
  next
    case 6
    then have g: "ie_fits e" using assms(1) by (auto simp: scan_elem_good_def)
    show ?thesis using 6 r(1) keep_elem [OF g len w(3) assms(4,5)] by (simp add: scan_ie_def scan_on_node_def scan_take_def Let_def)
  next
    case 7
    then show ?thesis using r(1) by (simp add: scan_ie_def scan_take_def Let_def)
  qed
qed

lemma scan_take_wf:
  assumes "scan_elem_good ft e" "scan_node_wf (fst x)" "rates_fit e (snd x)"
  shows "scan_node_wf (fst (scan_take ft e x))"
proof -
  have k: "length arr = 64 \<Longrightarrow> ie_fits e \<Longrightarrow> length (kept_ie e arr) = 64" for arr by (auto simp: kept_ie_def ie_fits_def)
  consider "fst e = 0" | "fst e = 1 \<or> fst e = 50" | "fst e = 3 \<or> fst e = 61" | "fst e = 45" | "fst e = 221" | "fst e = 48"
    | "fst e \<notin> {0, 1, 50, 3, 61, 45, 221, 48}" by blast
  then show ?thesis
  proof cases
    case 1
    then show ?thesis using assms by (simp add: scan_node_wf_def scan_take_def scan_elem_good_def Let_def)
  next
    case 2
    then have "unat (snd x) + length (snd e) \<le> 16" "fst e \<noteq> 0" using assms(3) by (auto simp: rates_fit_def)
    then show ?thesis using 2 assms(2) by (simp add: scan_node_wf_def scan_take_def Let_def)
  next
    case 3
    then show ?thesis using assms(2) by (elim disjE) (simp_all add: scan_node_wf_def scan_take_def Let_def)
  next
    case 4
    then show ?thesis using assms(2) by (simp add: scan_node_wf_def scan_take_def Let_def)
  next
    case 5
    then have "ie_fits e" using assms(1) by (simp add: scan_elem_good_def)
    then show ?thesis using 5 assms(2) k by (simp add: scan_node_wf_def scan_take_def Let_def)
  next
    case 6
    then have "ie_fits e" using assms(1) by (simp add: scan_elem_good_def)
    then show ?thesis using 6 assms(2) k by (simp add: scan_node_wf_def scan_take_def Let_def)
  next
    case 7
    then show ?thesis using assms(2) by (simp add: scan_take_def Let_def)
  qed
qed

section \<open>All elements\<close>

definition scan_rates :: "elem list \<Rightarrow> bytes" where
  "scan_rates es = concat (map snd (filter (\<lambda>e. fst e = 1 \<or> fst e = 50) es))"

lemma scan_rates_simps [simp]:
  "scan_rates [] = []" "scan_rates (e # es) = (if fst e = 1 \<or> fst e = 50 then snd e @ scan_rates es else scan_rates es)"
  by (simp_all add: scan_rates_def)

lemma scan_take_cnt:
  assumes "rates_fit e (snd x)"
  shows "unat (snd (scan_take ft e x)) = unat (snd x) + length (scan_rates [e])"
proof (cases "fst e = 1 \<or> fst e = 50")
  case True
  then have f: "unat (snd x) + length (snd e) \<le> 16" "fst e \<noteq> 0" using assms by (auto simp: rates_fit_def)
  then have u: "unat (of_nat (length (snd e)) :: u8) = length (snd e)" by (intro unat_len_byte) simp
  have "unat (snd x + of_nat (length (snd e))) = unat (snd x) + length (snd e)"
    using f(1) by (subst unat_add_lem [THEN iffD1]) (simp_all add: u)
  then show ?thesis using True f(2) by (simp add: scan_take_def Let_def)
next
  case False
  then show ?thesis by (simp add: scan_take_def Let_def)
qed

lemma scan_loop_elems:
  assumes "\<forall>e\<in>set es. scan_elem_good ft e" "es \<noteq> []" "scan_node_wf (fst x)" "unat (snd x) + length (scan_rates es) \<le> 16"
    "buf = pre @ ies_enc es @ post" "pos = length pre" "pele_end = pos + length (ies_enc es)"
  shows "scan_ies_loop ft buf pele_end pos x = Some (fold (scan_take ft) es x, 0)"
  using assms
proof (induction es arbitrary: pre pos x)
  case (Cons e es)
  have g: "scan_elem_good ft e" "length (snd e) < 256" using Cons.prems(1) by (auto simp: scan_elem_good_def)
  have f: "rates_fit e (snd x)" using Cons.prems(4) by (auto simp: rates_fit_def split: if_splits)
  have b: "buf = pre @ ie_enc e @ (ies_enc es @ post)" using Cons.prems(5) by simp
  note r = elem_bytes [OF g(2) b Cons.prems(6)]
  note step = scan_ie_elem [OF g(1) Cons.prems(3) f b Cons.prems(6)]
  have l: "rd8 buf (pos + 1) = Some (of_nat (length (snd e)))" using r(2) by simp
  show ?case
  proof (cases "es = []")
    case True
    then show ?thesis using step l r(6) Cons.prems(7) by (subst scan_ies_loop.simps) (simp add: Let_def)
  next
    case False
    have n: "pos + 2 + length (snd e) < pele_end" using False Cons.prems(7) by (cases es) simp_all
    have "scan_ies_loop ft buf pele_end (pos + 2 + length (snd e)) (scan_take ft e x) = Some (fold (scan_take ft) es (scan_take ft e x), 0)"
    proof (rule Cons.IH)
      show "buf = (pre @ ie_enc e) @ ies_enc es @ post" using b by simp
      show "unat (snd (scan_take ft e x)) + length (scan_rates es) \<le> 16"
        using scan_take_cnt [OF f, of ft] Cons.prems(4) by (simp split: if_splits)
    qed (use False Cons.prems n scan_take_wf [OF g(1) Cons.prems(3) f] in auto)
    then show ?thesis using step l r(6) n by (subst scan_ies_loop.simps) (simp add: Let_def)
  qed
qed simp

section \<open>What the entry holds\<close>

text \<open>An element changes only its own members.\<close>

lemma scan_take_other:
  "fst e \<noteq> 0 \<Longrightarrow> sn_ssid (fst (scan_take ft e x)) = sn_ssid (fst x) \<and> sn_ssid_len (fst (scan_take ft e x)) = sn_ssid_len (fst x) \<and> sn_ssid_type (fst (scan_take ft e x)) = sn_ssid_type (fst x)"
  "fst e \<notin> {3, 61} \<Longrightarrow> sn_channel (fst (scan_take ft e x)) = sn_channel (fst x)"
  "fst e \<noteq> 45 \<Longrightarrow> sn_ht_spot (fst (scan_take ft e x)) = sn_ht_spot (fst x)"
  "fst e \<noteq> 48 \<Longrightarrow> sn_rsn_ie (fst (scan_take ft e x)) = sn_rsn_ie (fst x)"
  by (simp_all add: scan_take_def Let_def)

lemma fold_keeps:
  assumes "\<And>e x. P e \<Longrightarrow> f (scan_take ft e x) = f x" "\<forall>e\<in>set es. P e"
  shows "f (fold (scan_take ft) es x) = f x"
  using assms(2) by (induction es arbitrary: x) (simp_all add: assms(1))

lemma scan_take_fixed:
  "sn_bssid (fst (scan_take ft e x)) = sn_bssid (fst x)" "sn_strength (fst (scan_take ft e x)) = sn_strength (fst x)"
  "sn_qual (fst (scan_take ft e x)) = sn_qual (fst x)" "sn_privacy (fst (scan_take ft e x)) = sn_privacy (fst x)"
  "sn_frame_type (fst (scan_take ft e x)) = sn_frame_type (fst x)" "sn_opr_mode (fst (scan_take ft e x)) = sn_opr_mode (fst x)"
  by (simp_all add: scan_take_def Let_def)

text \<open>The rates of all elements are collected in order.\<close>

definition has_rates :: "bytes \<Rightarrow> scan_node \<times> u8 \<Rightarrow> bool" where
  "has_rates rs x \<longleftrightarrow> length rs \<le> 16 \<and> unat (snd x) = length rs \<and> take (length rs) (sn_spot_rate (fst x)) = rs \<and> length (sn_spot_rate (fst x)) = 16"

lemma scan_take_rates:
  assumes "has_rates rs x" "length (rs @ scan_rates [e]) \<le> 16"
  shows "has_rates (rs @ scan_rates [e]) (scan_take ft e x)"
proof (cases "fst e = 1 \<or> fst e = 50")
  case True
  then have e: "scan_rates [e] = snd e" "fst e \<noteq> 0" by auto
  have f: "rates_fit e (snd x)" using assms e by (simp add: rates_fit_def has_rates_def)
  let ?r = "if snd x = 0 then replicate 16 0 else sn_spot_rate (fst x)"
  have r: "take (length rs) ?r = rs" "length ?r = 16" using assms(1) by (auto simp: has_rates_def)
  have "fst (scan_take ft e x) = (fst x)\<lparr>sn_spot_rate := take (length rs) ?r @ snd e @ drop (length rs + length (snd e)) ?r\<rparr>"
    using True e(2) assms(1) by (auto simp: scan_take_def has_rates_def Let_def)
  then have "sn_spot_rate (fst (scan_take ft e x)) = rs @ snd e @ drop (length rs + length (snd e)) ?r" using r(1) by simp
  then show ?thesis using r(2) assms e scan_take_cnt [OF f, of ft] by (simp add: has_rates_def)
next
  case False
  then show ?thesis using assms by (simp add: has_rates_def scan_take_def Let_def)
qed

lemma fold_rates:
  "has_rates rs x \<Longrightarrow> length (rs @ scan_rates es) \<le> 16 \<Longrightarrow> has_rates (rs @ scan_rates es) (fold (scan_take ft) es x)"
proof (induction es arbitrary: rs x)
  case (Cons e es)
  have eq: "scan_rates (e # es) = scan_rates [e] @ scan_rates es" by simp
  have l: "length ((rs @ scan_rates [e]) @ scan_rates es) \<le> 16" using Cons.prems(2) by (simp only: eq append_assoc)
  then have "length (rs @ scan_rates [e]) \<le> 16" by (simp only: length_append)
  from scan_take_rates [OF Cons.prems(1) this, of ft] have "has_rates ((rs @ scan_rates [e]) @ scan_rates es) (fold (scan_take ft) es (scan_take ft e x))"
    using l by (rule Cons.IH)
  then show ?case by (simp only: eq append_assoc fold_simps)
qed simp

text \<open>The last element with a property decides what it sets.\<close>

lemma fold_last:
  assumes "\<And>e x. P e \<Longrightarrow> f (scan_take ft e x) = f x" "es = us @ e # vs" "\<forall>v\<in>set vs. P v"
  shows "f (fold (scan_take ft) es x) = f (scan_take ft e (fold (scan_take ft) us x))"
  using fold_keeps [of P f ft vs, OF assms(1) assms(3)] assms(2) by simp

definition one_each :: "elem list \<Rightarrow> bool" where
  "one_each es \<longleftrightarrow> distinct (filter (\<lambda>i. i \<noteq> 221) (map fst es))"

lemma one_each_split:
  assumes "one_each es" "e \<in> set es" "fst e \<noteq> 221"
  obtains us vs where "es = us @ e # vs" "\<forall>v\<in>set vs. fst v \<noteq> fst e"
proof -
  obtain us vs where s: "es = us @ e # vs" using split_list [OF assms(2)] by blast
  have "fst e \<notin> set (filter (\<lambda>i. i \<noteq> 221) (map fst vs))" using assms(1,3) by (simp add: one_each_def s)
  then have "fst e \<notin> fst ` set vs" using assms(3) by simp
  then have "\<forall>v\<in>set vs. fst v \<noteq> fst e" by (metis image_eqI)
  with s that show thesis by blast
qed

text \<open>What an entry shows of a frame of type \<open>ft\<close> with elements \<open>es\<close>.\<close>

definition node_shows :: "u16 \<Rightarrow> elem list \<Rightarrow> scan_node \<Rightarrow> bool" where
  "node_shows ft es n \<longleftrightarrow>
     (\<forall>d. (0, d) \<in> set es \<and> ssid_shown ft d \<longrightarrow> sn_ssid_type n = 0 \<and> sn_ssid_len n = of_nat (length d) \<and> take (length d) (sn_ssid n) = d) \<and>
     (\<forall>c. (\<exists>e\<in>set es. fst e \<in> {3, 61}) \<and> (\<forall>e\<in>set es. fst e \<in> {3, 61} \<longrightarrow> hd (snd e) = c) \<longrightarrow> sn_channel n = c) \<and>
     (sn_ht_spot n \<longleftrightarrow> 45 \<in> fst ` set es) \<and>
     (\<forall>d. (48, d) \<in> set es \<and> length d \<le> 62 \<longrightarrow> take (2 + length d) (sn_rsn_ie n) = ie_enc (48, d)) \<and>
     take (length (scan_rates es)) (sn_spot_rate n) = scan_rates es \<and> sn_name n = bss_name (scan_rates es) (45 \<in> fst ` set es)"

lemma fold_shows:
  assumes "\<forall>e\<in>set es. scan_elem_good ft e" "one_each es" "length (scan_rates es) \<le> 16" "scan_node_wf n0" "\<not> sn_ht_spot n0"
  defines "x \<equiv> fold (scan_take ft) es (n0, 0)"
  shows "node_shows ft es ((fst x)\<lparr>sn_name := bss_name (take (unat (snd x)) (sn_spot_rate (fst x))) (sn_ht_spot (fst x))\<rparr>)"
proof -
  have "has_rates ([] @ scan_rates es) x"
    unfolding x_def by (rule fold_rates) (use assms(3,4) in \<open>simp_all add: has_rates_def scan_node_wf_def\<close>)
  then have rates: "take (length (scan_rates es)) (sn_spot_rate (fst x)) = scan_rates es" "unat (snd x) = length (scan_rates es)" by (auto simp: has_rates_def)
  have ssid: "sn_ssid_type (fst x) = 0 \<and> sn_ssid_len (fst x) = of_nat (length d) \<and> take (length d) (sn_ssid (fst x)) = d"
    if h: "(0, d) \<in> set es" "ssid_shown ft d" for d
  proof -
    obtain us vs where s: "es = us @ (0, d) # vs" "\<forall>v\<in>set vs. fst v \<noteq> 0" using one_each_split [OF assms(2) h(1)] by auto
    let ?f = "\<lambda>x :: scan_node \<times> u8. (sn_ssid (fst x), sn_ssid_len (fst x), sn_ssid_type (fst x))"
    have "?f x = ?f (scan_take ft (0, d) (fold (scan_take ft) us (n0, 0)))"
      unfolding x_def by (rule fold_last [OF _ s(1), where P = "\<lambda>e. fst e \<noteq> 0"]) (use s(2) in \<open>auto simp: scan_take_other(1)\<close>)
    then show ?thesis using h(2) by (simp add: scan_take_def Let_def wr_over_def)
  qed
  have chan: "sn_channel (fst x) = c" if h: "\<exists>e\<in>set es. fst e \<in> {3, 61}" "\<forall>e\<in>set es. fst e \<in> {3, 61} \<longrightarrow> hd (snd e) = c" for c
  proof -
    obtain us e vs where s: "es = us @ e # vs" "fst e \<in> {3, 61}" "\<forall>v\<in>set vs. fst v \<notin> {3, 61}"
      using split_list_last_prop [OF h(1)] by blast
    have "sn_channel (fst x) = sn_channel (fst (scan_take ft e (fold (scan_take ft) us (n0, 0))))"
      unfolding x_def by (rule fold_last [OF _ s(1), where P = "\<lambda>e. fst e \<notin> {3, 61}"]) (use s(3) in \<open>auto simp: scan_take_other(2)\<close>)
    moreover have "hd (snd e) = c" using h(2) s(1,2) by auto
    ultimately show ?thesis using s(2) by (auto simp: scan_take_def Let_def)
  qed
  have ht: "sn_ht_spot (fst x) \<longleftrightarrow> 45 \<in> fst ` set es"
  proof (cases "45 \<in> fst ` set es")
    case True
    then have "\<exists>e\<in>set es. fst e = 45" by force
    then obtain us e vs where s: "es = us @ e # vs" "fst e = 45" "\<forall>v\<in>set vs. fst v \<noteq> 45" using split_list_last_prop [of es "\<lambda>e. fst e = 45"] by blast
    have "sn_ht_spot (fst x) = sn_ht_spot (fst (scan_take ft e (fold (scan_take ft) us (n0, 0))))"
      unfolding x_def by (rule fold_last [OF _ s(1), where P = "\<lambda>e. fst e \<noteq> 45"]) (use s(3) in \<open>auto simp: scan_take_other(3)\<close>)
    then show ?thesis using s(2) True by (simp add: scan_take_def Let_def)
  next
    case False
    then have "\<forall>e\<in>set es. fst e \<noteq> 45" by (metis image_eqI)
    then have "sn_ht_spot (fst x) = sn_ht_spot (fst (n0, 0 :: u8))" unfolding x_def by (intro fold_keeps [where P = "\<lambda>e. fst e \<noteq> 45"] scan_take_other(3))
    then show ?thesis using False assms(5) by simp
  qed
  have rsn: "take (2 + length d) (sn_rsn_ie (fst x)) = ie_enc (48, d)" if h: "(48, d) \<in> set es" "length d \<le> 62" for d
  proof -
    obtain us vs where s: "es = us @ (48, d) # vs" "\<forall>v\<in>set vs. fst v \<noteq> 48" using one_each_split [OF assms(2) h(1)] by auto
    have "sn_rsn_ie (fst x) = sn_rsn_ie (fst (scan_take ft (48, d) (fold (scan_take ft) us (n0, 0))))"
      unfolding x_def by (rule fold_last [OF _ s(1), where P = "\<lambda>e. fst e \<noteq> 48"]) (use s(2) in \<open>auto simp: scan_take_other(4)\<close>)
    then show ?thesis using h(2) by (simp add: scan_take_def kept_ie_def Let_def wr_over_def)
  qed
  let ?n = "(fst x)\<lparr>sn_name := bss_name (take (unat (snd x)) (sn_spot_rate (fst x))) (sn_ht_spot (fst x))\<rparr>"
  have "sn_name ?n = bss_name (scan_rates es) (45 \<in> fst ` set es)" using rates ht by simp
  then show ?thesis unfolding node_shows_def using ssid chan ht rsn rates(1) by (intro conjI allI impI) (simp_all, blast)
qed

text \<open>A frame of \<open>n\<close> bytes of elements, in a buffer that may be larger.\<close>

definition scan_frame :: "u16 \<Rightarrow> bytes \<Rightarrow> u16 \<Rightarrow> elem list \<Rightarrow> bytes \<Rightarrow> bool" where
  "scan_frame fc bssid capab es buf \<longleftrightarrow>
     (\<exists>mid fixed rest. buf = le16_bytes fc @ mid @ bssid @ fixed @ le16_bytes capab @ ies_enc es @ rest \<and>
        length mid = 14 \<and> length bssid = 6 \<and> length fixed = 12)"

lemma wrn_terminated:
  assumes "length d < length a"
  shows "\<exists>i1 i. wrn a 0 d = Some i1 \<and> wrn i1 (length d) [0] = Some i \<and> length i = length a"
  using assms by (simp add: wrn_def)

lemma scan_info_result:
  assumes "scan_frame fc bssid capab es (fm_mgmt fm)" "ft = wf_80211_get_frame_type fc" "capab AND 3 \<noteq> 0"
    "\<forall>e\<in>set es. scan_elem_good ft e" "es \<noteq> []" "one_each es" "length (scan_rates es) \<le> 16" "length (ies_enc es) < 756"
  shows "\<exists>n. wlan_mgmt_scan_node_info p2p now fm (of_nat (44 + length (ies_enc es))) scan_node_zero = Some (n, 0) \<and>
    node_shows ft es n \<and> sn_bssid n = bssid \<and> sn_frame_type n = ft \<and> sn_privacy n = (capab AND 0x10 \<noteq> 0) \<and>
    sn_strength n = (if fm_phy_valid fm then fm_strength fm else 0) \<and> sn_qual n = (if fm_phy_valid fm then fm_qual fm else 0)"
proof -
  obtain mid fixed rest where b: "fm_mgmt fm = le16_bytes fc @ mid @ bssid @ fixed @ le16_bytes capab @ ies_enc es @ rest"
    and l: "length mid = 14" "length bssid = 6" "length fixed = 12" using assms(1) by (auto simp: scan_frame_def)
  let ?buf = "fm_mgmt fm" and ?L = "length (ies_enc es)"
  have rd: "rd_le16 ?buf 0 = Some fc" "rdn ?buf 16 6 = Some bssid" "rd_le16 ?buf 34 = Some capab"
    using rd_le16_put [of 0 "[]" fc "mid @ bssid @ fixed @ le16_bytes capab @ ies_enc es @ rest"]
      rdn_append_mid [of "le16_bytes fc @ mid" bssid "fixed @ le16_bytes capab @ ies_enc es @ rest"]
      rd_le16_put [of 34 "le16_bytes fc @ mid @ bssid @ fixed" capab "ies_enc es @ rest"] l unfolding b by simp_all
  have u: "unat (of_nat (36 + ?L) :: u16) = 36 + ?L" "unat (of_nat (12 + ?L) :: u16) = 12 + ?L"
    by (rule unat_of_nat_u16; use assms(8) in simp)+
  have w: "of_nat (44 + ?L) - 8 = (of_nat (36 + ?L) :: u16)" "of_nat (36 + ?L) - 24 = (of_nat (12 + ?L) :: u16)" by simp_all
  obtain d where d: "rdn ?buf 24 (12 + ?L) = Some d" "length d = 12 + ?L" using l by (simp add: rdn_def b)
  let ?st = "if fm_phy_valid fm then fm_strength fm else 0" and ?q = "if fm_phy_valid fm then fm_qual fm else 0"
  define n2 where "n2 = (let n1 = scan_node_zero\<lparr>sn_frame_type := ft, sn_timestamp := now\<rparr>
    in if fm_phy_valid fm
       then n1\<lparr>sn_strength := fm_strength fm, sn_scale := of_int (signal_scale_mapping (uint (fm_strength fm))), sn_qual := fm_qual fm\<rparr> else n1)"
  have n2: "length (sn_ies n2) = 768" "scan_node_wf n2" "\<not> sn_ht_spot n2" "sn_frame_type n2 = ft" "sn_strength n2 = ?st" "sn_qual n2 = ?q"
    by (simp_all add: n2_def scan_node_wf_def scan_node_zero_def Let_def)
  let ?n4 = "n2\<lparr>sn_bssid := bssid, sn_opr_mode := if capab AND 1 \<noteq> 0 then 3 else 1\<rparr>"
  let ?n5 = "?n4\<lparr>sn_privacy := capab AND 0x10 \<noteq> 0, sn_ie_len := of_nat (12 + ?L)\<rparr>"
  obtain i1 i where i: "wrn (sn_ies ?n5) 0 d = Some i1" "length i = 768" "wrn i1 (12 + ?L) [0] = Some i"
  proof -
    have z: "length (sn_ies ?n5) = 768" using n2(1) by simp
    then have "length d < length (sn_ies ?n5)" using d(2) assms(8) by simp
    from wrn_terminated [OF this] show thesis unfolding z d(2) using that by blast
  qed
  let ?n0 = "?n5\<lparr>sn_ies := i\<rparr>"
  have wf: "scan_node_wf ?n0" "\<not> sn_ht_spot ?n0" using i(2) n2(2,3) by (simp_all add: scan_node_wf_def)
  have bp: "?buf = (le16_bytes fc @ mid @ bssid @ fixed @ le16_bytes capab) @ ies_enc es @ rest" using b by simp
  have loop: "scan_ies_loop ft ?buf (36 + ?L) 36 (?n0, 0) = Some (fold (scan_take ft) es (?n0, 0), 0)"
    by (rule scan_loop_elems [OF assms(4,5) _ _ bp]) (use wf(1) assms(7) l in simp_all)
  let ?x = "fold (scan_take ft) es (?n0, 0)"
  obtain nx cx where x: "?x = (nx, cx)" by fastforce
  let ?r = "nx\<lparr>sn_name := bss_name (take (unat cx) (sn_spot_rate nx)) (sn_ht_spot nx)\<rparr>"
  have c: "(768 \<le> 12 + ?L) = False" using assms(8) by simp
  have o: "scan_opr_mode p2p capab (n2\<lparr>sn_bssid := bssid\<rparr>) = Some ?n4" using assms(3) by (simp add: scan_opr_mode_def)
  have k: "f (fst ?x) = f ?n0" if "\<And>e x. f (fst (scan_take ft e x)) = f (fst x)" for f :: "scan_node \<Rightarrow> 'a"
    using fold_keeps [of "\<lambda>_. True" "\<lambda>x. f (fst x)" ft es "(?n0, 0)"] that by simp
  note ks = k [of sn_bssid, OF scan_take_fixed(1)] k [of sn_strength, OF scan_take_fixed(2)] k [of sn_qual, OF scan_take_fixed(3)]
    k [of sn_privacy, OF scan_take_fixed(4)] k [of sn_frame_type, OF scan_take_fixed(5)]
  have "wlan_mgmt_scan_node_info p2p now fm (of_nat (44 + ?L)) scan_node_zero = Some (?r, 0)"
    unfolding wlan_mgmt_scan_node_info_def Let_def w rd bind.bind_lunit assms(2) [symmetric] n2_def [unfolded Let_def, symmetric] o option.case u c if_False
      d(1) i(1,3) loop x
    by simp
  moreover have "node_shows ft es ?r" using fold_shows [OF assms(4,6,7) wf] unfolding x by simp
  moreover have "sn_bssid ?r = bssid \<and> sn_frame_type ?r = ft \<and> sn_privacy ?r = (capab AND 0x10 \<noteq> 0) \<and> sn_strength ?r = ?st \<and> sn_qual ?r = ?q"
    using ks n2(4-6) unfolding x by simp
  ultimately show ?thesis by blast
qed

end
