(* ===== verification/Scan_Que.thy ===== *)
theory Scan_Que
  imports Scan_Info Wf_Que
begin

text \<open>
  The scan queue, \<open>src/trunk_driver/nic/wlan_mgmt.c\<close> lines 48 to 145 and 417 to 613 and the iteration macros of \<open>wlan_mgmt.h\<close>: the
  networks that were found, on the queue \<open>ready\<close>, strongest first, and unused entries on \<open>free\<close>.

  The queues are those of \<open>Wf_Que\<close>; the memory gains the entries, which are named by their list nodes. One thread changes the queue
  (\<open>rx_frame_handle\<close>), other threads read it: a read count and a semaphore keep a reader from seeing a change. A
  section between \<open>write_try\<close> and \<open>write_post\<close> is one step. What \<open>memset\<close> does to an entry includes its links.
\<close>

section \<open>State\<close>

record scan_mem = wf_que_mem +
  sq_node :: "ptr \<Rightarrow> scan_node"

record scan_que =
  sq_mem :: scan_mem
  sq_free :: ptr
  sq_ready :: ptr
  sq_read_cnt :: u8
  sq_sema :: nat

text \<open>\<open>wf_mlme_get_connect\<close>, the BSSID of the current network, the configured time to live, and whether Wi-Fi Direct is in use.\<close>

record scan_env =
  se_connected :: bool
  se_bssid :: bytes
  se_ttl :: u8
  se_p2p :: bool

abbreviation set_node :: "ptr \<Rightarrow> scan_node \<Rightarrow> scan_que \<Rightarrow> scan_que" where
  "set_node p n q \<equiv> q\<lparr>sq_mem := (sq_mem q)\<lparr>sq_node := (sq_node (sq_mem q))(p := n)\<rparr>\<rparr>"

abbreviation node_at :: "scan_que \<Rightarrow> ptr \<Rightarrow> scan_node" where
  "node_at q p \<equiv> sq_node (sq_mem q) p"

section \<open>Readers and the writer\<close>

definition scan_read_try :: "scan_que \<Rightarrow> scan_que \<times> int" where
  "scan_read_try q =
     (if sq_read_cnt q = 0xFF then (q, -2)
      else if sq_read_cnt q = 0 \<and> sq_sema q = 0 then (q, -3)
      else (q\<lparr>sq_sema := if sq_read_cnt q = 0 then sq_sema q - 1 else sq_sema q, sq_read_cnt := sq_read_cnt q + 1\<rparr>, 0))"

definition wf_wlan_mgmt_scan_que_read_try :: "scan_que option \<Rightarrow> scan_que option \<times> int" where
  "wf_wlan_mgmt_scan_que_read_try pscan_que = (case pscan_que of None \<Rightarrow> (None, -1) | Some q \<Rightarrow> map_prod Some id (scan_read_try q))"

definition scan_read_post :: "scan_que \<Rightarrow> scan_que \<times> int" where
  "scan_read_post q =
     (if sq_read_cnt q = 0 then (q, -2)
      else let c = sq_read_cnt q - 1 in (q\<lparr>sq_read_cnt := c, sq_sema := if c = 0 then sq_sema q + 1 else sq_sema q\<rparr>, 0))"

definition wf_wlan_mgmt_scan_que_read_post :: "scan_que option \<Rightarrow> scan_que option \<times> int" where
  "wf_wlan_mgmt_scan_que_read_post pscan_que = (case pscan_que of None \<Rightarrow> (None, -1) | Some q \<Rightarrow> map_prod Some id (scan_read_post q))"

text \<open>The second result says that the semaphore was taken.\<close>

definition wlan_mgmt_scan_que_write_try :: "scan_que \<Rightarrow> scan_que \<times> bool" where
  "wlan_mgmt_scan_que_write_try q = (if sq_sema q = 0 then (q, False) else (q\<lparr>sq_sema := sq_sema q - 1\<rparr>, True))"

definition wlan_mgmt_scan_que_write_post :: "scan_que \<Rightarrow> scan_que" where
  "wlan_mgmt_scan_que_write_post q = q\<lparr>sq_sema := sq_sema q + 1\<rparr>"

definition is_bss_onlink :: "scan_env \<Rightarrow> bytes \<Rightarrow> bool" where
  "is_bss_onlink env bssid \<longleftrightarrow> se_connected env \<and> se_bssid env = bssid"

section \<open>A new entry\<close>

definition scan_memset :: "ptr \<Rightarrow> scan_que \<Rightarrow> scan_que" where
  "scan_memset p q = set_node p scan_node_zero (q\<lparr>sq_mem := set_pnext p 0 (set_prev p 0 (sq_mem q))\<rparr>)"

definition wlan_mgmt_scan_que_node_new :: "scan_que \<Rightarrow> scan_que \<times> int \<times> ptr option" where
  "wlan_mgmt_scan_que_node_new q =
     (case wf_deque_head (sq_free q) (sq_mem q) of
        (m, None) \<Rightarrow> (q\<lparr>sq_mem := m\<rparr>, -1, None)
      | (m, Some p) \<Rightarrow> (scan_memset p (q\<lparr>sq_mem := m\<rparr>), 0, Some p))"

text \<open>The walk over \<open>ready\<close>: the first entry with the BSSID of the new one (\<open>pswap_node\<close>) and the first weaker one (\<open>pinst_pos\<close>).\<close>

partial_function (option) scan_push_find ::
  "scan_mem \<Rightarrow> ptr \<Rightarrow> scan_node \<Rightarrow> ptr \<Rightarrow> ptr option \<Rightarrow> ptr option \<Rightarrow> (ptr option \<times> ptr option) option" where
  "scan_push_find m head new pos pswap pinst =
     (if pos = head then Some (pswap, pinst)
      else
        (let sw = (if pswap = None \<and> sn_bssid new = sn_bssid (sq_node m pos) then Some pos else pswap);
             ins = (if pinst = None \<and> sn_strength (sq_node m pos) < sn_strength new then Some pos else pinst)
         in if sw \<noteq> None \<and> ins \<noteq> None then Some (sw, ins) else scan_push_find m head new (pnext m pos) sw ins))"

text \<open>An entry from a probe response is not replaced by the next five beacons; the upper byte of \<open>ttl\<close> counts them.\<close>

definition scan_holds :: "ptr option \<Rightarrow> u16 \<Rightarrow> scan_que \<Rightarrow> bool" where
  "scan_holds pswap frame_type q =
     (case pswap of
        None \<Rightarrow> False
      | Some s \<Rightarrow> sn_frame_type (node_at q s) = WF_80211_FRM_PROBE_RESP \<and> frame_type = WF_80211_FRM_BEACON \<and> sn_ttl (node_at q s) AND 0xFF000000 \<noteq> 0)"

definition scan_hold :: "ptr option \<Rightarrow> scan_que \<Rightarrow> scan_que" where
  "scan_hold pswap q = (case pswap of None \<Rightarrow> q | Some s \<Rightarrow> set_node s ((node_at q s)\<lparr>sn_ttl := sn_ttl (node_at q s) - 0x01000000\<rparr>) q)"

text \<open>The entry to give up when none is free: the last one. \<open>None\<close> is the NULL that an empty queue has as its last entry.\<close>

definition scan_victim :: "scan_env \<Rightarrow> ptr option \<Rightarrow> scan_que \<Rightarrow> (ptr option \<times> bool) option" where
  "scan_victim env pswap q =
     (if pswap = None \<and> wf_que_is_empty (sq_free q) (sq_mem q)
      then (case wf_que_tail (sq_ready q) (sq_mem q) of None \<Rightarrow> None | Some t \<Rightarrow> Some (Some t, is_bss_onlink env (sn_bssid (node_at q t))))
      else Some (pswap, False))"

definition scan_to_free :: "ptr \<Rightarrow> scan_que \<Rightarrow> scan_que" where
  "scan_to_free p q = q\<lparr>sq_mem := wf_enque_tail p (sq_free q) (fst (wf_deque p (sq_ready q) (sq_mem q)))\<rparr>"

definition scan_insert :: "scan_env \<Rightarrow> ptr \<Rightarrow> ptr option \<Rightarrow> ptr option \<Rightarrow> scan_que \<Rightarrow> scan_que" where
  "scan_insert env pnew pinst pswap q =
     (let q1 = set_node pnew ((node_at q pnew)\<lparr>sn_ttl := ucast (se_ttl env) OR push_bit 24 5\<rparr>) q;
          q2 = q1\<lparr>sq_mem := (case pinst of None \<Rightarrow> wf_enque_tail pnew (sq_ready q1) (sq_mem q1)
                                          | Some i \<Rightarrow> wf_enque_prev pnew i (sq_ready q1) (sq_mem q1))\<rparr>
      in case pswap of None \<Rightarrow> q2 | Some s \<Rightarrow> scan_to_free s q2)"

definition wlan_mgmt_scan_que_node_push :: "scan_env \<Rightarrow> rx_frm_msg \<Rightarrow> ptr \<Rightarrow> scan_que \<Rightarrow> (scan_que \<times> int) option" where
  "wlan_mgmt_scan_que_node_push env pfrm_msg pnew q = do {
     (pswap, pinst) \<leftarrow> scan_push_find (sq_mem q) (sq_ready q) (node_at q pnew) (pnext (sq_mem q) (sq_ready q)) None None;
     fc \<leftarrow> rd_le16 (fm_mgmt pfrm_msg) 0;
     if scan_holds pswap (wf_80211_get_frame_type fc) q then Some (scan_hold pswap q, -1)
     else if \<not> fm_phy_valid pfrm_msg \<and> wf_que_is_empty (sq_free q) (sq_mem q) then Some (q, -2)
     else if \<not> fm_phy_valid pfrm_msg \<and> pswap \<noteq> None then Some (q, -3)
     else do {
       (pswap', onlink) \<leftarrow> scan_victim env pswap q;
       if onlink then Some (q, -4)
       else (case wlan_mgmt_scan_que_write_try q of
         (q1, False) \<Rightarrow> Some (q1, -5)
       | (q1, True) \<Rightarrow> Some (wlan_mgmt_scan_que_write_post (scan_insert env pnew pinst pswap' q1), 0))
     }
   }"

text \<open>The two cases of \<open>rx_frame_handle\<close> with a beacon or a probe response.\<close>

definition scan_back :: "ptr \<Rightarrow> scan_que \<Rightarrow> scan_que" where
  "scan_back p q = q\<lparr>sq_mem := wf_enque_head p (sq_free q) (sq_mem q)\<rparr>"

definition scan_handle_frame :: "scan_env \<Rightarrow> u64 \<Rightarrow> rx_frm_msg \<Rightarrow> u16 \<Rightarrow> scan_que \<Rightarrow> scan_que option" where
  "scan_handle_frame env now pfrm_msg frm_msg_len q =
     (case wlan_mgmt_scan_que_node_new q of
        (q1, _, None) \<Rightarrow> Some q1
      | (q1, _, Some p) \<Rightarrow> do {
          (n, rst) \<leftarrow> wlan_mgmt_scan_node_info (se_p2p env) now pfrm_msg frm_msg_len (node_at q1 p);
          let q2 = set_node p n q1;
          if rst \<noteq> 0 then Some (scan_back p q2)
          else do {
            (q3, rst) \<leftarrow> wlan_mgmt_scan_que_node_push env pfrm_msg p q2;
            Some (if rst \<noteq> 0 then scan_back p q3 else q3)
          }
        })"

section \<open>Ageing\<close>

definition refresh_node :: "u8 list \<Rightarrow> ptr \<Rightarrow> scan_que \<Rightarrow> scan_que" where
  "refresh_node chs p q =
     (if sn_channel (node_at q p) \<notin> set chs then q
      else
        (let t = sn_ttl (node_at q p);
             t' = (if t \<noteq> 0 then t - 1 else t);
             q1 = set_node p ((node_at q p)\<lparr>sn_ttl := t'\<rparr>) q
         in if t' \<noteq> 0 then q1
            else (case wlan_mgmt_scan_que_write_try q1 of
              (q2, False) \<Rightarrow> q2
            | (q2, True) \<Rightarrow> wlan_mgmt_scan_que_write_post (scan_to_free p q2))))"

partial_function (option) refresh_loop :: "u8 list \<Rightarrow> scan_que \<Rightarrow> ptr \<Rightarrow> ptr \<Rightarrow> scan_que option" where
  "refresh_loop chs q pos n =
     (if pos = sq_ready q then Some q
      else (let q1 = refresh_node chs pos q in refresh_loop chs q1 n (pnext (sq_mem q1) n)))"

text \<open>\<open>chs\<close> are the first \<open>ch_num\<close> channels of the request.\<close>

definition wlan_mgmt_scan_que_refresh :: "u8 list \<Rightarrow> scan_que \<Rightarrow> scan_que option" where
  "wlan_mgmt_scan_que_refresh chs q =
     (let pos = pnext (sq_mem q) (sq_ready q) in refresh_loop chs q pos (pnext (sq_mem q) pos))"

section \<open>Flushing\<close>

text \<open>The loop macro gets the call \<open>wf_deque_head(&pscan_que->ready)\<close> as its head, so that the start and every test take an entry
  out of the queue. What \<open>pos\<close> points to is treated as an entry whether it is one or not; the node of another address is arbitrary.\<close>

definition flush_node :: "scan_env \<Rightarrow> ptr \<Rightarrow> scan_que \<Rightarrow> scan_que" where
  "flush_node env pos q = (if \<not> is_bss_onlink env (sn_bssid (node_at q pos)) then scan_to_free pos q else q)"

partial_function (option) flush_loop :: "scan_env \<Rightarrow> scan_que \<Rightarrow> ptr \<Rightarrow> ptr \<Rightarrow> scan_que option" where
  "flush_loop env q pos n =
     (let (m, h) = wf_deque_head (sq_ready q) (sq_mem q); q1 = q\<lparr>sq_mem := m\<rparr> in
      if h = Some pos then Some q1
      else (let q2 = flush_node env pos q1 in flush_loop env q2 n (pnext (sq_mem q2) n)))"

definition wlan_mgmt_scan_que_node_flush :: "scan_env \<Rightarrow> scan_que \<Rightarrow> (scan_que \<times> int) option" where
  "wlan_mgmt_scan_que_node_flush env q =
     (if wf_que_is_empty (sq_ready q) (sq_mem q) then Some (q, 0)
      else (case wlan_mgmt_scan_que_write_try q of
        (q1, False) \<Rightarrow> Some (q1, -1)
      | (q1, True) \<Rightarrow>
          (case wf_deque_head (sq_ready q1) (sq_mem q1) of
             (m, None) \<Rightarrow> None
           | (m, Some h) \<Rightarrow> do {
               let pos = pnext m h;
               q2 \<leftarrow> flush_loop env (q1\<lparr>sq_mem := m\<rparr>) pos (pnext m pos);
               Some (wlan_mgmt_scan_que_write_post q2, 0)
             })))"

section \<open>Reading\<close>

definition scan_visit :: "ptr \<Rightarrow> scan_que \<Rightarrow> scan_que" where
  "scan_visit p q = set_node p ((node_at q p)\<lparr>sn_ttl := sn_ttl (node_at q p) AND 0xFF\<rparr>) q"

text \<open>The loop between \<open>wf_wlan_mgmt_scan_que_for_begin\<close> and \<open>wf_wlan_mgmt_scan_que_for_end\<close>; \<open>body\<close> gives \<open>Some\<close> where the code breaks.\<close>

partial_function (option) scan_for_loop :: "(scan_node \<Rightarrow> 'r option) \<Rightarrow> scan_que \<Rightarrow> ptr \<Rightarrow> (scan_que \<times> 'r option) option" where
  "scan_for_loop body q pos =
     (if pos = sq_ready q then Some (q, None)
      else
        (let q1 = scan_visit pos q in
         case body (node_at q1 pos) of
           Some r \<Rightarrow> Some (q1, Some r)
         | None \<Rightarrow> scan_for_loop body q1 (pnext (sq_mem q1) pos)))"

text \<open>The result: \<open>-1\<close> (\<open>FOR_RST_FAIL\<close>) when the queue cannot be read, \<open>1\<close> (\<open>FOR_RST_BREAK\<close>) after a break, \<open>0\<close> (\<open>FOR_RST_END\<close>)
  otherwise. \<open>cannot_run\<close> is \<open>WF_CANNOT_RUN\<close>.\<close>

definition wf_wlan_mgmt_scan_que_for :: "bool \<Rightarrow> (scan_node \<Rightarrow> 'r option) \<Rightarrow> scan_que \<Rightarrow> (scan_que \<times> int \<times> 'r option) option" where
  "wf_wlan_mgmt_scan_que_for cannot_run body q =
     (if cannot_run then Some (q, -1, None)
      else (case scan_read_try q of
        (q1, rst) \<Rightarrow>
          if rst \<noteq> 0 then Some (q1, -1, None)
          else do {
            (q2, r) \<leftarrow> scan_for_loop body q1 (pnext (sq_mem q1) (sq_ready q1));
            Some (fst (scan_read_post q2), if r \<noteq> None then 1 else 0, r)
          }))"

definition wf_wlan_get_signal_and_qual :: "bool \<Rightarrow> scan_env \<Rightarrow> scan_que \<Rightarrow> (scan_que \<times> int \<times> (u8 \<times> u8) option) option" where
  "wf_wlan_get_signal_and_qual cannot_run env q =
     wf_wlan_mgmt_scan_que_for cannot_run (\<lambda>n. if sn_bssid n = se_bssid env then Some (sn_qual n, sn_strength n) else None) q"

section \<open>Initialisation and termination\<close>

text \<open>The allocator's answers are a list, \<open>None\<close> for NULL.\<close>

fun scan_alloc :: "nat \<Rightarrow> ptr option list \<Rightarrow> scan_que \<Rightarrow> scan_que \<times> int" where
  "scan_alloc 0 allocs q = (q, 0)"
| "scan_alloc (Suc k) (Some p # allocs) q = scan_alloc k allocs (scan_back p (set_node p scan_node_zero q))"
| "scan_alloc (Suc k) _ q = (q, -1)"

definition wlan_mgmt_scan_que_init :: "nat \<Rightarrow> ptr option list \<Rightarrow> scan_que \<Rightarrow> scan_que \<times> int" where
  "wlan_mgmt_scan_que_init deep allocs q =
     (case scan_alloc deep allocs (q\<lparr>sq_mem := wf_que_init (sq_ready q) (wf_que_init (sq_free q) (sq_mem q))\<rparr>) of
        (q1, r) \<Rightarrow> if r \<noteq> 0 then (q1, -1) else (q1\<lparr>sq_read_cnt := 0, sq_sema := 1\<rparr>, 0))"

partial_function (option) scan_drain :: "ptr \<Rightarrow> scan_mem \<Rightarrow> (scan_mem \<times> ptr list) option" where
  "scan_drain que m =
     (case wf_deque_head que m of
        (m', None) \<Rightarrow> Some (m', [])
      | (m', Some p) \<Rightarrow> Option.bind (scan_drain que m') (\<lambda>(m'', ps). Some (m'', p # ps)))"

text \<open>The addresses that are freed.\<close>

definition wlan_mgmt_scan_que_deinit :: "scan_que \<Rightarrow> ptr list option" where
  "wlan_mgmt_scan_que_deinit q = do {
     (m1, fs) \<leftarrow> scan_drain (sq_free q) (sq_mem q);
     (m2, rs) \<leftarrow> scan_drain (sq_ready q) m1;
     Some (fs @ rs)
   }"

end
