(* ===== verification/Scan_Order.thy ===== *)
theory Scan_Order
  imports Scan_Que
begin

text \<open>
  The scan queue (\<open>Scan_Que\<close>) as a list of entries. \<open>scan_rep\<close> relates the linked memory to the lists of nodes; the effect of every operation is
  stated on these lists. The invariant \<open>scan_inv\<close>: entries are sorted by signal strength and no BSSID occurs twice.
\<close>

section \<open>Representation\<close>

definition scan_rep :: "scan_que \<Rightarrow> ptr list \<Rightarrow> ptr list \<Rightarrow> bool" where
  "scan_rep q rs fs \<longleftrightarrow> wf_que_rep (sq_mem q) (sq_ready q) rs \<and> wf_que_rep (sq_mem q) (sq_free q) fs \<and>
     insert (sq_ready q) (set rs) \<inter> insert (sq_free q) (set fs) = {}"

definition scan_out :: "scan_que \<Rightarrow> ptr list \<Rightarrow> ptr list \<Rightarrow> ptr \<Rightarrow> bool" where
  "scan_out q rs fs p \<longleftrightarrow> p \<notin> insert (sq_ready q) (set rs) \<and> p \<notin> insert (sq_free q) (set fs)"

text \<open>Two states that differ in the entries, the read count and the semaphore only.\<close>

definition same_shape :: "scan_que \<Rightarrow> scan_que \<Rightarrow> bool" where
  "same_shape q q' \<longleftrightarrow> sq_ready q' = sq_ready q \<and> sq_free q' = sq_free q \<and> pnext (sq_mem q') = pnext (sq_mem q) \<and>
     prev (sq_mem q') = prev (sq_mem q) \<and> cnt (sq_mem q') = cnt (sq_mem q)"

lemma wf_que_rep_cong:
  assumes "pnext m' = pnext m" "prev m' = prev m" "cnt m' = cnt m"
  shows "wf_que_rep m' que xs = wf_que_rep m que xs"
proof -
  have "lseg m' a xs b = lseg m a xs b" for a xs b using assms by (induction xs arbitrary: a) simp_all
  then show ?thesis using assms(3) by (simp add: wf_que_rep_def dll_def)
qed

lemma scan_rep_shape: "same_shape q q' \<Longrightarrow> scan_rep q' rs fs = scan_rep q rs fs"
  using wf_que_rep_cong [of "sq_mem q'" "sq_mem q"] by (simp add: scan_rep_def same_shape_def)

lemma scan_out_shape: "same_shape q q' \<Longrightarrow> scan_out q' rs fs p = scan_out q rs fs p"
  by (simp add: scan_out_def same_shape_def)

lemma same_shape_simps [simp]:
  "same_shape q (set_node p n q)" "same_shape q (q\<lparr>sq_sema := s\<rparr>)" "same_shape q (q\<lparr>sq_read_cnt := c\<rparr>)" "same_shape q q"
  "same_shape q (scan_hold sw q)" "same_shape q (scan_visit p q)" "same_shape q (wlan_mgmt_scan_que_write_post q)"
  by (auto simp: same_shape_def scan_hold_def scan_visit_def wlan_mgmt_scan_que_write_post_def split: option.splits)

lemma same_shape_trans: "same_shape a b \<Longrightarrow> same_shape b c \<Longrightarrow> same_shape a c"
  by (simp add: same_shape_def)

lemma sq_node_ops [simp]:
  "sq_node (wf_enque p pos que m) = sq_node m" "sq_node (fst (wf_deque p que m)) = sq_node m" "sq_node (wf_enque_prev p pos que m) = sq_node m"
  "sq_node (wf_enque_tail p que m) = sq_node m" "sq_node (wf_enque_head p que m) = sq_node m" "sq_node (fst (wf_deque_head que m)) = sq_node m"
  "sq_node (wf_que_init que m) = sq_node m"
  by (simp_all add: wf_enque_def wf_deque_def wf_enque_prev_def wf_enque_tail_def wf_enque_head_def wf_enque_next_def wf_deque_head_def wf_que_init_def wf_list_defs Let_def)

lemma scan_rep_simps [simp]:
  "scan_rep (set_node p n q) rs fs = scan_rep q rs fs" "scan_out (set_node p n q) rs fs r = scan_out q rs fs r"
  "scan_rep (q\<lparr>sq_sema := s\<rparr>) rs fs = scan_rep q rs fs" "scan_rep (q\<lparr>sq_read_cnt := c\<rparr>) rs fs = scan_rep q rs fs"
  "scan_rep (scan_hold sw q) rs fs = scan_rep q rs fs" "scan_out (scan_hold sw q) rs fs r = scan_out q rs fs r"
  "scan_rep (scan_visit p q) rs fs = scan_rep q rs fs" "scan_rep (wlan_mgmt_scan_que_write_post q) rs fs = scan_rep q rs fs"
  by (rule scan_rep_shape scan_out_shape, rule same_shape_simps)+

section \<open>Moving entries\<close>

lemma scan_back_rep:
  assumes "scan_rep q rs fs" "scan_out q rs fs p"
  shows "scan_rep (scan_back p q) rs (p # fs)"
proof -
  let ?m = "wf_enque p (last (sq_free q # [])) (sq_free q) (sq_mem q)"
  have e: "scan_back p q = q\<lparr>sq_mem := ?m\<rparr>" by (simp add: scan_back_def wf_enque_head_def wf_enque_next_def wf_que_list_head_def)
  have r: "wf_que_rep (sq_mem q) (sq_free q) ([] @ fs)" "wf_que_rep (sq_mem q) (sq_ready q) rs" using assms(1) by (simp_all add: scan_rep_def)
  have "wf_que_rep ?m (sq_free q) ([] @ p # fs)" using r(1) assms(2) by (intro que.enq_rep) (auto simp: scan_out_def)
  moreover have "wf_que_rep ?m (sq_ready q) rs" using r assms by (intro que.enq_frame [of _ _ "[]" fs]) (auto simp: scan_rep_def scan_out_def)
  ultimately show ?thesis using assms by (auto simp: e scan_rep_def scan_out_def)
qed

lemma scan_to_free_rep:
  assumes "scan_rep q (us @ p # vs) fs"
  shows "scan_rep (scan_to_free p q) (us @ vs) (fs @ [p])"
proof -
  let ?m = "wf_enque p (last (sq_free q # fs)) (sq_free q) (fst (wf_deque p (sq_ready q) (sq_mem q)))"
  have r: "wf_que_rep (sq_mem q) (sq_ready q) (us @ p # vs)" "wf_que_rep (sq_mem q) (sq_free q) (fs @ [])"
    "insert (sq_ready q) (set (us @ p # vs)) \<inter> insert (sq_free q) (set (fs @ [])) = {}" using assms by (simp_all add: scan_rep_def)
  note mv = que.move_rep [OF r]
  have "wf_que_rep (fst (wf_deque p (sq_ready q) (sq_mem q))) (sq_free q) (fs @ [])"
    by (rule que.deq_frame [OF r(1) _ r(2,3)]) simp
  from wf_enque_prev_eq [OF this, of p] have "wf_enque_tail p (sq_free q) (fst (wf_deque p (sq_ready q) (sq_mem q))) = ?m"
    by (simp add: wf_enque_tail_def wf_que_list_head_def)
  then have e: "scan_to_free p q = q\<lparr>sq_mem := ?m\<rparr>" by (simp add: scan_to_free_def)
  have "p \<notin> set (us @ vs)" "p \<noteq> sq_ready q" using que.rep_distinct [OF r(1)] by auto
  then show ?thesis using mv r(3) by (auto simp: e scan_rep_def)
qed

lemma scan_new_rep:
  assumes "scan_rep q rs (p # fs)"
  obtains q1 where "wlan_mgmt_scan_que_node_new q = (q1, 0, Some p)" "scan_rep q1 rs fs" "scan_out q1 rs fs p"
    "sq_node (sq_mem q1) = (sq_node (sq_mem q))(p := scan_node_zero)" "sq_read_cnt q1 = sq_read_cnt q" "sq_sema q1 = sq_sema q"
    "sq_ready q1 = sq_ready q" "sq_free q1 = sq_free q"
proof -
  have r: "wf_que_rep (sq_mem q) (sq_free q) ([] @ p # fs)" "wf_que_rep (sq_mem q) (sq_ready q) rs"
    "insert (sq_free q) (set ([] @ p # fs)) \<inter> insert (sq_ready q) (set rs) = {}" using assms by (auto simp: scan_rep_def)
  let ?m = "fst (wf_deque p (sq_free q) (sq_mem q))"
  have d: "wf_deque_head (sq_free q) (sq_mem q) = (?m, Some p)"
    using wf_deque_head_eq [of "sq_mem q" "sq_free q" p fs] que.deq_result [OF r(1)] r(1) by (simp add: prod_eq_iff)
  have r1: "wf_que_rep ?m (sq_free q) fs" "wf_que_rep ?m (sq_ready q) rs"
    using que.deq_rep [OF r(1)] que.deq_frame [OF r(1) _ r(2,3)] by auto
  have o: "p \<notin> insert (sq_ready q) (set rs)" "p \<notin> insert (sq_free q) (set fs)" using r(3) que.rep_distinct [OF r(1)] by auto
  let ?q = "scan_memset p (q\<lparr>sq_mem := ?m\<rparr>)"
  have keep: "wf_que_rep (sq_mem ?q) que xs" if "wf_que_rep ?m que xs" "p \<notin> insert que (set xs)" for que xs
  proof -
    have "dll (set_pnext p 0 (set_prev p 0 ?m)) que xs" by (rule dll_frame [of ?m]) (use that in \<open>auto simp: wf_que_rep_def\<close>)
    then have "wf_que_rep (set_pnext p 0 (set_prev p 0 ?m)) que xs" using that(1) by (simp add: wf_que_rep_def)
    then show ?thesis using wf_que_rep_cong [of "sq_mem ?q" "set_pnext p 0 (set_prev p 0 ?m)"] by (simp add: scan_memset_def)
  qed
  show thesis
  proof (rule that)
    show "wlan_mgmt_scan_que_node_new q = (?q, 0, Some p)" by (simp add: wlan_mgmt_scan_que_node_new_def d)
    show "scan_rep ?q rs fs" using keep [OF r1(1) o(2)] keep [OF r1(2) o(1)] r(3) o by (auto simp: scan_rep_def scan_memset_def)
    show "scan_out ?q rs fs p" using o by (simp add: scan_out_def scan_memset_def)
  qed (simp_all add: scan_memset_def)
qed

lemma scan_new_empty: "scan_rep q rs [] \<Longrightarrow> wlan_mgmt_scan_que_node_new q = (q, -1, None)"
  using wf_que_rep_list_is_empty [of "sq_mem q" "sq_free q" "[]"]
  by (simp add: scan_rep_def wlan_mgmt_scan_que_node_new_def wf_deque_head_def wf_que_list_head_def)

text \<open>The place of a new entry: before the first weaker one.\<close>

definition weaker :: "scan_que \<Rightarrow> scan_node \<Rightarrow> ptr \<Rightarrow> bool" where
  "weaker q n r \<longleftrightarrow> sn_strength (node_at q r) < sn_strength n"

definition same_bss :: "scan_que \<Rightarrow> scan_node \<Rightarrow> ptr \<Rightarrow> bool" where
  "same_bss q n r \<longleftrightarrow> sn_bssid (node_at q r) = sn_bssid n"

definition put_before :: "(ptr \<Rightarrow> bool) \<Rightarrow> ptr \<Rightarrow> ptr list \<Rightarrow> ptr list" where
  "put_before P p rs = takeWhile (\<lambda>r. \<not> P r) rs @ p # dropWhile (\<lambda>r. \<not> P r) rs"

lemma find_dropWhile: "List.find P rs = (case dropWhile (\<lambda>r. \<not> P r) rs of [] \<Rightarrow> None | r # _ \<Rightarrow> Some r)"
  by (induction rs) auto

lemma set_put_before [simp]: "set (put_before P p rs) = insert p (set rs)"
proof -
  have "set (takeWhile (\<lambda>r. \<not> P r) rs) \<union> set (dropWhile (\<lambda>r. \<not> P r) rs) = set rs" by (metis set_append takeWhile_dropWhile_id)
  then show ?thesis by (auto simp: put_before_def)
qed

lemma length_put_before [simp]: "length (put_before P p rs) = Suc (length rs)"
proof -
  have "length (takeWhile (\<lambda>r. \<not> P r) rs) + length (dropWhile (\<lambda>r. \<not> P r) rs) = length rs" by (metis length_append takeWhile_dropWhile_id)
  then show ?thesis by (simp add: put_before_def)
qed

lemma scan_enque_rep:
  assumes "scan_rep q rs fs" "scan_out q rs fs p"
  shows "scan_rep (q\<lparr>sq_mem := (case List.find P rs of None \<Rightarrow> wf_enque_tail p (sq_ready q) (sq_mem q)
                                | Some i \<Rightarrow> wf_enque_prev p i (sq_ready q) (sq_mem q))\<rparr>) (put_before P p rs) fs"
proof -
  let ?us = "takeWhile (\<lambda>r. \<not> P r) rs" and ?vs = "dropWhile (\<lambda>r. \<not> P r) rs"
  have s: "rs = ?us @ ?vs" by simp
  have r: "wf_que_rep (sq_mem q) (sq_ready q) (?us @ ?vs)" "wf_que_rep (sq_mem q) (sq_free q) fs" using assms(1) by (simp_all add: scan_rep_def)
  let ?m = "wf_enque p (last (sq_ready q # ?us)) (sq_ready q) (sq_mem q)"
  have "(case List.find P rs of None \<Rightarrow> wf_enque_tail p (sq_ready q) (sq_mem q) | Some i \<Rightarrow> wf_enque_prev p i (sq_ready q) (sq_mem q)) =
      wf_enque_prev p (hd (?vs @ [sq_ready q])) (sq_ready q) (sq_mem q)"
    unfolding find_dropWhile
    by (cases ?vs) (simp_all only: list.case option.case append.simps list.sel wf_enque_tail_def wf_que_list_head_def)
  also have "\<dots> = ?m" by (rule wf_enque_prev_eq [OF r(1)])
  finally have e: "(case List.find P rs of None \<Rightarrow> wf_enque_tail p (sq_ready q) (sq_mem q) | Some i \<Rightarrow> wf_enque_prev p i (sq_ready q) (sq_mem q)) = ?m" .
  have "wf_que_rep ?m (sq_ready q) (?us @ p # ?vs)"
    by (rule que.enq_rep [OF r(1)]) (use assms(2) in \<open>simp add: scan_out_def flip: s\<close>)
  moreover have "wf_que_rep ?m (sq_free q) fs"
    by (rule que.enq_frame [OF r]) (use assms in \<open>simp_all add: scan_rep_def scan_out_def flip: s\<close>)
  moreover have "insert (sq_ready q) (set (put_before P p rs)) \<inter> insert (sq_free q) (set fs) = {}"
    using assms by (auto simp: scan_rep_def scan_out_def)
  ultimately show ?thesis unfolding e by (simp add: scan_rep_def put_before_def)
qed

section \<open>Finding the place\<close>

lemma scan_push_find_seg:
  assumes "dll m head (us @ vs)" "pos = hd (vs @ [head])" "sw = None \<or> ins = None"
  shows "scan_push_find m head new pos sw ins =
    Some (case sw of None \<Rightarrow> List.find (\<lambda>r. sn_bssid (sq_node m r) = sn_bssid new) vs | Some s \<Rightarrow> Some s,
          case ins of None \<Rightarrow> List.find (\<lambda>r. sn_strength (sq_node m r) < sn_strength new) vs | Some i \<Rightarrow> Some i)"
  using assms
proof (induction vs arbitrary: us pos sw ins)
  case Nil
  then show ?case by (subst scan_push_find.simps) (auto split: option.splits)
next
  case (Cons v vs)
  have v: "pos = v" "v \<noteq> head" "pnext m v = hd (vs @ [head])"
    using Cons.prems(1,2) dll_next_node [OF Cons.prems(1)] by (auto simp: dll_def)
  let ?sw = "if sw = None \<and> sn_bssid new = sn_bssid (sq_node m v) then Some v else sw"
  let ?ins = "if ins = None \<and> sn_strength (sq_node m v) < sn_strength new then Some v else ins"
  have step: "scan_push_find m head new pos sw ins = (if ?sw \<noteq> None \<and> ?ins \<noteq> None then Some (?sw, ?ins) else scan_push_find m head new (pnext m v) ?sw ?ins)"
    unfolding v(1) by (subst scan_push_find.simps) (simp only: v(2) if_False Let_def)
  show ?case
  proof (cases "?sw \<noteq> None \<and> ?ins \<noteq> None")
    case True
    then show ?thesis unfolding step using Cons.prems(3) by (auto split: option.splits if_splits)
  next
    case False
    have d: "dll m head ((us @ [v]) @ vs)" using Cons.prems(1) by simp
    have f: "?sw = None \<or> ?ins = None" using False by blast
    show ?thesis unfolding step if_not_P [OF False] Cons.IH [OF d v(3) f] by (auto split: option.splits)
  qed
qed

lemma scan_push_find_result:
  assumes "scan_rep q rs fs"
  shows "scan_push_find (sq_mem q) (sq_ready q) new (pnext (sq_mem q) (sq_ready q)) None None = Some (List.find (same_bss q new) rs, List.find (weaker q new) rs)"
proof -
  have d: "dll (sq_mem q) (sq_ready q) ([] @ rs)" using assms by (simp add: scan_rep_def wf_que_rep_def)
  have "pnext (sq_mem q) (sq_ready q) = hd (rs @ [sq_ready q])" using dll_next d by fastforce
  from scan_push_find_seg [OF d this, of None None new] show ?thesis by (simp add: same_bss_def [abs_def] weaker_def [abs_def])
qed

section \<open>The effect of a push\<close>

text \<open>The node that leaves: the one with the same BSSID, else the last one when none is free.\<close>

definition leaves :: "scan_que \<Rightarrow> scan_node \<Rightarrow> ptr list \<Rightarrow> ptr list \<Rightarrow> ptr option" where
  "leaves q n rs fs = (case List.find (same_bss q n) rs of Some s \<Rightarrow> Some s | None \<Rightarrow> if fs = [] then Some (last rs) else None)"

definition drop_node :: "ptr option \<Rightarrow> ptr list \<Rightarrow> ptr list" where
  "drop_node s rs = (case s of None \<Rightarrow> rs | Some p \<Rightarrow> remove1 p rs)"

lemma scan_insert_rep:
  fixes env :: scan_env and P :: "ptr \<Rightarrow> bool"
  assumes "scan_rep q rs fs" "scan_out q rs fs p" "\<forall>s. sw = Some s \<longrightarrow> s \<in> set rs"
  defines "q' \<equiv> scan_insert env p (List.find P rs) sw q"
  shows "scan_rep q' (drop_node sw (put_before P p rs)) (fs @ (case sw of None \<Rightarrow> [] | Some s \<Rightarrow> [s]))"
    "sq_node (sq_mem q') = (sq_node (sq_mem q))(p := (node_at q p)\<lparr>sn_ttl := ucast (se_ttl env) OR push_bit 24 5\<rparr>)"
    "sq_read_cnt q' = sq_read_cnt q" "sq_sema q' = sq_sema q" "sq_ready q' = sq_ready q" "sq_free q' = sq_free q"
proof -
  let ?q1 = "set_node p ((node_at q p)\<lparr>sn_ttl := ucast (se_ttl env) OR push_bit 24 5\<rparr>) q"
  let ?q2 = "?q1\<lparr>sq_mem := (case List.find P rs of None \<Rightarrow> wf_enque_tail p (sq_ready ?q1) (sq_mem ?q1) | Some i \<Rightarrow> wf_enque_prev p i (sq_ready ?q1) (sq_mem ?q1))\<rparr>"
  have "scan_rep ?q1 rs fs" "scan_out ?q1 rs fs p" using assms(1,2) by simp_all
  then have r2: "scan_rep ?q2 (put_before P p rs) fs" by (rule scan_enque_rep)
  have e: "q' = (case sw of None \<Rightarrow> ?q2 | Some s \<Rightarrow> scan_to_free s ?q2)" unfolding q'_def scan_insert_def Let_def ..
  have n2: "sq_node (sq_mem ?q2) = (sq_node (sq_mem q))(p := (node_at q p)\<lparr>sn_ttl := ucast (se_ttl env) OR push_bit 24 5\<rparr>)"
    by (simp split: option.splits)
  show "scan_rep q' (drop_node sw (put_before P p rs)) (fs @ (case sw of None \<Rightarrow> [] | Some s \<Rightarrow> [s]))"
  proof (cases sw)
    case None
    then show ?thesis using r2 unfolding e drop_node_def by simp
  next
    case (Some s)
    then have "s \<in> set (put_before P p rs)" using assms(3) by simp
    then obtain us vs where s: "put_before P p rs = us @ s # vs" "s \<notin> set us" using split_list_first by metis
    then have "scan_rep (scan_to_free s ?q2) (us @ vs) (fs @ [s])" using r2 by (intro scan_to_free_rep) (simp only: s)
    moreover have "remove1 s (us @ s # vs) = us @ vs" using s(2) by (simp add: remove1_append)
    ultimately show ?thesis unfolding e drop_node_def s(1) Some by simp
  qed
  show "sq_node (sq_mem q') = (sq_node (sq_mem q))(p := (node_at q p)\<lparr>sn_ttl := ucast (se_ttl env) OR push_bit 24 5\<rparr>)"
    "sq_read_cnt q' = sq_read_cnt q" "sq_sema q' = sq_sema q" "sq_ready q' = sq_ready q" "sq_free q' = sq_free q"
    unfolding e using n2 by (simp_all add: scan_to_free_def split: option.splits)
qed

end
