(* ===== verification/Scan_Flush.thy ===== *)
theory Scan_Flush
  imports Scan_Order
begin

text \<open>
  Flushing the scan queue (\<open>wlan_mgmt_scan_que_node_flush\<close> in \<open>Scan_Que\<close>) never ends: every test of its loop takes an entry out of \<open>ready\<close> and
  compares it with an entry that was taken out before.
\<close>

text \<open>\<open>out\<close>: the addresses that links from outside \<open>ready\<close> lead to, the head of \<open>free\<close> among them.\<close>

definition flush_inv :: "scan_que \<Rightarrow> ptr list \<Rightarrow> ptr set \<Rightarrow> bool" where
  "flush_inv q rs out \<longleftrightarrow> dll (sq_mem q) (sq_ready q) rs \<and> out \<inter> insert (sq_ready q) (set rs) = {} \<and> sq_free q \<in> out \<and>
     (\<forall>x\<in>out. pnext (sq_mem q) x \<in> out \<and> prev (sq_mem q) x \<in> out)"

lemma flush_inv_links: "flush_inv q rs out \<Longrightarrow> x \<in> out \<Longrightarrow> pnext (sq_mem q) x \<in> out \<and> prev (sq_mem q) x \<in> out"
  by (simp add: flush_inv_def)

text \<open>Changes of links inside \<open>out\<close>.\<close>

lemma flush_inv_inside:
  assumes "flush_inv q rs out" "\<And>x. x \<notin> out \<Longrightarrow> pnext m x = pnext (sq_mem q) x \<and> prev m x = prev (sq_mem q) x"
    "\<And>x. x \<in> out \<Longrightarrow> pnext m x \<in> out \<and> prev m x \<in> out"
  shows "flush_inv (q\<lparr>sq_mem := m\<rparr>) rs out"
proof -
  have "dll m (sq_ready q) rs"
    by (rule dll_frame [of "sq_mem q"]) (use assms in \<open>auto simp: flush_inv_def\<close>)
  then show ?thesis using assms(1,3) by (simp add: flush_inv_def)
qed

lemma flush_to_free:
  assumes "flush_inv q rs out" "p \<in> out"
  shows "flush_inv (scan_to_free p q) rs out"
proof -
  note l = flush_inv_links [OF assms(1)]
  let ?m = "fst (wf_deque p (sq_ready q) (sq_mem q))"
  have i: "flush_inv (q\<lparr>sq_mem := ?m\<rparr>) rs out"
    by (rule flush_inv_inside [OF assms(1)]) (use l [OF assms(2)] l assms(2) in \<open>auto simp: wf_deque_def wf_list_defs\<close>)
  have f: "sq_free q \<in> out" using assms(1) by (simp add: flush_inv_def)
  note l' = flush_inv_links [OF i, simplified]
  let ?m' = "wf_enque_tail p (sq_free q) ?m"
  have "flush_inv (q\<lparr>sq_mem := ?m, sq_mem := ?m'\<rparr>) rs out"
    by (rule flush_inv_inside [OF i])
      (use l' [OF f] l' assms(2) f in \<open>auto simp: wf_enque_tail_def wf_enque_prev_def wf_que_list_head_def wf_list_defs Let_def\<close>)
  then show ?thesis by (simp add: scan_to_free_def)
qed

lemma flush_node_inv: "flush_inv q rs out \<Longrightarrow> p \<in> out \<Longrightarrow> flush_inv (flush_node env p q) rs out"
  by (simp add: flush_node_def flush_to_free)

text \<open>A test: the entry that is taken out is none that is out already.\<close>

lemma flush_test:
  assumes "flush_inv q rs out" "wf_deque_head (sq_ready q) (sq_mem q) = (m, h)"
  shows "h \<notin> Some ` out" "\<exists>rs' out'. flush_inv (q\<lparr>sq_mem := m\<rparr>) rs' out' \<and> out \<subseteq> out' \<and> (\<forall>r. h = Some r \<longrightarrow> r \<in> out')"
proof -
  have d: "dll (sq_mem q) (sq_ready q) rs" using assms(1) by (simp add: flush_inv_def)
  note e = dll_is_empty_iff [OF d]
  have "h \<notin> Some ` out \<and> (\<exists>rs' out'. flush_inv (q\<lparr>sq_mem := m\<rparr>) rs' out' \<and> out \<subseteq> out' \<and> (\<forall>r. h = Some r \<longrightarrow> r \<in> out'))"
  proof (cases rs)
    case Nil
    then have "m = sq_mem q" "h = None" using assms(2) e by (auto simp: wf_deque_head_def wf_que_list_head_def)
    then show ?thesis using assms(1) by auto
  next
    case (Cons r rs')
    have n: "pnext (sq_mem q) (sq_ready q) = r" using dll_next [OF d] Cons by simp
    have m: "m = add_cnt (sq_ready q) (-1) (wf_list_delete r (sq_mem q))" "h = Some r"
      using assms(2) e Cons n by (auto simp: wf_deque_head_def wf_que_list_head_def wf_list_next_def Let_def)
    have r: "r \<notin> out" "insert r (set rs') \<inter> out = {}" using assms(1) Cons by (auto simp: flush_inv_def)
    have near: "pnext (sq_mem q) r \<notin> out" "prev (sq_mem q) r \<notin> out"
      using dll_mem_next [OF d, of r] dll_mem_prev [OF d, of r] assms(1) Cons by (auto simp: flush_inv_def)
    have "dll (wf_list_delete r (sq_mem q)) (sq_ready q) ([] @ rs')" by (rule dll_delete) (use d Cons in simp)
    then have d': "dll m (sq_ready q) rs'" by (simp add: m)
    have self: "pnext m r = r" "prev m r = r" by (simp_all add: m wf_list_defs)
    have keep: "x \<in> out \<Longrightarrow> pnext m x = pnext (sq_mem q) x \<and> prev m x = prev (sq_mem q) x" for x
      using near r(1) by (auto simp: m wf_list_defs)
    have "r \<noteq> sq_ready q" "r \<notin> set rs'" using d Cons by (auto simp: dll_def)
    then have "flush_inv (q\<lparr>sq_mem := m\<rparr>) rs' (insert r out)"
      using d' self keep assms(1) Cons by (auto simp: flush_inv_def)
    then show ?thesis using r(1) m(2) by auto
  qed
  then show "h \<notin> Some ` out" "\<exists>rs' out'. flush_inv (q\<lparr>sq_mem := m\<rparr>) rs' out' \<and> out \<subseteq> out' \<and> (\<forall>r. h = Some r \<longrightarrow> r \<in> out')" by simp_all
qed

lemma flush_loop_never:
  assumes "flush_inv q rs out" "pos \<in> out" "n \<in> out"
  shows "flush_loop env q pos n = None"
proof (rule ccontr)
  assume "flush_loop env q pos n \<noteq> None"
  then obtain y where y: "flush_loop env q pos n = Some y" by blast
  have "\<nexists>rs out. flush_inv q rs out \<and> pos \<in> out \<and> n \<in> out"
  proof (rule flush_loop.raw_induct [where P = "\<lambda>env q pos n y. \<nexists>rs out. flush_inv q rs out \<and> pos \<in> out \<and> n \<in> out", OF _ y], goal_cases)
    case (1 loop env q pos n y)
    show ?case
    proof (rule notI, elim exE conjE)
      fix rs out
      assume i: "flush_inv q rs out" "pos \<in> out" "n \<in> out"
      obtain m h where d: "wf_deque_head (sq_ready q) (sq_mem q) = (m, h)" by fastforce
      let ?q1 = "q\<lparr>sq_mem := m\<rparr>"
      obtain rs' out' where o: "flush_inv ?q1 rs' out'" "out \<subseteq> out'" using flush_test(2) [OF i(1) d] by blast
      have "h \<noteq> Some pos" using flush_test(1) [OF i(1) d] i(2) by blast
      then have l: "loop env (flush_node env pos ?q1) n (pnext (sq_mem (flush_node env pos ?q1)) n) = Some y"
        using 1(2) d by (simp add: Let_def)
      have f: "flush_inv (flush_node env pos ?q1) rs' out'" using o i(2) by (intro flush_node_inv) auto
      then show False using 1(1) [OF l] flush_inv_links [OF f, of n] i(3) o(2) by blast
    qed
  qed
  with assms show False by blast
qed

lemma flush_never:
  assumes "scan_rep q rs fs" "rs \<noteq> []" "0 < sq_sema q"
  shows "wlan_mgmt_scan_que_node_flush env q = None"
proof -
  let ?q = "q\<lparr>sq_sema := sq_sema q - 1\<rparr>"
  obtain r rs' where rs: "rs = r # rs'" using assms(2) by (cases rs) auto
  have d: "dll (sq_mem q) (sq_ready q) rs" "dll (sq_mem q) (sq_free q) fs" using assms(1) by (simp_all add: scan_rep_def wf_que_rep_def)
  have i: "flush_inv ?q rs (insert (sq_free q) (set fs))"
    using d(1) dll_mem_next [OF d(2)] dll_mem_prev [OF d(2)] assms(1) by (auto simp: flush_inv_def scan_rep_def)
  have n: "pnext (sq_mem q) (sq_ready q) = r" using dll_next [OF d(1)] rs by simp
  obtain m where h: "wf_deque_head (sq_ready q) (sq_mem q) = (m, Some r)" and m: "m = add_cnt (sq_ready q) (-1) (wf_list_delete r (sq_mem q))"
    using dll_is_empty_iff [OF d(1)] rs n by (simp add: wf_deque_head_def wf_que_list_head_def wf_list_next_def Let_def)
  have self: "pnext m r = r" by (simp add: m wf_list_defs)
  have e: "\<not> wf_que_is_empty (sq_ready q) (sq_mem q)"
    using dll_is_empty_iff [OF d(1)] assms(2) by (simp add: wf_que_is_empty_def wf_que_list_head_def)
  obtain rs2 out where o: "flush_inv (?q\<lparr>sq_mem := m\<rparr>) rs2 out" "r \<in> out"
    using flush_test(2) [OF i, of m "Some r"] h by auto
  then have "flush_loop env (?q\<lparr>sq_mem := m\<rparr>) r r = None" by (intro flush_loop_never)
  then show ?thesis using assms(3) e h self by (simp add: wlan_mgmt_scan_que_node_flush_def wlan_mgmt_scan_que_write_try_def Let_def)
qed

text \<open>(C39) Flushing the scan queue never returns: whenever a network has been found and no reader holds the queue, \<open>wlan_mgmt_scan_que_node_flush\<close>
  takes the semaphore and stays in its loop for ever, whatever is connected. The head that is given to the loop macro is a call that takes an entry out of the queue, so no test can
  succeed.\<close>

theorem scan_flush_hangs:
  assumes "scan_rep q rs fs" "rs \<noteq> []" "0 < sq_sema q"
  shows "wlan_mgmt_scan_que_node_flush env q = None"
  using assms by (rule flush_never)

text \<open>A queue with one network and no free entry.\<close>

definition one_entry :: "scan_node \<Rightarrow> scan_que" where
  "one_entry n = \<lparr>sq_mem = \<lparr>pnext = id(2 := 3, 3 := 2), prev = id(2 := 3, 3 := 2), cnt = (\<lambda>_. 0)(2 := 1), sq_node = \<lambda>_. n\<rparr>,
     sq_free = 1, sq_ready = 2, sq_read_cnt = 0, sq_sema = 1\<rparr>"

lemma one_entry_rep: "scan_rep (one_entry n) [3] []"
  by (simp add: one_entry_def scan_rep_def wf_que_rep_def dll_def)

lemma scan_flush_hangs_witness:
  "wlan_mgmt_scan_que_node_flush \<lparr>se_connected = False, se_bssid = [], se_ttl = 10, se_p2p = False\<rparr> (one_entry scan_node_zero) = None"
  by (rule scan_flush_hangs [OF one_entry_rep]) (simp_all add: one_entry_def)

text \<open>What does return has changed nothing.\<close>

lemma flush_returns:
  assumes "scan_rep q rs fs" "wlan_mgmt_scan_que_node_flush env q = Some (q', r)"
  shows "q' = q"
proof (cases "rs = [] \<or> sq_sema q = 0")
  case True
  then show ?thesis using assms wf_que_rep_is_empty [of "sq_mem q" "sq_ready q" rs]
    by (auto simp: scan_rep_def wlan_mgmt_scan_que_node_flush_def wlan_mgmt_scan_que_write_try_def split: if_splits)
next
  case False
  then show ?thesis using flush_never [OF assms(1), of env] assms(2) by simp
qed

lemma flush_returns_iff:
  assumes "scan_rep q rs fs"
  shows "wlan_mgmt_scan_que_node_flush env q \<noteq> None \<longleftrightarrow> rs = [] \<or> sq_sema q = 0"
proof (cases "rs = [] \<or> sq_sema q = 0")
  case True
  then show ?thesis using assms wf_que_rep_is_empty [of "sq_mem q" "sq_ready q" rs]
    by (auto simp: scan_rep_def wlan_mgmt_scan_que_node_flush_def wlan_mgmt_scan_que_write_try_def)
next
  case False
  then show ?thesis using flush_never [OF assms, of env] by simp
qed

end
