(* ===== verification/Scan_Inv.thy ===== *)
theory Scan_Inv
  imports Scan_Flush
begin

text \<open>
  Reachable states of the scan queue: the effect of a received frame, of ageing and of reading on the lists of entries (\<open>Scan_Order\<close>), the
  invariant of all interleavings of the handling thread with readers, and what a reader relies on.
\<close>

section \<open>A pushed entry\<close>

text \<open>Entries that differ in the time to live only.\<close>

definition same_nodes :: "scan_que \<Rightarrow> scan_que \<Rightarrow> ptr set \<Rightarrow> bool" where
  "same_nodes q q' A \<longleftrightarrow> (\<forall>p\<in>A. node_at q' p = (node_at q p)\<lparr>sn_ttl := sn_ttl (node_at q' p)\<rparr>)"

definition same_lock :: "scan_que \<Rightarrow> scan_que \<Rightarrow> bool" where
  "same_lock q q' \<longleftrightarrow> sq_read_cnt q' = sq_read_cnt q \<and> sq_sema q' = sq_sema q \<and> sq_ready q' = sq_ready q \<and> sq_free q' = sq_free q"

definition new_ttl :: "scan_env \<Rightarrow> u32" where
  "new_ttl env = ucast (se_ttl env) OR push_bit 24 5"

text \<open>Whether a push goes through: no probe response is held, a frame without signal strength replaces nothing, the network in use stays, and no reader is
  active.\<close>

definition push_ok :: "scan_env \<Rightarrow> bool \<Rightarrow> u16 \<Rightarrow> scan_node \<Rightarrow> ptr list \<Rightarrow> ptr list \<Rightarrow> scan_que \<Rightarrow> bool" where
  "push_ok env valid ft n rs fs q \<longleftrightarrow>
     \<not> scan_holds (List.find (same_bss q n) rs) ft q \<and>
     (valid \<or> fs \<noteq> [] \<and> List.find (same_bss q n) rs = None) \<and>
     (List.find (same_bss q n) rs = None \<and> fs = [] \<longrightarrow> \<not> is_bss_onlink env (sn_bssid (node_at q (last rs)))) \<and> 0 < sq_sema q"

lemma scan_victim_result:
  assumes "scan_rep q rs fs" "rs \<noteq> [] \<or> fs \<noteq> []"
  shows "scan_victim env (List.find (same_bss q n) rs) q =
    Some (leaves q n rs fs, List.find (same_bss q n) rs = None \<and> fs = [] \<and> is_bss_onlink env (sn_bssid (node_at q (last rs))))"
proof -
  have e: "wf_que_is_empty (sq_free q) (sq_mem q) \<longleftrightarrow> fs = []" using assms(1) by (auto simp: scan_rep_def dest: wf_que_rep_is_empty)
  have t: "rs \<noteq> [] \<Longrightarrow> wf_que_tail (sq_ready q) (sq_mem q) = Some (last rs)"
    using assms(1) wf_que_rep_tail [of "sq_mem q" "sq_ready q" rs] by (simp add: scan_rep_def)
  show ?thesis using e t assms(2) by (cases "List.find (same_bss q n) rs") (auto simp: scan_victim_def leaves_def)
qed

lemma push_result:
  assumes "scan_rep q rs fs" "scan_out q rs fs p" "rs \<noteq> [] \<or> fs \<noteq> []" "rd_le16 (fm_mgmt fm) 0 = Some fc"
  defines "n \<equiv> node_at q p"
  shows "\<exists>q' r. wlan_mgmt_scan_que_node_push env fm p q = Some (q', r) \<and> same_lock q q' \<and>
    (r = 0 \<longleftrightarrow> push_ok env (fm_phy_valid fm) (wf_80211_get_frame_type fc) n rs fs q) \<and>
    (r \<noteq> 0 \<longrightarrow> scan_rep q' rs fs \<and> scan_out q' rs fs p \<and> same_nodes q q' UNIV) \<and>
    (r = 0 \<longrightarrow> scan_rep q' (drop_node (leaves q n rs fs) (put_before (weaker q n) p rs)) (fs @ (case leaves q n rs fs of None \<Rightarrow> [] | Some s \<Rightarrow> [s])) \<and>
      sq_node (sq_mem q') = (sq_node (sq_mem q))(p := n\<lparr>sn_ttl := new_ttl env\<rparr>))"
proof -
  let ?sw = "List.find (same_bss q n) rs" and ?ft = "wf_80211_get_frame_type fc" and ?v = "fm_phy_valid fm"
  have e: "wf_que_is_empty (sq_free q) (sq_mem q) \<longleftrightarrow> fs = []" using assms(1) by (auto simp: scan_rep_def dest: wf_que_rep_is_empty)
  let ?on = "?sw = None \<and> fs = [] \<and> is_bss_onlink env (sn_bssid (node_at q (last rs)))"
  have eq: "wlan_mgmt_scan_que_node_push env fm p q =
     (if scan_holds ?sw ?ft q then Some (scan_hold ?sw q, -1)
      else if \<not> ?v \<and> fs = [] then Some (q, -2) else if \<not> ?v \<and> ?sw \<noteq> None then Some (q, -3) else if ?on then Some (q, -4)
      else case wlan_mgmt_scan_que_write_try q of (q1, False) \<Rightarrow> Some (q1, -5)
       | (q1, True) \<Rightarrow> Some (wlan_mgmt_scan_que_write_post (scan_insert env p (List.find (weaker q n) rs) (leaves q n rs fs) q1), 0))"
    unfolding wlan_mgmt_scan_que_node_push_def scan_push_find_result [OF assms(1)] assms(4) bind.bind_lunit prod.case n_def [symmetric] e
      scan_victim_result [OF assms(1,3)] ..
  have hold: "same_nodes q (scan_hold sw q) UNIV" "same_lock q (scan_hold sw q)" for sw
    by (auto simp: scan_hold_def same_nodes_def same_lock_def split: option.splits)
  have id: "same_nodes q q UNIV" "same_lock q q" by (simp_all add: same_nodes_def same_lock_def)
  show ?thesis
  proof (cases "push_ok env ?v ?ft n rs fs q")
    case False
    have "\<exists>q' r. wlan_mgmt_scan_que_node_push env fm p q = Some (q', r) \<and> r \<noteq> 0 \<and> same_lock q q' \<and> scan_rep q' rs fs \<and> scan_out q' rs fs p \<and> same_nodes q q' UNIV"
      using False hold id assms(1,2) unfolding eq by (auto simp: push_ok_def wlan_mgmt_scan_que_write_try_def)
    then show ?thesis using False by blast
  next
    case True
    let ?q1 = "q\<lparr>sq_sema := sq_sema q - 1\<rparr>"
    have p: "wlan_mgmt_scan_que_node_push env fm p q = Some (wlan_mgmt_scan_que_write_post (scan_insert env p (List.find (weaker q n) rs) (leaves q n rs fs) ?q1), 0)"
      using True unfolding eq by (auto simp: push_ok_def wlan_mgmt_scan_que_write_try_def)
    have l: "\<forall>s. leaves q n rs fs = Some s \<longrightarrow> s \<in> set rs" using assms(3) by (auto simp: leaves_def dest: find_SomeD split: option.splits if_splits)
    have r1: "scan_rep ?q1 rs fs" "scan_out ?q1 rs fs p" using assms(1,2) by (simp_all add: scan_out_def)
    note ins = scan_insert_rep [OF r1 l, of env "weaker q n"]
    show ?thesis unfolding p
      using ins True by (simp add: same_lock_def wlan_mgmt_scan_que_write_post_def push_ok_def new_ttl_def n_def)
  qed
qed

section \<open>Order and uniqueness\<close>

definition scan_sorted :: "scan_que \<Rightarrow> ptr list \<Rightarrow> bool" where
  "scan_sorted q rs \<longleftrightarrow> sorted_wrt (\<lambda>a b. sn_strength (node_at q b) \<le> sn_strength (node_at q a)) rs"

definition scan_unique :: "scan_que \<Rightarrow> ptr list \<Rightarrow> bool" where
  "scan_unique q rs \<longleftrightarrow> distinct (map (\<lambda>r. sn_bssid (node_at q r)) rs)"

lemma same_nodes_members:
  "same_nodes q q' A \<Longrightarrow> p \<in> A \<Longrightarrow> sn_strength (node_at q' p) = sn_strength (node_at q p) \<and> sn_bssid (node_at q' p) = sn_bssid (node_at q p)"
  unfolding same_nodes_def by (metis scan_node.select_convs(3) scan_node.select_convs(6) scan_node.surjective scan_node.update_convs(1))

lemma scan_order_cong:
  assumes "\<forall>p\<in>set rs. sn_strength (node_at q' p) = sn_strength (node_at q p) \<and> sn_bssid (node_at q' p) = sn_bssid (node_at q p)"
  shows "scan_sorted q' rs = scan_sorted q rs" "scan_unique q' rs = scan_unique q rs"
proof -
  show "scan_sorted q' rs = scan_sorted q rs" unfolding scan_sorted_def using assms by (induction rs) auto
  have "map (\<lambda>r. sn_bssid (node_at q' r)) rs = map (\<lambda>r. sn_bssid (node_at q r)) rs" using assms by simp
  then show "scan_unique q' rs = scan_unique q rs" by (simp only: scan_unique_def)
qed

lemma sorted_put_before:
  assumes "scan_sorted q rs" "p \<notin> set rs" "\<forall>r\<in>set rs. node_at q' r = node_at q r" "sn_strength (node_at q' p) = sn_strength n"
  shows "scan_sorted q' (put_before (weaker q n) p rs)"
proof -
  let ?us = "takeWhile (\<lambda>r. \<not> weaker q n r) rs" and ?vs = "dropWhile (\<lambda>r. \<not> weaker q n r) rs"
  have s: "rs = ?us @ ?vs" by simp
  have m: "set ?us \<subseteq> set rs" "set ?vs \<subseteq> set rs" by (auto dest: set_takeWhileD set_dropWhileD)
  have so: "scan_sorted q' (?us @ ?vs)" using assms(1,3) scan_order_cong(1) [of rs q' q] by simp
  have us: "\<forall>u\<in>set ?us. sn_strength n \<le> sn_strength (node_at q u)" by (auto simp: weaker_def not_less dest: set_takeWhileD)
  have vs: "\<forall>v\<in>set ?vs. sn_strength (node_at q v) \<le> sn_strength n"
  proof (cases ?vs)
    case Nil
    show ?thesis unfolding Nil by simp
  next
    case (Cons w ws)
    then have "weaker q n w" using hd_dropWhile [of "\<lambda>r. \<not> weaker q n r" rs] by auto
    moreover have "\<forall>v\<in>set ws. sn_strength (node_at q v) \<le> sn_strength (node_at q w)"
      using assms(1) s Cons unfolding scan_sorted_def by (metis sorted_wrt_append sorted_wrt.simps(2))
    ultimately show ?thesis unfolding Cons by (auto simp: weaker_def)
  qed
  have "\<forall>u\<in>set ?us. sn_strength n \<le> sn_strength (node_at q' u)" "\<forall>v\<in>set ?vs. sn_strength (node_at q' v) \<le> sn_strength n"
    using us vs m assms(3) by auto
  moreover note so [unfolded scan_sorted_def sorted_wrt_append]
  ultimately show ?thesis using assms(4) unfolding put_before_def scan_sorted_def sorted_wrt_append by simp
qed

lemma drop_node_props:
  assumes "distinct rs"
  shows "scan_sorted q rs \<Longrightarrow> scan_sorted q (drop_node s rs)" "set (drop_node s rs) = set rs - (case s of None \<Rightarrow> {} | Some p \<Rightarrow> {p})"
    "distinct (drop_node s rs)"
proof -
  show "scan_sorted q rs \<Longrightarrow> scan_sorted q (drop_node s rs)"
  proof (cases s)
    case (Some p)
    assume so: "scan_sorted q rs"
    show ?thesis
    proof (cases "p \<in> set rs")
      case True
      then obtain us vs where "rs = us @ p # vs" "p \<notin> set us" using split_list_first by metis
      then show ?thesis using so Some by (auto simp: drop_node_def scan_sorted_def sorted_wrt_append remove1_append)
    qed (use so Some in \<open>simp add: drop_node_def remove1_idem\<close>)
  qed (simp add: drop_node_def)
  show "set (drop_node s rs) = set rs - (case s of None \<Rightarrow> {} | Some p \<Rightarrow> {p})" "distinct (drop_node s rs)"
    using assms by (auto simp: drop_node_def split: option.splits)
qed

lemma unique_iff: "scan_unique q rs \<longleftrightarrow> distinct rs \<and> (\<forall>a\<in>set rs. \<forall>b\<in>set rs. sn_bssid (node_at q a) = sn_bssid (node_at q b) \<longrightarrow> a = b)"
  by (auto simp: scan_unique_def distinct_map inj_on_def)

lemma distinct_put_before: "distinct rs \<Longrightarrow> p \<notin> set rs \<Longrightarrow> distinct (put_before P p rs)"
proof -
  assume d: "distinct rs" and p: "p \<notin> set rs"
  have "distinct (takeWhile (\<lambda>r. \<not> P r) rs @ dropWhile (\<lambda>r. \<not> P r) rs)" using d by simp
  moreover have "p \<notin> set (takeWhile (\<lambda>r. \<not> P r) rs)" "p \<notin> set (dropWhile (\<lambda>r. \<not> P r) rs)" using p by (auto dest: set_takeWhileD set_dropWhileD)
  ultimately show ?thesis unfolding put_before_def distinct_append by simp
qed

lemma unique_push:
  assumes "scan_unique q rs" "p \<notin> set rs" "\<forall>r\<in>set rs. node_at q' r = node_at q r" "sn_bssid (node_at q' p) = sn_bssid n"
  shows "scan_unique q' (drop_node (leaves q n rs fs) (put_before (weaker q n) p rs))"
proof -
  let ?rs = "put_before (weaker q n) p rs"
  have d: "distinct ?rs" using assms(1,2) by (intro distinct_put_before) (simp_all add: unique_iff)
  have other: "r \<in> set (drop_node (leaves q n rs fs) ?rs) \<Longrightarrow> r \<noteq> p \<Longrightarrow> r \<in> set rs \<and> \<not> same_bss q n r" for r
  proof -
    assume r: "r \<in> set (drop_node (leaves q n rs fs) ?rs)" "r \<noteq> p"
    then have rs: "r \<in> set rs" "leaves q n rs fs \<noteq> Some r" unfolding drop_node_props(2) [OF d] by auto
    have "\<not> same_bss q n r"
    proof
      assume same: "same_bss q n r"
      then obtain s where s: "List.find (same_bss q n) rs = Some s" using rs(1) by (cases "List.find (same_bss q n) rs") (auto simp: find_None_iff)
      then have "s = r" using find_SomeD [OF s] same rs(1) assms(1) unfolding unique_iff same_bss_def by metis
      with s rs(2) show False by (simp add: leaves_def)
    qed
    with rs(1) show "r \<in> set rs \<and> \<not> same_bss q n r" by simp
  qed
  have "a = b" if "a \<in> set (drop_node (leaves q n rs fs) ?rs)" "b \<in> set (drop_node (leaves q n rs fs) ?rs)" "sn_bssid (node_at q' a) = sn_bssid (node_at q' b)" for a b
    using other [OF that(1)] other [OF that(2)] that(3) assms(1,3,4) unfolding unique_iff same_bss_def by (cases "a = p"; cases "b = p") auto
  then show ?thesis unfolding unique_iff using drop_node_props(3) [OF d] by blast
qed

section \<open>A received frame\<close>

definition scan_good :: "scan_que \<Rightarrow> ptr list \<Rightarrow> ptr list \<Rightarrow> bool" where
  "scan_good q rs fs \<longleftrightarrow> scan_rep q rs fs \<and> scan_sorted q rs \<and> scan_unique q rs"

lemma scan_good_keep:
  assumes "scan_good q rs fs" "scan_rep q' rs fs'" "same_nodes q q' (set rs)"
  shows "scan_good q' rs fs'"
  using assms scan_order_cong [of rs q' q] same_nodes_members [OF assms(3)] by (simp add: scan_good_def)

lemma length_drop_node: "s = None \<or> (\<exists>p. s = Some p \<and> p \<in> set rs) \<Longrightarrow> length (drop_node s rs) + (case s of None \<Rightarrow> 0 | Some _ \<Rightarrow> 1) = length rs"
  by (cases s) (auto simp: drop_node_def length_remove1, metis Suc_pred length_pos_if_in_set)

lemma push_good:
  assumes "scan_good q rs fs" "scan_out q rs fs p" "rs \<noteq> [] \<or> fs \<noteq> []" "rd_le16 (fm_mgmt fm) 0 = Some fc"
    "wlan_mgmt_scan_que_node_push env fm p q = Some (q', r)"
  shows "if r \<noteq> 0 then scan_good q' rs fs \<and> scan_out q' rs fs p \<and> same_lock q q' \<and> same_nodes q q' (set rs)
    else \<exists>rs' fs'. scan_good q' rs' fs' \<and> length rs' + length fs' = Suc (length rs + length fs) \<and> fs' \<noteq> [] \<and> same_lock q q' \<and> 0 < sq_sema q"
proof -
  have rep: "scan_rep q rs fs" and so: "scan_sorted q rs" "scan_unique q rs" using assms(1) by (simp_all add: scan_good_def)
  let ?n = "node_at q p" and ?l = "leaves q (node_at q p) rs fs"
  obtain q2 r2 where p: "wlan_mgmt_scan_que_node_push env fm p q = Some (q2, r2)" "same_lock q q2"
    "r2 = 0 \<longleftrightarrow> push_ok env (fm_phy_valid fm) (wf_80211_get_frame_type fc) ?n rs fs q"
    "r2 \<noteq> 0 \<longrightarrow> scan_rep q2 rs fs \<and> scan_out q2 rs fs p \<and> same_nodes q q2 UNIV"
    "r2 = 0 \<longrightarrow> scan_rep q2 (drop_node ?l (put_before (weaker q ?n) p rs)) (fs @ (case ?l of None \<Rightarrow> [] | Some s \<Rightarrow> [s])) \<and>
      sq_node (sq_mem q2) = (sq_node (sq_mem q))(p := ?n\<lparr>sn_ttl := new_ttl env\<rparr>)"
    using push_result [OF rep assms(2-4), of env] by blast
  have e: "q2 = q'" "r2 = r" using p(1) assms(5) by auto
  show ?thesis
  proof (cases "r = 0")
    case False
    then have k: "scan_rep q' rs fs" "scan_out q' rs fs p" "same_nodes q q' (set rs)" using p(4) e by (auto simp: same_nodes_def)
    show ?thesis using False k p(2) e scan_good_keep [OF assms(1) k(1,3)] by simp
  next
    case True
    have out: "p \<notin> set rs" using assms(2) by (simp add: scan_out_def)
    have nd: "sq_node (sq_mem q') = (sq_node (sq_mem q))(p := ?n\<lparr>sn_ttl := new_ttl env\<rparr>)"
      and rp: "scan_rep q' (drop_node ?l (put_before (weaker q ?n) p rs)) (fs @ (case ?l of None \<Rightarrow> [] | Some s \<Rightarrow> [s]))"
      using p(5) e True by simp_all
    have k: "\<forall>r\<in>set rs. node_at q' r = node_at q r" "sn_strength (node_at q' p) = sn_strength ?n" "sn_bssid (node_at q' p) = sn_bssid ?n"
      using out by (auto simp: nd)
    have d: "distinct (put_before (weaker q ?n) p rs)" using so(2) out by (intro distinct_put_before) (simp_all add: unique_iff)
    have "scan_sorted q' (drop_node ?l (put_before (weaker q ?n) p rs))"
      using sorted_put_before [OF so(1) out k(1,2)] d by (intro drop_node_props(1))
    moreover have "scan_unique q' (drop_node ?l (put_before (weaker q ?n) p rs))" by (rule unique_push [OF so(2) out k(1,3)])
    moreover have "?l = None \<or> (\<exists>s. ?l = Some s \<and> s \<in> set (put_before (weaker q ?n) p rs))"
      using assms(3) by (auto simp: leaves_def dest: find_SomeD split: option.splits)
    note ln = length_drop_node [OF this]
    have "length (drop_node ?l (put_before (weaker q ?n) p rs)) + length (fs @ (case ?l of None \<Rightarrow> [] | Some s \<Rightarrow> [s])) = Suc (length rs + length fs)"
      using ln by (cases ?l) simp_all
    moreover have "0 < sq_sema q" using p(3) e True by (simp add: push_ok_def)
    moreover have "fs @ (case ?l of None \<Rightarrow> [] | Some s \<Rightarrow> [s]) \<noteq> []" by (auto simp: leaves_def split: option.splits)
    ultimately have "(\<exists>rs' fs'. scan_good q' rs' fs' \<and> length rs' + length fs' = Suc (length rs + length fs) \<and> fs' \<noteq> []) \<and> 0 < sq_sema q"
      using rp unfolding scan_good_def by blast
    then show ?thesis using True p(2) e by simp
  qed
qed

lemma same_lock_trans: "same_lock a b \<Longrightarrow> same_lock b c \<Longrightarrow> same_lock a c"
  by (simp add: same_lock_def)

lemma same_lock_simps [simp]: "same_lock q (set_node p n q)" "same_lock q (scan_back p q)" "same_lock q q"
  by (simp_all add: same_lock_def scan_back_def)

lemma same_nodes_trans: "same_nodes a b A \<Longrightarrow> same_nodes b c A \<Longrightarrow> same_nodes a c A"
  unfolding same_nodes_def by (metis scan_node.update_convs(1) scan_node.surjective)

text \<open>With entries to spare the frame is handled without an access outside of the queue, and with a reader inside the list of networks stays.\<close>

lemma handle_good:
  assumes "scan_good q rs fs" "2 \<le> length rs + length fs" "scan_handle_frame env now fm len q = Some q'"
  shows "\<exists>rs' fs'. scan_good q' rs' fs' \<and> length rs' + length fs' = length rs + length fs \<and> (fs \<noteq> [] \<longrightarrow> fs' \<noteq> []) \<and> same_lock q q' \<and>
    (sq_sema q = 0 \<longrightarrow> rs' = rs \<and> same_nodes q q' (set rs))"
proof (cases fs)
  case Nil
  then have "q' = q" using assms(1,3) scan_new_empty [of q rs] by (simp add: scan_good_def scan_handle_frame_def)
  then show ?thesis using assms(1) by (auto simp: same_nodes_def)
next
  case (Cons p fs')
  have rep: "scan_rep q rs (p # fs')" using assms(1) Cons by (simp add: scan_good_def)
  obtain q1 where n: "wlan_mgmt_scan_que_node_new q = (q1, 0, Some p)" "scan_rep q1 rs fs'" "scan_out q1 rs fs' p"
    "sq_node (sq_mem q1) = (sq_node (sq_mem q))(p := scan_node_zero)" "same_lock q q1"
    by (rule scan_new_rep [OF rep]) (simp_all add: same_lock_def)
  have pr: "p \<notin> set rs" using n(3) by (simp add: scan_out_def)
  obtain nd rst where i: "wlan_mgmt_scan_node_info (se_p2p env) now fm len (node_at q1 p) = Some (nd, rst)"
    using assms(3) n(1) by (cases "wlan_mgmt_scan_node_info (se_p2p env) now fm len (node_at q1 p)") (auto simp: scan_handle_frame_def)
  let ?q2 = "set_node p nd q1"
  have s2: "same_nodes q ?q2 (set rs)" using pr by (auto simp: same_nodes_def n(4))
  have r2: "scan_rep ?q2 rs fs'" "scan_out ?q2 rs fs' p" using n(2,3) by simp_all
  have g2: "scan_good ?q2 rs fs'" by (rule scan_good_keep [OF assms(1) r2(1) s2])
  have l2: "same_lock q ?q2" using same_lock_trans [OF n(5)] by simp
  have bk: "scan_good (scan_back p x) rs fs \<and> same_nodes q (scan_back p x) (set rs)"
    if "scan_good x rs fs'" "scan_out x rs fs' p" "same_nodes q x (set rs)" for x
  proof -
    have "scan_rep (scan_back p x) rs fs" using scan_back_rep [of x rs fs' p] that(1,2) Cons by (simp add: scan_good_def)
    moreover have "same_nodes x (scan_back p x) (set rs)" by (simp add: same_nodes_def scan_back_def)
    ultimately show ?thesis using scan_good_keep [OF that(1)] same_nodes_trans [OF that(3)] by blast
  qed
  show ?thesis
  proof (cases "rst = 0")
    case False
    then have q': "q' = scan_back p ?q2" using assms(3) n(1) i by (simp add: scan_handle_frame_def)
    have "same_lock q q'" unfolding q' by (rule same_lock_trans [OF l2]) simp
    then show ?thesis using bk [OF g2 r2(2) s2] unfolding q' by blast
  next
    case True
    obtain q3 r3 where p3: "wlan_mgmt_scan_que_node_push env fm p ?q2 = Some (q3, r3)" "q' = (if r3 \<noteq> 0 then scan_back p q3 else q3)"
      using assms(3) n(1) i True by (auto simp: scan_handle_frame_def bind_eq_Some_conv)
    then obtain fc where fc: "rd_le16 (fm_mgmt fm) 0 = Some fc" by (auto simp: wlan_mgmt_scan_que_node_push_def bind_eq_Some_conv)
    have ne: "rs \<noteq> [] \<or> fs' \<noteq> []" using assms(2) Cons by auto
    note g3 = push_good [OF g2 r2(2) ne fc p3(1)]
    show ?thesis
    proof (cases "r3 = 0")
      case True
      then obtain rs3 fs3 where "scan_good q3 rs3 fs3" "length rs3 + length fs3 = Suc (length rs + length fs')" "fs3 \<noteq> []" "same_lock ?q2 q3" "0 < sq_sema ?q2"
        using g3 by auto
      then show ?thesis using True p3(2) Cons same_lock_trans [OF l2] l2 by (auto simp: same_lock_def)
    next
      case False
      then have k: "scan_good q3 rs fs'" "scan_out q3 rs fs' p" "same_lock ?q2 q3" "same_nodes ?q2 q3 (set rs)" using g3 by simp_all
      have q': "q' = scan_back p q3" using p3(2) False by simp
      have b: "scan_good q' rs fs" "same_nodes q q' (set rs)" using bk [OF k(1,2) same_nodes_trans [OF s2 k(4)]] unfolding q' by simp_all
      have "same_lock q q'" unfolding q' using same_lock_trans [OF same_lock_trans [OF l2 k(3)]] by simp
      with b show ?thesis by blast
    qed
  qed
qed

section \<open>Ageing\<close>

definition aged :: "u8 list \<Rightarrow> scan_node \<Rightarrow> scan_node" where
  "aged chs n = (if sn_channel n \<in> set chs then n\<lparr>sn_ttl := if sn_ttl n \<noteq> 0 then sn_ttl n - 1 else sn_ttl n\<rparr> else n)"

definition expired :: "u8 list \<Rightarrow> scan_node \<Rightarrow> bool" where
  "expired chs n \<longleftrightarrow> sn_channel n \<in> set chs \<and> sn_ttl (aged chs n) = 0"

lemma refresh_node_result:
  fixes chs :: "u8 list"
  assumes "scan_rep q (us @ p # vs) fs"
  defines "q' \<equiv> refresh_node chs p q"
  shows "scan_rep q' (us @ (if expired chs (node_at q p) \<and> 0 < sq_sema q then [] else [p]) @ vs)
      (fs @ (if expired chs (node_at q p) \<and> 0 < sq_sema q then [p] else []))"
    "sq_node (sq_mem q') = (sq_node (sq_mem q))(p := aged chs (node_at q p))" "same_lock q q'"
proof -
  let ?q1 = "set_node p (aged chs (node_at q p)) q"
  have r: "refresh_node chs p q =
     (if expired chs (node_at q p) \<and> 0 < sq_sema q then wlan_mgmt_scan_que_write_post (scan_to_free p (?q1\<lparr>sq_sema := sq_sema q - 1\<rparr>)) else ?q1)"
  proof (cases "sn_channel (node_at q p) \<in> set chs")
    case True
    then show ?thesis by (auto simp: refresh_node_def expired_def aged_def Let_def wlan_mgmt_scan_que_write_try_def)
  next
    case False
    then show ?thesis by (simp add: refresh_node_def expired_def aged_def)
  qed
  have "scan_rep (?q1\<lparr>sq_sema := sq_sema q - 1\<rparr>) (us @ p # vs) fs" using assms(1) by simp
  from scan_to_free_rep [OF this] assms(1) show "scan_rep q' (us @ (if expired chs (node_at q p) \<and> 0 < sq_sema q then [] else [p]) @ vs)
      (fs @ (if expired chs (node_at q p) \<and> 0 < sq_sema q then [p] else []))"
    unfolding q'_def r by simp
  show "sq_node (sq_mem q') = (sq_node (sq_mem q))(p := aged chs (node_at q p))" "same_lock q q'"
    unfolding q'_def r by (simp_all add: same_lock_def wlan_mgmt_scan_que_write_post_def scan_to_free_def)
qed

lemma refresh_loop_seg:
  assumes "scan_rep q (us @ vs) fs" "pos = hd (vs @ [sq_ready q])" "n = pnext (sq_mem q) pos"
  shows "\<exists>q'. refresh_loop chs q pos n = Some q' \<and>
    scan_rep q' (us @ filter (\<lambda>p. \<not> (expired chs (node_at q p) \<and> 0 < sq_sema q)) vs) (fs @ filter (\<lambda>p. expired chs (node_at q p) \<and> 0 < sq_sema q) vs) \<and>
    (\<forall>p. node_at q' p = (if p \<in> set vs then aged chs (node_at q p) else node_at q p)) \<and> same_lock q q'"
  using assms
proof (induction vs arbitrary: us q fs pos n)
  case Nil
  then show ?case by (subst refresh_loop.simps) (auto simp: same_lock_def)
next
  case (Cons v vs)
  let ?q1 = "refresh_node chs v q" and ?gone = "expired chs (node_at q v) \<and> 0 < sq_sema q"
  have d: "dll (sq_mem q) (sq_ready q) (us @ v # vs)" using Cons.prems(1) by (simp add: scan_rep_def wf_que_rep_def)
  have v: "pos = v" "v \<noteq> sq_ready q" "n = hd (vs @ [sq_ready q])" "v \<notin> set vs"
    using Cons.prems(2,3) dll_next_node [OF d] d by (auto simp: dll_def)
  note r = refresh_node_result [OF Cons.prems(1), of chs]
  have h: "n = hd (vs @ [sq_ready ?q1])" "sq_sema ?q1 = sq_sema q" using v(3) r(3) by (simp_all add: same_lock_def)
  have r1: "scan_rep ?q1 ((us @ (if ?gone then [] else [v])) @ vs) (fs @ (if ?gone then [v] else []))" using r(1) by (simp only: append_assoc)
  obtain q' where q': "refresh_loop chs ?q1 n (pnext (sq_mem ?q1) n) = Some q'"
    "scan_rep q' ((us @ (if ?gone then [] else [v])) @ filter (\<lambda>p. \<not> (expired chs (node_at ?q1 p) \<and> 0 < sq_sema ?q1)) vs)
      ((fs @ (if ?gone then [v] else [])) @ filter (\<lambda>p. expired chs (node_at ?q1 p) \<and> 0 < sq_sema ?q1) vs)"
    "\<forall>p. node_at q' p = (if p \<in> set vs then aged chs (node_at ?q1 p) else node_at ?q1 p)" "same_lock ?q1 q'"
    using Cons.IH [OF r1 h(1) refl] by blast
  have same: "filter (\<lambda>p. expired chs (node_at ?q1 p) \<and> 0 < sq_sema ?q1) vs = filter (\<lambda>p. expired chs (node_at q p) \<and> 0 < sq_sema q) vs"
    "filter (\<lambda>p. \<not> (expired chs (node_at ?q1 p) \<and> 0 < sq_sema ?q1)) vs = filter (\<lambda>p. \<not> (expired chs (node_at q p) \<and> 0 < sq_sema q)) vs"
    using v(4) by (auto simp: r(2) h(2) intro!: filter_cong)
  have "refresh_loop chs q pos n = Some q'" unfolding v(1) using q'(1) v(2) by (subst refresh_loop.simps) (simp add: Let_def)
  moreover have "scan_rep q' (us @ filter (\<lambda>p. \<not> (expired chs (node_at q p) \<and> 0 < sq_sema q)) (v # vs))
      (fs @ filter (\<lambda>p. expired chs (node_at q p) \<and> 0 < sq_sema q) (v # vs))"
    using q'(2) unfolding same by (cases ?gone) (simp_all only: if_True if_False filter.simps append_Nil append_Cons append_assoc append_Nil2 simp_thms)
  moreover have "\<forall>p. node_at q' p = (if p \<in> set (v # vs) then aged chs (node_at q p) else node_at q p)" using q'(3) v(4) by (auto simp: r(2))
  moreover have "same_lock q q'" by (rule same_lock_trans [OF r(3) q'(4)])
  ultimately show ?case by blast
qed

text \<open>A refresh ages every entry on one of the channels and takes out the expired ones, unless a reader is inside.\<close>

lemma refresh_result:
  assumes "scan_rep q rs fs"
  obtains q' where "wlan_mgmt_scan_que_refresh chs q = Some q'" "same_lock q q'"
    "scan_rep q' (filter (\<lambda>p. \<not> (expired chs (node_at q p) \<and> 0 < sq_sema q)) rs) (fs @ filter (\<lambda>p. expired chs (node_at q p) \<and> 0 < sq_sema q) rs)"
    "\<forall>p. node_at q' p = (if p \<in> set rs then aged chs (node_at q p) else node_at q p)"
proof -
  have r: "scan_rep q ([] @ rs) fs" using assms by simp
  have "pnext (sq_mem q) (sq_ready q) = hd (rs @ [sq_ready q])" using assms dll_next by (auto simp: scan_rep_def wf_que_rep_def)
  from refresh_loop_seg [OF r this refl, of chs] show thesis using that unfolding wlan_mgmt_scan_que_refresh_def Let_def by auto
qed

lemma aged_members [simp]: "sn_strength (aged chs n) = sn_strength n" "sn_bssid (aged chs n) = sn_bssid n" "sn_channel (aged chs n) = sn_channel n"
  by (simp_all add: aged_def)

lemma aged_same: "aged chs n = n\<lparr>sn_ttl := sn_ttl (aged chs n)\<rparr>"
  by (simp add: aged_def)

lemma filter_good:
  assumes "scan_sorted q rs" "scan_unique q rs"
  shows "scan_sorted q (filter P rs)" "scan_unique q (filter P rs)"
  using assms by (auto simp: scan_sorted_def unique_iff intro: sorted_wrt_filter)

lemma refresh_good:
  assumes "scan_good q rs fs" "wlan_mgmt_scan_que_refresh chs q = Some q'"
  shows "\<exists>rs' fs'. scan_good q' rs' fs' \<and> length rs' + length fs' = length rs + length fs \<and> (fs \<noteq> [] \<longrightarrow> fs' \<noteq> []) \<and> same_lock q q' \<and>
    (sq_sema q = 0 \<longrightarrow> rs' = rs \<and> same_nodes q q' (set rs))"
proof -
  let ?P = "\<lambda>p. expired chs (node_at q p) \<and> 0 < sq_sema q"
  have rep: "scan_rep q rs fs" using assms(1) by (simp add: scan_good_def)
  obtain q2 where "wlan_mgmt_scan_que_refresh chs q = Some q2" "same_lock q q2" "scan_rep q2 (filter (\<lambda>p. \<not> ?P p) rs) (fs @ filter ?P rs)"
    "\<forall>p. node_at q2 p = (if p \<in> set rs then aged chs (node_at q p) else node_at q p)" by (rule refresh_result [OF rep])
  then have r: "same_lock q q'" "scan_rep q' (filter (\<lambda>p. \<not> ?P p) rs) (fs @ filter ?P rs)"
    "\<forall>p. node_at q' p = (if p \<in> set rs then aged chs (node_at q p) else node_at q p)" using assms(2) by auto
  have "scan_sorted q' rs" "scan_unique q' rs" using assms(1) scan_order_cong [of rs q' q] r(3) by (auto simp: scan_good_def)
  then have g: "scan_good q' (filter (\<lambda>p. \<not> ?P p) rs) (fs @ filter ?P rs)" using r(2) filter_good by (simp add: scan_good_def)
  have l: "length (filter (\<lambda>p. \<not> ?P p) rs) + length (fs @ filter ?P rs) = length rs + length fs" using sum_length_filter_compl [of ?P rs] by simp
  have s: "same_nodes q q' (set rs)" unfolding same_nodes_def using r(3) aged_same by simp
  show ?thesis using g l r(1) s by (intro exI [of _ "filter (\<lambda>p. \<not> ?P p) rs"] exI [of _ "fs @ filter ?P rs"]) simp
qed

end
