(* ===== verification/Scan_Reach.thy ===== *)
theory Scan_Reach
  imports Scan_Inv
begin

text \<open>
  All interleavings of the thread that changes the scan queue with any number of readers.
\<close>

section \<open>Steps\<close>

text \<open>What the thread \<open>rx_frame_handle\<close> does with the messages for the queue.\<close>

inductive scan_work :: "scan_que \<Rightarrow> scan_que \<Rightarrow> bool" where
  work_frame: "scan_handle_frame env now fm len q = Some q' \<Longrightarrow> scan_work q q'"
| work_refresh: "wlan_mgmt_scan_que_refresh chs q = Some q' \<Longrightarrow> scan_work q q'"
| work_flush: "wlan_mgmt_scan_que_node_flush env q = Some (q', r) \<Longrightarrow> scan_work q q'"

text \<open>A state with the number of readers inside; a queue of \<open>deep\<close> entries.\<close>

inductive scan_reach :: "nat \<Rightarrow> scan_que \<Rightarrow> nat \<Rightarrow> bool" for deep where
  reach_init: "wlan_mgmt_scan_que_init deep (map Some ps) q = (q', 0) \<Longrightarrow> length ps = deep \<Longrightarrow> distinct (sq_ready q # sq_free q # ps) \<Longrightarrow>
    scan_reach deep q' 0"
| reach_work: "scan_reach deep q r \<Longrightarrow> scan_work q q' \<Longrightarrow> scan_reach deep q' r"
| reach_begin: "scan_reach deep q r \<Longrightarrow> scan_read_try q = (q', 0) \<Longrightarrow> scan_reach deep q' (Suc r)"
| reach_visit: "scan_reach deep q (Suc r) \<Longrightarrow> scan_rep q rs fs \<Longrightarrow> p \<in> set rs \<Longrightarrow> scan_reach deep (scan_visit p q) (Suc r)"
| reach_end: "scan_reach deep q (Suc r) \<Longrightarrow> scan_read_post q = (q', 0) \<Longrightarrow> scan_reach deep q' r"

lemma scan_work_good:
  assumes "scan_work q q'" "scan_good q rs fs" "2 \<le> length rs + length fs"
  shows "\<exists>rs' fs'. scan_good q' rs' fs' \<and> length rs' + length fs' = length rs + length fs \<and> (fs \<noteq> [] \<longrightarrow> fs' \<noteq> []) \<and> same_lock q q' \<and>
    (sq_sema q = 0 \<longrightarrow> rs' = rs \<and> same_nodes q q' (set rs))"
  using assms(1)
proof cases
  case (work_frame env now fm len)
  then show ?thesis using handle_good [OF assms(2,3)] by blast
next
  case (work_refresh chs)
  then show ?thesis using refresh_good [OF assms(2)] by blast
next
  case (work_flush env r)
  then have "q' = q" using flush_returns assms(2) by (auto simp: scan_good_def)
  then show ?thesis using assms(2) by (auto simp: same_nodes_def)
qed

section \<open>Initial state\<close>

lemma scan_alloc_rep:
  assumes "scan_rep q [] fs" "distinct (sq_ready q # sq_free q # ps @ fs)"
  shows "\<exists>q'. scan_alloc (length ps) (map Some ps) q = (q', 0) \<and> scan_rep q' [] (rev ps @ fs)"
  using assms
proof (induction ps arbitrary: q fs)
  case (Cons p ps)
  let ?q = "scan_back p (set_node p scan_node_zero q)"
  have "scan_rep (set_node p scan_node_zero q) [] fs" "scan_out (set_node p scan_node_zero q) [] fs p" using Cons.prems by (auto simp: scan_out_def)
  then have r: "scan_rep ?q [] (p # fs)" by (rule scan_back_rep)
  have "distinct (sq_ready ?q # sq_free ?q # ps @ p # fs)" using Cons.prems(2) by (auto simp: scan_back_def)
  from Cons.IH [OF r this] show ?case by simp
qed simp

lemma scan_init_rep:
  assumes "distinct (sq_ready q # sq_free q # ps)"
  shows "\<exists>q'. wlan_mgmt_scan_que_init (length ps) (map Some ps) q = (q', 0) \<and> scan_rep q' [] (rev ps) \<and> sq_read_cnt q' = 0 \<and> sq_sema q' = 1"
proof -
  let ?m = "wf_que_init (sq_free q) (sq_mem q)" and ?q = "q\<lparr>sq_mem := wf_que_init (sq_ready q) (wf_que_init (sq_free q) (sq_mem q))\<rparr>"
  have "wf_que_rep ?m (sq_free q) []" by (rule wf_que_rep_init)
  then have "wf_que_rep (wf_que_init (sq_ready q) ?m) (sq_free q) []"
    using assms by (simp add: wf_que_rep_def wf_que_init_def wf_list_init_def Let_def)
  then have "scan_rep ?q [] []" using wf_que_rep_init [of "sq_ready q" ?m] assms by (simp add: scan_rep_def)
  from scan_alloc_rep [OF this, of ps] obtain q' where "scan_alloc (length ps) (map Some ps) ?q = (q', 0)" "scan_rep q' [] (rev ps @ [])" using assms by auto
  then show ?thesis by (simp add: wlan_mgmt_scan_que_init_def)
qed

section \<open>Readers\<close>

text \<open>The semaphore is free exactly when no reader is inside.\<close>

definition lock_inv :: "scan_que \<Rightarrow> nat \<Rightarrow> bool" where
  "lock_inv q r \<longleftrightarrow> unat (sq_read_cnt q) = r \<and> sq_sema q = (if r = 0 then 1 else 0)"

lemma read_try_inv:
  assumes "lock_inv q r" "scan_read_try q = (q', 0)"
  shows "lock_inv q' (Suc r)" "same_shape q q'" "sq_node (sq_mem q') = sq_node (sq_mem q)"
proof -
  have c: "sq_read_cnt q \<noteq> 0xFF" and q': "q' = q\<lparr>sq_sema := if sq_read_cnt q = 0 then sq_sema q - 1 else sq_sema q, sq_read_cnt := sq_read_cnt q + 1\<rparr>"
    using assms(2) by (auto simp: scan_read_try_def split: if_splits)
  have "unat (sq_read_cnt q + 1) = Suc (unat (sq_read_cnt q))"
    using c unat_u8_less [of "sq_read_cnt q"] by (simp add: unat_word_ariths word_unat_eq_iff)
  moreover have "sq_read_cnt q = 0 \<longleftrightarrow> r = 0" using assms(1) by (auto simp: lock_inv_def word_unat_eq_iff)
  ultimately show "lock_inv q' (Suc r)" using assms(1) by (auto simp: q' lock_inv_def)
  show "same_shape q q'" "sq_node (sq_mem q') = sq_node (sq_mem q)" by (simp_all add: q' same_shape_def)
qed

lemma read_post_inv:
  assumes "lock_inv q (Suc r)" "scan_read_post q = (q', 0)"
  shows "lock_inv q' r" "same_shape q q'" "sq_node (sq_mem q') = sq_node (sq_mem q)"
proof -
  let ?c = "sq_read_cnt q - 1"
  have q': "q' = q\<lparr>sq_read_cnt := ?c, sq_sema := if ?c = 0 then sq_sema q + 1 else sq_sema q\<rparr>"
    using assms(2) by (auto simp: scan_read_post_def Let_def split: if_splits)
  have c: "unat ?c = r" using assms(1) by (subst unat_sub) (auto simp: lock_inv_def word_le_nat_alt)
  moreover have "?c = 0 \<longleftrightarrow> r = 0" unfolding word_unat_eq_iff c by simp
  ultimately show "lock_inv q' r" using assms(1) unfolding q' lock_inv_def by simp
  show "same_shape q q'" "sq_node (sq_mem q') = sq_node (sq_mem q)" by (simp_all add: q' same_shape_def)
qed

lemma scan_good_shape:
  assumes "scan_good q rs fs" "same_shape q q'" "same_nodes q q' (set rs)"
  shows "scan_good q' rs fs"
proof -
  have "scan_rep q' rs fs" using assms(1) scan_rep_shape [OF assms(2)] by (simp add: scan_good_def)
  then show ?thesis using assms(1,3) scan_good_keep by blast
qed

section \<open>The invariant\<close>

lemma scan_reach_inv:
  assumes "scan_reach deep q r" "2 \<le> deep"
  shows "\<exists>rs fs. scan_good q rs fs \<and> length rs + length fs = deep \<and> fs \<noteq> [] \<and> lock_inv q r"
  using assms(1)
proof induction
  case (reach_init ps q q')
  then obtain "scan_rep q' [] (rev ps)" "sq_read_cnt q' = 0" "sq_sema q' = 1" using scan_init_rep [OF reach_init(3)] by auto
  then show ?case using reach_init(2) assms(2) by (intro exI [of _ "[]"] exI [of _ "rev ps"]) (auto simp: scan_good_def scan_sorted_def scan_unique_def lock_inv_def)
next
  case (reach_work q r q')
  then obtain rs fs where g: "scan_good q rs fs" "length rs + length fs = deep" "fs \<noteq> []" "lock_inv q r" by blast
  obtain rs' fs' where "scan_good q' rs' fs'" "length rs' + length fs' = length rs + length fs" "fs' \<noteq> []" "same_lock q q'"
    using scan_work_good [OF reach_work(2) g(1)] g(2,3) assms(2) by auto
  then show ?case using g by (auto simp: lock_inv_def same_lock_def)
next
  case (reach_begin q r q')
  then obtain rs fs where g: "scan_good q rs fs" "length rs + length fs = deep" "fs \<noteq> []" "lock_inv q r" by blast
  note t = read_try_inv [OF g(4) reach_begin(2)]
  have "scan_good q' rs fs" by (rule scan_good_shape [OF g(1) t(2)]) (simp add: same_nodes_def t(3))
  then show ?case using g t(1) by blast
next
  case (reach_visit q r rs' fs' p)
  then obtain rs fs where g: "scan_good q rs fs" "length rs + length fs = deep" "fs \<noteq> []" "lock_inv q (Suc r)" by blast
  have "scan_good (scan_visit p q) rs fs" by (rule scan_good_shape [OF g(1)]) (simp_all add: same_nodes_def scan_visit_def)
  then show ?case using g by (auto simp: lock_inv_def scan_visit_def)
next
  case (reach_end q r q')
  then obtain rs fs where g: "scan_good q rs fs" "length rs + length fs = deep" "fs \<noteq> []" "lock_inv q (Suc r)" by blast
  note t = read_post_inv [OF g(4) reach_end(2)]
  have "scan_good q' rs fs" by (rule scan_good_shape [OF g(1) t(2)]) (simp add: same_nodes_def t(3))
  then show ?case using g t(1) by blast
qed

lemma scan_rep_unique:
  assumes "scan_rep q rs fs" "scan_rep q rs' fs'"
  shows "rs' = rs" "fs' = fs"
  using assms dll_unique unfolding scan_rep_def wf_que_rep_def by blast+

lemma scan_start:
  obtains q where "scan_reach 2 q 0" "scan_rep q [] [4, 3]" "sq_read_cnt q = 0" "sq_sema q = 1"
proof -
  let ?q = "\<lparr>sq_mem = \<lparr>pnext = id, prev = id, cnt = \<lambda>_. 0, sq_node = \<lambda>_. scan_node_zero\<rparr>, sq_free = 1, sq_ready = 2, sq_read_cnt = 0, sq_sema = 0\<rparr>"
  have d: "distinct (sq_ready ?q # sq_free ?q # [3, 4])" by simp
  have l: "length [3, 4 :: ptr] = 2" by simp
  from scan_init_rep [OF d, unfolded l] obtain q' where i: "wlan_mgmt_scan_que_init 2 (map Some [3, 4]) ?q = (q', 0)" "scan_rep q' [] (rev [3, 4])"
    "sq_read_cnt q' = 0" "sq_sema q' = 1" by blast
  show thesis using that [OF reach_init [OF i(1) l d]] i(2-4) by simp
qed

text \<open>(C3) In every state that is reached by completed operations, in any interleaving of received frames, refreshes and flushes with any number
  of readers, the scan queue is in order: the networks are sorted by signal strength, strongest first, no BSSID occurs twice, no entry is lost and one is always
  free for the next frame, and the read count and the semaphore agree with the readers inside. In such a state a flush completes exactly when a reader is inside or
  the queue is empty, and then it changes nothing; a flush that does not complete stays in its loop, and nothing is said about the queue from then on.\<close>

theorem scan_reachable_ordered:
  assumes "scan_reach deep q r" "2 \<le> deep"
  shows "\<exists>rs fs. scan_rep q rs fs \<and> sorted_wrt (\<lambda>a b. sn_strength (node_at q b) \<le> sn_strength (node_at q a)) rs \<and>
    distinct (map (\<lambda>p. sn_bssid (node_at q p)) rs) \<and> distinct (rs @ fs) \<and> length rs + length fs = deep \<and> fs \<noteq> [] \<and>
    unat (sq_read_cnt q) = r \<and> sq_sema q = (if r = 0 then 1 else 0) \<and>
    (\<forall>env. case wlan_mgmt_scan_que_node_flush env q of None \<Rightarrow> rs \<noteq> [] \<and> r = 0 | Some (q', _) \<Rightarrow> (rs = [] \<or> 0 < r) \<and> q' = q)"
proof -
  obtain rs fs where g: "scan_good q rs fs" "length rs + length fs = deep" "fs \<noteq> []" "lock_inv q r" using scan_reach_inv [OF assms] by blast
  then have rep: "scan_rep q rs fs" by (simp add: scan_good_def)
  then have "distinct (rs @ fs)" using que.rep_distinct by (fastforce simp: scan_rep_def)
  moreover have "case wlan_mgmt_scan_que_node_flush env q of None \<Rightarrow> rs \<noteq> [] \<and> r = 0 | Some (q', _) \<Rightarrow> (rs = [] \<or> 0 < r) \<and> q' = q" for env
    using flush_returns_iff [OF rep, of env] flush_returns [OF rep, of env] g(4) by (auto simp: lock_inv_def split: option.splits if_splits)
  ultimately show ?thesis using g by (auto simp: scan_good_def scan_sorted_def scan_unique_def lock_inv_def)
qed

lemma scan_reachable_ordered_witness:
  "\<exists>q rs fs. scan_reach 2 q 0 \<and> scan_rep q rs fs \<and> distinct (rs @ fs) \<and> length rs + length fs = 2 \<and> fs \<noteq> []"
proof -
  obtain q where "scan_reach 2 q 0" by (rule scan_start)
  then show ?thesis using scan_reachable_ordered [of 2 q 0] by auto
qed

text \<open>(C16) A reader is safe: while at least one reader is inside, no work of the handling thread changes which networks the queue holds, their order,
  or anything of their entries but the time to live.\<close>

theorem scan_reader_stable:
  assumes "scan_reach deep q (Suc r)" "2 \<le> deep" "scan_work q q'" "scan_rep q rs fs"
  shows "\<exists>fs'. scan_rep q' rs fs' \<and> (\<forall>p\<in>set rs. node_at q' p = (node_at q p)\<lparr>sn_ttl := sn_ttl (node_at q' p)\<rparr>)"
proof -
  obtain rs0 fs0 where g: "scan_good q rs0 fs0" "length rs0 + length fs0 = deep" "lock_inv q (Suc r)" using scan_reach_inv [OF assms(1,2)] by blast
  have e: "rs0 = rs" "fs0 = fs" using scan_rep_unique [OF assms(4)] g(1) by (auto simp: scan_good_def)
  obtain rs' fs' where "scan_good q' rs' fs'" "sq_sema q = 0 \<longrightarrow> rs' = rs \<and> same_nodes q q' (set rs)"
    using scan_work_good [OF assms(3) g(1)] g(2) assms(2) unfolding e by auto
  then show ?thesis using g(3) by (auto simp: scan_good_def lock_inv_def same_nodes_def)
qed

lemma scan_reader_stable_witness:
  "\<exists>q q' fs. scan_reach 2 q 1 \<and> scan_work q q' \<and> scan_rep q' [] fs"
proof -
  obtain q where q: "scan_reach 2 q 0" "scan_rep q [] [4, 3]" "sq_read_cnt q = 0" "sq_sema q = 1" by (rule scan_start)
  obtain q1 where t: "scan_read_try q = (q1, 0)" "same_shape q q1" using q(3,4) by (auto simp: scan_read_try_def same_shape_def)
  have r1: "scan_reach 2 q1 (Suc 0)" by (rule reach_begin [OF q(1) t(1)])
  have rep: "scan_rep q1 [] [4, 3]" using q(2) scan_rep_shape [OF t(2)] by simp
  obtain q' where "wlan_mgmt_scan_que_refresh [6] q1 = Some q'" by (rule refresh_result [OF rep])
  then have w: "scan_work q1 q'" by (rule work_refresh)
  show ?thesis using scan_reader_stable [OF r1 _ w rep] r1 w by auto
qed

end
