(* ===== verification/Scan_Find.thy ===== *)
theory Scan_Find
  imports Scan_Reach
begin

text \<open>
  From the frame to the reader: a network whose beacon or probe response is received is found by a reader of the scan queue; and how long an entry lives.
\<close>

section \<open>Reading\<close>

lemma scan_for_seg:
  assumes "scan_rep q (us @ vs) fs" "pos = hd (vs @ [sq_ready q])" "\<And>n t. body (n\<lparr>sn_ttl := t\<rparr>) = body n"
  shows "\<exists>q'. scan_for_loop body q pos =
    Some (q', case List.find (\<lambda>p. body (node_at q p) \<noteq> None) vs of None \<Rightarrow> None | Some p \<Rightarrow> body (node_at q p)) \<and> same_lock q q'"
  using assms(1,2)
proof (induction vs arbitrary: us q pos)
  case Nil
  then show ?case by (subst scan_for_loop.simps) simp
next
  case (Cons v vs)
  have d: "dll (sq_mem q) (sq_ready q) (us @ v # vs)" using Cons.prems(1) by (simp add: scan_rep_def wf_que_rep_def)
  have v: "pos = v" "v \<noteq> sq_ready q" "pnext (sq_mem q) v = hd (vs @ [sq_ready q])" "v \<notin> set vs"
    using Cons.prems(2) dll_next_node [OF d] d by (auto simp: dll_def)
  let ?q = "scan_visit v q"
  have n: "node_at ?q p = (if p = v then (node_at q v)\<lparr>sn_ttl := sn_ttl (node_at q v) AND 0xFF\<rparr> else node_at q p)" for p by (simp add: scan_visit_def)
  have b: "body (node_at ?q p) = body (node_at q p)" for p using assms(3) by (simp add: n)
  have l: "same_lock q ?q" by (simp add: same_lock_def scan_visit_def)
  have step: "scan_for_loop body q pos = (case body (node_at q v) of Some r \<Rightarrow> Some (?q, Some r) | None \<Rightarrow> scan_for_loop body ?q (pnext (sq_mem ?q) v))"
    unfolding v(1) using v(2) b [of v] by (subst scan_for_loop.simps) (simp add: Let_def)
  show ?case
  proof (cases "body (node_at q v)")
    case (Some r)
    then show ?thesis using step l by simp
  next
    case None
    have "scan_rep ?q ((us @ [v]) @ vs) fs" "pnext (sq_mem ?q) v = hd (vs @ [sq_ready ?q])" using Cons.prems(1) v(3) l by (simp_all add: same_lock_def scan_visit_def)
    from Cons.IH [OF this, unfolded b] obtain q' where "scan_for_loop body ?q (pnext (sq_mem ?q) v) =
        Some (q', case List.find (\<lambda>p. body (node_at q p) \<noteq> None) vs of None \<Rightarrow> None | Some p \<Rightarrow> body (node_at q p))" "same_lock ?q q'"
      by blast
    then show ?thesis using step None same_lock_trans [OF l] by simp
  qed
qed

lemma signal_result:
  assumes "scan_good q rs fs" "p \<in> set rs" "sn_bssid (node_at q p) = se_bssid env" "lock_inv q 0"
  shows "\<exists>q'. wf_wlan_get_signal_and_qual False env q = Some (q', 1, Some (sn_qual (node_at q p), sn_strength (node_at q p)))"
proof -
  let ?body = "\<lambda>n. if sn_bssid n = se_bssid env then Some (sn_qual n, sn_strength n) else None"
  let ?q = "q\<lparr>sq_sema := sq_sema q - 1, sq_read_cnt := 1\<rparr>"
  have z: "sq_read_cnt q = 0" "sq_sema q = 1" using assms(4) by (simp_all add: lock_inv_def word_unat_eq_iff)
  have t: "scan_read_try q = (?q, 0)" using z by (simp add: scan_read_try_def)
  have rep: "scan_rep ?q ([] @ rs) fs" using assms(1) by (simp add: scan_good_def)
  have h: "pnext (sq_mem ?q) (sq_ready ?q) = hd (rs @ [sq_ready ?q])" using rep dll_next by (auto simp: scan_rep_def wf_que_rep_def)
  have f: "List.find (\<lambda>p. ?body (node_at ?q p) \<noteq> None) rs = Some p"
  proof -
    obtain s where s: "List.find (\<lambda>p. ?body (node_at ?q p) \<noteq> None) rs = Some s"
      using assms(2,3) by (cases "List.find (\<lambda>p. ?body (node_at ?q p) \<noteq> None) rs") (auto simp: find_None_iff)
    then have "s \<in> set rs" "sn_bssid (node_at q s) = se_bssid env" using find_SomeD [OF s] by (auto split: if_splits)
    then have "s = p" using assms(1-3) unfolding scan_good_def unique_iff by metis
    with s show ?thesis by simp
  qed
  have "\<exists>q2. scan_for_loop ?body ?q (pnext (sq_mem ?q) (sq_ready ?q)) = Some (q2, ?body (node_at ?q p)) \<and> same_lock ?q q2"
    by (rule scan_for_seg [OF rep h, of ?body, unfolded f option.case]) simp
  then obtain q2 where "scan_for_loop ?body ?q (pnext (sq_mem ?q) (sq_ready ?q)) = Some (q2, Some (sn_qual (node_at q p), sn_strength (node_at q p)))"
    using assms(3) by auto
  then show ?thesis using t by (simp add: wf_wlan_get_signal_and_qual_def wf_wlan_mgmt_scan_que_for_def)
qed

section \<open>A received network is found\<close>

lemma node_shows_ttl [simp]: "node_shows ft es (n\<lparr>sn_ttl := t\<rparr>) = node_shows ft es n"
  by (simp add: node_shows_def)

text \<open>No entry from a probe response stands in the way of a beacon.\<close>

definition not_held :: "u16 \<Rightarrow> bytes \<Rightarrow> scan_que \<Rightarrow> bool" where
  "not_held ft bssid q \<longleftrightarrow> ft \<noteq> WF_80211_FRM_BEACON \<or> (\<forall>p. sn_bssid (node_at q p) = bssid \<longrightarrow> sn_frame_type (node_at q p) \<noteq> WF_80211_FRM_PROBE_RESP)"

lemma handle_inserts:
  assumes "scan_good q rs (p # fs)" "rs \<noteq> [] \<or> fs \<noteq> []" "0 < sq_sema q" "\<not> se_connected env"
    "wlan_mgmt_scan_node_info (se_p2p env) now fm len scan_node_zero = Some (n, 0)" "fm_phy_valid fm"
    "rd_le16 (fm_mgmt fm) 0 = Some fc" "not_held (wf_80211_get_frame_type fc) (sn_bssid n) q"
  shows "\<exists>q' rs' fs'. scan_handle_frame env now fm len q = Some q' \<and> scan_rep q' rs' fs' \<and> p \<in> set rs' \<and> node_at q' p = n\<lparr>sn_ttl := new_ttl env\<rparr>"
proof -
  have rep: "scan_rep q rs (p # fs)" using assms(1) by (simp add: scan_good_def)
  obtain q1 where c: "wlan_mgmt_scan_que_node_new q = (q1, 0, Some p)" "scan_rep q1 rs fs" "scan_out q1 rs fs p"
    "sq_node (sq_mem q1) = (sq_node (sq_mem q))(p := scan_node_zero)" "sq_sema q1 = sq_sema q"
    by (rule scan_new_rep [OF rep])
  let ?q2 = "set_node p n q1"
  have r2: "scan_rep ?q2 rs fs" "scan_out ?q2 rs fs p" using c(2,3) by simp_all
  have pr: "p \<notin> set rs" using c(3) by (simp add: scan_out_def)
  have hold: "\<not> scan_holds (List.find (same_bss ?q2 n) rs) (wf_80211_get_frame_type fc) ?q2"
  proof (cases "List.find (same_bss ?q2 n) rs")
    case (Some s)
    have "s \<in> set rs" "same_bss ?q2 n s" using find_SomeD [OF Some] by auto
    then have "sn_bssid (node_at q s) = sn_bssid n" "node_at ?q2 s = node_at q s" using pr by (auto simp: same_bss_def c(4) split: if_splits)
    then show ?thesis using assms(8) Some by (auto simp: scan_holds_def not_held_def)
  qed (simp add: scan_holds_def)
  have ok: "push_ok env (fm_phy_valid fm) (wf_80211_get_frame_type fc) (node_at ?q2 p) rs fs ?q2"
    using hold assms(3,4,6) c(5) by (simp add: push_ok_def is_bss_onlink_def)
  obtain q3 r3 where p3: "wlan_mgmt_scan_que_node_push env fm p ?q2 = Some (q3, r3)" "r3 = 0"
    "scan_rep q3 (drop_node (leaves ?q2 (node_at ?q2 p) rs fs) (put_before (weaker ?q2 (node_at ?q2 p)) p rs))
       (fs @ (case leaves ?q2 (node_at ?q2 p) rs fs of None \<Rightarrow> [] | Some s \<Rightarrow> [s]))"
    "sq_node (sq_mem q3) = (sq_node (sq_mem ?q2))(p := (node_at ?q2 p)\<lparr>sn_ttl := new_ttl env\<rparr>)"
    using push_result [OF r2 assms(2,7), of env] ok by auto
  have d: "distinct (put_before (weaker ?q2 (node_at ?q2 p)) p rs)"
    using assms(1) pr by (intro distinct_put_before) (simp_all add: scan_good_def unique_iff)
  have "leaves ?q2 (node_at ?q2 p) rs fs \<noteq> Some p" using pr assms(2) by (auto simp: leaves_def dest: find_SomeD split: option.splits if_splits)
  then have "p \<in> set (drop_node (leaves ?q2 (node_at ?q2 p) rs fs) (put_before (weaker ?q2 (node_at ?q2 p)) p rs))"
    unfolding drop_node_props(2) [OF d] by (auto split: option.splits)
  moreover have "scan_handle_frame env now fm len q = Some q3" using c(1,4) assms(5) p3(1,2) by (simp add: scan_handle_frame_def)
  moreover have "node_at q3 p = n\<lparr>sn_ttl := new_ttl env\<rparr>" by (simp add: p3(4))
  ultimately show ?thesis using p3(3) by blast
qed

text \<open>(C4) From the air to the reader. While not connected and with no reader inside, a beacon or probe response with signal strength and well-formed elements is handled without an access
  outside of a buffer, and afterwards the queue holds an entry for its BSSID that shows the SSID, channel, rates, security element and standard of the frame; a reader who
  asks for this network gets the signal strength and quality of the frame. For a beacon there is no entry from a probe response of the
  same network.\<close>

theorem scan_finds_network:
  assumes "scan_reach deep q 0" "2 \<le> deep" "\<not> se_connected env"
    "scan_frame fc bssid capab es (fm_mgmt fm)" "ft = wf_80211_get_frame_type fc" "capab AND 3 \<noteq> 0"
    "\<forall>e\<in>set es. scan_elem_good ft e" "es \<noteq> []" "one_each es" "length (scan_rates es) \<le> 16" "length (ies_enc es) < 756"
    "fm_phy_valid fm" "not_held ft bssid q" "se_bssid env2 = bssid"
  shows "\<exists>q' rs fs p. scan_handle_frame env now fm (of_nat (44 + length (ies_enc es))) q = Some q' \<and> scan_reach deep q' 0 \<and>
    scan_rep q' rs fs \<and> p \<in> set rs \<and> sn_bssid (node_at q' p) = bssid \<and> node_shows ft es (node_at q' p) \<and> sn_privacy (node_at q' p) = (capab AND 0x10 \<noteq> 0) \<and>
    (\<exists>q''. wf_wlan_get_signal_and_qual False env2 q' = Some (q'', 1, Some (fm_qual fm, fm_strength fm)))"
proof -
  obtain rs fs0 where g: "scan_good q rs fs0" "length rs + length fs0 = deep" "fs0 \<noteq> []" "lock_inv q 0" using scan_reach_inv [OF assms(1,2)] by blast
  obtain p fs where fs: "fs0 = p # fs" using g(3) by (cases fs0) auto
  have ne: "rs \<noteq> [] \<or> fs \<noteq> []" "0 < sq_sema q" using g(2,4) assms(2) by (auto simp: fs lock_inv_def)
  obtain n where n: "wlan_mgmt_scan_node_info (se_p2p env) now fm (of_nat (44 + length (ies_enc es))) scan_node_zero = Some (n, 0)"
    "node_shows ft es n" "sn_bssid n = bssid" "sn_privacy n = (capab AND 0x10 \<noteq> 0)" "sn_strength n = fm_strength fm" "sn_qual n = fm_qual fm"
    using scan_info_result [OF assms(4-11), of "se_p2p env" now] assms(12) by auto
  have fc: "rd_le16 (fm_mgmt fm) 0 = Some fc"
    using assms(4) rd_le16_put [of 0 "[]" fc] by (auto simp: scan_frame_def)
  obtain q' rs' fs' where q': "scan_handle_frame env now fm (of_nat (44 + length (ies_enc es))) q = Some q'" "scan_rep q' rs' fs'" "p \<in> set rs'"
    "node_at q' p = n\<lparr>sn_ttl := new_ttl env\<rparr>"
    using handle_inserts [OF g(1) [unfolded fs] ne assms(3) n(1) assms(12) fc] assms(5,13) n(3) by blast
  have r: "scan_reach deep q' 0" using assms(1) work_frame [OF q'(1)] by (rule reach_work)
  obtain rs2 fs2 where g2: "scan_good q' rs2 fs2" "lock_inv q' 0" using scan_reach_inv [OF r assms(2)] by blast
  have "rs2 = rs'" using scan_rep_unique(1) [OF q'(2)] g2(1) by (auto simp: scan_good_def)
  then have "\<exists>q''. wf_wlan_get_signal_and_qual False env2 q' = Some (q'', 1, Some (fm_qual fm, fm_strength fm))"
    using signal_result [OF g2(1) _ _ g2(2), of p env2] q'(3,4) n(3,5,6) assms(14) by simp
  then show ?thesis using q' r n(2-4) by (intro exI [of _ q'] exI [of _ rs'] exI [of _ fs'] exI [of _ p]) simp
qed

lemma scan_finds_network_witness:
  "\<exists>q rs fs p. scan_rep q rs fs \<and> p \<in> set rs \<and> sn_bssid (node_at q p) = [1, 2, 3, 4, 5, 6] \<and> take 2 (sn_ssid (node_at q p)) = [72, 105] \<and>
    sn_channel (node_at q p) = 6"
proof -
  obtain q where q: "scan_reach 2 q 0" by (rule scan_start)
  let ?env = "\<lparr>se_connected = False, se_bssid = [1, 2, 3, 4, 5, 6], se_ttl = 10, se_p2p = False\<rparr>"
  let ?es = "[(0, [72, 105]), (1, [0x82, 0x84]), (3, [6])] :: elem list"
  let ?fm = "\<lparr>fm_strength = 50, fm_qual = 80, fm_phy_valid = True,
    fm_mgmt = le16_bytes 0x50 @ replicate 14 0 @ [1, 2, 3, 4, 5, 6] @ replicate 12 0 @ le16_bytes 1 @ ies_enc ?es @ []\<rparr>"
  have frame: "scan_frame 0x50 [1, 2, 3, 4, 5, 6] 1 ?es (fm_mgmt ?fm)"
    unfolding scan_frame_def by (rule exI [of _ "replicate 14 0"], rule exI [of _ "replicate 12 0"], rule exI [of _ "[]"]) simp
  have good: "\<forall>e\<in>set ?es. scan_elem_good 0x50 e" by (simp add: scan_elem_good_def)
  have ft: "0x50 = wf_80211_get_frame_type 0x50" by (simp add: wf_80211_get_frame_type_def)
  obtain q' rs fs p where "scan_rep q' rs fs" "p \<in> set rs" "sn_bssid (node_at q' p) = [1, 2, 3, 4, 5, 6]" "node_shows 0x50 ?es (node_at q' p)"
    using scan_finds_network [OF q _ _ frame ft _ good, of ?env ?env 0] by (auto simp: one_each_def ie_enc_def not_held_def)
  moreover from this(4) have s: "take (Suc (Suc 0)) (sn_ssid (node_at q' p)) = [72, 105]" and c: "sn_channel (node_at q' p) = 6"
    by (auto simp: node_shows_def ssid_shown_def)
  moreover have "take 2 (sn_ssid (node_at q' p)) = [72, 105]" using s by (simp only: numeral_2_eq_2)
  ultimately show ?thesis by blast
qed

section \<open>The life of an entry\<close>

primrec refresh_times :: "nat \<Rightarrow> u8 list \<Rightarrow> scan_que \<Rightarrow> scan_que option" where
  "refresh_times 0 chs q = Some q"
| "refresh_times (Suc k) chs q = do { q' \<leftarrow> wlan_mgmt_scan_que_refresh chs q; refresh_times k chs q' }"

text \<open>An entry with the time to live \<open>t\<close> is removed by refresh number \<open>t\<close>, one with 0 by the next; until then each refresh takes one off.\<close>

lemma refresh_times_result:
  assumes "scan_rep q rs fs" "0 < sq_sema q" "p \<in> set rs \<longrightarrow> sn_channel (node_at q p) \<in> set chs"
  shows "\<exists>q' rs' fs'. refresh_times k chs q = Some q' \<and> scan_rep q' rs' fs' \<and> 0 < sq_sema q' \<and>
    (p \<in> set rs' \<longleftrightarrow> p \<in> set rs \<and> k < max 1 (unat (sn_ttl (node_at q p)))) \<and>
    (p \<in> set rs' \<longrightarrow> sn_channel (node_at q' p) \<in> set chs \<and> unat (sn_ttl (node_at q' p)) = unat (sn_ttl (node_at q p)) - k)"
  using assms
proof (induction k arbitrary: q rs fs)
  case 0
  then show ?case by auto
next
  case (Suc k)
  obtain q1 where r: "wlan_mgmt_scan_que_refresh chs q = Some q1" "same_lock q q1"
    "scan_rep q1 (filter (\<lambda>p. \<not> (expired chs (node_at q p) \<and> 0 < sq_sema q)) rs) (fs @ filter (\<lambda>p. expired chs (node_at q p) \<and> 0 < sq_sema q) rs)"
    "\<forall>p. node_at q1 p = (if p \<in> set rs then aged chs (node_at q p) else node_at q p)" by (rule refresh_result [OF Suc.prems(1)])
  let ?rs = "filter (\<lambda>p. \<not> (expired chs (node_at q p) \<and> 0 < sq_sema q)) rs" and ?t = "unat (sn_ttl (node_at q p))"
  have s: "0 < sq_sema q1" using r(2) Suc.prems(2) by (simp add: same_lock_def)
  have a: "unat (sn_ttl (aged chs (node_at q p))) = ?t - 1" if "p \<in> set rs"
    using that Suc.prems(3) by (simp add: aged_def unat_minus_one)
  have c: "p \<in> set rs \<Longrightarrow> sn_channel (node_at q1 p) \<in> set chs \<and> unat (sn_ttl (node_at q1 p)) = ?t - 1"
    using r(4) Suc.prems(3) a by (auto simp: aged_def)
  have m: "p \<in> set ?rs \<longleftrightarrow> p \<in> set rs \<and> 1 < ?t"
    using a Suc.prems(2,3) unfolding expired_def by (auto simp: word_unat_eq_iff)
  have "p \<in> set ?rs \<longrightarrow> sn_channel (node_at q1 p) \<in> set chs" using c m by blast
  from Suc.IH [OF r(3) s this] obtain q' rs' fs' where i: "refresh_times k chs q1 = Some q'" "scan_rep q' rs' fs'" "0 < sq_sema q'"
    "p \<in> set rs' \<longleftrightarrow> p \<in> set ?rs \<and> k < max 1 (unat (sn_ttl (node_at q1 p)))"
    "p \<in> set rs' \<longrightarrow> sn_channel (node_at q' p) \<in> set chs \<and> unat (sn_ttl (node_at q' p)) = unat (sn_ttl (node_at q1 p)) - k" by blast
  have "p \<in> set rs' \<longleftrightarrow> p \<in> set rs \<and> Suc k < max 1 ?t" unfolding i(4) m using c by auto
  moreover have "p \<in> set rs' \<Longrightarrow> p \<in> set rs" using i(4) m by blast
  ultimately show ?case using i(1-3,5) r(1) c by auto
qed

lemma unat_new_ttl: "unat (new_ttl env) = 83886080 + unat (se_ttl env)"
proof -
  let ?t = "ucast (se_ttl env) :: u32"
  have u: "unat ?t = unat (se_ttl env)" using unat_u8_less [of "se_ttl env"] by (simp add: unsigned_ucast_eq take_bit_nat_eq_self)
  have "?t AND push_bit 24 y = 0" for y by (rule bit_word_eqI) (auto simp: bit_simps dest: bit_imp_le_length)
  then have "?t AND push_bit 24 5 = 0" .
  then have "new_ttl env = ?t + push_bit 24 5" unfolding new_ttl_def by (simp add: disjunctive_add_eq_or)
  moreover have "push_bit 24 5 = (83886080 :: u32)" by (simp add: push_bit_eq_mult)
  ultimately show ?thesis using u unat_u8_less [of "se_ttl env"] by (simp add: unat_word_ariths)
qed

lemma unat_low_byte: "unat (x AND 0xFF :: u32) = unat x mod 256"
proof -
  have "x AND 0xFF = take_bit 8 x" by (simp add: take_bit_eq_mask mask_eq_exp_minus_1)
  then show ?thesis by (simp add: unsigned_take_bit_eq take_bit_nat_def)
qed

text \<open>(C40) How long an entry lives that is not renewed. With the count of held beacons in the upper byte of \<open>ttl\<close>, an entry that nobody has read is kept for 83886080
  (5 * 2 ^ 24) refreshes more than the configured time to live. A reader cuts \<open>ttl\<close> to its low byte: an entry that is read after \<open>j\<close> refreshes is kept for
  \<open>(83886080 + ttl - j) mod 256\<close> more, at least until the next one. That is the rest of the configured time when \<open>j\<close> is at most the time to live; read later, the
  entry stays for up to 255 refreshes more.\<close>

theorem scan_entry_lifetime:
  assumes "scan_rep q rs fs" "0 < sq_sema q" "p \<in> set rs" "sn_channel (node_at q p) \<in> set chs" "sn_ttl (node_at q p) = new_ttl env"
    "j < 83886080 + unat (se_ttl env)"
  shows "(\<exists>q' rs' fs'. refresh_times k chs q = Some q' \<and> scan_rep q' rs' fs' \<and> (p \<in> set rs' \<longleftrightarrow> k < 83886080 + unat (se_ttl env))) \<and>
    (\<exists>qj q' rs' fs'. refresh_times j chs q = Some qj \<and> refresh_times k chs (scan_visit p qj) = Some q' \<and> scan_rep q' rs' fs' \<and>
       (p \<in> set rs' \<longleftrightarrow> k < max 1 ((83886080 + unat (se_ttl env) - j) mod 256)))"
proof
  note t = assms(5) unat_new_ttl [of env]
  show "\<exists>q' rs' fs'. refresh_times k chs q = Some q' \<and> scan_rep q' rs' fs' \<and> (p \<in> set rs' \<longleftrightarrow> k < 83886080 + unat (se_ttl env))"
    using refresh_times_result [OF assms(1,2), of p chs k] assms(3,4) t by auto
  obtain qj rsj fsj where j: "refresh_times j chs q = Some qj" "scan_rep qj rsj fsj" "0 < sq_sema qj" "p \<in> set rsj"
      "sn_channel (node_at qj p) \<in> set chs" "unat (sn_ttl (node_at qj p)) = 83886080 + unat (se_ttl env) - j"
    using refresh_times_result [OF assms(1,2), of p chs j] assms(3,4,6) t by auto
  let ?q = "scan_visit p qj"
  have v: "sn_channel (node_at ?q p) \<in> set chs" "unat (sn_ttl (node_at ?q p)) = (83886080 + unat (se_ttl env) - j) mod 256"
    using j(5,6) unat_low_byte by (simp_all add: scan_visit_def)
  have "scan_rep ?q rsj fsj" "0 < sq_sema ?q" using j(2,3) by (simp_all add: scan_visit_def)
  from refresh_times_result [OF this, of p chs k] v(1) obtain q' rs' fs' where "refresh_times k chs ?q = Some q'" "scan_rep q' rs' fs'"
      "p \<in> set rs' \<longleftrightarrow> p \<in> set rsj \<and> k < max 1 (unat (sn_ttl (node_at ?q p)))" by blast
  then show "\<exists>qj q' rs' fs'. refresh_times j chs q = Some qj \<and> refresh_times k chs (scan_visit p qj) = Some q' \<and> scan_rep q' rs' fs' \<and>
      (p \<in> set rs' \<longleftrightarrow> k < max 1 ((83886080 + unat (se_ttl env) - j) mod 256))"
    using j(1,4) unfolding v(2) by blast
qed

lemma scan_entry_lifetime_witness:
  "\<exists>qj q' rs' fs'. refresh_times 11 [6] (one_entry (scan_node_zero\<lparr>sn_ttl := new_ttl \<lparr>se_connected = False, se_bssid = [], se_ttl = 10, se_p2p = False\<rparr>, sn_channel := 6\<rparr>)) = Some qj \<and>
    refresh_times 254 [6] (scan_visit 3 qj) = Some q' \<and> scan_rep q' rs' fs' \<and> 3 \<in> set rs'"
proof -
  let ?env = "\<lparr>se_connected = False, se_bssid = [], se_ttl = 10, se_p2p = False\<rparr>"
  let ?n = "scan_node_zero\<lparr>sn_ttl := new_ttl ?env, sn_channel := 6\<rparr>"
  show ?thesis using scan_entry_lifetime [OF one_entry_rep [of ?n], of 3 "[6]" ?env 11 254] by (auto simp: one_entry_def)
qed

end
