(* ===== verification/Spec2Isabelle.thy ===== *)
theory Spec2Isabelle
  imports Wf_Msg Sec Wdn_Update Rx_Flow Action Auth_Fail Ap_Thrd Scan_Find
begin

text \<open>
  Verification of the SmartChip S9083/S9188 wireless driver, \<open>src/trunk_driver\<close>.

  \<^bold>\<open>The program.\<close> The driver is a Wi-Fi network interface in software. Its core under
  \<open>src/trunk_driver/nic\<close> is independent of the operating system; the ports under
  \<open>src/trunk_driver/os\<close> connect it to a bus and to a network stack. A buffer of the bus holds
  packets, each with a receive descriptor; the receive path (\<open>rx.c\<close>) checks and parses them,
  finds the sending peer in the table of peers (\<open>wdn.c\<close>), decrypts (\<open>sec.c\<close>, \<open>sec_wep.c\<close>,
  \<open>sec_tkip.c\<close>, \<open>sec_arc4.c\<close>), and passes data frames through the reorder buffer of their
  block-ack session to the network stack. Management frames are parsed into information elements
  (\<open>wf_80211.c\<close>, \<open>ie.c\<close>), from which the state of a peer is filled. A station joins an access
  point by authentication (\<open>auth.c\<close>) and association (\<open>assoc.c\<close>); both ends are protothreads that a
  workqueue calls again and again, and an access point has one such thread per peer (\<open>ap.c\<close>). The parts talk to each other
  through message queues (\<open>utility/wf_msg.c\<close>), built on intrusive lists and queues
  (\<open>utility/wf_list.h\<close>, \<open>utility/wf_que.c\<close>).

  \<^bold>\<open>Theories.\<close>
  \<^item> \<open>Wf_Prelude\<close>: machine integers, return codes, bounded access to byte buffers (\<open>rd8\<close>, \<open>rdn\<close>,
    \<open>wrn\<close>), words and their bytes.
  \<^item> \<open>Wf_List\<close>, \<open>Wf_Que\<close>: \<open>wf_list.h\<close> and \<open>wf_que.c\<close> on a store of \<open>next\<close> and \<open>prev\<close> links; \<open>dll\<close> and
    \<open>wf_que_rep\<close> say which nodes a head or a queue links. The locale \<open>intrusive_queue\<close> is what users of a
    queue rely on, interpreted as \<open>que\<close>; from it the queue is first-in first-out.
  \<^item> \<open>Wf_Msg\<close>: \<open>wf_msg.c\<close>. Reachable states by an inductive step relation: no message is lost or
    duplicated, the pending messages are sorted, insertion is stable; freeing ends and frees all;
    pushing a pending message again breaks the queue.
  \<^item> \<open>Nic_Queue\<close>: the singly linked queue macros of \<open>queue.h\<close>.
  \<^item> \<open>Sec_Types\<close>, \<open>Sec_Arc4\<close>, \<open>Sec_Wep\<close>, \<open>Sec_Tkip\<close>, \<open>Sec\<close>: the security code. The locale
    \<open>stream_cipher\<close> (interpreted as \<open>arc4\<close>) carries the round trips of WEP and TKIP frames; the
    table-driven CRC is the bit-serial CRC-32, the incremental MIC is Michael, different packet
    numbers give different RC4 keys; dispatch touches only the payload.
  \<^item> \<open>Wdn_Info\<close>, \<open>Wdn\<close>: \<open>wdn.c\<close>, the table of peers on two intrusive lists. The locale \<open>peer_table\<close>
    (interpreted as \<open>wdn\<close>) says that a peer is found until it is removed; the invariant of the lists,
    the ids and the bitmap holds in every reachable state.
  \<^item> \<open>Wf_80211\<close>, \<open>Ie\<close>, \<open>Wdn_Update\<close>: searching and parsing elements (\<open>wf_80211.c\<close>), the handlers of
    single elements (\<open>ie.c\<close>), and their composition \<open>wf_wdn_data_update\<close>. What well-formed elements
    give, and where malformed ones lead outside a buffer, into an endless loop or to wrong results.
  \<^item> \<open>Rx_Frame\<close>, \<open>Rx_Process\<close>, \<open>Rx_Work\<close>: the receive path from the bus buffer (\<open>rx_work\<close> and
    \<open>mpdu_process\<close> of \<open>os/linux/rx_linux.c\<close>) through descriptor, header, address checks, duplicate filter,
    decryption and defragmentation (\<open>rx.c\<close>). An aggregate is split into its packets, a plain frame
    passes, a duplicate does not; fragments are never reassembled.
  \<^item> \<open>Rx_Reorder\<close>, \<open>Rx_Order\<close>: the reorder buffer of a block-ack session (\<open>rx.c\<close>) on linked nodes, and its
    refinement of a buffer with unbounded sequence numbers, through the locale \<open>simulates\<close>
    (interpreted as \<open>ro\<close>). As long as the sender's numbers stay near the highest one, the code delivers what a buffer that sees the
    full numbers delivers (\<open>ideal_run\<close>), in order; of a window that arrives in any order, all packets from the first arrival on.
  \<^item> \<open>Rx_Eth\<close>, \<open>Rx_Flow\<close>: the rest of \<open>os/linux/rx_linux.c\<close>: A-MSDUs are taken apart, frames converted to
    Ethernet and given to the network stack, forwarded by an access point, or passed to the reorder
    buffer. An A-MSDU gives the frames it was made of, a socket buffer is given away exactly once, and the
    frames of a session that arrive in any order reach the network stack converted and in order, from the number of the
    first arrival on (composition of conversion, reorder buffer and hand-over).
  \<^item> \<open>Action\<close>: \<open>action.c\<close> and the block-ack threads of \<open>mlme.c\<close>. The negotiation between two stations
    completes, marking the traffic id modulo 8, and asks once per traffic id; what is lost by the starting number that is not used, by the
    parsing of DELBA, and by the lock that is kept.
  \<^item> \<open>Wf_Pt\<close>, \<open>Wf_Timer\<close>: protothreads as step functions on their labels, with the locale \<open>protothread\<close> by which a call
    is shown to return, and timers, which are right across the wrap-around of the tick counter.
  \<^item> \<open>Msg_Box\<close>, \<open>Ap_Msg\<close>: messages as threads use them. The locale \<open>message_box\<close> (interpreted as \<open>mb\<close> on the operations of
    \<open>Wf_Msg\<close>) says which messages are pending, free or held; \<open>Ap_Msg\<close> has the message pool of access point mode, from \<open>ap.c\<close>.
  \<^item> \<open>Auth\<close>, \<open>Auth_Sta\<close>, \<open>Auth_Ap\<close>: authentication (\<open>auth.c\<close>), the threads of a station and of an access point,
    the frames they send and receive. Every call of the thread of the station returns (\<open>protothread\<close> interpreted as
    \<open>sta\<close>) when the pending frames are well formed, and sending keeps the types of the state.
  \<^item> \<open>Auth_Run\<close>, \<open>Auth_Air\<close>, \<open>Auth_Fail\<close>: what single calls do, and whole runs. With frames delivered in both directions
    open and shared key authentication reach success (composition of both threads, the message queues, the pool, the
    peer and WEP); a station without answers gives up after three requests; what is lost or left unset when an
    access point refuses or sends no challenge.
  \<^item> \<open>Assoc\<close>, \<open>Assoc_Sta\<close>: the station in association (\<open>assoc.c\<close>): the request as a list of encoded elements, the response,
    the thread. Every call of the thread returns (\<open>protothread\<close> interpreted as \<open>asc\<close>) for responses of 30 to 796 bytes; a shorter one leads outside memory.
  \<^item> \<open>Assoc_Ap\<close>, \<open>Assoc_Req\<close>: the access point in association, its loop over the elements of a request and the handlers of
    single elements; what the elements of a station's request do to the peer, and which members of the peer they touch.
  \<^item> \<open>Assoc_Air\<close>, \<open>Assoc_Fail\<close>: a whole association: the request that the station builds is parsed and accepted by the access
    point and its response ends the thread of the station with success. A request without elements, and what a
    malformed one does.
  \<^item> \<open>Ap_Thrd\<close>: the thread of a peer of an access point (\<open>ap_thrd\<close> of \<open>ap.c\<close>): authentication, association, and the
    supervision of a connected peer. Every call of the supervision returns (\<open>protothread\<close> interpreted as \<open>mt\<close>), and the idle
    time of a peer adds up across calls.
  \<^item> \<open>Scan_Node\<close>, \<open>Scan_Info\<close>: an entry of the scan queue and how it is filled from a beacon or a probe response (\<open>wlan_mgmt.c\<close>).
  \<^item> \<open>Scan_Que\<close>, \<open>Scan_Order\<close>, \<open>Scan_Flush\<close>, \<open>Scan_Inv\<close>, \<open>Scan_Reach\<close>, \<open>Scan_Find\<close>: the scan queue of \<open>wlan_mgmt.c\<close> on linked entries, with readers in
    other threads, a read count and a semaphore. In every state between completed operations it is sorted and free of duplicates, a reader sees no
    change, a received network is found; flushing a queue with entries never ends, and entries that nobody reads hardly age.

  \<^bold>\<open>How the code is modelled.\<close> Structures are records restricted to the members the modelled code
  uses; arrays are lists; memory shared through pointers is a function from addresses in a record
  that is passed through. Integers have their width. A result \<open>None\<close> of a function that returns an
  option stands for an access outside a buffer or to freed memory, a NULL that is dereferenced, a
  division by 0, or a loop that does not end (loops that may not end are \<open>partial_function (option)\<close>, so
  no fuel is needed); a theorem with \<open>Some\<close> on the right says that none of these happens. Return codes
  are integers as in the code. A lock that is held for a whole operation makes the operation one
  step. Effects on the outside (packets passed up, sent frames, freed memory, firmware commands,
  timers) are recorded in the state or returned. The clock is an argument of a call of a thread, and stands still during the call. Local variables that the code leaves uninitialised, results of
  the allocator and the sign of \<open>memcmp\<close> are arguments. The target is little-endian. Switches of the
  build are boolean arguments where both settings are modelled (\<open>CONFIG_RICHV200\<close> for the size of the transmit
  descriptor, \<open>CONFIG_RICHV300\<close> for the descriptor checksum, access point and ad-hoc mode); the receive
  path is modelled for \<open>CONFIG_RICHV200\<close>, without \<open>CONFIG_LPS\<close>, \<open>CONFIG_MP_MODE\<close> and monitor mode.
  Log output is left out.

  \<^bold>\<open>Bounds.\<close> Byte counts are below the width of the C type that holds them where a theorem
  needs it: less than \<open>2 ^ 31\<close> bytes for a CRC, less than \<open>2 ^ 16\<close> for the elements of a frame and for a
  bus buffer; the reorder buffer has 64 nodes and a window of 64, as in the code.

  \<^bold>\<open>Not modelled.\<close> The transmit path (\<open>tx.c\<close>), whose results authentication, association and the action frames take as
  arguments; the state machines of scanning and connection (\<open>scan.c\<close>, and
  \<open>mlme.c\<close> but for its block-ack threads), which are protothreads like those of authentication and association; of \<open>wlan_mgmt.c\<close> the dispatch of management frames, an argument of
  the receive path; of access point mode (\<open>ap.c\<close>) the beacons, probe responses, keys, the release of the pool and the control requests; ad-hoc mode, power
  save and Wi-Fi Direct. Left aside are
  device and firmware I/O (\<open>nic_io.c\<close>, \<open>mcu_cmd.c\<close>, \<open>hw_info.c\<close>, \<open>fw_download.c\<close>), hardware tuning (\<open>ars\<close>),
  the other ports under \<open>os\<close>, and the vendored operating system under \<open>src/RT-Thread\<close>.
\<close>

end
